(* ===== verification/Bof_Prelude.thy ===== *)
theory Bof_Prelude
  imports Main "HOL-Library.Word"
begin

text \<open>
  The vocabulary shared by the models of the bofstd components: the machine
  integers, the error codes of \<^verbatim>\<open>boferr.h\<close>, the outcome of a call, checked
  array accesses, assertions, and the generic lemmas on machine words, lists
  and counters that the component proofs rest on.
\<close>

section \<open>Machine integers and error codes\<close>

type_synonym u8 = "8 word"
type_synonym u16 = "16 word"
type_synonym u32 = "32 word"
type_synonym u64 = "64 word"

text \<open>The error codes of \<^verbatim>\<open>enum BOFERR\<close> that the modelled code returns.\<close>

datatype BOFERR =
    BOF_ERR_NO_ERROR
  | BOF_ERR_ENOENT
  | BOF_ERR_ENOMEM
  | BOF_ERR_EBUSY
  | BOF_ERR_EEXIST
  | BOF_ERR_EINVAL
  | BOF_ERR_ETIMEDOUT
  | BOF_ERR_CREATE
  | BOF_ERR_NOT_FOUND
  | BOF_ERR_DUPLICATE
  | BOF_ERR_INIT
  | BOF_ERR_INTERNAL
  | BOF_ERR_FULL
  | BOF_ERR_EMPTY
  | BOF_ERR_SET
  | BOF_ERR_LOCK
  | BOF_ERR_UNLOCK
  | BOF_ERR_WRONG_MODE
  | BOF_ERR_BAD_TYPE
  | BOF_ERR_TOO_BIG
  | BOF_ERR_TOO_SMALL
  | BOF_ERR_OUT_OF_RANGE
  | BOF_ERR_OPERATION_FAILED
  | BOF_ERR_NOT_AVAILABLE
  | BOF_ERR_NOT_OPENED
  | BOF_ERR_FORMAT
  | BOF_ERR_EOF
  | BOF_ERR_INDEX
  | BOF_ERR_CURSOR
  | BOF_ERR_NO_MORE

section \<open>Outcome of a call\<close>

text \<open>
  A call returns (\<open>Ret\<close>), never gets a mutex it asks for (\<open>Blocked\<close>), is
  stopped by \<^verbatim>\<open>BOF_ASSERT\<close> (\<open>AssertFailed\<close>), does something C++ gives no
  meaning to, such as an access outside an array (\<open>Undefined\<close>), or is still
  in its retry loop when the schedule it is run against ends (\<open>Retrying\<close>).
\<close>

datatype 'a outcome = Ret 'a | Blocked | AssertFailed | Undefined | Retrying

primrec bindO :: "'a outcome \<Rightarrow> ('a \<Rightarrow> 'b outcome) \<Rightarrow> 'b outcome" where
  "bindO (Ret a) f = f a"
| "bindO Blocked f = Blocked"
| "bindO AssertFailed f = AssertFailed"
| "bindO Undefined f = Undefined"
| "bindO Retrying f = Retrying"

text \<open>\<^verbatim>\<open>BOF_ASSERT\<close> stops the program when its condition is false.\<close>

definition BOF_ASSERT :: "bool \<Rightarrow> 'b outcome \<Rightarrow> 'b outcome" where
  "BOF_ASSERT P k = (if P then k else AssertFailed)"

text \<open>\<open>rd xs i k\<close> reads \<^verbatim>\<open>xs[i]\<close>, \<open>wr xs i v k\<close> writes it; a null array is \<open>[]\<close>.\<close>

definition rd :: "'a list \<Rightarrow> 'l::len word \<Rightarrow> ('a \<Rightarrow> 'b outcome) \<Rightarrow> 'b outcome" where
  "rd xs i k = (if unat i < length xs then k (xs ! unat i) else Undefined)"

definition wr :: "'a list \<Rightarrow> 'l::len word \<Rightarrow> 'a \<Rightarrow> ('a list \<Rightarrow> 'b outcome) \<Rightarrow> 'b outcome" where
  "wr xs i v k = (if unat i < length xs then k (xs[unat i := v]) else Undefined)"

text \<open>The same with an index that is not a machine word.\<close>

definition rdn :: "'a list \<Rightarrow> nat \<Rightarrow> ('a \<Rightarrow> 'b outcome) \<Rightarrow> 'b outcome" where
  "rdn xs i k = (if i < length xs then k (xs ! i) else Undefined)"

definition wrn :: "'a list \<Rightarrow> nat \<Rightarrow> 'a \<Rightarrow> ('a list \<Rightarrow> 'b outcome) \<Rightarrow> 'b outcome" where
  "wrn xs i v k = (if i < length xs then k (xs[i := v]) else Undefined)"

text \<open>\<^verbatim>\<open>std::to_string\<close> of an unsigned integer.\<close>

fun std_to_string :: "nat \<Rightarrow> string" where
  "std_to_string n = (if n < 10 then [char_of (48 + n)] else std_to_string (n div 10) @ [char_of (48 + n mod 10)])"

declare std_to_string.simps [simp del]

named_theorems outcome_simps \<open>evaluation of outcomes, assertions and array accesses\<close>

lemma BOF_ASSERT_True [simp]: "P \<Longrightarrow> BOF_ASSERT P k = k"
  by (simp add: BOF_ASSERT_def)

lemma rd_in [simp]: "unat i < length xs \<Longrightarrow> rd xs i k = k (xs ! unat i)"
  by (simp add: rd_def)

lemma wr_in [simp]: "unat i < length xs \<Longrightarrow> wr xs i v k = k (xs[unat i := v])"
  by (simp add: wr_def)

lemma rdn_in [simp]: "i < length xs \<Longrightarrow> rdn xs i k = k (xs ! i)"
  by (simp add: rdn_def)

lemma wrn_in [simp]: "i < length xs \<Longrightarrow> wrn xs i v k = k (xs[i := v])"
  by (simp add: wrn_def)

lemma bindO_eq_Ret_iff [outcome_simps]:
  "bindO m f = Ret b \<longleftrightarrow> (\<exists>a. m = Ret a \<and> f a = Ret b)"
  by (cases m) auto

lemma BOF_ASSERT_eq_Ret_iff [outcome_simps]: "BOF_ASSERT P k = Ret b \<longleftrightarrow> P \<and> k = Ret b"
  by (simp add: BOF_ASSERT_def)

lemma rd_eq_Ret_iff [outcome_simps]:
  "rd xs i k = Ret b \<longleftrightarrow> unat i < length xs \<and> k (xs ! unat i) = Ret b"
  by (simp add: rd_def)

lemma wr_eq_Ret_iff [outcome_simps]:
  "wr xs i v k = Ret b \<longleftrightarrow> unat i < length xs \<and> k (xs[unat i := v]) = Ret b"
  by (simp add: wr_def)

lemma bindO_assoc: "bindO (bindO m f) g = bindO m (\<lambda>x. bindO (f x) g)"
  by (cases m) simp_all

lemma bindO_Ret [simp]: "bindO m Ret = m"
  by (cases m) simp_all

section \<open>Lists\<close>

lemma distinct_split_index:
  "distinct ns \<Longrightarrow> i < length ns \<Longrightarrow> ns = xs @ ns ! i # ys \<Longrightarrow> length xs = i"
  by (metis distinct_conv_nth length_append length_Cons add_Suc_right le_add1 less_Suc_eq_le nth_append_length)

section \<open>Words as bounded counters\<close>

lemma unat_Suc_less: "unat (i::'l::len word) < n \<Longrightarrow> n \<le> unat (m::'l word) \<Longrightarrow> unat (i + 1) = Suc (unat i)"
proof -
  assume a: "unat i < n" "n \<le> unat m"
  have "unat m < 2 ^ LENGTH('l)" by (rule unsigned_less)
  with a have "unat i + 1 < 2 ^ LENGTH('l)" by linarith
  then show ?thesis by (simp add: unat_word_ariths)
qed

lemma unat_Suc_lt [simp]: "(i::'l::len word) < m \<Longrightarrow> unat (i + 1) = Suc (unat i)"
  using unat_Suc_less [of i "unat m" m] by (simp add: word_less_nat_alt)

lemma unat_pred_pos [simp]: "(i::'l::len word) \<noteq> 0 \<Longrightarrow> unat (i - 1) = unat i - 1"
  using unat_gt_0 [of i] by (simp add: unat_sub word_le_nat_alt Suc_leI)

lemma unat_of_nat_le: "n \<le> unat (x::'l::len word) \<Longrightarrow> unat (of_nat n :: 'l word) = n"
proof -
  assume a: "n \<le> unat x"
  have "unat x < 2 ^ LENGTH('l)" by (rule unsigned_less)
  with a have "n < 2 ^ LENGTH('l)" by (rule le_less_trans)
  then show ?thesis by (simp add: unsigned_of_nat take_bit_nat_eq_self)
qed

lemma unat_add_le: "unat (a::'l::len word) + unat b \<le> unat (x::'l word) \<Longrightarrow> unat (a + b) = unat a + unat b"
proof -
  assume a: "unat a + unat b \<le> unat x"
  have "unat x < 2 ^ LENGTH('l)" by (rule unsigned_less)
  with a have "unat a + unat b < 2 ^ LENGTH('l)" by (rule le_less_trans)
  then show ?thesis by (simp add: unat_word_ariths)
qed

lemma word_pos_unat: "(0::'l::len word) < i \<longleftrightarrow> 0 < unat i"
  by (simp add: word_less_nat_alt)

section \<open>The first element of a list, if there is one\<close>

definition opt_hd :: "'a list \<Rightarrow> 'a option" where
  "opt_hd xs = (case xs of [] \<Rightarrow> None | x # _ \<Rightarrow> Some x)"

lemma opt_hd_simps [simp]: "opt_hd [] = None" "opt_hd (x # xs) = Some x"
  by (simp_all add: opt_hd_def)

lemma length_filter_update:
  "i < length L \<Longrightarrow> length (filter P (L[i := x])) + (if P (L ! i) then 1 else 0)
     = length (filter P L) + (if P x then 1 else 0)"
  by (induction L arbitrary: i) (fastforce split: nat.split)+

end
