(* ===== verification/Bof_Sync.thy ===== *)
theory Bof_Sync
  imports Bof_Prelude
begin

text \<open>
  The synchronisation objects of \<^verbatim>\<open>bofsystem.h\<close> and \<^verbatim>\<open>bofsystem.cpp\<close>: mutex,
  event and counting semaphore. The model takes the point of view of the
  thread that makes the call: a \<^verbatim>\<open>std::mutex\<close> is free, held by that thread
  (with its recursion depth) or held by another one. A condition-variable
  wait is described by the state of the object at the moment the wait ends;
  the callers apply the actions of the other threads before it.
\<close>

unbundle bit_operations_syntax

section \<open>The mutexes of the standard library\<close>

datatype std_mutex = Unowned | OwnedBySelf nat | OwnedByOther

fun std_mutex_lock :: "std_mutex \<Rightarrow> std_mutex outcome" where
  "std_mutex_lock Unowned = Ret (OwnedBySelf 1)"
| "std_mutex_lock _ = Blocked"

fun std_recursive_mutex_lock :: "std_mutex \<Rightarrow> std_mutex outcome" where
  "std_recursive_mutex_lock Unowned = Ret (OwnedBySelf 1)"
| "std_recursive_mutex_lock (OwnedBySelf d) = Ret (OwnedBySelf (Suc d))"
| "std_recursive_mutex_lock OwnedByOther = Blocked"

fun std_mutex_try_lock :: "std_mutex \<Rightarrow> std_mutex \<times> bool" where
  "std_mutex_try_lock Unowned = (OwnedBySelf 1, True)"
| "std_mutex_try_lock m = (m, False)"

fun std_recursive_mutex_try_lock :: "std_mutex \<Rightarrow> std_mutex \<times> bool" where
  "std_recursive_mutex_try_lock Unowned = (OwnedBySelf 1, True)"
| "std_recursive_mutex_try_lock (OwnedBySelf d) = (OwnedBySelf (Suc d), True)"
| "std_recursive_mutex_try_lock OwnedByOther = (OwnedByOther, False)"

text \<open>Unlocking a mutex the caller does not own has no meaning in C++.\<close>

fun std_mutex_unlock :: "std_mutex \<Rightarrow> std_mutex outcome" where
  "std_mutex_unlock (OwnedBySelf d) =
     (if d = 0 then Undefined else if d = 1 then Ret Unowned else Ret (OwnedBySelf (d - 1)))"
| "std_mutex_unlock _ = Undefined"

section \<open>BOF_MUTEX\<close>

definition BOF_MUTEX_MAGIC :: u32 where
  "BOF_MUTEX_MAGIC = 0x01D654AC"

record BOF_MUTEX =
  mtx_Magic_U32 :: u32
  mtx_Name_S :: string
  mtx_Recursive_B :: bool
  mtx_RecursiveMtx :: std_mutex
  mtx_Mtx :: std_mutex

definition BOF_MUTEX_Reset :: "BOF_MUTEX \<Rightarrow> BOF_MUTEX" where
  "BOF_MUTEX_Reset m = m\<lparr>mtx_Magic_U32 := 0, mtx_Name_S := '''', mtx_Recursive_B := False\<rparr>"

definition BOF_MUTEX_ctor :: BOF_MUTEX where
  "BOF_MUTEX_ctor = BOF_MUTEX_Reset
     \<lparr>mtx_Magic_U32 = 0, mtx_Name_S = '''', mtx_Recursive_B = False,
      mtx_RecursiveMtx = Unowned, mtx_Mtx = Unowned\<rparr>"

text \<open>
  With priority inheritance the native mutexes are destroyed and initialised
  again, which C gives no meaning to while one of them is held.
\<close>

definition Bof_CreateMutex ::
  "string \<Rightarrow> bool \<Rightarrow> bool \<Rightarrow> BOF_MUTEX \<Rightarrow> (BOF_MUTEX \<times> BOFERR) outcome" where
  "Bof_CreateMutex Name_S Recursive_B PriorityInversionAware_B m =
     (if mtx_Magic_U32 m \<noteq> BOF_MUTEX_MAGIC then
        let m = (BOF_MUTEX_Reset m)\<lparr>mtx_Magic_U32 := BOF_MUTEX_MAGIC, mtx_Name_S := Name_S,
                                     mtx_Recursive_B := Recursive_B\<rparr>
        in if PriorityInversionAware_B
           then if mtx_Mtx m = Unowned \<and> mtx_RecursiveMtx m = Unowned
                then Ret (m\<lparr>mtx_Mtx := Unowned, mtx_RecursiveMtx := Unowned\<rparr>, BOF_ERR_NO_ERROR)
                else Undefined
           else Ret (m, BOF_ERR_NO_ERROR)
      else Ret (m, BOF_ERR_EEXIST))"

definition Bof_IsMutexValid :: "BOF_MUTEX \<Rightarrow> bool" where
  "Bof_IsMutexValid m = (mtx_Magic_U32 m = BOF_MUTEX_MAGIC)"

definition Bof_LockMutex :: "BOF_MUTEX \<Rightarrow> (BOF_MUTEX \<times> BOFERR) outcome" where
  "Bof_LockMutex m =
     (if mtx_Magic_U32 m = BOF_MUTEX_MAGIC then
        if mtx_Recursive_B m
        then bindO (std_recursive_mutex_lock (mtx_RecursiveMtx m))
               (\<lambda>x. Ret (m\<lparr>mtx_RecursiveMtx := x\<rparr>, BOF_ERR_NO_ERROR))
        else bindO (std_mutex_lock (mtx_Mtx m))
               (\<lambda>x. Ret (m\<lparr>mtx_Mtx := x\<rparr>, BOF_ERR_NO_ERROR))
      else Ret (m, BOF_ERR_INIT))"

definition Bof_TryLockMutex :: "BOF_MUTEX \<Rightarrow> BOF_MUTEX \<times> BOFERR" where
  "Bof_TryLockMutex m =
     (if mtx_Magic_U32 m = BOF_MUTEX_MAGIC then
        if mtx_Recursive_B m
        then case std_recursive_mutex_try_lock (mtx_RecursiveMtx m) of
               (x, Sts_B) \<Rightarrow> (m\<lparr>mtx_RecursiveMtx := x\<rparr>, if Sts_B then BOF_ERR_NO_ERROR else BOF_ERR_LOCK)
        else case std_mutex_try_lock (mtx_Mtx m) of
               (x, Sts_B) \<Rightarrow> (m\<lparr>mtx_Mtx := x\<rparr>, if Sts_B then BOF_ERR_NO_ERROR else BOF_ERR_LOCK)
      else (m, BOF_ERR_INIT))"

text \<open>
  The polling loop of \<^verbatim>\<open>Bof_WaitLockMutex\<close>. Each element of the schedule is one
  turn: what the other threads did to the mutex before the attempt, and the
  elapsed time read after it.
\<close>

fun Bof_WaitLockMutex_loop ::
  "((BOF_MUTEX \<Rightarrow> BOF_MUTEX) \<times> u32) list \<Rightarrow> BOF_MUTEX \<Rightarrow> u32 \<Rightarrow> (BOF_MUTEX \<times> BOFERR) outcome" where
  "Bof_WaitLockMutex_loop [] m TimeOutInMs_U32 = Retrying"
| "Bof_WaitLockMutex_loop ((env, Delta_U32) # sched) m TimeOutInMs_U32 =
     (case Bof_TryLockMutex (env m) of (m', Rts_E) \<Rightarrow>
        if Rts_E = BOF_ERR_NO_ERROR \<or> Rts_E = BOF_ERR_OPERATION_FAILED then Ret (m', Rts_E)
        else if Delta_U32 < TimeOutInMs_U32 then Bof_WaitLockMutex_loop sched m' TimeOutInMs_U32
        else Ret (m', Rts_E))"

definition Bof_WaitLockMutex ::
  "((BOF_MUTEX \<Rightarrow> BOF_MUTEX) \<times> u32) list \<Rightarrow> BOF_MUTEX \<Rightarrow> u32 \<Rightarrow> (BOF_MUTEX \<times> BOFERR) outcome" where
  "Bof_WaitLockMutex sched m TimeOutInMs_U32 =
     (if mtx_Magic_U32 m = BOF_MUTEX_MAGIC
      then Bof_WaitLockMutex_loop sched m TimeOutInMs_U32 else Ret (m, BOF_ERR_INIT))"

definition Bof_UnlockMutex :: "BOF_MUTEX \<Rightarrow> (BOF_MUTEX \<times> BOFERR) outcome" where
  "Bof_UnlockMutex m =
     (if mtx_Magic_U32 m = BOF_MUTEX_MAGIC then
        if mtx_Recursive_B m
        then bindO (std_mutex_unlock (mtx_RecursiveMtx m))
               (\<lambda>x. Ret (m\<lparr>mtx_RecursiveMtx := x\<rparr>, BOF_ERR_NO_ERROR))
        else bindO (std_mutex_unlock (mtx_Mtx m))
               (\<lambda>x. Ret (m\<lparr>mtx_Mtx := x\<rparr>, BOF_ERR_NO_ERROR))
      else Ret (m, BOF_ERR_INIT))"

definition Bof_DestroyMutex :: "BOF_MUTEX \<Rightarrow> BOF_MUTEX \<times> BOFERR" where
  "Bof_DestroyMutex m =
     (if mtx_Magic_U32 m = BOF_MUTEX_MAGIC then (BOF_MUTEX_Reset m, BOF_ERR_NO_ERROR)
      else (m, BOF_ERR_INIT))"

section \<open>BOF_EVENT\<close>

definition BOF_EVENT_MAGIC :: u32 where
  "BOF_EVENT_MAGIC = 0x1F564864"

record BOF_EVENT =
  evt_Magic_U32 :: u32
  evt_Name_S :: string
  evt_Mtx_X :: BOF_MUTEX
  evt_MaxNumberToNotify_U32 :: u32
  evt_SignaledBitmask_U64 :: u64
  evt_WaitKeepSignaled_B :: bool
  evt_NotifyAll_B :: bool

definition BOF_EVENT_Reset :: "BOF_EVENT \<Rightarrow> BOF_EVENT" where
  "BOF_EVENT_Reset e = e\<lparr>evt_Magic_U32 := 0, evt_Name_S := '''',
     evt_Mtx_X := BOF_MUTEX_Reset (evt_Mtx_X e), evt_MaxNumberToNotify_U32 := 0,
     evt_SignaledBitmask_U64 := 0, evt_WaitKeepSignaled_B := False, evt_NotifyAll_B := False\<rparr>"

definition BOF_EVENT_ctor :: BOF_EVENT where
  "BOF_EVENT_ctor = BOF_EVENT_Reset
     \<lparr>evt_Magic_U32 = 0, evt_Name_S = '''', evt_Mtx_X = BOF_MUTEX_ctor,
      evt_MaxNumberToNotify_U32 = 0, evt_SignaledBitmask_U64 = 0,
      evt_WaitKeepSignaled_B = False, evt_NotifyAll_B = False\<rparr>"

text \<open>
  The expression \<^verbatim>\<open>1 << k\<close> of type \<^verbatim>\<open>int\<close> (32 bits): it is the word \<open>2 ^ k\<close>, which
  is negative for \<open>k = 31\<close>, and has no meaning from 32 on.
\<close>

definition int_shl_1 :: "u32 \<Rightarrow> (u32 \<Rightarrow> 'b outcome) \<Rightarrow> 'b outcome" where
  "int_shl_1 k c = (if unat k < 32 then c (push_bit (unat k) 1) else Undefined)"

text \<open>An \<^verbatim>\<open>int\<close> converted to \<^verbatim>\<open>uint64_t\<close> is extended by its sign.\<close>

definition int_to_u64 :: "u32 \<Rightarrow> u64" where
  "int_to_u64 w = scast w"

text \<open>The 64-bit mask \<^verbatim>\<open>static_cast<uint64_t>(1) << Instance\<close>.\<close>

definition event_bit :: "u32 \<Rightarrow> u64" where
  "event_bit i = push_bit (unat i) 1"

text \<open>
  The initial bit mask is computed on \<^verbatim>\<open>int\<close>: it has no meaning when
  \<^verbatim>\<open>1 << (Max - 1)\<close> is out of range or is the least \<^verbatim>\<open>int\<close>, from which one is
  subtracted.
\<close>

definition event_initial_mask :: "bool \<Rightarrow> u32 \<Rightarrow> (u64 \<Rightarrow> 'b outcome) \<Rightarrow> 'b outcome" where
  "event_initial_mask InitialState_B Max_U32 c =
     (if InitialState_B
      then int_shl_1 (Max_U32 - 1)
             (\<lambda>w. if w = push_bit 31 1 then Undefined else c (int_to_u64 (w - 1)))
      else c 0)"

definition Bof_CreateEvent ::
  "string \<Rightarrow> bool \<Rightarrow> u32 \<Rightarrow> bool \<Rightarrow> bool \<Rightarrow> bool \<Rightarrow> BOF_EVENT \<Rightarrow> (BOF_EVENT \<times> BOFERR) outcome" where
  "Bof_CreateEvent Name_S InitialState_B MaxNumberToNotify_U32 WaitKeepSignaled_B NotifyAll_B
       PriorityInversionAware_B e =
     (if evt_Magic_U32 e \<noteq> BOF_EVENT_MAGIC then
        if MaxNumberToNotify_U32 \<noteq> 0 \<and> MaxNumberToNotify_U32 \<le> 64 then
          event_initial_mask InitialState_B MaxNumberToNotify_U32 (\<lambda>mask.
            let e = (BOF_EVENT_Reset e)\<lparr>evt_Name_S := Name_S, evt_SignaledBitmask_U64 := mask,
                       evt_MaxNumberToNotify_U32 := MaxNumberToNotify_U32,
                       evt_WaitKeepSignaled_B := WaitKeepSignaled_B,
                       evt_NotifyAll_B := NotifyAll_B\<rparr>
            in bindO (Bof_CreateMutex (evt_Name_S e) False PriorityInversionAware_B (evt_Mtx_X e))
                 (\<lambda>(m, Rts_E).
                    let e = e\<lparr>evt_Mtx_X := m\<rparr>
                    in Ret (if Rts_E = BOF_ERR_NO_ERROR then e\<lparr>evt_Magic_U32 := BOF_EVENT_MAGIC\<rparr> else e,
                            Rts_E)))
        else Ret (e, BOF_ERR_EINVAL)
      else Ret (e, BOF_ERR_EEXIST))"

definition Bof_IsEventValid :: "BOF_EVENT \<Rightarrow> bool" where
  "Bof_IsEventValid e = (evt_Magic_U32 e = BOF_EVENT_MAGIC)"

text \<open>
  The \<^verbatim>\<open>std::unique_lock\<close> of the event functions: the plain mutex is taken, the
  body runs, and the destructor gives the mutex back.
\<close>

definition unique_lock :: "BOF_MUTEX \<Rightarrow> 'b outcome \<Rightarrow> 'b outcome" where
  "unique_lock m k = bindO (std_mutex_lock (mtx_Mtx m)) (\<lambda>_. k)"

definition Bof_SignalEvent :: "BOF_EVENT \<Rightarrow> u32 \<Rightarrow> (BOF_EVENT \<times> BOFERR) outcome" where
  "Bof_SignalEvent e Instance_U32 =
     (if evt_Magic_U32 e = BOF_EVENT_MAGIC then
        if Instance_U32 < evt_MaxNumberToNotify_U32 e then
          unique_lock (evt_Mtx_X e)
            (Ret (e\<lparr>evt_SignaledBitmask_U64 := evt_SignaledBitmask_U64 e OR event_bit Instance_U32\<rparr>,
                  BOF_ERR_NO_ERROR))
        else Ret (e, BOF_ERR_EINVAL)
      else Ret (e, BOF_ERR_INIT))"

definition Bof_IsEventSignaled :: "BOF_EVENT \<Rightarrow> u32 \<Rightarrow> bool outcome" where
  "Bof_IsEventSignaled e Instance_U32 =
     (if evt_Magic_U32 e = BOF_EVENT_MAGIC then
        if Instance_U32 < evt_MaxNumberToNotify_U32 e then
          unique_lock (evt_Mtx_X e)
            (Ret (evt_SignaledBitmask_U64 e AND event_bit Instance_U32 \<noteq> 0))
        else Ret False
      else Ret False)"

definition Bof_SetEventMask :: "BOF_EVENT \<Rightarrow> u64 \<Rightarrow> (BOF_EVENT \<times> BOFERR) outcome" where
  "Bof_SetEventMask e EventVal_U64 =
     (if evt_Magic_U32 e = BOF_EVENT_MAGIC then
        unique_lock (evt_Mtx_X e)
          (Ret (e\<lparr>evt_SignaledBitmask_U64 := EventVal_U64\<rparr>, BOF_ERR_NO_ERROR))
      else Ret (e, BOF_ERR_INIT))"

definition Bof_GetEventMask :: "BOF_EVENT \<Rightarrow> (u64 \<times> BOFERR) outcome" where
  "Bof_GetEventMask e =
     (if evt_Magic_U32 e = BOF_EVENT_MAGIC then
        unique_lock (evt_Mtx_X e) (Ret (evt_SignaledBitmask_U64 e, BOF_ERR_NO_ERROR))
      else Ret (0, BOF_ERR_INIT))"

text \<open>
  The event argument of the three wait functions is the event at the moment
  \<^verbatim>\<open>wait_for\<close> evaluates its predicate for the last time: with the mask set the
  wait succeeds, and consumes the mask unless the event keeps its signal;
  otherwise the time is over. The mask that \<^verbatim>\<open>Bof_WaitForEvent\<close> clears is
  computed on \<^verbatim>\<open>int\<close>.
\<close>

definition Bof_WaitForEvent :: "BOF_EVENT \<Rightarrow> u32 \<Rightarrow> u32 \<Rightarrow> (BOF_EVENT \<times> BOFERR) outcome" where
  "Bof_WaitForEvent e TimeoutInMs_U32 Instance_U32 =
     (if evt_Magic_U32 e = BOF_EVENT_MAGIC then
        if Instance_U32 < evt_MaxNumberToNotify_U32 e then
          unique_lock (evt_Mtx_X e)
            (if evt_SignaledBitmask_U64 e AND event_bit Instance_U32 \<noteq> 0
             then if \<not> evt_WaitKeepSignaled_B e
                  then int_shl_1 Instance_U32 (\<lambda>w.
                         Ret (e\<lparr>evt_SignaledBitmask_U64 :=
                                  evt_SignaledBitmask_U64 e AND int_to_u64 (NOT w)\<rparr>, BOF_ERR_NO_ERROR))
                  else Ret (e, BOF_ERR_NO_ERROR)
             else Ret (e, BOF_ERR_ETIMEDOUT))
        else Ret (e, BOF_ERR_EINVAL)
      else Ret (e, BOF_ERR_INIT))"

definition Bof_WaitForEventMaskAnd :: "BOF_EVENT \<Rightarrow> u32 \<Rightarrow> u64 \<Rightarrow> (BOF_EVENT \<times> BOFERR) outcome" where
  "Bof_WaitForEventMaskAnd e TimeoutInMs_U32 EventMask_U64 =
     (if evt_Magic_U32 e = BOF_EVENT_MAGIC then
        unique_lock (evt_Mtx_X e)
          (if evt_SignaledBitmask_U64 e AND EventMask_U64 = EventMask_U64
           then Ret (if \<not> evt_WaitKeepSignaled_B e
                     then e\<lparr>evt_SignaledBitmask_U64 := evt_SignaledBitmask_U64 e AND NOT EventMask_U64\<rparr>
                     else e, BOF_ERR_NO_ERROR)
           else Ret (e, BOF_ERR_ETIMEDOUT))
      else Ret (e, BOF_ERR_INIT))"

definition Bof_WaitForEventMaskOr ::
  "BOF_EVENT \<Rightarrow> u32 \<Rightarrow> u64 \<Rightarrow> (BOF_EVENT \<times> u64 \<times> BOFERR) outcome" where
  "Bof_WaitForEventMaskOr e TimeoutInMs_U32 EventMask_U64 =
     (if evt_Magic_U32 e = BOF_EVENT_MAGIC then
        unique_lock (evt_Mtx_X e)
          (let EventGot_U64 = evt_SignaledBitmask_U64 e AND EventMask_U64
           in if EventGot_U64 \<noteq> 0
              then Ret (if \<not> evt_WaitKeepSignaled_B e
                        then e\<lparr>evt_SignaledBitmask_U64 := evt_SignaledBitmask_U64 e AND NOT EventGot_U64\<rparr>
                        else e, EventGot_U64, BOF_ERR_NO_ERROR)
              else Ret (e, EventGot_U64, BOF_ERR_ETIMEDOUT))
      else Ret (e, 0, BOF_ERR_INIT))"

definition Bof_DestroyEvent :: "BOF_EVENT \<Rightarrow> BOF_EVENT \<times> BOFERR" where
  "Bof_DestroyEvent e =
     (if evt_Magic_U32 e = BOF_EVENT_MAGIC then (BOF_EVENT_Reset e, BOF_ERR_NO_ERROR)
      else (e, BOF_ERR_INIT))"

section \<open>BOF_SEMAPHORE\<close>

definition BOF_SEMAPHORE_MAGIC :: u32 where
  "BOF_SEMAPHORE_MAGIC = 0xABFF8974"

record BOF_SEMAPHORE =
  sem_Magic_U32 :: u32
  sem_Name_S :: string
  sem_Mtx_X :: BOF_MUTEX
  sem_Cpt_S32 :: int
  sem_Max_S32 :: int

definition BOF_SEMAPHORE_Reset :: "BOF_SEMAPHORE \<Rightarrow> BOF_SEMAPHORE" where
  "BOF_SEMAPHORE_Reset s = s\<lparr>sem_Magic_U32 := 0, sem_Name_S := '''',
     sem_Mtx_X := BOF_MUTEX_Reset (sem_Mtx_X s), sem_Cpt_S32 := 0, sem_Max_S32 := 0\<rparr>"

definition BOF_SEMAPHORE_ctor :: BOF_SEMAPHORE where
  "BOF_SEMAPHORE_ctor = BOF_SEMAPHORE_Reset
     \<lparr>sem_Magic_U32 = 0, sem_Name_S = '''', sem_Mtx_X = BOF_MUTEX_ctor,
      sem_Cpt_S32 = 0, sem_Max_S32 = 0\<rparr>"

text \<open>The counter holds the number of free places minus one.\<close>

definition Bof_CreateSemaphore ::
  "string \<Rightarrow> int \<Rightarrow> bool \<Rightarrow> BOF_SEMAPHORE \<Rightarrow> (BOF_SEMAPHORE \<times> BOFERR) outcome" where
  "Bof_CreateSemaphore Name_S InitialCount_S32 PriorityInversionAware_B s =
     (if sem_Magic_U32 s \<noteq> BOF_SEMAPHORE_MAGIC then
        if InitialCount_S32 > 0 then
          let s = (BOF_SEMAPHORE_Reset s)\<lparr>sem_Name_S := Name_S, sem_Magic_U32 := BOF_SEMAPHORE_MAGIC,
                     sem_Max_S32 := InitialCount_S32 - 1, sem_Cpt_S32 := InitialCount_S32 - 1\<rparr>
          in bindO (Bof_CreateMutex Name_S False PriorityInversionAware_B (sem_Mtx_X s))
               (\<lambda>(m, Rts_E). Ret (s\<lparr>sem_Mtx_X := m\<rparr>, Rts_E))
        else Ret (s, BOF_ERR_EINVAL)
      else Ret (s, BOF_ERR_EEXIST))"

definition Bof_IsSemaphoreValid :: "BOF_SEMAPHORE \<Rightarrow> bool" where
  "Bof_IsSemaphoreValid s = (sem_Magic_U32 s = BOF_SEMAPHORE_MAGIC)"

definition Bof_SignalSemaphore :: "BOF_SEMAPHORE \<Rightarrow> (BOF_SEMAPHORE \<times> BOFERR) outcome" where
  "Bof_SignalSemaphore s =
     (if sem_Magic_U32 s = BOF_SEMAPHORE_MAGIC then
        unique_lock (sem_Mtx_X s)
          (if sem_Cpt_S32 s < sem_Max_S32 s
           then Ret (s\<lparr>sem_Cpt_S32 := sem_Cpt_S32 s + 1\<rparr>, BOF_ERR_NO_ERROR)
           else Ret (s, BOF_ERR_TOO_BIG))
      else Ret (s, BOF_ERR_INIT))"

definition Bof_WaitForSemaphore :: "BOF_SEMAPHORE \<Rightarrow> u32 \<Rightarrow> (BOF_SEMAPHORE \<times> BOFERR) outcome" where
  "Bof_WaitForSemaphore s TimeoutInMs_U32 =
     (if sem_Magic_U32 s = BOF_SEMAPHORE_MAGIC then
        unique_lock (sem_Mtx_X s)
          (if sem_Cpt_S32 s \<ge> 0
           then BOF_ASSERT (sem_Cpt_S32 s \<ge> 0)
                  (Ret (s\<lparr>sem_Cpt_S32 := sem_Cpt_S32 s - 1\<rparr>, BOF_ERR_NO_ERROR))
           else Ret (s, BOF_ERR_ETIMEDOUT))
      else Ret (s, BOF_ERR_INIT))"

definition Bof_DestroySemaphore :: "BOF_SEMAPHORE \<Rightarrow> BOF_SEMAPHORE \<times> BOFERR" where
  "Bof_DestroySemaphore s =
     (if sem_Magic_U32 s = BOF_SEMAPHORE_MAGIC then
        (BOF_SEMAPHORE_Reset (s\<lparr>sem_Mtx_X := fst (Bof_DestroyMutex (sem_Mtx_X s))\<rparr>), BOF_ERR_NO_ERROR)
      else (s, BOF_ERR_INIT))"

section \<open>Properties of the mutex\<close>

text \<open>A created mutex that nobody holds.\<close>

definition mutex_ready :: "BOF_MUTEX \<Rightarrow> bool" where
  "mutex_ready m \<longleftrightarrow> mtx_Magic_U32 m = BOF_MUTEX_MAGIC \<and> \<not> mtx_Recursive_B m \<and> mtx_Mtx m = Unowned"

named_theorems sync_simps \<open>evaluation of the synchronisation calls on ready objects\<close>

lemma Bof_LockMutex_ready [sync_simps]:
  "mutex_ready m \<Longrightarrow> Bof_LockMutex m = Ret (m\<lparr>mtx_Mtx := OwnedBySelf (Suc 0)\<rparr>, BOF_ERR_NO_ERROR)"
  by (simp add: mutex_ready_def Bof_LockMutex_def)

lemma Bof_UnlockMutex_held [sync_simps]:
  "mutex_ready m \<Longrightarrow> Bof_UnlockMutex (m\<lparr>mtx_Mtx := OwnedBySelf (Suc 0)\<rparr>) = Ret (m, BOF_ERR_NO_ERROR)"
  by (simp add: mutex_ready_def Bof_UnlockMutex_def)

lemma Bof_CreateMutex_ready:
  assumes "mtx_Magic_U32 m \<noteq> BOF_MUTEX_MAGIC" "mtx_Mtx m = Unowned" "mtx_RecursiveMtx m = Unowned"
  shows "\<exists>m'. Bof_CreateMutex n False p m = Ret (m', BOF_ERR_NO_ERROR) \<and> mutex_ready m'"
  using assms by (simp add: Bof_CreateMutex_def BOF_MUTEX_Reset_def mutex_ready_def Let_def)

text \<open>A recursive mutex that the calling thread can take: it is free, or held by that thread.\<close>

definition recursive_mutex_ok :: "BOF_MUTEX \<Rightarrow> bool" where
  "recursive_mutex_ok m \<longleftrightarrow> mtx_Magic_U32 m = BOF_MUTEX_MAGIC \<and> mtx_Recursive_B m \<and>
     (case mtx_RecursiveMtx m of Unowned \<Rightarrow> True | OwnedBySelf k \<Rightarrow> 0 < k | OwnedByOther \<Rightarrow> False)"

lemma recursive_mutex_cycle:
  assumes "recursive_mutex_ok m"
  obtains m' where "Bof_LockMutex m = Ret (m', BOF_ERR_NO_ERROR)" "recursive_mutex_ok m'" "Bof_UnlockMutex m' = Ret (m, BOF_ERR_NO_ERROR)"
proof -
  have eta: "m\<lparr>mtx_RecursiveMtx := mtx_RecursiveMtx m\<rparr> = m" by simp
  show thesis
  proof (cases "mtx_RecursiveMtx m")
    case Unowned
    then have "m\<lparr>mtx_RecursiveMtx := Unowned\<rparr> = m" using eta by metis
    with Unowned show thesis using assms that [of "m\<lparr>mtx_RecursiveMtx := OwnedBySelf 1\<rparr>"]
      by (simp add: Bof_LockMutex_def Bof_UnlockMutex_def recursive_mutex_ok_def)
  next
    case (OwnedBySelf k)
    then obtain j where j: "k = Suc j" using assms by (cases k) (auto simp: recursive_mutex_ok_def)
    then have "m\<lparr>mtx_RecursiveMtx := OwnedBySelf (Suc j)\<rparr> = m" using eta OwnedBySelf by metis
    with OwnedBySelf j show thesis using assms that [of "m\<lparr>mtx_RecursiveMtx := OwnedBySelf (Suc k)\<rparr>"]
      by (simp add: Bof_LockMutex_def Bof_UnlockMutex_def recursive_mutex_ok_def)
  next
    case OwnedByOther
    then show thesis using assms by (simp add: recursive_mutex_ok_def)
  qed
qed

text \<open>
  The polling loop gives up: on a schedule that reaches the deadline it always
  returns, with the mutex or with an error.
\<close>

lemma Bof_WaitLockMutex_returns:
  assumes "\<exists>d \<in> set (map snd sched). \<not> d < t"
  shows "\<exists>m' e. Bof_WaitLockMutex sched m t = Ret (m', e)"
proof -
  have "\<exists>m' e. Bof_WaitLockMutex_loop sched m t = Ret (m', e)" for m
    using assms
    by (induction sched m t rule: Bof_WaitLockMutex_loop.induct) (auto split: prod.split)
  then show ?thesis by (auto simp: Bof_WaitLockMutex_def)
qed

section \<open>Properties of the event\<close>

definition event_ready :: "BOF_EVENT \<Rightarrow> bool" where
  "event_ready e \<longleftrightarrow> evt_Magic_U32 e = BOF_EVENT_MAGIC \<and> mtx_Mtx (evt_Mtx_X e) = Unowned
     \<and> evt_MaxNumberToNotify_U32 e = 1 \<and> \<not> evt_WaitKeepSignaled_B e"

definition event_signaled :: "BOF_EVENT \<Rightarrow> bool" where
  "event_signaled e \<longleftrightarrow> evt_SignaledBitmask_U64 e AND event_bit 0 \<noteq> 0"

definition event_set :: "BOF_EVENT \<Rightarrow> BOF_EVENT" where
  "event_set e = e\<lparr>evt_SignaledBitmask_U64 := evt_SignaledBitmask_U64 e OR event_bit 0\<rparr>"

definition event_clear :: "BOF_EVENT \<Rightarrow> BOF_EVENT" where
  "event_clear e = e\<lparr>evt_SignaledBitmask_U64 := evt_SignaledBitmask_U64 e AND int_to_u64 (NOT 1)\<rparr>"

lemma bit_event_bit: "bit (event_bit i) n \<longleftrightarrow> n = unat i \<and> n < 64"
  by (auto simp: event_bit_def bit_simps)

lemma AND_event_bit_nonzero: "x AND event_bit i \<noteq> 0 \<longleftrightarrow> unat i < 64 \<and> bit x (unat i)"
  by (auto simp: bit_eq_iff [where 'a = u64] bit_and_iff bit_event_bit)

lemma event_bit_0_nonzero [simp]: "event_bit 0 \<noteq> 0"
  using AND_event_bit_nonzero [of "- 1" 0] by simp

lemma Bof_SignalEvent_ready [sync_simps]:
  "event_ready e \<Longrightarrow> Bof_SignalEvent e 0 = Ret (event_set e, BOF_ERR_NO_ERROR)"
  by (simp add: event_ready_def event_set_def Bof_SignalEvent_def unique_lock_def)

lemma Bof_WaitForEvent_ready [sync_simps]:
  "event_ready e \<Longrightarrow> Bof_WaitForEvent e t 0 =
     Ret (if event_signaled e then (event_clear e, BOF_ERR_NO_ERROR) else (e, BOF_ERR_ETIMEDOUT))"
  by (simp add: event_ready_def event_clear_def event_signaled_def Bof_WaitForEvent_def
      unique_lock_def int_shl_1_def)

lemma event_ready_set_clear [simp]:
  "event_ready (event_set e) = event_ready e" "event_ready (event_clear e) = event_ready e"
  by (simp_all add: event_ready_def event_set_def event_clear_def)

lemma bit_int_to_u64: "n < 64 \<Longrightarrow> bit (int_to_u64 w) n \<longleftrightarrow> bit w (min n 31)"
  unfolding int_to_u64_def
  by (simp add: bit_simps min_def)

lemma event_signaled_set_clear [simp]:
  "event_signaled (event_set e)" "\<not> event_signaled (event_clear e)"
  by (simp_all add: event_signaled_def event_set_def event_clear_def AND_event_bit_nonzero
      bit_event_bit bit_int_to_u64 bit_simps)

lemma Bof_CreateEvent_ready:
  assumes "evt_Magic_U32 e \<noteq> BOF_EVENT_MAGIC" "mtx_Mtx (evt_Mtx_X e) = Unowned"
    "mtx_RecursiveMtx (evt_Mtx_X e) = Unowned"
  shows "\<exists>e'. Bof_CreateEvent n i 1 False a p e = Ret (e', BOF_ERR_NO_ERROR)
           \<and> event_ready e' \<and> \<not> event_signaled e'"
  using assms
  by (simp add: Bof_CreateEvent_def event_initial_mask_def int_shl_1_def BOF_EVENT_Reset_def
      Bof_CreateMutex_def BOF_MUTEX_Reset_def BOF_MUTEX_MAGIC_def event_ready_def event_signaled_def
      int_to_u64_def Let_def)

section \<open>Properties of the semaphore\<close>

text \<open>
  The semaphores reachable from a creation with \<open>n\<close> places, together with the
  number of places held: a wait or a signal that succeeds changes it, one that
  fails does not.
\<close>

inductive sem_reach :: "int \<Rightarrow> BOF_SEMAPHORE \<Rightarrow> int \<Rightarrow> bool" for n :: int where
  sem_create: "Bof_CreateSemaphore nm n p BOF_SEMAPHORE_ctor = Ret (s, BOF_ERR_NO_ERROR)
     \<Longrightarrow> sem_reach n s 0"
| sem_acquire: "sem_reach n s h \<Longrightarrow> Bof_WaitForSemaphore s t = Ret (s', BOF_ERR_NO_ERROR)
     \<Longrightarrow> sem_reach n s' (h + 1)"
| sem_release: "sem_reach n s h \<Longrightarrow> Bof_SignalSemaphore s = Ret (s', BOF_ERR_NO_ERROR)
     \<Longrightarrow> sem_reach n s' (h - 1)"
| sem_timeout: "sem_reach n s h \<Longrightarrow> Bof_WaitForSemaphore s t = Ret (s', e) \<Longrightarrow> e \<noteq> BOF_ERR_NO_ERROR
     \<Longrightarrow> sem_reach n s' h"
| sem_refused: "sem_reach n s h \<Longrightarrow> Bof_SignalSemaphore s = Ret (s', e) \<Longrightarrow> e \<noteq> BOF_ERR_NO_ERROR
     \<Longrightarrow> sem_reach n s' h"

definition sem_inv :: "int \<Rightarrow> BOF_SEMAPHORE \<Rightarrow> int \<Rightarrow> bool" where
  "sem_inv n s h \<longleftrightarrow> sem_Magic_U32 s = BOF_SEMAPHORE_MAGIC \<and> mtx_Mtx (sem_Mtx_X s) = Unowned
     \<and> sem_Max_S32 s = n - 1 \<and> sem_Cpt_S32 s = n - h - 1 \<and> 0 \<le> h \<and> h \<le> n"

lemma sem_inv_wait:
  "sem_inv n s h \<Longrightarrow> Bof_WaitForSemaphore s t =
     Ret (if h < n then (s\<lparr>sem_Cpt_S32 := sem_Cpt_S32 s - 1\<rparr>, BOF_ERR_NO_ERROR) else (s, BOF_ERR_ETIMEDOUT))"
  by (simp add: sem_inv_def Bof_WaitForSemaphore_def unique_lock_def)

lemma sem_inv_signal:
  "sem_inv n s h \<Longrightarrow> Bof_SignalSemaphore s =
     Ret (if 0 < h then (s\<lparr>sem_Cpt_S32 := sem_Cpt_S32 s + 1\<rparr>, BOF_ERR_NO_ERROR) else (s, BOF_ERR_TOO_BIG))"
  by (simp add: sem_inv_def Bof_SignalSemaphore_def unique_lock_def)

lemma sem_inv_create:
  assumes "Bof_CreateSemaphore nm n p BOF_SEMAPHORE_ctor = Ret (s, BOF_ERR_NO_ERROR)"
  shows "sem_inv n s 0"
  using assms
  by (auto simp: Bof_CreateSemaphore_def BOF_SEMAPHORE_ctor_def BOF_SEMAPHORE_Reset_def
      BOF_SEMAPHORE_MAGIC_def Bof_CreateMutex_def BOF_MUTEX_ctor_def BOF_MUTEX_Reset_def
      BOF_MUTEX_MAGIC_def sem_inv_def Let_def split: if_splits)

lemma sem_reach_inv: "sem_reach n s h \<Longrightarrow> sem_inv n s h"
proof (induction rule: sem_reach.induct)
  case (sem_create nm p s)
  then show ?case by (rule sem_inv_create)
next
  case (sem_acquire s h t s')
  then show ?case by (auto simp: sem_inv_wait sem_inv_def split: if_splits)
next
  case (sem_release s h s')
  then show ?case by (auto simp: sem_inv_signal sem_inv_def split: if_splits)
next
  case (sem_timeout s h t s' e)
  then show ?case by (auto simp: sem_inv_wait split: if_splits)
next
  case (sem_refused s h s' e)
  then show ?case by (auto simp: sem_inv_signal split: if_splits)
qed

section \<open>Properties\<close>

text \<open>
  C14. The counting semaphore. A semaphore created with \<open>n\<close> places never has more
  than \<open>n\<close> holders nor fewer than 0, never fails its assertion, and a wait succeeds
  exactly when a place is free, a signal exactly when a place is held.
\<close>

theorem Bof_Semaphore_counts_places:
  assumes "sem_reach n s held"
  shows "0 \<le> held \<and> held \<le> n \<and>
    (\<exists>s' e. Bof_WaitForSemaphore s t = Ret (s', e) \<and> (e = BOF_ERR_NO_ERROR \<longleftrightarrow> held < n)) \<and>
    (\<exists>s' e. Bof_SignalSemaphore s = Ret (s', e) \<and> (e = BOF_ERR_NO_ERROR \<longleftrightarrow> 0 < held))"
  using sem_reach_inv [OF assms] sem_inv_wait [OF sem_reach_inv [OF assms], of t]
    sem_inv_signal [OF sem_reach_inv [OF assms]]
  by (auto simp: sem_inv_def)

lemma sem_reach_example:
  "\<exists>s. sem_reach 2 s 1"
proof -
  obtain s where "Bof_CreateSemaphore ''s'' 2 False BOF_SEMAPHORE_ctor = Ret (s, BOF_ERR_NO_ERROR)"
    by (simp add: Bof_CreateSemaphore_def BOF_SEMAPHORE_ctor_def BOF_SEMAPHORE_Reset_def BOF_SEMAPHORE_MAGIC_def
        Bof_CreateMutex_def BOF_MUTEX_ctor_def BOF_MUTEX_Reset_def BOF_MUTEX_MAGIC_def Let_def)
  then have r: "sem_reach 2 s 0" by (rule sem_create)
  have "sem_reach 2 (s\<lparr>sem_Cpt_S32 := sem_Cpt_S32 s - 1\<rparr>) (0 + 1)"
    using sem_inv_wait [OF sem_reach_inv [OF r], of 0] by (intro sem_acquire [OF r, of 0]) simp
  then show ?thesis by auto
qed

theorem Bof_Semaphore_counts_places_witness:
  "\<exists>s s' e. sem_reach 2 s 1 \<and> Bof_WaitForSemaphore s 10 = Ret (s', e) \<and> e = BOF_ERR_NO_ERROR"
  using sem_reach_example Bof_Semaphore_counts_places [of 2 _ 1 10] by fastforce

text \<open>
  What a successful event wait consumes. For an instance below 31 the wait
  clears its bit and no other; for instance 31 the mask computed on \<^verbatim>\<open>int\<close> clears
  the bits of all the instances from 31 on; from 32 on the shift has no meaning.
\<close>

theorem Bof_WaitForEvent_consumes:
  assumes "evt_Magic_U32 e = BOF_EVENT_MAGIC" "mtx_Mtx (evt_Mtx_X e) = Unowned"
    "i < evt_MaxNumberToNotify_U32 e" "\<not> evt_WaitKeepSignaled_B e"
    "bit (evt_SignaledBitmask_U64 e) (unat i)"
  shows "if unat i < 32
    then \<exists>e'. Bof_WaitForEvent e t i = Ret (e', BOF_ERR_NO_ERROR) \<and>
      (\<forall>n<64. bit (evt_SignaledBitmask_U64 e') n \<longleftrightarrow>
         bit (evt_SignaledBitmask_U64 e) n \<and> (if unat i = 31 then n < 31 else n \<noteq> unat i))
    else Bof_WaitForEvent e t i = Undefined"
proof -
  have "unat i < 64" using assms(5) bit_imp_le_length by fastforce
  then have sig: "evt_SignaledBitmask_U64 e AND event_bit i \<noteq> 0" using assms(5) AND_event_bit_nonzero by blast
  have bits: "bit (evt_SignaledBitmask_U64 e AND int_to_u64 (NOT (push_bit (unat i) 1))) n \<longleftrightarrow>
      bit (evt_SignaledBitmask_U64 e) n \<and> (if unat i = 31 then n < 31 else n \<noteq> unat i)"
    if "n < 64" "unat i < 32" for n
    using that by (auto simp: bit_simps bit_int_to_u64 min_def)
  show ?thesis
    using assms(1-4) sig bits by (auto simp: Bof_WaitForEvent_def unique_lock_def int_shl_1_def)
qed

definition event_two :: "u64 \<Rightarrow> BOF_EVENT" where
  "event_two bits = BOF_EVENT_ctor\<lparr>evt_Magic_U32 := BOF_EVENT_MAGIC, evt_MaxNumberToNotify_U32 := 64,
     evt_SignaledBitmask_U64 := bits\<rparr>"

theorem Bof_WaitForEvent_consumes_witness:
  "\<exists>e'. Bof_WaitForEvent (event_two (push_bit 31 1 OR push_bit 40 1)) 10 31 = Ret (e', BOF_ERR_NO_ERROR) \<and>
     \<not> bit (evt_SignaledBitmask_U64 e') 40"
  using Bof_WaitForEvent_consumes [of "event_two (push_bit 31 1 OR push_bit 40 1)" 31 10]
  by (simp add: event_two_def BOF_EVENT_ctor_def BOF_EVENT_Reset_def BOF_MUTEX_ctor_def BOF_MUTEX_Reset_def
      bit_simps) (auto dest: spec [of _ 40])

text \<open>
  The initial state of an event. An event created in the signalled state
  with \<open>n\<close> instances, \<open>2 \<le> n \<le> 31\<close>, has all its bits set but the last one; with one
  instance it is not signalled at all.
\<close>

theorem Bof_CreateEvent_initial_bits:
  assumes "evt_Magic_U32 e \<noteq> BOF_EVENT_MAGIC" "mtx_Mtx (evt_Mtx_X e) = Unowned"
    "mtx_RecursiveMtx (evt_Mtx_X e) = Unowned" "0 < unat n" "unat n \<le> 31"
  shows "\<exists>e'. Bof_CreateEvent nm True n keep all p e = Ret (e', BOF_ERR_NO_ERROR) \<and>
    (\<forall>i<64. bit (evt_SignaledBitmask_U64 e') i \<longleftrightarrow> i < unat n - 1)"
proof -
  have n0: "n \<noteq> 0" using assms(4) by auto
  then have n: "n \<noteq> 0" "n \<le> 64" "unat (n - 1) = unat n - 1" using assms(5) by (simp_all add: word_le_nat_alt)
  have k: "unat n - 1 < 31" using assms(4,5) by linarith
  have w: "push_bit (unat n - 1) 1 - (1::u32) = mask (unat n - 1)" by (simp add: mask_eq_exp_minus_1 push_bit_eq_mult)
  have "push_bit (unat n - 1) 1 \<noteq> (push_bit 31 1 :: u32)"
  proof
    assume "push_bit (unat n - 1) 1 = (push_bit 31 1 :: u32)"
    then have "bit (push_bit (unat n - 1) 1 :: u32) 31" by (simp add: bit_simps)
    then show False using k by (simp add: bit_simps)
  qed
  moreover have "bit (int_to_u64 (mask (unat n - 1))) i \<longleftrightarrow> i < unat n - 1" if "i < 64" for i
    using that k by (auto simp: bit_int_to_u64 bit_mask_iff min_def)
  ultimately show ?thesis
    using assms n k w
    by (simp add: Bof_CreateEvent_def event_initial_mask_def int_shl_1_def BOF_EVENT_Reset_def Bof_CreateMutex_def
        BOF_MUTEX_Reset_def BOF_MUTEX_MAGIC_def Let_def)
qed

theorem Bof_CreateEvent_initial_bits_witness:
  "\<exists>e'. Bof_CreateEvent ''e'' True 1 False False False BOF_EVENT_ctor = Ret (e', BOF_ERR_NO_ERROR) \<and>
    (\<forall>i<64. \<not> bit (evt_SignaledBitmask_U64 e') i)"
  using Bof_CreateEvent_initial_bits [of BOF_EVENT_ctor 1 "''e''" False False False]
  by (simp add: BOF_EVENT_ctor_def BOF_EVENT_Reset_def BOF_EVENT_MAGIC_def BOF_MUTEX_ctor_def BOF_MUTEX_Reset_def)

end
