(* ===== verification/Bof_CircularBuffer.thy ===== *)
theory Bof_CircularBuffer
  imports Bof_Sync
begin

text \<open>
  The template \<^verbatim>\<open>BofCircularBuffer<DataType>\<close> of \<^verbatim>\<open>bofcircularbuffer.h\<close>: a ring of
  \<^verbatim>\<open>NbMaxElement_U32\<close> cells with a push index, a pop index, a count of the
  elements in the buffer, a lock byte per cell for the pop-lock mode, an
  optional mutex and, in blocking mode, a "can read" and a "can write" event.

  A call that may wait takes a schedule: one element per turn of its retry
  loop, with what the other threads do to the buffer until the wait ends and
  between the end of the wait and the acquisition of the mutex. An output
  pointer is the value that is written through it when it is not null; the
  index and the storage address that some methods hand out denote the same
  cell and are one value.
\<close>

section \<open>Parameters and state\<close>

record 'a BOF_CIRCULAR_BUFFER_PARAM =
  cbp_MultiThreadAware_B :: bool
  cbp_PriorityInversionAware_B :: bool
  cbp_NbMaxElement_U32 :: u32
  cbp_pData :: "'a list option"
  cbp_Overwrite_B :: bool
  cbp_Blocking_B :: bool
  cbp_PopLockMode_B :: bool

definition BOF_CIRCULAR_BUFFER_PARAM_Reset :: "'a BOF_CIRCULAR_BUFFER_PARAM" where
  "BOF_CIRCULAR_BUFFER_PARAM_Reset =
     \<lparr>cbp_MultiThreadAware_B = False, cbp_PriorityInversionAware_B = False, cbp_NbMaxElement_U32 = 0,
      cbp_pData = None, cbp_Overwrite_B = False, cbp_Blocking_B = False, cbp_PopLockMode_B = False\<rparr>"

record 'a BofCircularBuffer =
  cb_mCircularBufferParam_X :: "'a BOF_CIRCULAR_BUFFER_PARAM"
  cb_mDataPreAllocated_B :: bool
  cb_mpData_T :: "'a list"
  cb_mOverflow_B :: bool
  cb_mPushIndex_U32 :: u32
  cb_mPopIndex_U32 :: u32
  cb_mNbElementInBuffer_U32 :: u32
  cb_mNbElementLockedInBuffer_U32 :: u32
  cb_mLevelMax_U32 :: u32
  cb_mCircularBufferMtx_X :: BOF_MUTEX
  cb_mErrorCode_E :: BOFERR
  cb_mCanReadEvent_X :: BOF_EVENT
  cb_mCanWriteEvent_X :: BOF_EVENT
  cb_mpLock_U8 :: "u8 list"

abbreviation cb_NbMax :: "'a BofCircularBuffer \<Rightarrow> u32" where
  "cb_NbMax cb \<equiv> cbp_NbMaxElement_U32 (cb_mCircularBufferParam_X cb)"

abbreviation cb_Overwrite :: "'a BofCircularBuffer \<Rightarrow> bool" where
  "cb_Overwrite cb \<equiv> cbp_Overwrite_B (cb_mCircularBufferParam_X cb)"

abbreviation cb_Blocking :: "'a BofCircularBuffer \<Rightarrow> bool" where
  "cb_Blocking cb \<equiv> cbp_Blocking_B (cb_mCircularBufferParam_X cb)"

abbreviation cb_PopLockMode :: "'a BofCircularBuffer \<Rightarrow> bool" where
  "cb_PopLockMode cb \<equiv> cbp_PopLockMode_B (cb_mCircularBufferParam_X cb)"

abbreviation cb_MultiThreadAware :: "'a BofCircularBuffer \<Rightarrow> bool" where
  "cb_MultiThreadAware cb \<equiv> cbp_MultiThreadAware_B (cb_mCircularBufferParam_X cb)"

section \<open>The lock macros\<close>

definition BOF_CIRCULAR_BUFFER_LOCK ::
  "'a BofCircularBuffer \<Rightarrow> ('a BofCircularBuffer \<Rightarrow> BOFERR \<Rightarrow> 'b outcome) \<Rightarrow> 'b outcome" where
  "BOF_CIRCULAR_BUFFER_LOCK cb k =
     (if cb_MultiThreadAware cb
      then bindO (Bof_LockMutex (cb_mCircularBufferMtx_X cb))
             (\<lambda>(m, Sts). k (cb\<lparr>cb_mCircularBufferMtx_X := m\<rparr>) Sts)
      else k cb BOF_ERR_NO_ERROR)"

definition BOF_CIRCULAR_BUFFER_UNLOCK ::
  "'a BofCircularBuffer \<Rightarrow> ('a BofCircularBuffer \<Rightarrow> 'b outcome) \<Rightarrow> 'b outcome" where
  "BOF_CIRCULAR_BUFFER_UNLOCK cb k =
     (if cb_MultiThreadAware cb
      then bindO (Bof_UnlockMutex (cb_mCircularBufferMtx_X cb))
             (\<lambda>(m, Sts). k (cb\<lparr>cb_mCircularBufferMtx_X := m\<rparr>))
      else k cb)"

section \<open>Construction and destruction\<close>

text \<open>
  \<^verbatim>\<open>new DataType[n]\<close> is the parameter \<open>new_T\<close>; \<^verbatim>\<open>new\<close> never returns a null pointer.
  The names given to the events are those of the address of the object,
  \<open>this_S\<close>.
\<close>

definition BofCircularBuffer_events ::
  "string \<Rightarrow> 'a BofCircularBuffer \<Rightarrow> ('a BofCircularBuffer \<times> BOFERR) outcome" where
  "BofCircularBuffer_events this_S cb =
     (let p = cb_mCircularBufferParam_X cb in
      if cbp_Blocking_B p then
        bindO (Bof_CreateEvent (''cb_canread_'' @ this_S @ ''_evt'') False 1 False False
                 (cbp_PriorityInversionAware_B p) (cb_mCanReadEvent_X cb))
          (\<lambda>(e, Err_E).
             let cb = cb\<lparr>cb_mCanReadEvent_X := e\<rparr> in
             if Err_E = BOF_ERR_NO_ERROR then
               bindO (Bof_CreateEvent (''cb_canwrite_'' @ this_S @ ''_evt'') False 1 False False
                        (cbp_PriorityInversionAware_B p) (cb_mCanWriteEvent_X cb))
                 (\<lambda>(e, Err_E). Ret (cb\<lparr>cb_mCanWriteEvent_X := e\<rparr>, Err_E))
             else Ret (cb, Err_E))
      else Ret (cb, BOF_ERR_NO_ERROR))"

definition BofCircularBuffer_storage ::
  "(u32 \<Rightarrow> 'a list) \<Rightarrow> 'a BofCircularBuffer \<Rightarrow> ('a BofCircularBuffer \<times> BOFERR) outcome" where
  "BofCircularBuffer_storage new_T cb =
     (let p = cb_mCircularBufferParam_X cb;
          cb = (case cbp_pData p of
                  Some d \<Rightarrow> cb\<lparr>cb_mDataPreAllocated_B := True, cb_mpData_T := d\<rparr>
                | None \<Rightarrow> cb\<lparr>cb_mDataPreAllocated_B := False,
                             cb_mpData_T := new_T (cbp_NbMaxElement_U32 p)\<rparr>)
      in if cbp_Blocking_B p
         then bindO (Bof_SignalEvent (cb_mCanWriteEvent_X cb) 0)
                (\<lambda>(e, Err_E). Ret (cb\<lparr>cb_mCanWriteEvent_X := e\<rparr>, Err_E))
         else Ret (cb, BOF_ERR_NO_ERROR))"

definition BofCircularBuffer_fresh :: "'a BOF_CIRCULAR_BUFFER_PARAM \<Rightarrow> 'a BofCircularBuffer" where
  "BofCircularBuffer_fresh p =
     \<lparr>cb_mCircularBufferParam_X = p, cb_mDataPreAllocated_B = False, cb_mpData_T = [],
      cb_mOverflow_B = False, cb_mPushIndex_U32 = 0, cb_mPopIndex_U32 = 0,
      cb_mNbElementInBuffer_U32 = 0, cb_mNbElementLockedInBuffer_U32 = 0, cb_mLevelMax_U32 = 0,
      cb_mCircularBufferMtx_X = BOF_MUTEX_ctor, cb_mErrorCode_E = BOF_ERR_NO_ERROR,
      cb_mCanReadEvent_X = BOF_EVENT_ctor, cb_mCanWriteEvent_X = BOF_EVENT_ctor,
      cb_mpLock_U8 = []\<rparr>"

definition BofCircularBuffer_ctor ::
  "(u32 \<Rightarrow> 'a list) \<Rightarrow> string \<Rightarrow> 'a BOF_CIRCULAR_BUFFER_PARAM \<Rightarrow> 'a BofCircularBuffer outcome" where
  "BofCircularBuffer_ctor new_T this_S p =
     (let cb = BofCircularBuffer_fresh p in
      if cbp_NbMaxElement_U32 p \<noteq> 0 then
        bindO (BofCircularBuffer_events this_S cb) (\<lambda>(cb, Err_E).
        bindO (if Err_E = BOF_ERR_NO_ERROR
               then if cbp_MultiThreadAware_B p
                    then bindO (Bof_CreateMutex ''BofCircularBuffer'' False False (cb_mCircularBufferMtx_X cb))
                           (\<lambda>(m, Err_E). Ret (cb\<lparr>cb_mCircularBufferMtx_X := m\<rparr>, Err_E))
                    else Ret (cb, BOF_ERR_NO_ERROR)
               else Ret (cb, Err_E)) (\<lambda>(cb, Err_E).
        bindO (if Err_E = BOF_ERR_NO_ERROR then BofCircularBuffer_storage new_T cb else Ret (cb, Err_E))
          (\<lambda>(cb, Err_E).
             Ret ((if Err_E = BOF_ERR_NO_ERROR
                   then cb\<lparr>cb_mpLock_U8 := replicate (unat (cbp_NbMaxElement_U32 p)) 0\<rparr>
                   else cb)\<lparr>cb_mErrorCode_E := Err_E\<rparr>))))
      else Ret (cb\<lparr>cb_mErrorCode_E := BOF_ERR_EINVAL\<rparr>))"

definition BofCircularBuffer_dtor :: "'a BofCircularBuffer \<Rightarrow> 'a BofCircularBuffer" where
  "BofCircularBuffer_dtor cb =
     (let cb = cb\<lparr>cb_mCircularBufferMtx_X := fst (Bof_DestroyMutex (cb_mCircularBufferMtx_X cb))\<rparr>;
          cb = (if \<not> cb_mDataPreAllocated_B cb then cb\<lparr>cb_mpData_T := []\<rparr> else cb)
      in cb\<lparr>cb_mCanReadEvent_X := fst (Bof_DestroyEvent (cb_mCanReadEvent_X cb)),
            cb_mCanWriteEvent_X := fst (Bof_DestroyEvent (cb_mCanWriteEvent_X cb)),
            cb_mpLock_U8 := []\<rparr>)"

section \<open>Queries\<close>

definition BofCircularBuffer_LastErrorCode :: "'a BofCircularBuffer \<Rightarrow> BOFERR" where
  "BofCircularBuffer_LastErrorCode cb = cb_mErrorCode_E cb"

definition BofCircularBuffer_IsEmpty :: "'a BofCircularBuffer \<Rightarrow> bool" where
  "BofCircularBuffer_IsEmpty cb = (cb_mNbElementInBuffer_U32 cb = 0)"

definition BofCircularBuffer_IsFull :: "'a BofCircularBuffer \<Rightarrow> bool" where
  "BofCircularBuffer_IsFull cb = (cb_mNbElementInBuffer_U32 cb = cb_NbMax cb)"

definition BofCircularBuffer_GetNbElement :: "'a BofCircularBuffer \<Rightarrow> u32" where
  "BofCircularBuffer_GetNbElement cb = cb_mNbElementInBuffer_U32 cb"

definition BofCircularBuffer_GetNbElementLocked :: "'a BofCircularBuffer \<Rightarrow> u32" where
  "BofCircularBuffer_GetNbElementLocked cb = cb_mNbElementLockedInBuffer_U32 cb"

definition BofCircularBuffer_GetCapacity :: "'a BofCircularBuffer \<Rightarrow> u32" where
  "BofCircularBuffer_GetCapacity cb = cb_NbMax cb"

definition BofCircularBuffer_LockCircularBuffer ::
  "'a BofCircularBuffer \<Rightarrow> ('a BofCircularBuffer \<times> BOFERR) outcome" where
  "BofCircularBuffer_LockCircularBuffer cb =
     (if cb_MultiThreadAware cb
      then bindO (Bof_LockMutex (cb_mCircularBufferMtx_X cb))
             (\<lambda>(m, Rts_E). Ret (cb\<lparr>cb_mCircularBufferMtx_X := m\<rparr>, Rts_E))
      else Ret (cb, BOF_ERR_BAD_TYPE))"

definition BofCircularBuffer_UnlockCircularBuffer ::
  "'a BofCircularBuffer \<Rightarrow> ('a BofCircularBuffer \<times> BOFERR) outcome" where
  "BofCircularBuffer_UnlockCircularBuffer cb =
     (if cb_MultiThreadAware cb
      then bindO (Bof_UnlockMutex (cb_mCircularBufferMtx_X cb))
             (\<lambda>(m, Rts_E). Ret (cb\<lparr>cb_mCircularBufferMtx_X := m\<rparr>, Rts_E))
      else Ret (cb, BOF_ERR_BAD_TYPE))"

definition BofCircularBuffer_GetNbFreeElement ::
  "'a BofCircularBuffer \<Rightarrow> ('a BofCircularBuffer \<times> u32) outcome" where
  "BofCircularBuffer_GetNbFreeElement cb =
     BOF_CIRCULAR_BUFFER_LOCK cb (\<lambda>cb Sts_E.
       if Sts_E = BOF_ERR_NO_ERROR then
         let Rts_U32 = cb_NbMax cb - cb_mNbElementInBuffer_U32 cb
         in BOF_CIRCULAR_BUFFER_UNLOCK cb (\<lambda>cb. Ret (cb, Rts_U32))
       else Ret (cb, 0))"

definition BofCircularBuffer_SetOverWriteMode ::
  "'a BofCircularBuffer \<Rightarrow> bool \<Rightarrow> 'a BofCircularBuffer \<times> BOFERR" where
  "BofCircularBuffer_SetOverWriteMode cb Overwrite_B =
     (cb\<lparr>cb_mCircularBufferParam_X := (cb_mCircularBufferParam_X cb)\<lparr>cbp_Overwrite_B := Overwrite_B\<rparr>\<rparr>,
      BOF_ERR_NO_ERROR)"

definition BofCircularBuffer_GetMaxLevel :: "'a BofCircularBuffer \<Rightarrow> u32" where
  "BofCircularBuffer_GetMaxLevel cb = cb_mLevelMax_U32 cb"

definition BofCircularBuffer_IsBufferOverflow :: "'a BofCircularBuffer \<Rightarrow> 'a BofCircularBuffer \<times> bool" where
  "BofCircularBuffer_IsBufferOverflow cb = (cb\<lparr>cb_mOverflow_B := False\<rparr>, cb_mOverflow_B cb)"

definition BofCircularBuffer_GetPushIndex :: "'a BofCircularBuffer \<Rightarrow> u32" where
  "BofCircularBuffer_GetPushIndex cb = cb_mPushIndex_U32 cb"

definition BofCircularBuffer_GetPopIndex :: "'a BofCircularBuffer \<Rightarrow> u32" where
  "BofCircularBuffer_GetPopIndex cb = cb_mPopIndex_U32 cb"

definition BofCircularBuffer_Reset :: "'a BofCircularBuffer \<Rightarrow> 'a BofCircularBuffer outcome" where
  "BofCircularBuffer_Reset cb =
     BOF_CIRCULAR_BUFFER_LOCK cb (\<lambda>cb Sts_E.
       if Sts_E = BOF_ERR_NO_ERROR then
         let cb = cb\<lparr>cb_mOverflow_B := False, cb_mLevelMax_U32 := 0, cb_mPushIndex_U32 := 0,
                     cb_mPopIndex_U32 := 0, cb_mNbElementInBuffer_U32 := 0,
                     cb_mNbElementLockedInBuffer_U32 := 0\<rparr>;
             cb = (if cb_mpLock_U8 cb \<noteq> []
                   then cb\<lparr>cb_mpLock_U8 := replicate (unat (cb_NbMax cb)) 0 @
                             drop (unat (cb_NbMax cb)) (cb_mpLock_U8 cb)\<rparr>
                   else cb)
         in BOF_CIRCULAR_BUFFER_UNLOCK cb Ret
       else Ret cb)"

section \<open>Signalling\<close>

definition BofCircularBuffer_SignalReadWrite ::
  "'a BofCircularBuffer \<Rightarrow> ('a BofCircularBuffer \<times> BOFERR) outcome" where
  "BofCircularBuffer_SignalReadWrite cb =
     (if cb_Blocking cb then
        bindO
          (if cb_mNbElementInBuffer_U32 cb - cb_mNbElementLockedInBuffer_U32 cb \<noteq> 0 then
             rd (cb_mpLock_U8 cb) (cb_mPopIndex_U32 cb) (\<lambda>l.
               if l = 0
               then bindO (Bof_SignalEvent (cb_mCanReadEvent_X cb) 0)
                      (\<lambda>(e, Rts_E). Ret (cb\<lparr>cb_mCanReadEvent_X := e\<rparr>, Rts_E))
               else Ret (cb, BOF_ERR_NO_ERROR))
           else Ret (cb, BOF_ERR_NO_ERROR))
          (\<lambda>(cb, Rts_E).
             if cb_Overwrite cb \<or> cb_mNbElementInBuffer_U32 cb < cb_NbMax cb then
               rd (cb_mpLock_U8 cb) (cb_mPushIndex_U32 cb) (\<lambda>l.
                 if l = 0
                 then bindO (Bof_SignalEvent (cb_mCanWriteEvent_X cb) 0)
                        (\<lambda>(e, Rts_E). Ret (cb\<lparr>cb_mCanWriteEvent_X := e\<rparr>, Rts_E))
                 else Ret (cb, Rts_E))
             else Ret (cb, Rts_E))
      else Ret (cb, BOF_ERR_NO_ERROR))"

section \<open>Push\<close>

text \<open>One turn of a wait: the actions of the other threads, then the event.\<close>

type_synonym 'a cb_schedule =
  "(('a BofCircularBuffer \<Rightarrow> 'a BofCircularBuffer) \<times> ('a BofCircularBuffer \<Rightarrow> 'a BofCircularBuffer)) list"

definition cb_wait_write :: "'a BofCircularBuffer \<Rightarrow> u32 \<Rightarrow> ('a BofCircularBuffer \<times> BOFERR) outcome" where
  "cb_wait_write cb Timeout_U32 =
     bindO (Bof_WaitForEvent (cb_mCanWriteEvent_X cb) Timeout_U32 0)
       (\<lambda>(e, Rts_E). Ret (cb\<lparr>cb_mCanWriteEvent_X := e\<rparr>, Rts_E))"

definition cb_wait_read :: "'a BofCircularBuffer \<Rightarrow> u32 \<Rightarrow> ('a BofCircularBuffer \<times> BOFERR) outcome" where
  "cb_wait_read cb Timeout_U32 =
     bindO (Bof_WaitForEvent (cb_mCanReadEvent_X cb) Timeout_U32 0)
       (\<lambda>(e, Rts_E). Ret (cb\<lparr>cb_mCanReadEvent_X := e\<rparr>, Rts_E))"

text \<open>An index moved to the next cell of the ring.\<close>

definition cb_next :: "u32 \<Rightarrow> u32 \<Rightarrow> u32" where
  "cb_next NbMax_U32 i = (if i + 1 \<ge> NbMax_U32 then 0 else i + 1)"

text \<open>The part of \<^verbatim>\<open>Push\<close> that stores the element, under the mutex.\<close>

definition BofCircularBuffer_Push_store ::
  "'a BofCircularBuffer \<Rightarrow> 'a \<Rightarrow> ('a BofCircularBuffer \<times> BOFERR \<times> u32 option) outcome" where
  "BofCircularBuffer_Push_store cb x =
     (if cb_Overwrite cb \<or> cb_mNbElementInBuffer_U32 cb < cb_NbMax cb then
        rd (cb_mpLock_U8 cb) (cb_mPushIndex_U32 cb) (\<lambda>l.
          if l = 0 then
            let IndexOf_U32 = cb_mPushIndex_U32 cb in
            wr (cb_mpData_T cb) (cb_mPushIndex_U32 cb) x (\<lambda>d.
              BOF_ASSERT (cb_mPushIndex_U32 cb < cb_NbMax cb)
                (let cb = cb\<lparr>cb_mpData_T := d, cb_mPushIndex_U32 := cb_next (cb_NbMax cb) (cb_mPushIndex_U32 cb),
                             cb_mNbElementInBuffer_U32 := cb_mNbElementInBuffer_U32 cb + 1\<rparr>
                 in bindO
                      (if cb_Overwrite cb
                       then BOF_ASSERT (cb_mNbElementInBuffer_U32 cb \<le> cb_NbMax cb + 1)
                              (if cb_mNbElementInBuffer_U32 cb > cb_NbMax cb
                               then Ret (cb\<lparr>cb_mNbElementInBuffer_U32 := cb_NbMax cb,
                                            cb_mPopIndex_U32 := cb_mPushIndex_U32 cb,
                                            cb_mOverflow_B := True\<rparr>)
                               else Ret cb)
                       else BOF_ASSERT (cb_mNbElementInBuffer_U32 cb \<le> cb_NbMax cb) (Ret cb))
                      (\<lambda>cb. Ret (if cb_mNbElementInBuffer_U32 cb > cb_mLevelMax_U32 cb
                                 then cb\<lparr>cb_mLevelMax_U32 := cb_mNbElementInBuffer_U32 cb\<rparr> else cb,
                                 BOF_ERR_NO_ERROR, Some IndexOf_U32))))
          else Ret (cb\<lparr>cb_mOverflow_B := True\<rparr>, BOF_ERR_LOCK, None))
      else Ret (cb\<lparr>cb_mOverflow_B := True\<rparr>, BOF_ERR_FULL, None))"

fun BofCircularBuffer_Push ::
  "'a cb_schedule \<Rightarrow> 'a BofCircularBuffer \<Rightarrow> 'a option \<Rightarrow> u32 \<Rightarrow>
     ('a BofCircularBuffer \<times> BOFERR \<times> u32 option) outcome" where
  "BofCircularBuffer_Push sched cb None Timeout_U32 = Ret (cb, BOF_ERR_EINVAL, None)"
| "BofCircularBuffer_Push [] cb (Some x) Timeout_U32 = Retrying"
| "BofCircularBuffer_Push ((during, before) # sched) cb (Some x) Timeout_U32 =
     bindO (if cb_Blocking cb \<and> Timeout_U32 \<noteq> 0 then cb_wait_write (during cb) Timeout_U32
            else Ret (cb, BOF_ERR_NO_ERROR))
       (\<lambda>(cb, Rts_E).
          if Rts_E = BOF_ERR_NO_ERROR then
            BOF_CIRCULAR_BUFFER_LOCK (before cb) (\<lambda>cb Rts_E.
              if Rts_E = BOF_ERR_NO_ERROR then
                bindO (BofCircularBuffer_Push_store cb x) (\<lambda>(cb, Rts_E, IndexOf).
                  if cb_Blocking cb \<and> Rts_E = BOF_ERR_NO_ERROR then
                    bindO (BofCircularBuffer_SignalReadWrite cb) (\<lambda>(cb, Rts_E).
                      BOF_CIRCULAR_BUFFER_UNLOCK cb (\<lambda>cb. Ret (cb, Rts_E, IndexOf)))
                  else if cb_Blocking cb \<and> Timeout_U32 \<noteq> 0 \<and> Rts_E = BOF_ERR_FULL then
                    BOF_CIRCULAR_BUFFER_UNLOCK cb
                      (\<lambda>cb. BofCircularBuffer_Push sched cb (Some x) Timeout_U32)
                  else BOF_CIRCULAR_BUFFER_UNLOCK cb (\<lambda>cb. Ret (cb, Rts_E, IndexOf)))
              else Ret (cb, Rts_E, None))
          else Ret (cb, Rts_E, None))"

section \<open>PushForNextPop\<close>

text \<open>The pop index moved backwards.\<close>

definition cb_dec :: "u32 \<Rightarrow> u32 \<Rightarrow> u32" where
  "cb_dec NbMax_U32 i = (if i = 0 then NbMax_U32 - 1 else i - 1)"

text \<open>The part of \<^verbatim>\<open>PushForNextPop\<close> that stores the element, under the mutex.\<close>

definition BofCircularBuffer_PushForNextPop_store ::
  "'a BofCircularBuffer \<Rightarrow> 'a \<Rightarrow> bool \<Rightarrow> ('a BofCircularBuffer \<times> BOFERR) outcome" where
  "BofCircularBuffer_PushForNextPop_store cb x ForceIfFull_B =
     (if cb_Overwrite cb \<or> ForceIfFull_B \<or> cb_mNbElementInBuffer_U32 cb < cb_NbMax cb then
        bindO
          (if cb_mPopIndex_U32 cb \<noteq> cb_mPushIndex_U32 cb then
             rd (cb_mpLock_U8 cb) (cb_mPushIndex_U32 cb) (\<lambda>l.
               BOF_ASSERT (l = 0)
                 (BOF_ASSERT (cb_mNbElementInBuffer_U32 cb < cb_NbMax cb)
                   (let cb = cb\<lparr>cb_mNbElementInBuffer_U32 := cb_mNbElementInBuffer_U32 cb + 1\<rparr>
                    in if cb_PopLockMode cb
                       then BOF_ASSERT (cb_mNbElementLockedInBuffer_U32 cb < cb_NbMax cb)
                              (Ret (cb\<lparr>cb_mNbElementLockedInBuffer_U32 :=
                                        cb_mNbElementLockedInBuffer_U32 cb + 1\<rparr>))
                       else Ret cb)))
           else Ret cb)
          (\<lambda>cb. BOF_ASSERT (cb_mNbElementLockedInBuffer_U32 cb \<le> cb_mNbElementInBuffer_U32 cb)
            (let cb = cb\<lparr>cb_mPopIndex_U32 := cb_dec (cb_NbMax cb) (cb_mPopIndex_U32 cb)\<rparr>
             in BOF_ASSERT (cb_mPopIndex_U32 cb < cb_NbMax cb)
               (wr (cb_mpLock_U8 cb) (cb_mPopIndex_U32 cb) (if cb_PopLockMode cb then 1 else 0) (\<lambda>lk.
                wr (cb_mpData_T cb) (cb_mPopIndex_U32 cb) x (\<lambda>d.
                  let cb = cb\<lparr>cb_mpLock_U8 := lk, cb_mpData_T := d\<rparr>
                  in bindO
                       (if cb_Overwrite cb
                        then BOF_ASSERT (cb_mNbElementInBuffer_U32 cb \<le> cb_NbMax cb + 1)
                               (if cb_mNbElementInBuffer_U32 cb > cb_NbMax cb
                                then BOF_ASSERT (cb_mPushIndex_U32 cb = cb_mPopIndex_U32 cb)
                                       (Ret (cb\<lparr>cb_mNbElementInBuffer_U32 := cb_NbMax cb,
                                                 cb_mPopIndex_U32 := cb_next (cb_NbMax cb) (cb_mPopIndex_U32 cb),
                                                 cb_mOverflow_B := True\<rparr>))
                                else Ret cb)
                        else BOF_ASSERT (cb_mNbElementInBuffer_U32 cb \<le> cb_NbMax cb) (Ret cb))
                       (\<lambda>cb. Ret (if cb_mNbElementInBuffer_U32 cb > cb_mLevelMax_U32 cb
                                  then cb\<lparr>cb_mLevelMax_U32 := cb_mNbElementInBuffer_U32 cb\<rparr> else cb,
                                  BOF_ERR_NO_ERROR)))))))
      else Ret (cb\<lparr>cb_mOverflow_B := True\<rparr>, BOF_ERR_FULL))"

fun BofCircularBuffer_PushForNextPop ::
  "'a cb_schedule \<Rightarrow> 'a BofCircularBuffer \<Rightarrow> 'a option \<Rightarrow> bool \<Rightarrow> u32 \<Rightarrow>
     ('a BofCircularBuffer \<times> BOFERR) outcome" where
  "BofCircularBuffer_PushForNextPop sched cb None ForceIfFull_B Timeout_U32 = Ret (cb, BOF_ERR_EINVAL)"
| "BofCircularBuffer_PushForNextPop [] cb (Some x) ForceIfFull_B Timeout_U32 = Retrying"
| "BofCircularBuffer_PushForNextPop ((during, before) # sched) cb (Some x) ForceIfFull_B Timeout_U32 =
     bindO (if cb_Blocking cb \<and> Timeout_U32 \<noteq> 0 \<and> \<not> ForceIfFull_B
            then cb_wait_write (during cb) Timeout_U32 else Ret (cb, BOF_ERR_NO_ERROR))
       (\<lambda>(cb, Rts_E).
          if Rts_E = BOF_ERR_NO_ERROR then
            BOF_CIRCULAR_BUFFER_LOCK (before cb) (\<lambda>cb Rts_E.
              if Rts_E = BOF_ERR_NO_ERROR then
                bindO (BofCircularBuffer_PushForNextPop_store cb x ForceIfFull_B) (\<lambda>(cb, Rts_E).
                  if cb_Blocking cb \<and> Rts_E = BOF_ERR_NO_ERROR then
                    bindO (BofCircularBuffer_SignalReadWrite cb) (\<lambda>(cb, Rts_E).
                      BOF_CIRCULAR_BUFFER_UNLOCK cb (\<lambda>cb. Ret (cb, Rts_E)))
                  else if cb_Blocking cb \<and> Timeout_U32 \<noteq> 0 \<and> Rts_E = BOF_ERR_FULL then
                    BOF_CIRCULAR_BUFFER_UNLOCK cb
                      (\<lambda>cb. BofCircularBuffer_PushForNextPop sched cb (Some x) ForceIfFull_B Timeout_U32)
                  else BOF_CIRCULAR_BUFFER_UNLOCK cb (\<lambda>cb. Ret (cb, Rts_E)))
              else Ret (cb, Rts_E))
          else Ret (cb, Rts_E))"

section \<open>Pop, Peek and Skip\<close>

text \<open>The part of \<^verbatim>\<open>Pop\<close> that takes the element, under the mutex.\<close>

definition BofCircularBuffer_Pop_take ::
  "'a BofCircularBuffer \<Rightarrow> ('a BofCircularBuffer \<times> BOFERR \<times> (u32 \<times> 'a) option) outcome" where
  "BofCircularBuffer_Pop_take cb =
     BOF_ASSERT (cb_mNbElementLockedInBuffer_U32 cb \<le> cb_mNbElementInBuffer_U32 cb)
       (if cb_mNbElementInBuffer_U32 cb - cb_mNbElementLockedInBuffer_U32 cb \<noteq> 0 then
          rd (cb_mpLock_U8 cb) (cb_mPopIndex_U32 cb) (\<lambda>l.
            if l = 0 then
              rd (cb_mpData_T cb) (cb_mPopIndex_U32 cb) (\<lambda>x.
                let IndexOf_U32 = cb_mPopIndex_U32 cb in
                bindO
                  (if cb_PopLockMode cb
                   then BOF_ASSERT (cb_mNbElementLockedInBuffer_U32 cb < cb_NbMax cb)
                          (wr (cb_mpLock_U8 cb) (cb_mPopIndex_U32 cb) 1 (\<lambda>lk.
                             Ret (cb\<lparr>cb_mNbElementLockedInBuffer_U32 := cb_mNbElementLockedInBuffer_U32 cb + 1,
                                      cb_mpLock_U8 := lk\<rparr>)))
                   else BOF_ASSERT (cb_mNbElementInBuffer_U32 cb \<noteq> 0)
                          (BOF_ASSERT (cb_mNbElementInBuffer_U32 cb \<le> cb_NbMax cb)
                            (Ret (cb\<lparr>cb_mNbElementInBuffer_U32 := cb_mNbElementInBuffer_U32 cb - 1\<rparr>))))
                  (\<lambda>cb. BOF_ASSERT (cb_mPopIndex_U32 cb < cb_NbMax cb)
                    (Ret (cb\<lparr>cb_mPopIndex_U32 := cb_next (cb_NbMax cb) (cb_mPopIndex_U32 cb)\<rparr>,
                          BOF_ERR_NO_ERROR, Some (IndexOf_U32, x)))))
            else Ret (cb, BOF_ERR_LOCK, None))
        else Ret (cb, BOF_ERR_EMPTY, None))"

fun BofCircularBuffer_Pop ::
  "'a cb_schedule \<Rightarrow> 'a BofCircularBuffer \<Rightarrow> u32 \<Rightarrow>
     ('a BofCircularBuffer \<times> BOFERR \<times> (u32 \<times> 'a) option) outcome" where
  "BofCircularBuffer_Pop [] cb Timeout_U32 = Retrying"
| "BofCircularBuffer_Pop ((during, before) # sched) cb Timeout_U32 =
     bindO (if cb_Blocking cb \<and> Timeout_U32 \<noteq> 0 \<and> cb_mNbElementInBuffer_U32 cb = 0
            then cb_wait_read (during cb) Timeout_U32 else Ret (cb, BOF_ERR_NO_ERROR))
       (\<lambda>(cb, Rts_E).
          if Rts_E = BOF_ERR_NO_ERROR then
            BOF_CIRCULAR_BUFFER_LOCK (before cb) (\<lambda>cb Rts_E.
              if Rts_E = BOF_ERR_NO_ERROR then
                bindO (BofCircularBuffer_Pop_take cb) (\<lambda>(cb, Rts_E, Out).
                  if cb_Blocking cb \<and> Rts_E = BOF_ERR_NO_ERROR then
                    bindO (BofCircularBuffer_SignalReadWrite cb) (\<lambda>(cb, Rts_E).
                      BOF_CIRCULAR_BUFFER_UNLOCK cb (\<lambda>cb. Ret (cb, Rts_E, Out)))
                  else if cb_Blocking cb \<and> Timeout_U32 \<noteq> 0 \<and> Rts_E = BOF_ERR_EMPTY then
                    BOF_CIRCULAR_BUFFER_UNLOCK cb (\<lambda>cb. BofCircularBuffer_Pop sched cb Timeout_U32)
                  else BOF_CIRCULAR_BUFFER_UNLOCK cb (\<lambda>cb. Ret (cb, Rts_E, Out)))
              else Ret (cb, Rts_E, None))
          else Ret (cb, Rts_E, None))"

text \<open>An index moved to the previous cell: below 0 the decrement wraps to the greatest word.\<close>

definition cb_prev :: "u32 \<Rightarrow> u32 \<Rightarrow> u32" where
  "cb_prev NbMax_U32 i = (if i - 1 \<ge> NbMax_U32 then NbMax_U32 - 1 else i - 1)"

definition BofCircularBuffer_PopLastPush ::
  "'a BofCircularBuffer \<Rightarrow> ('a BofCircularBuffer \<times> BOFERR \<times> (u32 \<times> 'a) option) outcome" where
  "BofCircularBuffer_PopLastPush cb =
     BOF_CIRCULAR_BUFFER_LOCK cb (\<lambda>cb Rts_E.
       if Rts_E = BOF_ERR_NO_ERROR then
         bindO
           (BOF_ASSERT (cb_mNbElementLockedInBuffer_U32 cb \<le> cb_mNbElementInBuffer_U32 cb)
             (if cb_mNbElementInBuffer_U32 cb - cb_mNbElementLockedInBuffer_U32 cb \<noteq> 0 then
                BOF_ASSERT (cb_mPushIndex_U32 cb < cb_NbMax cb)
                  (let cb = cb\<lparr>cb_mPushIndex_U32 := cb_prev (cb_NbMax cb) (cb_mPushIndex_U32 cb)\<rparr>
                   in rd (cb_mpLock_U8 cb) (cb_mPushIndex_U32 cb) (\<lambda>l.
                      let cb = (if l \<noteq> 0
                                then cb\<lparr>cb_mNbElementLockedInBuffer_U32 := cb_mNbElementLockedInBuffer_U32 cb - 1,
                                        cb_mpLock_U8 := (cb_mpLock_U8 cb)[unat (cb_mPushIndex_U32 cb) := 0]\<rparr>
                                else cb)
                      in rd (cb_mpData_T cb) (cb_mPushIndex_U32 cb) (\<lambda>x.
                           BOF_ASSERT (cb_mNbElementInBuffer_U32 cb \<noteq> 0)
                             (BOF_ASSERT (cb_mNbElementInBuffer_U32 cb \<le> cb_NbMax cb)
                               (Ret (cb\<lparr>cb_mNbElementInBuffer_U32 := cb_mNbElementInBuffer_U32 cb - 1\<rparr>,
                                     BOF_ERR_NO_ERROR, Some (cb_mPushIndex_U32 cb, x)))))))
              else Ret (cb, BOF_ERR_EMPTY, None)))
           (\<lambda>(cb, Rts_E, Out).
              if cb_Blocking cb \<and> Rts_E = BOF_ERR_NO_ERROR then
                bindO (BofCircularBuffer_SignalReadWrite cb) (\<lambda>(cb, Rts_E).
                  BOF_CIRCULAR_BUFFER_UNLOCK cb (\<lambda>cb. Ret (cb, Rts_E, Out)))
              else BOF_CIRCULAR_BUFFER_UNLOCK cb (\<lambda>cb. Ret (cb, Rts_E, Out)))
       else Ret (cb, Rts_E, None))"

text \<open>\<^verbatim>\<open>Peek\<close> waits at most once, so its schedule is a single turn.\<close>

definition BofCircularBuffer_Peek ::
  "('a BofCircularBuffer \<Rightarrow> 'a BofCircularBuffer) \<Rightarrow> ('a BofCircularBuffer \<Rightarrow> 'a BofCircularBuffer) \<Rightarrow>
   'a BofCircularBuffer \<Rightarrow> u32 \<Rightarrow> ('a BofCircularBuffer \<times> BOFERR \<times> (u32 \<times> 'a) option) outcome" where
  "BofCircularBuffer_Peek during before cb Timeout_U32 =
     bindO (if cb_Blocking cb \<and> Timeout_U32 \<noteq> 0 \<and> cb_mNbElementInBuffer_U32 cb = 0
            then cb_wait_read (during cb) Timeout_U32 else Ret (cb, BOF_ERR_NO_ERROR))
       (\<lambda>(cb, Rts_E).
          if Rts_E = BOF_ERR_NO_ERROR then
            BOF_CIRCULAR_BUFFER_LOCK (before cb) (\<lambda>cb Rts_E.
              if Rts_E = BOF_ERR_NO_ERROR then
                bindO
                  (BOF_ASSERT (cb_mNbElementLockedInBuffer_U32 cb \<le> cb_mNbElementInBuffer_U32 cb)
                    (if cb_mNbElementInBuffer_U32 cb - cb_mNbElementLockedInBuffer_U32 cb \<noteq> 0 then
                       rd (cb_mpLock_U8 cb) (cb_mPopIndex_U32 cb) (\<lambda>l.
                         if l = 0
                         then rd (cb_mpData_T cb) (cb_mPopIndex_U32 cb)
                                (\<lambda>x. Ret (BOF_ERR_NO_ERROR, Some (cb_mPopIndex_U32 cb, x)))
                         else Ret (BOF_ERR_LOCK, None))
                     else Ret (BOF_ERR_EMPTY, None)))
                  (\<lambda>(Rts_E, Out). BOF_CIRCULAR_BUFFER_UNLOCK cb (\<lambda>cb. Ret (cb, Rts_E, Out)))
              else Ret (cb, Rts_E, None))
          else Ret (cb, Rts_E, None))"

text \<open>An index brought back into the ring.\<close>

definition cb_wrap :: "u32 \<Rightarrow> u32 \<Rightarrow> u32" where
  "cb_wrap NbMax_U32 i = (if i \<ge> NbMax_U32 then i - NbMax_U32 else i)"

text \<open>The values of the indexed peeks: the element and the lock state of its cell.\<close>

definition BofCircularBuffer_PeekFromPop ::
  "'a BofCircularBuffer \<Rightarrow> u32 \<Rightarrow> ('a BofCircularBuffer \<times> BOFERR \<times> ('a \<times> bool) option) outcome" where
  "BofCircularBuffer_PeekFromPop cb RelativeIndexFromPop_U32 =
     BOF_CIRCULAR_BUFFER_LOCK cb (\<lambda>cb Rts_E.
       if Rts_E = BOF_ERR_NO_ERROR then
         bindO
           (if RelativeIndexFromPop_U32 < cb_mNbElementInBuffer_U32 cb then
              let Index_U32 = cb_wrap (cb_NbMax cb) (cb_mPopIndex_U32 cb + RelativeIndexFromPop_U32)
              in if Index_U32 < cb_mPushIndex_U32 cb
                 then rd (cb_mpData_T cb) Index_U32 (\<lambda>x.
                      rd (cb_mpLock_U8 cb) Index_U32 (\<lambda>l.
                        Ret (BOF_ERR_NO_ERROR, Some (x, l \<noteq> 0))))
                 else Ret (BOF_ERR_NOT_AVAILABLE, None)
            else Ret (BOF_ERR_EMPTY, None))
           (\<lambda>(Rts_E, Out). BOF_CIRCULAR_BUFFER_UNLOCK cb (\<lambda>cb. Ret (cb, Rts_E, Out)))
       else Ret (cb, Rts_E, None))"

definition BofCircularBuffer_PeekByIndex ::
  "'a BofCircularBuffer \<Rightarrow> u32 \<Rightarrow> ('a BofCircularBuffer \<times> BOFERR \<times> ('a \<times> bool) option) outcome" where
  "BofCircularBuffer_PeekByIndex cb AbsoluteIndex_U32 =
     (if AbsoluteIndex_U32 < cb_NbMax cb then
        BOF_CIRCULAR_BUFFER_LOCK cb (\<lambda>cb Rts_E.
          if Rts_E = BOF_ERR_NO_ERROR then
            rd (cb_mpData_T cb) AbsoluteIndex_U32 (\<lambda>x.
            rd (cb_mpLock_U8 cb) AbsoluteIndex_U32 (\<lambda>l.
              BOF_CIRCULAR_BUFFER_UNLOCK cb (\<lambda>cb. Ret (cb, BOF_ERR_NO_ERROR, Some (x, l \<noteq> 0)))))
          else Ret (cb, Rts_E, None))
      else Ret (cb, BOF_ERR_NOT_AVAILABLE, None))"

definition BofCircularBuffer_Skip ::
  "'a BofCircularBuffer \<Rightarrow> bool \<Rightarrow> ('a BofCircularBuffer \<times> BOFERR \<times> (u32 \<times> 'a) option) outcome" where
  "BofCircularBuffer_Skip cb SignalIfNeeded_B =
     BOF_CIRCULAR_BUFFER_LOCK cb (\<lambda>cb Rts_E.
       if Rts_E = BOF_ERR_NO_ERROR then
         bindO
           (BOF_ASSERT (cb_mNbElementLockedInBuffer_U32 cb \<le> cb_mNbElementInBuffer_U32 cb)
             (if cb_mNbElementInBuffer_U32 cb - cb_mNbElementLockedInBuffer_U32 cb \<noteq> 0 then
                rd (cb_mpLock_U8 cb) (cb_mPopIndex_U32 cb) (\<lambda>l.
                  if l = 0 then
                    BOF_ASSERT (cb_mNbElementInBuffer_U32 cb \<noteq> 0)
                     (BOF_ASSERT (cb_mNbElementInBuffer_U32 cb \<le> cb_NbMax cb)
                      (BOF_ASSERT (cb_mPopIndex_U32 cb < cb_NbMax cb)
                       (rd (cb_mpData_T cb) (cb_mPopIndex_U32 cb) (\<lambda>x.
                          let IndexOf_U32 = cb_mPopIndex_U32 cb;
                              cb = cb\<lparr>cb_mNbElementInBuffer_U32 := cb_mNbElementInBuffer_U32 cb - 1,
                                      cb_mPopIndex_U32 := cb_next (cb_NbMax cb) (cb_mPopIndex_U32 cb)\<rparr>
                          in if cb_Blocking cb \<and> SignalIfNeeded_B
                             then bindO (BofCircularBuffer_SignalReadWrite cb)
                                    (\<lambda>(cb, Rts_E). Ret (cb, Rts_E, Some (IndexOf_U32, x)))
                             else Ret (cb, BOF_ERR_NO_ERROR, Some (IndexOf_U32, x))))))
                  else Ret (cb, BOF_ERR_LOCK, None))
              else Ret (cb, BOF_ERR_EMPTY, None)))
           (\<lambda>(cb, Rts_E, Out). BOF_CIRCULAR_BUFFER_UNLOCK cb (\<lambda>cb. Ret (cb, Rts_E, Out)))
       else Ret (cb, Rts_E, None))"

section \<open>Locked cells\<close>

definition BofCircularBuffer_UnlockPop ::
  "'a BofCircularBuffer \<Rightarrow> u32 \<Rightarrow> ('a BofCircularBuffer \<times> BOFERR) outcome" where
  "BofCircularBuffer_UnlockPop cb AbsoluteIndex_U32 =
     (if cb_PopLockMode cb then
        if AbsoluteIndex_U32 < cb_NbMax cb then
          BOF_CIRCULAR_BUFFER_LOCK cb (\<lambda>cb Rts_E.
            if Rts_E = BOF_ERR_NO_ERROR then
              bindO
                (rd (cb_mpLock_U8 cb) AbsoluteIndex_U32 (\<lambda>l.
                   if l \<noteq> 0 then
                     wr (cb_mpLock_U8 cb) AbsoluteIndex_U32 0 (\<lambda>lk.
                       BOF_ASSERT (cb_mNbElementInBuffer_U32 cb \<noteq> 0)
                        (BOF_ASSERT (cb_mNbElementInBuffer_U32 cb \<le> cb_NbMax cb)
                         (BOF_ASSERT (cb_mNbElementLockedInBuffer_U32 cb \<noteq> 0)
                          (BOF_ASSERT (cb_mNbElementLockedInBuffer_U32 cb \<le> cb_NbMax cb)
                           (let cb = cb\<lparr>cb_mpLock_U8 := lk,
                                        cb_mNbElementInBuffer_U32 := cb_mNbElementInBuffer_U32 cb - 1,
                                        cb_mNbElementLockedInBuffer_U32 := cb_mNbElementLockedInBuffer_U32 cb - 1\<rparr>
                            in BOF_ASSERT (cb_mNbElementLockedInBuffer_U32 cb \<le> cb_mNbElementInBuffer_U32 cb)
                                 (BofCircularBuffer_SignalReadWrite cb))))))
                   else Ret (cb, BOF_ERR_UNLOCK)))
                (\<lambda>(cb, Rts_E). BOF_CIRCULAR_BUFFER_UNLOCK cb (\<lambda>cb. Ret (cb, Rts_E)))
            else Ret (cb, Rts_E))
        else Ret (cb, BOF_ERR_TOO_BIG)
      else Ret (cb, BOF_ERR_WRONG_MODE))"

definition BofCircularBuffer_IsLocked ::
  "'a BofCircularBuffer \<Rightarrow> u32 \<Rightarrow> ('a BofCircularBuffer \<times> bool) outcome" where
  "BofCircularBuffer_IsLocked cb AbsoluteIndex_U32 =
     (if AbsoluteIndex_U32 < cb_NbMax cb then
        BOF_CIRCULAR_BUFFER_LOCK cb (\<lambda>cb Sts_E.
          if Sts_E = BOF_ERR_NO_ERROR then
            rd (cb_mpLock_U8 cb) AbsoluteIndex_U32 (\<lambda>l.
              BOF_CIRCULAR_BUFFER_UNLOCK cb (\<lambda>cb. Ret (cb, l \<noteq> 0)))
          else Ret (cb, False))
      else Ret (cb, False))"

text \<open>
  \<^verbatim>\<open>IsEntryFree\<close> with a non-null \<^verbatim>\<open>_pIsLocked_B\<close> when \<open>pIsLocked\<close> holds: the lock byte
  is then read whatever the index is.
\<close>

definition BofCircularBuffer_IsEntryFree ::
  "'a BofCircularBuffer \<Rightarrow> u32 \<Rightarrow> bool \<Rightarrow> ('a BofCircularBuffer \<times> bool \<times> bool option) outcome" where
  "BofCircularBuffer_IsEntryFree cb AbsoluteIndex_U32 pIsLocked =
     BOF_CIRCULAR_BUFFER_LOCK cb (\<lambda>cb Sts_E.
       if Sts_E = BOF_ERR_NO_ERROR then
         bindO
           (if AbsoluteIndex_U32 < cb_NbMax cb then
              if cb_mNbElementInBuffer_U32 cb \<noteq> 0 then
                if cb_mNbElementInBuffer_U32 cb < cb_NbMax cb then
                  if cb_mPopIndex_U32 cb \<le> cb_mPushIndex_U32 cb then
                    if AbsoluteIndex_U32 \<ge> cb_mPushIndex_U32 cb \<or> AbsoluteIndex_U32 < cb_mPopIndex_U32 cb
                    then rd (cb_mpLock_U8 cb) AbsoluteIndex_U32 (\<lambda>l. Ret (l = 0))
                    else Ret False
                  else
                    if AbsoluteIndex_U32 \<ge> cb_mPushIndex_U32 cb \<and> AbsoluteIndex_U32 < cb_mPopIndex_U32 cb
                    then rd (cb_mpLock_U8 cb) AbsoluteIndex_U32 (\<lambda>l. Ret (l = 0))
                    else Ret False
                else Ret False
              else Ret True
            else Ret False)
           (\<lambda>Rts_B.
              bindO (if pIsLocked then rd (cb_mpLock_U8 cb) AbsoluteIndex_U32 (\<lambda>l. Ret (Some (l \<noteq> 0)))
                     else Ret None)
                (\<lambda>IsLocked. BOF_CIRCULAR_BUFFER_UNLOCK cb (\<lambda>cb. Ret (cb, Rts_B, IsLocked))))
       else Ret (cb, False, None))"

end
