(* ===== verification/Bof_Ring.thy ===== *)
theory Bof_Ring
  imports Bof_Prelude
begin

text \<open>
  The arithmetic of ring buffers, shared by the circular buffers of the
  library: the cells of a window of a ring, the list it holds, and how the
  two change when the window grows or shrinks at either end. All indices are
  natural numbers modulo the size of the ring.
\<close>

section \<open>Indices of a ring\<close>

lemma ring_inj: "(q + i) mod n = (q + j) mod n \<Longrightarrow> i < n \<Longrightarrow> j < n \<Longrightarrow> i = (j::nat)"
proof (induction i j rule: linorder_wlog)
  case (le i j)
  then have "n dvd (q + j) - (q + i)" by (metis mod_eq_dvd_iff_nat add_le_cancel_left)
  then have "n dvd j - i" by simp
  with le show ?case by (metis dvd_imp_le le_antisym less_imp_diff_less linorder_not_less zero_less_diff)
next
  case (sym i j)
  then show ?case by simp
qed

lemma ring_step: "((q + 1) mod n + j) mod n = (q + Suc j) mod (n::nat)"
  by (simp add: mod_simps)

lemma ring_pred: "0 < k \<Longrightarrow> q < n \<Longrightarrow>
  (q + (k - 1)) mod n = (if (q + k) mod n = 0 then n - 1 else (q + k) mod n - (1::nat))"
  by (cases k) (auto simp: mod_Suc split: if_splits)

lemma mod_eq_cases: "a < n \<Longrightarrow> b \<le> n \<Longrightarrow> (a + b) mod n = (if a + b < n then a + b else a + b - (n::nat))"
  by (auto simp: mod_if)

text \<open>The distance of a cell behind the start of a window.\<close>

definition ring_dist :: "nat \<Rightarrow> nat \<Rightarrow> nat \<Rightarrow> nat" where
  "ring_dist n q i = (if q \<le> i then i - q else i + n - q)"

lemma ring_dist_less: "q < n \<Longrightarrow> i < n \<Longrightarrow> ring_dist n q i < n"
  by (auto simp: ring_dist_def)

lemma ring_dist_inverse: "q < n \<Longrightarrow> i < n \<Longrightarrow> (q + ring_dist n q i) mod n = i"
  by (auto simp: ring_dist_def)

lemma ring_member:
  assumes "q < n" "i < n" "k \<le> n"
  shows "(\<exists>j<k. (q + j) mod n = i) \<longleftrightarrow> ring_dist n q i < k"
proof
  assume "\<exists>j<k. (q + j) mod n = i"
  then obtain j where j: "j < k" "(q + j) mod n = i" by blast
  then have "j = ring_dist n q i"
    using ring_inj [of q j n "ring_dist n q i"] ring_dist_inverse [of q n i] ring_dist_less [of q n i] assms
    by simp
  with j show "ring_dist n q i < k" by simp
qed (use ring_dist_inverse assms in blast)

section \<open>The list in a window\<close>

definition ring_slice :: "'a list \<Rightarrow> nat \<Rightarrow> nat \<Rightarrow> nat \<Rightarrow> 'a list" where
  "ring_slice D n q k = map (\<lambda>j. D ! ((q + j) mod n)) [0..<k]"

lemma length_ring_slice [simp]: "length (ring_slice D n q k) = k"
  by (simp add: ring_slice_def)

lemma ring_slice_0 [simp]: "ring_slice D n q 0 = []"
  by (simp add: ring_slice_def)

lemma ring_slice_nth [simp]: "j < k \<Longrightarrow> ring_slice D n q k ! j = D ! ((q + j) mod n)"
  by (simp add: ring_slice_def)

lemma ring_slice_Suc: "ring_slice D n q (Suc k) = ring_slice D n q k @ [D ! ((q + k) mod n)]"
  by (simp add: ring_slice_def)

lemma ring_slice_Cons:
  "q < n \<Longrightarrow> ring_slice D n q (Suc k) = D ! q # ring_slice D n ((q + 1) mod n) k"
  unfolding ring_slice_def
  by (simp only: upt_conv_Cons map_Suc_upt [symmetric] zero_less_Suc list.map map_map o_def ring_step) simp

lemma ring_slice_update_outside:
  assumes "\<And>j. j < k \<Longrightarrow> (q + j) mod n \<noteq> i"
  shows "ring_slice (D[i := x]) n q k = ring_slice D n q k"
  unfolding ring_slice_def using assms by (intro map_cong) (metis atLeastLessThan_iff nth_list_update_neq set_upt)+

lemma ring_slice_push:
  assumes "k < n" "n \<le> length D"
  shows "ring_slice (D[(q + k) mod n := x]) n q (Suc k) = ring_slice D n q k @ [x]"
proof -
  have "(q + k) mod n < length D" using assms by (simp add: order.strict_trans2 [OF mod_less_divisor])
  moreover have "(q + j) mod n \<noteq> (q + k) mod n" if "j < k" for j
    using ring_inj [of q j n k] that assms by auto
  ultimately show ?thesis by (simp add: ring_slice_Suc ring_slice_update_outside)
qed

text \<open>Writing at the end of a full window drops its first element.\<close>

lemma ring_slice_overwrite:
  assumes "q < n" "n \<le> length D"
  shows "ring_slice (D[q := x]) n ((q + 1) mod n) n = tl (ring_slice D n q n) @ [x]"
proof -
  obtain m where n: "n = Suc m" using assms by (cases n) auto
  have "(q + Suc m) mod n = q" using assms n by (metis mod_add_self2 mod_less)
  then have q: "((q + 1) mod n + m) mod n = q" by (simp only: ring_step)
  have "ring_slice (D[q := x]) n ((q + 1) mod n) (Suc m) = ring_slice D n ((q + 1) mod n) m @ [x]"
    using ring_slice_push [of m n D "(q + 1) mod n" x] assms n q by simp
  moreover have "ring_slice D n q (Suc m) = D ! q # ring_slice D n ((q + 1) mod n) m"
    using assms by (intro ring_slice_Cons) simp
  ultimately show ?thesis using n by simp
qed

text \<open>Keeping the last \<open>n\<close> elements of a list that grows.\<close>

lemma drop_last_append:
  "drop (length (drop (length ys - n) ys @ xs) - n) (drop (length ys - n) ys @ xs)
     = drop (length (ys @ xs) - n) (ys @ xs)"
  by (cases "length ys \<le> n") (auto simp: add.commute)

section \<open>Free cells\<close>

text \<open>A predicate that holds on all cells of a window.\<close>

definition ring_all :: "('a \<Rightarrow> bool) \<Rightarrow> 'a list \<Rightarrow> nat \<Rightarrow> nat \<Rightarrow> nat \<Rightarrow> bool" where
  "ring_all P L n q k \<longleftrightarrow> (\<forall>j<k. P (L ! ((q + j) mod n)))"

lemma ring_all_0 [simp]: "ring_all P L n q 0"
  by (simp add: ring_all_def)

lemma ring_all_Suc: "ring_all P L n q (Suc k) \<longleftrightarrow> ring_all P L n q k \<and> P (L ! ((q + k) mod n))"
  by (auto simp: ring_all_def less_Suc_eq)

lemma ring_all_upt: "ring_all P L n q k \<longleftrightarrow> list_all (\<lambda>j. P (L ! ((q + j) mod n))) [0..<k]"
  by (auto simp: ring_all_def list_all_iff)

lemma ring_all_Cons: "q < n \<Longrightarrow>
  ring_all P L n q (Suc k) \<longleftrightarrow> P (L ! q) \<and> ring_all P L n ((q + 1) mod n) k"
  unfolding ring_all_def ring_step by (simp add: All_less_Suc2)

lemma ring_all_tl:
  "q < n \<Longrightarrow> ring_all P L n q (Suc k) \<Longrightarrow> ring_all P L n ((q + 1) mod n) k"
  by (simp only: ring_all_Cons)

lemma ring_all_update_outside:
  assumes "\<And>j. j < k \<Longrightarrow> (q + j) mod n \<noteq> i"
  shows "ring_all P (L[i := x]) n q k = ring_all P L n q k"
  unfolding ring_all_def using assms by (metis nth_list_update_neq)

lemma ring_all_update_good:
  "P x \<Longrightarrow> ring_all P L n q k \<Longrightarrow> ring_all P (L[i := x]) n q k"
  by (auto simp: ring_all_def nth_list_update)
    (metis list_update_beyond not_le_imp_less nth_list_update)

text \<open>The cell just behind a window of \<open>k\<close> cells that holds all the cells with \<open>P\<close> has no \<open>P\<close>.\<close>

lemma ring_all_next:
  assumes "ring_all P L n q k" "k < n" "n = length L" "length (filter P L) \<le> k"
  shows "\<not> P (L ! ((q + k) mod n))"
proof
  assume "P (L ! ((q + k) mod n))"
  with assms have all: "\<forall>j<Suc k. P (L ! ((q + j) mod n))" by (simp add: ring_all_def less_Suc_eq)
  have "inj_on (\<lambda>j. (q + j) mod n) {..<Suc k}"
    using assms(2) by (auto intro!: inj_onI dest: ring_inj)
  then have "Suc k = card ((\<lambda>j. (q + j) mod n) ` {..<Suc k})" by (simp add: card_image)
  also have "\<dots> \<le> card {i. i < length L \<and> P (L ! i)}"
    using all assms by (intro card_mono) (auto intro: mod_less_divisor)
  also have "\<dots> = length (filter P L)" by (simp add: length_filter_conv_card)
  finally show False using assms by simp
qed

end
