(* ===== verification/Bof_Fifo_Spec.thy ===== *)
theory Bof_Fifo_Spec
  imports Bof_Prelude
begin

text \<open>
  The contract of a bounded first-in first-out container: what a push and a
  pop do to the list of the elements it holds. A client run is a list of
  operations; inside the locale the observations of every run of an
  implementation are proved equal to those of the abstract queue.
\<close>

section \<open>Runs\<close>

datatype 'a fifo_op = FifoPush 'a | FifoPop

text \<open>What a client sees of an operation: the error code and the element.\<close>

type_synonym 'a fifo_obs = "BOFERR \<times> 'a option"

text \<open>A run of an implementation given by its push and pop.\<close>

fun fifo_run ::
  "('a \<Rightarrow> 's \<Rightarrow> ('s \<times> BOFERR) outcome) \<Rightarrow> ('s \<Rightarrow> ('s \<times> BOFERR \<times> 'a option) outcome) \<Rightarrow>
   'a fifo_op list \<Rightarrow> 's \<Rightarrow> ('s \<times> 'a fifo_obs list) outcome" where
  "fifo_run push pop [] s = Ret (s, [])"
| "fifo_run push pop (FifoPush x # ops) s =
     bindO (push x s) (\<lambda>(s, e). bindO (fifo_run push pop ops s) (\<lambda>(s, os). Ret (s, (e, None) # os)))"
| "fifo_run push pop (FifoPop # ops) s =
     bindO (pop s) (\<lambda>(s, e, r). bindO (fifo_run push pop ops s) (\<lambda>(s, os). Ret (s, (e, r) # os)))"

text \<open>The abstract queue of capacity \<open>n\<close> with its error codes.\<close>

fun queue_run :: "nat \<Rightarrow> BOFERR \<Rightarrow> BOFERR \<Rightarrow> 'a fifo_op list \<Rightarrow> 'a list \<Rightarrow> 'a list \<times> 'a fifo_obs list" where
  "queue_run n full void [] xs = (xs, [])"
| "queue_run n full void (FifoPush x # ops) xs =
     (if length xs < n
      then case queue_run n full void ops (xs @ [x]) of (ys, os) \<Rightarrow> (ys, (BOF_ERR_NO_ERROR, None) # os)
      else case queue_run n full void ops xs of (ys, os) \<Rightarrow> (ys, (full, None) # os))"
| "queue_run n full void (FifoPop # ops) xs =
     (case xs of
        [] \<Rightarrow> (case queue_run n full void ops [] of (ys, os) \<Rightarrow> (ys, (void, None) # os))
      | x # xs \<Rightarrow> (case queue_run n full void ops xs of (ys, os) \<Rightarrow> (ys, (BOF_ERR_NO_ERROR, Some x) # os)))"

text \<open>The elements that a run of observations hands out.\<close>

definition fifo_popped :: "'a fifo_obs list \<Rightarrow> 'a list" where
  "fifo_popped os = List.map_filter snd os"

lemma fifo_popped_simps [simp]:
  "fifo_popped [] = []" "fifo_popped ((e, None) # os) = fifo_popped os"
  "fifo_popped ((e, Some x) # os) = x # fifo_popped os"
  by (simp_all add: fifo_popped_def)

text \<open>The elements that a run of operations offers and that are accepted.\<close>

fun fifo_accepted :: "'a fifo_op list \<Rightarrow> 'a fifo_obs list \<Rightarrow> 'a list" where
  "fifo_accepted (FifoPush x # ops) ((e, _) # os) =
     (if e = BOF_ERR_NO_ERROR then x # fifo_accepted ops os else fifo_accepted ops os)"
| "fifo_accepted (FifoPop # ops) (_ # os) = fifo_accepted ops os"
| "fifo_accepted _ _ = []"

text \<open>First in, first out: what went in is what came out followed by what is still held.\<close>

lemma queue_run_fifo:
  assumes "full \<noteq> BOF_ERR_NO_ERROR"
  shows "queue_run n full void ops xs = (ys, os) \<Longrightarrow> xs @ fifo_accepted ops os = fifo_popped os @ ys"
proof (induction ops arbitrary: xs os)
  case Nil
  then show ?case by simp
next
  case (Cons op ops)
  then show ?case using assms
    by (cases op) (fastforce split: if_splits prod.splits list.splits)+
qed

section \<open>The contract\<close>

text \<open>The elements a container takes at all may be limited, in their size for instance.\<close>

fun fifo_fits :: "('a \<Rightarrow> bool) \<Rightarrow> 'a fifo_op \<Rightarrow> bool" where
  "fifo_fits fits (FifoPush x) = fits x"
| "fifo_fits fits FifoPop = True"

lemma fifo_fits_any [simp]: "fifo_fits (\<lambda>_. True) op"
  by (cases op) simp_all

locale bounded_fifo =
  fixes inv :: "'s \<Rightarrow> bool"
    and contents :: "'s \<Rightarrow> 'a list"
    and cap :: "'s \<Rightarrow> nat"
    and fits :: "'a \<Rightarrow> bool"
    and push :: "'a \<Rightarrow> 's \<Rightarrow> ('s \<times> BOFERR) outcome"
    and pop :: "'s \<Rightarrow> ('s \<times> BOFERR \<times> 'a option) outcome"
    and full :: BOFERR
    and void :: BOFERR
  assumes full_err: "full \<noteq> BOF_ERR_NO_ERROR"
    and contents_cap: "inv s \<Longrightarrow> length (contents s) \<le> cap s"
    and push_room: "inv s \<Longrightarrow> fits x \<Longrightarrow> length (contents s) < cap s \<Longrightarrow>
      \<exists>s'. push x s = Ret (s', BOF_ERR_NO_ERROR) \<and> inv s' \<and> cap s' = cap s \<and> contents s' = contents s @ [x]"
    and push_full: "inv s \<Longrightarrow> fits x \<Longrightarrow> length (contents s) = cap s \<Longrightarrow>
      \<exists>s'. push x s = Ret (s', full) \<and> inv s' \<and> cap s' = cap s \<and> contents s' = contents s"
    and pop_some: "inv s \<Longrightarrow> contents s = x # xs \<Longrightarrow>
      \<exists>s'. pop s = Ret (s', BOF_ERR_NO_ERROR, Some x) \<and> inv s' \<and> cap s' = cap s \<and> contents s' = xs"
    and pop_none: "inv s \<Longrightarrow> contents s = [] \<Longrightarrow>
      \<exists>s'. pop s = Ret (s', void, None) \<and> inv s' \<and> cap s' = cap s \<and> contents s' = []"
begin

text \<open>Every run returns, and the client sees exactly the abstract queue.\<close>

lemma run_refines:
  assumes "inv s" "list_all (fifo_fits fits) ops"
  shows "\<exists>s' os. fifo_run push pop ops s = Ret (s', os) \<and> inv s' \<and> cap s' = cap s \<and>
           queue_run (cap s) full void ops (contents s) = (contents s', os)"
  using assms
proof (induction ops arbitrary: s)
  case Nil
  then show ?case by simp
next
  case (Cons op ops)
  show ?case
  proof (cases op)
    case (FifoPush x)
    then have fit: "fits x" using Cons.prems(2) by simp
    show ?thesis
    proof (cases "length (contents s) < cap s")
      case True
      obtain s1 where "push x s = Ret (s1, BOF_ERR_NO_ERROR)" "inv s1" "cap s1 = cap s"
        "contents s1 = contents s @ [x]" using push_room [OF Cons.prems(1) fit True] by blast
      with Cons.IH [of s1] Cons.prems(2) True FifoPush show ?thesis by fastforce
    next
      case False
      then have "length (contents s) = cap s" using contents_cap [OF Cons.prems(1)] by simp
      then obtain s1 where "push x s = Ret (s1, full)" "inv s1" "cap s1 = cap s"
        "contents s1 = contents s" using push_full [OF Cons.prems(1) fit] by blast
      with Cons.IH [of s1] Cons.prems(2) False FifoPush show ?thesis by fastforce
    qed
  next
    case FifoPop
    then have fits: "list_all (fifo_fits fits) ops" using Cons.prems(2) by simp
    show ?thesis
    proof (cases "contents s")
      case Nil
      obtain s1 where "pop s = Ret (s1, void, None)" "inv s1" "cap s1 = cap s" "contents s1 = []"
        using pop_none [OF Cons.prems(1) Nil] by blast
      with Cons.IH [of s1] Cons.prems(2) Nil FifoPop show ?thesis by fastforce
    next
      case (Cons x xs)
      obtain s1 where "pop s = Ret (s1, BOF_ERR_NO_ERROR, Some x)" "inv s1" "cap s1 = cap s" "contents s1 = xs"
        using pop_some [OF \<open>inv s\<close> Cons] by blast
      with Cons.IH [of s1] fits Cons FifoPop show ?thesis by fastforce
    qed
  qed
qed

lemma run_fifo:
  assumes "inv s" "list_all (fifo_fits fits) ops" "fifo_run push pop ops s = Ret (s', os)"
  shows "contents s @ fifo_accepted ops os = fifo_popped os @ contents s'"
  using run_refines [OF assms(1,2)] assms(3) queue_run_fifo [OF full_err] by fastforce

end

end
