(* ===== verification/Bof_CircularBuffer_Proofs.thy ===== *)
theory Bof_CircularBuffer_Proofs
  imports Bof_CircularBuffer Bof_Ring Bof_Fifo_Spec
begin

text \<open>
  Correctness of the circular buffer: its invariant, the effect of every
  operation on the list of the elements it holds, and the lemmas from which
  the properties of the component follow.
\<close>

section \<open>The invariant\<close>

text \<open>Number of elements that can be popped, cells of the ring, elements in order.\<close>

definition cb_nb_avail :: "'a BofCircularBuffer \<Rightarrow> nat" where
  "cb_nb_avail cb = unat (cb_mNbElementInBuffer_U32 cb) - unat (cb_mNbElementLockedInBuffer_U32 cb)"

definition cb_contents :: "'a BofCircularBuffer \<Rightarrow> 'a list" where
  "cb_contents cb = ring_slice (cb_mpData_T cb) (unat (cb_NbMax cb)) (unat (cb_mPopIndex_U32 cb)) (cb_nb_avail cb)"

text \<open>The synchronisation objects are created and free.\<close>

definition cb_sync_ready :: "'a BofCircularBuffer \<Rightarrow> bool" where
  "cb_sync_ready cb \<longleftrightarrow>
     (cb_MultiThreadAware cb \<longrightarrow> mutex_ready (cb_mCircularBufferMtx_X cb)) \<and>
     (cb_Blocking cb \<longrightarrow> event_ready (cb_mCanReadEvent_X cb) \<and> event_ready (cb_mCanWriteEvent_X cb))"

text \<open>
  The state of the ring: the elements that can be popped are in the unlocked
  cells between the pop and the push index, and the locked cells are counted.
  A capacity of \<open>2 ^ 32 - 1\<close> is excluded, since the element counter would wrap.
\<close>

definition cb_ring_ok :: "'a BofCircularBuffer \<Rightarrow> bool" where
  "cb_ring_ok cb \<longleftrightarrow>
     0 < unat (cb_NbMax cb) \<and> unat (cb_NbMax cb) < 2 ^ 32 - 1 \<and>
     unat (cb_NbMax cb) \<le> length (cb_mpData_T cb) \<and> length (cb_mpLock_U8 cb) = unat (cb_NbMax cb) \<and>
     unat (cb_mPopIndex_U32 cb) < unat (cb_NbMax cb) \<and>
     unat (cb_mPushIndex_U32 cb) = (unat (cb_mPopIndex_U32 cb) + cb_nb_avail cb) mod unat (cb_NbMax cb) \<and>
     unat (cb_mNbElementLockedInBuffer_U32 cb) \<le> unat (cb_mNbElementInBuffer_U32 cb) \<and>
     unat (cb_mNbElementInBuffer_U32 cb) \<le> unat (cb_NbMax cb) \<and>
     length (filter (\<lambda>l. l \<noteq> 0) (cb_mpLock_U8 cb)) = unat (cb_mNbElementLockedInBuffer_U32 cb) \<and>
     ring_all (\<lambda>l. l = 0) (cb_mpLock_U8 cb) (unat (cb_NbMax cb)) (unat (cb_mPopIndex_U32 cb)) (cb_nb_avail cb) \<and>
     (\<not> cb_PopLockMode cb \<longrightarrow> cb_mNbElementLockedInBuffer_U32 cb = 0)"

definition cb_inv :: "'a BofCircularBuffer \<Rightarrow> bool" where
  "cb_inv cb \<longleftrightarrow> cb_ring_ok cb \<and> cb_sync_ready cb"

text \<open>The clauses of the invariant, one by one.\<close>

lemma cb_okD:
  assumes "cb_ring_ok cb"
  shows cb_ok_pos: "0 < unat (cb_NbMax cb)"
    and cb_ok_max: "unat (cb_NbMax cb) < 2 ^ 32 - 1"
    and cb_ok_data: "unat (cb_NbMax cb) \<le> length (cb_mpData_T cb)"
    and cb_ok_lock: "length (cb_mpLock_U8 cb) = unat (cb_NbMax cb)"
    and cb_ok_pop: "unat (cb_mPopIndex_U32 cb) < unat (cb_NbMax cb)"
    and cb_ok_push: "unat (cb_mPushIndex_U32 cb) = (unat (cb_mPopIndex_U32 cb) + cb_nb_avail cb) mod unat (cb_NbMax cb)"
    and cb_ok_locked: "unat (cb_mNbElementLockedInBuffer_U32 cb) \<le> unat (cb_mNbElementInBuffer_U32 cb)"
    and cb_ok_nb: "unat (cb_mNbElementInBuffer_U32 cb) \<le> unat (cb_NbMax cb)"
    and cb_ok_count: "length (filter (\<lambda>l. l \<noteq> 0) (cb_mpLock_U8 cb)) = unat (cb_mNbElementLockedInBuffer_U32 cb)"
    and cb_ok_win: "ring_all (\<lambda>l. l = 0) (cb_mpLock_U8 cb) (unat (cb_NbMax cb)) (unat (cb_mPopIndex_U32 cb)) (cb_nb_avail cb)"
    and cb_ok_mode: "\<not> cb_PopLockMode cb \<longrightarrow> cb_mNbElementLockedInBuffer_U32 cb = 0"
  using assms unfolding cb_ring_ok_def by blast+

lemma unat_cb_next:
  assumes "unat i < unat n" shows "unat (cb_next n i) = (unat i + 1) mod unat n"
proof -
  have "unat (i + 1) = unat i + 1" using assms by (simp add: word_less_nat_alt)
  with assms show ?thesis by (auto simp: cb_next_def word_le_nat_alt mod_if)
qed

lemma avail_word:
  assumes "unat (b::u32) \<le> unat a"
  shows "(a - b \<noteq> 0) \<longleftrightarrow> unat a - unat b > 0"
  using assms by (auto simp: word_unat_eq_iff unat_sub word_le_nat_alt)

text \<open>The lock and unlock macros, on free mutexes, bracket a body that keeps the mutex.\<close>

definition cb_hold :: "'a BofCircularBuffer \<Rightarrow> 'a BofCircularBuffer" where
  "cb_hold cb = (if cb_MultiThreadAware cb
     then cb\<lparr>cb_mCircularBufferMtx_X := (cb_mCircularBufferMtx_X cb)\<lparr>mtx_Mtx := OwnedBySelf (Suc 0)\<rparr>\<rparr> else cb)"

lemma cb_lock_ready [simp]:
  "cb_sync_ready cb \<Longrightarrow> BOF_CIRCULAR_BUFFER_LOCK cb k = k (cb_hold cb) BOF_ERR_NO_ERROR"
  by (simp add: BOF_CIRCULAR_BUFFER_LOCK_def cb_sync_ready_def sync_simps cb_hold_def)

lemma cb_unlock_hold [simp]:
  "cb_sync_ready cb \<Longrightarrow> BOF_CIRCULAR_BUFFER_UNLOCK (cb_hold cb) k = k cb"
  by (simp add: BOF_CIRCULAR_BUFFER_UNLOCK_def cb_sync_ready_def sync_simps cb_hold_def)

lemma cb_hold_simps [simp]:
  "cb_mCircularBufferParam_X (cb_hold cb) = cb_mCircularBufferParam_X cb"
  "cb_mpData_T (cb_hold cb) = cb_mpData_T cb" "cb_mOverflow_B (cb_hold cb) = cb_mOverflow_B cb"
  "cb_mPushIndex_U32 (cb_hold cb) = cb_mPushIndex_U32 cb"
  "cb_mPopIndex_U32 (cb_hold cb) = cb_mPopIndex_U32 cb"
  "cb_mNbElementInBuffer_U32 (cb_hold cb) = cb_mNbElementInBuffer_U32 cb"
  "cb_mNbElementLockedInBuffer_U32 (cb_hold cb) = cb_mNbElementLockedInBuffer_U32 cb"
  "cb_mLevelMax_U32 (cb_hold cb) = cb_mLevelMax_U32 cb"
  "cb_mCanReadEvent_X (cb_hold cb) = cb_mCanReadEvent_X cb"
  "cb_mCanWriteEvent_X (cb_hold cb) = cb_mCanWriteEvent_X cb"
  "cb_mpLock_U8 (cb_hold cb) = cb_mpLock_U8 cb"
  by (simp_all add: cb_hold_def)

lemma cb_nb_avail_hold [simp]: "cb_nb_avail (cb_hold cb) = cb_nb_avail cb"
  by (simp add: cb_nb_avail_def)

lemma cb_ring_ok_hold [simp]: "cb_ring_ok (cb_hold cb) = cb_ring_ok cb"
  by (simp add: cb_ring_ok_def)

section \<open>Effect of the operations on the ring\<close>

text \<open>What \<^verbatim>\<open>SignalReadWrite\<close> does to the events.\<close>

definition cb_can_write :: "'a BofCircularBuffer \<Rightarrow> bool" where
  "cb_can_write cb \<longleftrightarrow> (cb_Overwrite cb \<or> cb_mNbElementInBuffer_U32 cb < cb_NbMax cb)
     \<and> cb_mpLock_U8 cb ! unat (cb_mPushIndex_U32 cb) = 0"

definition cb_signal :: "'a BofCircularBuffer \<Rightarrow> 'a BofCircularBuffer" where
  "cb_signal cb =
     (if cb_Blocking cb
      then cb\<lparr>cb_mCanReadEvent_X := if 0 < cb_nb_avail cb then event_set (cb_mCanReadEvent_X cb)
                                     else cb_mCanReadEvent_X cb,
              cb_mCanWriteEvent_X := if cb_can_write cb then event_set (cb_mCanWriteEvent_X cb)
                                      else cb_mCanWriteEvent_X cb\<rparr>
      else cb)"

lemma cb_ring_okD:
  assumes "cb_ring_ok cb"
  shows "unat (cb_mPushIndex_U32 cb) < length (cb_mpLock_U8 cb)"
    "unat (cb_mPopIndex_U32 cb) < length (cb_mpLock_U8 cb)"
    "unat (cb_mPushIndex_U32 cb) < length (cb_mpData_T cb)"
    "unat (cb_mPopIndex_U32 cb) < length (cb_mpData_T cb)"
    "cb_mPushIndex_U32 cb < cb_NbMax cb" "cb_mPopIndex_U32 cb < cb_NbMax cb"
    "cb_mNbElementLockedInBuffer_U32 cb \<le> cb_mNbElementInBuffer_U32 cb"
    "cb_mNbElementInBuffer_U32 cb \<le> cb_NbMax cb"
    "(cb_mNbElementInBuffer_U32 cb - cb_mNbElementLockedInBuffer_U32 cb \<noteq> 0) = (0 < cb_nb_avail cb)"
    "0 < cb_nb_avail cb \<Longrightarrow> cb_mpLock_U8 cb ! unat (cb_mPopIndex_U32 cb) = 0"
proof -
  from assms have n: "0 < unat (cb_NbMax cb)"
    and push: "unat (cb_mPushIndex_U32 cb) = (unat (cb_mPopIndex_U32 cb) + cb_nb_avail cb) mod unat (cb_NbMax cb)"
    by (simp_all add: cb_ring_ok_def)
  then have p: "unat (cb_mPushIndex_U32 cb) < unat (cb_NbMax cb)" by simp
  have "unat (cb_NbMax cb) \<le> length (cb_mpData_T cb)" using assms by (simp add: cb_ring_ok_def)
  with p have d: "unat (cb_mPushIndex_U32 cb) < length (cb_mpData_T cb)" by (rule less_le_trans)
  show "unat (cb_mPushIndex_U32 cb) < length (cb_mpLock_U8 cb)"
    "unat (cb_mPopIndex_U32 cb) < length (cb_mpLock_U8 cb)"
    "unat (cb_mPushIndex_U32 cb) < length (cb_mpData_T cb)"
    "unat (cb_mPopIndex_U32 cb) < length (cb_mpData_T cb)"
    "cb_mPushIndex_U32 cb < cb_NbMax cb" "cb_mPopIndex_U32 cb < cb_NbMax cb"
    "cb_mNbElementLockedInBuffer_U32 cb \<le> cb_mNbElementInBuffer_U32 cb"
    "cb_mNbElementInBuffer_U32 cb \<le> cb_NbMax cb"
    using assms p d
    by (simp_all add: cb_ring_ok_def word_less_nat_alt word_le_nat_alt)
  show "(cb_mNbElementInBuffer_U32 cb - cb_mNbElementLockedInBuffer_U32 cb \<noteq> 0) = (0 < cb_nb_avail cb)"
    using assms avail_word by (simp add: cb_ring_ok_def cb_nb_avail_def)
  show "0 < cb_nb_avail cb \<Longrightarrow> cb_mpLock_U8 cb ! unat (cb_mPopIndex_U32 cb) = 0"
    using assms by (auto simp: cb_ring_ok_def ring_all_def)
qed

lemma SignalReadWrite_eq:
  assumes "cb_ring_ok cb"
    "cb_Blocking cb \<longrightarrow> event_ready (cb_mCanReadEvent_X cb) \<and> event_ready (cb_mCanWriteEvent_X cb)"
  shows "BofCircularBuffer_SignalReadWrite cb = Ret (cb_signal cb, BOF_ERR_NO_ERROR)"
  using assms cb_ring_okD [OF assms(1)]
  by (simp add: BofCircularBuffer_SignalReadWrite_def cb_signal_def cb_can_write_def sync_simps)

subsection \<open>Push\<close>

definition cb_push_room :: "'a BofCircularBuffer \<Rightarrow> 'a \<Rightarrow> 'a BofCircularBuffer" where
  "cb_push_room cb x = cb\<lparr>cb_mpData_T := (cb_mpData_T cb)[unat (cb_mPushIndex_U32 cb) := x],
     cb_mPushIndex_U32 := cb_next (cb_NbMax cb) (cb_mPushIndex_U32 cb),
     cb_mNbElementInBuffer_U32 := cb_mNbElementInBuffer_U32 cb + 1,
     cb_mLevelMax_U32 := max (cb_mLevelMax_U32 cb) (cb_mNbElementInBuffer_U32 cb + 1)\<rparr>"

definition cb_push_over :: "'a BofCircularBuffer \<Rightarrow> 'a \<Rightarrow> 'a BofCircularBuffer" where
  "cb_push_over cb x = cb\<lparr>cb_mpData_T := (cb_mpData_T cb)[unat (cb_mPushIndex_U32 cb) := x],
     cb_mPushIndex_U32 := cb_next (cb_NbMax cb) (cb_mPushIndex_U32 cb),
     cb_mPopIndex_U32 := cb_next (cb_NbMax cb) (cb_mPushIndex_U32 cb),
     cb_mOverflow_B := True,
     cb_mLevelMax_U32 := max (cb_mLevelMax_U32 cb) (cb_NbMax cb)\<rparr>"

text \<open>The four branches of the critical section of \<^verbatim>\<open>Push\<close> as one equation.\<close>

definition cb_push_effect :: "'a BofCircularBuffer \<Rightarrow> 'a \<Rightarrow> 'a BofCircularBuffer \<times> BOFERR \<times> u32 option" where
  "cb_push_effect cb x =
     (if cb_can_write cb
      then (if cb_mNbElementInBuffer_U32 cb < cb_NbMax cb then cb_push_room cb x else cb_push_over cb x,
            BOF_ERR_NO_ERROR, Some (cb_mPushIndex_U32 cb))
      else (cb\<lparr>cb_mOverflow_B := True\<rparr>,
            if cb_Overwrite cb \<or> cb_mNbElementInBuffer_U32 cb < cb_NbMax cb then BOF_ERR_LOCK else BOF_ERR_FULL,
            None))"

lemma cb_count_Suc:
  assumes "cb_ring_ok cb"
  shows "unat (cb_mNbElementInBuffer_U32 cb + 1) = unat (cb_mNbElementInBuffer_U32 cb) + 1"
    "unat (cb_NbMax cb + 1) = unat (cb_NbMax cb) + 1"
  using cb_ok_max [OF assms] cb_ok_nb [OF assms] by (simp_all add: unat_word_ariths)

lemma Push_store_eq:
  assumes "cb_ring_ok cb"
  shows "BofCircularBuffer_Push_store cb x = Ret (cb_push_effect cb x)"
proof (cases "cb_mNbElementInBuffer_U32 cb < cb_NbMax cb")
  case True
  then have le: "cb_mNbElementInBuffer_U32 cb + 1 \<le> cb_NbMax cb"
    "cb_mNbElementInBuffer_U32 cb + 1 \<le> cb_NbMax cb + 1"
    using cb_count_Suc [OF assms] by (simp_all add: word_le_nat_alt word_less_nat_alt)
  show ?thesis
    using cb_ring_okD [OF assms] True le
    by (simp add: BofCircularBuffer_Push_store_def cb_push_effect_def cb_can_write_def cb_push_room_def
        Let_def max_def not_less)
next
  case False
  then have eq: "cb_mNbElementInBuffer_U32 cb = cb_NbMax cb" using cb_ring_okD(8) [OF assms] by simp
  have gt: "cb_NbMax cb < cb_NbMax cb + 1" using cb_count_Suc(2) [OF assms] by (simp add: word_less_nat_alt)
  show ?thesis
    using cb_ring_okD [OF assms] eq gt
    by (simp add: BofCircularBuffer_Push_store_def cb_push_effect_def cb_can_write_def cb_push_over_def
        Let_def max_def not_less)
qed

lemma cb_push_room_ok:
  assumes ok: "cb_ring_ok cb" and "cb_can_write cb" "cb_mNbElementInBuffer_U32 cb < cb_NbMax cb"
  shows "cb_ring_ok (cb_push_room cb x)" "cb_contents (cb_push_room cb x) = cb_contents cb @ [x]"
proof -
  let ?n = "unat (cb_NbMax cb)" and ?q = "unat (cb_mPopIndex_U32 cb)" and ?k = "cb_nb_avail cb"
  note f = cb_okD [OF ok]
  have lt: "unat (cb_mNbElementInBuffer_U32 cb) < ?n" using assms(3) by (simp add: word_less_nat_alt)
  have k: "?k < ?n" using lt by (simp add: cb_nb_avail_def)
  have p: "unat (cb_mPushIndex_U32 cb) < ?n" using cb_ring_okD(5) [OF ok] by (simp add: word_less_nat_alt)
  have k': "cb_nb_avail (cb_push_room cb x) = Suc ?k"
    using cb_count_Suc(1) [OF ok] f(7) by (simp add: cb_nb_avail_def cb_push_room_def Suc_diff_le)
  have p': "unat (cb_next (cb_NbMax cb) (cb_mPushIndex_U32 cb)) = (?q + Suc ?k) mod ?n"
    using unat_cb_next [OF p] f(6) by (simp add: mod_Suc_eq)
  have w: "cb_mpLock_U8 cb ! ((?q + ?k) mod ?n) = 0"
    using assms(2) f(6) by (simp add: cb_can_write_def)
  show "cb_ring_ok (cb_push_room cb x)"
    unfolding cb_ring_ok_def k'
    using f(1-5,7-11) p' lt cb_count_Suc(1) [OF ok] w by (simp add: cb_push_room_def ring_all_Suc)
  show "cb_contents (cb_push_room cb x) = cb_contents cb @ [x]"
    unfolding cb_contents_def k'
    using ring_slice_push [OF k f(3), of ?q x] f(6) by (simp add: cb_push_room_def)
qed

text \<open>In a full buffer with an unlocked push cell no cell is locked.\<close>

lemma cb_full_unlocked:
  assumes ok: "cb_ring_ok cb" and "cb_can_write cb" "\<not> cb_mNbElementInBuffer_U32 cb < cb_NbMax cb"
  shows "cb_nb_avail cb = unat (cb_NbMax cb)" "cb_mNbElementInBuffer_U32 cb = cb_NbMax cb"
    "cb_mPushIndex_U32 cb = cb_mPopIndex_U32 cb"
proof -
  let ?n = "unat (cb_NbMax cb)" and ?q = "unat (cb_mPopIndex_U32 cb)" and ?k = "cb_nb_avail cb"
  let ?L = "cb_mpLock_U8 cb" and ?l = "unat (cb_mNbElementLockedInBuffer_U32 cb)"
  note f = cb_okD [OF ok]
  show nb: "cb_mNbElementInBuffer_U32 cb = cb_NbMax cb" using assms(3) cb_ring_okD(8) [OF ok] by simp
  have "length (filter (\<lambda>l. l = 0) ?L) + ?l = ?n"
    using f(4,9) sum_length_filter_compl [of "\<lambda>l. l = 0" ?L] by linarith
  then have cnt: "length (filter (\<lambda>l. l = 0) ?L) \<le> ?k" using nb by (simp add: cb_nb_avail_def)
  have "\<not> ?k < ?n"
  proof
    assume "?k < ?n"
    from ring_all_next [OF f(10) this f(4) [symmetric] cnt]
    show False using assms(2) f(6) by (simp add: cb_can_write_def)
  qed
  then show k: "?k = ?n" using nb by (simp add: cb_nb_avail_def)
  show "cb_mPushIndex_U32 cb = cb_mPopIndex_U32 cb"
    using f(5,6) k by (simp add: word_unat_eq_iff)
qed

lemma cb_push_over_ok:
  assumes ok: "cb_ring_ok cb" and "cb_can_write cb" "\<not> cb_mNbElementInBuffer_U32 cb < cb_NbMax cb"
  shows "cb_ring_ok (cb_push_over cb x)" "cb_contents (cb_push_over cb x) = tl (cb_contents cb) @ [x]"
proof -
  let ?n = "unat (cb_NbMax cb)" and ?q = "unat (cb_mPopIndex_U32 cb)"
  note full = cb_full_unlocked [OF assms] and f = cb_okD [OF ok]
  have q': "unat (cb_next (cb_NbMax cb) (cb_mPushIndex_U32 cb)) = (?q + 1) mod ?n"
    using unat_cb_next [OF f(5)] full(3) by simp
  have l0: "unat (cb_mNbElementLockedInBuffer_U32 cb) = 0"
    using full(1,2) f(1,7) unfolding cb_nb_avail_def by simp
  then have "filter (\<lambda>l. l \<noteq> 0) (cb_mpLock_U8 cb) = []" using f(9) by simp
  then have all: "ring_all (\<lambda>l. l = 0) (cb_mpLock_U8 cb) ?n q' k" for q' k
    using f(1,4) by (simp add: ring_all_def filter_empty_conv)
  have k': "cb_nb_avail (cb_push_over cb x) = ?n" using full(2) l0 by (simp add: cb_nb_avail_def cb_push_over_def)
  show "cb_ring_ok (cb_push_over cb x)"
    unfolding cb_ring_ok_def k' using f(1-5,7-9,11) q' all full(2) by (simp add: cb_push_over_def)
  show "cb_contents (cb_push_over cb x) = tl (cb_contents cb) @ [x]"
    unfolding cb_contents_def k' full(1)
    using ring_slice_overwrite [OF f(5,3), of x] q' full(3) by (simp add: cb_push_over_def)
qed

lemma cb_ring_ok_overflow [simp]:
  "cb_ring_ok (cb\<lparr>cb_mOverflow_B := b\<rparr>) = cb_ring_ok cb"
  "cb_contents (cb\<lparr>cb_mOverflow_B := b\<rparr>) = cb_contents cb"
  by (simp_all add: cb_ring_ok_def cb_nb_avail_def cb_contents_def)

subsection \<open>Pop and its variants\<close>

definition cb_take :: "'a BofCircularBuffer \<Rightarrow> 'a BofCircularBuffer" where
  "cb_take cb = cb\<lparr>cb_mNbElementInBuffer_U32 := cb_mNbElementInBuffer_U32 cb - 1,
     cb_mPopIndex_U32 := cb_next (cb_NbMax cb) (cb_mPopIndex_U32 cb)\<rparr>"

definition cb_take_lock :: "'a BofCircularBuffer \<Rightarrow> 'a BofCircularBuffer" where
  "cb_take_lock cb = cb\<lparr>cb_mNbElementLockedInBuffer_U32 := cb_mNbElementLockedInBuffer_U32 cb + 1,
     cb_mpLock_U8 := (cb_mpLock_U8 cb)[unat (cb_mPopIndex_U32 cb) := 1],
     cb_mPopIndex_U32 := cb_next (cb_NbMax cb) (cb_mPopIndex_U32 cb)\<rparr>"

definition cb_untake :: "'a BofCircularBuffer \<Rightarrow> 'a BofCircularBuffer" where
  "cb_untake cb = cb\<lparr>cb_mPushIndex_U32 := cb_prev (cb_NbMax cb) (cb_mPushIndex_U32 cb),
     cb_mNbElementInBuffer_U32 := cb_mNbElementInBuffer_U32 cb - 1\<rparr>"

definition cb_unlock_cell :: "'a BofCircularBuffer \<Rightarrow> u32 \<Rightarrow> 'a BofCircularBuffer" where
  "cb_unlock_cell cb i = cb\<lparr>cb_mpLock_U8 := (cb_mpLock_U8 cb)[unat i := 0],
     cb_mNbElementInBuffer_U32 := cb_mNbElementInBuffer_U32 cb - 1,
     cb_mNbElementLockedInBuffer_U32 := cb_mNbElementLockedInBuffer_U32 cb - 1\<rparr>"

text \<open>The two branches of the critical section of \<^verbatim>\<open>Pop\<close> as one equation.\<close>

definition cb_pop_effect :: "'a BofCircularBuffer \<Rightarrow> 'a BofCircularBuffer \<times> BOFERR \<times> (u32 \<times> 'a) option" where
  "cb_pop_effect cb =
     (if 0 < cb_nb_avail cb
      then (if cb_PopLockMode cb then cb_take_lock cb else cb_take cb, BOF_ERR_NO_ERROR,
            Some (cb_mPopIndex_U32 cb, cb_mpData_T cb ! unat (cb_mPopIndex_U32 cb)))
      else (cb, BOF_ERR_EMPTY, None))"

lemma cb_avail_nb:
  assumes "cb_ring_ok cb" "0 < cb_nb_avail cb"
  shows "cb_mNbElementInBuffer_U32 cb \<noteq> 0" "cb_mNbElementLockedInBuffer_U32 cb < cb_NbMax cb"
  using assms(2) cb_ok_nb [OF assms(1)] by (auto simp: cb_nb_avail_def word_less_nat_alt)

lemma Pop_take_eq:
  assumes "cb_ring_ok cb"
  shows "BofCircularBuffer_Pop_take cb = Ret (cb_pop_effect cb)"
proof (cases "0 < cb_nb_avail cb")
  case True
  show ?thesis using cb_ring_okD [OF assms] cb_avail_nb [OF assms True] True
    by (simp add: BofCircularBuffer_Pop_take_def cb_pop_effect_def cb_take_def cb_take_lock_def Let_def)
next
  case False
  then show ?thesis using cb_ring_okD [OF assms]
    by (simp add: BofCircularBuffer_Pop_take_def cb_pop_effect_def)
qed

lemma cb_contents_Cons:
  assumes "cb_ring_ok cb" "cb_nb_avail cb = Suc k"
  shows "cb_contents cb = cb_mpData_T cb ! unat (cb_mPopIndex_U32 cb) #
     ring_slice (cb_mpData_T cb) (unat (cb_NbMax cb)) ((unat (cb_mPopIndex_U32 cb) + 1) mod unat (cb_NbMax cb)) k"
  unfolding cb_contents_def assms(2) by (rule ring_slice_Cons [OF cb_ok_pop [OF assms(1)]])

lemma cb_take_ok:
  assumes ok: "cb_ring_ok cb" and av: "0 < cb_nb_avail cb"
  shows "cb_ring_ok (cb_take cb)" "cb_contents (cb_take cb) = tl (cb_contents cb)"
proof -
  let ?n = "unat (cb_NbMax cb)" and ?q = "unat (cb_mPopIndex_U32 cb)"
  obtain k where k: "cb_nb_avail cb = Suc k" using av gr0_implies_Suc by blast
  note f = cb_okD [OF ok] and nb = cb_avail_nb [OF ok av]
  have k': "cb_nb_avail (cb_take cb) = k" using k nb(1) by (simp add: cb_nb_avail_def cb_take_def)
  have q': "unat (cb_next (cb_NbMax cb) (cb_mPopIndex_U32 cb)) = (?q + 1) mod ?n" by (rule unat_cb_next [OF f(5)])
  have lk: "unat (cb_mNbElementLockedInBuffer_U32 cb) \<le> unat (cb_mNbElementInBuffer_U32 cb) - 1"
    using av by (simp add: cb_nb_avail_def)
  have win: "ring_all (\<lambda>l. l = 0) (cb_mpLock_U8 cb) ?n ((?q + 1) mod ?n) k"
    by (rule ring_all_tl [OF f(5) f(10) [unfolded k]])
  have p': "unat (cb_mPushIndex_U32 cb) = ((?q + 1) mod ?n + k) mod ?n"
    using f(6) k by (simp only: ring_step)
  show "cb_ring_ok (cb_take cb)"
    unfolding cb_ring_ok_def k' using f(1-4,8,9,11) q' lk win p' nb(1) by (simp add: cb_take_def)
  show "cb_contents (cb_take cb) = tl (cb_contents cb)"
    unfolding cb_contents_Cons [OF ok k] using k' q' by (simp add: cb_contents_def) (simp add: cb_take_def)
qed

lemma cb_take_lock_ok:
  assumes ok: "cb_ring_ok cb" and av: "0 < cb_nb_avail cb" and mode: "cb_PopLockMode cb"
  shows "cb_ring_ok (cb_take_lock cb)" "cb_contents (cb_take_lock cb) = tl (cb_contents cb)"
proof -
  let ?n = "unat (cb_NbMax cb)" and ?q = "unat (cb_mPopIndex_U32 cb)" and ?L = "cb_mpLock_U8 cb"
  obtain k where k: "cb_nb_avail cb = Suc k" using av gr0_implies_Suc by blast
  note f = cb_okD [OF ok] and nb = cb_avail_nb [OF ok av]
  have l: "unat (cb_mNbElementLockedInBuffer_U32 cb + 1) = unat (cb_mNbElementLockedInBuffer_U32 cb) + 1"
    using nb(2) by simp
  have k': "cb_nb_avail (cb_take_lock cb) = k" using k l by (simp add: cb_nb_avail_def cb_take_lock_def)
  have q': "unat (cb_next (cb_NbMax cb) (cb_mPopIndex_U32 cb)) = (?q + 1) mod ?n" by (rule unat_cb_next [OF f(5)])
  have kn: "Suc k \<le> ?n" using k f(8) by (simp add: cb_nb_avail_def)
  have out: "((?q + 1) mod ?n + j) mod ?n \<noteq> ?q" if "j < k" for j
  proof
    assume "((?q + 1) mod ?n + j) mod ?n = ?q"
    then have "(?q + Suc j) mod ?n = (?q + 0) mod ?n" using f(5) by (simp only: ring_step) simp
    then show False using ring_inj [of ?q "Suc j" ?n 0] that kn by simp
  qed
  have win: "ring_all (\<lambda>l. l = 0) (?L[?q := 1]) ?n ((?q + 1) mod ?n) k"
    using ring_all_tl [OF f(5) f(10) [unfolded k]] out by (subst ring_all_update_outside) blast+
  have cnt: "length (filter (\<lambda>l. l \<noteq> 0) (?L[?q := 1])) = unat (cb_mNbElementLockedInBuffer_U32 cb) + 1"
    using length_filter_update [of ?q ?L "\<lambda>l. l \<noteq> 0" 1] f(4,5,9) cb_ring_okD(10) [OF ok av] by simp
  have p': "unat (cb_mPushIndex_U32 cb) = ((?q + 1) mod ?n + k) mod ?n"
    using f(6) k by (simp only: ring_step)
  have lk: "unat (cb_mNbElementLockedInBuffer_U32 cb) + 1 \<le> unat (cb_mNbElementInBuffer_U32 cb)"
    using av by (simp add: cb_nb_avail_def)
  show "cb_ring_ok (cb_take_lock cb)"
    unfolding cb_ring_ok_def k' using f(1-4,8) q' lk win p' l cnt mode by (simp add: cb_take_lock_def)
  show "cb_contents (cb_take_lock cb) = tl (cb_contents cb)"
    unfolding cb_contents_Cons [OF ok k] using k' q' by (simp add: cb_contents_def) (simp add: cb_take_lock_def)
qed

lemma cb_pred_index:
  assumes "unat (p::u32) < unat n"
  shows "unat (cb_prev n p) = (if unat p = 0 then unat n - 1 else unat p - 1)"
proof (cases "p = 0")
  case True
  have "n \<le> - 1" by simp
  moreover have "n \<noteq> 0" using assms by auto
  ultimately show ?thesis using True by (simp add: cb_prev_def)
next
  case False
  then have "unat (p - 1) = unat p - 1" by simp
  with False assms show ?thesis by (simp add: cb_prev_def word_le_nat_alt unat_eq_zero)
qed

lemma cb_untake_ok:
  assumes ok: "cb_ring_ok cb" and av: "0 < cb_nb_avail cb"
  shows "cb_ring_ok (cb_untake cb)" "cb_contents (cb_untake cb) = butlast (cb_contents cb)"
    "cb_mpLock_U8 cb ! unat (cb_mPushIndex_U32 (cb_untake cb)) = 0"
    "cb_mpData_T cb ! unat (cb_mPushIndex_U32 (cb_untake cb)) = last (cb_contents cb)"
    "unat (cb_mPushIndex_U32 (cb_untake cb)) < unat (cb_NbMax cb)"
proof -
  let ?n = "unat (cb_NbMax cb)" and ?q = "unat (cb_mPopIndex_U32 cb)"
  obtain k where k: "cb_nb_avail cb = Suc k" using av gr0_implies_Suc by blast
  note f = cb_okD [OF ok] and nb = cb_avail_nb [OF ok av]
  have k': "cb_nb_avail (cb_untake cb) = k" using k nb(1) by (simp add: cb_nb_avail_def cb_untake_def)
  have p: "unat (cb_mPushIndex_U32 cb) < ?n" using cb_ring_okD(5) [OF ok] by (simp add: word_less_nat_alt)
  have p': "unat (cb_mPushIndex_U32 (cb_untake cb)) = (?q + k) mod ?n"
    using cb_pred_index [OF p] ring_pred [of "Suc k" ?q ?n] f(5,6) k by (simp add: cb_untake_def)
  have lk: "unat (cb_mNbElementLockedInBuffer_U32 cb) \<le> unat (cb_mNbElementInBuffer_U32 cb) - 1"
    using av by (simp add: cb_nb_avail_def)
  have win: "ring_all (\<lambda>l. l = 0) (cb_mpLock_U8 cb) ?n ?q k" "cb_mpLock_U8 cb ! ((?q + k) mod ?n) = 0"
    using f(10) unfolding k ring_all_Suc by simp_all
  show "cb_ring_ok (cb_untake cb)"
    unfolding cb_ring_ok_def k' p' using f(1-5,8,9,11) lk win nb(1) by (simp add: cb_untake_def)
  have "cb_contents cb = ring_slice (cb_mpData_T cb) ?n ?q k @ [cb_mpData_T cb ! ((?q + k) mod ?n)]"
    by (simp add: cb_contents_def k ring_slice_Suc)
  then show "cb_contents (cb_untake cb) = butlast (cb_contents cb)"
    "cb_mpData_T cb ! unat (cb_mPushIndex_U32 (cb_untake cb)) = last (cb_contents cb)"
    using k' p' by (simp_all add: cb_contents_def) (simp add: cb_untake_def)
  show "cb_mpLock_U8 cb ! unat (cb_mPushIndex_U32 (cb_untake cb)) = 0" using win(2) p' by simp
  show "unat (cb_mPushIndex_U32 (cb_untake cb)) < ?n" using p' f(1) by simp
qed

lemma cb_unlock_cell_ok:
  assumes ok: "cb_ring_ok cb" and i: "unat i < unat (cb_NbMax cb)" and l: "cb_mpLock_U8 cb ! unat i \<noteq> 0"
  shows "cb_ring_ok (cb_unlock_cell cb i)" "cb_contents (cb_unlock_cell cb i) = cb_contents cb"
    "cb_mNbElementLockedInBuffer_U32 cb \<noteq> 0" "cb_mNbElementInBuffer_U32 cb \<noteq> 0"
proof -
  let ?L = "cb_mpLock_U8 cb"
  note f = cb_okD [OF ok]
  have cnt: "length (filter (\<lambda>l. l \<noteq> 0) (?L[unat i := 0])) + 1 = unat (cb_mNbElementLockedInBuffer_U32 cb)"
    using length_filter_update [of "unat i" ?L "\<lambda>l. l \<noteq> 0" 0] f(4,9) i l by simp
  then have l0: "0 < unat (cb_mNbElementLockedInBuffer_U32 cb)" by linarith
  then show nz: "cb_mNbElementLockedInBuffer_U32 cb \<noteq> 0" "cb_mNbElementInBuffer_U32 cb \<noteq> 0"
    using f(7) by auto
  have k': "cb_nb_avail (cb_unlock_cell cb i) = cb_nb_avail cb"
    using nz f(7) l0 by (simp add: cb_nb_avail_def cb_unlock_cell_def)
  have mode: "cb_PopLockMode cb" using f(11) nz by blast
  have win: "ring_all (\<lambda>l. l = 0) (?L[unat i := 0]) (unat (cb_NbMax cb)) (unat (cb_mPopIndex_U32 cb)) (cb_nb_avail cb)"
    using f(10) by (intro ring_all_update_good) simp_all
  have dec: "unat (cb_mNbElementLockedInBuffer_U32 cb) - Suc 0 \<le> unat (cb_mNbElementInBuffer_U32 cb) - Suc 0"
    "unat (cb_mNbElementInBuffer_U32 cb) - Suc 0 \<le> unat (cb_NbMax cb)"
    "length (filter (\<lambda>l. l \<noteq> 0) (?L[unat i := 0])) = unat (cb_mNbElementLockedInBuffer_U32 cb) - Suc 0"
    using cnt f(7,8) by linarith+
  show "cb_ring_ok (cb_unlock_cell cb i)"
    unfolding cb_ring_ok_def k' using f(1-6) nz mode win dec by (simp add: cb_unlock_cell_def)
  show "cb_contents (cb_unlock_cell cb i) = cb_contents cb"
    unfolding cb_contents_def k' by (simp add: cb_unlock_cell_def)
qed

lemmas cb_effect_defs = cb_push_room_def cb_push_over_def cb_take_def cb_take_lock_def cb_untake_def
  cb_unlock_cell_def

section \<open>The operations under the mutex\<close>

lemma cb_can_write_hold [simp]: "cb_can_write (cb_hold cb) = cb_can_write cb"
  by (simp add: cb_can_write_def)

text \<open>The effects do not depend on the mutex.\<close>

lemma cb_hold_commute [simp]:
  "cb_push_room (cb_hold cb) x = cb_hold (cb_push_room cb x)"
  "cb_push_over (cb_hold cb) x = cb_hold (cb_push_over cb x)"
  "cb_take (cb_hold cb) = cb_hold (cb_take cb)"
  "cb_take_lock (cb_hold cb) = cb_hold (cb_take_lock cb)"
  "cb_untake (cb_hold cb) = cb_hold (cb_untake cb)"
  "cb_unlock_cell (cb_hold cb) i = cb_hold (cb_unlock_cell cb i)"
  "cb_signal (cb_hold cb) = cb_hold (cb_signal cb)"
  "(cb_hold cb)\<lparr>cb_mOverflow_B := b\<rparr> = cb_hold (cb\<lparr>cb_mOverflow_B := b\<rparr>)"
  by (simp_all add: cb_hold_def cb_effect_defs cb_signal_def cb_can_write_def cb_nb_avail_def)

lemma cb_push_effect_hold:
  "cb_push_effect (cb_hold cb) x = (case cb_push_effect cb x of (cb', e, i) \<Rightarrow> (cb_hold cb', e, i))"
  by (simp add: cb_push_effect_def)

lemma cb_pop_effect_hold:
  "cb_pop_effect (cb_hold cb) = (case cb_pop_effect cb of (cb', e, r) \<Rightarrow> (cb_hold cb', e, r))"
  by (simp add: cb_pop_effect_def)

lemma cb_param_effect [simp]:
  "cb_mCircularBufferParam_X (cb_push_room cb x) = cb_mCircularBufferParam_X cb"
  "cb_mCircularBufferParam_X (cb_push_over cb x) = cb_mCircularBufferParam_X cb"
  "cb_mCircularBufferParam_X (cb_take cb) = cb_mCircularBufferParam_X cb"
  "cb_mCircularBufferParam_X (cb_take_lock cb) = cb_mCircularBufferParam_X cb"
  "cb_mCircularBufferParam_X (cb_untake cb) = cb_mCircularBufferParam_X cb"
  "cb_mCircularBufferParam_X (cb_unlock_cell cb i) = cb_mCircularBufferParam_X cb"
  "cb_mCircularBufferParam_X (cb_signal cb) = cb_mCircularBufferParam_X cb"
  by (simp_all add: cb_effect_defs cb_signal_def)

lemma cb_sync_effect [simp]:
  "cb_sync_ready (cb_push_room cb x) = cb_sync_ready cb"
  "cb_sync_ready (cb_push_over cb x) = cb_sync_ready cb"
  "cb_sync_ready (cb_take cb) = cb_sync_ready cb"
  "cb_sync_ready (cb_take_lock cb) = cb_sync_ready cb"
  "cb_sync_ready (cb_untake cb) = cb_sync_ready cb"
  "cb_sync_ready (cb_unlock_cell cb i) = cb_sync_ready cb"
  "cb_sync_ready (cb_signal cb) = cb_sync_ready cb"
  "cb_sync_ready (cb\<lparr>cb_mOverflow_B := b\<rparr>) = cb_sync_ready cb"
  by (simp_all add: cb_sync_ready_def cb_effect_defs cb_signal_def)

lemma cb_ring_ok_signal [simp]:
  "cb_ring_ok (cb_signal cb) = cb_ring_ok cb" "cb_contents (cb_signal cb) = cb_contents cb"
  by (simp_all add: cb_signal_def cb_ring_ok_def cb_nb_avail_def cb_contents_def)

lemma SignalReadWrite_hold:
  assumes "cb_ring_ok cb" "cb_sync_ready cb"
  shows "BofCircularBuffer_SignalReadWrite (cb_hold cb) = Ret (cb_hold (cb_signal cb), BOF_ERR_NO_ERROR)"
  using SignalReadWrite_eq [of "cb_hold cb"] assms by (simp add: cb_sync_ready_def)

text \<open>The signal is only given in blocking mode.\<close>

lemma cb_signal_idle: "\<not> cb_Blocking cb \<Longrightarrow> cb_signal cb = cb"
  by (simp add: cb_signal_def)

section \<open>The operations on a buffer that satisfies the invariant\<close>

definition cb_push_result :: "'a BofCircularBuffer \<Rightarrow> 'a \<Rightarrow> 'a BofCircularBuffer \<times> BOFERR \<times> u32 option" where
  "cb_push_result cb x =
     (case cb_push_effect cb x of (cb', e, i) \<Rightarrow> (if e = BOF_ERR_NO_ERROR then cb_signal cb' else cb', e, i))"

definition cb_pop_result :: "'a BofCircularBuffer \<Rightarrow> 'a BofCircularBuffer \<times> BOFERR \<times> (u32 \<times> 'a) option" where
  "cb_pop_result cb =
     (case cb_pop_effect cb of (cb', e, r) \<Rightarrow> (if e = BOF_ERR_NO_ERROR then cb_signal cb' else cb', e, r))"

lemma cb_push_effect_ok:
  assumes "cb_ring_ok cb"
  shows "cb_ring_ok (fst (cb_push_effect cb x))"
  using assms cb_push_room_ok(1) cb_push_over_ok(1) by (auto simp: cb_push_effect_def)

lemma cb_pop_effect_ok:
  assumes "cb_ring_ok cb"
  shows "cb_ring_ok (fst (cb_pop_effect cb))"
  using assms cb_take_ok(1) cb_take_lock_ok(1) by (auto simp: cb_pop_effect_def)

lemma cb_push_effect_keeps:
  "cb_mCircularBufferParam_X (fst (cb_push_effect cb x)) = cb_mCircularBufferParam_X cb"
  "cb_sync_ready (fst (cb_push_effect cb x)) = cb_sync_ready cb"
  by (simp_all add: cb_push_effect_def)

lemma cb_pop_effect_keeps:
  "cb_mCircularBufferParam_X (fst (cb_pop_effect cb)) = cb_mCircularBufferParam_X cb"
  "cb_sync_ready (fst (cb_pop_effect cb)) = cb_sync_ready cb"
  by (simp_all add: cb_pop_effect_def)

lemma cb_push_result_inv:
  "cb_inv cb \<Longrightarrow> cb_inv (fst (cb_push_result cb x))"
  "cb_mCircularBufferParam_X (fst (cb_push_result cb x)) = cb_mCircularBufferParam_X cb"
  using cb_push_effect_ok [of cb x] cb_push_effect_keeps [of cb x]
  by (auto simp: cb_push_result_def cb_inv_def split: prod.split)

lemma cb_pop_result_inv:
  "cb_inv cb \<Longrightarrow> cb_inv (fst (cb_pop_result cb))"
  "cb_mCircularBufferParam_X (fst (cb_pop_result cb)) = cb_mCircularBufferParam_X cb"
  using cb_pop_effect_ok [of cb] cb_pop_effect_keeps [of cb]
  by (auto simp: cb_pop_result_def cb_inv_def split: prod.split)

text \<open>Below the wait, a turn of \<^verbatim>\<open>Push\<close> either starts the next turn or returns its result.\<close>

definition cb_push_turn ::
  "'a cb_schedule \<Rightarrow> 'a BofCircularBuffer \<Rightarrow> 'a \<Rightarrow> u32 \<Rightarrow> ('a BofCircularBuffer \<times> BOFERR \<times> u32 option) outcome" where
  "cb_push_turn sched cb x t =
     (case cb_push_effect cb x of (cb', e, i) \<Rightarrow>
        if cb_Blocking cb \<and> t \<noteq> 0 \<and> e = BOF_ERR_FULL then BofCircularBuffer_Push sched cb' (Some x) t
        else Ret (cb_push_result cb x))"

lemma Push_turn:
  assumes "cb_inv (before cb)"  "\<not> (cb_Blocking cb \<and> t \<noteq> 0)"
  shows "BofCircularBuffer_Push ((during, before) # sched) cb (Some x) t = cb_push_turn sched (before cb) x t"
proof -
  obtain cb' e i where eff: "cb_push_effect (before cb) x = (cb', e, i)" by (metis prod_cases3)
  have ok: "cb_ring_ok (before cb)" "cb_sync_ready (before cb)" using assms by (simp_all add: cb_inv_def)
  have "cb_ring_ok cb'" "cb_sync_ready cb'" "cb_mCircularBufferParam_X cb' = cb_mCircularBufferParam_X (before cb)"
    using cb_push_effect_ok [OF ok(1), of x] cb_push_effect_keeps [of "before cb" x] ok eff by simp_all
  then show ?thesis using assms(2) ok eff
    by (auto simp: cb_push_turn_def Push_store_eq cb_push_effect_hold SignalReadWrite_hold cb_push_result_def
        cb_signal_idle)
qed

text \<open>A wait on a ready event: the time is over, or the signal is consumed.\<close>

lemma cb_wait_write_eq:
  assumes "event_ready (cb_mCanWriteEvent_X cb)"
  shows "cb_wait_write cb t =
    Ret (if event_signaled (cb_mCanWriteEvent_X cb)
         then (cb\<lparr>cb_mCanWriteEvent_X := event_clear (cb_mCanWriteEvent_X cb)\<rparr>, BOF_ERR_NO_ERROR)
         else (cb, BOF_ERR_ETIMEDOUT))"
  using assms by (simp add: cb_wait_write_def sync_simps)

lemma cb_wait_read_eq:
  assumes "event_ready (cb_mCanReadEvent_X cb)"
  shows "cb_wait_read cb t =
    Ret (if event_signaled (cb_mCanReadEvent_X cb)
         then (cb\<lparr>cb_mCanReadEvent_X := event_clear (cb_mCanReadEvent_X cb)\<rparr>, BOF_ERR_NO_ERROR)
         else (cb, BOF_ERR_ETIMEDOUT))"
  using assms by (simp add: cb_wait_read_def sync_simps)

definition cb_consume_write :: "'a BofCircularBuffer \<Rightarrow> 'a BofCircularBuffer" where
  "cb_consume_write cb = cb\<lparr>cb_mCanWriteEvent_X := event_clear (cb_mCanWriteEvent_X cb)\<rparr>"

definition cb_consume_read :: "'a BofCircularBuffer \<Rightarrow> 'a BofCircularBuffer" where
  "cb_consume_read cb = cb\<lparr>cb_mCanReadEvent_X := event_clear (cb_mCanReadEvent_X cb)\<rparr>"

lemma cb_consume_inv [simp]:
  "cb_inv (cb_consume_write cb) = cb_inv cb" "cb_inv (cb_consume_read cb) = cb_inv cb"
  "cb_contents (cb_consume_write cb) = cb_contents cb" "cb_contents (cb_consume_read cb) = cb_contents cb"
  "cb_mCircularBufferParam_X (cb_consume_write cb) = cb_mCircularBufferParam_X cb"
  "cb_mCircularBufferParam_X (cb_consume_read cb) = cb_mCircularBufferParam_X cb"
  by (simp_all add: cb_consume_write_def cb_consume_read_def cb_inv_def cb_ring_ok_def cb_sync_ready_def
      cb_nb_avail_def cb_contents_def)

lemma Push_wait_turn:
  assumes "cb_inv (during cb)" "cb_Blocking cb" "cb_Blocking (during cb)" "t \<noteq> 0"
    "event_signaled (cb_mCanWriteEvent_X (during cb))" "cb_inv (before (cb_consume_write (during cb)))"
  shows "BofCircularBuffer_Push ((during, before) # sched) cb (Some x) t =
    cb_push_turn sched (before (cb_consume_write (during cb))) x t"
proof -
  let ?cb = "before (cb_consume_write (during cb))"
  obtain cb' e i where eff: "cb_push_effect ?cb x = (cb', e, i)" by (metis prod_cases3)
  have ev: "event_ready (cb_mCanWriteEvent_X (during cb))"
    using assms(1,3) by (simp add: cb_inv_def cb_sync_ready_def)
  have ok: "cb_ring_ok ?cb" "cb_sync_ready ?cb" using assms(6) by (simp_all add: cb_inv_def)
  have "cb_ring_ok cb'" "cb_sync_ready cb'" "cb_mCircularBufferParam_X cb' = cb_mCircularBufferParam_X ?cb"
    using cb_push_effect_ok [OF ok(1), of x] cb_push_effect_keeps [of ?cb x] ok eff by simp_all
  then show ?thesis using assms(2,4,5) ok eff
    by (auto simp: cb_push_turn_def Push_store_eq cb_push_effect_hold SignalReadWrite_hold cb_push_result_def
        cb_signal_idle cb_wait_write_eq [OF ev] cb_consume_write_def)
qed

lemma Push_wait_timeout:
  assumes "cb_inv (during cb)" "cb_Blocking cb" "cb_Blocking (during cb)" "t \<noteq> 0"
    "\<not> event_signaled (cb_mCanWriteEvent_X (during cb))"
  shows "BofCircularBuffer_Push ((during, before) # sched) cb (Some x) t =
    Ret (during cb, BOF_ERR_ETIMEDOUT, None)"
proof -
  have "event_ready (cb_mCanWriteEvent_X (during cb))"
    using assms(1,3) by (simp add: cb_inv_def cb_sync_ready_def)
  then show ?thesis using assms by (simp add: cb_wait_write_eq)
qed

text \<open>The same three cases for \<^verbatim>\<open>Pop\<close>, which waits only on an empty buffer.\<close>

definition cb_pop_turn ::
  "'a cb_schedule \<Rightarrow> 'a BofCircularBuffer \<Rightarrow> u32 \<Rightarrow> ('a BofCircularBuffer \<times> BOFERR \<times> (u32 \<times> 'a) option) outcome" where
  "cb_pop_turn sched cb t =
     (case cb_pop_effect cb of (cb', e, r) \<Rightarrow>
        if cb_Blocking cb \<and> t \<noteq> 0 \<and> e = BOF_ERR_EMPTY then BofCircularBuffer_Pop sched cb' t
        else Ret (cb_pop_result cb))"

definition cb_pop_waits :: "'a BofCircularBuffer \<Rightarrow> u32 \<Rightarrow> bool" where
  "cb_pop_waits cb t \<longleftrightarrow> cb_Blocking cb \<and> t \<noteq> 0 \<and> cb_mNbElementInBuffer_U32 cb = 0"

lemma Pop_after_wait:
  assumes "cb_inv cb"
  shows "BOF_CIRCULAR_BUFFER_LOCK cb (\<lambda>cb Rts_E.
            if Rts_E = BOF_ERR_NO_ERROR then
              bindO (BofCircularBuffer_Pop_take cb) (\<lambda>(cb, Rts_E, Out).
                if cb_Blocking cb \<and> Rts_E = BOF_ERR_NO_ERROR then
                  bindO (BofCircularBuffer_SignalReadWrite cb) (\<lambda>(cb, Rts_E).
                    BOF_CIRCULAR_BUFFER_UNLOCK cb (\<lambda>cb. Ret (cb, Rts_E, Out)))
                else if cb_Blocking cb \<and> t \<noteq> 0 \<and> Rts_E = BOF_ERR_EMPTY then
                  BOF_CIRCULAR_BUFFER_UNLOCK cb (\<lambda>cb. BofCircularBuffer_Pop sched cb t)
                else BOF_CIRCULAR_BUFFER_UNLOCK cb (\<lambda>cb. Ret (cb, Rts_E, Out)))
            else Ret (cb, Rts_E, None)) = cb_pop_turn sched cb t"
proof -
  obtain cb' e r where eff: "cb_pop_effect cb = (cb', e, r)" by (metis prod_cases3)
  have ok: "cb_ring_ok cb" "cb_sync_ready cb" using assms by (simp_all add: cb_inv_def)
  have "cb_ring_ok cb'" "cb_sync_ready cb'" "cb_mCircularBufferParam_X cb' = cb_mCircularBufferParam_X cb"
    using cb_pop_effect_ok [OF ok(1)] cb_pop_effect_keeps [of cb] ok eff by simp_all
  then show ?thesis using ok eff
    by (auto simp: cb_pop_turn_def Pop_take_eq cb_pop_effect_hold SignalReadWrite_hold cb_pop_result_def
        cb_signal_idle)
qed

lemma Pop_turn:
  assumes "cb_inv (before cb)" "\<not> cb_pop_waits cb t"
  shows "BofCircularBuffer_Pop ((during, before) # sched) cb t = cb_pop_turn sched (before cb) t"
  using assms by (auto simp: cb_pop_waits_def Pop_after_wait [OF assms(1), symmetric])

lemma Pop_wait_turn:
  assumes "cb_inv (during cb)" "cb_pop_waits cb t" "cb_Blocking (during cb)"
    "event_signaled (cb_mCanReadEvent_X (during cb))" "cb_inv (before (cb_consume_read (during cb)))"
  shows "BofCircularBuffer_Pop ((during, before) # sched) cb t =
    cb_pop_turn sched (before (cb_consume_read (during cb))) t"
proof -
  have "event_ready (cb_mCanReadEvent_X (during cb))"
    using assms(1,3) by (simp add: cb_inv_def cb_sync_ready_def)
  then show ?thesis using assms(2,4) Pop_after_wait [OF assms(5)]
    by (simp add: cb_wait_read_eq cb_pop_waits_def cb_consume_read_def)
qed

lemma Pop_wait_timeout:
  assumes "cb_inv (during cb)" "cb_pop_waits cb t" "cb_Blocking (during cb)"
    "\<not> event_signaled (cb_mCanReadEvent_X (during cb))"
  shows "BofCircularBuffer_Pop ((during, before) # sched) cb t = Ret (during cb, BOF_ERR_ETIMEDOUT, None)"
proof -
  have "event_ready (cb_mCanReadEvent_X (during cb))"
    using assms(1,3) by (simp add: cb_inv_def cb_sync_ready_def)
  then show ?thesis using assms by (simp add: cb_wait_read_eq cb_pop_waits_def)
qed

declare BofCircularBuffer_Push.simps(3) [simp del] BofCircularBuffer_Pop.simps(2) [simp del]

section \<open>Invariant preservation under interference\<close>

text \<open>What the other threads may do between two steps of a call: anything that keeps the invariant.\<close>

definition cb_rely :: "('a BofCircularBuffer \<Rightarrow> 'a BofCircularBuffer) \<Rightarrow> bool" where
  "cb_rely f \<longleftrightarrow> (\<forall>cb. cb_inv cb \<longrightarrow> cb_inv (f cb) \<and> cb_mCircularBufferParam_X (f cb) = cb_mCircularBufferParam_X cb)"

definition cb_rely_sched :: "'a cb_schedule \<Rightarrow> bool" where
  "cb_rely_sched sched \<longleftrightarrow> (\<forall>(d, b) \<in> set sched. cb_rely d \<and> cb_rely b)"

lemma cb_rely_sched_Cons [simp]:
  "cb_rely_sched ((d, b) # sched) \<longleftrightarrow> cb_rely d \<and> cb_rely b \<and> cb_rely_sched sched"
  by (simp add: cb_rely_sched_def)

lemma cb_relyD:
  "cb_rely f \<Longrightarrow> cb_inv cb \<Longrightarrow> cb_inv (f cb)"
  "cb_rely f \<Longrightarrow> cb_inv cb \<Longrightarrow> cb_mCircularBufferParam_X (f cb) = cb_mCircularBufferParam_X cb"
  by (simp_all add: cb_rely_def)

lemma cb_rely_id [simp]: "cb_rely id" "cb_rely (\<lambda>cb. cb)"
  by (simp_all add: cb_rely_def)

text \<open>
  A call is safe on a buffer when it returns a buffer that satisfies the
  invariant or is still retrying: no failed assertion, no access outside an
  array, no deadlock on the mutex of the buffer.
\<close>

definition cb_safe :: "'a BofCircularBuffer \<Rightarrow> ('a BofCircularBuffer \<times> 'r) outcome \<Rightarrow> bool" where
  "cb_safe cb m \<longleftrightarrow> m = Retrying \<or> (\<exists>cb' r. m = Ret (cb', r) \<and> cb_inv cb' \<and>
     cb_mCircularBufferParam_X cb' = cb_mCircularBufferParam_X cb)"

lemma cb_safe_Ret: "cb_inv (fst r) \<Longrightarrow> cb_mCircularBufferParam_X (fst r) = cb_mCircularBufferParam_X cb \<Longrightarrow> cb_safe cb (Ret r)"
  by (cases r) (auto simp: cb_safe_def)

lemma cb_push_turn_safe:
  assumes inv: "cb_inv cb"
    and next_turn: "\<And>cb'. cb_inv cb' \<Longrightarrow> cb_safe cb' (BofCircularBuffer_Push sched cb' (Some x) t)"
  shows "cb_safe cb (cb_push_turn sched cb x t)"
proof -
  obtain cb' e i where eff: "cb_push_effect cb x = (cb', e, i)" by (metis prod_cases3)
  then have "cb_inv cb'" "cb_mCircularBufferParam_X cb' = cb_mCircularBufferParam_X cb"
    using cb_push_effect_ok [of cb x] cb_push_effect_keeps [of cb x] inv by (simp_all add: cb_inv_def)
  moreover have "cb_safe cb (Ret (cb_push_result cb x))" by (intro cb_safe_Ret cb_push_result_inv inv)
  ultimately show ?thesis using next_turn [of cb'] eff by (auto simp: cb_push_turn_def cb_safe_def)
qed

lemma cb_pop_turn_safe:
  assumes inv: "cb_inv cb"
    and next_turn: "\<And>cb'. cb_inv cb' \<Longrightarrow> cb_safe cb' (BofCircularBuffer_Pop sched cb' t)"
  shows "cb_safe cb (cb_pop_turn sched cb t)"
proof -
  obtain cb' e r where eff: "cb_pop_effect cb = (cb', e, r)" by (metis prod_cases3)
  then have "cb_inv cb'" "cb_mCircularBufferParam_X cb' = cb_mCircularBufferParam_X cb"
    using cb_pop_effect_ok [of cb] cb_pop_effect_keeps [of cb] inv by (simp_all add: cb_inv_def)
  moreover have "cb_safe cb (Ret (cb_pop_result cb))" by (intro cb_safe_Ret cb_pop_result_inv inv)
  ultimately show ?thesis using next_turn [of cb'] eff by (auto simp: cb_pop_turn_def cb_safe_def)
qed

lemma cb_safe_param:
  "cb_mCircularBufferParam_X cb1 = cb_mCircularBufferParam_X cb2 \<Longrightarrow> cb_safe cb1 m = cb_safe cb2 m"
  by (simp add: cb_safe_def)

lemma Push_safe:
  assumes "cb_inv cb" "cb_rely_sched sched"
  shows "cb_safe cb (BofCircularBuffer_Push sched cb pData t)"
  using assms
proof (induction sched arbitrary: cb)
  case Nil
  then show ?case by (cases pData) (auto simp: cb_safe_def)
next
  case (Cons turn sched)
  obtain during before where turn: "turn = (during, before)" by fastforce
  show ?case
  proof (cases pData)
    case None
    then show ?thesis using Cons.prems by (auto simp: cb_safe_def)
  next
    case (Some x)
    have IH: "cb_safe cb' (BofCircularBuffer_Push sched cb' (Some x) t)" if "cb_inv cb'" for cb'
      using Cons.IH [OF that] Cons.prems turn Some by simp
    have rely: "cb_rely during" "cb_rely before" using Cons.prems turn by simp_all
    let ?cb1 = "before (cb_consume_write (during cb))"
    have inv: "cb_inv (during cb)" "cb_inv (before cb)" "cb_inv ?cb1"
      using Cons.prems(1) rely by (simp_all add: cb_relyD)
    have par: "cb_mCircularBufferParam_X (during cb) = cb_mCircularBufferParam_X cb"
      "cb_mCircularBufferParam_X (before cb) = cb_mCircularBufferParam_X cb"
      "cb_mCircularBufferParam_X ?cb1 = cb_mCircularBufferParam_X cb"
      using Cons.prems(1) rely inv by (simp_all add: cb_relyD)
    have safe: "cb_safe cb (cb_push_turn sched (before cb) x t)" "cb_safe cb (cb_push_turn sched ?cb1 x t)"
      using cb_push_turn_safe [OF inv(2) IH] cb_push_turn_safe [OF inv(3) IH] cb_safe_param par(2,3) by blast+
    consider "\<not> (cb_Blocking cb \<and> t \<noteq> 0)" | "cb_Blocking cb" "t \<noteq> 0" "event_signaled (cb_mCanWriteEvent_X (during cb))"
      | "cb_Blocking cb" "t \<noteq> 0" "\<not> event_signaled (cb_mCanWriteEvent_X (during cb))" by blast
    then show ?thesis
    proof cases
      case 1
      then show ?thesis using Push_turn [of before cb t during sched x] inv safe(1) turn Some
        by simp
    next
      case 2
      then show ?thesis using Push_wait_turn [of during cb t before sched x] inv safe(2) turn Some par
        by simp
    next
      case 3
      then show ?thesis using Push_wait_timeout [of during cb t before sched x] inv turn Some par
        by (auto simp: cb_safe_def)
    qed
  qed
qed

lemma Pop_safe:
  assumes "cb_inv cb" "cb_rely_sched sched"
  shows "cb_safe cb (BofCircularBuffer_Pop sched cb t)"
  using assms
proof (induction sched arbitrary: cb)
  case Nil
  then show ?case by (auto simp: cb_safe_def)
next
  case (Cons turn sched)
  obtain during before where turn: "turn = (during, before)" by fastforce
  have IH: "cb_safe cb' (BofCircularBuffer_Pop sched cb' t)" if "cb_inv cb'" for cb'
    using Cons.IH [OF that] Cons.prems turn by simp
  have rely: "cb_rely during" "cb_rely before" using Cons.prems turn by simp_all
  let ?cb1 = "before (cb_consume_read (during cb))"
  have inv: "cb_inv (during cb)" "cb_inv (before cb)" "cb_inv ?cb1"
    using Cons.prems(1) rely by (simp_all add: cb_relyD)
  have par: "cb_mCircularBufferParam_X (during cb) = cb_mCircularBufferParam_X cb"
    "cb_mCircularBufferParam_X (before cb) = cb_mCircularBufferParam_X cb"
    "cb_mCircularBufferParam_X ?cb1 = cb_mCircularBufferParam_X cb"
    using Cons.prems(1) rely inv by (simp_all add: cb_relyD)
  have safe: "cb_safe cb (cb_pop_turn sched (before cb) t)" "cb_safe cb (cb_pop_turn sched ?cb1 t)"
    using cb_pop_turn_safe [OF inv(2) IH] cb_pop_turn_safe [OF inv(3) IH] cb_safe_param par(2,3) by blast+
  consider "\<not> cb_pop_waits cb t" | "cb_pop_waits cb t" "event_signaled (cb_mCanReadEvent_X (during cb))"
    | "cb_pop_waits cb t" "\<not> event_signaled (cb_mCanReadEvent_X (during cb))" by blast
  then show ?case
  proof cases
    case 1
    then show ?thesis using Pop_turn [of before cb t during sched] inv safe(1) turn by simp
  next
    case 2
    then show ?thesis using Pop_wait_turn [of during cb t before sched] inv safe(2) turn par
      by (simp add: cb_pop_waits_def)
  next
    case 3
    then show ?thesis using Pop_wait_timeout [of during cb t before sched] inv turn par
      by (auto simp: cb_safe_def cb_pop_waits_def)
  qed
qed

section \<open>The operations that do not wait\<close>

lemma cb_invD: "cb_inv cb \<Longrightarrow> cb_ring_ok cb" "cb_inv cb \<Longrightarrow> cb_sync_ready cb"
  by (simp_all add: cb_inv_def)

lemma Skip_eq:
  assumes "cb_inv cb"
  shows "BofCircularBuffer_Skip cb sig =
    Ret (if 0 < cb_nb_avail cb
         then (if sig then cb_signal (cb_take cb) else cb_take cb, BOF_ERR_NO_ERROR,
               Some (cb_mPopIndex_U32 cb, cb_mpData_T cb ! unat (cb_mPopIndex_U32 cb)))
         else (cb, BOF_ERR_EMPTY, None))"
proof (cases "0 < cb_nb_avail cb")
  case True
  note ok = cb_invD [OF assms] and take = cb_take_ok(1) [OF cb_invD(1) [OF assms] True]
  have hold: "(cb_hold cb)\<lparr>cb_mNbElementInBuffer_U32 := cb_mNbElementInBuffer_U32 cb - 1,
      cb_mPopIndex_U32 := cb_next (cb_NbMax cb) (cb_mPopIndex_U32 cb)\<rparr> = cb_hold (cb_take cb)"
    by (simp add: cb_hold_def cb_take_def)
  show ?thesis
    using cb_ring_okD [OF ok(1)] cb_avail_nb [OF ok(1) True] True ok take
    by (simp add: BofCircularBuffer_Skip_def Let_def hold SignalReadWrite_hold cb_signal_idle)
next
  case False
  then show ?thesis using cb_ring_okD [OF cb_invD(1) [OF assms]] cb_invD [OF assms]
    by (simp add: BofCircularBuffer_Skip_def)
qed

lemma PopLastPush_eq:
  assumes "cb_inv cb"
  shows "BofCircularBuffer_PopLastPush cb =
    Ret (if 0 < cb_nb_avail cb
         then (cb_signal (cb_untake cb), BOF_ERR_NO_ERROR,
               Some (cb_mPushIndex_U32 (cb_untake cb), last (cb_contents cb)))
         else (cb, BOF_ERR_EMPTY, None))"
proof (cases "0 < cb_nb_avail cb")
  case True
  note ok = cb_invD [OF assms] and un = cb_untake_ok [OF cb_invD(1) [OF assms] True]
  let ?p = "cb_mPushIndex_U32 (cb_untake cb)"
  have p: "cb_prev (cb_NbMax cb) (cb_mPushIndex_U32 cb) = ?p"
    by (simp add: cb_untake_def)
  have hold: "(cb_hold cb)\<lparr>cb_mPushIndex_U32 := ?p, cb_mNbElementInBuffer_U32 := cb_mNbElementInBuffer_U32 cb - 1\<rparr>
      = cb_hold (cb_untake cb)"
    by (simp add: cb_hold_def cb_untake_def)
  have len: "unat ?p < length (cb_mpLock_U8 cb)" "unat ?p < length (cb_mpData_T cb)"
    using un(5) cb_ok_lock [OF ok(1)] cb_ok_data [OF ok(1)] by simp_all
  show ?thesis
    using cb_ring_okD [OF ok(1)] cb_avail_nb [OF ok(1) True] True ok un(1,3,4) len
    by (simp add: BofCircularBuffer_PopLastPush_def Let_def hold SignalReadWrite_hold cb_signal_idle p)
next
  case False
  then show ?thesis using cb_ring_okD [OF cb_invD(1) [OF assms]] cb_invD [OF assms]
    by (simp add: BofCircularBuffer_PopLastPush_def)
qed

lemma UnlockPop_eq:
  assumes "cb_inv cb"
  shows "BofCircularBuffer_UnlockPop cb i =
    Ret (if \<not> cb_PopLockMode cb then (cb, BOF_ERR_WRONG_MODE)
         else if cb_NbMax cb \<le> i then (cb, BOF_ERR_TOO_BIG)
         else if cb_mpLock_U8 cb ! unat i = 0 then (cb, BOF_ERR_UNLOCK)
         else (cb_signal (cb_unlock_cell cb i), BOF_ERR_NO_ERROR))"
proof (cases "cb_PopLockMode cb \<and> i < cb_NbMax cb \<and> cb_mpLock_U8 cb ! unat i \<noteq> 0")
  case True
  note ok = cb_invD [OF assms]
  have i: "unat i < unat (cb_NbMax cb)" using True by (simp add: word_less_nat_alt)
  note un = cb_unlock_cell_ok [OF ok(1) i] and f = cb_okD [OF ok(1)]
  have hold: "(cb_hold cb)\<lparr>cb_mpLock_U8 := (cb_mpLock_U8 cb)[unat i := 0],
       cb_mNbElementInBuffer_U32 := cb_mNbElementInBuffer_U32 cb - 1,
       cb_mNbElementLockedInBuffer_U32 := cb_mNbElementLockedInBuffer_U32 cb - 1\<rparr> = cb_hold (cb_unlock_cell cb i)"
    by (simp add: cb_hold_def cb_unlock_cell_def)
  have "cb_mNbElementLockedInBuffer_U32 cb - 1 \<le> cb_mNbElementInBuffer_U32 cb - 1"
    using cb_ring_okD(7) [OF un(1)] True by (simp add: cb_unlock_cell_def)
  moreover have "cb_mNbElementLockedInBuffer_U32 cb \<le> cb_NbMax cb"
    using cb_ring_okD(7,8) [OF ok(1)] by (rule order_trans)
  ultimately show ?thesis
    using cb_ring_okD [OF ok(1)] True ok un f(4) i
    by (simp add: BofCircularBuffer_UnlockPop_def Let_def hold SignalReadWrite_hold not_le)
next
  case False
  then show ?thesis using cb_ok_lock [OF cb_invD(1) [OF assms]] cb_invD [OF assms]
    by (auto simp: BofCircularBuffer_UnlockPop_def not_less word_less_nat_alt word_le_nat_alt)
qed

definition cb_reset :: "'a BofCircularBuffer \<Rightarrow> 'a BofCircularBuffer" where
  "cb_reset cb = cb\<lparr>cb_mOverflow_B := False, cb_mLevelMax_U32 := 0, cb_mPushIndex_U32 := 0,
     cb_mPopIndex_U32 := 0, cb_mNbElementInBuffer_U32 := 0, cb_mNbElementLockedInBuffer_U32 := 0,
     cb_mpLock_U8 := replicate (unat (cb_NbMax cb)) 0\<rparr>"

lemma Reset_eq:
  assumes "cb_inv cb"
  shows "BofCircularBuffer_Reset cb = Ret (cb_reset cb)"
proof -
  note ok = cb_invD [OF assms] and f = cb_okD [OF cb_invD(1) [OF assms]]
  have "cb_mpLock_U8 cb \<noteq> []" using f(1,4) by auto
  moreover have hold: "(cb_hold cb)\<lparr>cb_mOverflow_B := False, cb_mLevelMax_U32 := 0, cb_mPushIndex_U32 := 0,
     cb_mPopIndex_U32 := 0, cb_mNbElementInBuffer_U32 := 0, cb_mNbElementLockedInBuffer_U32 := 0,
     cb_mpLock_U8 := replicate (unat (cb_NbMax cb)) 0\<rparr> = cb_hold (cb_reset cb)"
    by (simp add: cb_hold_def cb_reset_def)
  moreover have "cb_sync_ready (cb_reset cb)" using ok(2) by (simp add: cb_sync_ready_def cb_reset_def)
  ultimately show ?thesis using ok(2) f(4) by (simp add: BofCircularBuffer_Reset_def Let_def)
qed

lemma cb_reset_ok:
  assumes "cb_inv cb"
  shows "cb_inv (cb_reset cb)" "cb_contents (cb_reset cb) = []"
  using cb_okD [OF cb_invD(1) [OF assms]] cb_invD(2) [OF assms]
  by (simp_all add: cb_inv_def cb_ring_ok_def cb_sync_ready_def cb_reset_def cb_nb_avail_def cb_contents_def)

lemma cb_contents_nonempty: "cb_contents cb \<noteq> [] \<longleftrightarrow> 0 < cb_nb_avail cb"
  by (metis cb_contents_def length_greater_0_conv length_ring_slice)

lemma cb_hd_contents:
  assumes "cb_inv cb" "0 < cb_nb_avail cb"
  shows "cb_mpData_T cb ! unat (cb_mPopIndex_U32 cb) = hd (cb_contents cb)"
  using cb_contents_Cons [OF cb_invD(1) [OF assms(1)]] assms(2) by (metis Suc_pred list.sel(1))

lemma Peek_eq:
  assumes "cb_inv cb" "\<not> cb_pop_waits cb t"
  shows "BofCircularBuffer_Peek id id cb t =
    Ret (if cb_contents cb \<noteq> []
         then (cb, BOF_ERR_NO_ERROR, Some (cb_mPopIndex_U32 cb, hd (cb_contents cb)))
         else (cb, BOF_ERR_EMPTY, None))"
proof -
  note ok = cb_invD [OF assms(1)]
  have nw: "\<not> (cb_Blocking cb \<and> t \<noteq> 0 \<and> cb_mNbElementInBuffer_U32 cb = 0)" using assms(2) by (simp add: cb_pop_waits_def)
  show ?thesis
    unfolding BofCircularBuffer_Peek_def if_not_P [OF nw]
    using cb_ring_okD [OF ok(1)] ok cb_hd_contents [OF assms(1)]
    by (simp add: cb_contents_nonempty)
qed

section \<open>The buffer as a bounded queue\<close>

text \<open>A client that does not wait: a push or a pop with a null timeout.\<close>

definition cb_fifo_push :: "'a \<Rightarrow> 'a BofCircularBuffer \<Rightarrow> ('a BofCircularBuffer \<times> BOFERR) outcome" where
  "cb_fifo_push x cb = bindO (BofCircularBuffer_Push [(id, id)] cb (Some x) 0) (\<lambda>(cb, e, i). Ret (cb, e))"

definition cb_fifo_pop :: "'a BofCircularBuffer \<Rightarrow> ('a BofCircularBuffer \<times> BOFERR \<times> 'a option) outcome" where
  "cb_fifo_pop cb = bindO (BofCircularBuffer_Pop [(id, id)] cb 0) (\<lambda>(cb, e, r). Ret (cb, e, map_option snd r))"

definition cb_fifo_inv :: "'a BofCircularBuffer \<Rightarrow> bool" where
  "cb_fifo_inv cb \<longleftrightarrow> cb_inv cb \<and> \<not> cb_Overwrite cb \<and> \<not> cb_PopLockMode cb"

definition cb_cap :: "'a BofCircularBuffer \<Rightarrow> nat" where
  "cb_cap cb = unat (BofCircularBuffer_GetCapacity cb)"

lemma cb_push_now: "cb_inv cb \<Longrightarrow> BofCircularBuffer_Push ((d, id) # s) cb (Some x) 0 = Ret (cb_push_result cb x)"
  using Push_turn [of id cb 0 d s x] by (simp add: cb_push_turn_def split: prod.split)

lemma cb_pop_now: "cb_inv cb \<Longrightarrow> BofCircularBuffer_Pop ((d, id) # s) cb 0 = Ret (cb_pop_result cb)"
  using Pop_turn [of id cb 0 d s] by (simp add: cb_pop_turn_def cb_pop_waits_def split: prod.split)

lemma length_cb_contents: "length (cb_contents cb) = cb_nb_avail cb"
  by (simp add: cb_contents_def)

lemma cb_fifo_nb:
  assumes "cb_inv cb" "\<not> cb_PopLockMode cb"
  shows "length (cb_contents cb) = unat (cb_mNbElementInBuffer_U32 cb)"
    "cb_mNbElementInBuffer_U32 cb < cb_NbMax cb \<longleftrightarrow> length (cb_contents cb) < cb_cap cb"
  using cb_ok_mode [OF cb_invD(1) [OF assms(1)]] assms(2)
  by (simp_all add: length_cb_contents cb_nb_avail_def cb_cap_def BofCircularBuffer_GetCapacity_def word_less_nat_alt)

lemma cb_unlocked_cells:
  assumes "cb_ring_ok cb" "\<not> cb_PopLockMode cb" "i < unat (cb_NbMax cb)"
  shows "cb_mpLock_U8 cb ! i = 0"
proof -
  note f = cb_okD [OF assms(1)]
  have "filter (\<lambda>l. l \<noteq> 0) (cb_mpLock_U8 cb) = []" using f(9,11) assms(2) by simp
  then show ?thesis using f(4) assms(3) by (simp add: filter_empty_conv)
qed

lemma cb_fifo_can_write:
  assumes "cb_inv cb" "\<not> cb_PopLockMode cb"
  shows "cb_can_write cb \<longleftrightarrow> cb_Overwrite cb \<or> cb_mNbElementInBuffer_U32 cb < cb_NbMax cb"
  using cb_unlocked_cells [OF cb_invD(1) [OF assms(1)] assms(2)] cb_ring_okD(5) [OF cb_invD(1) [OF assms(1)]]
  by (simp add: cb_can_write_def word_less_nat_alt)

interpretation cbq: bounded_fifo cb_fifo_inv cb_contents cb_cap "\<lambda>_. True" cb_fifo_push cb_fifo_pop BOF_ERR_FULL BOF_ERR_EMPTY
proof unfold_locales
  fix cb :: "'a BofCircularBuffer" and x :: 'a and xs :: "'a list"
  show "BOF_ERR_FULL \<noteq> BOF_ERR_NO_ERROR" by simp
  assume "cb_fifo_inv cb"
  then have inv: "cb_inv cb" "\<not> cb_Overwrite cb" "\<not> cb_PopLockMode cb" by (simp_all add: cb_fifo_inv_def)
  note nb = cb_fifo_nb [OF inv(1,3)] and w = cb_fifo_can_write [OF inv(1,3)]
  show "length (cb_contents cb) \<le> cb_cap cb"
    using nb(1) cb_ok_nb [OF cb_invD(1) [OF inv(1)]] by (simp add: cb_cap_def BofCircularBuffer_GetCapacity_def)
  have keep: "cb_fifo_inv (fst (cb_push_result cb x))" "cb_cap (fst (cb_push_result cb x)) = cb_cap cb"
    "cb_fifo_inv (fst (cb_pop_result cb))" "cb_cap (fst (cb_pop_result cb)) = cb_cap cb"
    using cb_push_result_inv [of cb x] cb_pop_result_inv [of cb] inv
    by (simp_all add: cb_fifo_inv_def cb_cap_def BofCircularBuffer_GetCapacity_def)
  { assume room: "length (cb_contents cb) < cb_cap cb"
    have "cb_push_result cb x = (cb_signal (cb_push_room cb x), BOF_ERR_NO_ERROR, Some (cb_mPushIndex_U32 cb))"
      using room nb(2) w by (simp add: cb_push_result_def cb_push_effect_def)
    then show "\<exists>s'. cb_fifo_push x cb = Ret (s', BOF_ERR_NO_ERROR) \<and> cb_fifo_inv s' \<and> cb_cap s' = cb_cap cb \<and>
        cb_contents s' = cb_contents cb @ [x]"
      using keep(1,2) cb_push_room_ok(2) [OF cb_invD(1) [OF inv(1)], of x] room nb(2) w inv(1)
      by (simp add: cb_fifo_push_def cb_push_now) }
  { assume "length (cb_contents cb) = cb_cap cb"
    then have "cb_push_result cb x = (cb\<lparr>cb_mOverflow_B := True\<rparr>, BOF_ERR_FULL, None)"
      using nb(2) w inv(2) by (simp add: cb_push_result_def cb_push_effect_def)
    then show "\<exists>s'. cb_fifo_push x cb = Ret (s', BOF_ERR_FULL) \<and> cb_fifo_inv s' \<and> cb_cap s' = cb_cap cb \<and>
        cb_contents s' = cb_contents cb"
      using keep(1,2) inv(1) by (simp add: cb_fifo_push_def cb_push_now) }
  { assume c: "cb_contents cb = x # xs"
    then have "0 < cb_nb_avail cb" using cb_contents_nonempty [of cb] by simp
    then show "\<exists>s'. cb_fifo_pop cb = Ret (s', BOF_ERR_NO_ERROR, Some x) \<and> cb_fifo_inv s' \<and> cb_cap s' = cb_cap cb \<and>
        cb_contents s' = xs"
      using keep(3,4) cb_take_ok(2) [OF cb_invD(1) [OF inv(1)]] cb_hd_contents [OF inv(1)] c inv(1,3)
      by (simp add: cb_fifo_pop_def cb_pop_now cb_pop_result_def cb_pop_effect_def) }
  { assume c: "cb_contents cb = []"
    then have "\<not> 0 < cb_nb_avail cb" using cb_contents_nonempty [of cb] by simp
    then show "\<exists>s'. cb_fifo_pop cb = Ret (s', BOF_ERR_EMPTY, None) \<and> cb_fifo_inv s' \<and> cb_cap s' = cb_cap cb \<and>
        cb_contents s' = []"
      using keep(3,4) inv(1) c by (simp add: cb_fifo_pop_def cb_pop_now cb_pop_result_def cb_pop_effect_def) }
qed

end
