(* ===== verification/Bof_CircularBuffer_Props.thy ===== *)
theory Bof_CircularBuffer_Props
  imports Bof_CircularBuffer_Proofs
begin

text \<open>
  The properties of the circular buffer: construction, overwriting, the
  pop-lock mode, the retry loops, the events, and the indexed queries.
\<close>

section \<open>Construction\<close>

text \<open>What the constructor asks of its parameters and of \<^verbatim>\<open>new\<close>.\<close>

definition cb_param_ok :: "(u32 \<Rightarrow> 'a list) \<Rightarrow> 'a BOF_CIRCULAR_BUFFER_PARAM \<Rightarrow> bool" where
  "cb_param_ok new_T p \<longleftrightarrow> cbp_NbMaxElement_U32 p \<noteq> 0 \<and> cbp_NbMaxElement_U32 p \<noteq> - 1 \<and>
     unat (cbp_NbMaxElement_U32 p) \<le>
       length (case cbp_pData p of Some d \<Rightarrow> d | None \<Rightarrow> new_T (cbp_NbMaxElement_U32 p))"

lemma CreateEvent_ctor:
  "\<exists>e. Bof_CreateEvent n False 1 False a p BOF_EVENT_ctor = Ret (e, BOF_ERR_NO_ERROR)
         \<and> event_ready e \<and> \<not> event_signaled e"
  by (rule Bof_CreateEvent_ready)
    (simp_all add: BOF_EVENT_ctor_def BOF_EVENT_Reset_def BOF_EVENT_MAGIC_def BOF_MUTEX_ctor_def BOF_MUTEX_Reset_def)

lemma CreateMutex_ctor:
  "\<exists>m. Bof_CreateMutex n False p BOF_MUTEX_ctor = Ret (m, BOF_ERR_NO_ERROR) \<and> mutex_ready m"
  by (rule Bof_CreateMutex_ready)
    (simp_all add: BOF_MUTEX_ctor_def BOF_MUTEX_Reset_def BOF_MUTEX_MAGIC_def)

lemma unat_less_max: "(w::u32) \<noteq> - 1 \<Longrightarrow> unat w < 2 ^ 32 - 1"
proof -
  assume "w \<noteq> - 1"
  then have "w < - 1" by (simp add: word_order.not_eq_extremum)
  then have "unat w < unat (- 1 :: u32)" by (simp only: word_less_nat_alt)
  then show ?thesis by (simp add: unsigned_minus_1_eq_mask mask_eq_exp_minus_1)
qed

lemma ctor_ok:
  assumes "cb_param_ok new_T p"
  shows "\<exists>cb. BofCircularBuffer_ctor new_T this_S p = Ret cb \<and> cb_inv cb \<and> cb_contents cb = [] \<and>
    cb_mCircularBufferParam_X cb = p \<and> BofCircularBuffer_LastErrorCode cb = BOF_ERR_NO_ERROR \<and>
    (cbp_Blocking_B p \<longrightarrow> event_signaled (cb_mCanWriteEvent_X cb) \<and> \<not> event_signaled (cb_mCanReadEvent_X cb)) \<and>
    cb_mPushIndex_U32 cb = 0"
proof -
  obtain r where r: "Bof_CreateEvent (''cb_canread_'' @ this_S @ ''_evt'') False 1 False False
      (cbp_PriorityInversionAware_B p) BOF_EVENT_ctor = Ret (r, BOF_ERR_NO_ERROR)" "event_ready r" "\<not> event_signaled r"
    using CreateEvent_ctor by blast
  obtain w where w: "Bof_CreateEvent (''cb_canwrite_'' @ this_S @ ''_evt'') False 1 False False
      (cbp_PriorityInversionAware_B p) BOF_EVENT_ctor = Ret (w, BOF_ERR_NO_ERROR)" "event_ready w"
    using CreateEvent_ctor by blast
  obtain m where m: "Bof_CreateMutex ''BofCircularBuffer'' False False BOF_MUTEX_ctor = Ret (m, BOF_ERR_NO_ERROR)"
    "mutex_ready m" using CreateMutex_ctor by blast
  have n: "0 < unat (cbp_NbMaxElement_U32 p)" "unat (cbp_NbMaxElement_U32 p) < 2 ^ 32 - 1"
    "unat (cbp_NbMaxElement_U32 p) \<le> length (case cbp_pData p of Some d \<Rightarrow> d | None \<Rightarrow> new_T (cbp_NbMaxElement_U32 p))"
    using assms unat_less_max by (auto simp: cb_param_ok_def unat_gt_0)
  show ?thesis
    using n r w m assms
    by (cases "cbp_pData p") (simp_all add: BofCircularBuffer_ctor_def BofCircularBuffer_fresh_def BofCircularBuffer_events_def
        BofCircularBuffer_storage_def cb_param_ok_def Let_def sync_simps BofCircularBuffer_LastErrorCode_def
        cb_inv_def cb_ring_ok_def cb_sync_ready_def cb_nb_avail_def cb_contents_def filter_replicate ring_all_def)
qed

section \<open>Overwriting\<close>

text \<open>One push in overwrite mode, with and without the pop-lock mode.\<close>

lemma cb_push_over_one:
  assumes "cb_inv cb" "cb_Overwrite cb"
  shows "\<exists>cb' e i. BofCircularBuffer_Push [(id, id)] cb (Some x) 0 = Ret (cb', e, i) \<and> cb_inv cb' \<and>
    (if cb_mpLock_U8 cb ! unat (cb_mPushIndex_U32 cb) \<noteq> 0
     then e = BOF_ERR_LOCK \<and> i = None \<and> cb' = cb\<lparr>cb_mOverflow_B := True\<rparr>
     else e = BOF_ERR_NO_ERROR \<and> i = Some (cb_mPushIndex_U32 cb) \<and> cb_contents cb' =
       (if BofCircularBuffer_GetNbElement cb < BofCircularBuffer_GetCapacity cb then cb_contents cb else tl (cb_contents cb)) @ [x])"
proof -
  note ok = cb_invD(1) [OF assms(1)]
  have cw: "cb_can_write cb \<longleftrightarrow> cb_mpLock_U8 cb ! unat (cb_mPushIndex_U32 cb) = 0" using assms(2) by (simp add: cb_can_write_def)
  note c = cb_push_room_ok(2) [OF ok, of x] cb_push_over_ok(2) [OF ok, of x]
  show ?thesis
    using cb_push_now [OF assms(1), of id "[]" x] cb_push_result_inv(1) [OF assms(1), of x] cw assms(2) c
    by (auto simp: cb_push_result_def cb_push_effect_def BofCircularBuffer_GetNbElement_def BofCircularBuffer_GetCapacity_def)
qed

lemma cb_push_over_run:
  assumes "cb_inv cb" "cb_Overwrite cb" "\<not> cb_PopLockMode cb"
  shows "\<exists>cb' os. fifo_run cb_fifo_push cb_fifo_pop (map FifoPush xs) cb = Ret (cb', os) \<and> cb_inv cb' \<and>
    set os \<subseteq> {(BOF_ERR_NO_ERROR, None)} \<and> cb_mCircularBufferParam_X cb' = cb_mCircularBufferParam_X cb \<and>
    cb_contents cb' = drop (length (cb_contents cb @ xs) - cb_cap cb) (cb_contents cb @ xs)"
  using assms
proof (induction xs arbitrary: cb)
  case Nil
  have "length (cb_contents cb) \<le> cb_cap cb"
    using cb_fifo_nb(1) [OF Nil(1,3)] cb_ok_nb [OF cb_invD(1) [OF Nil(1)]]
    by (simp add: cb_cap_def BofCircularBuffer_GetCapacity_def)
  then show ?case using Nil by simp
next
  case (Cons x xs)
  let ?cb = "fst (cb_push_result cb x)"
  note w = cb_fifo_can_write [OF Cons.prems(1,3)] and nb = cb_fifo_nb [OF Cons.prems(1,3)]
  note ok = cb_invD(1) [OF Cons.prems(1)]
  have cw: "cb_can_write cb" using w Cons.prems(2) by simp
  have res: "cb_fifo_push x cb = Ret (?cb, BOF_ERR_NO_ERROR)"
    using cw Cons.prems(1) by (simp add: cb_fifo_push_def cb_push_now cb_push_result_def cb_push_effect_def)
  have inv: "cb_inv ?cb" "cb_mCircularBufferParam_X ?cb = cb_mCircularBufferParam_X cb"
    using cb_push_result_inv [of cb x] Cons.prems(1) by simp_all
  have cap: "cb_cap ?cb = cb_cap cb" using inv by (simp add: cb_cap_def BofCircularBuffer_GetCapacity_def)
  have le: "length (cb_contents cb) \<le> cb_cap cb"
    using nb(1) cb_ok_nb [OF ok] by (simp add: cb_cap_def BofCircularBuffer_GetCapacity_def)
  have con: "cb_contents ?cb = drop (length (cb_contents cb @ [x]) - cb_cap cb) (cb_contents cb @ [x])"
  proof (cases "length (cb_contents cb) < cb_cap cb")
    case True
    then show ?thesis using nb(2) cb_push_room_ok(2) [OF ok cw] cw
      by (simp add: cb_push_result_def cb_push_effect_def)
  next
    case False
    moreover have "Suc 0 \<le> cb_cap cb" "cb_contents cb \<noteq> []" using False cb_ok_pos [OF ok]
      by (auto simp: cb_cap_def BofCircularBuffer_GetCapacity_def)
    ultimately show ?thesis using nb(2) cb_push_over_ok(2) [OF ok cw] cw le
      by (simp add: cb_push_result_def cb_push_effect_def drop_Suc)
  qed
  obtain cb' os where IH: "fifo_run cb_fifo_push cb_fifo_pop (map FifoPush xs) ?cb = Ret (cb', os)" "cb_inv cb'"
    "set os \<subseteq> {(BOF_ERR_NO_ERROR, None)}" "cb_mCircularBufferParam_X cb' = cb_mCircularBufferParam_X ?cb"
    "cb_contents cb' = drop (length (cb_contents ?cb @ xs) - cb_cap ?cb) (cb_contents ?cb @ xs)"
    using Cons.IH [OF inv(1)] inv(2) Cons.prems(2,3) by metis
  have "cb_contents cb' = drop (length (cb_contents cb @ x # xs) - cb_cap cb) (cb_contents cb @ x # xs)"
    unfolding IH(5) cap con drop_last_append by simp
  then show ?case using IH inv(2) res by simp
qed

section \<open>The retry loops\<close>

text \<open>Without interference a blocking push needs at most two turns: the first one consumes the signal.\<close>

lemma cb_push_effect_full:
  assumes "cb_push_effect cb x = (cb', BOF_ERR_FULL, i)"
  shows "cb' = cb\<lparr>cb_mOverflow_B := True\<rparr>"
  using assms by (auto simp: cb_push_effect_def split: if_splits)

lemma Push_two_turns:
  assumes "cb_inv cb"
  shows "\<exists>cb' e i. BofCircularBuffer_Push ((id, id) # (id, id) # sched) cb (Some x) t = Ret (cb', e, i)"
proof (cases "cb_Blocking cb \<and> t \<noteq> 0")
  case False
  then show ?thesis using Push_turn [of id cb t id "(id, id) # sched" x] assms
    by (cases "cb_push_result cb x") (auto simp: cb_push_turn_def split: prod.split)
next
  case True
  show ?thesis
  proof (cases "event_signaled (cb_mCanWriteEvent_X cb)")
    case False
    then show ?thesis using Push_wait_timeout [of id cb t] assms True by simp
  next
    case sig: True
    let ?cb1 = "cb_consume_write cb"
    have turn: "BofCircularBuffer_Push ((id, id) # (id, id) # sched) cb (Some x) t = cb_push_turn ((id, id) # sched) ?cb1 x t"
      using Push_wait_turn [of id cb t id] assms True sig by simp
    obtain cb' e i where eff: "cb_push_effect ?cb1 x = (cb', e, i)" by (metis prod_cases3)
    show ?thesis
    proof (cases "e = BOF_ERR_FULL")
      case False
      then show ?thesis using turn eff by (cases "cb_push_result ?cb1 x") (simp add: cb_push_turn_def)
    next
      case full: True
      have cb': "cb' = ?cb1\<lparr>cb_mOverflow_B := True\<rparr>" using cb_push_effect_full [of ?cb1 x cb' i] eff full by simp
      have "cb_inv cb'" using assms cb' cb_consume_inv(1) [of cb] by (simp add: cb_inv_def)
      moreover have "cb_Blocking cb'" "\<not> event_signaled (cb_mCanWriteEvent_X cb')"
        using True cb' by (simp_all add: cb_consume_write_def)
      ultimately have "BofCircularBuffer_Push ((id, id) # sched) cb' (Some x) t = Ret (cb', BOF_ERR_ETIMEDOUT, None)"
        using Push_wait_timeout [of id cb' t] True by simp
      then show ?thesis using turn eff full True by (simp add: cb_push_turn_def)
    qed
  qed
qed

text \<open>
  A blocking pop on a buffer whose elements are all locked never waits: the
  element counter is not 0, and every turn ends with an empty buffer. It does
  not return, whatever its timeout is.
\<close>

lemma Pop_all_locked_spins:
  assumes "cb_inv cb" "cb_Blocking cb" "t \<noteq> 0" "cb_mNbElementInBuffer_U32 cb \<noteq> 0" "cb_nb_avail cb = 0"
  shows "BofCircularBuffer_Pop (replicate turns (id, id)) cb t = Retrying"
proof (induction turns)
  case 0
  then show ?case by simp
next
  case (Suc turns)
  have "BofCircularBuffer_Pop ((id, id) # replicate turns (id, id)) cb t = cb_pop_turn (replicate turns (id, id)) cb t"
    using Pop_turn [of id cb t id] assms by (simp add: cb_pop_waits_def)
  also have "\<dots> = BofCircularBuffer_Pop (replicate turns (id, id)) cb t"
    using assms by (simp add: cb_pop_turn_def cb_pop_effect_def)
  also note Suc.IH
  finally show ?case by (simp only: replicate_Suc)
qed

text \<open>Outside that case a pop without interference returns in at most two turns.\<close>

lemma Pop_two_turns:
  assumes "cb_inv cb" "\<not> cb_PopLockMode cb"
  shows "\<exists>cb' e r. BofCircularBuffer_Pop ((id, id) # (id, id) # sched) cb t = Ret (cb', e, r)"
proof (cases "cb_pop_waits cb t")
  case False
  have "cb_nb_avail cb = unat (cb_mNbElementInBuffer_U32 cb)"
    using cb_ok_mode [OF cb_invD(1) [OF assms(1)]] assms(2) by (simp add: cb_nb_avail_def)
  then show ?thesis using False Pop_turn [of id cb t id] assms(1)
    by (auto simp: cb_pop_turn_def cb_pop_result_def cb_pop_effect_def cb_pop_waits_def unat_gt_0)
next
  case waits: True
  then have blk: "cb_Blocking cb" "cb_mNbElementInBuffer_U32 cb = 0" by (simp_all add: cb_pop_waits_def)
  show ?thesis
  proof (cases "event_signaled (cb_mCanReadEvent_X cb)")
    case False
    then show ?thesis using Pop_wait_timeout [of id cb t] assms(1) waits blk by simp
  next
    case True
    let ?cb1 = "cb_consume_read cb"
    have turn: "BofCircularBuffer_Pop ((id, id) # (id, id) # sched) cb t = cb_pop_turn ((id, id) # sched) ?cb1 t"
      using Pop_wait_turn [of id cb t id] assms(1) waits blk True by simp
    have "cb_pop_effect ?cb1 = (?cb1, BOF_ERR_EMPTY, None)"
      using blk by (simp add: cb_pop_effect_def cb_nb_avail_def cb_consume_read_def)
    moreover have "cb_pop_waits ?cb1 t" "\<not> event_signaled (cb_mCanReadEvent_X ?cb1)"
      using waits by (simp_all add: cb_pop_waits_def cb_consume_read_def)
    then have "BofCircularBuffer_Pop ((id, id) # sched) ?cb1 t = Ret (?cb1, BOF_ERR_ETIMEDOUT, None)"
      using Pop_wait_timeout [of id ?cb1 t] assms(1) blk by simp
    ultimately show ?thesis using turn waits by (simp add: cb_pop_turn_def cb_pop_waits_def)
  qed
qed

section \<open>The events\<close>

text \<open>In blocking mode the "can write" event is signalled whenever there is room.\<close>

definition cb_write_ready :: "'a BofCircularBuffer \<Rightarrow> bool" where
  "cb_write_ready cb \<longleftrightarrow> (cb_Blocking cb \<and> cb_can_write cb \<longrightarrow> event_signaled (cb_mCanWriteEvent_X cb))"

lemma cb_signal_write_ready: "cb_write_ready (cb_signal cb)"
  by (simp add: cb_write_ready_def cb_signal_def cb_can_write_def)

lemma cb_full_write_ready: "\<not> cb_can_write cb \<Longrightarrow> cb_write_ready (cb\<lparr>cb_mOverflow_B := b\<rparr>)"
  by (auto simp: cb_write_ready_def cb_can_write_def)

lemma cb_push_result_write_ready:
  "cb_write_ready (fst (cb_push_result cb x))"
  using cb_signal_write_ready cb_full_write_ready by (auto simp: cb_push_result_def cb_push_effect_def)

lemma cb_pop_result_write_ready:
  "cb_write_ready cb \<Longrightarrow> cb_write_ready (fst (cb_pop_result cb))"
  using cb_signal_write_ready by (auto simp: cb_pop_result_def cb_pop_effect_def)

text \<open>With the event in step, a blocking push into a buffer with room succeeds in its first turn.\<close>

lemma Push_room_first_turn:
  assumes "cb_inv cb" "cb_write_ready cb" "cb_can_write cb"
  shows "\<exists>cb' i. BofCircularBuffer_Push ((id, id) # sched) cb (Some x) t = Ret (cb', BOF_ERR_NO_ERROR, i) \<and>
    cb_contents cb' = (if cb_mNbElementInBuffer_U32 cb < cb_NbMax cb then cb_contents cb else tl (cb_contents cb)) @ [x]"
proof -
  have con: "cb_contents (fst (cb_push_effect cb1 x)) =
      (if cb_mNbElementInBuffer_U32 cb < cb_NbMax cb then cb_contents cb else tl (cb_contents cb)) @ [x] \<and>
      fst (snd (cb_push_effect cb1 x)) = BOF_ERR_NO_ERROR"
    if "cb1 = cb \<or> cb1 = cb_consume_write cb" for cb1
  proof -
    have "cb_ring_ok cb1" "cb_can_write cb1" "cb_contents cb1 = cb_contents cb"
      "cb_mNbElementInBuffer_U32 cb1 = cb_mNbElementInBuffer_U32 cb" "cb_NbMax cb1 = cb_NbMax cb"
      using that assms cb_invD(1) [of "cb_consume_write cb"] cb_invD(1) [of cb] cb_consume_inv(1,3) [of cb]
      by (auto simp: cb_can_write_def cb_consume_write_def)
    then show ?thesis using cb_push_room_ok(2) [of cb1 x] cb_push_over_ok(2) [of cb1 x] by (simp add: cb_push_effect_def)
  qed
  have *: "\<exists>cb' i. cb_push_turn sched cb1 x t = Ret (cb', BOF_ERR_NO_ERROR, i) \<and>
      cb_contents cb' = (if cb_mNbElementInBuffer_U32 cb < cb_NbMax cb then cb_contents cb else tl (cb_contents cb)) @ [x]"
    if "cb1 = cb \<or> cb1 = cb_consume_write cb" for cb1
    using con [OF that] by (auto simp: cb_push_turn_def cb_push_result_def split: prod.split)
  show ?thesis
  proof (cases "cb_Blocking cb \<and> t \<noteq> 0")
    case True
    then show ?thesis using * [of "cb_consume_write cb"] Push_wait_turn [of id cb t id sched x] assms
      by (simp add: cb_write_ready_def)
  next
    case False
    then show ?thesis using * [of cb] Push_turn [of id cb t id sched x] assms by simp
  qed
qed

text \<open>\<^verbatim>\<open>Reset\<close> empties the buffer and leaves the events as they are.\<close>

lemma Reset_keeps_events:
  assumes "cb_inv cb" "cb_Blocking cb" "\<not> event_signaled (cb_mCanWriteEvent_X cb)" "t \<noteq> 0"
  shows "\<exists>cb'. BofCircularBuffer_Reset cb = Ret cb' \<and> cb_contents cb' = [] \<and>
    BofCircularBuffer_Push ((id, id) # sched) cb' (Some x) t = Ret (cb', BOF_ERR_ETIMEDOUT, None)"
  using Reset_eq [OF assms(1)] cb_reset_ok [OF assms(1)] Push_wait_timeout [of id "cb_reset cb" t id sched x] assms
  by (simp add: cb_reset_def)

section \<open>Indexed queries\<close>

lemma PeekFromPop_eq:
  assumes "cb_inv cb" "\<not> cb_PopLockMode cb" "unat (cb_NbMax cb) \<le> 2 ^ 31"
  shows "BofCircularBuffer_PeekFromPop cb i =
    Ret (cb, if unat i < length (cb_contents cb)
             then if (unat (cb_mPopIndex_U32 cb) + unat i) mod cb_cap cb < unat (cb_mPushIndex_U32 cb)
                  then (BOF_ERR_NO_ERROR, Some (cb_contents cb ! unat i, False))
                  else (BOF_ERR_NOT_AVAILABLE, None)
             else (BOF_ERR_EMPTY, None))"
proof (cases "unat i < length (cb_contents cb)")
  case False
  then show ?thesis using cb_fifo_nb(1) [OF assms(1,2)] cb_invD [OF assms(1)]
    by (simp add: BofCircularBuffer_PeekFromPop_def word_less_nat_alt)
next
  case True
  note nb = cb_fifo_nb(1) [OF assms(1,2)] and f = cb_okD [OF cb_invD(1) [OF assms(1)]]
  let ?n = "unat (cb_NbMax cb)" and ?q = "unat (cb_mPopIndex_U32 cb)"
  let ?j = "cb_wrap (cb_NbMax cb) (cb_mPopIndex_U32 cb + i)"
  have i: "unat i < ?n" using True nb f(8) by simp
  have s: "unat (cb_mPopIndex_U32 cb + i) = ?q + unat i" using i f(5) assms(3) by (simp add: unat_word_ariths)
  have j: "unat ?j = (?q + unat i) mod ?n"
    using s i f(5) mod_eq_cases [OF f(5), of "unat i"]
    by (simp add: cb_wrap_def word_le_nat_alt unat_sub not_le)
  have "unat ?j < ?n" using j f(1) by simp
  then have in_range: "unat ?j < length (cb_mpData_T cb)" "unat ?j < length (cb_mpLock_U8 cb)" "cb_mpLock_U8 cb ! unat ?j = 0"
    using f(3,4) cb_unlocked_cells [OF cb_invD(1) [OF assms(1)] assms(2)] by simp_all
  have val: "cb_mpData_T cb ! unat ?j = cb_contents cb ! unat i"
    using True j by (simp add: cb_contents_def)
  have lt: "i < cb_mNbElementInBuffer_U32 cb" using True nb by (simp add: word_less_nat_alt)
  show ?thesis
    using cb_invD [OF assms(1)] lt in_range val True j
    by (simp add: BofCircularBuffer_PeekFromPop_def Let_def word_less_nat_alt cb_cap_def
        BofCircularBuffer_GetCapacity_def)
qed

text \<open>A cell is used when it holds an element that can be popped or is locked.\<close>

definition cb_cell_used :: "'a BofCircularBuffer \<Rightarrow> nat \<Rightarrow> bool" where
  "cb_cell_used cb i \<longleftrightarrow> cb_mpLock_U8 cb ! i \<noteq> 0 \<or>
     (\<exists>j<cb_nb_avail cb. (unat (cb_mPopIndex_U32 cb) + j) mod unat (cb_NbMax cb) = i)"

lemma cb_full_all_used:
  assumes ok: "cb_ring_ok cb" and "cb_mNbElementInBuffer_U32 cb = cb_NbMax cb" "i < unat (cb_NbMax cb)"
  shows "cb_cell_used cb i"
proof (rule ccontr)
  let ?n = "unat (cb_NbMax cb)" and ?q = "unat (cb_mPopIndex_U32 cb)" and ?L = "cb_mpLock_U8 cb"
  let ?win = "(\<lambda>j. (?q + j) mod ?n) ` {..<cb_nb_avail cb}"
  note f = cb_okD [OF ok]
  assume unused: "\<not> cb_cell_used cb i"
  have k: "cb_nb_avail cb \<le> ?n" using f(8) by (simp add: cb_nb_avail_def)
  have "inj_on (\<lambda>j. (?q + j) mod ?n) {..<cb_nb_avail cb}"
    using k by (auto intro!: inj_onI dest: ring_inj)
  then have "Suc (cb_nb_avail cb) = card (insert i ?win)"
    using unused by (subst card_insert_disjoint) (auto simp: card_image cb_cell_used_def)
  also have "\<dots> \<le> card {i. i < length ?L \<and> ?L ! i = 0}"
    using unused f(1,4,10) assms(3) by (intro card_mono) (auto simp: ring_all_def cb_cell_used_def)
  also have "\<dots> = length (filter (\<lambda>l. l = 0) ?L)" by (simp add: length_filter_conv_card)
  also have "\<dots> = cb_nb_avail cb"
    using f(4,7,9) assms(2) sum_length_filter_compl [of "\<lambda>l. l = 0" ?L] by (simp add: cb_nb_avail_def)
  finally show False by simp
qed

lemma IsEntryFree_eq:
  assumes "cb_inv cb" "i < cb_NbMax cb"
  shows "BofCircularBuffer_IsEntryFree cb i b =
    Ret (cb, \<not> cb_cell_used cb (unat i), if b then Some (cb_mpLock_U8 cb ! unat i \<noteq> 0) else None)"
proof -
  let ?n = "unat (cb_NbMax cb)" and ?q = "unat (cb_mPopIndex_U32 cb)" and ?p = "unat (cb_mPushIndex_U32 cb)"
  let ?k = "cb_nb_avail cb" and ?l = "cb_mpLock_U8 cb ! unat i"
  note ok = cb_invD [OF assms(1)] and f = cb_okD [OF cb_invD(1) [OF assms(1)]]
  have i: "unat i < ?n" "unat i < length (cb_mpLock_U8 cb)" using assms(2) f(4) by (simp_all add: word_less_nat_alt)
  have k: "?k \<le> ?n" using f(8) by (simp add: cb_nb_avail_def)
  have mem: "(\<exists>j<?k. (?q + j) mod ?n = unat i) \<longleftrightarrow> ring_dist ?n ?q (unat i) < ?k"
    by (rule ring_member [OF f(5) i(1) k])
  have p: "?p = (if ?q + ?k < ?n then ?q + ?k else ?q + ?k - ?n)" using f(6) mod_eq_cases [OF f(5) k] by simp
  have empty: "?k = 0" "?l = 0" if "cb_mNbElementInBuffer_U32 cb = 0"
    using that f(4,7,9) i(2) by (auto simp: cb_nb_avail_def filter_empty_conv)
  have lt: "cb_mNbElementInBuffer_U32 cb < cb_NbMax cb \<Longrightarrow> ?k < ?n"
    by (simp add: cb_nb_avail_def word_less_nat_alt)
  have full: "cb_cell_used cb (unat i)" if "\<not> cb_mNbElementInBuffer_U32 cb < cb_NbMax cb"
    using cb_full_all_used [OF ok(1) _ i(1)] that cb_ring_okD(8) [OF ok(1)] by simp
  have used: "cb_cell_used cb (unat i) \<longleftrightarrow> ?l \<noteq> 0 \<or> ring_dist ?n ?q (unat i) < ?k"
    unfolding cb_cell_used_def mem by simp
  show ?thesis
  proof (cases "cb_mNbElementInBuffer_U32 cb = 0 \<or> \<not> cb_mNbElementInBuffer_U32 cb < cb_NbMax cb")
    case True
    then show ?thesis using ok(2) assms(2) i(2) empty used full f(1)
      by (auto simp: BofCircularBuffer_IsEntryFree_def word_less_nat_alt)
  next
    case False
    then have "?k < ?n" using lt by simp
    then have "(if ?q \<le> ?p then unat i \<ge> ?p \<or> unat i < ?q else unat i \<ge> ?p \<and> unat i < ?q)
        \<longleftrightarrow> \<not> ring_dist ?n ?q (unat i) < ?k"
      using p i(1) f(5) by (auto simp: ring_dist_def split: if_splits)
    with False show ?thesis using ok(2) assms(2) i(2) used
      by (auto simp: BofCircularBuffer_IsEntryFree_def word_less_nat_alt word_le_nat_alt)
  qed
qed

section \<open>PushForNextPop\<close>

definition cb_front :: "'a BofCircularBuffer \<Rightarrow> 'a \<Rightarrow> 'a BofCircularBuffer" where
  "cb_front cb x =
     (let i = cb_dec (cb_NbMax cb) (cb_mPopIndex_U32 cb);
          nb = (if cb_mPopIndex_U32 cb \<noteq> cb_mPushIndex_U32 cb then cb_mNbElementInBuffer_U32 cb + 1
                else cb_mNbElementInBuffer_U32 cb)
      in cb\<lparr>cb_mNbElementInBuffer_U32 := nb, cb_mPopIndex_U32 := i, cb_mpLock_U8 := (cb_mpLock_U8 cb)[unat i := 0],
            cb_mpData_T := (cb_mpData_T cb)[unat i := x], cb_mLevelMax_U32 := if cb_mLevelMax_U32 cb < nb then nb else cb_mLevelMax_U32 cb\<rparr>)"

lemma unat_cb_dec:
  assumes "unat i < unat n"
  shows "unat (cb_dec n i) = (unat i + (unat n - 1)) mod unat n" "unat (cb_dec n i) < unat n"
proof -
  have "n \<noteq> 0" using assms by auto
  then have dec: "unat (cb_dec n i) = (if unat i = 0 then unat n - 1 else unat i - 1)"
    by (simp add: cb_dec_def unat_eq_zero)
  show "unat (cb_dec n i) = (unat i + (unat n - 1)) mod unat n"
    unfolding dec using assms mod_eq_cases [OF assms, of "unat n - 1"] by auto
  show "unat (cb_dec n i) < unat n" unfolding dec using assms by auto
qed

lemma max_word_if:
  "(if m < (b::u32) then cb\<lparr>cb_mLevelMax_U32 := b\<rparr> else cb) = cb\<lparr>cb_mLevelMax_U32 := if m < b then b else cb_mLevelMax_U32 cb\<rparr>"
  by simp

lemma PushForNextPop_store_eq:
  assumes ok: "cb_ring_ok cb" and mode: "\<not> cb_PopLockMode cb" and room: "cb_mNbElementInBuffer_U32 cb < cb_NbMax cb"
  shows "BofCircularBuffer_PushForNextPop_store cb x force = Ret (cb_front cb x, BOF_ERR_NO_ERROR)"
proof -
  note f = cb_okD [OF ok]
  note i = unat_cb_dec(2) [OF f(5)]
  have len: "unat (cb_dec (cb_NbMax cb) (cb_mPopIndex_U32 cb)) < length (cb_mpLock_U8 cb)"
    "unat (cb_dec (cb_NbMax cb) (cb_mPopIndex_U32 cb)) < length (cb_mpData_T cb)"
    "cb_dec (cb_NbMax cb) (cb_mPopIndex_U32 cb) < cb_NbMax cb"
    using i f(3,4) by (simp_all add: word_less_nat_alt)
  have l: "cb_mpLock_U8 cb ! unat (cb_mPushIndex_U32 cb) = 0"
    using cb_unlocked_cells [OF ok mode] cb_ring_okD(1) [OF ok(1)] f(4) by simp
  have le: "cb_mNbElementInBuffer_U32 cb + 1 \<le> cb_NbMax cb" "cb_mNbElementInBuffer_U32 cb \<le> cb_NbMax cb"
    "cb_mNbElementInBuffer_U32 cb + 1 \<le> cb_NbMax cb + 1" "cb_mNbElementInBuffer_U32 cb \<le> cb_NbMax cb + 1"
    using cb_count_Suc [OF ok(1)] room by (simp_all add: word_le_nat_alt word_less_nat_alt)
  have l0: "cb_mNbElementLockedInBuffer_U32 cb = 0" using f(11) mode by simp
  have ngt: "\<not> cb_NbMax cb < cb_mNbElementInBuffer_U32 cb + 1" "\<not> cb_NbMax cb < cb_mNbElementInBuffer_U32 cb"
    using le by (simp_all add: not_less)
  show ?thesis
    using mode room len l le l0 ngt cb_ring_okD(1) [OF ok(1)]
    by (cases "cb_mPopIndex_U32 cb = cb_mPushIndex_U32 cb")
      (simp_all add: BofCircularBuffer_PushForNextPop_store_def cb_front_def Let_def max_word_if)
qed

lemma cb_front_ok:
  assumes inv: "cb_inv cb" and mode: "\<not> cb_PopLockMode cb"
    and ne: "cb_contents cb \<noteq> []" and room: "cb_mNbElementInBuffer_U32 cb < cb_NbMax cb"
  shows "cb_inv (cb_front cb x)" "cb_contents (cb_front cb x) = x # cb_contents cb"
proof -
  let ?n = "unat (cb_NbMax cb)" and ?q = "unat (cb_mPopIndex_U32 cb)" and ?k = "cb_nb_avail cb"
  let ?i = "cb_dec (cb_NbMax cb) (cb_mPopIndex_U32 cb)"
  note ok = cb_invD [OF inv] and f = cb_okD [OF cb_invD(1) [OF inv]]
  note i = unat_cb_dec [OF f(5)]
  have k: "0 < ?k" "?k < ?n" "?k = unat (cb_mNbElementInBuffer_U32 cb)"
    using ne room cb_fifo_nb(1) [OF inv mode] cb_contents_nonempty [of cb]
    by (simp_all add: length_cb_contents word_less_nat_alt)
  have neq: "cb_mPopIndex_U32 cb \<noteq> cb_mPushIndex_U32 cb"
  proof
    assume "cb_mPopIndex_U32 cb = cb_mPushIndex_U32 cb"
    then have "(?q + ?k) mod ?n = (?q + 0) mod ?n" using f(5,6) by (metis add_0_right mod_less)
    then show False using ring_inj [of ?q ?k ?n 0] k by simp
  qed
  have nb: "unat (cb_mNbElementInBuffer_U32 cb + 1) = Suc ?k" using cb_count_Suc(1) [OF ok(1)] k(3) by simp
  have l0: "cb_mNbElementLockedInBuffer_U32 cb = 0" using f(11) mode by simp
  have k': "cb_nb_avail (cb_front cb x) = Suc ?k" using nb neq l0 by (simp add: cb_nb_avail_def cb_front_def Let_def)
  have step: "(unat ?i + 1) mod ?n = ?q" using i(1) f(1,5) by (simp add: mod_simps)
  have L: "cb_mpLock_U8 cb ! j = 0" if "j < ?n" for j using cb_unlocked_cells [OF ok(1) mode that] .
  have lock: "(cb_mpLock_U8 cb)[unat ?i := 0] = cb_mpLock_U8 cb" using L [OF i(2)] by (metis list_update_id)
  have win: "ring_all (\<lambda>l. l = 0) (cb_mpLock_U8 cb) ?n (unat ?i) (Suc ?k)" using L f(1) by (simp add: ring_all_def)
  have push: "unat (cb_mPushIndex_U32 cb) = (unat ?i + Suc ?k) mod ?n"
    using f(6) ring_step [of "unat ?i" ?n ?k] unfolding step by simp
  have "cb_ring_ok (cb_front cb x)"
    unfolding cb_ring_ok_def k'
    using f(1-4,9) i(2) push win nb k(2) l0 neq by (simp add: cb_front_def Let_def lock)
  moreover have "cb_sync_ready (cb_front cb x)" using ok(2) by (simp add: cb_sync_ready_def cb_front_def Let_def)
  ultimately show "cb_inv (cb_front cb x)" by (simp add: cb_inv_def)
  have out: "(?q + j) mod ?n \<noteq> unat ?i" if "j < ?k" for j
    using ring_inj [of ?q j ?n "?n - 1"] i(1) that k f(1) by auto
  have "ring_slice ((cb_mpData_T cb)[unat ?i := x]) ?n (unat ?i) (Suc ?k) =
      x # ring_slice ((cb_mpData_T cb)[unat ?i := x]) ?n ?q ?k"
    unfolding ring_slice_Cons [OF i(2)] step using i(2) f(3) by simp
  also have "\<dots> = x # ring_slice (cb_mpData_T cb) ?n ?q ?k" using ring_slice_update_outside [OF out] by simp
  finally show "cb_contents (cb_front cb x) = x # cb_contents cb"
    unfolding cb_contents_def k' by (simp add: cb_front_def Let_def)
qed

lemma cb_front_hold [simp]: "cb_front (cb_hold cb) x = cb_hold (cb_front cb x)"
  by (simp add: cb_front_def cb_hold_def Let_def)

lemma cb_front_param [simp]: "cb_mCircularBufferParam_X (cb_front cb x) = cb_mCircularBufferParam_X cb"
  by (simp add: cb_front_def Let_def)

lemma cb_front_sync [simp]: "cb_sync_ready (cb_front cb x) = cb_sync_ready cb"
  by (simp add: cb_sync_ready_def cb_front_def Let_def)

lemma PushForNextPop_store_hold:
  assumes "cb_inv cb" "\<not> cb_PopLockMode cb" "cb_mNbElementInBuffer_U32 cb < cb_NbMax cb"
  shows "BofCircularBuffer_PushForNextPop_store (cb_hold cb) x force = Ret (cb_hold (cb_front cb x), BOF_ERR_NO_ERROR)"
  using PushForNextPop_store_eq [of "cb_hold cb" x force] assms cb_invD(1) [OF assms(1)] by simp

lemma PushForNextPop_now:
  assumes "cb_inv cb" "\<not> cb_PopLockMode cb" "cb_mNbElementInBuffer_U32 cb < cb_NbMax cb"
    "\<not> cb_Blocking cb \<or> cb_ring_ok (cb_front cb x)"
  shows "BofCircularBuffer_PushForNextPop [(id, id)] cb (Some x) force 0 =
    Ret (cb_signal (cb_front cb x), BOF_ERR_NO_ERROR)"
  using assms(4) cb_invD [OF assms(1)] PushForNextPop_store_hold [OF assms(1-3)]
  by (auto simp: SignalReadWrite_hold cb_signal_idle)

text \<open>On an empty buffer the two indices are equal, and the element is not counted.\<close>

lemma cb_front_empty:
  assumes "cb_inv cb" "\<not> cb_PopLockMode cb" "cb_contents cb = []"
  shows "cb_mNbElementInBuffer_U32 (cb_front cb x) = 0" "cb_contents (cb_front cb x) = []"
    "cb_mNbElementInBuffer_U32 cb < cb_NbMax cb"
proof -
  note f = cb_okD [OF cb_invD(1) [OF assms(1)]]
  have nb: "unat (cb_mNbElementInBuffer_U32 cb) = 0" using cb_fifo_nb(1) [OF assms(1,2)] assms(3) by simp
  have "cb_nb_avail cb = 0" using nb by (simp add: cb_nb_avail_def)
  then have "cb_mPushIndex_U32 cb = cb_mPopIndex_U32 cb" using f(5,6) by (simp add: word_unat_eq_iff)
  then show "cb_mNbElementInBuffer_U32 (cb_front cb x) = 0" using nb by (simp add: cb_front_def Let_def unat_eq_zero)
  then show "cb_contents (cb_front cb x) = []" by (simp add: cb_contents_def cb_nb_avail_def)
  show "cb_mNbElementInBuffer_U32 cb < cb_NbMax cb" using nb f(1) by (simp add: word_less_nat_alt)
qed

section \<open>Concrete buffers\<close>

text \<open>
  Buffers of three cells over the data 7, 8, 9 with given modes, counters,
  push index, lock bytes and write signal, for the concrete instances below.
\<close>

definition mutex_example :: BOF_MUTEX where
  "mutex_example = BOF_MUTEX_ctor\<lparr>mtx_Magic_U32 := BOF_MUTEX_MAGIC\<rparr>"

definition event_example :: "u64 \<Rightarrow> BOF_EVENT" where
  "event_example bits = BOF_EVENT_ctor\<lparr>evt_Magic_U32 := BOF_EVENT_MAGIC, evt_Mtx_X := mutex_example,
     evt_MaxNumberToNotify_U32 := 1, evt_SignaledBitmask_U64 := bits\<rparr>"

definition cb_example ::
  "bool \<Rightarrow> bool \<Rightarrow> bool \<Rightarrow> u32 \<Rightarrow> u32 \<Rightarrow> u32 \<Rightarrow> u32 \<Rightarrow> u8 list \<Rightarrow> u64 \<Rightarrow> nat BofCircularBuffer" where
  "cb_example Overwrite Blocking PopLock nb nl q p locks write = (BofCircularBuffer_fresh
     \<lparr>cbp_MultiThreadAware_B = True, cbp_PriorityInversionAware_B = False, cbp_NbMaxElement_U32 = 3,
      cbp_pData = Some [7, 8, 9], cbp_Overwrite_B = Overwrite, cbp_Blocking_B = Blocking, cbp_PopLockMode_B = PopLock\<rparr>)
     \<lparr>cb_mpData_T := [7, 8, 9], cb_mPushIndex_U32 := p, cb_mPopIndex_U32 := q, cb_mNbElementInBuffer_U32 := nb,
      cb_mNbElementLockedInBuffer_U32 := nl, cb_mCircularBufferMtx_X := mutex_example,
      cb_mCanReadEvent_X := event_example 0, cb_mCanWriteEvent_X := event_example write, cb_mpLock_U8 := locks\<rparr>"

lemma mutex_event_example [simp]:
  "mutex_ready mutex_example" "event_ready (event_example m)"
  "event_signaled (event_example 1)" "\<not> event_signaled (event_example 0)"
  by (simp_all add: mutex_ready_def mutex_example_def event_ready_def event_example_def event_signaled_def
      BOF_MUTEX_ctor_def BOF_MUTEX_Reset_def BOF_EVENT_ctor_def BOF_EVENT_Reset_def event_bit_def)

lemma cb_example_simps [simp]:
  "cb_mCircularBufferParam_X (cb_example ov bl pl nb nl q p locks w) =
     \<lparr>cbp_MultiThreadAware_B = True, cbp_PriorityInversionAware_B = False, cbp_NbMaxElement_U32 = 3,
      cbp_pData = Some [7, 8, 9], cbp_Overwrite_B = ov, cbp_Blocking_B = bl, cbp_PopLockMode_B = pl\<rparr>"
  "cb_mNbElementInBuffer_U32 (cb_example ov bl pl nb nl q p locks w) = nb"
  "cb_mNbElementLockedInBuffer_U32 (cb_example ov bl pl nb nl q p locks w) = nl"
  "cb_mPopIndex_U32 (cb_example ov bl pl nb nl q p locks w) = q"
  "cb_mPushIndex_U32 (cb_example ov bl pl nb nl q p locks w) = p"
  "cb_mpLock_U8 (cb_example ov bl pl nb nl q p locks w) = locks"
  "cb_mpData_T (cb_example ov bl pl nb nl q p locks w) = [7, 8, 9]"
  "cb_mCanWriteEvent_X (cb_example ov bl pl nb nl q p locks w) = event_example w"
  "cb_nb_avail (cb_example ov bl pl nb nl q p locks w) = unat nb - unat nl"
  "cb_contents (cb_example ov bl pl nb nl q p locks w) = ring_slice [7, 8, 9] 3 (unat q) (unat nb - unat nl)"
  "cb_cap (cb_example ov bl pl nb nl q p locks w) = 3"
  by (simp_all add: cb_example_def BofCircularBuffer_fresh_def cb_nb_avail_def cb_contents_def cb_cap_def
      BofCircularBuffer_GetCapacity_def)

lemma cb_example_sync: "cb_sync_ready (cb_example ov bl pl nb nl q p locks w)"
  by (simp add: cb_sync_ready_def) (simp add: cb_example_def BofCircularBuffer_fresh_def)

lemma cb_example_inv:
  "cb_inv (cb_example ov bl pl 2 0 0 2 [0, 0, 0] w)" "cb_inv (cb_example ov bl pl 0 0 0 0 [0, 0, 0] w)"
  "cb_inv (cb_example ov bl pl 3 0 0 0 [0, 0, 0] w)" "cb_inv (cb_example ov bl True 1 1 1 1 [1, 0, 0] w)"
  by (simp_all add: cb_inv_def cb_ring_ok_def cb_example_sync ring_all_upt upt_rec)

lemma cb_example_locked_inv: "cb_inv (cb_example ov bl True 3 3 0 0 [1, 1, 1] w)"
  by (simp add: cb_inv_def cb_ring_ok_def cb_example_sync ring_all_upt upt_rec)

section \<open>Properties\<close>

text \<open>
  C1. Refinement. Any sequence of pushes and pops with a null timeout, on a
  circular buffer that neither overwrites nor locks popped cells, returns, keeps
  the invariant and shows its client exactly what a bounded first-in first-out
  queue of the same capacity shows: the same error codes and the same elements.
  What went in is what came out followed by what is still in the buffer.
\<close>

theorem BofCircularBuffer_refines_queue:
  assumes "cb_inv cb" "\<not> cb_Overwrite cb" "\<not> cb_PopLockMode cb"
  shows "\<exists>cb' os. fifo_run cb_fifo_push cb_fifo_pop ops cb = Ret (cb', os) \<and> cb_inv cb' \<and>
    queue_run (unat (BofCircularBuffer_GetCapacity cb)) BOF_ERR_FULL BOF_ERR_EMPTY ops (cb_contents cb)
      = (cb_contents cb', os) \<and>
    cb_contents cb @ fifo_accepted ops os = fifo_popped os @ cb_contents cb'"
  using cbq.run_refines [of cb ops] cbq.run_fifo [of cb ops] assms
  by (fastforce simp: cb_fifo_inv_def cb_cap_def list_all_iff)

theorem BofCircularBuffer_refines_queue_witness:
  "\<exists>cb' os. fifo_run cb_fifo_push cb_fifo_pop [FifoPop, FifoPush 5, FifoPush 6, FifoPush 4]
      (cb_example False True False 2 0 0 2 [0, 0, 0] 1) = Ret (cb', os) \<and>
    cb_contents cb' = [8, 5, 6] \<and>
    os = [(BOF_ERR_NO_ERROR, Some 7), (BOF_ERR_NO_ERROR, None), (BOF_ERR_NO_ERROR, None), (BOF_ERR_FULL, None)]"
  using BofCircularBuffer_refines_queue [of "cb_example False True False 2 0 0 2 [0, 0, 0] 1"
      "[FifoPop, FifoPush 5, FifoPush 6, FifoPush 4]"] cb_example_inv(1)
  by (auto simp: BofCircularBuffer_GetCapacity_def ring_slice_def upt_rec)

text \<open>
  C2. Invariant under interference. Whatever the other threads do between the
  steps of a call, as long as they keep the invariant, \<^verbatim>\<open>Push\<close> and \<^verbatim>\<open>Pop\<close> never fail
  an assertion, never access a cell outside the arrays and never block on the
  mutex: they return a buffer that satisfies the invariant, with unchanged
  parameters, or are still in their retry loop. This holds in every mode.
\<close>

theorem BofCircularBuffer_Push_Pop_safe:
  assumes "cb_inv cb" "cb_rely_sched sched"
  shows "(BofCircularBuffer_Push sched cb pData t = Retrying \<or>
      (\<exists>cb' e i. BofCircularBuffer_Push sched cb pData t = Ret (cb', e, i) \<and> cb_inv cb' \<and>
         cb_mCircularBufferParam_X cb' = cb_mCircularBufferParam_X cb)) \<and>
    (BofCircularBuffer_Pop sched cb t = Retrying \<or>
      (\<exists>cb' e r. BofCircularBuffer_Pop sched cb t = Ret (cb', e, r) \<and> cb_inv cb' \<and>
         cb_mCircularBufferParam_X cb' = cb_mCircularBufferParam_X cb))"
  using Push_safe [OF assms, of pData t] Pop_safe [OF assms, of t] by (auto simp: cb_safe_def)

theorem BofCircularBuffer_Push_Pop_safe_witness:
  "\<exists>cb' e i. BofCircularBuffer_Push [(id, \<lambda>cb. cb), (id, id)] (cb_example False True True 1 1 1 1 [1, 0, 0] 1) (Some 4) 5
      = Ret (cb', e, i) \<and> cb_inv cb'"
  using BofCircularBuffer_Push_Pop_safe [OF cb_example_inv(4), of "[(id, \<lambda>cb. cb), (id, id)]" False True 1 "Some 4" 5]
    Push_two_turns [OF cb_example_inv(4), of "[]" False True 1 4 5]
  by (auto simp: cb_rely_sched_def id_def)

text \<open>
  C3. The operations that do not wait keep the invariant and change the
  elements as they say: \<^verbatim>\<open>Skip\<close> drops the oldest one, \<^verbatim>\<open>PopLastPush\<close> takes the newest
  one back, \<^verbatim>\<open>UnlockPop\<close> frees a locked cell and touches no element, \<^verbatim>\<open>Reset\<close> empties
  the buffer, in every mode.
\<close>

theorem BofCircularBuffer_other_operations:
  assumes "cb_inv cb"
  shows "\<exists>cb1 cb2 cb3 cb4 e1 e2 e3 r1 r2.
    BofCircularBuffer_Skip cb sig = Ret (cb1, e1, r1) \<and> cb_inv cb1 \<and> cb_contents cb1 = tl (cb_contents cb) \<and>
      map_option snd r1 = (if cb_contents cb = [] then None else Some (hd (cb_contents cb))) \<and>
    BofCircularBuffer_PopLastPush cb = Ret (cb2, e2, r2) \<and> cb_inv cb2 \<and> cb_contents cb2 = butlast (cb_contents cb) \<and>
      map_option snd r2 = (if cb_contents cb = [] then None else Some (last (cb_contents cb))) \<and>
    BofCircularBuffer_UnlockPop cb i = Ret (cb3, e3) \<and> cb_inv cb3 \<and> cb_contents cb3 = cb_contents cb \<and>
    BofCircularBuffer_Reset cb = Ret cb4 \<and> cb_inv cb4 \<and> cb_contents cb4 = []"
proof -
  note ok = cb_invD [OF assms]
  have un: "cb_ring_ok (cb_unlock_cell cb i) \<and> cb_contents (cb_unlock_cell cb i) = cb_contents cb"
    if "\<not> cb_NbMax cb \<le> i" "cb_mpLock_U8 cb ! unat i \<noteq> 0"
    using cb_unlock_cell_ok(1,2) [OF ok(1), of i] that by (simp add: word_le_nat_alt)
  show ?thesis
    unfolding Skip_eq [OF assms] PopLastPush_eq [OF assms] UnlockPop_eq [OF assms] Reset_eq [OF assms]
    using cb_take_ok [OF ok(1)] cb_untake_ok(1,2) [OF ok(1)] un cb_reset_ok [OF assms] ok
      cb_hd_contents [OF assms] cb_contents_nonempty [of cb]
    by (cases "0 < cb_nb_avail cb") (auto simp: cb_inv_def)
qed

theorem BofCircularBuffer_other_operations_witness:
  "\<exists>cb2 e2 r2. BofCircularBuffer_PopLastPush (cb_example False True False 2 0 0 2 [0, 0, 0] 1) = Ret (cb2, e2, r2) \<and>
     cb_inv cb2 \<and> cb_contents cb2 = [7] \<and> map_option snd r2 = Some 8"
  using BofCircularBuffer_other_operations [OF cb_example_inv(1) [of False True False 1], of True 0]
  by (auto simp: ring_slice_def upt_rec)

text \<open>
  Construction. With a capacity other than 0 and \<open>2 ^ 32 - 1\<close> and a memory zone
  of at least that many elements, the constructor succeeds: the buffer
  satisfies the invariant, is empty, and in blocking mode can be written and
  not read.
\<close>

theorem BofCircularBuffer_ctor_correct:
  assumes "cbp_NbMaxElement_U32 p \<noteq> 0" "cbp_NbMaxElement_U32 p \<noteq> - 1"
    "unat (cbp_NbMaxElement_U32 p) \<le>
       length (case cbp_pData p of Some d \<Rightarrow> d | None \<Rightarrow> new_T (cbp_NbMaxElement_U32 p))"
  shows "\<exists>cb. BofCircularBuffer_ctor new_T this_S p = Ret cb \<and> cb_inv cb \<and> cb_contents cb = [] \<and>
    cb_mCircularBufferParam_X cb = p \<and> BofCircularBuffer_LastErrorCode cb = BOF_ERR_NO_ERROR \<and>
    (cbp_Blocking_B p \<longrightarrow> event_signaled (cb_mCanWriteEvent_X cb) \<and> \<not> event_signaled (cb_mCanReadEvent_X cb))"
  using ctor_ok [of new_T p this_S] assms by (auto simp: cb_param_ok_def)

theorem BofCircularBuffer_ctor_correct_witness:
  "\<exists>cb. BofCircularBuffer_ctor (\<lambda>n. replicate (unat n) (0::nat)) ''1''
      \<lparr>cbp_MultiThreadAware_B = True, cbp_PriorityInversionAware_B = True, cbp_NbMaxElement_U32 = 4, cbp_pData = None,
       cbp_Overwrite_B = False, cbp_Blocking_B = True, cbp_PopLockMode_B = True\<rparr> = Ret cb \<and> cb_inv cb"
  using BofCircularBuffer_ctor_correct [of "\<lparr>cbp_MultiThreadAware_B = True, cbp_PriorityInversionAware_B = True,
       cbp_NbMaxElement_U32 = 4, cbp_pData = None, cbp_Overwrite_B = False, cbp_Blocking_B = True,
       cbp_PopLockMode_B = True\<rparr>" "\<lambda>n. replicate (unat n) (0::nat)" "''1''"]
  by auto

text \<open>
  C5. Overwriting, for pushes with a null timeout. A push on a sound buffer in
  overwrite mode is refused only when the cell it would write is still locked by
  a pop: it then reports \<^verbatim>\<open>BOF_ERR_LOCK\<close> and changes nothing but the overflow flag.
  Otherwise it succeeds, and a full buffer gives up its oldest element for it. Without
  the pop-lock mode no cell is ever locked: every push of a sequence
  succeeds, and the buffer then holds the last elements of all it was given, as
  many as its capacity allows.
\<close>

theorem BofCircularBuffer_overwrite_keeps_last:
  assumes "cb_inv cb" "cb_Overwrite cb"
  shows "(\<exists>cb' e i. BofCircularBuffer_Push [(id, id)] cb (Some x) 0 = Ret (cb', e, i) \<and> cb_inv cb' \<and>
      (if cb_mpLock_U8 cb ! unat (cb_mPushIndex_U32 cb) \<noteq> 0
       then e = BOF_ERR_LOCK \<and> i = None \<and> cb' = cb\<lparr>cb_mOverflow_B := True\<rparr>
       else e = BOF_ERR_NO_ERROR \<and> i = Some (cb_mPushIndex_U32 cb) \<and> cb_contents cb' =
         (if BofCircularBuffer_GetNbElement cb < BofCircularBuffer_GetCapacity cb then cb_contents cb else tl (cb_contents cb)) @ [x])) \<and>
    (\<not> cb_PopLockMode cb \<longrightarrow>
      (\<exists>cb' os. fifo_run cb_fifo_push cb_fifo_pop (map FifoPush xs) cb = Ret (cb', os) \<and> cb_inv cb' \<and>
        set os \<subseteq> {(BOF_ERR_NO_ERROR, None)} \<and>
        cb_contents cb' =
          drop (length (cb_contents cb @ xs) - unat (BofCircularBuffer_GetCapacity cb)) (cb_contents cb @ xs)))"
  using cb_push_over_one [OF assms, of x] cb_push_over_run [OF assms, of xs] by (auto simp: cb_cap_def)

theorem BofCircularBuffer_overwrite_keeps_last_witness:
  "(\<exists>cb' os. fifo_run cb_fifo_push cb_fifo_pop (map FifoPush [4, 5]) (cb_example True False False 2 0 0 2 [0, 0, 0] 0)
      = Ret (cb', os) \<and> cb_contents cb' = [8, 4, 5]) \<and>
    BofCircularBuffer_Push [(id, id)] (cb_example True False True 3 3 0 0 [1, 1, 1] 0) (Some 4) 0 =
      Ret ((cb_example True False True 3 3 0 0 [1, 1, 1] 0)\<lparr>cb_mOverflow_B := True\<rparr>, BOF_ERR_LOCK, None)"
  using BofCircularBuffer_overwrite_keeps_last [OF cb_example_inv(1) [of True False False 0], of 4 "[4, 5]"]
    BofCircularBuffer_overwrite_keeps_last [OF cb_example_locked_inv [of True False 0], of 4 "[]"]
  by (auto simp: BofCircularBuffer_GetCapacity_def ring_slice_def upt_rec)

text \<open>
  Pop-lock mode. A pop hands out the oldest element and locks its cell
  without giving its place back; \<^verbatim>\<open>UnlockPop\<close> of that cell gives the place back,
  leaves the other elements alone, and fails when it is called twice.
\<close>

theorem BofCircularBuffer_pop_unlock:
  assumes "cb_inv cb" "cb_PopLockMode cb" "cb_contents cb = x # xs"
  shows "\<exists>cb1 cb2 i. BofCircularBuffer_Pop [(id, id)] cb 0 = Ret (cb1, BOF_ERR_NO_ERROR, Some (i, x)) \<and>
    cb_contents cb1 = xs \<and> BofCircularBuffer_GetNbElement cb1 = BofCircularBuffer_GetNbElement cb \<and>
    BofCircularBuffer_IsLocked cb1 i = Ret (cb1, True) \<and>
    BofCircularBuffer_UnlockPop cb1 i = Ret (cb2, BOF_ERR_NO_ERROR) \<and> cb_inv cb2 \<and> cb_contents cb2 = xs \<and>
    unat (BofCircularBuffer_GetNbElement cb2) + 1 = unat (BofCircularBuffer_GetNbElement cb) \<and>
    BofCircularBuffer_UnlockPop cb2 i = Ret (cb2, BOF_ERR_UNLOCK)"
proof -
  let ?i = "cb_mPopIndex_U32 cb" and ?cb1 = "cb_signal (cb_take_lock cb)"
  let ?cb2 = "cb_signal (cb_unlock_cell ?cb1 ?i)"
  note ok = cb_invD [OF assms(1)] and f = cb_okD [OF cb_invD(1) [OF assms(1)]]
  have av: "0 < cb_nb_avail cb" using assms(3) cb_contents_nonempty [of cb] by simp
  note take = cb_take_lock_ok [OF ok(1) av assms(2)]
  have inv1: "cb_inv ?cb1" using take(1) ok(2) by (simp add: cb_inv_def)
  have cell: "cb_mpLock_U8 ?cb1 ! unat ?i \<noteq> 0" "unat ?i < unat (cb_NbMax ?cb1)" "unat ?i < length (cb_mpLock_U8 ?cb1)"
    using f(4,5) by (simp_all add: cb_signal_def cb_take_lock_def)
  note un = cb_unlock_cell_ok [OF cb_invD(1) [OF inv1] cell(2,1)]
  have inv2: "cb_inv ?cb2" using un(1) cb_invD(2) [OF inv1] by (simp add: cb_inv_def)
  have i: "?i < cb_NbMax cb" using f(5) by (simp add: word_less_nat_alt)
  have "BofCircularBuffer_Pop [(id, id)] cb 0 = Ret (?cb1, BOF_ERR_NO_ERROR, Some (?i, x))"
    using cb_pop_now [OF assms(1)] av assms cb_hd_contents [OF assms(1) av]
    by (simp add: cb_pop_result_def cb_pop_effect_def)
  moreover have "BofCircularBuffer_IsLocked ?cb1 ?i = Ret (?cb1, True)"
    using i cell cb_invD(2) [OF inv1] by (simp add: BofCircularBuffer_IsLocked_def)
  moreover have "BofCircularBuffer_UnlockPop ?cb1 ?i = Ret (?cb2, BOF_ERR_NO_ERROR)"
    using UnlockPop_eq [OF inv1] cell i assms(2) by (simp add: not_le)
  moreover have "cb_mpLock_U8 ?cb2 ! unat ?i = 0"
    using cell(3) by (simp add: cb_signal_def cb_unlock_cell_def)
  then have "BofCircularBuffer_UnlockPop ?cb2 ?i = Ret (?cb2, BOF_ERR_UNLOCK)"
    using UnlockPop_eq [OF inv2, of ?i] i assms(2) by (simp add: not_le)
  moreover have "BofCircularBuffer_GetNbElement ?cb1 = BofCircularBuffer_GetNbElement cb"
    by (simp add: BofCircularBuffer_GetNbElement_def cb_signal_def cb_take_lock_def)
  moreover have "unat (BofCircularBuffer_GetNbElement ?cb2) + 1 = unat (BofCircularBuffer_GetNbElement cb)"
    using cb_avail_nb(1) [OF ok(1) av] unat_gt_0 [of "cb_mNbElementInBuffer_U32 cb"]
    by (simp add: BofCircularBuffer_GetNbElement_def cb_signal_def cb_unlock_cell_def cb_take_lock_def)
  ultimately show ?thesis using take(2) un(2) inv2 assms(3) by auto
qed

theorem BofCircularBuffer_pop_unlock_witness:
  "\<exists>cb1 cb2 i. BofCircularBuffer_Pop [(id, id)] (cb_example False True True 2 0 0 2 [0, 0, 0] 1) 0
      = Ret (cb1, BOF_ERR_NO_ERROR, Some (i, 7)) \<and> BofCircularBuffer_UnlockPop cb1 i = Ret (cb2, BOF_ERR_NO_ERROR)"
  using BofCircularBuffer_pop_unlock [OF cb_example_inv(1) [of False True True 1], of 7 "[8]"]
  by (auto simp: ring_slice_def upt_rec)

text \<open>
  C7. Termination of the retry loops. Without interference a push returns after
  at most two turns, in every mode; a pop does too when popped cells are not
  locked.
\<close>

theorem BofCircularBuffer_retry_terminates:
  assumes "cb_inv cb"
  shows "(\<exists>cb' e i. BofCircularBuffer_Push ((id, id) # (id, id) # sched) cb (Some x) t = Ret (cb', e, i)) \<and>
    (cb_PopLockMode cb \<or> (\<exists>cb' e r. BofCircularBuffer_Pop ((id, id) # (id, id) # sched) cb t = Ret (cb', e, r)))"
  using Push_two_turns [OF assms] Pop_two_turns [OF assms] by blast

theorem BofCircularBuffer_retry_terminates_witness:
  "\<exists>cb' e r. BofCircularBuffer_Pop [(id, id), (id, id)] (cb_example False True False 0 0 0 0 [0, 0, 0] 1) 9 = Ret (cb', e, r)"
  using BofCircularBuffer_retry_terminates [OF cb_example_inv(2) [of False True False 1], of "[]" _ 9] by simp

text \<open>
  C8. A pop that never returns. In blocking pop-lock mode with all the elements
  of the buffer locked, the element counter is not 0, so \<^verbatim>\<open>Pop\<close> does not wait on the
  event, finds nothing to pop and starts again: it is still retrying after any
  number of turns, whatever its timeout is.
\<close>

theorem BofCircularBuffer_Pop_all_locked_never_returns:
  assumes "cb_inv cb" "cb_Blocking cb" "t \<noteq> 0" "BofCircularBuffer_GetNbElement cb \<noteq> 0"
    "BofCircularBuffer_GetNbElementLocked cb = BofCircularBuffer_GetNbElement cb"
  shows "BofCircularBuffer_Pop (replicate turns (id, id)) cb t = Retrying"
  using Pop_all_locked_spins [OF assms(1-3)] assms(4,5)
  by (simp add: BofCircularBuffer_GetNbElement_def BofCircularBuffer_GetNbElementLocked_def cb_nb_avail_def)

theorem BofCircularBuffer_Pop_all_locked_never_returns_witness:
  "BofCircularBuffer_Pop (replicate 1000 (id, id)) (cb_example False True True 1 1 1 1 [1, 0, 0] 1) 5 = Retrying"
  using BofCircularBuffer_Pop_all_locked_never_returns [OF cb_example_inv(4) [of False True 1], of 5 1000]
  by (simp add: BofCircularBuffer_GetNbElement_def BofCircularBuffer_GetNbElementLocked_def)

text \<open>
  No missed room. If the write event is signalled whenever there is room,
  then a blocking push into a buffer with room succeeds in its first turn and
  appends the element (dropping the oldest one when it overwrites a full
  buffer), and pushes and pops keep the event in step with the room.
\<close>

theorem BofCircularBuffer_write_event_in_step:
  assumes "cb_inv cb" "cb_write_ready cb"
  shows "(cb_can_write cb \<longrightarrow> (\<exists>cb' i. BofCircularBuffer_Push ((id, id) # sched) cb (Some x) t = Ret (cb', BOF_ERR_NO_ERROR, i) \<and>
      cb_contents cb' =
        (if BofCircularBuffer_IsFull cb then tl (cb_contents cb) else cb_contents cb) @ [x])) \<and>
    (\<exists>cb' e i. BofCircularBuffer_Push [(id, id)] cb (Some x) 0 = Ret (cb', e, i) \<and> cb_write_ready cb') \<and>
    (\<exists>cb' e r. BofCircularBuffer_Pop [(id, id)] cb 0 = Ret (cb', e, r) \<and> cb_write_ready cb')"
proof -
  have full: "BofCircularBuffer_IsFull cb \<longleftrightarrow> \<not> cb_mNbElementInBuffer_U32 cb < cb_NbMax cb"
    using cb_ring_okD(8) [OF cb_invD(1) [OF assms(1)]] by (auto simp: BofCircularBuffer_IsFull_def)
  have "\<exists>cb' e i. BofCircularBuffer_Push [(id, id)] cb (Some x) 0 = Ret (cb', e, i) \<and> cb_write_ready cb'"
    using cb_push_now [OF assms(1)] cb_push_result_write_ready [of cb x] by (cases "cb_push_result cb x") auto
  moreover have "\<exists>cb' e r. BofCircularBuffer_Pop [(id, id)] cb 0 = Ret (cb', e, r) \<and> cb_write_ready cb'"
    using cb_pop_now [OF assms(1)] cb_pop_result_write_ready [OF assms(2)] by (cases "cb_pop_result cb") auto
  ultimately show ?thesis
    using Push_room_first_turn [OF assms, of sched x t] full by auto
qed

theorem BofCircularBuffer_write_event_in_step_witness:
  "\<exists>cb' i. BofCircularBuffer_Push [(id, id)] (cb_example False True False 2 0 0 2 [0, 0, 0] 1) (Some 4) 100
     = Ret (cb', BOF_ERR_NO_ERROR, i) \<and> cb_contents cb' = [7, 8, 4]"
  using BofCircularBuffer_write_event_in_step [OF cb_example_inv(1) [of False True False 1], of "[]" 4 100]
  by (auto simp: cb_write_ready_def cb_can_write_def BofCircularBuffer_IsFull_def ring_slice_def upt_rec)

text \<open>
  \<^verbatim>\<open>Reset\<close> and the write event. \<^verbatim>\<open>Reset\<close> empties the buffer and leaves the
  events as they are: after the reset of a buffer whose write signal is
  consumed, a blocking push into the empty buffer times out.
\<close>

theorem BofCircularBuffer_Reset_loses_room:
  assumes "cb_inv cb" "cb_Blocking cb" "\<not> event_signaled (cb_mCanWriteEvent_X cb)" "t \<noteq> 0"
  shows "\<exists>cb'. BofCircularBuffer_Reset cb = Ret cb' \<and> BofCircularBuffer_IsEmpty cb' \<and>
    BofCircularBuffer_Push ((id, id) # sched) cb' (Some x) t = Ret (cb', BOF_ERR_ETIMEDOUT, None)"
  using Reset_keeps_events [OF assms, of sched x] Reset_eq [OF assms(1)]
  by (auto simp: BofCircularBuffer_IsEmpty_def cb_reset_def)

theorem BofCircularBuffer_Reset_loses_room_witness:
  "\<exists>cb'. BofCircularBuffer_Reset (cb_example False True False 3 0 0 0 [0, 0, 0] 0) = Ret cb' \<and>
    BofCircularBuffer_IsEmpty cb' \<and> BofCircularBuffer_Push [(id, id)] cb' (Some 4) 100 = Ret (cb', BOF_ERR_ETIMEDOUT, None)"
  using BofCircularBuffer_Reset_loses_room [OF cb_example_inv(3) [of False True False 0], of 100 "[]" 4] by simp

text \<open>
  \<^verbatim>\<open>PushForNextPop\<close> puts the element in front of the others when the buffer is
  neither empty nor full, so that the next pop returns it. On an empty buffer it
  reports success and the element is lost: the next pop finds the buffer empty.
\<close>

theorem BofCircularBuffer_PushForNextPop_front:
  assumes "cb_inv cb" "\<not> cb_PopLockMode cb" "\<not> cb_Blocking cb" "\<not> BofCircularBuffer_IsFull cb"
  shows "\<exists>cb'. BofCircularBuffer_PushForNextPop [(id, id)] cb (Some x) force 0 = Ret (cb', BOF_ERR_NO_ERROR) \<and>
    (if BofCircularBuffer_IsEmpty cb then BofCircularBuffer_IsEmpty cb' \<and> cb_contents cb' = []
     else cb_inv cb' \<and> cb_contents cb' = x # cb_contents cb)"
proof -
  have room: "cb_mNbElementInBuffer_U32 cb < cb_NbMax cb"
    using cb_ring_okD(8) [OF cb_invD(1) [OF assms(1)]] assms(4)
    by (auto simp: BofCircularBuffer_IsFull_def order.not_eq_order_implies_strict)
  have emp: "BofCircularBuffer_IsEmpty cb \<longleftrightarrow> cb_contents cb = []"
    using cb_fifo_nb(1) [OF assms(1,2)] by (auto simp: BofCircularBuffer_IsEmpty_def unat_eq_zero)
  have "BofCircularBuffer_PushForNextPop [(id, id)] cb (Some x) force 0 = Ret (cb_front cb x, BOF_ERR_NO_ERROR)"
    using PushForNextPop_now [OF assms(1,2) room, of x force] assms(3) by (simp add: cb_signal_idle)
  then show ?thesis
    using cb_front_ok [OF assms(1,2) _ room, of x] cb_front_empty(1,2) [OF assms(1,2), of x] emp
    by (auto simp: BofCircularBuffer_IsEmpty_def)
qed

theorem BofCircularBuffer_PushForNextPop_front_witness:
  "(\<exists>cb'. BofCircularBuffer_PushForNextPop [(id, id)] (cb_example False False False 2 0 0 2 [0, 0, 0] 0) (Some 4) False 0
      = Ret (cb', BOF_ERR_NO_ERROR) \<and> cb_contents cb' = [4, 7, 8]) \<and>
   (\<exists>cb'. BofCircularBuffer_PushForNextPop [(id, id)] (cb_example False False False 0 0 0 0 [0, 0, 0] 0) (Some 4) False 0
      = Ret (cb', BOF_ERR_NO_ERROR) \<and> cb_contents cb' = [])"
  using BofCircularBuffer_PushForNextPop_front [OF cb_example_inv(1) [of False False False 0], of 4 False]
    BofCircularBuffer_PushForNextPop_front [OF cb_example_inv(2) [of False False False 0], of 4 False]
  by (auto simp: BofCircularBuffer_IsFull_def BofCircularBuffer_IsEmpty_def ring_slice_def upt_rec)

text \<open>
  \<^verbatim>\<open>PeekFromPop\<close>, when popped cells are not locked and the indices cannot wrap
  around \<open>2 ^ 32\<close>: the element at a relative index is returned only when its cell is
  below the push index; an element of the buffer whose cell is not is reported
  as not available. In particular no element of a buffer whose push index is 0
  can be peeked.
\<close>

theorem BofCircularBuffer_PeekFromPop_correct:
  assumes "cb_inv cb" "\<not> cb_PopLockMode cb" "unat (BofCircularBuffer_GetCapacity cb) \<le> 2 ^ 31"
  shows "BofCircularBuffer_PeekFromPop cb i =
    Ret (cb, if unat i < length (cb_contents cb)
             then if (unat (BofCircularBuffer_GetPopIndex cb) + unat i) mod unat (BofCircularBuffer_GetCapacity cb)
                       < unat (BofCircularBuffer_GetPushIndex cb)
                  then (BOF_ERR_NO_ERROR, Some (cb_contents cb ! unat i, False))
                  else (BOF_ERR_NOT_AVAILABLE, None)
             else (BOF_ERR_EMPTY, None))"
  using PeekFromPop_eq [of cb i] assms
  by (simp add: BofCircularBuffer_GetCapacity_def BofCircularBuffer_GetPopIndex_def BofCircularBuffer_GetPushIndex_def cb_cap_def)

theorem BofCircularBuffer_PeekFromPop_correct_witness:
  "BofCircularBuffer_PeekFromPop (cb_example False False False 2 0 0 2 [0, 0, 0] 0) 1
     = Ret (cb_example False False False 2 0 0 2 [0, 0, 0] 0, BOF_ERR_NO_ERROR, Some (8, False)) \<and>
   BofCircularBuffer_PeekFromPop (cb_example False False False 3 0 0 0 [0, 0, 0] 0) 1
     = Ret (cb_example False False False 3 0 0 0 [0, 0, 0] 0, BOF_ERR_NOT_AVAILABLE, None)"
  using BofCircularBuffer_PeekFromPop_correct [OF cb_example_inv(1) [of False False False 0], of 1]
    BofCircularBuffer_PeekFromPop_correct [OF cb_example_inv(3) [of False False False 0], of 1]
  by (simp add: BofCircularBuffer_GetCapacity_def BofCircularBuffer_GetPopIndex_def BofCircularBuffer_GetPushIndex_def
      ring_slice_def upt_rec)

text \<open>
  \<^verbatim>\<open>IsEntryFree\<close> tells exactly whether a cell neither holds an element that can
  be popped nor is locked, in every mode and for every position of the indices.
\<close>

theorem BofCircularBuffer_IsEntryFree_exact:
  assumes "cb_inv cb" "i < BofCircularBuffer_GetCapacity cb"
  shows "BofCircularBuffer_IsEntryFree cb i b =
    Ret (cb, \<not> cb_cell_used cb (unat i), if b then Some (cb_mpLock_U8 cb ! unat i \<noteq> 0) else None)"
  using assms unfolding BofCircularBuffer_GetCapacity_def by (rule IsEntryFree_eq)

theorem BofCircularBuffer_IsEntryFree_exact_witness:
  "BofCircularBuffer_IsEntryFree (cb_example False True True 1 1 1 1 [1, 0, 0] 1) 0 True
     = Ret (cb_example False True True 1 1 1 1 [1, 0, 0] 1, False, Some True)"
  using BofCircularBuffer_IsEntryFree_exact [OF cb_example_inv(4) [of False True 1], of 0 True]
  by (simp add: BofCircularBuffer_GetCapacity_def cb_cell_used_def)

end
