(* ===== verification/Bof_RawCircularBuffer.thy ===== *)
theory Bof_RawCircularBuffer
  imports Bof_CircularBuffer
begin

text \<open>
  \<^verbatim>\<open>BofRawCircularBuffer\<close> of \<^verbatim>\<open>bofrawcircularbuffer.h\<close> and \<^verbatim>\<open>.cpp\<close>: byte strings stored
  one after the other, or one per slot, in one array of bytes, and described by
  the elements of a circular buffer, the one of \<^verbatim>\<open>Bof_CircularBuffer\<close>. A pointer into the
  array is the position of its byte; the assertions that such a pointer is not
  below the array hold by this choice. The circular buffer is used without a
  mutex of its own; what other threads do while it waits is a schedule.
\<close>

section \<open>Data\<close>

record BOF_RAW_CIRCULAR_BUFFER_PARAM =
  rcp_MultiThreadAware_B :: bool
  rcp_PriorityInversionAware_B :: bool
  rcp_BufferSizeInByte_U32 :: u32
  rcp_SlotMode_B :: bool
  rcp_AlwaysContiguous_B :: bool
  rcp_NbMaxBufferEntry_U32 :: u32
  rcp_pData_U8 :: "u8 list option"
  rcp_Overwrite_B :: bool
  rcp_Blocking_B :: bool

text \<open>\<^verbatim>\<open>Reset\<close> of the parameters leaves \<^verbatim>\<open>AlwaysContiguous_B\<close> as it was.\<close>

definition BOF_RAW_CIRCULAR_BUFFER_PARAM_Reset :: "BOF_RAW_CIRCULAR_BUFFER_PARAM \<Rightarrow> BOF_RAW_CIRCULAR_BUFFER_PARAM" where
  "BOF_RAW_CIRCULAR_BUFFER_PARAM_Reset p =
     p\<lparr>rcp_MultiThreadAware_B := False, rcp_PriorityInversionAware_B := False, rcp_BufferSizeInByte_U32 := 0,
       rcp_SlotMode_B := False, rcp_NbMaxBufferEntry_U32 := 0, rcp_pData_U8 := None, rcp_Overwrite_B := False,
       rcp_Blocking_B := False\<rparr>"

record BOF_RAW_BUFFER =
  rb_IndexInBuffer_U32 :: u32
  rb_SlotEmpySpace_U32 :: u32
  rb_Size1_U32 :: u32
  rb_pData1_U8 :: "nat option"
  rb_Size2_U32 :: u32
  rb_pData2_U8 :: "nat option"

definition BOF_RAW_BUFFER_Reset :: BOF_RAW_BUFFER where
  "BOF_RAW_BUFFER_Reset = \<lparr>rb_IndexInBuffer_U32 = 0, rb_SlotEmpySpace_U32 = 0, rb_Size1_U32 = 0, rb_pData1_U8 = None,
     rb_Size2_U32 = 0, rb_pData2_U8 = None\<rparr>"

record BofRawCircularBuffer =
  raw_mRawCircularBufferParam_X :: BOF_RAW_CIRCULAR_BUFFER_PARAM
  raw_mSlotSize_U32 :: u32
  raw_mDataPreAllocated_B :: bool
  raw_mpData_U8 :: "u8 list"
  raw_mLevelMax_U32 :: u32
  raw_mRawCircularBufferMtx_X :: BOF_MUTEX
  raw_mErrorCode_E :: BOFERR
  raw_mOverflow_B :: bool
  raw_mAppendMode_B :: bool
  raw_mpuBufferCollection :: "BOF_RAW_BUFFER BofCircularBuffer"
  raw_mRawBufferToPush_X :: BOF_RAW_BUFFER
  raw_mCrtBufferRemain_U32 :: u32
  raw_mpCrtBufferHead_U8 :: nat
  raw_mpCrtBufferEnd_U8 :: nat

abbreviation raw_BufferSize :: "BofRawCircularBuffer \<Rightarrow> u32" where
  "raw_BufferSize r \<equiv> rcp_BufferSizeInByte_U32 (raw_mRawCircularBufferParam_X r)"

abbreviation raw_MultiThreadAware :: "BofRawCircularBuffer \<Rightarrow> bool" where
  "raw_MultiThreadAware r \<equiv> rcp_MultiThreadAware_B (raw_mRawCircularBufferParam_X r)"

abbreviation raw_Contiguous :: "BofRawCircularBuffer \<Rightarrow> bool" where
  "raw_Contiguous r \<equiv> rcp_AlwaysContiguous_B (raw_mRawCircularBufferParam_X r)"

abbreviation raw_Overwrite :: "BofRawCircularBuffer \<Rightarrow> bool" where
  "raw_Overwrite r \<equiv> rcp_Overwrite_B (raw_mRawCircularBufferParam_X r)"

definition BOF_RAW_CIRCULAR_BUFFER_LOCK ::
  "BofRawCircularBuffer \<Rightarrow> (BofRawCircularBuffer \<Rightarrow> BOFERR \<Rightarrow> 'b outcome) \<Rightarrow> 'b outcome" where
  "BOF_RAW_CIRCULAR_BUFFER_LOCK r k =
     (if raw_MultiThreadAware r
      then bindO (Bof_LockMutex (raw_mRawCircularBufferMtx_X r))
             (\<lambda>(m, Sts). k (r\<lparr>raw_mRawCircularBufferMtx_X := m\<rparr>) Sts)
      else k r BOF_ERR_NO_ERROR)"

definition BOF_RAW_CIRCULAR_BUFFER_UNLOCK ::
  "BofRawCircularBuffer \<Rightarrow> (BofRawCircularBuffer \<Rightarrow> 'b outcome) \<Rightarrow> 'b outcome" where
  "BOF_RAW_CIRCULAR_BUFFER_UNLOCK r k =
     (if raw_MultiThreadAware r
      then bindO (Bof_UnlockMutex (raw_mRawCircularBufferMtx_X r)) (\<lambda>(m, Sts). k (r\<lparr>raw_mRawCircularBufferMtx_X := m\<rparr>))
      else k r)"

section \<open>Construction\<close>

text \<open>\<open>new_U8\<close> gives the bytes of \<^verbatim>\<open>new uint8_t[n]\<close>, \<open>new_T\<close> the elements the circular buffer allocates.\<close>

definition raw_fresh :: "BOF_RAW_CIRCULAR_BUFFER_PARAM \<Rightarrow> BOF_RAW_BUFFER BofCircularBuffer \<Rightarrow> BofRawCircularBuffer" where
  "raw_fresh p nullcb =
     \<lparr>raw_mRawCircularBufferParam_X = p, raw_mSlotSize_U32 = 0, raw_mDataPreAllocated_B = False, raw_mpData_U8 = [],
      raw_mLevelMax_U32 = 0, raw_mRawCircularBufferMtx_X = BOF_MUTEX_ctor, raw_mErrorCode_E = BOF_ERR_TOO_SMALL,
      raw_mOverflow_B = False, raw_mAppendMode_B = False, raw_mpuBufferCollection = nullcb,
      raw_mRawBufferToPush_X = BOF_RAW_BUFFER_Reset, raw_mCrtBufferRemain_U32 = 0, raw_mpCrtBufferHead_U8 = 0,
      raw_mpCrtBufferEnd_U8 = 0\<rparr>"

definition raw_collection_param :: "BOF_RAW_CIRCULAR_BUFFER_PARAM \<Rightarrow> BOF_RAW_BUFFER BOF_CIRCULAR_BUFFER_PARAM" where
  "raw_collection_param p =
     BOF_CIRCULAR_BUFFER_PARAM_Reset\<lparr>cbp_MultiThreadAware_B := False, cbp_NbMaxElement_U32 := rcp_NbMaxBufferEntry_U32 p,
       cbp_pData := None, cbp_Overwrite_B := False, cbp_Blocking_B := rcp_Blocking_B p, cbp_PopLockMode_B := False\<rparr>"

text \<open>Before it is made, the collection is a null pointer; \<open>nullcb\<close> stands for it and is not used.\<close>

definition BofRawCircularBuffer_ctor ::
  "(u32 \<Rightarrow> u8 list) \<Rightarrow> (u32 \<Rightarrow> BOF_RAW_BUFFER list) \<Rightarrow> string \<Rightarrow> BOF_RAW_CIRCULAR_BUFFER_PARAM \<Rightarrow> BofRawCircularBuffer outcome" where
  "BofRawCircularBuffer_ctor new_U8 new_T this_S p =
     (let r = raw_fresh p (BofCircularBuffer_fresh (raw_collection_param p)) in
      if rcp_BufferSizeInByte_U32 p \<noteq> 0 \<and> rcp_NbMaxBufferEntry_U32 p \<noteq> 0 then
        bindO (if rcp_MultiThreadAware_B p
               then Bof_CreateMutex ''BofRawCircularBuffer'' False (rcp_PriorityInversionAware_B p) (raw_mRawCircularBufferMtx_X r)
               else Ret (raw_mRawCircularBufferMtx_X r, BOF_ERR_NO_ERROR)) (\<lambda>(m, Sts).
          let r = r\<lparr>raw_mRawCircularBufferMtx_X := m, raw_mErrorCode_E := Sts\<rparr> in
          if Sts = BOF_ERR_NO_ERROR then
            let r = (case rcp_pData_U8 p of
                       Some d \<Rightarrow> r\<lparr>raw_mDataPreAllocated_B := True, raw_mpData_U8 := d\<rparr>
                     | None \<Rightarrow> r\<lparr>raw_mDataPreAllocated_B := False, raw_mpData_U8 := new_U8 (rcp_BufferSizeInByte_U32 p)\<rparr>);
                r = r\<lparr>raw_mSlotSize_U32 := if rcp_SlotMode_B p then rcp_BufferSizeInByte_U32 p div rcp_NbMaxBufferEntry_U32 p else 0,
                      raw_mRawBufferToPush_X := BOF_RAW_BUFFER_Reset\<lparr>rb_pData1_U8 := Some 0\<rparr>,
                      raw_mCrtBufferRemain_U32 := rcp_BufferSizeInByte_U32 p, raw_mpCrtBufferHead_U8 := 0,
                      raw_mpCrtBufferEnd_U8 := unat (rcp_BufferSizeInByte_U32 p), raw_mErrorCode_E := BOF_ERR_ENOMEM\<rparr>
            in bindO (BofCircularBuffer_ctor new_T this_S (raw_collection_param p)) (\<lambda>cb.
                 Ret (r\<lparr>raw_mpuBufferCollection := cb, raw_mErrorCode_E := BofCircularBuffer_LastErrorCode cb\<rparr>))
          else Ret r)
      else Ret r)"

definition BofRawCircularBuffer_dtor :: "BofRawCircularBuffer \<Rightarrow> BofRawCircularBuffer" where
  "BofRawCircularBuffer_dtor r =
     (let r = (if \<not> raw_mDataPreAllocated_B r then r\<lparr>raw_mpData_U8 := []\<rparr> else r)
      in r\<lparr>raw_mRawCircularBufferMtx_X := fst (Bof_DestroyMutex (raw_mRawCircularBufferMtx_X r))\<rparr>)"

section \<open>State\<close>

definition BofRawCircularBuffer_Reset :: "BofRawCircularBuffer \<Rightarrow> BofRawCircularBuffer outcome" where
  "BofRawCircularBuffer_Reset r =
     BOF_RAW_CIRCULAR_BUFFER_LOCK r (\<lambda>r Sts_E.
       if Sts_E = BOF_ERR_NO_ERROR then
         bindO (BofCircularBuffer_Reset (raw_mpuBufferCollection r)) (\<lambda>cb.
           BOF_RAW_CIRCULAR_BUFFER_UNLOCK
             (r\<lparr>raw_mLevelMax_U32 := 0, raw_mOverflow_B := False, raw_mAppendMode_B := False, raw_mpuBufferCollection := cb,
                raw_mRawBufferToPush_X := BOF_RAW_BUFFER_Reset\<lparr>rb_pData1_U8 := Some 0\<rparr>,
                raw_mCrtBufferRemain_U32 := raw_BufferSize r, raw_mpCrtBufferHead_U8 := 0\<rparr>) Ret)
       else Ret r)"

definition BofRawCircularBuffer_LastErrorCode :: "BofRawCircularBuffer \<Rightarrow> BOFERR" where
  "BofRawCircularBuffer_LastErrorCode r = raw_mErrorCode_E r"

definition BofRawCircularBuffer_IsEmpty :: "BofRawCircularBuffer \<Rightarrow> bool" where
  "BofRawCircularBuffer_IsEmpty r = BofCircularBuffer_IsEmpty (raw_mpuBufferCollection r)"

definition BofRawCircularBuffer_IsFull :: "BofRawCircularBuffer \<Rightarrow> bool" where
  "BofRawCircularBuffer_IsFull r = BofCircularBuffer_IsFull (raw_mpuBufferCollection r)"

definition BofRawCircularBuffer_GetSlotSize :: "BofRawCircularBuffer \<Rightarrow> u32" where
  "BofRawCircularBuffer_GetSlotSize r = raw_mSlotSize_U32 r"

definition BofRawCircularBuffer_GetMaxLevel :: "BofRawCircularBuffer \<Rightarrow> u32" where
  "BofRawCircularBuffer_GetMaxLevel r =
     (if raw_mSlotSize_U32 r \<noteq> 0 then BofCircularBuffer_GetMaxLevel (raw_mpuBufferCollection r) else raw_mLevelMax_U32 r)"

text \<open>
  The size of the first element is asked for (\<open>size = Some old\<close>) or not. When
  the mutex cannot be locked the result of \<^verbatim>\<open>GetNbElement\<close> and \<^verbatim>\<open>GetCapacity\<close> is a
  variable nothing has set.
\<close>

definition BofRawCircularBuffer_GetNbElement ::
  "BofRawCircularBuffer \<Rightarrow> u32 option \<Rightarrow> (BofRawCircularBuffer \<times> u32 \<times> u32 option) outcome" where
  "BofRawCircularBuffer_GetNbElement r pSizeOfFirst =
     BOF_RAW_CIRCULAR_BUFFER_LOCK r (\<lambda>r Sts_E.
       if Sts_E = BOF_ERR_NO_ERROR then
         bindO (if pSizeOfFirst = None then Ret (r, None)
                else if BofRawCircularBuffer_IsEmpty r then Ret (r, Some 0)
                else bindO (BofCircularBuffer_Peek id id (raw_mpuBufferCollection r) 0) (\<lambda>(cb, e, out).
                       Ret (r\<lparr>raw_mpuBufferCollection := cb\<rparr>,
                            case out of Some (i, b) \<Rightarrow> if e = BOF_ERR_NO_ERROR then Some (rb_Size1_U32 b + rb_Size2_U32 b) else pSizeOfFirst
                            | None \<Rightarrow> pSizeOfFirst))) (\<lambda>(r, size).
           let Rts_U32 = BofCircularBuffer_GetNbElement (raw_mpuBufferCollection r)
           in BOF_RAW_CIRCULAR_BUFFER_UNLOCK r (\<lambda>r. Ret (r, Rts_U32, size)))
       else Undefined)"

definition BofRawCircularBuffer_GetNbFreeElement :: "BofRawCircularBuffer \<Rightarrow> (BofRawCircularBuffer \<times> u32 \<times> u32) outcome" where
  "BofRawCircularBuffer_GetNbFreeElement r =
     BOF_RAW_CIRCULAR_BUFFER_LOCK r (\<lambda>r Sts_E.
       if Sts_E = BOF_ERR_NO_ERROR then
         bindO (BofCircularBuffer_GetNbFreeElement (raw_mpuBufferCollection r)) (\<lambda>(cb, Rts_U32).
           BOF_RAW_CIRCULAR_BUFFER_UNLOCK (r\<lparr>raw_mpuBufferCollection := cb\<rparr>)
             (\<lambda>r. Ret (r, Rts_U32, raw_mCrtBufferRemain_U32 r)))
       else Ret (r, 0, 0))"

definition BofRawCircularBuffer_GetCapacity :: "BofRawCircularBuffer \<Rightarrow> (BofRawCircularBuffer \<times> u32 \<times> u32) outcome" where
  "BofRawCircularBuffer_GetCapacity r =
     BOF_RAW_CIRCULAR_BUFFER_LOCK r (\<lambda>r Sts_E.
       if Sts_E = BOF_ERR_NO_ERROR then
         let Rts_U32 = BofCircularBuffer_GetCapacity (raw_mpuBufferCollection r)
         in BOF_RAW_CIRCULAR_BUFFER_UNLOCK r (\<lambda>r. Ret (r, Rts_U32, raw_BufferSize r))
       else Undefined)"

definition BofRawCircularBuffer_SetOverWriteMode :: "BofRawCircularBuffer \<Rightarrow> bool \<Rightarrow> (BofRawCircularBuffer \<times> BOFERR) outcome" where
  "BofRawCircularBuffer_SetOverWriteMode r Overwrite_B =
     BOF_RAW_CIRCULAR_BUFFER_LOCK r (\<lambda>r Rts_E.
       if Rts_E = BOF_ERR_NO_ERROR then
         BOF_RAW_CIRCULAR_BUFFER_UNLOCK
           (r\<lparr>raw_mRawCircularBufferParam_X := (raw_mRawCircularBufferParam_X r)\<lparr>rcp_Overwrite_B := Overwrite_B\<rparr>,
              raw_mpuBufferCollection := fst (BofCircularBuffer_SetOverWriteMode (raw_mpuBufferCollection r) Overwrite_B)\<rparr>)
           (\<lambda>r. Ret (r, Rts_E))
       else Ret (r, Rts_E))"

definition BofRawCircularBuffer_IsBufferOverflow :: "BofRawCircularBuffer \<Rightarrow> BofRawCircularBuffer \<times> bool" where
  "BofRawCircularBuffer_IsBufferOverflow r = (r\<lparr>raw_mOverflow_B := False\<rparr>, raw_mOverflow_B r)"

definition BofRawCircularBuffer_LockRawCircularBuffer :: "BofRawCircularBuffer \<Rightarrow> (BofRawCircularBuffer \<times> BOFERR) outcome" where
  "BofRawCircularBuffer_LockRawCircularBuffer r =
     (if raw_MultiThreadAware r
      then bindO (Bof_LockMutex (raw_mRawCircularBufferMtx_X r)) (\<lambda>(m, Sts). Ret (r\<lparr>raw_mRawCircularBufferMtx_X := m\<rparr>, Sts))
      else Ret (r, BOF_ERR_BAD_TYPE))"

definition BofRawCircularBuffer_UnlockRawCircularBuffer :: "BofRawCircularBuffer \<Rightarrow> (BofRawCircularBuffer \<times> BOFERR) outcome" where
  "BofRawCircularBuffer_UnlockRawCircularBuffer r =
     (if raw_MultiThreadAware r
      then bindO (Bof_UnlockMutex (raw_mRawCircularBufferMtx_X r)) (\<lambda>(m, Sts). Ret (r\<lparr>raw_mRawCircularBufferMtx_X := m\<rparr>, Sts))
      else Ret (r, BOF_ERR_BAD_TYPE))"

section \<open>Writing\<close>

text \<open>The assertions on the remaining size and the head that open and close the methods.\<close>

definition raw_assert_state :: "BofRawCircularBuffer \<Rightarrow> 'b outcome \<Rightarrow> 'b outcome" where
  "raw_assert_state r k =
     BOF_ASSERT (raw_mCrtBufferRemain_U32 r \<le> raw_BufferSize r) (BOF_ASSERT (raw_mpCrtBufferHead_U8 r < raw_mpCrtBufferEnd_U8 r) k)"

text \<open>\<^verbatim>\<open>memcpy (&mpData_U8[i], src, n)\<close>; \<open>src\<close> are the bytes from the source pointer on.\<close>

definition raw_memcpy :: "BofRawCircularBuffer \<Rightarrow> nat \<Rightarrow> u8 list \<Rightarrow> nat \<Rightarrow> (BofRawCircularBuffer \<Rightarrow> 'b outcome) \<Rightarrow> 'b outcome" where
  "raw_memcpy r i src n k =
     (if i + n \<le> length (raw_mpData_U8 r) \<and> n \<le> length src
      then k (r\<lparr>raw_mpData_U8 := take i (raw_mpData_U8 r) @ take n src @ drop (i + n) (raw_mpData_U8 r)\<rparr>)
      else Undefined)"

text \<open>The part of \<^verbatim>\<open>UpdatePushRawBuffer\<close> for a buffer that does not wrap around yet.\<close>

definition raw_update_first :: "BofRawCircularBuffer \<Rightarrow> u32 \<Rightarrow> u8 list \<Rightarrow> BofRawCircularBuffer outcome" where
  "raw_update_first r Size_U32 src =
     (let b = raw_mRawBufferToPush_X r;
          Index_U32 = rb_IndexInBuffer_U32 b + Size_U32;
          at = unat (rb_IndexInBuffer_U32 b + rb_Size1_U32 b)
      in if Index_U32 > raw_BufferSize r then
           let Nb1_U32 = raw_BufferSize r - (rb_IndexInBuffer_U32 b + rb_Size1_U32 b);
               Nb2_U32 = Size_U32 - Nb1_U32
           in raw_memcpy r at src (unat Nb1_U32) (\<lambda>r.
                BOF_ASSERT (raw_mpCrtBufferHead_U8 r = at)
                  (raw_memcpy r 0 (drop (unat Nb1_U32) src) (unat Nb2_U32) (\<lambda>r.
                     let r = r\<lparr>raw_mCrtBufferRemain_U32 := raw_mCrtBufferRemain_U32 r - (Nb1_U32 + Nb2_U32),
                               raw_mpCrtBufferHead_U8 := unat Nb1_U32,
                               raw_mRawBufferToPush_X := b\<lparr>rb_Size1_U32 := raw_BufferSize r - rb_IndexInBuffer_U32 b,
                                                           rb_pData2_U8 := Some 0, rb_Size2_U32 := Nb2_U32\<rparr>\<rparr>
                     in BOF_ASSERT (Nb2_U32 = Index_U32 - raw_BufferSize r) (Ret r))))
         else
           raw_memcpy r at src (unat Size_U32) (\<lambda>r.
             BOF_ASSERT (raw_mpCrtBufferHead_U8 r = at)
               (Ret (r\<lparr>raw_mCrtBufferRemain_U32 := raw_mCrtBufferRemain_U32 r - Size_U32,
                       raw_mpCrtBufferHead_U8 := raw_mpCrtBufferHead_U8 r + unat Size_U32,
                       raw_mRawBufferToPush_X := b\<lparr>rb_Size1_U32 := rb_Size1_U32 b + Size_U32\<rparr>\<rparr>))))"

definition raw_wrap_head :: "BofRawCircularBuffer \<Rightarrow> BofRawCircularBuffer outcome" where
  "raw_wrap_head r =
     (if raw_mpCrtBufferHead_U8 r \<ge> raw_mpCrtBufferEnd_U8 r
      then BOF_ASSERT (raw_mpCrtBufferHead_U8 r = raw_mpCrtBufferEnd_U8 r) (Ret (r\<lparr>raw_mpCrtBufferHead_U8 := 0\<rparr>))
      else Ret r)"

definition BofRawCircularBuffer_UpdatePushRawBuffer ::
  "BofRawCircularBuffer \<Rightarrow> u32 \<Rightarrow> u32 \<Rightarrow> u8 list option \<Rightarrow> (BofRawCircularBuffer \<times> BOFERR) outcome" where
  "BofRawCircularBuffer_UpdatePushRawBuffer r SizeUpToTheEnd_U32 Size_U32 pData_U8 =
     raw_assert_state r (BOF_ASSERT (Size_U32 \<le> raw_mCrtBufferRemain_U32 r)
       (BOF_ASSERT (raw_Contiguous r \<longrightarrow> rb_Size2_U32 (raw_mRawBufferToPush_X r) = 0)
         (bindO
            (case pData_U8 of
               None \<Rightarrow> Ret (r, BOF_ERR_EINVAL)
             | Some src \<Rightarrow>
                 if Size_U32 \<le> raw_mCrtBufferRemain_U32 r then
                   bindO
                     (if SizeUpToTheEnd_U32 \<noteq> 0 then
                        BOF_ASSERT (raw_Contiguous r)
                          (BOF_ASSERT (rb_Size2_U32 (raw_mRawBufferToPush_X r) = 0)
                            (BOF_ASSERT (rb_pData2_U8 (raw_mRawBufferToPush_X r) = None)
                              (Ret (r\<lparr>raw_mRawBufferToPush_X := BOF_RAW_BUFFER_Reset\<lparr>rb_pData1_U8 := Some 0\<rparr>,
                                      raw_mpCrtBufferHead_U8 := 0\<rparr>))))
                      else Ret r) (\<lambda>r.
                   bindO
                     (let b = raw_mRawBufferToPush_X r in
                      if rb_Size2_U32 b \<noteq> 0 then
                        let at = rb_IndexInBuffer_U32 b + rb_Size2_U32 b in
                        BOF_ASSERT (at + Size_U32 \<le> raw_BufferSize r)
                          (if at + Size_U32 \<le> raw_BufferSize r then
                             raw_memcpy r (unat at) src (unat Size_U32) (\<lambda>r.
                               BOF_ASSERT (raw_mpCrtBufferHead_U8 r = unat at)
                                 (Ret (r\<lparr>raw_mCrtBufferRemain_U32 := raw_mCrtBufferRemain_U32 r - Size_U32,
                                         raw_mpCrtBufferHead_U8 := raw_mpCrtBufferHead_U8 r + unat Size_U32,
                                         raw_mRawBufferToPush_X := b\<lparr>rb_Size2_U32 := rb_Size2_U32 b + Size_U32\<rparr>\<rparr>,
                                       BOF_ERR_NO_ERROR)))
                           else Ret (r, BOF_ERR_EINVAL))
                      else
                        bindO (raw_update_first r Size_U32 src) (\<lambda>r.
                          BOF_ASSERT (raw_mpCrtBufferHead_U8 r \<le> raw_mpCrtBufferEnd_U8 r)
                            (bindO (raw_wrap_head r) (\<lambda>r. Ret (r, BOF_ERR_NO_ERROR)))))
                     (\<lambda>(r, Rts_E). raw_assert_state r (Ret (r, Rts_E))))
                 else Ret (r, BOF_ERR_EINVAL))
            (\<lambda>(r, Rts_E). BOF_ASSERT (raw_Contiguous r \<longrightarrow> rb_Size2_U32 (raw_mRawBufferToPush_X r) = 0) (Ret (r, Rts_E))))))"

text \<open>The third component is the place of the pushed descriptor in the collection, \<^verbatim>\<open>*_ppStorage_X\<close>, when it is set.\<close>

definition BofRawCircularBuffer_PushRawBuffer ::
  "BOF_RAW_BUFFER cb_schedule \<Rightarrow> BofRawCircularBuffer \<Rightarrow> u32 \<Rightarrow> (BofRawCircularBuffer \<times> BOFERR \<times> u32 option) outcome" where
  "BofRawCircularBuffer_PushRawBuffer sched r Timeout_U32 =
     raw_assert_state r
       (let b = raw_mRawBufferToPush_X r;
            Nb_U32 = rb_Size1_U32 b + rb_Size2_U32 b
        in bindO (if raw_mSlotSize_U32 r \<noteq> 0
                  then let b = b\<lparr>rb_SlotEmpySpace_U32 := raw_mSlotSize_U32 r - Nb_U32\<rparr>
                       in BOF_ASSERT (rb_SlotEmpySpace_U32 b \<le> raw_mSlotSize_U32 r) (Ret b)
                  else Ret b) (\<lambda>b.
           bindO (BofCircularBuffer_Push sched (raw_mpuBufferCollection r) (Some b) Timeout_U32) (\<lambda>(cb, Rts_E, IndexOf).
             let r = r\<lparr>raw_mpuBufferCollection := cb, raw_mRawBufferToPush_X := b\<rparr> in
             BOF_ASSERT (Rts_E = BOF_ERR_NO_ERROR)
               (bindO (if Rts_E = BOF_ERR_NO_ERROR then
                         bindO (if raw_mSlotSize_U32 r \<noteq> 0 then
                                  let r = r\<lparr>raw_mCrtBufferRemain_U32 := raw_mCrtBufferRemain_U32 r - rb_SlotEmpySpace_U32 b\<rparr>
                                  in BOF_ASSERT (raw_mCrtBufferRemain_U32 r \<le> raw_BufferSize r)
                                       (raw_wrap_head (r\<lparr>raw_mpCrtBufferHead_U8 := raw_mpCrtBufferHead_U8 r + unat (rb_SlotEmpySpace_U32 b)\<rparr>))
                                else Ret (if Nb_U32 > raw_mLevelMax_U32 r then r\<lparr>raw_mLevelMax_U32 := Nb_U32\<rparr> else r)) (\<lambda>r.
                           Ret (r\<lparr>raw_mRawBufferToPush_X := BOF_RAW_BUFFER_Reset\<lparr>
                                    rb_IndexInBuffer_U32 := of_nat (raw_mpCrtBufferHead_U8 r),
                                    rb_pData1_U8 := Some (raw_mpCrtBufferHead_U8 r)\<rparr>\<rparr>))
                       else Ret r) (\<lambda>r. raw_assert_state r (Ret (r, Rts_E, IndexOf)))))))"

definition BofRawCircularBuffer_SetAppendMode ::
  "BOF_RAW_BUFFER cb_schedule \<Rightarrow> BofRawCircularBuffer \<Rightarrow> u32 \<Rightarrow> bool \<Rightarrow> (BofRawCircularBuffer \<times> BOFERR \<times> u32 option) outcome" where
  "BofRawCircularBuffer_SetAppendMode sched r Timeout_U32 Append_B =
     bindO (if raw_mAppendMode_B r \<and> \<not> Append_B then BofRawCircularBuffer_PushRawBuffer sched r Timeout_U32
            else Ret (r, BOF_ERR_NO_ERROR, None))
       (\<lambda>(r, Rts_E, pStorage). Ret (r\<lparr>raw_mAppendMode_B := Append_B\<rparr>, Rts_E, pStorage))"


text \<open>
  \<^verbatim>\<open>PushBuffer\<close>, part by part: whether the data fit (with the size of the hole to
  leave at the end of a contiguous buffer), and the room made in overwrite mode.
\<close>

definition raw_enough :: "BofRawCircularBuffer \<Rightarrow> u32 \<Rightarrow> bool \<times> u32" where
  "raw_enough r Nb_U32 =
     (if Nb_U32 \<le> raw_mCrtBufferRemain_U32 r then
        if raw_mSlotSize_U32 r \<noteq> 0 then
          (if raw_mAppendMode_B r
           then Nb_U32 + rb_Size1_U32 (raw_mRawBufferToPush_X r) + rb_Size2_U32 (raw_mRawBufferToPush_X r) \<le> raw_mSlotSize_U32 r
           else Nb_U32 \<le> raw_mSlotSize_U32 r, 0)
        else if raw_Contiguous r then
          let SizeUpToTheEnd_U32 = of_nat (raw_mpCrtBufferEnd_U8 r - raw_mpCrtBufferHead_U8 r)
          in if Nb_U32 \<le> SizeUpToTheEnd_U32 then (True, 0)
             else (Nb_U32 \<le> raw_mCrtBufferRemain_U32 r - SizeUpToTheEnd_U32, SizeUpToTheEnd_U32)
        else (\<not> BofRawCircularBuffer_IsFull r, 0)
      else (False, 0))"

text \<open>
  The loop that skips the oldest elements; each turn but the last removes one,
  so that one turn more than there are elements is enough.
\<close>

fun raw_recover :: "nat \<Rightarrow> BofRawCircularBuffer \<Rightarrow> u32 \<Rightarrow> (BofRawCircularBuffer \<times> u32 option) outcome" where
  "raw_recover 0 r SizeToRecover_U32 = Retrying"
| "raw_recover (Suc n) r SizeToRecover_U32 =
     bindO (BofCircularBuffer_Skip (raw_mpuBufferCollection r) False) (\<lambda>(cb, Rts_E, out).
       BOF_ASSERT (Rts_E = BOF_ERR_NO_ERROR)
         (case out of
            None \<Rightarrow> Undefined
          | Some (i, b) \<Rightarrow>
              let r = r\<lparr>raw_mpuBufferCollection := cb,
                        raw_mCrtBufferRemain_U32 := raw_mCrtBufferRemain_U32 r + (rb_Size1_U32 b + rb_Size2_U32 b)\<rparr>
              in if raw_mCrtBufferRemain_U32 r < SizeToRecover_U32 then raw_recover n r SizeToRecover_U32 else Ret (r, Some i)))"

definition raw_make_room :: "BofRawCircularBuffer \<Rightarrow> u32 \<Rightarrow> u32 \<Rightarrow> (BofRawCircularBuffer \<times> bool \<times> u32 \<times> u32 option) outcome" where
  "raw_make_room r Nb_U32 SizeUpToTheEnd_U32 =
     (let EnoughSpace_B = (if raw_mSlotSize_U32 r \<noteq> 0 then Nb_U32 \<le> raw_mSlotSize_U32 r else Nb_U32 \<le> raw_BufferSize r);
          SizeUpToTheEnd_U32 = (if raw_mSlotSize_U32 r = 0 \<and> raw_Contiguous r
                                then of_nat (raw_mpCrtBufferEnd_U8 r - raw_mpCrtBufferHead_U8 r) else SizeUpToTheEnd_U32)
      in if EnoughSpace_B then
           let r = r\<lparr>raw_mOverflow_B := True\<rparr> in
           bindO
             (if raw_mSlotSize_U32 r \<noteq> 0 then
                bindO (BofCircularBuffer_Skip (raw_mpuBufferCollection r) False) (\<lambda>(cb, Rts_E, out).
                  BOF_ASSERT (Rts_E = BOF_ERR_NO_ERROR)
                    (Ret (r\<lparr>raw_mpuBufferCollection := cb, raw_mCrtBufferRemain_U32 := raw_mSlotSize_U32 r\<rparr>, map_option fst out)))
              else
                let (r, SizeToRecover_U32) =
                      (if SizeUpToTheEnd_U32 \<noteq> 0 then
                         if BofCircularBuffer_IsEmpty (raw_mpuBufferCollection r) then (r\<lparr>raw_mOverflow_B := False\<rparr>, 0)
                         else if raw_mpCrtBufferHead_U8 r = 0 then (r, Nb_U32) else (r, Nb_U32 + SizeUpToTheEnd_U32)
                       else (r, Nb_U32))
                in BOF_ASSERT (SizeUpToTheEnd_U32 \<le> raw_BufferSize r)
                     (BOF_ASSERT (SizeToRecover_U32 \<le> raw_BufferSize r)
                       (if SizeToRecover_U32 \<noteq> 0
                        then raw_recover (Suc (unat (BofCircularBuffer_GetNbElement (raw_mpuBufferCollection r)))) r SizeToRecover_U32
                        else Ret (r, None))))
             (\<lambda>(r, pStorage). BOF_ASSERT (raw_mCrtBufferRemain_U32 r \<ge> Nb_U32) (Ret (r, True, SizeUpToTheEnd_U32, pStorage)))
         else Ret (r, False, SizeUpToTheEnd_U32, None))"

definition raw_push_locked ::
  "BOF_RAW_BUFFER cb_schedule \<Rightarrow> BofRawCircularBuffer \<Rightarrow> u32 \<Rightarrow> u32 \<Rightarrow> u8 list \<Rightarrow>
     (BofRawCircularBuffer \<times> BOFERR \<times> u32 option) outcome" where
  "raw_push_locked sched r Timeout_U32 Nb_U32 src =
     raw_assert_state r
       (case raw_enough r Nb_U32 of (EnoughSpace_B, SizeUpToTheEnd_U32) \<Rightarrow>
          bindO (if \<not> EnoughSpace_B \<and> \<not> raw_mAppendMode_B r \<and> raw_Overwrite r then raw_make_room r Nb_U32 SizeUpToTheEnd_U32
                 else Ret (r, EnoughSpace_B, SizeUpToTheEnd_U32, None)) (\<lambda>(r, EnoughSpace_B, SizeUpToTheEnd_U32, pStorage).
            if EnoughSpace_B then
              bindO (BofRawCircularBuffer_UpdatePushRawBuffer r SizeUpToTheEnd_U32 Nb_U32 (Some src)) (\<lambda>(r, Rts_E).
                BOF_ASSERT (Rts_E = BOF_ERR_NO_ERROR)
                  (if \<not> raw_mAppendMode_B r
                   then bindO (BofRawCircularBuffer_PushRawBuffer sched r Timeout_U32) (\<lambda>(r, Rts_E, IndexOf).
                          Ret (r, Rts_E, case IndexOf of Some i \<Rightarrow> Some i | None \<Rightarrow> pStorage))
                   else Ret (r, Rts_E, pStorage)))
            else Ret (r, BOF_ERR_TOO_BIG, pStorage)))"

text \<open>
  \<open>storage\<close> tells whether the caller asks for the place of the descriptor; when the
  mutex cannot be locked that place is a variable nothing has set.
\<close>

definition BofRawCircularBuffer_PushBuffer ::
  "BOF_RAW_BUFFER cb_schedule \<Rightarrow> BofRawCircularBuffer \<Rightarrow> u32 \<Rightarrow> u32 \<Rightarrow> u8 list option \<Rightarrow> bool \<Rightarrow>
     (BofRawCircularBuffer \<times> BOFERR \<times> u32 option) outcome" where
  "BofRawCircularBuffer_PushBuffer sched r Timeout_U32 Nb_U32 pData_U8 storage =
     (case pData_U8 of
        None \<Rightarrow> Ret (r, BOF_ERR_EINVAL, None)
      | Some src \<Rightarrow>
          if Nb_U32 \<noteq> 0 then
            BOF_RAW_CIRCULAR_BUFFER_LOCK r (\<lambda>r Rts_E.
              bindO (if Rts_E = BOF_ERR_NO_ERROR then raw_push_locked sched r Timeout_U32 Nb_U32 src
                     else if storage then Undefined else Ret (r, Rts_E, None)) (\<lambda>(r, Rts_E, pStorage).
                raw_assert_state r
                  (BOF_RAW_CIRCULAR_BUFFER_UNLOCK r (\<lambda>r. Ret (r, Rts_E, if storage then pStorage else None)))))
          else Ret (r, BOF_ERR_EINVAL, None))"

section \<open>Reading\<close>

text \<open>\<^verbatim>\<open>memcpy\<close> from \<^verbatim>\<open>n\<close> bytes at a position of the array, which may be a null pointer.\<close>

definition raw_fetch :: "BofRawCircularBuffer \<Rightarrow> nat option \<Rightarrow> nat \<Rightarrow> (u8 list \<Rightarrow> 'b outcome) \<Rightarrow> 'b outcome" where
  "raw_fetch r p n k =
     (case p of
        None \<Rightarrow> Undefined
      | Some i \<Rightarrow> if i + n \<le> length (raw_mpData_U8 r) then k (take n (drop i (raw_mpData_U8 r))) else Undefined)"

text \<open>
  The copy out of the two parts of an element: what is left of the element, and
  the bytes. Both \<^verbatim>\<open>PopBuffer\<close> and \<^verbatim>\<open>Peek\<close> take them from the element in the collection.
\<close>

definition raw_read_element :: "BofRawCircularBuffer \<Rightarrow> BOF_RAW_BUFFER \<Rightarrow> u32 \<Rightarrow> (BOF_RAW_BUFFER \<times> u8 list) outcome" where
  "raw_read_element r b NbToRead_U32 =
     bindO (if NbToRead_U32 \<noteq> 0 \<and> rb_Size1_U32 b \<noteq> 0 then
              let Size_U32 = (if rb_Size1_U32 b > NbToRead_U32 then NbToRead_U32 else rb_Size1_U32 b)
              in raw_fetch r (rb_pData1_U8 b) (unat Size_U32) (\<lambda>bs.
                   Ret (b\<lparr>rb_Size1_U32 := rb_Size1_U32 b - Size_U32,
                          rb_pData1_U8 := map_option (\<lambda>i. i + unat Size_U32) (rb_pData1_U8 b)\<rparr>, NbToRead_U32 - Size_U32, bs))
            else Ret (b, NbToRead_U32, [])) (\<lambda>(b1, NbToRead_U32, bs1).
       if NbToRead_U32 \<noteq> 0 \<and> rb_Size2_U32 b \<noteq> 0 then
         BOF_ASSERT (rb_pData2_U8 b \<noteq> None)
           (let Size_U32 = (if rb_Size2_U32 b > NbToRead_U32 then NbToRead_U32 else rb_Size2_U32 b)
            in raw_fetch r (rb_pData2_U8 b) (unat Size_U32) (\<lambda>bs2.
                 Ret (b1\<lparr>rb_Size2_U32 := rb_Size2_U32 b - Size_U32,
                         rb_pData2_U8 := map_option (\<lambda>i. i + unat Size_U32) (rb_pData2_U8 b)\<rparr>, bs1 @ bs2)))
       else Ret (b1, bs1))"

definition raw_pop_locked ::
  "(BOF_RAW_BUFFER BofCircularBuffer \<Rightarrow> BOF_RAW_BUFFER BofCircularBuffer) \<Rightarrow>
   (BOF_RAW_BUFFER BofCircularBuffer \<Rightarrow> BOF_RAW_BUFFER BofCircularBuffer) \<Rightarrow> bool \<Rightarrow> BofRawCircularBuffer \<Rightarrow> u32 \<Rightarrow> u32 \<Rightarrow>
     (BofRawCircularBuffer \<times> BOFERR \<times> u8 list) outcome" where
  "raw_pop_locked during before Pop_B r Timeout_U32 NbMax_U32 =
     bindO (BofCircularBuffer_Peek during before (raw_mpuBufferCollection r) Timeout_U32) (\<lambda>(cb, Rts_E, out).
       let r = r\<lparr>raw_mpuBufferCollection := cb\<rparr> in
       case out of
         None \<Rightarrow> Ret (r, Rts_E, [])
       | Some (i, b) \<Rightarrow>
           let PartialRead_B = (rb_Size1_U32 b + rb_Size2_U32 b > NbMax_U32);
               NbToRead_U32 = (if PartialRead_B then NbMax_U32 else rb_Size1_U32 b + rb_Size2_U32 b)
           in bindO (raw_read_element r b NbToRead_U32) (\<lambda>(b, bs).
                wr (cb_mpData_T cb) i b (\<lambda>d.
                  let cb = cb\<lparr>cb_mpData_T := d\<rparr>;
                      r = r\<lparr>raw_mpuBufferCollection := cb\<rparr>;
                      NbRead_U32 = of_nat (length bs)
                  in if PartialRead_B then
                       Ret (r\<lparr>raw_mCrtBufferRemain_U32 := raw_mCrtBufferRemain_U32 r + NbRead_U32\<rparr>, Rts_E, bs)
                     else if Pop_B then
                       bindO (BofCircularBuffer_Skip cb True) (\<lambda>(cb, Rts_E, out).
                         BOF_ASSERT (Rts_E = BOF_ERR_NO_ERROR)
                           (let r = r\<lparr>raw_mpuBufferCollection := cb,
                                      raw_mCrtBufferRemain_U32 := raw_mCrtBufferRemain_U32 r + NbRead_U32 +
                                        (case out of Some (j, b) \<Rightarrow> if raw_mSlotSize_U32 r \<noteq> 0 then rb_SlotEmpySpace_U32 b else 0 | None \<Rightarrow> 0)\<rparr>
                            in BOF_ASSERT (raw_mCrtBufferRemain_U32 r \<le> raw_BufferSize r) (Ret (r, Rts_E, bs))))
                     else Ret (r, Rts_E, bs))))"

text \<open>
  \<^verbatim>\<open>*_pNbMax_U32\<close> is \<open>pNbMax\<close> (\<open>None\<close> for a null pointer), \<open>dest\<close> tells whether there is a
  destination, which has that many bytes. The results are the new value of
  \<^verbatim>\<open>*_pNbMax_U32\<close> and the bytes copied.
\<close>

definition BofRawCircularBuffer_PopOrPeekBuffer ::
  "(BOF_RAW_BUFFER BofCircularBuffer \<Rightarrow> BOF_RAW_BUFFER BofCircularBuffer) \<Rightarrow>
   (BOF_RAW_BUFFER BofCircularBuffer \<Rightarrow> BOF_RAW_BUFFER BofCircularBuffer) \<Rightarrow> bool \<Rightarrow> BofRawCircularBuffer \<Rightarrow> u32 \<Rightarrow> u32 option \<Rightarrow> bool \<Rightarrow>
     (BofRawCircularBuffer \<times> BOFERR \<times> u32 option \<times> u8 list) outcome" where
  "BofRawCircularBuffer_PopOrPeekBuffer during before Pop_B r Timeout_U32 pNbMax dest =
     (case pNbMax of
        None \<Rightarrow> Ret (r, BOF_ERR_EINVAL, None, [])
      | Some NbMax_U32 \<Rightarrow>
          if NbMax_U32 \<noteq> 0 \<and> dest then
            BOF_RAW_CIRCULAR_BUFFER_LOCK r (\<lambda>r Rts_E.
              if Rts_E = BOF_ERR_NO_ERROR then
                raw_assert_state r
                  (bindO (raw_pop_locked during before Pop_B r Timeout_U32 NbMax_U32) (\<lambda>(r, Rts_E, bs).
                     raw_assert_state r
                       (BOF_RAW_CIRCULAR_BUFFER_UNLOCK r (\<lambda>r. Ret (r, Rts_E, Some (of_nat (length bs)), bs)))))
              else Ret (r, Rts_E, Some 0, []))
          else Ret (r, BOF_ERR_EINVAL, Some 0, []))"

definition BofRawCircularBuffer_PopBuffer where
  "BofRawCircularBuffer_PopBuffer during before r Timeout_U32 pNbMax dest =
     BofRawCircularBuffer_PopOrPeekBuffer during before True r Timeout_U32 pNbMax dest"

definition BofRawCircularBuffer_Peek where
  "BofRawCircularBuffer_Peek during before r Timeout_U32 pNbMax dest =
     BofRawCircularBuffer_PopOrPeekBuffer during before False r Timeout_U32 pNbMax dest"

text \<open>The two sizes and pointers of the oldest element; \<open>ptrs\<close> tells whether the four places for them are given.\<close>

definition BofRawCircularBuffer_GetBufferPtr ::
  "(BOF_RAW_BUFFER BofCircularBuffer \<Rightarrow> BOF_RAW_BUFFER BofCircularBuffer) \<Rightarrow>
   (BOF_RAW_BUFFER BofCircularBuffer \<Rightarrow> BOF_RAW_BUFFER BofCircularBuffer) \<Rightarrow> BofRawCircularBuffer \<Rightarrow> u32 \<Rightarrow> bool \<Rightarrow>
     (BofRawCircularBuffer \<times> BOFERR \<times> (u32 \<times> nat option \<times> u32 \<times> nat option) option) outcome" where
  "BofRawCircularBuffer_GetBufferPtr during before r Timeout_U32 ptrs =
     (if ptrs then
        BOF_RAW_CIRCULAR_BUFFER_LOCK r (\<lambda>r Rts_E.
          if Rts_E = BOF_ERR_NO_ERROR then
            bindO (BofCircularBuffer_Peek during before (raw_mpuBufferCollection r) Timeout_U32) (\<lambda>(cb, Rts_E, out).
              BOF_RAW_CIRCULAR_BUFFER_UNLOCK (r\<lparr>raw_mpuBufferCollection := cb\<rparr>) (\<lambda>r.
                Ret (r, Rts_E, Some (case out of
                  Some (i, b) \<Rightarrow> (rb_Size1_U32 b, rb_pData1_U8 b, rb_Size2_U32 b, rb_pData2_U8 b)
                | None \<Rightarrow> (0, Some 0, 0, None)))))
          else Ret (r, Rts_E, Some (0, Some 0, 0, None)))
      else Ret (r, BOF_ERR_EINVAL, None))"

definition BofRawCircularBuffer_Skip :: "BofRawCircularBuffer \<Rightarrow> bool \<Rightarrow> (BofRawCircularBuffer \<times> BOFERR) outcome" where
  "BofRawCircularBuffer_Skip r SignalIfNeeded_B =
     BOF_RAW_CIRCULAR_BUFFER_LOCK r (\<lambda>r Rts_E.
       if Rts_E = BOF_ERR_NO_ERROR then
         bindO (BofCircularBuffer_Skip (raw_mpuBufferCollection r) SignalIfNeeded_B) (\<lambda>(cb, Rts_E, out).
           let r = r\<lparr>raw_mpuBufferCollection := cb\<rparr> in
           bindO (if Rts_E = BOF_ERR_NO_ERROR then
                    case out of
                      None \<Rightarrow> Undefined
                    | Some (i, b) \<Rightarrow>
                        let r = r\<lparr>raw_mCrtBufferRemain_U32 := raw_mCrtBufferRemain_U32 r + (rb_Size1_U32 b + rb_Size2_U32 b) +
                                    (if raw_mSlotSize_U32 r \<noteq> 0 then rb_SlotEmpySpace_U32 (raw_mRawBufferToPush_X r) else 0)\<rparr>
                        in BOF_ASSERT (raw_mCrtBufferRemain_U32 r \<le> raw_BufferSize r) (Ret r)
                  else Ret r) (\<lambda>r. BOF_RAW_CIRCULAR_BUFFER_UNLOCK r (\<lambda>r. Ret (r, Rts_E))))
       else Ret (r, Rts_E))"

end
