(* ===== verification/Bof_RawCircularBuffer_Props.thy ===== *)
theory Bof_RawCircularBuffer_Props
  imports Bof_RawCircularBuffer Bof_CircularBuffer_Props
begin

text \<open>
  Correctness of the raw circular buffer. In slot mode it is a bounded queue of
  byte strings: this rests on the lemmas on the circular buffer of its
  descriptors, to which it adds that every descriptor keeps to its own slot of
  the array. Out of slot mode two defects of the code are shown on runs.
\<close>

section \<open>The slots\<close>

text \<open>The descriptor of \<open>n\<close> bytes in slot \<open>i\<close>, and the bytes a descriptor stands for.\<close>

definition slot_elem :: "u32 \<Rightarrow> nat \<Rightarrow> u32 \<Rightarrow> BOF_RAW_BUFFER" where
  "slot_elem z i n = \<lparr>rb_IndexInBuffer_U32 = of_nat (i * unat z), rb_SlotEmpySpace_U32 = z - n, rb_Size1_U32 = n,
     rb_pData1_U8 = Some (i * unat z), rb_Size2_U32 = 0, rb_pData2_U8 = None\<rparr>"

definition elem_bytes :: "u8 list \<Rightarrow> BOF_RAW_BUFFER \<Rightarrow> u8 list" where
  "elem_bytes d b = take (unat (rb_Size1_U32 b)) (drop (the (rb_pData1_U8 b)) d)"

definition raw_contents :: "BofRawCircularBuffer \<Rightarrow> u8 list list" where
  "raw_contents r = map (elem_bytes (raw_mpData_U8 r)) (cb_contents (raw_mpuBufferCollection r))"

definition raw_cap :: "BofRawCircularBuffer \<Rightarrow> nat" where
  "raw_cap r = cb_cap (raw_mpuBufferCollection r)"

text \<open>A collection whose elements describe the slots they are in.\<close>

definition slots_ok :: "u32 \<Rightarrow> BOF_RAW_BUFFER BofCircularBuffer \<Rightarrow> bool" where
  "slots_ok z cb \<longleftrightarrow> (\<forall>k < length (cb_contents cb). \<exists>n. n \<noteq> 0 \<and> n \<le> z \<and>
     cb_contents cb ! k = slot_elem z ((unat (cb_mPopIndex_U32 cb) + k) mod unat (cb_NbMax cb)) n)"

text \<open>
  The invariant of a buffer in slot mode without overwrite: the array is an
  exact number of slots, one for each entry of the collection, the head is at
  the slot of the next entry, and the remaining size is that of the free slots.
\<close>

definition raw_slot_ok :: "u32 \<Rightarrow> BofRawCircularBuffer \<Rightarrow> bool" where
  "raw_slot_ok z r \<longleftrightarrow>
     (let cb = raw_mpuBufferCollection r; N = unat (cb_NbMax cb) in
      cb_fifo_inv cb \<and> slots_ok z cb \<and>
      raw_mSlotSize_U32 r = z \<and> z \<noteq> 0 \<and> unat (raw_BufferSize r) = N * unat z \<and>
      raw_mpCrtBufferEnd_U8 r = N * unat z \<and> N * unat z \<le> length (raw_mpData_U8 r) \<and>
      \<not> raw_mAppendMode_B r \<and> \<not> raw_Overwrite r \<and>
      raw_mpCrtBufferHead_U8 r = unat (cb_mPushIndex_U32 cb) * unat z \<and>
      unat (raw_mCrtBufferRemain_U32 r) = (N - length (cb_contents cb)) * unat z \<and>
      raw_mRawBufferToPush_X r = BOF_RAW_BUFFER_Reset\<lparr>rb_IndexInBuffer_U32 := of_nat (raw_mpCrtBufferHead_U8 r),
        rb_pData1_U8 := Some (raw_mpCrtBufferHead_U8 r)\<rparr>)"

definition raw_slot_inv :: "u32 \<Rightarrow> BofRawCircularBuffer \<Rightarrow> bool" where
  "raw_slot_inv z r \<longleftrightarrow> raw_slot_ok z r \<and> (raw_MultiThreadAware r \<longrightarrow> mutex_ready (raw_mRawCircularBufferMtx_X r))"

text \<open>A client that does not wait, and takes whole elements.\<close>

definition raw_push :: "u8 list \<Rightarrow> BofRawCircularBuffer \<Rightarrow> (BofRawCircularBuffer \<times> BOFERR) outcome" where
  "raw_push x r = bindO (BofRawCircularBuffer_PushBuffer [(id, id)] r 0 (of_nat (length x)) (Some x) False)
     (\<lambda>(r, e, i). Ret (r, e))"

definition raw_pop :: "u32 \<Rightarrow> BofRawCircularBuffer \<Rightarrow> (BofRawCircularBuffer \<times> BOFERR \<times> u8 list option) outcome" where
  "raw_pop z r = bindO (BofRawCircularBuffer_PopBuffer id id r 0 (Some z) True)
     (\<lambda>(r, e, n, bs). Ret (r, e, if e = BOF_ERR_NO_ERROR then Some bs else None))"

text \<open>The clauses of the invariant.\<close>

lemma raw_slotD:
  assumes "raw_slot_ok z r"
  shows "cb_fifo_inv (raw_mpuBufferCollection r)" "slots_ok z (raw_mpuBufferCollection r)"
    "raw_mSlotSize_U32 r = z" "z \<noteq> 0"
    "unat (raw_BufferSize r) = unat (cb_NbMax (raw_mpuBufferCollection r)) * unat z"
    "raw_mpCrtBufferEnd_U8 r = unat (cb_NbMax (raw_mpuBufferCollection r)) * unat z"
    "unat (cb_NbMax (raw_mpuBufferCollection r)) * unat z \<le> length (raw_mpData_U8 r)"
    "\<not> raw_mAppendMode_B r" "\<not> raw_Overwrite r"
    "raw_mpCrtBufferHead_U8 r = unat (cb_mPushIndex_U32 (raw_mpuBufferCollection r)) * unat z"
    "unat (raw_mCrtBufferRemain_U32 r) =
       (unat (cb_NbMax (raw_mpuBufferCollection r)) - length (cb_contents (raw_mpuBufferCollection r))) * unat z"
    "raw_mRawBufferToPush_X r = BOF_RAW_BUFFER_Reset\<lparr>rb_IndexInBuffer_U32 := of_nat (raw_mpCrtBufferHead_U8 r),
        rb_pData1_U8 := Some (raw_mpCrtBufferHead_U8 r)\<rparr>"
  using assms unfolding raw_slot_ok_def Let_def by blast+

section \<open>Pushing into a slot\<close>

lemma slot_fits: "(i::nat) < n \<Longrightarrow> i * z + z \<le> n * z"
  by (metis Suc_leI add.commute mult_Suc mult_le_mono1)

lemma raw_slot_push_index:
  assumes "raw_slot_ok z r"
  shows "unat (cb_mPushIndex_U32 (raw_mpuBufferCollection r)) < unat (cb_NbMax (raw_mpuBufferCollection r))"
proof -
  have "cb_ring_ok (raw_mpuBufferCollection r)"
    using raw_slotD(1) [OF assms] by (simp add: cb_fifo_inv_def cb_inv_def)
  from cb_ring_okD(5) [OF this] show ?thesis by (simp add: word_less_nat_alt)
qed

text \<open>Sizes and positions at every call.\<close>

lemma raw_slot_room:
  assumes inv: "raw_slot_ok z r"
  shows "raw_mpCrtBufferHead_U8 r + unat z \<le> raw_mpCrtBufferEnd_U8 r"
    "raw_mpCrtBufferHead_U8 r < raw_mpCrtBufferEnd_U8 r"
    "raw_mCrtBufferRemain_U32 r \<le> raw_BufferSize r"
    "unat (of_nat (raw_mpCrtBufferHead_U8 r) :: u32) = raw_mpCrtBufferHead_U8 r"
    "raw_mpCrtBufferEnd_U8 r \<le> length (raw_mpData_U8 r)"
    "unat (raw_BufferSize r) = raw_mpCrtBufferEnd_U8 r"
    "raw_mpCrtBufferHead_U8 r = unat (cb_mPushIndex_U32 (raw_mpuBufferCollection r)) * unat z"
proof -
  note f = raw_slotD [OF inv]
  show le: "raw_mpCrtBufferHead_U8 r + unat z \<le> raw_mpCrtBufferEnd_U8 r"
    using slot_fits [OF raw_slot_push_index [OF inv], of "unat z"] f(6,10) by simp
  moreover have "0 < unat z" using f(4) by (simp add: unat_gt_0)
  ultimately show lt: "raw_mpCrtBufferHead_U8 r < raw_mpCrtBufferEnd_U8 r" by simp
  show "raw_mCrtBufferRemain_U32 r \<le> raw_BufferSize r" using f(5,11) by (simp add: word_le_nat_alt)
  have "raw_mpCrtBufferHead_U8 r < 2 ^ 32"
    using lt f(5,6) unsigned_less [of "raw_BufferSize r", where ?'a = nat] by simp
  then show "unat (of_nat (raw_mpCrtBufferHead_U8 r) :: u32) = raw_mpCrtBufferHead_U8 r"
    by (simp add: unat_of_nat take_bit_eq_mod)
  show "raw_mpCrtBufferEnd_U8 r \<le> length (raw_mpData_U8 r)" "unat (raw_BufferSize r) = raw_mpCrtBufferEnd_U8 r"
    "raw_mpCrtBufferHead_U8 r = unat (cb_mPushIndex_U32 (raw_mpuBufferCollection r)) * unat z"
    using f(5,6,7,10) by simp_all
qed

text \<open>The bytes of the array with \<open>x\<close> at position \<open>i\<close>, and the head after a step of \<open>n\<close> bytes.\<close>

definition overwrite_at :: "nat \<Rightarrow> u8 list \<Rightarrow> u8 list \<Rightarrow> u8 list" where
  "overwrite_at i x d = take i d @ x @ drop (i + length x) d"

definition raw_step :: "BofRawCircularBuffer \<Rightarrow> nat \<Rightarrow> nat" where
  "raw_step r h = (if h = raw_mpCrtBufferEnd_U8 r then 0 else h)"

lemma raw_step_keep [simp]:
  "raw_step (r\<lparr>raw_mpData_U8 := a\<rparr>) h = raw_step r h" "raw_step (r\<lparr>raw_mpuBufferCollection := b\<rparr>) h = raw_step r h"
  "raw_step (r\<lparr>raw_mCrtBufferRemain_U32 := c\<rparr>) h = raw_step r h" "raw_step (r\<lparr>raw_mpCrtBufferHead_U8 := d\<rparr>) h = raw_step r h"
  "raw_step (r\<lparr>raw_mRawBufferToPush_X := e\<rparr>) h = raw_step r h"
  by (simp_all add: raw_step_def)

lemma raw_wrap_head_eq:
  "raw_mpCrtBufferHead_U8 r \<le> raw_mpCrtBufferEnd_U8 r \<Longrightarrow>
   raw_wrap_head r = Ret (r\<lparr>raw_mpCrtBufferHead_U8 := raw_step r (raw_mpCrtBufferHead_U8 r)\<rparr>)"
  by (simp add: raw_wrap_head_def raw_step_def BOF_ASSERT_def)

lemma raw_update_slot:
  assumes inv: "raw_slot_ok z r" and n: "0 < length x" "length x \<le> unat z" "unat n = length x"
    and rem: "n \<le> raw_mCrtBufferRemain_U32 r"
  shows "BofRawCircularBuffer_UpdatePushRawBuffer r 0 n (Some x) =
    Ret (r\<lparr>raw_mpData_U8 := overwrite_at (raw_mpCrtBufferHead_U8 r) x (raw_mpData_U8 r),
           raw_mCrtBufferRemain_U32 := raw_mCrtBufferRemain_U32 r - n,
           raw_mpCrtBufferHead_U8 := raw_step r (raw_mpCrtBufferHead_U8 r + length x),
           raw_mRawBufferToPush_X := (raw_mRawBufferToPush_X r)\<lparr>rb_Size1_U32 := n\<rparr>\<rparr>, BOF_ERR_NO_ERROR)"
proof -
  note f = raw_slotD [OF inv] and g = raw_slot_room [OF inv]
  let ?h = "raw_mpCrtBufferHead_U8 r"
  have sum: "unat (of_nat ?h + n :: u32) = ?h + length x"
    using g(1,4,6) n(2,3) unsigned_less [of "raw_BufferSize r", where ?'a = nat]
    by (simp add: unat_word_ariths)
  then have nowrap: "\<not> (of_nat ?h + n > raw_BufferSize r)"
    using g(1,6) n(2) by (simp add: word_less_nat_alt)
  have h2: "raw_step r (?h + length x) < raw_mpCrtBufferEnd_U8 r" using g(1,2) n(2) by (simp add: raw_step_def)
  have rem2: "raw_mCrtBufferRemain_U32 r - n \<le> raw_BufferSize r"
    using g(3) rem by (meson order_trans word_sub_le)
  show ?thesis
    unfolding BofRawCircularBuffer_UpdatePushRawBuffer_def raw_update_first_def raw_assert_state_def Let_def
    using g(1-6) n rem nowrap h2 rem2
    by (simp add: g(2) f(12) BOF_RAW_BUFFER_Reset_def raw_memcpy_def overwrite_at_def raw_wrap_head_eq raw_step_def)
qed

text \<open>The state after a push into a free slot.\<close>

definition raw_next_head :: "u32 \<Rightarrow> BofRawCircularBuffer \<Rightarrow> nat" where
  "raw_next_head z r = unat (cb_next (cb_NbMax (raw_mpuBufferCollection r)) (cb_mPushIndex_U32 (raw_mpuBufferCollection r))) * unat z"

definition raw_slot_pushed :: "u32 \<Rightarrow> BofRawCircularBuffer \<Rightarrow> u8 list \<Rightarrow> BofRawCircularBuffer" where
  "raw_slot_pushed z r x =
     r\<lparr>raw_mpData_U8 := overwrite_at (raw_mpCrtBufferHead_U8 r) x (raw_mpData_U8 r),
       raw_mpuBufferCollection := cb_signal (cb_push_room (raw_mpuBufferCollection r)
         (slot_elem z (unat (cb_mPushIndex_U32 (raw_mpuBufferCollection r))) (of_nat (length x)))),
       raw_mCrtBufferRemain_U32 := raw_mCrtBufferRemain_U32 r - z,
       raw_mpCrtBufferHead_U8 := raw_next_head z r,
       raw_mRawBufferToPush_X := BOF_RAW_BUFFER_Reset\<lparr>rb_IndexInBuffer_U32 := of_nat (raw_next_head z r),
         rb_pData1_U8 := Some (raw_next_head z r)\<rparr>\<rparr>"

lemma raw_next_head_eq:
  assumes inv: "raw_slot_ok z r" and n: "0 < n" "n \<le> unat z"
  shows "raw_step r (raw_step r (raw_mpCrtBufferHead_U8 r + n) + (unat z - n)) = raw_next_head z r"
    "raw_step r (raw_mpCrtBufferHead_U8 r + n) + (unat z - n) \<le> raw_mpCrtBufferEnd_U8 r"
    "raw_next_head z r < raw_mpCrtBufferEnd_U8 r"
proof -
  let ?cb = "raw_mpuBufferCollection r"
  let ?p = "unat (cb_mPushIndex_U32 ?cb)" and ?N = "unat (cb_NbMax ?cb)" and ?z = "unat z"
  note f = raw_slotD [OF inv] and g = raw_slot_room [OF inv] and p = raw_slot_push_index [OF inv]
  have z: "0 < ?z" using f(4) by (simp add: unat_gt_0)
  have nh: "raw_next_head z r = (if Suc ?p = ?N then 0 else ?p * ?z + ?z)"
    using unat_cb_next [OF p] p by (simp add: raw_next_head_def)
  have e: "(?p * ?z + ?z = ?N * ?z) = (Suc ?p = ?N)"
    using z by (metis add.commute mult_Suc mult_cancel2 less_numeral_extra(3))
  show fit: "raw_step r (raw_mpCrtBufferHead_U8 r + n) + (?z - n) \<le> raw_mpCrtBufferEnd_U8 r"
    using g(1) n by (simp add: raw_step_def)
  have "raw_step r (raw_mpCrtBufferHead_U8 r + n) + (?z - n) =
      (if Suc ?p = ?N \<and> n = ?z then 0 else ?p * ?z + ?z)"
    using g(1) n e by (auto simp: raw_step_def f(6,10))
  then show "raw_step r (raw_step r (raw_mpCrtBufferHead_U8 r + n) + (?z - n)) = raw_next_head z r"
    using e g(2) by (auto simp: nh raw_step_def f(6))
  show "raw_next_head z r < raw_mpCrtBufferEnd_U8 r"
    using e g(1,2) by (auto simp: nh f(6,10) le_less)
qed

lemma raw_slot_free:
  assumes inv: "raw_slot_ok z r" and free: "length (cb_contents (raw_mpuBufferCollection r)) < unat (cb_NbMax (raw_mpuBufferCollection r))"
  shows "z \<le> raw_mCrtBufferRemain_U32 r"
proof -
  have "1 * unat z \<le> (unat (cb_NbMax (raw_mpuBufferCollection r)) - length (cb_contents (raw_mpuBufferCollection r))) * unat z"
    using free by (intro mult_le_mono1) simp
  then show ?thesis using raw_slotD(11) [OF inv] by (simp add: word_le_nat_alt)
qed

lemma raw_push_locked_slot:
  assumes inv: "raw_slot_ok z r" and n: "0 < length x" "length x \<le> unat z"
    and free: "length (cb_contents (raw_mpuBufferCollection r)) < unat (cb_NbMax (raw_mpuBufferCollection r))"
  shows "raw_push_locked [(id, id)] r 0 (of_nat (length x)) x =
    Ret (raw_slot_pushed z r x, BOF_ERR_NO_ERROR, Some (cb_mPushIndex_U32 (raw_mpuBufferCollection r)))"
proof -
  let ?cb = "raw_mpuBufferCollection r" and ?n = "of_nat (length x) :: u32"
  note f = raw_slotD [OF inv] and g = raw_slot_room [OF inv] and h = raw_next_head_eq [OF inv n]
  have n': "unat ?n = length x" by (rule unat_of_nat_le [OF n(2)])
  have nz: "?n \<le> z" "unat (z - ?n) = unat z - length x" using n(2) n' by (simp_all add: word_le_nat_alt unat_sub)
  have rem: "z \<le> raw_mCrtBufferRemain_U32 r" by (rule raw_slot_free [OF inv free])
  have remn: "?n \<le> raw_mCrtBufferRemain_U32 r" using rem nz(1) by (rule order_trans [rotated])
  have rem': "raw_mCrtBufferRemain_U32 r - z \<le> raw_BufferSize r" "z - ?n \<le> z"
    "raw_mCrtBufferRemain_U32 r - ?n \<le> raw_BufferSize r"
    using g(3) rem nz(1) remn by (meson order_trans word_sub_le)+
  have fifo: "cb_inv ?cb" "\<not> cb_PopLockMode ?cb" using f(1) by (simp_all add: cb_fifo_inv_def)
  have room: "cb_mNbElementInBuffer_U32 ?cb < cb_NbMax ?cb"
    using free cb_fifo_nb(1) [OF fifo] by (simp add: word_less_nat_alt)
  have push: "BofCircularBuffer_Push [(id, id)] ?cb (Some b) 0 =
      Ret (cb_signal (cb_push_room ?cb b), BOF_ERR_NO_ERROR, Some (cb_mPushIndex_U32 ?cb))" for b
    unfolding cb_push_now [OF fifo(1)] using room by (simp add: cb_push_result_def cb_push_effect_def cb_fifo_can_write [OF fifo])
  have step: "raw_step r (raw_mpCrtBufferHead_U8 r + length x) < raw_mpCrtBufferEnd_U8 r"
    using g(1,2) n(2) by (simp add: raw_step_def)
  have elem: "(raw_mRawBufferToPush_X r)\<lparr>rb_Size1_U32 := ?n, rb_SlotEmpySpace_U32 := z - ?n\<rparr> =
      slot_elem z (unat (cb_mPushIndex_U32 ?cb)) ?n"
    by (simp add: f(12) BOF_RAW_BUFFER_Reset_def slot_elem_def g(7))
  have s2: "rb_Size2_U32 (raw_mRawBufferToPush_X r) = 0" by (simp add: f(12) BOF_RAW_BUFFER_Reset_def)
  show ?thesis
    unfolding raw_push_locked_def raw_assert_state_def raw_enough_def BofRawCircularBuffer_PushRawBuffer_def
    using f(3,4,8,9) g(2,3) nz rem remn rem' step h
    by (simp add: raw_update_slot [OF inv n n' remn] Let_def s2 elem push raw_wrap_head_eq slot_elem_def raw_slot_pushed_def
        del: BofCircularBuffer_Push.simps)
qed

text \<open>A write into one slot does not touch the others.\<close>

lemma overwrite_at_slot:
  "i + length x \<le> length d \<Longrightarrow> take (length x) (drop i (overwrite_at i x d)) = x"
  "i + length x \<le> length d \<Longrightarrow> length (overwrite_at i x d) = length d"
  by (simp_all add: overwrite_at_def)

lemma overwrite_at_outside:
  assumes "i + length x \<le> length d" "j + n \<le> i \<or> i + length x \<le> j"
  shows "take n (drop j (overwrite_at i x d)) = take n (drop j d)"
  using assms by (auto simp: overwrite_at_def drop_take min_def)

lemma slots_apart:
  assumes "i \<noteq> j" "m \<le> (z::nat)" "n \<le> z"
  shows "j * z + n \<le> i * z \<or> i * z + m \<le> j * z"
proof -
  from assms(1) consider "j < i" | "i < j" by linarith
  then show ?thesis using slot_fits [of j i z] slot_fits [of i j z] assms(2,3) by cases auto
qed

lemma elem_bytes_other_slot:
  assumes "i \<noteq> j" "length x \<le> unat z" "n \<le> z" "i * unat z + length x \<le> length d"
  shows "elem_bytes (overwrite_at (i * unat z) x d) (slot_elem z j n) = elem_bytes d (slot_elem z j n)"
  using overwrite_at_outside [OF assms(4) slots_apart [OF assms(1,2), of "unat n"]] assms(3)
  by (simp add: elem_bytes_def slot_elem_def word_le_nat_alt)

lemma elem_bytes_own_slot:
  assumes "length x \<le> unat z" "i * unat z + length x \<le> length d"
  shows "elem_bytes (overwrite_at (i * unat z) x d) (slot_elem z i (of_nat (length x))) = x"
  using overwrite_at_slot(1) [OF assms(2)] unat_of_nat_le [OF assms(1)] by (simp add: elem_bytes_def slot_elem_def)

lemma length_elem_bytes:
  assumes "i < n" "m \<le> z" "n * unat z \<le> length d"
  shows "length (elem_bytes d (slot_elem z i m)) = unat m"
  using slot_fits [OF assms(1), of "unat z"] assms(2,3) by (simp add: elem_bytes_def slot_elem_def word_le_nat_alt)

lemma raw_slot_ring:
  assumes "raw_slot_ok z r"
  shows "cb_ring_ok (raw_mpuBufferCollection r)" "\<not> cb_PopLockMode (raw_mpuBufferCollection r)"
    "cb_inv (raw_mpuBufferCollection r)" "\<not> cb_Overwrite (raw_mpuBufferCollection r)"
  using raw_slotD(1) [OF assms] by (simp_all add: cb_fifo_inv_def cb_inv_def)

lemma raw_slot_push_cell:
  assumes "raw_slot_ok z r"
  shows "unat (cb_mPushIndex_U32 (raw_mpuBufferCollection r)) =
    (unat (cb_mPopIndex_U32 (raw_mpuBufferCollection r)) + length (cb_contents (raw_mpuBufferCollection r)))
      mod unat (cb_NbMax (raw_mpuBufferCollection r))"
  using cb_ok_push [OF raw_slot_ring(1) [OF assms]] by (simp add: length_cb_contents)

lemma cb_signal_index [simp]:
  "cb_mPopIndex_U32 (cb_signal cb) = cb_mPopIndex_U32 cb" "cb_mPushIndex_U32 (cb_signal cb) = cb_mPushIndex_U32 cb"
  "cb_mpData_T (cb_signal cb) = cb_mpData_T cb"
  by (simp_all add: cb_signal_def)

lemma slots_ok_snoc:
  assumes "slots_ok z cb" "n \<noteq> 0" "n \<le> z"
    "cb_contents cb' = cb_contents cb @ [slot_elem z i n]" "cb_mPopIndex_U32 cb' = cb_mPopIndex_U32 cb"
    "cb_NbMax cb' = cb_NbMax cb" "i = (unat (cb_mPopIndex_U32 cb) + length (cb_contents cb)) mod unat (cb_NbMax cb)"
  shows "slots_ok z cb'"
  using assms unfolding slots_ok_def by (auto simp: nth_append less_Suc_eq)

lemma raw_push_contents:
  assumes inv: "raw_slot_ok z r" and n: "0 < length x" "length x \<le> unat z"
    and free: "length (cb_contents (raw_mpuBufferCollection r)) < unat (cb_NbMax (raw_mpuBufferCollection r))"
  shows "map (elem_bytes (overwrite_at (raw_mpCrtBufferHead_U8 r) x (raw_mpData_U8 r)))
      (cb_contents (raw_mpuBufferCollection r) @
       [slot_elem z (unat (cb_mPushIndex_U32 (raw_mpuBufferCollection r))) (of_nat (length x))]) = raw_contents r @ [x]"
proof -
  let ?cb = "raw_mpuBufferCollection r"
  let ?p = "unat (cb_mPushIndex_U32 ?cb)" and ?d = "raw_mpData_U8 r"
  note f = raw_slotD [OF inv] and g = raw_slot_room [OF inv]
  have fit: "?p * unat z + length x \<le> length ?d" using g(1,5,7) n(2) by simp
  have "elem_bytes (overwrite_at (?p * unat z) x ?d) (cb_contents ?cb ! k) = elem_bytes ?d (cb_contents ?cb ! k)"
    if k: "k < length (cb_contents ?cb)" for k
  proof -
    let ?i = "(unat (cb_mPopIndex_U32 ?cb) + k) mod unat (cb_NbMax ?cb)"
    obtain m where m: "m \<le> z" "cb_contents ?cb ! k = slot_elem z ?i m" using f(2) k unfolding slots_ok_def by blast
    have "?p \<noteq> ?i"
      using ring_inj [of "unat (cb_mPopIndex_U32 ?cb)" k "unat (cb_NbMax ?cb)" "length (cb_contents ?cb)"] k free
        raw_slot_push_cell [OF inv] by auto
    then show ?thesis using elem_bytes_other_slot [OF _ n(2) m(1) fit] m(2) by simp
  qed
  then have "map (elem_bytes (overwrite_at (?p * unat z) x ?d)) (cb_contents ?cb) = raw_contents r"
    unfolding raw_contents_def by (intro nth_equalityI) simp_all
  then show ?thesis using elem_bytes_own_slot [OF n(2) fit] by (simp add: g(7))
qed

lemma raw_slot_pushed_ok:
  assumes inv: "raw_slot_ok z r" and n: "0 < length x" "length x \<le> unat z"
    and free: "length (cb_contents (raw_mpuBufferCollection r)) < unat (cb_NbMax (raw_mpuBufferCollection r))"
  shows "raw_slot_ok z (raw_slot_pushed z r x)" "raw_contents (raw_slot_pushed z r x) = raw_contents r @ [x]"
    "raw_cap (raw_slot_pushed z r x) = raw_cap r"
proof -
  let ?cb = "raw_mpuBufferCollection r" and ?n = "of_nat (length x) :: u32"
  let ?b = "slot_elem z (unat (cb_mPushIndex_U32 ?cb)) ?n"
  note f = raw_slotD [OF inv] and g = raw_slot_room [OF inv] and ring = raw_slot_ring [OF inv]
  have room: "cb_mNbElementInBuffer_U32 ?cb < cb_NbMax ?cb"
    using free cb_fifo_nb(1) [OF ring(3,2)] by (simp add: word_less_nat_alt)
  have w: "cb_can_write ?cb" using room by (simp add: cb_fifo_can_write [OF ring(3,2)])
  note ok = cb_push_room_ok [OF ring(1) w room, of ?b]
  have par: "cb_mCircularBufferParam_X (cb_push_room ?cb b) = cb_mCircularBufferParam_X ?cb"
    "cb_mPopIndex_U32 (cb_push_room ?cb b) = cb_mPopIndex_U32 ?cb"
    "cb_mPushIndex_U32 (cb_push_room ?cb b) = cb_next (cb_NbMax ?cb) (cb_mPushIndex_U32 ?cb)" for b
    by (simp_all add: cb_push_room_def)
  have fifo: "cb_fifo_inv (cb_signal (cb_push_room ?cb ?b))"
    using f(1) ok(1) by (simp add: cb_fifo_inv_def cb_inv_def)
  have n': "unat ?n = length x" by (rule unat_of_nat_le [OF n(2)])
  have slot: "?n \<noteq> 0" "?n \<le> z" using n n' by (auto simp: word_le_nat_alt simp del: of_nat_eq_0_iff)
  have slots: "slots_ok z (cb_signal (cb_push_room ?cb ?b))"
    using f(2) slot raw_slot_push_cell [OF inv] ok(2)
    by (intro slots_ok_snoc [OF f(2)]) (simp_all add: par)
  have rem: "unat (raw_mCrtBufferRemain_U32 r - z) = (unat (cb_NbMax ?cb) - Suc (length (cb_contents ?cb))) * unat z"
    using raw_slot_free [OF inv free] f(11) by (simp add: unat_sub diff_mult_distrib add.commute)
  have len: "length (overwrite_at (raw_mpCrtBufferHead_U8 r) x (raw_mpData_U8 r)) = length (raw_mpData_U8 r)"
    using g(1,5) n(2) by (intro overwrite_at_slot) simp
  show "raw_slot_ok z (raw_slot_pushed z r x)"
    unfolding raw_slot_ok_def Let_def
    using f(3-10) fifo slots rem len ok(2) by (simp add: raw_slot_pushed_def par raw_next_head_def)
  show "raw_contents (raw_slot_pushed z r x) = raw_contents r @ [x]"
    using raw_push_contents [OF inv n free] ok(2) by (simp add: raw_contents_def raw_slot_pushed_def)
  show "raw_cap (raw_slot_pushed z r x) = raw_cap r"
    by (simp add: raw_cap_def raw_slot_pushed_def cb_cap_def BofCircularBuffer_GetCapacity_def par)
qed

section \<open>Popping a slot\<close>

text \<open>A change of the oldest element of a circular buffer.\<close>

definition cb_put_first :: "'a BofCircularBuffer \<Rightarrow> 'a \<Rightarrow> 'a BofCircularBuffer" where
  "cb_put_first cb y = cb\<lparr>cb_mpData_T := (cb_mpData_T cb)[unat (cb_mPopIndex_U32 cb) := y]\<rparr>"

lemma cb_put_first_keeps [simp]:
  "cb_mCircularBufferParam_X (cb_put_first cb y) = cb_mCircularBufferParam_X cb"
  "cb_mPopIndex_U32 (cb_put_first cb y) = cb_mPopIndex_U32 cb" "cb_mPushIndex_U32 (cb_put_first cb y) = cb_mPushIndex_U32 cb"
  by (simp_all add: cb_put_first_def)

lemma cb_take_index [simp]:
  "cb_mPushIndex_U32 (cb_take cb) = cb_mPushIndex_U32 cb"
  "cb_mPopIndex_U32 (cb_take cb) = cb_next (cb_NbMax cb) (cb_mPopIndex_U32 cb)"
  by (simp_all add: cb_take_def)

lemma cb_put_first_ok:
  assumes "cb_inv cb" "0 < cb_nb_avail cb"
  shows "cb_inv (cb_put_first cb y)" "cb_contents (cb_put_first cb y) = y # tl (cb_contents cb)"
    "cb_nb_avail (cb_put_first cb y) = cb_nb_avail cb"
    "cb_mpData_T (cb_put_first cb y) ! unat (cb_mPopIndex_U32 cb) = y"
proof -
  let ?n = "unat (cb_NbMax cb)" and ?q = "unat (cb_mPopIndex_U32 cb)"
  note f = cb_okD [OF cb_invD(1) [OF assms(1)]]
  show keep: "cb_nb_avail (cb_put_first cb y) = cb_nb_avail cb" by (simp add: cb_put_first_def cb_nb_avail_def)
  show inv: "cb_inv (cb_put_first cb y)"
    using assms(1) by (simp add: cb_inv_def cb_ring_ok_def cb_sync_ready_def cb_put_first_def cb_nb_avail_def)
  show here: "cb_mpData_T (cb_put_first cb y) ! unat (cb_mPopIndex_U32 cb) = y"
    using f(3,5) by (simp add: cb_put_first_def)
  obtain k where k: "cb_nb_avail cb = Suc k" using assms(2) gr0_implies_Suc by blast
  have "k < ?n" using k f(8) by (simp add: cb_nb_avail_def)
  then have "((?q + 1) mod ?n + j) mod ?n \<noteq> ?q" if "j < k" for j
    using ring_inj [of ?q "Suc j" ?n 0] f(5) that unfolding ring_step by auto
  then have "ring_slice ((cb_mpData_T cb)[?q := y]) ?n ((?q + 1) mod ?n) k = ring_slice (cb_mpData_T cb) ?n ((?q + 1) mod ?n) k"
    by (rule ring_slice_update_outside)
  then show "cb_contents (cb_put_first cb y) = y # tl (cb_contents cb)"
    using cb_contents_Cons [OF cb_invD(1) [OF inv], of k] cb_contents_Cons [OF cb_invD(1) [OF assms(1)] k] here keep k
    by (simp add: cb_put_first_def)
qed

text \<open>The oldest element, once read, is empty; its slot is then free.\<close>

definition slot_read :: "BOF_RAW_BUFFER \<Rightarrow> BOF_RAW_BUFFER" where
  "slot_read b = b\<lparr>rb_Size1_U32 := 0, rb_pData1_U8 := map_option (\<lambda>i. i + unat (rb_Size1_U32 b)) (rb_pData1_U8 b)\<rparr>"

definition raw_slot_popped :: "u32 \<Rightarrow> BofRawCircularBuffer \<Rightarrow> BofRawCircularBuffer" where
  "raw_slot_popped z r =
     r\<lparr>raw_mpuBufferCollection := cb_signal (cb_take (cb_put_first (raw_mpuBufferCollection r)
         (slot_read (hd (cb_contents (raw_mpuBufferCollection r)))))),
       raw_mCrtBufferRemain_U32 := raw_mCrtBufferRemain_U32 r + z\<rparr>"

lemma raw_slot_first:
  assumes inv: "raw_slot_ok z r" and ne: "cb_contents (raw_mpuBufferCollection r) \<noteq> []"
  shows "\<exists>m. m \<noteq> 0 \<and> m \<le> z \<and>
    hd (cb_contents (raw_mpuBufferCollection r)) = slot_elem z (unat (cb_mPopIndex_U32 (raw_mpuBufferCollection r))) m"
proof -
  have "0 < length (cb_contents (raw_mpuBufferCollection r))" using ne by simp
  with raw_slotD(2) [OF inv] show ?thesis
    unfolding slots_ok_def hd_conv_nth [OF ne] using cb_ok_pop [OF raw_slot_ring(1) [OF inv]] by fastforce
qed

lemma raw_slot_popped_remain:
  assumes inv: "raw_slot_ok z r" and ne: "cb_contents (raw_mpuBufferCollection r) \<noteq> []"
  shows "unat (raw_mCrtBufferRemain_U32 r + z) =
      (unat (cb_NbMax (raw_mpuBufferCollection r)) - (length (cb_contents (raw_mpuBufferCollection r)) - 1)) * unat z"
    "raw_mCrtBufferRemain_U32 r + z \<le> raw_BufferSize r"
    "unat (raw_mCrtBufferRemain_U32 r) + unat z \<le> unat (raw_BufferSize r)"
proof -
  let ?N = "unat (cb_NbMax (raw_mpuBufferCollection r))" and ?l = "length (cb_contents (raw_mpuBufferCollection r))"
  note f = raw_slotD [OF inv]
  have "0 < ?l" using ne by simp
  moreover have "?l \<le> ?N"
    using cb_ok_nb [OF raw_slot_ring(1) [OF inv]] by (simp add: length_cb_contents cb_nb_avail_def)
  ultimately have l: "0 < ?l" "?l \<le> ?N" .
  then have "?N - (?l - 1) = Suc (?N - ?l)" by linarith
  then have e: "unat (raw_mCrtBufferRemain_U32 r) + unat z = (?N - (?l - 1)) * unat z" using f(11) by simp
  also have "\<dots> \<le> ?N * unat z" using l by (intro mult_le_mono1) simp
  finally have le: "unat (raw_mCrtBufferRemain_U32 r) + unat z \<le> unat (raw_BufferSize r)" using f(5) by simp
  then have "unat (raw_mCrtBufferRemain_U32 r + z) = unat (raw_mCrtBufferRemain_U32 r) + unat z"
    using unsigned_less [of "raw_BufferSize r", where ?'a = nat] by (simp add: unat_word_ariths)
  with e le show "unat (raw_mCrtBufferRemain_U32 r + z) = (?N - (?l - 1)) * unat z"
    "raw_mCrtBufferRemain_U32 r + z \<le> raw_BufferSize r"
    "unat (raw_mCrtBufferRemain_U32 r) + unat z \<le> unat (raw_BufferSize r)" by (simp_all add: word_le_nat_alt)
qed

lemma raw_slot_popped_ok:
  assumes inv: "raw_slot_ok z r" and ne: "cb_contents (raw_mpuBufferCollection r) \<noteq> []"
  shows "raw_slot_ok z (raw_slot_popped z r)" "raw_contents (raw_slot_popped z r) = tl (raw_contents r)"
    "raw_cap (raw_slot_popped z r) = raw_cap r"
proof -
  let ?cb = "raw_mpuBufferCollection r"
  let ?cb' = "cb_signal (cb_take (cb_put_first ?cb (slot_read (hd (cb_contents ?cb)))))"
  note f = raw_slotD [OF inv] and ring = raw_slot_ring [OF inv]
  have av: "0 < cb_nb_avail ?cb" using ne by (simp add: cb_contents_nonempty)
  note put = cb_put_first_ok [OF ring(3) av]
  note take = cb_take_ok [OF cb_invD(1) [OF put(1)], unfolded put(3), OF av]
  have par: "cb_mCircularBufferParam_X ?cb' = cb_mCircularBufferParam_X ?cb"
    "cb_mPopIndex_U32 ?cb' = cb_next (cb_NbMax ?cb) (cb_mPopIndex_U32 ?cb)"
    "cb_mPushIndex_U32 ?cb' = cb_mPushIndex_U32 ?cb"
    by simp_all
  have con: "cb_contents ?cb' = tl (cb_contents ?cb)" by (simp add: take(2) put(2))
  have "cb_sync_ready ?cb'" using cb_invD(2) [OF put(1)] by simp
  moreover have "cb_ring_ok ?cb'" using take(1) by simp
  ultimately have fifo: "cb_fifo_inv ?cb'" unfolding cb_fifo_inv_def cb_inv_def par using ring(2,4) by blast
  have slots: "slots_ok z ?cb'"
    unfolding slots_ok_def con par unat_cb_next [OF cb_ok_pop [OF ring(1)]] ring_step length_tl
    using f(2) [unfolded slots_ok_def, rule_format, of "Suc k" for k] by (simp add: nth_tl)
  show "raw_slot_ok z (raw_slot_popped z r)"
    unfolding raw_slot_ok_def Let_def
    using f(3-10,12) fifo slots raw_slot_popped_remain(1) [OF inv ne] con by (simp add: raw_slot_popped_def par)
  show "raw_contents (raw_slot_popped z r) = tl (raw_contents r)"
    using con by (simp add: raw_contents_def raw_slot_popped_def map_tl)
  show "raw_cap (raw_slot_popped z r) = raw_cap r"
    by (simp add: raw_cap_def raw_slot_popped_def cb_cap_def BofCircularBuffer_GetCapacity_def par)
qed

lemma raw_slot_read_first:
  assumes inv: "raw_slot_ok z r" and ne: "cb_contents (raw_mpuBufferCollection r) \<noteq> []"
  obtains m where "m \<le> z" "of_nat (length (hd (raw_contents r))) = m"
    "rb_Size1_U32 (hd (cb_contents (raw_mpuBufferCollection r))) + rb_Size2_U32 (hd (cb_contents (raw_mpuBufferCollection r))) = m"
    "rb_SlotEmpySpace_U32 (slot_read (hd (cb_contents (raw_mpuBufferCollection r)))) = z - m"
    "raw_read_element r (hd (cb_contents (raw_mpuBufferCollection r))) m =
       Ret (slot_read (hd (cb_contents (raw_mpuBufferCollection r))), hd (raw_contents r))"
proof -
  let ?cb = "raw_mpuBufferCollection r" and ?d = "raw_mpData_U8 r"
  let ?q = "unat (cb_mPopIndex_U32 ?cb)" and ?b = "hd (cb_contents ?cb)"
  note f = raw_slotD [OF inv] and ring = raw_slot_ring [OF inv]
  obtain m where m: "m \<noteq> 0" "m \<le> z" "?b = slot_elem z ?q m" using raw_slot_first [OF inv ne] by blast
  have in_d: "?q * unat z + unat m \<le> length ?d"
    using slot_fits [OF cb_ok_pop [OF ring(1)], of "unat z"] f(7) m(2) by (simp add: word_le_nat_alt)
  have bytes: "take (unat m) (drop (?q * unat z) ?d) = hd (raw_contents r)"
    using m(3) ne by (simp add: raw_contents_def hd_map elem_bytes_def slot_elem_def)
  show thesis
  proof (rule that [OF m(2)])
    show "of_nat (length (hd (raw_contents r))) = m" using in_d unfolding bytes [symmetric] by simp
    show "rb_Size1_U32 ?b + rb_Size2_U32 ?b = m" "rb_SlotEmpySpace_U32 (slot_read ?b) = z - m"
      by (simp_all add: m(3) slot_elem_def slot_read_def)
    show "raw_read_element r ?b m = Ret (slot_read ?b, hd (raw_contents r))"
      using m(1) in_d bytes by (simp add: m(3) raw_read_element_def raw_fetch_def slot_elem_def slot_read_def)
  qed
qed

lemma raw_peek_first:
  assumes inv: "raw_slot_ok z r" and ne: "cb_contents (raw_mpuBufferCollection r) \<noteq> []"
  shows "BofCircularBuffer_Peek id id (raw_mpuBufferCollection r) 0 = Ret (raw_mpuBufferCollection r, BOF_ERR_NO_ERROR,
      Some (cb_mPopIndex_U32 (raw_mpuBufferCollection r), hd (cb_contents (raw_mpuBufferCollection r))))"
    "wr (cb_mpData_T (raw_mpuBufferCollection r)) (cb_mPopIndex_U32 (raw_mpuBufferCollection r)) y k =
      k ((cb_mpData_T (raw_mpuBufferCollection r))[unat (cb_mPopIndex_U32 (raw_mpuBufferCollection r)) := y])"
  using Peek_eq [OF raw_slot_ring(3) [OF inv], of 0] ne cb_ring_okD(4) [OF raw_slot_ring(1) [OF inv]]
  by (simp_all add: cb_pop_waits_def wr_def)

lemma raw_pop_locked_slot:
  assumes inv: "raw_slot_ok z r" and ne: "cb_contents (raw_mpuBufferCollection r) \<noteq> []"
  shows "raw_pop_locked id id True r 0 z = Ret (raw_slot_popped z r, BOF_ERR_NO_ERROR, hd (raw_contents r))"
proof -
  let ?cb = "raw_mpuBufferCollection r" and ?b = "hd (cb_contents (raw_mpuBufferCollection r))"
  have av: "0 < cb_nb_avail ?cb" using ne by (simp add: cb_contents_nonempty)
  note put = cb_put_first_ok [OF raw_slot_ring(3) [OF inv] av, of "slot_read ?b"]
  obtain m where m: "m \<le> z" "of_nat (length (hd (raw_contents r))) = m" "rb_Size1_U32 ?b + rb_Size2_U32 ?b = m"
    "rb_SlotEmpySpace_U32 (slot_read ?b) = z - m" "raw_read_element r ?b m = Ret (slot_read ?b, hd (raw_contents r))"
    by (rule raw_slot_read_first [OF inv ne])
  have "BofCircularBuffer_Skip (cb_put_first ?cb (slot_read ?b)) True =
      Ret (cb_signal (cb_take (cb_put_first ?cb (slot_read ?b))), BOF_ERR_NO_ERROR, Some (cb_mPopIndex_U32 ?cb, slot_read ?b))"
    using Skip_eq [OF put(1), of True] put(3,4) av by simp
  then show ?thesis
    unfolding raw_pop_locked_def raw_peek_first(1) [OF inv ne]
    using leD [OF m(1)] m(2-5) raw_slot_popped_remain(2) [OF inv ne] raw_slotD(3,4) [OF inv]
    by (simp add: Let_def raw_peek_first(2) [OF inv ne] cb_put_first_def [symmetric] raw_slot_popped_def)
qed

text \<open>A peek empties the element it shows: the pop that follows returns no byte, and only a part of the slot.\<close>

definition raw_slot_peeked :: "BofRawCircularBuffer \<Rightarrow> BofRawCircularBuffer" where
  "raw_slot_peeked r = r\<lparr>raw_mpuBufferCollection := cb_put_first (raw_mpuBufferCollection r)
     (slot_read (hd (cb_contents (raw_mpuBufferCollection r))))\<rparr>"

lemma raw_peek_locked_slot:
  assumes inv: "raw_slot_ok z r" and ne: "cb_contents (raw_mpuBufferCollection r) \<noteq> []"
  shows "raw_pop_locked id id False r 0 z = Ret (raw_slot_peeked r, BOF_ERR_NO_ERROR, hd (raw_contents r))"
proof -
  let ?b = "hd (cb_contents (raw_mpuBufferCollection r))"
  obtain m where m: "m \<le> z" "rb_Size1_U32 ?b + rb_Size2_U32 ?b = m" "raw_read_element r ?b m = Ret (slot_read ?b, hd (raw_contents r))"
    by (rule raw_slot_read_first [OF inv ne])
  show ?thesis
    unfolding raw_pop_locked_def raw_peek_first(1) [OF inv ne]
    using leD [OF m(1)] m(2,3)
    by (simp add: Let_def raw_peek_first(2) [OF inv ne] cb_put_first_def [symmetric] raw_slot_peeked_def)
qed

lemma raw_peeked_remain:
  assumes inv: "raw_slot_ok z r" and ne: "cb_contents (raw_mpuBufferCollection r) \<noteq> []"
  shows "raw_mCrtBufferRemain_U32 r + (z - of_nat (length (hd (raw_contents r)))) \<le> raw_BufferSize r"
proof -
  obtain m where m: "m \<le> z" "of_nat (length (hd (raw_contents r))) = m" by (rule raw_slot_read_first [OF inv ne])
  have "unat (z - m) \<le> unat z" using m(1) by (simp add: unat_sub word_le_nat_alt)
  then show ?thesis
    using raw_slot_popped_remain(3) [OF inv ne] unsigned_less [of "raw_BufferSize r", where ?'a = nat] unfolding m(2)
    by (simp add: word_le_nat_alt unat_word_ariths)
qed

lemma raw_pop_locked_peeked:
  assumes inv: "raw_slot_ok z r" and ne: "cb_contents (raw_mpuBufferCollection r) \<noteq> []"
  shows "raw_pop_locked id id True (raw_slot_peeked r) 0 z =
    Ret ((raw_slot_popped z r)\<lparr>raw_mCrtBufferRemain_U32 := raw_mCrtBufferRemain_U32 r + (z - of_nat (length (hd (raw_contents r))))\<rparr>,
         BOF_ERR_NO_ERROR, [])"
proof -
  let ?cb = "raw_mpuBufferCollection r" and ?b = "hd (cb_contents (raw_mpuBufferCollection r))"
  let ?cb' = "cb_put_first ?cb (slot_read ?b)"
  have av: "0 < cb_nb_avail ?cb" using ne by (simp add: cb_contents_nonempty)
  note put = cb_put_first_ok [OF raw_slot_ring(3) [OF inv] av, of "slot_read ?b"]
  obtain m where m: "m \<le> z" "of_nat (length (hd (raw_contents r))) = m" "rb_Size1_U32 ?b + rb_Size2_U32 ?b = m"
    "rb_SlotEmpySpace_U32 (slot_read ?b) = z - m"
    by (rule raw_slot_read_first [OF inv ne])
  obtain k where k: "?b = slot_elem z (unat (cb_mPopIndex_U32 ?cb)) k" using raw_slot_first [OF inv ne] by blast
  have sizes: "rb_Size1_U32 (slot_read ?b) = 0" "rb_Size2_U32 (slot_read ?b) = 0"
    by (simp_all add: k slot_elem_def slot_read_def)
  have peek: "BofCircularBuffer_Peek id id ?cb' 0 = Ret (?cb', BOF_ERR_NO_ERROR, Some (cb_mPopIndex_U32 ?cb, slot_read ?b))"
    using Peek_eq [OF put(1), of 0] put(2) by (simp add: cb_pop_waits_def)
  have skip: "BofCircularBuffer_Skip ?cb' True =
      Ret (cb_signal (cb_take ?cb'), BOF_ERR_NO_ERROR, Some (cb_mPopIndex_U32 ?cb, slot_read ?b))"
    using Skip_eq [OF put(1), of True] put(3,4) av by simp
  have again: "(cb_mpData_T ?cb')[unat (cb_mPopIndex_U32 ?cb) := slot_read ?b] = cb_mpData_T ?cb'"
    by (simp add: cb_put_first_def)
  note rem = raw_peeked_remain [OF inv ne, unfolded m(2)]
  show ?thesis
    using sizes m(2-4) rem raw_slotD(3,4) [OF inv] cb_ring_okD(4) [OF cb_invD(1) [OF put(1)]] skip
    by (simp add: raw_pop_locked_def raw_slot_peeked_def peek Let_def raw_read_element_def wr_def again raw_slot_popped_def)
qed

lemma raw_pop_locked_empty:
  assumes inv: "raw_slot_ok z r" and emp: "cb_contents (raw_mpuBufferCollection r) = []"
  shows "raw_pop_locked id id True r 0 z = Ret (r, BOF_ERR_EMPTY, [])"
  unfolding raw_pop_locked_def using Peek_eq [OF raw_slot_ring(3) [OF inv], of 0] emp by (simp add: cb_pop_waits_def)

section \<open>A buffer in slot mode is a bounded queue of byte strings\<close>

definition raw_hold :: "BofRawCircularBuffer \<Rightarrow> BofRawCircularBuffer" where
  "raw_hold r = (if raw_MultiThreadAware r
     then r\<lparr>raw_mRawCircularBufferMtx_X := (raw_mRawCircularBufferMtx_X r)\<lparr>mtx_Mtx := OwnedBySelf (Suc 0)\<rparr>\<rparr> else r)"

lemma raw_lock_free:
  "raw_MultiThreadAware r \<longrightarrow> mutex_ready (raw_mRawCircularBufferMtx_X r) \<Longrightarrow>
     BOF_RAW_CIRCULAR_BUFFER_LOCK r k = k (raw_hold r) BOF_ERR_NO_ERROR"
  "raw_MultiThreadAware r \<longrightarrow> mutex_ready (raw_mRawCircularBufferMtx_X r) \<Longrightarrow>
     BOF_RAW_CIRCULAR_BUFFER_UNLOCK (raw_hold r) k' = k' r"
  by (simp_all add: BOF_RAW_CIRCULAR_BUFFER_LOCK_def BOF_RAW_CIRCULAR_BUFFER_UNLOCK_def sync_simps raw_hold_def)

lemma raw_lock_ready [simp]:
  "raw_slot_inv z r \<Longrightarrow> BOF_RAW_CIRCULAR_BUFFER_LOCK r k = k (raw_hold r) BOF_ERR_NO_ERROR"
  "raw_slot_inv z r \<Longrightarrow> BOF_RAW_CIRCULAR_BUFFER_UNLOCK (raw_hold r) k' = k' r"
  by (simp_all add: raw_slot_inv_def raw_lock_free)

lemma raw_hold_simps [simp]:
  "raw_mpuBufferCollection (raw_hold r) = raw_mpuBufferCollection r" "raw_mCrtBufferRemain_U32 (raw_hold r) = raw_mCrtBufferRemain_U32 r"
  "raw_slot_ok z (raw_hold r) = raw_slot_ok z r" "raw_contents (raw_hold r) = raw_contents r"
  "raw_slot_pushed z (raw_hold r) x = raw_hold (raw_slot_pushed z r x)" "raw_slot_popped z (raw_hold r) = raw_hold (raw_slot_popped z r)"
  "raw_assert_state (raw_hold r) k = raw_assert_state r k"
  by (simp_all add: raw_hold_def raw_slot_ok_def raw_contents_def raw_slot_pushed_def raw_slot_popped_def raw_next_head_def
      raw_assert_state_def Let_def)

lemma raw_slot_asserts: "raw_slot_ok z r \<Longrightarrow> raw_assert_state r k = k"
  using raw_slot_room(2,3) [of z r] by (simp add: raw_assert_state_def)

lemma raw_full_slots:
  assumes inv: "raw_slot_ok z r" and n: "0 < length x" "length x \<le> unat z"
    and full: "length (cb_contents (raw_mpuBufferCollection r)) = unat (cb_NbMax (raw_mpuBufferCollection r))"
  shows "raw_push_locked [(id, id)] r 0 (of_nat (length x)) x = Ret (r, BOF_ERR_TOO_BIG, None)"
proof -
  have "raw_mCrtBufferRemain_U32 r = 0" using raw_slotD(11) [OF inv] full by (simp add: unat_eq_zero)
  moreover have "(of_nat (length x) :: u32) \<noteq> 0" using n(1) unat_of_nat_le [OF n(2)] by fastforce
  ultimately show ?thesis
    using raw_slot_asserts [OF inv] raw_slotD(9) [OF inv] by (simp add: raw_push_locked_def raw_enough_def)
qed

lemma raw_slot_keep_mutex:
  "raw_slot_inv z r \<Longrightarrow> raw_slot_ok z (raw_slot_pushed z r x) \<Longrightarrow> raw_slot_inv z (raw_slot_pushed z r x)"
  "raw_slot_inv z r \<Longrightarrow> raw_slot_ok z (raw_slot_popped z r) \<Longrightarrow> raw_slot_inv z (raw_slot_popped z r)"
  by (simp_all add: raw_slot_inv_def) (simp_all add: raw_slot_pushed_def raw_slot_popped_def)

lemma raw_cap_NbMax: "raw_cap r = unat (cb_NbMax (raw_mpuBufferCollection r))"
  by (simp add: raw_cap_def cb_cap_def BofCircularBuffer_GetCapacity_def)

lemma length_raw_contents: "length (raw_contents r) = length (cb_contents (raw_mpuBufferCollection r))"
  by (simp add: raw_contents_def)

lemma raw_push_room:
  assumes inv: "raw_slot_inv z r" and n: "0 < length x \<and> length x \<le> unat z" and room: "length (raw_contents r) < raw_cap r"
  shows "raw_push x r = Ret (raw_slot_pushed z r x, BOF_ERR_NO_ERROR)"
    "raw_slot_inv z (raw_slot_pushed z r x)" "raw_cap (raw_slot_pushed z r x) = raw_cap r"
    "raw_contents (raw_slot_pushed z r x) = raw_contents r @ [x]"
proof -
  from inv have ok: "raw_slot_ok z r" by (simp add: raw_slot_inv_def)
  have free: "length (cb_contents (raw_mpuBufferCollection r)) < unat (cb_NbMax (raw_mpuBufferCollection r))"
    using room by (simp add: raw_cap_NbMax length_raw_contents)
  note p = raw_slot_pushed_ok [OF ok conjunct1 [OF n] conjunct2 [OF n] free]
  note inv' = raw_slot_keep_mutex(1) [OF inv p(1)]
  have "(of_nat (length x) :: u32) \<noteq> 0" using n unat_of_nat_le [of "length x" z] by fastforce
  then show "raw_push x r = Ret (raw_slot_pushed z r x, BOF_ERR_NO_ERROR)"
    using raw_push_locked_slot [of z "raw_hold r" x] ok n free inv inv'
    by (simp add: raw_slot_asserts [OF p(1)] raw_push_def BofRawCircularBuffer_PushBuffer_def)
  show "raw_slot_inv z (raw_slot_pushed z r x)" "raw_cap (raw_slot_pushed z r x) = raw_cap r"
    "raw_contents (raw_slot_pushed z r x) = raw_contents r @ [x]" using inv' p(2,3) by simp_all
qed

lemma raw_push_full:
  assumes inv: "raw_slot_inv z r" and n: "0 < length x \<and> length x \<le> unat z" and full: "length (raw_contents r) = raw_cap r"
  shows "raw_push x r = Ret (r, BOF_ERR_TOO_BIG)"
proof -
  from inv have ok: "raw_slot_ok z r" by (simp add: raw_slot_inv_def)
  have "(of_nat (length x) :: u32) \<noteq> 0" using n unat_of_nat_le [of "length x" z] by fastforce
  then show ?thesis
    using raw_full_slots [of z "raw_hold r" x] ok n full inv
    by (simp add: raw_slot_asserts [OF ok] raw_push_def BofRawCircularBuffer_PushBuffer_def raw_cap_NbMax length_raw_contents)
qed

lemma raw_pop_some:
  assumes inv: "raw_slot_inv z r" and con: "raw_contents r \<noteq> []"
  shows "raw_pop z r = Ret (raw_slot_popped z r, BOF_ERR_NO_ERROR, Some (hd (raw_contents r)))"
    "raw_slot_inv z (raw_slot_popped z r)" "raw_cap (raw_slot_popped z r) = raw_cap r"
    "raw_contents (raw_slot_popped z r) = tl (raw_contents r)"
proof -
  from inv have ok: "raw_slot_ok z r" by (simp add: raw_slot_inv_def)
  have ne: "cb_contents (raw_mpuBufferCollection r) \<noteq> []" using con by (simp add: raw_contents_def)
  note p = raw_slot_popped_ok [OF ok ne]
  note inv' = raw_slot_keep_mutex(2) [OF inv p(1)]
  show "raw_pop z r = Ret (raw_slot_popped z r, BOF_ERR_NO_ERROR, Some (hd (raw_contents r)))"
    using raw_pop_locked_slot [of z "raw_hold r"] ok ne inv inv' raw_slotD(4) [OF ok]
    by (simp add: raw_slot_asserts [OF p(1)] raw_slot_asserts [OF ok] raw_pop_def BofRawCircularBuffer_PopBuffer_def BofRawCircularBuffer_PopOrPeekBuffer_def)
  show "raw_slot_inv z (raw_slot_popped z r)" "raw_cap (raw_slot_popped z r) = raw_cap r"
    "raw_contents (raw_slot_popped z r) = tl (raw_contents r)" using inv' p(2,3) by simp_all
qed

lemma raw_pop_none:
  assumes inv: "raw_slot_inv z r" and con: "raw_contents r = []"
  shows "raw_pop z r = Ret (r, BOF_ERR_EMPTY, None)"
proof -
  from inv have ok: "raw_slot_ok z r" by (simp add: raw_slot_inv_def)
  have "cb_contents (raw_mpuBufferCollection r) = []" using con by (simp add: raw_contents_def)
  then show ?thesis
    using raw_pop_locked_empty [of z "raw_hold r"] ok inv raw_slotD(4) [OF ok]
    by (simp add: raw_slot_asserts [OF ok] raw_pop_def BofRawCircularBuffer_PopBuffer_def BofRawCircularBuffer_PopOrPeekBuffer_def)
qed

interpretation rawq: bounded_fifo "raw_slot_inv z" raw_contents raw_cap "\<lambda>x. 0 < length x \<and> length x \<le> unat z"
  raw_push "raw_pop z" BOF_ERR_TOO_BIG BOF_ERR_EMPTY for z
proof unfold_locales
  show "BOF_ERR_TOO_BIG \<noteq> BOF_ERR_NO_ERROR" by simp
  fix r x xs
  assume inv: "raw_slot_inv z r"
  then have ok: "raw_slot_ok z r" by (simp add: raw_slot_inv_def)
  show "length (raw_contents r) \<le> raw_cap r"
    using cb_ok_nb [OF raw_slot_ring(1) [OF ok]] cb_fifo_nb(1) [OF raw_slot_ring(3,2) [OF ok]]
    by (simp add: raw_cap_NbMax length_raw_contents)
  show "\<exists>s'. raw_push x r = Ret (s', BOF_ERR_NO_ERROR) \<and> raw_slot_inv z s' \<and> raw_cap s' = raw_cap r \<and>
      raw_contents s' = raw_contents r @ [x]"
    if "0 < length x \<and> length x \<le> unat z" "length (raw_contents r) < raw_cap r"
    using raw_push_room [OF inv that] by blast
  show "\<exists>s'. raw_push x r = Ret (s', BOF_ERR_TOO_BIG) \<and> raw_slot_inv z s' \<and> raw_cap s' = raw_cap r \<and>
      raw_contents s' = raw_contents r"
    if "0 < length x \<and> length x \<le> unat z" "length (raw_contents r) = raw_cap r"
    using raw_push_full [OF inv that] inv by blast
  show "\<exists>s'. raw_pop z r = Ret (s', BOF_ERR_NO_ERROR, Some x) \<and> raw_slot_inv z s' \<and> raw_cap s' = raw_cap r \<and>
      raw_contents s' = xs" if "raw_contents r = x # xs"
    using raw_pop_some [OF inv] that by simp
  show "\<exists>s'. raw_pop z r = Ret (s', BOF_ERR_EMPTY, None) \<and> raw_slot_inv z s' \<and> raw_cap s' = raw_cap r \<and> raw_contents s' = []"
    if "raw_contents r = []"
    using raw_pop_none [OF inv that] inv that by blast
qed

section \<open>Construction\<close>

lemma raw_ctor_slots:
  assumes slot: "rcp_SlotMode_B p" and n: "rcp_NbMaxBufferEntry_U32 p \<noteq> 0" "rcp_NbMaxBufferEntry_U32 p \<noteq> - 1"
    and z: "0 < unat z" "unat (rcp_BufferSizeInByte_U32 p) = unat (rcp_NbMaxBufferEntry_U32 p) * unat z"
    and mode: "\<not> rcp_Overwrite_B p"
    and mem: "unat (rcp_BufferSizeInByte_U32 p) \<le> length (case rcp_pData_U8 p of Some d \<Rightarrow> d | None \<Rightarrow> new_U8 (rcp_BufferSizeInByte_U32 p))"
      "unat (rcp_NbMaxBufferEntry_U32 p) \<le> length (new_T (rcp_NbMaxBufferEntry_U32 p))"
  shows "\<exists>r. BofRawCircularBuffer_ctor new_U8 new_T this_S p = Ret r \<and> raw_slot_inv z r \<and> raw_contents r = [] \<and>
    raw_cap r = unat (rcp_NbMaxBufferEntry_U32 p) \<and> BofRawCircularBuffer_LastErrorCode r = BOF_ERR_NO_ERROR \<and>
    BofRawCircularBuffer_GetSlotSize r = z"
proof -
  let ?q = "raw_collection_param p"
  have par: "cbp_NbMaxElement_U32 ?q = rcp_NbMaxBufferEntry_U32 p" "cbp_pData ?q = None" "\<not> cbp_Overwrite_B ?q" "\<not> cbp_PopLockMode_B ?q"
    by (simp_all add: raw_collection_param_def)
  obtain cb where cb: "BofCircularBuffer_ctor new_T this_S ?q = Ret cb" "cb_inv cb" "cb_contents cb = []"
    "cb_mCircularBufferParam_X cb = ?q" "BofCircularBuffer_LastErrorCode cb = BOF_ERR_NO_ERROR" "cb_mPushIndex_U32 cb = 0"
    using ctor_ok [of new_T ?q this_S] n mem(2) par by (auto simp: cb_param_ok_def)
  obtain m where m: "Bof_CreateMutex ''BofRawCircularBuffer'' False (rcp_PriorityInversionAware_B p) BOF_MUTEX_ctor =
      Ret (m, BOF_ERR_NO_ERROR)" "mutex_ready m" using CreateMutex_ctor by blast
  have n0: "0 < unat (rcp_NbMaxBufferEntry_U32 p)" using n(1) by (simp add: unat_gt_0)
  have size: "rcp_BufferSizeInByte_U32 p div rcp_NbMaxBufferEntry_U32 p = z" "rcp_BufferSizeInByte_U32 p \<noteq> 0"
    using z n0 by (simp_all add: word_unat_eq_iff unat_div)
  have fifo: "cb_fifo_inv cb" "slots_ok z cb" using cb par by (simp_all add: cb_fifo_inv_def slots_ok_def)
  have nz: "z \<noteq> 0" using z(1) by (simp add: unat_gt_0)
  show ?thesis
    using slot n z(2) mode mem(1) size cb m fifo par nz
    by (cases "rcp_pData_U8 p")
      (simp_all add: BofRawCircularBuffer_ctor_def raw_fresh_def Let_def raw_slot_inv_def raw_slot_ok_def raw_contents_def
        raw_cap_NbMax BofRawCircularBuffer_LastErrorCode_def BofRawCircularBuffer_GetSlotSize_def BOF_RAW_BUFFER_Reset_def)
qed

section \<open>Wrapping around\<close>

text \<open>
  A buffer out of slot mode, not appending, whose next descriptor is empty: the
  push of \<open>n\<close> bytes that do not fit before the end of the array.
\<close>

definition raw_wrap_ready :: "BofRawCircularBuffer \<Rightarrow> bool" where
  "raw_wrap_ready r \<longleftrightarrow>
     \<not> raw_Contiguous r \<and> raw_mpCrtBufferEnd_U8 r = unat (raw_BufferSize r) \<and> raw_mpCrtBufferEnd_U8 r \<le> length (raw_mpData_U8 r) \<and>
     unat (raw_BufferSize r) < 2 ^ 31 \<and>
     raw_mpCrtBufferHead_U8 r < raw_mpCrtBufferEnd_U8 r \<and> raw_mCrtBufferRemain_U32 r \<le> raw_BufferSize r \<and>
     raw_mRawBufferToPush_X r = BOF_RAW_BUFFER_Reset\<lparr>rb_IndexInBuffer_U32 := of_nat (raw_mpCrtBufferHead_U8 r),
        rb_pData1_U8 := Some (raw_mpCrtBufferHead_U8 r)\<rparr>"

lemma raw_memcpy_overwrite_at:
  "i + n \<le> length (raw_mpData_U8 r) \<Longrightarrow> n \<le> length src \<Longrightarrow>
   raw_memcpy r i src n k = k (r\<lparr>raw_mpData_U8 := overwrite_at i (take n src) (raw_mpData_U8 r)\<rparr>)"
  by (simp add: raw_memcpy_def overwrite_at_def)

lemma raw_update_wrap:
  assumes ready: "raw_wrap_ready r" and n: "unat n = length x" "n \<le> raw_mCrtBufferRemain_U32 r"
    and k: "raw_mpCrtBufferHead_U8 r + k = raw_mpCrtBufferEnd_U8 r" "k < length x"
  shows "BofRawCircularBuffer_UpdatePushRawBuffer r 0 n (Some x) =
    Ret (r\<lparr>raw_mpData_U8 := overwrite_at 0 (drop k x) (overwrite_at (raw_mpCrtBufferHead_U8 r) (take k x) (raw_mpData_U8 r)),
           raw_mCrtBufferRemain_U32 := raw_mCrtBufferRemain_U32 r - n,
           raw_mpCrtBufferHead_U8 := raw_step r k,
           raw_mRawBufferToPush_X := (raw_mRawBufferToPush_X r)\<lparr>rb_Size1_U32 := of_nat k, rb_Size2_U32 := n - of_nat k,
             rb_pData2_U8 := Some 0\<rparr>\<rparr>, BOF_ERR_NO_ERROR)"
proof -
  let ?h = "raw_mpCrtBufferHead_U8 r" and ?S = "raw_BufferSize r"
  note f = ready [unfolded raw_wrap_ready_def]
  have S: "unat ?S = ?h + k" "?h + k < 2 ^ 31" using f k(1) by simp_all
  have h: "unat (of_nat ?h :: u32) = ?h" "unat (of_nat k :: u32) = k" using S(2) by (simp_all add: unat_of_nat take_bit_eq_mod)
  have nS: "length x \<le> ?h + k" using n f S(1) by (simp add: word_le_nat_alt)
  have sum: "unat (of_nat ?h + n :: u32) = ?h + length x" using nS S(2) n(1) h by (simp add: unat_word_ariths)
  then have over: "?S < of_nat ?h + n" using k S(1) by (simp add: word_less_nat_alt)
  have nb1: "?S - of_nat ?h = of_nat k" using S(1) h by (simp add: word_unat_eq_iff unat_sub word_le_nat_alt)
  have kn: "(of_nat k :: u32) \<le> n" using h(2) n(1) k(2) by (simp add: word_le_nat_alt)
  then have nb2: "unat (n - of_nat k) = length x - k" using h(2) n(1) by (simp add: unat_sub)
  have idx: "- of_nat k = of_nat ?h - ?S" using nb1 by (metis minus_diff_eq)
  have rem: "raw_mCrtBufferRemain_U32 r - n \<le> ?S" using f n(2) by (meson order_trans word_sub_le)
  have step: "raw_step r k < raw_mpCrtBufferEnd_U8 r" "k \<le> raw_mpCrtBufferEnd_U8 r" using f k(1) by (simp_all add: raw_step_def)
  have data: "?h + k \<le> length (raw_mpData_U8 r)" using f k(1) by simp
  have len: "length (overwrite_at ?h (take k x) (raw_mpData_U8 r)) = length (raw_mpData_U8 r)"
    using data k(2) by (intro overwrite_at_slot(2)) simp
  show ?thesis
    unfolding BofRawCircularBuffer_UpdatePushRawBuffer_def raw_update_first_def raw_assert_state_def Let_def
    using f over nb1 nb2 n h(2) rem step data len nS k(2)
    by (simp add: idx BOF_RAW_BUFFER_Reset_def raw_memcpy_overwrite_at h(1) raw_wrap_head_eq)
qed

section \<open>Properties\<close>

text \<open>
  C37. Refinement by composition. A raw circular buffer that is constructed in
  slot mode without overwrite, with a number of entries other than 0 and \<^verbatim>\<open>0xFFFFFFFF\<close>
  and a size in bytes that is an exact multiple of it (a slot of at least one byte for each entry),
  is a bounded queue of byte strings of length 1 up to the size of a slot: any
  sequence of pushes of such strings and of pops into a buffer of the size of a slot, all with a null
  timeout, returns, its observations are those of the abstract queue with as
  many places as entries, what was accepted comes out in order and byte for
  byte, a push into a full buffer reports that there is no space and a pop
  from an empty one that it is empty.
\<close>

theorem BofRawCircularBuffer_slots_refine_queue:
  assumes "rcp_SlotMode_B p" "rcp_NbMaxBufferEntry_U32 p \<noteq> 0" "rcp_NbMaxBufferEntry_U32 p \<noteq> - 1"
    "0 < unat z" "unat (rcp_BufferSizeInByte_U32 p) = unat (rcp_NbMaxBufferEntry_U32 p) * unat z" "\<not> rcp_Overwrite_B p"
    "unat (rcp_BufferSizeInByte_U32 p) \<le> length (case rcp_pData_U8 p of Some d \<Rightarrow> d | None \<Rightarrow> new_U8 (rcp_BufferSizeInByte_U32 p))"
    "unat (rcp_NbMaxBufferEntry_U32 p) \<le> length (new_T (rcp_NbMaxBufferEntry_U32 p))"
    "list_all (fifo_fits (\<lambda>x. 0 < length x \<and> length x \<le> unat z)) ops"
  shows "\<exists>r r' os. BofRawCircularBuffer_ctor new_U8 new_T this_S p = Ret r \<and> BofRawCircularBuffer_LastErrorCode r = BOF_ERR_NO_ERROR \<and>
    BofRawCircularBuffer_GetSlotSize r = z \<and> fifo_run raw_push (raw_pop z) ops r = Ret (r', os) \<and>
    queue_run (unat (rcp_NbMaxBufferEntry_U32 p)) BOF_ERR_TOO_BIG BOF_ERR_EMPTY ops [] = (raw_contents r', os) \<and>
    fifo_accepted ops os = fifo_popped os @ raw_contents r'"
proof -
  obtain r where r: "BofRawCircularBuffer_ctor new_U8 new_T this_S p = Ret r" "raw_slot_inv z r" "raw_contents r = []"
    "raw_cap r = unat (rcp_NbMaxBufferEntry_U32 p)" "BofRawCircularBuffer_LastErrorCode r = BOF_ERR_NO_ERROR"
    "BofRawCircularBuffer_GetSlotSize r = z"
    using raw_ctor_slots [where ?new_U8.0 = new_U8 and new_T = new_T, OF assms(1-8)] by blast
  obtain r' os where run: "fifo_run raw_push (raw_pop z) ops r = Ret (r', os)"
    "queue_run (raw_cap r) BOF_ERR_TOO_BIG BOF_ERR_EMPTY ops (raw_contents r) = (raw_contents r', os)"
    using rawq.run_refines [OF r(2) assms(9)] by blast
  show ?thesis using r run rawq.run_fifo [OF r(2) assms(9) run(1)] by auto
qed

definition raw_param_example :: "bool \<Rightarrow> BOF_RAW_CIRCULAR_BUFFER_PARAM" where
  "raw_param_example slot = \<lparr>rcp_MultiThreadAware_B = True, rcp_PriorityInversionAware_B = False, rcp_BufferSizeInByte_U32 = 10,
     rcp_SlotMode_B = slot, rcp_AlwaysContiguous_B = False, rcp_NbMaxBufferEntry_U32 = 2, rcp_pData_U8 = None,
     rcp_Overwrite_B = False, rcp_Blocking_B = False\<rparr>"

definition raw_new_U8 :: "u32 \<Rightarrow> u8 list" where
  "raw_new_U8 n = replicate (unat n) 0"

definition raw_new_T :: "u32 \<Rightarrow> BOF_RAW_BUFFER list" where
  "raw_new_T n = replicate (unat n) BOF_RAW_BUFFER_Reset"

theorem BofRawCircularBuffer_slots_refine_queue_witness:
  "\<exists>r r' os. BofRawCircularBuffer_ctor raw_new_U8 raw_new_T ''1'' (raw_param_example True) = Ret r \<and>
     fifo_run raw_push (raw_pop 5) [FifoPush [1, 2, 3], FifoPush [4, 5, 6, 7, 8], FifoPush [9], FifoPop, FifoPush [9]] r = Ret (r', os) \<and>
     os = [(BOF_ERR_NO_ERROR, None), (BOF_ERR_NO_ERROR, None), (BOF_ERR_TOO_BIG, None), (BOF_ERR_NO_ERROR, Some [1, 2, 3]),
           (BOF_ERR_NO_ERROR, None)] \<and> raw_contents r' = [[4, 5, 6, 7, 8], [9]]"
  using BofRawCircularBuffer_slots_refine_queue [of "raw_param_example True" 5 raw_new_U8 raw_new_T
      "[FifoPush [1, 2, 3], FifoPush [4, 5, 6, 7, 8], FifoPush [9], FifoPop, FifoPush [9]]" "''1''"]
  by (auto simp: raw_param_example_def raw_new_U8_def raw_new_T_def)

text \<open>
  C38. The wrap-around. Out of slot mode, a push of bytes of which only the first
  \<open>k\<close> fit before the end of the array stores them there and the others at its
  beginning, and the descriptor says so; but the head is then at position \<open>k\<close> (or
  at the beginning when that is the end of the array) and not behind the last byte
  stored, at \<open>length x - k\<close>.
\<close>

theorem BofRawCircularBuffer_wrap_head:
  assumes "raw_wrap_ready r" "unat n = length x" "n \<le> raw_mCrtBufferRemain_U32 r"
    "raw_mpCrtBufferHead_U8 r + k = raw_mpCrtBufferEnd_U8 r" "k < length x"
  shows "\<exists>r'. BofRawCircularBuffer_UpdatePushRawBuffer r 0 n (Some x) = Ret (r', BOF_ERR_NO_ERROR) \<and>
    take k (drop (raw_mpCrtBufferHead_U8 r) (raw_mpData_U8 r')) @ take (length x - k) (raw_mpData_U8 r') = x \<and>
    raw_mRawBufferToPush_X r' = (raw_mRawBufferToPush_X r)\<lparr>rb_Size1_U32 := of_nat k, rb_Size2_U32 := n - of_nat k, rb_pData2_U8 := Some 0\<rparr> \<and>
    raw_mpCrtBufferHead_U8 r' = (if k = raw_mpCrtBufferEnd_U8 r then 0 else k)"
proof -
  let ?h = "raw_mpCrtBufferHead_U8 r" and ?d = "raw_mpData_U8 r"
  let ?d1 = "overwrite_at ?h (take k x) ?d"
  have S: "?h + k \<le> length ?d" "length x \<le> ?h + k"
    using assms by (simp_all add: raw_wrap_ready_def word_le_nat_alt)
  have d1: "length ?d1 = length ?d" using S(1) assms(5) by (intro overwrite_at_slot(2)) simp
  have "take k (drop ?h (overwrite_at 0 (drop k x) ?d1)) = take k (drop ?h ?d1)"
    using S d1 by (intro overwrite_at_outside) auto
  also have "\<dots> = take k x" using overwrite_at_slot(1) [of ?h "take k x" ?d] S(1) assms(5) by simp
  finally have first: "take k (drop ?h (overwrite_at 0 (drop k x) ?d1)) = take k x" .
  have second: "take (length x - k) (overwrite_at 0 (drop k x) ?d1) = drop k x"
    using overwrite_at_slot(1) [of 0 "drop k x" ?d1] S d1 by simp
  show ?thesis using first second by (simp add: raw_update_wrap [OF assms] raw_step_def)
qed

theorem BofRawCircularBuffer_wrap_head_witness:
  "\<exists>r'. BofRawCircularBuffer_UpdatePushRawBuffer ((raw_fresh (raw_param_example False) (BofCircularBuffer_fresh (raw_collection_param
        (raw_param_example False))))\<lparr>raw_mpData_U8 := raw_new_U8 10, raw_mpCrtBufferHead_U8 := 6, raw_mpCrtBufferEnd_U8 := 10,
      raw_mCrtBufferRemain_U32 := 10, raw_mRawBufferToPush_X := BOF_RAW_BUFFER_Reset\<lparr>rb_IndexInBuffer_U32 := of_nat 6, rb_pData1_U8 := Some 6\<rparr>\<rparr>)
      0 6 (Some [11, 12, 13, 14, 15, 16]) = Ret (r', BOF_ERR_NO_ERROR) \<and> raw_mpCrtBufferHead_U8 r' = 4"
  using BofRawCircularBuffer_wrap_head [of "(raw_fresh (raw_param_example False) (BofCircularBuffer_fresh (raw_collection_param
        (raw_param_example False))))\<lparr>raw_mpData_U8 := raw_new_U8 10, raw_mpCrtBufferHead_U8 := 6, raw_mpCrtBufferEnd_U8 := 10,
      raw_mCrtBufferRemain_U32 := 10, raw_mRawBufferToPush_X := BOF_RAW_BUFFER_Reset\<lparr>rb_IndexInBuffer_U32 := of_nat 6, rb_pData1_U8 := Some 6\<rparr>\<rparr>"
      6 "[11, 12, 13, 14, 15, 16]" 4]
  by (auto simp: raw_wrap_ready_def raw_fresh_def raw_param_example_def raw_new_U8_def)

text \<open>
  C39. Peek. In slot mode a peek returns the oldest byte string, but consumes it:
  the pop that follows succeeds with no byte at all. It gives back only the part
  of the slot that was never used, so that the remaining size stays short of the
  free slots by the size of the string.
\<close>

theorem BofRawCircularBuffer_Peek_consumes:
  assumes "raw_slot_inv z r" "raw_contents r = x # xs"
  shows "\<exists>r1 r2. BofRawCircularBuffer_Peek id id r 0 (Some z) True = Ret (r1, BOF_ERR_NO_ERROR, Some (of_nat (length x)), x) \<and>
    BofRawCircularBuffer_PopBuffer id id r1 0 (Some z) True = Ret (r2, BOF_ERR_NO_ERROR, Some 0, []) \<and>
    raw_contents r2 = xs \<and> raw_mCrtBufferRemain_U32 r2 + of_nat (length x) = raw_mCrtBufferRemain_U32 r + z"
proof -
  let ?r = "raw_slot_peeked r" and ?b = "slot_read (hd (cb_contents (raw_mpuBufferCollection r)))"
  let ?r2 = "(raw_slot_popped z r)\<lparr>raw_mCrtBufferRemain_U32 := raw_mCrtBufferRemain_U32 r + (z - of_nat (length x))\<rparr>"
  from assms(1) have ok: "raw_slot_ok z r" by (simp add: raw_slot_inv_def)
  have ne: "cb_contents (raw_mpuBufferCollection r) \<noteq> []" using assms(2) by (auto simp: raw_contents_def)
  have x: "hd (raw_contents r) = x" using assms(2) by simp
  have hold: "raw_slot_peeked (raw_hold r) = raw_hold ?r" 
    "(raw_hold (raw_slot_popped z r))\<lparr>raw_mCrtBufferRemain_U32 := c\<rparr> = raw_hold ((raw_slot_popped z r)\<lparr>raw_mCrtBufferRemain_U32 := c\<rparr>)" for c
    by (simp_all add: raw_hold_def raw_slot_peeked_def)
  have mtx: "raw_MultiThreadAware ?r \<longrightarrow> mutex_ready (raw_mRawCircularBufferMtx_X ?r)"
    "raw_MultiThreadAware ?r2 \<longrightarrow> mutex_ready (raw_mRawCircularBufferMtx_X ?r2)"
    using assms(1) by (simp_all add: raw_slot_inv_def raw_slot_peeked_def raw_slot_popped_def)
  have state: "raw_assert_state ?r k = k" for k :: "(BofRawCircularBuffer \<times> BOFERR \<times> u32 option \<times> u8 list) outcome"
    using raw_slot_asserts [OF ok, of k] by (simp add: raw_assert_state_def raw_slot_peeked_def)
  have state2: "raw_assert_state ?r2 k = k" for k :: "(BofRawCircularBuffer \<times> BOFERR \<times> u32 option \<times> u8 list) outcome"
    using raw_peeked_remain [OF ok ne] x raw_slot_room(2) [OF ok] by (simp add: raw_assert_state_def raw_slot_popped_def)
  have "BofRawCircularBuffer_Peek id id r 0 (Some z) True = Ret (?r, BOF_ERR_NO_ERROR, Some (of_nat (length x)), x)"
    using raw_peek_locked_slot [of z "raw_hold r"] ok ne x hold state raw_slotD(4) [OF ok] assms(1)
    by (simp add: BofRawCircularBuffer_Peek_def BofRawCircularBuffer_PopOrPeekBuffer_def raw_lock_free [OF mtx(1)]
        raw_slot_asserts [OF ok])
  moreover have "BofRawCircularBuffer_PopBuffer id id ?r 0 (Some z) True = Ret (?r2, BOF_ERR_NO_ERROR, Some 0, [])"
    using raw_pop_locked_peeked [of z "raw_hold r"] ok ne x hold state raw_slotD(4) [OF ok] state2
    by (simp add: BofRawCircularBuffer_PopBuffer_def BofRawCircularBuffer_PopOrPeekBuffer_def raw_lock_free [OF mtx(1)]
        raw_lock_free [OF mtx(2)])
  moreover have "raw_contents ?r2 = xs" using raw_slot_popped_ok(2) [OF ok ne] assms(2) by (simp add: raw_contents_def)
  ultimately show ?thesis by fastforce
qed

theorem BofRawCircularBuffer_Peek_consumes_witness:
  "\<exists>r r1 r2. raw_slot_inv 5 r \<and> raw_contents r = [[1, 2, 3]] \<and>
     BofRawCircularBuffer_Peek id id r 0 (Some 5) True = Ret (r1, BOF_ERR_NO_ERROR, Some 3, [1, 2, 3]) \<and>
     BofRawCircularBuffer_PopBuffer id id r1 0 (Some 5) True = Ret (r2, BOF_ERR_NO_ERROR, Some 0, [])"
proof -
  obtain r0 where r0: "raw_slot_inv 5 r0" "raw_contents r0 = []" "raw_cap r0 = 2"
    using raw_ctor_slots [of "raw_param_example True" 5 raw_new_U8 raw_new_T "''1''"]
    by (auto simp: raw_param_example_def raw_new_U8_def raw_new_T_def)
  obtain r where r: "raw_slot_inv 5 r" "raw_contents r = [[1, 2, 3]]"
    using raw_push_room [of 5 r0 "[1, 2, 3]"] r0 by auto
  show ?thesis using BofRawCircularBuffer_Peek_consumes [OF r] r by auto
qed

text \<open>The effect of the misplaced head on a run: the second string comes out with two bytes of the third one.\<close>

lemma raw_wrap_run:
  "bindO (BofRawCircularBuffer_ctor raw_new_U8 raw_new_T ''1'' (raw_param_example False)) (\<lambda>r.
     bindO (fifo_run raw_push (raw_pop 10) [FifoPush [1, 2, 3, 4, 5, 6], FifoPop, FifoPush [11, 12, 13, 14, 15, 16],
       FifoPush [21, 22, 23, 24], FifoPop] r) (\<lambda>(r, os). Ret os)) =
   Ret [(BOF_ERR_NO_ERROR, None), (BOF_ERR_NO_ERROR, Some [1, 2, 3, 4, 5, 6]), (BOF_ERR_NO_ERROR, None), (BOF_ERR_NO_ERROR, None),
     (BOF_ERR_NO_ERROR, Some [23, 24, 13, 14, 15, 16])]"
  by code_simp

end
