(* ===== verification/Bof_Avl.thy ===== *)
theory Bof_Avl
  imports Bof_Prelude
begin

text \<open>
  The AVL tree of \<^verbatim>\<open>bofavlnode.h\<close> and \<^verbatim>\<open>bofavltree.h\<close>, a sorted index over records that
  live elsewhere. A node of the model has the fields of \<^verbatim>\<open>BofAvlNode\<close>: its place in the
  node array of the tree (its address), its data, its parent pointer, its
  stored balance and its two subtrees. The nodes that are not in the tree form
  the free list, chained in the code through their parent pointers, here the
  list of their addresses. Following a null subtree pointer is \<open>Undefined\<close>.

  The comparison of two records at the index \<^verbatim>\<open>mIndex_U32\<close> of the tree,
  \<^verbatim>\<open>KeyType::Compare\<close>, is supplied by the user of the template: it is the parameter
  \<open>cmp\<close>, and what the tree relies on is stated where it is needed.
\<close>

section \<open>Nodes\<close>

datatype WHICHAVLSUBTREE = LEFTSUBTREE | RIGHTSUBTREE

datatype BOFCMP = BOF_CMP_LESSOREQUAL | BOF_CMP_LESS | BOF_CMP_EQUAL | BOF_CMP_GREATER | BOF_CMP_GREATEROREQUAL

primrec cmp_val :: "BOFCMP \<Rightarrow> int" where
  "cmp_val BOF_CMP_LESSOREQUAL = - 2"
| "cmp_val BOF_CMP_LESS = - 1"
| "cmp_val BOF_CMP_EQUAL = 0"
| "cmp_val BOF_CMP_GREATER = 1"
| "cmp_val BOF_CMP_GREATEROREQUAL = 2"

datatype 'k BofAvlNode =
    NullNode
  | Node (avl_id: nat) (avl_mpData: 'k) (avl_parent: "nat option") (avl_mBalance_S32: int)
      (avl_left: "'k BofAvlNode") (avl_right: "'k BofAvlNode")

type_synonym 'k avl_cmp = "'k \<Rightarrow> 'k \<Rightarrow> BOFCMP"

definition LEFT_IMBALANCE :: "int \<Rightarrow> bool" where
  "LEFT_IMBALANCE b \<longleftrightarrow> b < - 1"

definition RIGHT_IMBALANCE :: "int \<Rightarrow> bool" where
  "RIGHT_IMBALANCE b \<longleftrightarrow> b > 1"

fun BofAvlNode_SetParent :: "nat option \<Rightarrow> 'k BofAvlNode \<Rightarrow> 'k BofAvlNode" where
  "BofAvlNode_SetParent p NullNode = NullNode"
| "BofAvlNode_SetParent p (Node i d _ b l r) = Node i d p b l r"

fun BofAvlNode_GetHeight :: "'k BofAvlNode \<Rightarrow> int" where
  "BofAvlNode_GetHeight NullNode = 0"
| "BofAvlNode_GetHeight (Node i d p b l r) =
     1 + max (BofAvlNode_GetHeight l) (BofAvlNode_GetHeight r)"

text \<open>\<^verbatim>\<open>Compare\<close>: the key against the data of a node, or the search for an extreme node.\<close>

fun BofAvlNode_Compare :: "'k avl_cmp \<Rightarrow> 'k \<Rightarrow> BOFCMP \<Rightarrow> 'k BofAvlNode \<Rightarrow> BOFCMP" where
  "BofAvlNode_Compare cmp key Cmp_E NullNode = BOF_CMP_LESS"
| "BofAvlNode_Compare cmp key Cmp_E (Node i d p b l r) =
     (case Cmp_E of
        BOF_CMP_LESS \<Rightarrow> if l = NullNode then BOF_CMP_EQUAL else BOF_CMP_LESS
      | BOF_CMP_GREATER \<Rightarrow> if r = NullNode then BOF_CMP_EQUAL else BOF_CMP_GREATER
      | _ \<Rightarrow> cmp key d)"

section \<open>Rotations\<close>

fun BofAvlNode_RotateOnce :: "'k BofAvlNode \<Rightarrow> WHICHAVLSUBTREE \<Rightarrow> ('k BofAvlNode \<times> int) outcome" where
  "BofAvlNode_RotateOnce (Node i d p b l (Node j e q c rl rr)) LEFTSUBTREE =
     Ret (Node j e p (c - 1)
            (Node i d (Some j) (- (c - 1)) l (BofAvlNode_SetParent (Some i) rl)) rr,
          if c = 0 then 0 else 1)"
| "BofAvlNode_RotateOnce (Node i d p b (Node j e q c ll lr) r) RIGHTSUBTREE =
     Ret (Node j e p (c + 1) ll
            (Node i d (Some j) (- (c + 1)) (BofAvlNode_SetParent (Some i) lr) r),
          if c = 0 then 0 else 1)"
| "BofAvlNode_RotateOnce _ _ = Undefined"

fun BofAvlNode_RotateTwice :: "'k BofAvlNode \<Rightarrow> WHICHAVLSUBTREE \<Rightarrow> ('k BofAvlNode \<times> int) outcome" where
  "BofAvlNode_RotateTwice (Node i d p b l (Node j e q c (Node m f s g ml mr) rr)) LEFTSUBTREE =
     Ret (Node m f p 0
            (Node i d (Some m) (- max g 0) l (BofAvlNode_SetParent (Some i) ml))
            (Node j e (Some m) (- min g 0) (BofAvlNode_SetParent (Some j) mr) rr),
          1)"
| "BofAvlNode_RotateTwice (Node i d p b (Node j e q c ll (Node m f s g ml mr)) r) RIGHTSUBTREE =
     Ret (Node m f p 0
            (Node j e (Some m) (- max g 0) ll (BofAvlNode_SetParent (Some j) ml))
            (Node i d (Some m) (- min g 0) (BofAvlNode_SetParent (Some i) mr) r),
          1)"
| "BofAvlNode_RotateTwice _ _ = Undefined"

fun BofAvlNode_ReBalance :: "'k BofAvlNode \<Rightarrow> ('k BofAvlNode \<times> int) outcome" where
  "BofAvlNode_ReBalance NullNode = Undefined"
| "BofAvlNode_ReBalance (Node i d p b l r) =
     (if LEFT_IMBALANCE b then
        (case l of
           NullNode \<Rightarrow> Undefined
         | Node j e q c ll lr \<Rightarrow>
             if c = 1 then BofAvlNode_RotateTwice (Node i d p b l r) RIGHTSUBTREE
             else BofAvlNode_RotateOnce (Node i d p b l r) RIGHTSUBTREE)
      else if RIGHT_IMBALANCE b then
        (case r of
           NullNode \<Rightarrow> Undefined
         | Node j e q c rl rr \<Rightarrow>
             if c = - 1 then BofAvlNode_RotateTwice (Node i d p b l r) LEFTSUBTREE
             else BofAvlNode_RotateOnce (Node i d p b l r) LEFTSUBTREE)
      else Ret (Node i d p b l r, 0))"

section \<open>Insertion\<close>

text \<open>The three results of \<^verbatim>\<open>Insert\<close>: inserted, a node with an equal key, no free node.\<close>

datatype avl_insert = AvlInserted | AvlExists nat | AvlNoFreeNode

text \<open>
  The tail of \<^verbatim>\<open>Insert\<close>: with a changed subtree the balance moves by the increase,
  and the height changes when it leaves 0 and the rotation does not absorb it.
\<close>

definition avl_after_insert ::
  "int \<Rightarrow> nat list \<Rightarrow> nat \<Rightarrow> 'k \<Rightarrow> nat option \<Rightarrow> int \<Rightarrow> 'k BofAvlNode \<Rightarrow> 'k BofAvlNode \<Rightarrow>
     ('k BofAvlNode \<times> nat list \<times> int \<times> avl_insert) outcome" where
  "avl_after_insert Increase_S32 free i d p b l r =
     (let b = b + Increase_S32 in
      if Increase_S32 \<noteq> 0 \<and> b \<noteq> 0
      then bindO (BofAvlNode_ReBalance (Node i d p b l r))
             (\<lambda>(t, hc). Ret (t, free, 1 - hc, AvlInserted))
      else Ret (Node i d p b l r, free, 0, AvlInserted))"

fun BofAvlNode_Insert ::
  "'k avl_cmp \<Rightarrow> nat list \<Rightarrow> 'k \<Rightarrow> nat option \<Rightarrow> 'k BofAvlNode \<Rightarrow>
     ('k BofAvlNode \<times> nat list \<times> int \<times> avl_insert) outcome" where
  "BofAvlNode_Insert cmp free key parent NullNode =
     (case free of
        i # free \<Rightarrow> Ret (Node i key parent 0 NullNode NullNode, free, 1, AvlInserted)
      | [] \<Rightarrow> Ret (NullNode, [], 0, AvlNoFreeNode))"
| "BofAvlNode_Insert cmp free key parent (Node i d p b l r) =
     (let CmpResult_E = BofAvlNode_Compare cmp key BOF_CMP_EQUAL (Node i d p b l r) in
      if CmpResult_E \<noteq> BOF_CMP_EQUAL then
        if CmpResult_E = BOF_CMP_LESS then
          bindO (BofAvlNode_Insert cmp free key (Some i) l) (\<lambda>(l, free, Change_S32, res).
            if res = AvlInserted then avl_after_insert (cmp_val CmpResult_E * Change_S32) free i d p b l r
            else Ret (Node i d p b l r, free, Change_S32, res))
        else
          bindO (BofAvlNode_Insert cmp free key (Some i) r) (\<lambda>(r, free, Change_S32, res).
            if res = AvlInserted then avl_after_insert (cmp_val CmpResult_E * Change_S32) free i d p b l r
            else Ret (Node i d p b l r, free, Change_S32, res))
      else Ret (Node i d p b l r, free, 0, AvlExists i))"

section \<open>Deletion\<close>

definition avl_after_delete ::
  "int \<Rightarrow> nat list \<Rightarrow> 'k option \<Rightarrow> nat \<Rightarrow> 'k \<Rightarrow> nat option \<Rightarrow> int \<Rightarrow> 'k BofAvlNode \<Rightarrow> 'k BofAvlNode \<Rightarrow>
     ('k BofAvlNode \<times> nat list \<times> int \<times> 'k option) outcome" where
  "avl_after_delete Decrease_S32 free res i d p b l r =
     (let b = b - Decrease_S32 in
      if Decrease_S32 \<noteq> 0 then
        if b \<noteq> 0
        then bindO (BofAvlNode_ReBalance (Node i d p b l r)) (\<lambda>(t, hc). Ret (t, free, hc, res))
        else Ret (Node i d p b l r, free, 1, res)
      else Ret (Node i d p b l r, free, 0, res))"

text \<open>An only child takes the place of its parent; its own subtree pointers are set to null.\<close>

fun avl_only_child :: "nat option \<Rightarrow> 'k BofAvlNode \<Rightarrow> 'k BofAvlNode" where
  "avl_only_child p NullNode = NullNode"
| "avl_only_child p (Node i d _ b l r) = Node i d p b NullNode NullNode"

fun BofAvlNode_Delete ::
  "'k avl_cmp \<Rightarrow> nat list \<Rightarrow> 'k \<Rightarrow> BOFCMP \<Rightarrow> 'k BofAvlNode \<Rightarrow>
     ('k BofAvlNode \<times> nat list \<times> int \<times> 'k option) outcome" where
  "BofAvlNode_Delete cmp free key Cmp_E NullNode = Ret (NullNode, free, 0, None)"
| "BofAvlNode_Delete cmp free key Cmp_E (Node i d p b l r) =
     (let CmpResult_E = BofAvlNode_Compare cmp key Cmp_E (Node i d p b l r) in
      if CmpResult_E \<noteq> BOF_CMP_EQUAL then
        if CmpResult_E = BOF_CMP_LESS then
          bindO (BofAvlNode_Delete cmp free key Cmp_E l) (\<lambda>(l, free, Change_S32, res).
            if res \<noteq> None then avl_after_delete (cmp_val CmpResult_E * Change_S32) free res i d p b l r
            else Ret (Node i d p b l r, free, Change_S32, None))
        else
          bindO (BofAvlNode_Delete cmp free key Cmp_E r) (\<lambda>(r, free, Change_S32, res).
            if res \<noteq> None then avl_after_delete (cmp_val CmpResult_E * Change_S32) free res i d p b l r
            else Ret (Node i d p b l r, free, Change_S32, None))
      else if l = NullNode \<and> r = NullNode then Ret (NullNode, i # free, 1, Some d)
      else if l = NullNode \<or> r = NullNode then
        Ret (avl_only_child p (if r \<noteq> NullNode then r else l), i # free, 1, Some d)
      else
        bindO (BofAvlNode_Delete cmp free key BOF_CMP_LESS r) (\<lambda>(r, free, Decrease_S32, pSuccessor).
          case pSuccessor of
            Some s \<Rightarrow> avl_after_delete Decrease_S32 free (Some d) i s p b l r
          | None \<Rightarrow> Undefined))"

section \<open>Search and traversal\<close>

text \<open>The node at an address.\<close>

fun avl_find :: "nat \<Rightarrow> 'k BofAvlNode \<Rightarrow> 'k BofAvlNode" where
  "avl_find a NullNode = NullNode"
| "avl_find a (Node i d p b l r) =
     (if a = i then Node i d p b l r
      else case avl_find a l of NullNode \<Rightarrow> avl_find a r | n \<Rightarrow> n)"

text \<open>The plain descent of \<^verbatim>\<open>Search\<close>, which ends on the criterion or on a null pointer.\<close>

fun avl_descend :: "'k avl_cmp \<Rightarrow> 'k \<Rightarrow> BOFCMP \<Rightarrow> 'k BofAvlNode \<Rightarrow> 'k BofAvlNode" where
  "avl_descend cmp key Cmp_E NullNode = NullNode"
| "avl_descend cmp key Cmp_E (Node i d p b l r) =
     (let CmpResult_E = BofAvlNode_Compare cmp key Cmp_E (Node i d p b l r) in
      if CmpResult_E \<noteq> Cmp_E
      then if CmpResult_E = BOF_CMP_LESS then avl_descend cmp key Cmp_E l else avl_descend cmp key Cmp_E r
      else Node i d p b l r)"

text \<open>The descent that remembers the previous node and how the key compared to it.\<close>

fun avl_descend_prev ::
  "'k avl_cmp \<Rightarrow> 'k \<Rightarrow> 'k BofAvlNode \<times> BOFCMP \<Rightarrow> 'k BofAvlNode \<Rightarrow> 'k BofAvlNode \<times> 'k BofAvlNode \<times> BOFCMP" where
  "avl_descend_prev cmp key prev NullNode = (NullNode, prev)"
| "avl_descend_prev cmp key prev (Node i d p b l r) =
     (let CmpResult_E = BofAvlNode_Compare cmp key BOF_CMP_EQUAL (Node i d p b l r) in
      if CmpResult_E \<noteq> BOF_CMP_EQUAL
      then if CmpResult_E = BOF_CMP_LESS then avl_descend_prev cmp key (Node i d p b l r, CmpResult_E) l
           else avl_descend_prev cmp key (Node i d p b l r, CmpResult_E) r
      else (Node i d p b l r, prev))"

text \<open>
  The loop that climbs from a node through the parent pointers to the first
  ancestor to which the key compares as \<open>want\<close>. The fuel bounds the turns; a
  climb that runs out of it is \<open>Retrying\<close>.
\<close>

fun avl_climb :: "nat \<Rightarrow> 'k avl_cmp \<Rightarrow> 'k \<Rightarrow> BOFCMP \<Rightarrow> 'k BofAvlNode \<Rightarrow> 'k BofAvlNode \<Rightarrow> 'k BofAvlNode outcome" where
  "avl_climb 0 cmp key want root node = Retrying"
| "avl_climb (Suc fuel) cmp key want root node =
     (case node of
        NullNode \<Rightarrow> Undefined
      | Node i d p b l r \<Rightarrow>
          (case p of
             None \<Rightarrow> Ret NullNode
           | Some a \<Rightarrow>
               (let parent = avl_find a root in
                if parent = NullNode then Undefined
                else if BofAvlNode_Compare cmp key BOF_CMP_EQUAL parent = want then Ret parent
                else avl_climb fuel cmp key want root parent)))"

definition BofAvlNode_Search ::
  "nat \<Rightarrow> 'k avl_cmp \<Rightarrow> 'k \<Rightarrow> 'k BofAvlNode \<Rightarrow> BOFCMP \<Rightarrow> 'k BofAvlNode outcome" where
  "BofAvlNode_Search fuel cmp key root Cmp_E =
     (if Cmp_E = BOF_CMP_LESSOREQUAL \<or> Cmp_E = BOF_CMP_GREATEROREQUAL then
        (case avl_descend_prev cmp key (NullNode, BOF_CMP_EQUAL) root of (found, prev, PrevCmpResult_E) \<Rightarrow>
           if found \<noteq> NullNode then Ret found
           else if prev = NullNode then Ret NullNode
           else let want = (if Cmp_E = BOF_CMP_GREATEROREQUAL then BOF_CMP_LESS else BOF_CMP_GREATER)
                in if PrevCmpResult_E = want then Ret prev
                   else avl_climb fuel cmp key want root prev)
      else Ret (avl_descend cmp key Cmp_E root))"

fun avl_leftmost :: "'k BofAvlNode \<Rightarrow> 'k BofAvlNode" where
  "avl_leftmost NullNode = NullNode"
| "avl_leftmost (Node i d p b l r) = (if l = NullNode then Node i d p b l r else avl_leftmost l)"

fun avl_rightmost :: "'k BofAvlNode \<Rightarrow> 'k BofAvlNode" where
  "avl_rightmost NullNode = NullNode"
| "avl_rightmost (Node i d p b l r) = (if r = NullNode then Node i d p b l r else avl_rightmost r)"

text \<open>
  The climb of \<^verbatim>\<open>GetNext\<close> and \<^verbatim>\<open>GetPrevious\<close>, which compares the data of the node it
  stands on with the parent.
\<close>

fun avl_climb_data :: "nat \<Rightarrow> 'k avl_cmp \<Rightarrow> BOFCMP \<Rightarrow> 'k BofAvlNode \<Rightarrow> 'k BofAvlNode \<Rightarrow> 'k BofAvlNode outcome" where
  "avl_climb_data 0 cmp want root node = Retrying"
| "avl_climb_data (Suc fuel) cmp want root node =
     (case node of
        NullNode \<Rightarrow> Undefined
      | Node i d p b l r \<Rightarrow>
          (case p of
             None \<Rightarrow> Ret NullNode
           | Some a \<Rightarrow>
               (let parent = avl_find a root in
                if parent = NullNode then Undefined
                else if BofAvlNode_Compare cmp d BOF_CMP_EQUAL parent = want then Ret parent
                else avl_climb_data fuel cmp want root parent)))"

section \<open>The tree object\<close>

record 'k BofAvlTree =
  avt_mpRoot :: "'k BofAvlNode"
  avt_mNbNode_U32 :: u32
  avt_mNbMaxElement_U32 :: u32
  avt_free :: "nat list"

definition BofAvlTree_ctor :: "u32 \<Rightarrow> 'k BofAvlTree \<times> BOFERR" where
  "BofAvlTree_ctor NbMaxElement_U32 =
     (\<lparr>avt_mpRoot = NullNode, avt_mNbNode_U32 = 0, avt_mNbMaxElement_U32 = NbMaxElement_U32,
       avt_free = [0..<unat NbMaxElement_U32]\<rparr>,
      if NbMaxElement_U32 \<noteq> 0 then BOF_ERR_NO_ERROR else BOF_ERR_EINVAL)"

definition BofAvlTree_IsEmpty :: "'k BofAvlTree \<Rightarrow> bool" where
  "BofAvlTree_IsEmpty t = (avt_mNbNode_U32 t = 0)"

definition BofAvlTree_IsFull :: "'k BofAvlTree \<Rightarrow> bool" where
  "BofAvlTree_IsFull t = (avt_mNbNode_U32 t = avt_mNbMaxElement_U32 t)"

definition BofAvlTree_Clear :: "'k BofAvlTree \<Rightarrow> 'k BofAvlTree" where
  "BofAvlTree_Clear t = t\<lparr>avt_mNbNode_U32 := 0, avt_mpRoot := NullNode,
     avt_free := [0..<unat (avt_mNbMaxElement_U32 t)]\<rparr>"

definition BofAvlTree_GetNbNode :: "'k BofAvlTree \<Rightarrow> u32" where
  "BofAvlTree_GetNbNode t = avt_mNbNode_U32 t"

definition BofAvlTree_GetNextFreeNode :: "'k BofAvlTree \<Rightarrow> 'k BofAvlTree \<times> nat option" where
  "BofAvlTree_GetNextFreeNode t =
     (case avt_free t of [] \<Rightarrow> (t, None) | i # free \<Rightarrow> (t\<lparr>avt_free := free\<rparr>, Some i))"

definition BofAvlTree_SetNextFreeNode :: "'k BofAvlTree \<Rightarrow> nat \<Rightarrow> 'k BofAvlTree" where
  "BofAvlTree_SetNextFreeNode t i = t\<lparr>avt_free := i # avt_free t\<rparr>"

text \<open>The number of nodes is enough fuel for a climb.\<close>

fun avl_count :: "'k BofAvlNode \<Rightarrow> nat" where
  "avl_count NullNode = 0"
| "avl_count (Node i d p b l r) = avl_count l + avl_count r + 1"

definition avl_fuel :: "'k BofAvlTree \<Rightarrow> nat" where
  "avl_fuel t = avl_count (avt_mpRoot t)"

definition BofAvlTree_Search :: "'k avl_cmp \<Rightarrow> 'k BofAvlTree \<Rightarrow> 'k \<Rightarrow> BOFCMP \<Rightarrow> 'k BofAvlNode outcome" where
  "BofAvlTree_Search cmp t key Cmp_E = BofAvlNode_Search (avl_fuel t) cmp key (avt_mpRoot t) Cmp_E"

definition BofAvlTree_Insert :: "'k avl_cmp \<Rightarrow> 'k BofAvlTree \<Rightarrow> 'k \<Rightarrow> ('k BofAvlTree \<times> avl_insert) outcome" where
  "BofAvlTree_Insert cmp t key =
     bindO (BofAvlNode_Insert cmp (avt_free t) key None (avt_mpRoot t)) (\<lambda>(root, free, Change_S32, res).
       let t = t\<lparr>avt_mpRoot := root, avt_free := free\<rparr>
       in Ret (if res = AvlInserted then t\<lparr>avt_mNbNode_U32 := avt_mNbNode_U32 t + 1\<rparr> else t, res))"

definition BofAvlTree_Delete ::
  "'k avl_cmp \<Rightarrow> 'k BofAvlTree \<Rightarrow> 'k \<Rightarrow> BOFCMP \<Rightarrow> ('k BofAvlTree \<times> 'k option) outcome" where
  "BofAvlTree_Delete cmp t key Cmp_E =
     bindO (BofAvlNode_Delete cmp (avt_free t) key Cmp_E (avt_mpRoot t)) (\<lambda>(root, free, Change_S32, res).
       let t = t\<lparr>avt_mpRoot := root, avt_free := free\<rparr>
       in Ret (if res \<noteq> None then t\<lparr>avt_mNbNode_U32 := avt_mNbNode_U32 t - 1\<rparr> else t, res))"

definition BofAvlTree_GetFirst :: "'k BofAvlTree \<Rightarrow> 'k BofAvlNode" where
  "BofAvlTree_GetFirst t = avl_leftmost (avt_mpRoot t)"

definition BofAvlTree_GetLast :: "'k BofAvlTree \<Rightarrow> 'k BofAvlNode" where
  "BofAvlTree_GetLast t = avl_rightmost (avt_mpRoot t)"

definition BofAvlTree_GetNext :: "'k avl_cmp \<Rightarrow> 'k BofAvlTree \<Rightarrow> 'k BofAvlNode \<Rightarrow> 'k BofAvlNode outcome" where
  "BofAvlTree_GetNext cmp t node =
     (if node = NullNode then Ret NullNode
      else if avl_right node = NullNode then avl_climb_data (avl_fuel t) cmp BOF_CMP_LESS (avt_mpRoot t) node
      else Ret (avl_leftmost (avl_right node)))"

definition BofAvlTree_GetPrevious :: "'k avl_cmp \<Rightarrow> 'k BofAvlTree \<Rightarrow> 'k BofAvlNode \<Rightarrow> 'k BofAvlNode outcome" where
  "BofAvlTree_GetPrevious cmp t node =
     (if node = NullNode then Ret NullNode
      else if avl_left node = NullNode then avl_climb_data (avl_fuel t) cmp BOF_CMP_GREATER (avt_mpRoot t) node
      else Ret (avl_rightmost (avl_left node)))"

section \<open>The integrity check\<close>

fun BofAvlNode_Check :: "'k avl_cmp \<Rightarrow> 'k BofAvlNode \<Rightarrow> u32 \<Rightarrow> bool \<times> u32" where
  "BofAvlNode_Check cmp NullNode NbNode = (True, NbNode)"
| "BofAvlNode_Check cmp (Node i d p b l r) NbNode =
     (let (okl, NbNode) = (if l \<noteq> NullNode then BofAvlNode_Check cmp l (NbNode + 1) else (True, NbNode));
          (okr, NbNode) = (if r \<noteq> NullNode then BofAvlNode_Check cmp r (NbNode + 1) else (True, NbNode));
          DiffHeight_S32 = BofAvlNode_GetHeight r - BofAvlNode_GetHeight l
      in (okl \<and> okr \<and> \<not> LEFT_IMBALANCE DiffHeight_S32 \<and> \<not> RIGHT_IMBALANCE DiffHeight_S32
          \<and> DiffHeight_S32 = b
          \<and> \<not> (l \<noteq> NullNode \<and> BofAvlNode_Compare cmp d BOF_CMP_EQUAL l = BOF_CMP_LESS)
          \<and> \<not> (r \<noteq> NullNode \<and> BofAvlNode_Compare cmp d BOF_CMP_EQUAL r = BOF_CMP_GREATER)
          \<and> \<not> (l \<noteq> NullNode \<and> avl_parent l \<noteq> None \<and> avl_parent l \<noteq> Some i)
          \<and> \<not> (r \<noteq> NullNode \<and> avl_parent r \<noteq> None \<and> avl_parent r \<noteq> Some i), NbNode))"

definition BofAvlTree_Check :: "'k avl_cmp \<Rightarrow> 'k BofAvlTree \<Rightarrow> u32 \<Rightarrow> bool \<times> u32" where
  "BofAvlTree_Check cmp t NbNode =
     (if avt_mpRoot t \<noteq> NullNode then
        (case BofAvlNode_Check cmp (avt_mpRoot t) (NbNode + 1) of (ok, NbNode) \<Rightarrow>
           (ok \<and> avt_mNbMaxElement_U32 t - of_nat (min (length (avt_free t)) (unat (avt_mNbMaxElement_U32 t)))
                  = avt_mNbNode_U32 t, NbNode))
      else (True, NbNode))"

end
