(* ===== verification/Bof_Index_Spec.thy ===== *)
theory Bof_Index_Spec
  imports Bof_Prelude
begin

text \<open>
  The contract of a bounded sorted index without duplicate keys, stated on the
  list of its records in key order. A client run is a list of insertions and
  deletions; inside the locale every run of an implementation is proved to
  return and to answer as the sorted list does.
\<close>

definition list_insert_by :: "('k \<Rightarrow> 'o::linorder) \<Rightarrow> 'k \<Rightarrow> 'k list \<Rightarrow> 'k list" where
  "list_insert_by key_of k xs = filter (\<lambda>d. key_of d < key_of k) xs @ k # filter (\<lambda>d. key_of k < key_of d) xs"

definition list_delete_by :: "('k \<Rightarrow> 'o::linorder) \<Rightarrow> 'k \<Rightarrow> 'k list \<Rightarrow> 'k list" where
  "list_delete_by key_of k xs = filter (\<lambda>d. key_of d \<noteq> key_of k) xs"

definition list_lookup_by :: "('k \<Rightarrow> 'o::linorder) \<Rightarrow> 'k \<Rightarrow> 'k list \<Rightarrow> 'k option" where
  "list_lookup_by key_of k xs = List.find (\<lambda>d. key_of d = key_of k) xs"

datatype 'k index_op = IndexInsert 'k | IndexDelete 'k

datatype 'k index_reply = IndexAdded | IndexPresent | IndexNoRoom | IndexRemoved 'k | IndexAbsent

fun index_step :: "nat \<Rightarrow> ('k \<Rightarrow> 'o::linorder) \<Rightarrow> 'k index_op \<Rightarrow> 'k list \<Rightarrow> 'k list \<times> 'k index_reply" where
  "index_step n key_of (IndexInsert k) xs =
     (case list_lookup_by key_of k xs of
        Some d \<Rightarrow> (xs, IndexPresent)
      | None \<Rightarrow> if length xs < n then (list_insert_by key_of k xs, IndexAdded) else (xs, IndexNoRoom))"
| "index_step n key_of (IndexDelete k) xs =
     (case list_lookup_by key_of k xs of
        Some d \<Rightarrow> (list_delete_by key_of k xs, IndexRemoved d)
      | None \<Rightarrow> (xs, IndexAbsent))"

fun index_run :: "nat \<Rightarrow> ('k \<Rightarrow> 'o::linorder) \<Rightarrow> 'k index_op list \<Rightarrow> 'k list \<Rightarrow> 'k list \<times> 'k index_reply list" where
  "index_run n key_of [] xs = (xs, [])"
| "index_run n key_of (op # ops) xs =
     (case index_step n key_of op xs of (xs, r) \<Rightarrow>
        (case index_run n key_of ops xs of (xs, rs) \<Rightarrow> (xs, r # rs)))"

text \<open>A run of an implementation given by its two operations.\<close>

fun index_impl_run ::
  "('k index_op \<Rightarrow> 's \<Rightarrow> ('s \<times> 'k index_reply) outcome) \<Rightarrow> 'k index_op list \<Rightarrow> 's \<Rightarrow> ('s \<times> 'k index_reply list) outcome" where
  "index_impl_run step [] s = Ret (s, [])"
| "index_impl_run step (op # ops) s =
     bindO (step op s) (\<lambda>(s, r). bindO (index_impl_run step ops s) (\<lambda>(s, rs). Ret (s, r # rs)))"

text \<open>The abstract index keeps its records sorted and distinct.\<close>

definition index_sorted :: "('k \<Rightarrow> 'o::linorder) \<Rightarrow> 'k list \<Rightarrow> bool" where
  "index_sorted key_of xs \<longleftrightarrow> sorted_wrt (\<lambda>x y. key_of x < key_of y) xs"

lemma list_insert_by_sorted: "index_sorted key_of xs \<Longrightarrow> index_sorted key_of (list_insert_by key_of k xs)"
  by (auto simp: index_sorted_def list_insert_by_def sorted_wrt_append sorted_wrt_filter)

lemma list_delete_by_sorted: "index_sorted key_of xs \<Longrightarrow> index_sorted key_of (list_delete_by key_of k xs)"
  by (auto simp: index_sorted_def list_delete_by_def sorted_wrt_filter)

locale sorted_index =
  fixes inv :: "'s \<Rightarrow> bool"
    and contents :: "'s \<Rightarrow> 'k list"
    and cap :: "'s \<Rightarrow> nat"
    and key_of :: "'k \<Rightarrow> 'o::linorder"
    and step :: "'k index_op \<Rightarrow> 's \<Rightarrow> ('s \<times> 'k index_reply) outcome"
  assumes contents_sorted: "inv s \<Longrightarrow> index_sorted key_of (contents s)"
    and contents_cap: "inv s \<Longrightarrow> length (contents s) \<le> cap s"
    and step_ok: "inv s \<Longrightarrow> \<exists>s' r. step op s = Ret (s', r) \<and> inv s' \<and> cap s' = cap s \<and>
      index_step (cap s) key_of op (contents s) = (contents s', r)"
begin

lemma run_refines:
  assumes "inv s"
  shows "\<exists>s' rs. index_impl_run step ops s = Ret (s', rs) \<and> inv s' \<and> cap s' = cap s \<and>
    index_run (cap s) key_of ops (contents s) = (contents s', rs)"
  using assms
proof (induction ops arbitrary: s)
  case (Cons op ops)
  obtain s1 r where s1: "step op s = Ret (s1, r)" "inv s1" "cap s1 = cap s"
    "index_step (cap s) key_of op (contents s) = (contents s1, r)" using step_ok [OF Cons.prems, of op] by blast
  obtain s2 rs where "index_impl_run step ops s1 = Ret (s2, rs)" "inv s2" "cap s2 = cap s1"
    "index_run (cap s1) key_of ops (contents s1) = (contents s2, rs)" using Cons.IH [OF s1(2)] by blast
  then show ?case using s1 by simp
qed simp

end

end
