(* ===== verification/Bof_Avl_Proofs.thy ===== *)
theory Bof_Avl_Proofs
  imports Bof_Avl Bof_Index_Spec
begin

text \<open>
  Correctness of the AVL tree: the stored balances are the height differences
  of the subtrees and stay between -1 and 1, the data stay sorted, the parent
  pointers stay exact, no node is lost, and the tree behaves as a sorted list.
\<close>

section \<open>Views of a tree\<close>

fun avl_inorder :: "'k BofAvlNode \<Rightarrow> 'k list" where
  "avl_inorder NullNode = []"
| "avl_inorder (Node i d p b l r) = avl_inorder l @ d # avl_inorder r"

fun avl_ids :: "'k BofAvlNode \<Rightarrow> nat set" where
  "avl_ids NullNode = {}"
| "avl_ids (Node i d p b l r) = insert i (avl_ids l \<union> avl_ids r)"

text \<open>The stored balance of every node is the difference of the heights, and is in range.\<close>

fun avl_balanced :: "'k BofAvlNode \<Rightarrow> bool" where
  "avl_balanced NullNode = True"
| "avl_balanced (Node i d p b l r) \<longleftrightarrow> avl_balanced l \<and> avl_balanced r \<and>
     b = BofAvlNode_GetHeight r - BofAvlNode_GetHeight l \<and> - 1 \<le> b \<and> b \<le> 1"

text \<open>Every node but the root has the address of its parent.\<close>

fun avl_linked :: "nat option \<Rightarrow> 'k BofAvlNode \<Rightarrow> bool" where
  "avl_linked q NullNode = True"
| "avl_linked q (Node i d p b l r) \<longleftrightarrow> p = q \<and> avl_linked (Some i) l \<and> avl_linked (Some i) r"

text \<open>No address is used twice.\<close>

fun avl_distinct :: "'k BofAvlNode \<Rightarrow> bool" where
  "avl_distinct NullNode = True"
| "avl_distinct (Node i d p b l r) \<longleftrightarrow> avl_distinct l \<and> avl_distinct r \<and> i \<notin> avl_ids l \<and> i \<notin> avl_ids r \<and>
     avl_ids l \<inter> avl_ids r = {}"

text \<open>What the tree asks of the comparison: it is that of a linear order on a key of the record.\<close>

definition avl_cmp_by :: "'k avl_cmp \<Rightarrow> ('k \<Rightarrow> 'o::linorder) \<Rightarrow> bool" where
  "avl_cmp_by cmp key_of \<longleftrightarrow> (\<forall>k d. cmp k d =
     (if key_of k < key_of d then BOF_CMP_LESS else if key_of k = key_of d then BOF_CMP_EQUAL else BOF_CMP_GREATER))"

fun avl_sorted :: "('k \<Rightarrow> 'o::linorder) \<Rightarrow> 'k BofAvlNode \<Rightarrow> bool" where
  "avl_sorted key_of NullNode = True"
| "avl_sorted key_of (Node i d p b l r) \<longleftrightarrow> avl_sorted key_of l \<and> avl_sorted key_of r \<and>
     (\<forall>x \<in> set (avl_inorder l). key_of x < key_of d) \<and> (\<forall>x \<in> set (avl_inorder r). key_of d < key_of x)"

lemma height_nonneg [simp]: "0 \<le> BofAvlNode_GetHeight t"
  by (induction t) auto

lemma height_0 [simp]: "BofAvlNode_GetHeight t = 0 \<longleftrightarrow> t = NullNode"
proof (cases t)
  case (Node i d p b l r)
  have "0 \<le> max (BofAvlNode_GetHeight l) (BofAvlNode_GetHeight r)" by (simp add: le_max_iff_disj)
  with Node show ?thesis by simp
qed simp

lemma height_neq_0: "BofAvlNode_GetHeight t \<noteq> 0 \<Longrightarrow> t \<noteq> NullNode"
  by auto

lemma height_pos: "t \<noteq> NullNode \<Longrightarrow> 1 \<le> BofAvlNode_GetHeight t"
  using height_nonneg [of t] height_0 [of t] by linarith

lemma SetParent_views [simp]:
  "avl_inorder (BofAvlNode_SetParent q t) = avl_inorder t"
  "avl_ids (BofAvlNode_SetParent q t) = avl_ids t"
  "avl_balanced (BofAvlNode_SetParent q t) = avl_balanced t"
  "BofAvlNode_GetHeight (BofAvlNode_SetParent q t) = BofAvlNode_GetHeight t"
  "avl_distinct (BofAvlNode_SetParent q t) = avl_distinct t"
  "avl_count (BofAvlNode_SetParent q t) = avl_count t"
  "avl_sorted key_of (BofAvlNode_SetParent q t) = avl_sorted key_of t"
  "avl_linked p t \<Longrightarrow> avl_linked q (BofAvlNode_SetParent q t)"
  by (cases t; simp)+

section \<open>Rotations\<close>

text \<open>The two trees have the same data in the same order, the same addresses and a sound shape.\<close>

definition avl_same :: "'k BofAvlNode \<Rightarrow> 'k BofAvlNode \<Rightarrow> bool" where
  "avl_same t t' \<longleftrightarrow> avl_inorder t' = avl_inorder t \<and> avl_ids t' = avl_ids t \<and> avl_count t' = avl_count t \<and>
     (\<forall>q. avl_linked q t \<longrightarrow> avl_linked q t') \<and> (avl_distinct t \<longrightarrow> avl_distinct t')"

lemma RotateOnce_same:
  "BofAvlNode_RotateOnce t dir = Ret (t', hc) \<Longrightarrow> avl_same t t'"
  by (induction t dir rule: BofAvlNode_RotateOnce.induct) (auto simp: avl_same_def)

lemma RotateTwice_same:
  "BofAvlNode_RotateTwice t dir = Ret (t', hc) \<Longrightarrow> avl_same t t'"
  by (induction t dir rule: BofAvlNode_RotateTwice.induct) (auto simp: avl_same_def)

lemma avl_same_refl [simp]: "avl_same t t"
  by (simp add: avl_same_def)

lemma ReBalance_same:
  "BofAvlNode_ReBalance t = Ret (t', hc) \<Longrightarrow> avl_same t t'"
  by (cases t) (auto dest: RotateOnce_same RotateTwice_same split: if_splits BofAvlNode.splits
      simp del: BofAvlNode_RotateOnce.simps BofAvlNode_RotateTwice.simps)

text \<open>
  Rebalancing a node whose subtrees are balanced and whose stored balance is
  off by at most one always succeeds, and reports the change of the height.
\<close>

lemma ReBalance_ok:
  assumes "avl_balanced l" "avl_balanced r" "b = BofAvlNode_GetHeight r - BofAvlNode_GetHeight l" "- 2 \<le> b" "b \<le> 2"
  shows "\<exists>t' hc. BofAvlNode_ReBalance (Node i d p b l r) = Ret (t', hc) \<and> avl_balanced t' \<and> 0 \<le> hc \<and> hc \<le> 1 \<and>
    BofAvlNode_GetHeight t' = BofAvlNode_GetHeight (Node i d p b l r) - hc"
proof -
  consider "- 1 \<le> b" "b \<le> 1" | "b = - 2" | "b = 2" using assms(4,5) by linarith
  then show ?thesis
  proof cases
    case 1
    then show ?thesis using assms by (simp add: LEFT_IMBALANCE_def RIGHT_IMBALANCE_def)
  next
    case 2
    then have "BofAvlNode_GetHeight l \<noteq> 0" using assms(3) height_nonneg [of r] by linarith
    then have "l \<noteq> NullNode" by (rule height_neq_0)
    then obtain j e q c ll lr where l: "l = Node j e q c ll lr" by (cases l) auto
    show ?thesis
    proof (cases "c = 1")
      case True
      then have "BofAvlNode_GetHeight lr = 1 + BofAvlNode_GetHeight ll" using assms(1) l by simp
      then have "BofAvlNode_GetHeight lr \<noteq> 0" using height_nonneg [of ll] by linarith
      then have "lr \<noteq> NullNode" by (rule height_neq_0)
      then obtain m f s g ml mr where "lr = Node m f s g ml mr" by (cases lr) auto
      then show ?thesis using 2 True l assms by (auto simp: LEFT_IMBALANCE_def max_def min_def split: if_splits)
    next
      case False
      then show ?thesis using 2 l assms by (auto simp: LEFT_IMBALANCE_def max_def split: if_splits)
    qed
  next
    case 3
    then have "BofAvlNode_GetHeight r \<noteq> 0" using assms(3) height_nonneg [of l] by linarith
    then have "r \<noteq> NullNode" by (rule height_neq_0)
    then obtain j e q c rl rr where r: "r = Node j e q c rl rr" by (cases r) auto
    show ?thesis
    proof (cases "c = - 1")
      case True
      then have "BofAvlNode_GetHeight rl = 1 + BofAvlNode_GetHeight rr" using assms(2) r by simp
      then have "BofAvlNode_GetHeight rl \<noteq> 0" using height_nonneg [of rr] by linarith
      then have "rl \<noteq> NullNode" by (rule height_neq_0)
      then obtain m f s g ml mr where "rl = Node m f s g ml mr" by (cases rl) auto
      then show ?thesis using 3 True r assms
        by (auto simp: LEFT_IMBALANCE_def RIGHT_IMBALANCE_def max_def min_def split: if_splits)
    next
      case False
      then show ?thesis using 3 r assms
        by (auto simp: LEFT_IMBALANCE_def RIGHT_IMBALANCE_def max_def split: if_splits)
    qed
  qed
qed

section \<open>Insertion\<close>

lemma avl_sorted_iff: "avl_sorted key_of t \<longleftrightarrow> sorted_wrt (\<lambda>x y. key_of x < key_of y) (avl_inorder t)"
  by (induction t) (auto simp: sorted_wrt_append intro: less_trans)

lemma avl_after_insert_ok:
  assumes "avl_balanced l" "avl_balanced r" "b + inc = BofAvlNode_GetHeight r - BofAvlNode_GetHeight l"
    "- 1 \<le> b" "b \<le> 1" "- 1 \<le> inc" "inc \<le> 1"
    "old = 1 + max (BofAvlNode_GetHeight l - (if inc = - 1 then 1 else 0)) (BofAvlNode_GetHeight r - (if inc = 1 then 1 else 0))"
  shows "\<exists>t' ch. avl_after_insert inc free i d p b l r = Ret (t', free, ch, AvlInserted) \<and> avl_balanced t' \<and>
    0 \<le> ch \<and> ch \<le> 1 \<and> BofAvlNode_GetHeight t' = old + ch \<and> avl_same (Node i d p b l r) t'"
proof (cases "inc \<noteq> 0 \<and> b + inc \<noteq> 0")
  case True
  obtain t' hc where t': "BofAvlNode_ReBalance (Node i d p (b + inc) l r) = Ret (t', hc)" "avl_balanced t'"
    "0 \<le> hc" "hc \<le> 1" "BofAvlNode_GetHeight t' = BofAvlNode_GetHeight (Node i d p (b + inc) l r) - hc"
    using ReBalance_ok [OF assms(1-3), of i d p] assms(4-7) by auto
  consider "inc = - 1" "b \<le> 0" | "inc = 1" "0 \<le> b" using True assms(4-7) by linarith
  then have "BofAvlNode_GetHeight (Node i d p (b + inc) l r) = old + 1"
    using assms(3,8) by cases (simp_all add: max_def)
  moreover have "avl_same (Node i d p b l r) t'" using ReBalance_same [OF t'(1)] by (simp add: avl_same_def)
  ultimately show ?thesis using t' True by (simp add: avl_after_insert_def)
next
  case False
  then consider "inc = 0" | "inc = - 1" "b = 1" | "inc = 1" "b = - 1" using assms(4-7) by linarith
  then have "BofAvlNode_GetHeight (Node i d p (b + inc) l r) = old \<and> - 1 \<le> b + inc \<and> b + inc \<le> 1"
    using assms(3-5,8) by cases (simp_all add: max_def)
  moreover have "avl_after_insert inc free i d p b l r = Ret (Node i d p (b + inc) l r, free, 0, AvlInserted)"
    using False by (auto simp: avl_after_insert_def Let_def)
  ultimately show ?thesis using assms(1-3) by (simp add: avl_same_def)
qed

text \<open>\<open>t'\<close> is \<open>t\<close> with the record \<open>k\<close> in a new node at address \<open>a\<close>, and is higher by \<open>ch\<close>.\<close>

definition avl_grown ::
  "('k \<Rightarrow> 'o::linorder) \<Rightarrow> 'k \<Rightarrow> nat \<Rightarrow> nat option \<Rightarrow> 'k BofAvlNode \<Rightarrow> 'k BofAvlNode \<Rightarrow> int \<Rightarrow> bool" where
  "avl_grown key_of k a q t t' ch \<longleftrightarrow> avl_balanced t' \<and> (ch = 0 \<or> ch = 1) \<and>
     BofAvlNode_GetHeight t' = BofAvlNode_GetHeight t + ch \<and>
     avl_inorder t' = list_insert_by key_of k (avl_inorder t) \<and>
     avl_ids t' = insert a (avl_ids t) \<and> avl_count t' = avl_count t + 1 \<and>
     (avl_linked q t \<longrightarrow> avl_linked q t') \<and> (avl_distinct t \<longrightarrow> a \<notin> avl_ids t \<longrightarrow> avl_distinct t')"

lemma list_insert_by_left:
  assumes "\<forall>x \<in> set rs. key_of d < key_of x" "key_of k < key_of d"
  shows "list_insert_by key_of k (ls @ d # rs) = list_insert_by key_of k ls @ d # rs"
proof -
  have "filter (\<lambda>x. key_of x < key_of k) rs = []" "filter (\<lambda>x. key_of k < key_of x) rs = rs"
    using assms by (fastforce simp: filter_empty_conv filter_id_conv)+
  then show ?thesis using assms(2) by (simp add: list_insert_by_def)
qed

lemma list_insert_by_right:
  assumes "\<forall>x \<in> set ls. key_of x < key_of d" "key_of d < key_of k"
  shows "list_insert_by key_of k (ls @ d # rs) = ls @ d # list_insert_by key_of k rs"
proof -
  have "filter (\<lambda>x. key_of k < key_of x) ls = []" "filter (\<lambda>x. key_of x < key_of k) ls = ls"
    using assms by (fastforce simp: filter_empty_conv filter_id_conv)+
  then show ?thesis using assms(2) by (simp add: list_insert_by_def)
qed

lemma avl_grown_left:
  assumes "avl_grown key_of k a (Some i) l l' ch" "avl_balanced (Node i d p b l r)"
    "avl_sorted key_of (Node i d p b l r)" "key_of k < key_of d"
  shows "\<exists>t' ch'. avl_after_insert (- ch) free i d p b l' r = Ret (t', free, ch', AvlInserted) \<and>
    avl_grown key_of k a q (Node i d p b l r) t' ch'"
proof -
  note g = assms(1) [unfolded avl_grown_def]
  have "\<exists>t' ch'. avl_after_insert (- ch) free i d p b l' r = Ret (t', free, ch', AvlInserted) \<and> avl_balanced t' \<and>
    0 \<le> ch' \<and> ch' \<le> 1 \<and> BofAvlNode_GetHeight t' = BofAvlNode_GetHeight (Node i d p b l r) + ch' \<and>
    avl_same (Node i d p b l' r) t'"
    by (rule avl_after_insert_ok) (use g assms(2) in auto)
  then obtain t' ch' where t': "avl_after_insert (- ch) free i d p b l' r = Ret (t', free, ch', AvlInserted)"
    "avl_balanced t'" "0 \<le> ch'" "ch' \<le> 1" "BofAvlNode_GetHeight t' = BofAvlNode_GetHeight (Node i d p b l r) + ch'"
    "avl_same (Node i d p b l' r) t'" by blast
  have "avl_inorder t' = list_insert_by key_of k (avl_inorder (Node i d p b l r))"
    using list_insert_by_left [of "avl_inorder r" key_of d k "avl_inorder l"] assms(3,4) g t'(6) by (simp add: avl_same_def)
  moreover have "ch' = 0 \<or> ch' = 1" using t'(3,4) by linarith
  moreover have "avl_ids t' = insert a (avl_ids (Node i d p b l r))" "avl_count t' = avl_count (Node i d p b l r) + 1"
    "avl_linked q (Node i d p b l r) \<longrightarrow> avl_linked q t'"
    "avl_distinct (Node i d p b l r) \<longrightarrow> a \<notin> avl_ids (Node i d p b l r) \<longrightarrow> avl_distinct t'"
    using t'(6) g by (auto simp: avl_same_def)
  ultimately show ?thesis using t' unfolding avl_grown_def by blast
qed

lemma avl_grown_right:
  assumes "avl_grown key_of k a (Some i) r r' ch" "avl_balanced (Node i d p b l r)"
    "avl_sorted key_of (Node i d p b l r)" "key_of d < key_of k"
  shows "\<exists>t' ch'. avl_after_insert ch free i d p b l r' = Ret (t', free, ch', AvlInserted) \<and>
    avl_grown key_of k a q (Node i d p b l r) t' ch'"
proof -
  note g = assms(1) [unfolded avl_grown_def]
  have "\<exists>t' ch'. avl_after_insert ch free i d p b l r' = Ret (t', free, ch', AvlInserted) \<and> avl_balanced t' \<and>
    0 \<le> ch' \<and> ch' \<le> 1 \<and> BofAvlNode_GetHeight t' = BofAvlNode_GetHeight (Node i d p b l r) + ch' \<and>
    avl_same (Node i d p b l r') t'"
    by (rule avl_after_insert_ok) (use g assms(2) in auto)
  then obtain t' ch' where t': "avl_after_insert ch free i d p b l r' = Ret (t', free, ch', AvlInserted)"
    "avl_balanced t'" "0 \<le> ch'" "ch' \<le> 1" "BofAvlNode_GetHeight t' = BofAvlNode_GetHeight (Node i d p b l r) + ch'"
    "avl_same (Node i d p b l r') t'" by blast
  have "avl_inorder t' = list_insert_by key_of k (avl_inorder (Node i d p b l r))"
    using list_insert_by_right [of "avl_inorder l" key_of d k "avl_inorder r"] assms(3,4) g t'(6) by (simp add: avl_same_def)
  moreover have "ch' = 0 \<or> ch' = 1" using t'(3,4) by linarith
  moreover have "avl_ids t' = insert a (avl_ids (Node i d p b l r))" "avl_count t' = avl_count (Node i d p b l r) + 1"
    "avl_linked q (Node i d p b l r) \<longrightarrow> avl_linked q t'"
    "avl_distinct (Node i d p b l r) \<longrightarrow> a \<notin> avl_ids (Node i d p b l r) \<longrightarrow> avl_distinct t'"
    using t'(6) g by (auto simp: avl_same_def)
  ultimately show ?thesis using t' unfolding avl_grown_def by blast
qed

text \<open>The three outcomes of an insertion.\<close>

definition avl_has :: "('k \<Rightarrow> 'o::linorder) \<Rightarrow> 'k \<Rightarrow> 'k BofAvlNode \<Rightarrow> bool" where
  "avl_has key_of k t \<longleftrightarrow> (\<exists>d \<in> set (avl_inorder t). key_of d = key_of k)"

lemma avl_has_Node:
  assumes "avl_sorted key_of (Node i d p b l r)"
  shows "avl_has key_of k (Node i d p b l r) \<longleftrightarrow>
    (if key_of k < key_of d then avl_has key_of k l else if key_of k = key_of d then True else avl_has key_of k r)"
  using assms by (auto simp: avl_has_def)

lemma avl_cmp_byD:
  assumes "avl_cmp_by cmp key_of"
  shows "key_of k < key_of d \<Longrightarrow> cmp k d = BOF_CMP_LESS" "key_of k = key_of d \<Longrightarrow> cmp k d = BOF_CMP_EQUAL"
    "key_of d < key_of k \<Longrightarrow> cmp k d = BOF_CMP_GREATER"
  using assms by (auto simp: avl_cmp_by_def)

lemma Insert_exists:
  assumes "avl_cmp_by cmp key_of"
  shows "avl_sorted key_of t \<Longrightarrow> avl_has key_of k t \<Longrightarrow>
    \<exists>i \<in> avl_ids t. \<exists>ch. BofAvlNode_Insert cmp free k q t = Ret (t, free, ch, AvlExists i)"
proof (induction t arbitrary: q)
  case (Node i d p b l r)
  note has = Node.prems(2) [unfolded avl_has_Node [OF Node.prems(1)]] and cmp = avl_cmp_byD [OF assms, where k = k and d = d]
  consider "key_of k < key_of d" | "key_of k = key_of d" | "key_of d < key_of k" by fastforce
  then show ?case
  proof cases
    case 1
    then have "avl_has key_of k l" using has by simp
    then obtain j ch where "j \<in> avl_ids l" "BofAvlNode_Insert cmp free k (Some i) l = Ret (l, free, ch, AvlExists j)"
      using Node.IH(1) [of "Some i"] Node.prems(1) by auto
    then show ?thesis using cmp(1) [OF 1] by (auto intro: bexI [of _ j])
  next
    case 2
    then show ?thesis using cmp(2) by simp
  next
    case 3
    then have "avl_has key_of k r" using has by (auto split: if_splits)
    then obtain j ch where "j \<in> avl_ids r" "BofAvlNode_Insert cmp free k (Some i) r = Ret (r, free, ch, AvlExists j)"
      using Node.IH(2) [of "Some i"] Node.prems(1) by auto
    then show ?thesis using cmp(3) [OF 3] by (auto intro: bexI [of _ j])
  qed
qed (simp add: avl_has_def)

lemma Insert_no_node:
  assumes "avl_cmp_by cmp key_of"
  shows "avl_sorted key_of t \<Longrightarrow> \<not> avl_has key_of k t \<Longrightarrow>
    \<exists>ch. BofAvlNode_Insert cmp [] k q t = Ret (t, [], ch, AvlNoFreeNode)"
proof (induction t arbitrary: q)
  case (Node i d p b l r)
  note has = Node.prems(2) [unfolded avl_has_Node [OF Node.prems(1)]] and cmp = avl_cmp_byD [OF assms, where k = k and d = d]
  consider "key_of k < key_of d" | "key_of k = key_of d" | "key_of d < key_of k" by fastforce
  then show ?case
  proof cases
    case 1
    then have "\<not> avl_has key_of k l" using has by simp
    then show ?thesis using Node.IH(1) [of "Some i"] Node.prems(1) cmp(1) [OF 1] by auto
  next
    case 2
    then show ?thesis using has by simp
  next
    case 3
    then have "\<not> avl_has key_of k r" using has by (auto split: if_splits)
    then show ?thesis using Node.IH(2) [of "Some i"] Node.prems(1) cmp(3) [OF 3] by auto
  qed
qed simp

lemma Insert_grows:
  assumes "avl_cmp_by cmp key_of"
  shows "avl_balanced t \<Longrightarrow> avl_sorted key_of t \<Longrightarrow> \<not> avl_has key_of k t \<Longrightarrow>
    \<exists>t' ch. BofAvlNode_Insert cmp (a # free) k q t = Ret (t', free, ch, AvlInserted) \<and> avl_grown key_of k a q t t' ch"
proof (induction t arbitrary: q)
  case NullNode
  then show ?case by (simp add: avl_grown_def list_insert_by_def)
next
  case (Node i d p b l r)
  note has = Node.prems(3) [unfolded avl_has_Node [OF Node.prems(2)]] and cmp = avl_cmp_byD [OF assms, where k = k and d = d]
  consider "key_of k < key_of d" | "key_of k = key_of d" | "key_of d < key_of k" by fastforce
  then show ?case
  proof cases
    case 1
    then have "\<not> avl_has key_of k l" using has by simp
    then obtain l' ch where "BofAvlNode_Insert cmp (a # free) k (Some i) l = Ret (l', free, ch, AvlInserted)"
      "avl_grown key_of k a (Some i) l l' ch" using Node.IH(1) [of "Some i"] Node.prems(1,2) by auto
    with avl_grown_left [OF _ Node.prems(1,2) 1, of a l' ch free q] cmp(1) [OF 1] show ?thesis by auto
  next
    case 2
    then show ?thesis using has by simp
  next
    case 3
    then have "\<not> avl_has key_of k r" using has by (auto split: if_splits)
    then obtain r' ch where "BofAvlNode_Insert cmp (a # free) k (Some i) r = Ret (r', free, ch, AvlInserted)"
      "avl_grown key_of k a (Some i) r r' ch" using Node.IH(2) [of "Some i"] Node.prems(1,2) by auto
    with avl_grown_right [OF _ Node.prems(1,2) 3, of a r' ch free q] cmp(3) [OF 3] show ?thesis by auto
  qed
qed

section \<open>Deletion\<close>

text \<open>
  \<open>t'\<close> is \<open>t\<close> without the node at address \<open>a\<close>, holds the data \<open>ys\<close>, and is lower by \<open>ch\<close>.
\<close>

definition avl_shrunk ::
  "'k list \<Rightarrow> nat \<Rightarrow> nat option \<Rightarrow> 'k BofAvlNode \<Rightarrow> 'k BofAvlNode \<Rightarrow> int \<Rightarrow> bool" where
  "avl_shrunk ys a q t t' ch \<longleftrightarrow> avl_balanced t' \<and> (ch = 0 \<or> ch = 1) \<and>
     BofAvlNode_GetHeight t' = BofAvlNode_GetHeight t - ch \<and> avl_inorder t' = ys \<and>
     a \<in> avl_ids t \<and> avl_count t' + 1 = avl_count t \<and> (avl_linked q t \<longrightarrow> avl_linked q t') \<and>
     (avl_distinct t \<longrightarrow> avl_ids t' = avl_ids t - {a} \<and> avl_distinct t')"

lemma avl_after_delete_ok:
  assumes "avl_balanced l" "avl_balanced r" "b - dec = BofAvlNode_GetHeight r - BofAvlNode_GetHeight l"
    "- 1 \<le> b" "b \<le> 1" "- 1 \<le> dec" "dec \<le> 1"
    "old = 1 + max (BofAvlNode_GetHeight l + (if dec = - 1 then 1 else 0)) (BofAvlNode_GetHeight r + (if dec = 1 then 1 else 0))"
  shows "\<exists>t' ch. avl_after_delete dec free res i d p b l r = Ret (t', free, ch, res) \<and> avl_balanced t' \<and>
    0 \<le> ch \<and> ch \<le> 1 \<and> BofAvlNode_GetHeight t' = old - ch \<and> avl_same (Node i d p b l r) t'"
proof (cases "dec \<noteq> 0 \<and> b - dec \<noteq> 0")
  case True
  obtain t' hc where t': "BofAvlNode_ReBalance (Node i d p (b - dec) l r) = Ret (t', hc)" "avl_balanced t'"
    "0 \<le> hc" "hc \<le> 1" "BofAvlNode_GetHeight t' = BofAvlNode_GetHeight (Node i d p (b - dec) l r) - hc"
    using ReBalance_ok [OF assms(1-3), of i d p] assms(4-7) by auto
  consider "dec = - 1" "0 \<le> b" | "dec = 1" "b \<le> 0" using True assms(4-7) by linarith
  then have "BofAvlNode_GetHeight (Node i d p (b - dec) l r) = old"
    using assms(3,8) by cases (simp_all add: max_def)
  moreover have "avl_same (Node i d p b l r) t'" using ReBalance_same [OF t'(1)] by (simp add: avl_same_def)
  ultimately show ?thesis using t' True by (simp add: avl_after_delete_def)
next
  case False
  then consider "dec = 0" | "dec = - 1" "b = - 1" | "dec = 1" "b = 1" using assms(4-7) by linarith
  then have "BofAvlNode_GetHeight (Node i d p (b - dec) l r) = old - (if dec = 0 then 0 else 1) \<and> - 1 \<le> b - dec \<and> b - dec \<le> 1"
    using assms(3-5,8) by cases (simp_all add: max_def)
  moreover have "avl_after_delete dec free res i d p b l r =
      Ret (Node i d p (b - dec) l r, free, if dec = 0 then 0 else 1, res)"
    using False by (auto simp: avl_after_delete_def Let_def)
  ultimately show ?thesis using assms(1-3) by (simp add: avl_same_def)
qed

lemma avl_shrunk_left:
  assumes "avl_shrunk ys a (Some i) l l' ch" "avl_balanced (Node i d p b l r)"
  shows "\<exists>t' ch'. avl_after_delete (- ch) free res i d p b l' r = Ret (t', free, ch', res) \<and>
    avl_shrunk (ys @ d # avl_inorder r) a q (Node i d p b l r) t' ch'"
proof -
  have g: "avl_balanced l'" "ch = 0 \<or> ch = 1" "BofAvlNode_GetHeight l' = BofAvlNode_GetHeight l - ch" "avl_inorder l' = ys"
    "a \<in> avl_ids l" "avl_count l' + 1 = avl_count l" "avl_linked (Some i) l \<longrightarrow> avl_linked (Some i) l'"
    "avl_distinct l \<longrightarrow> avl_ids l' = avl_ids l - {a} \<and> avl_distinct l'"
    using assms(1) by (simp_all add: avl_shrunk_def)
  have "\<exists>t' ch'. avl_after_delete (- ch) free res i d p b l' r = Ret (t', free, ch', res) \<and> avl_balanced t' \<and>
    0 \<le> ch' \<and> ch' \<le> 1 \<and> BofAvlNode_GetHeight t' = BofAvlNode_GetHeight (Node i d p b l r) - ch' \<and>
    avl_same (Node i d p b l' r) t'"
    by (rule avl_after_delete_ok) (use g(1-3) assms(2) in auto)
  then obtain t' ch' where t': "avl_after_delete (- ch) free res i d p b l' r = Ret (t', free, ch', res)"
    "avl_balanced t'" "0 \<le> ch'" "ch' \<le> 1" "BofAvlNode_GetHeight t' = BofAvlNode_GetHeight (Node i d p b l r) - ch'"
    "avl_same (Node i d p b l' r) t'" by blast
  moreover have "ch' = 0 \<or> ch' = 1" using t'(3,4) by linarith
  moreover have "avl_inorder t' = ys @ d # avl_inorder r" "a \<in> avl_ids (Node i d p b l r)"
    "avl_count t' + 1 = avl_count (Node i d p b l r)" "avl_linked q (Node i d p b l r) \<longrightarrow> avl_linked q t'"
    using t'(6) g(4-7) by (auto simp: avl_same_def)
  moreover have "avl_distinct (Node i d p b l r) \<longrightarrow> avl_ids t' = avl_ids (Node i d p b l r) - {a} \<and> avl_distinct t'"
    using t'(6) g(5,8) by (auto simp: avl_same_def)
  ultimately show ?thesis unfolding avl_shrunk_def by blast
qed

lemma avl_shrunk_right:
  assumes "avl_shrunk ys a (Some i) r r' ch" "avl_balanced (Node i d p b l r)"
  shows "\<exists>t' ch'. avl_after_delete ch free res i d' p b l r' = Ret (t', free, ch', res) \<and>
    avl_shrunk (avl_inorder l @ d' # ys) a q (Node i d p b l r) t' ch'"
proof -
  have g: "avl_balanced r'" "ch = 0 \<or> ch = 1" "BofAvlNode_GetHeight r' = BofAvlNode_GetHeight r - ch" "avl_inorder r' = ys"
    "a \<in> avl_ids r" "avl_count r' + 1 = avl_count r" "avl_linked (Some i) r \<longrightarrow> avl_linked (Some i) r'"
    "avl_distinct r \<longrightarrow> avl_ids r' = avl_ids r - {a} \<and> avl_distinct r'"
    using assms(1) by (simp_all add: avl_shrunk_def)
  have "\<exists>t' ch'. avl_after_delete ch free res i d' p b l r' = Ret (t', free, ch', res) \<and> avl_balanced t' \<and>
    0 \<le> ch' \<and> ch' \<le> 1 \<and> BofAvlNode_GetHeight t' = BofAvlNode_GetHeight (Node i d p b l r) - ch' \<and>
    avl_same (Node i d' p b l r') t'"
    by (rule avl_after_delete_ok) (use g(1-3) assms(2) in auto)
  then obtain t' ch' where t': "avl_after_delete ch free res i d' p b l r' = Ret (t', free, ch', res)"
    "avl_balanced t'" "0 \<le> ch'" "ch' \<le> 1" "BofAvlNode_GetHeight t' = BofAvlNode_GetHeight (Node i d p b l r) - ch'"
    "avl_same (Node i d' p b l r') t'" by blast
  moreover have "ch' = 0 \<or> ch' = 1" using t'(3,4) by linarith
  moreover have "avl_inorder t' = avl_inorder l @ d' # ys" "a \<in> avl_ids (Node i d p b l r)"
    "avl_count t' + 1 = avl_count (Node i d p b l r)" "avl_linked q (Node i d p b l r) \<longrightarrow> avl_linked q t'"
    using t'(6) g(4-7) by (auto simp: avl_same_def)
  moreover have "avl_distinct (Node i d p b l r) \<longrightarrow> avl_ids t' = avl_ids (Node i d p b l r) - {a} \<and> avl_distinct t'"
    using t'(6) g(5,8) by (auto simp: avl_same_def)
  ultimately show ?thesis unfolding avl_shrunk_def by blast
qed

text \<open>In a balanced tree an only child has no subtree, so nothing is cut off with it.\<close>

lemma avl_height_1:
  assumes "avl_balanced t" "BofAvlNode_GetHeight t = 1"
  shows "\<exists>i d p. t = Node i d p 0 NullNode NullNode"
proof (cases t)
  case (Node i d p b l r)
  then have "max (BofAvlNode_GetHeight l) (BofAvlNode_GetHeight r) = 0" using assms(2) by simp
  then have "BofAvlNode_GetHeight l = 0" "BofAvlNode_GetHeight r = 0"
    using height_nonneg [of l] height_nonneg [of r] by linarith+
  then show ?thesis using Node assms(1) by simp
qed (use assms in simp)

lemma avl_shrunk_only_child:
  assumes "avl_balanced (Node i d p b l r)" "l = NullNode \<or> r = NullNode" "\<not> (l = NullNode \<and> r = NullNode)"
  shows "avl_shrunk (avl_inorder l @ avl_inorder r) i q (Node i d p b l r)
    (avl_only_child p (if r \<noteq> NullNode then r else l)) 1"
proof -
  let ?c = "if r \<noteq> NullNode then r else l"
  have c: "avl_balanced ?c" "?c \<noteq> NullNode" "BofAvlNode_GetHeight ?c \<le> 1" using assms by auto
  then have "BofAvlNode_GetHeight ?c = 1" using height_pos [OF c(2)] by linarith
  then obtain j e s where "?c = Node j e s 0 NullNode NullNode" using avl_height_1 c(1) by blast
  then show ?thesis using assms(2,3) by (auto simp: avl_shrunk_def split: if_splits)
qed

lemma Delete_min:
  assumes "avl_balanced t" "t \<noteq> NullNode"
  shows "\<exists>t' a ch. BofAvlNode_Delete cmp free k BOF_CMP_LESS t = Ret (t', a # free, ch, Some (hd (avl_inorder t))) \<and>
    avl_shrunk (tl (avl_inorder t)) a q t t' ch"
  using assms
proof (induction t arbitrary: q)
  case (Node i d p b l r)
  show ?case
  proof (cases "l = NullNode")
    case False
    then obtain l' a ch where "BofAvlNode_Delete cmp free k BOF_CMP_LESS l = Ret (l', a # free, ch, Some (hd (avl_inorder l)))"
      "avl_shrunk (tl (avl_inorder l)) a (Some i) l l' ch" using Node.IH(1) [of "Some i"] Node.prems(1) by auto
    note del = this
    have "avl_inorder l \<noteq> []" using False by (cases l) auto
    then show ?thesis
      using avl_shrunk_left [OF del(2) Node.prems(1), of "a # free" "Some (hd (avl_inorder l))" q] del(1) False by auto
  next
    case l: True
    show ?thesis
    proof (cases "r = NullNode")
      case True
      then show ?thesis using l by (auto simp: avl_shrunk_def)
    next
      case False
      then show ?thesis using avl_shrunk_only_child [OF Node.prems(1), of q] l by simp
    qed
  qed
qed simp

lemma Delete_max:
  assumes "avl_balanced t" "t \<noteq> NullNode"
  shows "\<exists>t' a ch. BofAvlNode_Delete cmp free k BOF_CMP_GREATER t = Ret (t', a # free, ch, Some (last (avl_inorder t))) \<and>
    avl_shrunk (butlast (avl_inorder t)) a q t t' ch"
  using assms
proof (induction t arbitrary: q)
  case (Node i d p b l r)
  show ?case
  proof (cases "r = NullNode")
    case False
    then obtain r' a ch where "BofAvlNode_Delete cmp free k BOF_CMP_GREATER r = Ret (r', a # free, ch, Some (last (avl_inorder r)))"
      "avl_shrunk (butlast (avl_inorder r)) a (Some i) r r' ch" using Node.IH(2) [of "Some i"] Node.prems(1) by auto
    note del = this
    have "avl_inorder r \<noteq> []" using False by (cases r) auto
    then show ?thesis
      using avl_shrunk_right [OF del(2) Node.prems(1), of "a # free" "Some (last (avl_inorder r))" d q] del(1) False
      by (auto simp: butlast_append)
  next
    case r: True
    show ?thesis
    proof (cases "l = NullNode")
      case True
      then show ?thesis using r by (auto simp: avl_shrunk_def)
    next
      case False
      then show ?thesis using avl_shrunk_only_child [OF Node.prems(1), of q] r by (simp add: butlast_append)
    qed
  qed
qed simp

lemma list_delete_by_Node:
  assumes "avl_sorted key_of (Node i d p b l r)"
  shows "list_delete_by key_of k (avl_inorder (Node i d p b l r)) =
    (if key_of k < key_of d then list_delete_by key_of k (avl_inorder l) @ d # avl_inorder r
     else if key_of k = key_of d then avl_inorder l @ avl_inorder r
     else avl_inorder l @ d # list_delete_by key_of k (avl_inorder r))"
proof -
  have l: "filter (\<lambda>d. key_of d \<noteq> key_of k) (avl_inorder l) = avl_inorder l" if "key_of d \<le> key_of k"
    using that assms by (fastforce simp: filter_id_conv)
  have r: "filter (\<lambda>d. key_of d \<noteq> key_of k) (avl_inorder r) = avl_inorder r" if "key_of k \<le> key_of d"
    using that assms by (fastforce simp: filter_id_conv)
  show ?thesis using l r by (auto simp: list_delete_by_def)
qed

lemma Delete_absent:
  assumes "avl_cmp_by cmp key_of"
  shows "avl_sorted key_of t \<Longrightarrow> \<not> avl_has key_of k t \<Longrightarrow>
    \<exists>ch. BofAvlNode_Delete cmp free k BOF_CMP_EQUAL t = Ret (t, free, ch, None)"
proof (induction t)
  case (Node i d p b l r)
  note has = Node.prems(2) [unfolded avl_has_Node [OF Node.prems(1)]]
    and cmp = avl_cmp_byD [OF assms, where k = k and d = d]
  consider "key_of k < key_of d" | "key_of k = key_of d" | "key_of d < key_of k" by fastforce
  then show ?case
  proof cases
    case 1
    then have "\<not> avl_has key_of k l" using has by simp
    then show ?thesis using Node.IH(1) Node.prems(1) cmp(1) [OF 1] by auto
  next
    case 2
    then show ?thesis using has by simp
  next
    case 3
    then have "\<not> avl_has key_of k r" using has by (auto split: if_splits)
    then show ?thesis using Node.IH(2) Node.prems(1) cmp(3) [OF 3] by auto
  qed
qed simp

lemma Delete_present:
  assumes "avl_cmp_by cmp key_of"
  shows "avl_balanced t \<Longrightarrow> avl_sorted key_of t \<Longrightarrow> avl_has key_of k t \<Longrightarrow>
    \<exists>t' a ch d. BofAvlNode_Delete cmp free k BOF_CMP_EQUAL t = Ret (t', a # free, ch, Some d) \<and>
      d \<in> set (avl_inorder t) \<and> key_of d = key_of k \<and>
      avl_shrunk (list_delete_by key_of k (avl_inorder t)) a q t t' ch"
proof (induction t arbitrary: q)
  case (Node i d p b l r)
  note has = Node.prems(3) [unfolded avl_has_Node [OF Node.prems(2)]]
    and cmp = avl_cmp_byD [OF assms, where k = k and d = d] and del = list_delete_by_Node [OF Node.prems(2), of k]
  consider "key_of k < key_of d" | "key_of k = key_of d" | "key_of d < key_of k" by fastforce
  then show ?case
  proof cases
    case 1
    then have "avl_has key_of k l" using has by simp
    then obtain l' a ch e where "BofAvlNode_Delete cmp free k BOF_CMP_EQUAL l = Ret (l', a # free, ch, Some e)"
      "e \<in> set (avl_inorder l)" "key_of e = key_of k" "avl_shrunk (list_delete_by key_of k (avl_inorder l)) a (Some i) l l' ch"
      using Node.IH(1) [of "Some i"] Node.prems(1,2) by auto
    note sub = this
    show ?thesis
      using avl_shrunk_left [OF sub(4) Node.prems(1), of "a # free" "Some e" q] sub(1-3) cmp(1) [OF 1] del 1 by auto
  next
    case 2
    consider "l = NullNode \<and> r = NullNode" | "\<not> (l = NullNode \<and> r = NullNode)" "l = NullNode \<or> r = NullNode"
      | "l \<noteq> NullNode" "r \<noteq> NullNode" by blast
    then show ?thesis
    proof cases
      case 1
      then show ?thesis using 2 cmp(2) del by (auto simp: avl_shrunk_def)
    next
      case one: 2
      then show ?thesis using 2 cmp(2) del avl_shrunk_only_child [OF Node.prems(1) one(2,1), of q] by auto
    next
      case 3
      then obtain r' a ch where "BofAvlNode_Delete cmp free k BOF_CMP_LESS r = Ret (r', a # free, ch, Some (hd (avl_inorder r)))"
        "avl_shrunk (tl (avl_inorder r)) a (Some i) r r' ch"
        using Delete_min [of r cmp free k "Some i"] Node.prems(1) by auto
      note min = this
      have "avl_inorder r \<noteq> []" using 3 by (cases r) auto
      then show ?thesis
        using avl_shrunk_right [OF min(2) Node.prems(1), of "a # free" "Some d" "hd (avl_inorder r)" q] min(1) cmp(2) [OF 2] del 2 3
        by auto
    qed
  next
    case 3
    then have "avl_has key_of k r" using has by (auto split: if_splits)
    then obtain r' a ch e where "BofAvlNode_Delete cmp free k BOF_CMP_EQUAL r = Ret (r', a # free, ch, Some e)"
      "e \<in> set (avl_inorder r)" "key_of e = key_of k" "avl_shrunk (list_delete_by key_of k (avl_inorder r)) a (Some i) r r' ch"
      using Node.IH(2) [of "Some i"] Node.prems(1,2) by auto
    note sub = this
    have "list_delete_by key_of k (avl_inorder (Node i d p b l r)) = avl_inorder l @ d # list_delete_by key_of k (avl_inorder r)"
      unfolding del using 3 by (cases "key_of k < key_of d") auto
    then show ?thesis
      using avl_shrunk_right [OF sub(4) Node.prems(1), of "a # free" "Some e" d q] sub(1-3) cmp(3) [OF 3] by auto
  qed
qed (simp add: avl_has_def)

end
