(* ===== verification/Bof_Avl_Search.thy ===== *)
theory Bof_Avl_Search
  imports Bof_Avl_Proofs
begin

text \<open>
  Search and traversal of the AVL tree. The code climbs from a node to its
  ancestors through the parent pointers; \<open>avl_route\<close> is the path a key takes
  down the tree, with the ancestors passed, and ties the climb to the order of
  the nodes.
\<close>

section \<open>The nodes of a tree in order\<close>

fun avl_nodes :: "'k BofAvlNode \<Rightarrow> 'k BofAvlNode list" where
  "avl_nodes NullNode = []"
| "avl_nodes (Node i d p b l r) = avl_nodes l @ Node i d p b l r # avl_nodes r"

lemma inorder_nodes: "avl_inorder t = map avl_mpData (avl_nodes t)"
  by (induction t) auto

lemma length_nodes [simp]: "length (avl_nodes t) = avl_count t"
  by (induction t) auto

lemma nodes_not_null [simp]: "NullNode \<notin> set (avl_nodes t)"
  by (induction t) auto

lemma nodes_Nil [simp]: "avl_nodes t = [] \<longleftrightarrow> t = NullNode"
  by (cases t) auto

lemma nodes_ids: "avl_id ` set (avl_nodes t) = avl_ids t"
  by (induction t) auto

lemma find_absent: "a \<notin> avl_ids t \<Longrightarrow> avl_find a t = NullNode"
  by (induction t) auto

lemma find_node: "avl_distinct t \<Longrightarrow> n \<in> set (avl_nodes t) \<Longrightarrow> avl_find (avl_id n) t = n"
proof (induction t)
  case (Node i d p b l r)
  have id: "m \<in> set (avl_nodes t) \<Longrightarrow> avl_id m \<in> avl_ids t" for m and t :: "'a BofAvlNode"
    by (simp flip: nodes_ids)
  consider "n = Node i d p b l r" | "n \<in> set (avl_nodes l)" | "n \<in> set (avl_nodes r)" using Node.prems(2) by auto
  then show ?case
  proof cases
    case 1
    then show ?thesis by simp
  next
    case 2
    then have "n \<noteq> NullNode" "avl_find (avl_id n) l = n" "avl_id n \<noteq> i" using Node id [OF 2] by auto
    then show ?thesis by (cases n) auto
  next
    case 3
    then have "avl_find (avl_id n) r = n" "avl_id n \<noteq> i" "avl_find (avl_id n) l = NullNode"
      using Node id [OF 3] by (auto intro: find_absent)
    then show ?thesis by simp
  qed
qed simp

lemma leftmost_hd: "t \<noteq> NullNode \<Longrightarrow> avl_leftmost t = hd (avl_nodes t)"
  by (induction t) (auto simp: hd_append)

lemma rightmost_last: "t \<noteq> NullNode \<Longrightarrow> avl_rightmost t = last (avl_nodes t)"
  by (induction t) auto

lemma count_card: "avl_distinct t \<Longrightarrow> card (avl_ids t) = avl_count t \<and> finite (avl_ids t)"
  by (induction t) (auto simp: card_Un_disjoint)

section \<open>Routes\<close>

inductive avl_route :: "('k \<Rightarrow> 'o::linorder) \<Rightarrow> 'k \<Rightarrow> 'k BofAvlNode \<Rightarrow> 'k BofAvlNode list \<Rightarrow> 'k BofAvlNode \<Rightarrow> bool"
  for key_of :: "'k \<Rightarrow> 'o::linorder" and k :: 'k and root :: "'k BofAvlNode" where
  route_root: "avl_route key_of k root [] root"
| route_left: "avl_route key_of k root anc (Node i d p b l r) \<Longrightarrow> key_of k < key_of d \<Longrightarrow>
    avl_route key_of k root (Node i d p b l r # anc) l"
| route_right: "avl_route key_of k root anc (Node i d p b l r) \<Longrightarrow> key_of d < key_of k \<Longrightarrow>
    avl_route key_of k root (Node i d p b l r # anc) r"

text \<open>What the invariants of the root give at the end of a route.\<close>

definition avl_parent_of :: "'k BofAvlNode list \<Rightarrow> nat option" where
  "avl_parent_of anc = (case anc of [] \<Rightarrow> None | n # _ \<Rightarrow> Some (avl_id n))"

lemma route_shape:
  assumes "avl_route key_of k root anc t" "avl_sorted key_of root" "avl_linked None root" "avl_distinct root"
  shows "avl_sorted key_of t \<and> avl_linked (avl_parent_of anc) t \<and> set (avl_nodes t) \<subseteq> set (avl_nodes root) \<and>
    set anc \<subseteq> set (avl_nodes root) \<and> length anc + avl_count t \<le> avl_count root"
  using assms by (induction rule: avl_route.induct) (auto simp: avl_parent_of_def)

text \<open>
  The route splits the nodes of the root: those before the subtree are below the
  key, those after it above, and the nearest of each side is the first ancestor
  on that side.
\<close>

lemma route_split:
  assumes "avl_route key_of k root anc t" "avl_sorted key_of root"
  shows "\<exists>ls rs. avl_nodes root = ls @ avl_nodes t @ rs \<and> avl_sorted key_of t \<and>
    (\<forall>n \<in> set ls. key_of (avl_mpData n) < key_of k) \<and> (\<forall>n \<in> set rs. key_of k < key_of (avl_mpData n)) \<and>
    List.find (\<lambda>n. key_of k < key_of (avl_mpData n)) anc = opt_hd rs \<and>
    List.find (\<lambda>n. key_of (avl_mpData n) < key_of k) anc = opt_hd (rev ls)"
  using assms
proof (induction rule: avl_route.induct)
  case route_root
  then show ?case by (intro exI [of _ "[]"]) simp
next
  case (route_left anc i d p b l r)
  then obtain ls rs where "avl_nodes root = ls @ avl_nodes (Node i d p b l r) @ rs" "avl_sorted key_of (Node i d p b l r)"
    "\<forall>n \<in> set ls. key_of (avl_mpData n) < key_of k" "\<forall>n \<in> set rs. key_of k < key_of (avl_mpData n)"
    "List.find (\<lambda>n. key_of k < key_of (avl_mpData n)) anc = opt_hd rs"
    "List.find (\<lambda>n. key_of (avl_mpData n) < key_of k) anc = opt_hd (rev ls)" by auto
  note h = this
  have r: "\<forall>n \<in> set (avl_nodes r). key_of k < key_of (avl_mpData n)"
    using h(2) route_left(2) by (auto simp: inorder_nodes intro: less_trans)
  show ?case
    by (rule exI [of _ ls], rule exI [of _ "Node i d p b l r # avl_nodes r @ rs"])
       (use h(1-4,6) r route_left(2) less_not_sym [OF route_left(2)] in \<open>simp add: ball_Un\<close>)
next
  case (route_right anc i d p b l r)
  then obtain ls rs where "avl_nodes root = ls @ avl_nodes (Node i d p b l r) @ rs" "avl_sorted key_of (Node i d p b l r)"
    "\<forall>n \<in> set ls. key_of (avl_mpData n) < key_of k" "\<forall>n \<in> set rs. key_of k < key_of (avl_mpData n)"
    "List.find (\<lambda>n. key_of k < key_of (avl_mpData n)) anc = opt_hd rs"
    "List.find (\<lambda>n. key_of (avl_mpData n) < key_of k) anc = opt_hd (rev ls)" by auto
  note h = this
  have l: "\<forall>n \<in> set (avl_nodes l). key_of (avl_mpData n) < key_of k"
    using h(2) route_right(2) by (auto simp: inorder_nodes intro: less_trans)
  show ?case
    by (rule exI [of _ "ls @ avl_nodes l @ [Node i d p b l r]"], rule exI [of _ rs])
       (use h(1-5) l route_right(2) less_not_sym [OF route_right(2)] in \<open>simp add: ball_Un\<close>)
qed

lemma route_extend:
  "avl_route key_of (avl_mpData n) root anc t \<Longrightarrow> avl_sorted key_of t \<Longrightarrow> n \<in> set (avl_nodes t) \<Longrightarrow>
   \<exists>anc'. avl_route key_of (avl_mpData n) root anc' n"
proof (induction t arbitrary: anc)
  case (Node i d p b l r)
  consider "n = Node i d p b l r" | "n \<in> set (avl_nodes l)" | "n \<in> set (avl_nodes r)" using Node.prems(3) by auto
  then show ?case
  proof cases
    case 1
    then show ?thesis using Node.prems(1) by auto
  next
    case 2
    then have "key_of (avl_mpData n) < key_of d" using Node.prems(2) by (auto simp: inorder_nodes)
    then show ?thesis using Node.IH(1) [OF route_left [OF Node.prems(1)]] Node.prems(2) 2 by simp
  next
    case 3
    then have "key_of d < key_of (avl_mpData n)" using Node.prems(2) by (auto simp: inorder_nodes)
    then show ?thesis using Node.IH(2) [OF route_right [OF Node.prems(1)]] Node.prems(2) 3 by simp
  qed
qed simp

section \<open>Climbing\<close>

definition avl_or_null :: "'k BofAvlNode option \<Rightarrow> 'k BofAvlNode" where
  "avl_or_null x = (case x of None \<Rightarrow> NullNode | Some n \<Rightarrow> n)"

lemma avl_or_null_simps [simp]: "avl_or_null None = NullNode" "avl_or_null (Some n) = n"
  by (simp_all add: avl_or_null_def)

lemma route_Cons_cases:
  assumes "avl_route key_of k root (n # anc) t"
  obtains "avl_route key_of k root anc n" "n \<noteq> NullNode" "key_of k < key_of (avl_mpData n)" "t = avl_left n"
  | "avl_route key_of k root anc n" "n \<noteq> NullNode" "key_of (avl_mpData n) < key_of k" "t = avl_right n"
  using assms
proof (cases rule: avl_route.cases)
  case (route_left i d p b r)
  then show ?thesis by (intro that(1)) simp_all
next
  case (route_right i d p b l)
  then show ?thesis by (intro that(2)) simp_all
qed

lemma route_up: "avl_route key_of k root (n # anc) t \<Longrightarrow> avl_route key_of k root anc n \<and> n \<noteq> NullNode"
  by (erule route_Cons_cases) auto

lemma route_parent:
  assumes "avl_route key_of k root anc t" "avl_sorted key_of root" "avl_linked None root" "avl_distinct root" "t \<noteq> NullNode"
  shows "avl_parent t = avl_parent_of anc" "n \<in> set anc \<Longrightarrow> avl_find (avl_id n) root = n \<and> n \<noteq> NullNode"
proof -
  note r = route_shape [OF assms(1-4)]
  show "avl_parent t = avl_parent_of anc" using r assms(5) by (cases t) auto
  assume "n \<in> set anc"
  then have n: "n \<in> set (avl_nodes root)" using r by blast
  then have "n \<noteq> NullNode" by (metis nodes_not_null)
  then show "avl_find (avl_id n) root = n \<and> n \<noteq> NullNode" using find_node [OF assms(4) n] by blast
qed

lemma climb_route:
  assumes "avl_sorted key_of root" "avl_linked None root" "avl_distinct root"
  shows "avl_route key_of k root anc t \<Longrightarrow> t \<noteq> NullNode \<Longrightarrow> length anc < fuel \<Longrightarrow>
    avl_climb fuel cmp k want root t =
      Ret (avl_or_null (List.find (\<lambda>n. cmp k (avl_mpData n) = want) anc))"
proof (induction anc arbitrary: t fuel)
  case Nil
  then obtain f where "fuel = Suc f" by (cases fuel) auto
  then show ?case using route_parent(1) [OF Nil.prems(1) assms Nil.prems(2)] Nil.prems(2)
    by (cases t) (auto simp: avl_parent_of_def)
next
  case (Cons n anc)
  then obtain f where f: "fuel = Suc f" by (cases fuel) auto
  note par = route_parent [OF Cons.prems(1) assms Cons.prems(2)]
  have n: "avl_find (avl_id n) root = n" "n \<noteq> NullNode" using par(2) by auto
  have p: "avl_parent t = Some (avl_id n)" using par(1) by (simp add: avl_parent_of_def)
  have c: "BofAvlNode_Compare cmp k BOF_CMP_EQUAL n = cmp k (avl_mpData n)" using n(2) by (cases n) auto
  have up: "avl_route key_of k root anc n" using route_up [OF Cons.prems(1)] by blast
  have "avl_climb f cmp k want root n = Ret (avl_or_null (List.find (\<lambda>n. cmp k (avl_mpData n) = want) anc))"
    using Cons.IH [OF up n(2)] Cons.prems(3) f by simp
  then show ?case using Cons.prems(2) f n c p by (cases t) (auto simp: Let_def)
qed

text \<open>The climb of the traversal compares with the data of the node it stands on: the side is the same.\<close>

lemma route_side:
  assumes "avl_route key_of k root (n # anc) t" "avl_sorted key_of root" "x \<in> set (avl_inorder t)"
  shows "key_of x < key_of (avl_mpData n) \<longleftrightarrow> key_of k < key_of (avl_mpData n)"
    "key_of x = key_of (avl_mpData n) \<longleftrightarrow> key_of k = key_of (avl_mpData n)"
proof -
  have "avl_sorted key_of n" using route_up [OF assms(1)] route_split [OF _ assms(2)] by blast
  then have "key_of k < key_of (avl_mpData n) \<and> key_of x < key_of (avl_mpData n) \<or>
    key_of (avl_mpData n) < key_of k \<and> key_of (avl_mpData n) < key_of x"
    using assms(1,3) by (elim route_Cons_cases; cases n) auto
  then show "key_of x < key_of (avl_mpData n) \<longleftrightarrow> key_of k < key_of (avl_mpData n)"
    "key_of x = key_of (avl_mpData n) \<longleftrightarrow> key_of k = key_of (avl_mpData n)" by auto
qed

lemma climb_data_route:
  assumes "avl_sorted key_of root" "avl_linked None root" "avl_distinct root" "avl_cmp_by cmp key_of"
  shows "avl_route key_of k root anc t \<Longrightarrow> t \<noteq> NullNode \<Longrightarrow> length anc < fuel \<Longrightarrow>
    avl_climb_data fuel cmp want root t =
      Ret (avl_or_null (List.find (\<lambda>n. cmp k (avl_mpData n) = want) anc))"
proof (induction anc arbitrary: t fuel)
  case Nil
  then obtain f where "fuel = Suc f" by (cases fuel) auto
  then show ?case using route_parent(1) [OF Nil.prems(1) assms(1-3) Nil.prems(2)] Nil.prems(2)
    by (cases t) (auto simp: avl_parent_of_def)
next
  case (Cons n anc)
  then obtain f where f: "fuel = Suc f" by (cases fuel) auto
  note par = route_parent [OF Cons.prems(1) assms(1-3) Cons.prems(2)]
  have n: "avl_find (avl_id n) root = n" "n \<noteq> NullNode" using par(2) by auto
  have p: "avl_parent t = Some (avl_id n)" using par(1) by (simp add: avl_parent_of_def)
  have "avl_mpData t \<in> set (avl_inorder t)" using Cons.prems(2) by (cases t) auto
  then have "cmp (avl_mpData t) (avl_mpData n) = cmp k (avl_mpData n)"
    using route_side [OF Cons.prems(1) assms(1)] assms(4) by (auto simp: avl_cmp_by_def)
  then have c: "BofAvlNode_Compare cmp (avl_mpData t) BOF_CMP_EQUAL n = cmp k (avl_mpData n)"
    using n(2) by (cases n) auto
  have up: "avl_route key_of k root anc n" using route_up [OF Cons.prems(1)] by blast
  have "avl_climb_data f cmp want root n = Ret (avl_or_null (List.find (\<lambda>n. cmp k (avl_mpData n) = want) anc))"
    using Cons.IH [OF up n(2)] Cons.prems(3) f by simp
  then show ?case using Cons.prems(2) f n c p by (cases t) (auto simp: Let_def)
qed


section \<open>Searching\<close>

lemma find_append:
  "List.find P (xs @ ys) = (case List.find P xs of None \<Rightarrow> List.find P ys | Some x \<Rightarrow> Some x)"
  by (induction xs) auto

lemma find_none_all: "(\<And>x. x \<in> set xs \<Longrightarrow> \<not> P x) \<Longrightarrow> List.find P xs = None"
  by (simp add: find_None_iff)

lemma find_hd_all: "(\<And>x. x \<in> set xs \<Longrightarrow> P x) \<Longrightarrow> List.find P xs = opt_hd xs"
  by (cases xs) auto

lemma find_sorted:
  assumes "avl_sorted key_of t" "n \<in> set (avl_nodes t)" "key_of (avl_mpData n) = key_of k"
  shows "List.find (\<lambda>n. key_of k \<le> key_of (avl_mpData n)) (avl_nodes t) = Some n"
    "List.find (\<lambda>n. key_of (avl_mpData n) \<le> key_of k) (rev (avl_nodes t)) = Some n"
proof -
  obtain ls rs where s: "avl_nodes t = ls @ n # rs" using assms(2) by (auto simp: in_set_conv_decomp)
  have sw: "sorted_wrt (\<lambda>x y. key_of x < key_of y) (map avl_mpData (ls @ n # rs))"
    using assms(1) avl_sorted_iff s inorder_nodes by metis
  have "\<forall>m \<in> set ls. key_of (avl_mpData m) < key_of k" "\<forall>m \<in> set rs. key_of k < key_of (avl_mpData m)"
    using sw assms(3) by (auto simp: sorted_wrt_append)
  then have "List.find (\<lambda>n. key_of k \<le> key_of (avl_mpData n)) ls = None"
    "List.find (\<lambda>n. key_of (avl_mpData n) \<le> key_of k) (rev rs) = None"
    by (auto simp: find_None_iff leD)
  then show "List.find (\<lambda>n. key_of k \<le> key_of (avl_mpData n)) (avl_nodes t) = Some n"
    "List.find (\<lambda>n. key_of (avl_mpData n) \<le> key_of k) (rev (avl_nodes t)) = Some n"
    using s assms(3) by (simp_all add: find_append)
qed

lemma descend_equal:
  assumes "avl_cmp_by cmp key_of"
  shows "avl_sorted key_of t \<Longrightarrow> avl_descend cmp k BOF_CMP_EQUAL t =
    avl_or_null (List.find (\<lambda>n. key_of (avl_mpData n) = key_of k) (avl_nodes t))"
proof (induction t)
  case (Node i d p b l r)
  note cmp = avl_cmp_byD [OF assms, where k = k and d = d]
  have l: "key_of d \<le> key_of k \<Longrightarrow> List.find (\<lambda>n. key_of (avl_mpData n) = key_of k) (avl_nodes l) = None"
    and r: "key_of k < key_of d \<Longrightarrow> List.find (\<lambda>n. key_of (avl_mpData n) = key_of k) (avl_nodes r) = None"
    using Node.prems by (auto simp: find_None_iff inorder_nodes)
  consider "key_of k < key_of d" | "key_of k = key_of d" | "key_of d < key_of k" by fastforce
  then show ?case
    by cases (use Node cmp l r in \<open>auto simp: find_append split: option.splits\<close>)
qed simp

lemma descend_prev_found:
  assumes "avl_cmp_by cmp key_of"
  shows "avl_sorted key_of t \<Longrightarrow> avl_has key_of k t \<Longrightarrow>
    \<exists>n \<in> set (avl_nodes t). key_of (avl_mpData n) = key_of k \<and> fst (avl_descend_prev cmp k prev t) = n"
proof (induction t arbitrary: prev)
  case (Node i d p b l r)
  note cmp = avl_cmp_byD [OF assms, where k = k and d = d]
    and has = Node.prems(2) [unfolded avl_has_Node [OF Node.prems(1)]]
  consider "key_of k < key_of d" | "key_of k = key_of d" | "key_of d < key_of k" by fastforce
  then show ?case
  proof cases
    case 1
    then show ?thesis using Node.IH(1) Node.prems(1) has cmp(1) by fastforce
  next
    case 2
    then show ?thesis using cmp(2) by auto
  next
    case 3
    then have "avl_has key_of k r" using has by (auto split: if_splits)
    then show ?thesis using Node.IH(2) Node.prems(1) cmp(3) [OF 3] by fastforce
  qed
qed (simp add: avl_has_def)

definition avl_prev_of :: "'k avl_cmp \<Rightarrow> 'k \<Rightarrow> 'k BofAvlNode list \<Rightarrow> 'k BofAvlNode \<times> BOFCMP" where
  "avl_prev_of cmp k anc = (case anc of [] \<Rightarrow> (NullNode, BOF_CMP_EQUAL) | n # _ \<Rightarrow> (n, cmp k (avl_mpData n)))"

lemma descend_prev_absent:
  assumes "avl_cmp_by cmp key_of"
  shows "avl_route key_of k root anc t \<Longrightarrow> avl_sorted key_of t \<Longrightarrow> \<not> avl_has key_of k t \<Longrightarrow>
    \<exists>anc'. avl_route key_of k root anc' NullNode \<and>
      avl_descend_prev cmp k (avl_prev_of cmp k anc) t = (NullNode, avl_prev_of cmp k anc')"
proof (induction t arbitrary: anc)
  case (Node i d p b l r)
  note cmp = avl_cmp_byD [OF assms, where k = k and d = d]
    and has = Node.prems(3) [unfolded avl_has_Node [OF Node.prems(2)]]
  have prev: "avl_prev_of cmp k (Node i d p b l r # anc) = (Node i d p b l r, cmp k d)" by (simp add: avl_prev_of_def)
  consider "key_of k < key_of d" | "key_of d < key_of k" using has by fastforce
  then show ?case
  proof cases
    case 1
    then show ?thesis using Node.IH(1) [OF route_left [OF Node.prems(1) 1]] Node.prems(2) has cmp(1) prev by auto
  next
    case 2
    then have "\<not> avl_has key_of k r" using has by (auto split: if_splits)
    then show ?thesis using Node.IH(2) [OF route_right [OF Node.prems(1) 2]] Node.prems(2) cmp(3) [OF 2] prev by auto
  qed
qed auto

text \<open>With an absent key the code ends on the first ancestor of the null end of the route that is on the wanted side.\<close>

lemma search_climb:
  assumes "avl_sorted key_of root" "avl_linked None root" "avl_distinct root" "avl_cmp_by cmp key_of"
    "avl_route key_of k root anc NullNode" "avl_count root \<le> fuel" "avl_prev_of cmp k anc = (prev, pc)"
    "want \<noteq> BOF_CMP_EQUAL"
  shows "(if prev = NullNode then Ret NullNode else if pc = want then Ret prev else avl_climb fuel cmp k want root prev)
    = Ret (avl_or_null (List.find (\<lambda>n. cmp k (avl_mpData n) = want) anc))"
proof (cases anc)
  case Nil
  then show ?thesis using assms(7) by (simp add: avl_prev_of_def)
next
  case (Cons n anc')
  have up: "avl_route key_of k root anc' n" "n \<noteq> NullNode" using route_up [OF assms(5) [unfolded Cons]] by auto
  have "length anc' < fuel"
    using route_shape [OF up(1) assms(1-3)] up(2) assms(6) by (cases n) auto
  then show ?thesis
    using climb_route [OF assms(1-3) up] Cons assms(7) up(2) by (auto simp: avl_prev_of_def)
qed


lemma search_absent:
  assumes "avl_sorted key_of root" "avl_linked None root" "avl_distinct root" "avl_cmp_by cmp key_of"
    "\<not> avl_has key_of k root" "avl_count root \<le> fuel"
  shows "BofAvlNode_Search fuel cmp k root BOF_CMP_GREATEROREQUAL =
      Ret (avl_or_null (List.find (\<lambda>n. key_of k \<le> key_of (avl_mpData n)) (avl_nodes root)))"
    "BofAvlNode_Search fuel cmp k root BOF_CMP_LESSOREQUAL =
      Ret (avl_or_null (List.find (\<lambda>n. key_of (avl_mpData n) \<le> key_of k) (rev (avl_nodes root))))"
proof -
  obtain anc where r: "avl_route key_of k root anc NullNode"
    and d: "avl_descend_prev cmp k (NullNode, BOF_CMP_EQUAL) root = (NullNode, avl_prev_of cmp k anc)"
    using descend_prev_absent [OF assms(4) route_root assms(1,5)] by (auto simp: avl_prev_of_def)
  obtain prev pc where p: "avl_prev_of cmp k anc = (prev, pc)" by fastforce
  obtain ls rs where s: "avl_nodes root = ls @ rs"
    "\<forall>n \<in> set ls. key_of (avl_mpData n) < key_of k" "\<forall>n \<in> set rs. key_of k < key_of (avl_mpData n)"
    "List.find (\<lambda>n. key_of k < key_of (avl_mpData n)) anc = opt_hd rs"
    "List.find (\<lambda>n. key_of (avl_mpData n) < key_of k) anc = opt_hd (rev ls)"
    using route_split [OF r assms(1)] by auto
  have c: "(\<lambda>n. cmp k (avl_mpData n) = BOF_CMP_LESS) = (\<lambda>n. key_of k < key_of (avl_mpData n))"
    "(\<lambda>n. cmp k (avl_mpData n) = BOF_CMP_GREATER) = (\<lambda>n. key_of (avl_mpData n) < key_of k)"
    using assms(4) by (auto simp: avl_cmp_by_def fun_eq_iff)
  note climb = search_climb [OF assms(1-4) r assms(6) p]
  have "List.find (\<lambda>n. key_of k \<le> key_of (avl_mpData n)) ls = None"
    "List.find (\<lambda>n. key_of (avl_mpData n) \<le> key_of k) (rev rs) = None"
    using s(2,3) by (auto intro!: find_none_all dest: leD)
  moreover have "List.find (\<lambda>n. key_of k \<le> key_of (avl_mpData n)) rs = opt_hd rs"
    "List.find (\<lambda>n. key_of (avl_mpData n) \<le> key_of k) (rev ls) = opt_hd (rev ls)"
    using s(2,3) by (auto intro!: find_hd_all intro: less_imp_le)
  ultimately have f: "List.find (\<lambda>n. key_of k \<le> key_of (avl_mpData n)) (avl_nodes root) = opt_hd rs"
    "List.find (\<lambda>n. key_of (avl_mpData n) \<le> key_of k) (rev (avl_nodes root)) = opt_hd (rev ls)"
    using s(1) by (simp_all add: find_append)
  show "BofAvlNode_Search fuel cmp k root BOF_CMP_GREATEROREQUAL =
      Ret (avl_or_null (List.find (\<lambda>n. key_of k \<le> key_of (avl_mpData n)) (avl_nodes root)))"
    using climb [of BOF_CMP_LESS] d p c s(4) f by (auto simp: BofAvlNode_Search_def Let_def split: if_splits)
  show "BofAvlNode_Search fuel cmp k root BOF_CMP_LESSOREQUAL =
      Ret (avl_or_null (List.find (\<lambda>n. key_of (avl_mpData n) \<le> key_of k) (rev (avl_nodes root))))"
    using climb [of BOF_CMP_GREATER] d p c s(5) f by (auto simp: BofAvlNode_Search_def Let_def split: if_splits)
qed

lemma search_present:
  assumes "avl_sorted key_of root" "avl_cmp_by cmp key_of" "avl_has key_of k root"
  shows "BofAvlNode_Search fuel cmp k root BOF_CMP_GREATEROREQUAL =
      Ret (avl_or_null (List.find (\<lambda>n. key_of k \<le> key_of (avl_mpData n)) (avl_nodes root)))"
    "BofAvlNode_Search fuel cmp k root BOF_CMP_LESSOREQUAL =
      Ret (avl_or_null (List.find (\<lambda>n. key_of (avl_mpData n) \<le> key_of k) (rev (avl_nodes root))))"
proof -
  obtain n prev where n: "n \<in> set (avl_nodes root)" "key_of (avl_mpData n) = key_of k"
    and d: "avl_descend_prev cmp k (NullNode, BOF_CMP_EQUAL) root = (n, prev)"
    using descend_prev_found [OF assms(2,1,3)] by (metis prod.collapse)
  have "n \<noteq> NullNode" using n(1) by (metis nodes_not_null)
  then show "BofAvlNode_Search fuel cmp k root BOF_CMP_GREATEROREQUAL =
      Ret (avl_or_null (List.find (\<lambda>n. key_of k \<le> key_of (avl_mpData n)) (avl_nodes root)))"
    "BofAvlNode_Search fuel cmp k root BOF_CMP_LESSOREQUAL =
      Ret (avl_or_null (List.find (\<lambda>n. key_of (avl_mpData n) \<le> key_of k) (rev (avl_nodes root))))"
    using d find_sorted [OF assms(1) n] by (simp_all add: BofAvlNode_Search_def)
qed

lemma strict_sorted_map_distinct:
  "sorted_wrt (\<lambda>x y. f x < (f y :: 'o::linorder)) (map g xs) \<Longrightarrow> distinct xs"
  by (induction xs) auto

lemma split_neighbours:
  assumes "ns = xs @ n # ys"
  shows "opt_hd ys = (if length xs + 1 < length ns then Some (ns ! (length xs + 1)) else None)"
    "opt_hd (rev xs) = (if 0 < length xs then Some (ns ! (length xs - 1)) else None)"
  unfolding assms by (cases ys; simp add: nth_append) (cases xs rule: rev_cases; simp add: nth_append)

section \<open>Neighbours\<close>

text \<open>The neighbours of a node through the climb: the ends of the split of its route.\<close>

lemma neighbour_climb:
  assumes "avl_sorted key_of root" "avl_linked None root" "avl_distinct root" "avl_cmp_by cmp key_of"
    "n \<in> set (avl_nodes root)"
  shows "\<exists>ls rs. avl_nodes root = ls @ avl_nodes n @ rs \<and>
    avl_climb_data (avl_count root) cmp BOF_CMP_LESS root n = Ret (avl_or_null (opt_hd rs)) \<and>
    avl_climb_data (avl_count root) cmp BOF_CMP_GREATER root n = Ret (avl_or_null (opt_hd (rev ls)))"
proof -
  have nn: "n \<noteq> NullNode" using assms(5) by (metis nodes_not_null)
  obtain anc where r: "avl_route key_of (avl_mpData n) root anc n"
    using route_extend [OF route_root assms(1,5)] by blast
  have fuel: "length anc < avl_count root" using route_shape [OF r assms(1-3)] nn by (cases n) auto
  have c: "(\<lambda>m. cmp (avl_mpData n) (avl_mpData m) = BOF_CMP_LESS) = (\<lambda>m. key_of (avl_mpData n) < key_of (avl_mpData m))"
    "(\<lambda>m. cmp (avl_mpData n) (avl_mpData m) = BOF_CMP_GREATER) = (\<lambda>m. key_of (avl_mpData m) < key_of (avl_mpData n))"
    using assms(4) by (auto simp: avl_cmp_by_def fun_eq_iff)
  show ?thesis using route_split [OF r assms(1)] climb_data_route [OF assms(1-4) r nn fuel] c by metis
qed

lemma neighbours:
  assumes "avl_sorted key_of root" "avl_linked None root" "avl_distinct root" "avl_cmp_by cmp key_of"
    "n \<in> set (avl_nodes root)" "avt_mpRoot t = root"
  shows "\<exists>xs ys. avl_nodes root = xs @ n # ys \<and> BofAvlTree_GetNext cmp t n = Ret (avl_or_null (opt_hd ys)) \<and>
    BofAvlTree_GetPrevious cmp t n = Ret (avl_or_null (opt_hd (rev xs)))"
proof -
  obtain ls rs where s: "avl_nodes root = ls @ avl_nodes n @ rs"
    "avl_climb_data (avl_count root) cmp BOF_CMP_LESS root n = Ret (avl_or_null (opt_hd rs))"
    "avl_climb_data (avl_count root) cmp BOF_CMP_GREATER root n = Ret (avl_or_null (opt_hd (rev ls)))"
    using neighbour_climb [OF assms(1-5)] by blast
  have nn: "n \<noteq> NullNode" using assms(5) by (metis nodes_not_null)
  then have nodes: "avl_nodes n = avl_nodes (avl_left n) @ n # avl_nodes (avl_right n)" by (cases n) auto
  have nxt: "BofAvlTree_GetNext cmp t n = Ret (avl_or_null (opt_hd (avl_nodes (avl_right n) @ rs)))"
    using s(2) nn assms(6) leftmost_hd [of "avl_right n"]
    by (cases "avl_right n = NullNode"; cases "avl_nodes (avl_right n)") (auto simp: BofAvlTree_GetNext_def avl_fuel_def)
  have prv: "BofAvlTree_GetPrevious cmp t n = Ret (avl_or_null (opt_hd (rev (ls @ avl_nodes (avl_left n)))))"
    using s(3) nn assms(6) rightmost_last [of "avl_left n"]
    by (cases "avl_left n = NullNode"; cases "avl_nodes (avl_left n)" rule: rev_cases)
       (auto simp: BofAvlTree_GetPrevious_def avl_fuel_def)
  show ?thesis using s(1) nodes nxt prv by (intro exI [of _ "ls @ avl_nodes (avl_left n)"] exI [of _ "avl_nodes (avl_right n) @ rs"]) simp
qed

section \<open>Height\<close>

text \<open>An AVL tree of height \<open>h\<close> has at least \<open>2 ^ (h div 2) - 1\<close> nodes.\<close>

lemma nat_Suc_max: "0 \<le> (a::int) \<Longrightarrow> 0 \<le> b \<Longrightarrow> nat (1 + max a b) = Suc (max (nat a) (nat b))"
  by (cases "a \<le> b") (simp_all add: max_def nat_add_distrib)

lemma height_count:
  "avl_balanced t \<Longrightarrow> 2 ^ (nat (BofAvlNode_GetHeight t) div 2) \<le> avl_count t + 1"
proof (induction t)
  case (Node i d p b l r)
  define hl hr where "hl = nat (BofAvlNode_GetHeight l)" and "hr = nat (BofAvlNode_GetHeight r)"
  have diff: "hl \<le> hr + 1" "hr \<le> hl + 1" using Node.prems by (auto simp: hl_def hr_def)
  have h: "nat (BofAvlNode_GetHeight (Node i d p b l r)) = Suc (max hl hr)"
    by (simp add: hl_def hr_def nat_Suc_max)
  have ih: "2 ^ (hl div 2) \<le> avl_count l + 1" "2 ^ (hr div 2) \<le> avl_count r + 1"
    using Node by (auto simp: hl_def hr_def)
  define m where "m = min hl hr div 2"
  have "Suc (max hl hr) \<le> min hl hr + 2" using diff by linarith
  then have "Suc (max hl hr) div 2 \<le> (min hl hr + 2) div 2" by (rule div_le_mono)
  then have "Suc (max hl hr) div 2 \<le> Suc m" by (simp add: m_def)
  then have "(2::nat) ^ (Suc (max hl hr) div 2) \<le> 2 ^ Suc m" by (rule power_increasing) simp
  also have "\<dots> = 2 ^ m + 2 ^ m" by simp
  also have "\<dots> \<le> 2 ^ (hl div 2) + 2 ^ (hr div 2)"
    by (intro add_mono power_increasing) (auto simp: m_def intro: div_le_mono)
  also have "\<dots> \<le> avl_count (Node i d p b l r) + 1" using ih by simp
  finally show ?case unfolding h .
qed simp


end
