(* ===== verification/Bof_Avl_Props.thy ===== *)
theory Bof_Avl_Props
  imports Bof_Avl_Search
begin

text \<open>The invariant of the tree object and the properties of its operations.\<close>

section \<open>The invariant\<close>

text \<open>
  The tree is a balanced search tree with exact parent pointers, and every
  node of the array is either in the tree or on the free list, once.
\<close>

definition avl_tree_ok :: "('k \<Rightarrow> 'o::linorder) \<Rightarrow> 'k BofAvlTree \<Rightarrow> bool" where
  "avl_tree_ok key_of t \<longleftrightarrow>
     avl_balanced (avt_mpRoot t) \<and> avl_sorted key_of (avt_mpRoot t) \<and> avl_linked None (avt_mpRoot t) \<and>
     avl_distinct (avt_mpRoot t) \<and> distinct (avt_free t) \<and> set (avt_free t) \<inter> avl_ids (avt_mpRoot t) = {} \<and>
     set (avt_free t) \<union> avl_ids (avt_mpRoot t) = {..<unat (avt_mNbMaxElement_U32 t)} \<and>
     avt_mNbNode_U32 t = of_nat (avl_count (avt_mpRoot t))"

definition avt_contents :: "'k BofAvlTree \<Rightarrow> 'k list" where
  "avt_contents t = avl_inorder (avt_mpRoot t)"

definition avt_cap :: "'k BofAvlTree \<Rightarrow> nat" where
  "avt_cap t = unat (avt_mNbMaxElement_U32 t)"

lemma avl_tree_okD:
  assumes "avl_tree_ok key_of t"
  shows "avl_balanced (avt_mpRoot t)" "avl_sorted key_of (avt_mpRoot t)" "avl_linked None (avt_mpRoot t)"
    "avl_distinct (avt_mpRoot t)" "distinct (avt_free t)" "set (avt_free t) \<inter> avl_ids (avt_mpRoot t) = {}"
    "set (avt_free t) \<union> avl_ids (avt_mpRoot t) = {..<unat (avt_mNbMaxElement_U32 t)}"
    "avt_mNbNode_U32 t = of_nat (avl_count (avt_mpRoot t))"
  using assms by (simp_all add: avl_tree_ok_def)

lemma length_inorder [simp]: "length (avl_inorder t) = avl_count t"
  by (simp add: inorder_nodes)

text \<open>The node pool: used and free nodes add up to the capacity.\<close>

lemma avl_pool:
  assumes "avl_tree_ok key_of t"
  shows "length (avt_free t) + avl_count (avt_mpRoot t) = avt_cap t" "unat (avt_mNbNode_U32 t) = avl_count (avt_mpRoot t)"
proof -
  note ok = avl_tree_okD [OF assms]
  have "card (set (avt_free t) \<union> avl_ids (avt_mpRoot t)) = length (avt_free t) + avl_count (avt_mpRoot t)"
    using ok(4-6) count_card [OF ok(4)] by (simp add: card_Un_disjoint distinct_card)
  then show pool: "length (avt_free t) + avl_count (avt_mpRoot t) = avt_cap t" using ok(7) by (simp add: avt_cap_def)
  have "unat (avt_mNbMaxElement_U32 t) < 2 ^ LENGTH(32)" by (rule unsigned_less)
  then have "avl_count (avt_mpRoot t) < 2 ^ 32" using pool by (simp add: avt_cap_def)
  then show "unat (avt_mNbNode_U32 t) = avl_count (avt_mpRoot t)" using ok(8) by (simp add: unsigned_of_nat take_bit_nat_eq_self)
qed

lemma avl_ctor_ok: "avl_tree_ok key_of (fst (BofAvlTree_ctor n))"
  by (auto simp: avl_tree_ok_def BofAvlTree_ctor_def)

lemma avl_Clear_ok: "avl_tree_ok key_of (BofAvlTree_Clear t)"
  by (auto simp: avl_tree_ok_def BofAvlTree_Clear_def)

text \<open>Growing with the head of the free list and shrinking onto it keep the invariant.\<close>

lemma avl_tree_grown:
  assumes "avl_tree_ok key_of t" "avt_free t = a # free" "avl_grown key_of k a None (avt_mpRoot t) root ch"
    "\<not> avl_has key_of k (avt_mpRoot t)"
  shows "avl_tree_ok key_of (t\<lparr>avt_mpRoot := root, avt_free := free, avt_mNbNode_U32 := avt_mNbNode_U32 t + 1\<rparr>)"
proof -
  note ok = avl_tree_okD [OF assms(1)] and g = assms(3) [unfolded avl_grown_def]
  have a: "a \<notin> avl_ids (avt_mpRoot t)" using ok(6) assms(2) by auto
  have s: "avl_sorted key_of root"
    using ok(2) g list_insert_by_sorted [of key_of "avl_inorder (avt_mpRoot t)" k] by (simp add: avl_sorted_iff index_sorted_def)
  have ids: "set free \<inter> avl_ids root = {}" "set free \<union> avl_ids root = {..<unat (avt_mNbMaxElement_U32 t)}"
    using ok(5-7) assms(2) g by auto
  have "avl_balanced root" "avl_linked None root" "avl_distinct root" "avl_count root = avl_count (avt_mpRoot t) + 1"
    using g ok(3,4) a by auto
  then show ?thesis using s ids ok(5,8) assms(2) by (simp add: avl_tree_ok_def)
qed

lemma avl_tree_shrunk:
  assumes "avl_tree_ok key_of t" "avl_shrunk ys a None (avt_mpRoot t) root ch" "index_sorted key_of ys"
  shows "avl_tree_ok key_of (t\<lparr>avt_mpRoot := root, avt_free := a # avt_free t, avt_mNbNode_U32 := avt_mNbNode_U32 t - 1\<rparr>)"
proof -
  note ok = avl_tree_okD [OF assms(1)] and g = assms(2) [unfolded avl_shrunk_def]
  have s: "avl_sorted key_of root" using g assms(3) by (simp add: avl_sorted_iff index_sorted_def)
  have i: "avl_ids root = avl_ids (avt_mpRoot t) - {a}" "a \<in> avl_ids (avt_mpRoot t)" "a \<notin> set (avt_free t)"
    using g ok(4,6) by auto
  have ids: "set (a # avt_free t) \<inter> avl_ids root = {}"
    "set (a # avt_free t) \<union> avl_ids root = {..<unat (avt_mNbMaxElement_U32 t)}"
    using ok(6,7) i by auto
  have c: "avt_mNbNode_U32 t - 1 = of_nat (avl_count root)"
    using g ok(8) by (metis add_diff_cancel of_nat_1 of_nat_add)
  have "avl_balanced root" "avl_linked None root" "avl_distinct root" using g ok(3,4) by auto
  then show ?thesis using s ids c i(3) ok(5) by (simp add: avl_tree_ok_def)
qed

section \<open>Operations\<close>

lemma has_lookup: "avl_has key_of k t \<longleftrightarrow> list_lookup_by key_of k (avl_inorder t) \<noteq> None"
  by (auto simp: avl_has_def list_lookup_by_def find_None_iff)

lemma lookup_is:
  assumes "index_sorted key_of xs" "d \<in> set xs" "key_of d = key_of k"
  shows "list_lookup_by key_of k xs = Some d"
  using assms unfolding list_lookup_by_def index_sorted_def by (induction xs) auto

text \<open>The answer of an operation as the client of the index reads it.\<close>

fun avl_insert_reply :: "avl_insert \<Rightarrow> 'k index_reply" where
  "avl_insert_reply AvlInserted = IndexAdded"
| "avl_insert_reply (AvlExists _) = IndexPresent"
| "avl_insert_reply AvlNoFreeNode = IndexNoRoom"

definition avl_delete_reply :: "'k option \<Rightarrow> 'k index_reply" where
  "avl_delete_reply r = (case r of None \<Rightarrow> IndexAbsent | Some d \<Rightarrow> IndexRemoved d)"

lemma tree_insert:
  assumes "avl_cmp_by cmp key_of" "avl_tree_ok key_of t"
  shows "\<exists>t' r. BofAvlTree_Insert cmp t k = Ret (t', r) \<and> avl_tree_ok key_of t' \<and> avt_cap t' = avt_cap t \<and>
    index_step (avt_cap t) key_of (IndexInsert k) (avt_contents t) = (avt_contents t', avl_insert_reply r)"
proof -
  note ok = avl_tree_okD [OF assms(2)] and pool = avl_pool [OF assms(2)]
  consider "avl_has key_of k (avt_mpRoot t)" | "\<not> avl_has key_of k (avt_mpRoot t)" "avt_free t = []"
    | a free where "\<not> avl_has key_of k (avt_mpRoot t)" "avt_free t = a # free" by (cases "avt_free t") auto
  then show ?thesis
  proof cases
    case 1
    then obtain i ch where "BofAvlNode_Insert cmp (avt_free t) k None (avt_mpRoot t) = Ret (avt_mpRoot t, avt_free t, ch, AvlExists i)"
      using Insert_exists [OF assms(1) ok(2)] by blast
    then show ?thesis using 1 assms(2) by (auto simp: BofAvlTree_Insert_def has_lookup avt_contents_def)
  next
    case 2
    then obtain ch where "BofAvlNode_Insert cmp [] k None (avt_mpRoot t) = Ret (avt_mpRoot t, [], ch, AvlNoFreeNode)"
      using Insert_no_node [OF assms(1) ok(2)] by blast
    then show ?thesis using 2 assms(2) pool(1) by (cases t) (simp add: avt_cap_def BofAvlTree_Insert_def has_lookup avt_contents_def)
  next
    case 3
    then obtain root ch where ins: "BofAvlNode_Insert cmp (a # free) k None (avt_mpRoot t) = Ret (root, free, ch, AvlInserted)"
      "avl_grown key_of k a None (avt_mpRoot t) root ch"
      using Insert_grows [OF assms(1) ok(1,2) 3(1)] by blast
    have "avl_inorder root = list_insert_by key_of k (avl_inorder (avt_mpRoot t))" using ins(2) by (simp add: avl_grown_def)
    then show ?thesis using ins(1) 3 pool(1) avl_tree_grown [OF assms(2) 3(2) ins(2) 3(1)]
      by (simp add: BofAvlTree_Insert_def has_lookup avt_contents_def avt_cap_def)
  qed
qed

lemma tree_delete:
  assumes "avl_cmp_by cmp key_of" "avl_tree_ok key_of t"
  shows "\<exists>t' r. BofAvlTree_Delete cmp t k BOF_CMP_EQUAL = Ret (t', r) \<and> avl_tree_ok key_of t' \<and> avt_cap t' = avt_cap t \<and>
    index_step (avt_cap t) key_of (IndexDelete k) (avt_contents t) = (avt_contents t', avl_delete_reply r)"
proof -
  note ok = avl_tree_okD [OF assms(2)]
  have sorted: "index_sorted key_of (avl_inorder (avt_mpRoot t))" using ok(2) by (simp add: avl_sorted_iff index_sorted_def)
  show ?thesis
  proof (cases "avl_has key_of k (avt_mpRoot t)")
    case True
    then obtain root a ch d where
      del: "BofAvlNode_Delete cmp (avt_free t) k BOF_CMP_EQUAL (avt_mpRoot t) = Ret (root, a # avt_free t, ch, Some d)"
      "d \<in> set (avl_inorder (avt_mpRoot t))" "key_of d = key_of k"
      "avl_shrunk (list_delete_by key_of k (avl_inorder (avt_mpRoot t))) a None (avt_mpRoot t) root ch"
      using Delete_present [OF assms(1) ok(1,2)] by metis
    have "avl_inorder root = list_delete_by key_of k (avl_inorder (avt_mpRoot t))" using del(4) by (simp add: avl_shrunk_def)
    then show ?thesis
      using del(1) lookup_is [OF sorted del(2,3)] avl_tree_shrunk [OF assms(2) del(4) list_delete_by_sorted [OF sorted]]
      by (simp add: BofAvlTree_Delete_def avt_contents_def avt_cap_def avl_delete_reply_def)
  next
    case False
    then obtain ch where "BofAvlNode_Delete cmp (avt_free t) k BOF_CMP_EQUAL (avt_mpRoot t) = Ret (avt_mpRoot t, avt_free t, ch, None)"
      using Delete_absent [OF assms(1) ok(2)] by blast
    then show ?thesis using False assms(2)
      by (simp add: BofAvlTree_Delete_def has_lookup avt_contents_def avl_delete_reply_def)
  qed
qed

text \<open>The tree as an index: one step of a client.\<close>

fun avl_index_step :: "'k avl_cmp \<Rightarrow> 'k index_op \<Rightarrow> 'k BofAvlTree \<Rightarrow> ('k BofAvlTree \<times> 'k index_reply) outcome" where
  "avl_index_step cmp (IndexInsert k) t =
     bindO (BofAvlTree_Insert cmp t k) (\<lambda>(t, r). Ret (t, avl_insert_reply r))"
| "avl_index_step cmp (IndexDelete k) t =
     bindO (BofAvlTree_Delete cmp t k BOF_CMP_EQUAL) (\<lambda>(t, r). Ret (t, avl_delete_reply r))"

interpretation avlx: sorted_index "\<lambda>t. avl_cmp_by cmp key_of \<and> avl_tree_ok key_of t" avt_contents avt_cap
    "key_of :: 'k \<Rightarrow> 'o::linorder" "avl_index_step cmp"
  for cmp key_of
proof
  fix t :: "'k BofAvlTree" and op :: "'k index_op"
  assume a: "avl_cmp_by cmp key_of \<and> avl_tree_ok key_of t"
  show "index_sorted key_of (avt_contents t)"
    using a by (simp add: avl_tree_ok_def avl_sorted_iff index_sorted_def avt_contents_def)
  show "length (avt_contents t) \<le> avt_cap t"
    using avl_pool(1) [of key_of t] a by (simp add: avt_contents_def)
  show "\<exists>t' r. avl_index_step cmp op t = Ret (t', r) \<and> (avl_cmp_by cmp key_of \<and> avl_tree_ok key_of t') \<and>
      avt_cap t' = avt_cap t \<and> index_step (avt_cap t) key_of op (avt_contents t) = (avt_contents t', r)"
  proof (cases op)
    case (IndexInsert k)
    then show ?thesis using tree_insert [of cmp key_of t k] a by (auto simp del: index_step.simps)
  next
    case (IndexDelete k)
    then show ?thesis using tree_delete [of cmp key_of t k] a by (auto simp del: index_step.simps)
  qed
qed

lemma Check_counts:
  assumes "avl_cmp_by cmp key_of"
  shows "avl_balanced t \<Longrightarrow> avl_sorted key_of t \<Longrightarrow> avl_linked q t \<Longrightarrow>
    BofAvlNode_Check cmp t n = (True, n + of_nat (avl_count t - 1))"
proof (induction t arbitrary: q n)
  case (Node i d p b l r)
  have sub: "(if s \<noteq> NullNode then BofAvlNode_Check cmp s (m + 1) else (True, m)) = (True, m + of_nat (avl_count s))"
    if "\<And>m. BofAvlNode_Check cmp s m = (True, m + of_nat (avl_count s - 1))" for s m
    using that by (cases s) (simp_all add: algebra_simps)
  have l: "BofAvlNode_Check cmp l m = (True, m + of_nat (avl_count l - 1))"
    and r: "BofAvlNode_Check cmp r m = (True, m + of_nat (avl_count r - 1))" for m
    using Node.IH(1) [of "Some i" m] Node.IH(2) [of "Some i" m] Node.prems by auto
  have nl: "\<not> (l \<noteq> NullNode \<and> BofAvlNode_Compare cmp d BOF_CMP_EQUAL l = BOF_CMP_LESS)"
    using Node.prems(2) avl_cmp_byD(3) [OF assms] by (cases l) auto
  have nr: "\<not> (r \<noteq> NullNode \<and> BofAvlNode_Compare cmp d BOF_CMP_EQUAL r = BOF_CMP_GREATER)"
    using Node.prems(2) avl_cmp_byD(1) [OF assms] by (cases r) auto
  have par: "\<not> (l \<noteq> NullNode \<and> avl_parent l \<noteq> None \<and> avl_parent l \<noteq> Some i)"
    "\<not> (r \<noteq> NullNode \<and> avl_parent r \<noteq> None \<and> avl_parent r \<noteq> Some i)"
    using Node.prems(3) by (cases l; cases r; auto)+
  show ?case
    using Node.prems nl nr par sub [OF l] sub [OF r]
    by (simp add: LEFT_IMBALANCE_def RIGHT_IMBALANCE_def algebra_simps)
qed simp

lemma tree_search:
  assumes "avl_cmp_by cmp key_of" "avl_tree_ok key_of t"
  shows "BofAvlTree_Search cmp t k BOF_CMP_EQUAL =
      Ret (avl_or_null (List.find (\<lambda>n. key_of (avl_mpData n) = key_of k) (avl_nodes (avt_mpRoot t)))) \<and>
    BofAvlTree_Search cmp t k BOF_CMP_GREATEROREQUAL =
      Ret (avl_or_null (List.find (\<lambda>n. key_of k \<le> key_of (avl_mpData n)) (avl_nodes (avt_mpRoot t)))) \<and>
    BofAvlTree_Search cmp t k BOF_CMP_LESSOREQUAL =
      Ret (avl_or_null (List.find (\<lambda>n. key_of (avl_mpData n) \<le> key_of k) (rev (avl_nodes (avt_mpRoot t)))))"
proof -
  note ok = avl_tree_okD [OF assms(2)]
  have "BofAvlTree_Search cmp t k BOF_CMP_EQUAL =
      Ret (avl_or_null (List.find (\<lambda>n. key_of (avl_mpData n) = key_of k) (avl_nodes (avt_mpRoot t))))"
    using descend_equal [OF assms(1) ok(2)] by (simp add: BofAvlTree_Search_def BofAvlNode_Search_def)
  then show ?thesis
    using search_present [OF ok(2) assms(1)] search_absent [OF ok(2-4) assms(1)]
    by (cases "avl_has key_of k (avt_mpRoot t)") (simp_all add: BofAvlTree_Search_def avl_fuel_def)
qed

lemma tree_traversal:
  assumes "avl_cmp_by cmp key_of" "avl_tree_ok key_of t" "i < length (avt_contents t)"
  shows "BofAvlTree_GetFirst t = avl_nodes (avt_mpRoot t) ! 0 \<and>
    BofAvlTree_GetLast t = avl_nodes (avt_mpRoot t) ! (length (avt_contents t) - 1) \<and>
    avl_mpData (avl_nodes (avt_mpRoot t) ! i) = avt_contents t ! i \<and>
    BofAvlTree_GetNext cmp t (avl_nodes (avt_mpRoot t) ! i) =
      Ret (if i + 1 < length (avt_contents t) then avl_nodes (avt_mpRoot t) ! (i + 1) else NullNode) \<and>
    BofAvlTree_GetPrevious cmp t (avl_nodes (avt_mpRoot t) ! i) =
      Ret (if 0 < i then avl_nodes (avt_mpRoot t) ! (i - 1) else NullNode)"
proof -
  let ?ns = "avl_nodes (avt_mpRoot t)"
  note ok = avl_tree_okD [OF assms(2)]
  have len: "length (avt_contents t) = length ?ns" by (simp add: avt_contents_def)
  have i: "i < length ?ns" using assms(3) len by simp
  have root: "avt_mpRoot t \<noteq> NullNode" using i by auto
  then have ne: "?ns \<noteq> []" by simp
  obtain xs ys where s: "?ns = xs @ ?ns ! i # ys"
    "BofAvlTree_GetNext cmp t (?ns ! i) = Ret (avl_or_null (opt_hd ys))"
    "BofAvlTree_GetPrevious cmp t (?ns ! i) = Ret (avl_or_null (opt_hd (rev xs)))"
    using neighbours [OF ok(2-4) assms(1) nth_mem [OF i] refl] by blast
  have dist: "distinct ?ns"
    using ok(2) by (auto simp: avl_sorted_iff inorder_nodes distinct_map dest!: strict_sorted_map_distinct)
  have lx: "length xs = i" using dist i s(1) by (metis distinct_split_index)
  have nexts: "opt_hd ys = (if i + 1 < length ?ns then Some (?ns ! (i + 1)) else None)"
    using split_neighbours(1) [OF s(1)] lx by simp
  have prevs: "opt_hd (rev xs) = (if 0 < i then Some (?ns ! (i - 1)) else None)"
    using split_neighbours(2) [OF s(1)] lx by simp
  show ?thesis
    using s(2,3) nexts prevs i len ne leftmost_hd [OF root] rightmost_last [OF root]
    by (simp add: BofAvlTree_GetFirst_def BofAvlTree_GetLast_def hd_conv_nth last_conv_nth avt_contents_def inorder_nodes)
qed

lemma tree_check:
  assumes "avl_cmp_by cmp key_of" "avl_tree_ok key_of t"
  shows "BofAvlTree_Check cmp t n = (True, n + BofAvlTree_GetNbNode t)"
proof (cases "avt_mpRoot t = NullNode")
  case True
  then show ?thesis using avl_tree_okD(8) [OF assms(2)] by (simp add: BofAvlTree_Check_def BofAvlTree_GetNbNode_def)
next
  case False
  note ok = avl_tree_okD [OF assms(2)] and pool = avl_pool [OF assms(2)]
  have c: "0 < avl_count (avt_mpRoot t)" using False by (cases "avt_mpRoot t") auto
  have "of_nat (avl_count (avt_mpRoot t) - 1) = (of_nat (avl_count (avt_mpRoot t)) - 1 :: u32)"
    using c by (simp add: of_nat_diff)
  then have cnt: "BofAvlNode_Check cmp (avt_mpRoot t) (n + 1) = (True, n + avt_mNbNode_U32 t)"
    using Check_counts [OF assms(1) ok(1-3)] ok(8) by simp
  have "avt_mNbMaxElement_U32 t - of_nat (length (avt_free t)) = avt_mNbNode_U32 t"
    using arg_cong [OF pool(1), of "of_nat :: nat \<Rightarrow> u32"] ok(8) by (simp add: avt_cap_def algebra_simps)
  moreover have "min (length (avt_free t)) (unat (avt_mNbMaxElement_U32 t)) = length (avt_free t)"
    using pool(1) by (simp add: avt_cap_def)
  ultimately show ?thesis using False cnt by (simp add: BofAvlTree_Check_def BofAvlTree_GetNbNode_def)
qed

section \<open>Depths\<close>

text \<open>The depths of the nodes, from left to right; the root is at the depth given.\<close>

primrec avl_depths :: "nat \<Rightarrow> 'k BofAvlNode \<Rightarrow> nat list" where
  "avl_depths k NullNode = []"
| "avl_depths k (Node i d p b l r) = avl_depths (Suc k) l @ k # avl_depths (Suc k) r"

lemma length_depths [simp]: "length (avl_depths k t) = avl_count t"
  by (induction t arbitrary: k) simp_all

lemma depths_height:
  "d \<in> set (avl_depths (Suc k) t) \<Longrightarrow> d \<le> k + nat (BofAvlNode_GetHeight t)"
  "t \<noteq> NullNode \<Longrightarrow> k + nat (BofAvlNode_GetHeight t) \<in> set (avl_depths (Suc k) t)"
proof (induction t arbitrary: k)
  case (Node i x p b l r)
  define hl hr where "hl = nat (BofAvlNode_GetHeight l)" and "hr = nat (BofAvlNode_GetHeight r)"
  have h: "nat (BofAvlNode_GetHeight (Node i x p b l r)) = Suc (max hl hr)" by (simp add: hl_def hr_def nat_Suc_max)
  { case 1
    then show ?case using Node.IH(1,3) [of "Suc k"] unfolding h hl_def hr_def by fastforce
  next
    case 2
    have "BofAvlNode_GetHeight t \<le> 0 \<longleftrightarrow> t = NullNode" for t :: "'a BofAvlNode" by (metis height_0 height_nonneg order.antisym order.refl)
    then have "l = NullNode \<longleftrightarrow> hl = 0" "r = NullNode \<longleftrightarrow> hr = 0" by (simp_all add: hl_def hr_def)
    then show ?case using Node.IH(2,4) [of "Suc k"] unfolding h by (cases "hl \<le> hr"; cases "hr = 0") (auto simp: hl_def [symmetric] hr_def [symmetric] max_def) }
qed simp_all

section \<open>Properties\<close>

definition rec_cmp :: "(nat \<times> string) avl_cmp" where
  "rec_cmp k d = (if fst k < fst d then BOF_CMP_LESS else if fst k = fst d then BOF_CMP_EQUAL else BOF_CMP_GREATER)"

definition rec_ops :: "(nat \<times> string) index_op list" where
  "rec_ops = [IndexInsert (3, ''c''), IndexInsert (2, ''b''), IndexInsert (1, ''a''), IndexInsert (4, ''d'')]"

definition rec_tree :: "(nat \<times> string) BofAvlTree" where
  "rec_tree = \<lparr>avt_mpRoot = Node 1 (2, ''b'') None 1
      (Node 2 (1, ''a'') (Some 1) 0 NullNode NullNode)
      (Node 0 (3, ''c'') (Some 1) 1 NullNode (Node 3 (4, ''d'') (Some 0) 0 NullNode NullNode)),
    avt_mNbNode_U32 = 4, avt_mNbMaxElement_U32 = 5, avt_free = [4]\<rparr>"

lemma rec_cmp_by: "avl_cmp_by rec_cmp fst"
  by (auto simp: avl_cmp_by_def rec_cmp_def)

lemma rec_tree_ok: "avl_tree_ok fst rec_tree"
  by (auto simp: avl_tree_ok_def rec_tree_def)

text \<open>
  C17. Any sequence of insertions and deletions on a new tree runs to its end
  without following a null pointer, and the client sees a sorted list without
  duplicates of the capacity given to the constructor: each insertion is
  accepted, refused as a duplicate or refused for lack of nodes, each deletion
  hands out the record of the key or nothing, exactly as on that list, and the
  final tree holds the final list, balanced, with every node of its array
  either in use or on the free list.
\<close>

theorem BofAvlTree_run_refines_index:
  assumes "avl_cmp_by cmp key_of"
  shows "\<exists>t rs. index_impl_run (avl_index_step cmp) ops (fst (BofAvlTree_ctor n)) = Ret (t, rs) \<and>
    avl_tree_ok key_of t \<and> index_run (unat n) key_of ops [] = (avt_contents t, rs)"
proof -
  have "avl_cmp_by cmp key_of \<and> avl_tree_ok key_of (fst (BofAvlTree_ctor n) :: 'a BofAvlTree)"
    using assms avl_ctor_ok by blast
  from avlx.run_refines [OF this, of ops] show ?thesis
    by (auto simp: BofAvlTree_ctor_def avt_cap_def avt_contents_def)
qed

theorem BofAvlTree_run_refines_index_witness:
  "\<exists>t rs. index_impl_run (avl_index_step rec_cmp) rec_ops (fst (BofAvlTree_ctor 5)) = Ret (t, rs) \<and>
    avl_tree_ok fst t \<and> avt_contents t = [(1, ''a''), (2, ''b''), (3, ''c''), (4, ''d'')]"
  using BofAvlTree_run_refines_index [OF rec_cmp_by, of rec_ops 5]
  by (auto simp: rec_ops_def list_lookup_by_def list_insert_by_def)

text \<open>
  An insertion into a sound tree always returns, keeps the tree sound and
  has three outcomes: a node with an equal key exists and nothing changes, the
  free list is empty and nothing changes, or the record is put at its place in
  key order and the number of nodes grows by one.
\<close>

theorem BofAvlTree_Insert_correct:
  assumes "avl_cmp_by cmp key_of" "avl_tree_ok key_of t"
  shows "\<exists>t' r. BofAvlTree_Insert cmp t k = Ret (t', r) \<and> avl_tree_ok key_of t' \<and>
    (if list_lookup_by key_of k (avt_contents t) \<noteq> None then (\<exists>i. r = AvlExists i) \<and> avt_contents t' = avt_contents t
     else if BofAvlTree_IsFull t then r = AvlNoFreeNode \<and> avt_contents t' = avt_contents t
     else r = AvlInserted \<and> avt_contents t' = list_insert_by key_of k (avt_contents t) \<and>
       BofAvlTree_GetNbNode t' = BofAvlTree_GetNbNode t + 1)"
proof -
  obtain t' r where t': "BofAvlTree_Insert cmp t k = Ret (t', r)" "avl_tree_ok key_of t'" "avt_cap t' = avt_cap t"
    "index_step (avt_cap t) key_of (IndexInsert k) (avt_contents t) = (avt_contents t', avl_insert_reply r)"
    using tree_insert [OF assms] by metis
  have full: "BofAvlTree_IsFull t \<longleftrightarrow> \<not> length (avt_contents t) < avt_cap t"
    using avl_pool [OF assms(2)] by (auto simp: BofAvlTree_IsFull_def avt_contents_def avt_cap_def word_unat_eq_iff)
  have len: "length (list_insert_by key_of k (avt_contents t)) = length (avt_contents t) + 1"
    if "list_lookup_by key_of k (avt_contents t) = None"
  proof -
    have "filter (\<lambda>d. key_of k < key_of d) (avt_contents t) = filter (\<lambda>d. \<not> key_of d < key_of k) (avt_contents t)"
      using that by (intro filter_cong) (auto simp: list_lookup_by_def find_None_iff not_less_iff_gr_or_eq)
    then show ?thesis by (simp add: list_insert_by_def sum_length_filter_compl)
  qed
  have nb: "BofAvlTree_GetNbNode s = of_nat (length (avt_contents s))" if "avl_tree_ok key_of s" for s :: "'a BofAvlTree"
    using avl_tree_okD(8) [OF that] by (simp add: BofAvlTree_GetNbNode_def avt_contents_def)
  show ?thesis
    using t' full len nb [OF assms(2)] nb [OF t'(2)] by (cases r) (auto split: option.splits if_splits)
qed

theorem BofAvlTree_Insert_correct_witness:
  "\<exists>t' r. BofAvlTree_Insert rec_cmp rec_tree (5, ''e'') = Ret (t', r) \<and> avl_tree_ok fst t' \<and> r = AvlInserted \<and>
    avt_contents t' = [(1, ''a''), (2, ''b''), (3, ''c''), (4, ''d''), (5, ''e'')]"
  using BofAvlTree_Insert_correct [OF rec_cmp_by rec_tree_ok, of "(5, ''e'')"]
  by (auto simp: rec_tree_def avt_contents_def list_lookup_by_def list_insert_by_def BofAvlTree_IsFull_def)

text \<open>
  A deletion by key from a sound tree always returns and keeps the tree
  sound; it hands out the record with that key, which leaves the tree while
  every other record stays in order, or nothing when there is none.
\<close>

theorem BofAvlTree_Delete_correct:
  assumes "avl_cmp_by cmp key_of" "avl_tree_ok key_of t"
  shows "\<exists>t' r. BofAvlTree_Delete cmp t k BOF_CMP_EQUAL = Ret (t', r) \<and> avl_tree_ok key_of t' \<and>
    r = list_lookup_by key_of k (avt_contents t) \<and> avt_contents t' = list_delete_by key_of k (avt_contents t)"
proof -
  obtain t' r where t': "BofAvlTree_Delete cmp t k BOF_CMP_EQUAL = Ret (t', r)" "avl_tree_ok key_of t'"
    "index_step (avt_cap t) key_of (IndexDelete k) (avt_contents t) = (avt_contents t', avl_delete_reply r)"
    using tree_delete [OF assms] by metis
  have "list_delete_by key_of k (avt_contents t) = avt_contents t" if "list_lookup_by key_of k (avt_contents t) = None"
    using that by (auto simp: list_delete_by_def list_lookup_by_def find_None_iff filter_id_conv)
  then show ?thesis using t' by (auto simp: avl_delete_reply_def split: option.splits)
qed

theorem BofAvlTree_Delete_correct_witness:
  "\<exists>t' r. BofAvlTree_Delete rec_cmp rec_tree (2, '''') BOF_CMP_EQUAL = Ret (t', r) \<and> avl_tree_ok fst t' \<and>
    r = Some (2, ''b'') \<and> avt_contents t' = [(1, ''a''), (3, ''c''), (4, ''d'')]"
  using BofAvlTree_Delete_correct [OF rec_cmp_by rec_tree_ok, of "(2, '''')"]
  by (auto simp: rec_tree_def avt_contents_def list_lookup_by_def list_delete_by_def)

text \<open>
  The deletions of the smallest and of the largest record return it and
  leave the rest in order.
\<close>

theorem BofAvlTree_Delete_extreme:
  assumes "avl_tree_ok key_of t" "avt_contents t \<noteq> []"
  shows "(\<exists>t'. BofAvlTree_Delete cmp t k BOF_CMP_LESS = Ret (t', Some (hd (avt_contents t))) \<and> avl_tree_ok key_of t' \<and>
      avt_contents t' = tl (avt_contents t)) \<and>
    (\<exists>t'. BofAvlTree_Delete cmp t k BOF_CMP_GREATER = Ret (t', Some (last (avt_contents t))) \<and> avl_tree_ok key_of t' \<and>
      avt_contents t' = butlast (avt_contents t))"
proof -
  note ok = avl_tree_okD [OF assms(1)]
  have root: "avt_mpRoot t \<noteq> NullNode" using assms(2) by (auto simp: avt_contents_def)
  have sorted: "index_sorted key_of (avl_inorder (avt_mpRoot t))" using ok(2) by (simp add: avl_sorted_iff index_sorted_def)
  have s: "index_sorted key_of (tl (avl_inorder (avt_mpRoot t)))" "index_sorted key_of (butlast (avl_inorder (avt_mpRoot t)))"
    using sorted by (auto simp: index_sorted_def butlast_conv_take drop_Suc [of 0, simplified, symmetric])
  obtain r1 a1 c1 where
    m: "BofAvlNode_Delete cmp (avt_free t) k BOF_CMP_LESS (avt_mpRoot t) = Ret (r1, a1 # avt_free t, c1, Some (hd (avl_inorder (avt_mpRoot t))))"
    "avl_shrunk (tl (avl_inorder (avt_mpRoot t))) a1 None (avt_mpRoot t) r1 c1"
    using Delete_min [OF ok(1) root] by blast
  obtain r2 a2 c2 where
    n: "BofAvlNode_Delete cmp (avt_free t) k BOF_CMP_GREATER (avt_mpRoot t) = Ret (r2, a2 # avt_free t, c2, Some (last (avl_inorder (avt_mpRoot t))))"
    "avl_shrunk (butlast (avl_inorder (avt_mpRoot t))) a2 None (avt_mpRoot t) r2 c2"
    using Delete_max [OF ok(1) root] by blast
  have "\<exists>t'. BofAvlTree_Delete cmp t k BOF_CMP_LESS = Ret (t', Some (hd (avt_contents t))) \<and> avl_tree_ok key_of t' \<and>
      avt_contents t' = tl (avt_contents t)"
    using m avl_tree_shrunk [OF assms(1) m(2) s(1)] by (simp add: BofAvlTree_Delete_def avt_contents_def avl_shrunk_def)
  moreover have "\<exists>t'. BofAvlTree_Delete cmp t k BOF_CMP_GREATER = Ret (t', Some (last (avt_contents t))) \<and> avl_tree_ok key_of t' \<and>
      avt_contents t' = butlast (avt_contents t)"
    using n avl_tree_shrunk [OF assms(1) n(2) s(2)] by (simp add: BofAvlTree_Delete_def avt_contents_def avl_shrunk_def)
  ultimately show ?thesis by blast
qed


theorem BofAvlTree_Delete_extreme_witness:
  "\<exists>t'. BofAvlTree_Delete rec_cmp rec_tree (0, '''') BOF_CMP_LESS = Ret (t', Some (1, ''a'')) \<and> avl_tree_ok fst t' \<and>
    avt_contents t' = [(2, ''b''), (3, ''c''), (4, ''d'')]"
  using BofAvlTree_Delete_extreme [OF rec_tree_ok, of rec_cmp "(0, '''')"]
  by (simp add: avt_contents_def rec_tree_def)

text \<open>
  The search returns the first node in key order with an equal key, the
  smallest node not below the key, or the largest node not above it, according
  to the criterion, and the null pointer when there is none. The climb through
  the parent pointers always ends.
\<close>

theorem BofAvlTree_Search_correct:
  assumes "avl_cmp_by cmp key_of" "avl_tree_ok key_of t"
  shows "BofAvlTree_Search cmp t k BOF_CMP_EQUAL =
      Ret (avl_or_null (List.find (\<lambda>n. key_of (avl_mpData n) = key_of k) (avl_nodes (avt_mpRoot t)))) \<and>
    BofAvlTree_Search cmp t k BOF_CMP_GREATEROREQUAL =
      Ret (avl_or_null (List.find (\<lambda>n. key_of k \<le> key_of (avl_mpData n)) (avl_nodes (avt_mpRoot t)))) \<and>
    BofAvlTree_Search cmp t k BOF_CMP_LESSOREQUAL =
      Ret (avl_or_null (List.find (\<lambda>n. key_of (avl_mpData n) \<le> key_of k) (rev (avl_nodes (avt_mpRoot t)))))"
  using tree_search [OF assms] .

theorem BofAvlTree_Search_correct_witness:
  "\<exists>n m. BofAvlTree_Search rec_cmp rec_tree (0, '''') BOF_CMP_GREATEROREQUAL = Ret n \<and> avl_mpData n = (1, ''a'') \<and>
    BofAvlTree_Search rec_cmp rec_tree (9, '''') BOF_CMP_LESSOREQUAL = Ret m \<and> avl_mpData m = (4, ''d'')"
  using BofAvlTree_Search_correct [OF rec_cmp_by rec_tree_ok, of "(0, '''')"]
    BofAvlTree_Search_correct [OF rec_cmp_by rec_tree_ok, of "(9, '''')"]
  by (simp add: rec_tree_def)

text \<open>
  The traversal visits the records in key order: the first and the last
  node are the ends of the list of the nodes in order, and from any node of the
  tree the next and the previous one are its neighbours there, the null pointer
  past the ends.
\<close>

theorem BofAvlTree_traversal_in_order:
  assumes "avl_cmp_by cmp key_of" "avl_tree_ok key_of t" "i < length (avt_contents t)"
  shows "BofAvlTree_GetFirst t = avl_nodes (avt_mpRoot t) ! 0 \<and>
    BofAvlTree_GetLast t = avl_nodes (avt_mpRoot t) ! (length (avt_contents t) - 1) \<and>
    avl_mpData (avl_nodes (avt_mpRoot t) ! i) = avt_contents t ! i \<and>
    BofAvlTree_GetNext cmp t (avl_nodes (avt_mpRoot t) ! i) =
      Ret (if i + 1 < length (avt_contents t) then avl_nodes (avt_mpRoot t) ! (i + 1) else NullNode) \<and>
    BofAvlTree_GetPrevious cmp t (avl_nodes (avt_mpRoot t) ! i) =
      Ret (if 0 < i then avl_nodes (avt_mpRoot t) ! (i - 1) else NullNode)"
  using tree_traversal [OF assms] .


theorem BofAvlTree_traversal_in_order_witness:
  "BofAvlTree_GetNext rec_cmp rec_tree (BofAvlTree_GetFirst rec_tree) = Ret (avt_mpRoot rec_tree) \<and>
   (\<exists>n. BofAvlTree_GetNext rec_cmp rec_tree (avl_nodes (avt_mpRoot rec_tree) ! 2) = Ret n \<and> avl_mpData n = (4, ''d''))"
  using BofAvlTree_traversal_in_order [OF rec_cmp_by rec_tree_ok, of 0]
    BofAvlTree_traversal_in_order [OF rec_cmp_by rec_tree_ok, of 2]
  by (simp add: avt_contents_def rec_tree_def)

text \<open>
  The integrity check accepts every sound tree and counts its nodes: the
  counter it is given grows by the number of nodes of the tree.
\<close>

theorem BofAvlTree_Check_accepts:
  assumes "avl_cmp_by cmp key_of" "avl_tree_ok key_of t"
  shows "BofAvlTree_Check cmp t n = (True, n + BofAvlTree_GetNbNode t)"
  using tree_check [OF assms] .

theorem BofAvlTree_Check_accepts_witness:
  "BofAvlTree_Check rec_cmp rec_tree 0 = (True, 4)"
  using BofAvlTree_Check_accepts [OF rec_cmp_by rec_tree_ok, of 0]
  by (simp add: BofAvlTree_GetNbNode_def rec_tree_def)

text \<open>
  C24. Trees stay flat. Whatever is inserted into a new tree and deleted from it,
  \<^verbatim>\<open>GetHeight\<close> of the tree that results is the depth of its deepest node, 0 when it is
  empty, every element of the abstract index has one node, and a tree of height \<open>h\<close>
  holds at least \<open>2 ^ (h div 2) - 1\<close> elements, so that the descents of search,
  insertion and deletion visit at most \<open>65\<close> nodes.
\<close>

theorem BofAvlTree_height_bound:
  assumes "avl_cmp_by cmp key_of"
  shows "\<exists>t rs xs. index_impl_run (avl_index_step cmp) ops (fst (BofAvlTree_ctor n)) = Ret (t, rs) \<and>
    index_run (unat n) key_of ops [] = (xs, rs) \<and>
    (let h = nat (BofAvlNode_GetHeight (avt_mpRoot t)); ds = avl_depths 1 (avt_mpRoot t)
     in length ds = length xs \<and> (\<forall>d \<in> set ds. d \<le> h) \<and> (if xs = [] then h = 0 else h \<in> set ds) \<and>
       2 ^ (h div 2) \<le> length xs + 1 \<and> h \<le> 65)"
proof -
  have "avl_cmp_by cmp key_of \<and> avl_tree_ok key_of (fst (BofAvlTree_ctor n) :: 'a BofAvlTree)" using assms avl_ctor_ok by blast
  from avlx.run_refines [OF this, of ops] obtain t rs where
    t: "index_impl_run (avl_index_step cmp) ops (fst (BofAvlTree_ctor n)) = Ret (t, rs)" "avl_tree_ok key_of t"
      "index_run (unat n) key_of ops [] = (avt_contents t, rs)" by (auto simp: BofAvlTree_ctor_def avt_cap_def avt_contents_def)
  define r h where "r = avt_mpRoot t" and "h = nat (BofAvlNode_GetHeight r)"
  have len: "length (avt_contents t) = avl_count r" by (simp add: avt_contents_def r_def)
  have b: "2 ^ (h div 2) \<le> avl_count r + 1" using height_count [OF avl_tree_okD(1) [OF t(2)]] by (simp add: h_def r_def)
  have c: "unat (avt_mNbNode_U32 t) = avl_count r" using avl_pool(2) [OF t(2)] by (simp add: r_def)
  have "avl_count r < 2 ^ LENGTH(32)" unfolding c [symmetric] by (rule unsigned_less)
  then have "(2::nat) ^ (h div 2) < 2 ^ 33" using b by simp
  then have "h div 2 < 33" by (rule power_less_imp_less_exp [rotated]) simp
  then have "h \<le> 65" by linarith
  moreover have "avt_contents t = [] \<longleftrightarrow> r = NullNode" by (cases r) (simp_all add: avt_contents_def r_def)
  ultimately show ?thesis using t(1,3) len b depths_height(1) [of _ 0 r] depths_height(2) [of r 0] length_depths [of 1 r]
    by (auto simp: Let_def r_def h_def)
qed

theorem BofAvlTree_height_bound_witness:
  "\<exists>t rs. index_impl_run (avl_index_step rec_cmp) rec_ops (fst (BofAvlTree_ctor 5)) = Ret (t, rs) \<and>
    2 ^ (nat (BofAvlNode_GetHeight (avt_mpRoot t)) div 2) \<le> (5::nat) \<and>
    nat (BofAvlNode_GetHeight (avt_mpRoot t)) \<in> set (avl_depths 1 (avt_mpRoot t))"
  using BofAvlTree_height_bound [OF rec_cmp_by, of rec_ops 5]
  by (auto simp: rec_ops_def list_lookup_by_def list_insert_by_def Let_def)

end
