(* ===== verification/Bof_Pot.thy ===== *)
theory Bof_Pot
  imports Bof_Sync
begin

text \<open>
  The template \<^verbatim>\<open>BofPot<DataType>\<close> of \<^verbatim>\<open>bofpot.h\<close>: a fixed array of elements that
  callers get, optionally in a locked state in which the enumerations do not
  show them, and release. With a magic number the state of an element is kept
  in its first 32-bit word, without one in a separate array of bytes.

  An element is its first word and the bytes that follow it. A pointer to an
  element is its distance to the first one, in elements, and the null pointer
  is \<open>None\<close>; pointers that are not a whole number of elements away from the
  storage do not occur. A storage that is not allocated is the empty list. As
  for the circular buffer, calls that may wait take a schedule of the actions
  of the other threads.
\<close>

section \<open>Parameters and state\<close>

record BOF_POT_PARAM =
  pop_MagicNumber_U32 :: u32
  pop_MultiThreadAware_B :: bool
  pop_PriorityInversionAware_B :: bool
  pop_GetOpPreserveContent_B :: bool
  pop_PotCapacity_U32 :: u32
  pop_Blocking_B :: bool

definition BOF_POT_PARAM_Reset :: BOF_POT_PARAM where
  "BOF_POT_PARAM_Reset =
     \<lparr>pop_MagicNumber_U32 = 0, pop_MultiThreadAware_B = False, pop_PriorityInversionAware_B = False,
      pop_GetOpPreserveContent_B = False, pop_PotCapacity_U32 = 0, pop_Blocking_B = False\<rparr>"

record POT_ELEMENT =
  pel_First_U32 :: u32
  pel_Rest_U8 :: "u8 list"

type_synonym pot_ptr = "int option"

record BofPot =
  pot_mPotParam_X :: BOF_POT_PARAM
  pot_mPotMtx_X :: BOF_MUTEX
  pot_mpPotDataStorage_X :: "POT_ELEMENT list"
  pot_mpFirstPotElementToTryForGet_X :: nat
  pot_mNumberOfElementOutOfThePot_U32 :: u32
  pot_mpInUseElementList_U8 :: "u8 list"
  pot_mLevelMax_U32 :: u32
  pot_mErrorCode_E :: BOFERR
  pot_mCanGetEvent_X :: BOF_EVENT

abbreviation pot_Magic :: "BofPot \<Rightarrow> u32" where
  "pot_Magic pot \<equiv> pop_MagicNumber_U32 (pot_mPotParam_X pot)"

abbreviation pot_Capacity :: "BofPot \<Rightarrow> u32" where
  "pot_Capacity pot \<equiv> pop_PotCapacity_U32 (pot_mPotParam_X pot)"

abbreviation pot_Blocking :: "BofPot \<Rightarrow> bool" where
  "pot_Blocking pot \<equiv> pop_Blocking_B (pot_mPotParam_X pot)"

abbreviation pot_MultiThreadAware :: "BofPot \<Rightarrow> bool" where
  "pot_MultiThreadAware pot \<equiv> pop_MultiThreadAware_B (pot_mPotParam_X pot)"

section \<open>The lock macros\<close>

definition BOF_POT_LOCK :: "BofPot \<Rightarrow> (BofPot \<Rightarrow> BOFERR \<Rightarrow> 'b outcome) \<Rightarrow> 'b outcome" where
  "BOF_POT_LOCK pot k =
     (if pot_MultiThreadAware pot
      then bindO (Bof_LockMutex (pot_mPotMtx_X pot)) (\<lambda>(m, Sts). k (pot\<lparr>pot_mPotMtx_X := m\<rparr>) Sts)
      else k pot BOF_ERR_NO_ERROR)"

definition BOF_POT_UNLOCK :: "BofPot \<Rightarrow> (BofPot \<Rightarrow> 'b outcome) \<Rightarrow> 'b outcome" where
  "BOF_POT_UNLOCK pot k =
     (if pot_MultiThreadAware pot
      then bindO (Bof_UnlockMutex (pot_mPotMtx_X pot)) (\<lambda>(m, Sts). k (pot\<lparr>pot_mPotMtx_X := m\<rparr>))
      else k pot)"

text \<open>\<^verbatim>\<open>Bof_SignalEvent (mCanGetEvent_X, 0)\<close>; its result is not looked at.\<close>

definition pot_signal :: "BofPot \<Rightarrow> (BofPot \<Rightarrow> 'b outcome) \<Rightarrow> 'b outcome" where
  "pot_signal pot k =
     bindO (Bof_SignalEvent (pot_mCanGetEvent_X pot) 0) (\<lambda>(e, Sts). k (pot\<lparr>pot_mCanGetEvent_X := e\<rparr>))"

section \<open>State of an element\<close>

text \<open>The tests of the code on the mark of the element at a place.\<close>

definition pot_if_in_use :: "BofPot \<Rightarrow> nat \<Rightarrow> (bool \<Rightarrow> 'b outcome) \<Rightarrow> 'b outcome" where
  "pot_if_in_use pot i k =
     (if pot_Magic pot \<noteq> 0
      then rdn (pot_mpPotDataStorage_X pot) i
             (\<lambda>d. k (pel_First_U32 d = pot_Magic pot \<or> pel_First_U32 d = NOT (pot_Magic pot)))
      else rdn (pot_mpInUseElementList_U8 pot) i (\<lambda>b. k (b \<noteq> 0)))"

definition pot_if_locked :: "BofPot \<Rightarrow> nat \<Rightarrow> (bool \<Rightarrow> 'b outcome) \<Rightarrow> 'b outcome" where
  "pot_if_locked pot i k =
     (if pot_Magic pot \<noteq> 0
      then rdn (pot_mpPotDataStorage_X pot) i (\<lambda>d. k (pel_First_U32 d = NOT (pot_Magic pot)))
      else rdn (pot_mpInUseElementList_U8 pot) i (\<lambda>b. k (b = 0xAA)))"

definition pot_if_visible :: "BofPot \<Rightarrow> nat \<Rightarrow> (bool \<Rightarrow> 'b outcome) \<Rightarrow> 'b outcome" where
  "pot_if_visible pot i k =
     (if pot_Magic pot \<noteq> 0
      then rdn (pot_mpPotDataStorage_X pot) i (\<lambda>d. k (pel_First_U32 d = pot_Magic pot))
      else rdn (pot_mpInUseElementList_U8 pot) i (\<lambda>b. k (b = 0xFF)))"

text \<open>Writing the mark: the word with a magic number, the byte without.\<close>

definition pot_write_mark :: "BofPot \<Rightarrow> nat \<Rightarrow> u32 \<Rightarrow> u8 \<Rightarrow> (BofPot \<Rightarrow> 'b outcome) \<Rightarrow> 'b outcome" where
  "pot_write_mark pot i w b k =
     (if pot_Magic pot \<noteq> 0
      then rdn (pot_mpPotDataStorage_X pot) i (\<lambda>d.
             wrn (pot_mpPotDataStorage_X pot) i (d\<lparr>pel_First_U32 := w\<rparr>)
               (\<lambda>ds. k (pot\<lparr>pot_mpPotDataStorage_X := ds\<rparr>)))
      else wrn (pot_mpInUseElementList_U8 pot) i b (\<lambda>bs. k (pot\<lparr>pot_mpInUseElementList_U8 := bs\<rparr>)))"

text \<open>\<^verbatim>\<open>memset (pData_X, 0, sizeof (DataType))\<close>\<close>

definition pot_memset :: "BofPot \<Rightarrow> nat \<Rightarrow> (BofPot \<Rightarrow> 'b outcome) \<Rightarrow> 'b outcome" where
  "pot_memset pot i k =
     rdn (pot_mpPotDataStorage_X pot) i (\<lambda>d.
       wrn (pot_mpPotDataStorage_X pot) i
           \<lparr>pel_First_U32 = 0, pel_Rest_U8 = replicate (length (pel_Rest_U8 d)) 0\<rparr>
         (\<lambda>ds. k (pot\<lparr>pot_mpPotDataStorage_X := ds\<rparr>)))"

text \<open>The loops that write a mark in the elements from \<open>i\<close> on.\<close>

fun pot_clear_marks :: "nat \<Rightarrow> nat \<Rightarrow> BofPot \<Rightarrow> (BofPot \<Rightarrow> 'b outcome) \<Rightarrow> 'b outcome" where
  "pot_clear_marks 0 i pot k = k pot"
| "pot_clear_marks (Suc n) i pot k = pot_write_mark pot i 0 0 (\<lambda>pot. pot_clear_marks n (Suc i) pot k)"

section \<open>Construction and destruction\<close>

text \<open>\<open>new_T\<close> is \<^verbatim>\<open>new DataType[n]\<close>, \<open>new_U8\<close> is \<^verbatim>\<open>new uint8_t[n]\<close>; \<^verbatim>\<open>new\<close> never returns a null pointer.\<close>

definition BofPot_fresh :: BofPot where
  "BofPot_fresh =
     \<lparr>pot_mPotParam_X = BOF_POT_PARAM_Reset, pot_mPotMtx_X = BOF_MUTEX_ctor, pot_mpPotDataStorage_X = [],
      pot_mpFirstPotElementToTryForGet_X = 0, pot_mNumberOfElementOutOfThePot_U32 = 0,
      pot_mpInUseElementList_U8 = [], pot_mLevelMax_U32 = 0, pot_mErrorCode_E = BOF_ERR_EINVAL,
      pot_mCanGetEvent_X = BOF_EVENT_ctor\<rparr>"

definition BofPot_storage :: "(u32 \<Rightarrow> POT_ELEMENT list) \<Rightarrow> (u32 \<Rightarrow> u8 list) \<Rightarrow> BofPot \<Rightarrow> BofPot outcome" where
  "BofPot_storage new_T new_U8 pot =
     (let pot = pot\<lparr>pot_mpPotDataStorage_X := new_T (pot_Capacity pot), pot_mpFirstPotElementToTryForGet_X := 0\<rparr>;
          pot = (if pot_Magic pot \<noteq> 0 then pot
                 else pot\<lparr>pot_mpInUseElementList_U8 := new_U8 (pot_Capacity pot)\<rparr>)
      in pot_clear_marks (unat (pot_Capacity pot)) 0 pot (\<lambda>pot.
           let pot = pot\<lparr>pot_mErrorCode_E := BOF_ERR_NO_ERROR\<rparr>
           in if pot_Blocking pot then pot_signal pot Ret else Ret pot))"

definition BofPot_ctor :: "(u32 \<Rightarrow> POT_ELEMENT list) \<Rightarrow> (u32 \<Rightarrow> u8 list) \<Rightarrow> BOF_POT_PARAM \<Rightarrow> BofPot outcome" where
  "BofPot_ctor new_T new_U8 p =
     (if pop_PotCapacity_U32 p \<noteq> 0 then
        let pot = BofPot_fresh\<lparr>pot_mPotParam_X := p\<rparr>;
            Err_E = (if pop_Blocking_B p \<and> \<not> pop_MultiThreadAware_B p then BOF_ERR_WRONG_MODE else BOF_ERR_NO_ERROR)
        in if Err_E = BOF_ERR_NO_ERROR then
             bindO (if pop_Blocking_B p
                    then bindO (Bof_CreateEvent
                                  (''pot_canget_'' @ std_to_string (unat (pop_PotCapacity_U32 p)) @ ''_evt'')
                                  False 1 False False (pop_PriorityInversionAware_B p) (pot_mCanGetEvent_X pot))
                           (\<lambda>(e, Err_E). Ret (pot\<lparr>pot_mCanGetEvent_X := e\<rparr>, Err_E))
                    else Ret (pot, BOF_ERR_NO_ERROR)) (\<lambda>(pot, Err_E).
             if Err_E = BOF_ERR_NO_ERROR then
               bindO (if pop_MultiThreadAware_B p
                      then bindO (Bof_CreateMutex ''BofPot'' False (pop_PriorityInversionAware_B p) (pot_mPotMtx_X pot))
                             (\<lambda>(m, Err_E). Ret (pot\<lparr>pot_mPotMtx_X := m\<rparr>, Err_E))
                      else Ret (pot, BOF_ERR_NO_ERROR)) (\<lambda>(pot, Err_E).
               if Err_E = BOF_ERR_NO_ERROR then BofPot_storage new_T new_U8 pot
               else Ret (pot\<lparr>pot_mErrorCode_E := Err_E\<rparr>))
             else Ret (pot\<lparr>pot_mErrorCode_E := Err_E\<rparr>))
           else Ret (pot\<lparr>pot_mErrorCode_E := Err_E\<rparr>)
      else Ret BofPot_fresh)"

definition BofPot_dtor :: "BofPot \<Rightarrow> BofPot" where
  "BofPot_dtor pot = pot\<lparr>pot_mPotMtx_X := fst (Bof_DestroyMutex (pot_mPotMtx_X pot)),
     pot_mpPotDataStorage_X := [], pot_mpInUseElementList_U8 := [],
     pot_mCanGetEvent_X := fst (Bof_DestroyEvent (pot_mCanGetEvent_X pot))\<rparr>"

section \<open>Queries\<close>

definition BofPot_LastErrorCode :: "BofPot \<Rightarrow> BOFERR" where
  "BofPot_LastErrorCode pot = pot_mErrorCode_E pot"

definition BofPot_GetMaxLevel :: "BofPot \<Rightarrow> u32" where
  "BofPot_GetMaxLevel pot = pot_mLevelMax_U32 pot"

definition BofPot_IsPotFull :: "BofPot \<Rightarrow> bool" where
  "BofPot_IsPotFull pot = (pot_mNumberOfElementOutOfThePot_U32 pot = 0)"

definition BofPot_IsPotEmpty :: "BofPot \<Rightarrow> bool" where
  "BofPot_IsPotEmpty pot = (pot_mNumberOfElementOutOfThePot_U32 pot = pot_Capacity pot)"

definition BofPot_GetNbElementOutOfThePot :: "BofPot \<Rightarrow> u32" where
  "BofPot_GetNbElementOutOfThePot pot = pot_mNumberOfElementOutOfThePot_U32 pot"

definition BofPot_GetCapacity :: "BofPot \<Rightarrow> u32" where
  "BofPot_GetCapacity pot = pot_Capacity pot"

definition BofPot_GetNbFreeElement :: "BofPot \<Rightarrow> u32" where
  "BofPot_GetNbFreeElement pot = pot_Capacity pot - pot_mNumberOfElementOutOfThePot_U32 pot"

definition BofPot_GetFirstFreeIndexToTry :: "BofPot \<Rightarrow> u32" where
  "BofPot_GetFirstFreeIndexToTry pot = of_nat (pot_mpFirstPotElementToTryForGet_X pot)"

definition BofPot_GetIndex :: "int \<Rightarrow> nat" where
  "BofPot_GetIndex p = nat (take_bit 32 p)"

definition BofPot_LockPot :: "BofPot \<Rightarrow> (BofPot \<times> BOFERR) outcome" where
  "BofPot_LockPot pot =
     (if pot_MultiThreadAware pot
      then bindO (Bof_LockMutex (pot_mPotMtx_X pot)) (\<lambda>(m, Rts_E). Ret (pot\<lparr>pot_mPotMtx_X := m\<rparr>, Rts_E))
      else Ret (pot, BOF_ERR_BAD_TYPE))"

definition BofPot_UnlockPot :: "BofPot \<Rightarrow> (BofPot \<times> BOFERR) outcome" where
  "BofPot_UnlockPot pot =
     (if pot_MultiThreadAware pot
      then bindO (Bof_UnlockMutex (pot_mPotMtx_X pot)) (\<lambda>(m, Rts_E). Ret (pot\<lparr>pot_mPotMtx_X := m\<rparr>, Rts_E))
      else Ret (pot, BOF_ERR_BAD_TYPE))"

definition BofPot_GetIndexedPotElement :: "BofPot \<Rightarrow> u32 \<Rightarrow> (BofPot \<times> pot_ptr) outcome" where
  "BofPot_GetIndexedPotElement pot Index_U32 =
     BOF_POT_LOCK pot (\<lambda>pot Sts_E.
       if Sts_E = BOF_ERR_NO_ERROR then
         let pRts_X = (if Index_U32 < pot_Capacity pot then Some (uint Index_U32) else None)
         in BOF_POT_UNLOCK pot (\<lambda>pot. Ret (pot, pRts_X))
       else Ret (pot, None))"

text \<open>\<^verbatim>\<open>(_pData_X) && (_pData_X >= mpPotDataStorage_X) && (_pData_X <= mpLastPotElement_X)\<close>\<close>

definition pot_ptr_ok :: "BofPot \<Rightarrow> pot_ptr \<Rightarrow> bool" where
  "pot_ptr_ok pot p = (case p of None \<Rightarrow> False
     | Some x \<Rightarrow> pot_mpPotDataStorage_X pot \<noteq> [] \<and> 0 \<le> x \<and> x \<le> uint (pot_Capacity pot - 1))"

definition BofPot_IsPotElementInUse :: "BofPot \<Rightarrow> pot_ptr \<Rightarrow> BOFERR outcome" where
  "BofPot_IsPotElementInUse pot p =
     (if pot_ptr_ok pot p
      then pot_if_in_use pot (BofPot_GetIndex (the p))
             (\<lambda>InUse_B. Ret (if InUse_B then BOF_ERR_NO_ERROR else BOF_ERR_EBUSY))
      else Ret BOF_ERR_EINVAL)"

definition BofPot_IsPotElementLocked :: "BofPot \<Rightarrow> pot_ptr \<Rightarrow> BOFERR outcome" where
  "BofPot_IsPotElementLocked pot p =
     (if pot_ptr_ok pot p
      then pot_if_locked pot (BofPot_GetIndex (the p))
             (\<lambda>Locked_B. Ret (if Locked_B then BOF_ERR_NO_ERROR else BOF_ERR_UNLOCK))
      else Ret BOF_ERR_EINVAL)"

definition BofPot_GetIndexOfEntry :: "BofPot \<Rightarrow> pot_ptr \<Rightarrow> (BofPot \<times> u32) outcome" where
  "BofPot_GetIndexOfEntry pot p =
     BOF_POT_LOCK pot (\<lambda>pot Sts_E.
       if Sts_E = BOF_ERR_NO_ERROR then
         bindO (BofPot_IsPotElementInUse pot p) (\<lambda>Err_E.
           BOF_POT_UNLOCK pot (\<lambda>pot.
             Ret (pot, if Err_E = BOF_ERR_NO_ERROR then of_int (the p) else - 1)))
       else Ret (pot, - 1))"

section \<open>Enumeration\<close>

text \<open>
  The loops of the enumerations: from place \<open>i\<close> on, over \<open>n\<close> elements, the
  element that passes the test after \<open>skip\<close> others that do.
\<close>

fun pot_scan :: "(nat \<Rightarrow> (bool \<Rightarrow> nat option outcome) \<Rightarrow> nat option outcome) \<Rightarrow> nat \<Rightarrow> nat \<Rightarrow> u32 \<Rightarrow> nat option outcome" where
  "pot_scan test 0 i skip = Ret None"
| "pot_scan test (Suc n) i skip =
     test i (\<lambda>ok. if ok then if skip = 0 then Ret (Some i) else pot_scan test n (Suc i) (skip - 1)
                  else pot_scan test n (Suc i) skip)"

definition pot_ptr_of :: "nat option \<Rightarrow> pot_ptr" where
  "pot_ptr_of r = map_option int r"

definition BofPot_LookForPotElementInUseStartingFromIndex :: "BofPot \<Rightarrow> u32 \<Rightarrow> (BofPot \<times> pot_ptr) outcome" where
  "BofPot_LookForPotElementInUseStartingFromIndex pot Index_U32 =
     BOF_POT_LOCK pot (\<lambda>pot Sts_E.
       if Sts_E = BOF_ERR_NO_ERROR then
         bindO (if Index_U32 < pot_Capacity pot
                then pot_scan (pot_if_in_use pot) (unat (pot_Capacity pot)) 0 Index_U32
                else Ret None)
           (\<lambda>r. BOF_POT_UNLOCK pot (\<lambda>pot. Ret (pot, pot_ptr_of r)))
       else Ret (pot, None))"

definition BofPot_GetFirstUsed :: "BofPot \<Rightarrow> u32 \<Rightarrow> (BofPot \<times> pot_ptr) outcome" where
  "BofPot_GetFirstUsed pot NbEntryToSkip_U32 =
     BOF_POT_LOCK pot (\<lambda>pot Sts_E.
       if Sts_E = BOF_ERR_NO_ERROR then
         bindO (if NbEntryToSkip_U32 < pot_mNumberOfElementOutOfThePot_U32 pot
                then pot_scan (pot_if_visible pot) (unat (pot_Capacity pot)) 0 NbEntryToSkip_U32
                else Ret None)
           (\<lambda>r. BOF_POT_UNLOCK pot (\<lambda>pot. Ret (pot, pot_ptr_of r)))
       else Ret (pot, None))"

definition BofPot_GetNextUsed :: "BofPot \<Rightarrow> pot_ptr \<Rightarrow> (BofPot \<times> pot_ptr) outcome" where
  "BofPot_GetNextUsed pot p =
     (if pot_ptr_ok pot p then
        let i = nat (the p) + 1 in
        BOF_POT_LOCK pot (\<lambda>pot Sts_E.
          if Sts_E = BOF_ERR_NO_ERROR then
            bindO (if int i \<le> uint (pot_Capacity pot - 1)
                   then pot_scan (pot_if_visible pot) (unat (pot_Capacity pot - 1) - i + 1) i 0
                   else Ret None)
              (\<lambda>r. BOF_POT_UNLOCK pot (\<lambda>pot. Ret (pot, pot_ptr_of r)))
          else Ret (pot, None))
      else Ret (pot, None))"

section \<open>Get and release\<close>

text \<open>The search of \<^verbatim>\<open>Get\<close> for a free element, which goes around the storage once.\<close>

fun pot_find_free :: "BofPot \<Rightarrow> nat \<Rightarrow> nat \<Rightarrow> nat option outcome" where
  "pot_find_free pot 0 i = Ret None"
| "pot_find_free pot (Suc n) i =
     (let i = (if i > unat (pot_Capacity pot - 1) then 0 else i)
      in pot_if_in_use pot i (\<lambda>InUse_B. if InUse_B then pot_find_free pot n (Suc i) else Ret (Some i)))"

text \<open>
  The part of \<^verbatim>\<open>Get\<close> under the mutex: the status, the element and the local copy
  of the number of elements that are out.
\<close>

definition BofPot_Get_take :: "BofPot \<Rightarrow> bool \<Rightarrow> (BofPot \<times> BOFERR \<times> nat option \<times> u32) outcome" where
  "BofPot_Get_take pot Lock_B =
     (let Number_U32 = pot_mNumberOfElementOutOfThePot_U32 pot in
      if pot_mNumberOfElementOutOfThePot_U32 pot < pot_Capacity pot then
        bindO (pot_find_free pot (unat (pot_Capacity pot)) (pot_mpFirstPotElementToTryForGet_X pot)) (\<lambda>r.
          case r of
            None \<Rightarrow> Ret (pot, BOF_ERR_NO_ERROR, None, Number_U32)
          | Some i \<Rightarrow>
              (let mark = (\<lambda>pot. pot_write_mark pot i (if Lock_B then NOT (pot_Magic pot) else pot_Magic pot)
                              (if Lock_B then 0xAA else 0xFF) (\<lambda>pot.
                            let pot = pot\<lparr>pot_mNumberOfElementOutOfThePot_U32 := pot_mNumberOfElementOutOfThePot_U32 pot + 1,
                                          pot_mpFirstPotElementToTryForGet_X :=
                                            if i + 1 > unat (pot_Capacity pot - 1) then 0 else i + 1\<rparr>;
                                pot = (if pot_mNumberOfElementOutOfThePot_U32 pot > pot_mLevelMax_U32 pot
                                       then pot\<lparr>pot_mLevelMax_U32 := pot_mNumberOfElementOutOfThePot_U32 pot\<rparr> else pot)
                            in Ret (pot, BOF_ERR_NO_ERROR, Some i, pot_mNumberOfElementOutOfThePot_U32 pot)))
               in if \<not> pop_GetOpPreserveContent_B (pot_mPotParam_X pot) then pot_memset pot i mark else mark pot))
      else Ret (pot, BOF_ERR_EMPTY, None, Number_U32))"

text \<open>
  \<open>BofPot_Get_section\<close> is the code between the lock and the unlock,
  \<open>BofPot_Get_finish\<close> the code after it. One turn of the retry loop takes what the other threads do while the call
  waits, before it gets the mutex, and after it gave the mutex back.
\<close>

type_synonym pot_schedule = "((BofPot \<Rightarrow> BofPot) \<times> (BofPot \<Rightarrow> BofPot) \<times> (BofPot \<Rightarrow> BofPot)) list"

definition BofPot_Get_section ::
  "BofPot \<Rightarrow> bool \<Rightarrow> (BofPot \<Rightarrow> BOFERR \<Rightarrow> nat option \<Rightarrow> u32 \<Rightarrow> (BofPot \<times> pot_ptr) outcome) \<Rightarrow> (BofPot \<times> pot_ptr) outcome" where
  "BofPot_Get_section pot Lock_B k =
     BOF_POT_LOCK pot (\<lambda>pot Sts_E.
       if Sts_E = BOF_ERR_NO_ERROR then
         bindO (BofPot_Get_take pot Lock_B) (\<lambda>(pot, Sts_E, pRts_X, Number_U32).
           BOF_POT_UNLOCK pot (\<lambda>pot. k pot Sts_E pRts_X Number_U32))
       else Ret (pot, None))"

definition BofPot_Get_finish ::
  "(BofPot \<Rightarrow> (BofPot \<times> pot_ptr) outcome) \<Rightarrow> u32 \<Rightarrow> BofPot \<Rightarrow> BOFERR \<Rightarrow> nat option \<Rightarrow> u32 \<Rightarrow> (BofPot \<times> pot_ptr) outcome" where
  "BofPot_Get_finish retry Timeout_U32 pot Sts_E pRts_X Number_U32 =
     (if pot_Blocking pot then
        if Sts_E = BOF_ERR_NO_ERROR \<and> Number_U32 < pot_Capacity pot
        then pot_signal pot (\<lambda>pot. Ret (pot, pot_ptr_of pRts_X))
        else if Timeout_U32 \<noteq> 0 \<and> Sts_E = BOF_ERR_EMPTY then retry pot
        else Ret (pot, pot_ptr_of pRts_X)
      else Ret (pot, pot_ptr_of pRts_X))"

fun BofPot_Get_Lock :: "pot_schedule \<Rightarrow> BofPot \<Rightarrow> bool \<Rightarrow> u32 \<Rightarrow> (BofPot \<times> pot_ptr) outcome" where
  "BofPot_Get_Lock [] pot Lock_B Timeout_U32 = Retrying"
| "BofPot_Get_Lock ((during, before, after) # sched) pot Lock_B Timeout_U32 =
     bindO (if pot_Blocking pot \<and> Timeout_U32 \<noteq> 0
            then bindO (Bof_WaitForEvent (pot_mCanGetEvent_X (during pot)) Timeout_U32 0)
                   (\<lambda>(e, Sts_E). Ret ((during pot)\<lparr>pot_mCanGetEvent_X := e\<rparr>, Sts_E))
            else Ret (pot, BOF_ERR_NO_ERROR))
       (\<lambda>(pot, Sts_E).
          if Sts_E = BOF_ERR_NO_ERROR then
            BofPot_Get_section (before pot) Lock_B (\<lambda>pot.
              BofPot_Get_finish (\<lambda>pot. BofPot_Get_Lock sched pot Lock_B Timeout_U32) Timeout_U32 (after pot))
          else Ret (pot, None))"

definition BofPot_Get :: "pot_schedule \<Rightarrow> BofPot \<Rightarrow> u32 \<Rightarrow> (BofPot \<times> pot_ptr) outcome" where
  "BofPot_Get sched pot Timeout_U32 = BofPot_Get_Lock sched pot False Timeout_U32"

definition BofPot_Lock :: "pot_schedule \<Rightarrow> BofPot \<Rightarrow> u32 \<Rightarrow> (BofPot \<times> pot_ptr) outcome" where
  "BofPot_Lock sched pot Timeout_U32 =
     (if pot_Magic pot \<noteq> 0 then Ret (pot, None) else BofPot_Get_Lock sched pot True Timeout_U32)"

definition BofPot_Unlock :: "BofPot \<Rightarrow> pot_ptr \<Rightarrow> (BofPot \<times> BOFERR) outcome" where
  "BofPot_Unlock pot p =
     BOF_POT_LOCK pot (\<lambda>pot Rts_E.
       if Rts_E = BOF_ERR_NO_ERROR then
         bindO (BofPot_IsPotElementLocked pot p) (\<lambda>Rts_E.
           if Rts_E = BOF_ERR_NO_ERROR
           then pot_write_mark pot (BofPot_GetIndex (the p)) (pot_Magic pot) 0xFF
                  (\<lambda>pot. BOF_POT_UNLOCK pot (\<lambda>pot. Ret (pot, Rts_E)))
           else BOF_POT_UNLOCK pot (\<lambda>pot. Ret (pot, Rts_E)))
       else Ret (pot, Rts_E))"

text \<open>\<^verbatim>\<open>Release\<close> signals after it gave the mutex back: \<open>after\<close> is what happens in between.\<close>

definition BofPot_Release :: "(BofPot \<Rightarrow> BofPot) \<Rightarrow> BofPot \<Rightarrow> pot_ptr \<Rightarrow> (BofPot \<times> BOFERR) outcome" where
  "BofPot_Release after pot p =
     bindO
       (BOF_POT_LOCK pot (\<lambda>pot Rts_E.
          if Rts_E = BOF_ERR_NO_ERROR then
            bindO (BofPot_IsPotElementInUse pot p) (\<lambda>Rts_E.
              if Rts_E = BOF_ERR_NO_ERROR then
                if pot_mNumberOfElementOutOfThePot_U32 pot \<noteq> 0 then
                  pot_write_mark
                    (pot\<lparr>pot_mNumberOfElementOutOfThePot_U32 := pot_mNumberOfElementOutOfThePot_U32 pot - 1\<rparr>)
                    (BofPot_GetIndex (the p)) 0 0
                    (\<lambda>pot. BOF_POT_UNLOCK pot (\<lambda>pot. Ret (pot, BOF_ERR_NO_ERROR)))
                else BOF_POT_UNLOCK pot (\<lambda>pot. Ret (pot, BOF_ERR_INTERNAL))
              else BOF_POT_UNLOCK pot (\<lambda>pot. Ret (pot, BOF_ERR_NOT_AVAILABLE)))
          else Ret (pot, Rts_E)))
       (\<lambda>(pot, Rts_E).
          let pot = after pot in
          if Rts_E = BOF_ERR_NO_ERROR \<and> pot_Blocking pot then pot_signal pot (\<lambda>pot. Ret (pot, Rts_E))
          else Ret (pot, Rts_E))"

section \<open>Clearing\<close>

text \<open>The loop that counts the elements in use among the first ones.\<close>

fun pot_count_used :: "BofPot \<Rightarrow> nat \<Rightarrow> nat \<Rightarrow> u32 \<Rightarrow> (u32 \<Rightarrow> 'b outcome) \<Rightarrow> 'b outcome" where
  "pot_count_used pot 0 i NbKept_U32 k = k NbKept_U32"
| "pot_count_used pot (Suc n) i NbKept_U32 k =
     bindO (BofPot_IsPotElementInUse pot (Some (int i))) (\<lambda>Err_E.
       pot_count_used pot n (Suc i) (if Err_E = BOF_ERR_NO_ERROR then NbKept_U32 + 1 else NbKept_U32) k)"

definition BofPot_ClearPot :: "BofPot \<Rightarrow> u32 \<Rightarrow> (BofPot \<times> BOFERR) outcome" where
  "BofPot_ClearPot pot NbFirstEntryToKeep_U32 =
     (if NbFirstEntryToKeep_U32 < pot_Capacity pot then
        BOF_POT_LOCK pot (\<lambda>pot Rts_E.
          if Rts_E = BOF_ERR_NO_ERROR then
            pot_count_used pot (unat NbFirstEntryToKeep_U32) 0 0 (\<lambda>NbLockedKept_U32.
            pot_clear_marks (unat (pot_Capacity pot) - unat NbFirstEntryToKeep_U32) (unat NbFirstEntryToKeep_U32) pot (\<lambda>pot.
              let pot = pot\<lparr>pot_mNumberOfElementOutOfThePot_U32 := NbLockedKept_U32\<rparr>;
                  finish = (\<lambda>pot. BOF_POT_UNLOCK
                              (pot\<lparr>pot_mpFirstPotElementToTryForGet_X := unat NbFirstEntryToKeep_U32\<rparr>)
                              (\<lambda>pot. Ret (pot, BOF_ERR_NO_ERROR)))
              in if pot_Blocking pot \<and> pot_mNumberOfElementOutOfThePot_U32 pot < pot_Capacity pot
                 then pot_signal pot finish else finish pot))
          else Ret (pot, Rts_E))
      else Ret (pot, BOF_ERR_EINVAL))"

definition BofPot_Reset :: "BofPot \<Rightarrow> BofPot outcome" where
  "BofPot_Reset pot =
     BOF_POT_LOCK pot (\<lambda>pot Sts_E.
       if Sts_E = BOF_ERR_NO_ERROR then
         let pot = pot\<lparr>pot_mLevelMax_U32 := 0, pot_mpFirstPotElementToTryForGet_X := 0,
                       pot_mNumberOfElementOutOfThePot_U32 := 0\<rparr>
         in if pot_Magic pot \<noteq> 0 \<or> pot_mpInUseElementList_U8 pot \<noteq> []
            then pot_clear_marks (unat (pot_Capacity pot)) 0 pot (\<lambda>pot. BOF_POT_UNLOCK pot Ret)
            else BOF_POT_UNLOCK pot Ret
       else Ret pot)"

end
