(* ===== verification/Bof_Pool_Spec.thy ===== *)
theory Bof_Pool_Spec
  imports Bof_Prelude
begin

text \<open>
  The contract of a pool of numbered elements that clients take and give back.
  A run is a list of requests; inside the locale every run of an implementation
  is proved to return and never to hand out an element that is already out.
\<close>

datatype pool_op = PoolGet | PoolRelease nat

datatype pool_obs = PoolGot nat | PoolExhausted | PoolReleased nat | PoolRefused nat

text \<open>What a client may observe, with \<open>out\<close> the elements out of a pool of \<open>n\<close>.\<close>

fun pool_allows :: "nat \<Rightarrow> nat set \<Rightarrow> pool_op list \<Rightarrow> pool_obs list \<Rightarrow> bool" where
  "pool_allows n out [] [] = True"
| "pool_allows n out (PoolGet # ops) (PoolGot i # os) \<longleftrightarrow> i < n \<and> i \<notin> out \<and> pool_allows n (insert i out) ops os"
| "pool_allows n out (PoolGet # ops) (PoolExhausted # os) \<longleftrightarrow> {..<n} \<subseteq> out \<and> pool_allows n out ops os"
| "pool_allows n out (PoolRelease j # ops) (PoolReleased i # os) \<longleftrightarrow>
     i = j \<and> i \<in> out \<and> pool_allows n (out - {i}) ops os"
| "pool_allows n out (PoolRelease j # ops) (PoolRefused i # os) \<longleftrightarrow> i = j \<and> i \<notin> out \<and> pool_allows n out ops os"
| "pool_allows n out _ _ = False"

fun pool_run ::
  "('s \<Rightarrow> ('s \<times> nat option) outcome) \<Rightarrow> (nat \<Rightarrow> 's \<Rightarrow> ('s \<times> BOFERR) outcome) \<Rightarrow> pool_op list \<Rightarrow> 's \<Rightarrow>
     ('s \<times> pool_obs list) outcome" where
  "pool_run get rel [] s = Ret (s, [])"
| "pool_run get rel (PoolGet # ops) s =
     bindO (get s) (\<lambda>(s, r). bindO (pool_run get rel ops s) (\<lambda>(s, os).
       Ret (s, (case r of Some i \<Rightarrow> PoolGot i | None \<Rightarrow> PoolExhausted) # os)))"
| "pool_run get rel (PoolRelease i # ops) s =
     bindO (rel i s) (\<lambda>(s, e). bindO (pool_run get rel ops s) (\<lambda>(s, os).
       Ret (s, (if e = BOF_ERR_NO_ERROR then PoolReleased i else PoolRefused i) # os)))"

locale resource_pool =
  fixes inv :: "'s \<Rightarrow> bool"
    and out :: "'s \<Rightarrow> nat set"
    and cap :: "'s \<Rightarrow> nat"
    and get :: "'s \<Rightarrow> ('s \<times> nat option) outcome"
    and rel :: "nat \<Rightarrow> 's \<Rightarrow> ('s \<times> BOFERR) outcome"
    and refused :: BOFERR
  assumes refused_err: "refused \<noteq> BOF_ERR_NO_ERROR"
    and out_cap: "inv s \<Longrightarrow> out s \<subseteq> {..<cap s}"
    and get_some: "inv s \<Longrightarrow> out s \<noteq> {..<cap s} \<Longrightarrow> \<exists>s' i. get s = Ret (s', Some i) \<and> inv s' \<and>
      cap s' = cap s \<and> i < cap s \<and> i \<notin> out s \<and> out s' = insert i (out s)"
    and get_none: "inv s \<Longrightarrow> out s = {..<cap s} \<Longrightarrow> \<exists>s'. get s = Ret (s', None) \<and> inv s' \<and>
      cap s' = cap s \<and> out s' = out s"
    and rel_out: "inv s \<Longrightarrow> i \<in> out s \<Longrightarrow> \<exists>s'. rel i s = Ret (s', BOF_ERR_NO_ERROR) \<and> inv s' \<and>
      cap s' = cap s \<and> out s' = out s - {i}"
    and rel_in: "inv s \<Longrightarrow> i \<notin> out s \<Longrightarrow> \<exists>s'. rel i s = Ret (s', refused) \<and> inv s' \<and>
      cap s' = cap s \<and> out s' = out s"
begin

lemma run_allowed:
  assumes "inv s"
  shows "\<exists>s' os. pool_run get rel ops s = Ret (s', os) \<and> inv s' \<and> cap s' = cap s \<and> pool_allows (cap s) (out s) ops os"
  using assms
proof (induction ops arbitrary: s)
  case (Cons op ops)
  show ?case
  proof (cases op)
    case PoolGet
    consider s1 i where "get s = Ret (s1, Some i)" "inv s1" "cap s1 = cap s" "i < cap s" "i \<notin> out s" "out s1 = insert i (out s)"
      | s1 where "get s = Ret (s1, None)" "inv s1" "cap s1 = cap s" "out s1 = out s" "out s = {..<cap s}"
      using get_some [OF Cons.prems] get_none [OF Cons.prems] by blast
    then show ?thesis
    proof cases
      case 1
      then show ?thesis using Cons.IH [OF 1(2)] PoolGet by auto
    next
      case 2
      then show ?thesis using Cons.IH [OF 2(2)] PoolGet by auto
    qed
  next
    case (PoolRelease i)
    show ?thesis
    proof (cases "i \<in> out s")
      case True
      then obtain s1 where "rel i s = Ret (s1, BOF_ERR_NO_ERROR)" "inv s1" "cap s1 = cap s" "out s1 = out s - {i}"
        using rel_out [OF Cons.prems] by blast
      then show ?thesis using Cons.IH [of s1] PoolRelease True by auto
    next
      case False
      then obtain s1 where "rel i s = Ret (s1, refused)" "inv s1" "cap s1 = cap s" "out s1 = out s"
        using rel_in [OF Cons.prems] by blast
      then show ?thesis using Cons.IH [of s1] PoolRelease False refused_err by auto
    qed
  qed
qed simp

end

end
