(* ===== verification/Bof_Pot_Proofs.thy ===== *)
theory Bof_Pot_Proofs
  imports Bof_Pot Bof_Pool_Spec
begin

text \<open>
  Correctness of the pot: the invariant ties the counter of the elements that
  are out to their marks; every operation keeps it and acts on the set of the
  elements that are out.
\<close>

section \<open>Views and invariant\<close>

definition pot_used :: "BofPot \<Rightarrow> nat \<Rightarrow> bool" where
  "pot_used pot i \<longleftrightarrow>
     (if pot_Magic pot \<noteq> 0
      then pel_First_U32 (pot_mpPotDataStorage_X pot ! i) = pot_Magic pot \<or>
           pel_First_U32 (pot_mpPotDataStorage_X pot ! i) = NOT (pot_Magic pot)
      else pot_mpInUseElementList_U8 pot ! i \<noteq> 0)"

definition pot_locked :: "BofPot \<Rightarrow> nat \<Rightarrow> bool" where
  "pot_locked pot i \<longleftrightarrow>
     (if pot_Magic pot \<noteq> 0 then pel_First_U32 (pot_mpPotDataStorage_X pot ! i) = NOT (pot_Magic pot)
      else pot_mpInUseElementList_U8 pot ! i = 0xAA)"

definition pot_visible :: "BofPot \<Rightarrow> nat \<Rightarrow> bool" where
  "pot_visible pot i \<longleftrightarrow>
     (if pot_Magic pot \<noteq> 0 then pel_First_U32 (pot_mpPotDataStorage_X pot ! i) = pot_Magic pot
      else pot_mpInUseElementList_U8 pot ! i = 0xFF)"

definition pot_cap :: "BofPot \<Rightarrow> nat" where
  "pot_cap pot = unat (pot_Capacity pot)"

definition pot_out :: "BofPot \<Rightarrow> nat set" where
  "pot_out pot = {i. i < pot_cap pot \<and> pot_used pot i}"

text \<open>
  The storage is allocated. The magic number \<open>0xFFFFFFFF\<close> is excluded: its
  complement, the mark of a locked element, is the mark of a free one.
\<close>

definition pot_shape :: "BofPot \<Rightarrow> bool" where
  "pot_shape pot \<longleftrightarrow> 0 < pot_cap pot \<and> length (pot_mpPotDataStorage_X pot) = pot_cap pot \<and>
     (pot_Magic pot = 0 \<longrightarrow> length (pot_mpInUseElementList_U8 pot) = pot_cap pot \<and>
        set (pot_mpInUseElementList_U8 pot) \<subseteq> {0, 0xFF, 0xAA}) \<and>
     pot_Magic pot \<noteq> - 1 \<and> pot_mpFirstPotElementToTryForGet_X pot < pot_cap pot"

definition pot_ok :: "BofPot \<Rightarrow> bool" where
  "pot_ok pot \<longleftrightarrow> pot_shape pot \<and> unat (pot_mNumberOfElementOutOfThePot_U32 pot) = card (pot_out pot)"

definition pot_sync :: "BofPot \<Rightarrow> bool" where
  "pot_sync pot \<longleftrightarrow> (pot_MultiThreadAware pot \<longrightarrow> mutex_ready (pot_mPotMtx_X pot)) \<and>
     (pot_Blocking pot \<longrightarrow> event_ready (pot_mCanGetEvent_X pot))"

definition pot_inv :: "BofPot \<Rightarrow> bool" where
  "pot_inv pot \<longleftrightarrow> pot_ok pot \<and> pot_sync pot"

lemma pot_shapeD:
  assumes "pot_shape pot"
  shows "0 < pot_cap pot" "length (pot_mpPotDataStorage_X pot) = pot_cap pot"
    "pot_Magic pot = 0 \<Longrightarrow> length (pot_mpInUseElementList_U8 pot) = pot_cap pot"
    "pot_Magic pot = 0 \<Longrightarrow> set (pot_mpInUseElementList_U8 pot) \<subseteq> {0, 0xFF, 0xAA}"
    "pot_Magic pot \<noteq> - 1" "pot_mpFirstPotElementToTryForGet_X pot < pot_cap pot"
  using assms by (auto simp: pot_shape_def)

lemma pot_okD: "pot_ok pot \<Longrightarrow> pot_shape pot" "pot_ok pot \<Longrightarrow> unat (pot_mNumberOfElementOutOfThePot_U32 pot) = card (pot_out pot)"
  by (simp_all add: pot_ok_def)

lemma pot_last: "pot_shape pot \<Longrightarrow> unat (pot_Capacity pot - 1) = pot_cap pot - 1"
  using pot_shapeD(1) [of pot] unat_pred_pos [of "pot_Capacity pot"] by (fastforce simp: pot_cap_def)

lemma finite_pot_out [simp]: "finite (pot_out pot)"
  by (simp add: pot_out_def)

lemma pot_out_sub: "pot_out pot \<subseteq> {..<pot_cap pot}"
  by (auto simp: pot_out_def)

lemma pot_num_less:
  assumes "pot_ok pot"
  shows "pot_mNumberOfElementOutOfThePot_U32 pot < pot_Capacity pot \<longleftrightarrow> pot_out pot \<noteq> {..<pot_cap pot}"
proof -
  have "card (pot_out pot) \<le> card {..<pot_cap pot}" by (rule card_mono [OF _ pot_out_sub]) simp
  then have le: "card (pot_out pot) \<le> pot_cap pot" by simp
  have eq: "card (pot_out pot) = pot_cap pot \<Longrightarrow> pot_out pot = {..<pot_cap pot}"
    using card_subset_eq [OF finite_lessThan pot_out_sub [of pot]] by simp
  have "pot_mNumberOfElementOutOfThePot_U32 pot < pot_Capacity pot \<longleftrightarrow> card (pot_out pot) < pot_cap pot"
    unfolding word_less_nat_alt pot_cap_def pot_okD(2) [OF assms] ..
  also have "\<dots> \<longleftrightarrow> pot_out pot \<noteq> {..<pot_cap pot}" using le eq card_lessThan by (metis less_le)
  finally show ?thesis .
qed

lemma NOT_neq: "NOT (m::u32) \<noteq> m"
proof
  assume "NOT m = m"
  then have "bit (NOT m) 0 = bit m 0" by simp
  then show False by (simp add: bit_not_iff)
qed

text \<open>Every element that is out is either visible or locked, not both.\<close>

lemma pot_visible_or_locked:
  assumes "pot_shape pot" "i < pot_cap pot"
  shows "pot_used pot i \<longleftrightarrow> pot_visible pot i \<or> pot_locked pot i" "\<not> (pot_visible pot i \<and> pot_locked pot i)"
proof -
  have "pot_mpInUseElementList_U8 pot ! i \<in> {0, 0xFF, 0xAA}" if "pot_Magic pot = 0"
    using subsetD [OF pot_shapeD(4) [OF assms(1) that] nth_mem] pot_shapeD(3) [OF assms(1) that] assms(2) by simp
  then show "pot_used pot i \<longleftrightarrow> pot_visible pot i \<or> pot_locked pot i"
    by (auto simp: pot_used_def pot_visible_def pot_locked_def)
  show "\<not> (pot_visible pot i \<and> pot_locked pot i)"
    using NOT_neq [of "pot_Magic pot"] by (auto simp: pot_visible_def pot_locked_def)
qed

section \<open>Evaluation of the tests and of the writes\<close>

lemma pot_if_eq:
  assumes "pot_shape pot" "i < pot_cap pot"
  shows "pot_if_in_use pot i k = k (pot_used pot i)" "pot_if_locked pot i k = k (pot_locked pot i)"
    "pot_if_visible pot i k = k (pot_visible pot i)"
  using assms pot_shapeD [OF assms(1)]
  by (auto simp: pot_if_in_use_def pot_if_locked_def pot_if_visible_def pot_used_def pot_locked_def pot_visible_def)

definition pot_mark :: "BofPot \<Rightarrow> nat \<Rightarrow> u32 \<Rightarrow> u8 \<Rightarrow> BofPot" where
  "pot_mark pot i w b =
     (if pot_Magic pot \<noteq> 0
      then pot\<lparr>pot_mpPotDataStorage_X := (pot_mpPotDataStorage_X pot)
                 [i := (pot_mpPotDataStorage_X pot ! i)\<lparr>pel_First_U32 := w\<rparr>]\<rparr>
      else pot\<lparr>pot_mpInUseElementList_U8 := (pot_mpInUseElementList_U8 pot)[i := b]\<rparr>)"

lemma pot_write_mark_eq:
  assumes "pot_shape pot" "i < pot_cap pot"
  shows "pot_write_mark pot i w b k = k (pot_mark pot i w b)"
  using assms pot_shapeD [OF assms(1)] by (simp add: pot_write_mark_def pot_mark_def)

lemma pot_mark_simps [simp]:
  "pot_mPotParam_X (pot_mark pot i w b) = pot_mPotParam_X pot" "pot_mPotMtx_X (pot_mark pot i w b) = pot_mPotMtx_X pot"
  "pot_mCanGetEvent_X (pot_mark pot i w b) = pot_mCanGetEvent_X pot"
  "pot_mpFirstPotElementToTryForGet_X (pot_mark pot i w b) = pot_mpFirstPotElementToTryForGet_X pot"
  "pot_mNumberOfElementOutOfThePot_U32 (pot_mark pot i w b) = pot_mNumberOfElementOutOfThePot_U32 pot"
  "pot_mLevelMax_U32 (pot_mark pot i w b) = pot_mLevelMax_U32 pot"
  "pot_mErrorCode_E (pot_mark pot i w b) = pot_mErrorCode_E pot"
  "pot_cap (pot_mark pot i w b) = pot_cap pot"
  by (simp_all add: pot_mark_def pot_cap_def)

text \<open>The three marks the code writes.\<close>

definition pot_mark_ok :: "BofPot \<Rightarrow> u32 \<Rightarrow> u8 \<Rightarrow> bool" where
  "pot_mark_ok pot w b \<longleftrightarrow> w = 0 \<and> b = 0 \<or> w = pot_Magic pot \<and> b = 0xFF \<or> w = NOT (pot_Magic pot) \<and> b = 0xAA"

lemma pot_mark_shape:
  assumes "pot_shape pot" "pot_mark_ok pot w b"
  shows "pot_shape (pot_mark pot i w b)"
proof -
  have "set ((pot_mpInUseElementList_U8 pot)[i := b]) \<subseteq> {0, 0xFF, 0xAA}" if "pot_Magic pot = 0"
    using pot_shapeD(4) [OF assms(1) that] assms(2) set_update_subset_insert [of "pot_mpInUseElementList_U8 pot" i b]
    by (auto simp: pot_mark_ok_def)
  then show ?thesis using assms(1) by (auto simp: pot_shape_def pot_mark_def pot_cap_def)
qed

lemma not_eq_zero_iff: "NOT (x::u32) = 0 \<longleftrightarrow> x = - 1"
  by (metis bit.compl_zero bit.double_compl)

lemma pot_mark_used:
  assumes "pot_shape pot" "i < pot_cap pot" "pot_mark_ok pot w b"
  shows "pot_used (pot_mark pot i w b) j = (if j = i then b \<noteq> 0 else pot_used pot j)"
    "pot_visible (pot_mark pot i w b) j = (if j = i then b = 0xFF else pot_visible pot j)"
    "pot_locked (pot_mark pot i w b) j = (if j = i then b = 0xAA else pot_locked pot j)"
proof -
  note not = NOT_neq NOT_neq [symmetric]
  show "pot_used (pot_mark pot i w b) j = (if j = i then b \<noteq> 0 else pot_used pot j)"
    "pot_visible (pot_mark pot i w b) j = (if j = i then b = 0xFF else pot_visible pot j)"
    "pot_locked (pot_mark pot i w b) j = (if j = i then b = 0xAA else pot_locked pot j)"
    using assms(2,3) not pot_shapeD [OF assms(1)]
    by (auto simp: pot_used_def pot_visible_def pot_locked_def pot_mark_def pot_mark_ok_def not_eq_zero_iff)
qed

lemma pot_mark_out:
  assumes "pot_shape pot" "i < pot_cap pot" "pot_mark_ok pot w b"
  shows "pot_out (pot_mark pot i w b) = (if b = 0 then pot_out pot - {i} else insert i (pot_out pot))"
  using assms(2) by (auto simp: pot_out_def pot_mark_used [OF assms] split: if_splits)

section \<open>Searches\<close>

lemma pot_find_free_result:
  assumes "pot_shape pot"
  shows "i \<le> pot_cap pot \<Longrightarrow>
    (\<exists>j. pot_find_free pot n i = Ret (Some j) \<and> j < pot_cap pot \<and> \<not> pot_used pot j) \<or>
    pot_find_free pot n i = Ret None \<and> (\<forall>t < n. pot_used pot ((i + t) mod pot_cap pot))"
proof (induction n arbitrary: i)
  case (Suc n)
  let ?i = "if i > pot_cap pot - 1 then 0 else i"
  note sh = pot_shapeD(1) [OF assms]
  have i: "?i < pot_cap pot" using sh Suc.prems by auto
  have mods: "(i + t) mod pot_cap pot = (?i + t) mod pot_cap pot" for t
    using Suc.prems sh by (cases "i = pot_cap pot") auto
  have step: "pot_find_free pot (Suc n) i =
      (if pot_used pot ?i then pot_find_free pot n (Suc ?i) else Ret (Some ?i))"
    by (simp only: pot_find_free.simps Let_def pot_last [OF assms] pot_if_eq(1) [OF assms i])
  show ?case
  proof (cases "pot_used pot ?i")
    case True
    have "\<forall>t < Suc n. pot_used pot ((i + t) mod pot_cap pot)" if "\<forall>t < n. pot_used pot ((Suc ?i + t) mod pot_cap pot)"
    proof (intro allI impI)
      fix t assume "t < Suc n"
      then show "pot_used pot ((i + t) mod pot_cap pot)"
        unfolding mods using that True i by (cases t) auto
    qed
    then show ?thesis using Suc.IH [of "Suc ?i"] i True step by (metis Suc_leI)
  next
    case False
    then show ?thesis using i step by auto
  qed
qed simp

lemma pot_find_free_first:
  assumes "pot_shape pot"
  shows "if pot_out pot = {..<pot_cap pot}
    then pot_find_free pot (pot_cap pot) (pot_mpFirstPotElementToTryForGet_X pot) = Ret None
    else \<exists>j. pot_find_free pot (pot_cap pot) (pot_mpFirstPotElementToTryForGet_X pot) = Ret (Some j) \<and>
      j < pot_cap pot \<and> j \<notin> pot_out pot"
proof -
  let ?f = "pot_mpFirstPotElementToTryForGet_X pot" and ?n = "pot_cap pot"
  note sh = pot_shapeD [OF assms]
  have all: "pot_out pot = {..<?n}" if "\<forall>t < ?n. pot_used pot ((?f + t) mod ?n)"
  proof -
    have "pot_used pot j" if "j < ?n" for j
    proof -
      define t where "t = (j + (?n - ?f)) mod ?n"
      have "(?f + t) mod ?n = (?f + (j + (?n - ?f))) mod ?n" by (simp add: t_def mod_add_right_eq)
      also have "\<dots> = j" using sh(6) that by simp
      finally show ?thesis using \<open>\<forall>t < ?n. pot_used pot ((?f + t) mod ?n)\<close> sh(1) by (metis t_def mod_less_divisor)
    qed
    then show ?thesis by (auto simp: pot_out_def)
  qed
  show ?thesis
    using pot_find_free_result [OF assms, of ?f ?n] sh(6) all by (auto simp: pot_out_def)
qed

section \<open>Operations under the mutex\<close>

text \<open>The mutex held by the caller.\<close>

definition pot_hold :: "BofPot \<Rightarrow> BofPot" where
  "pot_hold pot = (if pot_MultiThreadAware pot
     then pot\<lparr>pot_mPotMtx_X := (pot_mPotMtx_X pot)\<lparr>mtx_Mtx := OwnedBySelf (Suc 0)\<rparr>\<rparr> else pot)"

definition pot_free_mutex :: "BOF_MUTEX \<Rightarrow> BofPot \<Rightarrow> BofPot" where
  "pot_free_mutex m pot = pot\<lparr>pot_mPotMtx_X := m\<rparr>"

lemma pot_lock_ready:
  "pot_sync pot \<Longrightarrow> BOF_POT_LOCK pot k = k (pot_hold pot) BOF_ERR_NO_ERROR"
  by (simp add: BOF_POT_LOCK_def pot_sync_def sync_simps pot_hold_def)

lemma pot_unlock_held:
  assumes "pot_sync pot" "pot_mPotParam_X pot' = pot_mPotParam_X pot" "pot_mPotMtx_X pot' = pot_mPotMtx_X (pot_hold pot)"
  shows "BOF_POT_UNLOCK pot' k = k (pot_free_mutex (pot_mPotMtx_X pot) pot')"
proof (cases "pot_MultiThreadAware pot")
  case True
  then show ?thesis using assms by (simp add: BOF_POT_UNLOCK_def pot_sync_def sync_simps pot_hold_def pot_free_mutex_def)
next
  case False
  then have "pot_free_mutex (pot_mPotMtx_X pot) pot' = pot'"
    using assms(3) by (cases pot') (simp add: pot_hold_def pot_free_mutex_def)
  then show ?thesis using False assms(2) by (simp add: BOF_POT_UNLOCK_def)
qed

lemma pot_unlock_hold: "pot_sync pot \<Longrightarrow> BOF_POT_UNLOCK (pot_hold pot) k = k pot"
  by (auto simp: BOF_POT_UNLOCK_def pot_sync_def sync_simps pot_hold_def)

lemma pot_mutex_simps [simp]:
  "pot_mPotParam_X (pot_hold pot) = pot_mPotParam_X pot" "pot_mPotParam_X (pot_free_mutex m pot) = pot_mPotParam_X pot"
  "pot_mCanGetEvent_X (pot_hold pot) = pot_mCanGetEvent_X pot" "pot_mCanGetEvent_X (pot_free_mutex m pot) = pot_mCanGetEvent_X pot"
  "pot_mNumberOfElementOutOfThePot_U32 (pot_hold pot) = pot_mNumberOfElementOutOfThePot_U32 pot"
  "pot_mpPotDataStorage_X (pot_hold pot) = pot_mpPotDataStorage_X pot"
  "pot_mpPotDataStorage_X (pot_free_mutex m pot) = pot_mpPotDataStorage_X pot"
  "pot_mNumberOfElementOutOfThePot_U32 (pot_free_mutex m pot) = pot_mNumberOfElementOutOfThePot_U32 pot"
  "pot_mPotMtx_X (pot_free_mutex m pot) = m"
  by (simp_all add: pot_hold_def pot_free_mutex_def)

lemma pot_mutex_views [simp]:
  "pot_cap (pot_hold pot) = pot_cap pot" "pot_cap (pot_free_mutex m pot) = pot_cap pot"
  "pot_used (pot_hold pot) = pot_used pot" "pot_used (pot_free_mutex m pot) = pot_used pot"
  "pot_visible (pot_hold pot) = pot_visible pot" "pot_visible (pot_free_mutex m pot) = pot_visible pot"
  "pot_locked (pot_hold pot) = pot_locked pot" "pot_locked (pot_free_mutex m pot) = pot_locked pot"
  "pot_out (pot_hold pot) = pot_out pot" "pot_out (pot_free_mutex m pot) = pot_out pot"
  "pot_shape (pot_hold pot) = pot_shape pot" "pot_shape (pot_free_mutex m pot) = pot_shape pot"
  "pot_ok (pot_hold pot) = pot_ok pot" "pot_ok (pot_free_mutex m pot) = pot_ok pot"
  by (auto simp: pot_hold_def pot_free_mutex_def pot_cap_def pot_used_def pot_visible_def pot_locked_def pot_out_def
      pot_shape_def pot_ok_def fun_eq_iff)

text \<open>Two pots that agree on everything the synchronisation uses.\<close>

definition pot_same_sync :: "BofPot \<Rightarrow> BofPot \<Rightarrow> bool" where
  "pot_same_sync pot pot' \<longleftrightarrow> pot_mPotParam_X pot' = pot_mPotParam_X pot \<and> pot_mPotMtx_X pot' = pot_mPotMtx_X pot \<and>
     pot_mCanGetEvent_X pot' = pot_mCanGetEvent_X pot"

lemma pot_sync_free:
  assumes "pot_sync pot" "pot_same_sync (pot_hold pot) pot'"
  shows "pot_sync (pot_free_mutex (pot_mPotMtx_X pot) pot')"
  using assms by (auto simp: pot_sync_def pot_same_sync_def)

subsection \<open>Get\<close>

definition pot_memset_at :: "BofPot \<Rightarrow> nat \<Rightarrow> BofPot" where
  "pot_memset_at pot i =
     (if pop_GetOpPreserveContent_B (pot_mPotParam_X pot) then pot
      else pot\<lparr>pot_mpPotDataStorage_X := (pot_mpPotDataStorage_X pot)
        [i := \<lparr>pel_First_U32 = 0, pel_Rest_U8 = replicate (length (pel_Rest_U8 (pot_mpPotDataStorage_X pot ! i))) 0\<rparr>]\<rparr>)"

definition pot_taken :: "BofPot \<Rightarrow> bool \<Rightarrow> nat \<Rightarrow> BofPot" where
  "pot_taken pot Lock_B i =
     (pot_mark (pot_memset_at pot i) i (if Lock_B then NOT (pot_Magic pot) else pot_Magic pot)
        (if Lock_B then 0xAA else 0xFF))
       \<lparr>pot_mNumberOfElementOutOfThePot_U32 := pot_mNumberOfElementOutOfThePot_U32 pot + 1,
        pot_mpFirstPotElementToTryForGet_X := if i + 1 > pot_cap pot - 1 then 0 else i + 1,
        pot_mLevelMax_U32 := max (pot_mLevelMax_U32 pot) (pot_mNumberOfElementOutOfThePot_U32 pot + 1)\<rparr>"

lemma pot_memset_at_simps [simp]:
  "pot_mPotParam_X (pot_memset_at pot i) = pot_mPotParam_X pot" "pot_mPotMtx_X (pot_memset_at pot i) = pot_mPotMtx_X pot"
  "pot_mCanGetEvent_X (pot_memset_at pot i) = pot_mCanGetEvent_X pot" "pot_cap (pot_memset_at pot i) = pot_cap pot"
  "pot_mNumberOfElementOutOfThePot_U32 (pot_memset_at pot i) = pot_mNumberOfElementOutOfThePot_U32 pot"
  "pot_mLevelMax_U32 (pot_memset_at pot i) = pot_mLevelMax_U32 pot"
  "pot_shape (pot_memset_at pot i) = pot_shape pot"
  by (simp_all add: pot_memset_at_def pot_cap_def pot_shape_def)

lemma pot_memset_used:
  "j \<noteq> i \<Longrightarrow> pot_used (pot_memset_at pot i) j = pot_used pot j"
  "j \<noteq> i \<Longrightarrow> pot_visible (pot_memset_at pot i) j = pot_visible pot j"
  "j \<noteq> i \<Longrightarrow> pot_locked (pot_memset_at pot i) j = pot_locked pot j"
  by (simp_all add: pot_memset_at_def pot_used_def pot_visible_def pot_locked_def)

lemma Get_take_eq:
  assumes "pot_ok pot"
  shows "if pot_out pot = {..<pot_cap pot}
    then BofPot_Get_take pot Lock_B = Ret (pot, BOF_ERR_EMPTY, None, pot_mNumberOfElementOutOfThePot_U32 pot)
    else \<exists>i. i < pot_cap pot \<and> i \<notin> pot_out pot \<and>
      BofPot_Get_take pot Lock_B = Ret (pot_taken pot Lock_B i, BOF_ERR_NO_ERROR, Some i, pot_mNumberOfElementOutOfThePot_U32 pot + 1)"
proof (cases "pot_out pot = {..<pot_cap pot}")
  case True
  then show ?thesis using pot_num_less [OF assms] by (simp add: BofPot_Get_take_def)
next
  case False
  note sh = pot_okD(1) [OF assms]
  obtain i where i: "pot_find_free pot (pot_cap pot) (pot_mpFirstPotElementToTryForGet_X pot) = Ret (Some i)"
    "i < pot_cap pot" "i \<notin> pot_out pot" using pot_find_free_first [OF sh] False by auto
  have set: "pot_memset pot i k = k (pot_memset_at pot i)" if "\<not> pop_GetOpPreserveContent_B (pot_mPotParam_X pot)"
    for k :: "BofPot \<Rightarrow> (BofPot \<times> BOFERR \<times> nat option \<times> u32) outcome"
    using that i(2) pot_shapeD(2) [OF sh] by (simp add: pot_memset_def pot_memset_at_def)
  have nset: "pot_memset_at pot i = pot" if "pop_GetOpPreserveContent_B (pot_mPotParam_X pot)"
    using that by (simp add: pot_memset_at_def)
  have mark: "pot_write_mark (pot_memset_at pot i) i w b k = k (pot_mark (pot_memset_at pot i) i w b)"
    for w b and k :: "BofPot \<Rightarrow> (BofPot \<times> BOFERR \<times> nat option \<times> u32) outcome"
    using i(2) sh by (simp add: pot_write_mark_eq)
  have "BofPot_Get_take pot Lock_B = Ret (pot_taken pot Lock_B i, BOF_ERR_NO_ERROR, Some i, pot_mNumberOfElementOutOfThePot_U32 pot + 1)"
    using False pot_num_less [OF assms] i(1) set nset mark pot_last [OF sh]
    by (cases "pop_GetOpPreserveContent_B (pot_mPotParam_X pot)")
       (auto simp: BofPot_Get_take_def Let_def pot_cap_def [symmetric] pot_taken_def max_def)
  then show ?thesis using i(2,3) False by auto
qed

lemma pot_num_Suc:
  assumes "pot_ok pot" "i < pot_cap pot" "i \<notin> pot_out pot"
  shows "unat (pot_mNumberOfElementOutOfThePot_U32 pot + 1) = card (insert i (pot_out pot))"
proof -
  have "pot_out pot \<noteq> {..<pot_cap pot}" using assms(2,3) by auto
  then have "pot_mNumberOfElementOutOfThePot_U32 pot < pot_Capacity pot" using pot_num_less [OF assms(1)] by simp
  then show ?thesis using assms(3) pot_okD(2) [OF assms(1)] by simp
qed

lemma pot_taken_marks:
  assumes "pot_shape pot" "i < pot_cap pot"
  shows "pot_shape (pot_taken pot L i)"
    "pot_used (pot_taken pot L i) j = (j = i \<or> pot_used pot j)"
    "pot_visible (pot_taken pot L i) j = (if j = i then \<not> L else pot_visible pot j)"
    "pot_locked (pot_taken pot L i) j = (if j = i then L else pot_locked pot j)"
    "pot_out (pot_taken pot L i) = insert i (pot_out pot)"
proof -
  let ?p = "pot_memset_at pot i" and ?w = "if L then NOT (pot_Magic pot) else pot_Magic pot" and ?b = "if L then 0xAA else 0xFF :: u8"
  let ?m = "pot_mark ?p i ?w ?b"
  have ok: "pot_mark_ok ?p ?w ?b" by (simp add: pot_mark_ok_def)
  have sh: "pot_shape ?p" "i < pot_cap ?p" using assms by simp_all
  note m = pot_mark_used [OF sh ok]
  have views: "pot_used (pot_taken pot L i) = pot_used ?m" "pot_visible (pot_taken pot L i) = pot_visible ?m"
    "pot_locked (pot_taken pot L i) = pot_locked ?m"
    by (simp_all add: pot_taken_def pot_used_def pot_visible_def pot_locked_def fun_eq_iff)
  show "pot_shape (pot_taken pot L i)"
    using pot_mark_shape [OF sh(1) ok, of i] assms by (auto simp: pot_shape_def pot_taken_def pot_cap_def)
  show u: "pot_used (pot_taken pot L i) j = (j = i \<or> pot_used pot j)" for j
    using pot_memset_used(1) [of j i pot] by (auto simp: views m)
  show "pot_visible (pot_taken pot L i) j = (if j = i then \<not> L else pot_visible pot j)"
    using pot_memset_used(2) [of j i pot] by (auto simp: views m)
  show "pot_locked (pot_taken pot L i) j = (if j = i then L else pot_locked pot j)"
    using pot_memset_used(3) [of j i pot] by (auto simp: views m)
  show "pot_out (pot_taken pot L i) = insert i (pot_out pot)"
    using assms(2) by (auto simp: pot_out_def u) (simp_all add: pot_taken_def pot_cap_def)
qed

lemma pot_taken_ok:
  assumes "pot_ok pot" "i < pot_cap pot" "i \<notin> pot_out pot"
  shows "pot_ok (pot_taken pot L i)" "pot_same_sync pot (pot_taken pot L i)" "pot_cap (pot_taken pot L i) = pot_cap pot"
proof -
  note m = pot_taken_marks [OF pot_okD(1) [OF assms(1)] assms(2)]
  have "unat (pot_mNumberOfElementOutOfThePot_U32 (pot_taken pot L i)) = card (insert i (pot_out pot))"
    using pot_num_Suc [OF assms] by (simp add: pot_taken_def)
  then show "pot_ok (pot_taken pot L i)" using m(1,5) by (simp add: pot_ok_def)
  show "pot_same_sync pot (pot_taken pot L i)" "pot_cap (pot_taken pot L i) = pot_cap pot"
    by (simp_all add: pot_same_sync_def pot_taken_def pot_cap_def)
qed

lemma pot_signal_ready:
  "event_ready (pot_mCanGetEvent_X pot) \<Longrightarrow>
   pot_signal pot k = k (pot\<lparr>pot_mCanGetEvent_X := event_set (pot_mCanGetEvent_X pot)\<rparr>)"
  by (simp add: pot_signal_def sync_simps)

lemma pot_event_views [simp]:
  "pot_ok (pot\<lparr>pot_mCanGetEvent_X := e\<rparr>) = pot_ok pot" "pot_out (pot\<lparr>pot_mCanGetEvent_X := e\<rparr>) = pot_out pot"
  "pot_cap (pot\<lparr>pot_mCanGetEvent_X := e\<rparr>) = pot_cap pot" "pot_shape (pot\<lparr>pot_mCanGetEvent_X := e\<rparr>) = pot_shape pot"
  "pot_visible (pot\<lparr>pot_mCanGetEvent_X := e\<rparr>) = pot_visible pot" "pot_locked (pot\<lparr>pot_mCanGetEvent_X := e\<rparr>) = pot_locked pot"
  "pot_used (pot\<lparr>pot_mCanGetEvent_X := e\<rparr>) = pot_used pot"
  by (auto simp: pot_ok_def pot_out_def pot_cap_def pot_shape_def pot_used_def pot_visible_def pot_locked_def fun_eq_iff)

lemma pot_sync_event:
  "pot_sync pot \<Longrightarrow> event_ready e \<Longrightarrow> pot_sync (pot\<lparr>pot_mCanGetEvent_X := e\<rparr>)"
  by (simp add: pot_sync_def)

text \<open>The critical section of a get, with the mutex given back.\<close>

definition pot_got :: "BofPot \<Rightarrow> bool \<Rightarrow> nat \<Rightarrow> BofPot" where
  "pot_got pot L i = pot_free_mutex (pot_mPotMtx_X pot) (pot_taken (pot_hold pot) L i)"

lemma pot_got_ok:
  assumes "pot_inv pot" "i < pot_cap pot" "i \<notin> pot_out pot"
  shows "pot_inv (pot_got pot L i)" "pot_out (pot_got pot L i) = insert i (pot_out pot)"
    "pot_cap (pot_got pot L i) = pot_cap pot"
    "pot_visible (pot_got pot L i) j = (if j = i then \<not> L else pot_visible pot j)"
    "pot_locked (pot_got pot L i) j = (if j = i then L else pot_locked pot j)"
    "pot_mPotParam_X (pot_got pot L i) = pot_mPotParam_X pot"
    "pot_mCanGetEvent_X (pot_got pot L i) = pot_mCanGetEvent_X pot"
proof -
  have ok: "pot_ok (pot_hold pot)" "pot_sync pot" using assms(1) by (simp_all add: pot_inv_def)
  have i: "i < pot_cap (pot_hold pot)" "i \<notin> pot_out (pot_hold pot)" using assms(2,3) by simp_all
  note t = pot_taken_ok [OF ok(1) i, of L] and m = pot_taken_marks [OF pot_okD(1) [OF ok(1)] i(1), of L]
  show "pot_inv (pot_got pot L i)" using t pot_sync_free [OF ok(2) t(2)] by (simp add: pot_inv_def pot_got_def)
  show "pot_out (pot_got pot L i) = insert i (pot_out pot)" "pot_cap (pot_got pot L i) = pot_cap pot"
    "pot_visible (pot_got pot L i) j = (if j = i then \<not> L else pot_visible pot j)"
    "pot_locked (pot_got pot L i) j = (if j = i then L else pot_locked pot j)"
    "pot_mPotParam_X (pot_got pot L i) = pot_mPotParam_X pot"
    "pot_mCanGetEvent_X (pot_got pot L i) = pot_mCanGetEvent_X pot"
    using m t by (simp_all add: pot_got_def pot_same_sync_def)
qed

lemma Get_section_empty:
  assumes "pot_inv pot" "pot_out pot = {..<pot_cap pot}"
  shows "BofPot_Get_section pot L k = k pot BOF_ERR_EMPTY None (pot_mNumberOfElementOutOfThePot_U32 pot)"
proof -
  have ok: "pot_ok (pot_hold pot)" and sync: "pot_sync pot" using assms(1) by (simp_all add: pot_inv_def)
  show ?thesis using Get_take_eq [OF ok, of L] assms(2)
    by (simp add: BofPot_Get_section_def pot_lock_ready [OF sync] pot_unlock_hold [OF sync])
qed

lemma Get_section_takes:
  assumes "pot_inv pot" "pot_out pot \<noteq> {..<pot_cap pot}"
  obtains i where "i < pot_cap pot" "i \<notin> pot_out pot"
    "\<And>k. BofPot_Get_section pot L k = k (pot_got pot L i) BOF_ERR_NO_ERROR (Some i) (pot_mNumberOfElementOutOfThePot_U32 pot + 1)"
proof -
  have ok: "pot_ok (pot_hold pot)" and sync: "pot_sync pot" using assms(1) by (simp_all add: pot_inv_def)
  obtain i where i: "i < pot_cap pot" "i \<notin> pot_out pot"
    "BofPot_Get_take (pot_hold pot) L = Ret (pot_taken (pot_hold pot) L i, BOF_ERR_NO_ERROR, Some i, pot_mNumberOfElementOutOfThePot_U32 pot + 1)"
    using Get_take_eq [OF ok, of L] assms(2) by auto
  have "pot_same_sync (pot_hold pot) (pot_taken (pot_hold pot) L i)" using pot_taken_ok(2) [OF ok] i by simp
  then have "BofPot_Get_section pot L k = k (pot_got pot L i) BOF_ERR_NO_ERROR (Some i) (pot_mNumberOfElementOutOfThePot_U32 pot + 1)" for k
    using i(3) by (simp add: BofPot_Get_section_def pot_lock_ready [OF sync] pot_unlock_held [OF sync] pot_same_sync_def pot_got_def)
  then show ?thesis using that i(1,2) by blast
qed

text \<open>A get that does not wait.\<close>

definition pot_signal_room :: "BofPot \<Rightarrow> BofPot" where
  "pot_signal_room pot = (if pot_Blocking pot \<and> pot_out pot \<noteq> {..<pot_cap pot}
     then pot\<lparr>pot_mCanGetEvent_X := event_set (pot_mCanGetEvent_X pot)\<rparr> else pot)"

lemma pot_signal_room_views [simp]:
  "pot_out (pot_signal_room pot) = pot_out pot" "pot_cap (pot_signal_room pot) = pot_cap pot"
  "pot_inv (pot_signal_room pot) = pot_inv pot" "pot_visible (pot_signal_room pot) = pot_visible pot"
  "pot_locked (pot_signal_room pot) = pot_locked pot" "pot_mPotParam_X (pot_signal_room pot) = pot_mPotParam_X pot"
  "pot_mpPotDataStorage_X (pot_signal_room pot) = pot_mpPotDataStorage_X pot"
  by (auto simp: pot_signal_room_def pot_inv_def pot_sync_def)

lemma pot_got_room:
  assumes "pot_inv pot" "i < pot_cap pot" "i \<notin> pot_out pot"
  shows "pot_mNumberOfElementOutOfThePot_U32 pot + 1 < pot_Capacity pot \<longleftrightarrow> pot_out (pot_got pot L i) \<noteq> {..<pot_cap pot}"
proof -
  note g = pot_got_ok [OF assms, of L]
  have "pot_mNumberOfElementOutOfThePot_U32 (pot_got pot L i) = pot_mNumberOfElementOutOfThePot_U32 pot + 1"
    by (simp add: pot_got_def pot_taken_def)
  then show ?thesis using pot_num_less [of "pot_got pot L i"] g(1,3,6) by (simp add: pot_inv_def)
qed

lemma Get_finish_taken:
  assumes "pot_sync pot"
  shows "BofPot_Get_finish retry t pot BOF_ERR_NO_ERROR r n =
    Ret (if pot_Blocking pot \<and> n < pot_Capacity pot then pot\<lparr>pot_mCanGetEvent_X := event_set (pot_mCanGetEvent_X pot)\<rparr> else pot,
      pot_ptr_of r)"
  using assms by (auto simp: BofPot_Get_finish_def pot_sync_def pot_signal_ready)

lemma Get_no_wait:
  assumes "pot_inv pot" "t = 0 \<or> \<not> pot_Blocking pot"
  shows "if pot_out pot = {..<pot_cap pot} then BofPot_Get_Lock [(id, id, id)] pot L t = Ret (pot, None)
    else \<exists>i. i < pot_cap pot \<and> i \<notin> pot_out pot \<and>
      BofPot_Get_Lock [(id, id, id)] pot L t = Ret (pot_signal_room (pot_got pot L i), Some (int i))"
proof (cases "pot_out pot = {..<pot_cap pot}")
  case True
  then show ?thesis using assms(2) by (auto simp: Get_section_empty [OF assms(1) True] BofPot_Get_finish_def pot_ptr_of_def)
next
  case False
  obtain i where i: "i < pot_cap pot" "i \<notin> pot_out pot"
    "\<And>k. BofPot_Get_section pot L k = k (pot_got pot L i) BOF_ERR_NO_ERROR (Some i) (pot_mNumberOfElementOutOfThePot_U32 pot + 1)"
    using Get_section_takes [OF assms(1) False, of L] by blast
  note g = pot_got_ok [OF assms(1) i(1,2), of L]
  have "pot_sync (pot_got pot L i)" using g(1) by (simp add: pot_inv_def)
  then have "BofPot_Get_Lock [(id, id, id)] pot L t = Ret (pot_signal_room (pot_got pot L i), Some (int i))"
    using assms(2) pot_got_room [OF assms(1) i(1,2), of L] g(3,6)
    by (auto simp: i(3) Get_finish_taken pot_signal_room_def pot_ptr_of_def)
  then show ?thesis using False i(1,2) by auto
qed

subsection \<open>Pointers\<close>

lemma pot_ptr_ok_iff:
  assumes "pot_shape pot"
  shows "pot_ptr_ok pot p \<longleftrightarrow> (\<exists>i < pot_cap pot. p = Some (int i))"
proof -
  have ne: "pot_mpPotDataStorage_X pot \<noteq> []" using pot_shapeD(1,2) [OF assms] by auto
  have "uint (pot_Capacity pot - 1) = int (pot_cap pot) - 1"
    using pot_last [OF assms] pot_shapeD(1) [OF assms] by (metis of_nat_1 of_nat_diff Suc_leI One_nat_def uint_nat)
  then show ?thesis using ne
    by (cases p) (auto simp: pot_ptr_ok_def elim!: nonneg_int_cases)
qed

lemma pot_index:
  assumes "i < pot_cap pot" shows "BofPot_GetIndex (int i) = i"
proof -
  have "unat (pot_Capacity pot) < 2 ^ LENGTH(32)" by (rule unsigned_less)
  then have "i < 2 ^ 32" using assms by (simp add: pot_cap_def)
  then show ?thesis by (simp add: BofPot_GetIndex_def nat_take_bit_eq take_bit_nat_eq_self)
qed

lemma pot_element_tests:
  assumes "pot_shape pot"
  shows "BofPot_IsPotElementInUse pot p =
      Ret (if pot_ptr_ok pot p then if nat (the p) \<in> pot_out pot then BOF_ERR_NO_ERROR else BOF_ERR_EBUSY else BOF_ERR_EINVAL)"
    "BofPot_IsPotElementLocked pot p =
      Ret (if pot_ptr_ok pot p then if pot_locked pot (nat (the p)) then BOF_ERR_NO_ERROR else BOF_ERR_UNLOCK else BOF_ERR_EINVAL)"
  using pot_ptr_ok_iff [OF assms, of p]
  by (auto simp: BofPot_IsPotElementInUse_def BofPot_IsPotElementLocked_def pot_index pot_out_def pot_if_eq [OF assms])

subsection \<open>Release and unlock\<close>

definition pot_released :: "BofPot \<Rightarrow> nat \<Rightarrow> BofPot" where
  "pot_released pot i = pot_mark (pot\<lparr>pot_mNumberOfElementOutOfThePot_U32 := pot_mNumberOfElementOutOfThePot_U32 pot - 1\<rparr>) i 0 0"

lemma pot_number_views [simp]:
  "pot_cap (pot\<lparr>pot_mNumberOfElementOutOfThePot_U32 := n\<rparr>) = pot_cap pot"
  "pot_shape (pot\<lparr>pot_mNumberOfElementOutOfThePot_U32 := n\<rparr>) = pot_shape pot"
  "pot_out (pot\<lparr>pot_mNumberOfElementOutOfThePot_U32 := n\<rparr>) = pot_out pot"
  "pot_locked (pot\<lparr>pot_mNumberOfElementOutOfThePot_U32 := n\<rparr>) = pot_locked pot"
  "pot_visible (pot\<lparr>pot_mNumberOfElementOutOfThePot_U32 := n\<rparr>) = pot_visible pot"
  "pot_used (pot\<lparr>pot_mNumberOfElementOutOfThePot_U32 := n\<rparr>) = pot_used pot"
  by (auto simp: pot_cap_def pot_shape_def pot_out_def pot_used_def pot_locked_def pot_visible_def fun_eq_iff)

lemma pot_first_views [simp]:
  "pot_cap (pot\<lparr>pot_mpFirstPotElementToTryForGet_X := n\<rparr>) = pot_cap pot"
  "pot_out (pot\<lparr>pot_mpFirstPotElementToTryForGet_X := n\<rparr>) = pot_out pot"
  "pot_visible (pot\<lparr>pot_mpFirstPotElementToTryForGet_X := n\<rparr>) = pot_visible pot"
  by (auto simp: pot_cap_def pot_out_def pot_used_def pot_visible_def fun_eq_iff)

lemma pot_released_ok:
  assumes "pot_inv pot" "i \<in> pot_out pot"
  shows "pot_inv (pot_released pot i)" "pot_out (pot_released pot i) = pot_out pot - {i}"
    "pot_cap (pot_released pot i) = pot_cap pot"
    "pot_visible (pot_released pot i) j = (j \<noteq> i \<and> pot_visible pot j)"
    "pot_locked (pot_released pot i) j = (j \<noteq> i \<and> pot_locked pot j)"
proof -
  let ?p = "pot\<lparr>pot_mNumberOfElementOutOfThePot_U32 := pot_mNumberOfElementOutOfThePot_U32 pot - 1\<rparr>"
  have ok: "pot_ok pot" and sync: "pot_sync pot" using assms(1) by (simp_all add: pot_inv_def)
  have i: "i < pot_cap pot" using assms(2) by (simp add: pot_out_def)
  have mk: "pot_mark_ok ?p 0 0" by (simp add: pot_mark_ok_def)
  have sh: "pot_shape ?p" "i < pot_cap ?p" using pot_okD(1) [OF ok] i by simp_all
  have ne: "pot_mNumberOfElementOutOfThePot_U32 pot \<noteq> 0" using pot_okD(2) [OF ok] assms(2) by auto
  show out: "pot_out (pot_released pot i) = pot_out pot - {i}"
    using pot_mark_out [OF sh mk] by (simp add: pot_released_def)
  have "unat (pot_mNumberOfElementOutOfThePot_U32 (pot_released pot i)) = card (pot_out pot - {i})"
    using ne pot_okD(2) [OF ok] assms(2) by (simp add: pot_released_def)
  then show "pot_inv (pot_released pot i)"
    using pot_mark_shape [OF sh(1) mk, of i] sync out by (simp add: pot_inv_def pot_ok_def pot_sync_def pot_released_def)
  show "pot_cap (pot_released pot i) = pot_cap pot" by (simp add: pot_released_def)
  show "pot_visible (pot_released pot i) j = (j \<noteq> i \<and> pot_visible pot j)" "pot_locked (pot_released pot i) j = (j \<noteq> i \<and> pot_locked pot j)"
    using pot_mark_used [OF sh mk, of j] by (simp_all add: pot_released_def)
qed

text \<open>The mutex is given back around a body that is a write of marks and counters.\<close>

lemma pot_hold_mark:
  "pot_free_mutex (pot_mPotMtx_X pot) (pot_mark (pot_hold pot) i w b) = pot_mark pot i w b"
  "pot_free_mutex (pot_mPotMtx_X pot) (pot_released (pot_hold pot) i) = pot_released pot i"
  by (cases pot; auto simp: pot_hold_def pot_free_mutex_def pot_mark_def pot_released_def)+

lemma Release_eq:
  assumes "pot_inv pot"
  shows "BofPot_Release id pot p =
    (if pot_ptr_ok pot p \<and> nat (the p) \<in> pot_out pot
     then Ret (pot_signal_room (pot_released pot (nat (the p))), BOF_ERR_NO_ERROR)
     else Ret (pot, BOF_ERR_NOT_AVAILABLE))"
proof -
  have ok: "pot_ok pot" and sync: "pot_sync pot" using assms by (simp_all add: pot_inv_def)
  have sh: "pot_shape (pot_hold pot)" "pot_shape pot" using pot_okD(1) [OF ok] by simp_all
  have hp: "pot_ptr_ok (pot_hold pot) p = pot_ptr_ok pot p" using pot_ptr_ok_iff [OF sh(1)] pot_ptr_ok_iff [OF sh(2)] by simp
  show ?thesis
  proof (cases "pot_ptr_ok pot p \<and> nat (the p) \<in> pot_out pot")
    case True
    then obtain i where i: "i < pot_cap pot" "p = Some (int i)" "i \<in> pot_out pot"
      using pot_ptr_ok_iff [OF sh(2), of p] by auto
    have ne: "pot_mNumberOfElementOutOfThePot_U32 pot \<noteq> 0" using pot_okD(2) [OF ok] i(3) by auto
    have wm: "pot_write_mark ((pot_hold pot)\<lparr>pot_mNumberOfElementOutOfThePot_U32 := pot_mNumberOfElementOutOfThePot_U32 pot - 1\<rparr>) i 0 0 k
        = k (pot_released (pot_hold pot) i)" for k :: "BofPot \<Rightarrow> (BofPot \<times> BOFERR) outcome"
      using i(1) sh by (simp add: pot_write_mark_eq pot_released_def)
    have un: "BOF_POT_UNLOCK (pot_released (pot_hold pot) i) k = k (pot_released pot i)"
      for k :: "BofPot \<Rightarrow> (BofPot \<times> BOFERR) outcome"
      using pot_hold_mark(2) [of pot i] by (subst pot_unlock_held [OF sync]) (simp_all add: pot_released_def)
    note r = pot_released_ok [OF assms i(3)]
    have "pot_out (pot_released pot i) \<noteq> {..<pot_cap pot}" using r(2) i(1) by auto
    then have sig: "pot_Blocking pot \<Longrightarrow> pot_signal (pot_released pot i) k = k (pot_signal_room (pot_released pot i))"
      for k :: "BofPot \<Rightarrow> (BofPot \<times> BOFERR) outcome"
      using r(1,3) by (auto simp: pot_signal_room_def pot_inv_def pot_sync_def pot_signal_ready pot_released_def)
    have nb: "\<not> pot_Blocking pot \<Longrightarrow> pot_signal_room (pot_released pot i) = pot_released pot i"
      by (simp add: pot_signal_room_def pot_released_def)
    have par: "pot_mPotParam_X (pot_released pot i) = pot_mPotParam_X pot" by (simp add: pot_released_def)
    show ?thesis
      using True i ne wm un sig nb par hp
      by (simp add: BofPot_Release_def pot_lock_ready [OF sync] pot_element_tests(1) [OF sh(1)] pot_index)
  next
    case False
    then show ?thesis
      using hp by (auto simp: BofPot_Release_def pot_lock_ready [OF sync] pot_element_tests(1) [OF sh(1)] pot_unlock_hold [OF sync])
  qed
qed

lemma Unlock_eq:
  assumes "pot_inv pot"
  shows "BofPot_Unlock pot p =
    (if \<not> pot_ptr_ok pot p then Ret (pot, BOF_ERR_EINVAL)
     else if pot_locked pot (nat (the p)) then Ret (pot_mark pot (nat (the p)) (pot_Magic pot) 0xFF, BOF_ERR_NO_ERROR)
     else Ret (pot, BOF_ERR_UNLOCK))"
proof -
  have ok: "pot_ok pot" and sync: "pot_sync pot" using assms by (simp_all add: pot_inv_def)
  have sh: "pot_shape (pot_hold pot)" "pot_shape pot" using pot_okD(1) [OF ok] by simp_all
  have hp: "pot_ptr_ok (pot_hold pot) p = pot_ptr_ok pot p" using pot_ptr_ok_iff [OF sh(1)] pot_ptr_ok_iff [OF sh(2)] by simp
  have un: "BOF_POT_UNLOCK (pot_mark (pot_hold pot) i w b) k = k (pot_mark pot i w b)"
    for i w b and k :: "BofPot \<Rightarrow> (BofPot \<times> BOFERR) outcome"
    using pot_hold_mark(1) [of pot i w b] by (subst pot_unlock_held [OF sync]) simp_all
  have wm: "i < pot_cap pot \<Longrightarrow> pot_write_mark (pot_hold pot) i w b k = k (pot_mark (pot_hold pot) i w b)"
    for i w b and k :: "BofPot \<Rightarrow> (BofPot \<times> BOFERR) outcome"
    using sh(1) by (simp add: pot_write_mark_eq)
  show ?thesis
    using hp pot_ptr_ok_iff [OF sh(2), of p]
    by (auto simp: BofPot_Unlock_def pot_lock_ready [OF sync] pot_element_tests(2) [OF sh(1)] pot_unlock_hold [OF sync]
        pot_index wm un)
qed


subsection \<open>Clearing\<close>

definition pot_alloc :: "BofPot \<Rightarrow> bool" where
  "pot_alloc pot \<longleftrightarrow> length (pot_mpPotDataStorage_X pot) = pot_cap pot \<and>
     (pot_Magic pot = 0 \<longrightarrow> length (pot_mpInUseElementList_U8 pot) = pot_cap pot)"

lemma pot_shape_alloc: "pot_shape pot \<Longrightarrow> pot_alloc pot"
  by (simp add: pot_shape_def pot_alloc_def)

text \<open>The marks of the elements from \<open>i\<close> on, \<open>n\<close> of them, are cleared.\<close>

definition clear_range :: "nat \<Rightarrow> nat \<Rightarrow> ('a \<Rightarrow> 'a) \<Rightarrow> 'a list \<Rightarrow> 'a list" where
  "clear_range n i f xs = map (\<lambda>j. if i \<le> j \<and> j < i + n then f (xs ! j) else xs ! j) [0..<length xs]"

definition pot_cleared :: "nat \<Rightarrow> nat \<Rightarrow> BofPot \<Rightarrow> BofPot" where
  "pot_cleared n i pot =
     (if pot_Magic pot \<noteq> 0
      then pot\<lparr>pot_mpPotDataStorage_X := clear_range n i (\<lambda>d. d\<lparr>pel_First_U32 := 0\<rparr>) (pot_mpPotDataStorage_X pot)\<rparr>
      else pot\<lparr>pot_mpInUseElementList_U8 := clear_range n i (\<lambda>_. 0) (pot_mpInUseElementList_U8 pot)\<rparr>)"

lemma clear_range_0 [simp]: "clear_range 0 i f xs = xs"
  by (rule nth_equalityI) (auto simp: clear_range_def)

lemma clear_range_Suc:
  "clear_range n (Suc i) f (xs[i := f (xs ! i)]) = clear_range (Suc n) i f xs"
  by (rule nth_equalityI) (auto simp: clear_range_def nth_list_update not_less_eq_eq dest: antisym)

lemma length_clear_range [simp]: "length (clear_range n i f xs) = length xs"
  by (simp add: clear_range_def)

lemma nth_clear_range [simp]:
  "j < length xs \<Longrightarrow> clear_range n i f xs ! j = (if i \<le> j \<and> j < i + n then f (xs ! j) else xs ! j)"
  by (simp add: clear_range_def)

lemma clear_marks_eq:
  "pot_alloc pot \<Longrightarrow> i + n \<le> pot_cap pot \<Longrightarrow> pot_clear_marks n i pot k = k (pot_cleared n i pot)"
proof (induction n arbitrary: i pot)
  case 0
  then show ?case by (cases pot) (simp add: pot_cleared_def)
next
  case (Suc n)
  have "pot_write_mark pot i 0 0 c = c (pot_mark pot i 0 0)" for c :: "BofPot \<Rightarrow> 'a outcome"
    using Suc.prems by (auto simp: pot_write_mark_def pot_mark_def pot_alloc_def)
  moreover have "pot_alloc (pot_mark pot i 0 0)" using Suc.prems by (auto simp: pot_alloc_def pot_mark_def pot_cap_def)
  moreover have "pot_cleared n (Suc i) (pot_mark pot i 0 0) = pot_cleared (Suc n) i pot"
    by (auto simp: pot_cleared_def pot_mark_def clear_range_Suc)
       (use clear_range_Suc [of n i "\<lambda>_. 0" "pot_mpInUseElementList_U8 pot"] in simp)
  ultimately show ?case using Suc.IH [of "pot_mark pot i 0 0" "Suc i"] Suc.prems(2) by simp
qed

lemma pot_cleared_simps [simp]:
  "pot_mPotParam_X (pot_cleared n i pot) = pot_mPotParam_X pot" "pot_mPotMtx_X (pot_cleared n i pot) = pot_mPotMtx_X pot"
  "pot_mCanGetEvent_X (pot_cleared n i pot) = pot_mCanGetEvent_X pot" "pot_cap (pot_cleared n i pot) = pot_cap pot"
  "pot_mpFirstPotElementToTryForGet_X (pot_cleared n i pot) = pot_mpFirstPotElementToTryForGet_X pot"
  "pot_mNumberOfElementOutOfThePot_U32 (pot_cleared n i pot) = pot_mNumberOfElementOutOfThePot_U32 pot"
  by (simp_all add: pot_cleared_def pot_cap_def)

lemma pot_cleared_marks:
  assumes "pot_alloc pot" "pot_Magic pot \<noteq> - 1" "j < pot_cap pot"
  shows "pot_used (pot_cleared n i pot) j = (\<not> (i \<le> j \<and> j < i + n) \<and> pot_used pot j)"
    "pot_visible (pot_cleared n i pot) j = (\<not> (i \<le> j \<and> j < i + n) \<and> pot_visible pot j)"
    "pot_locked (pot_cleared n i pot) j = (\<not> (i \<le> j \<and> j < i + n) \<and> pot_locked pot j)"
  using assms not_eq_zero_iff [of "pot_Magic pot"]
  by (auto simp: pot_alloc_def pot_cleared_def pot_used_def pot_visible_def pot_locked_def)

lemma pot_cleared_out:
  assumes "pot_alloc pot" "pot_Magic pot \<noteq> - 1"
  shows "pot_out (pot_cleared n i pot) = pot_out pot - {i..<i + n}"
  using pot_cleared_marks(1) [OF assms] by (auto simp: pot_out_def)

lemma pot_cleared_bytes:
  assumes "pot_Magic pot = 0" "set (pot_mpInUseElementList_U8 pot) \<subseteq> S" "0 \<in> S"
  shows "set (pot_mpInUseElementList_U8 (pot_cleared n i pot)) \<subseteq> S"
proof -
  have "xs ! j \<in> S" if "j < length xs" "set xs \<subseteq> S" for xs :: "u8 list" and j using that nth_mem by blast
  then show ?thesis using assms by (auto simp: pot_cleared_def clear_range_def)
qed

lemma pot_cleared_all_bytes:
  assumes "pot_Magic pot = 0" "pot_alloc pot"
  shows "set (pot_mpInUseElementList_U8 (pot_cleared (pot_cap pot) 0 pot)) \<subseteq> {0}"
  using assms by (auto simp: pot_cleared_def clear_range_def pot_alloc_def)

lemma pot_cleared_shape:
  assumes "pot_shape pot" shows "pot_shape (pot_cleared n i pot)"
  using assms pot_cleared_bytes [of pot "{0, 0xFF, 0xAA}" n i]
  by (auto simp: pot_shape_def) (simp_all add: pot_cleared_def)

lemma count_used_eq:
  assumes "pot_shape pot"
  shows "i + n \<le> pot_cap pot \<Longrightarrow> pot_count_used pot n i c k = k (c + of_nat (card (pot_out pot \<inter> {i..<i + n})))"
proof (induction n arbitrary: i c)
  case (Suc n)
  have i: "pot_ptr_ok pot (Some (int i))" using Suc.prems pot_ptr_ok_iff [OF assms] by auto
  have range: "{i..<i + Suc n} = insert i {Suc i..<Suc i + n}" by auto
  have card: "card (pot_out pot \<inter> {i..<i + Suc n}) =
      (if i \<in> pot_out pot then 1 else 0) + card (pot_out pot \<inter> {Suc i..<Suc i + n})"
    unfolding range by simp
  show ?case using Suc.IH [of "Suc i"] Suc.prems i card
    by (simp add: pot_element_tests(1) [OF assms] add.assoc)
qed simp

lemma ClearPot_eq:
  assumes "pot_inv pot" "unat keep < pot_cap pot"
  shows "\<exists>pot'. BofPot_ClearPot pot keep = Ret (pot', BOF_ERR_NO_ERROR) \<and> pot_inv pot' \<and> pot_cap pot' = pot_cap pot \<and>
    pot_out pot' = pot_out pot \<inter> {..<unat keep} \<and> (\<forall>j < unat keep. pot_visible pot' j = pot_visible pot j) \<and>
    (pot_Blocking pot' \<longrightarrow> event_signaled (pot_mCanGetEvent_X pot'))"
proof -
  let ?h = "pot_hold pot" and ?k = "unat keep"
  let ?n = "of_nat (card (pot_out pot \<inter> {0..<?k})) :: u32"
  let ?c = "(pot_cleared (pot_cap pot - ?k) ?k ?h)\<lparr>pot_mNumberOfElementOutOfThePot_U32 := ?n\<rparr>"
  let ?e = "if pot_Blocking pot then ?c\<lparr>pot_mCanGetEvent_X := event_set (pot_mCanGetEvent_X pot)\<rparr> else ?c"
  let ?r = "pot_free_mutex (pot_mPotMtx_X pot) (?e\<lparr>pot_mpFirstPotElementToTryForGet_X := ?k\<rparr>)"
  have ok: "pot_ok pot" and sync: "pot_sync pot" using assms(1) by (simp_all add: pot_inv_def)
  have sh: "pot_shape ?h" using pot_okD(1) [OF ok] by simp
  have lt: "keep < pot_Capacity pot" using assms(2) by (simp add: word_less_nat_alt pot_cap_def)
  have al: "pot_alloc ?h" "pot_Magic ?h \<noteq> - 1" using pot_shape_alloc [OF sh] pot_shapeD(5) [OF sh] by simp_all
  have cl: "card (pot_out pot \<inter> {0..<?k}) \<le> card {0..<?k}" by (intro card_mono) auto
  have n: "unat ?n = card (pot_out pot \<inter> {0..<?k})"
    using cl by (intro unat_of_nat_le [of _ keep]) simp
  have room: "?n < pot_Capacity pot" using n cl assms(2) by (simp add: word_less_nat_alt pot_cap_def)
  have out: "pot_out ?c = pot_out pot \<inter> {..<?k}" using pot_cleared_out [OF al, of "pot_cap pot - ?k" ?k] pot_out_sub [of pot] assms(2)
    by (auto simp: pot_cap_def)
  have eq: "BofPot_ClearPot pot keep = Ret (?r, BOF_ERR_NO_ERROR)"
    using lt room sync assms(2) al sh
    by (auto simp: BofPot_ClearPot_def pot_lock_ready [OF sync] count_used_eq [OF sh] clear_marks_eq pot_cap_def [symmetric]
        Let_def pot_signal_ready pot_sync_def pot_unlock_held [OF sync])
  have "pot_shape ?r" using pot_cleared_shape [OF sh, of "pot_cap pot - ?k" ?k] assms(2)
    by (auto simp: pot_shape_def pot_cap_def pot_free_mutex_def)
  moreover have ro: "pot_out ?r = pot_out pot \<inter> {..<?k}" using out by simp
  moreover have "pot_sync ?r" using sync by (simp add: pot_sync_def)
  ultimately have "pot_inv ?r" using n by (simp add: pot_inv_def pot_ok_def atLeast0LessThan)
  moreover have "\<forall>j < ?k. pot_visible ?r j = pot_visible pot j"
    using pot_cleared_marks(2) [OF al, of _ "pot_cap pot - ?k" ?k] assms(2) by (auto simp: pot_visible_def)
  ultimately show ?thesis using eq ro by (auto simp: pot_cap_def)
qed


lemma pot_Reset_eq:
  assumes "pot_inv pot"
  shows "\<exists>pot'. BofPot_Reset pot = Ret pot' \<and> pot_inv pot' \<and> pot_cap pot' = pot_cap pot \<and> pot_out pot' = {} \<and>
    pot_mPotParam_X pot' = pot_mPotParam_X pot \<and> pot_mCanGetEvent_X pot' = pot_mCanGetEvent_X pot"
proof -
  let ?z = "(pot_hold pot)\<lparr>pot_mLevelMax_U32 := 0, pot_mpFirstPotElementToTryForGet_X := 0, pot_mNumberOfElementOutOfThePot_U32 := 0\<rparr>"
  let ?c = "pot_cleared (pot_cap pot) 0 ?z"
  let ?r = "pot_free_mutex (pot_mPotMtx_X pot) ?c"
  have ok: "pot_ok pot" and sync: "pot_sync pot" using assms by (simp_all add: pot_inv_def)
  have sh: "pot_shape ?z" using pot_okD(1) [OF ok] by (auto simp: pot_shape_def pot_cap_def pot_hold_def)
  have cap: "pot_cap ?z = pot_cap pot" by (simp add: pot_cap_def)
  have al: "pot_alloc ?z" "pot_Magic ?z \<noteq> - 1" using pot_shape_alloc [OF sh] pot_shapeD(5) [OF sh] by simp_all
  have ne: "pot_Magic pot \<noteq> 0 \<or> pot_mpInUseElementList_U8 ?z \<noteq> []"
    using pot_shapeD(1,3) [OF sh] cap by fastforce
  have eq: "BofPot_Reset pot = Ret ?r"
    using ne al cap by (auto simp: BofPot_Reset_def pot_lock_ready [OF sync] Let_def clear_marks_eq pot_cap_def [symmetric]
        pot_unlock_held [OF sync])
  have out: "pot_out ?r = {}" using pot_cleared_out [OF al, of "pot_cap pot" 0] pot_out_sub [of ?z] cap by auto
  have "pot_sync ?r" using sync by (simp add: pot_sync_def)
  then have "pot_inv ?r" using pot_cleared_shape [OF sh] out by (simp add: pot_inv_def pot_ok_def)
  then show ?thesis using eq out by (auto simp: pot_cap_def)
qed

subsection \<open>Enumeration\<close>

lemma pot_scan_eq:
  assumes "\<And>j k. j < m \<Longrightarrow> test j k = k (P j)"
  shows "i + n \<le> m \<Longrightarrow> pot_scan test n i skip =
    Ret (if unat skip < length (filter P [i..<i + n]) then Some (filter P [i..<i + n] ! unat skip) else None)"
proof (induction n arbitrary: i skip)
  case (Suc n)
  have up: "[i..<Suc (i + n)] = i # [Suc i..<Suc (i + n)]" by (simp add: upt_conv_Cons del: upt_Suc)
  have t: "test i k = k (P i)" for k using assms Suc.prems by simp
  show ?case
  proof (cases "skip = 0")
    case True
    then show ?thesis using Suc.IH [of "Suc i" 0] Suc.prems t by (auto simp: up simp del: upt_Suc)
  next
    case False
    then have "unat skip = Suc (unat (skip - 1))" using unat_gt_0 [of skip] by simp
    then show ?thesis using Suc.IH [of "Suc i"] Suc.prems t False by (auto simp: up simp del: upt_Suc)
  qed
qed simp

definition pot_shown :: "BofPot \<Rightarrow> nat list" where
  "pot_shown pot = filter (pot_visible pot) [0..<pot_cap pot]"

lemma pot_shown_out: "pot_shape pot \<Longrightarrow> set (pot_shown pot) \<subseteq> pot_out pot"
  using pot_visible_or_locked(1) [of pot] by (auto simp: pot_shown_def pot_out_def)

lemma GetFirstUsed_eq:
  assumes "pot_inv pot"
  shows "BofPot_GetFirstUsed pot skip =
    Ret (pot, if unat skip < length (pot_shown pot) then Some (int (pot_shown pot ! unat skip)) else None)"
proof -
  have ok: "pot_ok pot" and sync: "pot_sync pot" using assms by (simp_all add: pot_inv_def)
  have sh: "pot_shape (pot_hold pot)" using pot_okD(1) [OF ok] by simp
  have "length (pot_shown pot) = card (set (pot_shown pot))" by (rule distinct_card [symmetric]) (simp add: pot_shown_def)
  also have "\<dots> \<le> card (pot_out pot)" using pot_shown_out [OF pot_okD(1) [OF ok]] by (intro card_mono) auto
  finally have le: "length (pot_shown pot) \<le> unat (pot_mNumberOfElementOutOfThePot_U32 pot)" using pot_okD(2) [OF ok] by simp
  have vis: "j < pot_cap pot \<Longrightarrow> pot_if_visible (pot_hold pot) j k = k (pot_visible pot j)"
    for j and k :: "bool \<Rightarrow> nat option outcome" by (simp add: pot_if_eq(3) [OF sh])
  have scan: "pot_scan (pot_if_visible (pot_hold pot)) (unat (pot_Capacity pot)) 0 skip =
    Ret (if unat skip < length (pot_shown pot) then Some (pot_shown pot ! unat skip) else None)"
    using pot_scan_eq [where m = "pot_cap pot" and test = "pot_if_visible (pot_hold pot)" and P = "pot_visible pot" and
      i = 0 and n = "pot_cap pot" and skip = skip, OF vis] by (simp add: pot_cap_def pot_shown_def)
  show ?thesis
    using le by (auto simp: BofPot_GetFirstUsed_def pot_lock_ready [OF sync] scan pot_unlock_hold [OF sync] pot_ptr_of_def
        word_less_nat_alt)
qed

lemma filter_upt_split:
  assumes "i < n"
  shows "filter P [0..<n] = filter P [0..<i] @ (if P i then [i] else []) @ filter P [Suc i..<n]"
proof -
  have "[0..<n] = [0..<i] @ [i..<n]" using upt_add_eq_append [of 0 i "n - i"] assms by simp
  then show ?thesis using assms by (simp add: upt_conv_Cons)
qed

lemma GetNextUsed_eq:
  assumes "pot_inv pot" "i < pot_cap pot"
  shows "BofPot_GetNextUsed pot (Some (int i)) =
    Ret (pot, case filter (pot_visible pot) [Suc i..<pot_cap pot] of [] \<Rightarrow> None | j # _ \<Rightarrow> Some (int j))"
proof -
  have ok: "pot_ok pot" and sync: "pot_sync pot" using assms(1) by (simp_all add: pot_inv_def)
  have sh: "pot_shape (pot_hold pot)" "pot_shape pot" using pot_okD(1) [OF ok] by simp_all
  have p: "pot_ptr_ok pot (Some (int i))" using pot_ptr_ok_iff [OF sh(2)] assms(2) by auto
  have last: "unat (pot_Capacity pot - 1) = pot_cap pot - 1" by (rule pot_last [OF sh(2)])
  then have lastu: "int (Suc i) \<le> uint (pot_Capacity pot - 1) \<longleftrightarrow> Suc i < pot_cap pot"
    unfolding uint_nat last using assms(2) by linarith
  have vis: "j < pot_cap pot \<Longrightarrow> pot_if_visible (pot_hold pot) j k = k (pot_visible pot j)"
    for j and k :: "bool \<Rightarrow> nat option outcome" by (simp add: pot_if_eq(3) [OF sh(1)])
  have scan: "pot_scan (pot_if_visible (pot_hold pot)) (pot_cap pot - 1 - Suc i + 1) (Suc i) 0 =
    Ret (case filter (pot_visible pot) [Suc i..<pot_cap pot] of [] \<Rightarrow> None | j # _ \<Rightarrow> Some j)" if lt: "Suc i < pot_cap pot"
  proof -
    define n where "n = pot_cap pot - 1 - Suc i + 1"
    have n: "Suc i + n = pot_cap pot" using lt by (simp add: n_def)
    have "pot_scan (pot_if_visible (pot_hold pot)) n (Suc i) 0 =
      Ret (if unat (0::u32) < length (filter (pot_visible pot) [Suc i..<Suc i + n])
           then Some (filter (pot_visible pot) [Suc i..<Suc i + n] ! unat (0::u32)) else None)"
      by (rule pot_scan_eq [where m = "pot_cap pot" and test = "pot_if_visible (pot_hold pot)" and P = "pot_visible pot", OF vis])
         (use n in simp_all)
    then show ?thesis unfolding n n_def [symmetric] by (cases "filter (pot_visible pot) [Suc i..<pot_cap pot]") simp_all
  qed
  show ?thesis
    using p last lastu scan
    by (cases "Suc i < pot_cap pot")
       (auto simp: BofPot_GetNextUsed_def pot_lock_ready [OF sync] pot_unlock_hold [OF sync] pot_ptr_of_def Let_def split: list.splits)
qed


lemma GetNextUsed_shown:
  assumes "pot_inv pot" "k < length (pot_shown pot)"
  shows "BofPot_GetNextUsed pot (Some (int (pot_shown pot ! k))) =
    Ret (pot, if Suc k < length (pot_shown pot) then Some (int (pot_shown pot ! Suc k)) else None)"
proof -
  let ?i = "pot_shown pot ! k"
  have mem: "?i \<in> set (pot_shown pot)" using assms(2) by (rule nth_mem)
  then have i: "?i < pot_cap pot" "pot_visible pot ?i" by (auto simp: pot_shown_def)
  have sp: "pot_shown pot = filter (pot_visible pot) [0..<?i] @ ?i # filter (pot_visible pot) [Suc ?i..<pot_cap pot]"
    using filter_upt_split [OF i(1), of "pot_visible pot"] i(2) unfolding pot_shown_def by simp
  have "distinct (pot_shown pot)" by (simp add: pot_shown_def)
  from distinct_split_index [OF this assms(2) sp]
  have k: "length (filter (pot_visible pot) [0..<?i]) = k" .
  let ?B = "filter (pot_visible pot) [Suc ?i..<pot_cap pot]"
  have len: "length (pot_shown pot) = k + 1 + length ?B" using sp k by (metis length_append length_Cons add_Suc_right add.assoc One_nat_def plus_1_eq_Suc)
  have "?B \<noteq> [] \<Longrightarrow> pot_shown pot ! Suc k = hd ?B"
    using sp k by (metis append_Cons append_Nil append_assoc hd_conv_nth length_append_singleton nth_append_length_plus add_0_right)
  then have "(case ?B of [] \<Rightarrow> None | j # _ \<Rightarrow> Some (int j)) =
      (if Suc k < length (pot_shown pot) then Some (int (pot_shown pot ! Suc k)) else None)"
    using len by (cases ?B) auto
  then show ?thesis using GetNextUsed_eq [OF assms(1) i(1)] by simp
qed

subsection \<open>Construction\<close>

lemma pot_error_views [simp]:
  "pot_cap (pot\<lparr>pot_mErrorCode_E := n\<rparr>) = pot_cap pot" "pot_out (pot\<lparr>pot_mErrorCode_E := n\<rparr>) = pot_out pot"
  "pot_shape (pot\<lparr>pot_mErrorCode_E := n\<rparr>) = pot_shape pot" "pot_sync (pot\<lparr>pot_mErrorCode_E := n\<rparr>) = pot_sync pot"
  by (auto simp: pot_cap_def pot_out_def pot_used_def pot_shape_def pot_sync_def)

lemma pot_storage_ok:
  assumes "pot_mPotParam_X pot = p" "pop_PotCapacity_U32 p \<noteq> 0" "pop_MagicNumber_U32 p \<noteq> - 1"
    "\<And>n. length (new_T n) = unat n" "\<And>n. length (new_U8 n) = unat n"
    "pot_mNumberOfElementOutOfThePot_U32 pot = 0" "pot_sync pot"
  shows "\<exists>pot'. BofPot_storage new_T new_U8 pot = Ret pot' \<and> pot_inv pot' \<and> pot_out pot' = {} \<and> pot_mPotParam_X pot' = p \<and>
    pot_mErrorCode_E pot' = BOF_ERR_NO_ERROR \<and> (pop_Blocking_B p \<longrightarrow> event_signaled (pot_mCanGetEvent_X pot'))"
proof -
  let ?a = "pot\<lparr>pot_mpPotDataStorage_X := new_T (pop_PotCapacity_U32 p), pot_mpFirstPotElementToTryForGet_X := 0\<rparr>"
  let ?b = "if pop_MagicNumber_U32 p \<noteq> 0 then ?a else ?a\<lparr>pot_mpInUseElementList_U8 := new_U8 (pop_PotCapacity_U32 p)\<rparr>"
  let ?c = "pot_cleared (pot_cap pot) 0 ?b"
  let ?d = "?c\<lparr>pot_mErrorCode_E := BOF_ERR_NO_ERROR\<rparr>"
  let ?e = "if pop_Blocking_B p then ?d\<lparr>pot_mCanGetEvent_X := event_set (pot_mCanGetEvent_X ?d)\<rparr> else ?d"
  have cap: "pot_cap ?b = pot_cap pot" "0 < pot_cap pot" using assms(1,2) by (simp_all add: pot_cap_def unat_gt_0)
  have par: "pot_mPotParam_X ?b = p" using assms(1) by simp
  have al: "pot_alloc ?b" using assms(1,4,5) cap(1) by (auto simp: pot_alloc_def pot_cap_def)
  have magic: "pot_Magic ?b \<noteq> - 1" using assms(3) par by simp
  have out: "pot_out ?c = {}" using pot_cleared_out [OF al magic, of "pot_cap pot" 0] pot_out_sub [of ?b] cap by auto
  have bytes: "pot_Magic ?b = 0 \<Longrightarrow> set (pot_mpInUseElementList_U8 ?c) \<subseteq> {0}"
    using pot_cleared_all_bytes [of ?b] al cap(1) by simp
  have len: "pot_alloc ?c" using al by (auto simp: pot_alloc_def) (simp_all add: pot_cleared_def)
  have sh: "pot_shape ?c"
    using cap len magic bytes par by (auto simp: pot_shape_def pot_alloc_def)
  have num: "pot_mNumberOfElementOutOfThePot_U32 ?c = 0" using assms(6) by simp
  have sy: "pot_sync ?c" using assms(7) by (simp add: pot_sync_def)
  have ev: "pop_Blocking_B p \<Longrightarrow> event_ready (pot_mCanGetEvent_X ?d)" using sy par by (simp add: pot_sync_def)
  have dv: "pot_inv ?d" "pot_out ?d = {}"
    using sh num out sy by (simp_all add: pot_inv_def pot_ok_def)
  have cm: "pot_clear_marks (pot_cap pot) 0 ?b k = k ?c" for k :: "BofPot \<Rightarrow> BofPot outcome"
    using cap(1) by (simp add: clear_marks_eq [OF al])
  have "BofPot_storage new_T new_U8 pot = Ret ?e"
    using cm assms(1) ev
    by (auto simp: BofPot_storage_def Let_def pot_signal_ready pot_cap_def)
  moreover have "pot_inv ?e" "pot_out ?e = {}" "pot_mPotParam_X ?e = p"
    using dv par ev by (auto simp: pot_inv_def pot_sync_def)
  ultimately show ?thesis by auto
qed

lemma pot_ctor_ok:
  assumes "pop_PotCapacity_U32 p \<noteq> 0" "pop_MagicNumber_U32 p \<noteq> - 1" "pop_Blocking_B p \<longrightarrow> pop_MultiThreadAware_B p"
    "\<And>n. length (new_T n) = unat n" "\<And>n. length (new_U8 n) = unat n"
  shows "\<exists>pot. BofPot_ctor new_T new_U8 p = Ret pot \<and> pot_inv pot \<and> pot_out pot = {} \<and> pot_mPotParam_X pot = p \<and>
    BofPot_LastErrorCode pot = BOF_ERR_NO_ERROR \<and> (pop_Blocking_B p \<longrightarrow> event_signaled (pot_mCanGetEvent_X pot))"
proof -
  let ?f = "BofPot_fresh\<lparr>pot_mPotParam_X := p\<rparr>"
  have m0: "mtx_Magic_U32 BOF_MUTEX_ctor \<noteq> BOF_MUTEX_MAGIC" "mtx_Mtx BOF_MUTEX_ctor = Unowned" "mtx_RecursiveMtx BOF_MUTEX_ctor = Unowned"
    by (simp_all add: BOF_MUTEX_ctor_def BOF_MUTEX_Reset_def BOF_MUTEX_MAGIC_def)
  have e0: "evt_Magic_U32 BOF_EVENT_ctor \<noteq> BOF_EVENT_MAGIC" "mtx_Mtx (evt_Mtx_X BOF_EVENT_ctor) = Unowned"
    "mtx_RecursiveMtx (evt_Mtx_X BOF_EVENT_ctor) = Unowned"
    using m0 by (simp_all add: BOF_EVENT_ctor_def BOF_EVENT_Reset_def BOF_EVENT_MAGIC_def BOF_MUTEX_Reset_def)
  obtain e where e: "Bof_CreateEvent (''pot_canget_'' @ std_to_string (unat (pop_PotCapacity_U32 p)) @ ''_evt'') False 1 False False
      (pop_PriorityInversionAware_B p) BOF_EVENT_ctor = Ret (e, BOF_ERR_NO_ERROR)" "event_ready e"
    using Bof_CreateEvent_ready [OF e0] by metis
  obtain m where m: "Bof_CreateMutex ''BofPot'' False (pop_PriorityInversionAware_B p) BOF_MUTEX_ctor = Ret (m, BOF_ERR_NO_ERROR)" "mutex_ready m"
    using Bof_CreateMutex_ready [OF m0] by metis
  let ?e = "if pop_Blocking_B p then ?f\<lparr>pot_mCanGetEvent_X := e\<rparr> else ?f"
  let ?m = "if pop_MultiThreadAware_B p then ?e\<lparr>pot_mPotMtx_X := m\<rparr> else ?e"
  have eq: "BofPot_ctor new_T new_U8 p = BofPot_storage new_T new_U8 ?m"
    using assms(1,3) e(1) m(1) by (auto simp: BofPot_ctor_def BofPot_fresh_def Let_def)
  have "pot_mPotParam_X ?m = p" "pot_mNumberOfElementOutOfThePot_U32 ?m = 0" "pot_sync ?m"
    using e(2) m(2) by (auto simp: BofPot_fresh_def pot_sync_def)
  then show ?thesis unfolding eq BofPot_LastErrorCode_def
    using pot_storage_ok [of ?m p new_T new_U8] assms(1,2,4,5) by blast
qed


subsection \<open>The content of an element that is handed out\<close>

lemma pot_got_content:
  assumes "pot_inv pot" "i < pot_cap pot"
  shows "pel_Rest_U8 (pot_mpPotDataStorage_X (pot_got pot L i) ! i) =
      (if pop_GetOpPreserveContent_B (pot_mPotParam_X pot) then pel_Rest_U8 (pot_mpPotDataStorage_X pot ! i)
       else replicate (length (pel_Rest_U8 (pot_mpPotDataStorage_X pot ! i))) 0)"
    "j \<noteq> i \<Longrightarrow> pot_mpPotDataStorage_X (pot_got pot L i) ! j = pot_mpPotDataStorage_X pot ! j"
proof -
  have len: "i < length (pot_mpPotDataStorage_X pot)"
    using assms pot_shapeD(2) [of pot] by (simp add: pot_inv_def pot_ok_def)
  show "pel_Rest_U8 (pot_mpPotDataStorage_X (pot_got pot L i) ! i) =
      (if pop_GetOpPreserveContent_B (pot_mPotParam_X pot) then pel_Rest_U8 (pot_mpPotDataStorage_X pot ! i)
       else replicate (length (pel_Rest_U8 (pot_mpPotDataStorage_X pot ! i))) 0)"
    "j \<noteq> i \<Longrightarrow> pot_mpPotDataStorage_X (pot_got pot L i) ! j = pot_mpPotDataStorage_X pot ! j"
    using len by (simp_all add: pot_got_def pot_taken_def pot_mark_def pot_memset_at_def)
qed

subsection \<open>Interference\<close>

text \<open>The other threads keep the invariant and the parameters of the pot.\<close>

definition pot_env :: "(BofPot \<Rightarrow> BofPot) \<Rightarrow> bool" where
  "pot_env f \<longleftrightarrow> (\<forall>pot. pot_inv pot \<longrightarrow> pot_inv (f pot) \<and> pot_mPotParam_X (f pot) = pot_mPotParam_X pot)"

lemma pot_envD: "pot_env f \<Longrightarrow> pot_inv pot \<Longrightarrow> pot_inv (f pot) \<and> pot_mPotParam_X (f pot) = pot_mPotParam_X pot"
  by (simp add: pot_env_def)

definition pot_get_safe :: "BofPot \<Rightarrow> (BofPot \<times> pot_ptr) outcome \<Rightarrow> bool" where
  "pot_get_safe pot r \<longleftrightarrow> (case r of
     Ret (pot', p) \<Rightarrow> pot_inv pot' \<and> pot_mPotParam_X pot' = pot_mPotParam_X pot \<and>
       (case p of None \<Rightarrow> True | Some x \<Rightarrow> 0 \<le> x \<and> x < int (pot_cap pot))
   | Retrying \<Rightarrow> True | _ \<Rightarrow> False)"

lemma pot_inv_event:
  "pot_inv pot \<Longrightarrow> event_ready e \<Longrightarrow> pot_inv (pot\<lparr>pot_mCanGetEvent_X := e\<rparr>)"
  by (simp add: pot_inv_def pot_sync_event)

lemma pot_cap_param: "pot_mPotParam_X pot' = pot_mPotParam_X pot \<Longrightarrow> pot_cap pot' = pot_cap pot"
  by (simp add: pot_cap_def)

lemma pot_get_safe_param: "pot_mPotParam_X pot' = pot_mPotParam_X pot \<Longrightarrow> pot_get_safe pot' r = pot_get_safe pot r"
  by (auto simp: pot_get_safe_def pot_cap_def split: outcome.splits option.splits)

lemma pot_inv_ready: "pot_inv pot \<Longrightarrow> pot_Blocking pot \<Longrightarrow> event_ready (pot_mCanGetEvent_X pot)"
  by (simp add: pot_inv_def pot_sync_def)

lemma Get_finish_safe:
  assumes "pot_inv pot" "\<And>pot'. pot_inv pot' \<Longrightarrow> pot_mPotParam_X pot' = pot_mPotParam_X pot \<Longrightarrow> pot_get_safe pot (retry pot')"
    "case r of None \<Rightarrow> True | Some i \<Rightarrow> i < pot_cap pot"
  shows "pot_get_safe pot (BofPot_Get_finish retry t pot e r n)"
  using assms pot_inv_ready [OF assms(1)]
  by (auto simp: BofPot_Get_finish_def pot_get_safe_def pot_signal_ready pot_inv_event pot_ptr_of_def split: option.splits)

lemma Get_Lock_safe:
  "pot_inv pot \<Longrightarrow> \<forall>(d, b, a) \<in> set sched. pot_env d \<and> pot_env b \<and> pot_env a \<Longrightarrow>
   pot_get_safe pot (BofPot_Get_Lock sched pot L t)"
proof (induction sched arbitrary: pot)
  case Nil
  then show ?case by (simp add: pot_get_safe_def)
next
  case (Cons turn sched)
  obtain d b a where turn: "turn = (d, b, a)" by (cases turn)
  have env: "pot_env d" "pot_env b" "pot_env a" using Cons.prems(2) turn by auto
  have sect: "pot_get_safe pot (BofPot_Get_section (b p) L (\<lambda>q. BofPot_Get_finish (\<lambda>q. BofPot_Get_Lock sched q L t) t (a q)))"
    if p: "pot_inv p" "pot_mPotParam_X p = pot_mPotParam_X pot" for p
  proof -
    have bp: "pot_inv (b p)" "pot_mPotParam_X (b p) = pot_mPotParam_X pot" using pot_envD [OF env(2) p(1)] p(2) by simp_all
    have fin: "pot_get_safe pot (BofPot_Get_finish (\<lambda>q. BofPot_Get_Lock sched q L t) t (a q) e r n)"
      if q: "pot_inv q" "pot_mPotParam_X q = pot_mPotParam_X pot" "case r of None \<Rightarrow> True | Some i \<Rightarrow> i < pot_cap pot" for q e r n
    proof -
      have aq: "pot_inv (a q)" "pot_mPotParam_X (a q) = pot_mPotParam_X pot" using pot_envD [OF env(3) q(1)] q(2) by simp_all
      have "pot_get_safe (a q) (BofPot_Get_finish (\<lambda>q. BofPot_Get_Lock sched q L t) t (a q) e r n)"
      proof (rule Get_finish_safe [OF aq(1)])
        fix pot' assume "pot_inv pot'" "pot_mPotParam_X pot' = pot_mPotParam_X (a q)"
        then show "pot_get_safe (a q) (BofPot_Get_Lock sched pot' L t)"
          using Cons.IH [of pot'] Cons.prems(2) pot_get_safe_param [of pot' "a q"] by simp
      qed (use q(3) pot_cap_param [OF aq(2)] in \<open>auto split: option.splits\<close>)
      then show ?thesis using pot_get_safe_param [OF aq(2)] by simp
    qed
    show ?thesis
    proof (cases "pot_out (b p) = {..<pot_cap (b p)}")
      case True
      then show ?thesis using fin [OF bp, of None] by (simp add: Get_section_empty [OF bp(1)])
    next
      case False
      obtain i where i: "i < pot_cap (b p)" "i \<notin> pot_out (b p)"
        "\<And>k. BofPot_Get_section (b p) L k = k (pot_got (b p) L i) BOF_ERR_NO_ERROR (Some i) (pot_mNumberOfElementOutOfThePot_U32 (b p) + 1)"
        using Get_section_takes [OF bp(1) False, of L] by blast
      note g = pot_got_ok [OF bp(1) i(1,2), of L]
      show ?thesis unfolding i(3) using fin [OF g(1), of "Some i"] g(6) bp(2) i(1) pot_cap_param [OF bp(2)] by simp
    qed
  qed
  show ?case
  proof (cases "pot_Blocking pot \<and> t \<noteq> 0")
    case True
    have dp: "pot_inv (d pot)" "pot_mPotParam_X (d pot) = pot_mPotParam_X pot" using pot_envD [OF env(1) Cons.prems(1)] by simp_all
    have ready: "event_ready (pot_mCanGetEvent_X (d pot))" using pot_inv_ready [OF dp(1)] dp(2) True by simp
    show ?thesis
    proof (cases "event_signaled (pot_mCanGetEvent_X (d pot))")
      case sig: True
      show ?thesis
        using True ready sig sect [of "(d pot)\<lparr>pot_mCanGetEvent_X := event_clear (pot_mCanGetEvent_X (d pot))\<rparr>"] pot_inv_event [OF dp(1)] dp(2)
        by (simp add: turn Bof_WaitForEvent_ready)
    next
      case False
      then show ?thesis
        using True ready dp by (simp add: turn Bof_WaitForEvent_ready pot_get_safe_def)
    qed
  next
    case False
    then show ?thesis using sect [OF Cons.prems(1)] by (auto simp: turn)
  qed
qed


end
