(* ===== verification/Bof_Pot_Props.thy ===== *)
theory Bof_Pot_Props
  imports Bof_Pot_Proofs
begin

text \<open>The properties of the pot.\<close>

definition pot_get :: "BofPot \<Rightarrow> (BofPot \<times> nat option) outcome" where
  "pot_get pot = bindO (BofPot_Get [(id, id, id)] pot 0) (\<lambda>(pot, p). Ret (pot, map_option nat p))"

definition pot_release :: "nat \<Rightarrow> BofPot \<Rightarrow> (BofPot \<times> BOFERR) outcome" where
  "pot_release i pot = BofPot_Release id pot (Some (int i))"

interpretation potp: resource_pool pot_inv pot_out pot_cap pot_get pot_release BOF_ERR_NOT_AVAILABLE
proof
  fix pot i assume inv: "pot_inv pot"
  then have sh: "pot_shape pot" by (simp add: pot_inv_def pot_ok_def)
  note get = Get_no_wait [OF inv, of 0 False] and rel = Release_eq [OF inv, of "Some (int i)"]
  show "pot_out pot \<subseteq> {..<pot_cap pot}" by (rule pot_out_sub)
  show "pot_out pot \<noteq> {..<pot_cap pot} \<Longrightarrow> \<exists>s' i. pot_get pot = Ret (s', Some i) \<and> pot_inv s' \<and>
      pot_cap s' = pot_cap pot \<and> i < pot_cap pot \<and> i \<notin> pot_out pot \<and> pot_out s' = insert i (pot_out pot)"
    using get pot_got_ok(1-3) [OF inv] by (auto simp: pot_get_def BofPot_Get_def simp del: BofPot_Get_Lock.simps)
  show "pot_out pot = {..<pot_cap pot} \<Longrightarrow> \<exists>s'. pot_get pot = Ret (s', None) \<and> pot_inv s' \<and>
      pot_cap s' = pot_cap pot \<and> pot_out s' = pot_out pot"
    using get inv by (simp add: pot_get_def BofPot_Get_def del: BofPot_Get_Lock.simps)
  show "i \<in> pot_out pot \<Longrightarrow> \<exists>s'. pot_release i pot = Ret (s', BOF_ERR_NO_ERROR) \<and> pot_inv s' \<and>
      pot_cap s' = pot_cap pot \<and> pot_out s' = pot_out pot - {i}"
  proof -
    assume i: "i \<in> pot_out pot"
    then have "pot_ptr_ok pot (Some (int i))" using pot_ptr_ok_iff [OF sh] by (auto simp: pot_out_def)
    then show ?thesis using rel i pot_released_ok(1-3) [OF inv i] by (simp add: pot_release_def)
  qed
  show "i \<notin> pot_out pot \<Longrightarrow> \<exists>s'. pot_release i pot = Ret (s', BOF_ERR_NOT_AVAILABLE) \<and> pot_inv s' \<and>
      pot_cap s' = pot_cap pot \<and> pot_out s' = pot_out pot"
    using rel inv by (simp add: pot_release_def)
qed simp

section \<open>A concrete pot\<close>

definition pot_new_T :: "u32 \<Rightarrow> POT_ELEMENT list" where
  "pot_new_T n = replicate (unat n) \<lparr>pel_First_U32 = 0x11111111, pel_Rest_U8 = [1, 2]\<rparr>"

definition pot_new_U8 :: "u32 \<Rightarrow> u8 list" where
  "pot_new_U8 n = replicate (unat n) 0x55"

definition pot_example_param :: BOF_POT_PARAM where
  "pot_example_param = \<lparr>pop_MagicNumber_U32 = 0, pop_MultiThreadAware_B = True, pop_PriorityInversionAware_B = False,
     pop_GetOpPreserveContent_B = False, pop_PotCapacity_U32 = 2, pop_Blocking_B = True\<rparr>"

definition pot_example :: BofPot where
  "pot_example = \<lparr>pot_mPotParam_X = pot_example_param,
     pot_mPotMtx_X = BOF_MUTEX_ctor\<lparr>mtx_Magic_U32 := BOF_MUTEX_MAGIC\<rparr>,
     pot_mpPotDataStorage_X = pot_new_T 2, pot_mpFirstPotElementToTryForGet_X = 1,
     pot_mNumberOfElementOutOfThePot_U32 = 1, pot_mpInUseElementList_U8 = [0xFF, 0], pot_mLevelMax_U32 = 1,
     pot_mErrorCode_E = BOF_ERR_NO_ERROR,
     pot_mCanGetEvent_X = BOF_EVENT_ctor\<lparr>evt_Magic_U32 := BOF_EVENT_MAGIC, evt_MaxNumberToNotify_U32 := 1\<rparr>\<rparr>"

lemma pot_example_views:
  "pot_cap pot_example = 2" "pot_out pot_example = {0}" "pot_shown pot_example = [0]" "pot_inv pot_example"
proof -
  show cap: "pot_cap pot_example = 2" by (simp add: pot_cap_def pot_example_def pot_example_param_def)
  show out: "pot_out pot_example = {0}"
    by (auto simp: pot_out_def cap) (auto simp: pot_used_def pot_example_def pot_example_param_def less_2_cases_iff)
  show "pot_shown pot_example = [0]"
    by (simp add: pot_shown_def cap upt_conv_Cons) (simp add: pot_visible_def pot_example_def pot_example_param_def)
  show "pot_inv pot_example"
    by (simp add: pot_inv_def pot_ok_def pot_shape_def cap out)
       (simp add: pot_example_def pot_example_param_def pot_new_T_def pot_sync_def mutex_ready_def event_ready_def
         BOF_MUTEX_ctor_def BOF_MUTEX_Reset_def BOF_EVENT_ctor_def BOF_EVENT_Reset_def)
qed

section \<open>Properties\<close>

text \<open>
  C25. A new pot with a capacity other than 0 and a magic number other than
  \<^verbatim>\<open>0xFFFFFFFF\<close> (0 stands for a pot that keeps its marks beside the elements),
  multi-thread aware when it blocks, is constructed without error. Any
  sequence of gets that do not wait and of releases by one thread then runs to its end, and an
  element is handed out only while it is in the pot: no element is given to
  two owners, a get fails only when every element is out, a release succeeds
  only for an element that is out. With the excluded magic number the mark of a locked
  element is that of a free one, and no get finds an element.
\<close>

theorem BofPot_refines_pool:
  assumes "pop_PotCapacity_U32 p \<noteq> 0" "pop_MagicNumber_U32 p \<noteq> - 1" "pop_Blocking_B p \<longrightarrow> pop_MultiThreadAware_B p"
    "\<And>n. length (new_T n) = unat n" "\<And>n. length (new_U8 n) = unat n"
  shows "\<exists>pot pot' os. BofPot_ctor new_T new_U8 p = Ret pot \<and> BofPot_LastErrorCode pot = BOF_ERR_NO_ERROR \<and>
    pool_run pot_get pot_release ops pot = Ret (pot', os) \<and> pot_inv pot' \<and>
    pool_allows (unat (pop_PotCapacity_U32 p)) {} ops os"
proof -
  obtain pot where pot: "BofPot_ctor new_T new_U8 p = Ret pot" "pot_inv pot" "pot_out pot = {}" "pot_mPotParam_X pot = p"
    "BofPot_LastErrorCode pot = BOF_ERR_NO_ERROR" using pot_ctor_ok [OF assms] by blast
  have cap: "pot_cap pot = unat (pop_PotCapacity_U32 p)" using pot(4) by (simp add: pot_cap_def)
  show ?thesis using potp.run_allowed [OF pot(2), of ops] pot cap by auto
qed

theorem BofPot_refines_pool_witness:
  "\<exists>pot pot' os. BofPot_ctor pot_new_T pot_new_U8 pot_example_param = Ret pot \<and>
    BofPot_LastErrorCode pot = BOF_ERR_NO_ERROR \<and>
    pool_run pot_get pot_release [PoolGet, PoolGet, PoolGet, PoolRelease 1] pot = Ret (pot', os) \<and> pot_inv pot' \<and>
    pool_allows 2 {} [PoolGet, PoolGet, PoolGet, PoolRelease 1] os"
  using BofPot_refines_pool [of pot_example_param pot_new_T pot_new_U8 "[PoolGet, PoolGet, PoolGet, PoolRelease 1]"]
  by (simp add: pot_example_param_def pot_new_T_def pot_new_U8_def)

text \<open>
  A get that does not wait, on a pot with an element in it, hands out a
  free element, which the enumerations show unless it was asked for locked; its
  bytes after the first word are zero unless the pot preserves them; no other
  element changes, and the maximum level covers the new number of elements out.
\<close>

theorem BofPot_Get_correct:
  assumes "pot_inv pot" "pot_out pot \<noteq> {..<pot_cap pot}"
  shows "\<exists>pot' i. BofPot_Get_Lock [(id, id, id)] pot L 0 = Ret (pot', Some (int i)) \<and> pot_inv pot' \<and>
    i < pot_cap pot \<and> i \<notin> pot_out pot \<and> pot_out pot' = insert i (pot_out pot) \<and>
    pot_visible pot' i = (\<not> L) \<and> pot_locked pot' i = L \<and>
    pel_Rest_U8 (pot_mpPotDataStorage_X pot' ! i) =
      (if pop_GetOpPreserveContent_B (pot_mPotParam_X pot) then pel_Rest_U8 (pot_mpPotDataStorage_X pot ! i)
       else replicate (length (pel_Rest_U8 (pot_mpPotDataStorage_X pot ! i))) 0) \<and>
    (\<forall>j. j \<noteq> i \<longrightarrow> pot_mpPotDataStorage_X pot' ! j = pot_mpPotDataStorage_X pot ! j) \<and>
    pot_mNumberOfElementOutOfThePot_U32 pot + 1 \<le> BofPot_GetMaxLevel pot'"
proof -
  obtain i where i: "i < pot_cap pot" "i \<notin> pot_out pot"
    "BofPot_Get_Lock [(id, id, id)] pot L 0 = Ret (pot_signal_room (pot_got pot L i), Some (int i))"
    using Get_no_wait [OF assms(1), of 0 L] assms(2) by auto
  note g = pot_got_ok [OF assms(1) i(1,2), of L] and c = pot_got_content [OF assms(1) i(1), where L = L]
  have "pot_mLevelMax_U32 (pot_signal_room (pot_got pot L i)) =
      max (pot_mLevelMax_U32 pot) (pot_mNumberOfElementOutOfThePot_U32 pot + 1)"
    by (simp add: pot_signal_room_def pot_got_def pot_taken_def pot_free_mutex_def pot_hold_def)
  then have lv: "pot_mNumberOfElementOutOfThePot_U32 pot + 1 \<le> BofPot_GetMaxLevel (pot_signal_room (pot_got pot L i))"
    by (simp add: BofPot_GetMaxLevel_def)
  show ?thesis
    by (rule exI [of _ "pot_signal_room (pot_got pot L i)"], rule exI [of _ i]) (use i g c lv in simp)
qed

theorem BofPot_Get_correct_witness:
  "\<exists>pot' i. BofPot_Get_Lock [(id, id, id)] pot_example True 0 = Ret (pot', Some (int i)) \<and> i = 1 \<and> pot_locked pot' i \<and>
    pel_Rest_U8 (pot_mpPotDataStorage_X pot' ! i) = [0, 0]"
proof -
  have "1 \<in> {..<pot_cap pot_example}" "1 \<notin> pot_out pot_example" by (simp_all add: pot_example_views(1,2))
  then have "pot_out pot_example \<noteq> {..<pot_cap pot_example}" by metis
  from BofPot_Get_correct [OF pot_example_views(4) this, of True]
  obtain pot' i where r: "BofPot_Get_Lock [(id, id, id)] pot_example True 0 = Ret (pot', Some (int i))" "i < pot_cap pot_example"
    "i \<notin> pot_out pot_example" "pot_locked pot' i"
    "pel_Rest_U8 (pot_mpPotDataStorage_X pot' ! i) =
      (if pop_GetOpPreserveContent_B (pot_mPotParam_X pot_example) then pel_Rest_U8 (pot_mpPotDataStorage_X pot_example ! i)
       else replicate (length (pel_Rest_U8 (pot_mpPotDataStorage_X pot_example ! i))) 0)" by auto
  have "i = 1" using r(2,3) by (simp add: pot_example_views(1,2))
  moreover have "pel_Rest_U8 (pot_mpPotDataStorage_X pot_example ! 1) = [1, 2]"
    "\<not> pop_GetOpPreserveContent_B (pot_mPotParam_X pot_example)"
    by (simp_all add: pot_example_def pot_example_param_def pot_new_T_def)
  ultimately have "pel_Rest_U8 (pot_mpPotDataStorage_X pot' ! i) = [0, 0]" using r(5) by simp
  then show ?thesis using \<open>i = 1\<close> r(1,4) by blast
qed

text \<open>
  The enumeration shows exactly the elements that are out and not locked,
  in the order of the storage: \<^verbatim>\<open>GetFirstUsed\<close> returns the one at the given rank,
  \<^verbatim>\<open>GetNextUsed\<close> the one after its argument, the null pointer past the last. To
  unlock a locked element shows it; to unlock any other is refused.
\<close>

theorem BofPot_enumerates_visible:
  assumes "pot_inv pot"
  shows "set (pot_shown pot) = {i \<in> pot_out pot. \<not> pot_locked pot i} \<and> sorted (pot_shown pot) \<and>
    BofPot_GetFirstUsed pot skip =
      Ret (pot, if unat skip < length (pot_shown pot) then Some (int (pot_shown pot ! unat skip)) else None) \<and>
    (\<forall>k < length (pot_shown pot). BofPot_GetNextUsed pot (Some (int (pot_shown pot ! k))) =
      Ret (pot, if Suc k < length (pot_shown pot) then Some (int (pot_shown pot ! Suc k)) else None)) \<and>
    (\<forall>i \<in> pot_out pot. \<exists>pot'. BofPot_Unlock pot (Some (int i)) =
       Ret (pot', if pot_locked pot i then BOF_ERR_NO_ERROR else BOF_ERR_UNLOCK) \<and> pot_visible pot' i \<and>
       (\<forall>j. j \<noteq> i \<longrightarrow> pot_visible pot' j = pot_visible pot j))"
proof -
  have sh: "pot_shape pot" using assms by (simp add: pot_inv_def pot_ok_def)
  have vis: "pot_visible pot i \<longleftrightarrow> pot_used pot i \<and> \<not> pot_locked pot i" if "i < pot_cap pot" for i
    using pot_visible_or_locked [OF sh that] by blast
  have "\<exists>pot'. BofPot_Unlock pot (Some (int i)) =
       Ret (pot', if pot_locked pot i then BOF_ERR_NO_ERROR else BOF_ERR_UNLOCK) \<and> pot_visible pot' i \<and>
       (\<forall>j. j \<noteq> i \<longrightarrow> pot_visible pot' j = pot_visible pot j)" if "i \<in> pot_out pot" for i
  proof -
    have i: "i < pot_cap pot" "pot_used pot i" using that by (auto simp: pot_out_def)
    then have "pot_ptr_ok pot (Some (int i))" using pot_ptr_ok_iff [OF sh] by auto
    moreover have "pot_visible (pot_mark pot i (pot_Magic pot) 0xFF) j = (j = i \<or> pot_visible pot j)" for j
      using pot_mark_used(2) [OF sh i(1), of "pot_Magic pot" "0xFF" j] by (simp add: pot_mark_ok_def)
    ultimately show ?thesis using Unlock_eq [OF assms, of "Some (int i)"] vis [OF i(1)] i(2) by auto
  qed
  moreover have "set (pot_shown pot) = {i \<in> pot_out pot. \<not> pot_locked pot i}"
    using vis by (auto simp: pot_shown_def pot_out_def)
  moreover have "sorted (pot_shown pot)" by (simp add: pot_shown_def sorted_wrt_filter)
  ultimately show ?thesis using GetFirstUsed_eq [OF assms] GetNextUsed_shown [OF assms] by blast
qed

theorem BofPot_enumerates_visible_witness:
  "BofPot_GetFirstUsed pot_example 0 = Ret (pot_example, Some 0) \<and>
   BofPot_GetNextUsed pot_example (Some 0) = Ret (pot_example, None)"
  using BofPot_enumerates_visible [OF pot_example_views(4), of 0] pot_example_views(3) by simp

text \<open>
  Under any interference of the other threads that keeps the invariant of
  the pot, a get with or without timeout never deadlocks, never reads or writes
  outside the storage, keeps the invariant and returns the null pointer or the
  address of an element.
\<close>

theorem BofPot_Get_safe:
  assumes "pot_inv pot" "\<forall>(during, before, after) \<in> set sched. pot_env during \<and> pot_env before \<and> pot_env after"
  shows "pot_get_safe pot (BofPot_Get sched pot t) \<and> pot_get_safe pot (BofPot_Lock sched pot t)"
  using Get_Lock_safe [OF assms, of False t] Get_Lock_safe [OF assms, of True t] assms(1)
  by (simp add: BofPot_Get_def BofPot_Lock_def) (simp add: pot_get_safe_def)

theorem BofPot_Get_safe_witness:
  "pot_get_safe pot_example (BofPot_Get [(id, id, id)] pot_example 0) \<and>
   pot_get_safe pot_example (BofPot_Lock [(id, id, id)] pot_example 0)"
  using BofPot_Get_safe [OF pot_example_views(4), of "[(id, id, id)]" 0] by (simp add: pot_env_def)

text \<open>
  \<^verbatim>\<open>ClearPot\<close> puts back every element but the first ones, which it keeps as
  they are, and signals that there is room. \<^verbatim>\<open>Reset\<close> puts back every element but
  leaves the event as it is: when the pot was exhausted, a waiting get on the
  pot it just filled times out.
\<close>

theorem BofPot_Clear_and_Reset:
  assumes "pot_inv pot" "unat keep < pot_cap pot" "t \<noteq> 0"
  shows "(\<exists>pot'. BofPot_ClearPot pot keep = Ret (pot', BOF_ERR_NO_ERROR) \<and> pot_inv pot' \<and>
      pot_out pot' = pot_out pot \<inter> {..<unat keep} \<and> (\<forall>j < unat keep. pot_visible pot' j = pot_visible pot j) \<and>
      (pot_Blocking pot' \<longrightarrow> event_signaled (pot_mCanGetEvent_X pot'))) \<and>
    (\<exists>pot'. BofPot_Reset pot = Ret pot' \<and> pot_inv pot' \<and> pot_out pot' = {} \<and>
      (pot_Blocking pot \<and> \<not> event_signaled (pot_mCanGetEvent_X pot) \<longrightarrow>
        BofPot_Get [(id, id, id)] pot' t = Ret (pot', None)))"
proof -
  obtain pot' where r: "BofPot_Reset pot = Ret pot'" "pot_inv pot'" "pot_out pot' = {}"
    "pot_mPotParam_X pot' = pot_mPotParam_X pot" "pot_mCanGetEvent_X pot' = pot_mCanGetEvent_X pot"
    using pot_Reset_eq [OF assms(1)] by blast
  have "BofPot_Get [(id, id, id)] pot' t = Ret (pot', None)"
    if "pot_Blocking pot \<and> \<not> event_signaled (pot_mCanGetEvent_X pot)"
    using that r(2,4,5) pot_inv_ready [OF r(2)] assms(3) by (cases pot') (simp add: BofPot_Get_def Bof_WaitForEvent_ready)
  then show ?thesis using r ClearPot_eq [OF assms(1,2)] by auto
qed

theorem BofPot_Clear_and_Reset_witness:
  "\<exists>pot'. BofPot_Reset pot_example = Ret pot' \<and> pot_out pot' = {} \<and> BofPot_Get [(id, id, id)] pot' 10 = Ret (pot', None)"
proof -
  have b: "pot_Blocking pot_example" "\<not> event_signaled (pot_mCanGetEvent_X pot_example)"
    by (simp_all add: pot_example_def pot_example_param_def event_signaled_def BOF_EVENT_ctor_def BOF_EVENT_Reset_def)
  have "unat (1::u32) < pot_cap pot_example" "(10::u32) \<noteq> 0" using pot_example_views(1) by simp_all
  from BofPot_Clear_and_Reset [OF pot_example_views(4) this] show ?thesis using b by auto
qed

end
