(* ===== verification/Bof_Bit.thy ===== *)
theory Bof_Bit
  imports Bof_Prelude
begin

text \<open>
  The bit functions of \<^verbatim>\<open>bofbit.cpp\<close>: position of the highest and of the lowest
  bit set, number of bits set, powers of two, multiples, and printing in binary.
\<close>

unbundle bit_operations_syntax

section \<open>The functions\<close>

definition LT :: "u8 \<Rightarrow> u8 list" where
  "LT n = replicate 16 n"

definition S_pLogTable256_U8 :: "u8 list" where
  "S_pLogTable256_U8 = [0xFF, 0, 1, 1, 2, 2, 2, 2, 3, 3, 3, 3, 3, 3, 3, 3] @ LT 4 @ LT 5 @ LT 5 @ LT 6 @ LT 6 @ LT 6 @ LT 6 @
     LT 7 @ LT 7 @ LT 7 @ LT 7 @ LT 7 @ LT 7 @ LT 7 @ LT 7"

definition log_table :: "u8 \<Rightarrow> u32 \<Rightarrow> u8 outcome" where
  "log_table base i = rd S_pLogTable256_U8 i (\<lambda>l. Ret (base + l))"

definition Bof_MostSignificantBitSetPosition :: "u64 \<Rightarrow> u8 outcome" where
  "Bof_MostSignificantBitSetPosition Val_U64 =
     (if Val_U64 = 0 then Ret 0xFF
      else if Val_U64 = 1 then Ret 0
      else
        let Val_U32 = ucast (drop_bit 32 Val_U64) :: u32 in
        if Val_U32 \<noteq> 0 then
          let Temp2_U32 = drop_bit 16 Val_U32 in
          if Temp2_U32 \<noteq> 0 then
            let Temp1_U32 = drop_bit 8 Temp2_U32
            in if Temp1_U32 \<noteq> 0 then log_table 56 Temp1_U32 else log_table 48 Temp2_U32
          else
            let Temp1_U32 = drop_bit 8 Val_U32
            in if Temp1_U32 \<noteq> 0 then log_table 40 Temp1_U32 else log_table 32 Val_U32
        else
          let Val_U32 = ucast Val_U64 :: u32; Temp2_U32 = drop_bit 16 Val_U32 in
          if Temp2_U32 \<noteq> 0 then
            let Temp1_U32 = drop_bit 8 Temp2_U32
            in if Temp1_U32 \<noteq> 0 then log_table 24 Temp1_U32 else log_table 16 Temp2_U32
          else
            let Temp1_U32 = drop_bit 8 Val_U32
            in if Temp1_U32 \<noteq> 0 then log_table 8 Temp1_U32 else log_table 0 Val_U32)"

definition Bof_LessSignificantBitSetPosition :: "u64 \<Rightarrow> u8 outcome" where
  "Bof_LessSignificantBitSetPosition Val_U64 = Bof_MostSignificantBitSetPosition (Val_U64 AND NOT (Val_U64 - 1))"

definition Bof_Log2 :: "u64 \<Rightarrow> u8 outcome" where
  "Bof_Log2 Val_U64 = Bof_MostSignificantBitSetPosition Val_U64"

lemma and_pred_less:
  assumes "v \<noteq> 0"
  shows "unat (v AND (v - 1)) < unat (v :: u64)"
proof -
  have "v AND (v - 1) \<le> v - 1" by (rule word_and_le1)
  moreover have "v - 1 < v" using assms unat_gt_0 [of v] by (simp add: word_less_nat_alt)
  ultimately show ?thesis by (simp add: word_less_nat_alt word_le_nat_alt)
qed

function number_of_bit_loop :: "u8 \<Rightarrow> u64 \<Rightarrow> u8" where
  "number_of_bit_loop Rts_U8 Val_U64 =
     (if Val_U64 \<noteq> 0 then number_of_bit_loop (Rts_U8 + 1) (Val_U64 AND (Val_U64 - 1)) else Rts_U8)"
  by auto
termination by (relation "measure (\<lambda>(_, v). unat v)") (simp_all add: and_pred_less)

declare number_of_bit_loop.simps [simp del]

definition Bof_FindNumberOfBitSet :: "u64 \<Rightarrow> u8" where
  "Bof_FindNumberOfBitSet Val_U64 = number_of_bit_loop 0 Val_U64"

definition Bof_IsAPowerOf2 :: "u64 \<Rightarrow> bool" where
  "Bof_IsAPowerOf2 Val_U64 \<longleftrightarrow> Val_U64 \<noteq> 0 \<and> Val_U64 AND (Val_U64 - 1) = 0"

function one_bit_left :: "u64 \<Rightarrow> u64" where
  "one_bit_left Val_U64 =
     (if Val_U64 AND (Val_U64 - 1) \<noteq> 0 then one_bit_left (Val_U64 AND (Val_U64 - 1)) else Val_U64)"
  by auto
termination
proof (relation "measure unat")
  fix v :: u64
  assume "v AND (v - 1) \<noteq> 0"
  then have "v \<noteq> 0" by auto
  then show "(v AND (v - 1), v) \<in> measure unat" by (simp add: and_pred_less)
qed simp

declare one_bit_left.simps [simp del]

definition Bof_NextHighestPowerOf2 :: "u64 \<Rightarrow> u64" where
  "Bof_NextHighestPowerOf2 Val_U64 = push_bit 1 (one_bit_left (Val_U64 - 1))"

text \<open>A division by zero is undefined.\<close>

definition Bof_RoundUpOnMultipleOf :: "u64 \<Rightarrow> u64 \<Rightarrow> u64 outcome" where
  "Bof_RoundUpOnMultipleOf Val_U64 Multiple_U64 =
     (if Multiple_U64 = 0 then Undefined
      else
        let Remain_U64 = Val_U64 mod Multiple_U64
        in Ret (if Remain_U64 \<noteq> 0 then Val_U64 + (Multiple_U64 - Remain_U64) else Val_U64))"

definition Bof_IsAligned :: "u64 \<Rightarrow> u64 \<Rightarrow> bool" where
  "Bof_IsAligned Align_U64 Val_U64 = (if Align_U64 = 0 then True else Val_U64 mod Align_U64 = 0)"

text \<open>The loop of \<^verbatim>\<open>Bof_BitToString\<close> over the characters of \<^verbatim>\<open>pToString_c\<close>; it runs 32 times.\<close>

fun bit_to_string_loop :: "nat \<Rightarrow> u32 \<Rightarrow> u32 \<Rightarrow> u32 \<Rightarrow> nat \<Rightarrow> char list \<Rightarrow> (nat \<times> char list) outcome" where
  "bit_to_string_loop 0 Value_U32 Every_U32 Cpt_U32 Index_U32 s = Ret (Index_U32, s)"
| "bit_to_string_loop (Suc n) Value_U32 Every_U32 Cpt_U32 Index_U32 s =
     wrn s Index_U32 (if Value_U32 AND 0x80000000 \<noteq> 0 then CHR ''1'' else CHR ''0'') (\<lambda>s.
       if Cpt_U32 + 1 \<ge> Every_U32
       then wrn s (Suc Index_U32) (CHR '' '') (\<lambda>s.
              bit_to_string_loop n (push_bit 1 Value_U32) Every_U32 0 (Suc (Suc Index_U32)) s)
       else bit_to_string_loop n (push_bit 1 Value_U32) Every_U32 (Cpt_U32 + 1) (Suc Index_U32) s)"

text \<open>The 128 characters of \<^verbatim>\<open>pToString_c\<close> are not initialised; the string is what stands before the first 0.\<close>

definition Bof_BitToString :: "char list \<Rightarrow> u32 \<Rightarrow> u32 \<Rightarrow> string outcome" where
  "Bof_BitToString pToString_c Value_U32 InsertASpaceEvery_U32 =
     bindO (bit_to_string_loop 32 Value_U32 InsertASpaceEvery_U32 0 0 pToString_c)
       (\<lambda>(i, s). wrn s i (CHR 0x00) (\<lambda>s. Ret (takeWhile (\<lambda>c. c \<noteq> CHR 0x00) s)))"

end
