(* ===== verification/Bof_Buffer.thy ===== *)
theory Bof_Buffer
  imports Bof_Sync Bof_Bit
begin

text \<open>
  \<^verbatim>\<open>BOF_BUFFER\<close> of \<^verbatim>\<open>bofbuffer.h\<close>: a window on a block of bytes with a write position
  (\<^verbatim>\<open>Size_U64\<close>), a read position (\<^verbatim>\<open>Offset_U64\<close>), and a note on how the block is to be
  given back. Copies share the block, so the blocks live in an explicit heap:
  a pointer is the number of a block, and using a block that was given back
  is \<open>Undefined\<close>. The allocation headers behind \<^verbatim>\<open>pUser\<close> live in the heap too.
  The results of the lock and unlock calls are not looked at, as in the code.
\<close>

section \<open>The heap\<close>

datatype BOF_BUFFER_ALLOCATE_ZONE = BOF_BUFFER_ALLOCATE_ZONE_RAM | BOF_BUFFER_ALLOCATE_ZONE_HUGE_PAGE

record BOF_BUFFER_ALLOCATE_HEADER =
  hdr_AllocateZone_E :: BOF_BUFFER_ALLOCATE_ZONE
  hdr_Io_i :: int
  hdr_Locked_B :: bool
  hdr_pHugePath_c :: string

definition BOF_BUFFER_ALLOCATE_HEADER_Reset :: BOF_BUFFER_ALLOCATE_HEADER where
  "BOF_BUFFER_ALLOCATE_HEADER_Reset = \<lparr>hdr_AllocateZone_E = BOF_BUFFER_ALLOCATE_ZONE_RAM, hdr_Io_i = - 1,
     hdr_Locked_B = False, hdr_pHugePath_c = ''''\<rparr>"

record buf_heap =
  bh_blocks :: "nat \<rightharpoonup> u8 list"
  bh_headers :: "nat \<rightharpoonup> BOF_BUFFER_ALLOCATE_HEADER"

text \<open>
  What the code takes from outside. The allocators get the heap and answer with
  a place and its bytes: \<^verbatim>\<open>new uint8_t[n]\<close> (which throws rather than return null),
  \<^verbatim>\<open>aligned_alloc\<close> (alignment, size) and \<^verbatim>\<open>mmap\<close> (size, file), which may fail, and the
  place of a new allocation header. \<open>os_munmap\<close> says what unmapping a number of
  bytes leaves of a block. The other calls of the operating system give their
  integer results.
\<close>

record buf_os =
  os_new :: "buf_heap \<Rightarrow> nat \<Rightarrow> nat \<times> u8 list"
  os_new_header :: "buf_heap \<Rightarrow> nat"
  os_aligned_alloc :: "buf_heap \<Rightarrow> u32 \<Rightarrow> u32 \<Rightarrow> (nat \<times> u8 list) option"
  os_open :: "string \<Rightarrow> int"
  os_mmap :: "buf_heap \<Rightarrow> u32 \<Rightarrow> int \<Rightarrow> (nat \<times> u8 list) option"
  os_munmap :: "u64 \<Rightarrow> u8 list \<Rightarrow> u8 list option"
  os_madvise :: "nat option \<Rightarrow> u64 \<Rightarrow> int \<Rightarrow> int"
  os_mlock :: "nat option \<Rightarrow> u64 \<Rightarrow> int"
  os_munlock :: "nat option \<Rightarrow> u64 \<Rightarrow> int"

text \<open>Locking pages in memory; after an advice the code calls \<^verbatim>\<open>mlock\<close> twice.\<close>

definition Bof_LockMem :: "buf_os \<Rightarrow> int \<Rightarrow> u64 \<Rightarrow> nat option \<Rightarrow> BOFERR" where
  "Bof_LockMem os OsAdvice_i SizeInByte_U64 pData =
     (let lock = (if os_mlock os pData SizeInByte_U64 = 0 then BOF_ERR_NO_ERROR else BOF_ERR_LOCK);
          Rts_E = (if OsAdvice_i \<noteq> 0
                   then if os_madvise os pData SizeInByte_U64 OsAdvice_i = 0 then lock else BOF_ERR_SET
                   else BOF_ERR_NO_ERROR)
      in if Rts_E = BOF_ERR_NO_ERROR then lock else Rts_E)"

definition Bof_UnlockMem :: "buf_os \<Rightarrow> u64 \<Rightarrow> nat option \<Rightarrow> BOFERR" where
  "Bof_UnlockMem os SizeInByte_U64 pData =
     (if os_munlock os pData SizeInByte_U64 = 0 then BOF_ERR_NO_ERROR else BOF_ERR_LOCK)"

definition heap_free :: "buf_heap \<Rightarrow> nat option \<Rightarrow> (buf_heap \<Rightarrow> 'b outcome) \<Rightarrow> 'b outcome" where
  "heap_free h p k =
     (case p of
        None \<Rightarrow> k h
      | Some a \<Rightarrow> if bh_blocks h a = None then Undefined else k (h\<lparr>bh_blocks := (bh_blocks h)(a := None)\<rparr>))"

definition heap_unmap :: "buf_os \<Rightarrow> u64 \<Rightarrow> buf_heap \<Rightarrow> nat option \<Rightarrow> (buf_heap \<Rightarrow> 'b outcome) \<Rightarrow> 'b outcome" where
  "heap_unmap os n h p k =
     (case p of
        None \<Rightarrow> k h
      | Some a \<Rightarrow>
          (case bh_blocks h a of
             None \<Rightarrow> Undefined
           | Some blk \<Rightarrow> k (h\<lparr>bh_blocks := (bh_blocks h)(a := os_munmap os n blk)\<rparr>)))"

text \<open>\<^verbatim>\<open>memcpy (&p[i], src, n)\<close> and \<^verbatim>\<open>memset (&p[i], v, n)\<close>.\<close>

definition heap_store :: "buf_heap \<Rightarrow> nat option \<Rightarrow> nat \<Rightarrow> u8 list \<Rightarrow> (buf_heap \<Rightarrow> 'b outcome) \<Rightarrow> 'b outcome" where
  "heap_store h p i bytes k =
     (case p of
        None \<Rightarrow> Undefined
      | Some a \<Rightarrow>
          (case bh_blocks h a of
             None \<Rightarrow> Undefined
           | Some blk \<Rightarrow>
               if i + length bytes \<le> length blk
               then k (h\<lparr>bh_blocks := (bh_blocks h)(a \<mapsto> take i blk @ bytes @ drop (i + length bytes) blk)\<rparr>)
               else Undefined))"

section \<open>The buffer\<close>

datatype BOF_BUFFER_DELETER =
    BOF_BUFFER_DELETER_NONE
  | BOF_BUFFER_DELETER_FREE
  | BOF_BUFFER_DELETER_ALIGNED_FREE
  | BOF_BUFFER_DELETER_DELETE

record BOF_BUFFER =
  buf_Deleter_E :: BOF_BUFFER_DELETER
  buf_Offset_U64 :: u64
  buf_Size_U64 :: u64
  buf_Capacity_U64 :: u64
  buf_pUser :: "nat option"
  buf_pData_U8 :: "nat option"
  buf_MultiThreadAware_B :: bool
  buf_Mtx_X :: BOF_MUTEX

definition BOF_BUFFER_ctor :: "bool \<Rightarrow> bool \<Rightarrow> BOF_BUFFER outcome" where
  "BOF_BUFFER_ctor MultiThreadAware_B PriorityInversionAware_B =
     (let b = \<lparr>buf_Deleter_E = BOF_BUFFER_DELETER_NONE, buf_Offset_U64 = 0, buf_Size_U64 = 0, buf_Capacity_U64 = 0,
               buf_pUser = None, buf_pData_U8 = None, buf_MultiThreadAware_B = MultiThreadAware_B,
               buf_Mtx_X = BOF_MUTEX_ctor\<rparr>
      in if MultiThreadAware_B
         then bindO (Bof_CreateMutex ''BOF_BUFFER'' False PriorityInversionAware_B (buf_Mtx_X b))
                (\<lambda>(m, Sts). Ret (b\<lparr>buf_Mtx_X := m\<rparr>))
         else Ret b)"

definition buf_lock :: "BOF_BUFFER \<Rightarrow> (BOF_BUFFER \<Rightarrow> 'b outcome) \<Rightarrow> 'b outcome" where
  "buf_lock b k = (if buf_MultiThreadAware_B b
     then bindO (Bof_LockMutex (buf_Mtx_X b)) (\<lambda>(m, Sts). k (b\<lparr>buf_Mtx_X := m\<rparr>)) else k b)"

definition buf_unlock :: "BOF_BUFFER \<Rightarrow> (BOF_BUFFER \<Rightarrow> 'b outcome) \<Rightarrow> 'b outcome" where
  "buf_unlock b k = (if buf_MultiThreadAware_B b
     then bindO (Bof_UnlockMutex (buf_Mtx_X b)) (\<lambda>(m, Sts). k (b\<lparr>buf_Mtx_X := m\<rparr>)) else k b)"

text \<open>The assignment operators, by copy and by move, share the block and own nothing.\<close>

definition BOF_BUFFER_assign :: "BOF_BUFFER \<Rightarrow> BOF_BUFFER \<Rightarrow> BOF_BUFFER outcome" where
  "BOF_BUFFER_assign b other =
     buf_lock b (\<lambda>b.
       buf_unlock (b\<lparr>buf_Deleter_E := BOF_BUFFER_DELETER_NONE, buf_pUser := buf_pUser other,
                     buf_Offset_U64 := buf_Offset_U64 other, buf_Size_U64 := buf_Size_U64 other,
                     buf_Capacity_U64 := buf_Capacity_U64 other, buf_pData_U8 := buf_pData_U8 other\<rparr>) Ret)"

section \<open>Giving the block back\<close>

text \<open>
  \<^verbatim>\<open>ReleaseStorage\<close>, \<^verbatim>\<open>Bof_AlignedMemFree\<close> and \<^verbatim>\<open>Reset\<close> call each other. The depth of
  the calls is bounded: \<^verbatim>\<open>Bof_AlignedMemFree\<close> clears the deleter before it calls
  \<^verbatim>\<open>Reset\<close>, so that a depth of 2 is enough.
\<close>

type_synonym buf_op = "buf_heap \<Rightarrow> BOF_BUFFER \<Rightarrow> (buf_heap \<times> BOF_BUFFER) outcome"

definition BOF_BUFFER_Reset_with :: "buf_op \<Rightarrow> buf_op" where
  "BOF_BUFFER_Reset_with release h b =
     bindO (release h b) (\<lambda>(h, b).
       buf_lock b (\<lambda>b.
         buf_unlock (b\<lparr>buf_Deleter_E := BOF_BUFFER_DELETER_NONE, buf_pUser := None, buf_Offset_U64 := 0,
                       buf_Size_U64 := 0, buf_Capacity_U64 := 0, buf_pData_U8 := None\<rparr>) (\<lambda>b. Ret (h, b))))"

definition Bof_AlignedMemFree_with ::
  "buf_os \<Rightarrow> buf_op \<Rightarrow> buf_heap \<Rightarrow> BOF_BUFFER \<Rightarrow> (buf_heap \<times> BOF_BUFFER \<times> BOFERR) outcome" where
  "Bof_AlignedMemFree_with os reset h b =
     (case buf_pUser b of
        None \<Rightarrow> Ret (h, b, BOF_ERR_EINVAL)
      | Some u \<Rightarrow>
          (case bh_headers h u of
             None \<Rightarrow> Undefined
           | Some hdr \<Rightarrow>
               (let Rts_E = (if hdr_Locked_B hdr then Bof_UnlockMem os (buf_Capacity_U64 b) (buf_pData_U8 b) else BOF_ERR_NO_ERROR);
                    finish = (\<lambda>h. bindO (reset (h\<lparr>bh_headers := (bh_headers h)(u := None)\<rparr>)
                                           (b\<lparr>buf_Deleter_E := BOF_BUFFER_DELETER_NONE\<rparr>))
                                    (\<lambda>(h, b). Ret (h, b, Rts_E)))
                in case hdr_AllocateZone_E hdr of
                     BOF_BUFFER_ALLOCATE_ZONE_RAM \<Rightarrow> heap_free h (buf_pData_U8 b) finish
                   | BOF_BUFFER_ALLOCATE_ZONE_HUGE_PAGE \<Rightarrow>
                       heap_unmap os (buf_Size_U64 b) h (buf_pData_U8 b) finish)))"

primrec BOF_BUFFER_ReleaseStorage_depth :: "buf_os \<Rightarrow> nat \<Rightarrow> buf_op" where
  "BOF_BUFFER_ReleaseStorage_depth os 0 = (\<lambda>h b. Retrying)"
| "BOF_BUFFER_ReleaseStorage_depth os (Suc n) = (\<lambda>h b.
     buf_lock b (\<lambda>b.
       bindO
         (case buf_Deleter_E b of
            BOF_BUFFER_DELETER_NONE \<Rightarrow> Ret (h, b)
          | BOF_BUFFER_DELETER_DELETE \<Rightarrow> heap_free h (buf_pData_U8 b) (\<lambda>h. Ret (h, b\<lparr>buf_pData_U8 := None\<rparr>))
          | BOF_BUFFER_DELETER_FREE \<Rightarrow> heap_free h (buf_pData_U8 b) (\<lambda>h. Ret (h, b\<lparr>buf_pData_U8 := None\<rparr>))
          | BOF_BUFFER_DELETER_ALIGNED_FREE \<Rightarrow>
              bindO (Bof_AlignedMemFree_with os (BOF_BUFFER_Reset_with (BOF_BUFFER_ReleaseStorage_depth os n)) h b)
                (\<lambda>(h, b, Sts). Ret (h, b)))
         (\<lambda>(h, b).
            buf_unlock (b\<lparr>buf_Deleter_E := BOF_BUFFER_DELETER_NONE, buf_pData_U8 := None, buf_Capacity_U64 := 0,
                          buf_Offset_U64 := 0, buf_Size_U64 := 0\<rparr>) (\<lambda>b. Ret (h, b)))))"

definition BOF_BUFFER_ReleaseStorage :: "buf_os \<Rightarrow> buf_op" where
  "BOF_BUFFER_ReleaseStorage os = BOF_BUFFER_ReleaseStorage_depth os 2"

definition BOF_BUFFER_Reset :: "buf_os \<Rightarrow> buf_op" where
  "BOF_BUFFER_Reset os = BOF_BUFFER_Reset_with (BOF_BUFFER_ReleaseStorage os)"

definition Bof_AlignedMemFree :: "buf_os \<Rightarrow> buf_heap \<Rightarrow> BOF_BUFFER \<Rightarrow> (buf_heap \<times> BOF_BUFFER \<times> BOFERR) outcome" where
  "Bof_AlignedMemFree os = Bof_AlignedMemFree_with os (BOF_BUFFER_Reset os)"

definition BOF_BUFFER_dtor :: "buf_os \<Rightarrow> buf_op" where
  "BOF_BUFFER_dtor os h b = BOF_BUFFER_Reset os h (b\<lparr>buf_Mtx_X := fst (Bof_DestroyMutex (buf_Mtx_X b))\<rparr>)"

section \<open>Aligned allocation\<close>

definition BOF_HUGE_PAGE_SIZE :: u32 where
  "BOF_HUGE_PAGE_SIZE = 2 * 1024 * 1024"

text \<open>\<^verbatim>\<open>snprintf\<close> with the format \<^verbatim>\<open>"/tmp/hugepages/page_%08X"\<close>.\<close>

definition hex_digit :: "nat \<Rightarrow> char" where
  "hex_digit n = (if n < 10 then char_of (48 + n) else char_of (55 + n))"

definition huge_page_path :: "u32 \<Rightarrow> string" where
  "huge_page_path n = ''/tmp/hugepages/page_'' @ map (\<lambda>i. hex_digit (unat (take_bit 4 (drop_bit (4 * i) n)))) (rev [0..<8])"

text \<open>
  The memory for a zone, the header that describes it and the counter of huge
  pages, \<^verbatim>\<open>S_HugePageId\<close>. A failed \<^verbatim>\<open>mmap\<close> closes and removes the file.
\<close>

definition zone_alloc ::
  "buf_os \<Rightarrow> buf_heap \<Rightarrow> u32 \<Rightarrow> BOF_BUFFER_ALLOCATE_ZONE \<Rightarrow> u32 \<Rightarrow> u32 \<Rightarrow>
     u32 \<times> BOF_BUFFER_ALLOCATE_HEADER \<times> (nat \<times> u8 list) option" where
  "zone_alloc os h HugePageId zone AligmentInByte_U32 SizeInByte_U32 =
     (let hdr = BOF_BUFFER_ALLOCATE_HEADER_Reset\<lparr>hdr_AllocateZone_E := zone\<rparr> in
      case zone of
        BOF_BUFFER_ALLOCATE_ZONE_RAM \<Rightarrow> (HugePageId, hdr, os_aligned_alloc os h AligmentInByte_U32 SizeInByte_U32)
      | BOF_BUFFER_ALLOCATE_ZONE_HUGE_PAGE \<Rightarrow>
          let HugePageId = HugePageId + 1;
              hdr = hdr\<lparr>hdr_pHugePath_c := huge_page_path HugePageId,
                        hdr_Io_i := os_open os (huge_page_path HugePageId)\<rparr>
          in (HugePageId, hdr,
              if hdr_Io_i hdr \<ge> 0
              then os_mmap os h (if SizeInByte_U32 < BOF_HUGE_PAGE_SIZE then BOF_HUGE_PAGE_SIZE else SizeInByte_U32) (hdr_Io_i hdr)
              else None))"

definition Bof_AlignedMemAlloc ::
  "buf_os \<Rightarrow> u32 \<Rightarrow> buf_heap \<Rightarrow> BOF_BUFFER_ALLOCATE_ZONE \<Rightarrow> u32 \<Rightarrow> u32 \<Rightarrow> bool \<Rightarrow> int \<Rightarrow> bool \<Rightarrow> BOF_BUFFER \<Rightarrow>
     (u32 \<times> buf_heap \<times> BOF_BUFFER \<times> BOFERR) outcome" where
  "Bof_AlignedMemAlloc os HugePageId h AllocateZone_E AligmentInByte_U32 SizeInByte_U32 LockIt_B OsAdvice_i ClearIt_B b =
     bindO (BOF_BUFFER_Reset os h b) (\<lambda>(h, b).
       if Bof_IsAPowerOf2 (ucast AligmentInByte_U32) then
         let b = b\<lparr>buf_Deleter_E := BOF_BUFFER_DELETER_ALIGNED_FREE, buf_Capacity_U64 := ucast SizeInByte_U32,
                   buf_Size_U64 := 0, buf_pData_U8 := None\<rparr>
         in case zone_alloc os h HugePageId AllocateZone_E AligmentInByte_U32 SizeInByte_U32 of (HugePageId, hdr, mem) \<Rightarrow>
              (case mem of
                 None \<Rightarrow> Ret (HugePageId, h, b, BOF_ERR_ENOMEM)
               | Some (a, blk) \<Rightarrow>
                   let h = h\<lparr>bh_blocks := (bh_blocks h)(a \<mapsto> blk)\<rparr>;
                       u = os_new_header os h;
                       h = h\<lparr>bh_headers := (bh_headers h)(u \<mapsto> hdr)\<rparr>;
                       b = b\<lparr>buf_pData_U8 := Some a, buf_pUser := Some u\<rparr>;
                       clear = (\<lambda>Rts_E.
                         if Rts_E = BOF_ERR_NO_ERROR \<and> ClearIt_B
                         then heap_store h (Some a) 0 (replicate (unat SizeInByte_U32) 0) (\<lambda>h. Ret (HugePageId, h, b, Rts_E))
                         else Ret (HugePageId, h, b, Rts_E))
                   in if LockIt_B then
                        let Rts_E = Bof_LockMem os OsAdvice_i (ucast SizeInByte_U32) (Some a)
                        in if Rts_E \<noteq> BOF_ERR_NO_ERROR
                           then bindO (Bof_AlignedMemFree os h b) (\<lambda>(h, b, Sts). Ret (HugePageId, h, b, Rts_E))
                           else clear Rts_E
                      else
                        clear (if OsAdvice_i \<noteq> 0
                               then if os_madvise os (Some a) (ucast SizeInByte_U32) OsAdvice_i = 0
                                    then BOF_ERR_NO_ERROR else BOF_ERR_SET
                               else BOF_ERR_NO_ERROR))
       else Ret (HugePageId, h, b, BOF_ERR_EINVAL))"

section \<open>Storage\<close>

definition BOF_BUFFER_Clear :: "BOF_BUFFER \<Rightarrow> BOF_BUFFER outcome" where
  "BOF_BUFFER_Clear b = buf_lock b (\<lambda>b. buf_unlock (b\<lparr>buf_Offset_U64 := 0, buf_Size_U64 := 0\<rparr>) Ret)"

definition BOF_BUFFER_AllocStorage :: "buf_os \<Rightarrow> buf_heap \<Rightarrow> BOF_BUFFER \<Rightarrow> u64 \<Rightarrow> (buf_heap \<times> BOF_BUFFER \<times> nat) outcome" where
  "BOF_BUFFER_AllocStorage os h b Capacity_U64 =
     BOF_ASSERT (Capacity_U64 < 0x100000000)
       (bindO (BOF_BUFFER_ReleaseStorage os h b) (\<lambda>(h, b).
          case os_new os h (unat (ucast Capacity_U64 :: u32)) of (a, blk) \<Rightarrow>
            let h = h\<lparr>bh_blocks := (bh_blocks h)(a \<mapsto> blk)\<rparr>
            in buf_lock b (\<lambda>b.
                 buf_unlock (b\<lparr>buf_Deleter_E := BOF_BUFFER_DELETER_DELETE, buf_Capacity_U64 := Capacity_U64,
                               buf_Offset_U64 := 0, buf_Size_U64 := 0, buf_pData_U8 := Some a\<rparr>)
                   (\<lambda>b. Ret (h, b, a)))))"

definition BOF_BUFFER_SetStorage ::
  "buf_os \<Rightarrow> buf_heap \<Rightarrow> BOF_BUFFER \<Rightarrow> u64 \<Rightarrow> u64 \<Rightarrow> nat option \<Rightarrow> (buf_heap \<times> BOF_BUFFER \<times> nat option) outcome" where
  "BOF_BUFFER_SetStorage os h b Capacity_U64 Size_U64 pData =
     BOF_ASSERT (Capacity_U64 < 0x100000000)
       (bindO (BOF_BUFFER_ReleaseStorage os h b) (\<lambda>(h, b).
          let b = b\<lparr>buf_Deleter_E := BOF_BUFFER_DELETER_NONE\<rparr> in
          bindO (case pData of
                   Some a \<Rightarrow> Ret (h, b\<lparr>buf_pData_U8 := Some a\<rparr>)
                 | None \<Rightarrow> bindO (BOF_BUFFER_AllocStorage os h b Capacity_U64)
                             (\<lambda>(h, b, a). Ret (h, b\<lparr>buf_pData_U8 := Some a\<rparr>))) (\<lambda>(h, b).
            buf_lock b (\<lambda>b.
              let b = b\<lparr>buf_Capacity_U64 := Capacity_U64, buf_Offset_U64 := 0,
                        buf_Size_U64 := if Size_U64 \<le> Capacity_U64 then Size_U64 else 0\<rparr>
              in buf_unlock b (\<lambda>b. Ret (h, b, buf_pData_U8 b))))))"

section \<open>Reading and writing\<close>

definition BOF_BUFFER_IsValid :: "BOF_BUFFER \<Rightarrow> bool" where
  "BOF_BUFFER_IsValid b \<longleftrightarrow> buf_pData_U8 b \<noteq> None \<and> buf_Capacity_U64 b \<noteq> 0 \<and>
     buf_Size_U64 b \<le> buf_Capacity_U64 b \<and> buf_Offset_U64 b \<le> buf_Size_U64 b"

definition BOF_BUFFER_IsNull :: "BOF_BUFFER \<Rightarrow> bool" where
  "BOF_BUFFER_IsNull b \<longleftrightarrow> \<not> (buf_pData_U8 b \<noteq> None \<and> buf_Capacity_U64 b \<noteq> 0)"

definition BOF_BUFFER_RemainToWrite :: "BOF_BUFFER \<Rightarrow> u64" where
  "BOF_BUFFER_RemainToWrite b =
     (if buf_Size_U64 b \<le> buf_Capacity_U64 b then buf_Capacity_U64 b - buf_Size_U64 b else 0)"

definition BOF_BUFFER_RemainToRead :: "BOF_BUFFER \<Rightarrow> u64" where
  "BOF_BUFFER_RemainToRead b =
     (if buf_Offset_U64 b < buf_Size_U64 b then buf_Size_U64 b - buf_Offset_U64 b else 0)"

text \<open>A pointer into the data: the block and the position in it.\<close>

definition buf_at :: "BOF_BUFFER \<Rightarrow> u64 \<Rightarrow> (nat \<times> nat) option" where
  "buf_at b i = map_option (\<lambda>a. (a, unat i)) (buf_pData_U8 b)"

definition BOF_BUFFER_Pos :: "BOF_BUFFER \<Rightarrow> (BOF_BUFFER \<times> (nat \<times> nat) option) outcome" where
  "BOF_BUFFER_Pos b =
     buf_lock b (\<lambda>b.
       let pRts_U8 = (if BOF_BUFFER_IsValid b then buf_at b (buf_Size_U64 b) else None)
       in buf_unlock b (\<lambda>b. Ret (b, pRts_U8)))"

text \<open>\<^verbatim>\<open>_rRemain_U64\<close> is written only when the seek succeeds: \<open>None\<close> otherwise.\<close>

definition BOF_BUFFER_SeekAbs :: "BOF_BUFFER \<Rightarrow> u64 \<Rightarrow> (BOF_BUFFER \<times> (nat \<times> nat) option \<times> u64 option) outcome" where
  "BOF_BUFFER_SeekAbs b Offset_U64 =
     buf_lock b (\<lambda>b.
       if Offset_U64 \<le> buf_Size_U64 b then
         let b = b\<lparr>buf_Offset_U64 := Offset_U64\<rparr>
         in buf_unlock b (\<lambda>b. Ret (b, buf_at b Offset_U64, Some (buf_Size_U64 b - Offset_U64)))
       else buf_unlock b (\<lambda>b. Ret (b, None, None)))"

definition BOF_BUFFER_SeekRel ::
  "BOF_BUFFER \<Rightarrow> 64 word \<Rightarrow> (BOF_BUFFER \<times> (nat \<times> nat) option \<times> u64 option) outcome" where
  "BOF_BUFFER_SeekRel b Amount_S64 =
     buf_lock b (\<lambda>b.
       let NewOffset_U64 = buf_Offset_U64 b + Amount_S64 in
       if NewOffset_U64 \<le> buf_Size_U64 b then
         let b = b\<lparr>buf_Offset_U64 := NewOffset_U64\<rparr>
         in buf_unlock b (\<lambda>b. Ret (b, buf_at b NewOffset_U64, Some (buf_Size_U64 b - NewOffset_U64)))
       else buf_unlock b (\<lambda>b. Ret (b, None, None)))"

definition BOF_BUFFER_Read :: "BOF_BUFFER \<Rightarrow> u64 \<Rightarrow> (BOF_BUFFER \<times> (nat \<times> nat) option \<times> u64) outcome" where
  "BOF_BUFFER_Read b Size_U64 =
     buf_lock b (\<lambda>b.
       if BOF_BUFFER_IsValid b then
         let Remain_U64 = BOF_BUFFER_RemainToRead b;
             NbRead_U64 = (if Remain_U64 < Size_U64 then Remain_U64 else Size_U64)
         in if NbRead_U64 \<noteq> 0 then
              let pRts_U8 = buf_at b (buf_Offset_U64 b)
              in buf_unlock (b\<lparr>buf_Offset_U64 := buf_Offset_U64 b + NbRead_U64\<rparr>) (\<lambda>b. Ret (b, pRts_U8, NbRead_U64))
            else buf_unlock b (\<lambda>b. Ret (b, None, NbRead_U64))
       else buf_unlock b (\<lambda>b. Ret (b, None, 0)))"

text \<open>The source of a write is the list of the bytes from its pointer on; to copy more of them is undefined.\<close>

definition BOF_BUFFER_Write ::
  "buf_heap \<Rightarrow> BOF_BUFFER \<Rightarrow> u64 \<Rightarrow> u8 list option \<Rightarrow> (buf_heap \<times> BOF_BUFFER \<times> (nat \<times> nat) option \<times> u64) outcome" where
  "BOF_BUFFER_Write h b Size_U64 pData =
     buf_lock b (\<lambda>b.
       case pData of
         None \<Rightarrow> buf_unlock b (\<lambda>b. Ret (h, b, None, 0))
       | Some src \<Rightarrow>
           if BOF_BUFFER_IsValid b then
             let Free_U64 = BOF_BUFFER_RemainToWrite b;
                 NbWritten_U64 = (if Size_U64 < Free_U64 then Size_U64 else Free_U64)
             in if NbWritten_U64 \<noteq> 0 then
                  if unat NbWritten_U64 \<le> length src then
                    heap_store h (buf_pData_U8 b) (unat (buf_Size_U64 b)) (take (unat NbWritten_U64) src) (\<lambda>h.
                      let b = b\<lparr>buf_Size_U64 := buf_Size_U64 b + NbWritten_U64\<rparr>
                      in buf_unlock b (\<lambda>b. Ret (h, b, buf_at b (buf_Size_U64 b), NbWritten_U64)))
                  else Undefined
                else buf_unlock b (\<lambda>b. Ret (h, b, None, NbWritten_U64))
           else buf_unlock b (\<lambda>b. Ret (h, b, None, 0)))"

definition BOF_BUFFER_Memset ::
  "buf_heap \<Rightarrow> BOF_BUFFER \<Rightarrow> u8 \<Rightarrow> u64 \<Rightarrow> u64 \<Rightarrow> (buf_heap \<times> BOF_BUFFER \<times> bool) outcome" where
  "BOF_BUFFER_Memset h b Val_U8 Size_U64 Offset_U64 =
     buf_lock b (\<lambda>b.
       if BOF_BUFFER_IsValid b \<and> Offset_U64 < buf_Capacity_U64 b \<and> Size_U64 + Offset_U64 < buf_Capacity_U64 b
       then heap_store h (buf_pData_U8 b) (unat Offset_U64) (replicate (unat Size_U64) Val_U8)
              (\<lambda>h. buf_unlock b (\<lambda>b. Ret (h, b, True)))
       else buf_unlock b (\<lambda>b. Ret (h, b, False)))"

end
