(* ===== verification/Bof_Stream_Spec.thy ===== *)
theory Bof_Stream_Spec
  imports Bof_Prelude
begin

text \<open>
  The contract of a bounded stream of bytes: a write appends as many bytes as
  there is room for, a read takes as many as it asks for and there are. Inside
  the locale, every run is proved to give the counts, the bytes and the end
  state of the abstract stream, and the bytes it accepts to be those it hands
  out, followed by those it still holds.
\<close>

datatype stream_op = StreamWrite "u8 list" | StreamRead nat

datatype stream_obs = StreamWritten nat | StreamGot "u8 list"

fun stream_run ::
  "(u8 list \<Rightarrow> 's \<Rightarrow> ('s \<times> nat) outcome) \<Rightarrow> (nat \<Rightarrow> 's \<Rightarrow> ('s \<times> u8 list) outcome) \<Rightarrow> stream_op list \<Rightarrow> 's \<Rightarrow>
     ('s \<times> stream_obs list) outcome" where
  "stream_run put fetch [] s = Ret (s, [])"
| "stream_run put fetch (StreamWrite bs # ops) s =
     bindO (put bs s) (\<lambda>(s, n). bindO (stream_run put fetch ops s) (\<lambda>(s, os). Ret (s, StreamWritten n # os)))"
| "stream_run put fetch (StreamRead n # ops) s =
     bindO (fetch n s) (\<lambda>(s, bs). bindO (stream_run put fetch ops s) (\<lambda>(s, os). Ret (s, StreamGot bs # os)))"

fun stream_in :: "stream_op list \<Rightarrow> stream_obs list \<Rightarrow> u8 list" where
  "stream_in (StreamWrite bs # ops) (StreamWritten n # os) = take n bs @ stream_in ops os"
| "stream_in (_ # ops) (_ # os) = stream_in ops os"
| "stream_in _ _ = []"

fun stream_out :: "stream_obs list \<Rightarrow> u8 list" where
  "stream_out [] = []"
| "stream_out (StreamWritten n # os) = stream_out os"
| "stream_out (StreamGot bs # os) = bs @ stream_out os"

text \<open>
  The abstract stream: the unread bytes and the room left. A write of \<open>bs\<close>
  takes the first bytes of \<open>bs\<close> up to the room, a read of \<open>n\<close> hands out the
  first \<open>n\<close> unread bytes, or all of them when there are fewer.
\<close>

fun stream_ref :: "stream_op list \<Rightarrow> u8 list \<times> nat \<Rightarrow> (u8 list \<times> nat) \<times> stream_obs list" where
  "stream_ref [] q = (q, [])"
| "stream_ref (StreamWrite bs # ops) (u, m) =
     (let (q, os) = stream_ref ops (u @ take m bs, m - length bs) in (q, StreamWritten (min (length bs) m) # os))"
| "stream_ref (StreamRead n # ops) (u, m) =
     (let (q, os) = stream_ref ops (drop n u, m) in (q, StreamGot (take n u) # os))"

fun stream_within :: "nat \<Rightarrow> stream_op \<Rightarrow> bool" where
  "stream_within m (StreamWrite bs) \<longleftrightarrow> length bs < m"
| "stream_within m (StreamRead n) \<longleftrightarrow> n < m"

locale byte_stream =
  fixes inv :: "'s \<Rightarrow> bool"
    and unread :: "'s \<Rightarrow> u8 list"
    and room :: "'s \<Rightarrow> nat"
    and limit :: nat
    and put :: "u8 list \<Rightarrow> 's \<Rightarrow> ('s \<times> nat) outcome"
    and fetch :: "nat \<Rightarrow> 's \<Rightarrow> ('s \<times> u8 list) outcome"
  assumes put_ok: "inv s \<Longrightarrow> length bs < limit \<Longrightarrow> \<exists>s' n. put bs s = Ret (s', n) \<and> inv s' \<and>
      n = min (length bs) (room s) \<and> unread s' = unread s @ take n bs \<and> room s' = room s - n"
    and fetch_ok: "inv s \<Longrightarrow> n < limit \<Longrightarrow> \<exists>s'. fetch n s = Ret (s', take n (unread s)) \<and> inv s' \<and>
      unread s' = drop n (unread s) \<and> room s' = room s"
begin

lemma run_conserves:
  assumes "inv s" "list_all (stream_within limit) ops"
  shows "\<exists>s' os. stream_run put fetch ops s = Ret (s', os) \<and> inv s' \<and>
    unread s @ stream_in ops os = stream_out os @ unread s' \<and> room s' + length (stream_in ops os) = room s"
  using assms
proof (induction ops arbitrary: s)
  case (Cons op ops)
  show ?case
  proof (cases op)
    case (StreamWrite bs)
    then obtain s1 n where s1: "put bs s = Ret (s1, n)" "inv s1" "n = min (length bs) (room s)"
      "unread s1 = unread s @ take n bs" "room s1 = room s - n" using put_ok [OF Cons.prems(1), of bs] Cons.prems(2) by auto
    obtain s2 os where s2: "stream_run put fetch ops s1 = Ret (s2, os)" "inv s2"
      "unread s1 @ stream_in ops os = stream_out os @ unread s2" "room s2 + length (stream_in ops os) = room s1"
      using Cons.IH [OF s1(2)] Cons.prems(2) by auto
    then show ?thesis using s1 StreamWrite by auto
  next
    case (StreamRead n)
    then obtain s1 where s1: "fetch n s = Ret (s1, take n (unread s))" "inv s1" "unread s1 = drop n (unread s)" "room s1 = room s"
      using fetch_ok [OF Cons.prems(1), of n] Cons.prems(2) by auto
    obtain s2 os where s2: "stream_run put fetch ops s1 = Ret (s2, os)" "inv s2"
      "unread s1 @ stream_in ops os = stream_out os @ unread s2" "room s2 + length (stream_in ops os) = room s1"
      using Cons.IH [OF s1(2)] Cons.prems(2) by auto
    have "unread s @ stream_in ops os = take n (unread s) @ stream_out os @ unread s2"
      using s2(3) s1(3) by (metis append.assoc append_take_drop_id)
    then show ?thesis using s1 s2 StreamRead by auto
  qed
qed simp

lemma run_refines:
  assumes "inv s" "list_all (stream_within limit) ops"
  shows "\<exists>s' os. stream_run put fetch ops s = Ret (s', os) \<and> inv s' \<and>
    stream_ref ops (unread s, room s) = ((unread s', room s'), os)"
  using assms
proof (induction ops arbitrary: s)
  case (Cons op ops)
  show ?case
  proof (cases op)
    case (StreamWrite bs)
    then obtain s1 where s1: "put bs s = Ret (s1, min (length bs) (room s))" "inv s1"
      "unread s1 = unread s @ take (room s) bs" "room s1 = room s - length bs"
      using put_ok [OF Cons.prems(1), of bs] Cons.prems(2) by (auto simp: min_def)
    then show ?thesis using Cons.IH [OF s1(2)] Cons.prems(2) StreamWrite by fastforce
  next
    case (StreamRead n)
    then obtain s1 where s1: "fetch n s = Ret (s1, take n (unread s))" "inv s1" "unread s1 = drop n (unread s)" "room s1 = room s"
      using fetch_ok [OF Cons.prems(1), of n] Cons.prems(2) by auto
    then show ?thesis using Cons.IH [OF s1(2)] Cons.prems(2) StreamRead by fastforce
  qed
qed simp

end

end
