(* ===== verification/Bof_Buffer_Props.thy ===== *)
theory Bof_Buffer_Props
  imports Bof_Buffer Bof_Stream_Spec
begin

text \<open>
  Correctness of the byte buffer: reading and writing follow the contract of a
  bounded stream, \<^verbatim>\<open>Memset\<close> and the seeks stay inside the block except where the
  sum of size and offset wraps, and giving the block back frees it once, or
  deadlocks.
\<close>

section \<open>Views and invariant\<close>

definition buf_block :: "buf_heap \<Rightarrow> BOF_BUFFER \<Rightarrow> u8 list" where
  "buf_block h b = (case buf_pData_U8 b of None \<Rightarrow> [] | Some a \<Rightarrow> (case bh_blocks h a of None \<Rightarrow> [] | Some blk \<Rightarrow> blk))"

definition buf_bytes :: "buf_heap \<Rightarrow> BOF_BUFFER \<Rightarrow> u8 list" where
  "buf_bytes h b = take (unat (buf_Size_U64 b)) (buf_block h b)"

definition buf_unread :: "buf_heap \<Rightarrow> BOF_BUFFER \<Rightarrow> u8 list" where
  "buf_unread h b = drop (unat (buf_Offset_U64 b)) (buf_bytes h b)"

definition buf_sync :: "BOF_BUFFER \<Rightarrow> bool" where
  "buf_sync b \<longleftrightarrow> (buf_MultiThreadAware_B b \<longrightarrow> mutex_ready (buf_Mtx_X b))"

definition buf_ok :: "buf_heap \<Rightarrow> BOF_BUFFER \<Rightarrow> bool" where
  "buf_ok h b \<longleftrightarrow> BOF_BUFFER_IsValid b \<and> buf_sync b \<and>
     (\<exists>a blk. buf_pData_U8 b = Some a \<and> bh_blocks h a = Some blk \<and> unat (buf_Capacity_U64 b) \<le> length blk)"

text \<open>The mutex around a body that keeps it.\<close>

definition buf_hold :: "BOF_BUFFER \<Rightarrow> BOF_BUFFER" where
  "buf_hold b = (if buf_MultiThreadAware_B b
     then b\<lparr>buf_Mtx_X := (buf_Mtx_X b)\<lparr>mtx_Mtx := OwnedBySelf (Suc 0)\<rparr>\<rparr> else b)"

lemma buf_lock_ready: "buf_sync b \<Longrightarrow> buf_lock b k = k (buf_hold b)"
  by (simp add: buf_lock_def buf_sync_def sync_simps buf_hold_def)

lemma buf_unlock_hold:
  assumes "buf_sync b"
  shows "buf_unlock (buf_hold b) k = k b" "buf_unlock ((buf_hold b)\<lparr>buf_Offset_U64 := i\<rparr>) k = k (b\<lparr>buf_Offset_U64 := i\<rparr>)"
    "buf_unlock ((buf_hold b)\<lparr>buf_Size_U64 := i\<rparr>) k = k (b\<lparr>buf_Size_U64 := i\<rparr>)"
  using assms by (cases b; simp add: buf_unlock_def buf_sync_def sync_simps buf_hold_def)+

lemma buf_hold_simps [simp]:
  "buf_Deleter_E (buf_hold b) = buf_Deleter_E b" "buf_Offset_U64 (buf_hold b) = buf_Offset_U64 b"
  "buf_Size_U64 (buf_hold b) = buf_Size_U64 b" "buf_Capacity_U64 (buf_hold b) = buf_Capacity_U64 b"
  "buf_pUser (buf_hold b) = buf_pUser b" "buf_pData_U8 (buf_hold b) = buf_pData_U8 b"
  "buf_MultiThreadAware_B (buf_hold b) = buf_MultiThreadAware_B b"
  by (simp_all add: buf_hold_def)

lemma buf_hold_valid [simp]:
  "BOF_BUFFER_IsValid (buf_hold b) = BOF_BUFFER_IsValid b" "buf_at (buf_hold b) i = buf_at b i"
  "BOF_BUFFER_RemainToWrite (buf_hold b) = BOF_BUFFER_RemainToWrite b"
  "BOF_BUFFER_RemainToRead (buf_hold b) = BOF_BUFFER_RemainToRead b"
  by (simp_all add: BOF_BUFFER_IsValid_def buf_at_def BOF_BUFFER_RemainToWrite_def BOF_BUFFER_RemainToRead_def)

lemma buf_okE:
  assumes "buf_ok h b"
  obtains a blk where "buf_pData_U8 b = Some a" "bh_blocks h a = Some blk" "buf_block h b = blk"
    "unat (buf_Capacity_U64 b) \<le> length blk" "unat (buf_Size_U64 b) \<le> unat (buf_Capacity_U64 b)"
    "unat (buf_Offset_U64 b) \<le> unat (buf_Size_U64 b)" "buf_sync b" "BOF_BUFFER_IsValid b"
  using assms by (auto simp: buf_ok_def BOF_BUFFER_IsValid_def buf_block_def word_le_nat_alt)

section \<open>Reading and writing\<close>

definition buf_room :: "BOF_BUFFER \<Rightarrow> nat" where
  "buf_room b = unat (buf_Capacity_U64 b) - unat (buf_Size_U64 b)"

text \<open>What reading and writing leave alone: the owner of the block, and everything on the heap but the block.\<close>

definition buf_frame :: "buf_heap \<Rightarrow> BOF_BUFFER \<Rightarrow>
    BOF_BUFFER_DELETER \<times> nat option \<times> nat option \<times> (nat \<rightharpoonup> BOF_BUFFER_ALLOCATE_HEADER) \<times> (nat \<rightharpoonup> u8 list)" where
  "buf_frame h b = (buf_Deleter_E b, buf_pUser b, buf_pData_U8 b, bh_headers h,
     case buf_pData_U8 b of None \<Rightarrow> bh_blocks h | Some a \<Rightarrow> (bh_blocks h)(a := None))"

lemma Read_ok:
  assumes "buf_ok h b"
  shows "\<exists>b'. BOF_BUFFER_Read b n = Ret (b', if buf_unread h b = [] \<or> n = 0 then None else buf_at b (buf_Offset_U64 b),
      of_nat (min (unat n) (length (buf_unread h b)))) \<and> buf_ok h b' \<and> buf_bytes h b' = buf_bytes h b \<and>
    buf_unread h b' = drop (unat n) (buf_unread h b) \<and> buf_room b' = buf_room b \<and> buf_frame h b' = buf_frame h b"
proof -
  obtain a blk where b: "buf_pData_U8 b = Some a" "bh_blocks h a = Some blk" "buf_block h b = blk"
    "unat (buf_Capacity_U64 b) \<le> length blk" "unat (buf_Size_U64 b) \<le> unat (buf_Capacity_U64 b)"
    "unat (buf_Offset_U64 b) \<le> unat (buf_Size_U64 b)" "buf_sync b" "BOF_BUFFER_IsValid b"
    using assms by (rule buf_okE)
  let ?r = "BOF_BUFFER_RemainToRead b"
  have len: "length (buf_unread h b) = unat (buf_Size_U64 b) - unat (buf_Offset_U64 b)"
    using b(3-5) by (simp add: buf_unread_def buf_bytes_def)
  have r: "unat ?r = length (buf_unread h b)"
    using b(6) len by (auto simp: BOF_BUFFER_RemainToRead_def word_less_nat_alt unat_sub word_le_nat_alt)
  define k where "k = (if ?r < n then ?r else n)"
  have uk: "unat k = min (unat n) (length (buf_unread h b))" using r by (auto simp: word_less_nat_alt k_def)
  have kw: "k = of_nat (min (unat n) (length (buf_unread h b)))" by (simp flip: uk)
  have k0: "k = 0 \<longleftrightarrow> buf_unread h b = [] \<or> n = 0" using uk by (auto simp: word_unat_eq_iff min_def split: if_splits)
  let ?b = "b\<lparr>buf_Offset_U64 := buf_Offset_U64 b + k\<rparr>"
  have off: "unat (buf_Offset_U64 b + k) = unat (buf_Offset_U64 b) + unat k"
    by (rule unat_add_le [of _ _ "buf_Size_U64 b"]) (use b(6) len uk in linarith)
  have "k = 0 \<Longrightarrow> ?b = b" by (cases b) simp
  then have eq: "BOF_BUFFER_Read b n = Ret (?b, if buf_unread h b = [] \<or> n = 0 then None else buf_at b (buf_Offset_U64 b), k)"
    using b(8) k0 by (auto simp: BOF_BUFFER_Read_def k_def [symmetric] buf_lock_ready [OF b(7)] buf_unlock_hold [OF b(7)] Let_def)
  have ok: "buf_ok h ?b"
    using b off uk len by (auto simp: buf_ok_def BOF_BUFFER_IsValid_def word_le_nat_alt buf_sync_def)
  have "buf_unread h ?b = drop (unat (buf_Offset_U64 b) + unat k) (buf_bytes h b)"
    by (simp add: buf_unread_def off) (simp add: buf_bytes_def buf_block_def)
  also have "\<dots> = drop (unat k) (buf_unread h b)" by (simp add: buf_unread_def add.commute)
  also have "\<dots> = drop (unat n) (buf_unread h b)" unfolding uk by (cases "unat n \<le> length (buf_unread h b)") (simp_all add: min_def)
  finally have un: "buf_unread h ?b = drop (unat n) (buf_unread h b)" .
  show ?thesis unfolding eq
    by (rule exI [of _ ?b]) (use ok un kw in \<open>simp add: buf_bytes_def buf_block_def buf_room_def buf_frame_def\<close>)
qed

lemma heap_store_in:
  assumes "bh_blocks h a = Some blk" "i + length bytes \<le> length blk"
  shows "heap_store h (Some a) i bytes k =
    k (h\<lparr>bh_blocks := (bh_blocks h)(a \<mapsto> take i blk @ bytes @ drop (i + length bytes) blk)\<rparr>)"
  using assms by (simp add: heap_store_def)

lemma Write_ok:
  assumes "buf_ok h b" "unat n \<le> length src"
  shows "\<exists>h' b' p w. BOF_BUFFER_Write h b n (Some src) = Ret (h', b', p, w) \<and> unat w = min (unat n) (buf_room b) \<and>
    buf_ok h' b' \<and> buf_bytes h' b' = buf_bytes h b @ take (unat w) src \<and> buf_Offset_U64 b' = buf_Offset_U64 b \<and>
    buf_room b' = buf_room b - unat w \<and> buf_frame h' b' = buf_frame h b \<and>
    length (buf_block h' b') = length (buf_block h b)"
proof -
  obtain a blk where b: "buf_pData_U8 b = Some a" "bh_blocks h a = Some blk" "buf_block h b = blk"
    "unat (buf_Capacity_U64 b) \<le> length blk" "unat (buf_Size_U64 b) \<le> unat (buf_Capacity_U64 b)"
    "unat (buf_Offset_U64 b) \<le> unat (buf_Size_U64 b)" "buf_sync b" "BOF_BUFFER_IsValid b"
    using assms(1) by (rule buf_okE)
  let ?f = "BOF_BUFFER_RemainToWrite b" and ?s = "unat (buf_Size_U64 b)"
  have f: "unat ?f = buf_room b"
    using b(5) by (auto simp: BOF_BUFFER_RemainToWrite_def buf_room_def word_le_nat_alt unat_sub)
  define w where "w = (if n < ?f then n else ?f)"
  have uw: "unat w = min (unat n) (buf_room b)" using f by (auto simp: word_less_nat_alt w_def)
  let ?bs = "take (unat w) src"
  have lw: "length ?bs = unat w" using uw assms(2) by simp
  have fit: "?s + length ?bs \<le> length blk" using lw uw b(4,5) by (simp add: buf_room_def)
  let ?h = "h\<lparr>bh_blocks := (bh_blocks h)(a \<mapsto> take ?s blk @ ?bs @ drop (?s + length ?bs) blk)\<rparr>"
  let ?b = "b\<lparr>buf_Size_U64 := buf_Size_U64 b + w\<rparr>"
  have size: "unat (buf_Size_U64 b + w) = ?s + unat w"
    by (rule unat_add_le [of _ _ "buf_Capacity_U64 b"]) (use uw b(5) in \<open>simp add: buf_room_def\<close>)
  have noop: "w = 0 \<Longrightarrow> ?b = b \<and> ?h = h" using b(2) by (cases b; cases h) (auto simp: fun_upd_idem)
  have store: "heap_store h (buf_pData_U8 b) ?s ?bs k = k ?h" for k :: "buf_heap \<Rightarrow> (buf_heap \<times> BOF_BUFFER \<times> (nat \<times> nat) option \<times> u64) outcome"
    using heap_store_in [OF b(2) fit] b(1) by simp
  have le: "unat w \<le> length src" using uw assms(2) by simp
  have eq: "\<exists>p. BOF_BUFFER_Write h b n (Some src) = Ret (?h, ?b, p, w)"
    using b(8) store noop le
    by (cases "w = 0") (auto simp: BOF_BUFFER_Write_def buf_lock_ready [OF b(7)] buf_unlock_hold [OF b(7)] Let_def w_def [symmetric])
  have blk: "buf_block ?h ?b = take ?s blk @ ?bs @ drop (?s + length ?bs) blk" using b(1) by (simp add: buf_block_def)
  have cap: "?s + unat w \<le> unat (buf_Capacity_U64 b)" using uw b(5) by (simp add: buf_room_def)
  have ok: "buf_ok ?h ?b"
    using b(1,4-8) cap size fit by (auto simp: buf_ok_def BOF_BUFFER_IsValid_def word_le_nat_alt buf_sync_def)
  have "take (?s + unat w) (take ?s blk @ ?bs @ drop (?s + length ?bs) blk) = take ?s blk @ ?bs"
    using lw b(4,5) by simp
  then have bytes: "buf_bytes ?h ?b = buf_bytes h b @ ?bs" unfolding buf_bytes_def blk b(3) by (simp add: size)
  have room: "buf_room ?b = buf_room b - unat w" by (simp add: buf_room_def size)
  have len: "length (buf_block ?h ?b) = length (buf_block h b)" unfolding blk b(3) using fit by simp
  obtain p where "BOF_BUFFER_Write h b n (Some src) = Ret (?h, ?b, p, w)" using eq by blast
  then show ?thesis
    by (intro exI [of _ ?h] exI [of _ ?b] exI [of _ p] exI [of _ w]) (use uw ok bytes room len b(1) in \<open>simp add: buf_frame_def\<close>)
qed

text \<open>The stream of a client: the buffer with the heap it lives in.\<close>

definition buf_put :: "u8 list \<Rightarrow> buf_heap \<times> BOF_BUFFER \<Rightarrow> ((buf_heap \<times> BOF_BUFFER) \<times> nat) outcome" where
  "buf_put bs s = bindO (BOF_BUFFER_Write (fst s) (snd s) (of_nat (length bs)) (Some bs))
     (\<lambda>(h, b, p, w). Ret ((h, b), unat w))"

text \<open>What the caller of \<^verbatim>\<open>Read\<close> finds at the pointer it gets.\<close>

definition buf_deref :: "buf_heap \<Rightarrow> (nat \<times> nat) option \<Rightarrow> u64 \<Rightarrow> u8 list" where
  "buf_deref h p n = (case p of None \<Rightarrow> []
     | Some (a, i) \<Rightarrow> (case bh_blocks h a of None \<Rightarrow> [] | Some blk \<Rightarrow> take (unat n) (drop i blk)))"

definition buf_fetch :: "nat \<Rightarrow> buf_heap \<times> BOF_BUFFER \<Rightarrow> ((buf_heap \<times> BOF_BUFFER) \<times> u8 list) outcome" where
  "buf_fetch n s = bindO (BOF_BUFFER_Read (snd s) (of_nat n))
     (\<lambda>(b, p, r). Ret ((fst s, b), buf_deref (fst s) p r))"

lemma unat_of_nat_u64: "n < 2 ^ 64 \<Longrightarrow> unat (of_nat n :: u64) = n"
  by (simp add: unsigned_of_nat take_bit_nat_eq_self)

lemma buf_deref_unread:
  fixes n :: u64
  assumes "buf_ok h b"
  shows "buf_deref h (if buf_unread h b = [] \<or> n = 0 then None else buf_at b (buf_Offset_U64 b))
      (of_nat (min (unat n) (length (buf_unread h b)))) = take (unat n) (buf_unread h b)"
proof -
  obtain a blk where b: "buf_pData_U8 b = Some a" "bh_blocks h a = Some blk" "buf_block h b = blk"
    "unat (buf_Capacity_U64 b) \<le> length blk" "unat (buf_Size_U64 b) \<le> unat (buf_Capacity_U64 b)"
    "unat (buf_Offset_U64 b) \<le> unat (buf_Size_U64 b)" "buf_sync b" "BOF_BUFFER_IsValid b"
    using assms by (rule buf_okE)
  let ?m = "min (unat n) (length (buf_unread h b))" and ?o = "unat (buf_Offset_U64 b)"
  have len: "length (buf_unread h b) = unat (buf_Size_U64 b) - ?o" using b(3-5) by (simp add: buf_unread_def buf_bytes_def)
  have m: "unat (of_nat ?m :: u64) = ?m" by (rule unat_of_nat_le [of _ n]) simp
  have "buf_unread h b = take (unat (buf_Size_U64 b) - ?o) (drop ?o blk)"
    using b(3) by (simp add: buf_unread_def buf_bytes_def drop_take)
  then have "take ?m (drop ?o blk) = take (unat n) (buf_unread h b)" using len by (simp add: min.commute)
  then show ?thesis using b(1,2) m by (auto simp: buf_deref_def buf_at_def)
qed

definition buf_inv :: "BOF_BUFFER_DELETER \<times> nat option \<times> nat option \<times> (nat \<rightharpoonup> BOF_BUFFER_ALLOCATE_HEADER) \<times> (nat \<rightharpoonup> u8 list) \<Rightarrow>
    buf_heap \<times> BOF_BUFFER \<Rightarrow> bool" where
  "buf_inv f s \<longleftrightarrow> buf_ok (fst s) (snd s) \<and> buf_frame (fst s) (snd s) = f"

interpretation bufs: byte_stream "buf_inv f" "\<lambda>s. buf_unread (fst s) (snd s)" "\<lambda>s. buf_room (snd s)" "2 ^ 64"
  buf_put buf_fetch for f
proof
  fix s :: "buf_heap \<times> BOF_BUFFER" and bs :: "u8 list" and n :: nat
  assume "buf_inv f s"
  then have ok: "buf_ok (fst s) (snd s)" and fr: "buf_frame (fst s) (snd s) = f" by (simp_all add: buf_inv_def)
  show "\<exists>s' n. buf_put bs s = Ret (s', n) \<and> buf_inv f s' \<and> n = min (length bs) (buf_room (snd s)) \<and>
      buf_unread (fst s') (snd s') = buf_unread (fst s) (snd s) @ take n bs \<and> buf_room (snd s') = buf_room (snd s) - n"
    if "length bs < 2 ^ 64"
  proof -
    have u: "unat (of_nat (length bs) :: u64) = length bs" using that by (rule unat_of_nat_u64)
    then obtain h' b' p w where w: "BOF_BUFFER_Write (fst s) (snd s) (of_nat (length bs)) (Some bs) = Ret (h', b', p, w)"
      "unat w = min (length bs) (buf_room (snd s))" "buf_ok h' b'" "buf_bytes h' b' = buf_bytes (fst s) (snd s) @ take (unat w) bs"
      "buf_Offset_U64 b' = buf_Offset_U64 (snd s)" "buf_room b' = buf_room (snd s) - unat w"
      "buf_frame h' b' = f"
      using fr Write_ok [OF ok, of "of_nat (length bs)" bs] by auto
    have "unat (buf_Offset_U64 (snd s)) \<le> length (buf_bytes (fst s) (snd s))"
      using ok by (elim buf_okE) (simp add: buf_bytes_def)
    then have "buf_unread h' b' = buf_unread (fst s) (snd s) @ take (unat w) bs" using w(4,5) by (simp add: buf_unread_def)
    then show ?thesis using w by (auto simp: buf_put_def buf_inv_def)
  qed
  show "\<exists>s'. buf_fetch n s = Ret (s', take n (buf_unread (fst s) (snd s))) \<and> buf_inv f s' \<and>
      buf_unread (fst s') (snd s') = drop n (buf_unread (fst s) (snd s)) \<and> buf_room (snd s') = buf_room (snd s)"
    if "n < 2 ^ 64"
  proof -
    have u: "unat (of_nat n :: u64) = n" using that by (rule unat_of_nat_u64)
    show ?thesis using Read_ok [OF ok, of "of_nat n"] buf_deref_unread [OF ok, of "of_nat n"] u fr
      by (auto simp: buf_fetch_def buf_inv_def)
  qed
qed


section \<open>Giving the block back\<close>

text \<open>A mutex that is free, or that was destroyed, does not block the calls that use it.\<close>

definition buf_quiet :: "BOF_BUFFER \<Rightarrow> bool" where
  "buf_quiet b \<longleftrightarrow> buf_MultiThreadAware_B b \<longrightarrow> mutex_ready (buf_Mtx_X b) \<or> mtx_Magic_U32 (buf_Mtx_X b) \<noteq> BOF_MUTEX_MAGIC"

lemmas buf_lock_defs = buf_lock_def buf_unlock_def Bof_LockMutex_def Bof_UnlockMutex_def mutex_ready_def buf_quiet_def

definition buf_emptied :: "BOF_BUFFER \<Rightarrow> BOF_BUFFER" where
  "buf_emptied b = b\<lparr>buf_Deleter_E := BOF_BUFFER_DELETER_NONE, buf_Offset_U64 := 0, buf_Size_U64 := 0,
     buf_Capacity_U64 := 0, buf_pData_U8 := None\<rparr>"

lemma buf_emptied_simps [simp]:
  "buf_quiet (buf_emptied b) = buf_quiet b" "buf_quiet (b\<lparr>buf_pUser := u\<rparr>) = buf_quiet b"
  "buf_Deleter_E (buf_emptied b) = BOF_BUFFER_DELETER_NONE" "buf_pData_U8 (buf_emptied b) = None"
  "buf_Size_U64 (buf_emptied b) = 0" "buf_Capacity_U64 (buf_emptied b) = 0" "buf_pUser (buf_emptied b) = buf_pUser b"
  "buf_MultiThreadAware_B (buf_emptied b) = buf_MultiThreadAware_B b" "buf_Mtx_X (buf_emptied b) = buf_Mtx_X b"
  "buf_emptied (buf_emptied b) = buf_emptied b"
  by (simp_all add: buf_emptied_def buf_quiet_def)

lemma Release_none:
  assumes "buf_quiet b" "buf_Deleter_E b = BOF_BUFFER_DELETER_NONE"
  shows "BOF_BUFFER_ReleaseStorage_depth os (Suc n) h b = Ret (h, buf_emptied b)"
  using assms by (cases b) (auto simp: buf_lock_defs buf_emptied_def)

lemma Release_owner:
  assumes "buf_quiet b" "buf_Deleter_E b \<in> {BOF_BUFFER_DELETER_DELETE, BOF_BUFFER_DELETER_FREE}"
    "buf_pData_U8 b = Some a" "bh_blocks h a = Some blk"
  shows "BOF_BUFFER_ReleaseStorage_depth os (Suc n) h b = Ret (h\<lparr>bh_blocks := (bh_blocks h)(a := None)\<rparr>, buf_emptied b)"
  using assms by (cases b) (auto simp: buf_lock_defs buf_emptied_def heap_free_def)

lemma Reset_with_quiet:
  assumes "release h b = Ret (h', b')" "buf_quiet b'"
  shows "BOF_BUFFER_Reset_with release h b = Ret (h', (buf_emptied b')\<lparr>buf_pUser := None\<rparr>)"
  using assms by (cases b') (auto simp: BOF_BUFFER_Reset_with_def buf_lock_defs buf_emptied_def)

lemma release_depth: "BOF_BUFFER_ReleaseStorage os = BOF_BUFFER_ReleaseStorage_depth os (Suc (Suc 0))"
  by (simp add: BOF_BUFFER_ReleaseStorage_def numeral_2_eq_2)

lemma Reset_none:
  assumes "buf_quiet b" "buf_Deleter_E b = BOF_BUFFER_DELETER_NONE"
  shows "BOF_BUFFER_Reset_with (BOF_BUFFER_ReleaseStorage_depth os (Suc n)) h b = Ret (h, (buf_emptied b)\<lparr>buf_pUser := None\<rparr>)"
  using Reset_with_quiet [where release = "BOF_BUFFER_ReleaseStorage_depth os (Suc n)", OF Release_none [OF assms]] assms(1)
  by simp

text \<open>\<^verbatim>\<open>Bof_AlignedMemFree\<close> of a block of either zone, with the deleter cleared before \<^verbatim>\<open>Reset\<close>.\<close>

definition freed_block :: "buf_os \<Rightarrow> BOF_BUFFER_ALLOCATE_HEADER \<Rightarrow> u64 \<Rightarrow> u8 list \<Rightarrow> u8 list option" where
  "freed_block os hdr n blk = (case hdr_AllocateZone_E hdr of
     BOF_BUFFER_ALLOCATE_ZONE_RAM \<Rightarrow> None | BOF_BUFFER_ALLOCATE_ZONE_HUGE_PAGE \<Rightarrow> os_munmap os n blk)"

lemma AlignedMemFree_calls_reset:
  assumes "buf_pUser b = Some u" "bh_headers h u = Some hdr" "buf_pData_U8 b = Some a" "bh_blocks h a = Some blk"
  shows "\<exists>Sts. Bof_AlignedMemFree_with os reset h b =
    bindO (reset (h\<lparr>bh_blocks := (bh_blocks h)(a := freed_block os hdr (buf_Size_U64 b) blk), bh_headers := (bh_headers h)(u := None)\<rparr>)
        (b\<lparr>buf_Deleter_E := BOF_BUFFER_DELETER_NONE\<rparr>)) (\<lambda>(h, b). Ret (h, b, Sts))"
  using assms by (cases "hdr_AllocateZone_E hdr")
    (auto simp: Bof_AlignedMemFree_with_def freed_block_def heap_free_def heap_unmap_def Let_def)

lemma AlignedMemFree_quiet:
  assumes "buf_pUser b = Some u" "bh_headers h u = Some hdr" "buf_pData_U8 b = Some a" "bh_blocks h a = Some blk" "buf_quiet b"
  shows "\<exists>Sts. Bof_AlignedMemFree_with os (BOF_BUFFER_Reset_with (BOF_BUFFER_ReleaseStorage_depth os (Suc n))) h b =
    Ret (h\<lparr>bh_blocks := (bh_blocks h)(a := freed_block os hdr (buf_Size_U64 b) blk), bh_headers := (bh_headers h)(u := None)\<rparr>,
      (buf_emptied b)\<lparr>buf_pUser := None\<rparr>, Sts)"
proof -
  let ?b = "b\<lparr>buf_Deleter_E := BOF_BUFFER_DELETER_NONE\<rparr>"
  have "buf_quiet ?b" using assms(5) by (simp add: buf_quiet_def)
  then have r: "BOF_BUFFER_Reset_with (BOF_BUFFER_ReleaseStorage_depth os (Suc n)) h' ?b = Ret (h', (buf_emptied ?b)\<lparr>buf_pUser := None\<rparr>)" for h'
    by (rule Reset_none) simp
  have e: "buf_emptied ?b = buf_emptied b" by (simp add: buf_emptied_def)
  show ?thesis
    using AlignedMemFree_calls_reset [OF assms(1-4), of os "BOF_BUFFER_Reset_with (BOF_BUFFER_ReleaseStorage_depth os (Suc n))"]
    unfolding r e by simp
qed

lemma AlignedMemFree_ram:
  assumes "buf_pUser b = Some u" "bh_headers h u = Some hdr" "buf_pData_U8 b = Some a" "bh_blocks h a = Some blk" "buf_quiet b"
    "hdr_AllocateZone_E hdr = BOF_BUFFER_ALLOCATE_ZONE_RAM" "\<not> hdr_Locked_B hdr"
  shows "Bof_AlignedMemFree os h b =
    Ret (h\<lparr>bh_blocks := (bh_blocks h)(a := None), bh_headers := (bh_headers h)(u := None)\<rparr>,
      (buf_emptied b)\<lparr>buf_pUser := None\<rparr>, BOF_ERR_NO_ERROR)"
proof -
  let ?b = "b\<lparr>buf_Deleter_E := BOF_BUFFER_DELETER_NONE\<rparr>"
  have "buf_quiet ?b" using assms(5) by (simp add: buf_quiet_def)
  then have r: "BOF_BUFFER_Reset os h' ?b = Ret (h', (buf_emptied ?b)\<lparr>buf_pUser := None\<rparr>)" for h'
    unfolding BOF_BUFFER_Reset_def release_depth by (rule Reset_none) simp
  have e: "buf_emptied ?b = buf_emptied b" by (simp add: buf_emptied_def)
  show ?thesis using assms by (simp add: Bof_AlignedMemFree_def Bof_AlignedMemFree_with_def heap_free_def r e Let_def)
qed

text \<open>The destructor: the mutex is destroyed before the block is given back, so that nothing blocks.\<close>

definition buf_dead :: "BOF_BUFFER \<Rightarrow> BOF_BUFFER" where
  "buf_dead b = b\<lparr>buf_Mtx_X := fst (Bof_DestroyMutex (buf_Mtx_X b))\<rparr>"

lemma buf_dead_simps [simp]:
  "buf_quiet (buf_dead b)" "buf_Deleter_E (buf_dead b) = buf_Deleter_E b" "buf_pData_U8 (buf_dead b) = buf_pData_U8 b"
  "buf_pUser (buf_dead b) = buf_pUser b" "buf_Size_U64 (buf_dead b) = buf_Size_U64 b"
  by (auto simp: buf_dead_def buf_quiet_def Bof_DestroyMutex_def BOF_MUTEX_Reset_def BOF_MUTEX_MAGIC_def)

lemma dtor_owner:
  assumes "buf_Deleter_E b \<in> {BOF_BUFFER_DELETER_DELETE, BOF_BUFFER_DELETER_FREE}" "buf_pData_U8 b = Some a" "bh_blocks h a = Some blk"
  shows "BOF_BUFFER_dtor os h b = Ret (h\<lparr>bh_blocks := (bh_blocks h)(a := None)\<rparr>, (buf_emptied (buf_dead b))\<lparr>buf_pUser := None\<rparr>)"
proof -
  have r: "BOF_BUFFER_ReleaseStorage os h (buf_dead b) = Ret (h\<lparr>bh_blocks := (bh_blocks h)(a := None)\<rparr>, buf_emptied (buf_dead b))"
    unfolding release_depth by (rule Release_owner) (use assms in simp_all)
  show ?thesis
    unfolding BOF_BUFFER_dtor_def BOF_BUFFER_Reset_def buf_dead_def [symmetric]
    using Reset_with_quiet [where release = "BOF_BUFFER_ReleaseStorage os", OF r] by simp
qed

lemma Release_aligned:
  assumes "buf_Deleter_E b = BOF_BUFFER_DELETER_ALIGNED_FREE" "buf_pUser b = Some u" "bh_headers h u = Some hdr"
    "buf_pData_U8 b = Some a" "bh_blocks h a = Some blk" "buf_quiet b" "\<not> (buf_MultiThreadAware_B b \<and> mutex_ready (buf_Mtx_X b))"
  shows "BOF_BUFFER_ReleaseStorage os h b =
    Ret (h\<lparr>bh_blocks := (bh_blocks h)(a := freed_block os hdr (buf_Size_U64 b) blk), bh_headers := (bh_headers h)(u := None)\<rparr>,
      (buf_emptied b)\<lparr>buf_pUser := None\<rparr>)"
proof -
  have l: "buf_lock b k = k b" for k :: "BOF_BUFFER \<Rightarrow> (buf_heap \<times> BOF_BUFFER) outcome"
    using assms(6,7) by (cases b) (auto simp: buf_lock_defs)
  have u: "buf_unlock ((buf_emptied b)\<lparr>buf_pUser := None\<rparr>) k = k ((buf_emptied b)\<lparr>buf_pUser := None\<rparr>)"
    for k :: "BOF_BUFFER \<Rightarrow> (buf_heap \<times> BOF_BUFFER) outcome"
    using assms(6,7) by (cases b) (auto simp: buf_lock_defs buf_emptied_def)
  have i: "((buf_emptied b)\<lparr>buf_pUser := None\<rparr>)\<lparr>buf_Deleter_E := BOF_BUFFER_DELETER_NONE, buf_pData_U8 := None, buf_Capacity_U64 := 0,
      buf_Offset_U64 := 0, buf_Size_U64 := 0\<rparr> = (buf_emptied b)\<lparr>buf_pUser := None\<rparr>"
    by (simp add: buf_emptied_def)
  obtain Sts where "Bof_AlignedMemFree_with os (BOF_BUFFER_Reset_with (BOF_BUFFER_ReleaseStorage_depth os (Suc 0))) h b =
    Ret (h\<lparr>bh_blocks := (bh_blocks h)(a := freed_block os hdr (buf_Size_U64 b) blk), bh_headers := (bh_headers h)(u := None)\<rparr>,
      (buf_emptied b)\<lparr>buf_pUser := None\<rparr>, Sts)"
    using AlignedMemFree_quiet [OF assms(2-6), where os = os and n = 0] by blast
  then show ?thesis unfolding release_depth BOF_BUFFER_ReleaseStorage_depth.simps(2) [of os "Suc 0"]
    by (simp add: l assms(1) i u del: BOF_BUFFER_ReleaseStorage_depth.simps)
qed

lemma dtor_aligned:
  assumes "buf_Deleter_E b = BOF_BUFFER_DELETER_ALIGNED_FREE" "buf_pUser b = Some u" "bh_headers h u = Some hdr"
    "buf_pData_U8 b = Some a" "bh_blocks h a = Some blk"
  shows "BOF_BUFFER_dtor os h b =
    Ret (h\<lparr>bh_blocks := (bh_blocks h)(a := freed_block os hdr (buf_Size_U64 b) blk), bh_headers := (bh_headers h)(u := None)\<rparr>,
      (buf_emptied (buf_dead b))\<lparr>buf_pUser := None\<rparr>)"
proof -
  have d: "\<not> mutex_ready (buf_Mtx_X (buf_dead b))"
    by (simp add: buf_dead_def mutex_ready_def Bof_DestroyMutex_def BOF_MUTEX_Reset_def BOF_MUTEX_MAGIC_def)
  have r: "BOF_BUFFER_ReleaseStorage os h (buf_dead b) =
    Ret (h\<lparr>bh_blocks := (bh_blocks h)(a := freed_block os hdr (buf_Size_U64 b) blk), bh_headers := (bh_headers h)(u := None)\<rparr>,
      (buf_emptied (buf_dead b))\<lparr>buf_pUser := None\<rparr>)"
    using Release_aligned [of "buf_dead b" u h hdr a blk os] assms d by simp
  have i: "buf_emptied ((buf_emptied (buf_dead b))\<lparr>buf_pUser := None\<rparr>) = (buf_emptied (buf_dead b))\<lparr>buf_pUser := None\<rparr>"
    by (simp add: buf_emptied_def)
  show ?thesis
    unfolding BOF_BUFFER_dtor_def BOF_BUFFER_Reset_def buf_dead_def [symmetric]
    using Reset_with_quiet [where release = "BOF_BUFFER_ReleaseStorage os", OF r] i by simp
qed

text \<open>A free mutex is what blocks: \<^verbatim>\<open>ReleaseStorage\<close> holds it when \<^verbatim>\<open>Bof_AlignedMemFree\<close> asks for it again.\<close>

lemma Release_held:
  assumes "buf_MultiThreadAware_B b" "mutex_ready (buf_Mtx_X b)"
  shows "BOF_BUFFER_ReleaseStorage_depth os (Suc n) h ((buf_hold b)\<lparr>buf_Deleter_E := d\<rparr>) = Blocked"
  using assms by (cases b) (simp add: buf_hold_def buf_lock_defs)

lemma Release_aligned_blocks:
  assumes "buf_Deleter_E b = BOF_BUFFER_DELETER_ALIGNED_FREE" "buf_pUser b = Some u" "bh_headers h u = Some hdr"
    "buf_pData_U8 b = Some a" "bh_blocks h a = Some blk" "buf_MultiThreadAware_B b" "mutex_ready (buf_Mtx_X b)"
  shows "BOF_BUFFER_ReleaseStorage os h b = Blocked" "BOF_BUFFER_Reset os h b = Blocked"
proof -
  have s: "buf_sync b" using assms(7) by (simp add: buf_sync_def)
  have r: "BOF_BUFFER_Reset_with (BOF_BUFFER_ReleaseStorage_depth os (Suc 0)) h' ((buf_hold b)\<lparr>buf_Deleter_E := d\<rparr>) = Blocked" for h' d
    unfolding BOF_BUFFER_Reset_with_def Release_held [OF assms(6,7)] by simp
  have "Bof_AlignedMemFree_with os (BOF_BUFFER_Reset_with (BOF_BUFFER_ReleaseStorage_depth os (Suc 0))) h (buf_hold b) = Blocked"
    using AlignedMemFree_calls_reset [of "buf_hold b" u h hdr a blk os "BOF_BUFFER_Reset_with (BOF_BUFFER_ReleaseStorage_depth os (Suc 0))"]
      assms(2-5) unfolding r by simp
  then show "BOF_BUFFER_ReleaseStorage os h b = Blocked"
    unfolding release_depth BOF_BUFFER_ReleaseStorage_depth.simps(2) [of os "Suc 0"]
    by (simp add: buf_lock_ready [OF s] assms(1) del: BOF_BUFFER_ReleaseStorage_depth.simps)
  then show "BOF_BUFFER_Reset os h b = Blocked" by (simp add: BOF_BUFFER_Reset_def BOF_BUFFER_Reset_with_def)
qed


section \<open>New buffers\<close>

definition buf_null :: "BOF_BUFFER \<Rightarrow> bool" where
  "buf_null b \<longleftrightarrow> BOF_BUFFER_IsNull b \<and> buf_Deleter_E b = BOF_BUFFER_DELETER_NONE \<and> buf_Size_U64 b = 0 \<and> buf_Offset_U64 b = 0 \<and> buf_pUser b = None"

lemma buf_ctor_ok: "\<exists>b. BOF_BUFFER_ctor mt prio = Ret b \<and> buf_null b \<and> buf_sync b \<and> buf_MultiThreadAware_B b = mt"
  by (auto simp: BOF_BUFFER_ctor_def buf_null_def BOF_BUFFER_IsNull_def buf_sync_def Let_def Bof_CreateMutex_def BOF_MUTEX_ctor_def
      BOF_MUTEX_Reset_def BOF_MUTEX_MAGIC_def mutex_ready_def)

lemma buf_sync_quiet: "buf_sync b \<Longrightarrow> buf_quiet b"
  by (simp add: buf_sync_def buf_quiet_def)

lemma buf_null_emptied [simp]: "buf_null ((buf_emptied b)\<lparr>buf_pUser := None\<rparr>)"
  by (simp add: buf_null_def BOF_BUFFER_IsNull_def buf_emptied_def)

text \<open>The allocator of the language: a place not in use, as long as asked for.\<close>

definition os_new_good :: "buf_os \<Rightarrow> buf_heap \<Rightarrow> nat \<Rightarrow> bool" where
  "os_new_good os h n \<longleftrightarrow> bh_blocks h (fst (os_new os h n)) = None \<and> length (snd (os_new os h n)) = n"

lemma mutex_unowned [simp]: "mtx_Mtx m = Unowned \<Longrightarrow> m\<lparr>mtx_Mtx := Unowned\<rparr> = m"
  by (cases m) simp

lemma AllocStorage_ok:
  assumes "buf_sync b" "buf_Deleter_E b = BOF_BUFFER_DELETER_NONE" "0 < unat n" "unat n < 2 ^ 32" "os_new_good os h (unat n)"
  shows "\<exists>h' b'. BOF_BUFFER_AllocStorage os h b n = Ret (h', b', fst (os_new os h (unat n))) \<and> buf_ok h' b' \<and> buf_bytes h' b' = [] \<and>
    buf_room b' = unat n \<and> buf_frame h' b' = (BOF_BUFFER_DELETER_DELETE, buf_pUser b, Some (fst (os_new os h (unat n))), bh_headers h, bh_blocks h)"
proof -
  obtain a blk where os: "os_new os h (unat n) = (a, blk)" by force
  have g: "bh_blocks h a = None" "length blk = unat n" using assms(5) os by (simp_all add: os_new_good_def)
  let ?h = "h\<lparr>bh_blocks := (bh_blocks h)(a \<mapsto> blk)\<rparr>"
  let ?b = "(buf_emptied b)\<lparr>buf_Deleter_E := BOF_BUFFER_DELETER_DELETE, buf_Capacity_U64 := n, buf_pData_U8 := Some a\<rparr>"
  have n: "n < 0x100000000" using assms(4) by (simp add: word_less_nat_alt)
  have u: "unat (ucast n :: u32) = unat n" using assms(4) by (simp add: unsigned_ucast_eq take_bit_nat_eq_self)
  have r: "BOF_BUFFER_ReleaseStorage os h b = Ret (h, buf_emptied b)"
    unfolding release_depth by (rule Release_none) (use assms(1,2) buf_sync_quiet in auto)
  have l: "buf_lock (buf_emptied b) (\<lambda>b. buf_unlock (b\<lparr>buf_Deleter_E := BOF_BUFFER_DELETER_DELETE, buf_Capacity_U64 := n,
      buf_Offset_U64 := 0, buf_Size_U64 := 0, buf_pData_U8 := Some a\<rparr>) k) = k ?b"
    for k :: "BOF_BUFFER \<Rightarrow> (buf_heap \<times> BOF_BUFFER \<times> nat) outcome"
    using assms(1) by (cases b) (auto simp: buf_sync_def buf_lock_defs buf_emptied_def)
  have "BOF_BUFFER_AllocStorage os h b n = Ret (?h, ?b, a)"
    by (simp add: BOF_BUFFER_AllocStorage_def r n u os Let_def l)
  moreover have "buf_ok ?h ?b" using assms(1,3) g
    by (auto simp: buf_ok_def BOF_BUFFER_IsValid_def buf_sync_def buf_emptied_def)
  moreover have "buf_frame ?h ?b = (BOF_BUFFER_DELETER_DELETE, buf_pUser b, Some a, bh_headers h, bh_blocks h)"
    using g(1) by (auto simp: buf_frame_def)
  moreover have "buf_bytes ?h ?b = []" "buf_room ?b = unat n" by (simp_all add: buf_bytes_def buf_room_def)
  ultimately show ?thesis using os by auto
qed

section \<open>Properties\<close>

text \<open>
  C30. \<^verbatim>\<open>BOF_BUFFER\<close> refines the bounded stream. Any sequence of writes and reads
  (of fewer than 2 to the 64 bytes each) on a valid buffer returns and keeps the
  buffer valid. The count each write returns, the bytes each read returns, the
  bytes left unread and the room left are those of the abstract stream: a write
  takes exactly the smaller of its length and the room, a read hands out exactly
  the smaller of what it asks for and what is unread, in order. The room that
  reads free is not used again, and nothing but the block of the buffer changes
  on the heap.
\<close>

theorem BOF_BUFFER_stream:
  assumes "buf_ok h b" "list_all (stream_within (2 ^ 64)) ops"
  shows "\<exists>h' b' os. stream_run buf_put buf_fetch ops (h, b) = Ret ((h', b'), os) \<and> buf_ok h' b' \<and>
    stream_ref ops (buf_unread h b, buf_room b) = ((buf_unread h' b', buf_room b'), os) \<and>
    buf_unread h b @ stream_in ops os = stream_out os @ buf_unread h' b' \<and> buf_frame h' b' = buf_frame h b"
  using bufs.run_conserves [of "buf_frame h b" "(h, b)" ops] bufs.run_refines [of "buf_frame h b" "(h, b)" ops] assms
  by (auto simp: buf_inv_def)

definition buf_example :: "buf_heap \<times> BOF_BUFFER" where
  "buf_example = (\<lparr>bh_blocks = [0 \<mapsto> [1, 2, 3, 4]], bh_headers = Map.empty\<rparr>,
     \<lparr>buf_Deleter_E = BOF_BUFFER_DELETER_NONE, buf_Offset_U64 = 1, buf_Size_U64 = 3, buf_Capacity_U64 = 4, buf_pUser = None,
      buf_pData_U8 = Some 0, buf_MultiThreadAware_B = False, buf_Mtx_X = BOF_MUTEX_ctor\<rparr>)"

lemma buf_example_view: "buf_unread (fst buf_example) (snd buf_example) = [2, 3]" "buf_room (snd buf_example) = 1"
  by (simp_all add: buf_example_def buf_unread_def buf_bytes_def buf_room_def buf_block_def)

lemma buf_example_ok: "buf_ok (fst buf_example) (snd buf_example)"
  by (simp add: buf_example_def buf_ok_def BOF_BUFFER_IsValid_def buf_sync_def)

theorem BOF_BUFFER_stream_witness:
  "\<exists>h' b'. stream_run buf_put buf_fetch [StreamRead 1, StreamWrite [7, 8], StreamRead 9] buf_example
     = Ret ((h', b'), [StreamGot [2], StreamWritten 1, StreamGot [3, 7]]) \<and> buf_unread h' b' = [] \<and> buf_room b' = 0"
  using BOF_BUFFER_stream [OF buf_example_ok, of "[StreamRead 1, StreamWrite [7, 8], StreamRead 9]"]
  by (auto simp: buf_example_view simp del: stream_run.simps)

text \<open>
  C31. \<^verbatim>\<open>Memset\<close> on a valid buffer. A range whose end lies below the capacity is
  filled, and nothing else changes. A range that reaches the end of the buffer
  or passes it is refused, so that the last byte can never be set. But the
  end is computed in 64 bits: a size so large that the sum wraps around below
  the capacity is accepted, and the write leaves the block.
\<close>

theorem BOF_BUFFER_Memset_range:
  assumes "buf_ok h b" "length (buf_block h b) < 2 ^ 64" "i < buf_Capacity_U64 b"
  shows "(unat n + unat i < unat (buf_Capacity_U64 b) \<longrightarrow>
      (\<exists>h'. BOF_BUFFER_Memset h b v n i = Ret (h', b, True) \<and> buf_frame h' b = buf_frame h b \<and>
         buf_block h' b = take (unat i) (buf_block h b) @ replicate (unat n) v @ drop (unat i + unat n) (buf_block h b))) \<and>
    (unat (buf_Capacity_U64 b) \<le> unat n + unat i \<and> unat n + unat i < 2 ^ 64 \<longrightarrow> BOF_BUFFER_Memset h b v n i = Ret (h, b, False)) \<and>
    (2 ^ 64 \<le> unat n + unat i \<and> unat n + unat i < 2 ^ 64 + unat (buf_Capacity_U64 b) \<longrightarrow> BOF_BUFFER_Memset h b v n i = Undefined)"
proof -
  obtain a blk where b: "buf_pData_U8 b = Some a" "bh_blocks h a = Some blk" "buf_block h b = blk"
    "unat (buf_Capacity_U64 b) \<le> length blk" "unat (buf_Size_U64 b) \<le> unat (buf_Capacity_U64 b)"
    "unat (buf_Offset_U64 b) \<le> unat (buf_Size_U64 b)" "buf_sync b" "BOF_BUFFER_IsValid b"
    using assms(1) by (rule buf_okE)
  have sum: "unat (n + i) = (unat n + unat i) mod 2 ^ 64" by (simp add: unat_word_ariths)
  note m = BOF_BUFFER_Memset_def buf_lock_ready [OF b(7)] buf_unlock_hold [OF b(7)] b(8) assms(3)
  have "\<exists>h'. BOF_BUFFER_Memset h b v n i = Ret (h', b, True) \<and> buf_frame h' b = buf_frame h b \<and>
      buf_block h' b = take (unat i) blk @ replicate (unat n) v @ drop (unat i + unat n) blk"
    if "unat n + unat i < unat (buf_Capacity_U64 b)"
  proof -
    have "unat n + unat i < 2 ^ 64" using that b(4) assms(2) b(3) by simp
    then have "n + i < buf_Capacity_U64 b" using sum that by (simp add: word_less_nat_alt)
    then show ?thesis using that b(4)
      by (simp add: m b(1) heap_store_in [OF b(2)]) (simp add: buf_frame_def buf_block_def b(1))
  qed
  moreover have "BOF_BUFFER_Memset h b v n i = Ret (h, b, False)"
    if "unat (buf_Capacity_U64 b) \<le> unat n + unat i" "unat n + unat i < 2 ^ 64"
    using that sum by (simp add: m word_less_nat_alt)
  moreover have "BOF_BUFFER_Memset h b v n i = Undefined"
    if w: "2 ^ 64 \<le> unat n + unat i" "unat n + unat i < 2 ^ 64 + unat (buf_Capacity_U64 b)"
  proof -
    have "unat (buf_Capacity_U64 b) < 2 ^ 64" using b(3,4) assms(2) by simp
    then have "unat (n + i) = unat n + unat i - 2 ^ 64" using w sum by (simp add: le_mod_geq)
    then have "n + i < buf_Capacity_U64 b" using w by (simp add: word_less_nat_alt)
    then show ?thesis using w(1) b(3) assms(2) by (simp add: m b(1,2) heap_store_def)
  qed
  ultimately show ?thesis using b(3) by simp
qed

theorem BOF_BUFFER_Memset_range_witness:
  "(\<exists>h'. BOF_BUFFER_Memset (fst buf_example) (snd buf_example) 9 2 1 = Ret (h', snd buf_example, True) \<and> buf_block h' (snd buf_example) = [1, 9, 9, 4]) \<and>
   BOF_BUFFER_Memset (fst buf_example) (snd buf_example) 9 3 1 = Ret (fst buf_example, snd buf_example, False) \<and>
   BOF_BUFFER_Memset (fst buf_example) (snd buf_example) 9 0xFFFFFFFFFFFFFFFF 1 = Undefined"
proof -
  have e: "buf_block (fst buf_example) (snd buf_example) = [1, 2, 3, 4]" "buf_Capacity_U64 (snd buf_example) = 4"
    by (simp_all add: buf_example_def buf_block_def)
  have r: "replicate 2 (9::u8) = [9, 9]" by (simp add: numeral_2_eq_2)
  have "\<exists>h'. BOF_BUFFER_Memset (fst buf_example) (snd buf_example) 9 2 1 = Ret (h', snd buf_example, True) \<and>
    buf_block h' (snd buf_example) = [1, 9, 9, 4]"
    using BOF_BUFFER_Memset_range [OF buf_example_ok, of 1 2 9] by (auto simp: e r)
  moreover have "BOF_BUFFER_Memset (fst buf_example) (snd buf_example) 9 3 1 = Ret (fst buf_example, snd buf_example, False)"
    using BOF_BUFFER_Memset_range [OF buf_example_ok, of 1 3 9] by (simp add: e)
  moreover have "BOF_BUFFER_Memset (fst buf_example) (snd buf_example) 9 0xFFFFFFFFFFFFFFFF 1 = Undefined"
    using BOF_BUFFER_Memset_range [OF buf_example_ok, of 1 "0xFFFFFFFFFFFFFFFF" 9] by (simp add: e)
  ultimately show ?thesis by blast
qed


text \<open>
  C32. The life of a buffer that owns its block. A constructed buffer gets a
  block from \<^verbatim>\<open>AllocStorage\<close>, is written and read in any way, and is destroyed:
  no step blocks or fails, the reads hand out a prefix of what the writes took,
  and the destructor gives the block back exactly once: the heap is what it was
  before, and the buffer is null. (The allocator returns an unused block of the
  size asked for.)
\<close>

theorem BOF_BUFFER_life:
  assumes "0 < unat n" "unat n < 2 ^ 32" "os_new_good os h (unat n)" "list_all (stream_within (2 ^ 64)) ops"
  shows "\<exists>b0 h1 b1 a h2 b2 obs b3.
    BOF_BUFFER_ctor mt prio = Ret b0 \<and> BOF_BUFFER_AllocStorage os h b0 n = Ret (h1, b1, a) \<and>
    stream_run buf_put buf_fetch ops (h1, b1) = Ret ((h2, b2), obs) \<and> stream_in ops obs = stream_out obs @ buf_unread h2 b2 \<and>
    length (stream_in ops obs) \<le> unat n \<and> BOF_BUFFER_dtor os h2 b2 = Ret (h, b3) \<and> BOF_BUFFER_IsNull b3"
proof -
  obtain b0 where b0: "BOF_BUFFER_ctor mt prio = Ret b0" "buf_null b0" "buf_sync b0" using buf_ctor_ok by blast
  let ?a = "fst (os_new os h (unat n))"
  obtain h1 b1 where h1: "BOF_BUFFER_AllocStorage os h b0 n = Ret (h1, b1, ?a)" "buf_ok h1 b1" "buf_bytes h1 b1 = []" "buf_room b1 = unat n"
    "buf_frame h1 b1 = (BOF_BUFFER_DELETER_DELETE, buf_pUser b0, Some ?a, bh_headers h, bh_blocks h)"
    using AllocStorage_ok [OF b0(3) _ assms(1-3)] b0(2) unfolding buf_null_def by blast
  obtain h2 b2 obs where h2: "stream_run buf_put buf_fetch ops (h1, b1) = Ret ((h2, b2), obs)" "buf_inv (buf_frame h1 b1) (h2, b2)"
    "buf_unread h1 b1 @ stream_in ops obs = stream_out obs @ buf_unread h2 b2" "buf_room b2 + length (stream_in ops obs) = buf_room b1"
    using bufs.run_conserves [of "buf_frame h1 b1" "(h1, b1)" ops] assms(4) h1(2) by (auto simp: buf_inv_def)
  have f: "buf_Deleter_E b2 = BOF_BUFFER_DELETER_DELETE" "buf_pData_U8 b2 = Some ?a" "bh_headers h2 = bh_headers h"
    "(bh_blocks h2)(?a := None) = bh_blocks h"
    using h2(2) h1(5) by (auto simp: buf_inv_def buf_frame_def)
  obtain blk where "bh_blocks h2 ?a = Some blk" using h2(2) f(2) by (auto simp: buf_inv_def buf_ok_def)
  then have "BOF_BUFFER_dtor os h2 b2 = Ret (h, (buf_emptied (buf_dead b2))\<lparr>buf_pUser := None\<rparr>)"
    using dtor_owner [of b2 ?a h2 blk os] f by (cases h; cases h2) simp
  moreover have "buf_unread h1 b1 = []" using h1(3) by (simp add: buf_unread_def)
  ultimately show ?thesis using b0(1) h1(1,4) h2 buf_null_emptied unfolding buf_null_def by fastforce
qed

definition os_example :: buf_os where
  "os_example = \<lparr>os_new = (\<lambda>h n. (7, replicate n 0)), os_new_header = (\<lambda>h. 5), os_aligned_alloc = (\<lambda>h al n. Some (9, replicate (unat n) 1)),
     os_open = (\<lambda>s. 3), os_mmap = (\<lambda>h n f. Some (11, replicate (unat n) 0)), os_munmap = (\<lambda>n blk. if n = 0 then Some blk else None),
     os_madvise = (\<lambda>p n i. 0), os_mlock = (\<lambda>p n. 0), os_munlock = (\<lambda>p n. 0)\<rparr>"

definition heap_example :: buf_heap where
  "heap_example = \<lparr>bh_blocks = [2 \<mapsto> [1]], bh_headers = Map.empty\<rparr>"

theorem BOF_BUFFER_life_witness:
  "\<exists>b0 h1 b1 a h2 b2 obs b3.
    BOF_BUFFER_ctor True False = Ret b0 \<and> BOF_BUFFER_AllocStorage os_example heap_example b0 3 = Ret (h1, b1, a) \<and>
    stream_run buf_put buf_fetch [StreamWrite [1, 2, 3, 4], StreamRead 2] (h1, b1) = Ret ((h2, b2), obs) \<and>
    BOF_BUFFER_dtor os_example h2 b2 = Ret (heap_example, b3) \<and> BOF_BUFFER_IsNull b3"
proof -
  have g: "os_new_good os_example heap_example (unat (3::u64))" by (simp add: os_new_good_def os_example_def heap_example_def)
  show ?thesis
    using BOF_BUFFER_life [of 3 os_example heap_example "[StreamWrite [1, 2, 3, 4], StreamRead 2]" True False, OF _ _ g] by fastforce
qed

text \<open>
  C33. The life of an aligned buffer. On a new buffer, \<^verbatim>\<open>Bof_AlignedMemAlloc\<close> in
  RAM of at least one byte, not locked in memory and without advice to the
  system, with a power of two as alignment, succeeds when the system has the
  memory, and gives an empty buffer of the size asked for, cleared when that is
  asked. The destructor gives block and header back, and so does
  \<^verbatim>\<open>Bof_AlignedMemFree\<close>, which reports no error the first time and an error
  when it is called again. But when the buffer is multi-thread aware, as the
  default constructor makes it, five operations wait for ever for a mutex
  the caller already holds: \<^verbatim>\<open>ReleaseStorage\<close>, \<^verbatim>\<open>Reset\<close>, \<^verbatim>\<open>SetStorage\<close> and
  \<^verbatim>\<open>AllocStorage\<close> (of a capacity below 2 to the 32, the others fail an
  assertion) and a second \<^verbatim>\<open>Bof_AlignedMemAlloc\<close>.
\<close>

theorem Bof_AlignedMemAlloc_life:
  assumes "Bof_IsAPowerOf2 (ucast al)" "os_aligned_alloc os h al n = Some (a, blk)" "length blk = unat n" "0 < unat n"
    "bh_blocks h a = None" "os_new_header os (h\<lparr>bh_blocks := (bh_blocks h)(a \<mapsto> blk)\<rparr>) = u" "bh_headers h u = None"
  shows "\<exists>b0 h1 b1. BOF_BUFFER_ctor mt prio = Ret b0 \<and>
    Bof_AlignedMemAlloc os hp h BOF_BUFFER_ALLOCATE_ZONE_RAM al n False 0 clr b0 = Ret (hp, h1, b1, BOF_ERR_NO_ERROR) \<and>
    buf_ok h1 b1 \<and> buf_room b1 = unat n \<and> buf_block h1 b1 = (if clr then replicate (unat n) 0 else blk) \<and>
    (\<exists>b2. BOF_BUFFER_dtor os h1 b1 = Ret (h, b2) \<and> BOF_BUFFER_IsNull b2) \<and>
    (\<exists>b3. Bof_AlignedMemFree os h1 b1 = Ret (h, b3, BOF_ERR_NO_ERROR) \<and> BOF_BUFFER_IsNull b3 \<and>
       Bof_AlignedMemFree os h b3 = Ret (h, b3, BOF_ERR_EINVAL)) \<and>
    (mt \<longrightarrow> BOF_BUFFER_ReleaseStorage os h1 b1 = Blocked \<and> BOF_BUFFER_Reset os h1 b1 = Blocked \<and>
       (\<forall>m. m < 0x100000000 \<longrightarrow> BOF_BUFFER_AllocStorage os h1 b1 m = Blocked \<and> BOF_BUFFER_SetStorage os h1 b1 m 0 None = Blocked) \<and>
       Bof_AlignedMemAlloc os hp h1 BOF_BUFFER_ALLOCATE_ZONE_RAM al n False 0 clr b1 = Blocked)"
proof -
  obtain b0 where b0: "BOF_BUFFER_ctor mt prio = Ret b0" "buf_null b0" "buf_sync b0" "buf_MultiThreadAware_B b0 = mt" using buf_ctor_ok by blast
  have d: "buf_Deleter_E b0 = BOF_BUFFER_DELETER_NONE" using b0(2) by (simp add: buf_null_def)
  have r: "BOF_BUFFER_Reset os h b0 = Ret (h, (buf_emptied b0)\<lparr>buf_pUser := None\<rparr>)"
    unfolding BOF_BUFFER_Reset_def release_depth by (rule Reset_none [OF buf_sync_quiet [OF b0(3)] d])
  define hdr where "hdr = BOF_BUFFER_ALLOCATE_HEADER_Reset\<lparr>hdr_AllocateZone_E := BOF_BUFFER_ALLOCATE_ZONE_RAM\<rparr>"
  define blk' where "blk' = (if clr then replicate (unat n) 0 else blk)"
  define b1 where "b1 = (buf_emptied b0)\<lparr>buf_Deleter_E := BOF_BUFFER_DELETER_ALIGNED_FREE, buf_Capacity_U64 := ucast n,
    buf_pData_U8 := Some a, buf_pUser := Some u\<rparr>"
  define h1 where "h1 = h\<lparr>bh_blocks := (bh_blocks h)(a \<mapsto> blk'), bh_headers := (bh_headers h)(u \<mapsto> hdr)\<rparr>"
  have alloc: "Bof_AlignedMemAlloc os hp h BOF_BUFFER_ALLOCATE_ZONE_RAM al n False 0 clr b0 = Ret (hp, h1, b1, BOF_ERR_NO_ERROR)"
    using assms(1-3,6) by (simp add: Bof_AlignedMemAlloc_def r zone_alloc_def hdr_def heap_store_def h1_def b1_def blk'_def buf_emptied_def Let_def)
  have "unat n < 2 ^ 32" using unsigned_less [of n, where ?'a = nat] by simp
  then have un: "unat (ucast n :: u64) = unat n" by (simp add: unsigned_ucast_eq take_bit_nat_eq_self)
  have v: "buf_Deleter_E b1 = BOF_BUFFER_DELETER_ALIGNED_FREE" "buf_pUser b1 = Some u" "bh_headers h1 u = Some hdr" "buf_pData_U8 b1 = Some a"
    "bh_blocks h1 a = Some blk'" "buf_MultiThreadAware_B b1 = mt" "buf_Mtx_X b1 = buf_Mtx_X b0"
    using b0(4) by (simp_all add: b1_def h1_def)
  have "length blk' = unat n" using assms(3) by (simp add: blk'_def)
  then have ok: "buf_ok h1 b1" "buf_room b1 = unat n" "buf_block h1 b1 = blk'"
    using b0(3) v assms(4) un by (auto simp: buf_ok_def BOF_BUFFER_IsValid_def buf_sync_def buf_room_def buf_block_def b1_def word_unat_eq_iff)
      (simp_all add: buf_emptied_def)
  have "BOF_BUFFER_dtor os h1 b1 = Ret (h, (buf_emptied (buf_dead b1))\<lparr>buf_pUser := None\<rparr>)"
    using dtor_aligned [OF v(1-5), of os] assms(5,7)
    by (cases h) (simp add: h1_def freed_block_def hdr_def fun_upd_idem)
  then have dt: "\<exists>b2. BOF_BUFFER_dtor os h1 b1 = Ret (h, b2) \<and> BOF_BUFFER_IsNull b2"
    using buf_null_emptied [of "buf_dead b1"] by (auto simp: buf_null_def)
  have "buf_quiet b1" by (rule buf_sync_quiet) (use ok(1) in \<open>simp add: buf_ok_def\<close>)
  then have "Bof_AlignedMemFree os h1 b1 = Ret (h, (buf_emptied b1)\<lparr>buf_pUser := None\<rparr>, BOF_ERR_NO_ERROR)"
    using AlignedMemFree_ram [OF v(2-5), of os] assms(5,7)
    by (cases h) (simp add: h1_def hdr_def BOF_BUFFER_ALLOCATE_HEADER_Reset_def fun_upd_idem)
  moreover have "BOF_BUFFER_IsNull ((buf_emptied b1)\<lparr>buf_pUser := None\<rparr>)"
    using buf_null_emptied [of b1] by (simp add: buf_null_def)
  ultimately have fr: "\<exists>b3. Bof_AlignedMemFree os h1 b1 = Ret (h, b3, BOF_ERR_NO_ERROR) \<and> BOF_BUFFER_IsNull b3 \<and>
      Bof_AlignedMemFree os h b3 = Ret (h, b3, BOF_ERR_EINVAL)"
    by (simp add: Bof_AlignedMemFree_def Bof_AlignedMemFree_with_def)
  have bl: "BOF_BUFFER_ReleaseStorage os h1 b1 = Blocked" "BOF_BUFFER_Reset os h1 b1 = Blocked" if mt
    using Release_aligned_blocks [OF v(1-5)] b0(3,4) v(6,7) that by (simp_all add: buf_sync_def)
  then have "mt \<Longrightarrow> BOF_BUFFER_AllocStorage os h1 b1 m = Blocked \<and> BOF_BUFFER_SetStorage os h1 b1 m 0 None = Blocked" if "m < 0x100000000" for m
    using that by (simp add: BOF_BUFFER_AllocStorage_def BOF_BUFFER_SetStorage_def)
  moreover have "mt \<Longrightarrow> Bof_AlignedMemAlloc os hp h1 BOF_BUFFER_ALLOCATE_ZONE_RAM al n False 0 clr b1 = Blocked"
    using bl by (simp add: Bof_AlignedMemAlloc_def)
  ultimately show ?thesis using b0(1) alloc ok bl dt fr blk'_def by blast
qed

theorem Bof_AlignedMemAlloc_life_witness:
  "\<exists>b0 h1 b1. BOF_BUFFER_ctor True False = Ret b0 \<and>
    Bof_AlignedMemAlloc os_example 0 heap_example BOF_BUFFER_ALLOCATE_ZONE_RAM 16 3 False 0 True b0 = Ret (0, h1, b1, BOF_ERR_NO_ERROR) \<and>
    buf_block h1 b1 = replicate 3 0 \<and> BOF_BUFFER_Reset os_example h1 b1 = Blocked"
proof -
  have p: "Bof_IsAPowerOf2 (ucast (16 :: u32))" by (simp add: Bof_IsAPowerOf2_def)
  show ?thesis
    using Bof_AlignedMemAlloc_life [OF p, of os_example heap_example 3 9 "replicate 3 1" 5 True False 0 True]
    by (auto simp: os_example_def heap_example_def)
qed


section \<open>Seeking and huge pages\<close>

lemma SeekAbs_ok:
  assumes "buf_ok h b"
  shows "BOF_BUFFER_SeekAbs b i =
    (if i \<le> buf_Size_U64 b then Ret (b\<lparr>buf_Offset_U64 := i\<rparr>, buf_at b i, Some (buf_Size_U64 b - i)) else Ret (b, None, None))"
proof -
  have s: "buf_sync b" using assms by (simp add: buf_ok_def)
  show ?thesis by (simp add: BOF_BUFFER_SeekAbs_def buf_lock_ready [OF s] buf_unlock_hold [OF s] Let_def buf_at_def)
qed

text \<open>A relative seek moves by the signed amount when the result lies in the data, and fails without effect otherwise.\<close>

lemma SeekRel_ok:
  assumes "buf_ok h b" "unat (buf_Size_U64 b) < 2 ^ 63"
  shows "let o' = uint (buf_Offset_U64 b) + sint d in
    BOF_BUFFER_SeekRel b d =
      (if 0 \<le> o' \<and> o' \<le> uint (buf_Size_U64 b)
       then Ret (b\<lparr>buf_Offset_U64 := of_int o'\<rparr>, buf_at b (of_int o'), Some (buf_Size_U64 b - of_int o'))
       else Ret (b, None, None))"
proof -
  have s: "buf_sync b" and oz: "unat (buf_Offset_U64 b) \<le> unat (buf_Size_U64 b)"
    using assms(1) by (auto elim!: buf_okE)
  define o' where "o' = uint (buf_Offset_U64 b) + sint d"
  have w: "buf_Offset_U64 b + d = of_int o'" by (simp add: o'_def)
  have rng: "- (2 ^ 63) \<le> sint d" "sint d < 2 ^ 63" using sint_range_size [of d] by (simp_all add: word_size)
  have le: "of_int o' \<le> buf_Size_U64 b \<longleftrightarrow> 0 \<le> o' \<and> o' \<le> uint (buf_Size_U64 b)"
  proof -
    have u: "uint (of_int o' :: u64) = o' mod 2 ^ 64" by (simp add: unsigned_of_int take_bit_eq_mod)
    have "unat (buf_Offset_U64 b) < 2 ^ 63" using oz assms(2) by (rule le_less_trans)
    then have n: "uint (buf_Offset_U64 b) < 2 ^ 63" "0 \<le> uint (buf_Offset_U64 b)" by (simp_all only: unat_eq_nat_uint nat_less_numeral_power_cancel_iff uint_nonnegative)
    have "o' < 2 ^ 64" using rng n by (simp add: o'_def)
    moreover have lo: "- (2 ^ 63) \<le> o'" unfolding o'_def using rng n by linarith
    ultimately have "o' mod 2 ^ 64 = (if 0 \<le> o' then o' else o' + 2 ^ 64)"
      using mod_pos_pos_trivial [of o' "2 ^ 64"] mod_pos_pos_trivial [of "o' + 2 ^ 64" "2 ^ 64"] mod_add_self2 [of o' "2 ^ 64"] by simp
    moreover have "uint (buf_Size_U64 b) < 2 ^ 63" using assms(2) by (simp only: unat_eq_nat_uint nat_less_numeral_power_cancel_iff)
    ultimately show ?thesis using u lo unfolding word_le_def by (cases "0 \<le> o'") simp_all
  qed
  show ?thesis unfolding o'_def [symmetric] Let_def
    by (simp add: BOF_BUFFER_SeekRel_def buf_lock_ready [OF s] buf_unlock_hold [OF s] Let_def buf_at_def w le)
qed

text \<open>
  A huge page is unmapped with the number of bytes written so far as its
  length. The operating system refuses a length of 0, so that an unused huge page
  stays mapped after its buffer is destroyed.
\<close>

lemma huge_page_stays_mapped:
  assumes "buf_Deleter_E b = BOF_BUFFER_DELETER_ALIGNED_FREE" "buf_pUser b = Some u" "bh_headers h u = Some hdr"
    "hdr_AllocateZone_E hdr = BOF_BUFFER_ALLOCATE_ZONE_HUGE_PAGE" "buf_pData_U8 b = Some a" "bh_blocks h a = Some blk"
    "buf_Size_U64 b = 0" "os_munmap os 0 blk = Some blk"
  shows "\<exists>h' b'. BOF_BUFFER_dtor os h b = Ret (h', b') \<and> bh_blocks h' a = Some blk \<and> bh_headers h' u = None"
  using dtor_aligned [OF assms(1-3,5,6), of os] assms(4,7,8) by (simp add: freed_block_def)

end
