(* ===== verification/Bof_Bit_Props.thy ===== *)
theory Bof_Bit_Props
  imports Bof_Bit
begin

text \<open>
  Correctness of the bit functions against their arithmetic meaning: the
  position of a bit is the exponent of a power of two around or dividing the
  value, the loops that clear the lowest bit count the bits and find powers of
  two, and the binary text gives the value back.
\<close>

section \<open>The highest bit\<close>

text \<open>\<open>log_of v e\<close>: \<open>e\<close> is the whole part of the binary logarithm of \<open>v\<close>.\<close>

definition log_of :: "nat \<Rightarrow> nat \<Rightarrow> bool" where
  "log_of v e \<longleftrightarrow> 2 ^ e \<le> v \<and> v < 2 ^ Suc e"

lemma log_of_unique: "log_of v e \<Longrightarrow> log_of v f \<Longrightarrow> e = f"
  unfolding log_of_def by (metis le_less_trans less_Suc_eq_le nle_le one_less_numeral_iff power_less_imp_less_exp semiring_norm(76))

lemma log_of_shift: "log_of (v div 2 ^ k) e \<Longrightarrow> log_of v (k + e)"
proof -
  assume a: "log_of (v div 2 ^ k) e"
  have "2 ^ e * 2 ^ k \<le> v div 2 ^ k * 2 ^ k" using a by (simp add: log_of_def)
  also have "\<dots> \<le> v" by simp
  finally have "2 ^ (k + e) \<le> v" by (simp add: power_add mult.commute)
  moreover have "v < 2 ^ Suc e * 2 ^ k" using a by (simp add: log_of_def div_less_iff_less_mult)
  ultimately show ?thesis by (simp add: log_of_def power_add mult_ac)
qed

lemma length_log_table [simp]: "length S_pLogTable256_U8 = 256"
  by (simp add: S_pLogTable256_U8_def LT_def)

lemma log_table_entries: "list_all (\<lambda>i. 2 ^ unat (S_pLogTable256_U8 ! i) \<le> i \<and> i < 2 ^ Suc (unat (S_pLogTable256_U8 ! i)) \<and>
    unat (S_pLogTable256_U8 ! i) < 8) [1..<256]"
  by code_simp

lemma log_table_log:
  assumes "0 < unat i" "unat i < 256" "unat base \<le> 56"
  shows "\<exists>r. log_table base i = Ret r \<and> (\<exists>e. unat r = unat base + e \<and> log_of (unat i) e)"
proof -
  let ?l = "S_pLogTable256_U8 ! unat i"
  have "unat i \<in> set [1..<256]" using assms(1,2) by simp
  then have l: "2 ^ unat ?l \<le> unat i" "unat i < 2 ^ Suc (unat ?l)" "unat ?l < 8"
    using log_table_entries by (auto simp: list_all_iff simp del: set_upt)
  have "unat (base + ?l) = unat base + unat ?l"
    by (rule unat_add_le [of _ _ "63"]) (use assms(3) l(3) in simp)
  then show ?thesis using assms(2) l by (auto simp: log_table_def log_of_def)
qed

lemma log_table_at:
  assumes "unat i = unat v div 2 ^ k" "0 < unat i" "unat i < 256" "unat base = k" "k \<le> 56"
  shows "\<exists>r. log_table base i = Ret r \<and> log_of (unat (v :: u64)) (unat r)"
  using log_table_log [of i base] assms log_of_shift [of "unat v" k] by auto

lemma unat_drop_bit_u32: "unat (drop_bit k (w :: u32)) = unat w div 2 ^ k"
  by (subst unat_drop_bit_eq) (rule drop_bit_eq_div)

lemma unat_high_u32: "unat (ucast (drop_bit 32 (v :: u64)) :: u32) = unat v div 2 ^ 32"
proof -
  have "unat v < 2 ^ 64" using unsigned_less [of v] by simp
  then have "unat v div 2 ^ 32 < 2 ^ 32" by (simp add: div_less_iff_less_mult)
  moreover have "unat (drop_bit 32 v) = unat v div 2 ^ 32" by (subst unat_drop_bit_eq) (rule drop_bit_eq_div)
  ultimately show ?thesis by (simp add: unsigned_ucast_eq take_bit_nat_eq_self)
qed

lemma MostSignificant_log:
  assumes "v \<noteq> 0"
  shows "\<exists>r. Bof_MostSignificantBitSetPosition v = Ret r \<and> log_of (unat v) (unat r)"
proof (cases "v = 1")
  case True then show ?thesis by (simp add: Bof_MostSignificantBitSetPosition_def log_of_def)
next
  case v1: False
  define hi where "hi = (ucast (drop_bit 32 v) :: u32)"
  define lo where "lo = (ucast v :: u32)"
  have hi: "unat hi = unat v div 2 ^ 32" by (simp add: hi_def unat_high_u32)
  have v64: "unat v < 2 ^ 64" using unsigned_less [of v] by simp
  have hi32: "unat hi < 2 ^ 32" using unsigned_less [of hi] by simp
  have lo: "unat lo = unat v" if "hi = 0"
  proof -
    have "unat v div 2 ^ 32 = 0" using hi that by simp
    then have "unat v < 2 ^ 32" by (simp add: div_eq_0_iff)
    then show ?thesis by (simp add: lo_def unsigned_ucast_eq take_bit_nat_eq_self)
  qed
  have vpos: "0 < unat v" using assms by (simp add: unat_gt_0)
  note d = unat_drop_bit_u32
  have nz: "x \<noteq> 0 \<longleftrightarrow> 0 < unat x" for x :: u32 by (simp add: unat_gt_0)
  show ?thesis
  proof (cases "hi = 0")
    case True
    have lo32: "unat lo < 2 ^ 32" using unsigned_less [of lo] by simp
    have e: "Bof_MostSignificantBitSetPosition v =
      (if drop_bit 16 lo \<noteq> 0 then if drop_bit 8 (drop_bit 16 lo) \<noteq> 0 then log_table 24 (drop_bit 8 (drop_bit 16 lo)) else log_table 16 (drop_bit 16 lo)
       else if drop_bit 8 lo \<noteq> 0 then log_table 8 (drop_bit 8 lo) else log_table 0 lo)"
      using assms v1 True by (simp add: Bof_MostSignificantBitSetPosition_def hi_def lo_def Let_def)
    show ?thesis unfolding e using lo [OF True] lo32 vpos
      by (auto simp: nz d div_mult2_eq [symmetric] not_less div_eq_0_iff div_less_iff_less_mult
          intro!: log_table_at [where k = 24 and base = 24] log_table_at [where k = 16 and base = 16] log_table_at [where k = 8 and base = 8] log_table_at [where k = 0 and base = 0])
  next
    case False
    have e: "Bof_MostSignificantBitSetPosition v =
      (if drop_bit 16 hi \<noteq> 0 then if drop_bit 8 (drop_bit 16 hi) \<noteq> 0 then log_table 56 (drop_bit 8 (drop_bit 16 hi)) else log_table 48 (drop_bit 16 hi)
       else if drop_bit 8 hi \<noteq> 0 then log_table 40 (drop_bit 8 hi) else log_table 32 hi)"
      using assms v1 False by (simp add: Bof_MostSignificantBitSetPosition_def hi_def Let_def)
    show ?thesis unfolding e using False hi32
      by (auto simp: nz d hi div_mult2_eq [symmetric] not_less div_eq_0_iff div_less_iff_less_mult
          intro!: log_table_at [where k = 56 and base = 56] log_table_at [where k = 48 and base = 48] log_table_at [where k = 40 and base = 40] log_table_at [where k = 32 and base = 32])
  qed
qed


section \<open>The lowest bit\<close>

definition lowest :: "nat \<Rightarrow> u64 \<Rightarrow> bool" where
  "lowest k v \<longleftrightarrow> bit v k \<and> (\<forall>n<k. \<not> bit v n)"

lemma lowest_exists: "v \<noteq> 0 \<Longrightarrow> \<exists>k<64. lowest k v"
proof -
  assume "v \<noteq> 0"
  then obtain n where n: "bit v n" by (auto simp: bit_eq_iff)
  have "bit v (LEAST n. bit v n)" using n by (rule LeastI)
  moreover from this have "(LEAST n. bit v n) < 64" using bit_imp_le_length [of v] by fastforce
  ultimately show ?thesis unfolding lowest_def by (metis not_less_Least)
qed

lemma lowest_lt: "lowest k v \<Longrightarrow> k < 64"
  using bit_imp_le_length [of v k] by (simp add: lowest_def)

lemma pred_bits: "lowest k v \<Longrightarrow> v - 1 = unset_bit k v OR mask k"
proof -
  assume k: "lowest k v"
  have d: "unset_bit k v AND 2 ^ k = 0" by (rule bit_word_eqI) (auto simp: bit_simps)
  have "v = unset_bit k v OR 2 ^ k"
    by (rule bit_word_eqI) (use k in \<open>auto simp: bit_simps lowest_def\<close>)
  also have "\<dots> = unset_bit k v + 2 ^ k" using d by (simp add: disjunctive_add_eq_or)
  finally have "v - 1 = unset_bit k v + mask k" by (simp add: mask_eq_exp_minus_1)
  moreover have "unset_bit k v AND mask k = 0"
    by (rule bit_word_eqI) (use k in \<open>auto simp: bit_simps lowest_def\<close>)
  ultimately show ?thesis by (simp add: disjunctive_add_eq_or)
qed

lemma clear_lowest: "lowest k v \<Longrightarrow> v AND (v - 1) = unset_bit k v"
  by (rule bit_word_eqI) (auto simp: pred_bits bit_simps lowest_def)

lemma isolate_lowest: "lowest k v \<Longrightarrow> v AND NOT (v - 1) = 2 ^ k"
  by (rule bit_word_eqI) (auto simp: pred_bits bit_simps lowest_def)

lemma bit_unat: "bit (unat (v :: u64)) n = bit v n"
  by (simp add: bit_unsigned_iff)

lemma bit_exp_le: "bit (v :: u64) e \<Longrightarrow> 2 ^ e \<le> unat v"
  unfolding bit_unat [symmetric] bit_iff_odd
  by (metis div_less even_zero not_less)

lemma log_of_bit: "log_of (unat (v :: u64)) e \<Longrightarrow> bit v e"
proof -
  assume "log_of (unat v) e"
  then have "unat v div 2 ^ e = 1" by (intro div_nat_eqI) (simp_all add: log_of_def)
  then show ?thesis by (simp add: bit_unat [symmetric] bit_iff_odd)
qed

lemma log_of_u64: "log_of (unat (v :: u64)) e \<Longrightarrow> e < 64"
  using bit_imp_le_length [of v e] log_of_bit by simp

lemma lowest_dvd: "lowest k v \<Longrightarrow> 2 ^ k dvd unat v \<and> \<not> 2 ^ Suc k dvd unat v"
proof -
  assume k: "lowest k v"
  note b = bit_unat [of v]
  have "take_bit k (unat v) = 0" by (rule bit_eqI) (use k in \<open>auto simp: bit_simps b lowest_def\<close>)
  moreover have "bit (take_bit (Suc k) (unat v)) k" using k by (simp add: bit_simps b lowest_def)
  then have "take_bit (Suc k) (unat v) \<noteq> 0" by (metis bit_0_eq bot_apply bot_bool_def)
  ultimately show ?thesis by (simp add: take_bit_eq_mod mod_eq_0_iff_dvd)
qed

lemma log_of_exp [simp]: "log_of (2 ^ k) e \<longleftrightarrow> e = k"
  using log_of_unique [of "2 ^ k" e k] by (auto simp: log_of_def)

lemma unat_exp_u64: "k < 64 \<Longrightarrow> unat (2 ^ k :: u64) = 2 ^ k"
proof -
  assume k: "k < 64"
  then have "(2::nat) ^ k < 2 ^ 64" by (intro power_strict_increasing) simp_all
  then have "unat (of_nat (2 ^ k) :: u64) = 2 ^ k"
    by (simp add: unsigned_of_nat take_bit_nat_eq_self k del: of_nat_power of_nat_numeral)
  then show ?thesis by simp
qed

section \<open>Counting and powers of two\<close>

definition bits_of :: "u64 \<Rightarrow> nat set" where
  "bits_of v = {n. bit v n}"

lemma bits_of_finite [simp]: "finite (bits_of v)"
  by (rule finite_subset [of _ "{..<64}"]) (use bit_imp_le_length [of v] in \<open>auto simp: bits_of_def\<close>)

lemma bits_of_card_le: "card (bits_of v) \<le> 64"
  using card_mono [of "{..<64}" "bits_of v"] bit_imp_le_length [of v] by (auto simp: bits_of_def)

lemma bits_of_empty [simp]: "bits_of v = {} \<longleftrightarrow> v = 0"
  using bit_imp_le_length [of v] by (auto simp: bits_of_def bit_eq_iff)

lemma bits_of_clear: "lowest k v \<Longrightarrow> bits_of (unset_bit k v) = bits_of v - {k} \<and> k \<in> bits_of v"
  by (auto simp: bits_of_def bit_simps lowest_def)

lemma number_of_bit_loop_card: "number_of_bit_loop r v = r + of_nat (card (bits_of v))"
proof (induction r v rule: number_of_bit_loop.induct)
  case (1 r v)
  show ?case
  proof (cases "v = 0")
    case False
    then obtain k where k: "lowest k v" using lowest_exists by blast
    have "card (bits_of v) = Suc (card (bits_of (v AND (v - 1))))"
      using bits_of_clear [OF k] card_Suc_Diff1 [OF bits_of_finite, of k v] by (simp only: clear_lowest [OF k])
    then show ?thesis using 1 False by (subst number_of_bit_loop.simps) (simp add: algebra_simps)
  next
    case True
    then have "bits_of v = {}" by simp
    then show ?thesis using True by (subst number_of_bit_loop.simps) (simp del: bits_of_empty)
  qed
qed

lemma IsAPowerOf2_iff: "Bof_IsAPowerOf2 v \<longleftrightarrow> (\<exists>k<64. v = 2 ^ k)"
proof
  assume a: "Bof_IsAPowerOf2 v"
  then obtain k where k: "k < 64" "lowest k v" using lowest_exists by (auto simp: Bof_IsAPowerOf2_def)
  have u: "unset_bit k v = 0" using a clear_lowest [OF k(2)] by (simp add: Bof_IsAPowerOf2_def)
  have "bit (unset_bit k v) n \<longleftrightarrow> bit v n \<and> n \<noteq> k" for n by (auto simp: bit_unset_bit_iff)
  then have b: "bit v n \<longleftrightarrow> n = k" for n using k(2) u by (auto simp: lowest_def)
  have "v = 2 ^ k" by (rule bit_word_eqI) (simp add: b bit_exp_iff)
  then show "\<exists>k<64. v = 2 ^ k" using k(1) by blast
next
  assume "\<exists>k<64. v = 2 ^ k"
  then obtain k where k: "k < 64" "v = 2 ^ k" by blast
  have "lowest k v" using k by (auto simp: lowest_def bit_simps)
  moreover have "unset_bit k v = 0" by (rule bit_word_eqI) (simp add: k bit_simps)
  moreover have "v \<noteq> 0" using k by auto
  ultimately show "Bof_IsAPowerOf2 v" by (simp add: Bof_IsAPowerOf2_def clear_lowest)
qed

lemma one_bit_left_log: "v \<noteq> 0 \<Longrightarrow> log_of (unat v) e \<Longrightarrow> one_bit_left v = 2 ^ e"
proof (induction v rule: one_bit_left.induct)
  case (1 v)
  let ?w = "v AND (v - 1)"
  obtain k where k: "k < 64" "lowest k v" using lowest_exists [OF 1(2)] by blast
  show ?case
  proof (cases "?w = 0")
    case True
    then have "Bof_IsAPowerOf2 v" using 1(2) by (simp add: Bof_IsAPowerOf2_def)
    then obtain j where "j < 64" "v = 2 ^ j" by (auto simp: IsAPowerOf2_iff)
    moreover have "one_bit_left v = v" using True by (subst one_bit_left.simps) simp
    ultimately show ?thesis using 1(3) by (simp add: unat_exp_u64)
  next
    case False
    have e64: "e < 64" and top: "bit v e" using 1(3) log_of_u64 log_of_bit by blast+
    have "e \<noteq> k"
    proof
      assume "e = k"
      then have "2 ^ e dvd unat v" using lowest_dvd [OF k(2)] by simp
      then obtain c where "unat v = 2 ^ e * c" by (rule dvdE)
      then have "unat v = 2 ^ e" using 1(3) by (cases "c = 1") (auto simp: log_of_def)
      then have "v = 2 ^ e" using e64 by (metis unat_exp_u64 word_unat_eq_iff)
      then have "Bof_IsAPowerOf2 v" using e64 by (auto simp: IsAPowerOf2_iff)
      then show False using False by (simp add: Bof_IsAPowerOf2_def)
    qed
    then have "bit ?w e" using top clear_lowest [OF k(2)] by (simp add: bit_simps)
    then have "2 ^ e \<le> unat ?w" by (rule bit_exp_le)
    moreover have "unat ?w < 2 ^ Suc e" using and_pred_less [OF 1(2)] 1(3) by (simp add: log_of_def)
    ultimately have "one_bit_left ?w = 2 ^ e" using 1(1) False by (simp add: log_of_def)
    then show ?thesis using False by (subst one_bit_left.simps) simp
  qed
qed


section \<open>Multiples\<close>

lemma RoundUp_correct:
  assumes "m \<noteq> 0" "((unat v + unat m - 1) div unat m) * unat m < 2 ^ 64"
  shows "\<exists>r. Bof_RoundUpOnMultipleOf v m = Ret r \<and> Bof_IsAligned m r \<and> unat r = ((unat v + unat m - 1) div unat m) * unat m"
proof -
  define q where "q = unat v div unat m"
  define t where "t = unat v mod unat m"
  have m0: "0 < unat m" using assms(1) by (simp add: unat_gt_0)
  have v: "unat v = q * unat m + t" and t: "t < unat m" using m0 by (simp_all add: q_def t_def)
  have ut: "unat (v mod m) = t" by (simp add: t_def unat_mod)
  show ?thesis
  proof (cases "t = 0")
    case True
    then have "v mod m = 0" using ut by (simp add: unat_eq_0)
    moreover have "(unat v + unat m - 1) div unat m = q"
      using True v m0 by (intro div_nat_eqI) (simp_all add: algebra_simps)
    ultimately show ?thesis using assms(1) True v by (simp add: Bof_RoundUpOnMultipleOf_def Bof_IsAligned_def)
  next
    case False
    then have nz: "v mod m \<noteq> 0" using ut by (metis unat_0)
    have d: "(unat v + unat m - 1) div unat m = Suc q"
      using False v t by (intro div_nat_eqI) (simp_all add: algebra_simps)
    have s: "unat (m - v mod m) = unat m - t" using ut t by (subst unat_sub) (simp_all add: word_le_nat_alt)
    have "unat v + unat (m - v mod m) = Suc q * unat m" using s v t by simp
    then have "unat v + unat (m - v mod m) < 2 ^ 64" using assms(2) d by simp
    then have "unat (v + (m - v mod m)) = Suc q * unat m"
      using \<open>unat v + unat (m - v mod m) = Suc q * unat m\<close> by (simp add: unat_word_ariths)
    moreover from this have "(v + (m - v mod m)) mod m = 0" by (simp add: unat_eq_0 [symmetric] unat_mod)
    ultimately show ?thesis using assms(1) nz d by (simp add: Bof_RoundUpOnMultipleOf_def Bof_IsAligned_def Let_def)
  qed
qed

section \<open>Binary text\<close>

fun bit_text :: "nat \<Rightarrow> u32 \<Rightarrow> u32 \<Rightarrow> u32 \<Rightarrow> string" where
  "bit_text 0 v e c = []"
| "bit_text (Suc n) v e c = (if bit v 31 then CHR ''1'' else CHR ''0'') #
     (if c + 1 \<ge> e then CHR '' '' # bit_text n (push_bit 1 v) e 0 else bit_text n (push_bit 1 v) e (c + 1))"

lemma top_bit: "v AND 0x80000000 \<noteq> 0 \<longleftrightarrow> bit (v :: u32) 31"
proof -
  have "(0x80000000 :: u32) = push_bit 31 1" by (simp add: push_bit_eq_mult)
  then show ?thesis by (simp only: and_exp_eq_0_iff_not_bit [of v 31, unfolded push_bit_of_1 [symmetric]]) simp
qed

lemma bit_text_length: "length (bit_text n v e c) \<le> 2 * n"
  by (induction n v e c rule: bit_text.induct) auto

lemma bit_text_set: "set (bit_text n v e c) \<subseteq> {CHR ''0'', CHR ''1'', CHR '' ''}"
  by (induction n v e c rule: bit_text.induct) auto

lemma take_upd: "i < length s \<Longrightarrow> take (Suc i) (s[i := x]) = take i s @ [x]"
  by (simp add: take_Suc_conv_app_nth)

lemma bit_to_string_loop_text:
  "i + length (bit_text n v e c) \<le> length s \<Longrightarrow>
    bit_to_string_loop n v e c i s =
      Ret (i + length (bit_text n v e c), take i s @ bit_text n v e c @ drop (i + length (bit_text n v e c)) s)"
proof (induction n v e c arbitrary: i s rule: bit_text.induct)
  case (2 n v e c)
  show ?case
  proof (cases "c + 1 \<ge> e")
    case True
    let ?s = "s[i := if bit v 31 then CHR ''1'' else CHR ''0'', Suc i := CHR '' '']"
    have "take (Suc (Suc i)) ?s = take i s @ [if bit v 31 then CHR ''1'' else CHR ''0'', CHR '' '']"
      using "2.prems" True by (subst take_upd) (simp_all add: take_upd)
    then show ?thesis using 2(1) [OF True, of "Suc (Suc i)" ?s] "2.prems" True by (simp add: top_bit)
  next
    case False
    let ?s = "s[i := if bit v 31 then CHR ''1'' else CHR ''0'']"
    have "take (Suc i) ?s = take i s @ [if bit v 31 then CHR ''1'' else CHR ''0'']"
      using "2.prems" False by (subst take_upd) simp_all
    then show ?thesis using 2(2) [OF False, of "Suc i" ?s] "2.prems" False by (simp add: top_bit)
  qed
qed simp

fun binary_value :: "string \<Rightarrow> nat \<Rightarrow> nat" where
  "binary_value [] a = a"
| "binary_value (c # cs) a = binary_value cs (if c = CHR '' '' then a else 2 * a + (if c = CHR ''1'' then 1 else 0))"

lemma unat_push_1: "unat (push_bit 1 (v :: u32)) = 2 * (unat v mod 2 ^ 31)"
proof -
  have "unat (push_bit 1 v) = (2 * unat v) mod (2 * 2 ^ 31)"
    by (subst unsigned_push_bit_eq) (simp add: take_bit_eq_mod push_bit_eq_mult mult.commute)
  then show ?thesis by (simp only: mult_mod_right)
qed

lemma top_bit_div: "unat (v :: u32) div 2 ^ 31 = (if bit v 31 then 1 else 0)"
proof -
  have "unat v < 2 ^ 32" using unsigned_less [of v] by simp
  then have "unat v div 2 ^ 31 < 2" by (simp add: div_less_iff_less_mult)
  moreover have "bit v 31 \<longleftrightarrow> odd (unat v div 2 ^ 31)"
    unfolding bit_iff_odd [symmetric] by (simp add: bit_unsigned_iff)
  ultimately show ?thesis by (auto elim!: oddE simp: less_2_cases_iff)
qed

lemma binary_value_bit_text: "n \<le> 32 \<Longrightarrow> binary_value (bit_text n v e c) a = a * 2 ^ n + unat v div 2 ^ (32 - n)"
proof (induction n arbitrary: v c a)
  case 0
  have "unat v < 2 ^ 32" using unsigned_less [of v] by simp
  then show ?case by simp
next
  case (Suc n)
  let ?d = "if bit v 31 then 1 else 0 :: nat" and ?w = "push_bit 1 v"
  have "unat ?w div 2 ^ (32 - n) = (unat v mod 2 ^ 31) div 2 ^ (31 - n)"
  proof -
    have "32 - n = Suc (31 - n)" using Suc.prems by simp
    then show ?thesis by (simp only: unat_push_1 power_Suc) (rule div_mult_mult1, simp)
  qed
  moreover have "unat v div 2 ^ (31 - n) = ?d * 2 ^ n + (unat v mod 2 ^ 31) div 2 ^ (31 - n)"
  proof -
    have "unat v = ?d * 2 ^ n * 2 ^ (31 - n) + unat v mod 2 ^ 31"
      using Suc.prems div_mult_mod_eq [of "unat v" "2 ^ 31"] by (simp only: top_bit_div) (simp add: power_add [symmetric] split: if_splits)
    then show ?thesis by (metis div_mult_self3 power_not_zero zero_neq_numeral)
  qed
  ultimately show ?case using Suc by (simp add: algebra_simps)
qed


section \<open>Properties\<close>

lemma lowest_of_exp: "lowest k v \<Longrightarrow> \<exists>r. Bof_LessSignificantBitSetPosition v = Ret r \<and> unat r = k"
proof -
  assume k: "lowest k v"
  have "(2 ^ k :: u64) \<noteq> 0" using lowest_lt [OF k] unat_exp_u64 [of k] by auto
  then show ?thesis
    using MostSignificant_log [of "2 ^ k"] unat_exp_u64 [OF lowest_lt [OF k]]
    by (auto simp: Bof_LessSignificantBitSetPosition_def isolate_lowest [OF k])
qed

text \<open>
  C34. For every value other than 0, the position of the most significant bit
  (and \<^verbatim>\<open>Bof_Log2\<close>) is the whole part of the binary logarithm, looked up without
  leaving the 256 entries of the table; the position of the least significant
  bit is the exponent of the largest power of two that divides the value; and
  the number of bits set is counted exactly. For 0 both positions are 0xFF.
\<close>

theorem Bof_bit_positions:
  "(v \<noteq> 0 \<longrightarrow> (\<exists>h l. Bof_MostSignificantBitSetPosition v = Ret h \<and> Bof_Log2 v = Ret h \<and>
       2 ^ unat h \<le> unat v \<and> unat v < 2 ^ Suc (unat h) \<and>
       Bof_LessSignificantBitSetPosition v = Ret l \<and> 2 ^ unat l dvd unat v \<and> \<not> 2 ^ Suc (unat l) dvd unat v)) \<and>
   (v = 0 \<longrightarrow> Bof_MostSignificantBitSetPosition v = Ret 0xFF \<and> Bof_LessSignificantBitSetPosition v = Ret 0xFF) \<and>
   unat (Bof_FindNumberOfBitSet v) = card {n. bit v n}"
proof -
  have "card (bits_of v) < 2 ^ 8" using bits_of_card_le [of v] by simp
  then have "unat (Bof_FindNumberOfBitSet v) = card {n. bit v n}"
    unfolding bits_of_def [symmetric]
    by (simp add: Bof_FindNumberOfBitSet_def number_of_bit_loop_card unsigned_of_nat take_bit_nat_eq_self)
  moreover have "\<exists>h l. Bof_MostSignificantBitSetPosition v = Ret h \<and> Bof_Log2 v = Ret h \<and>
       2 ^ unat h \<le> unat v \<and> unat v < 2 ^ Suc (unat h) \<and>
       Bof_LessSignificantBitSetPosition v = Ret l \<and> 2 ^ unat l dvd unat v \<and> \<not> 2 ^ Suc (unat l) dvd unat v" if v0: "v \<noteq> 0"
  proof -
    obtain k where k: "lowest k v" using lowest_exists [OF v0] by blast
    show ?thesis using MostSignificant_log [OF v0] lowest_of_exp [OF k] lowest_dvd [OF k]
      unfolding Bof_Log2_def log_of_def by blast
  qed
  moreover have "v = 0 \<Longrightarrow> Bof_MostSignificantBitSetPosition v = Ret 0xFF \<and> Bof_LessSignificantBitSetPosition v = Ret 0xFF"
    by (simp add: Bof_MostSignificantBitSetPosition_def Bof_LessSignificantBitSetPosition_def)
  ultimately show ?thesis by blast
qed

theorem Bof_bit_positions_witness:
  "\<exists>h l. Bof_MostSignificantBitSetPosition 40 = Ret h \<and> Bof_LessSignificantBitSetPosition 40 = Ret l \<and>
     2 ^ unat h \<le> (40::nat) \<and> 40 < (2::nat) ^ Suc (unat h) \<and> 2 ^ unat l dvd (40::nat)"
  using Bof_bit_positions [of 40] by auto

lemma IsAPowerOf2_unat: "Bof_IsAPowerOf2 v \<longleftrightarrow> (\<exists>k<64. unat v = 2 ^ k)"
  unfolding IsAPowerOf2_iff by (metis unat_exp_u64 word_unat_eq_iff)

lemma NextHighest_log:
  assumes "v \<noteq> 0" "v \<noteq> 1" "log_of (unat v - 1) e"
  shows "Bof_NextHighestPowerOf2 v = 2 ^ Suc e"
proof -
  have "v - 1 \<noteq> 0" using assms(2) by simp
  then show ?thesis using one_bit_left_log [of "v - 1" e] assms by (simp add: Bof_NextHighestPowerOf2_def push_bit_eq_mult)
qed

lemma NextHighest_least:
  assumes "2 \<le> unat v" "unat v \<le> 2 ^ 63"
  shows "Bof_IsAPowerOf2 (Bof_NextHighestPowerOf2 v)" "unat v \<le> unat (Bof_NextHighestPowerOf2 v)"
    "Bof_IsAPowerOf2 p \<Longrightarrow> unat v \<le> unat p \<Longrightarrow> unat (Bof_NextHighestPowerOf2 v) \<le> unat p"
proof -
  have nz: "v \<noteq> 0" "v \<noteq> 1" using assms(1) by auto
  have "v - 1 \<noteq> 0" using nz(2) by simp
  then obtain e where e: "log_of (unat v - 1) e" using MostSignificant_log [of "v - 1"] nz(1) by auto
  have "(2::nat) ^ e < 2 ^ 63" using assms e unfolding log_of_def by linarith
  then have e63: "e < 63" by (rule power_less_imp_less_exp [rotated]) simp
  then have u: "unat (Bof_NextHighestPowerOf2 v) = 2 ^ Suc e"
    using NextHighest_log [OF nz e] unat_exp_u64 [of "Suc e"] by simp
  show "Bof_IsAPowerOf2 (Bof_NextHighestPowerOf2 v)" unfolding IsAPowerOf2_unat using u e63 by (intro exI [of _ "Suc e"]) simp
  show "unat v \<le> unat (Bof_NextHighestPowerOf2 v)" using u e unfolding log_of_def by linarith
  show "unat (Bof_NextHighestPowerOf2 v) \<le> unat p" if p: "Bof_IsAPowerOf2 p" "unat v \<le> unat p"
  proof -
    from p(1) obtain k where k: "unat p = 2 ^ k" unfolding IsAPowerOf2_unat by (elim exE conjE)
    have "(2::nat) ^ e < 2 ^ k" using e p(2) assms(1) unfolding k log_of_def by linarith
    then have "e < k" by (rule power_less_imp_less_exp [rotated]) simp
    then have "Suc e \<le> k" by simp
    then show ?thesis unfolding u k by (intro power_increasing) simp_all
  qed
qed

lemma NextHighest_zero:
  assumes "unat v < 2 \<or> 2 ^ 63 < unat v"
  shows "Bof_NextHighestPowerOf2 v = 0"
proof -
  have "unat (1 :: u64) = 1" by simp
  then consider "v = 0" | "v = 1" | "v \<noteq> 0" "v \<noteq> 1" "2 ^ 63 < unat v"
    using assms by (metis less_2_cases One_nat_def unat_0 word_unat_eq_iff)
  then show ?thesis
  proof cases
    case 1
    have "log_of (unat (- 1 :: u64)) 63" by (simp add: log_of_def unsigned_minus_1_eq_mask mask_eq_exp_minus_1)
    then show ?thesis using one_bit_left_log [of "- 1" 63] 1 by (simp add: Bof_NextHighestPowerOf2_def push_bit_eq_mult)
  next
    case 2 then show ?thesis by (simp add: Bof_NextHighestPowerOf2_def one_bit_left.simps)
  next
    case 3
    have "unat v < 2 ^ 64" using unsigned_less [of v] by simp
    then have "log_of (unat v - 1) 63" using 3(3) by (auto simp: log_of_def)
    then show ?thesis using NextHighest_log [OF 3(1,2)] by simp
  qed
qed

text \<open>
  C35. \<^verbatim>\<open>Bof_IsAPowerOf2\<close> accepts exactly the powers of two. Between 2 and
  2 to the 63, \<^verbatim>\<open>Bof_NextHighestPowerOf2\<close> returns the least power of two that is
  not below its argument; its loop ends for every argument. For 1, which is a
  power of two, and for 0 it returns 0, and above 2 to the 63 the shift
  loses the bit and the result is 0 too.
\<close>

theorem Bof_powers_of_2:
  "(Bof_IsAPowerOf2 v \<longleftrightarrow> (\<exists>k<64. unat v = 2 ^ k)) \<and>
   (2 \<le> unat v \<and> unat v \<le> 2 ^ 63 \<longrightarrow> Bof_IsAPowerOf2 (Bof_NextHighestPowerOf2 v) \<and> unat v \<le> unat (Bof_NextHighestPowerOf2 v) \<and>
      (\<forall>p. Bof_IsAPowerOf2 p \<and> unat v \<le> unat p \<longrightarrow> unat (Bof_NextHighestPowerOf2 v) \<le> unat p)) \<and>
   (unat v < 2 \<or> 2 ^ 63 < unat v \<longrightarrow> Bof_NextHighestPowerOf2 v = 0)"
  using IsAPowerOf2_unat NextHighest_least NextHighest_zero by blast

lemma eight_u64: "unat (8 :: u64) = 8 \<and> (5 :: nat) \<le> 8"
  by simp

theorem Bof_powers_of_2_witness:
  "Bof_IsAPowerOf2 (Bof_NextHighestPowerOf2 5) \<and> 5 \<le> unat (Bof_NextHighestPowerOf2 5) \<and>
   unat (Bof_NextHighestPowerOf2 5) \<le> 8 \<and> Bof_NextHighestPowerOf2 1 = 0"
proof -
  have "Bof_IsAPowerOf2 8" by (simp add: Bof_IsAPowerOf2_def)
  moreover have "Bof_IsAPowerOf2 (Bof_NextHighestPowerOf2 5) \<and> 5 \<le> unat (Bof_NextHighestPowerOf2 5) \<and>
    (\<forall>p. Bof_IsAPowerOf2 p \<and> 5 \<le> unat p \<longrightarrow> unat (Bof_NextHighestPowerOf2 5) \<le> unat p)"
    using Bof_powers_of_2 [of 5] by simp
  moreover have "Bof_NextHighestPowerOf2 1 = 0" using Bof_powers_of_2 [of 1] by simp
  ultimately show ?thesis by (metis eight_u64)
qed

lemma BitToString_correct:
  assumes "length pToString_c = 128"
  shows "\<exists>s. Bof_BitToString pToString_c v e = Ret s \<and> binary_value s 0 = unat v \<and> set s \<subseteq> {CHR ''0'', CHR ''1'', CHR '' ''}"
proof -
  let ?t = "bit_text 32 v e 0"
  have l: "length ?t \<le> 64" using bit_text_length [of 32 v e 0] by simp
  have "CHR 0x00 \<notin> set ?t" using bit_text_set [of 32 v e 0] by auto
  then have "takeWhile (\<lambda>c. c \<noteq> CHR 0x00) (?t @ CHR 0x00 # xs) = ?t" for xs by (subst takeWhile_append2) auto
  moreover have "(?t @ drop (length ?t) pToString_c)[length ?t := CHR 0x00] = ?t @ CHR 0x00 # drop (Suc (length ?t)) pToString_c"
    using l assms by (simp add: list_update_append Cons_nth_drop_Suc [symmetric])
  ultimately have "Bof_BitToString pToString_c v e = Ret ?t"
    using l assms by (simp add: Bof_BitToString_def bit_to_string_loop_text)
  then show ?thesis using binary_value_bit_text [of 32 v e 0 0] bit_text_set [of 32 v e 0] by auto
qed

end
