(* ===== verification/Bof_BinSerializer.thy ===== *)
theory Bof_BinSerializer
  imports Bof_Prelude
begin

text \<open>
  The binary serializer of \<^verbatim>\<open>bofbinserializer.h\<close> and \<^verbatim>\<open>bofbinserializer.cpp\<close>: scalars
  are written to and read from a buffer of bytes in the byte order of the
  stream. The byte order of the machine, \<^verbatim>\<open>Bof_IsCpuLittleEndian\<close>, is the argument
  \<open>le\<close>; signed integers, characters and floats are the words of their bits.
\<close>

unbundle bit_operations_syntax

section \<open>Memory representation of integers\<close>

primrec le_bytes :: "nat \<Rightarrow> 'a::len word \<Rightarrow> u8 list" where
  "le_bytes 0 w = []"
| "le_bytes (Suc n) w = ucast w # le_bytes n (drop_bit 8 w)"

primrec of_le_bytes :: "u8 list \<Rightarrow> 'a::len word" where
  "of_le_bytes [] = 0"
| "of_le_bytes (b # bs) = ucast b OR push_bit 8 (of_le_bytes bs)"

text \<open>\<^verbatim>\<open>sizeof\<close> of an integer type, and its bytes in the memory of the machine.\<close>

definition size_of :: "'a::len word itself \<Rightarrow> nat" where
  "size_of _ = LENGTH('a) div 8"

definition native_bytes :: "bool \<Rightarrow> 'a::len word \<Rightarrow> u8 list" where
  "native_bytes le w = (let bs = le_bytes (size_of TYPE('a word)) w in if le then bs else rev bs)"

definition of_native_bytes :: "bool \<Rightarrow> u8 list \<Rightarrow> 'a::len word" where
  "of_native_bytes le bs = of_le_bytes (if le then bs else rev bs)"

text \<open>The store \<^verbatim>\<open>*(T *)&p[i] = w\<close> and the load \<^verbatim>\<open>*(T *)&p[i]\<close>.\<close>

definition mem_store :: "bool \<Rightarrow> u8 list \<Rightarrow> nat \<Rightarrow> 'a::len word \<Rightarrow> (u8 list \<Rightarrow> 'b outcome) \<Rightarrow> 'b outcome" where
  "mem_store le p i w k =
     (if i + size_of TYPE('a word) \<le> length p
      then k (take i p @ native_bytes le w @ drop (i + size_of TYPE('a word)) p) else Undefined)"

definition mem_load :: "bool \<Rightarrow> u8 list \<Rightarrow> nat \<Rightarrow> ('a::len word \<Rightarrow> 'b outcome) \<Rightarrow> 'b outcome" where
  "mem_load le p i k =
     (if i + size_of TYPE('a word) \<le> length p
      then k (of_native_bytes le (take (size_of TYPE('a word)) (drop i p))) else Undefined)"

section \<open>Byte order\<close>

text \<open>\<^verbatim>\<open>Bof_IsCpuLittleEndian\<close> looks at the first byte of 0x69 in memory and caches the answer in a static byte.\<close>

definition Bof_IsCpuLittleEndian :: "bool \<Rightarrow> u8 \<Rightarrow> u8 \<times> bool" where
  "Bof_IsCpuLittleEndian le cache =
     (let cache = (if cache = 0xFF then if hd (native_bytes le (0x69 :: u32)) = 0x69 then 1 else 0 else cache)
      in (cache, cache \<noteq> 0))"

text \<open>\<^verbatim>\<open>__builtin_bswap16\<close>, \<^verbatim>\<open>32\<close> and \<^verbatim>\<open>64\<close>.\<close>

definition bswap :: "'a::len word \<Rightarrow> 'a word" where
  "bswap w = of_le_bytes (rev (le_bytes (size_of TYPE('a word)) w))"

definition EndianScalar :: "bool \<Rightarrow> 'a::len word \<Rightarrow> 'a word outcome" where
  "EndianScalar Swap_B v =
     (if Swap_B then
        if size_of TYPE('a word) = 1 then Ret v
        else if size_of TYPE('a word) = 2 then Ret (bswap v)
        else if size_of TYPE('a word) = 4 then Ret (bswap v)
        else if size_of TYPE('a word) = 8 then Ret (bswap v)
        else AssertFailed
      else Ret v)"

definition ReadScalar :: "bool \<Rightarrow> u8 list \<Rightarrow> ('a::len word \<times> u32) outcome" where
  "ReadScalar le p = mem_load le p 0 (\<lambda>v. bindO (EndianScalar (\<not> le) v) (\<lambda>v. Ret (v, of_nat (size_of TYPE('a word)))))"

definition WriteScalar :: "bool \<Rightarrow> u8 list \<Rightarrow> 'a::len word \<Rightarrow> (u8 list \<times> u32) outcome" where
  "WriteScalar le p v = bindO (EndianScalar (\<not> le) v) (\<lambda>v. mem_store le p 0 v (\<lambda>p. Ret (p, of_nat (size_of TYPE('a word)))))"

definition ReadNativeBlob :: "bool \<Rightarrow> u8 list \<Rightarrow> ('a::len word \<times> u32) outcome" where
  "ReadNativeBlob le p = mem_load le p 0 (\<lambda>v. Ret (v, of_nat (size_of TYPE('a word))))"

definition WriteNativeBlob :: "bool \<Rightarrow> u8 list \<Rightarrow> 'a::len word \<Rightarrow> (u8 list \<times> u32) outcome" where
  "WriteNativeBlob le p v = mem_store le p 0 v (\<lambda>p. Ret (p, of_nat (size_of TYPE('a word))))"

text \<open>\<^verbatim>\<open>BOF_CPU_TO_BE\<close> and \<^verbatim>\<open>BOF_CPU_TO_LE\<close>, and the macros the other way, which are the same.\<close>

definition BOF_CPU_TO_LE :: "bool \<Rightarrow> 'a::len word \<Rightarrow> 'a word outcome" where
  "BOF_CPU_TO_LE le v = EndianScalar (\<not> le) v"

definition BOF_CPU_TO_BE :: "bool \<Rightarrow> 'a::len word \<Rightarrow> 'a word outcome" where
  "BOF_CPU_TO_BE le v = EndianScalar le v"

definition BOF_LE_TO_CPU :: "bool \<Rightarrow> 'a::len word \<Rightarrow> 'a word outcome" where
  "BOF_LE_TO_CPU le v = EndianScalar (\<not> le) v"

definition BOF_BE_TO_CPU :: "bool \<Rightarrow> 'a::len word \<Rightarrow> 'a word outcome" where
  "BOF_BE_TO_CPU le v = EndianScalar le v"

section \<open>The serializer\<close>

datatype BOF_STREAM_ENDIANNESS = BOF_STREAM_IS_BIG_ENDIAN | BOF_STREAM_IS_LITTLE_ENDIAN | BOF_STREAM_ENDIANNESS_IS_UNKNOWN

record BofBinSerializer =
  ser_mEndianness_E :: BOF_STREAM_ENDIANNESS

definition BofBinSerializer_SetStreamEndianness ::
  "BofBinSerializer \<Rightarrow> BOF_STREAM_ENDIANNESS \<Rightarrow> (BofBinSerializer \<times> BOF_STREAM_ENDIANNESS) outcome" where
  "BofBinSerializer_SetStreamEndianness s Endianness_E =
     BOF_ASSERT (Endianness_E \<noteq> BOF_STREAM_ENDIANNESS_IS_UNKNOWN)
       (Ret (if Endianness_E \<noteq> BOF_STREAM_ENDIANNESS_IS_UNKNOWN then s\<lparr>ser_mEndianness_E := Endianness_E\<rparr> else s,
             ser_mEndianness_E s))"

definition BofBinSerializer_GetStreamEndianness :: "BofBinSerializer \<Rightarrow> BOF_STREAM_ENDIANNESS" where
  "BofBinSerializer_GetStreamEndianness s = ser_mEndianness_E s"

definition BofBinSerializer_ctor :: "BofBinSerializer outcome" where
  "BofBinSerializer_ctor =
     bindO (BofBinSerializer_SetStreamEndianness \<lparr>ser_mEndianness_E = BOF_STREAM_ENDIANNESS_IS_UNKNOWN\<rparr> BOF_STREAM_IS_LITTLE_ENDIAN)
       (\<lambda>(s, old). Ret s)"

definition BofBinSerializer_ctor_endianness :: "BOF_STREAM_ENDIANNESS \<Rightarrow> BofBinSerializer outcome" where
  "BofBinSerializer_ctor_endianness Endianness_E =
     bindO (BofBinSerializer_SetStreamEndianness \<lparr>ser_mEndianness_E = BOF_STREAM_ENDIANNESS_IS_UNKNOWN\<rparr> Endianness_E)
       (\<lambda>(s, old). Ret s)"

definition BofBinSerializer_IsStreamBigEndian :: "BofBinSerializer \<Rightarrow> bool" where
  "BofBinSerializer_IsStreamBigEndian s \<longleftrightarrow> BofBinSerializer_GetStreamEndianness s = BOF_STREAM_IS_BIG_ENDIAN"

definition BofBinSerializer_IsStreamLittleEndian :: "BofBinSerializer \<Rightarrow> bool" where
  "BofBinSerializer_IsStreamLittleEndian s \<longleftrightarrow> BofBinSerializer_GetStreamEndianness s = BOF_STREAM_IS_LITTLE_ENDIAN"

section \<open>Writing\<close>

text \<open>
  A buffer is a null pointer (\<open>None\<close>) or the bytes it points to. \<open>ToByte_scalar\<close> is the
  common text of the overloads for 16, 32 and 64 bits: the sum of index
  and size is computed in 64 bits and cannot wrap.
\<close>

type_synonym ser_buffer = "u8 list option"

definition ToByte_U8 :: "bool \<Rightarrow> BofBinSerializer \<Rightarrow> u8 \<Rightarrow> u32 \<Rightarrow> ser_buffer \<Rightarrow> u32 \<Rightarrow> (ser_buffer \<times> u32) outcome" where
  "ToByte_U8 le s Value_U8 Idx_U32 pBuffer_U8 Size_U32 =
     BOF_ASSERT (pBuffer_U8 \<noteq> None)
       (case pBuffer_U8 of
          None \<Rightarrow> Ret (None, 0)
        | Some p \<Rightarrow>
            if unat Idx_U32 + size_of TYPE(u8) \<le> unat Size_U32
            then mem_store le p (unat Idx_U32) Value_U8 (\<lambda>p. Ret (Some p, of_nat (size_of TYPE(u8))))
            else Ret (Some p, 0))"

definition ToByte_scalar ::
  "bool \<Rightarrow> BofBinSerializer \<Rightarrow> 'a::len word \<Rightarrow> u32 \<Rightarrow> ser_buffer \<Rightarrow> u32 \<Rightarrow> (ser_buffer \<times> u32) outcome" where
  "ToByte_scalar le s Value Idx_U32 pBuffer_U8 Size_U32 =
     BOF_ASSERT (pBuffer_U8 \<noteq> None)
       (case pBuffer_U8 of
          None \<Rightarrow> Ret (None, 0)
        | Some p \<Rightarrow>
            if unat Idx_U32 + size_of TYPE('a word) \<le> unat Size_U32
            then bindO (if BofBinSerializer_IsStreamBigEndian s then BOF_CPU_TO_BE le Value else BOF_CPU_TO_LE le Value)
                   (\<lambda>v. mem_store le p (unat Idx_U32) v (\<lambda>p. Ret (Some p, of_nat (size_of TYPE('a word)))))
            else Ret (Some p, 0))"

definition ToByte_S8 :: "bool \<Rightarrow> BofBinSerializer \<Rightarrow> 8 word \<Rightarrow> u32 \<Rightarrow> ser_buffer \<Rightarrow> u32 \<Rightarrow> (ser_buffer \<times> u32) outcome" where
  "ToByte_S8 = ToByte_U8"

definition ToByte_U16 :: "bool \<Rightarrow> BofBinSerializer \<Rightarrow> u16 \<Rightarrow> u32 \<Rightarrow> ser_buffer \<Rightarrow> u32 \<Rightarrow> (ser_buffer \<times> u32) outcome" where
  "ToByte_U16 = ToByte_scalar"

definition ToByte_S16 :: "bool \<Rightarrow> BofBinSerializer \<Rightarrow> 16 word \<Rightarrow> u32 \<Rightarrow> ser_buffer \<Rightarrow> u32 \<Rightarrow> (ser_buffer \<times> u32) outcome" where
  "ToByte_S16 = ToByte_U16"

definition ToByte_U32 :: "bool \<Rightarrow> BofBinSerializer \<Rightarrow> u32 \<Rightarrow> u32 \<Rightarrow> ser_buffer \<Rightarrow> u32 \<Rightarrow> (ser_buffer \<times> u32) outcome" where
  "ToByte_U32 = ToByte_scalar"

definition ToByte_S32 :: "bool \<Rightarrow> BofBinSerializer \<Rightarrow> 32 word \<Rightarrow> u32 \<Rightarrow> ser_buffer \<Rightarrow> u32 \<Rightarrow> (ser_buffer \<times> u32) outcome" where
  "ToByte_S32 = ToByte_U32"

definition ToByte_U64 :: "bool \<Rightarrow> BofBinSerializer \<Rightarrow> u64 \<Rightarrow> u32 \<Rightarrow> ser_buffer \<Rightarrow> u32 \<Rightarrow> (ser_buffer \<times> u32) outcome" where
  "ToByte_U64 = ToByte_scalar"

definition ToByte_S64 :: "bool \<Rightarrow> BofBinSerializer \<Rightarrow> 64 word \<Rightarrow> u32 \<Rightarrow> ser_buffer \<Rightarrow> u32 \<Rightarrow> (ser_buffer \<times> u32) outcome" where
  "ToByte_S64 = ToByte_U64"

definition ToByte_char :: "bool \<Rightarrow> BofBinSerializer \<Rightarrow> 8 word \<Rightarrow> u32 \<Rightarrow> ser_buffer \<Rightarrow> u32 \<Rightarrow> (ser_buffer \<times> u32) outcome" where
  "ToByte_char = ToByte_S8"

definition ToByte_float :: "bool \<Rightarrow> BofBinSerializer \<Rightarrow> 32 word \<Rightarrow> u32 \<Rightarrow> ser_buffer \<Rightarrow> u32 \<Rightarrow> (ser_buffer \<times> u32) outcome" where
  "ToByte_float = ToByte_U32"

definition ToByte_bool :: "bool \<Rightarrow> BofBinSerializer \<Rightarrow> bool \<Rightarrow> u32 \<Rightarrow> ser_buffer \<Rightarrow> u32 \<Rightarrow> (ser_buffer \<times> u32) outcome" where
  "ToByte_bool le s Value_B Idx_U32 pBuffer_U8 Size_U32 = ToByte_U8 le s (if Value_B then 1 else 0) Idx_U32 pBuffer_U8 Size_U32"

section \<open>Reading\<close>

text \<open>The place of the value is a null pointer (\<open>None\<close>) or holds the value before and after. The version is not looked at.\<close>

definition FromByte_U8 ::
  "bool \<Rightarrow> BofBinSerializer \<Rightarrow> u8 option \<Rightarrow> u32 \<Rightarrow> ser_buffer \<Rightarrow> u32 \<Rightarrow> (u8 option \<times> u32) outcome" where
  "FromByte_U8 le s pValue Idx_U32 pBuffer_U8 Size_U32 =
     BOF_ASSERT (pBuffer_U8 \<noteq> None) (BOF_ASSERT (pValue \<noteq> None)
       (case (pBuffer_U8, pValue) of
          (Some p, Some old) \<Rightarrow>
            if unat Idx_U32 + size_of TYPE(u8) \<le> unat Size_U32
            then mem_load le p (unat Idx_U32) (\<lambda>v. Ret (Some v, of_nat (size_of TYPE(u8))))
            else Ret (pValue, 0)
        | _ \<Rightarrow> Ret (pValue, 0)))"

definition FromByte_scalar ::
  "bool \<Rightarrow> BofBinSerializer \<Rightarrow> 'a::len word option \<Rightarrow> u32 \<Rightarrow> ser_buffer \<Rightarrow> u32 \<Rightarrow> ('a word option \<times> u32) outcome" where
  "FromByte_scalar le s pValue Idx_U32 pBuffer_U8 Size_U32 =
     BOF_ASSERT (pBuffer_U8 \<noteq> None) (BOF_ASSERT (pValue \<noteq> None)
       (case (pBuffer_U8, pValue) of
          (Some p, Some old) \<Rightarrow>
            if unat Idx_U32 + size_of TYPE('a word) \<le> unat Size_U32
            then mem_load le p (unat Idx_U32) (\<lambda>v.
                   bindO (if BofBinSerializer_IsStreamBigEndian s then BOF_BE_TO_CPU le v else BOF_LE_TO_CPU le v)
                     (\<lambda>v. Ret (Some v, of_nat (size_of TYPE('a word)))))
            else Ret (pValue, 0)
        | _ \<Rightarrow> Ret (pValue, 0)))"

definition FromByte_S8 :: "bool \<Rightarrow> BofBinSerializer \<Rightarrow> 8 word option \<Rightarrow> u32 \<Rightarrow> ser_buffer \<Rightarrow> u32 \<Rightarrow> (8 word option \<times> u32) outcome" where
  "FromByte_S8 = FromByte_U8"

definition FromByte_U16 :: "bool \<Rightarrow> BofBinSerializer \<Rightarrow> u16 option \<Rightarrow> u32 \<Rightarrow> ser_buffer \<Rightarrow> u32 \<Rightarrow> (u16 option \<times> u32) outcome" where
  "FromByte_U16 = FromByte_scalar"

definition FromByte_S16 :: "bool \<Rightarrow> BofBinSerializer \<Rightarrow> 16 word option \<Rightarrow> u32 \<Rightarrow> ser_buffer \<Rightarrow> u32 \<Rightarrow> (16 word option \<times> u32) outcome" where
  "FromByte_S16 = FromByte_U16"

definition FromByte_U32 :: "bool \<Rightarrow> BofBinSerializer \<Rightarrow> u32 option \<Rightarrow> u32 \<Rightarrow> ser_buffer \<Rightarrow> u32 \<Rightarrow> (u32 option \<times> u32) outcome" where
  "FromByte_U32 = FromByte_scalar"

definition FromByte_S32 :: "bool \<Rightarrow> BofBinSerializer \<Rightarrow> 32 word option \<Rightarrow> u32 \<Rightarrow> ser_buffer \<Rightarrow> u32 \<Rightarrow> (32 word option \<times> u32) outcome" where
  "FromByte_S32 = FromByte_U32"

definition FromByte_U64 :: "bool \<Rightarrow> BofBinSerializer \<Rightarrow> u64 option \<Rightarrow> u32 \<Rightarrow> ser_buffer \<Rightarrow> u32 \<Rightarrow> (u64 option \<times> u32) outcome" where
  "FromByte_U64 = FromByte_scalar"

definition FromByte_S64 :: "bool \<Rightarrow> BofBinSerializer \<Rightarrow> 64 word option \<Rightarrow> u32 \<Rightarrow> ser_buffer \<Rightarrow> u32 \<Rightarrow> (64 word option \<times> u32) outcome" where
  "FromByte_S64 = FromByte_U64"

definition FromByte_char :: "bool \<Rightarrow> BofBinSerializer \<Rightarrow> 8 word option \<Rightarrow> u32 \<Rightarrow> ser_buffer \<Rightarrow> u32 \<Rightarrow> (8 word option \<times> u32) outcome" where
  "FromByte_char = FromByte_S8"

text \<open>The float is read into a local variable \<open>mem\<close>, not initialised; a null pointer for the value is not tested.\<close>

definition FromByte_float ::
  "u32 \<Rightarrow> bool \<Rightarrow> BofBinSerializer \<Rightarrow> 32 word option \<Rightarrow> u32 \<Rightarrow> ser_buffer \<Rightarrow> u32 \<Rightarrow> (32 word option \<times> u32) outcome" where
  "FromByte_float mem le s pValue_f Idx_U32 pBuffer_U8 Size_U32 =
     bindO (FromByte_U32 le s (Some mem) Idx_U32 pBuffer_U8 Size_U32) (\<lambda>(Mem, Rts_U32).
       if Rts_U32 = 4 then if pValue_f = None then Undefined else Ret (Mem, Rts_U32) else Ret (pValue_f, Rts_U32))"

definition FromByte_bool ::
  "bool \<Rightarrow> BofBinSerializer \<Rightarrow> bool option \<Rightarrow> u32 \<Rightarrow> ser_buffer \<Rightarrow> u32 \<Rightarrow> (bool option \<times> u32) outcome" where
  "FromByte_bool le s pValue_B Idx_U32 pBuffer_U8 Size_U32 =
     (case pValue_B of
        None \<Rightarrow> Ret (None, 0)
      | Some old \<Rightarrow>
          bindO (FromByte_U8 le s (Some 0) Idx_U32 pBuffer_U8 Size_U32) (\<lambda>(v, Rts_U32). Ret (map_option (\<lambda>v. v \<noteq> 0) v, Rts_U32)))"

end
