(* ===== verification/Bof_BinSerializer_Props.thy ===== *)
theory Bof_BinSerializer_Props
  imports Bof_BinSerializer
begin

text \<open>
  Correctness of the binary serializer: the bytes a value is written as do not
  depend on the machine, and a sequence of fields written one after the other
  is read back unchanged, on a machine of either byte order.
\<close>

section \<open>Bytes and words\<close>

lemma length_le_bytes [simp]: "length (le_bytes n w) = n"
  by (induction n arbitrary: w) simp_all

lemma le_bytes_numeral: "le_bytes (numeral k) w = ucast w # le_bytes (pred_numeral k) (drop_bit 8 w)"
  by (simp add: numeral_eq_Suc)

lemma nth_le_bytes: "i < n \<Longrightarrow> le_bytes n w ! i = ucast (drop_bit (8 * i) w)"
proof (induction n arbitrary: i w)
  case (Suc n)
  then show ?case by (cases i) (simp_all add: add.commute)
qed simp

lemma bit_of_le_bytes:
  "bit (of_le_bytes bs :: 'a::len word) k \<longleftrightarrow> k < LENGTH('a) \<and> k < 8 * length bs \<and> bit (bs ! (k div 8)) (k mod 8)"
proof (induction bs arbitrary: k)
  case (Cons b bs)
  show ?case
  proof (cases "k < 8")
    case True
    then show ?thesis by (auto simp: bit_simps)
  next
    case False
    then have "k div 8 = Suc ((k - 8) div 8)" "k mod 8 = (k - 8) mod 8" by (simp_all add: le_div_geq le_mod_geq)
    moreover have "\<not> bit b k" using False bit_imp_le_length [of b k] by auto
    ultimately show ?thesis using False Cons.IH [of "k - 8"] by (auto simp: bit_simps)
  qed
qed simp

lemma of_le_bytes_le_bytes:
  assumes "LENGTH('a::len) = 8 * n"
  shows "of_le_bytes (le_bytes n w) = (w :: 'a word)"
proof (rule bit_word_eqI)
  fix k assume "k < LENGTH('a)"
  then have k: "k < 8 * n" "k div 8 < n" using assms by (simp_all add: less_mult_imp_div_less mult.commute)
  have "8 * (k div 8) + k mod 8 = k" by simp
  then show "bit (of_le_bytes (le_bytes n w) :: 'a word) k = bit w k"
    using k assms by (simp add: bit_of_le_bytes nth_le_bytes bit_simps)
qed

lemma le_bytes_of_le_bytes:
  assumes "LENGTH('a::len) = 8 * length bs"
  shows "le_bytes (length bs) (of_le_bytes bs :: 'a word) = bs"
proof (rule nth_equalityI)
  fix i assume "i < length (le_bytes (length bs) (of_le_bytes bs :: 'a word))"
  then have i: "i < length bs" by simp
  show "le_bytes (length bs) (of_le_bytes bs :: 'a word) ! i = bs ! i"
  proof (rule bit_word_eqI)
    fix j assume "j < LENGTH(8)"
    then have "j < 8" by simp
    moreover from this have "(8 * i + j) div 8 = i" "(8 * i + j) mod 8 = j" "8 * i + j < 8 * length bs" using i by simp_all
    ultimately show "bit (le_bytes (length bs) (of_le_bytes bs :: 'a word) ! i) j = bit (bs ! i) j"
      using i assms by (simp add: nth_le_bytes bit_of_le_bytes bit_simps)
  qed
qed simp

text \<open>The integer types of the serializer.\<close>

definition scalar_type :: "'a::len word itself \<Rightarrow> bool" where
  "scalar_type T \<longleftrightarrow> LENGTH('a) = 8 * size_of T \<and> size_of T \<in> {1, 2, 4, 8}"

lemma size_of_simps [simp]: "size_of TYPE(u8) = 1" "size_of TYPE(u16) = 2" "size_of TYPE(u32) = 4" "size_of TYPE(u64) = 8"
  by (simp_all add: size_of_def)

lemma scalar_types [simp]: "scalar_type TYPE(u8)" "scalar_type TYPE(u16)" "scalar_type TYPE(u32)" "scalar_type TYPE(u64)"
  by (simp_all add: scalar_type_def)

lemma length_native_bytes [simp]: "length (native_bytes le (w :: 'a::len word)) = size_of TYPE('a word)"
  by (simp add: native_bytes_def Let_def)

lemma native_round:
  assumes "scalar_type TYPE('a::len word)"
  shows "of_native_bytes le (native_bytes le w) = (w :: 'a word)"
  using assms by (simp add: of_native_bytes_def native_bytes_def Let_def scalar_type_def of_le_bytes_le_bytes)

lemma bytes_bswap:
  assumes "scalar_type TYPE('a::len word)"
  shows "le_bytes (size_of TYPE('a word)) (bswap w) = rev (le_bytes (size_of TYPE('a word)) (w :: 'a word))"
proof -
  have "LENGTH('a) = 8 * length (rev (le_bytes (size_of TYPE('a word)) w))" using assms by (simp add: scalar_type_def)
  from le_bytes_of_le_bytes [OF this] show ?thesis by (simp add: bswap_def)
qed

lemma le_bytes_1: "size_of TYPE('a::len word) = 1 \<Longrightarrow> rev (le_bytes (size_of TYPE('a word)) (w :: 'a word)) = le_bytes (size_of TYPE('a word)) w"
  by simp

text \<open>What \<^verbatim>\<open>EndianScalar\<close> does to the bytes: it reverses them, or not.\<close>

lemma EndianScalar_bytes:
  assumes "scalar_type TYPE('a::len word)"
  shows "\<exists>v. EndianScalar sw (w :: 'a word) = Ret v \<and>
    le_bytes (size_of TYPE('a word)) v = (if sw then rev (le_bytes (size_of TYPE('a word)) w) else le_bytes (size_of TYPE('a word)) w)"
  using assms bytes_bswap [of w, OF assms] le_bytes_1 [of w] by (auto simp: EndianScalar_def scalar_type_def)

lemma bswap_bswap:
  assumes "scalar_type TYPE('a::len word)"
  shows "bswap (bswap w) = (w :: 'a word)"
  using bytes_bswap [OF assms, of w] of_le_bytes_le_bytes [of "size_of TYPE('a word)" w] assms
  by (simp add: bswap_def [of "bswap w"] scalar_type_def)

lemma EndianScalar_twice:
  assumes "scalar_type TYPE('a::len word)" "EndianScalar sw (w :: 'a word) = Ret v"
  shows "EndianScalar sw v = Ret w"
  using assms bswap_bswap [OF assms(1), of w] by (auto simp: EndianScalar_def split: if_splits)

section \<open>Fields\<close>

text \<open>The bytes of a value in a stream.\<close>

definition stream_bytes :: "BofBinSerializer \<Rightarrow> 'a::len word \<Rightarrow> u8 list" where
  "stream_bytes s w = (if BofBinSerializer_IsStreamBigEndian s then rev (le_bytes (size_of TYPE('a word)) w)
     else le_bytes (size_of TYPE('a word)) w)"

lemma length_stream_bytes [simp]: "length (stream_bytes s (w :: 'a::len word)) = size_of TYPE('a word)"
  by (simp add: stream_bytes_def)

lemma ToByte_scalar_ok:
  assumes "scalar_type TYPE('a::len word)" "unat i + size_of TYPE('a word) \<le> unat n" "unat n \<le> length p"
  shows "ToByte_scalar le s (w :: 'a word) i (Some p) n =
    Ret (Some (take (unat i) p @ stream_bytes s w @ drop (unat i + size_of TYPE('a word)) p), of_nat (size_of TYPE('a word)))"
proof -
  obtain v where v: "EndianScalar (if BofBinSerializer_IsStreamBigEndian s then le else \<not> le) w = Ret v"
    "le_bytes (size_of TYPE('a word)) v = (if (if BofBinSerializer_IsStreamBigEndian s then le else \<not> le)
       then rev (le_bytes (size_of TYPE('a word)) w) else le_bytes (size_of TYPE('a word)) w)"
    using EndianScalar_bytes [OF assms(1)] by blast
  then have "native_bytes le v = stream_bytes s w" by (auto simp: native_bytes_def stream_bytes_def Let_def split: if_splits)
  then show ?thesis using v(1) assms(2,3)
    by (simp add: ToByte_scalar_def BOF_CPU_TO_BE_def BOF_CPU_TO_LE_def mem_store_def split: if_splits)
qed

lemma FromByte_scalar_ok:
  assumes "scalar_type TYPE('a::len word)" "unat i + size_of TYPE('a word) \<le> unat n" "unat n \<le> length p"
    "take (size_of TYPE('a word)) (drop (unat i) p) = stream_bytes s (w :: 'a word)"
  shows "FromByte_scalar le s (Some old) i (Some p) n = Ret (Some w, of_nat (size_of TYPE('a word)))"
proof -
  let ?sw = "if BofBinSerializer_IsStreamBigEndian s then le else \<not> le"
  obtain v where v: "EndianScalar ?sw w = Ret v"
    "le_bytes (size_of TYPE('a word)) v = (if ?sw then rev (le_bytes (size_of TYPE('a word)) w) else le_bytes (size_of TYPE('a word)) w)"
    using EndianScalar_bytes [OF assms(1)] by blast
  then have "native_bytes le v = stream_bytes s w" by (auto simp: native_bytes_def stream_bytes_def Let_def split: if_splits)
  then have "of_native_bytes le (stream_bytes s w) = v" using native_round [OF assms(1)] by metis
  then show ?thesis using assms(2-4) EndianScalar_twice [OF assms(1) v(1)]
    by (simp add: FromByte_scalar_def mem_load_def BOF_BE_TO_CPU_def BOF_LE_TO_CPU_def split: if_splits)
qed

lemma U8_order: "(if b then BOF_CPU_TO_BE le v else BOF_CPU_TO_LE le v) = Ret (v :: u8)"
  "(if b then BOF_BE_TO_CPU le v else BOF_LE_TO_CPU le v) = Ret (v :: u8)"
  by (simp_all add: BOF_CPU_TO_BE_def BOF_CPU_TO_LE_def BOF_BE_TO_CPU_def BOF_LE_TO_CPU_def EndianScalar_def)

lemma ToByte_U8_scalar: "ToByte_U8 = ToByte_scalar"
  unfolding fun_eq_iff ToByte_U8_def ToByte_scalar_def U8_order bindO.simps(1) by blast

lemma FromByte_U8_scalar: "FromByte_U8 = FromByte_scalar"
  unfolding fun_eq_iff FromByte_U8_def FromByte_scalar_def U8_order bindO.simps(1) by blast

text \<open>A field of a message, and the call that writes it; to read a field its kind has to be known.\<close>

datatype ser_field = SerU8 u8 | SerS8 "8 word" | SerU16 u16 | SerS16 "16 word" | SerU32 u32 | SerS32 "32 word"
  | SerU64 u64 | SerS64 "64 word" | SerChar "8 word" | SerFloat "32 word" | SerBool bool

datatype ser_kind = KindU8 | KindS8 | KindU16 | KindS16 | KindU32 | KindS32 | KindU64 | KindS64 | KindChar | KindFloat | KindBool

fun kind_of :: "ser_field \<Rightarrow> ser_kind" where
  "kind_of (SerU8 _) = KindU8"
| "kind_of (SerS8 _) = KindS8"
| "kind_of (SerU16 _) = KindU16"
| "kind_of (SerS16 _) = KindS16"
| "kind_of (SerU32 _) = KindU32"
| "kind_of (SerS32 _) = KindS32"
| "kind_of (SerU64 _) = KindU64"
| "kind_of (SerS64 _) = KindS64"
| "kind_of (SerChar _) = KindChar"
| "kind_of (SerFloat _) = KindFloat"
| "kind_of (SerBool _) = KindBool"

fun ser_write :: "bool \<Rightarrow> BofBinSerializer \<Rightarrow> ser_field \<Rightarrow> u32 \<Rightarrow> ser_buffer \<Rightarrow> u32 \<Rightarrow> (ser_buffer \<times> u32) outcome" where
  "ser_write le s (SerU8 v) = ToByte_U8 le s v"
| "ser_write le s (SerS8 v) = ToByte_S8 le s v"
| "ser_write le s (SerU16 v) = ToByte_U16 le s v"
| "ser_write le s (SerS16 v) = ToByte_S16 le s v"
| "ser_write le s (SerU32 v) = ToByte_U32 le s v"
| "ser_write le s (SerS32 v) = ToByte_S32 le s v"
| "ser_write le s (SerU64 v) = ToByte_U64 le s v"
| "ser_write le s (SerS64 v) = ToByte_S64 le s v"
| "ser_write le s (SerChar v) = ToByte_char le s v"
| "ser_write le s (SerFloat v) = ToByte_float le s v"
| "ser_write le s (SerBool v) = ToByte_bool le s v"

definition ser_got :: "('v \<Rightarrow> ser_field) \<Rightarrow> ('v option \<times> u32) outcome \<Rightarrow> (ser_field option \<times> u32) outcome" where
  "ser_got c r = bindO r (\<lambda>(v, n). Ret (map_option c v, n))"

text \<open>The caller's variable holds \<open>g\<close> before the call.\<close>

fun ser_read :: "u64 \<Rightarrow> bool \<Rightarrow> BofBinSerializer \<Rightarrow> ser_kind \<Rightarrow> u32 \<Rightarrow> ser_buffer \<Rightarrow> u32 \<Rightarrow> (ser_field option \<times> u32) outcome" where
  "ser_read g le s KindU8 i p n = ser_got SerU8 (FromByte_U8 le s (Some (ucast g)) i p n)"
| "ser_read g le s KindS8 i p n = ser_got SerS8 (FromByte_S8 le s (Some (ucast g)) i p n)"
| "ser_read g le s KindU16 i p n = ser_got SerU16 (FromByte_U16 le s (Some (ucast g)) i p n)"
| "ser_read g le s KindS16 i p n = ser_got SerS16 (FromByte_S16 le s (Some (ucast g)) i p n)"
| "ser_read g le s KindU32 i p n = ser_got SerU32 (FromByte_U32 le s (Some (ucast g)) i p n)"
| "ser_read g le s KindS32 i p n = ser_got SerS32 (FromByte_S32 le s (Some (ucast g)) i p n)"
| "ser_read g le s KindU64 i p n = ser_got SerU64 (FromByte_U64 le s (Some g) i p n)"
| "ser_read g le s KindS64 i p n = ser_got SerS64 (FromByte_S64 le s (Some g) i p n)"
| "ser_read g le s KindChar i p n = ser_got SerChar (FromByte_char le s (Some (ucast g)) i p n)"
| "ser_read g le s KindFloat i p n = ser_got SerFloat (FromByte_float (ucast g) le s (Some (ucast g)) i p n)"
| "ser_read g le s KindBool i p n = ser_got SerBool (FromByte_bool le s (Some (g \<noteq> 0)) i p n)"

fun field_bytes :: "BofBinSerializer \<Rightarrow> ser_field \<Rightarrow> u8 list" where
  "field_bytes s (SerU8 v) = stream_bytes s v"
| "field_bytes s (SerS8 v) = stream_bytes s v"
| "field_bytes s (SerU16 v) = stream_bytes s v"
| "field_bytes s (SerS16 v) = stream_bytes s v"
| "field_bytes s (SerU32 v) = stream_bytes s v"
| "field_bytes s (SerS32 v) = stream_bytes s v"
| "field_bytes s (SerU64 v) = stream_bytes s v"
| "field_bytes s (SerS64 v) = stream_bytes s v"
| "field_bytes s (SerChar v) = stream_bytes s v"
| "field_bytes s (SerFloat v) = stream_bytes s v"
| "field_bytes s (SerBool v) = stream_bytes s (if v then 1 else 0 :: u8)"

lemmas ser_call_defs = ToByte_U8_scalar ToByte_S8_def ToByte_U16_def ToByte_S16_def ToByte_U32_def ToByte_S32_def ToByte_U64_def
  ToByte_S64_def ToByte_char_def ToByte_float_def ToByte_bool_def FromByte_U8_scalar FromByte_S8_def FromByte_U16_def FromByte_S16_def
  FromByte_U32_def FromByte_S32_def FromByte_U64_def FromByte_S64_def FromByte_char_def FromByte_float_def FromByte_bool_def

lemma ser_write_ok:
  assumes "unat i + length (field_bytes s f) \<le> unat n" "unat n \<le> length p"
  shows "ser_write le s f i (Some p) n =
    Ret (Some (take (unat i) p @ field_bytes s f @ drop (unat i + length (field_bytes s f)) p), of_nat (length (field_bytes s f)))"
  using assms by (cases f) (simp_all add: ser_call_defs ToByte_scalar_ok)

lemma ser_read_ok:
  assumes "unat i + length (field_bytes s f) \<le> unat n" "unat n \<le> length p"
    "take (length (field_bytes s f)) (drop (unat i) p) = field_bytes s f"
  shows "ser_read g le s (kind_of f) i (Some p) n = Ret (Some f, of_nat (length (field_bytes s f)))"
  using assms by (cases f) (simp_all add: ser_call_defs ser_got_def FromByte_scalar_ok [where s = s])


section \<open>Messages\<close>

text \<open>Fields written and read one after the other, until one does not fit.\<close>

fun ser_write_all :: "bool \<Rightarrow> BofBinSerializer \<Rightarrow> ser_field list \<Rightarrow> u32 \<Rightarrow> ser_buffer \<Rightarrow> u32 \<Rightarrow> (ser_buffer \<times> u32 \<times> bool) outcome" where
  "ser_write_all le s [] i p n = Ret (p, i, True)"
| "ser_write_all le s (f # fs) i p n =
     bindO (ser_write le s f i p n) (\<lambda>(p, k). if k = 0 then Ret (p, i, False) else ser_write_all le s fs (i + k) p n)"

fun ser_read_all :: "u64 \<Rightarrow> bool \<Rightarrow> BofBinSerializer \<Rightarrow> ser_kind list \<Rightarrow> u32 \<Rightarrow> ser_buffer \<Rightarrow> u32 \<Rightarrow>
    (ser_field option list \<times> u32 \<times> bool) outcome" where
  "ser_read_all g le s [] i p n = Ret ([], i, True)"
| "ser_read_all g le s (k # ks) i p n =
     bindO (ser_read g le s k i p n) (\<lambda>(f, m).
       if m = 0 then Ret ([f], i, False)
       else bindO (ser_read_all g le s ks (i + m) p n) (\<lambda>(fs, j, ok). Ret (f # fs, j, ok)))"

definition message_bytes :: "BofBinSerializer \<Rightarrow> ser_field list \<Rightarrow> u8 list" where
  "message_bytes s fs = concat (map (field_bytes s) fs)"

lemma message_bytes_simps [simp]: "message_bytes s [] = []" "message_bytes s (f # fs) = field_bytes s f @ message_bytes s fs"
  by (simp_all add: message_bytes_def)

lemma field_size: "length (field_bytes s f) \<in> {1, 2, 4, 8}"
  by (cases f) simp_all

lemma unat_field_size: "unat (of_nat (length (field_bytes s f)) :: u32) = length (field_bytes s f)"
  "(of_nat (length (field_bytes s f)) :: u32) \<noteq> 0"
  using field_size [of s f] by auto

lemma field_advance:
  assumes "unat i + length (field_bytes s f) \<le> unat (n :: u32)"
  shows "unat (i + of_nat (length (field_bytes s f)) :: u32) = unat i + length (field_bytes s f)"
  using unat_add_le [of i "of_nat (length (field_bytes s f))" n] assms unat_field_size(1) [of s f] by simp

lemma ser_write_all_ok:
  assumes "unat i + length (message_bytes s fs) \<le> unat n" "unat n \<le> length p"
  shows "\<exists>j. ser_write_all le s fs i (Some p) n =
    Ret (Some (take (unat i) p @ message_bytes s fs @ drop (unat i + length (message_bytes s fs)) p), j, True) \<and>
    unat j = unat i + length (message_bytes s fs)"
  using assms
proof (induction fs arbitrary: i p)
  case (Cons f fs)
  let ?k = "length (field_bytes s f)" and ?p = "take (unat i) p @ field_bytes s f @ drop (unat i + length (field_bytes s f)) p"
  have fit: "unat i + ?k \<le> unat n" using Cons.prems(1) by simp
  have w: "ser_write le s f i (Some p) n = Ret (Some ?p, of_nat ?k)" using fit Cons.prems(2) by (rule ser_write_ok)
  have lp: "length ?p = length p" using fit Cons.prems(2) by simp
  have u: "unat (i + of_nat ?k) = unat i + ?k" using fit by (rule field_advance)
  obtain j where "ser_write_all le s fs (i + of_nat ?k) (Some ?p) n = Ret (Some (take (unat (i + of_nat ?k)) ?p @ message_bytes s fs @
      drop (unat (i + of_nat ?k) + length (message_bytes s fs)) ?p), j, True)" "unat j = unat (i + of_nat ?k) + length (message_bytes s fs)"
    using Cons.IH [of "i + of_nat ?k" ?p] Cons.prems u lp by auto
  moreover have "take (unat i + ?k) ?p = take (unat i) p @ field_bytes s f" using fit Cons.prems(2) by simp
  moreover have "drop (unat i + ?k + length (message_bytes s fs)) ?p = drop (unat i + ?k + length (message_bytes s fs)) p"
    using fit Cons.prems(2) by (simp add: add.commute add.left_commute)
  ultimately show ?case using w unat_field_size(2) [of s f] u by (auto simp: add.assoc)
qed (auto intro: exI [of _ i])

lemma ser_read_all_ok:
  assumes "unat i + length (message_bytes s fs) \<le> unat n" "unat n \<le> length p"
    "take (length (message_bytes s fs)) (drop (unat i) p) = message_bytes s fs"
  shows "\<exists>j. ser_read_all g le s (map kind_of fs) i (Some p) n = Ret (map Some fs, j, True) \<and> unat j = unat i + length (message_bytes s fs)"
  using assms
proof (induction fs arbitrary: i)
  case (Cons f fs)
  let ?k = "length (field_bytes s f)"
  have fit: "unat i + ?k \<le> unat n" using Cons.prems(1) by simp
  have t: "take (?k + length (message_bytes s fs)) (drop (unat i) p) = field_bytes s f @ message_bytes s fs" using Cons.prems(3) by simp
  have "take ?k (take (?k + length (message_bytes s fs)) (drop (unat i) p)) = field_bytes s f" unfolding t by simp
  then have r: "ser_read g le s (kind_of f) i (Some p) n = Ret (Some f, of_nat ?k)"
    using ser_read_ok [OF fit Cons.prems(2)] by simp
  have u: "unat (i + of_nat ?k) = unat i + ?k" using fit by (rule field_advance)
  have "drop ?k (take (?k + length (message_bytes s fs)) (drop (unat i) p)) = message_bytes s fs" unfolding t by simp
  then have "take (length (message_bytes s fs)) (drop (unat (i + of_nat ?k)) p) = message_bytes s fs"
    by (simp add: u drop_take add.commute)
  then obtain j where "ser_read_all g le s (map kind_of fs) (i + of_nat ?k) (Some p) n = Ret (map Some fs, j, True)"
    "unat j = unat (i + of_nat ?k) + length (message_bytes s fs)"
    using Cons.IH [of "i + of_nat ?k"] Cons.prems u by auto
  then show ?case using r unat_field_size(2) [of s f] u by auto
qed (auto intro: exI [of _ i])

section \<open>Properties\<close>

text \<open>
  C36. Round trip of the serializer. A message, any list of fields of the eleven
  kinds, that fits between an index and the size of a buffer is written there,
  field after field, in the byte order of the stream, whatever the byte order of
  the machine that writes; the rest of the buffer is kept. Reading fields of the
  same kinds from the same index gives the message back, whatever the byte order
  of the machine that reads and the values its variables held before.
\<close>

theorem BofBinSerializer_round_trip:
  assumes "unat i + length (message_bytes s fs) \<le> unat n" "unat n \<le> length p"
  shows "\<exists>p' j. ser_write_all le s fs i (Some p) n = Ret (Some p', j, True) \<and>
    p' = take (unat i) p @ message_bytes s fs @ drop (unat i + length (message_bytes s fs)) p \<and>
    unat j = unat i + length (message_bytes s fs) \<and>
    ser_read_all g le' s (map kind_of fs) i (Some p') n = Ret (map Some fs, j, True)"
proof -
  let ?p = "take (unat i) p @ message_bytes s fs @ drop (unat i + length (message_bytes s fs)) p"
  obtain j where j: "ser_write_all le s fs i (Some p) n = Ret (Some ?p, j, True)" "unat j = unat i + length (message_bytes s fs)"
    using ser_write_all_ok [OF assms] by blast
  have "unat n \<le> length ?p" "take (length (message_bytes s fs)) (drop (unat i) ?p) = message_bytes s fs" using assms by simp_all
  then obtain j' where "ser_read_all g le' s (map kind_of fs) i (Some ?p) n = Ret (map Some fs, j', True)"
    "unat j' = unat i + length (message_bytes s fs)"
    using ser_read_all_ok [OF assms(1)] by blast
  moreover from this(2) j(2) have "j' = j" by (simp add: word_unat_eq_iff)
  ultimately show ?thesis using j by blast
qed

theorem BofBinSerializer_round_trip_witness:
  "\<exists>p' j. ser_write_all True \<lparr>ser_mEndianness_E = BOF_STREAM_IS_BIG_ENDIAN\<rparr> [SerU16 0x1234, SerBool True] 1 (Some [0, 0, 0, 0, 0]) 5 =
      Ret (Some p', j, True) \<and> p' = [0, 0x12, 0x34, 1, 0] \<and>
    ser_read_all 0 False \<lparr>ser_mEndianness_E = BOF_STREAM_IS_BIG_ENDIAN\<rparr> [KindU16, KindBool] 1 (Some p') 5 =
      Ret ([Some (SerU16 0x1234), Some (SerBool True)], j, True)"
proof -
  let ?s = "\<lparr>ser_mEndianness_E = BOF_STREAM_IS_BIG_ENDIAN\<rparr>"
  have m: "message_bytes ?s [SerU16 0x1234, SerBool True] = [0x12, 0x34, 1]"
    by (simp add: stream_bytes_def BofBinSerializer_IsStreamBigEndian_def BofBinSerializer_GetStreamEndianness_def le_bytes_numeral)
  show ?thesis
    using BofBinSerializer_round_trip [of 1 ?s "[SerU16 0x1234, SerBool True]" 5 "[0, 0, 0, 0, 0]" True 0 False]
    unfolding m by (simp del: ser_write_all.simps ser_read_all.simps) blast
qed

text \<open>What does not fit is refused without effect; only the overload for \<^verbatim>\<open>bool\<close> still sets the value, to false.\<close>

lemma ser_write_refused:
  assumes "unat n < unat i + length (field_bytes s f)"
  shows "ser_write le s f i (Some p) n = Ret (Some p, 0)"
  using assms by (cases f) (simp_all add: ser_call_defs ToByte_scalar_def)

lemma FromByte_refused:
  fixes old :: "'a::len word"
  assumes "unat n < unat i + size_of TYPE('a word)"
  shows "FromByte_scalar le s (Some old) i (Some p) n = Ret (Some old, 0)"
  using assms by (simp add: FromByte_scalar_def)

lemma FromByte_bool_refused: "unat n < Suc (unat i) \<Longrightarrow> FromByte_bool le s (Some b) i (Some p) n = Ret (Some False, 0)"
  by (simp add: FromByte_bool_def FromByte_U8_def)

end
