(* ===== verification/Bof_List.thy ===== *)
theory Bof_List
  imports Bof_Sync
begin

text \<open>
  \<^verbatim>\<open>BofListNode\<close> and \<^verbatim>\<open>BofList\<close> of \<^verbatim>\<open>boflist.h\<close>: doubly linked lists whose nodes come from a
  pool, which is their own array or the pool of another list. Several lists share
  nodes, so that the model has an explicit store: the nodes by address and the list
  objects by address, in the order of their construction. A list is given the
  pool of a list that is already there, at a smaller address. \<open>dbg\<close> tells whether
  \<^verbatim>\<open>CHECK_LIST_INTEGRITY\<close> is defined, as it is unless \<^verbatim>\<open>NDEBUG\<close> is; \<^verbatim>\<open>PROFILE_CLIST\<close> is not.
\<close>

section \<open>The store\<close>

record 'e BofListNode =
  bn_Value :: 'e
  bn_pPrev_O :: "nat option"
  bn_pNext_O :: "nat option"
  bn_pParent_O :: "nat option"

record BofList =
  bl_mNbElements_U32 :: u32
  bl_mNbMaxElements_U32 :: u32
  bl_mpNodes_O :: "nat option"
  bl_mpHead_O :: "nat option"
  bl_mpQueue_O :: "nat option"
  bl_mpFreeNodesHead_O :: "nat option"
  bl_mpFreeNodesQueue_O :: "nat option"
  bl_mMultiThreadAware_B :: bool
  bl_mPriorityInversionAware_B :: bool
  bl_mListMtx_X :: BOF_MUTEX
  bl_mpNodePoolMgr_O :: "nat option"

record 'e list_store =
  st_nodes :: "nat \<Rightarrow> 'e BofListNode option"
  st_lists :: "nat \<Rightarrow> BofList"
  st_nbNodes :: nat
  st_nbLists :: nat

text \<open>An access through a pointer, a change of the node it points to, a change of a list object.\<close>

definition node_at :: "'e list_store \<Rightarrow> nat option \<Rightarrow> ('e BofListNode \<Rightarrow> 'b outcome) \<Rightarrow> 'b outcome" where
  "node_at s p k =
     (case p of
        None \<Rightarrow> Undefined
      | Some a \<Rightarrow> (case st_nodes s a of None \<Rightarrow> Undefined | Some n \<Rightarrow> k n))"

definition set_node ::
  "'e list_store \<Rightarrow> nat option \<Rightarrow> ('e BofListNode \<Rightarrow> 'e BofListNode) \<Rightarrow> ('e list_store \<Rightarrow> 'b outcome) \<Rightarrow> 'b outcome" where
  "set_node s p f k = node_at s p (\<lambda>n. k (s\<lparr>st_nodes := (st_nodes s)(the p := Some (f n))\<rparr>))"

definition set_list :: "'e list_store \<Rightarrow> nat \<Rightarrow> (BofList \<Rightarrow> BofList) \<Rightarrow> 'e list_store" where
  "set_list s l f = s\<lparr>st_lists := (st_lists s)(l := f (st_lists s l))\<rparr>"

text \<open>The assertions that are compiled when \<^verbatim>\<open>CHECK_LIST_INTEGRITY\<close> is defined.\<close>

definition CHK :: "bool \<Rightarrow> bool \<Rightarrow> 'b outcome \<Rightarrow> 'b outcome" where
  "CHK dbg P k = (if dbg then BOF_ASSERT P k else k)"

section \<open>Construction and locking\<close>

definition BofListNode_ctor :: "'e \<Rightarrow> 'e BofListNode" where
  "BofListNode_ctor zero = \<lparr>bn_Value = zero, bn_pPrev_O = None, bn_pNext_O = None, bn_pParent_O = None\<rparr>"

text \<open>
  The new list object is at the next address; its nodes, when it makes them, are at
  the next addresses of nodes. \<open>zero\<close> is the value all of whose bytes are 0. The free
  list of a list with an external pool is not set and not used.
\<close>

definition list_new_nodes :: "'e \<Rightarrow> nat \<Rightarrow> nat \<Rightarrow> nat \<Rightarrow> 'e BofListNode option" where
  "list_new_nodes zero base nb a =
     (if base \<le> a \<and> a < base + nb
      then Some ((BofListNode_ctor zero)\<lparr>bn_pPrev_O := if a = base then None else Some (a - 1),
                                         bn_pNext_O := if a = base + nb - 1 then None else Some (a + 1)\<rparr>)
      else None)"

definition BofList_ctor ::
  "bool \<Rightarrow> 'e \<Rightarrow> 'e list_store \<Rightarrow> u32 \<Rightarrow> bool \<Rightarrow> bool \<Rightarrow> nat option \<Rightarrow> ('e list_store \<times> nat) outcome" where
  "BofList_ctor dbg zero s NbMaxElements_U32 MultiThreadAware_B PriorityInversionAware_B pNodePool_O =
     CHK dbg (NbMaxElements_U32 > 0)
       (bindO (if MultiThreadAware_B then Bof_CreateMutex ''BofList'' True PriorityInversionAware_B BOF_MUTEX_ctor
               else Ret (BOF_MUTEX_ctor, BOF_ERR_NO_ERROR)) (\<lambda>(m, Sts_E).
          let l = st_nbLists s; base = st_nbNodes s; nb = unat NbMaxElements_U32;
              this = \<lparr>bl_mNbElements_U32 = 0, bl_mNbMaxElements_U32 = NbMaxElements_U32, bl_mpNodes_O = None, bl_mpHead_O = None,
                      bl_mpQueue_O = None, bl_mpFreeNodesHead_O = None, bl_mpFreeNodesQueue_O = None,
                      bl_mMultiThreadAware_B = MultiThreadAware_B, bl_mPriorityInversionAware_B = PriorityInversionAware_B,
                      bl_mListMtx_X = m, bl_mpNodePoolMgr_O = pNodePool_O\<rparr>
          in case pNodePool_O of
               Some pool \<Rightarrow> Ret (s\<lparr>st_lists := (st_lists s)(l := this), st_nbLists := l + 1\<rparr>, l)
             | None \<Rightarrow>
                 if NbMaxElements_U32 \<noteq> 0 then
                   Ret (s\<lparr>st_nodes := (\<lambda>a. if base \<le> a \<and> a < base + nb then list_new_nodes zero base nb a else st_nodes s a),
                          st_lists := (st_lists s)(l := this\<lparr>bl_mpNodes_O := Some base, bl_mpFreeNodesHead_O := Some base,
                                                             bl_mpFreeNodesQueue_O := Some (base + nb - 1)\<rparr>),
                          st_nbNodes := base + nb, st_nbLists := l + 1\<rparr>, l)
                 else Undefined))"

definition BofList_dtor :: "'e list_store \<Rightarrow> nat \<Rightarrow> 'e list_store" where
  "BofList_dtor s l =
     (let this = st_lists s l;
          s = (case bl_mpNodes_O this of
                 Some base \<Rightarrow> s\<lparr>st_nodes := (\<lambda>a. if base \<le> a \<and> a < base + unat (bl_mNbMaxElements_U32 this) then None else st_nodes s a)\<rparr>
               | None \<Rightarrow> s)
      in if bl_mMultiThreadAware_B this
         then set_list s l (\<lambda>this. this\<lparr>bl_mpNodes_O := None, bl_mListMtx_X := fst (Bof_DestroyMutex (bl_mListMtx_X this))\<rparr>)
         else set_list s l (\<lambda>this. this\<lparr>bl_mpNodes_O := None\<rparr>))"

definition BofList_LockList :: "'e list_store \<Rightarrow> nat \<Rightarrow> ('e list_store \<times> BOFERR) outcome" where
  "BofList_LockList s l =
     (if bl_mMultiThreadAware_B (st_lists s l)
      then bindO (Bof_LockMutex (bl_mListMtx_X (st_lists s l))) (\<lambda>(m, Rts_E). Ret (set_list s l (\<lambda>this. this\<lparr>bl_mListMtx_X := m\<rparr>), Rts_E))
      else Ret (s, BOF_ERR_BAD_TYPE))"

definition BofList_UnlockList :: "'e list_store \<Rightarrow> nat \<Rightarrow> ('e list_store \<times> BOFERR) outcome" where
  "BofList_UnlockList s l =
     (if bl_mMultiThreadAware_B (st_lists s l)
      then bindO (Bof_UnlockMutex (bl_mListMtx_X (st_lists s l))) (\<lambda>(m, Rts_E). Ret (set_list s l (\<lambda>this. this\<lparr>bl_mListMtx_X := m\<rparr>), Rts_E))
      else Ret (s, BOF_ERR_BAD_TYPE))"

text \<open>The body of a method between \<^verbatim>\<open>LockList\<close> and \<^verbatim>\<open>UnlockList\<close>, whose results the methods ignore.\<close>

definition list_guard :: "'e list_store \<Rightarrow> nat \<Rightarrow> ('e list_store \<Rightarrow> ('e list_store \<times> 'r) outcome) \<Rightarrow> ('e list_store \<times> 'r) outcome" where
  "list_guard s l body =
     bindO (BofList_LockList s l) (\<lambda>(s, Sts_E).
       bindO (body s) (\<lambda>(s, r). bindO (BofList_UnlockList s l) (\<lambda>(s, Sts_E). Ret (s, r))))"

section \<open>The pool of free nodes\<close>

text \<open>The first node of the free list, cleared.\<close>

definition list_take_free :: "'e \<Rightarrow> 'e list_store \<Rightarrow> nat \<Rightarrow> 'e option \<Rightarrow> ('e list_store \<times> nat option) outcome" where
  "list_take_free zero s l pElement =
     (case bl_mpFreeNodesHead_O (st_lists s l) of
        None \<Rightarrow> Ret (s, None)
      | Some a \<Rightarrow>
          node_at s (Some a) (\<lambda>node.
            let s = set_list s l (\<lambda>this. this\<lparr>bl_mpFreeNodesHead_O := bn_pNext_O node\<rparr>) in
            bindO (if bl_mpFreeNodesHead_O (st_lists s l) \<noteq> None
                   then set_node s (bl_mpFreeNodesHead_O (st_lists s l)) (\<lambda>n. n\<lparr>bn_pPrev_O := None\<rparr>) Ret
                   else Ret (set_list s l (\<lambda>this. this\<lparr>bl_mpFreeNodesQueue_O := None\<rparr>))) (\<lambda>s.
              set_node s (Some a) (\<lambda>n. n\<lparr>bn_pParent_O := None, bn_pNext_O := None, bn_pPrev_O := None,
                                         bn_Value := (case pElement of Some e \<Rightarrow> e | None \<Rightarrow> zero)\<rparr>)
                (\<lambda>s. Ret (s, Some a)))))"

text \<open>
  A list with an external pool asks that list, which may ask another one. The first
  argument bounds the length of this chain; since the pool of a list is at a smaller
  address, the address of the list is enough.
\<close>

fun BofList_GetFreeNode_depth :: "nat \<Rightarrow> 'e \<Rightarrow> 'e list_store \<Rightarrow> nat \<Rightarrow> 'e option \<Rightarrow> ('e list_store \<times> nat option) outcome" where
  "BofList_GetFreeNode_depth 0 zero s l pElement = Undefined"
| "BofList_GetFreeNode_depth (Suc n) zero s l pElement =
     list_guard s l (\<lambda>s.
       case bl_mpNodePoolMgr_O (st_lists s l) of
         Some pool \<Rightarrow> BofList_GetFreeNode_depth n zero s pool pElement
       | None \<Rightarrow> list_take_free zero s l pElement)"

definition BofList_GetFreeNode :: "'e \<Rightarrow> 'e list_store \<Rightarrow> nat \<Rightarrow> 'e option \<Rightarrow> ('e list_store \<times> nat option) outcome" where
  "BofList_GetFreeNode zero s l pElement = BofList_GetFreeNode_depth (Suc l) zero s l pElement"

text \<open>The unlinking of a given node from the free list.\<close>

definition list_unlink_free :: "bool \<Rightarrow> 'e list_store \<Rightarrow> nat \<Rightarrow> nat option \<Rightarrow> 'e list_store outcome" where
  "list_unlink_free dbg s l pNode_O =
     (let this = st_lists s l in
      if pNode_O = bl_mpFreeNodesHead_O this \<and> pNode_O = bl_mpFreeNodesQueue_O this then
        Ret (set_list s l (\<lambda>this. this\<lparr>bl_mpFreeNodesHead_O := None, bl_mpFreeNodesQueue_O := None\<rparr>))
      else if pNode_O = bl_mpFreeNodesHead_O this then
        node_at s pNode_O (\<lambda>n. CHK dbg (bn_pNext_O n \<noteq> None)
          (set_node s (bn_pNext_O n) (\<lambda>m. m\<lparr>bn_pPrev_O := None\<rparr>) (\<lambda>s.
             Ret (set_list s l (\<lambda>this. this\<lparr>bl_mpFreeNodesHead_O := bn_pNext_O n\<rparr>)))))
      else if pNode_O = bl_mpFreeNodesQueue_O this then
        node_at s pNode_O (\<lambda>n. CHK dbg (bn_pPrev_O n \<noteq> None)
          (set_node s (bn_pPrev_O n) (\<lambda>m. m\<lparr>bn_pNext_O := None\<rparr>) (\<lambda>s.
             Ret (set_list s l (\<lambda>this. this\<lparr>bl_mpFreeNodesQueue_O := bn_pPrev_O n\<rparr>)))))
      else
        node_at s pNode_O (\<lambda>n. CHK dbg (bn_pNext_O n \<noteq> None) (CHK dbg (bn_pPrev_O n \<noteq> None)
          (set_node s (bn_pPrev_O n) (\<lambda>m. m\<lparr>bn_pNext_O := bn_pNext_O n\<rparr>) (\<lambda>s.
             node_at s pNode_O (\<lambda>n. set_node s (bn_pNext_O n) (\<lambda>m. m\<lparr>bn_pPrev_O := bn_pPrev_O n\<rparr>) Ret))))))"

definition list_detach :: "bool \<Rightarrow> 'e list_store \<Rightarrow> nat \<Rightarrow> nat option \<Rightarrow> ('e list_store \<times> nat option) outcome" where
  "list_detach dbg s l pNode_O =
     node_at s pNode_O (\<lambda>node.
       bindO (if (bn_pNext_O node \<noteq> None \<or> bn_pPrev_O node \<noteq> None \<or> bl_mpFreeNodesHead_O (st_lists s l) = pNode_O \<or>
                  bl_mpFreeNodesQueue_O (st_lists s l) = pNode_O) \<and> bn_pParent_O node = None
              then list_unlink_free dbg s l pNode_O else Ret s) (\<lambda>s.
         CHK dbg (bn_pParent_O node = None)
           (set_node s pNode_O (\<lambda>n. n\<lparr>bn_pParent_O := None, bn_pNext_O := None, bn_pPrev_O := None\<rparr>)
             (\<lambda>s. Ret (s, pNode_O)))))"

fun BofList_GetFreeNode_node_depth :: "nat \<Rightarrow> bool \<Rightarrow> 'e list_store \<Rightarrow> nat \<Rightarrow> nat option \<Rightarrow> ('e list_store \<times> nat option) outcome" where
  "BofList_GetFreeNode_node_depth 0 dbg s l pNode_O = Undefined"
| "BofList_GetFreeNode_node_depth (Suc n) dbg s l pNode_O =
     list_guard s l (\<lambda>s.
       case bl_mpNodePoolMgr_O (st_lists s l) of
         Some pool \<Rightarrow> BofList_GetFreeNode_node_depth n dbg s pool pNode_O
       | None \<Rightarrow> list_detach dbg s l pNode_O)"

definition BofList_GetFreeNode_node :: "bool \<Rightarrow> 'e list_store \<Rightarrow> nat \<Rightarrow> nat option \<Rightarrow> ('e list_store \<times> nat option) outcome" where
  "BofList_GetFreeNode_node dbg s l pNode_O = BofList_GetFreeNode_node_depth (Suc l) dbg s l pNode_O"

text \<open>A node put back at the end of the free list.\<close>

definition list_put_free :: "'e list_store \<Rightarrow> nat \<Rightarrow> nat option \<Rightarrow> ('e list_store \<times> bool) outcome" where
  "list_put_free s l pNode_O =
     set_node s pNode_O (\<lambda>n. n\<lparr>bn_pParent_O := None\<rparr>) (\<lambda>s.
       let queue = bl_mpFreeNodesQueue_O (st_lists s l) in
       if queue = None then
         set_node s pNode_O (\<lambda>n. n\<lparr>bn_pNext_O := None, bn_pPrev_O := None\<rparr>) (\<lambda>s.
           Ret (set_list s l (\<lambda>this. this\<lparr>bl_mpFreeNodesHead_O := pNode_O, bl_mpFreeNodesQueue_O := pNode_O\<rparr>), True))
       else
         set_node s pNode_O (\<lambda>n. n\<lparr>bn_pNext_O := None, bn_pPrev_O := queue\<rparr>) (\<lambda>s.
           set_node s queue (\<lambda>n. n\<lparr>bn_pNext_O := pNode_O\<rparr>) (\<lambda>s.
             Ret (set_list s l (\<lambda>this. this\<lparr>bl_mpFreeNodesQueue_O := pNode_O\<rparr>), True))))"

fun BofList_SetFreeNode_depth :: "nat \<Rightarrow> bool \<Rightarrow> 'e list_store \<Rightarrow> nat \<Rightarrow> nat option \<Rightarrow> ('e list_store \<times> bool) outcome" where
  "BofList_SetFreeNode_depth 0 dbg s l pNode_O = Undefined"
| "BofList_SetFreeNode_depth (Suc n) dbg s l pNode_O =
     CHK dbg (pNode_O \<noteq> None)
       (if pNode_O \<noteq> None then
          list_guard s l (\<lambda>s.
            case bl_mpNodePoolMgr_O (st_lists s l) of
              Some pool \<Rightarrow> BofList_SetFreeNode_depth n dbg s pool pNode_O
            | None \<Rightarrow> list_put_free s l pNode_O)
        else Ret (s, False))"

definition BofList_SetFreeNode :: "bool \<Rightarrow> 'e list_store \<Rightarrow> nat \<Rightarrow> nat option \<Rightarrow> ('e list_store \<times> bool) outcome" where
  "BofList_SetFreeNode dbg s l pNode_O = BofList_SetFreeNode_depth (Suc l) dbg s l pNode_O"

section \<open>Insertion\<close>

text \<open>\<^verbatim>\<open>BOF_ASSERT (p->pParent_O == this)\<close>.\<close>

definition chk_parent :: "bool \<Rightarrow> 'e list_store \<Rightarrow> nat option \<Rightarrow> nat \<Rightarrow> 'b outcome \<Rightarrow> 'b outcome" where
  "chk_parent dbg s p l k = (if dbg then node_at s p (\<lambda>n. BOF_ASSERT (bn_pParent_O n = Some l) k) else k)"

text \<open>The links of a new node after an existing one.\<close>

definition list_link_after :: "bool \<Rightarrow> 'e list_store \<Rightarrow> nat \<Rightarrow> nat option \<Rightarrow> nat option \<Rightarrow> ('e list_store \<times> bool) outcome" where
  "list_link_after dbg s l pExistingNode_O pNewNode_O =
     node_at s pExistingNode_O (\<lambda>existing. node_at s pNewNode_O (\<lambda>new.
       if bn_pParent_O existing = Some l \<and> bn_pParent_O new = None then
         bindO (if pExistingNode_O = bl_mpQueue_O (st_lists s l) then
                  set_node s pExistingNode_O (\<lambda>n. n\<lparr>bn_pNext_O := pNewNode_O\<rparr>) (\<lambda>s.
                    set_node s pNewNode_O (\<lambda>n. n\<lparr>bn_pPrev_O := pExistingNode_O, bn_pNext_O := None\<rparr>) (\<lambda>s.
                      Ret (set_list s l (\<lambda>this. this\<lparr>bl_mpQueue_O := pNewNode_O\<rparr>))))
                else
                  let pNode_O = bn_pNext_O existing in
                  set_node s pExistingNode_O (\<lambda>n. n\<lparr>bn_pNext_O := pNewNode_O\<rparr>) (\<lambda>s.
                    set_node s pNewNode_O (\<lambda>n. n\<lparr>bn_pPrev_O := pExistingNode_O, bn_pNext_O := pNode_O\<rparr>) (\<lambda>s.
                      set_node s pNode_O (\<lambda>n. n\<lparr>bn_pPrev_O := pNewNode_O\<rparr>) Ret))) (\<lambda>s.
           set_node s pNewNode_O (\<lambda>n. n\<lparr>bn_pParent_O := Some l\<rparr>) (\<lambda>s.
             Ret (set_list s l (\<lambda>this. this\<lparr>bl_mNbElements_U32 := bl_mNbElements_U32 this + 1\<rparr>), True)))
       else Ret (s, False)))"

definition BofList_AddAfter :: "bool \<Rightarrow> 'e list_store \<Rightarrow> nat \<Rightarrow> nat option \<Rightarrow> nat option \<Rightarrow> ('e list_store \<times> bool) outcome" where
  "BofList_AddAfter dbg s l pExistingNode_O pNewNode_O =
     CHK dbg (pExistingNode_O \<noteq> None) (CHK dbg (pNewNode_O \<noteq> None)
       (if pExistingNode_O \<noteq> None \<and> pNewNode_O \<noteq> None then
          list_guard s l (\<lambda>s. list_link_after dbg s l pExistingNode_O pNewNode_O)
        else Ret (s, False)))"

definition BofList_AddAfter_elem :: "bool \<Rightarrow> 'e \<Rightarrow> 'e list_store \<Rightarrow> nat \<Rightarrow> nat option \<Rightarrow> 'e option \<Rightarrow> ('e list_store \<times> bool) outcome" where
  "BofList_AddAfter_elem dbg zero s l pExistingNode_O pElement =
     CHK dbg (pExistingNode_O \<noteq> None) (CHK dbg (pElement \<noteq> None)
       (if pExistingNode_O \<noteq> None \<and> pElement \<noteq> None then
          list_guard s l (\<lambda>s.
            bindO (BofList_GetFreeNode zero s l pElement) (\<lambda>(s, pNode_O).
              if pNode_O \<noteq> None then BofList_AddAfter dbg s l pExistingNode_O pNode_O else Ret (s, False)))
        else Ret (s, False)))"

text \<open>The links of a new node before an existing one.\<close>

definition list_link_before :: "bool \<Rightarrow> 'e list_store \<Rightarrow> nat \<Rightarrow> nat option \<Rightarrow> nat option \<Rightarrow> ('e list_store \<times> bool) outcome" where
  "list_link_before dbg s l pExistingNode_O pNewNode_O =
     node_at s pExistingNode_O (\<lambda>existing. node_at s pNewNode_O (\<lambda>new.
       if bn_pParent_O existing = Some l \<and> bn_pParent_O new = None then
         bindO (if pExistingNode_O = bl_mpHead_O (st_lists s l) then
                  set_node s pExistingNode_O (\<lambda>n. n\<lparr>bn_pPrev_O := pNewNode_O\<rparr>) (\<lambda>s.
                    set_node s pNewNode_O (\<lambda>n. n\<lparr>bn_pNext_O := pExistingNode_O, bn_pPrev_O := None\<rparr>) (\<lambda>s.
                      Ret (set_list s l (\<lambda>this. this\<lparr>bl_mpHead_O := pNewNode_O\<rparr>))))
                else
                  let pNode_O = bn_pPrev_O existing in
                  set_node s pExistingNode_O (\<lambda>n. n\<lparr>bn_pPrev_O := pNewNode_O\<rparr>) (\<lambda>s.
                    set_node s pNewNode_O (\<lambda>n. n\<lparr>bn_pNext_O := pExistingNode_O, bn_pPrev_O := pNode_O\<rparr>) (\<lambda>s.
                      set_node s pNode_O (\<lambda>n. n\<lparr>bn_pNext_O := pNewNode_O\<rparr>) Ret))) (\<lambda>s.
           set_node s pNewNode_O (\<lambda>n. n\<lparr>bn_pParent_O := Some l\<rparr>) (\<lambda>s.
             chk_parent dbg s (bl_mpHead_O (st_lists s l)) l
               (Ret (set_list s l (\<lambda>this. this\<lparr>bl_mNbElements_U32 := bl_mNbElements_U32 this + 1\<rparr>), True))))
       else Ret (s, False)))"

definition BofList_AddBefore :: "bool \<Rightarrow> 'e list_store \<Rightarrow> nat \<Rightarrow> nat option \<Rightarrow> nat option \<Rightarrow> ('e list_store \<times> bool) outcome" where
  "BofList_AddBefore dbg s l pExistingNode_O pNewNode_O =
     CHK dbg (pExistingNode_O \<noteq> None) (CHK dbg (pNewNode_O \<noteq> None)
       (if pExistingNode_O \<noteq> None \<and> pNewNode_O \<noteq> None then
          list_guard s l (\<lambda>s. list_link_before dbg s l pExistingNode_O pNewNode_O)
        else Ret (s, False)))"

definition BofList_AddBefore_elem :: "bool \<Rightarrow> 'e \<Rightarrow> 'e list_store \<Rightarrow> nat \<Rightarrow> nat option \<Rightarrow> 'e option \<Rightarrow> ('e list_store \<times> bool) outcome" where
  "BofList_AddBefore_elem dbg zero s l pExistingNode_O pElement =
     CHK dbg (pExistingNode_O \<noteq> None) (CHK dbg (pElement \<noteq> None)
       (if pExistingNode_O \<noteq> None \<and> pElement \<noteq> None then
          list_guard s l (\<lambda>s.
            bindO (BofList_GetFreeNode zero s l pElement) (\<lambda>(s, pNode_O).
              if pNode_O \<noteq> None then BofList_AddBefore dbg s l pExistingNode_O pNode_O else Ret (s, False)))
        else Ret (s, False)))"

text \<open>The first node of a list.\<close>

definition list_only :: "'e list_store \<Rightarrow> nat \<Rightarrow> nat option \<Rightarrow> ('e list_store \<Rightarrow> 'b outcome) \<Rightarrow> 'b outcome" where
  "list_only s l pNode_O k =
     set_node s pNode_O (\<lambda>n. n\<lparr>bn_pParent_O := Some l, bn_pNext_O := None, bn_pPrev_O := None\<rparr>) (\<lambda>s.
       k (set_list s l (\<lambda>this. this\<lparr>bl_mpHead_O := pNode_O, bl_mpQueue_O := pNode_O, bl_mNbElements_U32 := 1\<rparr>)))"

definition BofList_AddFirst :: "bool \<Rightarrow> 'e list_store \<Rightarrow> nat \<Rightarrow> nat option \<Rightarrow> ('e list_store \<times> bool) outcome" where
  "BofList_AddFirst dbg s l pNode_O =
     CHK dbg (pNode_O \<noteq> None)
       (if pNode_O \<noteq> None then
          list_guard s l (\<lambda>s.
            bindO (BofList_GetFreeNode_node dbg s l pNode_O) (\<lambda>(s, p).
              node_at s pNode_O (\<lambda>n.
                if bn_pParent_O n = None then
                  if bl_mpHead_O (st_lists s l) = None then
                    CHK dbg (bl_mNbElements_U32 (st_lists s l) = 0) (CHK dbg (bl_mpQueue_O (st_lists s l) = None)
                      (list_only s l pNode_O (\<lambda>s. Ret (s, True))))
                  else BofList_AddBefore dbg s l (bl_mpHead_O (st_lists s l)) pNode_O
                else Ret (s, False))))
        else Ret (s, False))"

definition BofList_AddFirst_elem :: "bool \<Rightarrow> 'e \<Rightarrow> 'e list_store \<Rightarrow> nat \<Rightarrow> 'e option \<Rightarrow> ('e list_store \<times> bool) outcome" where
  "BofList_AddFirst_elem dbg zero s l pElement =
     list_guard s l (\<lambda>s.
       bindO (BofList_GetFreeNode zero s l pElement) (\<lambda>(s, pNode_O).
         if pNode_O \<noteq> None then BofList_AddFirst dbg s l pNode_O else Ret (s, False)))"

definition BofList_AddFirst_ref :: "bool \<Rightarrow> 'e \<Rightarrow> 'e list_store \<Rightarrow> nat \<Rightarrow> 'e \<Rightarrow> ('e list_store \<times> bool) outcome" where
  "BofList_AddFirst_ref dbg zero s l Element =
     list_guard s l (\<lambda>s.
       bindO (BofList_GetFreeNode zero s l (Some Element)) (\<lambda>(s, pNode_O).
         if pNode_O \<noteq> None then BofList_AddFirst dbg s l pNode_O else Ret (s, False)))"

definition BofList_AddLast :: "bool \<Rightarrow> 'e list_store \<Rightarrow> nat \<Rightarrow> nat option \<Rightarrow> ('e list_store \<times> bool) outcome" where
  "BofList_AddLast dbg s l pNode_O =
     CHK dbg (pNode_O \<noteq> None)
       (if pNode_O \<noteq> None then
          list_guard s l (\<lambda>s.
            node_at s pNode_O (\<lambda>n.
              if bn_pParent_O n = None then
                bindO (BofList_GetFreeNode_node dbg s l pNode_O) (\<lambda>(s, p).
                  if bl_mpQueue_O (st_lists s l) = None then
                    CHK dbg (bl_mNbElements_U32 (st_lists s l) = 0) (CHK dbg (bl_mpHead_O (st_lists s l) = None)
                      (list_only s l pNode_O (\<lambda>s. chk_parent dbg s (bl_mpHead_O (st_lists s l)) l (Ret (s, True)))))
                  else BofList_AddAfter dbg s l (bl_mpQueue_O (st_lists s l)) pNode_O)
              else Ret (s, False)))
        else Ret (s, False))"

definition BofList_AddLast_elem :: "bool \<Rightarrow> 'e \<Rightarrow> 'e list_store \<Rightarrow> nat \<Rightarrow> 'e option \<Rightarrow> ('e list_store \<times> bool) outcome" where
  "BofList_AddLast_elem dbg zero s l pElement =
     list_guard s l (\<lambda>s.
       bindO (BofList_GetFreeNode zero s l pElement) (\<lambda>(s, pNode_O).
         if pNode_O \<noteq> None then BofList_AddLast dbg s l pNode_O else Ret (s, False)))"

definition BofList_AddLast_ref :: "bool \<Rightarrow> 'e \<Rightarrow> 'e list_store \<Rightarrow> nat \<Rightarrow> 'e \<Rightarrow> ('e list_store \<times> bool) outcome" where
  "BofList_AddLast_ref dbg zero s l Element =
     list_guard s l (\<lambda>s.
       bindO (BofList_GetFreeNode zero s l (Some Element)) (\<lambda>(s, pNode_O).
         if pNode_O \<noteq> None then BofList_AddLast dbg s l pNode_O else Ret (s, False)))"

section \<open>Removal\<close>

text \<open>
  The unlinking of a node from the list. The value the branch for the head gives to
  \<^verbatim>\<open>Ret_B\<close> is overwritten by the result of \<^verbatim>\<open>SetFreeNode\<close>; only its access to the new head
  remains.
\<close>

definition list_unlink :: "bool \<Rightarrow> 'e list_store \<Rightarrow> nat \<Rightarrow> nat option \<Rightarrow> 'e list_store outcome" where
  "list_unlink dbg s l pNode_O =
     (let this = st_lists s l in
      if pNode_O = bl_mpHead_O this \<and> pNode_O = bl_mpQueue_O this then
        Ret (set_list s l (\<lambda>this. this\<lparr>bl_mpHead_O := None, bl_mpQueue_O := None\<rparr>))
      else if pNode_O = bl_mpHead_O this then
        node_at s pNode_O (\<lambda>n. CHK dbg (bn_pNext_O n \<noteq> None)
          (set_node s (bn_pNext_O n) (\<lambda>m. m\<lparr>bn_pPrev_O := None\<rparr>) (\<lambda>s.
             let s = set_list s l (\<lambda>this. this\<lparr>bl_mpHead_O := bn_pNext_O n\<rparr>)
             in node_at s (bl_mpHead_O (st_lists s l)) (\<lambda>h. Ret s))))
      else if pNode_O = bl_mpQueue_O this then
        node_at s pNode_O (\<lambda>n. CHK dbg (bn_pPrev_O n \<noteq> None)
          (set_node s (bn_pPrev_O n) (\<lambda>m. m\<lparr>bn_pNext_O := None\<rparr>) (\<lambda>s.
             Ret (set_list s l (\<lambda>this. this\<lparr>bl_mpQueue_O := bn_pPrev_O n\<rparr>)))))
      else
        node_at s pNode_O (\<lambda>n. CHK dbg (bn_pPrev_O n \<noteq> None) (CHK dbg (bn_pNext_O n \<noteq> None)
          (set_node s (bn_pPrev_O n) (\<lambda>m. m\<lparr>bn_pNext_O := bn_pNext_O n\<rparr>) (\<lambda>s.
             node_at s pNode_O (\<lambda>n. set_node s (bn_pNext_O n) (\<lambda>m. m\<lparr>bn_pPrev_O := bn_pPrev_O n\<rparr>) Ret))))))"

definition BofList_Remove :: "bool \<Rightarrow> 'e list_store \<Rightarrow> nat \<Rightarrow> nat option \<Rightarrow> ('e list_store \<times> bool) outcome" where
  "BofList_Remove dbg s l pNode_O =
     CHK dbg (pNode_O \<noteq> None)
       (if pNode_O \<noteq> None then
          list_guard s l (\<lambda>s.
            bindO (node_at s pNode_O (\<lambda>n.
              if bn_pParent_O n = Some l then
                CHK dbg (bl_mNbElements_U32 (st_lists s l) > 0) (CHK dbg (bn_pPrev_O n \<noteq> pNode_O) (CHK dbg (bn_pNext_O n \<noteq> pNode_O)
                  (bindO (list_unlink dbg s l pNode_O) (\<lambda>s.
                     BofList_SetFreeNode dbg (set_list s l (\<lambda>this. this\<lparr>bl_mNbElements_U32 := bl_mNbElements_U32 this - 1\<rparr>)) l pNode_O))))
              else Ret (s, False))) (\<lambda>(s, Ret_B).
              if dbg then node_at s pNode_O (\<lambda>n. BOF_ASSERT (bn_pParent_O n = None) (Ret (s, Ret_B))) else Ret (s, Ret_B)))
        else Ret (s, False))"

text \<open>The value of the removed element, when there is one; the caller may ask for it.\<close>

definition BofList_RemoveFirst :: "bool \<Rightarrow> 'e list_store \<Rightarrow> nat \<Rightarrow> ('e list_store \<times> bool \<times> 'e option) outcome" where
  "BofList_RemoveFirst dbg s l =
     list_guard s l (\<lambda>s.
       let head = bl_mpHead_O (st_lists s l) in
       if head \<noteq> None then
         node_at s head (\<lambda>n. bindO (BofList_Remove dbg s l head) (\<lambda>(s, Ret_B). Ret (s, Ret_B, Some (bn_Value n))))
       else Ret (s, False, None))"

definition BofList_RemoveLast :: "bool \<Rightarrow> 'e list_store \<Rightarrow> nat \<Rightarrow> ('e list_store \<times> bool \<times> 'e option) outcome" where
  "BofList_RemoveLast dbg s l =
     list_guard s l (\<lambda>s.
       let queue = bl_mpQueue_O (st_lists s l) in
       if queue \<noteq> None then
         node_at s queue (\<lambda>n. bindO (BofList_Remove dbg s l queue) (\<lambda>(s, Ret_B). Ret (s, Ret_B, Some (bn_Value n))))
       else Ret (s, False, None))"

text \<open>The loop of \<^verbatim>\<open>Clear\<close> removes one element at every turn.\<close>

fun list_clear_loop :: "nat \<Rightarrow> bool \<Rightarrow> 'e list_store \<Rightarrow> nat \<Rightarrow> 'e list_store outcome" where
  "list_clear_loop 0 dbg s l = (if bl_mpHead_O (st_lists s l) = None then Ret s else Retrying)"
| "list_clear_loop (Suc n) dbg s l =
     (if bl_mpHead_O (st_lists s l) = None then Ret s
      else bindO (BofList_RemoveFirst dbg s l) (\<lambda>(s, r). list_clear_loop n dbg s l))"

definition BofList_Clear :: "bool \<Rightarrow> 'e list_store \<Rightarrow> nat \<Rightarrow> ('e list_store \<times> bool) outcome" where
  "BofList_Clear dbg s l =
     list_guard s l (\<lambda>s.
       bindO (list_clear_loop (unat (bl_mNbElements_U32 (st_lists s l))) dbg s l) (\<lambda>s.
         CHK dbg (bl_mNbElements_U32 (st_lists s l) = 0) (CHK dbg (bl_mpHead_O (st_lists s l) = None)
           (CHK dbg (bl_mpQueue_O (st_lists s l) = None) (Ret (s, True))))))"

section \<open>Search\<close>

text \<open>\<open>memcmp_E\<close> compares the bytes of two elements; it is used when no method is given.\<close>

definition list_compare :: "('e \<Rightarrow> 'e \<Rightarrow> int) \<Rightarrow> ('e \<Rightarrow> 'e \<Rightarrow> int) option \<Rightarrow> 'e \<Rightarrow> 'e \<Rightarrow> int" where
  "list_compare memcmp_E pMethod x y = (case pMethod of Some f \<Rightarrow> f x y | None \<Rightarrow> memcmp_E x y)"

text \<open>The loops follow the links of the list; one turn more than it has elements is enough.\<close>

fun list_find_loop :: "nat \<Rightarrow> bool \<Rightarrow> ('e \<Rightarrow> bool) \<Rightarrow> 'e list_store \<Rightarrow> nat \<Rightarrow> nat option \<Rightarrow> nat option outcome" where
  "list_find_loop 0 dbg match s l p = (if p = None then Ret None else Retrying)"
| "list_find_loop (Suc n) dbg match s l p =
     (if p = None then Ret None
      else node_at s p (\<lambda>node.
        if match (bn_Value node) then chk_parent dbg s p l (Ret p)
        else if bn_pNext_O node \<noteq> None then chk_parent dbg s (bn_pNext_O node) l (list_find_loop n dbg match s l (bn_pNext_O node))
        else list_find_loop n dbg match s l (bn_pNext_O node)))"

definition BofList_Find ::
  "bool \<Rightarrow> ('e \<Rightarrow> 'e \<Rightarrow> int) \<Rightarrow> 'e list_store \<Rightarrow> nat \<Rightarrow> 'e option \<Rightarrow> ('e \<Rightarrow> 'e \<Rightarrow> int) option \<Rightarrow> ('e list_store \<times> nat option) outcome" where
  "BofList_Find dbg memcmp_E s l pElement pMethod =
     CHK dbg (pElement \<noteq> None)
       (case pElement of
          None \<Rightarrow> Ret (s, None)
        | Some e \<Rightarrow>
            list_guard s l (\<lambda>s.
              bindO (list_find_loop (Suc (unat (bl_mNbElements_U32 (st_lists s l)))) dbg (\<lambda>v. list_compare memcmp_E pMethod v e = 0) s l
                       (bl_mpHead_O (st_lists s l))) (\<lambda>p. Ret (s, p))))"

fun list_find_last_loop :: "nat \<Rightarrow> ('e \<Rightarrow> bool) \<Rightarrow> 'e list_store \<Rightarrow> nat option \<Rightarrow> nat option outcome" where
  "list_find_last_loop 0 match s p = (if p = None then Ret None else Retrying)"
| "list_find_last_loop (Suc n) match s p =
     (if p = None then Ret None
      else node_at s p (\<lambda>node. if match (bn_Value node) then Ret p else list_find_last_loop n match s (bn_pPrev_O node)))"

definition BofList_FindLast ::
  "bool \<Rightarrow> ('e \<Rightarrow> 'e \<Rightarrow> int) \<Rightarrow> 'e list_store \<Rightarrow> nat \<Rightarrow> 'e option \<Rightarrow> ('e \<Rightarrow> 'e \<Rightarrow> int) option \<Rightarrow> ('e list_store \<times> nat option) outcome" where
  "BofList_FindLast dbg memcmp_E s l pElement pMethod =
     CHK dbg (pElement \<noteq> None)
       (case pElement of
          None \<Rightarrow> Ret (s, None)
        | Some e \<Rightarrow>
            list_guard s l (\<lambda>s.
              bindO (list_find_last_loop (Suc (unat (bl_mNbElements_U32 (st_lists s l)))) (\<lambda>v. list_compare memcmp_E pMethod v e = 0) s
                       (bl_mpQueue_O (st_lists s l))) (\<lambda>p. Ret (s, p))))"

definition BofList_Remove_elem ::
  "bool \<Rightarrow> ('e \<Rightarrow> 'e \<Rightarrow> int) \<Rightarrow> 'e list_store \<Rightarrow> nat \<Rightarrow> 'e option \<Rightarrow> ('e \<Rightarrow> 'e \<Rightarrow> int) option \<Rightarrow> ('e list_store \<times> bool) outcome" where
  "BofList_Remove_elem dbg memcmp_E s l pElement pMethod =
     bindO (BofList_Find dbg memcmp_E s l pElement pMethod) (\<lambda>(s, pNode_O).
       if pNode_O \<noteq> None then BofList_Remove dbg s l pNode_O else Ret (s, False))"

definition BofList_Contains ::
  "bool \<Rightarrow> ('e \<Rightarrow> 'e \<Rightarrow> int) \<Rightarrow> 'e list_store \<Rightarrow> nat \<Rightarrow> 'e option \<Rightarrow> ('e \<Rightarrow> 'e \<Rightarrow> int) option \<Rightarrow> ('e list_store \<times> bool) outcome" where
  "BofList_Contains dbg memcmp_E s l pElement pMethod =
     bindO (BofList_Find dbg memcmp_E s l pElement pMethod) (\<lambda>(s, pNode_O). Ret (s, pNode_O \<noteq> None))"

definition BofList_GetFirst :: "'e list_store \<Rightarrow> nat \<Rightarrow> nat option" where
  "BofList_GetFirst s l = bl_mpHead_O (st_lists s l)"

definition BofList_GetLast :: "'e list_store \<Rightarrow> nat \<Rightarrow> nat option" where
  "BofList_GetLast s l = bl_mpQueue_O (st_lists s l)"

definition BofList_GetCount :: "'e list_store \<Rightarrow> nat \<Rightarrow> u32" where
  "BofList_GetCount s l = bl_mNbElements_U32 (st_lists s l)"

definition BofList_GetCapacity :: "'e list_store \<Rightarrow> nat \<Rightarrow> u32" where
  "BofList_GetCapacity s l = bl_mNbMaxElements_U32 (st_lists s l)"

definition BofList_IsFull :: "'e list_store \<Rightarrow> nat \<Rightarrow> bool" where
  "BofList_IsFull s l = (BofList_GetCount s l \<ge> BofList_GetCapacity s l)"

definition BofList_IsEmpty :: "'e list_store \<Rightarrow> nat \<Rightarrow> bool" where
  "BofList_IsEmpty s l = (BofList_GetCount s l = 0)"

text \<open>The count of the nodes in 32 bits; the loop ends when the links do.\<close>

fun list_count_loop :: "nat \<Rightarrow> 'e list_store \<Rightarrow> nat option \<Rightarrow> u32 \<Rightarrow> u32 outcome" where
  "list_count_loop 0 s p NbElements_U32 = (if p = None then Ret NbElements_U32 else Retrying)"
| "list_count_loop (Suc n) s p NbElements_U32 =
     (if p = None then Ret NbElements_U32
      else node_at s p (\<lambda>node. list_count_loop n s (bn_pNext_O node) (NbElements_U32 + 1)))"

definition BofList_CheckConsistency :: "'e list_store \<Rightarrow> nat \<Rightarrow> ('e list_store \<times> bool) outcome" where
  "BofList_CheckConsistency s l =
     list_guard s l (\<lambda>s.
       bindO (list_count_loop (st_nbNodes s) s (bl_mpHead_O (st_lists s l)) 0) (\<lambda>NbElements_U32.
         Ret (s, NbElements_U32 = bl_mNbElements_U32 (st_lists s l))))"

section \<open>Sort\<close>

text \<open>
  \<^verbatim>\<open>ListSort\<close>, a merge sort from the bottom up that relinks the nodes. The 32-bit
  counters are natural numbers; going beyond the largest value of \<^verbatim>\<open>int32_t\<close> has no
  meaning in C++.
\<close>

definition s32_max :: nat where
  "s32_max = 2 ^ 31 - 1"

text \<open>The successor in a list that may be circular.\<close>

definition sort_next :: "bool \<Rightarrow> nat option \<Rightarrow> 'e BofListNode \<Rightarrow> nat option" where
  "sort_next IsCircular_B pOldHead_O n = (if IsCircular_B \<and> bn_pNext_O n = pOldHead_O then None else bn_pNext_O n)"

text \<open>The loop that steps \<^verbatim>\<open>InSize_S32\<close> places along: the node it reaches and the number of steps.\<close>

fun sort_advance :: "nat \<Rightarrow> bool \<Rightarrow> nat option \<Rightarrow> 'e list_store \<Rightarrow> nat option \<Rightarrow> nat \<Rightarrow> (nat option \<times> nat) outcome" where
  "sort_advance 0 IsCircular_B pOldHead_O s pNode2_O Size1_S32 = Ret (pNode2_O, Size1_S32)"
| "sort_advance (Suc n) IsCircular_B pOldHead_O s pNode2_O Size1_S32 =
     node_at s pNode2_O (\<lambda>node.
       let pNode2_O = sort_next IsCircular_B pOldHead_O node
       in if pNode2_O = None then Ret (pNode2_O, Size1_S32 + 1)
          else sort_advance n IsCircular_B pOldHead_O s pNode2_O (Size1_S32 + 1))"

text \<open>The choice of the next node: the node and what is left of the two runs.\<close>

definition sort_pick ::
  "('e \<Rightarrow> 'e \<Rightarrow> int) \<Rightarrow> bool \<Rightarrow> nat option \<Rightarrow> 'e list_store \<Rightarrow> nat option \<Rightarrow> nat \<Rightarrow> nat option \<Rightarrow> nat \<Rightarrow>
     (nat option \<times> nat option \<times> nat \<times> nat option \<times> nat) outcome" where
  "sort_pick compare IsCircular_B pOldHead_O s pNode1_O Size1_S32 pNode2_O Size2_S32 =
     (if Size1_S32 = 0 then
        node_at s pNode2_O (\<lambda>n2. Ret (pNode2_O, pNode1_O, Size1_S32, sort_next IsCircular_B pOldHead_O n2, Size2_S32 - 1))
      else if Size2_S32 = 0 \<or> pNode2_O = None then
        node_at s pNode1_O (\<lambda>n1. Ret (pNode1_O, sort_next IsCircular_B pOldHead_O n1, Size1_S32 - 1, pNode2_O, Size2_S32))
      else
        node_at s pNode1_O (\<lambda>n1. node_at s pNode2_O (\<lambda>n2.
          if compare (bn_Value n1) (bn_Value n2) \<le> 0
          then Ret (pNode1_O, sort_next IsCircular_B pOldHead_O n1, Size1_S32 - 1, pNode2_O, Size2_S32)
          else Ret (pNode2_O, pNode1_O, Size1_S32, sort_next IsCircular_B pOldHead_O n2, Size2_S32 - 1))))"

definition sort_link :: "bool \<Rightarrow> 'e list_store \<Rightarrow> nat \<Rightarrow> nat option \<Rightarrow> 'e list_store outcome" where
  "sort_link IsDouble_B s l pNode3_O =
     (let queue = bl_mpQueue_O (st_lists s l) in
      bindO (if queue \<noteq> None then set_node s queue (\<lambda>n. n\<lparr>bn_pNext_O := pNode3_O\<rparr>) Ret
             else Ret (set_list s l (\<lambda>this. this\<lparr>bl_mpHead_O := pNode3_O\<rparr>))) (\<lambda>s.
        bindO (if IsDouble_B then set_node s pNode3_O (\<lambda>n. n\<lparr>bn_pPrev_O := queue\<rparr>) Ret else Ret s) (\<lambda>s.
          Ret (set_list s l (\<lambda>this. this\<lparr>bl_mpQueue_O := pNode3_O\<rparr>)))))"

text \<open>The merge of two runs; each turn takes one node off one of them.\<close>

fun sort_merge ::
  "nat \<Rightarrow> ('e \<Rightarrow> 'e \<Rightarrow> int) \<Rightarrow> bool \<Rightarrow> bool \<Rightarrow> nat option \<Rightarrow> 'e list_store \<Rightarrow> nat \<Rightarrow> nat option \<Rightarrow> nat \<Rightarrow> nat option \<Rightarrow> nat \<Rightarrow>
     ('e list_store \<times> nat option) outcome" where
  "sort_merge 0 compare IsCircular_B IsDouble_B pOldHead_O s l pNode1_O Size1_S32 pNode2_O Size2_S32 =
     (if Size1_S32 > 0 \<or> Size2_S32 > 0 \<and> pNode2_O \<noteq> None then Retrying else Ret (s, pNode2_O))"
| "sort_merge (Suc n) compare IsCircular_B IsDouble_B pOldHead_O s l pNode1_O Size1_S32 pNode2_O Size2_S32 =
     (if Size1_S32 > 0 \<or> Size2_S32 > 0 \<and> pNode2_O \<noteq> None then
        bindO (sort_pick compare IsCircular_B pOldHead_O s pNode1_O Size1_S32 pNode2_O Size2_S32)
          (\<lambda>(pNode3_O, pNode1_O, Size1_S32, pNode2_O, Size2_S32).
             bindO (sort_link IsDouble_B s l pNode3_O) (\<lambda>s.
               sort_merge n compare IsCircular_B IsDouble_B pOldHead_O s l pNode1_O Size1_S32 pNode2_O Size2_S32))
      else Ret (s, pNode2_O))"

text \<open>One pass: the merges of all pairs of runs, and their number.\<close>

fun sort_pass ::
  "nat \<Rightarrow> ('e \<Rightarrow> 'e \<Rightarrow> int) \<Rightarrow> bool \<Rightarrow> bool \<Rightarrow> nat option \<Rightarrow> 'e list_store \<Rightarrow> nat \<Rightarrow> nat option \<Rightarrow> nat \<Rightarrow> nat \<Rightarrow> ('e list_store \<times> nat) outcome" where
  "sort_pass 0 compare IsCircular_B IsDouble_B pOldHead_O s l pNode1_O InSize_S32 NbMerges_S32 =
     (if pNode1_O = None then Ret (s, NbMerges_S32) else Retrying)"
| "sort_pass (Suc n) compare IsCircular_B IsDouble_B pOldHead_O s l pNode1_O InSize_S32 NbMerges_S32 =
     (if pNode1_O = None then Ret (s, NbMerges_S32)
      else if NbMerges_S32 + 1 > s32_max then Undefined
      else
        bindO (sort_advance InSize_S32 IsCircular_B pOldHead_O s pNode1_O 0) (\<lambda>(pNode2_O, Size1_S32).
          bindO (sort_merge (Size1_S32 + InSize_S32) compare IsCircular_B IsDouble_B pOldHead_O s l pNode1_O Size1_S32 pNode2_O InSize_S32)
            (\<lambda>(s, pNode2_O).
               sort_pass n compare IsCircular_B IsDouble_B pOldHead_O s l pNode2_O InSize_S32 (NbMerges_S32 + 1))))"

text \<open>The passes over runs of doubling length; after 31 of them the length has left its type.\<close>

definition sort_close :: "bool \<Rightarrow> bool \<Rightarrow> 'e list_store \<Rightarrow> nat \<Rightarrow> 'e list_store outcome" where
  "sort_close IsCircular_B IsDouble_B s l =
     (let this = st_lists s l in
      if IsCircular_B then
        set_node s (bl_mpQueue_O this) (\<lambda>n. n\<lparr>bn_pNext_O := bl_mpHead_O this\<rparr>) (\<lambda>s.
          if IsDouble_B then set_node s (bl_mpHead_O this) (\<lambda>n. n\<lparr>bn_pPrev_O := bl_mpQueue_O this\<rparr>) Ret else Ret s)
      else set_node s (bl_mpQueue_O this) (\<lambda>n. n\<lparr>bn_pNext_O := None\<rparr>) Ret)"

fun sort_passes :: "nat \<Rightarrow> ('e \<Rightarrow> 'e \<Rightarrow> int) \<Rightarrow> bool \<Rightarrow> bool \<Rightarrow> 'e list_store \<Rightarrow> nat \<Rightarrow> nat \<Rightarrow> 'e list_store outcome" where
  "sort_passes 0 compare IsCircular_B IsDouble_B s l InSize_S32 = Retrying"
| "sort_passes (Suc n) compare IsCircular_B IsDouble_B s l InSize_S32 =
     (let pOldHead_O = bl_mpHead_O (st_lists s l);
          s = set_list s l (\<lambda>this. this\<lparr>bl_mpHead_O := None, bl_mpQueue_O := None\<rparr>)
      in bindO (sort_pass (Suc (unat (bl_mNbElements_U32 (st_lists s l)))) compare IsCircular_B IsDouble_B pOldHead_O s l pOldHead_O InSize_S32 0)
           (\<lambda>(s, NbMerges_S32).
              bindO (sort_close IsCircular_B IsDouble_B s l) (\<lambda>s.
                if InSize_S32 * 2 > s32_max then Undefined
                else if NbMerges_S32 \<le> 1 then Ret s
                else sort_passes n compare IsCircular_B IsDouble_B s l (InSize_S32 * 2))))"

definition BofList_ListSort :: "('e \<Rightarrow> 'e \<Rightarrow> int) \<Rightarrow> ('e \<Rightarrow> 'e \<Rightarrow> int) option \<Rightarrow> bool \<Rightarrow> bool \<Rightarrow> 'e list_store \<Rightarrow> nat \<Rightarrow> 'e list_store outcome" where
  "BofList_ListSort memcmp_E pCompare IsCircular_B IsDouble_B s l =
     (if bl_mpHead_O (st_lists s l) = None then Ret s
      else sort_passes 31 (list_compare memcmp_E pCompare) IsCircular_B IsDouble_B s l 1)"

definition BofList_Sort :: "('e \<Rightarrow> 'e \<Rightarrow> int) \<Rightarrow> 'e list_store \<Rightarrow> nat \<Rightarrow> ('e \<Rightarrow> 'e \<Rightarrow> int) option \<Rightarrow> ('e list_store \<times> bool) outcome" where
  "BofList_Sort memcmp_E s l pMethod =
     list_guard s l (\<lambda>s. bindO (BofList_ListSort memcmp_E pMethod False True s l) (\<lambda>s. Ret (s, True)))"

end
