(* ===== verification/Bof_Chain.thy ===== *)
theory Bof_Chain
  imports Bof_List
begin

text \<open>
  Doubly linked segments of nodes: which addresses a chain of links goes through,
  and what the insertion and the removal of a node do to it.
\<close>

section \<open>Segments\<close>

type_synonym 'e node_heap = "nat \<Rightarrow> 'e BofListNode option"

text \<open>
  \<open>dlseg h a p xs q b\<close>: the segment that starts at \<open>a\<close> goes through \<open>xs\<close>; \<open>p\<close> is the node before
  it, \<open>q\<close> its last node, \<open>b\<close> the node after it.
\<close>

fun dlseg :: "'e node_heap \<Rightarrow> nat option \<Rightarrow> nat option \<Rightarrow> nat list \<Rightarrow> nat option \<Rightarrow> nat option \<Rightarrow> bool" where
  "dlseg h a p [] q b \<longleftrightarrow> a = b \<and> q = p"
| "dlseg h a p (x # xs) q b \<longleftrightarrow>
     a = Some x \<and> (case h x of None \<Rightarrow> False | Some n \<Rightarrow> bn_pPrev_O n = p \<and> dlseg h (bn_pNext_O n) (Some x) xs q b)"

definition opt_last :: "'a list \<Rightarrow> 'a option" where
  "opt_last xs = (if xs = [] then None else Some (last xs))"

lemma opt_hd_None [simp]: "(opt_hd xs = None) = (xs = [])"
  by (simp add: opt_hd_def split: list.split)

lemma opt_last_simps [simp]: "opt_last [] = None" "opt_last (xs @ [x]) = Some x" "(opt_last xs = None) = (xs = [])"
  by (simp_all add: opt_last_def)

lemma opt_hd_append [simp]: "opt_hd (xs @ ys) = (if xs = [] then opt_hd ys else opt_hd xs)"
  by (cases xs) simp_all

lemma opt_last_append [simp]: "opt_last (xs @ ys) = (if ys = [] then opt_last xs else opt_last ys)"
  by (simp add: opt_last_def)

lemma opt_last_Cons [simp]: "opt_last (x # xs) = (if xs = [] then Some x else opt_last xs)"
  by (simp add: opt_last_def)

lemma opt_in: "opt_hd xs = Some x \<Longrightarrow> x \<in> set xs" "opt_last xs = Some x \<Longrightarrow> x \<in> set xs"
  by (cases xs; simp) (auto simp: opt_last_def split: if_splits)

lemma opt_ex: "xs \<noteq> [] \<Longrightarrow> \<exists>x \<in> set xs. opt_hd xs = Some x" "xs \<noteq> [] \<Longrightarrow> \<exists>x \<in> set xs. opt_last xs = Some x"
  by (cases xs; simp) (simp add: opt_last_def)

lemma dlseg_ends: "dlseg h a p xs q b \<Longrightarrow> xs \<noteq> [] \<Longrightarrow> a = opt_hd xs \<and> q = opt_last xs"
  by (induction xs arbitrary: a p) (auto split: option.splits)

lemma dlseg_append:
  "dlseg h a p (xs @ ys) q b \<longleftrightarrow> (\<exists>m n. dlseg h a p xs m n \<and> dlseg h n m ys q b)"
  by (induction xs arbitrary: a p) (auto split: option.splits)

text \<open>Only the links of its own nodes matter to a segment.\<close>

definition links :: "'e BofListNode \<Rightarrow> nat option \<times> nat option" where
  "links n = (bn_pPrev_O n, bn_pNext_O n)"

lemma dlseg_frame:
  assumes "\<And>x. x \<in> set xs \<Longrightarrow> map_option links (h' x) = map_option links (h x)"
  shows "dlseg h' a p xs q b = dlseg h a p xs q b"
  using assms
proof (induction xs arbitrary: a p)
  case (Cons x xs)
  have IH: "dlseg h' a p xs q b = dlseg h a p xs q b" for a p using Cons.prems by (intro Cons.IH) simp
  have "map_option links (h' x) = map_option links (h x)" by (rule Cons.prems) simp
  then show ?case by (cases "h x"; cases "h' x") (auto simp: links_def IH)
qed simp

section \<open>Changing the links\<close>

definition upd :: "'e node_heap \<Rightarrow> nat option \<Rightarrow> ('e BofListNode \<Rightarrow> 'e BofListNode) \<Rightarrow> 'e node_heap" where
  "upd h p f = (case p of None \<Rightarrow> h | Some a \<Rightarrow> h(a := map_option f (h a)))"

lemma upd_None [simp]: "upd h None f = h"
  by (simp add: upd_def)

lemma upd_other: "p \<noteq> Some a \<Longrightarrow> upd h p f a = h a"
  by (auto simp: upd_def split: option.splits)

lemma upd_same [simp]: "upd h (Some a) f a = map_option f (h a)"
  by (simp add: upd_def)

lemma upd_apply: "upd h p f a = (if p = Some a then map_option f (h a) else h a)"
  by (auto simp: upd_def split: option.splits)

text \<open>The node after the end of a segment, and the one before its beginning.\<close>

lemma dlseg_set_next:
  assumes "dlseg h a p xs q b" "distinct xs"
  shows "dlseg (upd h (opt_last xs) (\<lambda>n. n\<lparr>bn_pNext_O := v\<rparr>)) (if xs = [] then v else a) p xs q v"
proof (cases xs rule: rev_cases)
  case Nil
  then show ?thesis using assms by simp
next
  case (snoc ys y)
  obtain m k where d: "dlseg h a p ys m k" "dlseg h k m [y] q b" using assms(1) snoc by (auto simp: dlseg_append)
  have "dlseg (upd h (Some y) (\<lambda>n. n\<lparr>bn_pNext_O := v\<rparr>)) a p ys m k"
    using d(1) assms(2) snoc by (subst dlseg_frame) (auto simp: upd_apply)
  then show ?thesis using d(2) snoc by (auto simp: dlseg_append split: option.splits)
qed

lemma dlseg_set_prev:
  assumes "dlseg h a p xs q b" "distinct xs"
  shows "dlseg (upd h (opt_hd xs) (\<lambda>n. n\<lparr>bn_pPrev_O := v\<rparr>)) a v xs (if xs = [] then v else q) b"
proof (cases xs)
  case Nil
  then show ?thesis using assms by simp
next
  case (Cons y ys)
  then have "dlseg (upd h (Some y) (\<lambda>n. n\<lparr>bn_pPrev_O := v\<rparr>)) k (Some y) ys q b = dlseg h k (Some y) ys q b" for k
    using assms(2) by (intro dlseg_frame) (auto simp: upd_apply)
  then show ?thesis using assms Cons by (auto split: option.splits)
qed

section \<open>Chains\<close>

text \<open>A whole chain, from its first node to its last.\<close>

definition chain :: "'e node_heap \<Rightarrow> nat option \<Rightarrow> nat list \<Rightarrow> nat option \<Rightarrow> bool" where
  "chain h a xs q \<longleftrightarrow> dlseg h a None xs q None \<and> distinct xs"

lemma chain_ends: "chain h a xs q \<Longrightarrow> a = opt_hd xs" "chain h a xs q \<Longrightarrow> q = opt_last xs"
  using dlseg_ends [of h a None xs q None] by (cases xs; auto simp: chain_def)+

lemma chain_frame:
  assumes "\<And>x. x \<in> set xs \<Longrightarrow> map_option links (h' x) = map_option links (h x)"
  shows "chain h' a xs q = chain h a xs q"
  unfolding chain_def by (simp add: dlseg_frame [where h = h and h' = h', OF assms])

lemma dlseg_mem: "dlseg h a p xs q b \<Longrightarrow> x \<in> set xs \<Longrightarrow> \<exists>n. h x = Some n"
  by (induction xs arbitrary: a p) (auto split: option.splits)

lemma chain_mem: "chain h a xs q \<Longrightarrow> x \<in> set xs \<Longrightarrow> \<exists>n. h x = Some n"
  unfolding chain_def using dlseg_mem by blast

text \<open>The links of a node in the middle of a chain.\<close>

lemma chain_split:
  assumes "chain h a (xs @ x # ys) q"
  obtains n where "h x = Some n" "bn_pPrev_O n = opt_last xs" "bn_pNext_O n = opt_hd ys"
    "dlseg h a None xs (opt_last xs) (Some x)" "dlseg h (opt_hd ys) (Some x) ys q None"
proof -
  from assms obtain m k n where d: "dlseg h a None xs m k" "k = Some x" "h x = Some n" "bn_pPrev_O n = m"
    "dlseg h (bn_pNext_O n) (Some x) ys q None"
    by (auto simp: chain_def dlseg_append split: option.splits)
  have m: "m = opt_last xs" using d(1) dlseg_ends [of h a None xs m k] by (cases "xs = []") auto
  have "bn_pNext_O n = opt_hd ys" using d(5) dlseg_ends [of h "bn_pNext_O n" "Some x" ys q None] by (cases "ys = []") auto
  with d m show thesis using that by simp
qed

lemma chain_remove:
  assumes "chain h a (xs @ x # ys) q"
  shows "chain (upd (upd h (opt_last xs) (\<lambda>n. n\<lparr>bn_pNext_O := opt_hd ys\<rparr>)) (opt_hd ys) (\<lambda>n. n\<lparr>bn_pPrev_O := opt_last xs\<rparr>))
     (opt_hd (xs @ ys)) (xs @ ys) (opt_last (xs @ ys))"
proof -
  let ?h1 = "upd h (opt_last xs) (\<lambda>n. n\<lparr>bn_pNext_O := opt_hd ys\<rparr>)"
  let ?h2 = "upd ?h1 (opt_hd ys) (\<lambda>n. n\<lparr>bn_pPrev_O := opt_last xs\<rparr>)"
  have dist: "distinct xs" "distinct ys" "set xs \<inter> set ys = {}" "distinct (xs @ ys)" using assms by (auto simp: chain_def)
  obtain d1: "dlseg h a None xs (opt_last xs) (Some x)" and d2: "dlseg h (opt_hd ys) (Some x) ys q None"
    by (rule chain_split [OF assms])
  have a: "a = (if xs = [] then Some x else opt_hd xs)" using d1 dlseg_ends [OF d1] by (cases "xs = []") auto
  have q: "q = (if ys = [] then Some x else opt_last ys)" using d2 dlseg_ends [OF d2] by (cases "ys = []") auto
  have "dlseg ?h1 (if xs = [] then opt_hd ys else a) None xs (opt_last xs) (opt_hd ys)"
    by (rule dlseg_set_next [OF d1 dist(1)])
  then have s1: "dlseg ?h2 (opt_hd (xs @ ys)) None xs (opt_last xs) (opt_hd ys)"
    using dist(3) opt_in(1) [of ys] a by (subst dlseg_frame) (auto simp: upd_apply split: if_splits)
  have "dlseg ?h1 (opt_hd ys) (Some x) ys q None"
    using d2 dist(3) opt_in(2) [of xs] by (subst dlseg_frame) (auto simp: upd_apply)
  then have "dlseg ?h2 (opt_hd ys) (opt_last xs) ys (if ys = [] then opt_last xs else q) None"
    by (rule dlseg_set_prev [OF _ dist(2)])
  then have "dlseg ?h2 (opt_hd ys) (opt_last xs) ys (opt_last (xs @ ys)) None" using q by (simp split: if_splits)
  with s1 dist(4) show ?thesis unfolding chain_def dlseg_append by blast
qed

lemma chain_insert:
  assumes "chain h a (xs @ ys) q" "x \<notin> set (xs @ ys)" "h x = Some n" "bn_pPrev_O n = opt_last xs" "bn_pNext_O n = opt_hd ys"
  shows "chain (upd (upd h (opt_last xs) (\<lambda>n. n\<lparr>bn_pNext_O := Some x\<rparr>)) (opt_hd ys) (\<lambda>n. n\<lparr>bn_pPrev_O := Some x\<rparr>))
     (opt_hd (xs @ x # ys)) (xs @ x # ys) (opt_last (xs @ x # ys))"
proof -
  let ?h1 = "upd h (opt_last xs) (\<lambda>n. n\<lparr>bn_pNext_O := Some x\<rparr>)"
  let ?h2 = "upd ?h1 (opt_hd ys) (\<lambda>n. n\<lparr>bn_pPrev_O := Some x\<rparr>)"
  have dist: "distinct xs" "distinct ys" "set xs \<inter> set ys = {}" "distinct (xs @ x # ys)" using assms(1,2) by (auto simp: chain_def)
  obtain m k where d: "dlseg h a None xs m k" "dlseg h k m ys q None" using assms(1) by (auto simp: chain_def dlseg_append)
  have m: "m = opt_last xs" using d(1) dlseg_ends [OF d(1)] by (cases "xs = []") auto
  have k: "k = opt_hd ys" using d(2) dlseg_ends [OF d(2)] by (cases "ys = []") auto
  have a: "xs \<noteq> [] \<Longrightarrow> a = opt_hd xs" and q: "ys \<noteq> [] \<Longrightarrow> q = opt_last ys" using dlseg_ends d by blast+
  have "dlseg ?h1 (if xs = [] then Some x else a) None xs m (Some x)" by (rule dlseg_set_next [OF d(1) dist(1)])
  then have s1: "dlseg ?h2 (opt_hd (xs @ x # ys)) None xs (opt_last xs) (Some x)"
    using dist(3) opt_in(1) [of ys] a m by (subst dlseg_frame) (auto simp: upd_apply split: if_splits)
  have "dlseg ?h1 k m ys q None" using d(2) dist(3) opt_in(2) [of xs] by (subst dlseg_frame) (auto simp: upd_apply)
  then have "dlseg ?h2 k (Some x) ys (if ys = [] then Some x else q) None" unfolding k by (rule dlseg_set_prev [OF _ dist(2)])
  then have s2: "dlseg ?h2 (opt_hd ys) (Some x) ys (opt_last (x # ys)) None" using q k by (simp split: if_splits)
  have "?h2 x = Some n" using assms(2,3) opt_in(1) [of ys] opt_in(2) [of xs] by (auto simp: upd_apply)
  then have "dlseg ?h2 (Some x) (opt_last xs) (x # ys) (opt_last (x # ys)) None" using s2 assms(4,5) by simp
  moreover have "opt_last (xs @ x # ys) = opt_last (x # ys)" by simp
  ultimately show ?thesis using s1 dist(4) unfolding chain_def dlseg_append by metis
qed

end
