(* ===== verification/Bof_List_Proofs.thy ===== *)
theory Bof_List_Proofs
  imports Bof_Chain
begin

text \<open>
  The methods of the lists as effects on the store: what each of them does to the
  nodes and to the list objects, under the invariant that the store is made of
  disjoint chains.
\<close>

section \<open>The mutex of a list\<close>

definition set_mtx :: "'e list_store \<Rightarrow> nat \<Rightarrow> BOF_MUTEX \<Rightarrow> 'e list_store" where
  "set_mtx s l m = set_list s l (\<lambda>this. this\<lparr>bl_mListMtx_X := m\<rparr>)"

lemma set_mtx_simps [simp]:
  "st_nodes (set_mtx s l m) = st_nodes s" "st_nbNodes (set_mtx s l m) = st_nbNodes s" "st_nbLists (set_mtx s l m) = st_nbLists s"
  "bl_mNbElements_U32 (st_lists (set_mtx s l m) k) = bl_mNbElements_U32 (st_lists s k)"
  "bl_mNbMaxElements_U32 (st_lists (set_mtx s l m) k) = bl_mNbMaxElements_U32 (st_lists s k)"
  "bl_mpHead_O (st_lists (set_mtx s l m) k) = bl_mpHead_O (st_lists s k)"
  "bl_mpQueue_O (st_lists (set_mtx s l m) k) = bl_mpQueue_O (st_lists s k)"
  "bl_mpFreeNodesHead_O (st_lists (set_mtx s l m) k) = bl_mpFreeNodesHead_O (st_lists s k)"
  "bl_mpFreeNodesQueue_O (st_lists (set_mtx s l m) k) = bl_mpFreeNodesQueue_O (st_lists s k)"
  "bl_mMultiThreadAware_B (st_lists (set_mtx s l m) k) = bl_mMultiThreadAware_B (st_lists s k)"
  "bl_mpNodePoolMgr_O (st_lists (set_mtx s l m) k) = bl_mpNodePoolMgr_O (st_lists s k)"
  "bl_mListMtx_X (st_lists (set_mtx s l m) k) = (if k = l then m else bl_mListMtx_X (st_lists s k))"
  by (simp_all add: set_mtx_def set_list_def)

lemma set_mtx_self [simp]: "set_mtx s l (bl_mListMtx_X (st_lists s l)) = s"
  by (simp add: set_mtx_def set_list_def)

lemma set_mtx_twice [simp]: "set_mtx (set_mtx s l m) l m' = set_mtx s l m'"
  by (simp add: set_mtx_def set_list_def)

text \<open>
  An effect on the store that neither reads nor writes the mutexes: a method that
  brackets it with \<^verbatim>\<open>LockList\<close> and \<^verbatim>\<open>UnlockList\<close> has the same effect.
\<close>

definition mtx_free :: "('e list_store \<Rightarrow> 'e list_store) \<Rightarrow> bool" where
  "mtx_free f \<longleftrightarrow> (\<forall>s l m. f (set_mtx s l m) = set_mtx (f s) l m) \<and>
     (\<forall>s l. bl_mMultiThreadAware_B (st_lists (f s) l) = bl_mMultiThreadAware_B (st_lists s l))"

lemma list_guard_effect:
  assumes ok: "bl_mMultiThreadAware_B (st_lists s l) \<longrightarrow> recursive_mutex_ok (bl_mListMtx_X (st_lists s l))"
    and body: "\<And>m. bl_mMultiThreadAware_B (st_lists s l) \<longrightarrow> recursive_mutex_ok m \<Longrightarrow> body (set_mtx s l m) = Ret (f (set_mtx s l m), r)"
    and f: "mtx_free f"
  shows "list_guard s l body = Ret (f s, r)"
proof (cases "bl_mMultiThreadAware_B (st_lists s l)")
  case True
  let ?m = "bl_mListMtx_X (st_lists s l)"
  obtain m' where m': "Bof_LockMutex ?m = Ret (m', BOF_ERR_NO_ERROR)" "recursive_mutex_ok m'" "Bof_UnlockMutex m' = Ret (?m, BOF_ERR_NO_ERROR)"
    using recursive_mutex_cycle ok True by blast
  have c: "f (set_mtx s l m') = set_mtx (f s) l m'" "set_mtx (f s) l ?m = f s"
    using f set_mtx_self [of s l] unfolding mtx_free_def by metis+
  have mt: "bl_mMultiThreadAware_B (st_lists (f s) l)" using f True by (simp add: mtx_free_def)
  have "BofList_LockList s l = Ret (set_mtx s l m', BOF_ERR_NO_ERROR)"
    using True m'(1) by (simp add: BofList_LockList_def set_mtx_def)
  moreover have "BofList_UnlockList (set_mtx (f s) l m') l = Ret (f s, BOF_ERR_NO_ERROR)"
    using mt m'(3) c(2) set_mtx_twice [of "f s" l m' ?m] by (simp add: BofList_UnlockList_def set_mtx_def [symmetric])
  ultimately show ?thesis using body [of m'] m'(2) c(1) by (simp add: list_guard_def)
next
  case False
  then have "\<not> bl_mMultiThreadAware_B (st_lists (f s) l)" using f by (simp add: mtx_free_def)
  with False show ?thesis
    using body [of "bl_mListMtx_X (st_lists s l)"] by (simp add: list_guard_def BofList_LockList_def BofList_UnlockList_def)
qed

section \<open>Effects on the store\<close>

lemma upd_None_iff [simp]: "(upd h p f a = None) = (h a = None)"
  by (auto simp: upd_apply)

declare upd_other [simp]

lemma node_at_Some [simp]: "st_nodes s a = Some n \<Longrightarrow> node_at s (Some a) k = k n"
  by (simp add: node_at_def)

lemma set_node_Some [simp]:
  "st_nodes s a \<noteq> None \<Longrightarrow> set_node s (Some a) f k = k (s\<lparr>st_nodes := upd (st_nodes s) (Some a) f\<rparr>)"
  by (auto simp: set_node_def node_at_def upd_def)

lemma CHK_True [simp]: "P \<Longrightarrow> CHK dbg P k = k"
  by (simp add: CHK_def)

lemma chk_parent_ok [simp]: "map_option bn_pParent_O (st_nodes s a) = Some (Some l) \<Longrightarrow> chk_parent dbg s (Some a) l k = k"
  by (cases "st_nodes s a") (auto simp: chk_parent_def)

lemma parent_upd [simp]:
  "map_option bn_pParent_O (upd h p (\<lambda>n. n\<lparr>bn_pNext_O := v\<rparr>) a) = map_option bn_pParent_O (h a)"
  "map_option bn_pParent_O (upd h p (\<lambda>n. n\<lparr>bn_pPrev_O := v\<rparr>) a) = map_option bn_pParent_O (h a)"
  "map_option bn_pParent_O (upd h p (\<lambda>n. n\<lparr>bn_pNext_O := v, bn_pPrev_O := w\<rparr>) a) = map_option bn_pParent_O (h a)"
  "map_option bn_pParent_O (upd h p (\<lambda>n. n\<lparr>bn_pPrev_O := w, bn_pNext_O := v\<rparr>) a) = map_option bn_pParent_O (h a)"
  by (auto simp: upd_apply option.map_comp o_def)

lemma set_list_simps [simp]:
  "st_nodes (set_list s l f) = st_nodes s" "st_nbNodes (set_list s l f) = st_nbNodes s" "st_nbLists (set_list s l f) = st_nbLists s"
  "st_lists (set_list s l f) k = (if k = l then f (st_lists s l) else st_lists s k)"
  by (simp_all add: set_list_def)

text \<open>The nodes and the object of a list after the insertion of \<open>x\<close> between \<open>xs\<close> and \<open>ys\<close>.\<close>

definition ins_nodes :: "nat option \<Rightarrow> nat \<Rightarrow> nat list \<Rightarrow> nat list \<Rightarrow> 'e node_heap \<Rightarrow> 'e node_heap" where
  "ins_nodes par x xs ys h =
     upd (upd (upd h (Some x) (\<lambda>n. n\<lparr>bn_pPrev_O := opt_last xs, bn_pNext_O := opt_hd ys, bn_pParent_O := par\<rparr>))
            (opt_last xs) (\<lambda>n. n\<lparr>bn_pNext_O := Some x\<rparr>)) (opt_hd ys) (\<lambda>n. n\<lparr>bn_pPrev_O := Some x\<rparr>)"

text \<open>An effect: a change of the nodes and a change of one list object.\<close>

definition effect :: "('e node_heap \<Rightarrow> 'e node_heap) \<Rightarrow> nat \<Rightarrow> (BofList \<Rightarrow> BofList) \<Rightarrow> 'e list_store \<Rightarrow> 'e list_store" where
  "effect g l f s = set_list (s\<lparr>st_nodes := g (st_nodes s)\<rparr>) l f"

lemma mtx_free_effect:
  assumes "\<And>t m. f (t\<lparr>bl_mListMtx_X := m\<rparr>) = (f t)\<lparr>bl_mListMtx_X := m\<rparr>"
    "\<And>t. bl_mMultiThreadAware_B (f t) = bl_mMultiThreadAware_B t"
  shows "mtx_free (effect g l f)"
proof -
  have "effect g l f (set_mtx s k m) = set_mtx (effect g l f s) k m" for s k m
    by (cases "k = l") (simp_all add: effect_def set_mtx_def set_list_def assms fun_upd_twist)
  then show ?thesis by (auto simp: mtx_free_def effect_def assms)
qed

lemma effect_simps [simp]:
  "st_nodes (effect g l f s) = g (st_nodes s)" "st_nbNodes (effect g l f s) = st_nbNodes s" "st_nbLists (effect g l f s) = st_nbLists s"
  "st_lists (effect g l f s) k = (if k = l then f (st_lists s l) else st_lists s k)"
  by (simp_all add: effect_def)

lemma effect_eqI:
  assumes "\<And>a. st_nodes s' a = g (st_nodes s) a" "\<And>k. st_lists s' k = (if k = l then f (st_lists s l) else st_lists s k)"
    "st_nbNodes s' = st_nbNodes s" "st_nbLists s' = st_nbLists s"
  shows "s' = effect g l f s"
  using assms by (intro list_store.equality) (auto simp: fun_eq_iff)

definition ins_effect :: "nat \<Rightarrow> nat \<Rightarrow> nat list \<Rightarrow> nat list \<Rightarrow> 'e list_store \<Rightarrow> 'e list_store" where
  "ins_effect l x xs ys = effect (ins_nodes (Some l) x xs ys) l
     (\<lambda>this. this\<lparr>bl_mpHead_O := opt_hd (xs @ x # ys), bl_mpQueue_O := opt_last (xs @ x # ys),
                  bl_mNbElements_U32 := bl_mNbElements_U32 this + 1\<rparr>)"

text \<open>The removal of the node between \<open>xs\<close> and \<open>ys\<close>; it keeps its own links.\<close>

definition del_nodes :: "nat list \<Rightarrow> nat list \<Rightarrow> 'e node_heap \<Rightarrow> 'e node_heap" where
  "del_nodes xs ys h =
     upd (upd h (opt_last xs) (\<lambda>n. n\<lparr>bn_pNext_O := opt_hd ys\<rparr>)) (opt_hd ys) (\<lambda>n. n\<lparr>bn_pPrev_O := opt_last xs\<rparr>)"

definition del_effect :: "nat \<Rightarrow> nat list \<Rightarrow> nat list \<Rightarrow> 'e list_store \<Rightarrow> 'e list_store" where
  "del_effect l xs ys = effect (del_nodes xs ys) l (\<lambda>this. this\<lparr>bl_mpHead_O := opt_hd (xs @ ys), bl_mpQueue_O := opt_last (xs @ ys)\<rparr>)"

text \<open>A list object whose chain is \<open>xs\<close>.\<close>

definition list_at :: "'e list_store \<Rightarrow> nat \<Rightarrow> nat list \<Rightarrow> bool" where
  "list_at s l xs \<longleftrightarrow> chain (st_nodes s) (bl_mpHead_O (st_lists s l)) xs (bl_mpQueue_O (st_lists s l)) \<and>
     (\<forall>x \<in> set xs. map_option bn_pParent_O (st_nodes s x) = Some (Some l))"

definition list_ready :: "'e list_store \<Rightarrow> nat \<Rightarrow> bool" where
  "list_ready s l \<longleftrightarrow> (bl_mMultiThreadAware_B (st_lists s l) \<longrightarrow> recursive_mutex_ok (bl_mListMtx_X (st_lists s l)))"

lemma list_at_set_mtx [simp]: "list_at (set_mtx s l m) k xs = list_at s k xs"
  by (simp add: list_at_def)

lemma list_atD:
  assumes "list_at s l xs"
  shows "bl_mpHead_O (st_lists s l) = opt_hd xs" "bl_mpQueue_O (st_lists s l) = opt_last xs" "distinct xs"
    "x \<in> set xs \<Longrightarrow> \<exists>n. st_nodes s x = Some n \<and> bn_pParent_O n = Some l"
  using assms chain_ends [of "st_nodes s" "bl_mpHead_O (st_lists s l)" xs "bl_mpQueue_O (st_lists s l)"]
  by (auto simp: list_at_def chain_def)

lemma mtx_free_effects [simp]:
  "mtx_free (ins_effect l x xs ys)" "mtx_free (del_effect l xs ys)"
  unfolding ins_effect_def del_effect_def by (rule mtx_free_effect; case_tac t; simp)+

lemma mtx_free_comp: "mtx_free f \<Longrightarrow> mtx_free g \<Longrightarrow> mtx_free (\<lambda>s. f (g s))"
  by (simp add: mtx_free_def)

section \<open>Insertion\<close>

text \<open>A node that belongs to no list.\<close>

definition loose :: "'e list_store \<Rightarrow> nat \<Rightarrow> bool" where
  "loose s x \<longleftrightarrow> map_option bn_pParent_O (st_nodes s x) = Some None"

lemma loose_set_mtx [simp]: "loose (set_mtx s l m) x = loose s x"
  by (simp add: loose_def)

lemma list_link_before_eq:
  assumes at: "list_at s l (xs @ e # ys)" and loose: "loose s x"
  shows "list_link_before dbg s l (Some e) (Some x) = Ret (ins_effect l x xs (e # ys) s, True)"
proof -
  obtain ne where ne: "st_nodes s e = Some ne" "bn_pParent_O ne = Some l" using list_atD(4) [OF at, of e] by auto
  obtain n where x: "st_nodes s x = Some n" "bn_pParent_O n = None" using loose by (auto simp: loose_def)
  have prev: "bn_pPrev_O ne = opt_last xs" using at ne(1) by (auto simp: list_at_def elim!: chain_split)
  have xe: "x \<noteq> e" using x ne by auto
  have head: "bl_mpHead_O (st_lists s l) = opt_hd (xs @ e # ys)" "bl_mpQueue_O (st_lists s l) = opt_last (xs @ e # ys)"
    using list_atD(1,2) [OF at] by simp_all
  have dist: "distinct (xs @ e # ys)" by (rule list_atD(3) [OF at])
  show ?thesis
  proof (cases xs rule: rev_cases)
    case Nil
    then show ?thesis using ne x xe head unfolding list_link_before_def
      by (auto intro!: effect_eqI simp: ins_effect_def ins_nodes_def upd_apply)
  next
    case (snoc us u)
    obtain nu where nu: "st_nodes s u = Some nu" "bn_pParent_O nu = Some l" using list_atD(4) [OF at, of u] snoc by auto
    obtain h where h: "opt_hd xs = Some h" "h \<in> set xs" using snoc opt_ex(1) [of xs] by blast
    have par: "map_option bn_pParent_O (st_nodes s h) = Some (Some l)" using at h(2) by (simp add: list_at_def)
    have neq: "u \<noteq> x" "u \<noteq> e" "h \<noteq> x" "h \<noteq> e" "xs \<noteq> []" using x dist snoc nu par h(2) by auto
    have hd: "bl_mpHead_O (st_lists s l) = Some h" using head(1) neq(5) h(1) by simp
    have lu: "opt_last xs = Some u" using snoc by simp
    show ?thesis using ne x xe prev nu neq hd lu par head(2) unfolding list_link_before_def
      by (auto intro!: effect_eqI simp: Let_def ins_effect_def ins_nodes_def upd_apply h(1))
  qed
qed

lemma list_link_after_eq:
  assumes at: "list_at s l (xs @ e # ys)" and loose: "loose s x"
  shows "list_link_after dbg s l (Some e) (Some x) = Ret (ins_effect l x (xs @ [e]) ys s, True)"
proof -
  obtain ne where ne: "st_nodes s e = Some ne" "bn_pParent_O ne = Some l" using list_atD(4) [OF at, of e] by auto
  obtain n where x: "st_nodes s x = Some n" "bn_pParent_O n = None" using loose by (auto simp: loose_def)
  have succ: "bn_pNext_O ne = opt_hd ys" using at ne(1) by (auto simp: list_at_def elim!: chain_split)
  have xe: "x \<noteq> e" using x ne by auto
  have head: "bl_mpHead_O (st_lists s l) = opt_hd (xs @ [e])" "bl_mpQueue_O (st_lists s l) = opt_last (e # ys)"
    using list_atD(1,2) [OF at] by (cases xs; simp)+
  have dist: "distinct (xs @ e # ys)" by (rule list_atD(3) [OF at])
  show ?thesis
  proof (cases ys)
    case Nil
    then show ?thesis using ne x xe head unfolding list_link_after_def
      by (auto intro!: effect_eqI simp: ins_effect_def ins_nodes_def upd_apply)
  next
    case (Cons u us)
    obtain nu where nu: "st_nodes s u = Some nu" "bn_pParent_O nu = Some l" using list_atD(4) [OF at, of u] Cons by auto
    obtain q where q: "opt_last ys = Some q" "q \<in> set ys" using Cons opt_ex(2) [of ys] by blast
    have neq: "u \<noteq> x" "u \<noteq> e" "q \<noteq> e" "ys \<noteq> []" using x dist Cons nu q(2) by auto
    have qu: "bl_mpQueue_O (st_lists s l) = Some q" "opt_hd ys = Some u" using head(2) neq(4) q(1) Cons by simp_all
    show ?thesis using ne x xe succ nu neq qu head(1) unfolding list_link_after_def
      by (auto intro!: effect_eqI simp: Let_def ins_effect_def ins_nodes_def upd_apply q(1))
  qed
qed

lemma list_ready_set_mtx [simp]: "list_ready (set_mtx s l m) k \<longleftrightarrow> (if k = l then bl_mMultiThreadAware_B (st_lists s l) \<longrightarrow> recursive_mutex_ok m else list_ready s k)"
  by (simp add: list_ready_def)

lemma list_guard_ready:
  assumes "list_ready s l" "mtx_free f"
    "\<And>m. list_ready (set_mtx s l m) l \<Longrightarrow> body (set_mtx s l m) = Ret (f (set_mtx s l m), r)"
  shows "list_guard s l body = Ret (f s, r)"
  using assms by (intro list_guard_effect) (auto simp: list_ready_def)

lemma AddBefore_eq:
  assumes "list_at s l (xs @ e # ys)" "loose s x" "list_ready s l"
  shows "BofList_AddBefore dbg s l (Some e) (Some x) = Ret (ins_effect l x xs (e # ys) s, True)"
  using assms by (simp add: BofList_AddBefore_def list_link_before_eq list_guard_ready)

lemma AddAfter_eq:
  assumes "list_at s l (xs @ e # ys)" "loose s x" "list_ready s l"
  shows "BofList_AddAfter dbg s l (Some e) (Some x) = Ret (ins_effect l x (xs @ [e]) ys s, True)"
  using assms by (simp add: BofList_AddAfter_def list_link_after_eq list_guard_ready)

section \<open>The free list\<close>

definition free_at :: "'e list_store \<Rightarrow> nat \<Rightarrow> nat list \<Rightarrow> bool" where
  "free_at s r fs \<longleftrightarrow> chain (st_nodes s) (bl_mpFreeNodesHead_O (st_lists s r)) fs (bl_mpFreeNodesQueue_O (st_lists s r)) \<and>
     (\<forall>x \<in> set fs. loose s x)"

lemma free_at_set_mtx [simp]: "free_at (set_mtx s l m) k xs = free_at s k xs"
  by (simp add: free_at_def)

lemma free_atD:
  assumes "free_at s r fs"
  shows "bl_mpFreeNodesHead_O (st_lists s r) = opt_hd fs" "bl_mpFreeNodesQueue_O (st_lists s r) = opt_last fs" "distinct fs"
    "x \<in> set fs \<Longrightarrow> \<exists>n. st_nodes s x = Some n \<and> bn_pParent_O n = None"
  using assms chain_ends [of "st_nodes s" "bl_mpFreeNodesHead_O (st_lists s r)" fs "bl_mpFreeNodesQueue_O (st_lists s r)"]
  by (auto simp: free_at_def chain_def loose_def)

definition take_nodes :: "'e \<Rightarrow> nat \<Rightarrow> nat list \<Rightarrow> 'e node_heap \<Rightarrow> 'e node_heap" where
  "take_nodes v x ys h =
     upd (del_nodes [] ys h) (Some x) (\<lambda>n. n\<lparr>bn_pParent_O := None, bn_pNext_O := None, bn_pPrev_O := None, bn_Value := v\<rparr>)"

definition take_effect :: "'e \<Rightarrow> nat \<Rightarrow> nat \<Rightarrow> nat list \<Rightarrow> 'e list_store \<Rightarrow> 'e list_store" where
  "take_effect v r x ys = effect (take_nodes v x ys) r
     (\<lambda>this. this\<lparr>bl_mpFreeNodesHead_O := opt_hd ys, bl_mpFreeNodesQueue_O := opt_last ys\<rparr>)"

definition put_effect :: "nat \<Rightarrow> nat \<Rightarrow> nat list \<Rightarrow> 'e list_store \<Rightarrow> 'e list_store" where
  "put_effect r x fs = effect (ins_nodes None x fs []) r
     (\<lambda>this. this\<lparr>bl_mpFreeNodesHead_O := opt_hd (fs @ [x]), bl_mpFreeNodesQueue_O := Some x\<rparr>)"

lemma mtx_free_pool_effects [simp]: "mtx_free (take_effect v r x ys)" "mtx_free (put_effect r x fs)"
  unfolding take_effect_def put_effect_def by (rule mtx_free_effect; case_tac t; simp)+

lemma list_take_free_eq:
  assumes at: "free_at s r (x # ys)"
  shows "list_take_free zero s r e = Ret (take_effect (case e of Some v \<Rightarrow> v | None \<Rightarrow> zero) r x ys s, Some x)"
proof -
  obtain n where n: "st_nodes s x = Some n" "bn_pParent_O n = None" using free_atD(4) [OF at, of x] by auto
  have succ: "bn_pNext_O n = opt_hd ys" using at n(1) chain_split [of "st_nodes s" _ "[]" x ys] by (fastforce simp: free_at_def)
  have fh: "bl_mpFreeNodesHead_O (st_lists s r) = Some x" "bl_mpFreeNodesQueue_O (st_lists s r) = opt_last (x # ys)"
    using free_atD(1,2) [OF at] by simp_all
  show ?thesis
  proof (cases ys)
    case Nil
    then show ?thesis using n succ fh unfolding list_take_free_def
      by (auto intro!: effect_eqI simp: Let_def take_effect_def take_nodes_def del_nodes_def upd_apply)
  next
    case (Cons y zs)
    obtain ny where ny: "st_nodes s y = Some ny" using free_atD(4) [OF at, of y] Cons by auto
    have "x \<noteq> y" using free_atD(3) [OF at] Cons by auto
    then show ?thesis using n succ fh ny Cons unfolding list_take_free_def
      by (auto intro!: effect_eqI simp: Let_def take_effect_def take_nodes_def del_nodes_def upd_apply)
  qed
qed

lemma list_take_free_none: "free_at s r [] \<Longrightarrow> list_take_free zero s r e = Ret (s, None)"
  using free_atD(1) [of s r "[]"] by (simp add: list_take_free_def)

lemma list_put_free_eq:
  assumes at: "free_at s r fs" and x: "st_nodes s x = Some n" "x \<notin> set fs"
  shows "list_put_free s r (Some x) = Ret (put_effect r x fs s, True)"
proof (cases "fs = []")
  case True
  then show ?thesis using x free_atD(1,2) [OF at] unfolding list_put_free_def
    by (auto intro!: effect_eqI simp: Let_def put_effect_def ins_nodes_def upd_apply)
next
  case False
  obtain q where q: "opt_last fs = Some q" "q \<in> set fs" using opt_ex(2) [OF False] by blast
  obtain nq where "st_nodes s q = Some nq" using free_atD(4) [OF at q(2)] by blast
  moreover have "q \<noteq> x" using q(2) x(2) by auto
  ultimately show ?thesis using x free_atD(1,2) [OF at] q(1) False unfolding list_put_free_def
    by (auto intro!: effect_eqI simp: Let_def put_effect_def ins_nodes_def upd_apply)
qed

text \<open>A node that is linked to nothing.\<close>

definition detached :: "'e list_store \<Rightarrow> nat \<Rightarrow> bool" where
  "detached s x \<longleftrightarrow> (\<exists>v. st_nodes s x = Some (BofListNode_ctor v))"

lemma detached_set_mtx [simp]: "detached (set_mtx s l m) x = detached s x"
  by (simp add: detached_def)

lemma detached_loose: "detached s x \<Longrightarrow> loose s x"
  by (auto simp: detached_def loose_def BofListNode_ctor_def)

lemma list_detach_eq:
  assumes "free_at s r fs" "detached s x" "x \<notin> set fs"
  shows "list_detach dbg s r (Some x) = Ret (s, Some x)"
proof -
  obtain v where v: "st_nodes s x = Some (BofListNode_ctor v)" using assms(2) by (auto simp: detached_def)
  have "opt_hd fs \<noteq> Some x" "opt_last fs \<noteq> Some x" using assms(3) by (auto dest: opt_in)
  moreover have "s\<lparr>st_nodes := upd (st_nodes s) (Some x) (\<lambda>n. n\<lparr>bn_pParent_O := None, bn_pNext_O := None, bn_pPrev_O := None\<rparr>)\<rparr> = s"
    using v by (intro list_store.equality) (auto simp: fun_eq_iff upd_apply BofListNode_ctor_def)
  ultimately show ?thesis
    using v free_atD(1,2) [OF assms(1)] by (simp add: list_detach_def BofListNode_ctor_def)
qed

section \<open>Removal\<close>

lemma list_unlink_eq:
  assumes at: "list_at s l (xs @ x # ys)"
  shows "list_unlink dbg s l (Some x) = Ret (del_effect l xs ys s)"
proof -
  obtain n where n: "st_nodes s x = Some n" using list_atD(4) [OF at, of x] by auto
  have lk: "bn_pPrev_O n = opt_last xs" "bn_pNext_O n = opt_hd ys" using at n by (auto simp: list_at_def elim!: chain_split)
  have hd: "bl_mpHead_O (st_lists s l) = (if xs = [] then Some x else opt_hd xs)" "bl_mpQueue_O (st_lists s l) = (if ys = [] then Some x else opt_last ys)"
    using list_atD(1,2) [OF at] by (simp_all split: if_splits)
  have dist: "distinct (xs @ x # ys)" by (rule list_atD(3) [OF at])
  have ne: "xs \<noteq> [] \<Longrightarrow> opt_hd xs \<noteq> Some x" "ys \<noteq> [] \<Longrightarrow> opt_last ys \<noteq> Some x" using dist opt_in [of _ x] by auto
  have px: "\<exists>u nu. opt_last xs = Some u \<and> u \<in> set xs \<and> st_nodes s u = Some nu" if "xs \<noteq> []"
    using opt_ex(2) [OF that] list_atD(4) [OF at] by fastforce
  have py: "\<exists>u nu. opt_hd ys = Some u \<and> u \<in> set ys \<and> st_nodes s u = Some nu" if "ys \<noteq> []"
    using opt_ex(1) [OF that] list_atD(4) [OF at] by fastforce
  consider "xs = []" "ys = []" | "xs = []" "ys \<noteq> []" | "xs \<noteq> []" "ys = []" | "xs \<noteq> []" "ys \<noteq> []" by blast
  then show ?thesis
  proof cases
    case 1
    then show ?thesis using n lk hd unfolding list_unlink_def
      by (auto intro!: effect_eqI simp: Let_def del_effect_def del_nodes_def upd_apply)
  next
    case 2
    then show ?thesis using n lk hd ne py unfolding list_unlink_def
      by (auto intro!: effect_eqI simp: Let_def del_effect_def del_nodes_def upd_apply)
  next
    case 3
    then show ?thesis using n lk hd ne px unfolding list_unlink_def
      by (auto intro!: effect_eqI simp: Let_def del_effect_def del_nodes_def upd_apply)
  next
    case 4
    obtain u nu where u: "opt_last xs = Some u" "u \<in> set xs" "st_nodes s u = Some nu" using px 4 by blast
    obtain w nw where w: "opt_hd ys = Some w" "w \<in> set ys" "st_nodes s w = Some nw" using py 4 by blast
    have "u \<noteq> x" "w \<noteq> x" "u \<noteq> w" using u(2) w(2) dist by auto
    then show ?thesis using 4 n lk hd ne u(1,3) w(1,3) unfolding list_unlink_def
      by (auto intro!: effect_eqI simp: Let_def del_effect_def del_nodes_def upd_apply)
  qed
qed

end
