(* ===== verification/Bof_List_Inv.thy ===== *)
theory Bof_List_Inv
  imports Bof_List_Proofs
begin

text \<open>
  The invariant of a store of lists: every list is a chain of its own nodes, the nodes
  that are in no list are in the free chain of a pool, and none is lost. The methods
  that add and remove elements are proved to keep it.
\<close>

section \<open>Pools\<close>

text \<open>\<open>R l\<close> is the list whose array the nodes of \<open>l\<close> come from, at the end of the chain of pools.\<close>

definition pools_ok :: "(nat \<Rightarrow> nat) \<Rightarrow> nat \<Rightarrow> 'e list_store \<Rightarrow> bool" where
  "pools_ok R N s \<longleftrightarrow> (\<forall>l < N. list_ready s l \<and>
     (case bl_mpNodePoolMgr_O (st_lists s l) of None \<Rightarrow> R l = l | Some m \<Rightarrow> m < l \<and> R l = R m))"

text \<open>A change of a list object that the pools do not see.\<close>

definition pool_neutral :: "(BofList \<Rightarrow> BofList) \<Rightarrow> bool" where
  "pool_neutral f \<longleftrightarrow> (\<forall>t. bl_mMultiThreadAware_B (f t) = bl_mMultiThreadAware_B t \<and> bl_mListMtx_X (f t) = bl_mListMtx_X t \<and>
     bl_mpNodePoolMgr_O (f t) = bl_mpNodePoolMgr_O t)"

lemma pools_ok_effect [simp]: "pool_neutral f \<Longrightarrow> pools_ok R N (effect g l f s) = pools_ok R N s"
  by (auto simp: pools_ok_def pool_neutral_def list_ready_def)

lemma pools_ok_effects [simp]:
  "pools_ok R N (ins_effect l x xs ys s) = pools_ok R N s" "pools_ok R N (del_effect l xs ys s) = pools_ok R N s"
  "pools_ok R N (take_effect v r x fs s) = pools_ok R N s" "pools_ok R N (put_effect r x fs s) = pools_ok R N s"
  by (simp_all add: ins_effect_def del_effect_def take_effect_def put_effect_def pool_neutral_def)

lemma pools_ok_set_mtx: "pools_ok R N s \<Longrightarrow> list_ready (set_mtx s l m) l \<Longrightarrow> pools_ok R N (set_mtx s l m)"
  by (auto simp: pools_ok_def)

lemma pools_okD: "pools_ok R N s \<Longrightarrow> l < N \<Longrightarrow> list_ready s l"
  "pools_ok R N s \<Longrightarrow> l < N \<Longrightarrow> bl_mpNodePoolMgr_O (st_lists s l) = None \<Longrightarrow> R l = l"
  "pools_ok R N s \<Longrightarrow> l < N \<Longrightarrow> bl_mpNodePoolMgr_O (st_lists s l) = Some p \<Longrightarrow> p < l \<and> p < N \<and> R l = R p"
  by (auto simp: pools_ok_def split: option.splits)

lemma pools_root: "pools_ok R N s \<Longrightarrow> l < N \<Longrightarrow> R l \<le> l \<and> R (R l) = R l \<and> bl_mpNodePoolMgr_O (st_lists s (R l)) = None"
proof (induction l rule: less_induct)
  case (less l)
  show ?case
  proof (cases "bl_mpNodePoolMgr_O (st_lists s l)")
    case None
    then show ?thesis using pools_okD(2) [OF less.prems None] by simp
  next
    case (Some p)
    then show ?thesis using pools_okD(3) [OF less.prems Some] less.IH [of p] less.prems(1) by fastforce
  qed
qed

text \<open>A request climbs the chain of pools, locking each list on its way, and acts on the root only.\<close>

lemma pool_climb:
  fixes D :: "nat \<Rightarrow> 'e list_store \<Rightarrow> nat \<Rightarrow> ('e list_store \<times> 'r) outcome"
  assumes D: "\<And>n s l. D (Suc n) s l = list_guard s l (\<lambda>s. case bl_mpNodePoolMgr_O (st_lists s l) of Some p \<Rightarrow> D n s p | None \<Rightarrow> base s l)"
    and base: "\<And>s. Q s \<Longrightarrow> base s (R l) = Ret (f s, r)" and Q: "\<And>s l m. Q (set_mtx s l m) = Q s" and f: "mtx_free f"
  shows "pools_ok R N s \<Longrightarrow> l < N \<Longrightarrow> l < n \<Longrightarrow> Q s \<Longrightarrow> D n s l = Ret (f s, r)"
proof -
  have "pools_ok R N s \<Longrightarrow> k < N \<Longrightarrow> k < n \<Longrightarrow> R k = R l \<Longrightarrow> Q s \<Longrightarrow> D n s k = Ret (f s, r)" for k
  proof (induction n arbitrary: k s)
    case (Suc n)
    show ?case unfolding D
    proof (rule list_guard_ready [OF pools_okD(1) [OF Suc.prems(1,2)] f])
      fix m assume m: "list_ready (set_mtx s k m) k"
      show "(case bl_mpNodePoolMgr_O (st_lists (set_mtx s k m) k) of Some p \<Rightarrow> D n (set_mtx s k m) p | None \<Rightarrow> base (set_mtx s k m) k) =
        Ret (f (set_mtx s k m), r)"
      proof (cases "bl_mpNodePoolMgr_O (st_lists s k)")
        case None
        then have "k = R l" using pools_okD(2) [OF Suc.prems(1,2)] Suc.prems(4) by simp
        then show ?thesis using None base [of "set_mtx s k m"] Suc.prems(5) by (simp add: Q)
      next
        case (Some p)
        then have "p < n" "p < N" "R p = R l" using pools_okD(3) [OF Suc.prems(1,2) Some] Suc.prems(3,4) by auto
        then show ?thesis using Suc.IH [OF pools_ok_set_mtx [OF Suc.prems(1) m], of p] Suc.prems(5) Some by (simp add: Q)
      qed
    qed
  qed simp
  then show "pools_ok R N s \<Longrightarrow> l < N \<Longrightarrow> l < n \<Longrightarrow> Q s \<Longrightarrow> D n s l = Ret (f s, r)" by simp
qed

lemma mtx_free_id [simp]: "mtx_free (\<lambda>s. s)"
  by (simp add: mtx_free_def)

lemma GetFreeNode_eq:
  assumes "pools_ok R N s" "l < N" "free_at s (R l) (x # ys)"
  shows "BofList_GetFreeNode zero s l e = Ret (take_effect (case e of Some v \<Rightarrow> v | None \<Rightarrow> zero) (R l) x ys s, Some x)"
  unfolding BofList_GetFreeNode_def
  by (rule pool_climb [where Q = "\<lambda>s. free_at s (R l) (x # ys)" and D = "\<lambda>n s l. BofList_GetFreeNode_depth n zero s l e" and base = "\<lambda>s l. list_take_free zero s l e"])
    (use assms in \<open>auto simp: list_take_free_eq\<close>)

lemma GetFreeNode_none:
  assumes "pools_ok R N s" "l < N" "free_at s (R l) []"
  shows "BofList_GetFreeNode zero s l e = Ret (s, None)"
  unfolding BofList_GetFreeNode_def
  by (rule pool_climb [where f = "\<lambda>s. s" and Q = "\<lambda>s. free_at s (R l) []" and D = "\<lambda>n s l. BofList_GetFreeNode_depth n zero s l e" and base = "\<lambda>s l. list_take_free zero s l e"])
    (use assms in \<open>auto simp: list_take_free_none\<close>)

lemma GetFreeNode_node_eq:
  assumes "pools_ok R N s" "l < N" "free_at s (R l) fs" "detached s x" "x \<notin> set fs"
  shows "BofList_GetFreeNode_node dbg s l (Some x) = Ret (s, Some x)"
  unfolding BofList_GetFreeNode_node_def
  by (rule pool_climb [where f = "\<lambda>s. s" and Q = "\<lambda>s. free_at s (R l) fs \<and> detached s x" and
        D = "\<lambda>n s l. BofList_GetFreeNode_node_depth n dbg s l (Some x)" and base = "\<lambda>s l. list_detach dbg s l (Some x)"])
    (use assms in \<open>auto simp: list_detach_eq\<close>)

lemma SetFreeNode_eq:
  assumes "pools_ok R N s" "l < N" "free_at s (R l) fs" "st_nodes s x \<noteq> None" "x \<notin> set fs"
  shows "BofList_SetFreeNode dbg s l (Some x) = Ret (put_effect (R l) x fs s, True)"
  unfolding BofList_SetFreeNode_def
  by (rule pool_climb [where Q = "\<lambda>s. free_at s (R l) fs \<and> st_nodes s x \<noteq> None" and
        D = "\<lambda>n s l. BofList_SetFreeNode_depth n dbg s l (Some x)" and base = "\<lambda>s l. list_put_free s l (Some x)"])
    (use assms in \<open>auto simp: list_put_free_eq\<close>)

section \<open>Chains after an effect\<close>

lemma ins_nodes_other [simp]: "a \<noteq> x \<Longrightarrow> a \<notin> set xs \<Longrightarrow> a \<notin> set ys \<Longrightarrow> ins_nodes par x xs ys h a = h a"
  by (auto simp: ins_nodes_def upd_apply dest: opt_in)

lemma del_nodes_other [simp]: "a \<notin> set xs \<Longrightarrow> a \<notin> set ys \<Longrightarrow> del_nodes xs ys h a = h a"
  by (auto simp: del_nodes_def upd_apply dest: opt_in)

lemma take_nodes_other [simp]: "a \<noteq> x \<Longrightarrow> a \<notin> set ys \<Longrightarrow> take_nodes v x ys h a = h a"
  by (simp add: take_nodes_def upd_apply)

lemma parent_nodes:
  "x \<notin> set xs \<Longrightarrow> x \<notin> set ys \<Longrightarrow> map_option bn_pParent_O (ins_nodes par x xs ys h a) =
     (if a = x then map_option (\<lambda>_. par) (h x) else map_option bn_pParent_O (h a))"
  "map_option bn_pParent_O (del_nodes xs ys h a) = map_option bn_pParent_O (h a)"
  by (auto simp: ins_nodes_def del_nodes_def upd_apply option.map_comp o_def dest: opt_in)

lemma value_nodes:
  "map_option bn_Value (ins_nodes par x xs ys h a) = map_option bn_Value (h a)"
  "map_option bn_Value (del_nodes xs ys h a) = map_option bn_Value (h a)"
  "map_option bn_Value (take_nodes v x ys h a) = (if a = x then map_option (\<lambda>_. v) (h x) else map_option bn_Value (h a))"
  by (auto simp: ins_nodes_def del_nodes_def take_nodes_def upd_apply option.map_comp o_def)

lemma none_nodes [simp]:
  "(ins_nodes par x xs ys h a = None) = (h a = None)" "(del_nodes xs ys h a = None) = (h a = None)"
  "(take_nodes v x ys h a = None) = (h a = None)"
  by (simp_all add: ins_nodes_def del_nodes_def take_nodes_def)

lemma chain_ins_nodes:
  assumes "chain h a (xs @ ys) q" "x \<notin> set (xs @ ys)" "h x \<noteq> None"
  shows "chain (ins_nodes par x xs ys h) (opt_hd (xs @ x # ys)) (xs @ x # ys) (opt_last (xs @ x # ys))"
proof -
  let ?h = "upd h (Some x) (\<lambda>n. n\<lparr>bn_pPrev_O := opt_last xs, bn_pNext_O := opt_hd ys, bn_pParent_O := par\<rparr>)"
  have "chain ?h a (xs @ ys) q" using assms(1,2) by (subst chain_frame) (auto simp: upd_apply)
  moreover obtain n where "h x = Some n" using assms(3) by blast
  ultimately show ?thesis unfolding ins_nodes_def using assms(2)
    by (intro chain_insert [where n = "n\<lparr>bn_pPrev_O := opt_last xs, bn_pNext_O := opt_hd ys, bn_pParent_O := par\<rparr>"]) simp_all
qed

lemma list_at_ins:
  assumes "list_at s l (xs @ ys)" "x \<notin> set (xs @ ys)" "st_nodes s x \<noteq> None"
  shows "list_at (ins_effect l x xs ys s) l (xs @ x # ys)"
proof -
  have "chain (ins_nodes (Some l) x xs ys (st_nodes s)) (opt_hd (xs @ x # ys)) (xs @ x # ys) (opt_last (xs @ x # ys))"
    using assms by (intro chain_ins_nodes) (auto simp: list_at_def)
  moreover have "map_option bn_pParent_O (ins_nodes (Some l) x xs ys (st_nodes s) a) = Some (Some l)" if "a \<in> set (xs @ x # ys)" for a
    using that assms by (auto simp: parent_nodes list_at_def)
  ultimately show ?thesis by (simp add: list_at_def ins_effect_def)
qed

lemma list_at_del: "list_at s l (xs @ x # ys) \<Longrightarrow> list_at (del_effect l xs ys s) l (xs @ ys)"
  using chain_remove [of "st_nodes s" "bl_mpHead_O (st_lists s l)" xs x ys "bl_mpQueue_O (st_lists s l)"]
  by (auto simp: list_at_def del_effect_def parent_nodes) (simp_all add: del_nodes_def)

lemma free_at_put:
  assumes "free_at s r fs" "x \<notin> set fs" "st_nodes s x \<noteq> None"
  shows "free_at (put_effect r x fs s) r (fs @ [x])"
proof -
  have "chain (ins_nodes None x fs [] (st_nodes s)) (opt_hd (fs @ [x])) (fs @ [x]) (Some x)"
    using assms chain_ins_nodes [of "st_nodes s" _ fs "[]" _ x None] by (auto simp: free_at_def)
  moreover have "map_option bn_pParent_O (ins_nodes None x fs [] (st_nodes s) a) = Some None" if "a \<in> set (fs @ [x])" for a
    using that assms by (auto simp: parent_nodes free_at_def loose_def)
  ultimately show ?thesis by (simp add: free_at_def put_effect_def loose_def)
qed

lemma free_at_take:
  assumes "free_at s r (x # ys)"
  shows "free_at (take_effect v r x ys s) r ys" "detached (take_effect v r x ys s) x"
proof -
  have x: "x \<notin> set ys" "st_nodes s x \<noteq> None" using free_atD(3,4) [OF assms] by auto
  have "chain (del_nodes [] ys (st_nodes s)) (opt_hd ys) ys (opt_last ys)"
    using assms chain_remove [of "st_nodes s" _ "[]" x ys] by (fastforce simp: free_at_def del_nodes_def)
  then have "chain (take_nodes v x ys (st_nodes s)) (opt_hd ys) ys (opt_last ys)"
    using x(1) unfolding take_nodes_def by (subst chain_frame) (auto simp: upd_apply)
  moreover have "map_option bn_pParent_O (take_nodes v x ys (st_nodes s) a) = Some None" if "a \<in> set ys" for a
  proof -
    have "take_nodes v x ys (st_nodes s) a = del_nodes [] ys (st_nodes s) a" using that x(1) by (auto simp: take_nodes_def upd_apply)
    then show ?thesis using that assms parent_nodes(2) [of "[]" ys "st_nodes s" a] by (simp add: free_at_def loose_def del: map_option_eq_Some)
  qed
  ultimately show "free_at (take_effect v r x ys s) r ys" by (simp add: free_at_def take_effect_def loose_def)
  have "del_nodes [] ys (st_nodes s) x = st_nodes s x" using x(1) by simp
  then have "st_nodes (take_effect v r x ys s) x = Some (BofListNode_ctor v)" using x(2)
    by (auto simp: take_effect_def take_nodes_def BofListNode_ctor_def)
  then show "detached (take_effect v r x ys s) x" by (auto simp: detached_def)
qed

text \<open>A chain does not see a change of other nodes and of other fields.\<close>

lemma list_at_frame:
  assumes "\<And>x. x \<in> set xs \<Longrightarrow> st_nodes s' x = st_nodes s x" "bl_mpHead_O (st_lists s' l) = bl_mpHead_O (st_lists s l)"
    "bl_mpQueue_O (st_lists s' l) = bl_mpQueue_O (st_lists s l)"
  shows "list_at s' l xs = list_at s l xs"
  using assms chain_frame [of xs "st_nodes s'" "st_nodes s"] by (simp add: list_at_def)

lemma free_at_frame:
  assumes "\<And>x. x \<in> set xs \<Longrightarrow> st_nodes s' x = st_nodes s x" "bl_mpFreeNodesHead_O (st_lists s' l) = bl_mpFreeNodesHead_O (st_lists s l)"
    "bl_mpFreeNodesQueue_O (st_lists s' l) = bl_mpFreeNodesQueue_O (st_lists s l)"
  shows "free_at s' l xs = free_at s l xs"
  using assms chain_frame [of xs "st_nodes s'" "st_nodes s"] by (simp add: free_at_def loose_def)


section \<open>The methods as effects\<close>

text \<open>What the methods rely on for a list and the pool of its nodes.\<close>

definition list_in :: "(nat \<Rightarrow> nat) \<Rightarrow> nat \<Rightarrow> 'e list_store \<Rightarrow> nat \<Rightarrow> nat list \<Rightarrow> nat list \<Rightarrow> bool" where
  "list_in R N s l es fs \<longleftrightarrow> pools_ok R N s \<and> l < N \<and> list_at s l es \<and> unat (bl_mNbElements_U32 (st_lists s l)) = length es \<and> free_at s (R l) fs"

lemma list_in_set_mtx [simp]: "list_in R N s l es fs \<Longrightarrow> list_ready (set_mtx s k m) k \<Longrightarrow> list_in R N (set_mtx s k m) l es fs"
  by (simp add: list_in_def pools_ok_set_mtx del: list_ready_set_mtx)

lemma list_in_guard:
  assumes "list_in R N s l es fs" "mtx_free f"
    "\<And>t. list_in R N t l es fs \<Longrightarrow> st_nodes t = st_nodes s \<Longrightarrow> body t = Ret (f t, r)"
  shows "list_guard s l body = Ret (f s, r)"
  using assms by (intro list_guard_ready) (auto simp: list_in_def pools_okD(1) pools_ok_set_mtx simp del: list_ready_set_mtx)

lemma list_in_empty: "list_in R N s l [] fs \<Longrightarrow> bl_mNbElements_U32 (st_lists s l) = 0"
  by (simp add: list_in_def unat_eq_zero)

lemma list_inD:
  assumes "list_in R N s l es fs"
  shows "bl_mpHead_O (st_lists s l) = opt_hd es" "bl_mpQueue_O (st_lists s l) = opt_last es" "list_at s l es" "list_ready s l"
    "pools_ok R N s" "l < N" "free_at s (R l) fs"
  using assms list_atD(1,2) by (auto simp: list_in_def pools_okD(1))

lemma list_only_eq:
  assumes "list_in R N s l [] fs" "st_nodes s x \<noteq> None"
  shows "list_only s l (Some x) k = k (ins_effect l x [] [] s)"
proof -
  have c: "bl_mNbElements_U32 (st_lists s l) = 0" by (rule list_in_empty [OF assms(1)])
  have "set_list (s\<lparr>st_nodes := upd (st_nodes s) (Some x) (\<lambda>n. n\<lparr>bn_pParent_O := Some l, bn_pNext_O := None, bn_pPrev_O := None\<rparr>)\<rparr>) l
      (\<lambda>this. this\<lparr>bl_mpHead_O := Some x, bl_mpQueue_O := Some x, bl_mNbElements_U32 := 1\<rparr>) = ins_effect l x [] [] s"
    unfolding ins_effect_def using c assms(2) by (intro effect_eqI) (auto simp: ins_nodes_def upd_apply)
  then show ?thesis using assms(2) by (simp add: list_only_def)
qed

lemma AddFirst_eq:
  assumes "list_in R N s l es fs" "detached s x" "x \<notin> set fs"
  shows "BofList_AddFirst dbg s l (Some x) = Ret (ins_effect l x [] es s, True)"
proof (simp add: BofList_AddFirst_def, rule list_in_guard [OF assms(1)], goal_cases)
  case (2 t)
  have d: "detached t x" "loose t x" using assms(2) 2(2) detached_loose [of t x] by (simp_all add: detached_def)
  then obtain v where v: "st_nodes t x = Some (BofListNode_ctor v)" by (auto simp: detached_def)
  have g: "BofList_GetFreeNode_node dbg t l (Some x) = Ret (t, Some x)"
    using list_inD(5-7) [OF 2(1)] d(1) assms(3) by (rule GetFreeNode_node_eq)
  note e = list_inD(1-4) [OF 2(1)]
  show ?case
  proof (cases es)
    case Nil
    then show ?thesis using g v e 2(1) list_in_empty [of R N t l fs] by (simp add: list_only_eq BofListNode_ctor_def)
  next
    case (Cons a as)
    then show ?thesis using g v e d(2) AddBefore_eq [of t l "[]" a as x dbg] by (simp add: BofListNode_ctor_def)
  qed
qed simp

lemma AddLast_eq:
  assumes "list_in R N s l es fs" "detached s x" "x \<notin> set fs"
  shows "BofList_AddLast dbg s l (Some x) = Ret (ins_effect l x es [] s, True)"
proof (simp add: BofList_AddLast_def, rule list_in_guard [OF assms(1)], goal_cases)
  case (2 t)
  have d: "detached t x" "loose t x" using assms(2) 2(2) detached_loose [of t x] by (simp_all add: detached_def)
  then obtain v where v: "st_nodes t x = Some (BofListNode_ctor v)" by (auto simp: detached_def)
  have g: "BofList_GetFreeNode_node dbg t l (Some x) = Ret (t, Some x)"
    using list_inD(5-7) [OF 2(1)] d(1) assms(3) by (rule GetFreeNode_node_eq)
  note e = list_inD(1-4) [OF 2(1)]
  show ?case
  proof (cases es rule: rev_cases)
    case Nil
    have "list_at (ins_effect l x [] [] t) l ([] @ [x])" using e(3) Nil v by (intro list_at_ins) simp_all
    then have "map_option bn_pParent_O (st_nodes (ins_effect l x [] [] t) x) = Some (Some l)"
      "bl_mpHead_O (st_lists (ins_effect l x [] [] t) l) = Some x" by (simp_all add: list_at_def ins_effect_def)
    then show ?thesis using g v e 2(1) Nil list_in_empty [of R N t l fs] by (simp add: list_only_eq BofListNode_ctor_def)
  next
    case (snoc as a)
    then show ?thesis using g v e d(2) AddAfter_eq [of t l as a "[]" x dbg] by (simp add: BofListNode_ctor_def)
  qed
qed simp

lemma list_in_take:
  assumes "list_in R N s l es (x # fs)"
  shows "list_in R N (take_effect v (R l) x fs s) l es fs" "detached (take_effect v (R l) x fs s) x" "x \<notin> set fs" "x \<notin> set es"
proof -
  note f = list_inD(7) [OF assms] and e = list_inD(3) [OF assms]
  have fe: "set (x # fs) \<inter> set es = {}" using free_atD(4) [OF f] list_atD(4) [OF e] by fastforce
  have "list_at (take_effect v (R l) x fs s) l es" using fe e
    by (subst list_at_frame [of _ _ s]) (auto simp: take_effect_def disjoint_iff intro!: take_nodes_other)
  then show "list_in R N (take_effect v (R l) x fs s) l es fs" using assms free_at_take(1) [OF f, of v]
    by (simp add: list_in_def) (simp add: take_effect_def)
  show "detached (take_effect v (R l) x fs s) x" "x \<notin> set fs" "x \<notin> set es"
    using free_at_take(2) [OF f] free_atD(3) [OF f] fe by auto
qed

lemma AddFirst_elem_eq:
  assumes "list_in R N s l es (x # fs)"
  shows "BofList_AddFirst_elem dbg zero s l (Some v) = Ret (ins_effect l x [] es (take_effect v (R l) x fs s), True)"
  unfolding BofList_AddFirst_elem_def
proof (rule list_in_guard [OF assms], goal_cases)
  case (2 t)
  then show ?case using AddFirst_eq [OF list_in_take(1-3) [OF 2(1)]] list_inD(5-7) [OF 2(1)] by (simp add: GetFreeNode_eq)
qed (simp add: mtx_free_comp)

lemma AddLast_elem_eq:
  assumes "list_in R N s l es (x # fs)"
  shows "BofList_AddLast_elem dbg zero s l (Some v) = Ret (ins_effect l x es [] (take_effect v (R l) x fs s), True)"
  unfolding BofList_AddLast_elem_def
proof (rule list_in_guard [OF assms], goal_cases)
  case (2 t)
  then show ?case using AddLast_eq [OF list_in_take(1-3) [OF 2(1)]] list_inD(5-7) [OF 2(1)] by (simp add: GetFreeNode_eq)
qed (simp add: mtx_free_comp)

lemma Add_elem_none:
  assumes "list_in R N s l es []"
  shows "BofList_AddFirst_elem dbg zero s l (Some v) = Ret (s, False)" "BofList_AddLast_elem dbg zero s l (Some v) = Ret (s, False)"
proof -
  have g: "BofList_GetFreeNode zero t l (Some v) = Ret (t, None)" if "list_in R N t l es []" for t
    using list_inD(5-7) [OF that] by (rule GetFreeNode_none)
  show "BofList_AddFirst_elem dbg zero s l (Some v) = Ret (s, False)" "BofList_AddLast_elem dbg zero s l (Some v) = Ret (s, False)"
    unfolding BofList_AddFirst_elem_def BofList_AddLast_elem_def by (rule list_in_guard [OF assms, where f = "\<lambda>s. s"]; simp add: g)+
qed

text \<open>A removal: the node leaves the list, which counts one element less, and goes to the end of the free chain.\<close>

definition dec_effect :: "nat \<Rightarrow> 'e list_store \<Rightarrow> 'e list_store" where
  "dec_effect l = effect (\<lambda>h. h) l (\<lambda>this. this\<lparr>bl_mNbElements_U32 := bl_mNbElements_U32 this - 1\<rparr>)"

definition rem_effect :: "nat \<Rightarrow> nat \<Rightarrow> nat \<Rightarrow> nat list \<Rightarrow> nat list \<Rightarrow> nat list \<Rightarrow> 'e list_store \<Rightarrow> 'e list_store" where
  "rem_effect r l x xs ys fs s = put_effect r x fs (dec_effect l (del_effect l xs ys s))"

lemma mtx_free_rem [simp]: "mtx_free (rem_effect r l x xs ys fs)"
proof -
  have "mtx_free (dec_effect l)" unfolding dec_effect_def by (rule mtx_free_effect; case_tac t; simp)
  then have "mtx_free (\<lambda>s. dec_effect l (del_effect l xs ys s))" using mtx_free_comp mtx_free_effects(2) by blast
  then show ?thesis unfolding rem_effect_def [abs_def] using mtx_free_comp mtx_free_pool_effects(2) by blast
qed

lemma dec_effect_facts [simp]:
  "pools_ok R N (dec_effect l s) = pools_ok R N s" "free_at (dec_effect l s) r fs = free_at s r fs"
  "list_at (dec_effect l s) k es = list_at s k es" "st_nodes (dec_effect l s) = st_nodes s"
  by (simp_all add: dec_effect_def pool_neutral_def free_at_def list_at_def loose_def)

lemma list_in_del:
  assumes "list_in R N s l (xs @ x # ys) fs"
  shows "pools_ok R N (dec_effect l (del_effect l xs ys s))" "free_at (dec_effect l (del_effect l xs ys s)) (R l) fs"
    "list_at (dec_effect l (del_effect l xs ys s)) l (xs @ ys)" "x \<notin> set fs" "set (xs @ ys) \<inter> set fs = {}"
    "st_nodes (del_effect l xs ys s) x = st_nodes s x" "st_nodes s x \<noteq> None"
proof -
  note f = list_inD(7) [OF assms] and e = list_inD(3) [OF assms]
  have fe: "set fs \<inter> set (xs @ x # ys) = {}" using free_atD(4) [OF f] list_atD(4) [OF e] by fastforce
  then show "x \<notin> set fs" "set (xs @ ys) \<inter> set fs = {}" by auto
  show "st_nodes (del_effect l xs ys s) x = st_nodes s x" using list_atD(3) [OF e] by (simp add: del_effect_def)
  show "st_nodes s x \<noteq> None" using list_atD(4) [OF e, of x] by auto
  show "pools_ok R N (dec_effect l (del_effect l xs ys s))" using list_inD(5) [OF assms] by simp
  show "list_at (dec_effect l (del_effect l xs ys s)) l (xs @ ys)" using list_at_del [OF e] by simp
  show "free_at (dec_effect l (del_effect l xs ys s)) (R l) fs" using f fe
    by (simp, subst free_at_frame [of _ _ s]) (auto simp: del_effect_def disjoint_iff intro!: del_nodes_other)
qed

lemma Remove_eq:
  assumes "list_in R N s l (xs @ x # ys) fs"
  shows "BofList_Remove dbg s l (Some x) = Ret (rem_effect (R l) l x xs ys fs s, True)"
proof (simp add: BofList_Remove_def, rule list_in_guard [OF assms], goal_cases)
  case (2 t)
  note d = list_in_del [OF 2(1)] and e = list_inD(3) [OF 2(1)]
  obtain n where n: "st_nodes t x = Some n" "bn_pParent_O n = Some l" using list_atD(4) [OF e, of x] by auto
  have lk: "bn_pPrev_O n = opt_last xs" "bn_pNext_O n = opt_hd ys" using e n by (auto simp: list_at_def elim!: chain_split)
  have ns: "bn_pPrev_O n \<noteq> Some x" "bn_pNext_O n \<noteq> Some x" using lk list_atD(3) [OF e] by (auto dest: opt_in)
  have c: "0 < bl_mNbElements_U32 (st_lists t l)" using 2(1) by (auto simp: list_in_def word_gt_0 dest: unat_eq_zero [THEN iffD2])
  have s: "set_list (del_effect l xs ys t) l (\<lambda>this. this\<lparr>bl_mNbElements_U32 := bl_mNbElements_U32 this - 1\<rparr>) = dec_effect l (del_effect l xs ys t)"
    by (simp add: dec_effect_def effect_def)
  have p: "BofList_SetFreeNode dbg (dec_effect l (del_effect l xs ys t)) l (Some x) = Ret (rem_effect (R l) l x xs ys fs t, True)"
    using d(6,7) unfolding rem_effect_def by (intro SetFreeNode_eq [OF d(1) list_inD(6) [OF 2(1)] d(2)] d(4)) simp
  have "free_at (rem_effect (R l) l x xs ys fs t) (R l) (fs @ [x])"
    unfolding rem_effect_def using d by (intro free_at_put) simp_all
  then obtain n' where "st_nodes (rem_effect (R l) l x xs ys fs t) x = Some n'" "bn_pParent_O n' = None"
    using free_atD(4) [of _ _ "fs @ [x]" x] by auto
  then show ?case using n ns c list_unlink_eq [OF e, of dbg] by (simp add: s p)
qed simp

lemma RemoveFirst_eq:
  assumes "list_in R N s l (x # ys) fs" "st_nodes s x = Some n"
  shows "BofList_RemoveFirst dbg s l = Ret (rem_effect (R l) l x [] ys fs s, True, Some (bn_Value n))"
  unfolding BofList_RemoveFirst_def
proof (rule list_in_guard [OF assms(1)], goal_cases)
  case (2 t)
  then show ?case using list_inD(1) [OF 2(1)] Remove_eq [of R N t l "[]" x ys fs dbg] assms(2) by simp
qed simp

lemma RemoveLast_eq:
  assumes "list_in R N s l (xs @ [x]) fs" "st_nodes s x = Some n"
  shows "BofList_RemoveLast dbg s l = Ret (rem_effect (R l) l x xs [] fs s, True, Some (bn_Value n))"
  unfolding BofList_RemoveLast_def
proof (rule list_in_guard [OF assms(1)], goal_cases)
  case (2 t)
  then show ?case using list_inD(2) [OF 2(1)] Remove_eq [of R N t l xs x "[]" fs dbg] assms(2) by simp
qed simp

lemma Remove_none:
  assumes "list_in R N s l [] fs"
  shows "BofList_RemoveFirst dbg s l = Ret (s, False, None)" "BofList_RemoveLast dbg s l = Ret (s, False, None)"
  unfolding BofList_RemoveFirst_def BofList_RemoveLast_def
  by (rule list_in_guard [OF assms, where f = "\<lambda>s. s"]; simp add: list_inD)+

lemma list_in_rem:
  assumes "list_in R N s l (xs @ x # ys) fs"
  shows "list_in R N (rem_effect (R l) l x xs ys fs s) l (xs @ ys) (fs @ [x])"
proof -
  note d = list_in_del [OF assms]
  have x: "x \<notin> set (xs @ ys)" using list_atD(3) [OF list_inD(3) [OF assms]] by simp
  have at: "list_at (rem_effect (R l) l x xs ys fs s) l (xs @ ys)" using d(3,5) x unfolding rem_effect_def
    by (subst list_at_frame [of _ _ "dec_effect l (del_effect l xs ys s)"]) (auto simp: put_effect_def disjoint_iff intro!: ins_nodes_other)
  have "unat (bl_mNbElements_U32 (st_lists s l) - 1) = length (xs @ ys)" using assms by (subst unat_minus_one) (auto simp: list_in_def)
  then have "unat (bl_mNbElements_U32 (st_lists (rem_effect (R l) l x xs ys fs s) l)) = length (xs @ ys)"
    by (simp add: rem_effect_def put_effect_def dec_effect_def del_effect_def)
  moreover have "free_at (rem_effect (R l) l x xs ys fs s) (R l) (fs @ [x])" unfolding rem_effect_def using d by (intro free_at_put) simp_all
  ultimately show ?thesis using at d(1) list_inD(6) [OF assms] by (simp add: list_in_def rem_effect_def)
qed

section \<open>The invariant\<close>

text \<open>
  \<open>E l\<close> are the nodes of the list \<open>l\<close>, \<open>F r\<close> the free nodes of the pool \<open>r\<close>. The number of nodes of
  a pool and of all lists that take from it stays the size of the array.
\<close>

definition lists_ok :: "(nat \<Rightarrow> nat list) \<Rightarrow> (nat \<Rightarrow> nat list) \<Rightarrow> (nat \<Rightarrow> nat) \<Rightarrow> 'e list_store \<Rightarrow> bool" where
  "lists_ok E F R s \<longleftrightarrow> pools_ok R (st_nbLists s) s \<and>
     (\<forall>l < st_nbLists s. list_at s l (E l) \<and> unat (bl_mNbElements_U32 (st_lists s l)) = length (E l)) \<and>
     (\<forall>r < st_nbLists s. R r = r \<longrightarrow> free_at s r (F r) \<and>
        length (F r) + (\<Sum>l | l < st_nbLists s \<and> R l = r. length (E l)) = unat (bl_mNbMaxElements_U32 (st_lists s r))) \<and>
     (\<forall>r < st_nbLists s. \<forall>q < st_nbLists s. R r = r \<longrightarrow> R q = q \<longrightarrow> r \<noteq> q \<longrightarrow> set (F r) \<inter> set (F q) = {}) \<and>
     (\<forall>a \<ge> st_nbNodes s. st_nodes s a = None)"

lemma lists_okD:
  assumes "lists_ok E F R s" "l < st_nbLists s"
  shows "list_at s l (E l)" "unat (bl_mNbElements_U32 (st_lists s l)) = length (E l)" "pools_ok R (st_nbLists s) s"
    "R l < st_nbLists s" "R (R l) = R l" "free_at s (R l) (F (R l))"
    "length (F (R l)) + (\<Sum>k | k < st_nbLists s \<and> R k = R l. length (E k)) = unat (bl_mNbMaxElements_U32 (st_lists s (R l)))"
proof -
  show p: "pools_ok R (st_nbLists s) s" using assms(1) by (simp add: lists_ok_def)
  show "list_at s l (E l)" "unat (bl_mNbElements_U32 (st_lists s l)) = length (E l)" using assms by (simp_all add: lists_ok_def)
  have r: "R l < st_nbLists s" "R (R l) = R l" using pools_root [OF p assms(2)] assms(2) by auto
  then show "R l < st_nbLists s" "R (R l) = R l" "free_at s (R l) (F (R l))"
    "length (F (R l)) + (\<Sum>k | k < st_nbLists s \<and> R k = R l. length (E k)) = unat (bl_mNbMaxElements_U32 (st_lists s (R l)))"
    using assms(1) by (simp_all add: lists_ok_def)
qed

lemma lists_ok_list_in: "lists_ok E F R s \<Longrightarrow> l < st_nbLists s \<Longrightarrow> list_in R (st_nbLists s) s l (E l) (F (R l))"
  using lists_okD [of E F R s l] by (simp add: list_in_def)

lemma lists_ok_disjoint:
  assumes "lists_ok E F R s"
  shows "k < st_nbLists s \<Longrightarrow> l < st_nbLists s \<Longrightarrow> k \<noteq> l \<Longrightarrow> set (E k) \<inter> set (E l) = {}"
    and "k < st_nbLists s \<Longrightarrow> r < st_nbLists s \<Longrightarrow> R r = r \<Longrightarrow> set (E k) \<inter> set (F r) = {}"
proof -
  show "set (E k) \<inter> set (E l) = {}" if "k < st_nbLists s" "l < st_nbLists s" "k \<noteq> l"
    using list_atD(4) [OF lists_okD(1) [OF assms that(1)]] list_atD(4) [OF lists_okD(1) [OF assms that(2)]] that(3) by fastforce
  show "set (E k) \<inter> set (F r) = {}" if "k < st_nbLists s" "r < st_nbLists s" "R r = r"
    using list_atD(4) [OF lists_okD(1) [OF assms that(1)]] free_atD(4) [OF lists_okD(6) [OF assms that(2)]] that(3) by fastforce
qed

text \<open>A change of one list and one pool that touches only the nodes of \<open>A\<close>.\<close>

definition local_change :: "nat \<Rightarrow> nat \<Rightarrow> nat set \<Rightarrow> 'e list_store \<Rightarrow> 'e list_store \<Rightarrow> bool" where
  "local_change l r A s t \<longleftrightarrow>
     (\<forall>a. a \<notin> A \<longrightarrow> st_nodes t a = st_nodes s a) \<and> (\<forall>a. st_nodes t a = None \<longleftrightarrow> st_nodes s a = None) \<and>
     st_nbNodes t = st_nbNodes s \<and> st_nbLists t = st_nbLists s \<and>
     (\<forall>k. k \<noteq> l \<longrightarrow> bl_mpHead_O (st_lists t k) = bl_mpHead_O (st_lists s k) \<and> bl_mpQueue_O (st_lists t k) = bl_mpQueue_O (st_lists s k) \<and>
        bl_mNbElements_U32 (st_lists t k) = bl_mNbElements_U32 (st_lists s k)) \<and>
     (\<forall>k. k \<noteq> r \<longrightarrow> bl_mpFreeNodesHead_O (st_lists t k) = bl_mpFreeNodesHead_O (st_lists s k) \<and>
        bl_mpFreeNodesQueue_O (st_lists t k) = bl_mpFreeNodesQueue_O (st_lists s k)) \<and>
     (\<forall>k. bl_mNbMaxElements_U32 (st_lists t k) = bl_mNbMaxElements_U32 (st_lists s k) \<and>
        bl_mpNodePoolMgr_O (st_lists t k) = bl_mpNodePoolMgr_O (st_lists s k))"

lemma local_change_trans: "local_change l r A s t \<Longrightarrow> local_change l r A t u \<Longrightarrow> local_change l r A s u"
  by (auto simp: local_change_def)

lemma local_change_list:
  assumes "\<And>a. a \<notin> A \<Longrightarrow> g (st_nodes s) a = st_nodes s a" "\<And>a. (g (st_nodes s) a = None) = (st_nodes s a = None)"
    "\<And>t. bl_mpFreeNodesHead_O (f t) = bl_mpFreeNodesHead_O t \<and> bl_mpFreeNodesQueue_O (f t) = bl_mpFreeNodesQueue_O t \<and>
       bl_mNbMaxElements_U32 (f t) = bl_mNbMaxElements_U32 t \<and> bl_mpNodePoolMgr_O (f t) = bl_mpNodePoolMgr_O t"
  shows "local_change l r A s (effect g l f s)"
  using assms by (simp add: local_change_def)

lemma local_change_pool:
  assumes "\<And>a. a \<notin> A \<Longrightarrow> g (st_nodes s) a = st_nodes s a" "\<And>a. (g (st_nodes s) a = None) = (st_nodes s a = None)"
    "\<And>t. bl_mpHead_O (f t) = bl_mpHead_O t \<and> bl_mpQueue_O (f t) = bl_mpQueue_O t \<and> bl_mNbElements_U32 (f t) = bl_mNbElements_U32 t \<and>
       bl_mNbMaxElements_U32 (f t) = bl_mNbMaxElements_U32 t \<and> bl_mpNodePoolMgr_O (f t) = bl_mpNodePoolMgr_O t"
  shows "local_change l r A s (effect g r f s)"
  using assms by (simp add: local_change_def)

lemma local_change_effects:
  "x \<in> A \<Longrightarrow> set xs \<subseteq> A \<Longrightarrow> set ys \<subseteq> A \<Longrightarrow> local_change l r A s (ins_effect l x xs ys s)"
  "set xs \<subseteq> A \<Longrightarrow> set ys \<subseteq> A \<Longrightarrow> local_change l r A s (del_effect l xs ys s)"
  "x \<in> A \<Longrightarrow> set ys \<subseteq> A \<Longrightarrow> local_change l r A s (take_effect v r x ys s)"
  "x \<in> A \<Longrightarrow> set fs \<subseteq> A \<Longrightarrow> local_change l r A s (put_effect r x fs s)"
  "local_change l r A s (dec_effect l s)"
  unfolding ins_effect_def del_effect_def take_effect_def put_effect_def dec_effect_def
  by (rule local_change_list local_change_pool;
      auto intro!: ins_nodes_other del_nodes_other take_nodes_other)+

text \<open>The count of a pool after a change of one of its lists.\<close>

lemma sum_upd:
  assumes "l < (N :: nat)" "R l = r" "length fs + length es = length (F r) + length (E l)"
    "length (F r) + (\<Sum>k | k < N \<and> R k = r. length (E k)) = c"
  shows "length fs + (\<Sum>k | k < N \<and> R k = r. length ((E(l := es)) k)) = c"
proof -
  let ?S = "{k. k < N \<and> R k = r}"
  have "finite ?S" by (rule finite_subset [of _ "{..<N}"]) auto
  moreover have "l \<in> ?S" using assms(1,2) by simp
  ultimately have S: "finite ?S" "l \<in> ?S" by blast+
  have "(\<Sum>k \<in> ?S - {l}. length ((E(l := es)) k)) = (\<Sum>k \<in> ?S - {l}. length (E k))" by (intro sum.cong) auto
  then have "(\<Sum>k \<in> ?S. length ((E(l := es)) k)) = length es + (\<Sum>k \<in> ?S - {l}. length (E k))"
    using sum.remove [OF S, of "\<lambda>k. length ((E(l := es)) k)"] by simp
  moreover have "(\<Sum>k \<in> ?S. length (E k)) = length (E l) + (\<Sum>k \<in> ?S - {l}. length (E k))" by (rule sum.remove [OF S])
  ultimately show ?thesis using assms(3,4) by linarith
qed

lemma lists_ok_step:
  assumes ok: "lists_ok E F R s" and l: "l < st_nbLists s"
    and ch: "local_change l (R l) (set (E l) \<union> set (F (R l))) s t" and pools: "pools_ok R (st_nbLists s) t"
    and es: "list_at t l es" "unat (bl_mNbElements_U32 (st_lists t l)) = length es"
    and fs: "free_at t (R l) fs" "set fs \<subseteq> set (E l) \<union> set (F (R l))" "length fs + length es = length (F (R l)) + length (E l)"
  shows "lists_ok (E(l := es)) (F(R l := fs)) R t"
proof -
  note r = lists_okD(4,5) [OF ok l]
  have N: "st_nbLists t = st_nbLists s" using ch by (simp add: local_change_def)
  have e: "list_at t k (E k)" "unat (bl_mNbElements_U32 (st_lists t k)) = length (E k)" if k: "k < st_nbLists s" "k \<noteq> l" for k
  proof -
    have "set (E k) \<inter> (set (E l) \<union> set (F (R l))) = {}"
      using lists_ok_disjoint(1) [OF ok k(1) l k(2)] lists_ok_disjoint(2) [OF ok k(1) r] by blast
    then show "list_at t k (E k)" using lists_okD(1) [OF ok k(1)] ch k(2)
      by (subst list_at_frame [of _ _ s]) (auto simp: local_change_def)
    show "unat (bl_mNbElements_U32 (st_lists t k)) = length (E k)" using lists_okD(2) [OF ok k(1)] ch k(2) by (simp add: local_change_def)
  qed
  have dj: "set (F q) \<inter> (set (E l) \<union> set (F (R l))) = {}" if q: "q < st_nbLists s" "R q = q" "q \<noteq> R l" for q
    using lists_ok_disjoint(2) [OF ok l q(1,2)] ok q r unfolding lists_ok_def by blast
  have f: "free_at t q (F q)" if q: "q < st_nbLists s" "R q = q" "q \<noteq> R l" for q
    using lists_okD(6) [OF ok q(1)] q(2,3) ch dj [OF q] by (subst free_at_frame [of _ _ s]) (auto simp: local_change_def)
  have cnt: "length ((F(R l := fs)) q) + (\<Sum>k | k < st_nbLists s \<and> R k = q. length ((E(l := es)) k)) = unat (bl_mNbMaxElements_U32 (st_lists t q))"
    if q: "q < st_nbLists s" "R q = q" for q
  proof (cases "q = R l")
    case True
    then show ?thesis using sum_upd [of l "st_nbLists s" R "R l" fs es F E "unat (bl_mNbMaxElements_U32 (st_lists t q))", OF l refl fs(3)] lists_okD(7) [OF ok l] ch
      by (simp add: local_change_def)
  next
    case False
    then have "(\<Sum>k | k < st_nbLists s \<and> R k = q. length ((E(l := es)) k)) = (\<Sum>k | k < st_nbLists s \<and> R k = q. length (E k))"
      by (intro sum.cong) auto
    then show ?thesis using False lists_okD(7) [OF ok q(1)] q(2) ch by (simp add: local_change_def)
  qed
  have "set ((F(R l := fs)) p) \<inter> set ((F(R l := fs)) q) = {}"
    if "p < st_nbLists s" "q < st_nbLists s" "R p = p" "R q = q" "p \<noteq> q" for p q
  proof -
    have "p \<noteq> R l \<Longrightarrow> q \<noteq> R l \<Longrightarrow> set (F p) \<inter> set (F q) = {}" using ok that unfolding lists_ok_def by blast
    then show ?thesis using dj [OF that(1,3)] dj [OF that(2,4)] that(5) fs(2) by (cases "p = R l"; cases "q = R l") auto
  qed
  moreover have "\<forall>a \<ge> st_nbNodes t. st_nodes t a = None" using ok ch by (simp add: lists_ok_def local_change_def)
  ultimately show ?thesis unfolding lists_ok_def N using pools e es f fs(1) cnt by auto
qed


section \<open>The methods keep the invariant\<close>

text \<open>The value of a node, and the values of a list.\<close>

definition val :: "'e list_store \<Rightarrow> nat \<Rightarrow> 'e option" where
  "val s a = map_option bn_Value (st_nodes s a)"

lemma val_effects [simp]:
  "val (ins_effect l x xs ys s) a = val s a" "val (del_effect l xs ys s) a = val s a" "val (put_effect r x fs s) a = val s a"
  "val (dec_effect l s) a = val s a" "val (rem_effect r l x xs ys fs s) a = val s a"
  "val (take_effect v r x ys s) a = (if a = x then map_option (\<lambda>_. v) (st_nodes s x) else val s a)"
  by (simp_all add: val_def ins_effect_def del_effect_def put_effect_def take_effect_def rem_effect_def value_nodes del: map_option_eq_Some)

lemma local_change_val: "local_change l r A s t \<Longrightarrow> a \<notin> A \<Longrightarrow> val t a = val s a"
  by (simp add: local_change_def val_def)

lemma add_keeps:
  fixes s :: "'e list_store" and v :: 'e
  assumes ok: "lists_ok E F R s" and l: "l < st_nbLists s" and F: "F (R l) = x # fs" and E: "E l = xs @ ys"
  defines "t \<equiv> ins_effect l x xs ys (take_effect v (R l) x fs s)"
  shows "lists_ok (E(l := xs @ x # ys)) (F(R l := fs)) R t" "local_change l (R l) (set (E l) \<union> set (F (R l))) s t"
    "val t x = Some v" "a \<noteq> x \<Longrightarrow> val t a = val s a"
proof -
  note li = lists_ok_list_in [OF ok l, unfolded F] and r = lists_okD(4,5,7) [OF ok l]
  note tk = list_in_take(1,2) [OF li, where v = v] list_in_take(3,4) [OF li]
  let ?s = "take_effect v (R l) x fs s"
  have xn: "st_nodes s x \<noteq> None" using free_atD(4) [OF list_inD(7) [OF li], of x] by auto
  then have xt: "st_nodes ?s x \<noteq> None" by (simp add: take_effect_def)
  have at: "list_at ?s l (xs @ ys)" "x \<notin> set (xs @ ys)" using tk(1,4) E list_inD(3) by auto
  show ch: "local_change l (R l) (set (E l) \<union> set (F (R l))) s t" unfolding t_def
    by (rule local_change_trans; rule local_change_effects) (auto simp: F E)
  have fs: "free_at t (R l) fs" using list_inD(7) [OF tk(1)] tk(3,4) lists_ok_disjoint(2) [OF ok l r(1,2)] E F unfolding t_def
    by (subst free_at_frame [of _ _ ?s]) (auto simp: ins_effect_def intro!: ins_nodes_other)
  have "length (E l) < unat (bl_mNbMaxElements_U32 (st_lists s (R l)))"
    using r(3) F member_le_sum [of l "{k. k < st_nbLists s \<and> R k = R l}" "\<lambda>k. length (E k)"] l by (simp add: finite_subset [of _ "{..<st_nbLists s}"])
  then have "length (E l) + 1 < 2 ^ 32" using unsigned_less [of "bl_mNbMaxElements_U32 (st_lists s (R l))", where ?'a = nat] by simp
  then have "unat (bl_mNbElements_U32 (st_lists s l) + 1) = length (E l) + 1"
    using lists_okD(2) [OF ok l] by (simp add: unat_word_ariths)
  then have nb: "unat (bl_mNbElements_U32 (st_lists t l)) = length (xs @ x # ys)" using E
    by (simp add: t_def ins_effect_def take_effect_def)
  show "lists_ok (E(l := xs @ x # ys)) (F(R l := fs)) R t"
    using lists_ok_step [OF ok l ch _ _ nb fs] list_at_ins [OF at(1,2) xt] list_inD(5) [OF tk(1)] E F by (simp add: t_def subset_insertI2)
  show "val t x = Some v" "a \<noteq> x \<Longrightarrow> val t a = val s a" using xn by (auto simp: t_def)
qed

lemma rem_keeps:
  assumes ok: "lists_ok E F R s" and l: "l < st_nbLists s" and E: "E l = xs @ x # ys"
  defines "t \<equiv> rem_effect (R l) l x xs ys (F (R l)) s"
  shows "lists_ok (E(l := xs @ ys)) (F(R l := F (R l) @ [x])) R t" "local_change l (R l) (set (E l) \<union> set (F (R l))) s t"
proof -
  note li = lists_ok_list_in [OF ok l, unfolded E]
  show ch: "local_change l (R l) (set (E l) \<union> set (F (R l))) s t" unfolding t_def rem_effect_def
    by (rule local_change_trans, rule local_change_trans; rule local_change_effects) (auto simp: E)
  have ri: "list_in R (st_nbLists s) t l (xs @ ys) (F (R l) @ [x])" unfolding t_def by (rule list_in_rem [OF li])
  then show "lists_ok (E(l := xs @ ys)) (F(R l := F (R l) @ [x])) R t"
    using lists_ok_step [OF ok l ch list_inD(5,3) [OF ri] _ list_inD(7) [OF ri]] E by (simp add: list_in_def subset_insertI2)
qed


section \<open>Construction\<close>

lemma sum_Suc_filter:
  "(\<Sum>k | k < Suc N \<and> P k. f k) = (\<Sum>k | k < N \<and> P k. f k) + (if P N then f N else (0 :: nat))"
proof -
  have "{k. k < Suc N \<and> P k} = (if P N then insert N {k. k < N \<and> P k} else {k. k < N \<and> P k})" by (auto simp: less_Suc_eq)
  moreover have "finite {k. k < N \<and> P k}" by (rule finite_subset [of _ "{..<N}"]) auto
  ultimately show ?thesis by simp
qed

lemma count_new:
  "(\<Sum>k | k < Suc N \<and> (R(N := r)) k = q. length ((E(N := [])) k)) = (\<Sum>k | k < N \<and> R k = q. length (E k))"
proof -
  have "(\<Sum>k | k < N \<and> (R(N := r)) k = q. length ((E(N := [])) k)) = (\<Sum>k | k < N \<and> R k = q. length (E k))"
    by (intro sum.cong) auto
  then show ?thesis unfolding sum_Suc_filter by simp
qed

lemma pools_ok_new:
  assumes "pools_ok R N s" "\<And>k. k < N \<Longrightarrow> st_lists t k = st_lists s k" "list_ready t N"
    "bl_mpNodePoolMgr_O (st_lists t N) = None \<and> r = N \<or> (\<exists>p. bl_mpNodePoolMgr_O (st_lists t N) = Some p \<and> p < N \<and> r = R p)"
  shows "pools_ok (R(N := r)) (Suc N) t"
  unfolding pools_ok_def
proof (intro allI impI)
  fix k assume "k < Suc N"
  then consider "k < N" | "k = N" by linarith
  then show "list_ready t k \<and> (case bl_mpNodePoolMgr_O (st_lists t k) of None \<Rightarrow> (R(N := r)) k = k | Some m \<Rightarrow> m < k \<and> (R(N := r)) k = (R(N := r)) m)"
  proof cases
    case 1
    then show ?thesis using assms(1,2) pools_okD(3) [OF assms(1) 1] by (auto simp: pools_ok_def list_ready_def split: option.split)
  next
    case 2
    then show ?thesis using assms(3,4) by auto
  qed
qed

text \<open>A list object without elements is added; its pool is new, or the one of a list that was there.\<close>

lemma lists_ok_new:
  assumes ok: "lists_ok E F R s" and N: "N = st_nbLists s" "st_nbLists t = Suc N"
    and lists: "\<And>k. k < N \<Longrightarrow> st_lists t k = st_lists s k" and nodes: "\<And>a. a < st_nbNodes s \<Longrightarrow> st_nodes t a = st_nodes s a"
    and top: "\<And>a. st_nbNodes t \<le> a \<Longrightarrow> st_nodes t a = None"
    and void: "bl_mpHead_O (st_lists t N) = None" "bl_mpQueue_O (st_lists t N) = None" "bl_mNbElements_U32 (st_lists t N) = 0" "list_ready t N"
    and pool: "bl_mpNodePoolMgr_O (st_lists t N) = None \<and> r = N \<and> free_at t N fs \<and>
         length fs = unat (bl_mNbMaxElements_U32 (st_lists t N)) \<and> set fs \<subseteq> {st_nbNodes s..} \<or>
       (\<exists>p. bl_mpNodePoolMgr_O (st_lists t N) = Some p \<and> p < N \<and> r = R p)"
  shows "lists_ok (E(N := [])) (F(N := fs)) (R(N := r)) t"
proof -
  have pk: "pools_ok R N s" using ok N by (simp add: lists_ok_def)
  have low: "a < st_nbNodes s" if "st_nodes s a \<noteq> None" for a using ok that unfolding lists_ok_def by (meson not_le)
  have R: "R k < N" if "k < N" for k using pools_root [OF pk that] that by auto
  have e: "list_at t k (E k)" "unat (bl_mNbElements_U32 (st_lists t k)) = length (E k)" if k: "k < N" for k
  proof -
    have at: "list_at s k (E k)" using lists_okD(1) [OF ok] k N(1) by simp
    have "st_nodes t a = st_nodes s a" if "a \<in> set (E k)" for a using nodes [OF low] list_atD(4) [OF at that] by auto
    then show "list_at t k (E k)" using at lists [OF k] by (subst list_at_frame [of _ _ s]) auto
    show "unat (bl_mNbElements_U32 (st_lists t k)) = length (E k)" using lists_okD(2) [OF ok] k N(1) lists [OF k] by simp
  qed
  have f: "free_at t q (F q)" "set (F q) \<subseteq> {..<st_nbNodes s}"
    "length (F q) + (\<Sum>k | k < N \<and> R k = q. length (E k)) = unat (bl_mNbMaxElements_U32 (st_lists t q))" if q: "q < N" "R q = q" for q
  proof -
    have at: "free_at s q (F q)" using lists_okD(6) [OF ok, of q] q N(1) by simp
    then show "set (F q) \<subseteq> {..<st_nbNodes s}" using low free_atD(4) [OF at] by fastforce
    then show "free_at t q (F q)" using at lists [OF q(1)] nodes by (subst free_at_frame [of _ _ s]) auto
    show "length (F q) + (\<Sum>k | k < N \<and> R k = q. length (E k)) = unat (bl_mNbMaxElements_U32 (st_lists t q))"
      using lists_okD(7) [OF ok, of q] q N(1) lists [OF q(1)] by simp
  qed
  have "{k. k < N \<and> R k = N} = {}" using R by force
  then have fN: "free_at t N fs" "set fs \<subseteq> {st_nbNodes s..}"
    "length fs + (\<Sum>k | k < N \<and> R k = N. length (E k)) = unat (bl_mNbMaxElements_U32 (st_lists t N))" if "r = N"
    using pool R that by auto
  have dj: "set (F q) \<inter> set (F q') = {}" if "q < N" "q' < N" "R q = q" "R q' = q'" "q \<noteq> q'" for q q'
    using ok that N(1) unfolding lists_ok_def by blast
  show ?thesis unfolding lists_ok_def N(2) count_new
  proof (intro conjI)
    show "pools_ok (R(N := r)) (Suc N) t" using pool by (intro pools_ok_new [OF pk lists void(4)]) auto
    show "\<forall>q < Suc N. \<forall>q' < Suc N. (R(N := r)) q = q \<longrightarrow> (R(N := r)) q' = q' \<longrightarrow> q \<noteq> q' \<longrightarrow> set ((F(N := fs)) q) \<inter> set ((F(N := fs)) q') = {}"
      using dj f(2) fN(2) by (fastforce simp: less_Suc_eq)
  qed (use e void top f fN in \<open>auto simp: less_Suc_eq list_at_def chain_def\<close>)
qed

lemma list_new_nodes_chain:
  assumes "0 < n" "\<And>a. base \<le> a \<Longrightarrow> a < base + n \<Longrightarrow> h a = list_new_nodes zero base n a"
  shows "chain h (Some base) [base..<base + n] (Some (base + n - 1))"
proof -
  have "base \<le> a \<Longrightarrow> a < base + n \<Longrightarrow> dlseg h (Some a) (if a = base then None else Some (a - 1)) [a..<base + n] (Some (base + n - 1)) None" for a
  proof (induction "base + n - a" arbitrary: a)
    case (Suc d)
    have up: "[a..<base + n] = a # [Suc a..<base + n]" using Suc.prems by (simp add: upt_conv_Cons)
    have h: "h a = list_new_nodes zero base n a" using assms(2) Suc.prems by blast
    show ?case
    proof (cases "Suc a < base + n")
      case True
      then show ?thesis using Suc.hyps(1) [of "Suc a"] Suc.hyps(2) Suc.prems up h by (auto simp: list_new_nodes_def)
    next
      case False
      then show ?thesis using Suc.prems up h by (auto simp: list_new_nodes_def)
    qed
  qed simp
  from this [of base] assms(1) show ?thesis by (simp add: chain_def)
qed

lemma list_mutex_new:
  obtains m Sts_E where "(if mt then Bof_CreateMutex ''BofList'' True pi BOF_MUTEX_ctor else Ret (BOF_MUTEX_ctor, BOF_ERR_NO_ERROR)) = Ret (m, Sts_E)"
    "mt \<longrightarrow> recursive_mutex_ok m"
  by (cases mt; cases pi) (auto simp: Bof_CreateMutex_def BOF_MUTEX_ctor_def BOF_MUTEX_Reset_def recursive_mutex_ok_def Let_def BOF_MUTEX_MAGIC_def)

lemma ctor_keeps:
  assumes ok: "lists_ok E F R s" and cap: "NbMax \<noteq> 0" and pool: "\<And>p. pool = Some p \<Longrightarrow> p < st_nbLists s"
  obtains t F' where "BofList_ctor dbg zero s NbMax mt pi pool = Ret (t, st_nbLists s)"
    "lists_ok (E(st_nbLists s := [])) F' (R(st_nbLists s := case pool of None \<Rightarrow> st_nbLists s | Some p \<Rightarrow> R p)) t"
    "st_nbLists t = Suc (st_nbLists s)" "\<And>k. k < st_nbLists s \<Longrightarrow> st_lists t k = st_lists s k"
    "\<And>a. a < st_nbNodes s \<Longrightarrow> st_nodes t a = st_nodes s a" "bl_mNbMaxElements_U32 (st_lists t (st_nbLists s)) = NbMax"
proof -
  define N where "N = st_nbLists s"
  obtain m e where m: "(if mt then Bof_CreateMutex ''BofList'' True pi BOF_MUTEX_ctor else Ret (BOF_MUTEX_ctor, BOF_ERR_NO_ERROR)) = Ret (m, e)"
    "mt \<longrightarrow> recursive_mutex_ok m" by (rule list_mutex_new)
  have c: "CHK dbg (NbMax > 0) k = k" for k :: "('a list_store \<times> nat) outcome" using cap by (simp add: word_gt_0)
  note ctor = BofList_ctor_def [of dbg zero s NbMax mt pi pool, unfolded c m(1) bindO.simps prod.case Let_def, folded N_def]
  show thesis
  proof (cases pool)
    case None
    define t where "t = fst (case BofList_ctor dbg zero s NbMax mt pi pool of Ret x \<Rightarrow> x)"
    have t: "BofList_ctor dbg zero s NbMax mt pi pool = Ret (t, N)" using ctor None cap by (simp add: t_def)
    have f: "st_nbLists t = Suc N" "\<And>k. k < N \<Longrightarrow> st_lists t k = st_lists s k" "\<And>a. a < st_nbNodes s \<Longrightarrow> st_nodes t a = st_nodes s a"
      "bl_mNbMaxElements_U32 (st_lists t N) = NbMax" "st_nbNodes t = st_nbNodes s + unat NbMax"
      "\<And>a. st_nbNodes s \<le> a \<Longrightarrow> a < st_nbNodes t \<Longrightarrow> st_nodes t a = list_new_nodes zero (st_nbNodes s) (unat NbMax) a"
      "\<And>a. st_nbNodes t \<le> a \<Longrightarrow> st_nodes t a = None"
      using ctor None cap ok by (auto simp: t_def lists_ok_def)
    have g: "bl_mpHead_O (st_lists t N) = None" "bl_mpQueue_O (st_lists t N) = None" "bl_mNbElements_U32 (st_lists t N) = 0" "list_ready t N"
      "bl_mpNodePoolMgr_O (st_lists t N) = None" "bl_mpFreeNodesHead_O (st_lists t N) = Some (st_nbNodes s)"
      "bl_mpFreeNodesQueue_O (st_lists t N) = Some (st_nbNodes s + unat NbMax - 1)"
      using ctor None cap m(2) by (simp_all add: t_def list_ready_def)
    have "chain (st_nodes t) (Some (st_nbNodes s)) [st_nbNodes s..<st_nbNodes s + unat NbMax] (Some (st_nbNodes s + unat NbMax - 1))"
      using f(5,6) cap by (intro list_new_nodes_chain) (auto simp: unat_gt_0)
    then have "free_at t N [st_nbNodes s..<st_nbNodes s + unat NbMax]" using f(5,6) g(6,7)
      by (auto simp: free_at_def loose_def list_new_nodes_def BofListNode_ctor_def)
    then have "lists_ok (E(N := [])) (F(N := [st_nbNodes s..<st_nbNodes s + unat NbMax])) (R(N := N)) t"
      using f g by (intro lists_ok_new [OF ok N_def]) (auto simp: f(4))
    then show thesis using that [of t "F(N := [st_nbNodes s..<st_nbNodes s + unat NbMax])"] t f None by (simp add: N_def)
  next
    case (Some p)
    then have p: "p < N" using pool N_def by blast
    define t where "t = fst (case BofList_ctor dbg zero s NbMax mt pi pool of Ret x \<Rightarrow> x)"
    have t: "BofList_ctor dbg zero s NbMax mt pi pool = Ret (t, N)" using ctor Some by (simp add: t_def)
    have f: "st_nbLists t = Suc N" "\<And>k. k < N \<Longrightarrow> st_lists t k = st_lists s k" "\<And>a. st_nodes t a = st_nodes s a"
      "bl_mNbMaxElements_U32 (st_lists t N) = NbMax" "st_nbNodes t = st_nbNodes s" "\<And>a. st_nbNodes t \<le> a \<Longrightarrow> st_nodes t a = None"
      using ctor Some ok by (auto simp: t_def lists_ok_def)
    have "bl_mpHead_O (st_lists t N) = None" "bl_mpQueue_O (st_lists t N) = None" "bl_mNbElements_U32 (st_lists t N) = 0" "list_ready t N"
      "bl_mpNodePoolMgr_O (st_lists t N) = Some p"
      using ctor Some m(2) by (simp_all add: t_def list_ready_def)
    then have "lists_ok (E(N := [])) (F(N := [])) (R(N := R p)) t"
      using f p by (intro lists_ok_new [OF ok N_def]) auto
    then show thesis using that [of t "F(N := [])"] t f Some by (simp add: N_def)
  qed
qed


end
