(* ===== verification/Bof_Deque_Spec.thy ===== *)
theory Bof_Deque_Spec
  imports Bof_Prelude "HOL-Library.Multiset"
begin

text \<open>
  The contract of a family of lists that share pools of nodes: the items of every
  list, and which pool its nodes come from. A client run is a list of operations;
  inside the locale every run of an implementation is proved to return and to answer
  as the family does.
\<close>

section \<open>Stable sorting\<close>

fun insert_by :: "('a \<Rightarrow> 'a \<Rightarrow> bool) \<Rightarrow> 'a \<Rightarrow> 'a list \<Rightarrow> 'a list" where
  "insert_by le x [] = [x]"
| "insert_by le x (y # ys) = (if le x y then x # y # ys else y # insert_by le x ys)"

definition sort_by :: "('a \<Rightarrow> 'a \<Rightarrow> bool) \<Rightarrow> 'a list \<Rightarrow> 'a list" where
  "sort_by le xs = foldr (insert_by le) xs []"

definition total_preorder :: "('a \<Rightarrow> 'a \<Rightarrow> bool) \<Rightarrow> bool" where
  "total_preorder le \<longleftrightarrow> (\<forall>x y. le x y \<or> le y x) \<and> (\<forall>x y z. le x y \<longrightarrow> le y z \<longrightarrow> le x z)"

text \<open>How long a list that is sorted may be, in a relation that orders it and in one that does not.\<close>

definition sort_limit :: "('a \<Rightarrow> 'a \<Rightarrow> bool) \<Rightarrow> nat" where
  "sort_limit le = (if total_preorder le then 2 ^ 30 else 0)"

lemma total_preorderD: "total_preorder le \<Longrightarrow> \<not> le x y \<Longrightarrow> le y x" "total_preorder le \<Longrightarrow> le x y \<Longrightarrow> le y z \<Longrightarrow> le x z"
  "total_preorder le \<Longrightarrow> le x x"
  by (auto simp: total_preorder_def)

lemma mset_insert_by [simp]: "mset (insert_by le x xs) = add_mset x (mset xs)"
  by (induction xs) auto

lemma set_insert_by [simp]: "set (insert_by le x xs) = insert x (set xs)"
  by (induction xs) (simp_all add: insert_commute)

lemma mset_sort_by [simp]: "mset (sort_by le xs) = mset xs"
  by (induction xs) (simp_all add: sort_by_def)

lemma length_sort_by [simp]: "length (sort_by le xs) = length xs"
  by (metis mset_sort_by size_mset)

lemma sorted_insert_by:
  assumes "total_preorder le"
  shows "sorted_wrt le xs \<Longrightarrow> sorted_wrt le (insert_by le x xs)"
  by (induction xs) (use assms in \<open>auto dest: total_preorderD\<close>)

lemma sorted_sort_by: "total_preorder le \<Longrightarrow> sorted_wrt le (sort_by le xs)"
  by (induction xs) (simp_all add: sort_by_def sorted_insert_by)

text \<open>Stability: the elements that are equivalent to a given one keep their order.\<close>

definition equiv_to :: "('a \<Rightarrow> 'a \<Rightarrow> bool) \<Rightarrow> 'a \<Rightarrow> 'a \<Rightarrow> bool" where
  "equiv_to le a x \<longleftrightarrow> le a x \<and> le x a"

lemma stable_insert_by:
  assumes "total_preorder le"
  shows "filter (equiv_to le a) (insert_by le x xs) = filter (equiv_to le a) (x # xs)"
proof (induction xs)
  case (Cons y ys)
  show ?case
  proof (cases "le x y")
    case False
    then have "\<not> (equiv_to le a x \<and> equiv_to le a y)" using total_preorderD(2) [OF assms] by (auto simp: equiv_to_def)
    then show ?thesis using Cons False by auto
  qed simp
qed simp

lemma stable_sort_by: "total_preorder le \<Longrightarrow> filter (equiv_to le a) (sort_by le xs) = filter (equiv_to le a) xs"
  by (induction xs) (simp_all add: sort_by_def stable_insert_by)

section \<open>The family\<close>

record 'e family_list =
  fl_cap :: nat
  fl_pool :: nat
  fl_items :: "'e list"

datatype 'e family_op =
  FamNew u32 bool bool "nat option" | FamAddFirst nat 'e | FamAddLast nat 'e | FamRemoveFirst nat | FamRemoveLast nat
| FamRemove nat 'e | FamContains nat 'e | FamClear nat | FamSort nat

datatype 'e family_reply = FamCreated nat | FamDone bool | FamTaken "'e option"

text \<open>The nodes of a pool that are in use.\<close>

definition family_used :: "'e family_list list \<Rightarrow> nat \<Rightarrow> nat" where
  "family_used fam r = sum_list (map (\<lambda>f. length (fl_items f)) (filter (\<lambda>f. fl_pool f = r) fam))"

definition family_room :: "'e family_list list \<Rightarrow> nat \<Rightarrow> bool" where
  "family_room fam l \<longleftrightarrow> family_used fam (fl_pool (fam ! l)) < fl_cap (fam ! fl_pool (fam ! l))"

definition family_set :: "'e family_list list \<Rightarrow> nat \<Rightarrow> 'e list \<Rightarrow> 'e family_list list" where
  "family_set fam l xs = fam[l := (fam ! l)\<lparr>fl_items := xs\<rparr>]"

text \<open>The removal of the first item that matches.\<close>

definition remove_match :: "('e \<Rightarrow> bool) \<Rightarrow> 'e list \<Rightarrow> 'e list" where
  "remove_match P xs = takeWhile (\<lambda>x. \<not> P x) xs @ tl (dropWhile (\<lambda>x. \<not> P x) xs)"

fun family_step ::
  "('e \<Rightarrow> 'e \<Rightarrow> bool) \<Rightarrow> ('e \<Rightarrow> 'e \<Rightarrow> bool) \<Rightarrow> 'e family_op \<Rightarrow> 'e family_list list \<Rightarrow> 'e family_list list \<times> 'e family_reply" where
  "family_step same le (FamNew cap mt pi pool) fam =
     (fam @ [\<lparr>fl_cap = unat cap, fl_pool = (case pool of None \<Rightarrow> length fam | Some p \<Rightarrow> fl_pool (fam ! p)), fl_items = []\<rparr>],
      FamCreated (length fam))"
| "family_step same le (FamAddFirst l x) fam =
     (if family_room fam l then (family_set fam l (x # fl_items (fam ! l)), FamDone True) else (fam, FamDone False))"
| "family_step same le (FamAddLast l x) fam =
     (if family_room fam l then (family_set fam l (fl_items (fam ! l) @ [x]), FamDone True) else (fam, FamDone False))"
| "family_step same le (FamRemoveFirst l) fam =
     (case fl_items (fam ! l) of [] \<Rightarrow> (fam, FamTaken None) | x # xs \<Rightarrow> (family_set fam l xs, FamTaken (Some x)))"
| "family_step same le (FamRemoveLast l) fam =
     (let xs = fl_items (fam ! l)
      in if xs = [] then (fam, FamTaken None) else (family_set fam l (butlast xs), FamTaken (Some (last xs))))"
| "family_step same le (FamRemove l x) fam =
     (let xs = fl_items (fam ! l)
      in if \<exists>y \<in> set xs. same y x then (family_set fam l (remove_match (\<lambda>y. same y x) xs), FamDone True) else (fam, FamDone False))"
| "family_step same le (FamContains l x) fam = (fam, FamDone (\<exists>y \<in> set (fl_items (fam ! l)). same y x))"
| "family_step same le (FamClear l) fam = (family_set fam l [], FamDone True)"
| "family_step same le (FamSort l) fam = (family_set fam l (sort_by le (fl_items (fam ! l))), FamDone True)"

text \<open>An operation names lists that are there; a list is sorted when its length is at most \<open>lim\<close>.\<close>

fun family_allows :: "nat \<Rightarrow> 'e family_op \<Rightarrow> 'e family_list list \<Rightarrow> bool" where
  "family_allows lim (FamNew cap mt pi pool) fam \<longleftrightarrow> cap \<noteq> 0 \<and> (case pool of None \<Rightarrow> True | Some p \<Rightarrow> p < length fam)"
| "family_allows lim (FamAddFirst l x) fam \<longleftrightarrow> l < length fam"
| "family_allows lim (FamAddLast l x) fam \<longleftrightarrow> l < length fam"
| "family_allows lim (FamRemoveFirst l) fam \<longleftrightarrow> l < length fam"
| "family_allows lim (FamRemoveLast l) fam \<longleftrightarrow> l < length fam"
| "family_allows lim (FamRemove l x) fam \<longleftrightarrow> l < length fam"
| "family_allows lim (FamContains l x) fam \<longleftrightarrow> l < length fam"
| "family_allows lim (FamClear l) fam \<longleftrightarrow> l < length fam"
| "family_allows lim (FamSort l) fam \<longleftrightarrow> l < length fam \<and> length (fl_items (fam ! l)) \<le> lim"

fun family_run ::
  "('e \<Rightarrow> 'e \<Rightarrow> bool) \<Rightarrow> ('e \<Rightarrow> 'e \<Rightarrow> bool) \<Rightarrow> 'e family_op list \<Rightarrow> 'e family_list list \<Rightarrow> 'e family_list list \<times> 'e family_reply list" where
  "family_run same le [] fam = (fam, [])"
| "family_run same le (op # ops) fam =
     (case family_step same le op fam of (fam, r) \<Rightarrow> (case family_run same le ops fam of (fam, rs) \<Rightarrow> (fam, r # rs)))"

fun family_script :: "('e \<Rightarrow> 'e \<Rightarrow> bool) \<Rightarrow> ('e \<Rightarrow> 'e \<Rightarrow> bool) \<Rightarrow> nat \<Rightarrow> 'e family_op list \<Rightarrow> 'e family_list list \<Rightarrow> bool" where
  "family_script same le lim [] fam = True"
| "family_script same le lim (op # ops) fam \<longleftrightarrow> family_allows lim op fam \<and> family_script same le lim ops (fst (family_step same le op fam))"

lemma family_script_append:
  "family_script same le lim (ops @ ops') fam \<longleftrightarrow> family_script same le lim ops fam \<and> family_script same le lim ops' (fst (family_run same le ops fam))"
  by (induction ops arbitrary: fam) (auto split: prod.splits)

text \<open>A run of an implementation given by its step.\<close>

fun family_impl_run ::
  "('e family_op \<Rightarrow> 's \<Rightarrow> ('s \<times> 'e family_reply) outcome) \<Rightarrow> 'e family_op list \<Rightarrow> 's \<Rightarrow> ('s \<times> 'e family_reply list) outcome" where
  "family_impl_run step [] s = Ret (s, [])"
| "family_impl_run step (op # ops) s =
     bindO (step op s) (\<lambda>(s, r). bindO (family_impl_run step ops s) (\<lambda>(s, rs). Ret (s, r # rs)))"

locale list_family =
  fixes inv :: "'s \<Rightarrow> bool"
    and family :: "'s \<Rightarrow> 'e family_list list"
    and same :: "'e \<Rightarrow> 'e \<Rightarrow> bool"
    and le :: "'e \<Rightarrow> 'e \<Rightarrow> bool"
    and lim :: nat
    and step :: "'e family_op \<Rightarrow> 's \<Rightarrow> ('s \<times> 'e family_reply) outcome"
  assumes step_ok: "inv s \<Longrightarrow> family_allows lim op (family s) \<Longrightarrow>
    \<exists>s' r. step op s = Ret (s', r) \<and> inv s' \<and> family_step same le op (family s) = (family s', r)"
begin

lemma run_refines:
  assumes "inv s" "family_script same le lim ops (family s)"
  shows "\<exists>s' rs. family_impl_run step ops s = Ret (s', rs) \<and> inv s' \<and> family_run same le ops (family s) = (family s', rs)"
  using assms
proof (induction ops arbitrary: s)
  case (Cons op ops)
  obtain s1 r where s1: "step op s = Ret (s1, r)" "inv s1" "family_step same le op (family s) = (family s1, r)"
    using step_ok [OF Cons.prems(1)] Cons.prems(2) by fastforce
  obtain s2 rs where "family_impl_run step ops s1 = Ret (s2, rs)" "inv s2" "family_run same le ops (family s1) = (family s2, rs)"
    using Cons.IH [OF s1(2)] Cons.prems(2) s1(3) by auto
  then show ?case using s1 by simp
qed simp

end

end
