(* ===== verification/Bof_List_Sort.thy ===== *)
theory Bof_List_Sort
  imports Bof_List_Inv Bof_Deque_Spec
begin

text \<open>
  \<^verbatim>\<open>ListSort\<close> is a stable sort: its passes over the links are followed by passes over
  lists of nodes, which merge sorted runs of doubling length.
\<close>

section \<open>Merge sort on lists\<close>

fun merge_by :: "('a \<Rightarrow> 'a \<Rightarrow> bool) \<Rightarrow> 'a list \<Rightarrow> 'a list \<Rightarrow> 'a list" where
  "merge_by le [] bs = bs"
| "merge_by le as [] = as"
| "merge_by le (a # as) (b # bs) = (if le a b then a # merge_by le as (b # bs) else b # merge_by le (a # as) bs)"

lemma merge_by_Nil2 [simp]: "merge_by le as [] = as"
  by (cases as) simp_all

lemma set_merge_by [simp]: "set (merge_by le as bs) = set as \<union> set bs"
  by (induction le as bs rule: merge_by.induct) auto

lemma length_merge_by [simp]: "length (merge_by le as bs) = length as + length bs"
  by (induction le as bs rule: merge_by.induct) auto

lemma distinct_merge_by: "distinct (as @ bs) \<Longrightarrow> distinct (merge_by le as bs)"
  by (induction le as bs rule: merge_by.induct) auto

lemma insert_by_min: "(\<And>y. y \<in> set ys \<Longrightarrow> le x y) \<Longrightarrow> insert_by le x ys = x # ys"
  by (cases ys) auto

lemma merge_insert_by:
  "total_preorder le \<Longrightarrow> sorted_wrt le as \<Longrightarrow> sorted_wrt le bs \<Longrightarrow>
     merge_by le (insert_by le x as) bs = insert_by le x (merge_by le as bs)"
proof (induction le as bs rule: merge_by.induct)
  case (1 le bs)
  then show ?case by (induction bs) auto
next
  case (3 le a as b bs)
  note tp = total_preorderD [OF 3(3)]
  have IH: "le a b \<Longrightarrow> merge_by le (insert_by le x as) (b # bs) = insert_by le x (merge_by le as (b # bs))"
    "\<not> le a b \<Longrightarrow> merge_by le (insert_by le x (a # as)) bs = insert_by le x (merge_by le (a # as) bs)" using 3 by simp_all
  show ?case
  proof (cases "le x a")
    case True
    show ?thesis
    proof (cases "le x b")
      case False
      then have "\<not> le a b" using tp(2) [OF True] by blast
      then show ?thesis using True False IH(2) by simp
    qed (use True in simp)
  next
    case False
    then have "\<not> le a b \<Longrightarrow> \<not> le x b" using tp(1,2) by blast
    then show ?thesis using False IH by (cases "le a b") auto
  qed
qed simp

lemma merge_sort_by:
  assumes "total_preorder le"
  shows "merge_by le (sort_by le as) (sort_by le bs) = sort_by le (as @ bs)"
proof (induction as)
  case (Cons a as)
  have "merge_by le (insert_by le a (sort_by le as)) (sort_by le bs) = insert_by le a (merge_by le (sort_by le as) (sort_by le bs))"
    by (rule merge_insert_by [OF assms sorted_sort_by [OF assms] sorted_sort_by [OF assms]])
  then show ?case using Cons by (simp add: sort_by_def)
qed (simp add: sort_by_def)

text \<open>One pass over runs of length \<open>k\<close>, its number of merges, and a list of which every run of length \<open>k\<close> is sorted.\<close>

function merge_pass :: "('a \<Rightarrow> 'a \<Rightarrow> bool) \<Rightarrow> nat \<Rightarrow> 'a list \<Rightarrow> 'a list" where
  "merge_pass le k xs = (if xs = [] \<or> k = 0 then [] else merge_by le (take k xs) (take k (drop k xs)) @ merge_pass le k (drop (2 * k) xs))"
  by pat_completeness auto
termination by (relation "measure (\<lambda>(le, k, xs). length xs)") auto

function pass_count :: "nat \<Rightarrow> 'a list \<Rightarrow> nat" where
  "pass_count k xs = (if xs = [] \<or> k = 0 then 0 else Suc (pass_count k (drop (2 * k) xs)))"
  by pat_completeness auto
termination by (relation "measure (\<lambda>(k, xs). length xs)") auto

function run_sort :: "('a \<Rightarrow> 'a \<Rightarrow> bool) \<Rightarrow> nat \<Rightarrow> 'a list \<Rightarrow> 'a list" where
  "run_sort le k xs = (if xs = [] \<or> k = 0 then [] else sort_by le (take k xs) @ run_sort le k (drop k xs))"
  by pat_completeness auto
termination by (relation "measure (\<lambda>(le, k, xs). length xs)") auto

declare merge_pass.simps [simp del] pass_count.simps [simp del] run_sort.simps [simp del]

lemma sort_by_short [simp]: "sort_by le [] = []" "sort_by le [x] = [x]"
  by (simp_all add: sort_by_def)

lemma run_sort_1: "run_sort le 1 xs = xs"
  by (induction xs) (simp_all add: run_sort.simps)

lemma run_sort_Nil [simp]: "run_sort le k [] = []"
  by (simp add: run_sort.simps)

lemma run_sort_all: "xs \<noteq> [] \<Longrightarrow> length xs \<le> k \<Longrightarrow> run_sort le k xs = sort_by le xs"
  by (subst run_sort.simps) auto

lemma length_run_sort [simp]: "0 < k \<Longrightarrow> length (run_sort le k xs) = length xs"
proof (induction le k xs rule: run_sort.induct)
  case (1 le k xs)
  then show ?case by (subst run_sort.simps) auto
qed

lemma take_run_sort:
  assumes "0 < k"
  shows "take k (run_sort le k xs) = sort_by le (take k xs)" "drop k (run_sort le k xs) = run_sort le k (drop k xs)"
proof -
  have eq: "run_sort le k xs = sort_by le (take k xs) @ run_sort le k (drop k xs)"
    using assms by (cases "xs = []") (simp_all add: run_sort.simps [of le k xs])
  show "take k (run_sort le k xs) = sort_by le (take k xs)" "drop k (run_sort le k xs) = run_sort le k (drop k xs)"
    unfolding eq by (cases "k \<le> length xs"; simp)+
qed

lemma merge_pass_run_sort:
  assumes le: "total_preorder le" and k: "0 < k"
  shows "merge_pass le k (run_sort le k xs) = run_sort le (2 * k) xs"
proof (induction "length xs" arbitrary: xs rule: less_induct)
  case less
  show ?case
  proof (cases "xs = []")
    case True
    then show ?thesis by (simp add: merge_pass.simps)
  next
    case False
    have "run_sort le k xs \<noteq> []" using False length_run_sort [OF k, of le xs] by auto
    then have "merge_pass le k (run_sort le k xs) = merge_by le (sort_by le (take k xs)) (sort_by le (take k (drop k xs))) @
        merge_pass le k (run_sort le k (drop (2 * k) xs))"
      using k take_run_sort [OF k, of le] by (subst merge_pass.simps) (simp add: mult_2 flip: drop_drop)
    also have "merge_by le (sort_by le (take k xs)) (sort_by le (take k (drop k xs))) = sort_by le (take (2 * k) xs)"
      unfolding merge_sort_by [OF le] by (simp add: mult_2 take_add)
    also have "merge_pass le k (run_sort le k (drop (2 * k) xs)) = run_sort le (2 * k) (drop (2 * k) xs)"
      using less False k by simp
    finally show ?thesis using False k by (simp add: run_sort.simps [of le "2 * k" xs])
  qed
qed

lemma pass_count_le: "0 < k \<Longrightarrow> pass_count k xs \<le> length xs"
proof (induction k xs rule: pass_count.induct)
  case (1 k xs)
  then show ?case by (subst pass_count.simps) (cases xs, auto)
qed

lemma pass_count_1: "xs \<noteq> [] \<Longrightarrow> 0 < k \<Longrightarrow> pass_count k xs \<le> 1 \<longleftrightarrow> length xs \<le> 2 * k"
  by (subst pass_count.simps) (auto simp: pass_count.simps [of k "drop (2 * k) xs"])

section \<open>Links during a pass\<close>

text \<open>The nodes that a chain of successors goes through, up to its end; and only from one node to the next.\<close>

fun nseg :: "'e node_heap \<Rightarrow> nat option \<Rightarrow> nat list \<Rightarrow> bool" where
  "nseg h p [] \<longleftrightarrow> p = None"
| "nseg h p (x # xs) \<longleftrightarrow> p = Some x \<and> (case h x of None \<Rightarrow> False | Some n \<Rightarrow> nseg h (bn_pNext_O n) xs)"

fun nseq :: "'e node_heap \<Rightarrow> nat list \<Rightarrow> bool" where
  "nseq h [] = True"
| "nseq h (x # xs) \<longleftrightarrow> (case h x of None \<Rightarrow> False | Some n \<Rightarrow> (xs \<noteq> [] \<longrightarrow> bn_pNext_O n = opt_hd xs) \<and> nseq h xs)"

lemma nseg_hd: "nseg h p xs \<Longrightarrow> p = opt_hd xs"
  by (cases xs) simp_all

lemma nseg_frame: "(\<And>x. x \<in> set xs \<Longrightarrow> map_option bn_pNext_O (h' x) = map_option bn_pNext_O (h x)) \<Longrightarrow> nseg h' p xs = nseg h p xs"
proof (induction xs arbitrary: p)
  case (Cons x xs)
  then have "map_option bn_pNext_O (h' x) = map_option bn_pNext_O (h x)" "\<And>p. nseg h' p xs = nseg h p xs" by simp_all
  then show ?case by (cases "h x"; cases "h' x") auto
qed simp

lemma nseq_frame: "(\<And>x. x \<in> set xs \<Longrightarrow> map_option bn_pNext_O (h' x) = map_option bn_pNext_O (h x)) \<Longrightarrow> nseq h' xs = nseq h xs"
proof (induction xs)
  case (Cons x xs)
  then have "map_option bn_pNext_O (h' x) = map_option bn_pNext_O (h x)" "nseq h' xs = nseq h xs" by simp_all
  then show ?case by (cases "h x"; cases "h' x") auto
qed simp

lemma nseg_take: "nseg h p xs \<Longrightarrow> nseq h (take k xs)"
proof (induction xs arbitrary: p k)
  case (Cons x xs)
  then obtain n where n: "h x = Some n" "nseg h (bn_pNext_O n) xs" by (auto split: option.splits)
  then show ?case using Cons.IH [OF n(2)] nseg_hd [OF n(2)] by (cases k; cases xs) (auto simp: take_Cons split: nat.splits)
qed simp

lemma chain_nseg: "dlseg h p q xs e None \<Longrightarrow> nseg h p xs"
  by (induction xs arbitrary: p q) (auto split: option.splits)

text \<open>The part of the list that is already sorted: a chain whose last node still has its old successor.\<close>

definition out_ok :: "'e list_store \<Rightarrow> nat \<Rightarrow> nat list \<Rightarrow> bool" where
  "out_ok s l out \<longleftrightarrow> bl_mpHead_O (st_lists s l) = opt_hd out \<and> bl_mpQueue_O (st_lists s l) = opt_last out \<and>
     chain (upd (st_nodes s) (opt_last out) (\<lambda>n. n\<lparr>bn_pNext_O := None\<rparr>)) (opt_hd out) out (opt_last out)"

text \<open>What the sort changes: the links of the nodes in \<open>A\<close>, and the two ends of the list.\<close>

definition relinked :: "nat \<Rightarrow> nat set \<Rightarrow> 'e list_store \<Rightarrow> 'e list_store \<Rightarrow> bool" where
  "relinked l A s t \<longleftrightarrow> (\<forall>a. a \<notin> A \<longrightarrow> st_nodes t a = st_nodes s a) \<and>
     (\<forall>a. map_option (\<lambda>n. (bn_Value n, bn_pParent_O n)) (st_nodes t a) = map_option (\<lambda>n. (bn_Value n, bn_pParent_O n)) (st_nodes s a)) \<and>
     (\<exists>p q. st_lists t = (st_lists s)(l := (st_lists s l)\<lparr>bl_mpHead_O := p, bl_mpQueue_O := q\<rparr>)) \<and>
     st_nbNodes t = st_nbNodes s \<and> st_nbLists t = st_nbLists s"

lemma relinked_refl [simp]: "relinked l A s s"
proof -
  have "st_lists s = (st_lists s)(l := (st_lists s l)\<lparr>bl_mpHead_O := bl_mpHead_O (st_lists s l), bl_mpQueue_O := bl_mpQueue_O (st_lists s l)\<rparr>)" by simp
  then show ?thesis unfolding relinked_def by blast
qed

lemma relinked_trans: "relinked l A s t \<Longrightarrow> relinked l A t u \<Longrightarrow> relinked l A s u"
  unfolding relinked_def by (elim conjE exE, intro conjI) (auto simp: fun_upd_idem_iff)

lemma relinked_mono: "relinked l A s t \<Longrightarrow> A \<subseteq> B \<Longrightarrow> relinked l B s t"
  unfolding relinked_def by blast

lemma relinkedI:
  assumes "\<And>a. a \<notin> A \<Longrightarrow> st_nodes t a = st_nodes s a"
    "\<And>a. map_option (\<lambda>n. (bn_Value n, bn_pParent_O n)) (st_nodes t a) = map_option (\<lambda>n. (bn_Value n, bn_pParent_O n)) (st_nodes s a)"
    "st_lists t = (st_lists s)(l := (st_lists s l)\<lparr>bl_mpHead_O := p, bl_mpQueue_O := q\<rparr>)" "st_nbNodes t = st_nbNodes s" "st_nbLists t = st_nbLists s"
  shows "relinked l A s t"
  using assms unfolding relinked_def by blast

lemma relinked_val: "relinked l A s t \<Longrightarrow> val t a = val s a"
  unfolding relinked_def val_def by (metis (mono_tags, lifting) fst_conv option.map_comp comp_apply option.map_cong0)

lemma relinked_node: "relinked l A s t \<Longrightarrow> (st_nodes t a = None) = (st_nodes s a = None)"
  unfolding relinked_def by (metis (no_types, lifting) map_option_is_None)

text \<open>A node is put behind the part that is already sorted.\<close>

lemma sort_link_eq:
  assumes out: "out_ok s l out" and x: "x \<notin> set out" "st_nodes s x \<noteq> None"
  shows "\<exists>t. sort_link True s l (Some x) = Ret t \<and> out_ok t l (out @ [x]) \<and> relinked l (set (out @ [x])) s t \<and>
    (\<forall>a. a \<notin> set out \<longrightarrow> map_option bn_pNext_O (st_nodes t a) = map_option bn_pNext_O (st_nodes s a))"
proof -
  let ?h = "upd (upd (st_nodes s) (opt_last out) (\<lambda>n. n\<lparr>bn_pNext_O := Some x\<rparr>)) (Some x) (\<lambda>n. n\<lparr>bn_pPrev_O := opt_last out\<rparr>)"
  let ?l = "(st_lists s l)\<lparr>bl_mpHead_O := opt_hd (out @ [x]), bl_mpQueue_O := Some x\<rparr>"
  let ?t = "s\<lparr>st_nodes := ?h, st_lists := (st_lists s)(l := ?l)\<rparr>"
  have ends: "bl_mpHead_O (st_lists s l) = opt_hd out" "bl_mpQueue_O (st_lists s l) = opt_last out"
    and ch: "chain (upd (st_nodes s) (opt_last out) (\<lambda>n. n\<lparr>bn_pNext_O := None\<rparr>)) (opt_hd out) (out @ []) (opt_last out)"
    using out by (simp_all add: out_ok_def)
  have q: "st_nodes s a \<noteq> None" if "opt_last out = Some a" for a using chain_mem [OF ch, of a] opt_in(2) [OF that]
    by (auto simp: upd_apply split: if_splits)
  have "sort_link True s l (Some x) = Ret ?t"
  proof (cases "opt_last out")
    case None
    then show ?thesis using ends x(2) by (auto simp: sort_link_def set_list_def)
  next
    case (Some a)
    have l: "(st_lists s l)\<lparr>bl_mpQueue_O := Some x\<rparr> = ?l" using ends Some by (intro BofList.equality) auto
    show ?thesis using ends x(2) Some q [OF Some] by (simp add: sort_link_def set_list_def l [simplified Some] Let_def)
  qed
  moreover have "out_ok ?t l (out @ [x])"
  proof -
    have "chain (ins_nodes None x out [] (upd (st_nodes s) (opt_last out) (\<lambda>n. n\<lparr>bn_pNext_O := None\<rparr>))) (opt_hd (out @ [x])) (out @ [x]) (opt_last (out @ [x]))"
      using x by (intro chain_ins_nodes [OF ch]) simp_all
    then have "chain (upd ?h (Some x) (\<lambda>n. n\<lparr>bn_pNext_O := None\<rparr>)) (opt_hd (out @ [x])) (out @ [x]) (opt_last (out @ [x]))"
      using x(1) by (subst chain_frame [of _ _ "ins_nodes None x out [] (upd (st_nodes s) (opt_last out) (\<lambda>n. n\<lparr>bn_pNext_O := None\<rparr>))"])
        (auto simp: ins_nodes_def upd_apply links_def option.map_comp o_def dest: opt_in)
    then show ?thesis by (simp add: out_ok_def)
  qed
  moreover have "relinked l (set (out @ [x])) s ?t"
    by (rule relinkedI [where p = "opt_hd (out @ [x])" and q = "Some x"]) (auto simp: upd_apply option.map_comp o_def dest: opt_in)
  moreover have "\<forall>a. a \<notin> set out \<longrightarrow> map_option bn_pNext_O (st_nodes ?t a) = map_option bn_pNext_O (st_nodes s a)"
    by (auto simp: upd_apply option.map_comp o_def dest: opt_in)
  ultimately show ?thesis by blast
qed


lemma sort_advance_eq:
  assumes "nseg (st_nodes s) p xs" "xs \<noteq> [] \<or> n = 0"
  shows "\<exists>p'. sort_advance n False old s p c = Ret (p', c + min n (length xs)) \<and> nseg (st_nodes s) p' (drop n xs)"
  using assms
proof (induction n arbitrary: p xs c)
  case (Suc n)
  then obtain x ys node where x: "xs = x # ys" "p = Some x" "st_nodes s x = Some node" "nseg (st_nodes s) (bn_pNext_O node) ys"
    by (cases xs) (auto split: option.splits)
  show ?case
  proof (cases "ys = []")
    case True
    then show ?thesis using x by (auto simp: sort_next_def Let_def)
  next
    case False
    then have "bn_pNext_O node \<noteq> None" using nseg_hd [OF x(4)] by simp
    then show ?thesis using Suc.IH [OF x(4), of "c + 1"] False x by (auto simp: sort_next_def Let_def)
  qed
qed simp

text \<open>
  The state of the merge of the runs \<open>as\<close> and \<open>bs\<close>: \<open>out\<close> is what is sorted already, \<open>rest\<close> comes
  after the two runs.
\<close>

definition merge_state :: "'e list_store \<Rightarrow> nat \<Rightarrow> nat list \<Rightarrow> nat list \<Rightarrow> nat option \<Rightarrow> nat list \<Rightarrow> nat list \<Rightarrow> nat option \<Rightarrow> bool" where
  "merge_state s l out as p bs rest q \<longleftrightarrow> out_ok s l out \<and> distinct (out @ as @ bs @ rest) \<and> nseq (st_nodes s) as \<and>
     (as \<noteq> [] \<longrightarrow> p = opt_hd as) \<and> nseg (st_nodes s) q (bs @ rest)"

lemma nseq_node: "nseq h xs \<Longrightarrow> x \<in> set xs \<Longrightarrow> h x \<noteq> None"
  by (induction xs) (auto split: option.splits)

lemma nseg_node: "nseg h p xs \<Longrightarrow> x \<in> set xs \<Longrightarrow> h x \<noteq> None"
  by (induction xs arbitrary: p) (auto split: option.splits)

lemma merge_take1:
  assumes "merge_state s l out (a # as) p bs rest q"
  shows "\<exists>n t. p = Some a \<and> st_nodes s a = Some n \<and> sort_link True s l (Some a) = Ret t \<and> relinked l (set (out @ [a])) s t \<and>
    merge_state t l (out @ [a]) as (bn_pNext_O n) bs rest q"
proof -
  have d: "distinct (out @ (a # as) @ bs @ rest)" "out_ok s l out" "nseq (st_nodes s) (a # as)" "p = Some a" "nseg (st_nodes s) q (bs @ rest)"
    using assms by (simp_all add: merge_state_def)
  then obtain n where n: "st_nodes s a = Some n" "as \<noteq> [] \<longrightarrow> bn_pNext_O n = opt_hd as" "nseq (st_nodes s) as" by (auto split: option.splits)
  obtain t where t: "sort_link True s l (Some a) = Ret t" "out_ok t l (out @ [a])" "relinked l (set (out @ [a])) s t"
    "\<And>x. x \<notin> set out \<Longrightarrow> map_option bn_pNext_O (st_nodes t x) = map_option bn_pNext_O (st_nodes s x)"
    using sort_link_eq [OF d(2), of a] d(1) n(1) by auto
  have "nseq (st_nodes t) as = nseq (st_nodes s) as" "nseg (st_nodes t) q (bs @ rest) = nseg (st_nodes s) q (bs @ rest)"
    using d(1) by (intro nseq_frame nseg_frame t(4); auto)+
  then show ?thesis using d n t by (auto simp: merge_state_def)
qed

lemma merge_take2:
  assumes "merge_state s l out as p (b # bs) rest q"
  shows "\<exists>n t. q = Some b \<and> st_nodes s b = Some n \<and> sort_link True s l (Some b) = Ret t \<and> relinked l (set (out @ [b])) s t \<and>
    merge_state t l (out @ [b]) as p bs rest (bn_pNext_O n)"
proof -
  have d: "distinct (out @ as @ (b # bs) @ rest)" "out_ok s l out" "nseq (st_nodes s) as" "q = Some b" "nseg (st_nodes s) q (b # bs @ rest)"
    "as \<noteq> [] \<longrightarrow> p = opt_hd as"
    using assms by (auto simp: merge_state_def)
  then obtain n where n: "st_nodes s b = Some n" "nseg (st_nodes s) (bn_pNext_O n) (bs @ rest)" by (auto split: option.splits)
  obtain t where t: "sort_link True s l (Some b) = Ret t" "out_ok t l (out @ [b])" "relinked l (set (out @ [b])) s t"
    "\<And>x. x \<notin> set out \<Longrightarrow> map_option bn_pNext_O (st_nodes t x) = map_option bn_pNext_O (st_nodes s x)"
    using sort_link_eq [OF d(2), of b] d(1) n(1) by auto
  have "nseq (st_nodes t) as = nseq (st_nodes s) as" "nseg (st_nodes t) (bn_pNext_O n) (bs @ rest) = nseg (st_nodes s) (bn_pNext_O n) (bs @ rest)"
    using d(1) by (intro nseq_frame nseg_frame t(4); auto)+
  then show ?thesis using d n t by (auto simp: merge_state_def)
qed

lemma merge_state_room:
  assumes "merge_state s l out as p bs rest q" "length bs \<le> k" "rest \<noteq> [] \<longrightarrow> k = length bs"
  shows "k = 0 \<or> q = None \<longleftrightarrow> bs = []"
  using assms nseg_hd [of "st_nodes s" q "bs @ rest"] by (cases bs; cases rest) (auto simp: merge_state_def)

text \<open>The choice of a merge, and the two moves that follow it.\<close>

lemma sort_pick_1:
  assumes ms: "merge_state s l out (a # as) p bs rest q" and n: "st_nodes s a = Some n" and k: "k = 0 \<or> q = None \<longleftrightarrow> bs = []"
    and w: "\<And>x. x \<in> set (a # as @ bs) \<Longrightarrow> val s x = Some (w x)" and le: "\<And>b. bs \<noteq> [] \<Longrightarrow> compare (w a) (w (hd bs)) \<le> (0 :: int)"
  shows "sort_pick compare False old s p (length (a # as)) q k = Ret (Some a, bn_pNext_O n, length as, q, k)"
proof (cases bs)
  case Nil
  then show ?thesis using ms n k by (auto simp: merge_state_def sort_pick_def sort_next_def)
next
  case (Cons b cs)
  obtain m where m: "st_nodes s b = Some m" "q = Some b" using ms Cons by (auto simp: merge_state_def split: option.splits)
  have "bn_Value n = w a" "bn_Value m = w b" using w [of a] w [of b] n m Cons by (simp_all add: val_def)
  then show ?thesis using ms n m k le Cons by (simp add: merge_state_def sort_pick_def sort_next_def)
qed

lemma sort_pick_2:
  assumes ms: "merge_state s l out as p (b # bs) rest q" and n: "st_nodes s b = Some n" and k: "0 < k"
    and w: "\<And>x. x \<in> set (as @ b # bs) \<Longrightarrow> val s x = Some (w x)" and le: "as \<noteq> [] \<Longrightarrow> \<not> compare (w (hd as)) (w b) \<le> (0 :: int)"
  shows "sort_pick compare False old s p (length as) q k = Ret (Some b, p, length as, bn_pNext_O n, k - 1)"
proof (cases as)
  case Nil
  then show ?thesis using ms n k by (auto simp: merge_state_def sort_pick_def sort_next_def)
next
  case (Cons a cs)
  obtain m where m: "st_nodes s a = Some m" "p = Some a" "q = Some b" using ms Cons by (auto simp: merge_state_def split: option.splits)
  have "bn_Value m = w a" "bn_Value n = w b" using w [of a] w [of b] n m Cons by (simp_all add: val_def)
  then show ?thesis using ms n m k le Cons by (simp add: merge_state_def sort_pick_def sort_next_def)
qed

lemma sort_merge_eq:
  fixes compare :: "'e \<Rightarrow> 'e \<Rightarrow> int" and w :: "nat \<Rightarrow> 'e"
  defines "le \<equiv> \<lambda>a b. compare (w a) (w b) \<le> 0"
  assumes "merge_state s l out as p bs rest q" "length as + length bs \<le> n" "length bs \<le> k" "rest \<noteq> [] \<longrightarrow> k = length bs"
    "\<And>a. a \<in> set (as @ bs) \<Longrightarrow> val s a = Some (w a)" "set (out @ as @ bs) \<subseteq> A"
  shows "\<exists>t q'. sort_merge n compare False True old s l p (length as) q k = Ret (t, q') \<and> relinked l A s t \<and>
    merge_state t l (out @ merge_by le as bs) [] None [] rest q'"
  using assms(2-)
proof (induction n arbitrary: s out as p bs q k)
  case 0
  then show ?case using merge_state_room [OF 0(1,3,4)] by (auto simp: merge_state_def)
next
  case (Suc n)
  note room = merge_state_room [OF Suc.prems(1,3,4)]
  consider "as = []" "bs = []" | a cs where "as = a # cs" "bs \<noteq> [] \<longrightarrow> le a (hd bs)" | b ds where "bs = b # ds" "as \<noteq> [] \<longrightarrow> \<not> le (hd as) b"
    by (cases as; cases bs) auto
  then show ?case
  proof cases
    case 1
    then show ?thesis using Suc.prems(1) room by (auto simp: merge_state_def)
  next
    case 2
    obtain m t where m: "st_nodes s a = Some m" "sort_link True s l (Some a) = Ret t" "relinked l (set (out @ [a])) s t"
      "merge_state t l (out @ [a]) cs (bn_pNext_O m) bs rest q" using merge_take1 Suc.prems(1) 2(1) by blast
    have r: "relinked l A s t" using relinked_mono [OF m(3)] Suc.prems(6) 2 by auto
    have pick: "sort_pick compare False old s p (length (a # cs)) q k = Ret (Some a, bn_pNext_O m, length cs, q, k)"
      using Suc.prems(1,5) 2 m(1) room by (intro sort_pick_1 [where w = w]) (auto simp: le_def)
    obtain u q' where u: "sort_merge n compare False True old t l (bn_pNext_O m) (length cs) q k = Ret (u, q')" "relinked l A t u"
      "merge_state u l ((out @ [a]) @ merge_by le cs bs) [] None [] rest q'"
      using Suc.IH [OF m(4), of k] Suc.prems 2 relinked_val [OF m(3)] by auto
    have "merge_by le as bs = a # merge_by le cs bs" using 2 by (cases bs) auto
    then show ?thesis using u m(2) pick 2(1) relinked_trans [OF r u(2)] by auto
  next
    case 3
    obtain m t where m: "st_nodes s b = Some m" "sort_link True s l (Some b) = Ret t" "relinked l (set (out @ [b])) s t"
      "merge_state t l (out @ [b]) as p ds rest (bn_pNext_O m)" "q = Some b" using merge_take2 Suc.prems(1) 3(1) by blast
    have r: "relinked l A s t" using relinked_mono [OF m(3)] Suc.prems(6) 3 by auto
    have k: "0 < k" "length ds \<le> k - 1" using Suc.prems(3) 3(1) by auto
    have pick: "sort_pick compare False old s p (length as) q k = Ret (Some b, p, length as, bn_pNext_O m, k - 1)"
      using Suc.prems(1,5) 3 m(1) k(1) by (intro sort_pick_2 [where w = w]) (auto simp: le_def)
    obtain u q' where u: "sort_merge n compare False True old t l p (length as) (bn_pNext_O m) (k - 1) = Ret (u, q')" "relinked l A t u"
      "merge_state u l ((out @ [b]) @ merge_by le as ds) [] None [] rest q'"
      using Suc.IH [OF m(4) _ k(2)] Suc.prems 3 relinked_val [OF m(3)] by auto
    have "merge_by le as bs = b # merge_by le as ds" using 3 by (cases as) auto
    then show ?thesis using u m(2,5) pick k 3(1) relinked_trans [OF r u(2)] by auto
  qed
qed

section \<open>Passes\<close>

text \<open>Between two merges: \<open>out\<close> is sorted, \<open>xs\<close> is still to be read.\<close>

lemma sort_pass_eq:
  fixes compare :: "'e \<Rightarrow> 'e \<Rightarrow> int" and w :: "nat \<Rightarrow> 'e"
  defines "le \<equiv> \<lambda>a b. compare (w a) (w b) \<le> 0"
  assumes "out_ok s l out" "distinct (out @ xs)" "nseg (st_nodes s) p xs" "length xs < n" "0 < k" "c + length xs \<le> s32_max"
    "\<And>a. a \<in> set xs \<Longrightarrow> val s a = Some (w a)" "set (out @ xs) \<subseteq> A"
  shows "\<exists>t. sort_pass n compare False True old s l p k c = Ret (t, c + pass_count k xs) \<and> relinked l A s t \<and>
    out_ok t l (out @ merge_pass le k xs)"
  using assms(2-)
proof (induction n arbitrary: s out xs p c)
  case (Suc n)
  show ?case
  proof (cases "xs = []")
    case True
    then show ?thesis using Suc.prems by (simp add: merge_pass.simps pass_count.simps)
  next
    case False
    then have p: "p \<noteq> None" using nseg_hd [OF Suc.prems(3)] by simp
    have c: "\<not> c + 1 > s32_max" using Suc.prems(6) False by (cases xs) auto
    obtain q where q: "sort_advance k False old s p 0 = Ret (q, min k (length xs))" "nseg (st_nodes s) q (drop k xs)"
      using sort_advance_eq [OF Suc.prems(3), of k old 0] False by auto
    define as bs rest where "as = take k xs" and "bs = take k (drop k xs)" and "rest = drop (2 * k) xs"
    have xs: "drop k xs = bs @ rest" "xs = as @ bs @ rest" by (simp_all add: as_def bs_def rest_def mult_2 flip: drop_drop)
    have len: "length as = min k (length xs)" "length bs \<le> k" "rest \<noteq> [] \<longrightarrow> k = length bs" "as \<noteq> []" "length rest < length xs"
      using False Suc.prems(5) by (auto simp: as_def bs_def rest_def)
    have "merge_state s l out as p bs rest q" unfolding merge_state_def
      using Suc.prems(1) Suc.prems(2) [unfolded xs(2)] q(2) [unfolded xs(1)] nseg_take [OF Suc.prems(3), of k, folded as_def]
        nseg_hd [OF Suc.prems(3), unfolded xs(2)] len(4) by auto
    then obtain t q' where t: "sort_merge (length as + k) compare False True old s l p (length as) q k = Ret (t, q')" "relinked l A s t"
      "merge_state t l (out @ merge_by le as bs) [] None [] rest q'"
      using sort_merge_eq [of s l out as p bs rest q "length as + k" k w A compare old] len(2,3) Suc.prems(7,8) xs(2) by (auto simp: le_def)
    have nx: "out_ok t l (out @ merge_by le as bs)" "distinct ((out @ merge_by le as bs) @ rest)" "nseg (st_nodes t) q' rest"
      using t(3) by (simp_all add: merge_state_def)
    obtain u where u: "sort_pass n compare False True old t l q' k (c + 1) = Ret (u, c + 1 + pass_count k rest)" "relinked l A t u"
      "out_ok u l ((out @ merge_by le as bs) @ merge_pass le k rest)"
      using Suc.IH [OF nx, of "c + 1"] Suc.prems(4-8) len(5) xs(2) relinked_val [OF t(2)] by auto
    have "merge_pass le k xs = merge_by le as bs @ merge_pass le k rest" "pass_count k xs = Suc (pass_count k rest)"
      using False Suc.prems(5) by (simp_all add: merge_pass.simps [of le k xs] pass_count.simps [of k xs] as_def bs_def rest_def)
    then show ?thesis using p c q(1) t(1) u len(1) relinked_trans [OF t(2) u(2)] by auto
  qed
qed simp

lemma sort_close_eq:
  assumes "out_ok s l out" "out \<noteq> []" "set out \<subseteq> A" "\<And>x. x \<in> set out \<Longrightarrow> map_option bn_pParent_O (st_nodes s x) = Some (Some l)"
  shows "\<exists>t. sort_close False True s l = Ret t \<and> relinked l A s t \<and> list_at t l out"
proof -
  obtain a where a: "opt_last out = Some a" "a \<in> set out" using opt_ex(2) [OF assms(2)] by blast
  let ?t = "s\<lparr>st_nodes := upd (st_nodes s) (Some a) (\<lambda>n. n\<lparr>bn_pNext_O := None\<rparr>)\<rparr>"
  have "st_nodes s a \<noteq> None" using assms(4) [OF a(2)] by auto
  then have "sort_close False True s l = Ret ?t" using assms(1) a(1) by (simp add: sort_close_def out_ok_def Let_def)
  moreover have "relinked l A s ?t"
    by (rule relinkedI [where p = "bl_mpHead_O (st_lists s l)" and q = "bl_mpQueue_O (st_lists s l)"])
      (use a(2) assms(3) in \<open>auto simp: upd_apply option.map_comp o_def\<close>)
  moreover have "list_at ?t l out" using assms(1,4) a(1) by (simp add: list_at_def out_ok_def del: map_option_eq_Some)
  ultimately show ?thesis by blast
qed


lemma length_merge_pass [simp]: "0 < k \<Longrightarrow> length (merge_pass le k xs) = length xs"
proof (induction le k xs rule: merge_pass.induct)
  case (1 le k xs)
  then show ?case by (subst merge_pass.simps) auto
qed

lemma set_merge_pass [simp]: "0 < k \<Longrightarrow> set (merge_pass le k xs) = set xs"
proof (induction le k xs rule: merge_pass.induct)
  case (1 le k xs)
  have "set xs = set (take k xs @ take k (drop k xs) @ drop (2 * k) xs)" by (simp add: mult_2 flip: drop_drop)
  then show ?case using 1 by (subst merge_pass.simps) (auto simp del: append_take_drop_id)
qed

text \<open>One turn of the outer loop.\<close>

lemma sort_turn_eq:
  fixes compare :: "'e \<Rightarrow> 'e \<Rightarrow> int" and w :: "nat \<Rightarrow> 'e"
  defines "le \<equiv> \<lambda>a b. compare (w a) (w b) \<le> 0"
  assumes at: "list_at s l xs" and xs: "xs \<noteq> []" "length xs \<le> s32_max" and nb: "unat (bl_mNbElements_U32 (st_lists s l)) = length xs"
    and k: "0 < k" "k * 2 \<le> s32_max" and w: "\<And>a. a \<in> set xs \<Longrightarrow> val s a = Some (w a)"
  shows "\<exists>t. sort_passes (Suc n) compare False True s l k =
      (if length xs \<le> 2 * k then Ret t else sort_passes n compare False True t l (k * 2)) \<and>
    relinked l (set xs) s t \<and> list_at t l (merge_pass le k xs)"
proof -
  let ?s = "set_list s l (\<lambda>this. this\<lparr>bl_mpHead_O := None, bl_mpQueue_O := None\<rparr>)"
  have seg: "nseg (st_nodes ?s) (bl_mpHead_O (st_lists s l)) xs" "distinct ([] @ xs)"
    using at chain_nseg by (auto simp: list_at_def chain_def)
  have r0: "relinked l (set xs) s ?s" by (rule relinkedI [where p = None and q = None]) (auto simp: set_list_def)
  have "out_ok ?s l []" by (simp add: out_ok_def chain_def)
  then obtain t where t: "sort_pass (Suc (unat (bl_mNbElements_U32 (st_lists ?s l)))) compare False True (bl_mpHead_O (st_lists s l)) ?s l (bl_mpHead_O (st_lists s l)) k 0
      = Ret (t, pass_count k xs)" "relinked l (set xs) ?s t" "out_ok t l (merge_pass le k xs)"
    using sort_pass_eq [of ?s l "[]" xs "bl_mpHead_O (st_lists s l)" "Suc (length xs)" k 0 w "set xs" compare "bl_mpHead_O (st_lists s l)"] seg xs k nb w relinked_val [OF r0]
    by (auto simp: le_def simp del: sort_pass.simps)
  have par: "map_option bn_pParent_O (st_nodes t a) = Some (Some l)" if "a \<in> set (merge_pass le k xs)" for a
  proof -
    have "map_option bn_pParent_O (st_nodes s a) = Some (Some l)" using that at k by (simp add: list_at_def)
    moreover have "map_option (\<lambda>n. (bn_Value n, bn_pParent_O n)) (st_nodes t a) = map_option (\<lambda>n. (bn_Value n, bn_pParent_O n)) (st_nodes s a)"
      using relinked_trans [OF r0 t(2)] by (simp add: relinked_def)
    ultimately show ?thesis by (cases "st_nodes t a") auto
  qed
  have "merge_pass le k xs \<noteq> []" using xs(1) k(1) length_merge_pass [of k le xs] by (metis length_0_conv)
  then obtain u where u: "sort_close False True t l = Ret u" "relinked l (set xs) t u" "list_at u l (merge_pass le k xs)"
    using sort_close_eq [OF t(3), of "set xs"] par k by auto
  have "relinked l (set xs) s u" using relinked_trans [OF relinked_trans [OF r0 t(2)] u(2)] .
  moreover have "sort_passes (Suc n) compare False True s l k = (if length xs \<le> 2 * k then Ret u else sort_passes n compare False True u l (k * 2))"
    using t(1) u(1) k(2) pass_count_1 [OF xs(1) k(1)] by (simp add: Let_def del: set_list_simps sort_pass.simps)
  ultimately show ?thesis using u(3) by blast
qed


lemma set_sort_by [simp]: "set (sort_by le xs) = set xs"
  by (metis mset_sort_by set_mset_mset)

lemma set_run_sort [simp]: "0 < k \<Longrightarrow> set (run_sort le k xs) = set xs"
proof (induction le k xs rule: run_sort.induct)
  case (1 le k xs)
  have "set xs = set (take k xs @ drop k xs)" by simp
  then show ?case using 1 by (subst run_sort.simps) (auto simp del: append_take_drop_id)
qed

lemma relinked_count: "relinked l A s t \<Longrightarrow> bl_mNbElements_U32 (st_lists t k) = bl_mNbElements_U32 (st_lists s k)"
  by (auto simp: relinked_def)

lemma sort_passes_eq:
  fixes compare :: "'e \<Rightarrow> 'e \<Rightarrow> int" and w :: "nat \<Rightarrow> 'e"
  defines "le \<equiv> \<lambda>a b. compare (w a) (w b) \<le> 0"
  assumes tp: "total_preorder le" and es: "es \<noteq> []" "length es \<le> 2 ^ 30"
    and "list_at s l (run_sort le (2 ^ j) es)" "unat (bl_mNbElements_U32 (st_lists s l)) = length es" "j + n = 31" "j = 0 \<or> 2 ^ j < length es"
    "\<And>a. a \<in> set es \<Longrightarrow> val s a = Some (w a)"
  shows "\<exists>t. sort_passes n compare False True s l (2 ^ j) = Ret t \<and> relinked l (set es) s t \<and> list_at t l (sort_by le es)"
  using assms(5-)
proof (induction n arbitrary: s j)
  case 0
  then have "(2 :: nat) ^ 31 < 2 ^ 30" using es(2) by auto
  then show ?case by simp
next
  case (Suc n)
  let ?xs = "run_sort le (2 ^ j) es"
  have len: "length ?xs = length es" "set ?xs = set es" by simp_all
  then have ne: "?xs \<noteq> []" using es(1) by (metis length_0_conv)
  have "j < 30" using Suc.prems(4) es(2) power_less_imp_less_exp [of "2 :: nat" j 30] by (auto intro: le_less_trans)
  then have "(2 :: nat) ^ j \<le> 2 ^ 29" by (intro power_increasing) auto
  then have k: "2 ^ j * 2 \<le> s32_max" "length ?xs \<le> s32_max" using es(2) len(1) by (simp_all add: s32_max_def)
  have pw: "2 ^ j * 2 = (2 :: nat) ^ Suc j" "2 * 2 ^ j = (2 :: nat) ^ Suc j" by simp_all
  obtain t where t: "sort_passes (Suc n) compare False True s l (2 ^ j) =
      (if length es \<le> 2 ^ Suc j then Ret t else sort_passes n compare False True t l (2 ^ Suc j))"
    "relinked l (set es) s t" "list_at t l (run_sort le (2 ^ Suc j) es)"
    using sort_turn_eq [OF Suc.prems(1) ne k(2) _ _ k(1), of w n compare, unfolded pw] Suc.prems(2,5) len
      merge_pass_run_sort [OF tp, of "2 ^ j" es, unfolded pw] by (auto simp: le_def simp del: sort_passes.simps power_Suc)
  show ?case
  proof (cases "length es \<le> 2 ^ Suc j")
    case True
    then show ?thesis using t run_sort_all [OF es(1), of "2 ^ Suc j" le] by simp
  next
    case False
    have "\<exists>u. sort_passes n compare False True t l (2 ^ Suc j) = Ret u \<and> relinked l (set es) t u \<and> list_at u l (sort_by le es)"
      using False Suc.prems relinked_val [OF t(2)] relinked_count [OF t(2)] by (intro Suc.IH t(3)) auto
    then show ?thesis using t(1,2) False relinked_trans by (auto simp del: sort_passes.simps)
  qed
qed

lemma map_insert_by: "map f (insert_by (\<lambda>a b. le (f a) (f b)) x xs) = insert_by le (f x) (map f xs)"
  by (induction xs) auto

lemma map_sort_by: "map f (sort_by (\<lambda>a b. le (f a) (f b)) xs) = sort_by le (map f xs)"
  by (induction xs) (simp_all add: sort_by_def map_insert_by)

lemma ListSort_eq:
  assumes at: "list_at s l es" "length es \<le> sort_limit (\<lambda>x y. list_compare memcmp_E pMethod x y \<le> 0)"
    "unat (bl_mNbElements_U32 (st_lists s l)) = length es"
  shows "\<exists>t xs. BofList_ListSort memcmp_E pMethod False True s l = Ret t \<and> relinked l (set es) s t \<and> list_at t l xs \<and> set xs = set es \<and>
    length xs = length es \<and> map (\<lambda>a. the (val t a)) xs = sort_by (\<lambda>x y. list_compare memcmp_E pMethod x y \<le> 0) (map (\<lambda>a. the (val s a)) es)"
proof (cases "es = []")
  case True
  then have "BofList_ListSort memcmp_E pMethod False True s l = Ret s" using list_atD(1) [OF at(1)] by (simp add: BofList_ListSort_def)
  then show ?thesis using True at(1) by (intro exI [of _ s] exI [of _ "[]"]) simp
next
  case False
  then have tp: "total_preorder (\<lambda>x y. list_compare memcmp_E pMethod x y \<le> 0)" "length es \<le> 2 ^ 30"
    using at(2) by (simp_all add: sort_limit_def split: if_splits)
  let ?w = "\<lambda>a. the (val s a)"
  let ?le = "\<lambda>a b. list_compare memcmp_E pMethod (?w a) (?w b) \<le> 0"
  have "total_preorder ?le" using tp(1) by (auto simp: total_preorder_def)
  moreover have "val s a = Some (?w a)" if "a \<in> set es" for a using list_atD(4) [OF at(1) that] by (auto simp: val_def)
  ultimately obtain t where t: "sort_passes 31 (list_compare memcmp_E pMethod) False True s l 1 = Ret t" "relinked l (set es) s t" "list_at t l (sort_by ?le es)"
    using sort_passes_eq [of "list_compare memcmp_E pMethod" ?w es s l 0 31] False at(1,3) tp(2) run_sort_1 [of ?le es] by auto
  have "bl_mpHead_O (st_lists s l) \<noteq> None" using list_atD(1) [OF at(1)] False by simp
  then have "BofList_ListSort memcmp_E pMethod False True s l = Ret t" using t(1) unfolding BofList_ListSort_def by auto
  moreover have "map (\<lambda>a. the (val t a)) (sort_by ?le es) = sort_by (\<lambda>x y. list_compare memcmp_E pMethod x y \<le> 0) (map ?w es)"
    using map_sort_by [of ?w "\<lambda>x y. list_compare memcmp_E pMethod x y \<le> 0" es] by (simp add: relinked_val [OF t(2)])
  ultimately show ?thesis using t(2,3) by (intro exI [of _ t] exI [of _ "sort_by ?le es"]) simp
qed


section \<open>Sort\<close>

lemma relinked_set_mtx: "relinked l A (set_mtx s l m) t \<Longrightarrow> relinked l A s (set_mtx t l (bl_mListMtx_X (st_lists s l)))"
proof -
  assume r: "relinked l A (set_mtx s l m) t"
  then obtain p q where pq: "st_lists t = (st_lists (set_mtx s l m))(l := (st_lists (set_mtx s l m) l)\<lparr>bl_mpHead_O := p, bl_mpQueue_O := q\<rparr>)"
    by (auto simp: relinked_def)
  have "st_lists (set_mtx t l (bl_mListMtx_X (st_lists s l))) = (st_lists s)(l := (st_lists s l)\<lparr>bl_mpHead_O := p, bl_mpQueue_O := q\<rparr>)"
    using pq by (auto simp: set_mtx_def set_list_def fun_eq_iff)
  with r show ?thesis by (intro relinkedI [where p = p and q = q]) (auto simp: relinked_def)
qed

lemma list_guard_relinked:
  assumes rdy: "list_ready s l" and P: "\<And>t m. P t \<Longrightarrow> P (set_mtx t l m)"
    and body: "\<And>m. list_ready (set_mtx s l m) l \<Longrightarrow> \<exists>t. body (set_mtx s l m) = Ret (t, r) \<and> relinked l A (set_mtx s l m) t \<and> P t"
  shows "\<exists>t. list_guard s l body = Ret (t, r) \<and> relinked l A s t \<and> P t"
proof (cases "bl_mMultiThreadAware_B (st_lists s l)")
  case True
  let ?m = "bl_mListMtx_X (st_lists s l)"
  obtain m' where m': "Bof_LockMutex ?m = Ret (m', BOF_ERR_NO_ERROR)" "recursive_mutex_ok m'" "Bof_UnlockMutex m' = Ret (?m, BOF_ERR_NO_ERROR)"
    using recursive_mutex_cycle rdy True by (auto simp: list_ready_def)
  obtain t where t: "body (set_mtx s l m') = Ret (t, r)" "relinked l A (set_mtx s l m') t" "P t" using body [of m'] m'(2) by auto
  have "bl_mListMtx_X (st_lists t l) = m'" "bl_mMultiThreadAware_B (st_lists t l)" using t(2) True by (auto simp: relinked_def)
  then have "list_guard s l body = Ret (set_mtx t l ?m, r)"
    using True m' t(1) by (simp add: list_guard_def BofList_LockList_def BofList_UnlockList_def set_mtx_def [symmetric])
  then show ?thesis using relinked_set_mtx [OF t(2)] P [OF t(3)] by blast
next
  case False
  obtain t where t: "body s = Ret (t, r)" "relinked l A s t" "P t" using body [of "bl_mListMtx_X (st_lists s l)"] rdy by auto
  moreover have "\<not> bl_mMultiThreadAware_B (st_lists t l)" using t(2) False by (auto simp: relinked_def)
  ultimately show ?thesis using False by (simp add: list_guard_def BofList_LockList_def BofList_UnlockList_def)
qed

lemma val_set_mtx [simp]: "val (set_mtx s l m) a = val s a"
  by (simp add: val_def)

lemma Sort_eq:
  assumes li: "list_in R N s l es fs" "length es \<le> sort_limit (\<lambda>x y. list_compare memcmp_E pMethod x y \<le> 0)"
  shows "\<exists>t. BofList_Sort memcmp_E s l pMethod = Ret (t, True) \<and> relinked l (set es) s t \<and>
    (\<exists>xs. list_at t l xs \<and> set xs = set es \<and> length xs = length es \<and>
      map (\<lambda>a. the (val t a)) xs = sort_by (\<lambda>x y. list_compare memcmp_E pMethod x y \<le> 0) (map (\<lambda>a. the (val s a)) es))"
  unfolding BofList_Sort_def
proof (rule list_guard_relinked [OF list_inD(4) [OF li(1)]], goal_cases)
  case (2 m)
  obtain t xs where t: "BofList_ListSort memcmp_E pMethod False True (set_mtx s l m) l = Ret t" "relinked l (set es) (set_mtx s l m) t" "list_at t l xs"
    "set xs = set es" "length xs = length es"
    "map (\<lambda>a. the (val t a)) xs = sort_by (\<lambda>x y. list_compare memcmp_E pMethod x y \<le> 0) (map (\<lambda>a. the (val s a)) es)"
    using ListSort_eq [of "set_mtx s l m" l es memcmp_E pMethod] li by (auto simp: list_in_def)
  then show ?case by auto
qed simp

text \<open>The sort keeps the invariant; only the order of the nodes of the list changes.\<close>

lemma sort_keeps:
  assumes ok: "lists_ok E F R s" and l: "l < st_nbLists s" and len: "length (E l) \<le> sort_limit (\<lambda>x y. list_compare memcmp_E pMethod x y \<le> 0)"
  shows "\<exists>t xs. BofList_Sort memcmp_E s l pMethod = Ret (t, True) \<and> lists_ok (E(l := xs)) F R t \<and>
    local_change l (R l) (set (E l) \<union> set (F (R l))) s t \<and>
    map (\<lambda>a. the (val t a)) xs = sort_by (\<lambda>x y. list_compare memcmp_E pMethod x y \<le> 0) (map (\<lambda>a. the (val s a)) (E l))"
proof -
  note li = lists_ok_list_in [OF ok l]
  obtain t xs where t: "BofList_Sort memcmp_E s l pMethod = Ret (t, True)" "relinked l (set (E l)) s t" "list_at t l xs" "set xs = set (E l)"
    "length xs = length (E l)" "map (\<lambda>a. the (val t a)) xs = sort_by (\<lambda>x y. list_compare memcmp_E pMethod x y \<le> 0) (map (\<lambda>a. the (val s a)) (E l))"
    using Sort_eq [OF li len] by blast
  obtain p q where pq: "st_lists t = (st_lists s)(l := (st_lists s l)\<lparr>bl_mpHead_O := p, bl_mpQueue_O := q\<rparr>)" using t(2) by (auto simp: relinked_def)
  have ch: "local_change l (R l) (set (E l) \<union> set (F (R l))) s t"
    using t(2) relinked_node [OF t(2)] unfolding local_change_def pq by (simp add: relinked_def)
  have "pools_ok R (st_nbLists s) t" using list_inD(5) [OF li] unfolding pools_ok_def list_ready_def pq by simp
  moreover have "free_at t (R l) (F (R l))"
    using list_inD(7) [OF li] lists_ok_disjoint(2) [OF ok l lists_okD(4,5) [OF ok l]] t(2)
    by (subst free_at_frame [of _ _ s]) (auto simp: pq relinked_def disjoint_iff)
  ultimately have "lists_ok (E(l := xs)) (F(R l := F (R l))) R t"
    using lists_okD(2) [OF ok l] t(3,5) by (intro lists_ok_step [OF ok l ch]) (simp_all add: pq)
  then show ?thesis using t(1,6) ch by auto
qed


end
