(* ===== verification/Bof_List_Props.thy ===== *)
theory Bof_List_Props
  imports Bof_List_Sort
begin

text \<open>
  The lists of a store seen as a family of sequences that share pools of nodes: every
  run of their methods returns and answers as the family does.
\<close>

section \<open>The family of a store\<close>

text \<open>The end of the chain of pools, and the items of a list read along its links.\<close>

fun list_root_depth :: "nat \<Rightarrow> 'e list_store \<Rightarrow> nat \<Rightarrow> nat" where
  "list_root_depth 0 s l = l"
| "list_root_depth (Suc n) s l = (case bl_mpNodePoolMgr_O (st_lists s l) of None \<Rightarrow> l | Some p \<Rightarrow> list_root_depth n s p)"

fun list_walk :: "nat \<Rightarrow> 'e list_store \<Rightarrow> nat option \<Rightarrow> 'e list" where
  "list_walk 0 s p = []"
| "list_walk (Suc n) s p =
     (case p of None \<Rightarrow> [] | Some a \<Rightarrow>
        (case st_nodes s a of None \<Rightarrow> [] | Some node \<Rightarrow> bn_Value node # list_walk n s (bn_pNext_O node)))"

definition list_items :: "'e list_store \<Rightarrow> nat \<Rightarrow> 'e list" where
  "list_items s l = list_walk (unat (bl_mNbElements_U32 (st_lists s l))) s (bl_mpHead_O (st_lists s l))"

definition store_family :: "'e list_store \<Rightarrow> 'e family_list list" where
  "store_family s = map (\<lambda>l. \<lparr>fl_cap = unat (bl_mNbMaxElements_U32 (st_lists s l)), fl_pool = list_root_depth (Suc l) s l,
     fl_items = list_items s l\<rparr>) [0..<st_nbLists s]"

definition list_store_empty :: "'e list_store" where
  "list_store_empty = \<lparr>st_nodes = (\<lambda>a. None), st_lists = (\<lambda>l. undefined), st_nbNodes = 0, st_nbLists = 0\<rparr>"

text \<open>The operations of the family as calls of the methods.\<close>

fun list_step ::
  "bool \<Rightarrow> 'e \<Rightarrow> ('e \<Rightarrow> 'e \<Rightarrow> int) \<Rightarrow> ('e \<Rightarrow> 'e \<Rightarrow> int) option \<Rightarrow> 'e family_op \<Rightarrow> 'e list_store \<Rightarrow> ('e list_store \<times> 'e family_reply) outcome" where
  "list_step dbg zero memcmp_E pMethod (FamNew cap mt pi pool) s =
     bindO (BofList_ctor dbg zero s cap mt pi pool) (\<lambda>(s, l). Ret (s, FamCreated l))"
| "list_step dbg zero memcmp_E pMethod (FamAddFirst l x) s =
     bindO (BofList_AddFirst_elem dbg zero s l (Some x)) (\<lambda>(s, b). Ret (s, FamDone b))"
| "list_step dbg zero memcmp_E pMethod (FamAddLast l x) s =
     bindO (BofList_AddLast_elem dbg zero s l (Some x)) (\<lambda>(s, b). Ret (s, FamDone b))"
| "list_step dbg zero memcmp_E pMethod (FamRemoveFirst l) s =
     bindO (BofList_RemoveFirst dbg s l) (\<lambda>(s, b, r). Ret (s, FamTaken (if b then r else None)))"
| "list_step dbg zero memcmp_E pMethod (FamRemoveLast l) s =
     bindO (BofList_RemoveLast dbg s l) (\<lambda>(s, b, r). Ret (s, FamTaken (if b then r else None)))"
| "list_step dbg zero memcmp_E pMethod (FamRemove l x) s =
     bindO (BofList_Remove_elem dbg memcmp_E s l (Some x) pMethod) (\<lambda>(s, b). Ret (s, FamDone b))"
| "list_step dbg zero memcmp_E pMethod (FamContains l x) s =
     bindO (BofList_Contains dbg memcmp_E s l (Some x) pMethod) (\<lambda>(s, b). Ret (s, FamDone b))"
| "list_step dbg zero memcmp_E pMethod (FamClear l) s = bindO (BofList_Clear dbg s l) (\<lambda>(s, b). Ret (s, FamDone b))"
| "list_step dbg zero memcmp_E pMethod (FamSort l) s = bindO (BofList_Sort memcmp_E s l pMethod) (\<lambda>(s, b). Ret (s, FamDone b))"

lemma list_root_depth_eq: "pools_ok R N s \<Longrightarrow> l < N \<Longrightarrow> l < n \<Longrightarrow> list_root_depth n s l = R l"
proof (induction n arbitrary: l)
  case (Suc n)
  then show ?case using pools_okD(2,3) [OF Suc.prems(1,2)] by (auto split: option.split)
qed simp

lemma list_walk_eq: "dlseg (st_nodes s) p q xs e None \<Longrightarrow> list_walk (length xs) s p = map (\<lambda>a. the (val s a)) xs"
  by (induction xs arbitrary: p q) (auto simp: val_def split: option.splits)

definition list_entry :: "(nat \<Rightarrow> nat list) \<Rightarrow> (nat \<Rightarrow> nat) \<Rightarrow> 'e list_store \<Rightarrow> nat \<Rightarrow> 'e family_list" where
  "list_entry E R s l = \<lparr>fl_cap = unat (bl_mNbMaxElements_U32 (st_lists s l)), fl_pool = R l, fl_items = map (\<lambda>a. the (val s a)) (E l)\<rparr>"

lemma store_family_eq:
  assumes "lists_ok E F R s"
  shows "store_family s = map (list_entry E R s) [0..<st_nbLists s]"
proof -
  have "list_root_depth (Suc l) s l = R l \<and> list_items s l = map (\<lambda>a. the (val s a)) (E l)" if "l < st_nbLists s" for l
  proof
    show "list_root_depth (Suc l) s l = R l" using lists_okD(3) [OF assms that] that by (intro list_root_depth_eq) auto
    show "list_items s l = map (\<lambda>a. the (val s a)) (E l)"
      using lists_okD(1,2) [OF assms that] by (auto simp: list_items_def list_at_def chain_def list_walk_eq)
  qed
  then show ?thesis by (auto simp: store_family_def list_entry_def)
qed

lemma length_store_family [simp]: "length (store_family s) = st_nbLists s"
  by (simp add: store_family_def)

lemma store_family_nth:
  "lists_ok E F R s \<Longrightarrow> l < st_nbLists s \<Longrightarrow> store_family s ! l = list_entry E R s l"
  by (simp add: store_family_eq)

lemma store_family_set:
  assumes ok: "lists_ok E F R s" and l: "l < st_nbLists s" and ok': "lists_ok (E(l := es)) F' R t"
    and ch: "local_change l (R l) (set (E l) \<union> set (F (R l))) s t"
  shows "store_family t = family_set (store_family s) l (map (\<lambda>a. the (val t a)) es)"
proof (rule nth_equalityI)
  have N: "st_nbLists t = st_nbLists s" using ch by (simp add: local_change_def)
  then show "length (store_family t) = length (family_set (store_family s) l (map (\<lambda>a. the (val t a)) es))" by (simp add: family_set_def)
  fix k assume "k < length (store_family t)"
  then have k: "k < st_nbLists s" "k < st_nbLists t" using N by simp_all
  show "store_family t ! k = family_set (store_family s) l (map (\<lambda>a. the (val t a)) es) ! k"
  proof (cases "k = l")
    case True
    then show ?thesis using store_family_nth [OF ok l] store_family_nth [OF ok' k(2)] k l ch
      by (simp add: family_set_def list_entry_def local_change_def)
  next
    case False
    have "set (E k) \<inter> (set (E l) \<union> set (F (R l))) = {}"
      using lists_ok_disjoint(1) [OF ok k(1) l False] lists_ok_disjoint(2) [OF ok k(1) lists_okD(4,5) [OF ok l]] by blast
    then have "map (\<lambda>a. the (val t a)) (E k) = map (\<lambda>a. the (val s a)) (E k)" using local_change_val [OF ch] by (intro map_cong) (auto simp: disjoint_iff)
    then show ?thesis using False store_family_nth [OF ok k(1)] store_family_nth [OF ok' k(2)] ch
      by (simp add: family_set_def list_entry_def local_change_def)
  qed
qed

text \<open>A pool has room exactly when its free chain is not empty.\<close>

lemma family_room_iff:
  assumes ok: "lists_ok E F R s" and l: "l < st_nbLists s"
  shows "family_room (store_family s) l \<longleftrightarrow> F (R l) \<noteq> []"
proof -
  have "family_used (store_family s) r = (\<Sum>k | k < st_nbLists s \<and> R k = r. length (E k))" for r
  proof -
    have "family_used (store_family s) r = sum_list (map (\<lambda>k. length (E k)) (filter (\<lambda>k. R k = r) [0..<st_nbLists s]))"
      by (simp add: family_used_def store_family_eq [OF ok] filter_map o_def list_entry_def)
    also have "\<dots> = sum (\<lambda>k. length (E k)) (set (filter (\<lambda>k. R k = r) [0..<st_nbLists s]))"
      by (rule sum_list_distinct_conv_sum_set) simp
    also have "set (filter (\<lambda>k. R k = r) [0..<st_nbLists s]) = {k. k < st_nbLists s \<and> R k = r}" by auto
    finally show ?thesis .
  qed
  moreover have "fl_pool (store_family s ! l) = R l" "fl_cap (store_family s ! R l) = unat (bl_mNbMaxElements_U32 (st_lists s (R l)))"
    using store_family_nth [OF ok] l lists_okD(4) [OF ok l] by (simp_all add: list_entry_def)
  ultimately show ?thesis using lists_okD(7) [OF ok l] by (cases "F (R l)") (auto simp: family_room_def)
qed

section \<open>Search and clear\<close>

definition first_match :: "('e \<Rightarrow> bool) \<Rightarrow> 'e list_store \<Rightarrow> nat list \<Rightarrow> nat list" where
  "first_match match s xs = dropWhile (\<lambda>a. \<not> match (the (val s a))) xs"

lemma list_find_loop_eq:
  assumes "dlseg (st_nodes s) p q xs e None" "\<And>x. x \<in> set xs \<Longrightarrow> map_option bn_pParent_O (st_nodes s x) = Some (Some l)" "length xs \<le> n"
  shows "list_find_loop n dbg match s l p = Ret (opt_hd (first_match match s xs))"
  using assms
proof (induction xs arbitrary: p q n)
  case Nil
  then show ?case by (cases n) (simp_all add: first_match_def)
next
  case (Cons x xs)
  obtain m where n: "n = Suc m" using Cons.prems(3) by (cases n) auto
  obtain node where node: "p = Some x" "st_nodes s x = Some node" "dlseg (st_nodes s) (bn_pNext_O node) (Some x) xs e None"
    using Cons.prems(1) by (auto split: option.splits)
  have par: "map_option bn_pParent_O (st_nodes s y) = Some (Some l)" if "y \<in> set (x # xs)" for y using Cons.prems(2) that by blast
  have IH: "list_find_loop m dbg match s l (bn_pNext_O node) = Ret (opt_hd (first_match match s xs))"
    using Cons.IH [OF node(3), of m] Cons.prems(2,3) n by simp
  have "bn_pNext_O node = opt_hd xs" using dlseg_ends [OF node(3)] node(3) by (cases xs) auto
  then have "chk_parent dbg s (bn_pNext_O node) l k = k" if "xs \<noteq> []" for k :: "nat option outcome"
    using opt_ex(1) [OF that] par by (metis chk_parent_ok list.set_intros(2))
  then show ?case using n node IH par [of x] by (cases "xs = []") (auto simp: first_match_def val_def \<open>bn_pNext_O node = opt_hd xs\<close>)
qed

lemma Find_eq:
  assumes "list_in R N s l es fs"
  shows "BofList_Find dbg memcmp_E s l (Some e) pMethod = Ret (s, opt_hd (first_match (\<lambda>v. list_compare memcmp_E pMethod v e = 0) s es))"
proof (simp add: BofList_Find_def del: list_find_loop.simps, rule list_in_guard [OF assms, where f = "\<lambda>s. s"], goal_cases)
  case (2 t)
  have "list_find_loop (Suc (unat (bl_mNbElements_U32 (st_lists t l)))) dbg (\<lambda>v. list_compare memcmp_E pMethod v e = 0) t l (bl_mpHead_O (st_lists t l)) =
    Ret (opt_hd (first_match (\<lambda>v. list_compare memcmp_E pMethod v e = 0) t es))"
    using 2(1) by (intro list_find_loop_eq [where q = None and e = "bl_mpQueue_O (st_lists t l)"]) (auto simp: list_in_def list_at_def chain_def)
  moreover have "first_match P t es = first_match P s es" for P using 2(2) by (simp add: first_match_def val_def)
  ultimately show ?case by (simp del: list_find_loop.simps)
qed simp

fun clear_effect :: "nat \<Rightarrow> nat \<Rightarrow> nat list \<Rightarrow> nat list \<Rightarrow> 'e list_store \<Rightarrow> 'e list_store" where
  "clear_effect r l [] fs s = s"
| "clear_effect r l (x # xs) fs s = clear_effect r l xs (fs @ [x]) (rem_effect r l x [] xs fs s)"

lemma mtx_free_clear: "mtx_free (clear_effect r l es fs)"
proof (induction es arbitrary: fs)
  case (Cons x xs)
  have "clear_effect r l (x # xs) fs = (\<lambda>s. clear_effect r l xs (fs @ [x]) (rem_effect r l x [] xs fs s))" by (simp add: fun_eq_iff)
  then show ?case using mtx_free_comp [OF Cons mtx_free_rem] by simp
qed (simp add: mtx_free_def)

lemma list_clear_loop_eq:
  assumes "list_in R N s l es fs"
  shows "list_clear_loop (length es) dbg s l = Ret (clear_effect (R l) l es fs s) \<and> list_in R N (clear_effect (R l) l es fs s) l [] (fs @ es)"
  using assms
proof (induction es arbitrary: s fs)
  case Nil
  then show ?case by (simp add: list_inD)
next
  case (Cons x xs)
  obtain n where "st_nodes s x = Some n" using list_atD(4) [OF list_inD(3) [OF Cons.prems], of x] by auto
  then show ?case using Cons.IH [OF list_in_rem [of R N s l "[]" x xs fs, simplified, OF Cons.prems]]
      RemoveFirst_eq [OF Cons.prems] list_inD(1) [OF Cons.prems] by simp
qed

lemma Clear_eq:
  assumes "list_in R N s l es fs"
  shows "BofList_Clear dbg s l = Ret (clear_effect (R l) l es fs s, True)"
  unfolding BofList_Clear_def
proof (rule list_in_guard [OF assms mtx_free_clear])
  fix t :: "'a list_store" assume t: "list_in R N t l es fs"
  note c = list_clear_loop_eq [OF t, of dbg, THEN conjunct1] list_clear_loop_eq [OF t, THEN conjunct2]
  have "unat (bl_mNbElements_U32 (st_lists t l)) = length es" using t by (simp add: list_in_def)
  then show "bindO (list_clear_loop (unat (bl_mNbElements_U32 (st_lists t l))) dbg t l)
      (\<lambda>s. CHK dbg (bl_mNbElements_U32 (st_lists s l) = 0)
            (CHK dbg (bl_mpHead_O (st_lists s l) = None) (CHK dbg (bl_mpQueue_O (st_lists s l) = None) (Ret (s, True))))) =
     Ret (clear_effect (R l) l es fs t, True)"
    using c(1) list_in_empty [OF c(2)] list_inD(1,2) [OF c(2)] by simp
qed

lemma clear_keeps:
  assumes "lists_ok E F R s" "l < st_nbLists s" "E l = es"
  shows "lists_ok (E(l := [])) (F(R l := F (R l) @ es)) R (clear_effect (R l) l es (F (R l)) s) \<and>
    local_change l (R l) (set es \<union> set (F (R l))) s (clear_effect (R l) l es (F (R l)) s)"
  using assms
proof (induction es arbitrary: E F s)
  case Nil
  then show ?case by (simp add: fun_upd_idem local_change_def)
next
  case (Cons x xs)
  let ?t = "rem_effect (R l) l x [] xs (F (R l)) s"
  have k: "lists_ok (E(l := xs)) (F(R l := F (R l) @ [x])) R ?t" "local_change l (R l) (set (E l) \<union> set (F (R l))) s ?t"
    using rem_keeps [OF Cons.prems(1,2), of "[]" x xs] Cons.prems(3) by simp_all
  have "l < st_nbLists ?t" using k(2) Cons.prems(2) by (simp add: local_change_def)
  note IH = Cons.IH [OF k(1) this, unfolded fun_upd_upd fun_upd_same append_assoc, OF refl]
  have "set xs \<union> set (F (R l) @ [x]) = set (E l) \<union> set (F (R l))" using Cons.prems(3) by auto
  then have "local_change l (R l) (set (E l) \<union> set (F (R l))) s (clear_effect (R l) l xs (F (R l) @ [x]) ?t)"
    using local_change_trans [OF k(2)] IH by metis
  then show ?case using IH Cons.prems(3) by simp
qed

section \<open>The other methods\<close>

text \<open>An element is inserted beside a node of the list.\<close>

lemma AddBefore_elem_eq:
  assumes "list_in R N s l (xs @ e # ys) (x # fs)"
  shows "BofList_AddBefore_elem dbg zero s l (Some e) (Some v) = Ret (ins_effect l x xs (e # ys) (take_effect v (R l) x fs s), True)"
proof (simp add: BofList_AddBefore_elem_def, rule list_in_guard [OF assms], goal_cases)
  case (2 t)
  note tk = list_in_take [OF 2(1)]
  have "BofList_AddBefore dbg (take_effect v (R l) x fs t) l (Some e) (Some x) = Ret (ins_effect l x xs (e # ys) (take_effect v (R l) x fs t), True)"
    by (rule AddBefore_eq [OF list_inD(3) [OF tk(1)] detached_loose [OF tk(2)] list_inD(4) [OF tk(1)]])
  then show ?case using list_inD(5-7) [OF 2(1)] by (simp add: GetFreeNode_eq)
qed (simp add: mtx_free_comp)

lemma AddAfter_elem_eq:
  assumes "list_in R N s l (xs @ e # ys) (x # fs)"
  shows "BofList_AddAfter_elem dbg zero s l (Some e) (Some v) = Ret (ins_effect l x (xs @ [e]) ys (take_effect v (R l) x fs s), True)"
proof (simp add: BofList_AddAfter_elem_def, rule list_in_guard [OF assms], goal_cases)
  case (2 t)
  note tk = list_in_take [OF 2(1)]
  have "BofList_AddAfter dbg (take_effect v (R l) x fs t) l (Some e) (Some x) = Ret (ins_effect l x (xs @ [e]) ys (take_effect v (R l) x fs t), True)"
    by (rule AddAfter_eq [OF list_inD(3) [OF tk(1)] detached_loose [OF tk(2)] list_inD(4) [OF tk(1)]])
  then show ?case using list_inD(5-7) [OF 2(1)] by (simp add: GetFreeNode_eq)
qed (simp add: mtx_free_comp)

text \<open>The last match is found from the other end.\<close>

lemma list_find_last_loop_eq:
  assumes "dlseg (st_nodes s) p None xs q None" "length xs \<le> n"
  shows "list_find_last_loop n match s q = Ret (opt_hd (dropWhile (\<lambda>a. \<not> match (the (val s a))) (rev xs)))"
proof -
  have "dlseg (st_nodes s) p None xs q e \<Longrightarrow> length xs \<le> n \<Longrightarrow> ?thesis" for e
  proof (induction xs arbitrary: q e n rule: rev_induct)
    case Nil
    then show ?case by (cases n) simp_all
  next
    case (snoc x xs)
    obtain m where n: "n = Suc m" "length xs \<le> m" using snoc.prems(2) by (cases n) auto
    obtain m' k node where d: "dlseg (st_nodes s) p None xs m' k" "q = Some x" "st_nodes s x = Some node" "bn_pPrev_O node = m'"
      using snoc.prems(1) by (auto simp: dlseg_append split: option.splits)
    show ?case using snoc.IH [OF d(1) n(2)] d n(1) by (simp add: val_def)
  qed
  then show ?thesis using assms by blast
qed

lemma FindLast_eq:
  assumes "list_in R N s l es fs"
  shows "BofList_FindLast dbg memcmp_E s l (Some e) pMethod = Ret (s, opt_hd (first_match (\<lambda>v. list_compare memcmp_E pMethod v e = 0) s (rev es)))"
proof (simp add: BofList_FindLast_def del: list_find_last_loop.simps, rule list_in_guard [OF assms, where f = "\<lambda>s. s"], goal_cases)
  case (2 t)
  have "list_find_last_loop (Suc (unat (bl_mNbElements_U32 (st_lists t l)))) (\<lambda>v. list_compare memcmp_E pMethod v e = 0) t (bl_mpQueue_O (st_lists t l)) =
    Ret (opt_hd (first_match (\<lambda>v. list_compare memcmp_E pMethod v e = 0) t (rev es)))"
    unfolding first_match_def using 2(1)
    by (intro list_find_last_loop_eq [where p = "bl_mpHead_O (st_lists t l)"]) (auto simp: list_in_def list_at_def chain_def)
  moreover have "first_match P t xs = first_match P s xs" for P xs using 2(2) by (simp add: first_match_def val_def)
  ultimately show ?case by (simp del: list_find_last_loop.simps)
qed simp

text \<open>The links of a list that satisfies the invariant agree with its count.\<close>

lemma list_count_loop_eq:
  "dlseg (st_nodes s) p q xs e None \<Longrightarrow> length xs \<le> n \<Longrightarrow> list_count_loop n s p c = Ret (c + of_nat (length xs))"
proof (induction xs arbitrary: p q n c)
  case Nil
  then show ?case by (cases n) simp_all
next
  case (Cons x xs)
  then show ?case by (cases n) (auto split: option.splits)
qed

lemma CheckConsistency_ok:
  assumes ok: "lists_ok E F R s" and l: "l < st_nbLists s"
  shows "BofList_CheckConsistency s l = Ret (s, True)"
  unfolding BofList_CheckConsistency_def
proof (rule list_guard_ready [where f = "\<lambda>s. s", OF list_inD(4) [OF lists_ok_list_in [OF ok l]]])
  fix m
  have "set (E l) \<subseteq> {..<st_nbNodes s}" using ok list_atD(4) [OF lists_okD(1) [OF ok l]] unfolding lists_ok_def by (metis lessThan_iff not_le option.distinct(1) subsetI)
  then have len: "length (E l) \<le> st_nbNodes s"
    using distinct_card [OF list_atD(3) [OF lists_okD(1) [OF ok l]]] card_mono [of "{..<st_nbNodes s}" "set (E l)"] by simp
  have c: "bl_mNbElements_U32 (st_lists s l) = of_nat (length (E l))" using lists_okD(2) [OF ok l] by (metis of_nat_unat ucast_id)
  have "list_count_loop (st_nbNodes s) (set_mtx s l m) (bl_mpHead_O (st_lists s l)) 0 = Ret (0 + of_nat (length (E l)))"
    using lists_okD(1) [OF ok l] len by (intro list_count_loop_eq [where q = None and e = "bl_mpQueue_O (st_lists s l)"]) (auto simp: list_at_def chain_def)
  then show "bindO (list_count_loop (st_nbNodes (set_mtx s l m)) (set_mtx s l m) (bl_mpHead_O (st_lists (set_mtx s l m) l)) 0)
      (\<lambda>NbElements_U32. Ret (set_mtx s l m, NbElements_U32 = bl_mNbElements_U32 (st_lists (set_mtx s l m) l))) = Ret (set_mtx s l m, True)"
    by (simp add: c)
qed simp

section \<open>The steps\<close>

definition store_inv :: "'e list_store \<Rightarrow> bool" where
  "store_inv s \<longleftrightarrow> (\<exists>E F R. lists_ok E F R s)"

lemma store_family_items: "lists_ok E F R s \<Longrightarrow> l < st_nbLists s \<Longrightarrow> fl_items (store_family s ! l) = map (\<lambda>a. the (val s a)) (E l)"
  by (simp add: store_family_nth list_entry_def)

lemma step_add:
  assumes ok: "lists_ok E F R s" and l: "l < st_nbLists s" and E: "E l = xs @ ys"
    and add: "\<And>x fs. list_in R (st_nbLists s) s l (xs @ ys) (x # fs) \<Longrightarrow> add s = Ret (ins_effect l x xs ys (take_effect v (R l) x fs s), True)"
    and none: "list_in R (st_nbLists s) s l (xs @ ys) [] \<Longrightarrow> add s = Ret (s, False)"
  shows "\<exists>t. add s = Ret (t, family_room (store_family s) l) \<and> store_inv t \<and>
    store_family t = (if family_room (store_family s) l
      then family_set (store_family s) l (map (\<lambda>a. the (val s a)) xs @ v # map (\<lambda>a. the (val s a)) ys) else store_family s)"
proof (cases "F (R l)")
  case Nil
  then show ?thesis using none lists_ok_list_in [OF ok l] family_room_iff [OF ok l] ok E by (auto simp: store_inv_def)
next
  case (Cons x fs)
  let ?t = "ins_effect l x xs ys (take_effect v (R l) x fs s)"
  note k = add_keeps [OF ok l Cons E, where v = v]
  have x: "x \<notin> set (xs @ ys)" using lists_ok_disjoint(2) [OF ok l lists_okD(4,5) [OF ok l]] E Cons by auto
  have "map (\<lambda>a. the (val ?t a)) (xs @ x # ys) = map (\<lambda>a. the (val s a)) xs @ v # map (\<lambda>a. the (val s a)) ys"
    using k(3) x by (auto simp del: val_effects intro!: arg_cong [where f = the] k(4))
  then have "store_family ?t = family_set (store_family s) l (map (\<lambda>a. the (val s a)) xs @ v # map (\<lambda>a. the (val s a)) ys)"
    unfolding store_family_set [OF ok l k(1,2)] by (rule arg_cong)
  then show ?thesis using add [of x fs] lists_ok_list_in [OF ok l] family_room_iff [OF ok l] E Cons k(1) by (auto simp: store_inv_def)
qed

lemma step_remove:
  assumes ok: "lists_ok E F R s" and l: "l < st_nbLists s" and E: "E l = xs @ x # ys"
  defines "t \<equiv> rem_effect (R l) l x xs ys (F (R l)) s"
  shows "store_inv t" "store_family t = family_set (store_family s) l (map (\<lambda>a. the (val s a)) (xs @ ys))"
proof -
  note k = rem_keeps [OF ok l E, folded t_def]
  show "store_inv t" using k(1) by (auto simp: store_inv_def)
  show "store_family t = family_set (store_family s) l (map (\<lambda>a. the (val s a)) (xs @ ys))"
    using store_family_set [OF ok l k] by (simp add: t_def)
qed


lemma family_set_same: "l < length fam \<Longrightarrow> fl_items (fam ! l) = xs \<Longrightarrow> family_set fam l xs = fam"
  by (auto simp: family_set_def list_update_same_conv)

lemma step_new:
  assumes "lists_ok E F R s" "family_allows lim (FamNew cap mt pi pool) (store_family s)"
  shows "\<exists>t. BofList_ctor dbg zero s cap mt pi pool = Ret (t, st_nbLists s) \<and> store_inv t \<and>
    family_step same le (FamNew cap mt pi pool) (store_family s) = (store_family t, FamCreated (st_nbLists s))"
proof -
  have pool: "\<And>p. pool = Some p \<Longrightarrow> p < st_nbLists s" and cap: "cap \<noteq> 0" using assms(2) by auto
  obtain t F' where t: "BofList_ctor dbg zero s cap mt pi pool = Ret (t, st_nbLists s)" "lists_ok (E(st_nbLists s := [])) F' (R(st_nbLists s := case pool of None \<Rightarrow> st_nbLists s | Some p \<Rightarrow> R p)) t"
    "st_nbLists t = Suc (st_nbLists s)" "\<And>k. k < st_nbLists s \<Longrightarrow> st_lists t k = st_lists s k"
    "\<And>a. a < st_nbNodes s \<Longrightarrow> st_nodes t a = st_nodes s a" "bl_mNbMaxElements_U32 (st_lists t (st_nbLists s)) = cap"
    using ctor_keeps [OF assms(1) cap pool, where dbg = dbg and zero = zero and mt = mt and pi = pi] by blast
  define r where "r = (case pool of None \<Rightarrow> st_nbLists s | Some p \<Rightarrow> R p)"
  have ok: "lists_ok (E(st_nbLists s := [])) F' (R(st_nbLists s := r)) t" using t(2) by (simp add: r_def)
  have "list_entry (E(st_nbLists s := [])) (R(st_nbLists s := r)) t k = list_entry E R s k" if k: "k < st_nbLists s" for k
  proof -
    have "val t a = val s a" if "a \<in> set (E k)" for a
      using t(5) [of a] assms(1) list_atD(4) [OF lists_okD(1) [OF assms(1) k] that] unfolding lists_ok_def val_def by (metis not_le option.distinct(1))
    then show ?thesis using k t(4) [OF k] by (simp add: list_entry_def)
  qed
  then have "store_family t = store_family s @ [\<lparr>fl_cap = unat cap, fl_pool = r, fl_items = []\<rparr>]"
    unfolding store_family_eq [OF ok] store_family_eq [OF assms(1)] t(3) by (simp add: t(6)) (simp add: list_entry_def t(6))
  moreover have "r = (case pool of None \<Rightarrow> length (store_family s) | Some p \<Rightarrow> fl_pool (store_family s ! p))"
    using pool store_family_nth [OF assms(1)] by (auto simp: r_def list_entry_def split: option.split)
  ultimately show ?thesis using t(1,2) by (auto simp: store_inv_def)
qed

lemma step_take:
  assumes ok: "lists_ok E F R s" and l: "l < st_nbLists s"
  shows "\<exists>t r. list_step dbg zero memcmp_E pMethod (FamRemoveFirst l) s = Ret (t, r) \<and> store_inv t \<and>
      family_step same le (FamRemoveFirst l) (store_family s) = (store_family t, r)"
    and "\<exists>t r. list_step dbg zero memcmp_E pMethod (FamRemoveLast l) s = Ret (t, r) \<and> store_inv t \<and>
      family_step same le (FamRemoveLast l) (store_family s) = (store_family t, r)"
proof -
  note li = lists_ok_list_in [OF ok l] and it = store_family_items [OF ok l]
  have node: "\<exists>n. st_nodes s x = Some n \<and> the (val s x) = bn_Value n" if "x \<in> set (E l)" for x
    using list_atD(4) [OF lists_okD(1) [OF ok l] that] by (auto simp: val_def)
  show "\<exists>t r. list_step dbg zero memcmp_E pMethod (FamRemoveFirst l) s = Ret (t, r) \<and> store_inv t \<and>
      family_step same le (FamRemoveFirst l) (store_family s) = (store_family t, r)"
  proof (cases "E l")
    case Nil
    then show ?thesis using Remove_none(1) [of R _ s l] li it ok by (auto simp: store_inv_def)
  next
    case (Cons x xs)
    obtain n where "st_nodes s x = Some n" "the (val s x) = bn_Value n" using node [of x] Cons by auto
    then show ?thesis using RemoveFirst_eq [of R _ s l x xs] li it step_remove [OF ok l, of "[]" x xs] Cons by auto
  qed
  show "\<exists>t r. list_step dbg zero memcmp_E pMethod (FamRemoveLast l) s = Ret (t, r) \<and> store_inv t \<and>
      family_step same le (FamRemoveLast l) (store_family s) = (store_family t, r)"
  proof (cases "E l" rule: rev_cases)
    case Nil
    then show ?thesis using Remove_none(2) [of R _ s l] li it ok by (auto simp: store_inv_def)
  next
    case (snoc xs x)
    obtain n where "st_nodes s x = Some n" "the (val s x) = bn_Value n" using node [of x] snoc by auto
    then show ?thesis using RemoveLast_eq [of R _ s l xs x] li it step_remove [OF ok l, of xs x "[]"] snoc by (auto simp: Let_def)
  qed
qed

lemma step_find:
  assumes ok: "lists_ok E F R s" and l: "l < st_nbLists s" and same: "same = (\<lambda>y x. list_compare memcmp_E pMethod y x = 0)"
  shows "\<exists>t r. list_step dbg zero memcmp_E pMethod (FamRemove l x) s = Ret (t, r) \<and> store_inv t \<and>
      family_step same le (FamRemove l x) (store_family s) = (store_family t, r)"
    and "\<exists>t r. list_step dbg zero memcmp_E pMethod (FamContains l x) s = Ret (t, r) \<and> store_inv t \<and>
      family_step same le (FamContains l x) (store_family s) = (store_family t, r)"
proof -
  note li = lists_ok_list_in [OF ok l] and it = store_family_items [OF ok l]
  define P where "P = (\<lambda>a. \<not> same (the (val s a)) x)"
  have find: "BofList_Find dbg memcmp_E s l (Some x) pMethod = Ret (s, opt_hd (dropWhile P (E l)))"
    unfolding Find_eq [OF li] by (simp add: first_match_def P_def same)
  have ex: "(\<exists>y \<in> set (fl_items (store_family s ! l)). same y x) \<longleftrightarrow> dropWhile P (E l) \<noteq> []" by (auto simp: it P_def)
  have hd: "opt_hd (dropWhile P (E l)) \<noteq> None \<longleftrightarrow> dropWhile P (E l) \<noteq> []" by (simp only: opt_hd_None)
  show "\<exists>t r. list_step dbg zero memcmp_E pMethod (FamContains l x) s = Ret (t, r) \<and> store_inv t \<and>
      family_step same le (FamContains l x) (store_family s) = (store_family t, r)"
    using ok unfolding list_step.simps family_step.simps BofList_Contains_def find ex bindO.simps prod.case hd store_inv_def by blast
  show "\<exists>t r. list_step dbg zero memcmp_E pMethod (FamRemove l x) s = Ret (t, r) \<and> store_inv t \<and>
      family_step same le (FamRemove l x) (store_family s) = (store_family t, r)"
  proof (cases "dropWhile P (E l)")
    case Nil
    then show ?thesis using ok ex find [unfolded Nil opt_hd_simps] by (auto simp: BofList_Remove_elem_def store_inv_def Let_def)
  next
    case (Cons a ys)
    have E: "E l = takeWhile P (E l) @ a # ys" using takeWhile_dropWhile_id [of P "E l"] Cons by simp
    have "remove_match (\<lambda>y. same y x) (fl_items (store_family s ! l)) = map (\<lambda>a. the (val s a)) (takeWhile P (E l) @ ys)"
      using Cons by (simp add: remove_match_def it takeWhile_map dropWhile_map P_def comp_def)
    then have "family_step same le (FamRemove l x) (store_family s) = (store_family (rem_effect (R l) l a (takeWhile P (E l)) ys (F (R l)) s), FamDone True)"
      using step_remove(2) [OF ok l E] ex Cons by (simp add: Let_def)
    then show ?thesis using Remove_eq [of R _ s l "takeWhile P (E l)" a ys] li E step_remove(1) [OF ok l E] Cons
      by (auto simp: BofList_Remove_elem_def find)
  qed
qed


lemma step_sort:
  assumes ok: "lists_ok E F R s" and l: "l < st_nbLists s" and le: "le = (\<lambda>x y. list_compare memcmp_E pMethod x y \<le> 0)"
    and len: "length (fl_items (store_family s ! l)) \<le> sort_limit le"
  shows "\<exists>t. BofList_Sort memcmp_E s l pMethod = Ret (t, True) \<and> store_inv t \<and>
    store_family t = family_set (store_family s) l (sort_by le (fl_items (store_family s ! l)))"
proof -
  obtain t xs where t: "BofList_Sort memcmp_E s l pMethod = Ret (t, True)" "lists_ok (E(l := xs)) F R t"
    "local_change l (R l) (set (E l) \<union> set (F (R l))) s t" "map (\<lambda>a. the (val t a)) xs = sort_by le (map (\<lambda>a. the (val s a)) (E l))"
    using sort_keeps [OF ok l, of memcmp_E pMethod] len by (auto simp: le store_family_items [OF ok l])
  then show ?thesis using store_family_set [OF ok l t(2,3)] store_family_items [OF ok l] by (auto simp: store_inv_def)
qed

lemma step_clear:
  assumes ok: "lists_ok E F R s" and l: "l < st_nbLists s"
  shows "\<exists>t. BofList_Clear dbg s l = Ret (t, True) \<and> store_inv t \<and> store_family t = family_set (store_family s) l []"
  using Clear_eq [OF lists_ok_list_in [OF ok l]] clear_keeps [OF ok l refl] store_family_set [OF ok l] by (fastforce simp: store_inv_def)

lemma list_step_ok:
  assumes inv: "store_inv s" and op: "family_allows (sort_limit (\<lambda>x y. list_compare memcmp_E pMethod x y \<le> 0)) op (store_family s)"
  shows "\<exists>t r. list_step dbg zero memcmp_E pMethod op s = Ret (t, r) \<and> store_inv t \<and>
    family_step (\<lambda>y x. list_compare memcmp_E pMethod y x = 0) (\<lambda>x y. list_compare memcmp_E pMethod x y \<le> 0) op (store_family s) = (store_family t, r)"
proof -
  obtain E F R where ok: "lists_ok E F R s" using inv by (auto simp: store_inv_def)
  show ?thesis
  proof (cases op)
    case (FamNew cap mt pi pool)
    then show ?thesis using step_new [OF ok op [unfolded FamNew], of dbg zero] by fastforce
  next
    case (FamAddFirst l x)
    then have l: "l < st_nbLists s" using op by simp
    obtain t where "BofList_AddFirst_elem dbg zero s l (Some x) = Ret (t, family_room (store_family s) l)" "store_inv t"
      "store_family t = (if family_room (store_family s) l then family_set (store_family s) l (x # map (\<lambda>a. the (val s a)) (E l)) else store_family s)"
      using step_add [OF ok l, of "[]" "E l" "\<lambda>s. BofList_AddFirst_elem dbg zero s l (Some x)" x] AddFirst_elem_eq Add_elem_none(1) by fastforce
    then show ?thesis using FamAddFirst store_family_items [OF ok l] by auto
  next
    case (FamAddLast l x)
    then have l: "l < st_nbLists s" using op by simp
    obtain t where "BofList_AddLast_elem dbg zero s l (Some x) = Ret (t, family_room (store_family s) l)" "store_inv t"
      "store_family t = (if family_room (store_family s) l then family_set (store_family s) l (map (\<lambda>a. the (val s a)) (E l) @ [x]) else store_family s)"
      using step_add [OF ok l, of "E l" "[]" "\<lambda>s. BofList_AddLast_elem dbg zero s l (Some x)" x] AddLast_elem_eq Add_elem_none(2) by fastforce
    then show ?thesis using FamAddLast store_family_items [OF ok l] by auto
  next
    case (FamClear l)
    then show ?thesis using step_clear [OF ok, of l dbg] op by fastforce
  next
    case (FamSort l)
    then show ?thesis using step_sort [OF ok _ refl, of l memcmp_E pMethod] op by fastforce
  qed (use op step_take [OF ok] step_find [OF ok _ refl] in auto)
qed

lemma store_empty_inv: "store_inv list_store_empty" "store_family list_store_empty = []"
proof -
  have "lists_ok (\<lambda>l. []) (\<lambda>r. []) (\<lambda>l. l) list_store_empty" by (simp add: lists_ok_def pools_ok_def list_store_empty_def)
  then show "store_inv list_store_empty" by (auto simp: store_inv_def)
  show "store_family list_store_empty = []" by (simp add: store_family_def list_store_empty_def)
qed

interpretation bof_lists: list_family store_inv store_family "\<lambda>y x. list_compare memcmp_E pMethod y x = 0"
  "\<lambda>x y. list_compare memcmp_E pMethod x y \<le> 0" "sort_limit (\<lambda>x y. list_compare memcmp_E pMethod x y \<le> 0)" "list_step dbg zero memcmp_E pMethod"
  for dbg zero memcmp_E pMethod
  by unfold_locales (rule list_step_ok)


section \<open>Properties\<close>

text \<open>
  C40. Any sequence of constructions, additions, removals, searches, sorts and clears on
  lists that share pools of nodes returns, and every call answers as the family of sequences does:
  an addition fails exactly when the pool of the list has no node left, whichever
  lists hold its nodes, and no list is changed by a call on another.
\<close>

theorem BofList_refines_family:
  assumes "family_script (\<lambda>y x. list_compare memcmp_E pMethod y x = 0) (\<lambda>x y. list_compare memcmp_E pMethod x y \<le> 0)
    (sort_limit (\<lambda>x y. list_compare memcmp_E pMethod x y \<le> 0)) ops []"
  shows "\<exists>s rs. family_impl_run (list_step dbg zero memcmp_E pMethod) ops list_store_empty = Ret (s, rs) \<and>
    family_run (\<lambda>y x. list_compare memcmp_E pMethod y x = 0) (\<lambda>x y. list_compare memcmp_E pMethod x y \<le> 0) ops [] = (store_family s, rs)"
  using bof_lists.run_refines [OF store_empty_inv(1), of memcmp_E pMethod ops dbg zero] assms by (auto simp: store_empty_inv(2))

theorem BofList_refines_family_witness:
  "\<exists>s :: int list_store. family_impl_run (list_step True 0 (\<lambda>x y. x - y) None)
     [FamNew 2 True False None, FamNew 5 False False (Some 0), FamAddLast 0 7, FamAddFirst 1 8, FamAddLast 1 9, FamRemove 0 7,
      FamAddLast 1 3, FamContains 1 3, FamRemoveFirst 1] list_store_empty =
     Ret (s, [FamCreated 0, FamCreated 1, FamDone True, FamDone True, FamDone False, FamDone True, FamDone True, FamDone True, FamTaken (Some 8)])"
proof -
  have "\<exists>s rs. family_impl_run (list_step True (0 :: int) (\<lambda>x y. x - y) None)
     [FamNew 2 True False None, FamNew 5 False False (Some 0), FamAddLast 0 7, FamAddFirst 1 8, FamAddLast 1 9, FamRemove 0 7,
      FamAddLast 1 3, FamContains 1 3, FamRemoveFirst 1] list_store_empty = Ret (s, rs) \<and>
    family_run (\<lambda>y x. list_compare (\<lambda>x y. x - y) None y x = (0 :: int)) (\<lambda>x y. list_compare (\<lambda>x y. x - y) None x y \<le> 0)
      [FamNew 2 True False None, FamNew 5 False False (Some 0), FamAddLast 0 7, FamAddFirst 1 8, FamAddLast 1 9, FamRemove 0 7,
      FamAddLast 1 3, FamContains 1 3, FamRemoveFirst 1] [] = (store_family s, rs)"
    by (rule BofList_refines_family) (simp add: list_compare_def family_room_def family_used_def family_set_def)
  then show ?thesis by (auto simp: list_compare_def family_room_def family_used_def family_set_def remove_match_def)
qed

text \<open>
  C13. A sort of a list of at most \<open>2 ^ 30\<close> elements with a comparison that is a total preorder returns and leaves the list
  sorted, with the same elements, those that compare equal in their former order; the
  other lists of the store are as before.
\<close>

theorem BofList_Sort_stable:
  assumes "total_preorder (\<lambda>x y. list_compare memcmp_E pMethod x y \<le> 0)"
    "family_script (\<lambda>y x. list_compare memcmp_E pMethod y x = 0) (\<lambda>x y. list_compare memcmp_E pMethod x y \<le> 0) (2 ^ 30) (ops @ [FamSort l]) []"
  shows "\<exists>s rs t. family_impl_run (list_step dbg zero memcmp_E pMethod) ops list_store_empty = Ret (s, rs) \<and>
    BofList_Sort memcmp_E s l pMethod = Ret (t, True) \<and> sorted_wrt (\<lambda>x y. list_compare memcmp_E pMethod x y \<le> 0) (list_items t l) \<and>
    mset (list_items t l) = mset (list_items s l) \<and>
    (\<forall>a. filter (equiv_to (\<lambda>x y. list_compare memcmp_E pMethod x y \<le> 0) a) (list_items t l) =
         filter (equiv_to (\<lambda>x y. list_compare memcmp_E pMethod x y \<le> 0) a) (list_items s l)) \<and>
    (\<forall>k. k < st_nbLists s \<and> k \<noteq> l \<longrightarrow> list_items t k = list_items s k)"
proof -
  let ?le = "\<lambda>x y. list_compare memcmp_E pMethod x y \<le> 0" and ?same = "\<lambda>y x. list_compare memcmp_E pMethod y x = 0"
  have lim: "sort_limit ?le = 2 ^ 30" using assms(1) by (simp add: sort_limit_def)
  have sc: "family_script ?same ?le (2 ^ 30) ops []" "family_allows (2 ^ 30) (FamSort l) (fst (family_run ?same ?le ops []))"
    using assms(2) family_script_append [of ?same ?le "2 ^ 30" ops "[FamSort l]" "[]"] by auto
  obtain s rs where s: "family_impl_run (list_step dbg zero memcmp_E pMethod) ops list_store_empty = Ret (s, rs)" "store_inv s"
    "family_run ?same ?le ops [] = (store_family s, rs)"
    using bof_lists.run_refines [OF store_empty_inv(1), of memcmp_E pMethod ops dbg zero] sc(1) by (auto simp: store_empty_inv(2) lim)
  then have l: "l < st_nbLists s" "length (fl_items (store_family s ! l)) \<le> sort_limit ?le" using sc(2) lim by simp_all
  obtain E F R where ok: "lists_ok E F R s" using s(2) by (auto simp: store_inv_def)
  obtain t where t: "BofList_Sort memcmp_E s l pMethod = Ret (t, True)"
    "store_family t = family_set (store_family s) l (sort_by ?le (fl_items (store_family s ! l)))" using step_sort [OF ok l(1) refl l(2)] by blast
  have it: "list_items u k = fl_items (store_family u ! k)" if "k < st_nbLists u" for u :: "'a list_store" and k using that by (simp add: store_family_def)
  have N: "st_nbLists t = st_nbLists s" using arg_cong [OF t(2), of length] by (simp add: family_set_def)
  have "list_items t l = sort_by ?le (list_items s l)" "\<And>k. k < st_nbLists s \<Longrightarrow> k \<noteq> l \<Longrightarrow> list_items t k = list_items s k"
    using it t(2) N l(1) by (simp_all add: family_set_def)
  then show ?thesis using s(1) t(1) sorted_sort_by [OF assms(1)] stable_sort_by [OF assms(1)] by auto
qed

theorem BofList_Sort_stable_witness:
  "\<exists>s rs t :: int list_store. family_impl_run (list_step True 0 (\<lambda>x y. x - y) None)
     [FamNew 4 False False None, FamAddLast 0 7, FamAddLast 0 3, FamAddLast 0 5] list_store_empty = Ret (s, rs) \<and>
    BofList_Sort (\<lambda>x y. x - y) s 0 None = Ret (t, True) \<and> sorted_wrt (\<lambda>x y. list_compare (\<lambda>x y. x - y) None x y \<le> 0) (list_items t 0)"
  using BofList_Sort_stable [of "\<lambda>x y. x - y" None "[FamNew 4 False False None, FamAddLast 0 7, FamAddLast 0 3, FamAddLast 0 (5 :: int)]" 0 True 0]
  by (fastforce simp: total_preorder_def list_compare_def family_room_def family_used_def family_set_def)


end
