(* ===== verification/Bof_RamDb.thy ===== *)
theory Bof_RamDb
  imports Bof_Avl Bof_Sync
begin

text \<open>
  The in-memory database of \<^verbatim>\<open>boframdb.h\<close>: a table of at most \<^verbatim>\<open>mNbMaxElement_U32\<close>
  records with one AVL tree for each of its \<^verbatim>\<open>mNbIndex_U32\<close> indexes. The records
  live in the array \<^verbatim>\<open>mpElementList\<close>; the unused entries of the array are chained
  by their numbers in \<^verbatim>\<open>mpRamDbFreeElementList_U32\<close>. The trees hold pointers to the
  records, and a search key is a pointer to a record of the caller.

  The user of the template supplies two methods of the record: \<^verbatim>\<open>Compare\<close>, which
  compares two records at an index, and \<^verbatim>\<open>operator!=\<close>. They are the parameters
  \<open>Compare\<close> and \<open>neq\<close>; the record left by the default constructor is the
  parameter \<open>zero\<close>. A pointer argument is an option (\<open>None\<close> is null) and an
  output argument is returned with its new value. A handle is null or the
  address of one of the cursors of the database. Reading a cursor whose node
  has left its tree is \<open>Undefined\<close>.
\<close>

section \<open>Data\<close>

definition BOFRAMDB_CURSOR_MAX :: nat where
  "BOFRAMDB_CURSOR_MAX = 512"

definition BOFRAMDB_CURSOR_MAGICNUMBER :: u32 where
  "BOFRAMDB_CURSOR_MAGICNUMBER = 0x54567453"

text \<open>The number \<^verbatim>\<open>0xFFFFFFFF\<close> that ends the chain of the unused entries.\<close>

definition db_none :: u32 where
  "db_none = 0xFFFFFFFF"

record BOF_RAM_DB_STAT =
  dbs_NbInsertRequest_U32 :: u32
  dbs_NbInsertExecuted_U32 :: u32
  dbs_NbInsertCancelled_U32 :: u32
  dbs_NbSearchRequest_U32 :: u32
  dbs_NbSearchExecuted_U32 :: u32
  dbs_NbSearchMatch_U32 :: u32
  dbs_NbDeleteRequest_U32 :: u32
  dbs_NbDeleteExecuted_U32 :: u32
  dbs_NbUpdateDeleteCancelled_U32 :: u32
  dbs_NbUpdateRequest_U32 :: u32
  dbs_NbUpdateIndexExecuted_U32 :: u32
  dbs_NbUpdateDataExecuted_U32 :: u32
  dbs_NbUpdateCancelled_U32 :: u32

definition BOF_RAM_DB_STAT_Reset :: BOF_RAM_DB_STAT where
  "BOF_RAM_DB_STAT_Reset =
     \<lparr>dbs_NbInsertRequest_U32 = 0, dbs_NbInsertExecuted_U32 = 0, dbs_NbInsertCancelled_U32 = 0,
      dbs_NbSearchRequest_U32 = 0, dbs_NbSearchExecuted_U32 = 0, dbs_NbSearchMatch_U32 = 0,
      dbs_NbDeleteRequest_U32 = 0, dbs_NbDeleteExecuted_U32 = 0, dbs_NbUpdateDeleteCancelled_U32 = 0,
      dbs_NbUpdateRequest_U32 = 0, dbs_NbUpdateIndexExecuted_U32 = 0, dbs_NbUpdateDataExecuted_U32 = 0,
      dbs_NbUpdateCancelled_U32 = 0\<rparr>"

text \<open>The node a cursor stands on: the number of its tree and its address there.\<close>

record BOF_RAM_DB_CURSOR =
  cur_pElement :: "(nat \<times> nat) option"
  cur_Index_U32 :: u32
  cur_MagicNumber_U32 :: u32

definition BOF_RAM_DB_CURSOR_Reset :: BOF_RAM_DB_CURSOR where
  "BOF_RAM_DB_CURSOR_Reset = \<lparr>cur_pElement = None, cur_Index_U32 = 0, cur_MagicNumber_U32 = 0\<rparr>"

type_synonym BOF_HANDLE = "nat option"

text \<open>A pointer to a record: to an entry of \<^verbatim>\<open>mpElementList\<close>, or to a record of the caller.\<close>

datatype 'r db_ptr = Slot nat | Arg 'r

fun db_deref :: "'r list \<Rightarrow> 'r db_ptr \<Rightarrow> 'r" where
  "db_deref els (Slot p) = els ! p"
| "db_deref els (Arg r) = r"

type_synonym 'r db_compare = "nat \<Rightarrow> 'r \<Rightarrow> 'r \<Rightarrow> BOFCMP"

text \<open>The comparison that the tree of index \<open>i\<close> makes of two pointers.\<close>

definition db_cmp :: "'r db_compare \<Rightarrow> 'r list \<Rightarrow> nat \<Rightarrow> 'r db_ptr avl_cmp" where
  "db_cmp Compare els i a b = Compare i (db_deref els a) (db_deref els b)"

record 'r BofRamDb =
  db_mMtx_X :: BOF_MUTEX
  db_mNbMaxElement_U32 :: u32
  db_mNbIndex_U32 :: u32
  db_mNbRecord_U32 :: u32
  db_mNbFreeCursor_U32 :: u32
  db_mNextRamDbFreeElement_U32 :: u32
  db_mpRamDbFreeElementList_U32 :: "u32 list"
  db_mDbRamStat_X :: BOF_RAM_DB_STAT
  db_mpCursorState_X :: "BOF_RAM_DB_CURSOR list"
  db_mppRamDbTree :: "'r db_ptr BofAvlTree list"
  db_mpElementList :: "'r list"

abbreviation db_stat :: "(BOF_RAM_DB_STAT \<Rightarrow> BOF_RAM_DB_STAT) \<Rightarrow> 'r BofRamDb \<Rightarrow> 'r BofRamDb" where
  "db_stat f s \<equiv> s\<lparr>db_mDbRamStat_X := f (db_mDbRamStat_X s)\<rparr>"

section \<open>Construction\<close>

definition db_free_list :: "u32 \<Rightarrow> u32 list" where
  "db_free_list n = (map (\<lambda>i. of_nat i + 1) [0..<unat n])[unat n - 1 := db_none]"

definition BofRamDb_ctor :: "'r \<Rightarrow> u32 \<Rightarrow> u32 \<Rightarrow> ('r BofRamDb \<times> BOFERR) outcome" where
  "BofRamDb_ctor zero NbMaxElement_U32 NbIndex_U32 =
     bindO (Bof_CreateMutex ''BofRamDb'' True False BOF_MUTEX_ctor) (\<lambda>(m, Sts_E).
       let s = \<lparr>db_mMtx_X = m, db_mNbMaxElement_U32 = NbMaxElement_U32, db_mNbIndex_U32 = NbIndex_U32,
                db_mNbRecord_U32 = 0, db_mNbFreeCursor_U32 = of_nat BOFRAMDB_CURSOR_MAX,
                db_mNextRamDbFreeElement_U32 = 0, db_mpRamDbFreeElementList_U32 = [],
                db_mDbRamStat_X = BOF_RAM_DB_STAT_Reset,
                db_mpCursorState_X = replicate BOFRAMDB_CURSOR_MAX BOF_RAM_DB_CURSOR_Reset,
                db_mppRamDbTree = [], db_mpElementList = []\<rparr>
       in if NbMaxElement_U32 \<noteq> 0 \<and> NbIndex_U32 \<noteq> 0
          then Ret (s\<lparr>db_mpElementList := replicate (unat NbMaxElement_U32) zero,
                      db_mpRamDbFreeElementList_U32 := db_free_list NbMaxElement_U32,
                      db_mppRamDbTree := map (\<lambda>_. fst (BofAvlTree_ctor NbMaxElement_U32)) [0..<unat NbIndex_U32]\<rparr>,
                    BOF_ERR_NO_ERROR)
          else Ret (s, BOF_ERR_EINVAL))"

text \<open>
  The destructor deletes the trees one by one through the array of their
  addresses, which the constructor left null when it refused its arguments.
\<close>

definition BofRamDb_dtor :: "'r BofRamDb \<Rightarrow> 'r BofRamDb outcome" where
  "BofRamDb_dtor s =
     bindO (Bof_LockMutex (db_mMtx_X s)) (\<lambda>(m, Sts_E).
       if unat (db_mNbIndex_U32 s) \<le> length (db_mppRamDbTree s) then
         let s = s\<lparr>db_mppRamDbTree := [], db_mpRamDbFreeElementList_U32 := [], db_mpElementList := []\<rparr>
         in bindO (Bof_UnlockMutex m) (\<lambda>(m, Sts_E). Ret (s\<lparr>db_mMtx_X := fst (Bof_DestroyMutex m)\<rparr>))
       else Undefined)"

definition BofRamDb_IsDbEmpty :: "'r BofRamDb \<Rightarrow> bool" where
  "BofRamDb_IsDbEmpty s = (db_mNbRecord_U32 s = 0)"

definition BofRamDb_IsDbFull :: "'r BofRamDb \<Rightarrow> bool" where
  "BofRamDb_IsDbFull s = (db_mNbRecord_U32 s = db_mNbMaxElement_U32 s)"

definition BofRamDb_GetNbFreeCursor :: "'r BofRamDb \<Rightarrow> u32" where
  "BofRamDb_GetNbFreeCursor s = db_mNbFreeCursor_U32 s"

definition BofRamDb_GetNbRecord :: "'r BofRamDb \<Rightarrow> u32" where
  "BofRamDb_GetNbRecord s = db_mNbRecord_U32 s"

definition BofRamDb_GetStatistic :: "'r BofRamDb \<Rightarrow> BOF_RAM_DB_STAT" where
  "BofRamDb_GetStatistic s = db_mDbRamStat_X s"

definition BofRamDb_ClearStatistic :: "'r BofRamDb \<Rightarrow> 'r BofRamDb \<times> BOFERR" where
  "BofRamDb_ClearStatistic s = (s\<lparr>db_mDbRamStat_X := BOF_RAM_DB_STAT_Reset\<rparr>, BOF_ERR_NO_ERROR)"

text \<open>The arrays that the loops below go through must be there.\<close>

definition BofRamDb_ClearDbAndReleaseCursor :: "'r BofRamDb \<Rightarrow> ('r BofRamDb \<times> BOFERR) outcome" where
  "BofRamDb_ClearDbAndReleaseCursor s =
     (if unat (db_mNbIndex_U32 s) \<le> length (db_mppRamDbTree s) \<and>
         unat (db_mNbMaxElement_U32 s) \<le> length (db_mpRamDbFreeElementList_U32 s)
      then Ret (s\<lparr>db_mNbRecord_U32 := 0, db_mNbFreeCursor_U32 := of_nat BOFRAMDB_CURSOR_MAX,
                  db_mpCursorState_X := replicate BOFRAMDB_CURSOR_MAX BOF_RAM_DB_CURSOR_Reset,
                  db_mppRamDbTree := map BofAvlTree_Clear (db_mppRamDbTree s),
                  db_mNextRamDbFreeElement_U32 := 0,
                  db_mpRamDbFreeElementList_U32 := db_free_list (db_mNbMaxElement_U32 s)\<rparr>, BOF_ERR_NO_ERROR)
      else Undefined)"

section \<open>Cursors\<close>

text \<open>The body of a method between \<^verbatim>\<open>Bof_LockMutex\<close> and \<^verbatim>\<open>Bof_UnlockMutex\<close>, whose results are ignored.\<close>

definition db_guard ::
  "'r BofRamDb \<Rightarrow> ('r BofRamDb \<Rightarrow> ('r BofRamDb \<times> 'x) outcome) \<Rightarrow> ('r BofRamDb \<times> 'x) outcome" where
  "db_guard s body =
     bindO (Bof_LockMutex (db_mMtx_X s)) (\<lambda>(m, Sts_E).
       bindO (body (s\<lparr>db_mMtx_X := m\<rparr>)) (\<lambda>(s, r).
         bindO (Bof_UnlockMutex (db_mMtx_X s)) (\<lambda>(m, Sts_E). Ret (s\<lparr>db_mMtx_X := m\<rparr>, r))))"

text \<open>The test \<^verbatim>\<open>(pCursor_X) && (pCursor_X->MagicNumber_U32 == BOFRAMDB_CURSOR_MAGICNUMBER)\<close>.\<close>

definition db_with_cursor :: "'r BofRamDb \<Rightarrow> BOF_HANDLE \<Rightarrow> 'b outcome \<Rightarrow> (nat \<Rightarrow> 'b outcome) \<Rightarrow> 'b outcome" where
  "db_with_cursor s Cursor_h bad ok =
     (case Cursor_h of
        None \<Rightarrow> bad
      | Some c \<Rightarrow> rdn (db_mpCursorState_X s) c (\<lambda>cur.
          if cur_MagicNumber_U32 cur = BOFRAMDB_CURSOR_MAGICNUMBER then ok c else bad))"

text \<open>The first cursor that is not in use, if there is one.\<close>

fun db_find_cursor :: "BOF_RAM_DB_CURSOR list \<Rightarrow> nat \<Rightarrow> nat option" where
  "db_find_cursor [] i = None"
| "db_find_cursor (cur # curs) i =
     (if cur_MagicNumber_U32 cur \<noteq> BOFRAMDB_CURSOR_MAGICNUMBER then Some i else db_find_cursor curs (Suc i))"

definition BofRamDb_GetCursor ::
  "'r BofRamDb \<Rightarrow> u32 \<Rightarrow> BOF_HANDLE option \<Rightarrow> ('r BofRamDb \<times> BOF_HANDLE option \<times> BOFERR) outcome" where
  "BofRamDb_GetCursor s Index_U32 pCursor_h =
     (if Index_U32 < db_mNbIndex_U32 s then
        if pCursor_h \<noteq> None then
          if db_mNbFreeCursor_U32 s \<noteq> 0 then
            db_guard s (\<lambda>s.
              case db_find_cursor (db_mpCursorState_X s) 0 of
                Some c \<Rightarrow>
                  Ret (s\<lparr>db_mpCursorState_X := (db_mpCursorState_X s)[c :=
                            \<lparr>cur_pElement = None, cur_Index_U32 = Index_U32,
                             cur_MagicNumber_U32 = BOFRAMDB_CURSOR_MAGICNUMBER\<rparr>],
                         db_mNbFreeCursor_U32 := db_mNbFreeCursor_U32 s - 1\<rparr>, Some (Some c), BOF_ERR_NO_ERROR)
              | None \<Rightarrow> Ret (s, pCursor_h, BOF_ERR_NO_MORE))
          else Ret (s, pCursor_h, BOF_ERR_NO_MORE)
        else Ret (s, pCursor_h, BOF_ERR_EINVAL)
      else Ret (s, pCursor_h, BOF_ERR_INDEX))"

definition BofRamDb_FreeCursor ::
  "'r BofRamDb \<Rightarrow> BOF_HANDLE option \<Rightarrow> ('r BofRamDb \<times> BOF_HANDLE option \<times> BOFERR) outcome" where
  "BofRamDb_FreeCursor s pCursor_h =
     (case pCursor_h of
        None \<Rightarrow> Ret (s, None, BOF_ERR_CURSOR)
      | Some Cursor_h \<Rightarrow>
          db_with_cursor s Cursor_h (Ret (s, pCursor_h, BOF_ERR_CURSOR)) (\<lambda>c.
            db_guard s (\<lambda>s.
              Ret (s\<lparr>db_mpCursorState_X := (db_mpCursorState_X s)[c := BOF_RAM_DB_CURSOR_Reset],
                     db_mNbFreeCursor_U32 := db_mNbFreeCursor_U32 s + 1\<rparr>, Some None, BOF_ERR_NO_ERROR))))"

text \<open>The node at the address kept in a cursor.\<close>

definition db_node_at :: "'r BofRamDb \<Rightarrow> nat \<times> nat \<Rightarrow> ('r db_ptr BofAvlTree \<Rightarrow> 'r db_ptr BofAvlNode \<Rightarrow> 'b outcome) \<Rightarrow> 'b outcome" where
  "db_node_at s a k =
     rdn (db_mppRamDbTree s) (fst a) (\<lambda>t.
       let n = avl_find (snd a) (avt_mpRoot t) in if n = NullNode then Undefined else k t n)"

text \<open>The end of the methods that move a cursor: to the node found in tree \<open>i\<close>, or nowhere.\<close>

definition db_arrive ::
  "'r BofRamDb \<Rightarrow> nat \<Rightarrow> nat \<Rightarrow> 'r option \<Rightarrow> BOFERR \<Rightarrow> 'r db_ptr BofAvlNode \<Rightarrow> ('r BofRamDb \<times> 'r option \<times> BOFERR) outcome" where
  "db_arrive s c i pElement Nothing_E node =
     (if node \<noteq> NullNode
      then Ret (s\<lparr>db_mpCursorState_X := (db_mpCursorState_X s)[c :=
                     (db_mpCursorState_X s ! c)\<lparr>cur_pElement := Some (i, avl_id node)\<rparr>]\<rparr>,
                Some (db_deref (db_mpElementList s) (avl_mpData node)), BOF_ERR_NO_ERROR)
      else Ret (s, pElement, Nothing_E))"

text \<open>The index of a cursor.\<close>

abbreviation db_index :: "'r BofRamDb \<Rightarrow> nat \<Rightarrow> nat" where
  "db_index s c \<equiv> unat (cur_Index_U32 (db_mpCursorState_X s ! c))"

definition BofRamDb_GetFirstElement ::
  "'r BofRamDb \<Rightarrow> BOF_HANDLE \<Rightarrow> 'r option \<Rightarrow> ('r BofRamDb \<times> 'r option \<times> BOFERR) outcome" where
  "BofRamDb_GetFirstElement s Cursor_h pElement =
     db_with_cursor s Cursor_h (Ret (s, pElement, BOF_ERR_CURSOR)) (\<lambda>c.
       if pElement \<noteq> None then
         db_guard s (\<lambda>s. rdn (db_mppRamDbTree s) (db_index s c) (\<lambda>t.
           db_arrive s c (db_index s c) pElement BOF_ERR_EMPTY (BofAvlTree_GetFirst t)))
       else Ret (s, pElement, BOF_ERR_EINVAL))"

definition BofRamDb_GetLastElement ::
  "'r BofRamDb \<Rightarrow> BOF_HANDLE \<Rightarrow> 'r option \<Rightarrow> ('r BofRamDb \<times> 'r option \<times> BOFERR) outcome" where
  "BofRamDb_GetLastElement s Cursor_h pElement =
     db_with_cursor s Cursor_h (Ret (s, pElement, BOF_ERR_CURSOR)) (\<lambda>c.
       if pElement \<noteq> None then
         db_guard s (\<lambda>s. rdn (db_mppRamDbTree s) (db_index s c) (\<lambda>t.
           db_arrive s c (db_index s c) pElement BOF_ERR_EMPTY (BofAvlTree_GetLast t)))
       else Ret (s, pElement, BOF_ERR_EINVAL))"

definition BofRamDb_GetCurrentElement ::
  "'r BofRamDb \<Rightarrow> BOF_HANDLE \<Rightarrow> 'r option \<Rightarrow> ('r BofRamDb \<times> 'r option \<times> BOFERR) outcome" where
  "BofRamDb_GetCurrentElement s Cursor_h pElement =
     db_with_cursor s Cursor_h (Ret (s, pElement, BOF_ERR_CURSOR)) (\<lambda>c.
       if pElement \<noteq> None then
         db_guard s (\<lambda>s.
           case cur_pElement (db_mpCursorState_X s ! c) of
             Some a \<Rightarrow> db_node_at s a (\<lambda>t node.
               Ret (s, Some (db_deref (db_mpElementList s) (avl_mpData node)), BOF_ERR_NO_ERROR))
           | None \<Rightarrow> Ret (s, pElement, BOF_ERR_EMPTY))
       else Ret (s, pElement, BOF_ERR_EINVAL))"

text \<open>
  \<^verbatim>\<open>GetNext\<close> and \<^verbatim>\<open>GetPrevious\<close> of the tree of the cursor follow the pointers of the
  node they are given, compare at the index of the cursor, and return the null
  pointer for the null pointer. The node reached is in the tree of the node
  they start from.
\<close>

definition BofRamDb_GetNextElement ::
  "'r db_compare \<Rightarrow> 'r BofRamDb \<Rightarrow> BOF_HANDLE \<Rightarrow> 'r option \<Rightarrow> ('r BofRamDb \<times> 'r option \<times> BOFERR) outcome" where
  "BofRamDb_GetNextElement Compare s Cursor_h pElement =
     db_with_cursor s Cursor_h (Ret (s, pElement, BOF_ERR_CURSOR)) (\<lambda>c.
       if pElement \<noteq> None then
         db_guard s (\<lambda>s.
           case cur_pElement (db_mpCursorState_X s ! c) of
             Some a \<Rightarrow> db_node_at s a (\<lambda>t node.
               bindO (BofAvlTree_GetNext (db_cmp Compare (db_mpElementList s) (db_index s c)) t node)
                 (db_arrive s c (fst a) pElement BOF_ERR_EOF))
           | None \<Rightarrow> Ret (s, pElement, BOF_ERR_EOF))
       else Ret (s, pElement, BOF_ERR_EINVAL))"

definition BofRamDb_GetPreviousElement ::
  "'r db_compare \<Rightarrow> 'r BofRamDb \<Rightarrow> BOF_HANDLE \<Rightarrow> 'r option \<Rightarrow> ('r BofRamDb \<times> 'r option \<times> BOFERR) outcome" where
  "BofRamDb_GetPreviousElement Compare s Cursor_h pElement =
     db_with_cursor s Cursor_h (Ret (s, pElement, BOF_ERR_CURSOR)) (\<lambda>c.
       if pElement \<noteq> None then
         db_guard s (\<lambda>s.
           case cur_pElement (db_mpCursorState_X s ! c) of
             Some a \<Rightarrow> db_node_at s a (\<lambda>t node.
               bindO (BofAvlTree_GetPrevious (db_cmp Compare (db_mpElementList s) (db_index s c)) t node)
                 (db_arrive s c (fst a) pElement BOF_ERR_EOF))
           | None \<Rightarrow> Ret (s, pElement, BOF_ERR_EOF))
       else Ret (s, pElement, BOF_ERR_EINVAL))"

section \<open>Insertion and search\<close>

text \<open>
  The loops over the trees, from tree \<open>i\<close> on with \<open>n\<close> turns left. An insertion
  that does not return null ends its loop; the loop gives the number of the
  tree it stopped at.
\<close>

fun db_insert_loop ::
  "'r db_compare \<Rightarrow> 'r list \<Rightarrow> 'r db_ptr \<Rightarrow> nat \<Rightarrow> nat \<Rightarrow> 'r db_ptr BofAvlTree list \<Rightarrow>
     ('r db_ptr BofAvlTree list \<times> nat \<times> BOFERR) outcome" where
  "db_insert_loop Compare els pKey 0 i trees = Ret (trees, i, BOF_ERR_NO_ERROR)"
| "db_insert_loop Compare els pKey (Suc n) i trees =
     rdn trees i (\<lambda>t.
       bindO (BofAvlTree_Insert (db_cmp Compare els i) t pKey) (\<lambda>(t, r).
         if r \<noteq> AvlInserted then Ret (trees[i := t], i, BOF_ERR_DUPLICATE)
         else db_insert_loop Compare els pKey n (Suc i) (trees[i := t])))"

text \<open>The deletions; the result is the one of the last tree.\<close>

fun db_delete_loop ::
  "'r db_compare \<Rightarrow> 'r list \<Rightarrow> 'r db_ptr \<Rightarrow> nat \<Rightarrow> nat \<Rightarrow> 'r db_ptr option \<Rightarrow> 'r db_ptr BofAvlTree list \<Rightarrow>
     ('r db_ptr BofAvlTree list \<times> 'r db_ptr option) outcome" where
  "db_delete_loop Compare els pKey 0 i pData trees = Ret (trees, pData)"
| "db_delete_loop Compare els pKey (Suc n) i pData trees =
     rdn trees i (\<lambda>t.
       bindO (BofAvlTree_Delete (db_cmp Compare els i) t pKey BOF_CMP_EQUAL) (\<lambda>(t, pData).
         db_delete_loop Compare els pKey n (Suc i) pData (trees[i := t])))"

definition BofRamDb_InsertElement ::
  "'r db_compare \<Rightarrow> 'r BofRamDb \<Rightarrow> BOF_HANDLE \<Rightarrow> 'r option \<Rightarrow> ('r BofRamDb \<times> BOFERR) outcome" where
  "BofRamDb_InsertElement Compare s Cursor_h pElement =
     (let s = db_stat (\<lambda>d. d\<lparr>dbs_NbInsertRequest_U32 := dbs_NbInsertRequest_U32 d + 1\<rparr>) s in
      db_with_cursor s Cursor_h (Ret (s, BOF_ERR_CURSOR)) (\<lambda>c.
        case pElement of
          None \<Rightarrow> Ret (s, BOF_ERR_EINVAL)
        | Some e \<Rightarrow>
            db_guard s (\<lambda>s.
              let Next_U32 = db_mNextRamDbFreeElement_U32 s; pKey = Slot (unat Next_U32) in
              if Next_U32 \<noteq> db_none then
                wr (db_mpElementList s) Next_U32 e (\<lambda>els.
                  bindO (db_insert_loop Compare els pKey (unat (db_mNbIndex_U32 s)) 0 (db_mppRamDbTree s))
                    (\<lambda>(trees, Tree_U32, Rts_E).
                      let s = s\<lparr>db_mpElementList := els, db_mppRamDbTree := trees\<rparr> in
                      if Rts_E = BOF_ERR_NO_ERROR then
                        rd (db_mpRamDbFreeElementList_U32 s) Next_U32 (\<lambda>Free_U32.
                          Ret (db_stat (\<lambda>d. d\<lparr>dbs_NbInsertExecuted_U32 := dbs_NbInsertExecuted_U32 d + 1\<rparr>)
                                (s\<lparr>db_mNbRecord_U32 := db_mNbRecord_U32 s + 1,
                                   db_mNextRamDbFreeElement_U32 := Free_U32\<rparr>), Rts_E))
                      else
                        bindO (db_delete_loop Compare els pKey Tree_U32 0 None trees) (\<lambda>(trees, pData).
                          Ret (db_stat (\<lambda>d. d\<lparr>dbs_NbInsertCancelled_U32 := dbs_NbInsertCancelled_U32 d + 1\<rparr>)
                                (s\<lparr>db_mppRamDbTree := trees\<rparr>), Rts_E))))
              else Ret (s, BOF_ERR_FULL))))"

definition BofRamDb_SearchElement ::
  "'r db_compare \<Rightarrow> 'r BofRamDb \<Rightarrow> BOF_HANDLE \<Rightarrow> 'r option \<Rightarrow> 'r option \<Rightarrow> BOFCMP \<Rightarrow>
     ('r BofRamDb \<times> 'r option \<times> BOFERR) outcome" where
  "BofRamDb_SearchElement Compare s Cursor_h pSearchElement pFoundElement Cmp_E =
     (let s = db_stat (\<lambda>d. d\<lparr>dbs_NbSearchRequest_U32 := dbs_NbSearchRequest_U32 d + 1\<rparr>) s in
      db_with_cursor s Cursor_h (Ret (s, pFoundElement, BOF_ERR_CURSOR)) (\<lambda>c.
        case pSearchElement of
          None \<Rightarrow> Ret (s, pFoundElement, BOF_ERR_EINVAL)
        | Some k \<Rightarrow>
            if pFoundElement \<noteq> None then
              db_guard s (\<lambda>s.
                let s = db_stat (\<lambda>d. d\<lparr>dbs_NbSearchExecuted_U32 := dbs_NbSearchExecuted_U32 d + 1\<rparr>) s in
                rdn (db_mppRamDbTree s) (db_index s c) (\<lambda>t.
                  bindO (BofAvlTree_Search (db_cmp Compare (db_mpElementList s) (db_index s c)) t (Arg k) Cmp_E) (\<lambda>node.
                    db_arrive (if node \<noteq> NullNode
                               then db_stat (\<lambda>d. d\<lparr>dbs_NbSearchMatch_U32 := dbs_NbSearchMatch_U32 d + 1\<rparr>) s else s)
                      c (db_index s c) pFoundElement BOF_ERR_EOF node)))
            else Ret (s, pFoundElement, BOF_ERR_EINVAL)))"

section \<open>Deletion and update\<close>

text \<open>The search of a key in every tree: the number of trees it was found in before one missed it, and the last node found.\<close>

fun db_search_loop ::
  "'r db_compare \<Rightarrow> 'r list \<Rightarrow> 'r db_ptr \<Rightarrow> nat \<Rightarrow> nat \<Rightarrow> 'r db_ptr BofAvlNode \<Rightarrow> 'r db_ptr BofAvlTree list \<Rightarrow>
     (nat \<times> 'r db_ptr BofAvlNode) outcome" where
  "db_search_loop Compare els pKey 0 i node trees = Ret (i, node)"
| "db_search_loop Compare els pKey (Suc n) i node trees =
     rdn trees i (\<lambda>t.
       bindO (BofAvlTree_Search (db_cmp Compare els i) t pKey BOF_CMP_EQUAL) (\<lambda>node.
         if node = NullNode then Ret (i, node) else db_search_loop Compare els pKey n (Suc i) node trees))"

text \<open>The pointer difference \<^verbatim>\<open>pData - mpElementList\<close>, cut to 32 bits.\<close>

fun db_position :: "'r db_ptr \<Rightarrow> (u32 \<Rightarrow> 'b outcome) \<Rightarrow> 'b outcome" where
  "db_position (Slot p) k = k (of_nat p)"
| "db_position (Arg r) k = Undefined"

definition BofRamDb_DeleteElement ::
  "'r db_compare \<Rightarrow> 'r BofRamDb \<Rightarrow> 'r option \<Rightarrow> ('r BofRamDb \<times> BOFERR) outcome" where
  "BofRamDb_DeleteElement Compare s pElement =
     (let s = db_stat (\<lambda>d. d\<lparr>dbs_NbDeleteRequest_U32 := dbs_NbDeleteRequest_U32 d + 1\<rparr>) s in
      case pElement of
        None \<Rightarrow> Ret (s, BOF_ERR_EINVAL)
      | Some e \<Rightarrow>
          db_guard s (\<lambda>s.
            let els = db_mpElementList s; n = unat (db_mNbIndex_U32 s) in
            bindO (db_search_loop Compare els (Arg e) n 0 NullNode (db_mppRamDbTree s)) (\<lambda>(i, node).
              if i = n then
                bindO (db_delete_loop Compare els (Arg e) n 0 None (db_mppRamDbTree s)) (\<lambda>(trees, pData).
                  let s = (db_stat (\<lambda>d. d\<lparr>dbs_NbDeleteExecuted_U32 := dbs_NbDeleteExecuted_U32 d + 1\<rparr>) s)
                            \<lparr>db_mppRamDbTree := trees\<rparr> in
                  case pData of
                    Some d \<Rightarrow> db_position d (\<lambda>Position_U32.
                      if Position_U32 < db_mNbMaxElement_U32 s then
                        wr (db_mpRamDbFreeElementList_U32 s) Position_U32 (db_mNextRamDbFreeElement_U32 s) (\<lambda>fl.
                          Ret (s\<lparr>db_mNbRecord_U32 := db_mNbRecord_U32 s - 1, db_mpRamDbFreeElementList_U32 := fl,
                                 db_mNextRamDbFreeElement_U32 := Position_U32\<rparr>, BOF_ERR_NO_ERROR))
                      else Ret (s, BOF_ERR_INTERNAL))
                  | None \<Rightarrow> Ret (s, BOF_ERR_INTERNAL))
              else Ret (s, BOF_ERR_NOT_FOUND))))"

text \<open>The number of indexes, from \<open>i\<close> on, at which the two records compare equal before one differs.\<close>

fun db_same_loop :: "'r db_compare \<Rightarrow> 'r \<Rightarrow> 'r \<Rightarrow> nat \<Rightarrow> nat \<Rightarrow> nat" where
  "db_same_loop Compare new old 0 i = i"
| "db_same_loop Compare new old (Suc n) i =
     (if Compare i new old \<noteq> BOF_CMP_EQUAL then i else db_same_loop Compare new old n (Suc i))"

text \<open>The search for a duplicate of the new record once the old one is gone.\<close>

fun db_duplicate_loop ::
  "'r db_compare \<Rightarrow> 'r list \<Rightarrow> 'r db_ptr \<Rightarrow> nat \<Rightarrow> nat \<Rightarrow> 'r db_ptr BofAvlTree list \<Rightarrow> BOFERR outcome" where
  "db_duplicate_loop Compare els pKey 0 i trees = Ret BOF_ERR_NO_ERROR"
| "db_duplicate_loop Compare els pKey (Suc n) i trees =
     rdn trees i (\<lambda>t.
       bindO (BofAvlTree_Search (db_cmp Compare els i) t pKey BOF_CMP_EQUAL) (\<lambda>node.
         if node \<noteq> NullNode then Ret BOF_ERR_DUPLICATE else db_duplicate_loop Compare els pKey n (Suc i) trees))"

text \<open>Some index value changes: delete the old record, insert the new one, put the old one back on failure.\<close>

definition db_replace ::
  "'r db_compare \<Rightarrow> 'r BofRamDb \<Rightarrow> BOF_HANDLE \<Rightarrow> 'r \<Rightarrow> 'r \<Rightarrow> 'r \<Rightarrow> ('r BofRamDb \<times> BOFERR) outcome" where
  "db_replace Compare s Cursor_h PreviousValue old new =
     bindO (BofRamDb_DeleteElement Compare s (Some old)) (\<lambda>(s, Rts_E).
       bindO
         (if Rts_E = BOF_ERR_NO_ERROR then
            bindO (db_duplicate_loop Compare (db_mpElementList s) (Arg new) (unat (db_mNbIndex_U32 s)) 0 (db_mppRamDbTree s))
              (\<lambda>Rts_E.
                if Rts_E = BOF_ERR_NO_ERROR then
                  bindO (BofRamDb_InsertElement Compare s Cursor_h (Some new)) (\<lambda>(s, Rts_E).
                    if Rts_E \<noteq> BOF_ERR_NO_ERROR
                    then bindO (BofRamDb_InsertElement Compare s Cursor_h (Some PreviousValue)) (\<lambda>(s, Sts_E). Ret (s, Rts_E))
                    else Ret (db_stat (\<lambda>d. d\<lparr>dbs_NbUpdateIndexExecuted_U32 := dbs_NbUpdateIndexExecuted_U32 d + 1\<rparr>) s, Rts_E))
                else bindO (BofRamDb_InsertElement Compare s Cursor_h (Some PreviousValue)) (\<lambda>(s, Sts_E). Ret (s, Rts_E)))
          else Ret (s, Rts_E))
         (\<lambda>(s, Rts_E).
           Ret (if Rts_E \<noteq> BOF_ERR_NO_ERROR
                then db_stat (\<lambda>d. d\<lparr>dbs_NbUpdateCancelled_U32 := dbs_NbUpdateCancelled_U32 d + 1\<rparr>) s else s, Rts_E)))"

text \<open>
  The update once the search key is found in every tree: an update that keeps
  every index value writes the record in place and moves the cursor to the
  node found last, which is the one of the last tree.
\<close>

definition db_update_found ::
  "'r db_compare \<Rightarrow> 'r BofRamDb \<Rightarrow> nat \<Rightarrow> 'r \<Rightarrow> 'r \<Rightarrow> 'r db_ptr BofAvlNode \<Rightarrow> ('r BofRamDb \<times> BOFERR) outcome" where
  "db_update_found Compare s c old new node =
     (let els = db_mpElementList s; n = unat (db_mNbIndex_U32 s) in
      if db_same_loop Compare new old n 0 = n \<and> node \<noteq> NullNode then
        db_position (avl_mpData node) (\<lambda>Position_U32.
          if Position_U32 < db_mNbMaxElement_U32 s then
            wr els Position_U32 new (\<lambda>els.
              Ret (db_stat (\<lambda>d. d\<lparr>dbs_NbUpdateDataExecuted_U32 := dbs_NbUpdateDataExecuted_U32 d + 1\<rparr>)
                    (s\<lparr>db_mpElementList := els,
                       db_mpCursorState_X := (db_mpCursorState_X s)[c :=
                         (db_mpCursorState_X s ! c)\<lparr>cur_pElement := Some (n - 1, avl_id node)\<rparr>]\<rparr>),
                   BOF_ERR_NO_ERROR))
          else Ret (s, BOF_ERR_INTERNAL))
      else if node \<noteq> NullNode
      then db_replace Compare s (Some c) (db_deref els (avl_mpData node)) old new
      else Undefined)"

definition BofRamDb_UpdateElement ::
  "'r db_compare \<Rightarrow> ('r \<Rightarrow> 'r \<Rightarrow> bool) \<Rightarrow> 'r BofRamDb \<Rightarrow> BOF_HANDLE \<Rightarrow> 'r option \<Rightarrow> 'r option \<Rightarrow>
     ('r BofRamDb \<times> BOFERR) outcome" where
  "BofRamDb_UpdateElement Compare neq s Cursor_h pSearchElement pNewElement =
     (let s = db_stat (\<lambda>d. d\<lparr>dbs_NbUpdateRequest_U32 := dbs_NbUpdateRequest_U32 d + 1\<rparr>) s in
      db_with_cursor s Cursor_h (Ret (s, BOF_ERR_CURSOR)) (\<lambda>c.
        case (pSearchElement, pNewElement) of
          (Some old, Some new) \<Rightarrow>
            if neq old new then
              db_guard s (\<lambda>s.
                bindO (db_search_loop Compare (db_mpElementList s) (Arg old) (unat (db_mNbIndex_U32 s)) 0 NullNode (db_mppRamDbTree s))
                  (\<lambda>(i, node).
                    if i = unat (db_mNbIndex_U32 s) then db_update_found Compare s c old new node
                    else Ret (s, BOF_ERR_EINVAL)))
            else Ret (db_stat (\<lambda>d. d\<lparr>dbs_NbUpdateCancelled_U32 := dbs_NbUpdateCancelled_U32 d + 1\<rparr>) s, BOF_ERR_NO_ERROR)
        | _ \<Rightarrow> Ret (s, BOF_ERR_EINVAL)))"

section \<open>The integrity check\<close>

fun db_check_trees ::
  "'r db_compare \<Rightarrow> 'r list \<Rightarrow> nat \<Rightarrow> nat \<Rightarrow> 'r db_ptr BofAvlTree list \<Rightarrow> int \<times> u32 \<Rightarrow> (int \<times> u32) outcome" where
  "db_check_trees Compare els 0 i trees acc = Ret acc"
| "db_check_trees Compare els (Suc n) i trees (Rts_S32, NbNode_U32) =
     rdn trees i (\<lambda>t.
       case BofAvlTree_Check (db_cmp Compare els i) t NbNode_U32 of (ok, NbNode_U32) \<Rightarrow>
         db_check_trees Compare els n (Suc i) trees (Rts_S32 * (if ok then 1 else 0), NbNode_U32))"

fun db_check_counts :: "u32 \<Rightarrow> nat \<Rightarrow> nat \<Rightarrow> 'r db_ptr BofAvlTree list \<Rightarrow> int \<Rightarrow> int outcome" where
  "db_check_counts Total_U32 0 i trees Rts_S32 = Ret Rts_S32"
| "db_check_counts Total_U32 (Suc n) i trees Rts_S32 =
     rdn trees i (\<lambda>t.
       db_check_counts Total_U32 n (Suc i) trees (if BofAvlTree_GetNbNode t \<noteq> Total_U32 then 0 else Rts_S32))"

text \<open>Does the chain that starts after an unused entry come back to it? The number where the walk stops.\<close>

fun db_check_cycle :: "u32 list \<Rightarrow> u32 \<Rightarrow> nat \<Rightarrow> u32 \<Rightarrow> u32 outcome" where
  "db_check_cycle fl NxtFree_U32 0 Nxt_U32 = Ret Nxt_U32"
| "db_check_cycle fl NxtFree_U32 (Suc n) Nxt_U32 =
     (if Nxt_U32 \<noteq> db_none \<and> NxtFree_U32 \<noteq> Nxt_U32 then rd fl Nxt_U32 (db_check_cycle fl NxtFree_U32 n)
      else Ret Nxt_U32)"

text \<open>The walk along the chain of the unused entries: their number, and whether the chain is sound.\<close>

fun db_check_free :: "u32 list \<Rightarrow> u32 \<Rightarrow> nat \<Rightarrow> u32 \<Rightarrow> u32 \<Rightarrow> (u32 \<times> bool) outcome" where
  "db_check_free fl Max_U32 0 NxtFree_U32 Total_U32 = Ret (Total_U32, True)"
| "db_check_free fl Max_U32 (Suc n) NxtFree_U32 Total_U32 =
     (if NxtFree_U32 \<noteq> db_none then
        if NxtFree_U32 < Max_U32 then
          rd fl NxtFree_U32 (\<lambda>Nxt_U32.
            bindO (db_check_cycle fl NxtFree_U32 (unat Max_U32) Nxt_U32) (\<lambda>Stop_U32.
              if NxtFree_U32 = Stop_U32 then Ret (Total_U32, False)
              else db_check_free fl Max_U32 n Nxt_U32 (Total_U32 + 1)))
        else Ret (Total_U32, False)
      else Ret (Total_U32, True))"

text \<open>
  Is the entry on the chain of the unused ones? At the end of the chain the
  loop sets its counter to the bound and increments it; with the bound
  \<^verbatim>\<open>0xFFFFFFFF\<close> the counter wraps and the loop does not end.
\<close>

fun db_check_slot :: "u32 list \<Rightarrow> u32 \<Rightarrow> u32 \<Rightarrow> nat \<Rightarrow> u32 \<Rightarrow> bool outcome" where
  "db_check_slot fl Max_U32 Position_U32 0 NxtFree_U32 = Ret False"
| "db_check_slot fl Max_U32 Position_U32 (Suc n) NxtFree_U32 =
     (if NxtFree_U32 \<noteq> db_none then
        if NxtFree_U32 = Position_U32 then Ret True
        else rd fl NxtFree_U32 (db_check_slot fl Max_U32 Position_U32 n)
      else if Max_U32 + 1 = 0 then Retrying else Ret False)"

text \<open>The walk along the records of index 0 with a cursor: their number, and whether each is outside the chain.\<close>

fun db_check_records ::
  "'r db_compare \<Rightarrow> nat \<Rightarrow> 'r BofRamDb \<Rightarrow> nat \<Rightarrow> 'r option \<Rightarrow> u32 \<Rightarrow> ('r BofRamDb \<times> u32 \<times> bool) outcome" where
  "db_check_records Compare 0 s c Elem Total_U32 = Ret (s, Total_U32, True)"
| "db_check_records Compare (Suc n) s c Elem Total_U32 =
     (case cur_pElement (db_mpCursorState_X s ! c) of
        None \<Rightarrow> Undefined
      | Some a \<Rightarrow> db_node_at s a (\<lambda>t node.
          db_position (avl_mpData node) (\<lambda>Position_U32.
            if Position_U32 < db_mNbMaxElement_U32 s then
              bindO (db_check_slot (db_mpRamDbFreeElementList_U32 s) (db_mNbMaxElement_U32 s) Position_U32
                       (unat (db_mNbMaxElement_U32 s)) (db_mNextRamDbFreeElement_U32 s)) (\<lambda>free.
                if free then Ret (s, Total_U32, False)
                else
                  bindO (BofRamDb_GetNextElement Compare s (Some c) Elem) (\<lambda>(s, Elem, Sts_E).
                    if Sts_E = BOF_ERR_EOF then Ret (s, Total_U32 + 1, True)
                    else if Sts_E \<noteq> BOF_ERR_NO_ERROR then Ret (s, Total_U32 + 1, False)
                    else db_check_records Compare n s c Elem (Total_U32 + 1)))
            else Ret (s, Total_U32, False))))"

text \<open>The two extended tests.\<close>

definition db_check_free_list :: "'r BofRamDb \<Rightarrow> int \<Rightarrow> int outcome" where
  "db_check_free_list s Rts_S32 =
     bindO (db_check_free (db_mpRamDbFreeElementList_U32 s) (db_mNbMaxElement_U32 s) (unat (db_mNbMaxElement_U32 s))
              (db_mNextRamDbFreeElement_U32 s) 0) (\<lambda>(Total_U32, ok).
       rdn (db_mppRamDbTree s) 0 (\<lambda>t.
         Ret (if ok \<and> db_mNbMaxElement_U32 s - Total_U32 = BofAvlTree_GetNbNode t then Rts_S32 else 0)))"

definition db_check_entries :: "'r db_compare \<Rightarrow> 'r \<Rightarrow> 'r BofRamDb \<Rightarrow> int \<Rightarrow> ('r BofRamDb \<times> int) outcome" where
  "db_check_entries Compare zero s Rts_S32 =
     bindO (BofRamDb_GetCursor s 0 (Some None)) (\<lambda>(s, pCursor_h, Sts_E).
       case pCursor_h of
         Some (Some c) \<Rightarrow>
           if Sts_E \<noteq> BOF_ERR_NO_ERROR then Ret (s, 0)
           else
             bindO (BofRamDb_GetFirstElement s (Some c) (Some zero)) (\<lambda>(s, Elem, Sts_E).
               bindO
                 (if Sts_E \<noteq> BOF_ERR_NO_ERROR then Ret (s, if Sts_E \<noteq> BOF_ERR_EMPTY then 0 else Rts_S32)
                  else
                    bindO (db_check_records Compare (unat (db_mNbMaxElement_U32 s)) s c Elem 0) (\<lambda>(s, Total_U32, ok).
                      rdn (db_mppRamDbTree s) 0 (\<lambda>t.
                        Ret (s, if ok \<and> Total_U32 = BofAvlTree_GetNbNode t then Rts_S32 else 0))))
                 (\<lambda>(s, Rts_S32).
                   bindO (BofRamDb_FreeCursor s (Some (Some c))) (\<lambda>(s, pCursor_h, Sts_E).
                     Ret (s, if Sts_E \<noteq> BOF_ERR_NO_ERROR then 0 else Rts_S32))))
       | _ \<Rightarrow> Ret (s, 0))"

definition BofRamDb_CheckDb :: "'r db_compare \<Rightarrow> 'r \<Rightarrow> 'r BofRamDb \<Rightarrow> bool \<Rightarrow> ('r BofRamDb \<times> int) outcome" where
  "BofRamDb_CheckDb Compare zero s ExtendedTest_B =
     (let n = unat (db_mNbIndex_U32 s) in
      bindO (db_check_trees Compare (db_mpElementList s) n 0 (db_mppRamDbTree s) (1, 0)) (\<lambda>(Rts_S32, NbNode_U32).
        rdn (db_mppRamDbTree s) 0 (\<lambda>t.
          let Total_U32 = BofAvlTree_GetNbNode t;
              Rts_S32 = (if NbNode_U32 \<noteq> db_mNbIndex_U32 s * Total_U32 then 0 else Rts_S32);
              Rts_S32 = (if Total_U32 \<noteq> db_mNbRecord_U32 s then 0 else Rts_S32)
          in bindO (db_check_counts Total_U32 (n - 1) 1 (db_mppRamDbTree s) Rts_S32) (\<lambda>Rts_S32.
               let Total_U32 = of_nat (length (filter
                     (\<lambda>cur. cur_MagicNumber_U32 cur = BOFRAMDB_CURSOR_MAGICNUMBER) (db_mpCursorState_X s)));
                   Rts_S32 = (if of_nat BOFRAMDB_CURSOR_MAX - Total_U32 \<noteq> db_mNbFreeCursor_U32 s then 0 else Rts_S32)
               in if ExtendedTest_B
                  then bindO (db_check_free_list s Rts_S32) (db_check_entries Compare zero s)
                  else Ret (s, Rts_S32)))))"

end
