(* ===== verification/Bof_Table_Spec.thy ===== *)
theory Bof_Table_Spec
  imports Bof_Avl
begin

text \<open>
  The contract of a bounded table of records with several unique keys and a
  bounded number of cursors. The abstract table is a set of records and the
  indexes of its open cursors. A step gives the next table and the replies it
  may make; inside the locale every run of an implementation is proved to
  return and to follow the table.
\<close>

record 'r table =
  tb_recs :: "'r set"
  tb_curs :: "nat \<Rightarrow> nat option"

text \<open>What a client knows of the table: its capacity, the numbers of indexes and cursors, the keys.\<close>

record ('r, 'o) table_shape =
  ts_cap :: nat
  ts_keys :: nat
  ts_cursors :: nat
  ts_key :: "nat \<Rightarrow> 'r \<Rightarrow> 'o"
  ts_neq :: "'r \<Rightarrow> 'r \<Rightarrow> bool"

datatype 'r table_op =
    TbOpen nat
  | TbClose "nat option"
  | TbInsert "nat option" 'r
  | TbDelete 'r
  | TbUpdate "nat option" 'r 'r
  | TbFind "nat option" 'r BOFCMP
  | TbFirst "nat option"
  | TbLast "nat option"
  | TbClear

datatype 'r table_reply = TbCode BOFERR | TbCursor nat | TbRecord 'r

text \<open>The records agree on every key; a record shares a key with the table; every key of a record is in the table.\<close>

definition tb_same :: "('r, 'o) table_shape \<Rightarrow> 'r \<Rightarrow> 'r \<Rightarrow> bool" where
  "tb_same T a b \<longleftrightarrow> (\<forall>i \<in> {..<ts_keys T}. ts_key T i a = ts_key T i b)"

definition tb_clash :: "('r, 'o) table_shape \<Rightarrow> 'r \<Rightarrow> 'r set \<Rightarrow> bool" where
  "tb_clash T r R \<longleftrightarrow> (\<exists>i \<in> {..<ts_keys T}. \<exists>x \<in> R. ts_key T i x = ts_key T i r)"

definition tb_covers :: "('r, 'o) table_shape \<Rightarrow> 'r \<Rightarrow> 'r set \<Rightarrow> bool" where
  "tb_covers T r R \<longleftrightarrow> (\<forall>i \<in> {..<ts_keys T}. \<exists>x \<in> R. ts_key T i x = ts_key T i r)"

definition tb_without :: "('r, 'o) table_shape \<Rightarrow> 'r \<Rightarrow> 'r set \<Rightarrow> 'r set" where
  "tb_without T r R = {x \<in> R. \<not> tb_same T x r}"

definition tb_cursor :: "'r table \<Rightarrow> nat option \<Rightarrow> nat option" where
  "tb_cursor t h = (case h of None \<Rightarrow> None | Some c \<Rightarrow> tb_curs t c)"

text \<open>The records a search may give, and the answer to one.\<close>

fun tb_found :: "('r \<Rightarrow> 'o::linorder) \<Rightarrow> 'r \<Rightarrow> BOFCMP \<Rightarrow> 'r set \<Rightarrow> 'r set" where
  "tb_found key k BOF_CMP_EQUAL R = {x \<in> R. key x = key k}"
| "tb_found key k BOF_CMP_GREATEROREQUAL R = {x \<in> R. key k \<le> key x \<and> (\<forall>y \<in> R. key k \<le> key y \<longrightarrow> key x \<le> key y)}"
| "tb_found key k BOF_CMP_LESSOREQUAL R = {x \<in> R. key x \<le> key k \<and> (\<forall>y \<in> R. key y \<le> key k \<longrightarrow> key y \<le> key x)}"
| "tb_found key k _ R = {}"

definition tb_first :: "('r \<Rightarrow> 'o::linorder) \<Rightarrow> 'r set \<Rightarrow> 'r set" where
  "tb_first key R = {x \<in> R. \<forall>y \<in> R. key x \<le> key y}"

definition tb_last :: "('r \<Rightarrow> 'o::linorder) \<Rightarrow> 'r set \<Rightarrow> 'r set" where
  "tb_last key R = {x \<in> R. \<forall>y \<in> R. key y \<le> key x}"

definition tb_answer :: "BOFERR \<Rightarrow> 'r set \<Rightarrow> 'r table_reply set" where
  "tb_answer e R = (if R = {} then {TbCode e} else TbRecord ` R)"

fun table_step :: "('r, 'o::linorder) table_shape \<Rightarrow> 'r table_op \<Rightarrow> 'r table \<Rightarrow> 'r table \<times> 'r table_reply set" where
  "table_step T (TbOpen i) t =
     (if i < ts_keys T then
        case find (\<lambda>c. tb_curs t c = None) [0..<ts_cursors T] of
          None \<Rightarrow> (t, {TbCode BOF_ERR_NO_MORE})
        | Some c \<Rightarrow> (t\<lparr>tb_curs := (tb_curs t)(c \<mapsto> i)\<rparr>, {TbCursor c})
      else (t, {TbCode BOF_ERR_INDEX}))"
| "table_step T (TbClose h) t =
     (case h of
        Some c \<Rightarrow> if tb_curs t c \<noteq> None then (t\<lparr>tb_curs := (tb_curs t)(c := None)\<rparr>, {TbCode BOF_ERR_NO_ERROR})
                  else (t, {TbCode BOF_ERR_CURSOR})
      | None \<Rightarrow> (t, {TbCode BOF_ERR_CURSOR}))"
| "table_step T (TbInsert h r) t =
     (if tb_cursor t h = None then (t, {TbCode BOF_ERR_CURSOR})
      else if card (tb_recs t) = ts_cap T then (t, {TbCode BOF_ERR_FULL})
      else if tb_clash T r (tb_recs t) then (t, {TbCode BOF_ERR_DUPLICATE})
      else (t\<lparr>tb_recs := insert r (tb_recs t)\<rparr>, {TbCode BOF_ERR_NO_ERROR}))"
| "table_step T (TbDelete r) t =
     (if tb_covers T r (tb_recs t) then (t\<lparr>tb_recs := tb_without T r (tb_recs t)\<rparr>, {TbCode BOF_ERR_NO_ERROR})
      else (t, {TbCode BOF_ERR_NOT_FOUND}))"
| "table_step T (TbUpdate h old new) t =
     (if tb_cursor t h = None then (t, {TbCode BOF_ERR_CURSOR})
      else if \<not> ts_neq T old new then (t, {TbCode BOF_ERR_NO_ERROR})
      else if \<not> tb_covers T old (tb_recs t) then (t, {TbCode BOF_ERR_EINVAL})
      else if tb_clash T new (tb_without T old (tb_recs t)) then (t, {TbCode BOF_ERR_DUPLICATE})
      else (t\<lparr>tb_recs := insert new (tb_without T old (tb_recs t))\<rparr>, {TbCode BOF_ERR_NO_ERROR}))"
| "table_step T (TbFind h k c) t =
     (case tb_cursor t h of
        None \<Rightarrow> (t, {TbCode BOF_ERR_CURSOR})
      | Some i \<Rightarrow> (t, tb_answer BOF_ERR_EOF (tb_found (ts_key T i) k c (tb_recs t))))"
| "table_step T (TbFirst h) t =
     (case tb_cursor t h of
        None \<Rightarrow> (t, {TbCode BOF_ERR_CURSOR})
      | Some i \<Rightarrow> (t, tb_answer BOF_ERR_EMPTY (tb_first (ts_key T i) (tb_recs t))))"
| "table_step T (TbLast h) t =
     (case tb_cursor t h of
        None \<Rightarrow> (t, {TbCode BOF_ERR_CURSOR})
      | Some i \<Rightarrow> (t, tb_answer BOF_ERR_EMPTY (tb_last (ts_key T i) (tb_recs t))))"
| "table_step T TbClear t = (\<lparr>tb_recs = {}, tb_curs = \<lambda>_. None\<rparr>, {TbCode BOF_ERR_NO_ERROR})"

text \<open>
  What the table asks of its client: the handles are null or were given by the
  table, a record to delete or to update has the keys of one record of the
  table unless one of them is in no record, and a search asks for an equal key
  or for a neighbour.
\<close>

definition tb_handle :: "('r, 'o) table_shape \<Rightarrow> nat option \<Rightarrow> bool" where
  "tb_handle T h \<longleftrightarrow> (case h of None \<Rightarrow> True | Some c \<Rightarrow> c < ts_cursors T)"

definition tb_names_one :: "('r, 'o) table_shape \<Rightarrow> 'r \<Rightarrow> 'r set \<Rightarrow> bool" where
  "tb_names_one T r R \<longleftrightarrow> (tb_covers T r R \<longrightarrow> (\<exists>x \<in> R. tb_same T x r))"

fun table_allows :: "('r, 'o) table_shape \<Rightarrow> 'r table_op \<Rightarrow> 'r table \<Rightarrow> bool" where
  "table_allows T (TbOpen i) t \<longleftrightarrow> i < 2 ^ 32"
| "table_allows T (TbClose h) t \<longleftrightarrow> tb_handle T h"
| "table_allows T (TbInsert h r) t \<longleftrightarrow> tb_handle T h"
| "table_allows T (TbDelete r) t \<longleftrightarrow> tb_names_one T r (tb_recs t)"
| "table_allows T (TbUpdate h old new) t \<longleftrightarrow> tb_handle T h \<and> tb_names_one T old (tb_recs t)"
| "table_allows T (TbFind h k c) t \<longleftrightarrow> tb_handle T h \<and> c \<noteq> BOF_CMP_LESS \<and> c \<noteq> BOF_CMP_GREATER"
| "table_allows T (TbFirst h) t \<longleftrightarrow> tb_handle T h"
| "table_allows T (TbLast h) t \<longleftrightarrow> tb_handle T h"
| "table_allows T TbClear t \<longleftrightarrow> True"

fun table_safe :: "('r, 'o::linorder) table_shape \<Rightarrow> 'r table_op list \<Rightarrow> 'r table \<Rightarrow> bool" where
  "table_safe T [] t \<longleftrightarrow> True"
| "table_safe T (op # ops) t \<longleftrightarrow> table_allows T op t \<and> table_safe T ops (fst (table_step T op t))"

text \<open>The table after a run, and the replies it may make one after the other.\<close>

fun table_run :: "('r, 'o::linorder) table_shape \<Rightarrow> 'r table_op list \<Rightarrow> 'r table \<Rightarrow> 'r table \<times> 'r table_reply set list" where
  "table_run T [] t = (t, [])"
| "table_run T (op # ops) t =
     (case table_step T op t of (t, A) \<Rightarrow> (case table_run T ops t of (t, As) \<Rightarrow> (t, A # As)))"

fun table_impl_run ::
  "('r table_op \<Rightarrow> 's \<Rightarrow> ('s \<times> 'r table_reply) outcome) \<Rightarrow> 'r table_op list \<Rightarrow> 's \<Rightarrow> ('s \<times> 'r table_reply list) outcome" where
  "table_impl_run step [] s = Ret (s, [])"
| "table_impl_run step (op # ops) s =
     bindO (step op s) (\<lambda>(s, r). bindO (table_impl_run step ops s) (\<lambda>(s, rs). Ret (s, r # rs)))"

text \<open>A table within its bounds: no more records than its capacity, and no key twice.\<close>

definition table_ok :: "('r, 'o::linorder) table_shape \<Rightarrow> 'r table \<Rightarrow> bool" where
  "table_ok T t \<longleftrightarrow> finite (tb_recs t) \<and> card (tb_recs t) \<le> ts_cap T \<and>
     (\<forall>i \<in> {..<ts_keys T}. inj_on (ts_key T i) (tb_recs t))"

lemma tb_answer_single: "x \<in> R \<Longrightarrow> TbRecord x \<in> tb_answer e R"
  by (auto simp: tb_answer_def)

lemma tb_answer_empty: "R = {} \<Longrightarrow> TbCode e \<in> tb_answer e R"
  by (simp add: tb_answer_def)

locale record_table =
  fixes inv :: "'s \<Rightarrow> bool"
    and view :: "'s \<Rightarrow> 'r table"
    and shape :: "'s \<Rightarrow> ('r, 'o::linorder) table_shape"
    and step :: "'r table_op \<Rightarrow> 's \<Rightarrow> ('s \<times> 'r table_reply) outcome"
  assumes view_ok: "inv s \<Longrightarrow> table_ok (shape s) (view s)"
    and step_ok: "inv s \<Longrightarrow> table_allows (shape s) op (view s) \<Longrightarrow>
      \<exists>s' r. step op s = Ret (s', r) \<and> inv s' \<and> shape s' = shape s \<and> view s' = fst (table_step (shape s) op (view s)) \<and>
        r \<in> snd (table_step (shape s) op (view s))"
begin

lemma run_refines:
  assumes "inv s" "table_safe (shape s) ops (view s)"
  shows "\<exists>s' rs. table_impl_run step ops s = Ret (s', rs) \<and> inv s' \<and> shape s' = shape s \<and>
    view s' = fst (table_run (shape s) ops (view s)) \<and> list_all2 (\<in>) rs (snd (table_run (shape s) ops (view s)))"
  using assms
proof (induction ops arbitrary: s)
  case (Cons op ops)
  obtain s1 r where s1: "step op s = Ret (s1, r)" "inv s1" "shape s1 = shape s"
    "view s1 = fst (table_step (shape s) op (view s))" "r \<in> snd (table_step (shape s) op (view s))"
    using step_ok [OF Cons.prems(1), of op] Cons.prems(2) by auto
  obtain s2 rs where "table_impl_run step ops s1 = Ret (s2, rs)" "inv s2" "shape s2 = shape s1"
    "view s2 = fst (table_run (shape s1) ops (view s1))" "list_all2 (\<in>) rs (snd (table_run (shape s1) ops (view s1)))"
    using Cons.IH [OF s1(2)] Cons.prems(2) s1(3,4) by auto
  then show ?case using s1 by (simp add: case_prod_beta)
qed simp

lemma run_ok:
  assumes "inv s" "table_safe (shape s) ops (view s)" "table_impl_run step ops s = Ret (s', rs)"
  shows "table_ok (shape s) (view s')"
proof -
  obtain s2 rs2 where "table_impl_run step ops s = Ret (s2, rs2)" "inv s2" "shape s2 = shape s"
    using run_refines [OF assms(1,2)] by blast
  then show ?thesis using assms(3) view_ok [of s2] by simp
qed

end

end
