(* ===== verification/Bof_RamDb_Proofs.thy ===== *)
theory Bof_RamDb_Proofs
  imports Bof_RamDb Bof_Table_Spec Bof_Avl_Props
begin

text \<open>
  The trees of the database. What an AVL tree does is stated on the set of the
  pointers it holds, and the loops over the trees keep every tree on the same
  set.
\<close>

section \<open>The pointers of one tree\<close>

text \<open>A tree of capacity \<open>N\<close>, ordered by \<open>k\<close>, that holds the pointers \<open>S\<close>.\<close>

definition avl_holds :: "('k \<Rightarrow> 'o::linorder) \<Rightarrow> nat \<Rightarrow> 'k set \<Rightarrow> 'k BofAvlTree \<Rightarrow> bool" where
  "avl_holds k N S t \<longleftrightarrow> avl_tree_ok k t \<and> avt_cap t = N \<and> set (avt_contents t) = S"

lemma avl_holdsD:
  assumes "avl_holds k N S t"
  shows "avl_tree_ok k t" "avt_cap t = N" "set (avt_contents t) = S" "avl_sorted k (avt_mpRoot t)"
  using assms by (auto simp: avl_holds_def avl_tree_ok_def)

lemma avl_holds_distinct_keys: "avl_holds k N S t \<Longrightarrow> distinct (map k (avt_contents t))"
  using strict_sorted_map_distinct [of "\<lambda>x. x" "\<lambda>x. x" "map k (avt_contents t)"] avl_holdsD(4) [of k N S t]
  by (simp add: avl_sorted_iff avt_contents_def sorted_wrt_map)

lemma avl_holds_inj: "avl_holds k N S t \<Longrightarrow> inj_on k S"
  using avl_holds_distinct_keys avl_holdsD(3) by (metis distinct_map)

lemma avl_holds_distinct: "avl_holds k N S t \<Longrightarrow> distinct (avt_contents t)"
  using avl_holds_distinct_keys by (auto simp: distinct_map)

lemma avl_holds_length: "avl_holds k N S t \<Longrightarrow> length (avt_contents t) = card S"
  using avl_holds_distinct distinct_card avl_holdsD(3) by metis

lemma avl_holds_cong:
  assumes "avl_holds k N S t" "\<And>d. d \<in> S \<Longrightarrow> k' d = k d"
  shows "avl_holds k' N S t"
proof -
  have "sorted_wrt (\<lambda>x y. k' x < k' y) (avt_contents t)"
    using avl_holdsD(3,4) [OF assms(1)] assms(2)
    by (auto simp: avl_sorted_iff avt_contents_def intro: sorted_wrt_mono_rel [rotated])
  then show ?thesis using assms(1) by (simp add: avl_holds_def avl_tree_ok_def avl_sorted_iff avt_contents_def)
qed

lemma avl_insert_reply_simps [simp]: "avl_insert_reply r = IndexAdded \<longleftrightarrow> r = AvlInserted" "IndexAdded = avl_insert_reply r \<longleftrightarrow> r = AvlInserted"
  by (cases r; simp)+

lemma avl_holds_insert:
  assumes c: "avl_cmp_by cmp k" and h: "avl_holds k N S t" and room: "card S < N"
  shows "\<exists>t' r. BofAvlTree_Insert cmp t p = Ret (t', r) \<and>
    (if \<exists>d \<in> S. k d = k p then r \<noteq> AvlInserted \<and> avl_holds k N S t' else r = AvlInserted \<and> avl_holds k N (insert p S) t')"
proof -
  note hd = avl_holdsD [OF h]
  obtain t' r where t': "BofAvlTree_Insert cmp t p = Ret (t', r)" "avl_tree_ok k t'" "avt_cap t' = avt_cap t"
    "index_step (avt_cap t) k (IndexInsert p) (avt_contents t) = (avt_contents t', avl_insert_reply r)"
    using tree_insert [OF c hd(1)] by metis
  have has: "list_lookup_by k p (avt_contents t) = None \<longleftrightarrow> \<not> (\<exists>d \<in> S. k d = k p)"
    using hd(3) by (auto simp: list_lookup_by_def find_None_iff)
  have ins: "set (list_insert_by k p (avt_contents t)) = insert p S" if "\<not> (\<exists>d \<in> S. k d = k p)"
    using that hd(3) by (auto simp: list_insert_by_def not_less_iff_gr_or_eq)
  show ?thesis
    using t' has ins hd(2,3) room avl_holds_length [OF h]
    by (cases "list_lookup_by k p (avt_contents t)") (auto simp: avl_holds_def)
qed

lemma avl_holds_delete:
  assumes c: "avl_cmp_by cmp k" and h: "avl_holds k N S t" and x: "x \<in> S" "k x = k p"
  shows "\<exists>t'. BofAvlTree_Delete cmp t p BOF_CMP_EQUAL = Ret (t', Some x) \<and> avl_holds k N (S - {x}) t'"
proof -
  note hd = avl_holdsD [OF h]
  obtain t' r where t': "BofAvlTree_Delete cmp t p BOF_CMP_EQUAL = Ret (t', r)" "avl_tree_ok k t'" "avt_cap t' = avt_cap t"
    "index_step (avt_cap t) k (IndexDelete p) (avt_contents t) = (avt_contents t', avl_delete_reply r)"
    using tree_delete [OF c hd(1)] by metis
  have l: "list_lookup_by k p (avt_contents t) = Some x"
    using hd(3,4) x by (intro lookup_is) (auto simp: index_sorted_def avl_sorted_iff avt_contents_def)
  have "set (list_delete_by k p (avt_contents t)) = S - {x}"
    using hd(3) x avl_holds_inj [OF h] by (auto simp: list_delete_by_def inj_on_def)
  then show ?thesis using t' l hd(2) by (auto simp: avl_holds_def avl_delete_reply_def split: option.splits)
qed

lemma contents_nodes: "avt_contents t = map avl_mpData (avl_nodes (avt_mpRoot t))"
  by (simp add: avt_contents_def inorder_nodes)

lemma find_SomeD: "List.find P xs = Some x \<Longrightarrow> x \<in> set xs \<and> P x"
  by (auto simp: find_Some_iff)

text \<open>The node that a search for an equal key gives, and what it stands for.\<close>

lemma avl_holds_search:
  assumes c: "avl_cmp_by cmp k" and h: "avl_holds k N S t"
  shows "\<exists>n. BofAvlTree_Search cmp t p BOF_CMP_EQUAL = Ret n \<and>
    (if \<exists>d \<in> S. k d = k p then n \<noteq> NullNode \<and> avl_mpData n \<in> S \<and> k (avl_mpData n) = k p else n = NullNode)"
proof -
  let ?f = "List.find (\<lambda>n. k (avl_mpData n) = k p) (avl_nodes (avt_mpRoot t))"
  have "BofAvlTree_Search cmp t p BOF_CMP_EQUAL = Ret (avl_or_null ?f)"
    using descend_equal [OF c avl_holdsD(4) [OF h]] by (simp add: BofAvlTree_Search_def BofAvlNode_Search_def)
  moreover have "S = avl_mpData ` set (avl_nodes (avt_mpRoot t))" using avl_holdsD(3) [OF h] by (simp add: contents_nodes)
  ultimately show ?thesis
    by (cases ?f) (auto simp: find_None_iff dest!: find_SomeD)
qed

section \<open>The loops over the trees\<close>

definition db_key :: "(nat \<Rightarrow> 'r \<Rightarrow> 'o) \<Rightarrow> 'r list \<Rightarrow> nat \<Rightarrow> 'r db_ptr \<Rightarrow> 'o" where
  "db_key key els i p = key i (db_deref els p)"

text \<open>What the database asks of \<^verbatim>\<open>Compare\<close>: at each index it is the comparison of a linearly ordered key.\<close>

definition db_compare_by :: "'r db_compare \<Rightarrow> (nat \<Rightarrow> 'r \<Rightarrow> 'o::linorder) \<Rightarrow> bool" where
  "db_compare_by Compare key \<longleftrightarrow> (\<forall>i. avl_cmp_by (Compare i) (key i))"

lemma db_cmp_by: "db_compare_by Compare key \<Longrightarrow> avl_cmp_by (db_cmp Compare els i) (db_key key els i)"
  by (simp add: db_compare_by_def avl_cmp_by_def db_cmp_def db_key_def)

lemma db_compare_equal: "db_compare_by Compare key \<Longrightarrow> Compare i a b = BOF_CMP_EQUAL \<longleftrightarrow> key i a = key i b"
  by (auto simp: db_compare_by_def avl_cmp_by_def)

text \<open>\<open>n\<close> trees of capacity \<open>N\<close>; tree \<open>i\<close> holds the pointers \<open>A i\<close> in the order of key \<open>i\<close>.\<close>

definition db_trees ::
  "(nat \<Rightarrow> 'r \<Rightarrow> 'o::linorder) \<Rightarrow> 'r list \<Rightarrow> nat \<Rightarrow> nat \<Rightarrow> (nat \<Rightarrow> 'r db_ptr set) \<Rightarrow> 'r db_ptr BofAvlTree list \<Rightarrow> bool" where
  "db_trees key els n N A trees \<longleftrightarrow> length trees = n \<and> (\<forall>i < n. avl_holds (db_key key els i) N (A i) (trees ! i))"

lemma db_treesD: "db_trees key els n N A trees \<Longrightarrow> i < n \<Longrightarrow> avl_holds (db_key key els i) N (A i) (trees ! i)"
  by (simp add: db_trees_def)

lemma db_trees_update:
  "db_trees key els n N A trees \<Longrightarrow> avl_holds (db_key key els i) N B t \<Longrightarrow> db_trees key els n N (A(i := B)) (trees[i := t])"
  by (auto simp: db_trees_def nth_list_update)

lemma db_trees_cong:
  assumes "db_trees key els n N A trees" "\<And>i d. i < n \<Longrightarrow> d \<in> A i \<Longrightarrow> db_key key els' i d = db_key key els i d"
  shows "db_trees key els' n N A trees"
  using assms avl_holds_cong by (fastforce simp: db_trees_def)

text \<open>An insertion stops at the first tree that has the key; the trees before it hold the new pointer.\<close>

lemma db_insert_loop_ok:
  assumes c: "db_compare_by Compare key" and room: "card S < N"
    and inv: "db_trees key els n N (\<lambda>j. if j < i then insert p S else S) trees" "i + m = n"
  shows "\<exists>trees' j e. db_insert_loop Compare els p m i trees = Ret (trees', j, e) \<and>
    db_trees key els n N (\<lambda>k. if k < j then insert p S else S) trees' \<and>
    (if \<exists>k \<in> {i..<n}. \<exists>d \<in> S. db_key key els k d = db_key key els k p then j < n \<and> e = BOF_ERR_DUPLICATE
     else j = n \<and> e = BOF_ERR_NO_ERROR)"
  using inv
proof (induction m arbitrary: i trees)
  case (Suc m)
  have i: "i < n" "i < length trees" using Suc.prems by (auto simp: db_trees_def)
  have h: "avl_holds (db_key key els i) N S (trees ! i)" using db_treesD [OF Suc.prems(1) i(1)] by simp
  obtain t' r where t': "BofAvlTree_Insert (db_cmp Compare els i) (trees ! i) p = Ret (t', r)"
    "if \<exists>d \<in> S. db_key key els i d = db_key key els i p then r \<noteq> AvlInserted \<and> avl_holds (db_key key els i) N S t'
     else r = AvlInserted \<and> avl_holds (db_key key els i) N (insert p S) t'"
    using avl_holds_insert [OF db_cmp_by [OF c] h room] by blast
  show ?case
  proof (cases "\<exists>d \<in> S. db_key key els i d = db_key key els i p")
    case True
    have "(\<lambda>j. if j < i then insert p S else S)(i := S) = (\<lambda>j. if j < i then insert p S else S)" by (auto simp: fun_eq_iff)
    then have "db_trees key els n N (\<lambda>j. if j < i then insert p S else S) (trees[i := t'])"
      using db_trees_update [OF Suc.prems(1), of i S t'] t'(2) True by simp
    then show ?thesis using True t' i by auto
  next
    case False
    have "(\<lambda>j. if j < i then insert p S else S)(i := insert p S) = (\<lambda>j. if j < Suc i then insert p S else S)"
      by (auto simp: fun_eq_iff)
    then have "db_trees key els n N (\<lambda>j. if j < Suc i then insert p S else S) (trees[i := t'])"
      using db_trees_update [OF Suc.prems(1), of i "insert p S" t'] t'(2) False by simp
    from Suc.IH [OF this] Suc.prems(2) obtain trees' j e where
      "db_insert_loop Compare els p m (Suc i) (trees[i := t']) = Ret (trees', j, e)"
      "db_trees key els n N (\<lambda>k. if k < j then insert p S else S) trees'"
      "if \<exists>k \<in> {Suc i..<n}. \<exists>d \<in> S. db_key key els k d = db_key key els k p then j < n \<and> e = BOF_ERR_DUPLICATE
       else j = n \<and> e = BOF_ERR_NO_ERROR" by auto
    moreover have "(\<exists>k \<in> {i..<n}. \<exists>d \<in> S. db_key key els k d = db_key key els k p) \<longleftrightarrow>
      (\<exists>k \<in> {Suc i..<n}. \<exists>d \<in> S. db_key key els k d = db_key key els k p)"
      using False by (metis atLeastLessThan_iff le_antisym not_less_eq_eq Suc_leD)
    ultimately show ?thesis using False t' i by auto
  qed
qed auto

text \<open>The deletions take a pointer out of each tree that still holds it; the result is the one of the last tree.\<close>

lemma db_delete_loop_each:
  assumes c: "db_compare_by Compare key" and x: "\<And>k. k < n \<Longrightarrow> x k \<in> S" "\<And>k. k < n \<Longrightarrow> db_key key els k (x k) = db_key key els k p"
    and inv: "db_trees key els n N (\<lambda>j. if i \<le> j \<and> j < i + m then S else S - {x j}) trees" "i + m \<le> n"
  shows "\<exists>trees'. db_delete_loop Compare els p m i pData trees = Ret (trees', if m = 0 then pData else Some (x (i + m - 1))) \<and>
    db_trees key els n N (\<lambda>j. S - {x j}) trees'"
  using inv
proof (induction m arbitrary: i trees pData)
  case 0
  have "(\<lambda>j. if i \<le> j \<and> j < i + 0 then S else S - {x j}) = (\<lambda>j. S - {x j})" by (auto simp: fun_eq_iff)
  then show ?case using 0 by simp
next
  case (Suc m)
  have i: "i < n" "i < length trees" using Suc.prems by (auto simp: db_trees_def)
  have h: "avl_holds (db_key key els i) N S (trees ! i)" using db_treesD [OF Suc.prems(1) i(1)] by simp
  obtain t' where t': "BofAvlTree_Delete (db_cmp Compare els i) (trees ! i) p BOF_CMP_EQUAL = Ret (t', Some (x i))"
    "avl_holds (db_key key els i) N (S - {x i}) t'"
    using avl_holds_delete [OF db_cmp_by [OF c] h x(1) [OF i(1)] x(2) [OF i(1)]] by blast
  have "(\<lambda>j. if i \<le> j \<and> j < i + Suc m then S else S - {x j})(i := S - {x i}) = (\<lambda>j. if Suc i \<le> j \<and> j < Suc i + m then S else S - {x j})"
    by (auto simp: fun_eq_iff)
  then have "db_trees key els n N (\<lambda>j. if Suc i \<le> j \<and> j < Suc i + m then S else S - {x j}) (trees[i := t'])"
    using db_trees_update [OF Suc.prems(1) t'(2)] by simp
  from Suc.IH [OF this, of "Some (x i)"] Suc.prems(2) show ?case using t'(1) i(2) by (cases m) auto
qed

lemma db_delete_loop_ok:
  assumes c: "db_compare_by Compare key" and x: "x \<in> S" "\<And>k. k < n \<Longrightarrow> db_key key els k x = db_key key els k p"
    and inv: "db_trees key els n N (\<lambda>j. if i \<le> j \<and> j < i + m then S else S - {x}) trees" "i + m \<le> n"
  shows "\<exists>trees'. db_delete_loop Compare els p m i pData trees = Ret (trees', if m = 0 then pData else Some x) \<and>
    db_trees key els n N (\<lambda>_. S - {x}) trees'"
  using db_delete_loop_each [OF c, of n "\<lambda>_. x" S els p N i m trees pData] assms by simp

lemma db_search_loop_ok:
  assumes c: "db_compare_by Compare key" and inv: "db_trees key els n N (\<lambda>_. S) trees" "i + m \<le> n"
  shows "\<exists>j node'. db_search_loop Compare els p m i node trees = Ret (j, node') \<and>
    (if \<forall>k \<in> {i..<i + m}. \<exists>d \<in> S. db_key key els k d = db_key key els k p
     then j = i + m \<and> (if m = 0 then node' = node
       else node' \<noteq> NullNode \<and> avl_mpData node' \<in> S \<and> db_key key els (i + m - 1) (avl_mpData node') = db_key key els (i + m - 1) p)
     else j < i + m)"
  using inv(2)
proof (induction m arbitrary: i node)
  case (Suc m)
  have i: "i < n" "i < length trees" using Suc.prems inv(1) by (auto simp: db_trees_def)
  obtain nd where nd: "BofAvlTree_Search (db_cmp Compare els i) (trees ! i) p BOF_CMP_EQUAL = Ret nd"
    "if \<exists>d \<in> S. db_key key els i d = db_key key els i p
     then nd \<noteq> NullNode \<and> avl_mpData nd \<in> S \<and> db_key key els i (avl_mpData nd) = db_key key els i p else nd = NullNode"
    using avl_holds_search [OF db_cmp_by [OF c] db_treesD [OF inv(1) i(1)]] by blast
  have range: "{i..<i + Suc m} = insert i {Suc i..<Suc i + m}" by auto
  show ?case
  proof (cases "\<exists>d \<in> S. db_key key els i d = db_key key els i p")
    case True
    obtain j node' where r: "db_search_loop Compare els p m (Suc i) nd trees = Ret (j, node')"
      "if \<forall>k \<in> {Suc i..<Suc i + m}. \<exists>d \<in> S. db_key key els k d = db_key key els k p
       then j = Suc i + m \<and> (if m = 0 then node' = nd else node' \<noteq> NullNode \<and> avl_mpData node' \<in> S \<and>
         db_key key els (Suc i + m - 1) (avl_mpData node') = db_key key els (Suc i + m - 1) p)
       else j < Suc i + m" using Suc.IH [of "Suc i" nd] Suc.prems by auto
    have "db_search_loop Compare els p (Suc m) i node trees = Ret (j, node')" using True nd i(2) r(1) by simp
    moreover have "(\<forall>k \<in> {i..<i + Suc m}. \<exists>d \<in> S. db_key key els k d = db_key key els k p) \<longleftrightarrow>
      (\<forall>k \<in> {Suc i..<Suc i + m}. \<exists>d \<in> S. db_key key els k d = db_key key els k p)" using True unfolding range by simp
    ultimately show ?thesis using True nd(2) r(2)
      by (cases "m = 0") (simp_all only: if_True if_False ex_simps simp_thms outcome.inject prod.inject Suc_not_Zero add_Suc_right add_Suc, auto)
  next
    case False
    then show ?thesis using nd i(2) unfolding range by auto
  qed
qed auto

lemma db_duplicate_loop_ok:
  assumes c: "db_compare_by Compare key" and inv: "db_trees key els n N (\<lambda>_. S) trees" "i + m \<le> n"
  shows "db_duplicate_loop Compare els p m i trees =
    Ret (if \<exists>k \<in> {i..<i + m}. \<exists>d \<in> S. db_key key els k d = db_key key els k p then BOF_ERR_DUPLICATE else BOF_ERR_NO_ERROR)"
  using inv(2)
proof (induction m arbitrary: i)
  case (Suc m)
  have i: "i < n" "i < length trees" using Suc.prems inv(1) by (auto simp: db_trees_def)
  obtain nd where nd: "BofAvlTree_Search (db_cmp Compare els i) (trees ! i) p BOF_CMP_EQUAL = Ret nd"
    "nd \<noteq> NullNode \<longleftrightarrow> (\<exists>d \<in> S. db_key key els i d = db_key key els i p)"
    using avl_holds_search [OF db_cmp_by [OF c] db_treesD [OF inv(1) i(1)]] by metis
  have range: "{i..<i + Suc m} = insert i {Suc i..<Suc i + m}" by auto
  show ?case using Suc.IH [of "Suc i"] Suc.prems nd i(2) unfolding range by auto
qed auto

lemma db_same_loop_ok:
  assumes "db_compare_by Compare key"
  shows "db_same_loop Compare a b m i \<le> i + m \<and>
    (db_same_loop Compare a b m i = i + m \<longleftrightarrow> (\<forall>k \<in> {i..<i + m}. key k a = key k b))"
proof (induction m arbitrary: i)
  case (Suc m)
  have range: "{i..<i + Suc m} = insert i {Suc i..<Suc i + m}" by auto
  show ?case using Suc [of "Suc i"] db_compare_equal [OF assms] unfolding range by auto
qed auto

end
