(* ===== verification/Bof_RamDb_Inv.thy ===== *)
theory Bof_RamDb_Inv
  imports Bof_RamDb_Proofs
begin

text \<open>The invariant of the database, its view as a table, and what each method does to the view.\<close>

section \<open>The invariant\<close>

text \<open>The numbers of the unused entries in the order of their chain.\<close>

fun db_chain :: "u32 list \<Rightarrow> u32 \<Rightarrow> nat list \<Rightarrow> bool" where
  "db_chain fl nxt [] \<longleftrightarrow> nxt = db_none"
| "db_chain fl nxt (f # fs) \<longleftrightarrow> nxt = of_nat f \<and> f < length fl \<and> db_chain fl (fl ! f) fs"

text \<open>The pointers to the entries in use.\<close>

definition db_used :: "nat \<Rightarrow> nat list \<Rightarrow> 'r db_ptr set" where
  "db_used N fs = Slot ` ({..<N} - set fs)"

abbreviation db_cap :: "'r BofRamDb \<Rightarrow> nat" where
  "db_cap s \<equiv> unat (db_mNbMaxElement_U32 s)"

abbreviation db_nb :: "'r BofRamDb \<Rightarrow> nat" where
  "db_nb s \<equiv> unat (db_mNbIndex_U32 s)"

text \<open>The entries and the trees: every entry is in every tree or on the chain of the unused ones.\<close>

definition db_store :: "(nat \<Rightarrow> 'r \<Rightarrow> 'o::linorder) \<Rightarrow> 'r BofRamDb \<Rightarrow> nat list \<Rightarrow> bool" where
  "db_store key s fs \<longleftrightarrow> 0 < db_cap s \<and> 0 < db_nb s \<and>
     length (db_mpElementList s) = db_cap s \<and> length (db_mpRamDbFreeElementList_U32 s) = db_cap s \<and>
     distinct fs \<and> set fs \<subseteq> {..<db_cap s} \<and> db_chain (db_mpRamDbFreeElementList_U32 s) (db_mNextRamDbFreeElement_U32 s) fs \<and>
     db_mNbRecord_U32 s = of_nat (db_cap s - length fs) \<and>
     db_trees key (db_mpElementList s) (db_nb s) (db_cap s) (\<lambda>_. db_used (db_cap s) fs) (db_mppRamDbTree s)"

abbreviation cur_open :: "BOF_RAM_DB_CURSOR \<Rightarrow> bool" where
  "cur_open cur \<equiv> cur_MagicNumber_U32 cur = BOFRAMDB_CURSOR_MAGICNUMBER"

text \<open>The cursors: the counter counts the closed ones, and an open one has an index of the database.\<close>

definition db_cursors :: "'r BofRamDb \<Rightarrow> bool" where
  "db_cursors s \<longleftrightarrow> length (db_mpCursorState_X s) = BOFRAMDB_CURSOR_MAX \<and>
     db_mNbFreeCursor_U32 s = of_nat (length (filter (\<lambda>cur. \<not> cur_open cur) (db_mpCursorState_X s))) \<and>
     (\<forall>cur \<in> set (db_mpCursorState_X s). cur_open cur \<longrightarrow> cur_Index_U32 cur < db_mNbIndex_U32 s)"

definition db_ok :: "(nat \<Rightarrow> 'r \<Rightarrow> 'o::linorder) \<Rightarrow> 'r BofRamDb \<Rightarrow> bool" where
  "db_ok key s \<longleftrightarrow> recursive_mutex_ok (db_mMtx_X s) \<and> db_cursors s \<and> (\<exists>fs. db_store key s fs)"

section \<open>The view\<close>

text \<open>The records are those of the tree of index 0.\<close>

definition db_records :: "'r BofRamDb \<Rightarrow> 'r set" where
  "db_records s = db_deref (db_mpElementList s) ` set (avt_contents (db_mppRamDbTree s ! 0))"

definition db_open :: "'r BofRamDb \<Rightarrow> nat \<Rightarrow> nat option" where
  "db_open s c = (if c < length (db_mpCursorState_X s) \<and> cur_open (db_mpCursorState_X s ! c) then Some (db_index s c) else None)"

definition db_view :: "'r BofRamDb \<Rightarrow> 'r table" where
  "db_view s = \<lparr>tb_recs = db_records s, tb_curs = db_open s\<rparr>"

definition db_shape :: "(nat \<Rightarrow> 'r \<Rightarrow> 'o) \<Rightarrow> ('r \<Rightarrow> 'r \<Rightarrow> bool) \<Rightarrow> 'r BofRamDb \<Rightarrow> ('r, 'o) table_shape" where
  "db_shape key neq s = \<lparr>ts_cap = db_cap s, ts_keys = db_nb s, ts_cursors = BOFRAMDB_CURSOR_MAX, ts_key = key, ts_neq = neq\<rparr>"

lemma db_view_sel [simp]: "tb_recs (db_view s) = db_records s" "tb_curs (db_view s) = db_open s"
  by (simp_all add: db_view_def)

lemma db_shape_sel [simp]:
  "ts_cap (db_shape key neq s) = db_cap s" "ts_keys (db_shape key neq s) = db_nb s"
  "ts_cursors (db_shape key neq s) = BOFRAMDB_CURSOR_MAX" "ts_key (db_shape key neq s) = key" "ts_neq (db_shape key neq s) = neq"
  by (simp_all add: db_shape_def)

text \<open>The fields that the parts of the invariant do not depend on.\<close>

lemma db_store_frame [simp]:
  "db_store key (s\<lparr>db_mMtx_X := m\<rparr>) fs = db_store key s fs"
  "db_store key (s\<lparr>db_mDbRamStat_X := d\<rparr>) fs = db_store key s fs"
  "db_store key (s\<lparr>db_mpCursorState_X := cs\<rparr>) fs = db_store key s fs"
  "db_store key (s\<lparr>db_mNbFreeCursor_U32 := w\<rparr>) fs = db_store key s fs"
  by (simp_all add: db_store_def)

lemma db_records_frame [simp]:
  "db_records (s\<lparr>db_mMtx_X := m\<rparr>) = db_records s" "db_records (s\<lparr>db_mDbRamStat_X := d\<rparr>) = db_records s"
  "db_records (s\<lparr>db_mpCursorState_X := cs\<rparr>) = db_records s" "db_records (s\<lparr>db_mNbFreeCursor_U32 := w\<rparr>) = db_records s"
  by (simp_all add: db_records_def)

lemma db_open_frame [simp]:
  "db_open (s\<lparr>db_mMtx_X := m\<rparr>) = db_open s" "db_open (s\<lparr>db_mDbRamStat_X := d\<rparr>) = db_open s"
  by (simp_all add: db_open_def fun_eq_iff)

lemma db_storeD:
  assumes "db_store key s fs"
  shows "0 < db_cap s" "0 < db_nb s" "length (db_mpElementList s) = db_cap s"
    "length (db_mpRamDbFreeElementList_U32 s) = db_cap s" "distinct fs" "set fs \<subseteq> {..<db_cap s}"
    "db_chain (db_mpRamDbFreeElementList_U32 s) (db_mNextRamDbFreeElement_U32 s) fs"
    "db_mNbRecord_U32 s = of_nat (db_cap s - length fs)"
    "db_trees key (db_mpElementList s) (db_nb s) (db_cap s) (\<lambda>_. db_used (db_cap s) fs) (db_mppRamDbTree s)"
    "length (db_mppRamDbTree s) = db_nb s"
  using assms by (auto simp: db_store_def db_trees_def)

lemma db_store_tree:
  "db_store key s fs \<Longrightarrow> i < db_nb s \<Longrightarrow>
     avl_holds (db_key key (db_mpElementList s) i) (db_cap s) (db_used (db_cap s) fs) (db_mppRamDbTree s ! i)"
  using db_storeD(9) db_treesD by fast

lemma db_records_store: "db_store key s fs \<Longrightarrow> db_records s = (!) (db_mpElementList s) ` ({..<db_cap s} - set fs)"
  using avl_holdsD(3) [OF db_store_tree [of key s fs 0]] db_storeD(2) [of key s fs]
  by (simp add: db_records_def db_used_def image_image)

lemma db_records_used: "db_store key s fs \<Longrightarrow> db_records s = db_deref (db_mpElementList s) ` db_used (db_cap s) fs"
  by (simp add: db_records_store db_used_def image_image)

text \<open>Each key is unique among the records, and there is one record for each entry in use.\<close>

lemma db_records_inj:
  assumes "db_store key s fs" "i < db_nb s"
  shows "inj_on (key i) (db_records s)"
  using avl_holds_inj [OF db_store_tree [OF assms]] unfolding db_records_used [OF assms(1)]
  by (auto simp: inj_on_def db_key_def)

lemma db_slots_inj:
  assumes "db_store key s fs"
  shows "inj_on ((!) (db_mpElementList s)) ({..<db_cap s} - set fs)"
  using avl_holds_inj [OF db_store_tree [OF assms db_storeD(2) [OF assms]]]
  by (auto simp: inj_on_def db_key_def db_used_def)

lemma db_records_card:
  assumes "db_store key s fs"
  shows "card (db_records s) = db_cap s - length fs" "finite (db_records s)"
  using db_slots_inj [OF assms] db_storeD(5,6) [OF assms]
  by (simp_all add: db_records_store [OF assms] card_image card_Diff_subset distinct_card)

lemma db_chain_length: "db_store key s fs \<Longrightarrow> length fs \<le> db_cap s"
  using db_storeD(5,6) [of key s fs] card_mono [of "{..<db_cap s}" "set fs"] by (simp add: distinct_card)

lemma db_full_iff: "db_store key s fs \<Longrightarrow> card (db_records s) = db_cap s \<longleftrightarrow> fs = []"
  using db_chain_length [of key s fs] db_records_card [of key s fs] db_storeD(1) [of key s fs] by (cases fs) auto

lemma db_record_count: "db_store key s fs \<Longrightarrow> unat (db_mNbRecord_U32 s) = card (db_records s)"
  using db_records_card [of key s fs] db_storeD(8) [of key s fs] by (simp add: unat_of_nat_le [of _ "db_mNbMaxElement_U32 s"])

text \<open>The number of an entry is never the mark of the end of the chain.\<close>

lemma slot_word:
  assumes "f < unat (n::u32)"
  shows "unat (of_nat f :: u32) = f" "of_nat f \<noteq> db_none" "(of_nat f :: u32) < n"
proof -
  show u: "unat (of_nat f :: u32) = f" using assms by (intro unat_of_nat_le [of _ n]) simp
  have "unat n < 2 ^ LENGTH(32)" by (rule unsigned_less)
  moreover have "unat db_none = 2 ^ 32 - 1" by (simp add: db_none_def)
  ultimately show "of_nat f \<noteq> db_none" using u assms by auto
  show "(of_nat f :: u32) < n" using u assms by (simp add: word_less_nat_alt)
qed

lemma db_chain_update: "p \<notin> set fs \<Longrightarrow> db_chain (fl[p := v]) nxt fs = db_chain fl nxt fs"
  by (induction fs arbitrary: nxt) auto

section \<open>The mutex\<close>

lemma db_guard_ok:
  assumes rdy: "recursive_mutex_ok (db_mMtx_X s)"
    and body: "\<And>m. recursive_mutex_ok m \<Longrightarrow> \<exists>t r. body (s\<lparr>db_mMtx_X := m\<rparr>) = Ret (t, r) \<and> db_mMtx_X t = m \<and> Q t r"
    and stable: "\<And>t m r. Q t r \<Longrightarrow> Q (t\<lparr>db_mMtx_X := m\<rparr>) r"
  shows "\<exists>t r. db_guard s body = Ret (t, r) \<and> db_mMtx_X t = db_mMtx_X s \<and> Q t r"
proof -
  obtain m' where m': "Bof_LockMutex (db_mMtx_X s) = Ret (m', BOF_ERR_NO_ERROR)" "recursive_mutex_ok m'"
    "Bof_UnlockMutex m' = Ret (db_mMtx_X s, BOF_ERR_NO_ERROR)" using recursive_mutex_cycle [OF rdy] by blast
  obtain t r where t: "body (s\<lparr>db_mMtx_X := m'\<rparr>) = Ret (t, r)" "db_mMtx_X t = m'" "Q t r" using body [OF m'(2)] by blast
  then show ?thesis using m' stable [OF t(3), of "db_mMtx_X s"] by (simp add: db_guard_def)
qed

lemma db_with_cursor_open: "db_open s c \<noteq> None \<Longrightarrow> db_with_cursor s (Some c) bad ok = ok c"
  by (auto simp: db_with_cursor_def db_open_def split: if_splits)

lemma db_with_cursor_closed:
  "db_cursors s \<Longrightarrow> tb_handle (db_shape key neq s) h \<Longrightarrow> tb_cursor (db_view s) h = None \<Longrightarrow> db_with_cursor s h bad ok = bad"
  by (cases h) (auto simp: db_with_cursor_def db_open_def tb_handle_def tb_cursor_def db_cursors_def split: if_splits)

section \<open>Changes of the records\<close>

text \<open>The records become \<open>R\<close>; the cursors, the bounds and the mutex stay.\<close>

definition db_becomes :: "(nat \<Rightarrow> 'r \<Rightarrow> 'o::linorder) \<Rightarrow> 'r BofRamDb \<Rightarrow> 'r set \<Rightarrow> 'r BofRamDb \<Rightarrow> bool" where
  "db_becomes key s R t \<longleftrightarrow> (\<exists>fs. db_store key t fs) \<and> db_records t = R \<and>
     db_mNbMaxElement_U32 t = db_mNbMaxElement_U32 s \<and> db_mNbIndex_U32 t = db_mNbIndex_U32 s \<and>
     db_mpCursorState_X t = db_mpCursorState_X s \<and> db_mNbFreeCursor_U32 t = db_mNbFreeCursor_U32 s"

lemma db_becomes_frame [simp]:
  "db_becomes key s R (t\<lparr>db_mMtx_X := m\<rparr>) = db_becomes key s R t"
  "db_becomes key s R (t\<lparr>db_mDbRamStat_X := d\<rparr>) = db_becomes key s R t"
  "db_becomes key (s\<lparr>db_mMtx_X := m\<rparr>) R t = db_becomes key s R t"
  "db_becomes key (s\<lparr>db_mDbRamStat_X := d\<rparr>) R t = db_becomes key s R t"
  by (simp_all add: db_becomes_def)

lemma db_becomesD:
  assumes "db_becomes key s R t"
  shows "\<exists>fs. db_store key t fs" "db_records t = R" "db_mNbMaxElement_U32 t = db_mNbMaxElement_U32 s"
    "db_mNbIndex_U32 t = db_mNbIndex_U32 s" "db_mpCursorState_X t = db_mpCursorState_X s"
    "db_open t = db_open s" "db_shape key neq t = db_shape key neq s"
  using assms by (auto simp: db_becomes_def db_open_def db_shape_def fun_eq_iff)

lemma db_becomes_trans: "db_becomes key s R t \<Longrightarrow> db_becomes key t R' u \<Longrightarrow> db_becomes key s R' u"
  by (simp add: db_becomes_def)

lemma db_becomes_refl: "db_store key s fs \<Longrightarrow> db_becomes key s (db_records s) s"
  by (auto simp: db_becomes_def)

text \<open>A record shares a key with the table when its pointer shares it with a pointer in use.\<close>

lemma db_clash_iff:
  assumes "db_store key s fs" "\<And>i. db_key key els i p = key i r" "\<And>x. x \<in> db_used (db_cap s) fs \<Longrightarrow> db_deref els x = db_deref (db_mpElementList s) x"
  shows "(\<exists>i \<in> {0..<db_nb s}. \<exists>d \<in> db_used (db_cap s) fs. db_key key els i d = db_key key els i p) \<longleftrightarrow>
    tb_clash (db_shape key neq s) r (db_records s)"
  using assms(2,3) by (simp add: tb_clash_def db_records_used [OF assms(1)] db_key_def lessThan_atLeast0)

section \<open>Insertion\<close>

text \<open>Writing the first unused entry touches no entry in use.\<close>

lemma db_free_entry:
  fixes s :: "'a BofRamDb"
  assumes "db_store key s (f # fs)"
  shows "Slot f \<notin> (db_used (db_cap s) (f # fs) :: 'a db_ptr set)"
    "insert (Slot f) (db_used (db_cap s) (f # fs) :: 'a db_ptr set) = db_used (db_cap s) fs"
    "card (db_used (db_cap s) (f # fs) :: 'a db_ptr set) < db_cap s"
proof -
  note st = db_storeD [OF assms]
  show "Slot f \<notin> (db_used (db_cap s) (f # fs) :: 'a db_ptr set)"
    "insert (Slot f) (db_used (db_cap s) (f # fs) :: 'a db_ptr set) = db_used (db_cap s) fs"
    using st(5,6) by (auto simp: db_used_def)
  have "card (db_used (db_cap s) (f # fs) :: 'a db_ptr set) = card ({..<db_cap s} - set (f # fs))"
    unfolding db_used_def by (intro card_image) (auto simp: inj_on_def)
  also have "\<dots> < card {..<db_cap s}" using st(6) by (intro psubset_card_mono) auto
  finally show "card (db_used (db_cap s) (f # fs) :: 'a db_ptr set) < db_cap s" by simp
qed

lemma db_write_free:
  assumes "db_store key s (f # fs)"
  shows "db_trees key ((db_mpElementList s)[f := e]) (db_nb s) (db_cap s) (\<lambda>_. db_used (db_cap s) (f # fs)) (db_mppRamDbTree s)"
    "\<And>x. x \<in> db_used (db_cap s) (f # fs) \<Longrightarrow> db_deref ((db_mpElementList s)[f := e]) x = db_deref (db_mpElementList s) x"
    "\<And>i. db_key key ((db_mpElementList s)[f := e]) i (Slot f) = key i e"
proof -
  note st = db_storeD [OF assms]
  show d: "db_deref ((db_mpElementList s)[f := e]) x = db_deref (db_mpElementList s) x" if "x \<in> db_used (db_cap s) (f # fs)" for x
    using that by (auto simp: db_used_def) (metis nth_list_update_neq)
  show "db_trees key ((db_mpElementList s)[f := e]) (db_nb s) (db_cap s) (\<lambda>_. db_used (db_cap s) (f # fs)) (db_mppRamDbTree s)"
    by (rule db_trees_cong [OF st(9)]) (simp add: db_key_def d)
  show "db_key key ((db_mpElementList s)[f := e]) i (Slot f) = key i e" for i using st(3,6) by (simp add: db_key_def)
qed

lemma db_store_next:
  assumes "db_store key s (f # fs)"
  shows "db_mNextRamDbFreeElement_U32 s = of_nat f" "f < db_cap s" "unat (db_mNextRamDbFreeElement_U32 s) = f"
    "db_mNextRamDbFreeElement_U32 s \<noteq> db_none" "db_chain (db_mpRamDbFreeElementList_U32 s) (db_mpRamDbFreeElementList_U32 s ! f) fs"
  using db_storeD [OF assms] slot_word [of f "db_mNbMaxElement_U32 s"] by auto

lemma db_store_grown:
  assumes st: "db_store key s (f # fs)"
    and tr: "db_trees key ((db_mpElementList s)[f := e]) (db_nb s) (db_cap s) (\<lambda>_. db_used (db_cap s) fs) trees"
  shows "db_becomes key s (insert e (db_records s)) (s\<lparr>db_mpElementList := (db_mpElementList s)[f := e], db_mppRamDbTree := trees,
    db_mNbRecord_U32 := db_mNbRecord_U32 s + 1, db_mNextRamDbFreeElement_U32 := db_mpRamDbFreeElementList_U32 s ! f\<rparr>)"
    (is "db_becomes key s _ ?t")
proof -
  note d = db_storeD [OF st] and nx = db_store_next [OF st] and w = db_write_free(2) [OF st, where e = e] db_free_entry(2) [OF st]
  have "length fs + 1 \<le> db_cap s" using db_chain_length [OF st] by simp
  then have "db_mNbRecord_U32 s + 1 = of_nat (db_cap s - length fs)" using d(8) by simp
  then have t: "db_store key ?t fs" using d nx tr by (simp add: db_store_def)
  have "db_deref ((db_mpElementList s)[f := e]) ` db_used (db_cap s) fs =
      insert e (db_deref ((db_mpElementList s)[f := e]) ` db_used (db_cap s) (f # fs))"
    using d(3) nx(2) by (simp flip: w(2))
  also have "\<dots> = insert e (db_records s)" using w(1) by (simp add: db_records_used [OF st] cong: image_cong_simp)
  finally have "db_records ?t = insert e (db_records s)" by (simp add: db_records_used [OF t])
  then show ?thesis using t by (auto simp: db_becomes_def)
qed

lemma db_store_refused:
  assumes st: "db_store key s (f # fs)"
    and tr: "db_trees key ((db_mpElementList s)[f := e]) (db_nb s) (db_cap s) (\<lambda>_. db_used (db_cap s) (f # fs)) trees"
  shows "db_becomes key s (db_records s) (s\<lparr>db_mpElementList := (db_mpElementList s)[f := e], db_mppRamDbTree := trees\<rparr>)"
    (is "db_becomes key s _ ?t")
proof -
  have t: "db_store key ?t (f # fs)" using db_storeD [OF st] tr by (simp add: db_store_def)
  have "db_records ?t = db_records s"
    using db_write_free(2) [OF st, where e = e] by (simp add: db_records_used [OF t] db_records_used [OF st] cong: image_cong_simp)
  then show ?thesis using t by (auto simp: db_becomes_def)
qed

lemma Insert_body:
  assumes c: "db_compare_by Compare key" and st: "db_store key s (f # fs)"
  shows "\<exists>trees j e'. db_insert_loop Compare ((db_mpElementList s)[f := e]) (Slot f) (db_nb s) 0 (db_mppRamDbTree s) = Ret (trees, j, e') \<and>
    (if tb_clash (db_shape key neq s) e (db_records s)
     then e' = BOF_ERR_DUPLICATE \<and> (\<exists>trees' d. db_delete_loop Compare ((db_mpElementList s)[f := e]) (Slot f) j 0 None trees = Ret (trees', d) \<and>
       db_trees key ((db_mpElementList s)[f := e]) (db_nb s) (db_cap s) (\<lambda>_. db_used (db_cap s) (f # fs)) trees')
     else e' = BOF_ERR_NO_ERROR \<and> db_trees key ((db_mpElementList s)[f := e]) (db_nb s) (db_cap s) (\<lambda>_. db_used (db_cap s) fs) trees)"
proof -
  let ?els = "(db_mpElementList s)[f := e]" and ?n = "db_nb s" and ?N = "db_cap s" and ?S = "db_used (db_cap s) (f # fs) :: 'a db_ptr set"
  note w = db_write_free [OF st, where e = e] and f = db_free_entry [OF st]
  have upto: "db_trees key ?els ?n ?N (\<lambda>j. if j < 0 then insert (Slot f) ?S else ?S) (db_mppRamDbTree s)" using w(1) by simp
  obtain trees j e' where r: "db_insert_loop Compare ?els (Slot f) ?n 0 (db_mppRamDbTree s) = Ret (trees, j, e')"
    "db_trees key ?els ?n ?N (\<lambda>k. if k < j then insert (Slot f) ?S else ?S) trees"
    "if \<exists>k \<in> {0..<?n}. \<exists>d \<in> ?S. db_key key ?els k d = db_key key ?els k (Slot f) then j < ?n \<and> e' = BOF_ERR_DUPLICATE
     else j = ?n \<and> e' = BOF_ERR_NO_ERROR" using db_insert_loop_ok [OF c f(3) upto] by auto
  have "(\<exists>k \<in> {0..<?n}. \<exists>d \<in> ?S. db_key key ?els k d = db_key key ?els k (Slot f)) = tb_clash (db_shape key neq s) e (db_records s)"
    by (rule db_clash_iff [OF st]) (use w(2,3) in auto)
  then have cl: "if tb_clash (db_shape key neq s) e (db_records s) then j < ?n \<and> e' = BOF_ERR_DUPLICATE else j = ?n \<and> e' = BOF_ERR_NO_ERROR"
    using r(3) by (simp only:)
  have del: "\<exists>trees' d. db_delete_loop Compare ?els (Slot f) j 0 None trees = Ret (trees', d) \<and> db_trees key ?els ?n ?N (\<lambda>_. ?S) trees'" if "j < ?n"
  proof -
    have sub: "insert (Slot f) ?S - {Slot f} = ?S" using f(1) by simp
    have "(\<lambda>k. if k < j then insert (Slot f) ?S else ?S) = (\<lambda>k. if 0 \<le> k \<and> k < 0 + j then insert (Slot f) ?S else insert (Slot f) ?S - {Slot f})"
      unfolding sub by (simp add: fun_eq_iff)
    from db_delete_loop_ok [OF c _ _ r(2) [unfolded this], of "Slot f" None] that sub show ?thesis by auto
  qed
  have "db_trees key ?els ?n ?N (\<lambda>_. insert (Slot f) ?S) trees" if "j = ?n"
    using r(2) that by (simp add: db_trees_def)
  then show ?thesis using r(1) cl del f(2) by (cases "tb_clash (db_shape key neq s) e (db_records s)") auto
qed

lemma Insert_ok:
  assumes c: "db_compare_by Compare key" and m: "recursive_mutex_ok (db_mMtx_X s)" and st: "db_store key s fs" and cu: "db_open s cu \<noteq> None"
  shows "\<exists>t. BofRamDb_InsertElement Compare s (Some cu) (Some e) =
      Ret (t, if card (db_records s) = db_cap s then BOF_ERR_FULL
              else if tb_clash (db_shape key neq s) e (db_records s) then BOF_ERR_DUPLICATE else BOF_ERR_NO_ERROR) \<and>
    db_mMtx_X t = db_mMtx_X s \<and>
    db_becomes key s (if card (db_records s) = db_cap s \<or> tb_clash (db_shape key neq s) e (db_records s)
      then db_records s else insert e (db_records s)) t"
proof -
  let ?s = "db_stat (\<lambda>d. d\<lparr>dbs_NbInsertRequest_U32 := dbs_NbInsertRequest_U32 d + 1\<rparr>) s"
  let ?full = "card (db_records s) = db_cap s" and ?clash = "tb_clash (db_shape key neq s) e (db_records s)"
  let ?Q = "\<lambda>t r. r = (if ?full then BOF_ERR_FULL else if ?clash then BOF_ERR_DUPLICATE else BOF_ERR_NO_ERROR) \<and>
    db_becomes key s (if ?full \<or> ?clash then db_records s else insert e (db_records s)) t"
  have o: "db_open ?s cu \<noteq> None" using cu by simp
  have "\<exists>t r. BofRamDb_InsertElement Compare s (Some cu) (Some e) = Ret (t, r) \<and> db_mMtx_X t = db_mMtx_X ?s \<and> ?Q t r"
    unfolding BofRamDb_InsertElement_def Let_def db_with_cursor_open [OF o] option.case
  proof (rule db_guard_ok, goal_cases)
    case (2 m)
    show ?case
    proof (cases fs)
      case Nil
      then show ?thesis using st db_full_iff [OF st] db_storeD(7) [OF st] db_becomes_refl [OF st] by simp
    next
      case (Cons f gs)
      note st' = st [unfolded Cons]
      have nf: "\<not> ?full" using db_full_iff [OF st'] by simp
      obtain trees j e' where r: "db_insert_loop Compare ((db_mpElementList s)[f := e]) (Slot f) (db_nb s) 0 (db_mppRamDbTree s) = Ret (trees, j, e')"
        "if ?clash then e' = BOF_ERR_DUPLICATE \<and> (\<exists>trees' d. db_delete_loop Compare ((db_mpElementList s)[f := e]) (Slot f) j 0 None trees = Ret (trees', d) \<and>
           db_trees key ((db_mpElementList s)[f := e]) (db_nb s) (db_cap s) (\<lambda>_. db_used (db_cap s) (f # gs)) trees')
         else e' = BOF_ERR_NO_ERROR \<and> db_trees key ((db_mpElementList s)[f := e]) (db_nb s) (db_cap s) (\<lambda>_. db_used (db_cap s) gs) trees"
        using Insert_body [OF c st'] by blast
      have "db_store key (s\<lparr>db_mMtx_X := m\<rparr>) (f # gs)" using st' by simp
      note g = db_store_grown [OF this, of e] and h = db_store_refused [OF this, of e]
      show ?thesis using r nf db_store_next [OF st'] db_storeD(3,4) [OF st'] g h by (cases ?clash) auto
    qed
  qed (use m in auto)
  then show ?thesis by auto
qed

section \<open>Deletion\<close>

lemma tb_without_one:
  assumes "db_store key s fs" "x \<in> db_records s" "tb_same (db_shape key neq s) x r"
  shows "tb_without (db_shape key neq s) r (db_records s) = db_records s - {x}"
proof -
  note n = db_storeD(2) [OF assms(1)]
  have "y = x" if "y \<in> db_records s" "tb_same (db_shape key neq s) y r" for y
    using inj_onD [OF db_records_inj [OF assms(1) n] _ that(1) assms(2)] that(2) assms(3) n by (simp add: tb_same_def)
  then show ?thesis using assms(3) by (auto simp: tb_without_def)
qed

lemma db_covers_iff:
  assumes "db_store key s fs"
  shows "(\<forall>i \<in> {0..<0 + db_nb s}. \<exists>d \<in> db_used (db_cap s) fs. db_key key (db_mpElementList s) i d = db_key key (db_mpElementList s) i (Arg r)) \<longleftrightarrow>
    tb_covers (db_shape key neq s) r (db_records s)"
  by (simp add: tb_covers_def db_records_used [OF assms] db_key_def lessThan_atLeast0)

text \<open>The entry of the record that a key names.\<close>

lemma db_named_slot:
  assumes "db_store key s fs" "x \<in> db_records s"
  obtains p where "p < db_cap s" "p \<notin> set fs" "db_mpElementList s ! p = x" "Slot p \<in> (db_used (db_cap s) fs :: 'r db_ptr set)"
  using assms(2) unfolding db_records_store [OF assms(1)] by (auto simp: db_used_def)

lemma db_store_shrunk:
  assumes st: "db_store key s fs" and p: "p < db_cap s" "p \<notin> set fs" "db_mpElementList s ! p = x"
    and tr: "db_trees key (db_mpElementList s) (db_nb s) (db_cap s) (\<lambda>_. db_used (db_cap s) fs - {Slot p}) trees"
  shows "db_becomes key s (db_records s - {x}) (s\<lparr>db_mppRamDbTree := trees, db_mNbRecord_U32 := db_mNbRecord_U32 s - 1,
    db_mpRamDbFreeElementList_U32 := (db_mpRamDbFreeElementList_U32 s)[p := db_mNextRamDbFreeElement_U32 s],
    db_mNextRamDbFreeElement_U32 := of_nat p\<rparr>)"
    (is "db_becomes key s _ ?t")
proof -
  note d = db_storeD [OF st]
  have u: "db_used (db_cap s) fs - {Slot p} = (db_used (db_cap s) (p # fs) :: 'a db_ptr set)" by (auto simp: db_used_def)
  have "card (set (p # fs)) \<le> card {..<db_cap s}" using d(6) p(1) by (intro card_mono) auto
  then have "length fs < db_cap s" using d(5) p(2) by (simp add: distinct_card)
  then have "db_mNbRecord_U32 s - 1 = of_nat (db_cap s - length (p # fs))" using d(8) by simp
  then have t: "db_store key ?t (p # fs)" using d p tr u by (simp add: db_store_def db_chain_update)
  have "{..<db_cap s} - set (p # fs) = ({..<db_cap s} - set fs) - {p}" by auto
  then have "(!) (db_mpElementList s) ` ({..<db_cap s} - set (p # fs)) = db_records s - {x}"
    using p inj_on_image_set_diff [OF db_slots_inj [OF st], of "{..<db_cap s} - set fs" "{p}"]
    by (simp only: db_records_store [OF st]) simp
  then have "db_records ?t = db_records s - {x}" using db_records_store [OF t] by simp
  then show ?thesis using t by (auto simp: db_becomes_def)
qed

lemma Delete_trees:
  assumes c: "db_compare_by Compare key" and st: "db_store key s fs"
    and x: "x \<in> db_records s" "tb_same (db_shape key neq s) x r"
  shows "\<exists>trees p. db_delete_loop Compare (db_mpElementList s) (Arg r) (db_nb s) 0 None (db_mppRamDbTree s) = Ret (trees, Some (Slot p)) \<and>
    p < db_cap s \<and> p \<notin> set fs \<and> db_mpElementList s ! p = x \<and>
    db_trees key (db_mpElementList s) (db_nb s) (db_cap s) (\<lambda>_. db_used (db_cap s) fs - {Slot p}) trees"
proof -
  let ?S = "db_used (db_cap s) fs :: 'a db_ptr set"
  obtain p where p: "p < db_cap s" "p \<notin> set fs" "db_mpElementList s ! p = x" "Slot p \<in> ?S" using db_named_slot [OF st x(1)] by blast
  have k: "db_key key (db_mpElementList s) i (Slot p) = db_key key (db_mpElementList s) i (Arg r)" if "i < db_nb s" for i
    using x(2) p(3) that by (simp add: tb_same_def db_key_def)
  have "db_trees key (db_mpElementList s) (db_nb s) (db_cap s) (\<lambda>j. if 0 \<le> j \<and> j < 0 + db_nb s then ?S else ?S - {Slot p}) (db_mppRamDbTree s)"
    using db_storeD(9) [OF st] by (simp add: db_trees_def)
  from db_delete_loop_ok [OF c p(4) k this, of None] show ?thesis using p db_storeD(2) [OF st] by auto
qed

text \<open>The search in every tree, and the node it ends on.\<close>

lemma db_present:
  assumes c: "db_compare_by Compare key" and st: "db_store key s fs"
  shows "\<exists>j node. db_search_loop Compare (db_mpElementList s) (Arg r) (db_nb s) 0 NullNode (db_mppRamDbTree s) = Ret (j, node) \<and>
    (if tb_covers (db_shape key neq s) r (db_records s)
     then j = db_nb s \<and> node \<noteq> NullNode \<and> avl_mpData node \<in> db_used (db_cap s) fs \<and>
       db_key key (db_mpElementList s) (db_nb s - 1) (avl_mpData node) = key (db_nb s - 1) r
     else j < db_nb s)"
  using db_search_loop_ok [OF c db_storeD(9) [OF st], of 0 "db_nb s" "Arg r" NullNode] db_storeD(2) [OF st]
  unfolding db_covers_iff [OF st, of r neq]
  by (cases "tb_covers (db_shape key neq s) r (db_records s)") (auto simp: db_key_def)

lemma Delete_ok:
  assumes c: "db_compare_by Compare key" and m: "recursive_mutex_ok (db_mMtx_X s)" and st: "db_store key s fs"
    and one: "tb_names_one (db_shape key neq s) r (db_records s)"
  shows "\<exists>t. BofRamDb_DeleteElement Compare s (Some r) =
      Ret (t, if tb_covers (db_shape key neq s) r (db_records s) then BOF_ERR_NO_ERROR else BOF_ERR_NOT_FOUND) \<and>
    db_mMtx_X t = db_mMtx_X s \<and>
    db_becomes key s (if tb_covers (db_shape key neq s) r (db_records s)
      then tb_without (db_shape key neq s) r (db_records s) else db_records s) t"
proof -
  let ?s = "db_stat (\<lambda>d. d\<lparr>dbs_NbDeleteRequest_U32 := dbs_NbDeleteRequest_U32 d + 1\<rparr>) s"
  let ?cov = "tb_covers (db_shape key neq s) r (db_records s)"
  let ?Q = "\<lambda>t e. e = (if ?cov then BOF_ERR_NO_ERROR else BOF_ERR_NOT_FOUND) \<and>
    db_becomes key s (if ?cov then tb_without (db_shape key neq s) r (db_records s) else db_records s) t"
  obtain j node where sl: "db_search_loop Compare (db_mpElementList s) (Arg r) (db_nb s) 0 NullNode (db_mppRamDbTree s) = Ret (j, node)"
    "if ?cov then j = db_nb s else j < db_nb s" using db_present [OF c st, of r neq] by (auto split: if_splits)
  have "\<exists>t e. BofRamDb_DeleteElement Compare s (Some r) = Ret (t, e) \<and> db_mMtx_X t = db_mMtx_X ?s \<and> ?Q t e"
    unfolding BofRamDb_DeleteElement_def Let_def option.case
  proof (rule db_guard_ok, goal_cases)
    case (2 m)
    show ?case
    proof (cases ?cov)
      case True
      then obtain x where x: "x \<in> db_records s" "tb_same (db_shape key neq s) x r" using one by (auto simp: tb_names_one_def)
      then obtain trees p where tr:
        "db_delete_loop Compare (db_mpElementList s) (Arg r) (db_nb s) 0 None (db_mppRamDbTree s) = Ret (trees, Some (Slot p))"
        "p < db_cap s" "p \<notin> set fs" "db_mpElementList s ! p = x"
        "db_trees key (db_mpElementList s) (db_nb s) (db_cap s) (\<lambda>_. db_used (db_cap s) fs - {Slot p}) trees"
        using Delete_trees [OF c st] by metis
      have "db_becomes key s (db_records s - {x}) (s\<lparr>db_mMtx_X := m, db_mDbRamStat_X := d, db_mppRamDbTree := trees,
          db_mNbRecord_U32 := db_mNbRecord_U32 s - 1,
          db_mpRamDbFreeElementList_U32 := (db_mpRamDbFreeElementList_U32 s)[p := db_mNextRamDbFreeElement_U32 s],
          db_mNextRamDbFreeElement_U32 := of_nat p\<rparr>)" for d
        using db_store_shrunk [of key "s\<lparr>db_mMtx_X := m, db_mDbRamStat_X := d\<rparr>" fs p x trees] st tr(2-5) by simp
      then show ?thesis
        using True sl tr(1,2) tb_without_one [OF st x] db_storeD(4) [OF st] slot_word [OF tr(2)] by simp
    next
      case False
      then show ?thesis using sl db_becomes_refl [OF st] by auto
    qed
  qed (use m in auto)
  then show ?thesis by auto
qed

section \<open>Moving a cursor\<close>

text \<open>The records become \<open>R\<close>, and the cursors may stand elsewhere.\<close>

definition db_evolves :: "(nat \<Rightarrow> 'r \<Rightarrow> 'o::linorder) \<Rightarrow> 'r BofRamDb \<Rightarrow> 'r set \<Rightarrow> 'r BofRamDb \<Rightarrow> bool" where
  "db_evolves key s R t \<longleftrightarrow> (\<exists>fs. db_store key t fs) \<and> db_records t = R \<and>
     db_mNbMaxElement_U32 t = db_mNbMaxElement_U32 s \<and> db_mNbIndex_U32 t = db_mNbIndex_U32 s \<and>
     db_open t = db_open s \<and> (db_cursors s \<longrightarrow> db_cursors t)"

lemma db_cursors_frame [simp]:
  "db_cursors (s\<lparr>db_mMtx_X := m\<rparr>) = db_cursors s" "db_cursors (s\<lparr>db_mDbRamStat_X := d\<rparr>) = db_cursors s"
  by (simp_all add: db_cursors_def)

lemma db_evolves_frame [simp]:
  "db_evolves key s R (t\<lparr>db_mMtx_X := m\<rparr>) = db_evolves key s R t"
  "db_evolves key s R (t\<lparr>db_mDbRamStat_X := d\<rparr>) = db_evolves key s R t"
  "db_evolves key (s\<lparr>db_mMtx_X := m\<rparr>) R t = db_evolves key s R t"
  "db_evolves key (s\<lparr>db_mDbRamStat_X := d\<rparr>) R t = db_evolves key s R t"
  by (simp_all add: db_evolves_def)

lemma db_becomes_evolves: "db_becomes key s R t \<Longrightarrow> db_evolves key s R t"
  using db_becomesD(6) by (fastforce simp: db_becomes_def db_evolves_def db_cursors_def)

text \<open>A cursor that moves keeps its index and its magic number.\<close>

lemma db_cursor_moved:
  assumes "db_store key t fs" "db_records t = R" "db_mNbMaxElement_U32 t = db_mNbMaxElement_U32 s"
    "db_mNbIndex_U32 t = db_mNbIndex_U32 s" "db_mNbFreeCursor_U32 t = db_mNbFreeCursor_U32 s" "db_open s c \<noteq> None"
    "db_mpCursorState_X t = (db_mpCursorState_X s)[c := (db_mpCursorState_X s ! c)\<lparr>cur_pElement := a\<rparr>]"
  shows "db_evolves key s R t"
proof -
  have c: "c < length (db_mpCursorState_X s)" using assms(6) by (auto simp: db_open_def split: if_splits)
  have "db_open t k = db_open s k" for k using assms(7) c by (cases "k = c") (auto simp: db_open_def)
  moreover have "db_cursors t" if "db_cursors s"
    using that assms(4,5,7) c length_filter_update [OF c, of "\<lambda>cur. \<not> cur_open cur" "(db_mpCursorState_X s ! c)\<lparr>cur_pElement := a\<rparr>"]
      set_update_subset_insert [of "db_mpCursorState_X s" c "(db_mpCursorState_X s ! c)\<lparr>cur_pElement := a\<rparr>"] nth_mem [OF c]
    by (fastforce simp: db_cursors_def split: if_splits)
  ultimately show ?thesis using assms(1-4) by (auto simp: db_evolves_def)
qed

section \<open>Update\<close>

text \<open>The node that the search ends on holds the record that the key names.\<close>

lemma db_node_record:
  assumes st: "db_store key s fs" and nd: "avl_mpData node \<in> db_used (db_cap s) fs"
      "db_key key (db_mpElementList s) (db_nb s - 1) (avl_mpData node) = key (db_nb s - 1) r"
    and x: "x \<in> db_records s" "tb_same (db_shape key neq s) x r"
  obtains p where "avl_mpData node = Slot p" "p < db_cap s" "p \<notin> set fs" "db_mpElementList s ! p = x"
proof -
  obtain p where p: "avl_mpData node = Slot p" "p < db_cap s" "p \<notin> set fs" using nd(1) by (auto simp: db_used_def)
  have i: "db_nb s - 1 < db_nb s" using db_storeD(2) [OF st] by simp
  have "db_mpElementList s ! p \<in> db_records s" using p by (auto simp: db_records_store [OF st])
  moreover have "key (db_nb s - 1) (db_mpElementList s ! p) = key (db_nb s - 1) x"
    using nd(2) p(1) x(2) i by (simp add: db_key_def tb_same_def)
  ultimately have "db_mpElementList s ! p = x" using inj_onD [OF db_records_inj [OF st i]] x(1) by blast
  then show thesis using p that by blast
qed

text \<open>An update in place keeps every key, so every tree stays sound.\<close>

lemma db_store_rewritten:
  assumes st: "db_store key s fs" and p: "p < db_cap s" "p \<notin> set fs" "db_mpElementList s ! p = x"
    and k: "\<And>i. i < db_nb s \<Longrightarrow> key i new = key i x"
  shows "db_store key (s\<lparr>db_mpElementList := (db_mpElementList s)[p := new]\<rparr>) fs" (is "db_store key ?t fs")
    "db_records (s\<lparr>db_mpElementList := (db_mpElementList s)[p := new]\<rparr>) = insert new (db_records s - {x})"
proof -
  note d = db_storeD [OF st]
  have "db_trees key ((db_mpElementList s)[p := new]) (db_nb s) (db_cap s) (\<lambda>_. db_used (db_cap s) fs) (db_mppRamDbTree s)"
    by (rule db_trees_cong [OF d(9)]) (use d(3) p k in \<open>auto simp: db_key_def db_used_def nth_list_update\<close>)
  then show t: "db_store key ?t fs" using d by (simp add: db_store_def)
  let ?U = "{..<db_cap s} - set fs"
  have "(!) ((db_mpElementList s)[p := new]) ` ?U = insert new ((!) ((db_mpElementList s)[p := new]) ` (?U - {p}))"
    using p d(3) by (subst insert_Diff [of p ?U, symmetric]) (auto simp del: insert_Diff_single)
  also have "(!) ((db_mpElementList s)[p := new]) ` (?U - {p}) = (!) (db_mpElementList s) ` (?U - {p})"
    by (intro image_cong) auto
  also have "\<dots> = db_records s - {x}"
    using p inj_on_image_set_diff [OF db_slots_inj [OF st], of ?U "{p}"] by (simp add: db_records_store [OF st])
  finally show "db_records ?t = insert new (db_records s - {x})" by (simp add: db_records_store [OF t])
qed

lemma tb_clash_own:
  assumes "db_store key s fs" "x \<in> db_records s"
  shows "\<not> tb_clash (db_shape key neq s) x (db_records s - {x})"
  using db_records_inj [OF assms(1)] assms(2) by (auto simp: tb_clash_def inj_on_def)

lemma db_duplicate:
  assumes "db_compare_by Compare key" "db_store key s fs"
  shows "db_duplicate_loop Compare (db_mpElementList s) (Arg new) (db_nb s) 0 (db_mppRamDbTree s) =
    Ret (if tb_clash (db_shape key neq s) new (db_records s) then BOF_ERR_DUPLICATE else BOF_ERR_NO_ERROR)"
proof -
  have "(\<exists>i \<in> {0..<db_nb s}. \<exists>d \<in> db_used (db_cap s) fs. db_key key (db_mpElementList s) i d = db_key key (db_mpElementList s) i (Arg new)) =
    tb_clash (db_shape key neq s) new (db_records s)" by (rule db_clash_iff [OF assms(2)]) (auto simp: db_key_def)
  then show ?thesis using db_duplicate_loop_ok [OF assms(1) db_storeD(9) [OF assms(2)], of 0 "db_nb s" "Arg new"] by simp
qed

lemma Replace_ok:
  assumes c: "db_compare_by Compare key" and m: "recursive_mutex_ok (db_mMtx_X s)" and st: "db_store key s fs" and cu: "db_open s cu \<noteq> None"
    and x: "x \<in> db_records s" "tb_same (db_shape key neq s) x old" and cov: "tb_covers (db_shape key neq s) old (db_records s)"
  shows "\<exists>t. db_replace Compare s (Some cu) x old new =
      Ret (t, if tb_clash (db_shape key neq s) new (db_records s - {x}) then BOF_ERR_DUPLICATE else BOF_ERR_NO_ERROR) \<and>
    db_mMtx_X t = db_mMtx_X s \<and>
    db_becomes key s (if tb_clash (db_shape key neq s) new (db_records s - {x}) then db_records s else insert new (db_records s - {x})) t"
proof -
  let ?T = "db_shape key neq s" and ?R = "db_records s - {x}"
  obtain t where t: "BofRamDb_DeleteElement Compare s (Some old) = Ret (t, BOF_ERR_NO_ERROR)" "db_mMtx_X t = db_mMtx_X s"
    "db_becomes key s ?R t"
    using Delete_ok [OF c m st, where r = old and neq = neq] cov x tb_without_one [OF st x] by (auto simp: tb_names_one_def)
  note td = db_becomesD [OF t(3)]
  obtain gs where ts: "db_store key t gs" using td(1) by blast
  have ot: "db_open t cu \<noteq> None" using td(6) cu by simp
  have room: "card (db_records t) \<noteq> db_cap t"
    using card_Diff1_less [OF db_records_card(2) [OF st] x(1)] db_records_card(1) [OF st] td(2,3) by simp
  have ins: "\<exists>u. BofRamDb_InsertElement Compare t (Some cu) (Some e) = Ret (u, BOF_ERR_NO_ERROR) \<and> db_mMtx_X u = db_mMtx_X s \<and>
      db_becomes key s (insert e ?R) u" if "\<not> tb_clash ?T e ?R" for e
    using Insert_ok [OF c m [folded t(2)] ts ot, of e neq] that room td(2,7) t(2) db_becomes_trans [OF t(3)] by auto
  have dup: "db_duplicate_loop Compare (db_mpElementList t) (Arg new) (db_nb t) 0 (db_mppRamDbTree t) =
    Ret (if tb_clash ?T new ?R then BOF_ERR_DUPLICATE else BOF_ERR_NO_ERROR)"
    using db_duplicate [OF c ts, of new neq] td(2,7) by simp
  show ?thesis
  proof (cases "tb_clash ?T new ?R")
    case True
    obtain u where u: "BofRamDb_InsertElement Compare t (Some cu) (Some x) = Ret (u, BOF_ERR_NO_ERROR)" "db_mMtx_X u = db_mMtx_X s"
      "db_becomes key s (insert x ?R) u" using ins [OF tb_clash_own [OF st x(1)]] by blast
    have "insert x ?R = db_records s" using x(1) by auto
    then show ?thesis using True t(1) dup u by (simp add: db_replace_def)
  next
    case False
    obtain u where "BofRamDb_InsertElement Compare t (Some cu) (Some new) = Ret (u, BOF_ERR_NO_ERROR)" "db_mMtx_X u = db_mMtx_X s"
      "db_becomes key s (insert new ?R) u" using ins [OF False] by blast
    then show ?thesis using False t(1) dup by (simp add: db_replace_def)
  qed
qed

text \<open>The body of an update of a record \<open>x\<close> that the search key names.\<close>

lemma Update_named:
  assumes c: "db_compare_by Compare key" and m: "recursive_mutex_ok (db_mMtx_X s)" and st: "db_store key s fs" and cu: "db_open s cu \<noteq> None"
    and x: "x \<in> db_records s" "tb_same (db_shape key neq s) x old" and cov: "tb_covers (db_shape key neq s) old (db_records s)"
    and nd: "node \<noteq> NullNode" "avl_mpData node \<in> db_used (db_cap s) fs"
      "db_key key (db_mpElementList s) (db_nb s - 1) (avl_mpData node) = key (db_nb s - 1) old"
  shows "\<exists>t. db_update_found Compare s cu old new node =
      Ret (t, if tb_clash (db_shape key neq s) new (db_records s - {x}) then BOF_ERR_DUPLICATE else BOF_ERR_NO_ERROR) \<and>
    db_mMtx_X t = db_mMtx_X s \<and>
    db_evolves key s (if tb_clash (db_shape key neq s) new (db_records s - {x}) then db_records s else insert new (db_records s - {x})) t"
proof -
  obtain p where p: "avl_mpData node = Slot p" "p < db_cap s" "p \<notin> set fs" "db_mpElementList s ! p = x"
    using db_node_record [OF st nd(2,3) x] by blast
  show ?thesis
  proof (cases "\<forall>i < db_nb s. key i new = key i old")
    case True
    then have same: "db_same_loop Compare new old (db_nb s) 0 = db_nb s" using db_same_loop_ok [OF c, of new old "db_nb s" 0] by simp
    have k: "key i new = key i x" if "i < db_nb s" for i using True x(2) that by (simp add: tb_same_def)
    have "tb_clash (db_shape key neq s) new (db_records s - {x}) = tb_clash (db_shape key neq s) x (db_records s - {x})"
      using k by (auto simp: tb_clash_def)
    then have nc: "\<not> tb_clash (db_shape key neq s) new (db_records s - {x})" using tb_clash_own [OF st x(1)] by simp
    note w = db_store_rewritten [OF st p(2-4) k]
    let ?t = "s\<lparr>db_mpElementList := (db_mpElementList s)[p := new], db_mpCursorState_X := (db_mpCursorState_X s)[cu :=
      (db_mpCursorState_X s ! cu)\<lparr>cur_pElement := Some (db_nb s - 1, avl_id node)\<rparr>]\<rparr>"
    have "db_evolves key s (insert new (db_records s - {x})) ?t"
      by (rule db_cursor_moved [OF _ _ _ _ _ cu]) (use w in auto)
    then show ?thesis using same nd(1) p nc slot_word [OF p(2)] db_storeD(3) [OF st] by (simp add: db_update_found_def)
  next
    case False
    then have "db_same_loop Compare new old (db_nb s) 0 \<noteq> db_nb s" using db_same_loop_ok [OF c, of new old "db_nb s" 0] by auto
    then show ?thesis using Replace_ok [OF c m st cu x cov, of new] nd(1) p(1,4) db_becomes_evolves by (auto simp: db_update_found_def)
  qed
qed

end
