(* ===== verification/Bof_RamDb_Ops.thy ===== *)
theory Bof_RamDb_Ops
  imports Bof_RamDb_Inv
begin

text \<open>The methods of the database on its view, and the database as an implementation of the table.\<close>

section \<open>Update\<close>

lemma Update_ok:
  assumes c: "db_compare_by Compare key" and m: "recursive_mutex_ok (db_mMtx_X s)" and st: "db_store key s fs" and cu: "db_open s cu \<noteq> None"
    and one: "tb_names_one (db_shape key neq s) old (db_records s)"
  shows "\<exists>t. BofRamDb_UpdateElement Compare neq s (Some cu) (Some old) (Some new) =
      Ret (t, if \<not> neq old new then BOF_ERR_NO_ERROR else if \<not> tb_covers (db_shape key neq s) old (db_records s) then BOF_ERR_EINVAL
        else if tb_clash (db_shape key neq s) new (tb_without (db_shape key neq s) old (db_records s)) then BOF_ERR_DUPLICATE else BOF_ERR_NO_ERROR) \<and>
    db_mMtx_X t = db_mMtx_X s \<and>
    db_evolves key s (if \<not> neq old new \<or> \<not> tb_covers (db_shape key neq s) old (db_records s) \<or>
        tb_clash (db_shape key neq s) new (tb_without (db_shape key neq s) old (db_records s)) then db_records s
      else insert new (tb_without (db_shape key neq s) old (db_records s))) t"
proof (cases "neq old new")
  case False
  have "db_evolves key s (db_records s) s" using db_becomes_evolves [OF db_becomes_refl [OF st]] .
  then show ?thesis using False cu by (simp add: BofRamDb_UpdateElement_def Let_def db_with_cursor_open)
next
  case neq: True
  let ?s = "db_stat (\<lambda>d. d\<lparr>dbs_NbUpdateRequest_U32 := dbs_NbUpdateRequest_U32 d + 1\<rparr>) s"
  let ?T = "db_shape key neq s" and ?R = "db_records s"
  let ?cov = "tb_covers ?T old ?R" and ?clash = "tb_clash ?T new (tb_without ?T old ?R)"
  let ?Q = "\<lambda>t e. e = (if \<not> ?cov then BOF_ERR_EINVAL else if ?clash then BOF_ERR_DUPLICATE else BOF_ERR_NO_ERROR) \<and>
    db_evolves key s (if \<not> ?cov \<or> ?clash then ?R else insert new (tb_without ?T old ?R)) t"
  obtain j node where sl: "db_search_loop Compare (db_mpElementList s) (Arg old) (db_nb s) 0 NullNode (db_mppRamDbTree s) = Ret (j, node)"
    "if ?cov then j = db_nb s \<and> node \<noteq> NullNode \<and> avl_mpData node \<in> db_used (db_cap s) fs \<and>
       db_key key (db_mpElementList s) (db_nb s - 1) (avl_mpData node) = key (db_nb s - 1) old
     else j < db_nb s" using db_present [OF c st] by blast
  have o: "db_open ?s cu \<noteq> None" using cu by simp
  have "\<exists>t e. BofRamDb_UpdateElement Compare neq s (Some cu) (Some old) (Some new) = Ret (t, e) \<and> db_mMtx_X t = db_mMtx_X ?s \<and> ?Q t e"
    unfolding BofRamDb_UpdateElement_def Let_def db_with_cursor_open [OF o] option.case prod.case if_P [OF neq]
  proof (rule db_guard_ok, goal_cases)
    case (2 m')
    let ?u = "?s\<lparr>db_mMtx_X := m'\<rparr>"
    have u: "db_store key ?u fs" "db_records ?u = ?R" "db_shape key neq ?u = ?T" "db_open ?u cu \<noteq> None" "recursive_mutex_ok (db_mMtx_X ?u)"
      using st cu 2 by (simp_all add: db_shape_def)
    show ?case
    proof (cases ?cov)
      case True
      then obtain x where x: "x \<in> ?R" "tb_same ?T x old" using one by (auto simp: tb_names_one_def)
      have nd: "node \<noteq> NullNode" "avl_mpData node \<in> db_used (db_cap ?u) fs"
        "db_key key (db_mpElementList ?u) (db_nb ?u - 1) (avl_mpData node) = key (db_nb ?u - 1) old" using sl(2) True by simp_all
      have "j = db_nb s" using sl(2) True by simp
      then show ?thesis
        using Update_named [OF c u(5,1,4), of x neq old node new] u(2,3) x nd True sl(1) tb_without_one [OF st x]
        by (cases "tb_clash ?T new (?R - {x})") simp_all
    next
      case False
      then have "j \<noteq> db_nb s" using sl(2) by simp
      then show ?thesis using False sl(1) db_becomes_evolves [OF db_becomes_refl [OF st]] by simp
    qed
  qed (use m in auto)
  then show ?thesis using neq by auto
qed

section \<open>Search\<close>

text \<open>The nodes that the three searches, the first and the last give, on the set of the pointers.\<close>

lemma find_sorted_min:
  assumes "sorted_wrt (\<lambda>x y. f x < (f y :: 'o::linorder)) xs" "List.find P xs = Some x"
  shows "\<forall>y \<in> set xs. P y \<longrightarrow> f x \<le> f y"
  using assms by (induction xs) (auto split: if_splits)

lemma find_sorted_max:
  assumes "sorted_wrt (\<lambda>x y. f y < (f x :: 'o::linorder)) xs" "List.find P xs = Some x"
  shows "\<forall>y \<in> set xs. P y \<longrightarrow> f y \<le> f x"
  using assms by (induction xs) (auto split: if_splits)

text \<open>A node whose pointer is one of \<open>A\<close>, the null pointer when there is none.\<close>

definition avl_result :: "'k set \<Rightarrow> 'k BofAvlTree \<Rightarrow> 'k BofAvlNode \<Rightarrow> bool" where
  "avl_result A t n \<longleftrightarrow> (if A = {} then n = NullNode else n \<in> set (avl_nodes (avt_mpRoot t)) \<and> n \<noteq> NullNode \<and> avl_mpData n \<in> A)"

lemma avl_nodes_sorted:
  assumes "avl_holds k N S t"
  shows "sorted_wrt (\<lambda>x y. k (avl_mpData x) < k (avl_mpData y)) (avl_nodes (avt_mpRoot t))"
    "S = avl_mpData ` set (avl_nodes (avt_mpRoot t))"
  using avl_holdsD(3,4) [OF assms] by (auto simp: avl_sorted_iff inorder_nodes sorted_wrt_map contents_nodes)

lemma avl_result_find:
  assumes "A = {d \<in> S. P d}" "\<And>n. List.find Q ns = Some n \<Longrightarrow> P (avl_mpData n)" "\<And>d. d \<in> S \<Longrightarrow> P d \<Longrightarrow> \<exists>n \<in> set ns. Q n"
    "S = avl_mpData ` set (avl_nodes (avt_mpRoot t))" "set ns = set (avl_nodes (avt_mpRoot t))"
  shows "avl_result A t (avl_or_null (List.find Q ns))"
proof (cases "List.find Q ns")
  case None
  then have "A = {}" using assms(1,3) by (auto simp: find_None_iff)
  then show ?thesis using None by (simp add: avl_result_def)
next
  case (Some n)
  then have n: "n \<in> set (avl_nodes (avt_mpRoot t))" using find_SomeD [OF Some] assms(5) by simp
  then have "n \<noteq> NullNode" by (metis nodes_not_null)
  then show ?thesis using Some n assms(1,2,4) by (auto simp: avl_result_def)
qed

lemma avl_holds_find:
  assumes c: "avl_cmp_by cmp k" and h: "avl_holds k N S t" and C: "C \<noteq> BOF_CMP_LESS" "C \<noteq> BOF_CMP_GREATER"
  shows "\<exists>n. BofAvlTree_Search cmp t p C = Ret n \<and> avl_result (tb_found k p C S) t n"
proof -
  let ?ns = "avl_nodes (avt_mpRoot t)"
  note s = tree_search [OF c avl_holdsD(1) [OF h], of p] and ns = avl_nodes_sorted [OF h]
  have rs: "sorted_wrt (\<lambda>x y. k (avl_mpData y) < k (avl_mpData x)) (rev ?ns)" using ns(1) by (simp add: sorted_wrt_rev)
  have "avl_result (tb_found k p BOF_CMP_EQUAL S) t (avl_or_null (List.find (\<lambda>n. k (avl_mpData n) = k p) ?ns))"
    by (rule avl_result_find [OF tb_found.simps(1)]) (use ns(2) in \<open>auto dest: find_SomeD\<close>)
  moreover have "avl_result (tb_found k p BOF_CMP_GREATEROREQUAL S) t (avl_or_null (List.find (\<lambda>n. k p \<le> k (avl_mpData n)) ?ns))"
    by (rule avl_result_find [OF tb_found.simps(2)])
       (use ns(2) find_sorted_min [OF ns(1)] in \<open>auto dest!: find_SomeD\<close>)
  moreover have "avl_result (tb_found k p BOF_CMP_LESSOREQUAL S) t (avl_or_null (List.find (\<lambda>n. k (avl_mpData n) \<le> k p) (rev ?ns)))"
    by (rule avl_result_find [OF tb_found.simps(3)])
       (use ns(2) find_sorted_max [OF rs] in \<open>auto dest!: find_SomeD\<close>)
  ultimately show ?thesis using s C by (cases C) auto
qed

lemma sorted_ends:
  assumes "sorted_wrt (\<lambda>x y. f x < (f y :: 'o::linorder)) xs" "xs \<noteq> []"
  shows "\<forall>y \<in> set xs. f (hd xs) \<le> f y" "\<forall>y \<in> set xs. f y \<le> f (last xs)"
  using assms by (induction xs) (auto split: if_splits intro: less_imp_le order_trans)

lemma avl_holds_ends:
  assumes h: "avl_holds k N S t"
  shows "avl_result (tb_first k S) t (BofAvlTree_GetFirst t)" "avl_result (tb_last k S) t (BofAvlTree_GetLast t)"
proof -
  let ?ns = "avl_nodes (avt_mpRoot t)"
  note ns = avl_nodes_sorted [OF h]
  have "avl_result (tb_first k S) t (BofAvlTree_GetFirst t) \<and> avl_result (tb_last k S) t (BofAvlTree_GetLast t)"
  proof (cases "avt_mpRoot t = NullNode")
    case True
    then have "S = {}" using ns(2) by simp
    then show ?thesis using True by (simp add: avl_result_def tb_first_def tb_last_def BofAvlTree_GetFirst_def BofAvlTree_GetLast_def)
  next
    case False
    then have e: "hd ?ns \<in> set ?ns" "last ?ns \<in> set ?ns" "?ns \<noteq> []" by simp_all
    then have nn: "hd ?ns \<noteq> NullNode" "last ?ns \<noteq> NullNode" by (metis nodes_not_null)+
    have "avl_mpData (hd ?ns) \<in> tb_first k S" "avl_mpData (last ?ns) \<in> tb_last k S"
      using e sorted_ends [OF ns(1) e(3)] by (auto simp: tb_first_def tb_last_def ns(2))
    then show ?thesis using False e nn
      by (auto simp: avl_result_def BofAvlTree_GetFirst_def BofAvlTree_GetLast_def leftmost_hd rightmost_last)
  qed
  then show "avl_result (tb_first k S) t (BofAvlTree_GetFirst t)" "avl_result (tb_last k S) t (BofAvlTree_GetLast t)" by simp_all
qed

text \<open>The sets of pointers and the sets of records they point to.\<close>

lemma db_found_image:
  "db_deref els ` tb_found (db_key key els i) (Arg r) C S = tb_found (key i) r C (db_deref els ` S)"
  by (cases C) (auto simp: db_key_def)

lemma db_ends_image:
  "db_deref els ` tb_first (db_key key els i) S = tb_first (key i) (db_deref els ` S)"
  "db_deref els ` tb_last (db_key key els i) S = tb_last (key i) (db_deref els ` S)"
  by (auto simp: db_key_def tb_first_def tb_last_def)

text \<open>The reply that a client reads in the output record and the error code.\<close>

definition db_reply :: "'r option \<times> BOFERR \<Rightarrow> 'r table_reply" where
  "db_reply r = (case r of (Some x, BOF_ERR_NO_ERROR) \<Rightarrow> TbRecord x | (_, e) \<Rightarrow> TbCode e)"

lemma db_arrive_ok:
  assumes st: "db_store key s fs" and cu: "db_open s cu \<noteq> None" and e: "e \<noteq> BOF_ERR_NO_ERROR"
    and n: "avl_result A t node" "db_deref (db_mpElementList s) ` A = R"
  shows "\<exists>u r. db_arrive s cu i (Some x) e node = Ret (u, r) \<and> db_mMtx_X u = db_mMtx_X s \<and>
    db_evolves key s (db_records s) u \<and> db_reply r \<in> tb_answer e R"
proof (cases "A = {}")
  case True
  then have "db_reply (Some x, e) \<in> tb_answer e R" using n(2) e by (auto simp: db_reply_def tb_answer_def split: BOFERR.split)
  then show ?thesis using True n(1) db_becomes_evolves [OF db_becomes_refl [OF st]] by (simp add: db_arrive_def avl_result_def)
next
  case False
  let ?u = "s\<lparr>db_mpCursorState_X := (db_mpCursorState_X s)[cu := (db_mpCursorState_X s ! cu)\<lparr>cur_pElement := Some (i, avl_id node)\<rparr>]\<rparr>"
  have "db_evolves key s (db_records s) ?u"
    by (rule db_cursor_moved [OF _ _ _ _ _ cu]) (use st in auto)
  moreover have "db_reply (Some (db_deref (db_mpElementList s) (avl_mpData node)), BOF_ERR_NO_ERROR) \<in> tb_answer e R"
    using False n by (auto simp: db_reply_def avl_result_def intro!: tb_answer_single)
  ultimately show ?thesis using False n(1) by (simp add: db_arrive_def avl_result_def)
qed

lemma db_open_index:
  assumes "db_cursors s" "db_open s cu = Some i"
  shows "db_index s cu = i" "i < db_nb s"
  using assms nth_mem [of cu "db_mpCursorState_X s"] by (auto simp: db_open_def db_cursors_def word_less_nat_alt split: if_splits)

lemma Search_ok:
  assumes c: "db_compare_by Compare key" and m: "recursive_mutex_ok (db_mMtx_X s)" and st: "db_store key s fs" and cs: "db_cursors s"
    and cu: "db_open s cu = Some i" and C: "C \<noteq> BOF_CMP_LESS" "C \<noteq> BOF_CMP_GREATER"
  shows "\<exists>u r. BofRamDb_SearchElement Compare s (Some cu) (Some k) (Some x) C = Ret (u, r) \<and> db_mMtx_X u = db_mMtx_X s \<and>
    db_evolves key s (db_records s) u \<and> db_reply r \<in> tb_answer BOF_ERR_EOF (tb_found (key i) k C (db_records s))"
proof -
  let ?s = "db_stat (\<lambda>d. d\<lparr>dbs_NbSearchRequest_U32 := dbs_NbSearchRequest_U32 d + 1\<rparr>) s"
  note ix = db_open_index [OF cs cu]
  have o: "db_open ?s cu \<noteq> None" using cu by simp
  obtain n where n: "BofAvlTree_Search (db_cmp Compare (db_mpElementList s) i) (db_mppRamDbTree s ! i) (Arg k) C = Ret n"
    "avl_result (tb_found (db_key key (db_mpElementList s) i) (Arg k) C (db_used (db_cap s) fs)) (db_mppRamDbTree s ! i) n"
    using avl_holds_find [OF db_cmp_by [OF c] db_store_tree [OF st ix(2)] C] by blast
  have img: "db_deref (db_mpElementList s) ` tb_found (db_key key (db_mpElementList s) i) (Arg k) C (db_used (db_cap s) fs) =
    tb_found (key i) k C (db_records s)" by (simp add: db_found_image db_records_used [OF st])
  have "\<exists>u r. BofRamDb_SearchElement Compare s (Some cu) (Some k) (Some x) C = Ret (u, r) \<and> db_mMtx_X u = db_mMtx_X ?s \<and>
    (db_evolves key s (db_records s) u \<and> db_reply r \<in> tb_answer BOF_ERR_EOF (tb_found (key i) k C (db_records s)))"
    unfolding BofRamDb_SearchElement_def Let_def db_with_cursor_open [OF o] option.case if_P [OF option.distinct(2)]
  proof (rule db_guard_ok, goal_cases)
    case (2 m')
    show ?case
      using n(1) ix db_storeD(10) [OF st] cu st img
        db_arrive_ok [OF _ _ _ n(2), of key "s\<lparr>db_mMtx_X := m', db_mDbRamStat_X := d\<rparr>" fs cu BOF_ERR_EOF "tb_found (key i) k C (db_records s)" i x for d]
      by (cases "n = NullNode") simp_all
  qed (use m in auto)
  then show ?thesis by auto
qed

lemma First_ok:
  assumes m: "recursive_mutex_ok (db_mMtx_X s)" and st: "db_store key s fs" and cs: "db_cursors s" and cu: "db_open s cu = Some i"
  shows "\<exists>u r. BofRamDb_GetFirstElement s (Some cu) (Some x) = Ret (u, r) \<and> db_mMtx_X u = db_mMtx_X s \<and>
    db_evolves key s (db_records s) u \<and> db_reply r \<in> tb_answer BOF_ERR_EMPTY (tb_first (key i) (db_records s))"
proof -
  note ix = db_open_index [OF cs cu]
  have o: "db_open s cu \<noteq> None" using cu by simp
  note n = avl_holds_ends(1) [OF db_store_tree [OF st ix(2)]]
  show ?thesis unfolding BofRamDb_GetFirstElement_def db_with_cursor_open [OF o] if_P [OF option.distinct(2)]
  proof (rule db_guard_ok, goal_cases)
    case (2 m')
    show ?case
      using db_arrive_ok [OF _ _ _ n, of key "s\<lparr>db_mMtx_X := m'\<rparr>" fs cu BOF_ERR_EMPTY "tb_first (key i) (db_records s)" i x]
        ix db_storeD(10) [OF st] cu st by (simp add: db_ends_image db_records_used [OF st])
  qed (use m in auto)
qed

lemma Last_ok:
  assumes m: "recursive_mutex_ok (db_mMtx_X s)" and st: "db_store key s fs" and cs: "db_cursors s" and cu: "db_open s cu = Some i"
  shows "\<exists>u r. BofRamDb_GetLastElement s (Some cu) (Some x) = Ret (u, r) \<and> db_mMtx_X u = db_mMtx_X s \<and>
    db_evolves key s (db_records s) u \<and> db_reply r \<in> tb_answer BOF_ERR_EMPTY (tb_last (key i) (db_records s))"
proof -
  note ix = db_open_index [OF cs cu]
  have o: "db_open s cu \<noteq> None" using cu by simp
  note n = avl_holds_ends(2) [OF db_store_tree [OF st ix(2)]]
  show ?thesis unfolding BofRamDb_GetLastElement_def db_with_cursor_open [OF o] if_P [OF option.distinct(2)]
  proof (rule db_guard_ok, goal_cases)
    case (2 m')
    show ?case
      using db_arrive_ok [OF _ _ _ n, of key "s\<lparr>db_mMtx_X := m'\<rparr>" fs cu BOF_ERR_EMPTY "tb_last (key i) (db_records s)" i x]
        ix db_storeD(10) [OF st] cu st by (simp add: db_ends_image db_records_used [OF st])
  qed (use m in auto)
qed

section \<open>Cursors\<close>

text \<open>Only the cursors change.\<close>

lemma find_map: "List.find P (map f xs) = map_option f (List.find (\<lambda>x. P (f x)) xs)"
  by (induction xs) auto

lemma find_cursor_shift: "db_find_cursor curs i = map_option ((+) i) (List.find (\<lambda>c. \<not> cur_open (curs ! c)) [0..<length curs])"
proof (induction curs arbitrary: i)
  case (Cons cur curs)
  have "[0..<length (cur # curs)] = 0 # map Suc [0..<length curs]" by (simp add: upt_conv_Cons map_Suc_upt del: upt_Suc)
  then show ?case using Cons.IH [of "Suc i"] by (simp add: find_map option.map_comp comp_def del: upt_Suc)
qed simp

lemma find_cursor_open:
  assumes "db_cursors s"
  shows "db_find_cursor (db_mpCursorState_X s) 0 = find (\<lambda>c. db_open s c = None) [0..<BOFRAMDB_CURSOR_MAX]"
proof -
  have "find (\<lambda>c. \<not> cur_open (db_mpCursorState_X s ! c)) [0..<length (db_mpCursorState_X s)] =
    find (\<lambda>c. db_open s c = None) [0..<BOFRAMDB_CURSOR_MAX]"
    by (rule find_cong) (use assms in \<open>auto simp: db_cursors_def db_open_def\<close>)
  moreover have "map_option ((+) 0) x = x" for x :: "nat option" by (cases x) auto
  ultimately show ?thesis unfolding find_cursor_shift by simp
qed

lemma no_closed_cursor:
  assumes "db_cursors s" "db_mNbFreeCursor_U32 s = 0"
  shows "find (\<lambda>c. db_open s c = None) [0..<BOFRAMDB_CURSOR_MAX] = None"
proof -
  have "length (filter (\<lambda>cur. \<not> cur_open cur) (db_mpCursorState_X s)) \<le> 512"
    using assms(1) length_filter_le [of "\<lambda>cur. \<not> cur_open cur" "db_mpCursorState_X s"] by (simp add: db_cursors_def BOFRAMDB_CURSOR_MAX_def)
  then have "length (filter (\<lambda>cur. \<not> cur_open cur) (db_mpCursorState_X s)) = 0"
    using assms by (simp add: db_cursors_def word_unat_eq_iff unsigned_of_nat take_bit_nat_eq_self)
  then show ?thesis using assms(1) by (auto simp: find_None_iff db_open_def db_cursors_def filter_empty_conv)
qed

lemma db_cursor_set:
  assumes cs: "db_cursors s" and c: "c < BOFRAMDB_CURSOR_MAX" and i: "cur_open cur \<longrightarrow> cur_Index_U32 cur < db_mNbIndex_U32 s"
    and w: "w + (if cur_open cur then 1 else 0) = db_mNbFreeCursor_U32 s + (if cur_open (db_mpCursorState_X s ! c) then 1 else 0)"
  shows "db_cursors (s\<lparr>db_mpCursorState_X := (db_mpCursorState_X s)[c := cur], db_mNbFreeCursor_U32 := w\<rparr>)"
    "db_open (s\<lparr>db_mpCursorState_X := (db_mpCursorState_X s)[c := cur], db_mNbFreeCursor_U32 := w\<rparr>) =
     (db_open s)(c := if cur_open cur then Some (unat (cur_Index_U32 cur)) else None)"
proof -
  have c': "c < length (db_mpCursorState_X s)" using cs c by (simp add: db_cursors_def)
  let ?P = "\<lambda>cur. \<not> cur_open cur"
  have "w = of_nat (length (filter ?P ((db_mpCursorState_X s)[c := cur])))"
    using length_filter_update [OF c', of ?P cur] w cs
    by (auto simp: db_cursors_def split: if_splits) (metis add_diff_cancel_right' of_nat_Suc add.commute)+
  moreover have "set ((db_mpCursorState_X s)[c := cur]) \<subseteq> insert cur (set (db_mpCursorState_X s))" by (rule set_update_subset_insert)
  ultimately show "db_cursors (s\<lparr>db_mpCursorState_X := (db_mpCursorState_X s)[c := cur], db_mNbFreeCursor_U32 := w\<rparr>)"
    using cs i by (auto simp: db_cursors_def)
  show "db_open (s\<lparr>db_mpCursorState_X := (db_mpCursorState_X s)[c := cur], db_mNbFreeCursor_U32 := w\<rparr>) =
     (db_open s)(c := if cur_open cur then Some (unat (cur_Index_U32 cur)) else None)"
    using c' by (auto simp: db_open_def fun_eq_iff nth_list_update)
qed

lemma GetCursor_ok:
  assumes m: "recursive_mutex_ok (db_mMtx_X s)" and cs: "db_cursors s" and st: "db_store key s fs" and i: "i < 2 ^ 32"
  shows "\<exists>u h e. BofRamDb_GetCursor s (of_nat i) (Some None) = Ret (u, h, e) \<and> db_mMtx_X u = db_mMtx_X s \<and> db_cursors u \<and>
    db_store key u fs \<and> db_records u = db_records s \<and> db_shape key neq u = db_shape key neq s \<and>
    db_view u = fst (table_step (db_shape key neq s) (TbOpen i) (db_view s)) \<and>
    (if e = BOF_ERR_NO_ERROR then TbCursor (the (the h)) else TbCode e) \<in> snd (table_step (db_shape key neq s) (TbOpen i) (db_view s)) \<and>
    (e = BOF_ERR_NO_ERROR \<longrightarrow> (\<exists>c. h = Some (Some c)))"
proof -
  have u: "unat (of_nat i :: u32) = i" using i by (simp add: unsigned_of_nat take_bit_nat_eq_self)
  let ?f = "find (\<lambda>c. db_open s c = None) [0..<BOFRAMDB_CURSOR_MAX]"
  show ?thesis
  proof (cases "i < db_nb s \<and> db_mNbFreeCursor_U32 s \<noteq> 0")
    case False
    then show ?thesis using u no_closed_cursor [OF cs] m cs st by (auto simp: BofRamDb_GetCursor_def word_less_nat_alt)
  next
    case True
    let ?r = "case ?f of Some c \<Rightarrow> (Some (Some c), BOF_ERR_NO_ERROR) | None \<Rightarrow> (Some None, BOF_ERR_NO_MORE)"
    let ?cur = "\<lparr>cur_pElement = None, cur_Index_U32 = of_nat i, cur_MagicNumber_U32 = BOFRAMDB_CURSOR_MAGICNUMBER\<rparr>"
    have lt: "of_nat i < db_mNbIndex_U32 s" using True u by (simp add: word_less_nat_alt)
    have "\<exists>t r. BofRamDb_GetCursor s (of_nat i) (Some None) = Ret (t, r) \<and> db_mMtx_X t = db_mMtx_X s \<and>
      (r = ?r \<and> db_cursors t \<and> db_store key t fs \<and> db_records t = db_records s \<and> db_shape key neq t = db_shape key neq s \<and>
       db_open t = (case ?f of Some c \<Rightarrow> (db_open s)(c := Some i) | None \<Rightarrow> db_open s))"
      unfolding BofRamDb_GetCursor_def if_P [OF lt] if_P [OF option.distinct(2)] if_P [OF conjunct2 [OF True]]
    proof (rule db_guard_ok, goal_cases)
      case (2 m')
      show ?case
      proof (cases ?f)
        case None
        then show ?thesis using cs st by (simp add: find_cursor_open [OF cs] db_shape_def)
      next
        case (Some c)
        then have c: "c < BOFRAMDB_CURSOR_MAX" "\<not> cur_open (db_mpCursorState_X s ! c)"
          using cs by (auto simp: find_Some_iff db_open_def db_cursors_def split: if_splits)
        have s': "db_cursors (s\<lparr>db_mMtx_X := m'\<rparr>)" using cs by simp
        note g = db_cursor_set [OF s' c(1), of ?cur "db_mNbFreeCursor_U32 s - 1"]
        show ?thesis using g c(2) Some u True st by (simp add: find_cursor_open [OF cs] db_shape_def word_less_nat_alt)
      qed
    qed (use m in \<open>auto simp: db_shape_def\<close>)
    then show ?thesis using True by (auto simp: db_view_def split: option.splits)
  qed
qed

lemma FreeCursor_ok:
  assumes m: "recursive_mutex_ok (db_mMtx_X s)" and cs: "db_cursors s" and st: "db_store key s fs" and cu: "db_open s c \<noteq> None"
  shows "\<exists>u. BofRamDb_FreeCursor s (Some (Some c)) = Ret (u, Some None, BOF_ERR_NO_ERROR) \<and> db_mMtx_X u = db_mMtx_X s \<and> db_cursors u \<and>
    db_store key u fs \<and> db_records u = db_records s \<and> db_shape key neq u = db_shape key neq s \<and> db_open u = (db_open s)(c := None)"
proof -
  have c: "c < BOFRAMDB_CURSOR_MAX" "cur_open (db_mpCursorState_X s ! c)" using cu cs by (auto simp: db_open_def db_cursors_def split: if_splits)
  have "\<exists>t r. BofRamDb_FreeCursor s (Some (Some c)) = Ret (t, r) \<and> db_mMtx_X t = db_mMtx_X s \<and>
    (r = (Some None, BOF_ERR_NO_ERROR) \<and> db_cursors t \<and> db_store key t fs \<and> db_records t = db_records s \<and>
     db_shape key neq t = db_shape key neq s \<and> db_open t = (db_open s)(c := None))"
    unfolding BofRamDb_FreeCursor_def option.case db_with_cursor_open [OF cu]
  proof (rule db_guard_ok, goal_cases)
    case (2 m')
    have s': "db_cursors (s\<lparr>db_mMtx_X := m'\<rparr>)" using cs by simp
    show ?case
      using db_cursor_set [OF s' c(1), of BOF_RAM_DB_CURSOR_Reset "db_mNbFreeCursor_U32 s + 1"] c(2) st
      by (simp add: db_shape_def BOF_RAM_DB_CURSOR_Reset_def BOFRAMDB_CURSOR_MAGICNUMBER_def)
  qed (use m in \<open>auto simp: db_shape_def\<close>)
  then show ?thesis by auto
qed

section \<open>The empty database\<close>

lemma chain_from:
  assumes "k < unat n"
  shows "db_chain (db_free_list n) (of_nat k) [k..<unat n]"
  using assms
proof (induction "unat n - k" arbitrary: k)
  case (Suc d)
  have fl: "db_free_list n ! k = (if k = unat n - 1 then db_none else of_nat (Suc k))"
    using Suc.prems by (simp add: db_free_list_def nth_list_update add.commute)
  show ?case
  proof (cases "Suc k = unat n")
    case True
    have "[k..<unat n] = [k]" by (simp flip: True)
    moreover have "k = unat n - 1" using True by simp
    then have "db_free_list n ! k = db_none" using fl by metis
    ultimately show ?thesis using Suc.prems by (simp add: db_free_list_def)
  next
    case False
    then have "db_chain (db_free_list n) (of_nat (Suc k)) [Suc k..<unat n]"
      by (intro Suc.hyps(1)) (use Suc.hyps(2) Suc.prems in auto)
    moreover have "[k..<unat n] = k # [Suc k..<unat n]" using Suc.prems by (rule upt_conv_Cons)
    moreover have "db_free_list n ! k = of_nat (Suc k)" using fl False Suc.prems by auto
    ultimately show ?thesis using Suc.prems by (simp add: db_free_list_def)
  qed
qed simp

lemma avl_holds_new:
  "avl_holds k (unat n) {} (fst (BofAvlTree_ctor n))"
  "avl_holds k (avt_cap t) {} (BofAvlTree_Clear t)"
  using avl_ctor_ok [of k n] avl_Clear_ok [of k t]
  by (simp_all add: avl_holds_def avt_cap_def avt_contents_def BofAvlTree_ctor_def BofAvlTree_Clear_def)

lemma db_fresh:
  assumes "db_mNbMaxElement_U32 s \<noteq> 0" "db_mNbIndex_U32 s \<noteq> 0" "length (db_mpElementList s) = db_cap s"
    "db_mpRamDbFreeElementList_U32 s = db_free_list (db_mNbMaxElement_U32 s)" "db_mNextRamDbFreeElement_U32 s = 0"
    "db_mNbRecord_U32 s = 0" "length (db_mppRamDbTree s) = db_nb s"
    "\<And>i. i < db_nb s \<Longrightarrow> avl_holds (db_key key (db_mpElementList s) i) (db_cap s) {} (db_mppRamDbTree s ! i)"
  shows "db_store key s [0..<db_cap s]" "db_records s = {}"
proof -
  have "db_chain (db_free_list (db_mNbMaxElement_U32 s)) (of_nat 0) [0..<db_cap s]" using assms(1) by (intro chain_from) (simp add: unat_gt_0)
  moreover have "db_used (db_cap s) [0..<db_cap s] = ({} :: 'a db_ptr set)" by (simp add: db_used_def lessThan_atLeast0)
  ultimately show st: "db_store key s [0..<db_cap s]"
    using assms by (auto simp: db_store_def db_trees_def db_free_list_def unat_gt_0)
  then show "db_records s = {}" by (simp add: db_records_store [OF st] lessThan_atLeast0)
qed

lemma db_cursors_reset:
  assumes "db_mpCursorState_X s = replicate BOFRAMDB_CURSOR_MAX BOF_RAM_DB_CURSOR_Reset" "db_mNbFreeCursor_U32 s = of_nat BOFRAMDB_CURSOR_MAX"
  shows "db_cursors s" "db_open s = (\<lambda>_. None)"
proof -
  have closed: "\<not> cur_open BOF_RAM_DB_CURSOR_Reset" by (simp add: BOF_RAM_DB_CURSOR_Reset_def BOFRAMDB_CURSOR_MAGICNUMBER_def)
  show "db_cursors s" "db_open s = (\<lambda>_. None)"
    using assms closed by (auto simp: db_cursors_def db_open_def fun_eq_iff)
qed

lemma Clear_ok:
  assumes st: "db_store key s fs"
  shows "\<exists>u. BofRamDb_ClearDbAndReleaseCursor s = Ret (u, BOF_ERR_NO_ERROR) \<and> db_mMtx_X u = db_mMtx_X s \<and> db_cursors u \<and>
    db_store key u [0..<db_cap s] \<and> db_shape key neq u = db_shape key neq s \<and> db_view u = \<lparr>tb_recs = {}, tb_curs = \<lambda>_. None\<rparr>"
proof -
  note d = db_storeD [OF st]
  let ?u = "s\<lparr>db_mNbRecord_U32 := 0, db_mNbFreeCursor_U32 := of_nat BOFRAMDB_CURSOR_MAX,
    db_mpCursorState_X := replicate BOFRAMDB_CURSOR_MAX BOF_RAM_DB_CURSOR_Reset, db_mppRamDbTree := map BofAvlTree_Clear (db_mppRamDbTree s),
    db_mNextRamDbFreeElement_U32 := 0, db_mpRamDbFreeElementList_U32 := db_free_list (db_mNbMaxElement_U32 s)\<rparr>"
  have "avl_holds (db_key key (db_mpElementList s) i) (db_cap s) {} (BofAvlTree_Clear (db_mppRamDbTree s ! i))" if "i < db_nb s" for i
    using avl_holds_new(2) avl_holdsD(2) [OF db_store_tree [OF st that]] by metis
  then have "db_store key ?u [0..<db_cap ?u]" "db_records ?u = {}"
    using d by (intro db_fresh [where key = key]; auto simp: unat_gt_0)+
  moreover have "db_cursors ?u" "db_open ?u = (\<lambda>_. None)" by (rule db_cursors_reset; simp)+
  ultimately show ?thesis using d by (simp add: BofRamDb_ClearDbAndReleaseCursor_def db_view_def db_shape_def)
qed

lemma BofRamDb_ctor_ok:
  assumes "n \<noteq> 0" "i \<noteq> 0"
  shows "\<exists>s. BofRamDb_ctor zero n i = Ret (s, BOF_ERR_NO_ERROR) \<and> db_ok key s \<and>
    db_shape key neq s = \<lparr>ts_cap = unat n, ts_keys = unat i, ts_cursors = BOFRAMDB_CURSOR_MAX, ts_key = key, ts_neq = neq\<rparr> \<and>
    db_view s = \<lparr>tb_recs = {}, tb_curs = \<lambda>_. None\<rparr>"
proof -
  obtain m where m: "Bof_CreateMutex ''BofRamDb'' True False BOF_MUTEX_ctor = Ret (m, BOF_ERR_NO_ERROR)" "recursive_mutex_ok m"
    by (auto simp: Bof_CreateMutex_def BOF_MUTEX_ctor_def BOF_MUTEX_Reset_def recursive_mutex_ok_def Let_def BOF_MUTEX_MAGIC_def)
  let ?s = "\<lparr>db_mMtx_X = m, db_mNbMaxElement_U32 = n, db_mNbIndex_U32 = i, db_mNbRecord_U32 = 0,
    db_mNbFreeCursor_U32 = of_nat BOFRAMDB_CURSOR_MAX, db_mNextRamDbFreeElement_U32 = 0, db_mpRamDbFreeElementList_U32 = db_free_list n,
    db_mDbRamStat_X = BOF_RAM_DB_STAT_Reset, db_mpCursorState_X = replicate BOFRAMDB_CURSOR_MAX BOF_RAM_DB_CURSOR_Reset,
    db_mppRamDbTree = map (\<lambda>_. fst (BofAvlTree_ctor n)) [0..<unat i], db_mpElementList = replicate (unat n) zero\<rparr>"
  have "db_store key ?s [0..<db_cap ?s]" by (rule db_fresh(1)) (use assms avl_holds_new(1) in auto)
  moreover have "db_records ?s = {}" by (rule db_fresh(2) [where key = key]) (use assms avl_holds_new(1) in auto)
  moreover have "db_cursors ?s" "db_open ?s = (\<lambda>_. None)" by (rule db_cursors_reset; simp)+
  ultimately show ?thesis using assms m by (auto simp: BofRamDb_ctor_def Let_def db_ok_def db_view_def db_shape_def)
qed

section \<open>The database as a table\<close>

fun db_step ::
  "'r db_compare \<Rightarrow> ('r \<Rightarrow> 'r \<Rightarrow> bool) \<Rightarrow> 'r \<Rightarrow> 'r table_op \<Rightarrow> 'r BofRamDb \<Rightarrow> ('r BofRamDb \<times> 'r table_reply) outcome" where
  "db_step Compare neq zero (TbOpen i) s =
     bindO (BofRamDb_GetCursor s (of_nat i) (Some None)) (\<lambda>(s, h, e).
       Ret (s, if e = BOF_ERR_NO_ERROR then TbCursor (the (the h)) else TbCode e))"
| "db_step Compare neq zero (TbClose h) s = bindO (BofRamDb_FreeCursor s (Some h)) (\<lambda>(s, h, e). Ret (s, TbCode e))"
| "db_step Compare neq zero (TbInsert h r) s = bindO (BofRamDb_InsertElement Compare s h (Some r)) (\<lambda>(s, e). Ret (s, TbCode e))"
| "db_step Compare neq zero (TbDelete r) s = bindO (BofRamDb_DeleteElement Compare s (Some r)) (\<lambda>(s, e). Ret (s, TbCode e))"
| "db_step Compare neq zero (TbUpdate h old new) s =
     bindO (BofRamDb_UpdateElement Compare neq s h (Some old) (Some new)) (\<lambda>(s, e). Ret (s, TbCode e))"
| "db_step Compare neq zero (TbFind h k c) s =
     bindO (BofRamDb_SearchElement Compare s h (Some k) (Some zero) c) (\<lambda>(s, r). Ret (s, db_reply r))"
| "db_step Compare neq zero (TbFirst h) s = bindO (BofRamDb_GetFirstElement s h (Some zero)) (\<lambda>(s, r). Ret (s, db_reply r))"
| "db_step Compare neq zero (TbLast h) s = bindO (BofRamDb_GetLastElement s h (Some zero)) (\<lambda>(s, r). Ret (s, db_reply r))"
| "db_step Compare neq zero TbClear s = bindO (BofRamDb_ClearDbAndReleaseCursor s) (\<lambda>(s, e). Ret (s, TbCode e))"

end
