(* ===== verification/Bof_RamDb_Walk.thy ===== *)
theory Bof_RamDb_Walk
  imports Bof_RamDb_Ops
begin

text \<open>Walks along an index with a cursor, and the integrity check of the database.\<close>

section \<open>A cursor on a node\<close>

text \<open>The database with one cursor moved.\<close>

definition db_at :: "'r BofRamDb \<Rightarrow> nat \<Rightarrow> (nat \<times> nat) option \<Rightarrow> 'r BofRamDb" where
  "db_at s c a = s\<lparr>db_mpCursorState_X := (db_mpCursorState_X s)[c := (db_mpCursorState_X s ! c)\<lparr>cur_pElement := a\<rparr>]\<rparr>"

lemma db_at_sel [simp]:
  "db_mMtx_X (db_at s c a) = db_mMtx_X s" "db_mppRamDbTree (db_at s c a) = db_mppRamDbTree s"
  "db_mpElementList (db_at s c a) = db_mpElementList s" "db_mNbMaxElement_U32 (db_at s c a) = db_mNbMaxElement_U32 s"
  "db_mpRamDbFreeElementList_U32 (db_at s c a) = db_mpRamDbFreeElementList_U32 s"
  "db_mNextRamDbFreeElement_U32 (db_at s c a) = db_mNextRamDbFreeElement_U32 s"
  "length (db_mpCursorState_X (db_at s c a)) = length (db_mpCursorState_X s)"
  "db_at (db_at s c a) c b = db_at s c b" "db_store key (db_at s c a) fs = db_store key s fs" "db_records (db_at s c a) = db_records s"
proof -
  show "db_at (db_at s c a) c b = db_at s c b" by (cases "c < length (db_mpCursorState_X s)") (simp_all add: db_at_def list_update_beyond)
qed (simp_all add: db_at_def)

lemma db_at_open [simp]: "db_open s c \<noteq> None \<Longrightarrow> db_open (db_at s c a) = db_open s"
  by (auto simp: db_open_def db_at_def fun_eq_iff nth_list_update split: if_splits)

lemma db_at_cursor:
  assumes "db_open s c \<noteq> None"
  shows "cur_pElement (db_mpCursorState_X (db_at s c a) ! c) = a" "db_index (db_at s c a) c = db_index s c"
  using assms by (auto simp: db_at_def db_open_def split: if_splits)

lemma db_at_cursors:
  assumes "db_cursors s" "db_open s c \<noteq> None" "db_store key s fs"
  shows "db_cursors (db_at s c a)"
proof -
  have "db_evolves key s (db_records s) (db_at s c a)"
    by (rule db_cursor_moved [OF _ _ _ _ _ assms(2)]) (use assms(3) in \<open>auto simp: db_at_def\<close>)
  then show ?thesis using assms(1) by (simp add: db_evolves_def)
qed

lemma db_at_same: "db_at s c (cur_pElement (db_mpCursorState_X s ! c)) = s"
  by (cases s) (simp add: db_at_def)

lemma db_guard_at:
  assumes rdy: "recursive_mutex_ok (db_mMtx_X s)" and body: "\<And>m. body (s\<lparr>db_mMtx_X := m\<rparr>) = Ret (db_at (s\<lparr>db_mMtx_X := m\<rparr>) c a, r)"
  shows "db_guard s body = Ret (db_at s c a, r)"
proof -
  obtain m' where m': "Bof_LockMutex (db_mMtx_X s) = Ret (m', BOF_ERR_NO_ERROR)" "recursive_mutex_ok m'"
    "Bof_UnlockMutex m' = Ret (db_mMtx_X s, BOF_ERR_NO_ERROR)" using recursive_mutex_cycle [OF rdy] by blast
  have "(db_at (s\<lparr>db_mMtx_X := m'\<rparr>) c a)\<lparr>db_mMtx_X := db_mMtx_X s\<rparr> = db_at s c a" by (cases s) (simp add: db_at_def)
  then show ?thesis using m' body by (simp add: db_guard_def)
qed

text \<open>The nodes of an index in order, and the record of a node.\<close>

abbreviation db_nodes :: "'r BofRamDb \<Rightarrow> nat \<Rightarrow> 'r db_ptr BofAvlNode list" where
  "db_nodes s i \<equiv> avl_nodes (avt_mpRoot (db_mppRamDbTree s ! i))"

abbreviation db_record :: "'r BofRamDb \<Rightarrow> 'r db_ptr BofAvlNode \<Rightarrow> 'r" where
  "db_record s n \<equiv> db_deref (db_mpElementList s) (avl_mpData n)"

text \<open>What the methods need: a sound database and a cursor open on index \<open>i\<close>.\<close>

definition db_ready :: "(nat \<Rightarrow> 'r \<Rightarrow> 'o::linorder) \<Rightarrow> 'r BofRamDb \<Rightarrow> nat \<Rightarrow> nat \<Rightarrow> bool" where
  "db_ready key s c i \<longleftrightarrow> db_ok key s \<and> db_open s c = Some i"

lemma db_readyD:
  assumes "db_ready key s c i"
  obtains fs where "recursive_mutex_ok (db_mMtx_X s)" "db_cursors s" "db_store key s fs" "db_open s c \<noteq> None" "db_index s c = i" "i < db_nb s"
    "avl_holds (db_key key (db_mpElementList s) i) (db_cap s) (db_used (db_cap s) fs) (db_mppRamDbTree s ! i)" "i < length (db_mppRamDbTree s)"
proof -
  obtain fs where s: "recursive_mutex_ok (db_mMtx_X s)" "db_cursors s" "db_store key s fs" "db_open s c = Some i"
    using assms by (auto simp: db_ready_def db_ok_def)
  show thesis using that [OF s(1-3)] s(4) db_open_index [OF s(2,4)] db_store_tree [OF s(3)] db_storeD(10) [OF s(3)] by auto
qed

lemma db_ready_at:
  assumes "db_ready key s c i"
  shows "db_ready key (db_at s c a) c i" "db_view (db_at s c a) = db_view s"
proof -
  obtain fs where "db_cursors s" "db_store key s fs" "db_open s c \<noteq> None" using assms by (rule db_readyD)
  then show "db_ready key (db_at s c a) c i" using assms db_at_cursors [of s c key fs a] by (auto simp: db_ready_def db_ok_def)
  show "db_view (db_at s c a) = db_view s" using \<open>db_open s c \<noteq> None\<close> by (simp add: db_view_def)
qed

lemma db_node_at_mtx [simp]: "db_node_at (s\<lparr>db_mMtx_X := m\<rparr>) a f = db_node_at s a f"
  by (simp add: db_node_at_def)

lemma db_node_at_nth:
  assumes "db_ready key s c i" "k < length (db_nodes s i)"
  shows "db_node_at s (i, avl_id (db_nodes s i ! k)) f = f (db_mppRamDbTree s ! i) (db_nodes s i ! k)" "db_nodes s i ! k \<noteq> NullNode"
proof -
  obtain fs where h: "avl_holds (db_key key (db_mpElementList s) i) (db_cap s) (db_used (db_cap s) fs) (db_mppRamDbTree s ! i)"
    "i < length (db_mppRamDbTree s)" using assms(1) by (rule db_readyD)
  have n: "db_nodes s i ! k \<in> set (db_nodes s i)" using assms(2) by (rule nth_mem)
  have d: "avl_distinct (avt_mpRoot (db_mppRamDbTree s ! i))" using avl_holdsD(1) [OF h(1)] by (simp add: avl_tree_ok_def)
  show nn: "db_nodes s i ! k \<noteq> NullNode" using n nodes_not_null by metis
  show "db_node_at s (i, avl_id (db_nodes s i ! k)) f = f (db_mppRamDbTree s ! i) (db_nodes s i ! k)"
    using find_node [OF d n] nn h(2) by (simp add: db_node_at_def)
qed

section \<open>Walking\<close>

lemma First_at:
  assumes "db_ready key s c i"
  shows "BofRamDb_GetFirstElement s (Some c) (Some x) =
    (if db_nodes s i = [] then Ret (s, Some x, BOF_ERR_EMPTY)
     else Ret (db_at s c (Some (i, avl_id (db_nodes s i ! 0))), Some (db_record s (db_nodes s i ! 0)), BOF_ERR_NO_ERROR))"
  (is "_ = (if ?e then _ else Ret (db_at s c (Some ?a), ?r))")
proof -
  obtain fs :: "nat list" where s: "recursive_mutex_ok (db_mMtx_X s)" "db_open s c \<noteq> None" "db_index s c = i" "i < length (db_mppRamDbTree s)"
    using assms by (rule db_readyD)
  have f: "BofAvlTree_GetFirst (db_mppRamDbTree s ! i) = (if ?e then NullNode else db_nodes s i ! 0)"
    by (simp add: BofAvlTree_GetFirst_def leftmost_hd hd_conv_nth)
  have nn: "db_nodes s i ! 0 \<noteq> NullNode" if "\<not> ?e" using db_node_at_nth(2) [OF assms, of 0] that by (metis length_greater_0_conv)
  let ?p = "if ?e then cur_pElement (db_mpCursorState_X s ! c) else Some ?a"
  have "BofRamDb_GetFirstElement s (Some c) (Some x) = Ret (db_at s c ?p, if ?e then (Some x, BOF_ERR_EMPTY) else ?r)"
    unfolding BofRamDb_GetFirstElement_def db_with_cursor_open [OF s(2)] if_P [OF option.distinct(2)]
    by (rule db_guard_at [OF s(1)])
       (use s f nn db_at_same [of "s\<lparr>db_mMtx_X := m\<rparr>" c for m] in \<open>cases ?e; simp add: db_arrive_def db_at_def\<close>)
  then show ?thesis by (simp add: db_at_same)
qed

lemma Last_at:
  assumes "db_ready key s c i"
  shows "BofRamDb_GetLastElement s (Some c) (Some x) =
    (if db_nodes s i = [] then Ret (s, Some x, BOF_ERR_EMPTY)
     else Ret (db_at s c (Some (i, avl_id (last (db_nodes s i)))), Some (db_record s (last (db_nodes s i))), BOF_ERR_NO_ERROR))"
  (is "_ = (if ?e then _ else Ret (db_at s c (Some ?a), ?r))")
proof -
  obtain fs :: "nat list" where s: "recursive_mutex_ok (db_mMtx_X s)" "db_open s c \<noteq> None" "db_index s c = i" "i < length (db_mppRamDbTree s)"
    using assms by (rule db_readyD)
  have f: "BofAvlTree_GetLast (db_mppRamDbTree s ! i) = (if ?e then NullNode else last (db_nodes s i))"
    by (simp add: BofAvlTree_GetLast_def rightmost_last)
  have nn: "last (db_nodes s i) \<noteq> NullNode" if "\<not> ?e" using last_in_set [OF that] nodes_not_null by metis
  let ?p = "if ?e then cur_pElement (db_mpCursorState_X s ! c) else Some ?a"
  have "BofRamDb_GetLastElement s (Some c) (Some x) = Ret (db_at s c ?p, if ?e then (Some x, BOF_ERR_EMPTY) else ?r)"
    unfolding BofRamDb_GetLastElement_def db_with_cursor_open [OF s(2)] if_P [OF option.distinct(2)]
    by (rule db_guard_at [OF s(1)])
       (use s f nn db_at_same [of "s\<lparr>db_mMtx_X := m\<rparr>" c for m] in \<open>cases ?e; simp add: db_arrive_def db_at_def\<close>)
  then show ?thesis by (simp add: db_at_same)
qed

text \<open>From the node at place \<open>k\<close>, the next and the previous one are those at the places beside it.\<close>

lemma Next_at:
  assumes c: "db_compare_by Compare key" and r: "db_ready key s c i" and k: "k < length (db_nodes s i)"
    and a: "cur_pElement (db_mpCursorState_X s ! c) = Some (i, avl_id (db_nodes s i ! k))"
  shows "BofRamDb_GetNextElement Compare s (Some c) (Some x) =
    (if k + 1 < length (db_nodes s i)
     then Ret (db_at s c (Some (i, avl_id (db_nodes s i ! (k + 1)))), Some (db_record s (db_nodes s i ! (k + 1))), BOF_ERR_NO_ERROR)
     else Ret (s, Some x, BOF_ERR_EOF))"
  (is "_ = (if ?m then Ret (db_at s c (Some ?a), ?r) else _)")
proof -
  obtain fs where s: "recursive_mutex_ok (db_mMtx_X s)" "db_open s c \<noteq> None" "db_index s c = i" "i < length (db_mppRamDbTree s)"
    "avl_holds (db_key key (db_mpElementList s) i) (db_cap s) (db_used (db_cap s) fs) (db_mppRamDbTree s ! i)"
    using r by (rule db_readyD)
  have len: "length (avt_contents (db_mppRamDbTree s ! i)) = length (db_nodes s i)" by (simp add: avt_contents_def)
  have nx: "BofAvlTree_GetNext (db_cmp Compare (db_mpElementList s) i) (db_mppRamDbTree s ! i) (db_nodes s i ! k) =
    Ret (if ?m then db_nodes s i ! (k + 1) else NullNode)"
    using tree_traversal [OF db_cmp_by [OF c] avl_holdsD(1) [OF s(5)], of k] k unfolding len by blast
  note unf = BofRamDb_GetNextElement_def db_with_cursor_open [OF s(2)] if_P [OF option.distinct(2)]
  show ?thesis
  proof (cases ?m)
    case True
    then have nn: "db_nodes s i ! (k + 1) \<noteq> NullNode" using db_node_at_nth(2) [OF r] k by simp
    show ?thesis unfolding unf if_P [OF True]
      by (rule db_guard_at [OF s(1)])
         (use s(3) a nx nn True in \<open>simp add: db_node_at_nth(1) [OF r k] db_arrive_def db_at_def\<close>)
  next
    case False
    have "db_guard s (\<lambda>s. case cur_pElement (db_mpCursorState_X s ! c) of
        Some a \<Rightarrow> db_node_at s a (\<lambda>t node.
          bindO (BofAvlTree_GetNext (db_cmp Compare (db_mpElementList s) (db_index s c)) t node)
            (db_arrive s c (fst a) (Some x) BOF_ERR_EOF))
      | None \<Rightarrow> Ret (s, Some x, BOF_ERR_EOF)) = Ret (db_at s c (cur_pElement (db_mpCursorState_X s ! c)), Some x, BOF_ERR_EOF)"
      by (rule db_guard_at [OF s(1)])
         (use s(3) a nx [unfolded if_not_P [OF False]] db_at_same [of "s\<lparr>db_mMtx_X := m\<rparr>" c for m] in \<open>simp add: db_node_at_nth(1) [OF r k] db_arrive_def\<close>)
    then show ?thesis using False unfolding unf by (simp add: db_at_same)
  qed
qed

lemma Previous_at:
  assumes c: "db_compare_by Compare key" and r: "db_ready key s c i" and k: "k < length (db_nodes s i)"
    and a: "cur_pElement (db_mpCursorState_X s ! c) = Some (i, avl_id (db_nodes s i ! k))"
  shows "BofRamDb_GetPreviousElement Compare s (Some c) (Some x) =
    (if 0 < k
     then Ret (db_at s c (Some (i, avl_id (db_nodes s i ! (k - 1)))), Some (db_record s (db_nodes s i ! (k - 1))), BOF_ERR_NO_ERROR)
     else Ret (s, Some x, BOF_ERR_EOF))"
  (is "_ = (if ?m then Ret (db_at s c (Some ?a), ?r) else _)")
proof -
  obtain fs where s: "recursive_mutex_ok (db_mMtx_X s)" "db_open s c \<noteq> None" "db_index s c = i" "i < length (db_mppRamDbTree s)"
    "avl_holds (db_key key (db_mpElementList s) i) (db_cap s) (db_used (db_cap s) fs) (db_mppRamDbTree s ! i)"
    using r by (rule db_readyD)
  have len: "length (avt_contents (db_mppRamDbTree s ! i)) = length (db_nodes s i)" by (simp add: avt_contents_def)
  have nx: "BofAvlTree_GetPrevious (db_cmp Compare (db_mpElementList s) i) (db_mppRamDbTree s ! i) (db_nodes s i ! k) =
    Ret (if ?m then db_nodes s i ! (k - 1) else NullNode)"
    using tree_traversal [OF db_cmp_by [OF c] avl_holdsD(1) [OF s(5)], of k] k unfolding len by blast
  note unf = BofRamDb_GetPreviousElement_def db_with_cursor_open [OF s(2)] if_P [OF option.distinct(2)]
  show ?thesis
  proof (cases ?m)
    case True
    then have nn: "db_nodes s i ! (k - 1) \<noteq> NullNode" using db_node_at_nth(2) [OF r] k by simp
    show ?thesis unfolding unf if_P [OF True]
      by (rule db_guard_at [OF s(1)])
         (use s(3) a nx nn True in \<open>simp add: db_node_at_nth(1) [OF r k] db_arrive_def db_at_def\<close>)
  next
    case False
    have "db_guard s (\<lambda>s. case cur_pElement (db_mpCursorState_X s ! c) of
        Some a \<Rightarrow> db_node_at s a (\<lambda>t node.
          bindO (BofAvlTree_GetPrevious (db_cmp Compare (db_mpElementList s) (db_index s c)) t node)
            (db_arrive s c (fst a) (Some x) BOF_ERR_EOF))
      | None \<Rightarrow> Ret (s, Some x, BOF_ERR_EOF)) = Ret (db_at s c (cur_pElement (db_mpCursorState_X s ! c)), Some x, BOF_ERR_EOF)"
      by (rule db_guard_at [OF s(1)])
         (use s(3) a nx [unfolded if_not_P [OF False]] db_at_same [of "s\<lparr>db_mMtx_X := m\<rparr>" c for m] in \<open>simp add: db_node_at_nth(1) [OF r k] db_arrive_def\<close>)
    then show ?thesis using False unfolding unf by (simp add: db_at_same)
  qed
qed

text \<open>
  A client that walks along an index from one end to the other: it moves until
  the database answers that there is no record left. The fuel bounds the calls.
\<close>

fun db_scan_next ::
  "('r BofRamDb \<Rightarrow> ('r BofRamDb \<times> 'r option \<times> BOFERR) outcome) \<Rightarrow> nat \<Rightarrow> 'r BofRamDb \<Rightarrow> ('r BofRamDb \<times> 'r list) outcome" where
  "db_scan_next move 0 s = Retrying"
| "db_scan_next move (Suc fuel) s =
     bindO (move s) (\<lambda>(s, r, e).
       if e = BOF_ERR_NO_ERROR then bindO (db_scan_next move fuel s) (\<lambda>(s, xs). Ret (s, the r # xs)) else Ret (s, []))"

definition db_scan ::
  "('r BofRamDb \<Rightarrow> ('r BofRamDb \<times> 'r option \<times> BOFERR) outcome) \<Rightarrow> ('r BofRamDb \<Rightarrow> ('r BofRamDb \<times> 'r option \<times> BOFERR) outcome) \<Rightarrow>
     nat \<Rightarrow> 'r BofRamDb \<Rightarrow> ('r BofRamDb \<times> 'r list) outcome" where
  "db_scan first move fuel s =
     bindO (first s) (\<lambda>(s, r, e).
       if e = BOF_ERR_NO_ERROR then bindO (db_scan_next move fuel s) (\<lambda>(s, xs). Ret (s, the r # xs)) else Ret (s, []))"

lemma scan_forward:
  assumes c: "db_compare_by Compare key" and r: "db_ready key s c i" and k: "k < length (db_nodes s i)"
    and f: "length (db_nodes s i) \<le> k + fuel"
  shows "\<exists>a. db_scan_next (\<lambda>s. BofRamDb_GetNextElement Compare s (Some c) (Some x)) fuel (db_at s c (Some (i, avl_id (db_nodes s i ! k)))) =
    Ret (db_at s c a, map (db_record s) (drop (k + 1) (db_nodes s i)))"
  using k f
proof (induction fuel arbitrary: k)
  case (Suc fuel)
  let ?s = "db_at s c (Some (i, avl_id (db_nodes s i ! k)))"
  have r': "db_ready key ?s c i" by (rule db_ready_at(1) [OF r])
  have o: "db_open s c \<noteq> None" using r by (simp add: db_ready_def)
  note nx = Next_at [OF c r' _ _, of k x, simplified db_at_sel db_at_cursor(1) [OF o]]
  show ?case
  proof (cases "k + 1 < length (db_nodes s i)")
    case True
    obtain a where "db_scan_next (\<lambda>s. BofRamDb_GetNextElement Compare s (Some c) (Some x)) fuel (db_at s c (Some (i, avl_id (db_nodes s i ! (k + 1))))) =
      Ret (db_at s c a, map (db_record s) (drop (k + 1 + 1) (db_nodes s i)))" using Suc.IH [of "k + 1"] Suc.prems True by auto
    moreover have "drop (k + 1) (db_nodes s i) = db_nodes s i ! (k + 1) # drop (k + 1 + 1) (db_nodes s i)"
      using True by (simp only: Cons_nth_drop_Suc [symmetric] Suc_eq_plus1)
    ultimately show ?thesis using nx [OF Suc.prems(1) refl] True by auto
  next
    case False
    then show ?thesis using nx [OF Suc.prems(1) refl] by auto
  qed
qed simp

lemma scan_backward:
  assumes c: "db_compare_by Compare key" and r: "db_ready key s c i" and k: "k < length (db_nodes s i)" and f: "k < fuel"
  shows "\<exists>a. db_scan_next (\<lambda>s. BofRamDb_GetPreviousElement Compare s (Some c) (Some x)) fuel (db_at s c (Some (i, avl_id (db_nodes s i ! k)))) =
    Ret (db_at s c a, map (db_record s) (rev (take k (db_nodes s i))))"
  using k f
proof (induction fuel arbitrary: k)
  case (Suc fuel)
  let ?s = "db_at s c (Some (i, avl_id (db_nodes s i ! k)))"
  have r': "db_ready key ?s c i" by (rule db_ready_at(1) [OF r])
  have o: "db_open s c \<noteq> None" using r by (simp add: db_ready_def)
  note pv = Previous_at [OF c r' _ _, of k x, simplified db_at_sel db_at_cursor(1) [OF o]]
  show ?case
  proof (cases k)
    case (Suc j)
    obtain a where "db_scan_next (\<lambda>s. BofRamDb_GetPreviousElement Compare s (Some c) (Some x)) fuel (db_at s c (Some (i, avl_id (db_nodes s i ! j)))) =
      Ret (db_at s c a, map (db_record s) (rev (take j (db_nodes s i))))" using Suc.IH [of j] Suc.prems Suc by auto
    moreover have "take k (db_nodes s i) = take j (db_nodes s i) @ [db_nodes s i ! j]"
      using Suc Suc.prems by (simp add: take_Suc_conv_app_nth)
    ultimately show ?thesis using pv [OF Suc.prems(1) refl] Suc by auto
  next
    case 0
    then show ?thesis using pv [OF Suc.prems(1) refl] by auto
  qed
qed simp

lemma db_scans:
  assumes c: "db_compare_by Compare key" and r: "db_ready key s c i"
  shows "\<exists>a. db_scan (\<lambda>s. BofRamDb_GetFirstElement s (Some c) (Some x)) (\<lambda>s. BofRamDb_GetNextElement Compare s (Some c) (Some x)) (db_cap s) s =
      Ret (db_at s c a, map (db_record s) (db_nodes s i))"
    "\<exists>a. db_scan (\<lambda>s. BofRamDb_GetLastElement s (Some c) (Some x)) (\<lambda>s. BofRamDb_GetPreviousElement Compare s (Some c) (Some x)) (db_cap s) s =
      Ret (db_at s c a, rev (map (db_record s) (db_nodes s i)))"
proof -
  let ?ns = "db_nodes s i"
  obtain fs where h: "avl_holds (db_key key (db_mpElementList s) i) (db_cap s) (db_used (db_cap s) fs) (db_mppRamDbTree s ! i)"
    using r by (rule db_readyD)
  have le: "length ?ns \<le> db_cap s" using avl_pool(1) [OF avl_holdsD(1) [OF h]] avl_holdsD(2) [OF h] by simp
  have same: "s = db_at s c (cur_pElement (db_mpCursorState_X s ! c))" by (simp add: db_at_same)
  show "\<exists>a. db_scan (\<lambda>s. BofRamDb_GetFirstElement s (Some c) (Some x)) (\<lambda>s. BofRamDb_GetNextElement Compare s (Some c) (Some x)) (db_cap s) s =
      Ret (db_at s c a, map (db_record s) ?ns)"
  proof (cases "?ns = []")
    case True
    then show ?thesis using First_at [OF r, of x] same by (auto simp: db_scan_def)
  next
    case False
    then have "0 < length ?ns" by (simp del: length_nodes nodes_Nil)
    moreover have "db_record s (?ns ! 0) # map (db_record s) (drop (Suc 0) ?ns) = map (db_record s) ?ns"
      using False by (cases ?ns) (simp_all del: length_nodes nodes_Nil)
    ultimately show ?thesis using First_at [OF r, of x] scan_forward [OF c r, of 0 "db_cap s" x] le False
      by (auto simp: db_scan_def simp del: length_nodes nodes_Nil)
  qed
  show "\<exists>a. db_scan (\<lambda>s. BofRamDb_GetLastElement s (Some c) (Some x)) (\<lambda>s. BofRamDb_GetPreviousElement Compare s (Some c) (Some x)) (db_cap s) s =
      Ret (db_at s c a, rev (map (db_record s) ?ns))"
  proof (cases "?ns = []")
    case True
    then show ?thesis using Last_at [OF r, of x] same by (auto simp: db_scan_def)
  next
    case False
    then have l: "length ?ns - 1 < length ?ns" "last ?ns = ?ns ! (length ?ns - 1)" by (simp_all add: last_conv_nth del: length_nodes nodes_Nil)
    have "rev ?ns = last ?ns # rev (take (length ?ns - 1) ?ns)" using False
      by (metis append_butlast_last_id butlast_conv_take rev_append append_Cons append_Nil rev_singleton_conv)
    then have "rev (map (db_record s) ?ns) = db_record s (last ?ns) # map (db_record s) (rev (take (length ?ns - 1) ?ns))"
      by (simp only: rev_map list.map)
    moreover have "length ?ns - 1 < db_cap s" using le l(1) by linarith
    ultimately show ?thesis using Last_at [OF r, of x] scan_backward [OF c r l(1), of "db_cap s" x] l(2) False
      by (auto simp: db_scan_def simp del: length_nodes nodes_Nil)
  qed
qed

end
