(* ===== verification/Bof_RamDb_Check.thy ===== *)
theory Bof_RamDb_Check
  imports Bof_RamDb_Walk
begin

text \<open>The integrity check accepts a sound database.\<close>

section \<open>The chain of the unused entries\<close>

lemma check_cycle:
  assumes "db_chain fl nxt fs" "f < unat (n::u32)" "f \<notin> set fs" "set fs \<subseteq> {..<unat n}"
  shows "\<exists>w. db_check_cycle fl (of_nat f) m nxt = Ret w \<and> w \<noteq> of_nat f"
  using assms
proof (induction fs arbitrary: nxt m)
  case Nil
  then show ?case using slot_word(2) [OF Nil(2)] by (cases m) auto
next
  case (Cons g gs)
  have g: "unat (of_nat g :: u32) = g" "of_nat g \<noteq> db_none" using slot_word [of g n] Cons.prems(4) by auto
  have ne: "(of_nat f :: u32) \<noteq> of_nat g" using slot_word(1) [OF Cons.prems(2)] g(1) Cons.prems(3) by auto
  show ?case
  proof (cases m)
    case 0
    then show ?thesis using Cons.prems(1) ne by auto
  next
    case (Suc m')
    then show ?thesis using Cons.IH [of "fl ! g" m'] Cons.prems g ne by auto
  qed
qed

lemma check_free:
  assumes "db_chain fl nxt fs" "distinct fs" "set fs \<subseteq> {..<unat n}" "length fs \<le> m"
  shows "db_check_free fl n m nxt tot = Ret (tot + of_nat (length fs), True)"
  using assms
proof (induction fs arbitrary: nxt m tot)
  case Nil
  then show ?case by (cases m) auto
next
  case (Cons f fs)
  obtain m' where m: "m = Suc m'" using Cons.prems(4) by (cases m) auto
  have f: "unat (of_nat f :: u32) = f" "of_nat f \<noteq> db_none" "of_nat f < n" using slot_word [of f n] Cons.prems(3) by auto
  obtain w where w: "db_check_cycle fl (of_nat f) (unat n) (fl ! f) = Ret w" "w \<noteq> of_nat f"
    using check_cycle [of fl "fl ! f" fs f n "unat n"] Cons.prems by auto
  have "db_check_free fl n m' (fl ! f) (tot + 1) = Ret (tot + 1 + of_nat (length fs), True)"
    using Cons.IH [of "fl ! f" m' "tot + 1"] Cons.prems m by simp
  then show ?case using m f w Cons.prems(1) by (auto simp: add.assoc)
qed

lemma check_slot:
  assumes "db_chain fl nxt fs" "p < unat n" "p \<notin> set fs" "set fs \<subseteq> {..<unat n}" "n + 1 \<noteq> 0"
  shows "db_check_slot fl n (of_nat p) m nxt = Ret False"
  using assms
proof (induction fs arbitrary: nxt m)
  case Nil
  then show ?case by (cases m) auto
next
  case (Cons g gs)
  have g: "unat (of_nat g :: u32) = g" "of_nat g \<noteq> db_none" using slot_word [of g n] Cons.prems(4) by auto
  have "(of_nat p :: u32) \<noteq> of_nat g" using slot_word(1) [OF Cons.prems(2)] g(1) Cons.prems(3) by auto
  then show ?case using Cons.IH [of "fl ! g" "m - 1"] Cons.prems g by (cases m) auto
qed

section \<open>The trees\<close>

lemma tree_nodes:
  assumes "avl_holds k N S t"
  shows "BofAvlTree_GetNbNode t = of_nat (card S)"
  using avl_holds_length [OF assms] avl_holdsD(1) [OF assms]
  by (simp add: BofAvlTree_GetNbNode_def avl_tree_ok_def avt_contents_def)

lemma check_trees:
  assumes c: "db_compare_by Compare key" and t: "db_trees key els n N (\<lambda>_. S) trees" "i + m \<le> n"
  shows "db_check_trees Compare els m i trees (r, nb) = Ret (r, nb + of_nat m * of_nat (card S))"
  using t(2)
proof (induction m arbitrary: i nb)
  case (Suc m)
  have i: "i < n" "i < length trees" using Suc.prems t(1) by (auto simp: db_trees_def)
  have "BofAvlTree_Check (db_cmp Compare els i) (trees ! i) nb = (True, nb + of_nat (card S))"
    using tree_check [OF db_cmp_by [OF c] avl_holdsD(1) [OF db_treesD [OF t(1) i(1)]]] tree_nodes [OF db_treesD [OF t(1) i(1)]] by simp
  then show ?case using Suc.IH [of "Suc i" "nb + of_nat (card S)"] Suc.prems i(2) by (simp add: algebra_simps)
qed simp

lemma check_counts:
  assumes "db_trees key els n N (\<lambda>_. S) trees" "i + m \<le> n"
  shows "db_check_counts (of_nat (card S)) m i trees r = Ret r"
  using assms(2)
proof (induction m arbitrary: i)
  case (Suc m)
  have i: "i < n" "i < length trees" using Suc.prems assms(1) by (auto simp: db_trees_def)
  then show ?case using Suc.IH [of "Suc i"] Suc.prems tree_nodes [OF db_treesD [OF assms(1) i(1)]] by simp
qed simp

section \<open>The records\<close>

text \<open>The walk of the check from the node at place \<open>k\<close> of index 0.\<close>

lemma check_records:
  assumes c: "db_compare_by Compare key" and r: "db_ready key s c 0" and k: "k < length (db_nodes s 0)"
    and f: "length (db_nodes s 0) \<le> k + fuel" and n: "db_mNbMaxElement_U32 s + 1 \<noteq> 0"
  shows "\<exists>a. db_check_records Compare fuel (db_at s c (Some (0, avl_id (db_nodes s 0 ! k)))) c (Some x) tot =
    Ret (db_at s c a, tot + of_nat (length (db_nodes s 0) - k), True)"
  using k f
proof (induction fuel arbitrary: k x tot)
  case (Suc fuel)
  let ?s = "db_at s c (Some (0, avl_id (db_nodes s 0 ! k)))"
  obtain fs where st: "db_store key s fs" "db_open s c \<noteq> None"
    "avl_holds (db_key key (db_mpElementList s) 0) (db_cap s) (db_used (db_cap s) fs) (db_mppRamDbTree s ! 0)" using r by (rule db_readyD)
  have r': "db_ready key ?s c 0" by (rule db_ready_at(1) [OF r])
  have "avl_mpData (db_nodes s 0 ! k) \<in> db_used (db_cap s) fs"
    using avl_nodes_sorted(2) [OF st(3)] nth_mem [OF Suc.prems(1)] by auto
  then obtain p where p: "avl_mpData (db_nodes s 0 ! k) = Slot p" "p < db_cap s" "p \<notin> set fs" by (auto simp: db_used_def)
  note d = db_storeD [OF st(1)]
  have slot: "db_check_slot (db_mpRamDbFreeElementList_U32 s) (db_mNbMaxElement_U32 s) (of_nat p) (db_cap s) (db_mNextRamDbFreeElement_U32 s) = Ret False"
    by (rule check_slot [OF d(7) p(2,3) d(6) n])
  note at = db_node_at_nth(1) [OF r', of k, simplified db_at_sel, OF Suc.prems(1)]
  note nx = Next_at [OF c r' _ _, of k x, simplified db_at_sel db_at_cursor(1) [OF st(2)], OF Suc.prems(1) refl]
  have here: "db_check_records Compare (Suc fuel) ?s c (Some x) tot =
    bindO (BofRamDb_GetNextElement Compare ?s (Some c) (Some x)) (\<lambda>(s, Elem, Sts_E).
      if Sts_E = BOF_ERR_EOF then Ret (s, tot + 1, True) else if Sts_E \<noteq> BOF_ERR_NO_ERROR then Ret (s, tot + 1, False)
      else db_check_records Compare fuel s c Elem (tot + 1))"
    using p slot slot_word(3) [OF p(2)] by (simp add: at db_at_cursor(1) [OF st(2)])
  show ?case
  proof (cases "k + 1 < length (db_nodes s 0)")
    case True
    have "length (db_nodes s 0) - k = Suc (length (db_nodes s 0) - (k + 1))" using True by linarith
    then have cnt: "tot + 1 + of_nat (length (db_nodes s 0) - (k + 1)) = (tot + of_nat (length (db_nodes s 0) - k) :: u32)" by simp
    obtain a where "db_check_records Compare fuel (db_at s c (Some (0, avl_id (db_nodes s 0 ! (k + 1))))) c (Some (db_record s (db_nodes s 0 ! (k + 1)))) (tot + 1) =
      Ret (db_at s c a, tot + 1 + of_nat (length (db_nodes s 0) - (k + 1)), True)"
      using Suc.IH [of "k + 1" "db_record s (db_nodes s 0 ! (k + 1))" "tot + 1"] Suc.prems True by auto
    then show ?thesis unfolding here nx if_P [OF True] cnt by auto
  next
    case False
    then have "length (db_nodes s 0) - k = 1" using Suc.prems(1) by linarith
    then show ?thesis unfolding here nx if_not_P [OF False] by auto
  qed
qed simp

section \<open>The whole check\<close>

lemma check_free_list:
  assumes "db_store key s fs"
  shows "db_check_free_list s r = Ret r"
proof -
  note d = db_storeD [OF assms]
  have le: "length fs \<le> db_cap s" by (rule db_chain_length [OF assms])
  have "of_nat (db_cap s) - of_nat (length fs) = (of_nat (db_cap s - length fs) :: u32)" using le by simp
  then have "db_mNbMaxElement_U32 s - of_nat (length fs) = of_nat (card (db_used (db_cap s) fs :: 'a db_ptr set))"
    using d(5,6) by (simp add: db_used_def card_image inj_on_def card_Diff_subset distinct_card)
  then show ?thesis
    using check_free [OF d(7,5,6) le] tree_nodes [OF db_store_tree [OF assms d(2)]] d(2,10) by (simp add: db_check_free_list_def)
qed

lemma check_basic:
  assumes "db_cursors s"
  shows "of_nat BOFRAMDB_CURSOR_MAX - of_nat (length (filter cur_open (db_mpCursorState_X s))) = db_mNbFreeCursor_U32 s"
proof -
  have "BOFRAMDB_CURSOR_MAX = length (filter cur_open (db_mpCursorState_X s)) + length (filter (\<lambda>cur. \<not> cur_open cur) (db_mpCursorState_X s))"
    using assms sum_length_filter_compl [of cur_open "db_mpCursorState_X s"] by (simp add: db_cursors_def)
  from arg_cong [OF this, of "of_nat :: nat \<Rightarrow> u32"] show ?thesis using assms by (simp add: db_cursors_def)
qed

lemma check_entries:
  assumes c: "db_compare_by Compare key" and ok: "db_ok key s" and fc: "find (\<lambda>c. db_open s c = None) [0..<BOFRAMDB_CURSOR_MAX] = Some cu"
    and n: "db_mNbMaxElement_U32 s + 1 \<noteq> 0"
  shows "\<exists>t. db_check_entries Compare zero s r = Ret (t, r) \<and> db_ok key t \<and> db_view t = db_view s"
proof -
  obtain fs where s: "recursive_mutex_ok (db_mMtx_X s)" "db_cursors s" "db_store key s fs" using ok by (auto simp: db_ok_def)
  note d = db_storeD [OF s(3)]
  have cu: "db_open s cu = None" using fc by (auto simp: find_Some_iff)
  obtain u where u: "BofRamDb_GetCursor s 0 (Some None) = Ret (u, Some (Some cu), BOF_ERR_NO_ERROR)" "db_ok key u" "db_records u = db_records s"
    "db_open u = (db_open s)(cu := Some 0)" "db_mNbMaxElement_U32 u = db_mNbMaxElement_U32 s"
    using GetCursor_ok [OF s, of 0 "(=)"] fc d(2) s(1) by (auto simp: db_view_def db_ok_def db_shape_def word_unat_eq_iff split: if_splits) blast
  have r: "db_ready key u cu 0" using u(2,4) by (simp add: db_ready_def)
  obtain gs where g: "db_store key u gs" "0 < length (db_mppRamDbTree u)" "db_open u cu \<noteq> None"
    "avl_holds (db_key key (db_mpElementList u) 0) (db_cap u) (db_used (db_cap u) gs) (db_mppRamDbTree u ! 0)" using r by (rule db_readyD)
  have fin: "\<exists>t. BofRamDb_FreeCursor (db_at u cu a) (Some (Some cu)) = Ret (t, Some None, BOF_ERR_NO_ERROR) \<and> db_ok key t \<and> db_view t = db_view s" for a
  proof -
    have r': "db_ready key (db_at u cu a) cu 0" by (rule db_ready_at(1) [OF r])
    then have "recursive_mutex_ok (db_mMtx_X (db_at u cu a))" "db_cursors (db_at u cu a)" "db_store key (db_at u cu a) gs" "db_open (db_at u cu a) cu \<noteq> None"
      using g(1) by (auto simp: db_ready_def db_ok_def)
    from FreeCursor_ok [OF this, of "(=)"] obtain t where "BofRamDb_FreeCursor (db_at u cu a) (Some (Some cu)) = Ret (t, Some None, BOF_ERR_NO_ERROR)"
      "db_mMtx_X t = db_mMtx_X u" "db_cursors t" "db_store key t gs" "db_records t = db_records s" "db_open t = (db_open (db_at u cu a))(cu := None)"
      using u(3) by auto
    moreover have "(db_open (db_at u cu a))(cu := None) = db_open s" using g(3) u(4) cu by auto
    ultimately show ?thesis using u(2) by (auto simp: db_ok_def db_view_def)
  qed
  have same: "u = db_at u cu (cur_pElement (db_mpCursorState_X u ! cu))" by (simp add: db_at_same)
  show ?thesis
  proof (cases "db_nodes u 0 = []")
    case True
    then show ?thesis using u(1) First_at [OF r, of zero] fin [of "cur_pElement (db_mpCursorState_X u ! cu)"]
      by (auto simp: db_check_entries_def db_at_same)
  next
    case False
    then have k: "0 < length (db_nodes u 0)" by (simp del: length_nodes nodes_Nil)
    have le: "length (db_nodes u 0) \<le> 0 + db_cap u" using avl_pool(1) [OF avl_holdsD(1) [OF g(4)]] avl_holdsD(2) [OF g(4)] by simp
    obtain a where a: "db_check_records Compare (db_cap u) (db_at u cu (Some (0, avl_id (db_nodes u 0 ! 0)))) cu (Some (db_record u (db_nodes u 0 ! 0))) 0 =
      Ret (db_at u cu a, 0 + of_nat (length (db_nodes u 0) - 0), True)"
      using check_records [OF c r k le] n u(5) by metis
    have "of_nat (length (db_nodes u 0)) = BofAvlTree_GetNbNode (db_mppRamDbTree u ! 0)"
      using avl_holdsD(1) [OF g(4)] by (simp add: BofAvlTree_GetNbNode_def avl_tree_ok_def)
    then show ?thesis using u(1) First_at [OF r, of zero] False a fin [of a] g(2)
      by (auto simp: db_check_entries_def simp del: length_nodes nodes_Nil)
  qed
qed

text \<open>The basic tests pass on a sound database.\<close>

lemma CheckDb_base:
  assumes c: "db_compare_by Compare key" and ok: "db_ok key s"
  shows "BofRamDb_CheckDb Compare zero s ext = (if ext then bindO (db_check_free_list s 1) (db_check_entries Compare zero s) else Ret (s, 1))"
proof -
  obtain fs where s: "db_cursors s" "db_store key s fs" using ok by (auto simp: db_ok_def)
  note d = db_storeD [OF s(2)]
  let ?S = "db_used (db_cap s) fs :: 'a db_ptr set"
  have nb: "BofAvlTree_GetNbNode (db_mppRamDbTree s ! 0) = of_nat (card ?S)" using tree_nodes [OF db_store_tree [OF s(2) d(2)]] .
  have rec: "db_mNbRecord_U32 s = of_nat (card ?S)"
    using d(5,6,8) by (simp add: db_used_def card_image inj_on_def card_Diff_subset distinct_card)
  have counts: "db_check_counts (of_nat (card ?S)) (db_nb s - 1) 1 (db_mppRamDbTree s) 1 = Ret 1"
    using check_counts [OF d(9)] d(2) by simp
  show ?thesis
    using check_trees [OF c d(9), of 0 "db_nb s" 1 0] nb rec counts d(2,10) check_basic [OF s(1)]
    by (simp add: BofRamDb_CheckDb_def Let_def mult.commute)
qed

lemma CheckDb_ok:
  assumes c: "db_compare_by Compare key" and ok: "db_ok key s"
    and ext: "ext \<Longrightarrow> db_mNbMaxElement_U32 s + 1 \<noteq> 0 \<and> BofRamDb_GetNbFreeCursor s \<noteq> 0"
  shows "\<exists>t. BofRamDb_CheckDb Compare zero s ext = Ret (t, 1) \<and> db_ok key t \<and> db_view t = db_view s"
proof -
  obtain fs where s: "db_cursors s" "db_store key s fs" using ok by (auto simp: db_ok_def)
  note base = CheckDb_base [OF c ok, of zero ext]
  show ?thesis
  proof (cases ext)
    case False
    then show ?thesis using base ok by simp
  next
    case True
    have "\<exists>cu. find (\<lambda>c. db_open s c = None) [0..<BOFRAMDB_CURSOR_MAX] = Some cu"
    proof (rule ccontr)
      assume "\<nexists>cu. find (\<lambda>c. db_open s c = None) [0..<BOFRAMDB_CURSOR_MAX] = Some cu"
      then have "\<forall>cur \<in> set (db_mpCursorState_X s). cur_open cur"
        using s(1) by (auto simp: find_None_iff db_open_def db_cursors_def in_set_conv_nth) (metis option.distinct(1))
      then have "filter (\<lambda>cur. \<not> cur_open cur) (db_mpCursorState_X s) = []" by (simp add: filter_empty_conv)
      then show False using s(1) ext [OF True] by (simp add: db_cursors_def BofRamDb_GetNbFreeCursor_def)
    qed
    then obtain cu where cu: "find (\<lambda>c. db_open s c = None) [0..<BOFRAMDB_CURSOR_MAX] = Some cu" by blast
    then show ?thesis using check_entries [OF c ok cu] ext [OF True] base True check_free_list [OF s(2)] by simp
  qed
qed

text \<open>With every cursor in use the extended check has none for itself.\<close>

lemma CheckDb_no_cursor:
  assumes c: "db_compare_by Compare key" and ok: "db_ok key s" and free: "BofRamDb_GetNbFreeCursor s = 0"
  shows "BofRamDb_CheckDb Compare zero s True = Ret (s, 0)"
proof -
  obtain fs where s: "db_cursors s" "db_store key s fs" using ok by (auto simp: db_ok_def)
  note d = db_storeD [OF s(2)]
  have "0 < db_mNbIndex_U32 s" using d(2) by (simp add: word_less_nat_alt)
  then have "db_check_entries Compare zero s r = Ret (s, 0)" for r
    using free by (simp add: db_check_entries_def BofRamDb_GetCursor_def BofRamDb_GetNbFreeCursor_def)
  then show ?thesis using CheckDb_base [OF c ok, of zero True] check_free_list [OF s(2)] by simp
qed

end
