(* ===== verification/Bof_RamDb_Props.thy ===== *)
theory Bof_RamDb_Props
  imports Bof_RamDb_Check
begin

text \<open>The database implements the table, and the properties of its methods.\<close>

section \<open>One step\<close>

lemma db_evolves_ok:
  assumes "db_ok key s" "db_evolves key s R t" "db_mMtx_X t = db_mMtx_X s"
  shows "db_ok key t" "db_shape key neq t = db_shape key neq s" "db_view t = (db_view s)\<lparr>tb_recs := R\<rparr>"
  using assms by (auto simp: db_ok_def db_evolves_def db_shape_def db_view_def)

text \<open>The laws that a step of the table asks for.\<close>

definition db_follows ::
  "(nat \<Rightarrow> 'r \<Rightarrow> 'o::linorder) \<Rightarrow> ('r \<Rightarrow> 'r \<Rightarrow> bool) \<Rightarrow> 'r BofRamDb \<Rightarrow> 'r table_op \<Rightarrow> ('r BofRamDb \<times> 'r table_reply) outcome \<Rightarrow> bool" where
  "db_follows key neq s op x \<longleftrightarrow> (\<exists>t r. x = Ret (t, r) \<and> db_ok key t \<and> db_shape key neq t = db_shape key neq s \<and>
     db_view t = fst (table_step (db_shape key neq s) op (db_view s)) \<and> r \<in> snd (table_step (db_shape key neq s) op (db_view s)))"

lemma db_followsI:
  assumes "db_ok key s" "x = Ret (t, r)" "db_evolves key s (tb_recs (fst (table_step (db_shape key neq s) op (db_view s)))) t"
    "db_mMtx_X t = db_mMtx_X s" "tb_curs (fst (table_step (db_shape key neq s) op (db_view s))) = db_open s"
    "r \<in> snd (table_step (db_shape key neq s) op (db_view s))"
  shows "db_follows key neq s op x"
proof -
  have "(db_view s)\<lparr>tb_recs := tb_recs (fst (table_step (db_shape key neq s) op (db_view s)))\<rparr> = fst (table_step (db_shape key neq s) op (db_view s))"
    using assms(5) by (intro table.equality) (simp_all add: db_view_def)
  then show ?thesis using db_evolves_ok [OF assms(1,3,4)] assms(2,6) by (simp add: db_follows_def)
qed

lemma db_okD:
  assumes "db_ok key s"
  obtains fs where "recursive_mutex_ok (db_mMtx_X s)" "db_cursors s" "db_store key s fs"
  using assms by (auto simp: db_ok_def)

lemma db_ok_stays: "db_ok key s \<Longrightarrow> db_evolves key s (db_records s) s"
  by (auto simp: db_ok_def intro: db_becomes_evolves [OF db_becomes_refl])

text \<open>A method refuses a handle of no open cursor and changes only the statistics.\<close>

definition db_closed :: "'r BofRamDb \<Rightarrow> BOF_HANDLE \<Rightarrow> bool" where
  "db_closed s h \<longleftrightarrow> (case h of None \<Rightarrow> True
     | Some c \<Rightarrow> c < length (db_mpCursorState_X s) \<and> \<not> cur_open (db_mpCursorState_X s ! c))"

lemma db_refused [simp]:
  "db_closed s h \<Longrightarrow> db_with_cursor s h bad good = bad"
  "db_closed s h \<Longrightarrow> db_with_cursor (s\<lparr>db_mDbRamStat_X := d\<rparr>) h bad good = bad"
  by (auto simp: db_closed_def db_with_cursor_def split: option.splits)

lemma db_closedI:
  assumes "db_ok key s" "tb_handle (db_shape key neq s) h" "tb_cursor (db_view s) h = None"
  shows "db_closed s h"
  using assms by (auto simp: db_ok_def db_closed_def tb_handle_def tb_cursor_def db_open_def db_cursors_def split: option.splits if_splits)

lemma tb_cursor_open:
  assumes "tb_cursor (db_view s) h = Some i"
  obtains c where "h = Some c" "db_open s c = Some i"
  using assms by (cases h) (auto simp: tb_cursor_def)

text \<open>The steps that take a handle: refused, or made on an open cursor.\<close>

lemma step_handle:
  assumes ok: "db_ok key s" and h: "tb_handle (db_shape key neq s) h"
    and closed: "tb_cursor (db_view s) h = None \<Longrightarrow> db_closed s h \<Longrightarrow> db_evolves key s (db_records s) s \<Longrightarrow>
      \<exists>t. db_step Compare neq zero op s = Ret (t, TbCode BOF_ERR_CURSOR) \<and> db_evolves key s (db_records s) t \<and> db_mMtx_X t = db_mMtx_X s \<and>
        table_step (db_shape key neq s) op (db_view s) = (db_view s, {TbCode BOF_ERR_CURSOR})"
    and opened: "\<And>c i fs. h = Some c \<Longrightarrow> db_open s c = Some i \<Longrightarrow> db_open s c \<noteq> None \<Longrightarrow> recursive_mutex_ok (db_mMtx_X s) \<Longrightarrow> db_cursors s \<Longrightarrow>
      db_store key s fs \<Longrightarrow> db_follows key neq s op (db_step Compare neq zero op s)"
  shows "db_follows key neq s op (db_step Compare neq zero op s)"
proof (cases "tb_cursor (db_view s) h")
  case None
  obtain t where "db_step Compare neq zero op s = Ret (t, TbCode BOF_ERR_CURSOR)" "db_evolves key s (db_records s) t" "db_mMtx_X t = db_mMtx_X s"
    "table_step (db_shape key neq s) op (db_view s) = (db_view s, {TbCode BOF_ERR_CURSOR})"
    using closed [OF None db_closedI [OF ok h None] db_ok_stays [OF ok]] by blast
  then show ?thesis by (auto intro!: db_followsI [OF ok])
next
  case (Some i)
  then obtain cu where cu: "h = Some cu" "db_open s cu = Some i" by (rule tb_cursor_open)
  obtain fs where "recursive_mutex_ok (db_mMtx_X s)" "db_cursors s" "db_store key s fs" using ok by (rule db_okD)
  then show ?thesis using opened [OF cu] cu by simp
qed

lemma step_Insert:
  assumes c: "db_compare_by Compare key" and ok: "db_ok key s" and al: "table_allows (db_shape key neq s) (TbInsert h r) (db_view s)"
  shows "db_follows key neq s (TbInsert h r) (db_step Compare neq zero (TbInsert h r) s)"
proof (rule step_handle [OF ok])
  fix cu i fs
  assume h: "h = Some cu" "db_open s cu = Some i" "db_open s cu \<noteq> None" "recursive_mutex_ok (db_mMtx_X s)" "db_store key s fs"
  show "db_follows key neq s (TbInsert h r) (db_step Compare neq zero (TbInsert h r) s)"
    using Insert_ok [OF c h(4,5,3), of r neq] h(1,2)
    by (auto intro!: db_followsI [OF ok] dest!: db_becomes_evolves simp: tb_cursor_def)
qed (use al in \<open>auto simp: BofRamDb_InsertElement_def Let_def\<close>)

lemma step_Delete:
  assumes c: "db_compare_by Compare key" and ok: "db_ok key s" and al: "table_allows (db_shape key neq s) (TbDelete r) (db_view s)"
  shows "db_follows key neq s (TbDelete r) (db_step Compare neq zero (TbDelete r) s)"
proof -
  obtain fs where s: "recursive_mutex_ok (db_mMtx_X s)" "db_cursors s" "db_store key s fs" using ok by (rule db_okD)
  show ?thesis using Delete_ok [OF c s(1,3), of neq r] al
    by (auto intro!: db_followsI [OF ok] dest!: db_becomes_evolves)
qed

lemma step_Update:
  assumes c: "db_compare_by Compare key" and ok: "db_ok key s" and al: "table_allows (db_shape key neq s) (TbUpdate h old new) (db_view s)"
  shows "db_follows key neq s (TbUpdate h old new) (db_step Compare neq zero (TbUpdate h old new) s)"
proof (rule step_handle [OF ok])
  fix cu i fs
  assume h: "h = Some cu" "db_open s cu = Some i" "db_open s cu \<noteq> None" "recursive_mutex_ok (db_mMtx_X s)" "db_store key s fs"
  show "db_follows key neq s (TbUpdate h old new) (db_step Compare neq zero (TbUpdate h old new) s)"
    using Update_ok [OF c h(4,5,3), of neq old new] h(1,2) al
    by (auto intro!: db_followsI [OF ok] simp: tb_cursor_def)
qed (use al in \<open>auto simp: BofRamDb_UpdateElement_def Let_def\<close>)

lemma step_Find:
  assumes c: "db_compare_by Compare key" and ok: "db_ok key s" and al: "table_allows (db_shape key neq s) (TbFind h k C) (db_view s)"
  shows "db_follows key neq s (TbFind h k C) (db_step Compare neq zero (TbFind h k C) s)"
proof (rule step_handle [OF ok])
  fix cu i fs
  assume h: "h = Some cu" "db_open s cu = Some i" "recursive_mutex_ok (db_mMtx_X s)" "db_cursors s" "db_store key s fs"
  show "db_follows key neq s (TbFind h k C) (db_step Compare neq zero (TbFind h k C) s)"
    using Search_ok [OF c h(3,5,4,2), of C k zero] h(1,2) al
    by (auto intro!: db_followsI [OF ok] simp: tb_cursor_def)
qed (use al in \<open>auto simp: BofRamDb_SearchElement_def Let_def db_reply_def\<close>)

lemma step_First:
  assumes ok: "db_ok key s" and al: "table_allows (db_shape key neq s) (TbFirst h) (db_view s)"
  shows "db_follows key neq s (TbFirst h) (db_step Compare neq zero (TbFirst h) s)"
proof (rule step_handle [OF ok])
  fix cu i fs
  assume h: "h = Some cu" "db_open s cu = Some i" "recursive_mutex_ok (db_mMtx_X s)" "db_cursors s" "db_store key s fs"
  show "db_follows key neq s (TbFirst h) (db_step Compare neq zero (TbFirst h) s)"
    using First_ok [OF h(3,5,4,2), of zero] h(1,2)
    by (auto intro!: db_followsI [OF ok] simp: tb_cursor_def)
next
  assume "tb_cursor (db_view s) h = None" "db_closed s h" "db_evolves key s (db_records s) s"
  then show "\<exists>t. db_step Compare neq zero (TbFirst h) s = Ret (t, TbCode BOF_ERR_CURSOR) \<and> db_evolves key s (db_records s) t \<and> db_mMtx_X t = db_mMtx_X s \<and>
    table_step (db_shape key neq s) (TbFirst h) (db_view s) = (db_view s, {TbCode BOF_ERR_CURSOR})"
    by (simp add: BofRamDb_GetFirstElement_def db_reply_def)
qed (use al in auto)

lemma step_Last:
  assumes ok: "db_ok key s" and al: "table_allows (db_shape key neq s) (TbLast h) (db_view s)"
  shows "db_follows key neq s (TbLast h) (db_step Compare neq zero (TbLast h) s)"
proof (rule step_handle [OF ok])
  fix cu i fs
  assume h: "h = Some cu" "db_open s cu = Some i" "recursive_mutex_ok (db_mMtx_X s)" "db_cursors s" "db_store key s fs"
  show "db_follows key neq s (TbLast h) (db_step Compare neq zero (TbLast h) s)"
    using Last_ok [OF h(3,5,4,2), of zero] h(1,2)
    by (auto intro!: db_followsI [OF ok] simp: tb_cursor_def)
next
  assume "tb_cursor (db_view s) h = None" "db_closed s h" "db_evolves key s (db_records s) s"
  then show "\<exists>t. db_step Compare neq zero (TbLast h) s = Ret (t, TbCode BOF_ERR_CURSOR) \<and> db_evolves key s (db_records s) t \<and> db_mMtx_X t = db_mMtx_X s \<and>
    table_step (db_shape key neq s) (TbLast h) (db_view s) = (db_view s, {TbCode BOF_ERR_CURSOR})"
    by (simp add: BofRamDb_GetLastElement_def db_reply_def)
qed (use al in auto)

lemma step_Close:
  assumes ok: "db_ok key s" and al: "table_allows (db_shape key neq s) (TbClose h) (db_view s)"
  shows "db_follows key neq s (TbClose h) (db_step Compare neq zero (TbClose h) s)"
proof (rule step_handle [OF ok])
  fix cu i fs
  assume h: "h = Some cu" "db_open s cu = Some i" "db_open s cu \<noteq> None" "recursive_mutex_ok (db_mMtx_X s)" "db_cursors s" "db_store key s fs"
  show "db_follows key neq s (TbClose h) (db_step Compare neq zero (TbClose h) s)"
    using FreeCursor_ok [OF h(4,5,6,3), of neq] h(1,2,4) by (auto simp: db_follows_def db_ok_def db_view_def)
next
  assume "tb_cursor (db_view s) h = None" "db_closed s h" "db_evolves key s (db_records s) s"
  then show "\<exists>t. db_step Compare neq zero (TbClose h) s = Ret (t, TbCode BOF_ERR_CURSOR) \<and> db_evolves key s (db_records s) t \<and> db_mMtx_X t = db_mMtx_X s \<and>
    table_step (db_shape key neq s) (TbClose h) (db_view s) = (db_view s, {TbCode BOF_ERR_CURSOR})"
    by (auto simp: BofRamDb_FreeCursor_def tb_cursor_def split: option.splits)
qed (use al in auto)

lemma step_Open:
  assumes ok: "db_ok key s" and al: "table_allows (db_shape key neq s) (TbOpen i) (db_view s)"
  shows "db_follows key neq s (TbOpen i) (db_step Compare neq zero (TbOpen i) s)"
proof -
  obtain fs where s: "recursive_mutex_ok (db_mMtx_X s)" "db_cursors s" "db_store key s fs" using ok by (rule db_okD)
  show ?thesis using GetCursor_ok [OF s, of i neq] al s(1) by (auto simp: db_follows_def db_ok_def simp del: table_step.simps)
qed

lemma step_Clear:
  assumes ok: "db_ok key s"
  shows "db_follows key neq s TbClear (db_step Compare neq zero TbClear s)"
proof -
  obtain fs where s: "recursive_mutex_ok (db_mMtx_X s)" "db_store key s fs" using ok by (rule db_okD)
  show ?thesis using Clear_ok [OF s(2), of neq] s(1) by (auto simp: db_follows_def db_ok_def)
qed

lemma db_step_follows:
  assumes "db_compare_by Compare key" "db_ok key s" "table_allows (db_shape key neq s) op (db_view s)"
  shows "db_follows key neq s op (db_step Compare neq zero op s)"
  using assms step_Open step_Close step_Insert step_Delete step_Update step_Find step_First step_Last step_Clear
  by (cases op) (simp_all del: db_step.simps table_allows.simps)

interpretation ramdb: record_table "\<lambda>s. db_compare_by Compare key \<and> db_ok key s" db_view "db_shape key neq"
    "db_step Compare neq zero"
  for Compare :: "'r db_compare" and key :: "nat \<Rightarrow> 'r \<Rightarrow> 'o::linorder" and neq zero
proof
  fix s :: "'r BofRamDb" and op :: "'r table_op"
  assume s: "db_compare_by Compare key \<and> db_ok key s"
  then obtain fs where st: "db_store key s fs" by (auto simp: db_ok_def)
  show "table_ok (db_shape key neq s) (db_view s)"
    using db_records_card [OF st] db_records_inj [OF st] by (simp add: table_ok_def)
  show "\<exists>s' r. db_step Compare neq zero op s = Ret (s', r) \<and> (db_compare_by Compare key \<and> db_ok key s') \<and>
      db_shape key neq s' = db_shape key neq s \<and> db_view s' = fst (table_step (db_shape key neq s) op (db_view s)) \<and>
      r \<in> snd (table_step (db_shape key neq s) op (db_view s))"
    if "table_allows (db_shape key neq s) op (db_view s)"
    using db_step_follows [of Compare key s neq op zero] s that by (auto simp: db_follows_def simp del: table_step.simps)
qed

section \<open>Deletion with the keys of several records\<close>

text \<open>The records that an index gives.\<close>

definition db_index_records :: "'r BofRamDb \<Rightarrow> nat \<Rightarrow> 'r set" where
  "db_index_records s i = db_deref (db_mpElementList s) ` set (avt_contents (db_mppRamDbTree s ! i))"

lemma db_index_records_frame [simp]:
  "db_index_records (s\<lparr>db_mMtx_X := m\<rparr>) = db_index_records s"
  by (simp add: db_index_records_def fun_eq_iff)

lemma db_deref_inj: "db_store key s fs \<Longrightarrow> inj_on (db_deref (db_mpElementList s)) (db_used (db_cap s) fs)"
  using db_slots_inj [of key s fs] by (auto simp: inj_on_def db_used_def)

lemma Delete_mixed_trees:
  assumes c: "db_compare_by Compare key" and st: "db_store key s fs" and cov: "tb_covers (db_shape key neq s) r (db_records s)"
    and none: "\<not> (\<exists>x \<in> db_records s. tb_same (db_shape key neq s) x r)"
  shows "\<exists>trees p i j. db_delete_loop Compare (db_mpElementList s) (Arg r) (db_nb s) 0 None (db_mppRamDbTree s) = Ret (trees, Some (Slot p)) \<and>
    p < db_cap s \<and> i < db_nb s \<and> j < db_nb s \<and>
    db_deref (db_mpElementList s) ` set (avt_contents (trees ! i)) \<noteq> db_deref (db_mpElementList s) ` set (avt_contents (trees ! j))"
proof -
  let ?S = "db_used (db_cap s) fs :: 'a db_ptr set" and ?els = "db_mpElementList s" and ?n = "db_nb s"
  have "\<forall>k. \<exists>x. k < ?n \<longrightarrow> x \<in> ?S \<and> db_key key ?els k x = db_key key ?els k (Arg r)"
    using cov unfolding tb_covers_def db_records_used [OF st] by (fastforce simp: db_key_def)
  then obtain x where x: "\<And>k. k < ?n \<Longrightarrow> x k \<in> ?S" "\<And>k. k < ?n \<Longrightarrow> db_key key ?els k (x k) = db_key key ?els k (Arg r)" by metis
  have n: "0 < ?n" by (rule db_storeD(2) [OF st])
  have "db_trees key ?els ?n (db_cap s) (\<lambda>j. if 0 \<le> j \<and> j < 0 + ?n then ?S else ?S - {x j}) (db_mppRamDbTree s)"
    using db_storeD(9) [OF st] by (simp add: db_trees_def)
  then obtain trees where tr: "db_delete_loop Compare ?els (Arg r) ?n 0 None (db_mppRamDbTree s) = Ret (trees, Some (x (?n - 1)))"
    "db_trees key ?els ?n (db_cap s) (\<lambda>j. ?S - {x j}) trees"
    using db_delete_loop_each [OF c x, of ?n "db_cap s" 0 ?n "db_mppRamDbTree s" None] n by auto
  have last: "x (?n - 1) \<in> ?S" using x(1) [of "?n - 1"] n by simp
  then obtain p where p: "x (?n - 1) = Slot p" "p < db_cap s" by (auto simp: db_used_def)
  have "\<exists>i < ?n. x i \<noteq> x 0"
  proof (rule ccontr)
    assume "\<not> ?thesis"
    then have eq: "x k = x 0" if "k < ?n" for k using that by blast
    have "key k (db_deref ?els (x 0)) = key k r" if "k < ?n" for k using x(2) [OF that] eq [OF that] by (simp add: db_key_def)
    then have "tb_same (db_shape key neq s) (db_deref ?els (x 0)) r" by (simp add: tb_same_def)
    moreover have "db_deref ?els (x 0) \<in> db_records s" unfolding db_records_used [OF st] using x(1) [OF n] by (rule imageI)
    ultimately show False using none by blast
  qed
  then obtain i where i: "i < ?n" "x i \<noteq> x 0" by blast
  have cont: "set (avt_contents (trees ! j)) = ?S - {x j}" if "j < ?n" for j using avl_holdsD(3) [OF db_treesD [OF tr(2) that]] .
  have mem: "db_deref ?els (x 0) \<in> db_deref ?els ` (?S - {x j}) \<longleftrightarrow> x 0 \<in> ?S - {x j}" for j
    by (rule inj_on_image_mem_iff [OF db_deref_inj [OF st] x(1) [OF n]]) simp
  have "db_deref ?els (x 0) \<in> db_deref ?els ` (?S - {x i})" "db_deref ?els (x 0) \<notin> db_deref ?els ` (?S - {x 0})"
    unfolding mem using x(1) [OF n] i(2) by simp_all
  then have "db_deref ?els ` (?S - {x i}) \<noteq> db_deref ?els ` (?S - {x 0})" by metis
  then have "db_deref ?els ` set (avt_contents (trees ! i)) \<noteq> db_deref ?els ` set (avt_contents (trees ! 0))"
    unfolding cont [OF i(1)] cont [OF n] .
  moreover have "db_delete_loop Compare ?els (Arg r) ?n 0 None (db_mppRamDbTree s) = Ret (trees, Some (Slot p))" using tr(1) p(1) by simp
  ultimately show ?thesis using p(2) i(1) n by blast
qed

section \<open>Properties\<close>

text \<open>Records with two keys: an employee number and a badge number, and a name.\<close>

type_synonym emp = "nat \<times> nat \<times> string"

definition emp_key :: "nat \<Rightarrow> emp \<Rightarrow> nat" where
  "emp_key i e = (if i = 0 then fst e else fst (snd e))"

definition emp_cmp :: "emp db_compare" where
  "emp_cmp i a b = (if emp_key i a < emp_key i b then BOF_CMP_LESS else if emp_key i a = emp_key i b then BOF_CMP_EQUAL else BOF_CMP_GREATER)"

lemma emp_cmp_by: "db_compare_by emp_cmp emp_key"
  by (simp add: db_compare_by_def avl_cmp_by_def emp_cmp_def)

abbreviation emp0 :: emp where
  "emp0 \<equiv> (0, 0, '''')"

definition emp_shape :: "(emp, nat) table_shape" where
  "emp_shape = \<lparr>ts_cap = 4, ts_keys = 2, ts_cursors = BOFRAMDB_CURSOR_MAX, ts_key = emp_key, ts_neq = (\<noteq>)\<rparr>"

definition emp_ops :: "emp table_op list" where
  "emp_ops = [TbOpen 0, TbInsert (Some 0) (1, 20, ''a''), TbInsert (Some 0) (2, 10, ''b''), TbInsert (Some 0) (3, 10, ''c''),
     TbUpdate (Some 0) (1, 20, ''a'') (1, 20, ''d''), TbDelete (2, 10, ''b'')]"

lemma cursor_range: "0 < BOFRAMDB_CURSOR_MAX" "[0..<BOFRAMDB_CURSOR_MAX] = 0 # [1..<BOFRAMDB_CURSOR_MAX]"
proof -
  show "0 < BOFRAMDB_CURSOR_MAX" by (simp add: BOFRAMDB_CURSOR_MAX_def)
  then show "[0..<BOFRAMDB_CURSOR_MAX] = 0 # [1..<BOFRAMDB_CURSOR_MAX]" by (simp add: upt_conv_Cons)
qed

lemma two: "{..<2} = {0, Suc 0}"
  by auto

lemma emp_run:
  "table_safe emp_shape emp_ops \<lparr>tb_recs = {}, tb_curs = \<lambda>_. None\<rparr>"
  "tb_recs (fst (table_run emp_shape emp_ops \<lparr>tb_recs = {}, tb_curs = \<lambda>_. None\<rparr>)) = {(1, 20, ''d'')}"
  "snd (table_run emp_shape emp_ops \<lparr>tb_recs = {}, tb_curs = \<lambda>_. None\<rparr>) = [{TbCursor 0}, {TbCode BOF_ERR_NO_ERROR}, {TbCode BOF_ERR_NO_ERROR},
     {TbCode BOF_ERR_DUPLICATE}, {TbCode BOF_ERR_NO_ERROR}, {TbCode BOF_ERR_NO_ERROR}]"
  by (simp_all add: emp_shape_def emp_ops_def cursor_range two tb_clash_def tb_covers_def tb_same_def tb_without_def tb_cursor_def tb_handle_def
      tb_names_one_def emp_key_def insert_commute card_insert_if) auto

lemma db_run:
  assumes "db_compare_by Compare key" "n \<noteq> 0" "i \<noteq> 0"
    "T = \<lparr>ts_cap = unat n, ts_keys = unat i, ts_cursors = BOFRAMDB_CURSOR_MAX, ts_key = key, ts_neq = neq\<rparr>"
    "table_safe T ops \<lparr>tb_recs = {}, tb_curs = \<lambda>_. None\<rparr>"
  shows "\<exists>s t rs. BofRamDb_ctor zero n i = Ret (s, BOF_ERR_NO_ERROR) \<and> table_impl_run (db_step Compare neq zero) ops s = Ret (t, rs) \<and>
    db_ok key t \<and> db_shape key neq t = T \<and> db_view t = fst (table_run T ops \<lparr>tb_recs = {}, tb_curs = \<lambda>_. None\<rparr>) \<and>
    list_all2 (\<in>) rs (snd (table_run T ops \<lparr>tb_recs = {}, tb_curs = \<lambda>_. None\<rparr>)) \<and> table_ok T (db_view t)"
proof -
  obtain s where s: "BofRamDb_ctor zero n i = Ret (s, BOF_ERR_NO_ERROR)" "db_ok key s" "db_shape key neq s = T"
    "db_view s = \<lparr>tb_recs = {}, tb_curs = \<lambda>_. None\<rparr>" using BofRamDb_ctor_ok [OF assms(2,3), of zero key neq] assms(4) by blast
  have inv: "db_compare_by Compare key \<and> db_ok key s" using assms(1) s(2) by simp
  obtain t rs where t: "table_impl_run (db_step Compare neq zero) ops s = Ret (t, rs)" "db_ok key t" "db_shape key neq t = T"
    "db_view t = fst (table_run T ops (db_view s))" "list_all2 (\<in>) rs (snd (table_run T ops (db_view s)))"
    using ramdb.run_refines [OF inv, of neq ops zero] assms(5) s(3,4) by auto
  then show ?thesis using s(1,3,4) ramdb.run_ok [OF inv _ t(1)] assms(5) by auto
qed

text \<open>
  C16. A database constructed with room for \<open>n\<close> records and \<open>i\<close> indexes is a
  table. On any sequence of calls that opens and closes cursors, inserts,
  deletes, updates, searches, reads the ends of an index and clears, in which a
  key given to a deletion or an update names one record, every call returns, and
  the client sees a set of records with every key unique: an insertion is
  refused when the table is full or a key is taken, a refused insertion or
  update leaves every index as it was, a search gives the record asked for in
  the index of its cursor, and the counter of the records is their number.
\<close>

theorem BofRamDb_refines_table:
  assumes "db_compare_by Compare key" "n \<noteq> 0" "i \<noteq> 0"
    "T = \<lparr>ts_cap = unat n, ts_keys = unat i, ts_cursors = BOFRAMDB_CURSOR_MAX, ts_key = key, ts_neq = neq\<rparr>"
    "table_safe T ops \<lparr>tb_recs = {}, tb_curs = \<lambda>_. None\<rparr>"
  shows "\<exists>s t rs. BofRamDb_ctor zero n i = Ret (s, BOF_ERR_NO_ERROR) \<and> table_impl_run (db_step Compare neq zero) ops s = Ret (t, rs) \<and>
    db_view t = fst (table_run T ops \<lparr>tb_recs = {}, tb_curs = \<lambda>_. None\<rparr>) \<and>
    list_all2 (\<in>) rs (snd (table_run T ops \<lparr>tb_recs = {}, tb_curs = \<lambda>_. None\<rparr>)) \<and>
    finite (db_records t) \<and> card (db_records t) \<le> unat n \<and> unat (BofRamDb_GetNbRecord t) = card (db_records t) \<and>
    (\<forall>k. k < unat i \<longrightarrow> inj_on (key k) (db_records t))"
proof -
  obtain s t rs where t: "BofRamDb_ctor zero n i = Ret (s, BOF_ERR_NO_ERROR)" "table_impl_run (db_step Compare neq zero) ops s = Ret (t, rs)"
    "db_ok key t" "db_view t = fst (table_run T ops \<lparr>tb_recs = {}, tb_curs = \<lambda>_. None\<rparr>)"
    "list_all2 (\<in>) rs (snd (table_run T ops \<lparr>tb_recs = {}, tb_curs = \<lambda>_. None\<rparr>))" "table_ok T (db_view t)"
    using db_run [OF assms, of zero] by blast
  have ok: "finite (db_records t)" "card (db_records t) \<le> unat n" "\<forall>k. k < unat i \<longrightarrow> inj_on (key k) (db_records t)"
    using t(6) assms(4) by (simp_all add: table_ok_def)
  obtain fs where "db_store key t fs" using t(3) by (auto simp: db_ok_def)
  then have "unat (BofRamDb_GetNbRecord t) = card (db_records t)" by (simp add: BofRamDb_GetNbRecord_def db_record_count)
  then show ?thesis using t ok by blast
qed

theorem BofRamDb_refines_table_witness:
  "\<exists>s t rs. BofRamDb_ctor emp0 4 2 = Ret (s, BOF_ERR_NO_ERROR) \<and> table_impl_run (db_step emp_cmp (\<noteq>) emp0) emp_ops s = Ret (t, rs) \<and>
    tb_recs (db_view t) = {(1, 20, ''d'')} \<and>
    rs = [TbCursor 0, TbCode BOF_ERR_NO_ERROR, TbCode BOF_ERR_NO_ERROR, TbCode BOF_ERR_DUPLICATE, TbCode BOF_ERR_NO_ERROR, TbCode BOF_ERR_NO_ERROR]"
  using BofRamDb_refines_table [OF emp_cmp_by, of 4 2 emp_shape "(\<noteq>)" emp_ops emp0] emp_run
  by (auto simp: emp_shape_def list_all2_Cons2 simp del: db_view_sel)

text \<open>A database with three records and a cursor open on each index.\<close>

definition emp_fill :: "emp table_op list" where
  "emp_fill = [TbOpen 0, TbOpen 1, TbInsert (Some 0) (1, 20, ''a''), TbInsert (Some 0) (2, 10, ''b''), TbInsert (Some 1) (3, 30, ''c'')]"

lemma cursor_range_1: "[1..<BOFRAMDB_CURSOR_MAX] = 1 # [2..<BOFRAMDB_CURSOR_MAX]" "1 < BOFRAMDB_CURSOR_MAX"
proof -
  show "1 < BOFRAMDB_CURSOR_MAX" by (simp add: BOFRAMDB_CURSOR_MAX_def)
  then show "[1..<BOFRAMDB_CURSOR_MAX] = 1 # [2..<BOFRAMDB_CURSOR_MAX]" by (simp add: upt_conv_Cons numeral_2_eq_2)
qed

lemma emp_filled:
  "table_safe emp_shape emp_fill \<lparr>tb_recs = {}, tb_curs = \<lambda>_. None\<rparr>"
  "fst (table_run emp_shape emp_fill \<lparr>tb_recs = {}, tb_curs = \<lambda>_. None\<rparr>) =
     \<lparr>tb_recs = {(1, 20, ''a''), (2, 10, ''b''), (3, 30, ''c'')}, tb_curs = [0 \<mapsto> 0, 1 \<mapsto> 1]\<rparr>"
  using cursor_range cursor_range_1
  by (simp_all add: emp_shape_def emp_fill_def two tb_clash_def tb_cursor_def tb_handle_def emp_key_def insert_commute card_insert_if fun_upd_def)

lemma emp_db:
  "\<exists>t. db_ok emp_key t \<and> db_shape emp_key (\<noteq>) t = emp_shape \<and> db_records t = {(1, 20, ''a''), (2, 10, ''b''), (3, 30, ''c'')} \<and>
    db_open t = [0 \<mapsto> 0, 1 \<mapsto> 1]"
  using db_run [OF emp_cmp_by, of 4 2 emp_shape "(\<noteq>)" emp_fill emp0] emp_filled by (auto simp: emp_shape_def db_view_def)

text \<open>A list sorted by a key is determined by its elements.\<close>

lemma sorted_wrt_key_unique:
  assumes "sorted_wrt (\<lambda>a b. f a < (f b :: 'o::linorder)) xs" "sorted_wrt (\<lambda>a b. f a < f b) ys" "set xs = set ys"
  shows "xs = ys"
proof -
  have "sorted_wrt (<) (map f xs)" "sorted_wrt (<) (map f ys)" using assms(1,2) by (simp_all add: sorted_wrt_map)
  then have m: "sorted (map f xs)" "distinct (map f xs)" "sorted (map f ys)" "distinct (map f ys)" unfolding strict_sorted_iff by blast+
  have "map f xs = map f ys" by (rule sorted_distinct_set_unique [OF m]) (simp add: assms(3))
  then show ?thesis using m(2) assms(3) by (simp add: distinct_map inj_on_map_eq_map)
qed

text \<open>
  C12. A client that reads the first record and then the next ones until the end
  of the index gets every record of the database once, in the order of the key
  of its cursor, and one that reads from the last record backwards gets the
  reverse. Both walks end, and change nothing but the place of the cursor.
\<close>

theorem BofRamDb_scan_in_key_order:
  assumes "db_compare_by Compare key" "db_ok key s" "db_open s c = Some i"
  shows "\<exists>t u xs. db_scan (\<lambda>s. BofRamDb_GetFirstElement s (Some c) (Some x)) (\<lambda>s. BofRamDb_GetNextElement Compare s (Some c) (Some x)) (db_cap s) s = Ret (t, xs) \<and>
    db_scan (\<lambda>s. BofRamDb_GetLastElement s (Some c) (Some x)) (\<lambda>s. BofRamDb_GetPreviousElement Compare s (Some c) (Some x)) (db_cap s) s = Ret (u, rev xs) \<and>
    sorted_wrt (\<lambda>a b. key i a < key i b) xs \<and> set xs = db_records s \<and>
    db_ok key t \<and> db_view t = db_view s \<and> db_ok key u \<and> db_view u = db_view s"
proof -
  have r: "db_ready key s c i" using assms(2,3) by (simp add: db_ready_def)
  obtain fs where st: "db_store key s fs"
    "avl_holds (db_key key (db_mpElementList s) i) (db_cap s) (db_used (db_cap s) fs) (db_mppRamDbTree s ! i)" using r by (rule db_readyD)
  note ns = avl_nodes_sorted [OF st(2)]
  have "sorted_wrt (\<lambda>a b. key i a < key i b) (map (db_record s) (db_nodes s i))" using ns(1) by (simp add: sorted_wrt_map db_key_def)
  moreover have "set (map (db_record s) (db_nodes s i)) = db_records s" by (simp add: db_records_used [OF st(1)] ns(2) image_image)
  moreover have "db_ok key (db_at s c a)" "db_view (db_at s c a) = db_view s" for a using db_ready_at [OF r, of a] by (simp_all add: db_ready_def)
  ultimately show ?thesis using db_scans [OF assms(1) r, of x] by metis
qed

theorem BofRamDb_scan_in_key_order_witness:
  "\<exists>s t. db_records s = {(1, 20, ''a''), (2, 10, ''b''), (3, 30, ''c'')} \<and>
    db_scan (\<lambda>s. BofRamDb_GetFirstElement s (Some 1) (Some emp0)) (\<lambda>s. BofRamDb_GetNextElement emp_cmp s (Some 1) (Some emp0)) (db_cap s) s =
      Ret (t, [(2, 10, ''b''), (1, 20, ''a''), (3, 30, ''c'')])"
proof -
  obtain s where s: "db_ok emp_key s" "db_records s = {(1, 20, ''a''), (2, 10, ''b''), (3, 30, ''c'')}" "db_open s 1 = Some 1"
    using emp_db by auto
  obtain t xs where xs: "db_scan (\<lambda>s. BofRamDb_GetFirstElement s (Some 1) (Some emp0)) (\<lambda>s. BofRamDb_GetNextElement emp_cmp s (Some 1) (Some emp0)) (db_cap s) s = Ret (t, xs)"
    "sorted_wrt (\<lambda>a b. emp_key 1 a < emp_key 1 b) xs" "set xs = db_records s"
    using BofRamDb_scan_in_key_order [OF emp_cmp_by s(1,3), of emp0] by blast
  have "sorted_wrt (\<lambda>a b. emp_key 1 a < emp_key 1 b) [(2, 10, ''b''), (1, 20, ''a''), (3, 30, ''c'')]" by (simp add: emp_key_def)
  moreover have "set [(2, 10, ''b''), (1, 20, ''a''), (3, 30, ''c'')] = set xs" using xs(3) s(2) by auto
  ultimately have "xs = [(2, 10, ''b''), (1, 20, ''a''), (3, 30, ''c'')]" using sorted_wrt_key_unique [OF xs(2)] by metis
  then show ?thesis using s(2) xs(1) by blast
qed

text \<open>
  C15. The integrity check of a sound database leaves its records and cursors as
  they were. The basic check accepts every sound database. The extended check,
  for a capacity other than \<^verbatim>\<open>0xFFFFFFFF\<close> (with which one of its loops does not
  end), accepts it exactly when a cursor is free: when all are in use it
  reports a failure, since it needs one for itself.
\<close>

theorem BofRamDb_CheckDb_accepts:
  assumes "db_compare_by Compare key" "db_ok key s" "ExtendedTest_B \<longrightarrow> db_mNbMaxElement_U32 s \<noteq> 0xFFFFFFFF"
  shows "\<exists>t. BofRamDb_CheckDb Compare zero s ExtendedTest_B
      = Ret (t, if ExtendedTest_B \<and> BofRamDb_GetNbFreeCursor s = 0 then 0 else 1) \<and>
    db_ok key t \<and> db_view t = db_view s"
proof (cases "ExtendedTest_B \<and> BofRamDb_GetNbFreeCursor s = 0")
  case True
  then show ?thesis using CheckDb_no_cursor [OF assms(1,2), of zero] assms(2) by simp
next
  case False
  have "w + 1 \<noteq> 0" if "w \<noteq> 0xFFFFFFFF" for w :: u32
  proof
    assume "w + 1 = 0"
    then have "w = - 1" by (simp add: eq_neg_iff_add_eq_0)
    then show False using that by simp
  qed
  then have "db_mNbMaxElement_U32 s + 1 \<noteq> 0 \<and> BofRamDb_GetNbFreeCursor s \<noteq> 0" if ExtendedTest_B using assms(3) False that by blast
  from CheckDb_ok [OF assms(1,2) this, where zero = zero] False show ?thesis by auto
qed

theorem BofRamDb_CheckDb_accepts_witness:
  "\<exists>s t u. db_records s = {(1, 20, ''a''), (2, 10, ''b''), (3, 30, ''c'')} \<and> BofRamDb_CheckDb emp_cmp emp0 s False = Ret (t, 1) \<and>
    BofRamDb_CheckDb emp_cmp emp0 s True = Ret (u, 1)"
proof -
  obtain s where s: "db_ok emp_key s" "db_shape emp_key (\<noteq>) s = emp_shape" "db_records s = {(1, 20, ''a''), (2, 10, ''b''), (3, 30, ''c'')}"
    "db_open s = [0 \<mapsto> 0, 1 \<mapsto> 1]" using emp_db by blast
  have "db_open s 2 = None" using s(4) by simp
  then have "find (\<lambda>c. db_open s c = None) [0..<BOFRAMDB_CURSOR_MAX] \<noteq> None"
    by (auto simp: find_None_iff BOFRAMDB_CURSOR_MAX_def intro: exI [of _ 2])
  then have f: "BofRamDb_GetNbFreeCursor s \<noteq> 0"
    using no_closed_cursor [of s] s(1) by (auto simp: db_ok_def BofRamDb_GetNbFreeCursor_def)
  have "db_cap s = 4" using s(2) by (simp add: db_shape_def emp_shape_def)
  then have "db_mNbMaxElement_U32 s \<noteq> 0xFFFFFFFF" by auto
  then show ?thesis
    using BofRamDb_CheckDb_accepts [OF emp_cmp_by s(1), of False emp0] BofRamDb_CheckDb_accepts [OF emp_cmp_by s(1), of True emp0] s(3) f by auto
qed

text \<open>
  C10. A deletion looks its key up in each index separately. When every key of its
  argument is in the database but no record has all of them, it reports success
  after it has removed different records from different indexes: two indexes of
  the database then hold different records.
\<close>

theorem BofRamDb_DeleteElement_mixed_keys:
  assumes "db_compare_by Compare key" "db_ok key s" "\<forall>i. i < db_nb s \<longrightarrow> (\<exists>x \<in> db_records s. key i x = key i r)"
    "\<not> (\<exists>x \<in> db_records s. \<forall>i. i < db_nb s \<longrightarrow> key i x = key i r)"
  shows "\<exists>t i j. BofRamDb_DeleteElement Compare s (Some r) = Ret (t, BOF_ERR_NO_ERROR) \<and> i < db_nb s \<and> j < db_nb s \<and>
    db_index_records t i \<noteq> db_index_records t j"
proof -
  let ?s = "db_stat (\<lambda>d. d\<lparr>dbs_NbDeleteRequest_U32 := dbs_NbDeleteRequest_U32 d + 1\<rparr>) s"
  obtain fs where s: "recursive_mutex_ok (db_mMtx_X s)" "db_store key s fs" using assms(2) by (auto simp: db_ok_def)
  have cov: "tb_covers (db_shape key (=) s) r (db_records s)" using assms(3) by (simp add: tb_covers_def)
  have none: "\<not> (\<exists>x \<in> db_records s. tb_same (db_shape key (=) s) x r)" using assms(4) by (auto simp: tb_same_def)
  obtain trees p i j where tr: "db_delete_loop Compare (db_mpElementList s) (Arg r) (db_nb s) 0 None (db_mppRamDbTree s) = Ret (trees, Some (Slot p))"
    "p < db_cap s" "i < db_nb s" "j < db_nb s"
    "db_deref (db_mpElementList s) ` set (avt_contents (trees ! i)) \<noteq> db_deref (db_mpElementList s) ` set (avt_contents (trees ! j))"
    using Delete_mixed_trees [OF assms(1) s(2) cov none] by blast
  obtain node where sl: "db_search_loop Compare (db_mpElementList s) (Arg r) (db_nb s) 0 NullNode (db_mppRamDbTree s) = Ret (db_nb s, node)"
    using db_present [OF assms(1) s(2), of r "(=)"] cov by auto
  have "\<exists>t e. BofRamDb_DeleteElement Compare s (Some r) = Ret (t, e) \<and> db_mMtx_X t = db_mMtx_X ?s \<and>
    (e = BOF_ERR_NO_ERROR \<and> db_index_records t i \<noteq> db_index_records t j)"
    unfolding BofRamDb_DeleteElement_def Let_def option.case
  proof (rule db_guard_ok, goal_cases)
    case (2 m)
    show ?case using sl tr slot_word [OF tr(2)] db_storeD(4) [OF s(2)] by (simp add: db_index_records_def)
  qed (use s(1) in auto)
  then show ?thesis using tr(3,4) by blast
qed

theorem BofRamDb_DeleteElement_mixed_keys_witness:
  "\<exists>s t i j. db_records s = {(1, 20, ''a''), (2, 10, ''b''), (3, 30, ''c'')} \<and>
    BofRamDb_DeleteElement emp_cmp s (Some (1, 10, ''a'')) = Ret (t, BOF_ERR_NO_ERROR) \<and> db_index_records t i \<noteq> db_index_records t j"
proof -
  obtain s where s: "db_ok emp_key s" "db_shape emp_key (\<noteq>) s = emp_shape" "db_records s = {(1, 20, ''a''), (2, 10, ''b''), (3, 30, ''c'')}"
    using emp_db by auto
  have n: "db_nb s = 2" using s(2) by (simp add: db_shape_def emp_shape_def)
  have two: "(\<forall>i. i < (2::nat) \<longrightarrow> P i) \<longleftrightarrow> P 0 \<and> P 1" for P by (auto simp: less_Suc_eq numeral_2_eq_2)
  have "\<exists>t i j. BofRamDb_DeleteElement emp_cmp s (Some (1, 10, ''a'')) = Ret (t, BOF_ERR_NO_ERROR) \<and> i < db_nb s \<and> j < db_nb s \<and>
      db_index_records t i \<noteq> db_index_records t j"
    by (rule BofRamDb_DeleteElement_mixed_keys [OF emp_cmp_by s(1)]) (simp_all add: n two s(3) emp_key_def)
  then show ?thesis using s(3) by blast
qed

section \<open>Two defects\<close>

text \<open>
  A constructor that refuses a capacity of 0 leaves the array of the trees null
  and the number of the indexes as it was given; the destructor then reads
  through the null array.
\<close>

theorem BofRamDb_dtor_of_refused:
  assumes "i \<noteq> 0"
  shows "\<exists>s. BofRamDb_ctor zero 0 i = Ret (s, BOF_ERR_EINVAL) \<and> BofRamDb_dtor s = Undefined"
  using assms unat_gt_0 [of i]
  by (simp add: BofRamDb_ctor_def BofRamDb_dtor_def Bof_CreateMutex_def BOF_MUTEX_ctor_def BOF_MUTEX_Reset_def Let_def BOF_MUTEX_MAGIC_def
      Bof_LockMutex_def)

text \<open>
  An update that keeps every key leaves its cursor on a node of the tree of the
  last index, whatever the index of the cursor: the walk goes on in the order of
  the last index.
\<close>

theorem BofRamDb_UpdateElement_cursor_in_last_index:
  assumes "db_compare_by Compare key" "db_ok key s" "db_open s c \<noteq> None" "neq old new" "x \<in> db_records s"
    "\<forall>i. i < db_nb s \<longrightarrow> key i x = key i old \<and> key i new = key i old"
  shows "\<exists>t a. BofRamDb_UpdateElement Compare neq s (Some c) (Some old) (Some new) = Ret (t, BOF_ERR_NO_ERROR) \<and>
    cur_pElement (db_mpCursorState_X t ! c) = Some (db_nb s - 1, a)"
proof -
  let ?s = "db_stat (\<lambda>d. d\<lparr>dbs_NbUpdateRequest_U32 := dbs_NbUpdateRequest_U32 d + 1\<rparr>) s"
  obtain fs where s: "recursive_mutex_ok (db_mMtx_X s)" "db_store key s fs" using assms(2) by (auto simp: db_ok_def)
  have cov: "tb_covers (db_shape key neq s) old (db_records s)" and same: "tb_same (db_shape key neq s) x old"
    using assms(5,6) by (auto simp: tb_covers_def tb_same_def)
  obtain node where nd: "db_search_loop Compare (db_mpElementList s) (Arg old) (db_nb s) 0 NullNode (db_mppRamDbTree s) = Ret (db_nb s, node)"
    "node \<noteq> NullNode" "avl_mpData node \<in> db_used (db_cap s) fs"
    "db_key key (db_mpElementList s) (db_nb s - 1) (avl_mpData node) = key (db_nb s - 1) old"
    using db_present [OF assms(1) s(2), of old neq] cov by auto
  obtain p where p: "avl_mpData node = Slot p" "p < db_cap s" using db_node_record [OF s(2) nd(3,4) assms(5) same] by blast
  have loop: "db_same_loop Compare new old (db_nb s) 0 = db_nb s" using db_same_loop_ok [OF assms(1), of new old "db_nb s" 0] assms(6) by simp
  have c: "c < length (db_mpCursorState_X s)" using assms(3) by (auto simp: db_open_def split: if_splits)
  have o: "db_open ?s c \<noteq> None" using assms(3) by simp
  have "\<exists>t e. BofRamDb_UpdateElement Compare neq s (Some c) (Some old) (Some new) = Ret (t, e) \<and> db_mMtx_X t = db_mMtx_X ?s \<and>
    (e = BOF_ERR_NO_ERROR \<and> (\<exists>a. cur_pElement (db_mpCursorState_X t ! c) = Some (db_nb s - 1, a)))"
    unfolding BofRamDb_UpdateElement_def Let_def db_with_cursor_open [OF o] option.case prod.case if_P [OF assms(4)]
  proof (rule db_guard_ok, goal_cases)
    case (2 m)
    show ?case using nd p loop c slot_word [OF p(2)] db_storeD(3) [OF s(2)] by (simp add: db_update_found_def)
  qed (use s(1) in auto)
  then show ?thesis by blast
qed

end
