(* ===== verification/Bof_Crypto.thy ===== *)
theory Bof_Crypto
  imports Bof_BinSerializer
begin

text \<open>
  The hash functions of \<^verbatim>\<open>bofcrypto.h\<close> and \<^verbatim>\<open>bofcrypto.cpp\<close>: \<^verbatim>\<open>BofCryptoMd5\<close> and \<^verbatim>\<open>BofSha1\<close>. The arrays are
  lists with checked accesses, a pointer to bytes is the list of the bytes from it on, and
  a null pointer is \<open>None\<close>. An input stream is the list of the bytes that are left in it.
\<close>

unbundle bit_operations_syntax

section \<open>MD5\<close>

text \<open>\<^verbatim>\<open>struct BOF_MD5_CONTEXT\<close>.\<close>

record BOF_MD5_CONTEXT =
  md5_pState_U32 :: "u32 list"
  md5_pCount_U32 :: "u32 list"
  md5_pBuffer_U8 :: "u8 list"

definition BOF_MD5_CONTEXT_Reset :: BOF_MD5_CONTEXT where
  "BOF_MD5_CONTEXT_Reset =
     \<lparr>md5_pState_U32 = replicate 4 0, md5_pCount_U32 = replicate 2 0, md5_pBuffer_U8 = replicate 64 0\<rparr>"

subsection \<open>The macros\<close>

definition md5_F :: "u32 \<Rightarrow> u32 \<Rightarrow> u32 \<Rightarrow> u32" where "md5_F x y z = (x AND y) OR (NOT x AND z)"
definition md5_G :: "u32 \<Rightarrow> u32 \<Rightarrow> u32 \<Rightarrow> u32" where "md5_G x y z = (x AND z) OR (y AND NOT z)"
definition md5_H :: "u32 \<Rightarrow> u32 \<Rightarrow> u32 \<Rightarrow> u32" where "md5_H x y z = x XOR y XOR z"
definition md5_I :: "u32 \<Rightarrow> u32 \<Rightarrow> u32 \<Rightarrow> u32" where "md5_I x y z = y XOR (x OR NOT z)"

definition md5_ROTATE_LEFT :: "u32 \<Rightarrow> nat \<Rightarrow> u32" where
  "md5_ROTATE_LEFT x n = push_bit n x OR drop_bit (32 - n) x"

definition md5_FF :: "u32 \<Rightarrow> u32 \<Rightarrow> u32 \<Rightarrow> u32 \<Rightarrow> u32 \<Rightarrow> nat \<Rightarrow> u32 \<Rightarrow> u32" where
  "md5_FF a b c d x s ac = (let a = a + (md5_F b c d + x + ac); a = md5_ROTATE_LEFT a s in a + b)"

definition md5_GG :: "u32 \<Rightarrow> u32 \<Rightarrow> u32 \<Rightarrow> u32 \<Rightarrow> u32 \<Rightarrow> nat \<Rightarrow> u32 \<Rightarrow> u32" where
  "md5_GG a b c d x s ac = (let a = a + (md5_G b c d + x + ac); a = md5_ROTATE_LEFT a s in a + b)"

definition md5_HH :: "u32 \<Rightarrow> u32 \<Rightarrow> u32 \<Rightarrow> u32 \<Rightarrow> u32 \<Rightarrow> nat \<Rightarrow> u32 \<Rightarrow> u32" where
  "md5_HH a b c d x s ac = (let a = a + (md5_H b c d + x + ac); a = md5_ROTATE_LEFT a s in a + b)"

definition md5_II :: "u32 \<Rightarrow> u32 \<Rightarrow> u32 \<Rightarrow> u32 \<Rightarrow> u32 \<Rightarrow> nat \<Rightarrow> u32 \<Rightarrow> u32" where
  "md5_II a b c d x s ac = (let a = a + (md5_I b c d + x + ac); a = md5_ROTATE_LEFT a s in a + b)"

definition S_pMd5Padding_U8 :: "u8 list" where
  "S_pMd5Padding_U8 = 0x80 # replicate 63 0"

subsection \<open>Bytes and words\<close>

text \<open>
  The loops of \<^verbatim>\<open>Encode\<close> and \<^verbatim>\<open>Decode\<close>; a call takes at most \<open>Len\<close> turns unless its counter wraps around.
\<close>

primrec md5_Encode_loop :: "nat \<Rightarrow> u8 list \<Rightarrow> u32 list \<Rightarrow> u32 \<Rightarrow> u32 \<Rightarrow> u32 \<Rightarrow> u8 list outcome" where
  "md5_Encode_loop 0 out inp len i j = Retrying"
| "md5_Encode_loop (Suc n) out inp len i j =
     (if j < len then
        rd inp i (\<lambda>w.
        wr out j (ucast (w AND 0xFF)) (\<lambda>out.
        wr out (j + 1) (ucast (drop_bit 8 w AND 0xFF)) (\<lambda>out.
        wr out (j + 2) (ucast (drop_bit 16 w AND 0xFF)) (\<lambda>out.
        wr out (j + 3) (ucast (drop_bit 24 w AND 0xFF)) (\<lambda>out.
        md5_Encode_loop n out inp len (i + 1) (j + 4))))))
      else Ret out)"

definition BofCryptoMd5_Encode :: "u8 list \<Rightarrow> u32 list \<Rightarrow> u32 \<Rightarrow> u8 list outcome" where
  "BofCryptoMd5_Encode out inp len = md5_Encode_loop (Suc (unat len)) out inp len 0 0"

primrec md5_Decode_loop :: "nat \<Rightarrow> u32 list \<Rightarrow> u8 list \<Rightarrow> u32 \<Rightarrow> u32 \<Rightarrow> u32 \<Rightarrow> u32 list outcome" where
  "md5_Decode_loop 0 out inp len i j = Retrying"
| "md5_Decode_loop (Suc n) out inp len i j =
     (if j < len then
        rd inp j (\<lambda>b0. rd inp (j + 1) (\<lambda>b1. rd inp (j + 2) (\<lambda>b2. rd inp (j + 3) (\<lambda>b3.
        wr out i (ucast b0 OR push_bit 8 (ucast b1) OR push_bit 16 (ucast b2) OR push_bit 24 (ucast b3)) (\<lambda>out.
        md5_Decode_loop n out inp len (i + 1) (j + 4))))))
      else Ret out)"

definition BofCryptoMd5_Decode :: "u32 list \<Rightarrow> u8 list \<Rightarrow> u32 \<Rightarrow> u32 list outcome" where
  "BofCryptoMd5_Decode out inp len = md5_Decode_loop (Suc (unat len)) out inp len 0 0"

text \<open>\<^verbatim>\<open>memcpy(&dst[d], &src[s], n)\<close>.\<close>

definition memcpy_at :: "u8 list \<Rightarrow> nat \<Rightarrow> u8 list \<Rightarrow> nat \<Rightarrow> nat \<Rightarrow> (u8 list \<Rightarrow> 'b outcome) \<Rightarrow> 'b outcome" where
  "memcpy_at dst d src s n k =
     (if d + n \<le> length dst \<and> s + n \<le> length src
      then k (take d dst @ take n (drop s src) @ drop (d + n) dst) else Undefined)"

subsection \<open>The transformation of a block\<close>

text \<open>The 64 macro calls of \<^verbatim>\<open>Transform\<close>, on the registers and the decoded block.\<close>

definition md5_rounds :: "u32 list \<Rightarrow> u32 \<Rightarrow> u32 \<Rightarrow> u32 \<Rightarrow> u32 \<Rightarrow> u32 \<times> u32 \<times> u32 \<times> u32" where
  "md5_rounds px a b c d =
     (let
      a = md5_FF a b c d (px ! 0) 7 0xd76aa478;
      d = md5_FF d a b c (px ! 1) 12 0xe8c7b756;
      c = md5_FF c d a b (px ! 2) 17 0x242070db;
      b = md5_FF b c d a (px ! 3) 22 0xc1bdceee;
      a = md5_FF a b c d (px ! 4) 7 0xf57c0faf;
      d = md5_FF d a b c (px ! 5) 12 0x4787c62a;
      c = md5_FF c d a b (px ! 6) 17 0xa8304613;
      b = md5_FF b c d a (px ! 7) 22 0xfd469501;
      a = md5_FF a b c d (px ! 8) 7 0x698098d8;
      d = md5_FF d a b c (px ! 9) 12 0x8b44f7af;
      c = md5_FF c d a b (px ! 10) 17 0xffff5bb1;
      b = md5_FF b c d a (px ! 11) 22 0x895cd7be;
      a = md5_FF a b c d (px ! 12) 7 0x6b901122;
      d = md5_FF d a b c (px ! 13) 12 0xfd987193;
      c = md5_FF c d a b (px ! 14) 17 0xa679438e;
      b = md5_FF b c d a (px ! 15) 22 0x49b40821;
      a = md5_GG a b c d (px ! 1) 5 0xf61e2562;
      d = md5_GG d a b c (px ! 6) 9 0xc040b340;
      c = md5_GG c d a b (px ! 11) 14 0x265e5a51;
      b = md5_GG b c d a (px ! 0) 20 0xe9b6c7aa;
      a = md5_GG a b c d (px ! 5) 5 0xd62f105d;
      d = md5_GG d a b c (px ! 10) 9 0x2441453;
      c = md5_GG c d a b (px ! 15) 14 0xd8a1e681;
      b = md5_GG b c d a (px ! 4) 20 0xe7d3fbc8;
      a = md5_GG a b c d (px ! 9) 5 0x21e1cde6;
      d = md5_GG d a b c (px ! 14) 9 0xc33707d6;
      c = md5_GG c d a b (px ! 3) 14 0xf4d50d87;
      b = md5_GG b c d a (px ! 8) 20 0x455a14ed;
      a = md5_GG a b c d (px ! 13) 5 0xa9e3e905;
      d = md5_GG d a b c (px ! 2) 9 0xfcefa3f8;
      c = md5_GG c d a b (px ! 7) 14 0x676f02d9;
      b = md5_GG b c d a (px ! 12) 20 0x8d2a4c8a;
      a = md5_HH a b c d (px ! 5) 4 0xfffa3942;
      d = md5_HH d a b c (px ! 8) 11 0x8771f681;
      c = md5_HH c d a b (px ! 11) 16 0x6d9d6122;
      b = md5_HH b c d a (px ! 14) 23 0xfde5380c;
      a = md5_HH a b c d (px ! 1) 4 0xa4beea44;
      d = md5_HH d a b c (px ! 4) 11 0x4bdecfa9;
      c = md5_HH c d a b (px ! 7) 16 0xf6bb4b60;
      b = md5_HH b c d a (px ! 10) 23 0xbebfbc70;
      a = md5_HH a b c d (px ! 13) 4 0x289b7ec6;
      d = md5_HH d a b c (px ! 0) 11 0xeaa127fa;
      c = md5_HH c d a b (px ! 3) 16 0xd4ef3085;
      b = md5_HH b c d a (px ! 6) 23 0x4881d05;
      a = md5_HH a b c d (px ! 9) 4 0xd9d4d039;
      d = md5_HH d a b c (px ! 12) 11 0xe6db99e5;
      c = md5_HH c d a b (px ! 15) 16 0x1fa27cf8;
      b = md5_HH b c d a (px ! 2) 23 0xc4ac5665;
      a = md5_II a b c d (px ! 0) 6 0xf4292244;
      d = md5_II d a b c (px ! 7) 10 0x432aff97;
      c = md5_II c d a b (px ! 14) 15 0xab9423a7;
      b = md5_II b c d a (px ! 5) 21 0xfc93a039;
      a = md5_II a b c d (px ! 12) 6 0x655b59c3;
      d = md5_II d a b c (px ! 3) 10 0x8f0ccc92;
      c = md5_II c d a b (px ! 10) 15 0xffeff47d;
      b = md5_II b c d a (px ! 1) 21 0x85845dd1;
      a = md5_II a b c d (px ! 8) 6 0x6fa87e4f;
      d = md5_II d a b c (px ! 15) 10 0xfe2ce6e0;
      c = md5_II c d a b (px ! 6) 15 0xa3014314;
      b = md5_II b c d a (px ! 13) 21 0x4e0811a1;
      a = md5_II a b c d (px ! 4) 6 0xf7537e82;
      d = md5_II d a b c (px ! 11) 10 0xbd3af235;
      c = md5_II c d a b (px ! 2) 15 0x2ad7d2bb;
      b = md5_II b c d a (px ! 9) 21 0xeb86d391
      in (a, b, c, d))"

definition BofCryptoMd5_Transform :: "u32 list \<Rightarrow> u8 list \<Rightarrow> u32 list outcome" where
  "BofCryptoMd5_Transform pState pBlock =
     rdn pState 0 (\<lambda>a. rdn pState 1 (\<lambda>b. rdn pState 2 (\<lambda>c. rdn pState 3 (\<lambda>d.
     bindO (BofCryptoMd5_Decode (replicate 16 0) pBlock 64) (\<lambda>px.
     let (a, b, c, d) = md5_rounds px a b c d
     in Ret (pState[0 := pState ! 0 + a, 1 := pState ! 1 + b, 2 := pState ! 2 + c, 3 := pState ! 3 + d]))))))"

subsection \<open>Hashing\<close>

text \<open>
  The loop of \<^verbatim>\<open>AddData\<close> over the blocks that lie wholly in the input. It takes one turn per block
  unless \<^verbatim>\<open>i_U32 + 63\<close> wraps around.
\<close>

primrec md5_AddData_loop :: "nat \<Rightarrow> u32 list \<Rightarrow> u8 list \<Rightarrow> u32 \<Rightarrow> u32 \<Rightarrow> (u32 \<times> u32 list) outcome" where
  "md5_AddData_loop 0 st inp len i = Retrying"
| "md5_AddData_loop (Suc n) st inp len i =
     (if i + 63 < len
      then bindO (BofCryptoMd5_Transform st (drop (unat i) inp)) (\<lambda>st. md5_AddData_loop n st inp len (i + 64))
      else Ret (i, st))"

definition BofCryptoMd5_AddData :: "BOF_MD5_CONTEXT \<Rightarrow> u8 list \<Rightarrow> u32 \<Rightarrow> BOF_MD5_CONTEXT outcome" where
  "BofCryptoMd5_AddData s inp len =
     rdn (md5_pCount_U32 s) 0 (\<lambda>c0. rdn (md5_pCount_U32 s) 1 (\<lambda>c1.
     let Index = drop_bit 3 c0 AND 0x3F;
         c0 = c0 + push_bit 3 len;
         c1 = (if c0 < push_bit 3 len then c1 + 1 else c1);
         c1 = c1 + drop_bit 29 len;
         s = s\<lparr>md5_pCount_U32 := (md5_pCount_U32 s)[0 := c0, 1 := c1]\<rparr>;
         Part = 64 - Index
     in if Part \<le> len
        then memcpy_at (md5_pBuffer_U8 s) (unat Index) inp 0 (unat Part) (\<lambda>buf.
             bindO (BofCryptoMd5_Transform (md5_pState_U32 s) buf) (\<lambda>st.
             bindO (md5_AddData_loop (Suc (unat len)) st inp len Part) (\<lambda>(i, st).
             memcpy_at buf 0 inp (unat i) (unat (len - i)) (\<lambda>buf.
             Ret (s\<lparr>md5_pState_U32 := st, md5_pBuffer_U8 := buf\<rparr>)))))
        else memcpy_at (md5_pBuffer_U8 s) (unat Index) inp 0 (unat len) (\<lambda>buf.
             Ret (s\<lparr>md5_pBuffer_U8 := buf\<rparr>))))"

text \<open>\<^verbatim>\<open>Compute\<close> writes the digest into the array of the caller, which it returns, and clears the context.\<close>

definition BofCryptoMd5_Compute :: "BOF_MD5_CONTEXT \<Rightarrow> u8 list \<Rightarrow> u32 option \<Rightarrow> (BOF_MD5_CONTEXT \<times> u8 list \<times> u32 option) outcome" where
  "BofCryptoMd5_Compute s pDigest pNbOut =
     bindO (BofCryptoMd5_Encode (replicate 8 0) (md5_pCount_U32 s) 8) (\<lambda>bits.
     rdn (md5_pCount_U32 s) 0 (\<lambda>c0.
     let Index = drop_bit 3 c0 AND 0x3F;
         PadLen = (if Index < 56 then 56 - Index else 120 - Index)
     in bindO (BofCryptoMd5_AddData s S_pMd5Padding_U8 PadLen) (\<lambda>s.
        bindO (BofCryptoMd5_AddData s bits 8) (\<lambda>s.
        bindO (BofCryptoMd5_Encode pDigest (md5_pState_U32 s) 16) (\<lambda>pDigest.
        Ret (BOF_MD5_CONTEXT_Reset, pDigest, map_option (\<lambda>_. 16) pNbOut))))))"

definition BofCryptoMd5_ctor :: BOF_MD5_CONTEXT where
  "BofCryptoMd5_ctor =
     BOF_MD5_CONTEXT_Reset\<lparr>md5_pCount_U32 := [0, 0], md5_pState_U32 := [0x67452301, 0xefcdab89, 0x98badcfe, 0x10325476]\<rparr>"

text \<open>\<^verbatim>\<open>Hash\<close> returns the context, the count and the bytes of the caller, and its result.\<close>

definition BofCryptoMd5_Hash :: "BOF_MD5_CONTEXT \<Rightarrow> u32 \<Rightarrow> u8 list option \<Rightarrow> u32 option \<Rightarrow> u8 list option
    \<Rightarrow> (BOF_MD5_CONTEXT \<times> u32 option \<times> u8 list option \<times> bool) outcome" where
  "BofCryptoMd5_Hash s nbIn pDataIn pNbOut pDataOut =
     (case (pDataIn, pNbOut, pDataOut) of
        (Some inp, Some nbOut, Some out) \<Rightarrow>
          if 16 \<le> nbOut
          then bindO (BofCryptoMd5_AddData s inp nbIn) (\<lambda>s.
               bindO (BofCryptoMd5_Compute s out (Some nbOut)) (\<lambda>(s, out, nb).
               Ret (s, nb, Some out, True)))
          else Ret (s, pNbOut, pDataOut, False)
      | _ \<Rightarrow> Ret (s, pNbOut, pDataOut, False))"

section \<open>SHA-1\<close>

text \<open>\<^verbatim>\<open>class BofSha1\<close>: the digest of the blocks so far, the bytes of the block that is not full, and the number of blocks.\<close>

record BofSha1 =
  sha_mpDigest_U32 :: "u32 list"
  sha_mBuffer_S :: "u8 list"
  sha_mTransform_U64 :: u64

abbreviation (input) BLOCK_INTS :: nat where "BLOCK_INTS \<equiv> 16"
abbreviation (input) BLOCK_BYTES :: nat where "BLOCK_BYTES \<equiv> 64"

definition S_Reset :: BofSha1 where
  "S_Reset = \<lparr>sha_mpDigest_U32 = [0x67452301, 0xefcdab89, 0x98badcfe, 0x10325476, 0xc3d2e1f0],
              sha_mBuffer_S = [], sha_mTransform_U64 = 0\<rparr>"

definition S_Rol :: "u32 \<Rightarrow> nat \<Rightarrow> u32" where
  "S_Rol value bits = push_bit bits value OR drop_bit (32 - bits) value"

definition S_Blk :: "u32 list \<Rightarrow> nat \<Rightarrow> u32" where
  "S_Blk block i =
     S_Rol (block ! ((i + 13) AND 15) XOR block ! ((i + 8) AND 15) XOR block ! ((i + 2) AND 15) XOR block ! i) 1"

definition S_R0 :: "u32 list \<Rightarrow> u32 \<Rightarrow> u32 \<Rightarrow> u32 \<Rightarrow> u32 \<Rightarrow> u32 \<Rightarrow> nat \<Rightarrow> u32 \<times> u32" where
  "S_R0 block v w x y z i =
     (let z = z + (((w AND (x XOR y)) XOR y) + block ! i + 0x5a827999 + S_Rol v 5) in (S_Rol w 30, z))"

definition S_R1 :: "u32 list \<Rightarrow> u32 \<Rightarrow> u32 \<Rightarrow> u32 \<Rightarrow> u32 \<Rightarrow> u32 \<Rightarrow> nat \<Rightarrow> u32 list \<times> u32 \<times> u32" where
  "S_R1 block v w x y z i =
     (let block = block[i := S_Blk block i];
          z = z + (((w AND (x XOR y)) XOR y) + block ! i + 0x5a827999 + S_Rol v 5) in (block, S_Rol w 30, z))"

definition S_R2 :: "u32 list \<Rightarrow> u32 \<Rightarrow> u32 \<Rightarrow> u32 \<Rightarrow> u32 \<Rightarrow> u32 \<Rightarrow> nat \<Rightarrow> u32 list \<times> u32 \<times> u32" where
  "S_R2 block v w x y z i =
     (let block = block[i := S_Blk block i];
          z = z + ((w XOR x XOR y) + block ! i + 0x6ed9eba1 + S_Rol v 5) in (block, S_Rol w 30, z))"

definition S_R3 :: "u32 list \<Rightarrow> u32 \<Rightarrow> u32 \<Rightarrow> u32 \<Rightarrow> u32 \<Rightarrow> u32 \<Rightarrow> nat \<Rightarrow> u32 list \<times> u32 \<times> u32" where
  "S_R3 block v w x y z i =
     (let block = block[i := S_Blk block i];
          z = z + ((((w OR x) AND y) OR (w AND x)) + block ! i + 0x8f1bbcdc + S_Rol v 5) in (block, S_Rol w 30, z))"

definition S_R4 :: "u32 list \<Rightarrow> u32 \<Rightarrow> u32 \<Rightarrow> u32 \<Rightarrow> u32 \<Rightarrow> u32 \<Rightarrow> nat \<Rightarrow> u32 list \<times> u32 \<times> u32" where
  "S_R4 block v w x y z i =
     (let block = block[i := S_Blk block i];
          z = z + ((w XOR x XOR y) + block ! i + 0xca62c1d6 + S_Rol v 5) in (block, S_Rol w 30, z))"

text \<open>The 80 operations of \<^verbatim>\<open>S_Transform\<close>, on the block and the working variables.\<close>

definition sha_rounds :: "u32 list \<Rightarrow> u32 \<Rightarrow> u32 \<Rightarrow> u32 \<Rightarrow> u32 \<Rightarrow> u32 \<Rightarrow> u32 list \<times> u32 \<times> u32 \<times> u32 \<times> u32 \<times> u32" where
  "sha_rounds block a b c d e =
     (let
      (b, e) = S_R0 block a b c d e 0;
      (a, d) = S_R0 block e a b c d 1;
      (e, c) = S_R0 block d e a b c 2;
      (d, b) = S_R0 block c d e a b 3;
      (c, a) = S_R0 block b c d e a 4;
      (b, e) = S_R0 block a b c d e 5;
      (a, d) = S_R0 block e a b c d 6;
      (e, c) = S_R0 block d e a b c 7;
      (d, b) = S_R0 block c d e a b 8;
      (c, a) = S_R0 block b c d e a 9;
      (b, e) = S_R0 block a b c d e 10;
      (a, d) = S_R0 block e a b c d 11;
      (e, c) = S_R0 block d e a b c 12;
      (d, b) = S_R0 block c d e a b 13;
      (c, a) = S_R0 block b c d e a 14;
      (b, e) = S_R0 block a b c d e 15;
      (block, a, d) = S_R1 block e a b c d 0;
      (block, e, c) = S_R1 block d e a b c 1;
      (block, d, b) = S_R1 block c d e a b 2;
      (block, c, a) = S_R1 block b c d e a 3;
      (block, b, e) = S_R2 block a b c d e 4;
      (block, a, d) = S_R2 block e a b c d 5;
      (block, e, c) = S_R2 block d e a b c 6;
      (block, d, b) = S_R2 block c d e a b 7;
      (block, c, a) = S_R2 block b c d e a 8;
      (block, b, e) = S_R2 block a b c d e 9;
      (block, a, d) = S_R2 block e a b c d 10;
      (block, e, c) = S_R2 block d e a b c 11;
      (block, d, b) = S_R2 block c d e a b 12;
      (block, c, a) = S_R2 block b c d e a 13;
      (block, b, e) = S_R2 block a b c d e 14;
      (block, a, d) = S_R2 block e a b c d 15;
      (block, e, c) = S_R2 block d e a b c 0;
      (block, d, b) = S_R2 block c d e a b 1;
      (block, c, a) = S_R2 block b c d e a 2;
      (block, b, e) = S_R2 block a b c d e 3;
      (block, a, d) = S_R2 block e a b c d 4;
      (block, e, c) = S_R2 block d e a b c 5;
      (block, d, b) = S_R2 block c d e a b 6;
      (block, c, a) = S_R2 block b c d e a 7;
      (block, b, e) = S_R3 block a b c d e 8;
      (block, a, d) = S_R3 block e a b c d 9;
      (block, e, c) = S_R3 block d e a b c 10;
      (block, d, b) = S_R3 block c d e a b 11;
      (block, c, a) = S_R3 block b c d e a 12;
      (block, b, e) = S_R3 block a b c d e 13;
      (block, a, d) = S_R3 block e a b c d 14;
      (block, e, c) = S_R3 block d e a b c 15;
      (block, d, b) = S_R3 block c d e a b 0;
      (block, c, a) = S_R3 block b c d e a 1;
      (block, b, e) = S_R3 block a b c d e 2;
      (block, a, d) = S_R3 block e a b c d 3;
      (block, e, c) = S_R3 block d e a b c 4;
      (block, d, b) = S_R3 block c d e a b 5;
      (block, c, a) = S_R3 block b c d e a 6;
      (block, b, e) = S_R3 block a b c d e 7;
      (block, a, d) = S_R3 block e a b c d 8;
      (block, e, c) = S_R3 block d e a b c 9;
      (block, d, b) = S_R3 block c d e a b 10;
      (block, c, a) = S_R3 block b c d e a 11;
      (block, b, e) = S_R4 block a b c d e 12;
      (block, a, d) = S_R4 block e a b c d 13;
      (block, e, c) = S_R4 block d e a b c 14;
      (block, d, b) = S_R4 block c d e a b 15;
      (block, c, a) = S_R4 block b c d e a 0;
      (block, b, e) = S_R4 block a b c d e 1;
      (block, a, d) = S_R4 block e a b c d 2;
      (block, e, c) = S_R4 block d e a b c 3;
      (block, d, b) = S_R4 block c d e a b 4;
      (block, c, a) = S_R4 block b c d e a 5;
      (block, b, e) = S_R4 block a b c d e 6;
      (block, a, d) = S_R4 block e a b c d 7;
      (block, e, c) = S_R4 block d e a b c 8;
      (block, d, b) = S_R4 block c d e a b 9;
      (block, c, a) = S_R4 block b c d e a 10;
      (block, b, e) = S_R4 block a b c d e 11;
      (block, a, d) = S_R4 block e a b c d 12;
      (block, e, c) = S_R4 block d e a b c 13;
      (block, d, b) = S_R4 block c d e a b 14;
      (block, c, a) = S_R4 block b c d e a 15
      in (block, a, b, c, d, e))"

text \<open>\<^verbatim>\<open>S_Transform\<close> returns the digest, the block, which it overwrites, and the number of transformations.\<close>

definition S_Transform :: "u32 list \<Rightarrow> u32 list \<Rightarrow> u64 \<Rightarrow> (u32 list \<times> u32 list \<times> u64) outcome" where
  "S_Transform digest block transforms =
     rdn digest 0 (\<lambda>a. rdn digest 1 (\<lambda>b. rdn digest 2 (\<lambda>c. rdn digest 3 (\<lambda>d. rdn digest 4 (\<lambda>e.
     if length block = BLOCK_INTS
     then let (block, a, b, c, d, e) = sha_rounds block a b c d e
          in Ret (digest[0 := digest ! 0 + a, 1 := digest ! 1 + b, 2 := digest ! 2 + c, 3 := digest ! 3 + d,
                         4 := digest ! 4 + e], block, transforms + 1)
     else Undefined)))))"

definition S_BufferToBlock :: "u8 list \<Rightarrow> u32 list outcome" where
  "S_BufferToBlock buffer =
     (if 4 * BLOCK_INTS \<le> length buffer
      then Ret (map (\<lambda>i. ucast (buffer ! (4 * i + 3)) OR push_bit 8 (ucast (buffer ! (4 * i + 2)))
                     OR push_bit 16 (ucast (buffer ! (4 * i + 1))) OR push_bit 24 (ucast (buffer ! (4 * i + 0))))
                    [0..<BLOCK_INTS])
      else Undefined)"

definition BofSha1_ctor :: BofSha1 where
  "BofSha1_ctor = S_Reset"

text \<open>
  \<^verbatim>\<open>Update\<close> of a stream. A stream that cannot give the bytes it is asked for gives those it has;
  more than 64 bytes would be read past the end of \<^verbatim>\<open>sbuf\<close>.
\<close>

function BofSha1_Update_istream :: "BofSha1 \<Rightarrow> u8 list \<Rightarrow> (BofSha1 \<times> u8 list) outcome" where
  "BofSha1_Update_istream s is =
     (if BLOCK_BYTES < length (sha_mBuffer_S s) then Undefined
      else let n = BLOCK_BYTES - length (sha_mBuffer_S s);
               buf = sha_mBuffer_S s @ take n is;
               rest = drop n is
           in if length buf \<noteq> BLOCK_BYTES then Ret (s\<lparr>sha_mBuffer_S := buf\<rparr>, rest)
              else bindO (S_BufferToBlock buf) (\<lambda>block.
                   bindO (S_Transform (sha_mpDigest_U32 s) block (sha_mTransform_U64 s)) (\<lambda>(digest, block, transforms).
                   BofSha1_Update_istream
                     (s\<lparr>sha_mpDigest_U32 := digest, sha_mTransform_U64 := transforms, sha_mBuffer_S := []\<rparr>) rest)))"
  by pat_completeness auto

termination
  by (relation "measure (\<lambda>(s, is). length (sha_mBuffer_S s) + length is)") auto

declare BofSha1_Update_istream.simps [simp del]

definition BofSha1_Update_string :: "BofSha1 \<Rightarrow> u8 list \<Rightarrow> BofSha1 outcome" where
  "BofSha1_Update_string s str = bindO (BofSha1_Update_istream s str) (\<lambda>(s, rest). Ret s)"

text \<open>\<^verbatim>\<open>BofIMemoryStream\<close> is the stream of the \<^verbatim>\<open>size\<close> bytes from \<^verbatim>\<open>base\<close> on.\<close>

definition BofIMemoryStream :: "nat \<Rightarrow> u8 list \<Rightarrow> u8 list outcome" where
  "BofIMemoryStream sz base = (if sz \<le> length base then Ret (take sz base) else Undefined)"

definition BofSha1_Update_buffer :: "BofSha1 \<Rightarrow> u32 \<Rightarrow> u8 list \<Rightarrow> BofSha1 outcome" where
  "BofSha1_Update_buffer s nb pBuffer =
     bindO (BofIMemoryStream (unat nb) pBuffer) (\<lambda>is.
     bindO (BofSha1_Update_istream s is) (\<lambda>(s, rest). Ret s))"

text \<open>The digits of \<^verbatim>\<open>std::hex << std::setfill('0') << std::setw(8)\<close>.\<close>

definition sha_hex_digit :: "nat \<Rightarrow> char" where
  "sha_hex_digit n = (if n < 10 then char_of (48 + n) else char_of (87 + n))"

definition hex8 :: "u32 \<Rightarrow> string" where
  "hex8 w = map (\<lambda>i. sha_hex_digit (unat (drop_bit (4 * i) w AND 0xF))) [7, 6, 5, 4, 3, 2, 1, 0]"

definition BofSha1_Final :: "BofSha1 \<Rightarrow> (BofSha1 \<times> string) outcome" where
  "BofSha1_Final s =
     (let total_bits = (sha_mTransform_U64 s * 64 + of_nat (length (sha_mBuffer_S s))) * 8;
          buf = sha_mBuffer_S s @ [0x80];
          orig_size = length buf;
          buf = buf @ replicate (BLOCK_BYTES - length buf) 0
      in bindO (S_BufferToBlock buf) (\<lambda>block.
         bindO (if BLOCK_BYTES - 8 < orig_size
                then bindO (S_Transform (sha_mpDigest_U32 s) block (sha_mTransform_U64 s)) (\<lambda>(digest, block, transforms).
                     Ret (digest, replicate (BLOCK_INTS - 2) 0 @ drop (BLOCK_INTS - 2) block, transforms))
                else Ret (sha_mpDigest_U32 s, block, sha_mTransform_U64 s)) (\<lambda>(digest, block, transforms).
         let block = block[BLOCK_INTS - 1 := ucast total_bits, BLOCK_INTS - 2 := ucast (drop_bit 32 total_bits)]
         in bindO (S_Transform digest block transforms) (\<lambda>(digest, block, transforms).
            Ret (S_Reset, concat (map hex8 digest))))))"

text \<open>A file that cannot be opened gives a stream without bytes.\<close>

definition BofSha1_S_FromFile :: "(string \<Rightarrow> u8 list option) \<Rightarrow> string \<Rightarrow> string outcome" where
  "BofSha1_S_FromFile files name =
     bindO (BofSha1_Update_istream BofSha1_ctor (case files name of None \<Rightarrow> [] | Some bytes \<Rightarrow> bytes)) (\<lambda>(s, rest).
     bindO (BofSha1_Final s) (\<lambda>(s, digest). Ret digest))"

definition BofSha1_S_FromBuffer :: "u32 \<Rightarrow> u8 list \<Rightarrow> string outcome" where
  "BofSha1_S_FromBuffer nb pBuffer =
     bindO (BofSha1_Update_buffer BofSha1_ctor nb pBuffer) (\<lambda>s.
     bindO (BofSha1_Final s) (\<lambda>(s, digest). Ret digest))"

text \<open>The size of the string is converted to 32 bits; \<^verbatim>\<open>c_str\<close> adds a null byte.\<close>

definition BofSha1_S_FromString :: "u8 list \<Rightarrow> string outcome" where
  "BofSha1_S_FromString str = BofSha1_S_FromBuffer (of_nat (length str)) (str @ [0])"

end
