(* ===== verification/Bof_Hash_Spec.thy ===== *)
theory Bof_Hash_Spec
  imports Bof_BinSerializer
begin

text \<open>
  What a hash function promises. The message digests MD5 (RFC 1321) and SHA-1 (FIPS 180) as
  functions of the whole message: padding, division into blocks of 64 bytes, and one step
  per block, with tables and message schedules as the standards have them. The locale
  \<open>stream_hash\<close> is the contract of an object that is given the message in pieces, and
  \<open>reusable_hash\<close> that of one that starts again after each digest.
\<close>

unbundle bit_operations_syntax

section \<open>Blocks and padding\<close>

fun blocks64 :: "u8 list \<Rightarrow> u8 list list" where
  "blocks64 m = (if length m < 64 then [] else take 64 m # blocks64 (drop 64 m))"

declare blocks64.simps [simp del]

definition rest64 :: "u8 list \<Rightarrow> u8 list" where
  "rest64 m = drop (length m - length m mod 64) m"

text \<open>
  The padded message: a bit 1, as many bits 0 as it takes to be 8 bytes short of a block, and
  the number of bits of the message, modulo \<open>2 ^ 64\<close>, in the byte order of the hash function.
\<close>

definition md_pad :: "(u64 \<Rightarrow> u8 list) \<Rightarrow> u8 list \<Rightarrow> u8 list" where
  "md_pad enc m = m @ 0x80 # replicate ((119 - length m mod 64) mod 64) 0 @ enc (of_nat (8 * length m))"

lemma blocks64_short [simp]: "length m < 64 \<Longrightarrow> blocks64 m = []"
  by (simp add: blocks64.simps)

lemma blocks64_block [simp]: "length b = 64 \<Longrightarrow> blocks64 (b @ m) = b # blocks64 m"
  by (simp add: blocks64.simps [of "b @ m"])

lemma rest64_short [simp]: "length m < 64 \<Longrightarrow> rest64 m = m"
  by (simp add: rest64_def)

lemma length_rest64 [simp]: "length (rest64 m) = length m mod 64"
  by (simp add: rest64_def)

lemma rest64_block [simp]: "length b = 64 \<Longrightarrow> rest64 (b @ m) = rest64 m"
proof -
  assume b: "length b = 64"
  have "64 + length m - length m mod 64 = 64 + (length m - length m mod 64)"
    by simp
  then show ?thesis using b by (simp add: rest64_def)
qed

text \<open>A message can be cut after any number of bytes: the bytes of the last block that is not full come first.\<close>

lemma block_split: "\<not> length m < 64 \<Longrightarrow> \<exists>b n. m = b @ n \<and> length b = 64"
  by (rule exI [of _ "take 64 m"], rule exI [of _ "drop 64 m"]) simp

lemma blocks64_append: "blocks64 (m @ d) = blocks64 m @ blocks64 (rest64 m @ d)"
proof (induction m rule: blocks64.induct)
  case (1 m)
  show ?case
  proof (cases "length m < 64")
    case False
    with block_split obtain b n where "m = b @ n" "length b = 64" by blast
    with 1 False show ?thesis by simp
  qed simp
qed

lemma rest64_append: "rest64 (m @ d) = rest64 (rest64 m @ d)"
proof (induction m rule: blocks64.induct)
  case (1 m)
  show ?case
  proof (cases "length m < 64")
    case False
    with block_split obtain b n where "m = b @ n" "length b = 64" by blast
    with 1 False show ?thesis by simp
  qed simp
qed

lemma blocks64_rest64 [simp]: "blocks64 (rest64 m) = []"
  by (simp add: blocks64.simps)

lemma rest64_split: "\<exists>h. m = h @ rest64 m \<and> length h mod 64 = 0"
  by (rule exI [of _ "take (length m - length m mod 64) m"])
     (simp add: rest64_def minus_mod_eq_mult_div)

text \<open>The last bytes of the padded message fill one block or two.\<close>

lemma md_pad_append: "md_pad enc m = m @ 0x80 # replicate ((119 - length (rest64 m)) mod 64) 0 @ enc (of_nat (8 * length m))"
  by (simp add: md_pad_def)

section \<open>MD5\<close>

text \<open>\<open>md5_T\<close> holds the whole part of \<open>2 ^ 32\<close> times the absolute value of the sine of 1 to 64.\<close>

definition md5_T :: "u32 list" where
  "md5_T =
     [0xd76aa478, 0xe8c7b756, 0x242070db, 0xc1bdceee,
      0xf57c0faf, 0x4787c62a, 0xa8304613, 0xfd469501,
      0x698098d8, 0x8b44f7af, 0xffff5bb1, 0x895cd7be,
      0x6b901122, 0xfd987193, 0xa679438e, 0x49b40821,
      0xf61e2562, 0xc040b340, 0x265e5a51, 0xe9b6c7aa,
      0xd62f105d, 0x02441453, 0xd8a1e681, 0xe7d3fbc8,
      0x21e1cde6, 0xc33707d6, 0xf4d50d87, 0x455a14ed,
      0xa9e3e905, 0xfcefa3f8, 0x676f02d9, 0x8d2a4c8a,
      0xfffa3942, 0x8771f681, 0x6d9d6122, 0xfde5380c,
      0xa4beea44, 0x4bdecfa9, 0xf6bb4b60, 0xbebfbc70,
      0x289b7ec6, 0xeaa127fa, 0xd4ef3085, 0x04881d05,
      0xd9d4d039, 0xe6db99e5, 0x1fa27cf8, 0xc4ac5665,
      0xf4292244, 0x432aff97, 0xab9423a7, 0xfc93a039,
      0x655b59c3, 0x8f0ccc92, 0xffeff47d, 0x85845dd1,
      0x6fa87e4f, 0xfe2ce6e0, 0xa3014314, 0x4e0811a1,
      0xf7537e82, 0xbd3af235, 0x2ad7d2bb, 0xeb86d391]"

definition md5_shift :: "nat \<Rightarrow> nat" where
  "md5_shift i = [[7, 12, 17, 22], [5, 9, 14, 20], [4, 11, 16, 23], [6, 10, 15, 21]] ! (i div 16) ! (i mod 4)"

definition md5_index :: "nat \<Rightarrow> nat" where
  "md5_index i =
     (if i < 16 then i else if i < 32 then (5 * i + 1) mod 16 else if i < 48 then (3 * i + 5) mod 16 else (7 * i) mod 16)"

definition md5_fun :: "nat \<Rightarrow> u32 \<Rightarrow> u32 \<Rightarrow> u32 \<Rightarrow> u32" where
  "md5_fun i x y z =
     (if i < 16 then (x AND y) OR (NOT x AND z) else if i < 32 then (x AND z) OR (y AND NOT z)
      else if i < 48 then x XOR y XOR z else y XOR (x OR NOT z))"

definition md5_op :: "u32 list \<Rightarrow> nat \<Rightarrow> u32 \<times> u32 \<times> u32 \<times> u32 \<Rightarrow> u32 \<times> u32 \<times> u32 \<times> u32" where
  "md5_op X i = (\<lambda>(a, b, c, d).
     (d, b + word_rotl (md5_shift i) (a + md5_fun i b c d + X ! md5_index i + md5_T ! i), b, c))"

definition md5_words :: "u8 list \<Rightarrow> u32 list" where
  "md5_words block = map (\<lambda>i. of_le_bytes (take 4 (drop (4 * i) block))) [0..<16]"

type_synonym md5_chain = "u32 \<times> u32 \<times> u32 \<times> u32"

definition md5_step :: "md5_chain \<Rightarrow> u8 list \<Rightarrow> md5_chain" where
  "md5_step h block =
     (let (a, b, c, d) = h; (a', b', c', d') = fold (md5_op (md5_words block)) [0..<64] h
      in (a + a', b + b', c + c', d + d'))"

definition md5_init :: md5_chain where
  "md5_init = (0x67452301, 0xefcdab89, 0x98badcfe, 0x10325476)"

definition md5_bytes :: "md5_chain \<Rightarrow> u8 list" where
  "md5_bytes = (\<lambda>(a, b, c, d). concat (map (le_bytes 4) [a, b, c, d]))"

text \<open>The digest from a given chaining value on, and MD5 itself.\<close>

definition md5_from :: "md5_chain \<Rightarrow> u8 list \<Rightarrow> u8 list" where
  "md5_from h m = md5_bytes (foldl md5_step h (blocks64 (md_pad (le_bytes 8) m)))"

definition MD5 :: "u8 list \<Rightarrow> u8 list" where
  "MD5 m = md5_from md5_init m"

section \<open>SHA-1\<close>

fun sha1_W :: "u32 list \<Rightarrow> nat \<Rightarrow> u32" where
  "sha1_W M t =
     (if t < 16 then M ! t
      else word_rotl 1 (sha1_W M (t - 3) XOR sha1_W M (t - 8) XOR sha1_W M (t - 14) XOR sha1_W M (t - 16)))"

declare sha1_W.simps [simp del]

definition sha1_f :: "nat \<Rightarrow> u32 \<Rightarrow> u32 \<Rightarrow> u32 \<Rightarrow> u32" where
  "sha1_f t x y z =
     (if t < 20 then (x AND y) XOR (NOT x AND z) else if t < 40 then x XOR y XOR z
      else if t < 60 then (x AND y) XOR (x AND z) XOR (y AND z) else x XOR y XOR z)"

definition sha1_K :: "nat \<Rightarrow> u32" where
  "sha1_K t = (if t < 20 then 0x5a827999 else if t < 40 then 0x6ed9eba1 else if t < 60 then 0x8f1bbcdc else 0xca62c1d6)"

type_synonym sha1_chain = "u32 \<times> u32 \<times> u32 \<times> u32 \<times> u32"

definition sha1_op :: "(nat \<Rightarrow> u32) \<Rightarrow> nat \<Rightarrow> sha1_chain \<Rightarrow> sha1_chain" where
  "sha1_op W t = (\<lambda>(a, b, c, d, e).
     (word_rotl 5 a + sha1_f t b c d + e + sha1_K t + W t, a, word_rotl 30 b, c, d))"

definition sha1_words :: "u8 list \<Rightarrow> u32 list" where
  "sha1_words block = map (\<lambda>i. of_le_bytes (rev (take 4 (drop (4 * i) block)))) [0..<16]"

definition sha1_step :: "sha1_chain \<Rightarrow> u8 list \<Rightarrow> sha1_chain" where
  "sha1_step h block =
     (let (a, b, c, d, e) = h; (a', b', c', d', e') = fold (sha1_op (sha1_W (sha1_words block))) [0..<80] h
      in (a + a', b + b', c + c', d + d', e + e'))"

definition sha1_init :: sha1_chain where
  "sha1_init = (0x67452301, 0xefcdab89, 0x98badcfe, 0x10325476, 0xc3d2e1f0)"

definition SHA1 :: "u8 list \<Rightarrow> sha1_chain" where
  "SHA1 m = foldl sha1_step sha1_init (blocks64 (md_pad (rev \<circ> le_bytes 8) m))"

section \<open>Hashing in pieces\<close>

text \<open>A message in pieces, and one message after the other on one object.\<close>

primrec hash_add_all :: "('s \<Rightarrow> u8 list \<Rightarrow> 's outcome) \<Rightarrow> 's \<Rightarrow> u8 list list \<Rightarrow> 's outcome" where
  "hash_add_all add s [] = Ret s"
| "hash_add_all add s (d # ds) = bindO (add s d) (\<lambda>s. hash_add_all add s ds)"

primrec hash_sessions :: "('s \<Rightarrow> u8 list \<Rightarrow> 's outcome) \<Rightarrow> ('s \<Rightarrow> ('s \<times> 'd) outcome) \<Rightarrow> 's \<Rightarrow> u8 list list list
    \<Rightarrow> ('s \<times> 'd list) outcome" where
  "hash_sessions add fin s [] = Ret (s, [])"
| "hash_sessions add fin s (ds # dss) =
     bindO (hash_add_all add s ds) (\<lambda>s.
     bindO (fin s) (\<lambda>(s, x).
     bindO (hash_sessions add fin s dss) (\<lambda>(s, xs). Ret (s, x # xs))))"

locale stream_hash =
  fixes new :: 's
    and add :: "'s \<Rightarrow> u8 list \<Rightarrow> 's outcome"
    and fin :: "'s \<Rightarrow> ('s \<times> 'd) outcome"
    and holds :: "'s \<Rightarrow> u8 list \<Rightarrow> bool"
    and fits :: "u8 list \<Rightarrow> bool"
    and digest :: "u8 list \<Rightarrow> 'd"
  assumes new_holds: "holds new []"
    and add_holds: "holds s m \<Longrightarrow> fits d \<Longrightarrow> \<exists>t. add s d = Ret t \<and> holds t (m @ d)"
    and fin_digest: "holds s m \<Longrightarrow> \<exists>t. fin s = Ret (t, digest m)"
begin

lemma add_all_holds:
  assumes "holds s m" "\<forall>d \<in> set ds. fits d"
  shows "\<exists>t. hash_add_all add s ds = Ret t \<and> holds t (m @ concat ds)"
  using assms
proof (induction ds arbitrary: s m)
  case (Cons d ds)
  from Cons.prems add_holds obtain t where "add s d = Ret t" "holds t (m @ d)" by (metis list.set_intros(1))
  with Cons.IH [of t "m @ d"] Cons.prems show ?case by simp
qed simp

theorem hash_pieces:
  "\<forall>d \<in> set ds. fits d \<Longrightarrow> \<exists>s t. hash_add_all add new ds = Ret s \<and> fin s = Ret (t, digest (concat ds))"
  using add_all_holds [OF new_holds] fin_digest by fastforce

end

locale reusable_hash = stream_hash new add fin holds fits digest
  for new :: 's and add and fin :: "'s \<Rightarrow> ('s \<times> 'd) outcome" and holds and fits and digest +
  assumes fin_new: "holds s m \<Longrightarrow> fin s = Ret (t, x) \<Longrightarrow> t = new"
begin

theorem sessions_digests:
  "\<forall>ds \<in> set dss. \<forall>d \<in> set ds. fits d \<Longrightarrow> hash_sessions add fin new dss = Ret (new, map (\<lambda>ds. digest (concat ds)) dss)"
proof (induction dss)
  case (Cons ds dss)
  from Cons.prems add_all_holds [OF new_holds, of ds] obtain s where s: "hash_add_all add new ds = Ret s" "holds s (concat ds)" by auto
  from fin_digest [OF s(2)] fin_new [OF s(2)] have "fin s = Ret (new, digest (concat ds))" by blast
  with s Cons show ?case by simp
qed simp

end

end
