(* ===== verification/Bof_Crypto_Md5.thy ===== *)
theory Bof_Crypto_Md5
  imports Bof_Crypto Bof_Hash_Spec Bof_BinSerializer_Props
begin

text \<open>
  \<^verbatim>\<open>BofCryptoMd5\<close> against RFC 1321: the unrolled macro calls of \<^verbatim>\<open>Transform\<close> are the 64 operations of the
  standard, the counters hold the number of bits, and the context holds the message given so
  far whatever the pieces it was given in.
\<close>

unbundle bit_operations_syntax

section \<open>Words and bytes\<close>

lemma ROTATE_LEFT_rotl: "0 < n \<Longrightarrow> n < 32 \<Longrightarrow> push_bit n (x::u32) OR drop_bit (32 - n) x = word_rotl n x"
proof (rule bit_word_eqI)
  fix i assume n: "0 < n" "n < 32" and i: "i < LENGTH(32)"
  show "bit (push_bit n x OR drop_bit (32 - n) x) i = bit (word_rotl n x) i"
  proof (cases "i < n")
    case True
    with n i have "(i + (32 - n)) mod 32 = 32 - n + i" by simp
    with True n i show ?thesis by (simp add: bit_simps)
  next
    case False
    with n i have "(i + (32 - n)) mod 32 = i - n" by (simp add: mod_if)
    moreover from False n i have "\<not> bit x (32 - n + i)" using bit_imp_le_length [of x "32 - n + i"] by auto
    ultimately show ?thesis using False n i by (simp add: bit_simps)
  qed
qed

lemma ucast_low_byte [simp]: "ucast ((w::u32) AND 0xFF) = (ucast w :: u8)"
proof (rule bit_word_eqI)
  fix i assume "i < LENGTH(8)"
  then have "i < 8" by simp
  then have "bit (0xFF :: u32) i" by (auto simp: less_Suc_eq numeral_eq_Suc)
  with \<open>i < 8\<close> show "bit (ucast (w AND 0xFF) :: u8) i = bit (ucast w :: u8) i" by (simp add: bit_simps)
qed

lemma take_4_drop:
  "i + 4 \<le> length xs \<Longrightarrow> take 4 (drop i xs) = [xs ! i, xs ! (i + 1), xs ! (i + 2), xs ! (i + 3)]"
  by (rule nth_equalityI) (auto simp: less_Suc_eq numeral_eq_Suc nth_Cons')

lemma of_le_bytes_4:
  "of_le_bytes [b0, b1, b2, b3]
     = (ucast b0 OR push_bit 8 (ucast b1) OR push_bit 16 (ucast b2) OR push_bit 24 (ucast b3) :: u32)"
  by (simp add: or.assoc)

lemma le_bytes_4: "le_bytes 4 w = [ucast w, ucast (drop_bit 8 w), ucast (drop_bit 16 w), ucast (drop_bit 24 w)]"
  by (simp add: numeral_eq_Suc)

section \<open>The operations of a block\<close>

lemma md5_macros:
  assumes "0 < s" "s < 32"
  shows "md5_FF a b c d x s ac = b + word_rotl s (a + ((b AND c) OR (NOT b AND d)) + x + ac)"
    and "md5_GG a b c d x s ac = b + word_rotl s (a + ((b AND d) OR (c AND NOT d)) + x + ac)"
    and "md5_HH a b c d x s ac = b + word_rotl s (a + (b XOR c XOR d) + x + ac)"
    and "md5_II a b c d x s ac = b + word_rotl s (a + (c XOR (b OR NOT d)) + x + ac)"
  by (simp_all add: md5_FF_def md5_GG_def md5_HH_def md5_II_def md5_F_def md5_G_def md5_H_def md5_I_def Let_def
        md5_ROTATE_LEFT_def ROTATE_LEFT_rotl [OF assms] add.assoc add.commute [of _ b])

lemmas md5_op_eval = md5_op_def md5_macros md5_fun_def md5_shift_def md5_index_def md5_T_def

lemma md5_unroll:
  assumes "new = fst (snd (md5_op X i (a, b, c, d)))" "\<And>x. body x = fold (md5_op X) is (d, x, b, c)"
  shows "Let new body = fold (md5_op X) (i # is) (a, b, c, d)"
  using assms by (simp add: md5_op_def)

lemma md5_rounds_eq: "md5_rounds X a b c d = fold (md5_op X) [0..<64] (a, b, c, d)"
proof -
  have upt: "[0..<64] = [0 :: nat, 1, 2, 3, 4, 5, 6, 7, 8, 9, 10, 11, 12, 13, 14, 15, 16, 17, 18, 19, 20, 21, 22, 23,
     24, 25, 26, 27, 28, 29, 30, 31, 32, 33, 34, 35, 36, 37, 38, 39, 40, 41, 42, 43, 44, 45, 46, 47,
     48, 49, 50, 51, 52, 53, 54, 55, 56, 57, 58, 59, 60, 61, 62, 63]"
    by (simp add: upt_rec)
  show ?thesis
    unfolding upt md5_rounds_def
    by ((rule md5_unroll, simp add: md5_op_eval)+) simp
qed

section \<open>Decoding, encoding and one block\<close>

lemma unat_less_u32: "unat (x::u32) < 2 ^ 32"
  using unsigned_less [of x] by simp

lemma unat_offsets:
  assumes "unat (j::u32) = 4 * k" "4 * k + 4 < 2 ^ 32"
  shows "unat (j + 1) = 4 * k + 1" "unat (j + 2) = 4 * k + 2" "unat (j + 3) = 4 * k + 3" "unat (j + 4) = 4 * Suc k"
  using assms by (simp_all add: unat_word_ariths)

lemma md5_Decode_loop_eq:
  assumes "k \<le> 16" "unat i = k" "unat j = 4 * k" "length out = 16" "64 \<le> length inp" "16 - k < n"
  shows "md5_Decode_loop n out inp 64 i j
           = Ret (take k out @ map (\<lambda>i. of_le_bytes (take 4 (drop (4 * i) inp))) [k..<16])"
  using assms
proof (induction n arbitrary: k i j out)
  case (Suc n)
  let ?w = "of_le_bytes (take 4 (drop (4 * k) inp)) :: u32"
  have lt: "j < 64 \<longleftrightarrow> k < 16" using Suc.prems(3) by (simp add: word_less_nat_alt)
  show ?case
  proof (cases "k < 16")
    case True
    have u: "unat (j + 1) = 4 * k + 1" "unat (j + 2) = 4 * k + 2" "unat (j + 3) = 4 * k + 3" "unat (j + 4) = 4 * Suc k"
      using unat_offsets [OF Suc.prems(3)] True by simp_all
    have i: "unat (i + 1) = Suc k" using True Suc.prems(2) by (simp add: unat_word_ariths)
    have w: "?w = ucast (inp ! (4 * k)) OR push_bit 8 (ucast (inp ! (4 * k + 1)))
        OR push_bit 16 (ucast (inp ! (4 * k + 2))) OR push_bit 24 (ucast (inp ! (4 * k + 3)))"
      using True Suc.prems(5) by (subst take_4_drop, simp, intro of_le_bytes_4)
    have "md5_Decode_loop (Suc n) out inp 64 i j = md5_Decode_loop n (out[k := ?w]) inp 64 (i + 1) (j + 4)"
      using True Suc.prems(2-5) by (simp add: lt u w)
    also have "\<dots> = Ret (take (Suc k) (out[k := ?w]) @ map (\<lambda>i. of_le_bytes (take 4 (drop (4 * i) inp))) [Suc k..<16])"
      using True Suc.prems u(4) i by (intro Suc.IH) simp_all
    finally show ?thesis using True Suc.prems(4) by (simp add: take_Suc_conv_app_nth upt_conv_Cons)
  next
    case False
    with Suc.prems(1,4) lt show ?thesis by simp
  qed
qed simp

lemma Decode_words: "64 \<le> length blk \<Longrightarrow> BofCryptoMd5_Decode (replicate 16 0) blk 64 = Ret (md5_words blk)"
  using md5_Decode_loop_eq [of 0 0 0 "replicate 16 0" blk "Suc (unat (64 :: u32))"]
  by (simp add: BofCryptoMd5_Decode_def md5_words_def del: md5_Decode_loop.simps)

lemma md5_Encode_loop_eq:
  assumes "k \<le> length ws" "unat i = k" "unat j = 4 * k" "unat len = 4 * length ws" "4 * length ws \<le> length out"
    "length ws - k < n"
  shows "md5_Encode_loop n out ws len i j
           = Ret (take (4 * k) out @ concat (map (le_bytes 4) (drop k ws)) @ drop (4 * length ws) out)"
  using assms
proof (induction n arbitrary: k i j out)
  case (Suc n)
  have lt: "j < len \<longleftrightarrow> k < length ws" using Suc.prems(3,4) by (simp add: word_less_nat_alt)
  from unat_less_u32 [of len] Suc.prems(4) have len: "4 * length ws < 2 ^ 32" by simp
  show ?case
  proof (cases "k < length ws")
    case True
    have u: "unat (j + 1) = 4 * k + 1" "unat (j + 2) = 4 * k + 2" "unat (j + 3) = 4 * k + 3"
      using Suc.prems(3) len True by (simp_all add: unat_word_ariths)
    let ?out = "out[4 * k := ucast (ws ! k), 4 * k + 1 := ucast (drop_bit 8 (ws ! k)), 4 * k + 2 := ucast (drop_bit 16 (ws ! k)),
        4 * k + 3 := ucast (drop_bit 24 (ws ! k))]"
    have t: "take (4 + 4 * k) ?out = take (4 * k) out @ le_bytes 4 (ws ! k)"
      using True Suc.prems(5) by (intro nth_equalityI) (auto simp: nth_append nth_list_update nth_Cons' le_bytes_4)
    have "md5_Encode_loop (Suc n) out ws len i j = md5_Encode_loop n ?out ws len (i + 1) (j + 4)"
      using True Suc.prems(2-5) by (simp add: lt u)
    also have "\<dots> = Ret (take (4 * Suc k) ?out @ concat (map (le_bytes 4) (drop (Suc k) ws)) @ drop (4 * length ws) ?out)"
      using True Suc.prems len by (intro Suc.IH) (simp_all add: unat_word_ariths)
    finally show ?thesis using True t by (simp add: Cons_nth_drop_Suc [symmetric])
  next
    case False
    with Suc.prems(1) lt show ?thesis by simp
  qed
qed simp

lemma Encode_bytes:
  assumes "4 * length ws \<le> length out" "unat len = 4 * length ws"
  shows "BofCryptoMd5_Encode out ws len = Ret (concat (map (le_bytes 4) ws) @ drop (4 * length ws) out)"
  using md5_Encode_loop_eq [of 0 ws 0 0 len out "Suc (unat len)"] assms
  by (simp add: BofCryptoMd5_Encode_def del: md5_Encode_loop.simps)

text \<open>The array of the state and the chaining value.\<close>

definition md5_list :: "md5_chain \<Rightarrow> u32 list" where
  "md5_list = (\<lambda>(a, b, c, d). [a, b, c, d])"

lemma length_md5_list [simp]: "length (md5_list h) = 4"
  by (simp add: md5_list_def split: prod.split)

lemma md5_words_take: "md5_words (take 64 blk) = md5_words blk"
  by (simp add: md5_words_def take_drop)

lemma Transform_step:
  "64 \<le> length blk \<Longrightarrow> BofCryptoMd5_Transform (md5_list h) blk = Ret (md5_list (md5_step h (take 64 blk)))"
  by (cases h) (simp add: BofCryptoMd5_Transform_def md5_list_def Decode_words md5_rounds_eq md5_step_def md5_words_take rdn_def
      split: prod.split)


section \<open>The message in the context\<close>

lemma blocks64_cons: "64 \<le> length m \<Longrightarrow> blocks64 m = take 64 m # blocks64 (drop 64 m)"
  by (simp add: blocks64.simps [of m])

text \<open>
  The loop over the blocks of the input ends, and has taken the blocks there are, when the index does not
  wrap around: the input starts at the beginning of a block or is short of \<open>2 ^ 32\<close> bytes by a block.
\<close>

lemma md5_AddData_loop_eq:
  assumes "unat i \<le> unat len" "unat len \<le> length inp" "unat i mod 64 = 0 \<or> unat len + 64 \<le> 2 ^ 32"
    "unat len - unat i < 64 * n"
  shows "\<exists>i'. md5_AddData_loop n (md5_list h) inp len i
           = Ret (i', md5_list (foldl md5_step h (blocks64 (take (unat len - unat i) (drop (unat i) inp)))))
         \<and> unat i' = unat len - (unat len - unat i) mod 64"
  using assms
proof (induction n arbitrary: i h)
  case (Suc n)
  have l: "unat len < 2 ^ 32" by (rule unat_less_u32)
  have i63: "unat i + 63 < 2 ^ 32"
  proof (cases "unat i mod 64 = 0")
    case True
    then obtain k where k: "unat i = 64 * k" by auto
    with l Suc.prems(1) have "k < 67108864" by simp
    with k show ?thesis by simp
  next
    case False
    with Suc.prems(1,3) show ?thesis by simp
  qed
  then have c: "i + 63 < len \<longleftrightarrow> unat i + 63 < unat len" by (simp add: word_less_nat_alt unat_word_ariths)
  show ?case
  proof (cases "unat i + 63 < unat len")
    case True
    let ?m = "take (unat len - unat i) (drop (unat i) inp)"
    let ?b = "take 64 (drop (unat i) inp)"
    have u: "unat (i + 64) = unat i + 64" using True l by (simp add: unat_word_ariths)
    have m: "blocks64 ?m = ?b # blocks64 (take (unat len - unat (i + 64)) (drop (unat (i + 64)) inp))"
      using True Suc.prems(2) u by (subst blocks64_cons) (auto simp: drop_take min_def ac_simps)
    have md: "(unat len - unat (i + 64)) mod 64 = (unat len - unat i) mod 64"
      using True u by (simp add: mod_if [of "unat len - unat i"])
    have "\<exists>i'. md5_AddData_loop n (md5_list (md5_step h ?b)) inp len (i + 64)
           = Ret (i', md5_list (foldl md5_step (md5_step h ?b) (blocks64 (take (unat len - unat (i + 64)) (drop (unat (i + 64)) inp)))))
         \<and> unat i' = unat len - (unat len - unat (i + 64)) mod 64"
      using True Suc.prems by (intro Suc.IH) (simp_all add: u)
    then show ?thesis using True Suc.prems(2) by (simp add: c m md Transform_step)
  next
    case False
    then have "unat len - unat i < 64" by simp
    with Suc.prems(1) False show ?thesis by (simp add: c)
  qed
qed simp


declare md5_AddData_loop.simps [simp del]

text \<open>The two words of the counter hold the number of bits of the message, modulo \<open>2 ^ 64\<close>.\<close>

definition md5_count :: "nat \<Rightarrow> u32 list" where
  "md5_count n = [ucast (of_nat (8 * n) :: u64), ucast (drop_bit 32 (of_nat (8 * n) :: u64))]"

lemma md5_count_nat: "md5_count n = [of_nat (8 * n), of_nat (8 * n div 2 ^ 32)]"
proof -
  have "bit (ucast (drop_bit 32 (of_nat N :: u64)) :: u32) k = bit (of_nat (drop_bit 32 N) :: u32) k" if "k < 32" for k N
    using that by (simp add: bit_simps)
  then have "ucast (drop_bit 32 (of_nat N :: u64)) = (of_nat (drop_bit 32 N) :: u32)" for N
    by (intro bit_word_eqI) simp
  moreover have "ucast (of_nat N :: u64) = (of_nat N :: u32)" for N
    by (intro bit_word_eqI) (simp add: bit_simps)
  ultimately show ?thesis by (simp add: md5_count_def drop_bit_eq_div del: of_nat_mult)
qed

lemma add_div_carry: "(a + b :: nat) div N = a div N + b div N + (if N \<le> a mod N + b mod N then 1 else 0)"
  if "0 < N"
proof -
  let ?r = "a mod N + b mod N"
  have m: "?r - N < N" using that mod_less_divisor [of N a] mod_less_divisor [of N b] by linarith
  have "a + b = ?r + N * (a div N + b div N)" by (simp add: algebra_simps)
  then have "(a + b) div N = a div N + b div N + ?r div N" using that by (metis div_mult_self2 less_not_refl2)
  also have "?r div N = (if N \<le> ?r then 1 else 0)" using m that by (simp add: le_div_geq)
  finally show ?thesis .
qed

lemma add_mod_carry: "(a + b :: nat) mod N < b mod N \<longleftrightarrow> N \<le> a mod N + b mod N" if "0 < N"
proof -
  have m: "a mod N < N" "b mod N < N" using that by simp_all
  show ?thesis
  proof (cases "N \<le> a mod N + b mod N")
    case True
    have "a mod N + b mod N - N < N" using m by linarith
    with True have "(a mod N + b mod N) mod N = a mod N + b mod N - N" by (simp add: le_mod_geq)
    with m True show ?thesis unfolding mod_add_eq by linarith
  next
    case False
    then have "(a mod N + b mod N) mod N = a mod N + b mod N" by simp
    with False show ?thesis unfolding mod_add_eq by linarith
  qed
qed

lemma unat_drop_bit: "unat (drop_bit k (w::u32)) = unat w div 2 ^ k"
  by (simp only: unsigned_drop_bit_eq) (simp add: drop_bit_eq_div take_bit_nat_eq_self unat_less_u32 [simplified])

lemma md5_count_add:
  fixes len :: u32 and n :: nat
  defines "c0 \<equiv> of_nat (8 * n) + push_bit 3 len" and "c1 \<equiv> of_nat (8 * n div 2 ^ 32)"
  shows "c0 = of_nat (8 * (n + unat len))"
    and "(if c0 < push_bit 3 len then c1 + 1 else c1) + drop_bit 29 len = of_nat (8 * (n + unat len) div 2 ^ 32)"
proof -
  let ?a = "8 * n" and ?b = "8 * unat len" and ?N = "2 ^ 32 :: nat"
  have p: "push_bit 3 len = of_nat ?b" by (simp add: push_bit_eq_mult)
  have sum: "8 * (n + unat len) = ?a + ?b" by simp
  show "c0 = of_nat (8 * (n + unat len))" unfolding c0_def p sum of_nat_add ..
  then have c0: "unat c0 = (?a + ?b) mod ?N" unfolding sum by (simp only: unsigned_of_nat take_bit_eq_mod) simp
  have "unat (push_bit 3 len) = ?b mod ?N" unfolding p by (simp only: unsigned_of_nat take_bit_eq_mod) simp
  with c0 have lt: "c0 < push_bit 3 len \<longleftrightarrow> ?N \<le> ?a mod ?N + ?b mod ?N"
    by (simp only: word_less_nat_alt) (rule add_mod_carry, simp)
  have "?b div ?N = unat len div 2 ^ 29" by simp
  also have "\<dots> < 2 ^ 32" using unat_less_u32 [of len] by simp
  finally have d: "drop_bit 29 len = of_nat (?b div ?N)"
    using \<open>?b div ?N = _\<close> by (simp only: word_unat_eq_iff unat_drop_bit unsigned_of_nat) (simp add: take_bit_nat_eq_self)
  show "(if c0 < push_bit 3 len then c1 + 1 else c1) + drop_bit 29 len = of_nat (8 * (n + unat len) div 2 ^ 32)"
    unfolding sum lt d c1_def by (subst add_div_carry) (simp_all del: of_nat_mult)
qed

lemma md5_Index: "unat (drop_bit 3 (of_nat (8 * n) :: u32) AND 0x3F) = n mod 64"
proof -
  have m: "(0x3F :: u32) = mask 6" by (simp add: mask_eq_exp_minus_1)
  have "unat (drop_bit 3 (of_nat (8 * n) :: u32)) = n mod 2 ^ 29"
    using mult_mod_right [of 8 n "2 ^ 29"] by (simp add: unat_drop_bit unsigned_of_nat take_bit_eq_mod del: of_nat_mult)
  then show ?thesis unfolding m take_bit_eq_mask [symmetric]
    by (simp only: unsigned_take_bit_eq) (simp add: take_bit_eq_mod mod_mod_cancel)
qed


text \<open>The context holds the message \<open>m\<close>, hashed from the chaining value \<open>h\<close> on.\<close>

definition md5_holds :: "md5_chain \<Rightarrow> BOF_MD5_CONTEXT \<Rightarrow> u8 list \<Rightarrow> bool" where
  "md5_holds h s m \<longleftrightarrow>
     md5_pState_U32 s = md5_list (foldl md5_step h (blocks64 m)) \<and> md5_pCount_U32 s = md5_count (length m)
     \<and> length (md5_pBuffer_U8 s) = 64 \<and> take (length m mod 64) (md5_pBuffer_U8 s) = rest64 m"

lemma md5_count_nth [simp]: "length (md5_count n) = 2" "md5_count n ! 0 = of_nat (8 * n)"
  "md5_count n ! Suc 0 = of_nat (8 * n div 2 ^ 32)"
  by (simp_all add: md5_count_nat)

text \<open>\<^verbatim>\<open>AddData\<close> after the counters are updated.\<close>

definition md5_absorb :: "BOF_MD5_CONTEXT \<Rightarrow> u8 list \<Rightarrow> u32 \<Rightarrow> u32 \<Rightarrow> BOF_MD5_CONTEXT outcome" where
  "md5_absorb s inp len Index =
     (if 64 - Index \<le> len
      then memcpy_at (md5_pBuffer_U8 s) (unat Index) inp 0 (unat (64 - Index)) (\<lambda>buf.
           bindO (BofCryptoMd5_Transform (md5_pState_U32 s) buf) (\<lambda>st.
           bindO (md5_AddData_loop (Suc (unat len)) st inp len (64 - Index)) (\<lambda>(i, st).
           memcpy_at buf 0 inp (unat i) (unat (len - i)) (\<lambda>buf.
           Ret (s\<lparr>md5_pState_U32 := st, md5_pBuffer_U8 := buf\<rparr>)))))
      else memcpy_at (md5_pBuffer_U8 s) (unat Index) inp 0 (unat len) (\<lambda>buf. Ret (s\<lparr>md5_pBuffer_U8 := buf\<rparr>)))"

lemma AddData_absorb:
  assumes "md5_pCount_U32 s = md5_count n"
  shows "\<exists>Index. unat Index = n mod 64 \<and>
    BofCryptoMd5_AddData s inp len = md5_absorb (s\<lparr>md5_pCount_U32 := md5_count (n + unat len)\<rparr>) inp len Index"
proof (intro exI conjI)
  show "unat (drop_bit 3 (of_nat (8 * n) :: u32) AND 0x3F) = n mod 64" by (rule md5_Index)
  have cnt: "(md5_count n)[0 := of_nat (8 * (n + unat len)), 1 := of_nat (8 * (n + unat len) div 2 ^ 32)] = md5_count (n + unat len)"
    by (simp add: md5_count_nat del: of_nat_mult)
  have rdn: "rdn (md5_count n) 0 k = k (of_nat (8 * n))" "rdn (md5_count n) 1 k = k (of_nat (8 * n div 2 ^ 32))"
    for k :: "u32 \<Rightarrow> BOF_MD5_CONTEXT outcome"
    by (simp_all add: rdn_def del: of_nat_mult)
  show "BofCryptoMd5_AddData s inp len = md5_absorb (s\<lparr>md5_pCount_U32 := md5_count (n + unat len)\<rparr>) inp len
      (drop_bit 3 (of_nat (8 * n) :: u32) AND 0x3F)"
    unfolding BofCryptoMd5_AddData_def assms rdn Let_def md5_count_add(1) md5_count_add(2) [unfolded md5_count_add(1)] cnt md5_absorb_def
    by (simp only: BOF_MD5_CONTEXT.simps)
qed

lemma memcpy_at_eq: "d + n \<le> length dst \<Longrightarrow> s + n \<le> length src \<Longrightarrow>
    memcpy_at dst d src s n k = k (take d dst @ take n (drop s src) @ drop (d + n) dst)"
  by (simp add: memcpy_at_def)


text \<open>The input does not fill the block, or it fills it and perhaps others.\<close>

lemma absorb_short:
  assumes "md5_pState_U32 s = md5_list (foldl md5_step h (blocks64 m))" "length (md5_pBuffer_U8 s) = 64"
    "take (length m mod 64) (md5_pBuffer_U8 s) = rest64 m" "unat Index = length m mod 64" "unat len \<le> length inp"
    "unat len < 64 - length m mod 64" "d = take (unat len) inp"
  shows "\<exists>t. md5_absorb s inp len Index = Ret t \<and> md5_pState_U32 t = md5_list (foldl md5_step h (blocks64 (m @ d)))
    \<and> length (md5_pBuffer_U8 t) = 64 \<and> take (length (m @ d) mod 64) (md5_pBuffer_U8 t) = rest64 (m @ d)
    \<and> md5_pCount_U32 t = md5_pCount_U32 s"
proof -
  have "unat (64 - Index) = 64 - length m mod 64"
    using assms(4) by (simp add: unat_sub word_le_nat_alt less_imp_le)
  with assms(6) have no: "\<not> 64 - Index \<le> len" by (simp add: word_le_nat_alt)
  have l: "length m mod 64 + length d < 64" "length d = unat len" using assms(5-7) by simp_all
  then have r: "blocks64 (m @ d) = blocks64 m" "rest64 (m @ d) = rest64 m @ d"
    by (simp_all add: blocks64_append [of m d] rest64_append [of m d])
  moreover from r have "length (m @ d) mod 64 = length m mod 64 + length d" by (metis length_append length_rest64)
  ultimately show ?thesis
    using assms l by (simp add: md5_absorb_def no memcpy_at_eq)
qed

lemma rest64_take_drop:
  "d = take (length d) (drop q xs) \<Longrightarrow> rest64 d = take (length d mod 64) (drop (q + (length d - length d mod 64)) xs)"
proof -
  assume d: "d = take (length d) (drop q xs)"
  have "rest64 d = drop (length d - length d mod 64) (take (length d) (drop q xs))" unfolding rest64_def d [symmetric] ..
  also have "\<dots> = take (length d mod 64) (drop (q + (length d - length d mod 64)) xs)"
    by (simp add: drop_take add.commute del: take_take)
  finally show ?thesis .
qed

lemma absorb_long:
  assumes "md5_pState_U32 s = md5_list (foldl md5_step h (blocks64 m))" "length (md5_pBuffer_U8 s) = 64"
    "take (length m mod 64) (md5_pBuffer_U8 s) = rest64 m" "unat Index = length m mod 64" "unat len \<le> length inp"
    "64 - length m mod 64 \<le> unat len" "d = take (unat len) inp" "length m mod 64 = 0 \<or> unat len + 64 \<le> 2 ^ 32"
  shows "\<exists>t. md5_absorb s inp len Index = Ret t \<and> md5_pState_U32 t = md5_list (foldl md5_step h (blocks64 (m @ d)))
    \<and> length (md5_pBuffer_U8 t) = 64 \<and> take (length (m @ d) mod 64) (md5_pBuffer_U8 t) = rest64 (m @ d)
    \<and> md5_pCount_U32 t = md5_pCount_U32 s"
proof -
  let ?r = "length m mod 64" and ?p = "64 - Index" and ?b = "rest64 m @ take (64 - length m mod 64) inp"
  define d2 where "d2 = take (unat len - unat ?p) (drop (unat ?p) inp)"
  have p: "unat ?p = 64 - ?r" using assms(4) by (simp add: unat_sub word_le_nat_alt less_imp_le)
  have yes: "?p \<le> len" using assms(6) p by (simp add: word_le_nat_alt)
  have b: "length ?b = 64" using assms(5,6) by simp
  have "d = take (64 - ?r) inp @ d2"
    using assms(6,7) take_add [of "64 - ?r" "unat len - (64 - ?r)" inp] by (simp add: d2_def p)
  then have rd: "rest64 m @ d = ?b @ d2" by simp
  have md: "blocks64 (m @ d) = blocks64 m @ ?b # blocks64 d2" "rest64 (m @ d) = rest64 d2"
    unfolding blocks64_append [of m d] rest64_append [of m d] rd blocks64_block [OF b] rest64_block [OF b] by rule+
  then have lmd: "length (m @ d) mod 64 = length d2 mod 64" by (metis length_rest64)
  have ld2: "length d2 = unat len - unat ?p" using assms(5) by (simp add: d2_def)
  have w: "unat ?p mod 64 = 0 \<or> unat len + 64 \<le> 2 ^ 32" using assms(8) p by auto
  have "unat ?p \<le> unat len" "unat len - unat ?p < 64 * Suc (unat len)" using assms(6) p by simp_all
  from md5_AddData_loop_eq [OF this(1) assms(5) w this(2), folded d2_def ld2] obtain i where i:
     "md5_AddData_loop (Suc (unat len)) (md5_list (md5_step (foldl md5_step h (blocks64 m)) ?b)) inp len ?p
      = Ret (i, md5_list (foldl md5_step (md5_step (foldl md5_step h (blocks64 m)) ?b) (blocks64 d2)))"
    "unat i = unat len - length d2 mod 64"
    by blast
  let ?k = "length d2 mod 64" and ?H = "foldl md5_step h (blocks64 m)"
  have k: "?k \<le> length d2" by simp
  have il: "unat i = unat ?p + (length d2 - ?k)" using i(2) ld2 k \<open>unat ?p \<le> unat len\<close> by linarith
  have li: "unat (len - i) = ?k" using i(2) ld2 k by (simp add: unat_sub word_le_nat_alt)
  have rest: "take ?k (drop (unat i) inp) = rest64 d2"
    unfolding il by (rule rest64_take_drop [symmetric]) (simp add: ld2 d2_def [symmetric])
  have c1: "memcpy_at (md5_pBuffer_U8 s) (unat Index) inp 0 (unat ?p) k = k ?b" for k :: "u8 list \<Rightarrow> BOF_MD5_CONTEXT outcome"
    using assms(2-6) p by (simp add: memcpy_at_eq)
  have "unat i + ?k \<le> length inp" using il k ld2 assms(5) \<open>unat ?p \<le> unat len\<close> by linarith
  then have c2: "memcpy_at ?b 0 inp (unat i) (unat (len - i)) k = k (rest64 d2 @ drop ?k ?b)" for k :: "u8 list \<Rightarrow> BOF_MD5_CONTEXT outcome"
    using b rest by (subst memcpy_at_eq) (simp_all add: li)
  have "BofCryptoMd5_Transform (md5_list ?H) ?b = Ret (md5_list (md5_step ?H ?b))"
    using b by (subst Transform_step) simp_all
  then have "md5_absorb s inp len Index
      = Ret (s\<lparr>md5_pState_U32 := md5_list (foldl md5_step h (blocks64 (m @ d))), md5_pBuffer_U8 := rest64 d2 @ drop ?k ?b\<rparr>)"
    using yes i(1) by (simp only: md5_absorb_def if_True c1 assms(1) bindO.simps c2 prod.case md foldl_append foldl.simps)
  moreover have "length (drop ?k ?b) = 64 - ?k" by (simp only: length_drop b)
  then have "length (rest64 d2 @ drop ?k ?b) = 64" by (simp only: length_append [of "rest64 d2"] length_rest64)
  ultimately show ?thesis unfolding lmd md(2) by simp
qed


theorem AddData_holds:
  assumes "md5_holds h s m" "unat len \<le> length inp" "length m mod 64 = 0 \<or> unat len + 64 \<le> 2 ^ 32"
  shows "\<exists>t. BofCryptoMd5_AddData s inp len = Ret t \<and> md5_holds h t (m @ take (unat len) inp)"
proof -
  let ?s = "s\<lparr>md5_pCount_U32 := md5_count (length m + unat len)\<rparr>" and ?d = "take (unat len) inp"
  have "md5_pCount_U32 s = md5_count (length m)" using assms(1) by (simp add: md5_holds_def)
  from AddData_absorb [OF this] obtain Index where i: "unat Index = length m mod 64"
    "BofCryptoMd5_AddData s inp len = md5_absorb ?s inp len Index" by blast
  have s: "md5_pState_U32 ?s = md5_list (foldl md5_step h (blocks64 m))" "length (md5_pBuffer_U8 ?s) = 64"
    "take (length m mod 64) (md5_pBuffer_U8 ?s) = rest64 m" using assms(1) by (simp_all add: md5_holds_def)
  have c: "md5_pCount_U32 ?s = md5_count (length (m @ ?d))" using assms(2) by simp
  show ?thesis
  proof (cases "unat len < 64 - length m mod 64")
    case True
    show ?thesis using absorb_short [OF s i(1) assms(2) True refl] i(2) c by (auto simp: md5_holds_def)
  next
    case False
    then have "64 - length m mod 64 \<le> unat len" by simp
    from absorb_long [OF s i(1) assms(2) this refl assms(3)] i(2) c show ?thesis by (auto simp: md5_holds_def)
  qed
qed

section \<open>The digest\<close>

lemma le_bytes_8: "le_bytes 8 (N::u64) = le_bytes 4 (ucast N :: u32) @ le_bytes 4 (ucast (drop_bit 32 N) :: u32)"
proof -
  have u: "ucast (drop_bit k (ucast M :: u32)) = (ucast (drop_bit k M) :: u8)" if "k + 8 \<le> 32" for k and M :: u64
    using that by (intro bit_word_eqI) (auto simp: bit_simps)
  show ?thesis using u [of 0 N] u [of 8 N] u [of 16 N] u [of 24 N] u [of 0 "drop_bit 32 N"] u [of 8 "drop_bit 32 N"]
      u [of 16 "drop_bit 32 N"] u [of 24 "drop_bit 32 N"]
    by (simp add: le_bytes_4) (simp add: numeral_eq_Suc)
qed

lemma take_padding:
  assumes "r < 64" "P = (if r < 56 then 56 - r else 120 - r)"
  shows "take P S_pMd5Padding_U8 = 0x80 # replicate ((119 - r) mod 64) 0" "P \<le> 64" "1 \<le> P"
proof -
  have "P = Suc ((119 - r) mod 64)" using assms by (cases "r < 56") (simp_all add: le_mod_geq)
  moreover have "(119 - r) mod 64 < 64" by simp
  ultimately show "take P S_pMd5Padding_U8 = 0x80 # replicate ((119 - r) mod 64) 0" "P \<le> 64" "1 \<le> P"
    by (simp_all add: S_pMd5Padding_U8_def)
qed

lemma md5_PadLen:
  assumes "unat (Index::u32) = r" "r < 64"
  shows "unat (if Index < 56 then 56 - Index else 120 - Index) = (if r < 56 then 56 - r else 120 - r)"
  using assms by (simp add: word_less_nat_alt unat_sub word_le_nat_alt)

theorem Compute_digest:
  assumes "md5_holds h s m" "16 \<le> length out"
  shows "BofCryptoMd5_Compute s out nb = Ret (BOF_MD5_CONTEXT_Reset, md5_from h m @ drop 16 out, map_option (\<lambda>_. 16) nb)"
proof -
  let ?n = "length m"
  let ?Index = "drop_bit 3 (of_nat (8 * ?n) :: u32) AND 0x3F"
  let ?P = "if ?Index < 56 then 56 - ?Index else 120 - ?Index" and ?bits = "le_bytes 8 (of_nat (8 * ?n) :: u64)"
  have cnt: "md5_pCount_U32 s = md5_count ?n" using assms(1) by (simp add: md5_holds_def)
  have bits: "BofCryptoMd5_Encode (replicate 8 0) (md5_count ?n) 8 = Ret ?bits"
    by (subst Encode_bytes) (simp_all add: le_bytes_8 md5_count_def del: of_nat_mult)
  have r: "?n mod 64 < 64" by simp
  note P = md5_PadLen [OF md5_Index r]
  have "unat ?P \<le> length S_pMd5Padding_U8" using take_padding(2) [OF r P] by (simp add: S_pMd5Padding_U8_def)
  moreover have "?n mod 64 = 0 \<or> unat ?P + 64 \<le> 2 ^ 32" using take_padding(2) [OF r P] by simp
  ultimately obtain t where t: "BofCryptoMd5_AddData s S_pMd5Padding_U8 ?P = Ret t"
      "md5_holds h t (m @ 0x80 # replicate ((119 - ?n mod 64) mod 64) 0)"
    using AddData_holds [OF assms(1), of ?P S_pMd5Padding_U8] take_padding(1) [OF r P] by auto
  have "\<exists>u. BofCryptoMd5_AddData t ?bits 8 = Ret u \<and> md5_holds h u (md_pad (le_bytes 8) m)"
    using AddData_holds [OF t(2), of 8 ?bits] by (simp add: md_pad_def del: of_nat_mult)
  then obtain u where u: "BofCryptoMd5_AddData t ?bits 8 = Ret u" "md5_holds h u (md_pad (le_bytes 8) m)" by blast
  have "BofCryptoMd5_Encode out (md5_pState_U32 u) 16 = Ret (md5_from h m @ drop 16 out)"
    using u(2) assms(2) by (subst Encode_bytes) (auto simp: md5_holds_def md5_from_def md5_bytes_def md5_list_def split: prod.split)
  moreover have "rdn (md5_count ?n) 0 k = k (of_nat (8 * ?n))" for k :: "u32 \<Rightarrow> (BOF_MD5_CONTEXT \<times> u8 list \<times> u32 option) outcome"
    by (simp add: rdn_def del: of_nat_mult)
  ultimately show ?thesis unfolding BofCryptoMd5_Compute_def cnt bits Let_def by (simp only: bindO.simps t(1) u(1))
qed

lemma length_md5_from [simp]: "length (md5_from h m) = 16"
  by (simp add: md5_from_def md5_bytes_def le_bytes_4 split: prod.split)

lemma ctor_holds: "md5_holds md5_init BofCryptoMd5_ctor []"
  by (simp add: md5_holds_def BofCryptoMd5_ctor_def BOF_MD5_CONTEXT_Reset_def md5_init_def md5_list_def md5_count_nat)

lemma Reset_holds: "md5_holds (0, 0, 0, 0) BOF_MD5_CONTEXT_Reset []"
proof -
  have "replicate 4 x = [x, x, x, x]" "replicate 2 x = [x, x]" for x :: u32 by (simp_all add: numeral_eq_Suc)
  then show ?thesis by (simp add: md5_holds_def BOF_MD5_CONTEXT_Reset_def md5_list_def md5_count_nat)
qed

theorem Hash_holds:
  assumes "md5_holds h s []" "unat nbIn \<le> length inp" "16 \<le> nbOut" "16 \<le> length out"
  shows "BofCryptoMd5_Hash s nbIn (Some inp) (Some nbOut) (Some out)
    = Ret (BOF_MD5_CONTEXT_Reset, Some 16, Some (md5_from h (take (unat nbIn) inp) @ drop 16 out), True)"
proof -
  obtain t where "BofCryptoMd5_AddData s inp nbIn = Ret t" "md5_holds h t (take (unat nbIn) inp)"
    using AddData_holds [OF assms(1,2)] by auto
  with assms(3,4) show ?thesis by (simp add: BofCryptoMd5_Hash_def Compute_digest)
qed


text \<open>The digest of the message so far, into an array of 16 bytes.\<close>

definition md5_Compute_16 :: "BOF_MD5_CONTEXT \<Rightarrow> (BOF_MD5_CONTEXT \<times> u8 list) outcome" where
  "md5_Compute_16 s = bindO (BofCryptoMd5_Compute s (replicate 16 0) None) (\<lambda>(s, out, nb). Ret (s, out))"

definition md5_AddData_all :: "BOF_MD5_CONTEXT \<Rightarrow> u8 list \<Rightarrow> BOF_MD5_CONTEXT outcome" where
  "md5_AddData_all s d = BofCryptoMd5_AddData s d (of_nat (length d))"

interpretation md5: stream_hash BofCryptoMd5_ctor md5_AddData_all md5_Compute_16 "md5_holds md5_init"
  "\<lambda>d. length d + 64 \<le> 2 ^ 32" MD5
proof unfold_locales
  show "md5_holds md5_init BofCryptoMd5_ctor []" by (rule ctor_holds)
next
  fix s m d assume "md5_holds md5_init s m" "length (d :: u8 list) + 64 \<le> 2 ^ 32"
  then show "\<exists>t. md5_AddData_all s d = Ret t \<and> md5_holds md5_init t (m @ d)"
    using AddData_holds [of md5_init s m "of_nat (length d)" d]
    by (simp add: md5_AddData_all_def unsigned_of_nat take_bit_nat_eq_self)
next
  fix s m assume "md5_holds md5_init s m"
  then show "\<exists>t. md5_Compute_16 s = Ret (t, MD5 m)"
    by (simp add: md5_Compute_16_def Compute_digest MD5_def)
qed

end
