(* ===== verification/Bof_Crypto_Sha1.thy ===== *)
theory Bof_Crypto_Sha1
  imports Bof_Crypto_Md5
begin

text \<open>
  \<^verbatim>\<open>BofSha1\<close> against FIPS 180: the 80 unrolled operations with their message schedule in 16 words
  are those of the standard with its schedule of 80 words, and the object holds the message given so far
  whatever the pieces it was given in.
\<close>

unbundle bit_operations_syntax

section \<open>The operations of a block\<close>

text \<open>One operation, with the schedule in place and the working variables renamed after each operation.\<close>

definition sha_fun :: "nat \<Rightarrow> u32 \<Rightarrow> u32 \<Rightarrow> u32 \<Rightarrow> u32" where
  "sha_fun t x y z =
     (if t < 20 then (x AND (y XOR z)) XOR z else if t < 40 then x XOR y XOR z
      else if t < 60 then ((x OR y) AND z) OR (x AND y) else x XOR y XOR z)"

definition sha_roll :: "nat \<Rightarrow> u32 list \<times> sha1_chain \<Rightarrow> u32 list \<times> sha1_chain" where
  "sha_roll t = (\<lambda>(block, a, b, c, d, e).
     let block = (if t < 16 then block else block[t mod 16 := S_Blk block (t mod 16)])
     in (block, e + (sha_fun t b c d + block ! (t mod 16) + sha1_K t + S_Rol a 5), a, S_Rol b 30, c, d))"

lemma sha_unroll_0:
  assumes "sha_roll t (block, v, w, x, y, z) = (case S_R0 block v w x y z i of (w', z') \<Rightarrow> (block, z', v, w', x, y))"
    and "\<And>w' z'. body w' z' = fold sha_roll ts (block, z', v, w', x, y)"
  shows "Let (S_R0 block v w x y z i) (\<lambda>(w, z). body w z) = fold sha_roll (t # ts) (block, v, w, x, y, z)"
  using assms by (simp split: prod.split)

lemma sha_unroll:
  assumes "sha_roll t (block, v, w, x, y, z) = (case R block v w x y z i of (block', w', z') \<Rightarrow> (block', z', v, w', x, y))"
    and "\<And>block' w' z'. body block' w' z' = fold sha_roll ts (block', z', v, w', x, y)"
  shows "Let (R block v w x y z i) (\<lambda>(block, w, z). body block w z) = fold sha_roll (t # ts) (block, v, w, x, y, z)"
  using assms by (simp split: prod.split)

lemmas sha_roll_eval = sha_roll_def sha_fun_def sha1_K_def S_R0_def S_R1_def S_R2_def S_R3_def S_R4_def

lemma sha_rounds_roll: "sha_rounds block a b c d e = fold sha_roll [0..<80] (block, a, b, c, d, e)"
proof -
  have upt: "[0..<80] = [0 :: nat, 1, 2, 3, 4, 5, 6, 7, 8, 9, 10, 11, 12, 13, 14, 15, 16, 17, 18, 19, 20, 21, 22, 23,
     24, 25, 26, 27, 28, 29, 30, 31, 32, 33, 34, 35, 36, 37, 38, 39, 40, 41, 42, 43, 44, 45, 46, 47,
     48, 49, 50, 51, 52, 53, 54, 55, 56, 57, 58, 59, 60, 61, 62, 63, 64, 65, 66, 67, 68, 69, 70, 71,
     72, 73, 74, 75, 76, 77, 78, 79]"
    by (simp add: upt_rec)
  show ?thesis
    unfolding upt sha_rounds_def
    by ((rule sha_unroll_0, simp add: sha_roll_eval)+, (rule sha_unroll, simp add: sha_roll_eval Let_def)+) simp
qed

text \<open>The functions of the standard.\<close>

lemma sha_fun_eq: "sha_fun t x y z = sha1_f t x y z"
proof -
  have "(x AND (y XOR z)) XOR z = (x AND y) XOR (NOT x AND z)"
    and "((x OR y) AND z) OR (x AND y) = (x AND y) XOR (x AND z) XOR (y AND z)"
    by (rule bit_word_eqI, auto simp: bit_simps)+
  then show ?thesis by (simp add: sha_fun_def sha1_f_def)
qed

lemma S_Rol_rotl: "0 < n \<Longrightarrow> n < 32 \<Longrightarrow> S_Rol x n = word_rotl n x"
  by (simp add: S_Rol_def ROTATE_LEFT_rotl)

lemma and_15: "(n::nat) AND 15 = n mod 16"
  using take_bit_eq_mask [of 4 n] by (simp add: mask_eq_exp_minus_1 take_bit_eq_mod)

text \<open>The block holds the last 16 words of the schedule.\<close>

definition sha_window :: "u32 list \<Rightarrow> nat \<Rightarrow> u32 list \<Rightarrow> bool" where
  "sha_window M t block \<longleftrightarrow> length block = 16 \<and> (\<forall>u < max 16 t. max 16 t \<le> u + 16 \<longrightarrow> block ! (u mod 16) = sha1_W M u)"

lemma sha_window_start: "length M = 16 \<Longrightarrow> sha_window M 0 M"
  by (auto simp: sha_window_def sha1_W.simps)

lemma sha_window_Blk:
  assumes "sha_window M t block" "16 \<le> t"
  shows "S_Blk block (t mod 16) = sha1_W M t"
proof -
  have W: "block ! ((t mod 16 + k) AND 15) = sha1_W M (t + k - 16)" if "k < 16" for k
  proof -
    have "(t mod 16 + k) AND 15 = (t + k - 16) mod 16"
      using assms(2) by (simp add: and_15 mod_add_left_eq le_mod_geq [symmetric])
    with assms that show ?thesis by (simp add: sha_window_def)
  qed
  have "block ! (t mod 16) = sha1_W M (t - 16)" using W [of 0] by (simp add: and_15)
  with W [of 13] W [of 8] W [of 2] assms(2) show ?thesis
    by (simp add: S_Blk_def S_Rol_rotl sha1_W.simps [of M t])
qed

lemma sha_roll_op:
  assumes "sha_window M t block"
  shows "\<exists>block'. sha_roll t (block, h) = (block', sha1_op (sha1_W M) t h) \<and> sha_window M (Suc t) block'"
proof -
  obtain a b c d e where h: "h = (a, b, c, d, e)" by (cases h)
  define block' where "block' = (if t < 16 then block else block[t mod 16 := S_Blk block (t mod 16)])"
  have w: "sha_window M (Suc t) block'"
  proof (cases "t < 16")
    case True
    with assms show ?thesis by (simp add: sha_window_def block'_def max_def)
  next
    case False
    then have t: "max 16 t = t" "max 16 (Suc t) = Suc t" by simp_all
    have b: "length block = 16" "\<And>u. u < t \<Longrightarrow> t \<le> u + 16 \<Longrightarrow> block ! (u mod 16) = sha1_W M u"
      using assms by (simp_all add: sha_window_def t)
    have "block' ! (u mod 16) = sha1_W M u" if u: "u < Suc t" "Suc t \<le> u + 16" for u
    proof (cases "u = t")
      case True
      with False b(1) sha_window_Blk [OF assms] show ?thesis by (simp add: block'_def)
    next
      case ut: False
      with u have lt: "u < t" "t < u + 16" by simp_all
      have "u mod 16 \<noteq> t mod 16"
      proof
        assume "u mod 16 = t mod 16"
        with lt have "16 dvd t - u" using mod_eq_dvd_iff_nat [of u t 16] by simp
        with lt show False using dvd_imp_le [of 16 "t - u"] by simp
      qed
      with lt False b show ?thesis by (simp add: block'_def)
    qed
    moreover have "length block' = 16" using b(1) by (simp add: block'_def)
    ultimately show ?thesis unfolding sha_window_def t by blast
  qed
  then have "block' ! (t mod 16) = sha1_W M t" by (simp add: sha_window_def less_max_iff_disj)
  with w show ?thesis
    by (simp add: h sha_roll_def sha1_op_def S_Rol_rotl sha_fun_eq Let_def block'_def [symmetric] ac_simps)
qed

lemma sha_roll_fold:
  assumes "length M = 16"
  shows "\<exists>block. fold sha_roll [0..<n] (M, h) = (block, fold (sha1_op (sha1_W M)) [0..<n] h) \<and> sha_window M n block"
proof (induction n)
  case 0
  show ?case using sha_window_start [OF assms] by simp
next
  case (Suc n)
  then obtain block where "fold sha_roll [0..<n] (M, h) = (block, fold (sha1_op (sha1_W M)) [0..<n] h)" "sha_window M n block"
    by blast
  with sha_roll_op [OF this(2)] show ?case by simp
qed

section \<open>The blocks of the message\<close>

definition sha1_list :: "sha1_chain \<Rightarrow> u32 list" where
  "sha1_list = (\<lambda>(a, b, c, d, e). [a, b, c, d, e])"

lemma S_Transform_words:
  assumes "length M = 16"
  shows "\<exists>block. S_Transform (sha1_list h) M n = Ret (sha1_list
      (let (a, b, c, d, e) = h; (a', b', c', d', e') = fold (sha1_op (sha1_W M)) [0..<80] h
       in (a + a', b + b', c + c', d + d', e + e')), block, n + 1) \<and> length block = 16"
proof -
  obtain a b c d e where h: "h = (a, b, c, d, e)" by (cases h)
  from sha_roll_fold [OF assms, of 80 h] obtain block where
    r: "sha_rounds M a b c d e = (block, fold (sha1_op (sha1_W M)) [0..<80] h)" "sha_window M 80 block"
    by (auto simp: sha_rounds_roll h)
  from r(2) have "length block = 16" by (simp add: sha_window_def)
  with r(1) assms show ?thesis
    by (simp add: S_Transform_def sha1_list_def h rdn_def split: prod.split)
qed

lemma length_sha1_words [simp]: "length (sha1_words b) = 16"
  by (simp add: sha1_words_def)

corollary S_Transform_step:
  "\<exists>block. S_Transform (sha1_list h) (sha1_words b) n = Ret (sha1_list (sha1_step h b), block, n + 1) \<and> length block = 16"
  using S_Transform_words [of "sha1_words b" h n] by (simp add: sha1_step_def)

lemma S_BufferToBlock_words: "length b = 64 \<Longrightarrow> S_BufferToBlock b = Ret (sha1_words b)"
proof -
  assume b: "length b = 64"
  have "of_le_bytes (rev (take 4 (drop (4 * i) b))) = ucast (b ! (4 * i + 3)) OR push_bit 8 (ucast (b ! (4 * i + 2)))
      OR push_bit 16 (ucast (b ! (4 * i + 1))) OR push_bit 24 (ucast (b ! (4 * i + 0)) :: u32)" if "i < 16" for i
    using that b by (subst take_4_drop, simp) (simp only: rev.simps append.simps of_le_bytes_4 add_0_right)
  then show ?thesis using b by (simp add: S_BufferToBlock_def sha1_words_def)
qed

section \<open>The message in the object\<close>

definition sha1_holds :: "BofSha1 \<Rightarrow> u8 list \<Rightarrow> bool" where
  "sha1_holds s m \<longleftrightarrow>
     sha_mpDigest_U32 s = sha1_list (foldl sha1_step sha1_init (blocks64 m)) \<and> sha_mBuffer_S s = rest64 m
     \<and> sha_mTransform_U64 s = of_nat (length m div 64)"

text \<open>The stream does not fill the block.\<close>

lemma Update_short:
  assumes "sha1_holds s m" "length is < 64 - length m mod 64"
  shows "\<exists>t. BofSha1_Update_istream s is = Ret (t, []) \<and> sha1_holds t (m @ is)"
proof -
  have "length (rest64 m @ is) < 64" using assms(2) by simp
  moreover have "(length m + length is) div 64 = length m div 64"
    using add_div_carry [of 64 "length m" "length is"] assms(2) by simp
  ultimately show ?thesis
    using assms by (subst BofSha1_Update_istream.simps)
      (simp add: sha1_holds_def Let_def blocks64_append [of m "is"] rest64_append [of m "is"])
qed

lemma round_up_64: "n + (64 - n mod 64) = 64 * Suc (n div 64)" for n :: nat
proof -
  define q r where d: "q = n div 64" "r = n mod 64"
  have "n = 64 * q + r" "r < 64" by (simp_all add: d)
  then have "n + (64 - r) = 64 * Suc q" by simp
  then show ?thesis by (simp only: d)
qed

text \<open>It fills the block, and the rest is read into an empty buffer.\<close>

lemma Update_fill:
  assumes "sha1_holds s m" "\<not> length is < 64 - length m mod 64" "n = 64 - length m mod 64"
  shows "\<exists>t. BofSha1_Update_istream s is = BofSha1_Update_istream t (drop n is) \<and> sha1_holds t (m @ take n is)"
proof -
  let ?r = "length m mod 64" and ?b = "rest64 m @ take n is" and ?h = "foldl sha1_step sha1_init (blocks64 m)"
  have b: "sha_mBuffer_S s = rest64 m" "length (rest64 m) = ?r" "?r < 64" using assms(1) by (simp_all add: sha1_holds_def)
  have lb: "length ?b = 64" using assms(2,3) b(3) by simp
  obtain block where tr: "S_Transform (sha_mpDigest_U32 s) (sha1_words ?b) (sha_mTransform_U64 s)
      = Ret (sha1_list (sha1_step ?h ?b), block, sha_mTransform_U64 s + 1)"
    using S_Transform_step [of ?h ?b "sha_mTransform_U64 s"] assms(1) unfolding sha1_holds_def by force
  let ?t = "s\<lparr>sha_mpDigest_U32 := sha1_list (sha1_step ?h ?b), sha_mTransform_U64 := sha_mTransform_U64 s + 1, sha_mBuffer_S := []\<rparr>"
  have "rest64 ?b = []" "blocks64 ?b = [?b]"
    using rest64_block [OF lb, of "[]"] blocks64_block [OF lb, of "[]"] by simp_all
  then have m: "rest64 (m @ take n is) = []" "blocks64 (m @ take n is) = blocks64 m @ [?b]"
    unfolding rest64_append [of m "take n is"] blocks64_append [of m "take n is"] by simp_all
  have "length m + n = 64 * Suc (length m div 64)" unfolding assms(3) by (rule round_up_64)
  then have "length (m @ take n is) div 64 = Suc (length m div 64)" using assms(2,3) by simp
  with m assms(1) have "sha1_holds ?t (m @ take n is)" by (simp add: sha1_holds_def add.commute)
  moreover have "BofSha1_Update_istream s is = BofSha1_Update_istream ?t (drop n is)"
    using b lb tr assms(3) by (subst BofSha1_Update_istream.simps) (simp add: Let_def S_BufferToBlock_words)
  ultimately show ?thesis by blast
qed

theorem Update_istream_holds:
  "sha1_holds s m \<Longrightarrow> \<exists>t. BofSha1_Update_istream s is = Ret (t, []) \<and> sha1_holds t (m @ is)"
proof (induction "length is" arbitrary: s m "is" rule: less_induct)
  case less
  show ?case
  proof (cases "length is < 64 - length m mod 64")
    case True
    with less.prems show ?thesis by (rule Update_short)
  next
    case False
    define n where "n = 64 - length m mod 64"
    have "0 < n" by (simp add: n_def)
    from Update_fill [OF less.prems False n_def] obtain t where
      t: "BofSha1_Update_istream s is = BofSha1_Update_istream t (drop n is)" "sha1_holds t (m @ take n is)" by blast
    have "length (drop n is) < length is" using False \<open>0 < n\<close> by (simp add: n_def)
    from less.hyps [OF this t(2)] t(1) show ?thesis by simp
  qed
qed

section \<open>The digest\<close>

text \<open>The words of a block that ends with the number of bits.\<close>

definition sha1_word :: "u8 list \<Rightarrow> u32" where
  "sha1_word b = of_le_bytes (rev (take 4 b))"

lemma sha1_words_alt: "sha1_words b = map (\<lambda>i. sha1_word (drop (4 * i) b)) [0..<14] @ [sha1_word (drop 56 b), sha1_word (drop 60 b)]"
proof -
  have "[0..<16] = [0..<14] @ [14, 15 :: nat]" by (simp add: upt_rec)
  then show ?thesis by (simp add: sha1_words_def sha1_word_def)
qed

lemma sha1_word_length:
  fixes N :: u64
  shows "sha1_word (rev (le_bytes 8 N)) = ucast (drop_bit 32 N)" "sha1_word (drop 4 (rev (le_bytes 8 N))) = ucast N"
proof -
  have 4: "of_le_bytes (le_bytes 4 (w::u32)) = w" for w using of_le_bytes_le_bytes [where ?'a = 32 and n = 4] by (simp add: size_of_def)
  have "rev (le_bytes 8 N) = rev (le_bytes 4 (ucast (drop_bit 32 N) :: u32)) @ rev (le_bytes 4 (ucast N :: u32))"
    by (simp add: le_bytes_8)
  then show "sha1_word (rev (le_bytes 8 N)) = ucast (drop_bit 32 N)" "sha1_word (drop 4 (rev (le_bytes 8 N))) = ucast N"
    using 4 by (simp_all add: sha1_word_def)
qed

lemma sha1_words_length:
  assumes "length p = 56"
  shows "sha1_words (p @ rev (le_bytes 8 (N::u64)))
    = map (\<lambda>i. sha1_word (drop (4 * i) p)) [0..<14] @ [ucast (drop_bit 32 N), ucast N]"
proof -
  have "sha1_word (drop (4 * i) (p @ rev (le_bytes 8 N))) = sha1_word (drop (4 * i) p)" if "i < 14" for i
    using that assms by (simp add: sha1_word_def)
  then show ?thesis using assms sha1_word_length [of N] by (simp add: sha1_words_alt)
qed

lemma sha1_words_put_length:
  assumes "length b = 64" "\<And>i. i < 14 \<Longrightarrow> take 4 (drop (4 * i) b) = take 4 (drop (4 * i) p)" "length p = 56"
  shows "(sha1_words b)[15 := ucast (N::u64), 14 := ucast (drop_bit 32 N)] = sha1_words (p @ rev (le_bytes 8 N))"
proof -
  have "sha1_word (drop (4 * i) b) = sha1_word (drop (4 * i) p)" if "i < 14" for i
    using assms(2) [OF that] by (simp add: sha1_word_def)
  then have "map (\<lambda>i. sha1_word (drop (4 * i) b)) [0..<14] = map (\<lambda>i. sha1_word (drop (4 * i) p)) [0..<14]" by simp
  then show ?thesis by (simp add: sha1_words_length assms(3) sha1_words_alt [of b] list_update_append)
qed


lemma sha1_total_bits:
  "(of_nat (n div 64) * 64 + of_nat (n mod 64)) * 8 = (of_nat (8 * n) :: u64)"
proof -
  have "of_nat (n div 64) * 64 + of_nat (n mod 64) = (of_nat (n div 64 * 64 + n mod 64) :: u64)"
    by (simp only: of_nat_add of_nat_mult of_nat_numeral)
  also have "\<dots> = of_nat n" by (simp only: div_mult_mod_eq)
  finally show ?thesis by (simp add: mult.commute)
qed

text \<open>The padding fits into the block that is not full, or takes another one.\<close>

lemma Final_one_block:
  assumes "sha1_holds s m" "length m mod 64 < 56"
  shows "BofSha1_Final s = Ret (S_Reset, concat (map hex8 (sha1_list (SHA1 m))))"
proof -
  let ?r = "length m mod 64" and ?h = "foldl sha1_step sha1_init (blocks64 m)" and ?N = "of_nat (8 * length m) :: u64"
  let ?p = "rest64 m @ 0x80 # replicate (55 - ?r) 0" and ?b = "rest64 m @ 0x80 # replicate (63 - ?r) 0"
  have l: "length ?b = 64" "length ?p = 56" using assms(2) by simp_all
  have "?b = ?p @ replicate 8 0" using assms(2) by (simp add: replicate_add [symmetric])
  then have "take 4 (drop (4 * i) ?b) = take 4 (drop (4 * i) ?p)" if "i < 14" for i
    using that l(2) by (simp only: drop_append take_append) simp
  note w = sha1_words_put_length [OF l(1) this l(2), of ?N]
  have "(119 - ?r) mod 64 = 55 - ?r" using assms(2) by (simp add: le_mod_geq)
  then have "md_pad (rev \<circ> le_bytes 8) m = m @ (0x80 # replicate (55 - ?r) 0 @ rev (le_bytes 8 ?N))"
    by (simp add: md_pad_def)
  moreover have "length (?p @ rev (le_bytes 8 ?N)) = 64" using l(2) by simp
  ultimately have "SHA1 m = sha1_step ?h (?p @ rev (le_bytes 8 ?N))"
    using blocks64_block [of "?p @ rev (le_bytes 8 ?N)" "[]"]
    by (simp add: SHA1_def blocks64_append [of m "0x80 # replicate (55 - ?r) 0 @ rev (le_bytes 8 ?N)"] del: of_nat_mult)
  moreover obtain block where "S_Transform (sha1_list ?h) (sha1_words (?p @ rev (le_bytes 8 ?N))) (sha_mTransform_U64 s)
      = Ret (sha1_list (sha1_step ?h (?p @ rev (le_bytes 8 ?N))), block, sha_mTransform_U64 s + 1)"
    using S_Transform_step by blast
  moreover have "(sha_mTransform_U64 s * 64 + of_nat (length (sha_mBuffer_S s))) * 8 = ?N"
    using assms(1) sha1_total_bits by (simp only: sha1_holds_def length_rest64)
  moreover have "sha_mBuffer_S s = rest64 m" "sha_mpDigest_U32 s = sha1_list ?h" using assms(1) by (simp_all add: sha1_holds_def)
  ultimately show ?thesis
    using assms(2) S_BufferToBlock_words [OF l(1)] w by (simp add: BofSha1_Final_def Let_def del: of_nat_mult)
qed


lemma Final_two_blocks:
  assumes "sha1_holds s m" "56 \<le> length m mod 64"
  shows "BofSha1_Final s = Ret (S_Reset, concat (map hex8 (sha1_list (SHA1 m))))"
proof -
  let ?r = "length m mod 64" and ?h = "foldl sha1_step sha1_init (blocks64 m)" and ?N = "of_nat (8 * length m) :: u64"
  let ?b = "rest64 m @ 0x80 # replicate (63 - ?r) 0" and ?e = "replicate 56 0 @ rev (le_bytes 8 ?N)"
  have r: "?r < 64" by simp
  then have l: "length ?b = 64" "length ?e = 64" by simp_all
  have z: "sha1_word (replicate n 0) = 0" for n :: nat
  proof -
    have "of_le_bytes (replicate k 0) = (0 :: u32)" for k by (induction k) simp_all
    then show ?thesis by (simp add: sha1_word_def)
  qed
  have w: "sha1_words ?e = replicate 14 0 @ [ucast (drop_bit 32 ?N), ucast ?N]"
    by (subst sha1_words_length) (simp_all add: z map_replicate_const del: of_nat_mult)
  have "(119 - ?r) mod 64 = 63 - ?r + 56" using assms(2) r by simp
  then have p: "md_pad (rev \<circ> le_bytes 8) m = m @ (0x80 # replicate (63 - ?r) 0 @ ?e)"
    by (simp only: md_pad_def replicate_add o_def append_assoc append_Cons append_Nil)
  have "blocks64 (?b @ ?e) = [?b, ?e]" using blocks64_block [OF l(1), of ?e] blocks64_block [OF l(2), of "[]"] by simp
  then have "SHA1 m = sha1_step (sha1_step ?h ?b) ?e"
    unfolding SHA1_def p blocks64_append [of m] by simp
  moreover obtain block1 where "S_Transform (sha1_list ?h) (sha1_words ?b) (sha_mTransform_U64 s)
      = Ret (sha1_list (sha1_step ?h ?b), block1, sha_mTransform_U64 s + 1)" "length block1 = 16"
    using S_Transform_step by blast
  moreover obtain block2 where "S_Transform (sha1_list (sha1_step ?h ?b)) (sha1_words ?e) (sha_mTransform_U64 s + 1)
      = Ret (sha1_list (sha1_step (sha1_step ?h ?b) ?e), block2, sha_mTransform_U64 s + 1 + 1)"
    using S_Transform_step by blast
  moreover have "(replicate 14 0 @ drop 14 block1)[15 := ucast ?N, 14 := ucast (drop_bit 32 ?N)] = sha1_words ?e"
    if "length block1 = 16" for block1
    unfolding w by (rule nth_equalityI) (use that in \<open>auto simp: nth_append nth_list_update nth_Cons' simp del: of_nat_mult\<close>)
  moreover have "(sha_mTransform_U64 s * 64 + of_nat (length (sha_mBuffer_S s))) * 8 = ?N"
    using assms(1) sha1_total_bits by (simp only: sha1_holds_def length_rest64)
  moreover have "sha_mBuffer_S s = rest64 m" "sha_mpDigest_U32 s = sha1_list ?h" using assms(1) by (simp_all add: sha1_holds_def)
  ultimately show ?thesis
    using assms(2) S_BufferToBlock_words [OF l(1)] by (simp add: BofSha1_Final_def Let_def del: of_nat_mult)
qed

definition sha1_hex :: "u8 list \<Rightarrow> string" where
  "sha1_hex m = concat (map hex8 (sha1_list (SHA1 m)))"

theorem Final_digest: "sha1_holds s m \<Longrightarrow> BofSha1_Final s = Ret (BofSha1_ctor, sha1_hex m)"
  using Final_one_block Final_two_blocks by (cases "length m mod 64 < 56") (simp_all add: sha1_hex_def BofSha1_ctor_def)

lemma BofSha1_ctor_holds: "sha1_holds BofSha1_ctor []"
  by (simp add: sha1_holds_def BofSha1_ctor_def S_Reset_def sha1_init_def sha1_list_def)

lemma Update_string_holds:
  assumes "sha1_holds s m"
  shows "\<exists>t. BofSha1_Update_string s d = Ret t \<and> sha1_holds t (m @ d)"
  using Update_istream_holds [OF assms, of d] by (auto simp: BofSha1_Update_string_def)

interpretation sha1: reusable_hash BofSha1_ctor BofSha1_Update_string BofSha1_Final sha1_holds "\<lambda>d. True" sha1_hex
  by unfold_locales (auto simp: BofSha1_ctor_holds Update_string_holds Final_digest)

end
