(* ===== verification/Bof_Crypto_Props.thy ===== *)
theory Bof_Crypto_Props
  imports Bof_Crypto_Sha1
begin

text \<open>
  The properties of the hash functions: \<^verbatim>\<open>BofCryptoMd5\<close> is MD5 and \<^verbatim>\<open>BofSha1\<close> is SHA-1, and what becomes of an
  object that is used twice.
\<close>

text \<open>
  The reference definition on a message of the test suite of RFC 1321.
\<close>

lemma MD5_abc: "MD5 [0x61, 0x62, 0x63]
  = [0x90, 0x01, 0x50, 0x98, 0x3c, 0xd2, 0x4f, 0xb0, 0xd6, 0x96, 0x3f, 0x7d, 0x28, 0xe1, 0x7f, 0x72]"
  by code_simp

text \<open>
  C20. \<^verbatim>\<open>BofCryptoMd5::Hash\<close> on a new object is MD5: whatever the bytes and their number, below \<open>2 ^ 32\<close>, the
  first 16 bytes of the output are the digest of RFC 1321 of exactly the bytes asked for, the rest of the output
  is left alone, the count is set to 16 and the context is cleared. Without input, output or count,
  or with a count below 16, the call returns false and changes nothing, whatever the object was used for before.
\<close>

theorem BofCryptoMd5_Hash_is_MD5:
  "(unat nbIn \<le> length inp \<and> 16 \<le> length out \<and> 16 \<le> nbOut \<longrightarrow>
      BofCryptoMd5_Hash BofCryptoMd5_ctor nbIn (Some inp) (Some nbOut) (Some out)
      = Ret (BOF_MD5_CONTEXT_Reset, Some 16, Some (MD5 (take (unat nbIn) inp) @ drop 16 out), True))
   \<and> (pIn = None \<or> pNb = None \<or> pOut = None \<or> (\<exists>n < 16. pNb = Some n) \<longrightarrow>
      BofCryptoMd5_Hash s nb pIn pNb pOut = Ret (s, pNb, pOut, False))"
proof -
  have "BofCryptoMd5_Hash s nb pIn pNb pOut = Ret (s, pNb, pOut, False)"
    if "pIn = None \<or> pNb = None \<or> pOut = None \<or> (\<exists>n < 16. pNb = Some n)"
    using that by (auto simp: BofCryptoMd5_Hash_def split: option.split)
  then show ?thesis by (simp add: Hash_holds [OF ctor_holds] MD5_def)
qed

theorem BofCryptoMd5_Hash_is_MD5_witness:
  "BofCryptoMd5_Hash BofCryptoMd5_ctor 3 (Some [0x61, 0x62, 0x63, 0x64]) (Some 20) (Some (replicate 17 7))
     = Ret (BOF_MD5_CONTEXT_Reset, Some 16,
         Some [0x90, 0x01, 0x50, 0x98, 0x3c, 0xd2, 0x4f, 0xb0, 0xd6, 0x96, 0x3f, 0x7d, 0x28, 0xe1, 0x7f, 0x72, 7], True)
   \<and> BofCryptoMd5_Hash BofCryptoMd5_ctor 3 (Some [1, 2, 3]) (Some 15) (Some (replicate 16 0))
     = Ret (BofCryptoMd5_ctor, Some 15, Some (replicate 16 0), False)"
  using BofCryptoMd5_Hash_is_MD5 [of 3 "[0x61, 0x62, 0x63, 0x64]" "replicate 17 7" 20 "Some [1, 2, 3]" "Some 15"
      "Some (replicate 16 0)" BofCryptoMd5_ctor 3]
  by (simp add: MD5_abc)

text \<open>
  C23. A \<^verbatim>\<open>BofCryptoMd5\<close> object can be used once: \<^verbatim>\<open>Compute\<close> clears the context with the chaining value, so that a second
  \<^verbatim>\<open>Hash\<close> returns true and the digest of its bytes from the chaining value 0 on, which is not MD5, not even of
  the empty message.
\<close>

theorem BofCryptoMd5_second_Hash_is_not_MD5:
  assumes "unat n1 \<le> length m1" "16 \<le> length out1" "unat n2 \<le> length m2" "16 \<le> length out2"
  shows "bindO (BofCryptoMd5_Hash BofCryptoMd5_ctor n1 (Some m1) (Some 16) (Some out1))
           (\<lambda>(s, nb, out, ok). BofCryptoMd5_Hash s n2 (Some m2) (Some 16) (Some out2))
         = Ret (BOF_MD5_CONTEXT_Reset, Some 16, Some (md5_from (0, 0, 0, 0) (take (unat n2) m2) @ drop 16 out2), True)
       \<and> md5_from (0, 0, 0, 0) [] \<noteq> MD5 []"
proof
  show "md5_from (0, 0, 0, 0) [] \<noteq> MD5 []" by code_simp
qed (simp add: assms Hash_holds [OF ctor_holds] Hash_holds [OF Reset_holds])

theorem BofCryptoMd5_second_Hash_is_not_MD5_witness:
  "\<exists>out. bindO (BofCryptoMd5_Hash BofCryptoMd5_ctor 0 (Some []) (Some 16) (Some (replicate 16 0)))
           (\<lambda>(s, nb, out, ok). BofCryptoMd5_Hash s 0 (Some []) (Some 16) (Some (replicate 16 0)))
         = Ret (BOF_MD5_CONTEXT_Reset, Some 16, Some out, True) \<and> out \<noteq> MD5 []"
  using BofCryptoMd5_second_Hash_is_not_MD5 [of 0 "[]" "replicate 16 0" 0 "[]" "replicate 16 0"] by simp

text \<open>
  C11. \<^verbatim>\<open>BofSha1\<close> is SHA-1: any number of messages can be hashed one after the other on one object, each given in any
  pieces of any size, and the digests are those of FIPS 180 in 40 hexadecimal digits. The functions that hash a
  buffer, a file and a string do so too; a file that cannot be read counts as empty, and of a string
  only the first bytes, their number modulo \<open>2 ^ 32\<close>, are hashed.
\<close>

theorem BofSha1_is_SHA1:
  "hash_sessions BofSha1_Update_string BofSha1_Final BofSha1_ctor messages
      = Ret (BofSha1_ctor, map (\<lambda>pieces. sha1_hex (concat pieces)) messages)
   \<and> (unat nb \<le> length buffer \<longrightarrow> BofSha1_S_FromBuffer nb buffer = Ret (sha1_hex (take (unat nb) buffer)))
   \<and> BofSha1_S_FromFile files name = Ret (sha1_hex (case files name of None \<Rightarrow> [] | Some bytes \<Rightarrow> bytes))
   \<and> BofSha1_S_FromString str = Ret (sha1_hex (take (length str mod 2 ^ 32) str))"
proof (intro conjI impI)
  have buf: "BofSha1_S_FromBuffer n b = Ret (sha1_hex (take (unat n) b))" if "unat n \<le> length b" for n b
    using Update_istream_holds [OF BofSha1_ctor_holds, of "take (unat n) b"] Final_digest that
    by (auto simp: BofSha1_S_FromBuffer_def BofSha1_Update_buffer_def BofIMemoryStream_def)
  then show "BofSha1_S_FromBuffer nb buffer = Ret (sha1_hex (take (unat nb) buffer))" if "unat nb \<le> length buffer"
    using that by blast
  have "length str mod 2 ^ 32 \<le> length str" by (rule mod_less_eq_dividend)
  then show "BofSha1_S_FromString str = Ret (sha1_hex (take (length str mod 2 ^ 32) str))"
    by (subst BofSha1_S_FromString_def, subst buf) (simp_all add: unsigned_of_nat take_bit_eq_mod)
  show "hash_sessions BofSha1_Update_string BofSha1_Final BofSha1_ctor messages
      = Ret (BofSha1_ctor, map (\<lambda>pieces. sha1_hex (concat pieces)) messages)"
    by (rule sha1.sessions_digests) simp
  show "BofSha1_S_FromFile files name = Ret (sha1_hex (case files name of None \<Rightarrow> [] | Some bytes \<Rightarrow> bytes))"
    using Update_istream_holds [OF BofSha1_ctor_holds, of "case files name of None \<Rightarrow> [] | Some bytes \<Rightarrow> bytes"] Final_digest
    by (auto simp: BofSha1_S_FromFile_def)
qed

theorem BofSha1_is_SHA1_witness:
  "BofSha1_S_FromBuffer 3 [0x61, 0x62, 0x63, 0x64] = Ret (sha1_hex [0x61, 0x62, 0x63])"
  using BofSha1_is_SHA1 [of "[]" 3 "[0x61, 0x62, 0x63, 0x64]" "\<lambda>_. None" "[]" "[]"] by simp

end
