(* ===== verification/Bof_ListOf.thy ===== *)
theory Bof_ListOf
  imports Bof_Prelude
begin

text \<open>
  The intrusive lists, pools and queues of \<^verbatim>\<open>boflistof.h\<close>, \<^verbatim>\<open>bofpoolof.h\<close> and \<^verbatim>\<open>boffifoof.h\<close>. An item is a number; its
  links and its state are in a store that the lists share. The header of an item is at its beginning, as the casts
  of the sources require.

  The methods of the list without locks are given as the atomic steps of a thread, so that threads can be
  interleaved; a call that nobody interferes with is the run of its steps. Every access to memory is one
  step, in the order of the source.
\<close>

unbundle bit_operations_syntax

section \<open>Items\<close>

text \<open>What a link can point to: the head of the single list, that of the double list, or an item.\<close>

datatype of_addr = SingleHead | DoubleHead | Item nat

definition ITEM_STATE_FREE :: u32 where "ITEM_STATE_FREE = 0"
definition ITEM_STATE_TAKEN :: u32 where "ITEM_STATE_TAKEN = 1"

text \<open>The fields of the \<^verbatim>\<open>OPAQUE_ITEM_HEADER\<close> of every item.\<close>

record item_store =
  it_pNextItem_X :: "nat \<Rightarrow> of_addr"
  it_pPrevItem_X :: "nat \<Rightarrow> of_addr"
  it_State_E :: "nat \<Rightarrow> u32"

section \<open>The single list\<close>

record BofSingleListOf =
  sl_pNextItem_X :: of_addr
  sl_Tag :: u64
  sl_mNbItemAvailable :: u32
  sl_mNbMaxItemAvailable :: u32

definition BofSingleListOf_ctor :: BofSingleListOf where
  "BofSingleListOf_ctor =
     \<lparr>sl_pNextItem_X = SingleHead, sl_Tag = 0, sl_mNbItemAvailable = 0, sl_mNbMaxItemAvailable = 0\<rparr>"

text \<open>Where a thread is in a call of \<^verbatim>\<open>InsertHead\<close> or \<^verbatim>\<open>RemoveHead\<close>, with its local variables.\<close>

datatype sl_pc =
    SlIdle
  | InsLoad nat
  | InsLink nat of_addr
  | InsCas nat of_addr
  | InsCheck nat of_addr
  | InsCount
  | InsMax
  | InsMaxTest u32
  | InsMaxLoad
  | InsMaxStore u32
  | InsRet bool
  | RemTag
  | RemPtr u64
  | RemNext u64 of_addr
  | RemCas u64 of_addr of_addr
  | RemTest of_addr
  | RemCount nat
  | RemRet "nat option"

text \<open>
  \<open>sl_next\<close> is \<^verbatim>\<open>p->pNextItem_X\<close>; the head of the list starts with its own link. One step of a thread; a weak
  compare-and-exchange may fail although it finds what it expects (\<open>spurious\<close>).
\<close>

definition sl_next :: "item_store \<Rightarrow> BofSingleListOf \<Rightarrow> of_addr \<Rightarrow> of_addr" where
  "sl_next st l p = (case p of Item i \<Rightarrow> it_pNextItem_X st i | _ \<Rightarrow> sl_pNextItem_X l)"

fun sl_step :: "bool \<Rightarrow> item_store \<times> BofSingleListOf \<Rightarrow> sl_pc \<Rightarrow> (item_store \<times> BofSingleListOf) \<times> sl_pc" where
  "sl_step spurious (st, l) (InsLoad i) = ((st, l), InsLink i (sl_pNextItem_X l))"
| "sl_step spurious (st, l) (InsLink i tmp) =
     ((st\<lparr>it_pNextItem_X := (it_pNextItem_X st)(i := tmp)\<rparr>, l), InsCas i tmp)"
| "sl_step spurious (st, l) (InsCas i tmp) =
     (if sl_pNextItem_X l = tmp \<and> \<not> spurious then ((st, l\<lparr>sl_pNextItem_X := Item i\<rparr>), InsCheck i tmp)
      else ((st, l), InsLoad i))"
| "sl_step spurious (st, l) (InsCheck i tmp) =
     ((st, l), if tmp \<noteq> sl_pNextItem_X l then InsCount else InsRet False)"
| "sl_step spurious (st, l) InsCount = ((st, l\<lparr>sl_mNbItemAvailable := sl_mNbItemAvailable l + 1\<rparr>), InsMax)"
| "sl_step spurious (st, l) InsMax = ((st, l), InsMaxTest (sl_mNbItemAvailable l))"
| "sl_step spurious (st, l) (InsMaxTest n) =
     ((st, l), if sl_mNbMaxItemAvailable l < n then InsMaxLoad else InsRet True)"
| "sl_step spurious (st, l) InsMaxLoad = ((st, l), InsMaxStore (sl_mNbItemAvailable l))"
| "sl_step spurious (st, l) (InsMaxStore n) = ((st, l\<lparr>sl_mNbMaxItemAvailable := n\<rparr>), InsRet True)"
| "sl_step spurious (st, l) RemTag = ((st, l), RemPtr (sl_Tag l))"
| "sl_step spurious (st, l) (RemPtr tag) = ((st, l), RemNext tag (sl_pNextItem_X l))"
| "sl_step spurious (st, l) (RemNext tag old) = ((st, l), RemCas tag old (sl_next st l old))"
| "sl_step spurious (st, l) (RemCas tag old new) =
     (if sl_pNextItem_X l = old \<and> sl_Tag l = tag
      then ((st, l\<lparr>sl_pNextItem_X := new, sl_Tag := tag + 1\<rparr>), RemTest old) else ((st, l), RemTag))"
| "sl_step spurious (st, l) (RemTest old) = ((st, l), case old of Item i \<Rightarrow> RemCount i | _ \<Rightarrow> RemRet None)"
| "sl_step spurious (st, l) (RemCount i) = ((st, l\<lparr>sl_mNbItemAvailable := sl_mNbItemAvailable l - 1\<rparr>), RemRet (Some i))"
| "sl_step spurious sl pc = (sl, pc)"

text \<open>The first step of a call; \<^verbatim>\<open>InsertHead\<close> refuses a null pointer.\<close>

definition sl_InsertHead_start :: "nat option \<Rightarrow> sl_pc" where
  "sl_InsertHead_start pItem = (case pItem of None \<Rightarrow> InsRet False | Some i \<Rightarrow> InsLoad i)"

definition sl_RemoveHead_start :: sl_pc where
  "sl_RemoveHead_start = RemTag"

text \<open>
  A call without interference; no call takes more than nine steps then.
\<close>

primrec sl_alone :: "nat \<Rightarrow> item_store \<times> BofSingleListOf \<Rightarrow> sl_pc \<Rightarrow> ((item_store \<times> BofSingleListOf) \<times> sl_pc) outcome" where
  "sl_alone 0 sl pc = Retrying"
| "sl_alone (Suc n) sl pc =
     (case pc of InsRet b \<Rightarrow> Ret (sl, pc) | RemRet r \<Rightarrow> Ret (sl, pc)
      | _ \<Rightarrow> (case sl_step False sl pc of (sl, pc) \<Rightarrow> sl_alone n sl pc))"

definition BofSingleListOf_InsertHead :: "item_store \<Rightarrow> BofSingleListOf \<Rightarrow> nat option \<Rightarrow> (item_store \<times> BofSingleListOf \<times> bool) outcome" where
  "BofSingleListOf_InsertHead st l pItem =
     bindO (sl_alone 10 (st, l) (sl_InsertHead_start pItem)) (\<lambda>((st, l), pc).
       Ret (st, l, case pc of InsRet b \<Rightarrow> b | _ \<Rightarrow> False))"

definition BofSingleListOf_RemoveHead :: "item_store \<Rightarrow> BofSingleListOf \<Rightarrow> (BofSingleListOf \<times> nat option) outcome" where
  "BofSingleListOf_RemoveHead st l =
     bindO (sl_alone 10 (st, l) sl_RemoveHead_start) (\<lambda>((st, l), pc).
       Ret (l, case pc of RemRet r \<Rightarrow> r | _ \<Rightarrow> None))"

definition BofSingleListOf_IsEmpty :: "BofSingleListOf \<Rightarrow> bool" where
  "BofSingleListOf_IsEmpty l \<longleftrightarrow> sl_pNextItem_X l = SingleHead"

definition BofSingleListOf_GetNbItemAvailable :: "BofSingleListOf \<Rightarrow> u32" where
  "BofSingleListOf_GetNbItemAvailable l = sl_mNbItemAvailable l"

definition BofSingleListOf_GetNbMaxItemAvailable :: "BofSingleListOf \<Rightarrow> bool \<Rightarrow> BofSingleListOf \<times> u32" where
  "BofSingleListOf_GetNbMaxItemAvailable l Reset_B =
     ((if Reset_B then l\<lparr>sl_mNbMaxItemAvailable := 0\<rparr> else l), sl_mNbMaxItemAvailable l)"

text \<open>\<^verbatim>\<open>Reset\<close> removes the items one by one; it takes one turn per item and one more.\<close>

primrec sl_remove_all :: "nat \<Rightarrow> item_store \<Rightarrow> BofSingleListOf \<Rightarrow> BofSingleListOf outcome" where
  "sl_remove_all 0 st l = Retrying"
| "sl_remove_all (Suc n) st l =
     bindO (BofSingleListOf_RemoveHead st l) (\<lambda>(l, r). case r of None \<Rightarrow> Ret l | Some i \<Rightarrow> sl_remove_all n st l)"

definition BofSingleListOf_Reset :: "nat \<Rightarrow> item_store \<Rightarrow> BofSingleListOf \<Rightarrow> BofSingleListOf outcome" where
  "BofSingleListOf_Reset turns st l = bindO (sl_remove_all turns st l) (\<lambda>l. Ret (l\<lparr>sl_mNbMaxItemAvailable := 0\<rparr>))"

section \<open>The double list\<close>

record BofDoubleListOf =
  dl_pNextItem_X :: of_addr
  dl_pPrevItem_X :: of_addr
  dl_mNbItemAvailable :: u32
  dl_mNbMaxItemAvailable :: u32

definition BofDoubleListOf_ctor :: BofDoubleListOf where
  "BofDoubleListOf_ctor =
     \<lparr>dl_pNextItem_X = DoubleHead, dl_pPrevItem_X = DoubleHead, dl_mNbItemAvailable = 0, dl_mNbMaxItemAvailable = 0\<rparr>"

definition BofDoubleListOf_IsEmpty :: "BofDoubleListOf \<Rightarrow> bool" where
  "BofDoubleListOf_IsEmpty l \<longleftrightarrow> dl_pNextItem_X l = DoubleHead \<and> dl_pPrevItem_X l = DoubleHead"

text \<open>The assignments \<^verbatim>\<open>p->pNextItem_X = q\<close> and \<^verbatim>\<open>p->pPrevItem_X = q\<close>, where \<^verbatim>\<open>p\<close> is the head or an item.\<close>

definition dl_set_next :: "item_store \<times> BofDoubleListOf \<Rightarrow> of_addr \<Rightarrow> of_addr \<Rightarrow> (item_store \<times> BofDoubleListOf) outcome" where
  "dl_set_next s p q =
     (case p of Item i \<Rightarrow> Ret ((fst s)\<lparr>it_pNextItem_X := (it_pNextItem_X (fst s))(i := q)\<rparr>, snd s)
      | DoubleHead \<Rightarrow> Ret (fst s, (snd s)\<lparr>dl_pNextItem_X := q\<rparr>) | SingleHead \<Rightarrow> Undefined)"

definition dl_set_prev :: "item_store \<times> BofDoubleListOf \<Rightarrow> of_addr \<Rightarrow> of_addr \<Rightarrow> (item_store \<times> BofDoubleListOf) outcome" where
  "dl_set_prev s p q =
     (case p of Item i \<Rightarrow> Ret ((fst s)\<lparr>it_pPrevItem_X := (it_pPrevItem_X (fst s))(i := q)\<rparr>, snd s)
      | DoubleHead \<Rightarrow> Ret (fst s, (snd s)\<lparr>dl_pPrevItem_X := q\<rparr>) | SingleHead \<Rightarrow> Undefined)"

definition dl_count_up :: "BofDoubleListOf \<Rightarrow> BofDoubleListOf" where
  "dl_count_up l =
     (let l = l\<lparr>dl_mNbItemAvailable := dl_mNbItemAvailable l + 1\<rparr>
      in if dl_mNbMaxItemAvailable l < dl_mNbItemAvailable l then l\<lparr>dl_mNbMaxItemAvailable := dl_mNbItemAvailable l\<rparr> else l)"

definition BofDoubleListOf_InsertHead :: "item_store \<Rightarrow> BofDoubleListOf \<Rightarrow> nat option \<Rightarrow> (item_store \<times> BofDoubleListOf \<times> bool) outcome" where
  "BofDoubleListOf_InsertHead st l pItem =
     (case pItem of None \<Rightarrow> Ret (st, l, False)
      | Some i \<Rightarrow>
          let pListItem = dl_pNextItem_X l
          in bindO (dl_set_next (st, l) (Item i) (dl_pNextItem_X l)) (\<lambda>s.
             bindO (dl_set_next s DoubleHead (Item i)) (\<lambda>s.
             bindO (dl_set_prev s pListItem (Item i)) (\<lambda>s.
             bindO (dl_set_prev s (Item i) DoubleHead) (\<lambda>(st, l).
             Ret (st, dl_count_up l, True))))))"

definition BofDoubleListOf_InsertTail :: "item_store \<Rightarrow> BofDoubleListOf \<Rightarrow> nat option \<Rightarrow> (item_store \<times> BofDoubleListOf \<times> bool) outcome" where
  "BofDoubleListOf_InsertTail st l pItem =
     (case pItem of None \<Rightarrow> Ret (st, l, False)
      | Some i \<Rightarrow>
          let pListItem = dl_pPrevItem_X l
          in bindO (dl_set_prev (st, l) (Item i) (dl_pPrevItem_X l)) (\<lambda>s.
             bindO (dl_set_prev s DoubleHead (Item i)) (\<lambda>s.
             bindO (dl_set_next s pListItem (Item i)) (\<lambda>s.
             bindO (dl_set_next s (Item i) DoubleHead) (\<lambda>(st, l).
             Ret (st, dl_count_up l, True))))))"

text \<open>Taking the item \<^verbatim>\<open>p\<close> off; the head of the list is not an item of the caller.\<close>

definition BofDoubleListOf_RemoveHead :: "item_store \<Rightarrow> BofDoubleListOf \<Rightarrow> (item_store \<times> BofDoubleListOf \<times> nat option) outcome" where
  "BofDoubleListOf_RemoveHead st l =
     (if BofDoubleListOf_IsEmpty l then Ret (st, l, None)
      else let l = l\<lparr>dl_mNbItemAvailable := dl_mNbItemAvailable l - 1\<rparr>
           in case dl_pNextItem_X l of
                Item i \<Rightarrow> let q = it_pNextItem_X st i
                          in bindO (dl_set_prev (st, l\<lparr>dl_pNextItem_X := q\<rparr>) q DoubleHead) (\<lambda>(st, l). Ret (st, l, Some i))
              | _ \<Rightarrow> Undefined)"

definition BofDoubleListOf_RemoveTail :: "item_store \<Rightarrow> BofDoubleListOf \<Rightarrow> (item_store \<times> BofDoubleListOf \<times> nat option) outcome" where
  "BofDoubleListOf_RemoveTail st l =
     (if BofDoubleListOf_IsEmpty l then Ret (st, l, None)
      else let l = l\<lparr>dl_mNbItemAvailable := dl_mNbItemAvailable l - 1\<rparr>
           in case dl_pPrevItem_X l of
                Item i \<Rightarrow> let q = it_pPrevItem_X st i
                          in bindO (dl_set_next (st, l\<lparr>dl_pPrevItem_X := q\<rparr>) q DoubleHead) (\<lambda>(st, l). Ret (st, l, Some i))
              | _ \<Rightarrow> Undefined)"

definition BofDoubleListOf_GetNbItemAvailable :: "BofDoubleListOf \<Rightarrow> u32" where
  "BofDoubleListOf_GetNbItemAvailable l = dl_mNbItemAvailable l"

definition BofDoubleListOf_GetNbMaxItemAvailable :: "BofDoubleListOf \<Rightarrow> bool \<Rightarrow> BofDoubleListOf \<times> u32" where
  "BofDoubleListOf_GetNbMaxItemAvailable l Reset_B =
     ((if Reset_B then l\<lparr>dl_mNbMaxItemAvailable := 0\<rparr> else l), dl_mNbMaxItemAvailable l)"

text \<open>The neighbours of an item, \<open>None\<close> for a null pointer.\<close>

definition BofDoubleListOf_S_GetNextItem :: "item_store \<Rightarrow> nat option \<Rightarrow> of_addr option" where
  "BofDoubleListOf_S_GetNextItem st pItem = map_option (it_pNextItem_X st) pItem"

definition BofDoubleListOf_S_GetPrevItem :: "item_store \<Rightarrow> nat option \<Rightarrow> of_addr option" where
  "BofDoubleListOf_S_GetPrevItem st pItem = map_option (it_pPrevItem_X st) pItem"

primrec dl_remove_all :: "nat \<Rightarrow> item_store \<Rightarrow> BofDoubleListOf \<Rightarrow> (item_store \<times> BofDoubleListOf) outcome" where
  "dl_remove_all 0 st l = Retrying"
| "dl_remove_all (Suc n) st l =
     bindO (BofDoubleListOf_RemoveHead st l) (\<lambda>(st, l, r). case r of None \<Rightarrow> Ret (st, l) | Some i \<Rightarrow> dl_remove_all n st l)"

definition BofDoubleListOf_Reset :: "nat \<Rightarrow> item_store \<Rightarrow> BofDoubleListOf \<Rightarrow> (item_store \<times> BofDoubleListOf) outcome" where
  "BofDoubleListOf_Reset turns st l =
     bindO (dl_remove_all turns st l) (\<lambda>(st, l). Ret (st, l\<lparr>dl_mNbMaxItemAvailable := 0\<rparr>))"

section \<open>The pool\<close>

text \<open>The items of the pool are those of its array: the numbers below \<open>po_mMaxNumberOfItemInPool_U32\<close>.\<close>

record BofPoolOf =
  po_mMaxNumberOfItemInPool_U32 :: u32
  po_mItemList :: BofSingleListOf
  po_mNbMinPoolItemAvailable :: u32

text \<open>The standard \<^verbatim>\<open>assert\<close> does nothing in a build with \<^verbatim>\<open>NDEBUG\<close>.\<close>

definition assert_c :: "bool \<Rightarrow> bool \<Rightarrow> 'b outcome \<Rightarrow> 'b outcome" where
  "assert_c ndebug P k = (if P \<or> ndebug then k else AssertFailed)"

definition item_set_state :: "item_store \<Rightarrow> nat \<Rightarrow> u32 \<Rightarrow> item_store" where
  "item_set_state st i v = st\<lparr>it_State_E := (it_State_E st)(i := v)\<rparr>"

text \<open>The loops that insert the items from \<open>i\<close> on; \<^verbatim>\<open>Reset\<close> also frees them.\<close>

primrec po_insert_all :: "nat \<Rightarrow> bool \<Rightarrow> nat \<Rightarrow> item_store \<Rightarrow> BofSingleListOf \<Rightarrow> (item_store \<times> BofSingleListOf) outcome" where
  "po_insert_all 0 free i st l = Ret (st, l)"
| "po_insert_all (Suc n) free i st l =
     (let st = (if free then item_set_state st i ITEM_STATE_FREE else st)
      in bindO (BofSingleListOf_InsertHead st l (Some i)) (\<lambda>(st, l, b). po_insert_all n free (Suc i) st l))"

text \<open>The constructor; the headers of the new items are free, their links are not set.\<close>

definition BofPoolOf_ctor :: "item_store \<Rightarrow> u32 \<Rightarrow> (item_store \<times> BofPoolOf) outcome" where
  "BofPoolOf_ctor st nb =
     (let st = st\<lparr>it_State_E := (\<lambda>i. if i < unat nb then ITEM_STATE_FREE else it_State_E st i)\<rparr>
      in bindO (po_insert_all (unat nb) False 0 st BofSingleListOf_ctor) (\<lambda>(st, l).
         Ret (st, \<lparr>po_mMaxNumberOfItemInPool_U32 = nb, po_mItemList = l, po_mNbMinPoolItemAvailable = nb\<rparr>)))"

definition BofPoolOf_GetItem :: "bool \<Rightarrow> item_store \<Rightarrow> BofPoolOf \<Rightarrow> (item_store \<times> BofPoolOf \<times> nat option) outcome" where
  "BofPoolOf_GetItem ndebug st p =
     bindO (BofSingleListOf_RemoveHead st (po_mItemList p)) (\<lambda>(l, r).
     let p = p\<lparr>po_mItemList := l\<rparr>
     in case r of None \<Rightarrow> Ret (st, p, None)
        | Some i \<Rightarrow>
            let res = it_State_E st i; st = item_set_state st i ITEM_STATE_TAKEN
            in assert_c ndebug (res = ITEM_STATE_FREE) (
               if res = ITEM_STATE_FREE
               then let res = BofSingleListOf_GetNbItemAvailable l
                    in assert_c ndebug (res AND 0x80000000 = 0) (
                       if res AND 0x80000000 = 0
                       then Ret (st, (if res < po_mNbMinPoolItemAvailable p then p\<lparr>po_mNbMinPoolItemAvailable := res\<rparr> else p), Some i)
                       else Ret (st, p, None))
               else Ret (st, p, None)))"

definition BofPoolOf_ReleaseItem :: "bool \<Rightarrow> item_store \<Rightarrow> BofPoolOf \<Rightarrow> nat option \<Rightarrow> (item_store \<times> BofPoolOf \<times> bool) outcome" where
  "BofPoolOf_ReleaseItem ndebug st p pItem =
     (case pItem of None \<Rightarrow> Ret (st, p, False)
      | Some i \<Rightarrow>
          let res = it_State_E st i; st = item_set_state st i ITEM_STATE_FREE
          in assert_c ndebug (res = ITEM_STATE_TAKEN) (
             if res = ITEM_STATE_TAKEN
             then bindO (BofSingleListOf_InsertHead st (po_mItemList p) (Some i)) (\<lambda>(st, l, b).
                  let p = p\<lparr>po_mItemList := l\<rparr>
                  in if b
                     then let res = BofSingleListOf_GetNbItemAvailable l
                          in assert_c ndebug (res \<le> po_mMaxNumberOfItemInPool_U32 p)
                             (Ret (st, p, res \<le> po_mMaxNumberOfItemInPool_U32 p))
                     else Ret (st, p, False))
             else Ret (st, p, False)))"

definition BofPoolOf_IsEmpty :: "BofPoolOf \<Rightarrow> bool" where
  "BofPoolOf_IsEmpty p \<longleftrightarrow> BofSingleListOf_IsEmpty (po_mItemList p)"

definition BofPoolOf_GetNbItemAvailable :: "BofPoolOf \<Rightarrow> u32" where
  "BofPoolOf_GetNbItemAvailable p = BofSingleListOf_GetNbItemAvailable (po_mItemList p)"

definition BofPoolOf_GetNbMinItemAvailable :: "BofPoolOf \<Rightarrow> bool \<Rightarrow> BofPoolOf \<times> u32" where
  "BofPoolOf_GetNbMinItemAvailable p Reset_B =
     ((if Reset_B then p\<lparr>po_mNbMinPoolItemAvailable := po_mMaxNumberOfItemInPool_U32 p\<rparr> else p), po_mNbMinPoolItemAvailable p)"

definition BofPoolOf_Reset :: "nat \<Rightarrow> item_store \<Rightarrow> BofPoolOf \<Rightarrow> (item_store \<times> BofPoolOf) outcome" where
  "BofPoolOf_Reset turns st p =
     bindO (sl_remove_all turns st (po_mItemList p)) (\<lambda>l.
     bindO (po_insert_all (unat (po_mMaxNumberOfItemInPool_U32 p)) True 0 st l) (\<lambda>(st, l).
     Ret (st, p\<lparr>po_mItemList := l, po_mNbMinPoolItemAvailable := po_mMaxNumberOfItemInPool_U32 p\<rparr>)))"

section \<open>The queue\<close>

text \<open>\<open>ff_mFifoMtx\<close> tells whether the mutex is locked: it is not recursive, and a thread that locks it twice waits for ever.\<close>

record BofFifoOf =
  ff_mFifoMtx :: bool
  ff_mFifoItemList :: BofDoubleListOf
  ff_mpInternalFifoStorage :: "BofPoolOf option"

definition ff_lock :: "BofFifoOf \<Rightarrow> (BofFifoOf \<Rightarrow> 'b outcome) \<Rightarrow> 'b outcome" where
  "ff_lock f k = (if ff_mFifoMtx f then Blocked else k (f\<lparr>ff_mFifoMtx := True\<rparr>))"

definition ff_unlock :: "BofFifoOf \<Rightarrow> BofFifoOf" where
  "ff_unlock f = f\<lparr>ff_mFifoMtx := False\<rparr>"

definition BofFifoOf_ctor :: "item_store \<Rightarrow> u32 \<Rightarrow> (item_store \<times> BofFifoOf) outcome" where
  "BofFifoOf_ctor st nb =
     bindO (if nb \<noteq> 0 then bindO (BofPoolOf_ctor st nb) (\<lambda>(st, p). Ret (st, Some p)) else Ret (st, None)) (\<lambda>(st, pool).
     Ret (st, \<lparr>ff_mFifoMtx = False, ff_mFifoItemList = BofDoubleListOf_ctor, ff_mpInternalFifoStorage = pool\<rparr>))"

definition BofFifoOf_GetFreeInternalFifoItem :: "bool \<Rightarrow> item_store \<Rightarrow> BofFifoOf \<Rightarrow> (item_store \<times> BofFifoOf \<times> nat option) outcome" where
  "BofFifoOf_GetFreeInternalFifoItem ndebug st f =
     (case ff_mpInternalFifoStorage f of None \<Rightarrow> Ret (st, f, None)
      | Some p \<Rightarrow> bindO (BofPoolOf_GetItem ndebug st p) (\<lambda>(st, p, r). Ret (st, f\<lparr>ff_mpInternalFifoStorage := Some p\<rparr>, r)))"

definition BofFifoOf_ReleaseInternalFifoItem :: "bool \<Rightarrow> item_store \<Rightarrow> BofFifoOf \<Rightarrow> nat option \<Rightarrow> (item_store \<times> BofFifoOf \<times> bool) outcome" where
  "BofFifoOf_ReleaseInternalFifoItem ndebug st f pItem =
     (case (ff_mpInternalFifoStorage f, pItem) of
        (Some p, Some i) \<Rightarrow>
          bindO (BofPoolOf_ReleaseItem ndebug st p (Some i)) (\<lambda>(st, p, b). Ret (st, f\<lparr>ff_mpInternalFifoStorage := Some p\<rparr>, b))
      | _ \<Rightarrow> Ret (st, f, False))"

text \<open>\<^verbatim>\<open>WakeUp\<close> wakes the threads that wait; it changes nothing in the queue.\<close>

definition BofFifoOf_Insert :: "item_store \<Rightarrow> BofFifoOf \<Rightarrow> nat option \<Rightarrow> (item_store \<times> BofFifoOf \<times> bool) outcome" where
  "BofFifoOf_Insert st f pItem =
     ff_lock f (\<lambda>f.
     bindO (BofDoubleListOf_InsertHead st (ff_mFifoItemList f) pItem) (\<lambda>(st, l, b).
     Ret (st, ff_unlock (f\<lparr>ff_mFifoItemList := l\<rparr>), b)))"

text \<open>
  While the caller waits on the condition the mutex is free; \<open>sched\<close> has, for each time it is woken, what the other
  threads have made of the store, the list and the pool, and whether they have asked it to quit. The loop of \<^verbatim>\<open>wait_for\<close> with a
  predicate ends with a timeout when the schedule does, that of \<^verbatim>\<open>wait\<close> never.
\<close>

type_synonym ff_schedule = "((item_store \<times> BofDoubleListOf \<times> BofPoolOf option) \<times> bool) list"

fun ff_wait :: "bool \<Rightarrow> ff_schedule \<Rightarrow> item_store \<Rightarrow> BofFifoOf \<Rightarrow> bool \<Rightarrow> (item_store \<times> BofFifoOf \<times> bool \<times> bool) outcome" where
  "ff_wait timed sched st f quit =
     (if BofDoubleListOf_IsEmpty (ff_mFifoItemList f) \<and> \<not> quit
      then case sched of
             [] \<Rightarrow> if timed then Ret (st, f, quit, False) else Retrying
           | ((st, l, pool), quit) # sched \<Rightarrow>
               ff_wait timed sched st (f\<lparr>ff_mFifoItemList := l, ff_mpInternalFifoStorage := pool\<rparr>) quit
      else Ret (st, f, quit, True))"

text \<open>\<open>ppItem\<close> tells whether the caller gives a place for the item.\<close>

definition BofFifoOf_WaitForItem ::
  "ff_schedule \<Rightarrow> item_store \<Rightarrow> BofFifoOf \<Rightarrow> u32 \<Rightarrow> bool \<Rightarrow> bool \<Rightarrow> (item_store \<times> BofFifoOf \<times> bool \<times> nat option) outcome" where
  "BofFifoOf_WaitForItem sched st f TimeOut quit ppItem =
     (if ppItem
      then ff_lock f (\<lambda>f.
        bindO (ff_wait (TimeOut \<noteq> 0xFFFFFFFF) sched st f quit) (\<lambda>(st, f, quit, Rts).
        if Rts \<and> \<not> BofDoubleListOf_IsEmpty (ff_mFifoItemList f)
        then bindO (BofDoubleListOf_RemoveTail st (ff_mFifoItemList f)) (\<lambda>(st, l, r).
             Ret (st, ff_unlock (f\<lparr>ff_mFifoItemList := l\<rparr>), Rts, r))
        else Ret (st, ff_unlock f, Rts, None)))
      else Ret (st, f, False, None))"

definition BofFifoOf_IsEmpty :: "BofFifoOf \<Rightarrow> (BofFifoOf \<times> bool) outcome" where
  "BofFifoOf_IsEmpty f = ff_lock f (\<lambda>f. Ret (ff_unlock f, BofDoubleListOf_IsEmpty (ff_mFifoItemList f)))"

definition BofFifoOf_GetNbItemAvailable :: "BofFifoOf \<Rightarrow> (BofFifoOf \<times> u32) outcome" where
  "BofFifoOf_GetNbItemAvailable f = ff_lock f (\<lambda>f. Ret (ff_unlock f, BofDoubleListOf_GetNbItemAvailable (ff_mFifoItemList f)))"

definition BofFifoOf_GetNbMaxItemAvailable :: "BofFifoOf \<Rightarrow> bool \<Rightarrow> (BofFifoOf \<times> u32) outcome" where
  "BofFifoOf_GetNbMaxItemAvailable f Reset_B =
     ff_lock f (\<lambda>f. case BofDoubleListOf_GetNbMaxItemAvailable (ff_mFifoItemList f) Reset_B of
       (l, n) \<Rightarrow> Ret (ff_unlock (f\<lparr>ff_mFifoItemList := l\<rparr>), n))"

definition BofFifoOf_Reset :: "nat \<Rightarrow> item_store \<Rightarrow> BofFifoOf \<Rightarrow> (item_store \<times> BofFifoOf) outcome" where
  "BofFifoOf_Reset turns st f =
     ff_lock f (\<lambda>f.
     bindO (BofDoubleListOf_Reset turns st (ff_mFifoItemList f)) (\<lambda>(st, l).
     let f = f\<lparr>ff_mFifoItemList := l\<rparr>
     in case ff_mpInternalFifoStorage f of
          None \<Rightarrow> Ret (st, ff_unlock f)
        | Some p \<Rightarrow> bindO (BofPoolOf_Reset turns st p) (\<lambda>(st, p). Ret (st, ff_unlock (f\<lparr>ff_mpInternalFifoStorage := Some p\<rparr>)))))"

section \<open>Threads that share a single list\<close>

text \<open>
  The threads, the items the clients hold, and what the threads have done to the list, last event first. A client calls
  \<^verbatim>\<open>InsertHead\<close> with an item it holds, or with a null pointer; it holds an item again when a call of \<^verbatim>\<open>RemoveHead\<close> has returned it.
\<close>

datatype sl_event = SlPushed nat nat | SlPopped nat nat | SlFoundEmpty nat

record sl_world =
  wl_mem :: "item_store \<times> BofSingleListOf"
  wl_pc :: "nat \<Rightarrow> sl_pc"
  wl_out :: "nat set"
  wl_events :: "sl_event list"

datatype sl_action = SlInsert nat "nat option" | SlRemove nat | SlRun nat bool | SlReturn nat

text \<open>The event of a step: the exchange that puts an item on the list, takes one off, or finds the list empty.\<close>

definition sl_event_of :: "nat \<Rightarrow> sl_pc \<Rightarrow> sl_event list" where
  "sl_event_of t pc =
     (case pc of InsCheck i tmp \<Rightarrow> [SlPushed t i]
      | RemTest old \<Rightarrow> (case old of Item i \<Rightarrow> [SlPopped t i] | _ \<Rightarrow> [SlFoundEmpty t])
      | _ \<Rightarrow> [])"

definition sl_act :: "sl_action \<Rightarrow> sl_world \<Rightarrow> sl_world option" where
  "sl_act a w =
     (case a of
        SlInsert t pItem \<Rightarrow>
          if wl_pc w t = SlIdle \<and> set_option pItem \<subseteq> wl_out w
          then Some (w\<lparr>wl_pc := (wl_pc w)(t := sl_InsertHead_start pItem), wl_out := wl_out w - set_option pItem\<rparr>) else None
      | SlRemove t \<Rightarrow>
          if wl_pc w t = SlIdle then Some (w\<lparr>wl_pc := (wl_pc w)(t := sl_RemoveHead_start)\<rparr>) else None
      | SlRun t spurious \<Rightarrow>
          (case wl_pc w t of SlIdle \<Rightarrow> None | InsRet b \<Rightarrow> None | RemRet r \<Rightarrow> None
           | pc \<Rightarrow> (case sl_step spurious (wl_mem w) pc of (m, pc') \<Rightarrow>
               Some (w\<lparr>wl_mem := m, wl_pc := (wl_pc w)(t := pc'), wl_events := sl_event_of t pc' @ wl_events w\<rparr>)))
      | SlReturn t \<Rightarrow>
          (case wl_pc w t of InsRet b \<Rightarrow> Some (w\<lparr>wl_pc := (wl_pc w)(t := SlIdle)\<rparr>)
           | RemRet r \<Rightarrow> Some (w\<lparr>wl_pc := (wl_pc w)(t := SlIdle), wl_out := wl_out w \<union> set_option r\<rparr>)
           | _ \<Rightarrow> None))"

definition sl_start :: "item_store \<Rightarrow> nat set \<Rightarrow> sl_world" where
  "sl_start st items = \<lparr>wl_mem = (st, BofSingleListOf_ctor), wl_pc = (\<lambda>_. SlIdle), wl_out = items, wl_events = []\<rparr>"

text \<open>The worlds that \<open>n\<close> actions can lead to.\<close>

inductive sl_reaches :: "sl_world \<Rightarrow> nat \<Rightarrow> sl_world \<Rightarrow> bool" for w0 where
  start: "sl_reaches w0 0 w0"
| act: "sl_reaches w0 n w \<Longrightarrow> sl_act a w = Some w' \<Longrightarrow> sl_reaches w0 (Suc n) w'"

end
