(* ===== verification/Bof_ListOf_Threads.thy ===== *)
theory Bof_ListOf_Threads
  imports Bof_ListOf
begin

text \<open>
  Threads that share a \<^verbatim>\<open>BofSingleListOf\<close>: whatever the interleaving of their steps, the list is a stack that changes
  only at the exchanges that succeed, and every item is in one place: on the list, with a client or
  with a thread. The tag counts the removals, so that an exchange of \<^verbatim>\<open>RemoveHead\<close> succeeds only when nothing was
  removed since it read the tag.
\<close>

section \<open>The stack of a history\<close>

fun sl_replay :: "sl_event list \<Rightarrow> nat list option" where
  "sl_replay [] = Some []"
| "sl_replay (SlPushed t i # es) = map_option (Cons i) (sl_replay es)"
| "sl_replay (SlPopped t i # es) = (case sl_replay es of Some (x # xs) \<Rightarrow> if x = i then Some xs else None | _ \<Rightarrow> None)"
| "sl_replay (SlFoundEmpty t # es) = (case sl_replay es of Some [] \<Rightarrow> Some [] | _ \<Rightarrow> None)"

primrec sl_thread :: "sl_event \<Rightarrow> nat" where
  "sl_thread (SlPushed t i) = t"
| "sl_thread (SlPopped t i) = t"
| "sl_thread (SlFoundEmpty t) = t"

definition sl_last :: "nat \<Rightarrow> sl_event list \<Rightarrow> sl_event option" where
  "sl_last t es = find (\<lambda>e. sl_thread e = t) es"

lemma sl_last_Cons [simp]: "sl_last t (e # es) = (if sl_thread e = t then Some e else sl_last t es)"
  by (simp add: sl_last_def)

text \<open>What a thread that is on its way back, or has returned, has done last.\<close>

fun sl_answers :: "nat \<Rightarrow> sl_event list \<Rightarrow> sl_pc \<Rightarrow> bool" where
  "sl_answers t es (InsCheck i tmp) \<longleftrightarrow> sl_last t es = Some (SlPushed t i)"
| "sl_answers t es InsCount \<longleftrightarrow> (\<exists>i. sl_last t es = Some (SlPushed t i))"
| "sl_answers t es InsMax \<longleftrightarrow> (\<exists>i. sl_last t es = Some (SlPushed t i))"
| "sl_answers t es (InsMaxTest n) \<longleftrightarrow> (\<exists>i. sl_last t es = Some (SlPushed t i))"
| "sl_answers t es InsMaxLoad \<longleftrightarrow> (\<exists>i. sl_last t es = Some (SlPushed t i))"
| "sl_answers t es (InsMaxStore n) \<longleftrightarrow> (\<exists>i. sl_last t es = Some (SlPushed t i))"
| "sl_answers t es (InsRet b) \<longleftrightarrow> (b \<longrightarrow> (\<exists>i. sl_last t es = Some (SlPushed t i)))"
| "sl_answers t es (RemTest old) \<longleftrightarrow> sl_last t es = Some (case old of Item i \<Rightarrow> SlPopped t i | _ \<Rightarrow> SlFoundEmpty t)"
| "sl_answers t es (RemCount i) \<longleftrightarrow> sl_last t es = Some (SlPopped t i)"
| "sl_answers t es (RemRet r) \<longleftrightarrow> sl_last t es = Some (case r of Some i \<Rightarrow> SlPopped t i | None \<Rightarrow> SlFoundEmpty t)"
| "sl_answers t es pc \<longleftrightarrow> True"

lemma sl_answers_other: "sl_answers t es pc \<Longrightarrow> sl_thread e \<noteq> t \<Longrightarrow> sl_answers t (e # es) pc"
  by (cases pc) auto

section \<open>The invariant\<close>

fun sl_chain :: "(nat \<Rightarrow> of_addr) \<Rightarrow> of_addr \<Rightarrow> nat list \<Rightarrow> bool" where
  "sl_chain nx p [] \<longleftrightarrow> p = SingleHead"
| "sl_chain nx p (x # xs) \<longleftrightarrow> p = Item x \<and> sl_chain nx (nx x) xs"

lemma sl_chain_upd [simp]: "i \<notin> set xs \<Longrightarrow> sl_chain (nx(i := a)) p xs = sl_chain nx p xs"
  by (induction xs arbitrary: p) auto

lemma sl_chain_SingleHead [simp]: "sl_chain nx SingleHead xs \<longleftrightarrow> xs = []"
  by (cases xs) auto

lemma sl_chain_Item: "sl_chain nx (Item i) xs \<longleftrightarrow> (\<exists>ys. xs = i # ys \<and> sl_chain nx (nx i) ys)"
  by (cases xs) auto

lemma sl_chain_no_DoubleHead [simp]: "\<not> sl_chain nx DoubleHead xs"
  by (cases xs) auto

text \<open>The item a thread holds: one it is about to put on the list, or has taken off.\<close>

fun sl_own :: "sl_pc \<Rightarrow> nat set" where
  "sl_own (InsLoad i) = {i}"
| "sl_own (InsLink i tmp) = {i}"
| "sl_own (InsCas i tmp) = {i}"
| "sl_own (RemTest old) = (case old of Item i \<Rightarrow> {i} | _ \<Rightarrow> {})"
| "sl_own (RemCount i) = {i}"
| "sl_own (RemRet r) = set_option r"
| "sl_own pc = {}"

text \<open>
  What a thread knows, after \<open>k\<close> removals, of the list \<open>xs\<close>: if nothing was removed since it read the tag, the item it
  found at the head is still on the list, with the same link.
\<close>

fun sl_local :: "nat \<Rightarrow> nat list \<Rightarrow> (nat \<Rightarrow> of_addr) \<Rightarrow> sl_pc \<Rightarrow> bool" where
  "sl_local k xs nx (InsCas i tmp) \<longleftrightarrow> nx i = tmp"
| "sl_local k xs nx (RemPtr tag) \<longleftrightarrow> (\<exists>j \<le> k. tag = of_nat j)"
| "sl_local k xs nx (RemNext tag old) \<longleftrightarrow>
     (\<exists>j \<le> k. tag = of_nat j \<and> (j = k \<longrightarrow> (case old of Item i \<Rightarrow> i \<in> set xs | SingleHead \<Rightarrow> True | DoubleHead \<Rightarrow> False)))"
| "sl_local k xs nx (RemCas tag old new) \<longleftrightarrow>
     (\<exists>j \<le> k. tag = of_nat j \<and> (j = k \<longrightarrow>
        (case old of Item i \<Rightarrow> i \<in> set xs \<and> nx i = new | SingleHead \<Rightarrow> xs = [] \<longrightarrow> new = SingleHead | DoubleHead \<Rightarrow> False)))"
| "sl_local k xs nx pc \<longleftrightarrow> True"

definition sl_ok :: "nat set \<Rightarrow> nat \<Rightarrow> nat list \<Rightarrow> (nat \<Rightarrow> of_addr) \<Rightarrow> of_addr \<Rightarrow> u64 \<Rightarrow> (nat \<Rightarrow> sl_pc) \<Rightarrow> nat set \<Rightarrow> sl_event list \<Rightarrow> bool" where
  "sl_ok items k xs nx ptr tag pcs out es \<longleftrightarrow>
     tag = of_nat k \<and> sl_chain nx ptr xs \<and> distinct xs \<and> sl_replay es = Some xs
     \<and> set xs \<inter> out = {} \<and> (\<forall>t. sl_own (pcs t) \<inter> (set xs \<union> out) = {})
     \<and> (\<forall>t u. t \<noteq> u \<longrightarrow> sl_own (pcs t) \<inter> sl_own (pcs u) = {})
     \<and> items = set xs \<union> out \<union> (\<Union>t. sl_own (pcs t))
     \<and> (\<forall>t. sl_local k xs nx (pcs t)) \<and> (\<forall>t. sl_answers t es (pcs t))"

lemma Union_upd: "(\<Union>u. f ((g(t := x)) u)) = f x \<union> (\<Union>u \<in> - {t}. f (g u))"
  by (auto split: if_splits)

lemma Union_split: "(\<Union>u. f (g u)) = f (g t) \<union> (\<Union>u \<in> - {t}. f (g u))"
  by auto

section \<open>The steps keep the invariant\<close>

text \<open>A step that moves one thread and leaves the list and the items where they are.\<close>

lemma sl_ok_silent:
  assumes "sl_ok items k xs nx ptr tag pcs out es" "sl_own pc = sl_own (pcs t)" "sl_local k xs nx pc" "sl_answers t es pc"
  shows "sl_ok items k xs nx ptr tag (pcs(t := pc)) out es"
proof -
  have "sl_own ((pcs(t := pc)) u) = sl_own (pcs u)" for u using assms(2) by simp
  then show ?thesis using assms unfolding sl_ok_def by auto
qed

lemma sl_local_link: "sl_local k xs nx pc \<Longrightarrow> i \<notin> set xs \<Longrightarrow> i \<notin> sl_own pc \<Longrightarrow> sl_local k xs (nx(i := a)) pc"
  by (cases pc) (auto split: of_addr.splits)

lemma sl_ok_link:
  assumes "sl_ok items k xs nx ptr tag pcs out es" "pcs t = InsLink i tmp"
  shows "sl_ok items k xs (nx(i := tmp)) ptr tag (pcs(t := InsCas i tmp)) out es"
proof -
  have i: "i \<notin> set xs" "\<And>u. u \<noteq> t \<Longrightarrow> i \<notin> sl_own (pcs u)"
    using assms unfolding sl_ok_def by (metis Int_iff empty_iff insertI1 sl_own.simps(2) UnCI)+
  have "sl_local k xs (nx(i := tmp)) ((pcs(t := InsCas i tmp)) u)" for u
    using assms(1) i sl_local_link [of k xs nx "pcs u" i tmp] by (auto simp: sl_ok_def)
  moreover have "sl_own ((pcs(t := InsCas i tmp)) u) = sl_own (pcs u)" for u using assms(2) by simp
  ultimately show ?thesis using assms(1) i(1) unfolding sl_ok_def by auto
qed


lemma sl_ok_others:
  assumes "sl_ok items k xs nx ptr tag pcs out es" "u \<noteq> t"
  shows "sl_own (pcs u) \<inter> sl_own (pcs t) = {}" "sl_own (pcs u) \<inter> set xs = {}" "sl_own (pcs u) \<inter> out = {}"
    "sl_local k xs nx (pcs u)" "sl_answers u es (pcs u)"
  using assms unfolding sl_ok_def by blast+

text \<open>
  A step that hands items from one place to another: it is enough to look at the thread that moves, at the list and at
  what the others know of it.
\<close>

lemma sl_ok_move:
  assumes ok: "sl_ok items k xs nx ptr tag pcs out es"
    and tag: "tag' = of_nat k'" "sl_chain nx ptr' xs'" "distinct xs'" "sl_replay es' = Some xs'"
    and own: "set xs' \<inter> out' = {}" "sl_own pc \<inter> (set xs' \<union> out') = {}"
      "set xs' \<union> out' \<union> sl_own pc = set xs \<union> out \<union> sl_own (pcs t)"
    and here: "sl_local k' xs' nx pc" "sl_answers t es' pc"
    and others: "\<And>u. u \<noteq> t \<Longrightarrow> sl_local k' xs' nx (pcs u)" "\<And>u. u \<noteq> t \<Longrightarrow> sl_answers u es' (pcs u)"
  shows "sl_ok items k' xs' nx ptr' tag' (pcs(t := pc)) out' es'"
proof -
  have o: "sl_own (pcs u) \<inter> (set xs' \<union> out' \<union> sl_own pc) = {}" if "u \<noteq> t" for u
    using sl_ok_others [OF ok that] unfolding own(3) by blast
  have u: "(\<Union>u. sl_own ((pcs(t := pc)) u)) = sl_own pc \<union> (\<Union>u \<in> - {t}. sl_own (pcs u))" by (rule Union_upd)
  have "items = set xs \<union> out \<union> sl_own (pcs t) \<union> (\<Union>u \<in> - {t}. sl_own (pcs u))"
    using ok Union_split [of sl_own pcs t] unfolding sl_ok_def by blast
  then have "items = set xs' \<union> out' \<union> (\<Union>u. sl_own ((pcs(t := pc)) u))" unfolding u own(3) [symmetric] by blast
  moreover have "sl_own ((pcs(t := pc)) u) \<inter> (set xs' \<union> out') = {}" for u using o [of u] own(2) by auto
  moreover have "sl_own ((pcs(t := pc)) u) \<inter> sl_own ((pcs(t := pc)) v) = {}" if "u \<noteq> v" for u v
    using o [of u] o [of v] that sl_ok_others(1) [OF ok] by auto
  ultimately show ?thesis using tag own(1) here others unfolding sl_ok_def by simp
qed

lemma sl_ok_push:
  assumes ok: "sl_ok items k xs nx ptr tag pcs out es" and pc: "pcs t = InsCas i ptr"
  shows "sl_ok items k (i # xs) nx (Item i) tag (pcs(t := InsCheck i ptr)) out (SlPushed t i # es)"
proof (rule sl_ok_move [OF ok])
  have "sl_own (pcs t) \<inter> (set xs \<union> out) = {}" "sl_local k xs nx (pcs t)" using ok unfolding sl_ok_def by blast+
  with pc have i: "i \<notin> set xs" "i \<notin> out" "nx i = ptr" by auto
  then show "distinct (i # xs)" "set (i # xs) \<inter> out = {}" "sl_chain nx (Item i) (i # xs)"
    using ok unfolding sl_ok_def by auto
  show "sl_local k (i # xs) nx (pcs u)" if "u \<noteq> t" for u
    using sl_ok_others(4) [OF ok that] by (cases "pcs u") (auto split: of_addr.splits)
qed (use ok pc sl_answers_other sl_ok_others(5) [OF ok] in \<open>auto simp: sl_ok_def\<close>)

lemma of_nat_u64_inj:
  assumes "j \<le> k" "k < 2 ^ LENGTH(64)" "(of_nat j :: u64) = of_nat k"
  shows "j = k"
proof -
  have "take_bit LENGTH(64) j = take_bit LENGTH(64) k" using assms(3) by (simp only: word_of_nat_eq_iff)
  moreover have "take_bit LENGTH(64) j = j" by (rule take_bit_nat_eq_self [OF le_less_trans [OF assms(1,2)]])
  moreover have "take_bit LENGTH(64) k = k" by (rule take_bit_nat_eq_self [OF assms(2)])
  ultimately show ?thesis by (simp only:)
qed

lemma sl_local_later:
  assumes "sl_local k xs nx pc"
  shows "sl_local (Suc k) ys nx pc"
proof -
  have "\<exists>j \<le> Suc k. tag = of_nat j \<and> (j = Suc k \<longrightarrow> Q)" if "\<exists>j \<le> k. tag = of_nat j \<and> P j" for tag :: u64 and P Q
    using that by (metis Suc_n_not_le_n le_SucI)
  then show ?thesis using assms by (cases pc) (fastforce simp only: sl_local.simps intro: le_SucI)+
qed

lemma sl_ok_pop:
  assumes ok: "sl_ok items k xs nx (Item i) tag pcs out es" and pc: "pcs t = RemCas tag (Item i) new" and k: "k < 2 ^ LENGTH(64)"
  shows "\<exists>ys. sl_ok items (Suc k) ys nx new (tag + 1) (pcs(t := RemTest (Item i))) out (SlPopped t i # es)"
proof -
  obtain ys where xs: "xs = i # ys" "sl_chain nx (nx i) ys" using ok unfolding sl_ok_def sl_chain_Item by blast
  have tag: "tag = of_nat k" and loc: "sl_local k xs nx (pcs t)" using ok unfolding sl_ok_def by blast+
  have new: "nx i = new" using loc of_nat_u64_inj [OF _ k] unfolding pc tag by auto
  have "sl_ok items (Suc k) ys nx new (tag + 1) (pcs(t := RemTest (Item i))) out (SlPopped t i # es)"
  proof (rule sl_ok_move [OF ok])
    show "sl_local (Suc k) ys nx (pcs u)" if "u \<noteq> t" for u
      using sl_ok_others(4) [OF ok that] by (rule sl_local_later)
  qed (use ok pc xs new tag sl_answers_other sl_ok_others(5) [OF ok] in \<open>auto simp: sl_ok_def add.commute\<close>)
  then show ?thesis ..
qed

lemma sl_ok_empty:
  assumes ok: "sl_ok items k xs nx SingleHead tag pcs out es" and pc: "pcs t = RemCas tag SingleHead new" and k: "k < 2 ^ LENGTH(64)"
  shows "sl_ok items (Suc k) xs nx new (tag + 1) (pcs(t := RemTest SingleHead)) out (SlFoundEmpty t # es)"
proof -
  have xs: "xs = []" and tag: "tag = of_nat k" and loc: "sl_local k xs nx (pcs t)" using ok unfolding sl_ok_def by auto
  have new: "new = SingleHead" using loc of_nat_u64_inj [OF _ k] unfolding pc tag xs by auto
  show ?thesis
  proof (rule sl_ok_move [OF ok])
    show "sl_local (Suc k) xs nx (pcs u)" if "u \<noteq> t" for u
      using sl_ok_others(4) [OF ok that] by (rule sl_local_later)
  qed (use ok pc xs new tag sl_answers_other sl_ok_others(5) [OF ok] in \<open>auto simp: sl_ok_def add.commute\<close>)
qed


section \<open>Worlds\<close>

definition sl_wok :: "nat set \<Rightarrow> nat \<Rightarrow> nat list \<Rightarrow> sl_world \<Rightarrow> bool" where
  "sl_wok items k xs w \<longleftrightarrow>
     sl_ok items k xs (it_pNextItem_X (fst (wl_mem w))) (sl_pNextItem_X (snd (wl_mem w))) (sl_Tag (snd (wl_mem w)))
       (wl_pc w) (wl_out w) (wl_events w)"

lemma sl_okD:
  assumes "sl_ok items k xs nx ptr tag pcs out es"
  shows "tag = of_nat k" "sl_chain nx ptr xs" "sl_local k xs nx (pcs t)" "sl_answers t es (pcs t)"
  using assms unfolding sl_ok_def by blast+

text \<open>The steps of \<^verbatim>\<open>RemoveHead\<close> before its exchange.\<close>

lemma sl_ok_read_tag:
  assumes ok: "sl_ok items k xs nx ptr tag pcs out es" and pc: "pcs t = RemTag"
  shows "sl_ok items k xs nx ptr tag (pcs(t := RemPtr tag)) out es"
  by (rule sl_ok_silent [OF ok]) (use pc sl_okD(1) [OF ok] in auto)

lemma sl_ok_read_ptr:
  assumes ok: "sl_ok items k xs nx ptr tag pcs out es" and pc: "pcs t = RemPtr tag'"
  shows "sl_ok items k xs nx ptr tag (pcs(t := RemNext tag' ptr)) out es"
proof (rule sl_ok_silent [OF ok])
  have "case ptr of Item i \<Rightarrow> i \<in> set xs | SingleHead \<Rightarrow> True | DoubleHead \<Rightarrow> False"
    using sl_okD(2) [OF ok] by (cases ptr) (auto simp: sl_chain_Item)
  then show "sl_local k xs nx (RemNext tag' ptr)" using sl_okD(3) [OF ok, of t] pc by auto
qed (use pc in auto)

lemma sl_ok_read_next:
  assumes ok: "sl_ok items k xs nx ptr tag pcs out es" and pc: "pcs t = RemNext tag' old"
  shows "sl_ok items k xs nx ptr tag (pcs(t := RemCas tag' old (case old of Item i \<Rightarrow> nx i | _ \<Rightarrow> ptr))) out es"
proof (rule sl_ok_silent [OF ok])
  have "ptr = SingleHead" if "xs = []" using sl_okD(2) [OF ok] that by simp
  then show "sl_local k xs nx (RemCas tag' old (case old of Item i \<Rightarrow> nx i | _ \<Rightarrow> ptr))"
    using sl_okD(3) [OF ok, of t] pc by (cases old) auto
qed (use pc in auto)

lemma sl_ok_take:
  assumes ok: "sl_ok items k xs nx old tag pcs out es" and pc: "pcs t = RemCas tag old new" and k: "k < 2 ^ LENGTH(64)"
  shows "\<exists>ys. sl_ok items (Suc k) ys nx new (tag + 1) (pcs(t := RemTest old)) out (sl_event_of t (RemTest old) @ es)"
proof (cases old)
  case SingleHead
  show ?thesis using sl_ok_empty [OF ok [unfolded SingleHead] pc [unfolded SingleHead] k] by (auto simp: SingleHead sl_event_of_def)
next
  case (Item i)
  show ?thesis using sl_ok_pop [OF ok [unfolded Item] pc [unfolded Item] k] by (auto simp: Item sl_event_of_def)
next
  case DoubleHead
  then show ?thesis using sl_okD(2) [OF ok] by simp
qed

lemma sl_run_ok:
  assumes ok: "sl_ok items k xs (it_pNextItem_X st) (sl_pNextItem_X l) (sl_Tag l) pcs out es" and k: "k < 2 ^ LENGTH(64)"
    and step: "sl_step spurious (st, l) (pcs t) = ((st', l'), pc)"
  shows "\<exists>k' ys. k' \<le> Suc k \<and> sl_ok items k' ys (it_pNextItem_X st') (sl_pNextItem_X l') (sl_Tag l') (pcs(t := pc)) out
      (sl_event_of t pc @ es)"
proof -
  note silent = sl_ok_silent [OF ok, of pc t]
  note d = sl_okD(3,4) [OF ok, of t]
  have fin: ?thesis if "sl_ok items k ys (it_pNextItem_X st') (sl_pNextItem_X l') (sl_Tag l') (pcs(t := pc)) out
      (sl_event_of t pc @ es)" for ys
    using that le_SucI [OF order.refl] by blast
  have stay: ?thesis if "it_pNextItem_X st' = it_pNextItem_X st" "sl_pNextItem_X l' = sl_pNextItem_X l" "sl_Tag l' = sl_Tag l"
    "sl_own pc = sl_own (pcs t)" "sl_local k xs (it_pNextItem_X st) pc" "sl_answers t es pc" "sl_event_of t pc = []"
    using silent that by (intro fin [of xs]) simp
  show ?thesis
  proof (cases "pcs t")
    case (InsLink i tmp)
    show ?thesis using step sl_ok_link [OF ok InsLink] by (intro fin [of xs]) (auto simp: sl_event_of_def InsLink)
  next
    case (InsCas i tmp)
    show ?thesis
    proof (cases "sl_pNextItem_X l = tmp \<and> \<not> spurious")
      case True
      with sl_ok_push [OF ok, of t i] InsCas step show ?thesis by (intro fin [of "i # xs"]) (auto simp: sl_event_of_def)
    next
      case False
      with step InsCas silent show ?thesis by (intro fin [of xs]) (auto simp: sl_event_of_def)
    qed
  next
    case (RemCas tag old new)
    show ?thesis
    proof (cases "sl_pNextItem_X l = old \<and> sl_Tag l = tag")
      case True
      then have e: "sl_pNextItem_X l = old" "tag = sl_Tag l" by simp_all
      from sl_ok_take [OF ok [unfolded e(1)] RemCas [unfolded e(2)] k] step True show ?thesis
        by (auto simp: RemCas intro!: exI [of _ "Suc k"])
    next
      case False
      with step RemCas silent show ?thesis by (intro fin [of xs]) (auto simp: sl_event_of_def)
    qed
  next
    case RemTag
    show ?thesis using step sl_ok_read_tag [OF ok RemTag] by (intro fin [of xs]) (auto simp: sl_event_of_def RemTag)
  next
    case (RemPtr tag)
    show ?thesis using step sl_ok_read_ptr [OF ok RemPtr] by (intro fin [of xs]) (auto simp: sl_event_of_def RemPtr)
  next
    case (RemNext tag old)
    show ?thesis using step sl_ok_read_next [OF ok RemNext]
      by (intro fin [of xs]) (auto simp: sl_event_of_def RemNext sl_next_def)
  next
    case (InsRet b)
    with step have "st' = st \<and> l' = l \<and> pc = InsRet b" by auto
    with d show ?thesis by (intro stay) (simp_all add: sl_event_of_def InsRet)
  next
    case (RemRet r)
    with step have "st' = st \<and> l' = l \<and> pc = RemRet r" by auto
    with d show ?thesis by (intro stay) (simp_all add: sl_event_of_def RemRet)
  next
    case (RemTest old)
    show ?thesis using step d silent by (intro fin [of xs], cases old) (auto simp: sl_event_of_def RemTest)
  qed (rule stay; use step d in \<open>auto simp: sl_event_of_def split: if_splits\<close>)+
qed


theorem sl_act_ok:
  assumes "sl_wok items k xs w" "sl_act a w = Some w'" "k < 2 ^ LENGTH(64)"
  shows "\<exists>k' ys. k' \<le> Suc k \<and> sl_wok items k' ys w'"
proof -
  note ok = assms(1) [unfolded sl_wok_def]
  have fin: ?thesis if "sl_wok items k xs w'" using that le_SucI [OF order.refl] by blast
  show ?thesis
  proof (cases a)
    case (SlInsert t pItem)
    with assms(2) have pc: "wl_pc w t = SlIdle" "set_option pItem \<subseteq> wl_out w"
      and w': "w' = w\<lparr>wl_pc := (wl_pc w)(t := sl_InsertHead_start pItem), wl_out := wl_out w - set_option pItem\<rparr>"
      by (simp_all add: sl_act_def split: if_splits)
    show ?thesis unfolding w'
      by (rule fin [unfolded w'], unfold sl_wok_def, simp, rule sl_ok_move [OF ok])
        (use ok pc sl_ok_others(4,5) [OF ok] in \<open>auto simp: sl_ok_def sl_InsertHead_start_def split: option.splits\<close>)
  next
    case (SlRemove t)
    with assms(2) have "wl_pc w t = SlIdle" "w' = w\<lparr>wl_pc := (wl_pc w)(t := RemTag)\<rparr>"
      by (simp_all add: sl_act_def sl_RemoveHead_start_def split: if_splits)
    with sl_ok_silent [OF ok, of RemTag t] show ?thesis by (intro fin) (simp add: sl_wok_def)
  next
    case (SlRun t spurious)
    obtain st l st' l' pc where m: "wl_mem w = (st, l)" "sl_step spurious (st, l) (wl_pc w t) = ((st', l'), pc)"
      by (metis surj_pair)
    with assms(2) SlRun have w': "w' = w\<lparr>wl_mem := (st', l'), wl_pc := (wl_pc w)(t := pc), wl_events := sl_event_of t pc @ wl_events w\<rparr>"
      by (auto simp: sl_act_def split: sl_pc.splits)
    show ?thesis using sl_run_ok [OF ok [unfolded m(1), simplified] assms(3) m(2)] by (simp add: sl_wok_def w')
  next
    case (SlReturn t)
    show ?thesis
    proof (cases "wl_pc w t")
      case (InsRet b)
      with SlReturn assms(2) have "w' = w\<lparr>wl_pc := (wl_pc w)(t := SlIdle)\<rparr>" by (simp add: sl_act_def)
      with sl_ok_silent [OF ok, of SlIdle t] InsRet show ?thesis by (intro fin) (simp add: sl_wok_def)
    next
      case (RemRet r)
      with SlReturn assms(2) have w': "w' = w\<lparr>wl_pc := (wl_pc w)(t := SlIdle), wl_out := wl_out w \<union> set_option r\<rparr>"
        by (simp add: sl_act_def)
      have "sl_own (wl_pc w t) \<inter> (set xs \<union> wl_out w) = {}" using ok unfolding sl_ok_def by blast
      then show ?thesis unfolding w'
        by (intro fin [unfolded w'], unfold sl_wok_def, simp, intro sl_ok_move [OF ok])
          (use ok RemRet sl_ok_others(4,5) [OF ok] in \<open>auto simp: sl_ok_def\<close>)
    qed (use SlReturn assms(2) in \<open>simp_all add: sl_act_def\<close>)
  qed
qed

lemma sl_start_ok: "sl_wok items 0 [] (sl_start st items)"
  by (simp add: sl_wok_def sl_ok_def sl_start_def BofSingleListOf_ctor_def)

theorem sl_reaches_ok:
  assumes "sl_reaches (sl_start st items) n w" "n \<le> 2 ^ LENGTH(64)"
  shows "\<exists>k \<le> n. \<exists>xs. sl_wok items k xs w"
  using assms
proof (induction n w rule: sl_reaches.induct)
  case start
  then show ?case using sl_start_ok by blast
next
  case (act n w a w')
  then obtain k xs where k: "k \<le> n" "sl_wok items k xs w" by auto
  moreover have "k < 2 ^ LENGTH(64)" using k(1) act.prems by linarith
  ultimately obtain k' ys where "k' \<le> Suc k" "sl_wok items k' ys w'" using sl_act_ok [OF _ act.hyps(2)] by blast
  with k(1) show ?case by (meson Suc_le_mono order.trans)
qed

section \<open>The counter\<close>

text \<open>
  \<^verbatim>\<open>InsertHead\<close> counts its item after its exchange, when another look at the head differs from what it replaced; \<^verbatim>\<open>RemoveHead\<close>
  discounts its item after its exchange. A step of \<^verbatim>\<open>InsertHead\<close> that finds there what it replaced gives the item up uncounted, although it is
  on the list or was: \<open>sl_counts w0 n m w\<close> says that \<open>n\<close> actions lead from \<open>w0\<close> to \<open>w\<close>, with \<open>m\<close> such steps among them.
\<close>

fun sl_uncounted :: "sl_pc \<Rightarrow> bool" where
  "sl_uncounted (InsCheck i tmp) = True"
| "sl_uncounted InsCount = True"
| "sl_uncounted pc = False"

fun sl_undiscounted :: "sl_pc \<Rightarrow> bool" where
  "sl_undiscounted (RemTest old) = (case old of Item i \<Rightarrow> True | _ \<Rightarrow> False)"
| "sl_undiscounted (RemCount i) = True"
| "sl_undiscounted pc = False"

definition sl_misjudges :: "of_addr \<Rightarrow> sl_pc \<Rightarrow> bool" where
  "sl_misjudges head pc \<longleftrightarrow> (case pc of InsCheck i tmp \<Rightarrow> head = tmp | _ \<Rightarrow> False)"

definition sl_misjudging :: "sl_action \<Rightarrow> sl_world \<Rightarrow> bool" where
  "sl_misjudging a w \<longleftrightarrow> (case a of SlRun t spurious \<Rightarrow> sl_misjudges (sl_pNextItem_X (snd (wl_mem w))) (wl_pc w t) | _ \<Rightarrow> False)"

inductive sl_counts :: "sl_world \<Rightarrow> nat \<Rightarrow> nat \<Rightarrow> sl_world \<Rightarrow> bool" for w0 where
  start: "sl_counts w0 0 0 w0"
| act: "sl_counts w0 n m w \<Longrightarrow> sl_act a w = Some w' \<Longrightarrow> sl_counts w0 (Suc n) (m + of_bool (sl_misjudging a w)) w'"

lemma sl_counts_reaches: "sl_counts w0 n m w \<Longrightarrow> sl_reaches w0 n w"
  by (induction rule: sl_counts.induct) (auto intro: sl_reaches.intros)

lemma card_upd:
  assumes "finite {u. P (f u)}"
  shows "finite {u. P ((f(t := x)) u)}"
    "of_nat (card {u. P ((f(t := x)) u)}) = (of_nat (card {u. P (f u)}) + of_bool (P x) - of_bool (P (f t)) :: u32)"
proof -
  let ?A = "{u. P (f u)}"
  have eq: "{u. P ((f(t := x)) u)} = (if P x then insert t (?A - {t}) else ?A - {t})" by auto
  then show "finite {u. P ((f(t := x)) u)}" using assms by simp
  define k where "k = card (?A - {t})"
  have a: "card ?A = k + of_bool (P (f t))"
    using assms card_Suc_Diff1 [of ?A t] by (cases "P (f t)") (simp_all add: k_def)
  have b: "card {u. P ((f(t := x)) u)} = k + of_bool (P x)"
    unfolding eq using assms card_insert_disjoint [of "?A - {t}" t] by (cases "P x") (simp_all add: k_def)
  show "of_nat (card {u. P ((f(t := x)) u)}) = (of_nat (card ?A) + of_bool (P x) - of_bool (P (f t)) :: u32)"
    unfolding a b by simp
qed

text \<open>One step: what it adds to the counter and to the stack of the history.\<close>

lemma sl_step_counts:
  assumes "sl_step spurious (st, l) pc = ((st', l'), pc')" "sl_replay es = Some xs" "sl_replay (sl_event_of t pc' @ es) = Some ys"
    "\<not> (\<exists>b. pc = InsRet b)" "\<not> (\<exists>r. pc = RemRet r)" "pc \<noteq> SlIdle"
  shows "sl_mNbItemAvailable l' = sl_mNbItemAvailable l + of_bool (sl_uncounted pc) - of_bool (sl_uncounted pc')
    + of_bool (sl_undiscounted pc') - of_bool (sl_undiscounted pc)
    + of_nat (length ys) - of_nat (length xs) - of_bool (sl_misjudges (sl_pNextItem_X l) pc)"
proof (cases pc)
  case (RemCas tag old new)
  show ?thesis
  proof (cases "sl_pNextItem_X l = old \<and> sl_Tag l = tag")
    case True
    then have "sl_step spurious (st, l) pc = ((st, l\<lparr>sl_pNextItem_X := new, sl_Tag := tag + 1\<rparr>), RemTest old)" by (simp add: RemCas)
    then have "pc' = RemTest old" "l' = l\<lparr>sl_pNextItem_X := new, sl_Tag := tag + 1\<rparr>" using assms(1) by simp_all
    then have s: "pc' = RemTest old" "sl_mNbItemAvailable l' = sl_mNbItemAvailable l" by simp_all
    show ?thesis
    proof (cases "\<exists>i. old = Item i")
      case True
      then have "length xs = Suc (length ys)"
        using assms(2,3) s(1) by (cases xs) (auto simp: sl_event_of_def split: if_splits)
      then show ?thesis using True s RemCas by (auto simp: sl_misjudges_def)
    next
      case False
      then have "xs = ys" using assms(2,3) s(1) by (cases old; cases xs) (simp_all add: sl_event_of_def)
      then show ?thesis using False s RemCas by (cases old) (simp_all add: sl_misjudges_def)
    qed
  next
    case False
    then have "pc' = RemTag" "l' = l" using assms(1) RemCas by auto
    then show ?thesis using assms(2,3) RemCas by (simp add: sl_event_of_def sl_misjudges_def)
  qed
next
  case (RemTest old)
  then show ?thesis using assms(1-3) by (cases old) (auto simp: sl_event_of_def sl_misjudges_def)
qed (use assms in \<open>auto simp: sl_event_of_def sl_misjudges_def split: if_splits\<close>)

definition sl_count_ok :: "nat \<Rightarrow> nat list \<Rightarrow> sl_world \<Rightarrow> bool" where
  "sl_count_ok m xs w \<longleftrightarrow> finite {t. sl_uncounted (wl_pc w t)} \<and> finite {t. sl_undiscounted (wl_pc w t)} \<and>
     sl_mNbItemAvailable (snd (wl_mem w)) = of_nat (length xs) - of_nat m
       - of_nat (card {t. sl_uncounted (wl_pc w t)}) + of_nat (card {t. sl_undiscounted (wl_pc w t)})"

lemma sl_act_counts:
  assumes "sl_count_ok m xs w" "sl_act a w = Some w'" "sl_replay (wl_events w) = Some xs" "sl_replay (wl_events w') = Some ys"
  shows "sl_count_ok (m + of_bool (sl_misjudging a w)) ys w'"
proof -
  note f = assms(1) [unfolded sl_count_ok_def, THEN conjunct1] assms(1) [unfolded sl_count_ok_def, THEN conjunct2, THEN conjunct1]
  note u = card_upd [of sl_uncounted, OF f(1)] card_upd [of sl_undiscounted, OF f(2)]
  have stay: ?thesis if "wl_mem w' = wl_mem w" "wl_events w' = wl_events w" "wl_pc w' = (wl_pc w)(t := pc')" "\<not> sl_misjudging a w"
    "\<not> sl_uncounted pc'" "\<not> sl_undiscounted pc'" "\<not> sl_uncounted (wl_pc w t)" "\<not> sl_undiscounted (wl_pc w t)" for t pc'
    using assms(1,3,4) u [where t = t and x = pc'] that unfolding sl_count_ok_def by simp
  show ?thesis
  proof (cases a)
    case (SlInsert t pItem)
    with assms(2) show ?thesis
      by (intro stay [of t "sl_InsertHead_start pItem"])
        (auto simp: sl_act_def sl_misjudging_def sl_InsertHead_start_def split: if_splits option.splits)
  next
    case (SlRemove t)
    with assms(2) show ?thesis
      by (intro stay [of t RemTag]) (auto simp: sl_act_def sl_misjudging_def sl_RemoveHead_start_def split: if_splits)
  next
    case (SlReturn t)
    with assms(2) show ?thesis
      by (intro stay [of t SlIdle]) (auto simp: sl_act_def sl_misjudging_def split: sl_pc.splits)
  next
    case (SlRun t spurious)
    obtain st l st' l' pc where m: "wl_mem w = (st, l)" "sl_step spurious (st, l) (wl_pc w t) = ((st', l'), pc)"
      by (metis surj_pair)
    with assms(2) SlRun have w': "w' = w\<lparr>wl_mem := (st', l'), wl_pc := (wl_pc w)(t := pc), wl_events := sl_event_of t pc @ wl_events w\<rparr>"
      and pc: "\<not> (\<exists>b. wl_pc w t = InsRet b)" "\<not> (\<exists>r. wl_pc w t = RemRet r)" "wl_pc w t \<noteq> SlIdle"
      by (auto simp: sl_act_def split: sl_pc.splits)
    have "sl_replay (sl_event_of t pc @ wl_events w) = Some ys" using assms(4) w' by simp
    note s = sl_step_counts [OF m(2) assms(3) this pc]
    have c: "sl_mNbItemAvailable l = of_nat (length xs) - of_nat m - of_nat (card {t. sl_uncounted (wl_pc w t)})
        + of_nat (card {t. sl_undiscounted (wl_pc w t)})" using assms(1) m(1) by (simp add: sl_count_ok_def)
    have "wl_pc w' = (wl_pc w)(t := pc)" "snd (wl_mem w') = l'" by (simp_all add: w')
    moreover have "sl_misjudging a w = sl_misjudges (sl_pNextItem_X l) (wl_pc w t)" by (simp add: SlRun sl_misjudging_def m(1))
    ultimately show ?thesis unfolding sl_count_ok_def by (simp only: u s c of_nat_add of_nat_of_bool) (simp add: algebra_simps)
  qed
qed

lemma sl_counts_ok:
  assumes "sl_counts (sl_start st items) n m w" "n \<le> 2 ^ LENGTH(64)"
  shows "\<exists>k xs. sl_wok items k xs w \<and> sl_count_ok m xs w"
  using assms
proof (induction n m w rule: sl_counts.induct)
  case start
  have "sl_count_ok 0 [] (sl_start st items)" by (simp add: sl_count_ok_def sl_start_def BofSingleListOf_ctor_def)
  then show ?case using sl_start_ok by blast
next
  case (act n m w a w')
  then obtain k xs where k: "sl_wok items k xs w" "sl_count_ok m xs w" by auto
  have "sl_counts (sl_start st items) (Suc n) (m + of_bool (sl_misjudging a w)) w'" by (rule sl_counts.act [OF act.hyps(1,2)])
  from sl_reaches_ok [OF sl_counts_reaches [OF this] act.prems] obtain k' ys where k': "sl_wok items k' ys w'" by blast
  have "sl_replay (wl_events w) = Some xs" "sl_replay (wl_events w') = Some ys" using k(1) k' by (simp_all add: sl_wok_def sl_ok_def)
  with sl_act_counts [OF k(2) act.hyps(2)] k' show ?case by blast
qed


end
