(* ===== verification/Bof_ListOf_Proofs.thy ===== *)
theory Bof_ListOf_Proofs
  imports Bof_ListOf Bof_Pool_Spec Bof_Fifo_Spec
begin

text \<open>
  The lists, the pool and the queue used by one thread at a time: what the calls do when nobody interferes, and the
  two contracts the pool and the queue with its own storage fulfil.
\<close>

unbundle bit_operations_syntax

section \<open>Chains of links\<close>

text \<open>The links \<open>nx\<close> lead from \<open>p\<close> through the items \<open>xs\<close> to the head \<open>e\<close> of the list.\<close>

fun of_chain :: "of_addr \<Rightarrow> (nat \<Rightarrow> of_addr) \<Rightarrow> of_addr \<Rightarrow> nat list \<Rightarrow> bool" where
  "of_chain e nx p [] \<longleftrightarrow> p = e"
| "of_chain e nx p (x # xs) \<longleftrightarrow> p = Item x \<and> of_chain e nx (nx x) xs"

lemma of_chain_upd [simp]: "i \<notin> set xs \<Longrightarrow> of_chain e (nx(i := a)) p xs = of_chain e nx p xs"
  by (induction xs arbitrary: p) auto

lemma of_chain_other: "of_chain e nx p ys \<Longrightarrow> (\<And>i. i \<in> set ys \<Longrightarrow> nx' i = nx i) \<Longrightarrow> of_chain e nx' p ys"
  by (induction ys arbitrary: p) auto

lemma of_chain_snoc: "of_chain e nx p (xs @ [i]) \<Longrightarrow> distinct (xs @ [i]) \<Longrightarrow> of_chain (Item i) nx p xs \<and> nx i = e"
  by (induction xs arbitrary: p) auto

lemma of_chain_extend: "of_chain (Item i) nx p xs \<Longrightarrow> nx i = e \<Longrightarrow> of_chain e nx p (xs @ [i])"
  by (induction xs arbitrary: p) auto

text \<open>Another end for a chain: the last item, if there is one, is given another link.\<close>

lemma of_chain_redirect:
  "of_chain e nx p (xs @ [j]) \<Longrightarrow> distinct (xs @ [j]) \<Longrightarrow> of_chain e' (nx(j := e')) p (xs @ [j])"
  by (induction xs arbitrary: p) auto

section \<open>The single list\<close>

lemma sl_alone_10:
  "sl_alone 10 sl pc = sl_alone (Suc (Suc (Suc (Suc (Suc (Suc (Suc (Suc (Suc (Suc 0)))))))))) sl pc"
  by (simp add: numeral_eq_Suc)

definition sl_pushed :: "BofSingleListOf \<Rightarrow> nat \<Rightarrow> BofSingleListOf" where
  "sl_pushed l i = l\<lparr>sl_pNextItem_X := Item i, sl_mNbItemAvailable := sl_mNbItemAvailable l + 1,
     sl_mNbMaxItemAvailable := max (sl_mNbMaxItemAvailable l) (sl_mNbItemAvailable l + 1)\<rparr>"

lemma InsertHead_alone:
  assumes "sl_pNextItem_X l \<noteq> Item i"
  shows "BofSingleListOf_InsertHead st l (Some i)
    = Ret (st\<lparr>it_pNextItem_X := (it_pNextItem_X st)(i := sl_pNextItem_X l)\<rparr>, sl_pushed l i, True)"
  using assms by (cases l) (auto simp: BofSingleListOf_InsertHead_def sl_InsertHead_start_def sl_alone_10 sl_pushed_def max_def)

lemma RemoveHead_alone:
  "BofSingleListOf_RemoveHead st l =
     (case sl_pNextItem_X l of
        Item i \<Rightarrow> Ret (l\<lparr>sl_pNextItem_X := it_pNextItem_X st i, sl_Tag := sl_Tag l + 1,
                    sl_mNbItemAvailable := sl_mNbItemAvailable l - 1\<rparr>, Some i)
      | _ \<Rightarrow> Ret (l\<lparr>sl_Tag := sl_Tag l + 1\<rparr>, None))"
  by (cases l) (simp add: BofSingleListOf_RemoveHead_def sl_RemoveHead_start_def sl_alone_10 sl_next_def split: of_addr.split)

definition sl_holds :: "item_store \<Rightarrow> BofSingleListOf \<Rightarrow> nat list \<Rightarrow> bool" where
  "sl_holds st l xs \<longleftrightarrow>
     of_chain SingleHead (it_pNextItem_X st) (sl_pNextItem_X l) xs \<and> distinct xs \<and> sl_mNbItemAvailable l = of_nat (length xs)"

lemma sl_holds_push:
  assumes "sl_holds st l xs" "i \<notin> set xs"
  shows "\<exists>l'. BofSingleListOf_InsertHead st l (Some i)
      = Ret (st\<lparr>it_pNextItem_X := (it_pNextItem_X st)(i := sl_pNextItem_X l)\<rparr>, l', True)
    \<and> sl_holds (st\<lparr>it_pNextItem_X := (it_pNextItem_X st)(i := sl_pNextItem_X l)\<rparr>) l' (i # xs)"
proof -
  have "sl_pNextItem_X l \<noteq> Item i" using assms by (cases xs) (auto simp: sl_holds_def)
  from InsertHead_alone [OF this] show ?thesis
    using assms by (auto simp: sl_holds_def sl_pushed_def)
qed

lemma sl_holds_pop:
  assumes "sl_holds st l (i # xs)"
  shows "\<exists>l'. BofSingleListOf_RemoveHead st l = Ret (l', Some i) \<and> sl_holds st l' xs"
  using assms by (auto simp: sl_holds_def RemoveHead_alone)

lemma sl_holds_empty:
  assumes "sl_holds st l []"
  shows "\<exists>l'. BofSingleListOf_RemoveHead st l = Ret (l', None) \<and> sl_holds st l' []"
  using assms by (auto simp: sl_holds_def RemoveHead_alone)

lemma sl_holds_state [simp]: "sl_holds (item_set_state st i v) l xs = sl_holds st l xs"
  by (simp add: sl_holds_def item_set_state_def)

text \<open>Links and states of items that are not on the list do not matter.\<close>

lemma sl_holds_other:
  assumes "sl_holds st l xs" "\<And>i. i \<in> set xs \<Longrightarrow> it_pNextItem_X st' i = it_pNextItem_X st i"
  shows "sl_holds st' l xs"
  using assms of_chain_other unfolding sl_holds_def by blast

lemma sl_remove_all_ok: "sl_holds st l xs \<Longrightarrow> length xs < n \<Longrightarrow> \<exists>l'. sl_remove_all n st l = Ret l' \<and> sl_holds st l' []"
proof (induction n arbitrary: l xs)
  case (Suc n)
  show ?case
  proof (cases xs)
    case Nil
    with sl_holds_empty Suc.prems(1) show ?thesis by fastforce
  next
    case (Cons i ys)
    with sl_holds_pop Suc.prems(1) obtain l' where "BofSingleListOf_RemoveHead st l = Ret (l', Some i)" "sl_holds st l' ys" by blast
    with Suc.IH [of l' ys] Suc.prems(2) Cons show ?thesis by simp
  qed
qed simp


section \<open>The pool\<close>

lemma po_insert_all_ok:
  assumes "sl_holds st l xs" "\<forall>j. i \<le> j \<longrightarrow> j \<notin> set xs"
  shows "\<exists>st' l'. po_insert_all n free i st l = Ret (st', l') \<and> sl_holds st' l' (rev [i..<i + n] @ xs)
    \<and> it_State_E st' = (if free then (\<lambda>j. if i \<le> j \<and> j < i + n then ITEM_STATE_FREE else it_State_E st j) else it_State_E st)"
  using assms
proof (induction n arbitrary: i st l xs)
  case (Suc n)
  let ?st = "if free then item_set_state st i ITEM_STATE_FREE else st"
  have "sl_holds ?st l xs" using Suc.prems(1) by simp
  from sl_holds_push [OF this, of i] Suc.prems(2) obtain st1 l1 where
    ins: "BofSingleListOf_InsertHead ?st l (Some i) = Ret (st1, l1, True)" "sl_holds st1 l1 (i # xs)" "it_State_E st1 = it_State_E ?st"
    by auto
  from Suc.IH [OF ins(2), of "Suc i"] Suc.prems(2) obtain st2 l2 where
    rest: "po_insert_all n free (Suc i) st1 l1 = Ret (st2, l2)" "sl_holds st2 l2 (rev [Suc i..<Suc i + n] @ i # xs)"
      "it_State_E st2 = (if free then (\<lambda>j. if Suc i \<le> j \<and> j < Suc i + n then ITEM_STATE_FREE else it_State_E st1 j) else it_State_E st1)"
    by (auto simp: Suc_le_eq)
  have "rev [i..<i + Suc n] @ xs = rev [Suc i..<Suc i + n] @ i # xs" by (simp add: upt_conv_Cons del: upt_Suc)
  moreover have "it_State_E st2 = (if free then (\<lambda>j. if i \<le> j \<and> j < i + Suc n then ITEM_STATE_FREE else it_State_E st j) else it_State_E st)"
    using rest(3) ins(3) by (auto simp: item_set_state_def fun_eq_iff)
  ultimately show ?case using ins(1) rest by (simp add: Let_def)
qed (auto simp: fun_eq_iff)

definition po_ok :: "item_store \<Rightarrow> BofPoolOf \<Rightarrow> nat list \<Rightarrow> bool" where
  "po_ok st p xs \<longleftrightarrow>
     sl_holds st (po_mItemList p) xs \<and> set xs \<subseteq> {..<unat (po_mMaxNumberOfItemInPool_U32 p)}
     \<and> po_mMaxNumberOfItemInPool_U32 p \<le> 0x80000000
     \<and> (\<forall>i. it_State_E st i = (if i < unat (po_mMaxNumberOfItemInPool_U32 p) \<and> i \<notin> set xs then ITEM_STATE_TAKEN else ITEM_STATE_FREE))"

lemma po_ok_length:
  assumes "po_ok st p xs"
  shows "length xs \<le> unat (po_mMaxNumberOfItemInPool_U32 p)" "length xs \<le> 2 ^ 31"
proof -
  have "card (set xs) \<le> card {..<unat (po_mMaxNumberOfItemInPool_U32 p)}"
    using assms unfolding po_ok_def by (intro card_mono) auto
  then show l: "length xs \<le> unat (po_mMaxNumberOfItemInPool_U32 p)"
    using assms by (simp add: po_ok_def sl_holds_def distinct_card)
  have "unat (po_mMaxNumberOfItemInPool_U32 p) \<le> 2 ^ 31" using assms by (simp add: po_ok_def word_le_nat_alt)
  with l show "length xs \<le> 2 ^ 31" by simp
qed

lemma sign_bit_clear: "k < 2 ^ 31 \<Longrightarrow> (of_nat k :: u32) AND 0x80000000 = 0"
proof -
  assume "k < 2 ^ 31"
  then have "\<not> bit k 31" by (simp add: bit_iff_odd)
  then have "\<not> bit (of_nat k :: u32) 31" by (simp add: bit_simps)
  then have "(of_nat k :: u32) AND 2 ^ 31 = 0" by (simp only: and_exp_eq_0_iff_not_bit not_False_eq_True)
  then show ?thesis by simp
qed

lemma FREE_TAKEN [simp]: "ITEM_STATE_TAKEN \<noteq> ITEM_STATE_FREE" "ITEM_STATE_FREE \<noteq> ITEM_STATE_TAKEN"
  by (simp_all add: ITEM_STATE_FREE_def ITEM_STATE_TAKEN_def)

lemma po_ok_get:
  assumes "po_ok st p (i # xs)"
  shows "\<exists>p'. BofPoolOf_GetItem ndebug st p = Ret (item_set_state st i ITEM_STATE_TAKEN, p', Some i)
    \<and> po_ok (item_set_state st i ITEM_STATE_TAKEN) p' xs \<and> po_mMaxNumberOfItemInPool_U32 p' = po_mMaxNumberOfItemInPool_U32 p"
proof -
  have "length xs < 2 ^ 31" using po_ok_length(2) [OF assms] by simp
  then have s: "(of_nat (length xs) :: u32) AND 0x80000000 = 0" by (rule sign_bit_clear)
  obtain l' where l': "BofSingleListOf_RemoveHead st (po_mItemList p) = Ret (l', Some i)" "sl_holds st l' xs"
    using assms sl_holds_pop [of st "po_mItemList p" i xs] by (auto simp: po_ok_def)
  have "i \<notin> set xs" "it_State_E st i = ITEM_STATE_FREE" "i < unat (po_mMaxNumberOfItemInPool_U32 p)"
    using assms by (auto simp: po_ok_def sl_holds_def)
  moreover have "sl_mNbItemAvailable l' = of_nat (length xs)" using l'(2) by (simp add: sl_holds_def)
  ultimately show ?thesis using l' s assms
    by (auto simp: BofPoolOf_GetItem_def BofSingleListOf_GetNbItemAvailable_def assert_c_def Let_def po_ok_def item_set_state_def
        sl_holds_def)
qed

lemma po_ok_get_none:
  assumes "po_ok st p []"
  shows "\<exists>p'. BofPoolOf_GetItem ndebug st p = Ret (st, p', None) \<and> po_ok st p' []
    \<and> po_mMaxNumberOfItemInPool_U32 p' = po_mMaxNumberOfItemInPool_U32 p"
  using assms sl_holds_empty [of st "po_mItemList p"] by (auto simp: BofPoolOf_GetItem_def po_ok_def)

text \<open>An item that is out is put back; its links are those of the free list from then on.\<close>

lemma po_ok_release:
  assumes "po_ok st p xs" "i < unat (po_mMaxNumberOfItemInPool_U32 p)" "i \<notin> set xs"
  shows "\<exists>st' p'. BofPoolOf_ReleaseItem ndebug st p (Some i) = Ret (st', p', True) \<and> po_ok st' p' (i # xs)
    \<and> po_mMaxNumberOfItemInPool_U32 p' = po_mMaxNumberOfItemInPool_U32 p
    \<and> (\<forall>j. j \<noteq> i \<longrightarrow> it_pNextItem_X st' j = it_pNextItem_X st j) \<and> it_pPrevItem_X st' = it_pPrevItem_X st"
proof -
  let ?n = "po_mMaxNumberOfItemInPool_U32 p" and ?st = "item_set_state st i ITEM_STATE_FREE"
  have "sl_holds ?st (po_mItemList p) xs" using assms(1) by (simp add: po_ok_def)
  from sl_holds_push [OF this assms(3)] obtain l' where
    l': "BofSingleListOf_InsertHead ?st (po_mItemList p) (Some i)
        = Ret (?st\<lparr>it_pNextItem_X := (it_pNextItem_X ?st)(i := sl_pNextItem_X (po_mItemList p))\<rparr>, l', True)"
      "sl_holds (?st\<lparr>it_pNextItem_X := (it_pNextItem_X ?st)(i := sl_pNextItem_X (po_mItemList p))\<rparr>) l' (i # xs)" by blast
  have t: "it_State_E st i = ITEM_STATE_TAKEN" using assms by (simp add: po_ok_def)
  have "card (set (i # xs)) \<le> card {..<unat ?n}" using assms by (intro card_mono) (auto simp: po_ok_def)
  then have "length (i # xs) \<le> unat ?n" using assms by (simp add: po_ok_def sl_holds_def distinct_card card_insert_if)
  then have "(of_nat (length (i # xs)) :: u32) \<le> ?n" by (simp only: word_le_nat_alt unat_of_nat_le)
  then have "sl_mNbItemAvailable l' \<le> ?n" using l'(2) by (simp only: sl_holds_def)
  with l' t assms show ?thesis
    by (auto simp: BofPoolOf_ReleaseItem_def BofSingleListOf_GetNbItemAvailable_def assert_c_def Let_def po_ok_def)
      (auto simp: item_set_state_def)
qed

lemma po_ok_refuse:
  assumes "po_ok st p xs" "\<not> (i < unat (po_mMaxNumberOfItemInPool_U32 p) \<and> i \<notin> set xs)"
  shows "BofPoolOf_ReleaseItem ndebug st p (Some i) = (if ndebug then Ret (st, p, False) else AssertFailed)"
proof -
  have "it_State_E st i = ITEM_STATE_FREE" using assms by (auto simp: po_ok_def)
  moreover from this have "item_set_state st i ITEM_STATE_FREE = st" by (simp add: item_set_state_def fun_upd_idem)
  ultimately show ?thesis by (simp add: BofPoolOf_ReleaseItem_def assert_c_def Let_def)
qed

lemma po_ctor_ok:
  assumes "nb \<le> 0x80000000" "\<forall>i \<ge> unat nb. it_State_E st i = ITEM_STATE_FREE"
  shows "\<exists>st' p. BofPoolOf_ctor st nb = Ret (st', p) \<and> po_ok st' p (rev [0..<unat nb]) \<and> po_mMaxNumberOfItemInPool_U32 p = nb"
proof -
  let ?st = "st\<lparr>it_State_E := (\<lambda>i. if i < unat nb then ITEM_STATE_FREE else it_State_E st i)\<rparr>"
  have "sl_holds ?st BofSingleListOf_ctor []" by (simp add: sl_holds_def BofSingleListOf_ctor_def)
  from po_insert_all_ok [OF this, of 0 "unat nb" False] obtain st' l' where
    "po_insert_all (unat nb) False 0 ?st BofSingleListOf_ctor = Ret (st', l')" "sl_holds st' l' (rev [0..<unat nb])"
    "it_State_E st' = it_State_E ?st" by auto
  with assms show ?thesis by (auto simp: BofPoolOf_ctor_def po_ok_def Let_def)
qed


text \<open>The pool of a build without assertions, as the contract has it.\<close>

definition po_out :: "item_store \<times> BofPoolOf \<Rightarrow> nat set" where
  "po_out s = {i. i < unat (po_mMaxNumberOfItemInPool_U32 (snd s)) \<and> it_State_E (fst s) i = ITEM_STATE_TAKEN}"

definition po_cap :: "item_store \<times> BofPoolOf \<Rightarrow> nat" where
  "po_cap s = unat (po_mMaxNumberOfItemInPool_U32 (snd s))"

definition po_inv :: "item_store \<times> BofPoolOf \<Rightarrow> bool" where
  "po_inv s \<longleftrightarrow> (\<exists>xs. po_ok (fst s) (snd s) xs)"

definition po_get :: "item_store \<times> BofPoolOf \<Rightarrow> ((item_store \<times> BofPoolOf) \<times> nat option) outcome" where
  "po_get s = bindO (BofPoolOf_GetItem True (fst s) (snd s)) (\<lambda>(st, p, r). Ret ((st, p), r))"

definition po_release :: "nat \<Rightarrow> item_store \<times> BofPoolOf \<Rightarrow> ((item_store \<times> BofPoolOf) \<times> BOFERR) outcome" where
  "po_release i s = bindO (BofPoolOf_ReleaseItem True (fst s) (snd s) (Some i)) (\<lambda>(st, p, b).
     Ret ((st, p), if b then BOF_ERR_NO_ERROR else BOF_ERR_OPERATION_FAILED))"

lemma po_out_eq: "po_ok st p xs \<Longrightarrow> po_out (st, p) = {..<po_cap (st, p)} - set xs"
  by (auto simp: po_ok_def po_out_def po_cap_def)

lemma po_get_some:
  assumes "po_inv s" "po_out s \<noteq> {..<po_cap s}"
  shows "\<exists>s' i. po_get s = Ret (s', Some i) \<and> po_inv s' \<and> po_cap s' = po_cap s \<and> i < po_cap s \<and> i \<notin> po_out s
    \<and> po_out s' = insert i (po_out s)"
proof -
  obtain st p xs where s: "s = (st, p)" "po_ok st p xs" using assms(1) by (cases s) (auto simp: po_inv_def)
  then have "xs \<noteq> []" using assms(2) po_out_eq by auto
  then obtain i ys where xs: "xs = i # ys" by (cases xs) auto
  from po_ok_get [OF s(2) [unfolded xs]] obtain p' where
    p': "BofPoolOf_GetItem True st p = Ret (item_set_state st i ITEM_STATE_TAKEN, p', Some i)"
      "po_ok (item_set_state st i ITEM_STATE_TAKEN) p' ys" "po_mMaxNumberOfItemInPool_U32 p' = po_mMaxNumberOfItemInPool_U32 p" by blast
  have i: "i < po_cap s" "i \<notin> set ys" using s xs by (auto simp: po_ok_def po_cap_def sl_holds_def)
  with p' s xs po_out_eq [OF s(2)] po_out_eq [OF p'(2)] show ?thesis
    by (auto simp: po_get_def po_inv_def po_cap_def)
qed

lemma po_get_none:
  assumes "po_inv s" "po_out s = {..<po_cap s}"
  shows "\<exists>s'. po_get s = Ret (s', None) \<and> po_inv s' \<and> po_cap s' = po_cap s \<and> po_out s' = po_out s"
proof -
  obtain st p xs where s: "s = (st, p)" "po_ok st p xs" using assms(1) by (cases s) (auto simp: po_inv_def)
  moreover have "set xs \<subseteq> {..<po_cap s}" using s by (simp add: po_ok_def po_cap_def)
  ultimately have "xs = []" using assms(2) po_out_eq [OF s(2)] by (cases xs) auto
  with s po_ok_get_none [of st p True] show ?thesis by (auto simp: po_get_def po_inv_def po_cap_def po_out_def)
qed

lemma po_release_ok:
  assumes "po_inv s"
  shows "i \<in> po_out s \<Longrightarrow> \<exists>s'. po_release i s = Ret (s', BOF_ERR_NO_ERROR) \<and> po_inv s' \<and> po_cap s' = po_cap s \<and> po_out s' = po_out s - {i}"
    and "i \<notin> po_out s \<Longrightarrow> \<exists>s'. po_release i s = Ret (s', BOF_ERR_OPERATION_FAILED) \<and> po_inv s' \<and> po_cap s' = po_cap s \<and> po_out s' = po_out s"
proof -
  obtain st p xs where s: "s = (st, p)" "po_ok st p xs" using assms by (cases s) (auto simp: po_inv_def)
  show "\<exists>s'. po_release i s = Ret (s', BOF_ERR_NO_ERROR) \<and> po_inv s' \<and> po_cap s' = po_cap s \<and> po_out s' = po_out s - {i}"
    if "i \<in> po_out s"
  proof -
    have i: "i < unat (po_mMaxNumberOfItemInPool_U32 p)" "i \<notin> set xs"
      using that po_out_eq [OF s(2)] by (auto simp: s po_cap_def)
    from po_ok_release [OF s(2) i, of True] obtain st' p' where
      "BofPoolOf_ReleaseItem True st p (Some i) = Ret (st', p', True)" "po_ok st' p' (i # xs)"
      "po_mMaxNumberOfItemInPool_U32 p' = po_mMaxNumberOfItemInPool_U32 p" by blast
    moreover from po_out_eq [OF this(2)] this(3) have "po_out (st', p') = po_out s - {i}"
      using po_out_eq [OF s(2)] by (auto simp: s po_cap_def)
    ultimately show ?thesis by (auto simp: po_release_def po_inv_def po_cap_def s)
  qed
  show "\<exists>s'. po_release i s = Ret (s', BOF_ERR_OPERATION_FAILED) \<and> po_inv s' \<and> po_cap s' = po_cap s \<and> po_out s' = po_out s"
    if "i \<notin> po_out s"
    using that po_ok_refuse [OF s(2), of i True] assms po_out_eq [OF s(2)] by (auto simp: po_release_def s po_cap_def)
qed

interpretation poolof: resource_pool po_inv po_out po_cap po_get po_release BOF_ERR_OPERATION_FAILED
  by unfold_locales (use po_get_some po_get_none po_release_ok in \<open>auto simp: po_out_def po_cap_def\<close>)


section \<open>The double list\<close>

definition dl_holds :: "item_store \<Rightarrow> BofDoubleListOf \<Rightarrow> nat list \<Rightarrow> bool" where
  "dl_holds st l ys \<longleftrightarrow>
     of_chain DoubleHead (it_pNextItem_X st) (dl_pNextItem_X l) ys
     \<and> of_chain DoubleHead (it_pPrevItem_X st) (dl_pPrevItem_X l) (rev ys)
     \<and> distinct ys \<and> dl_mNbItemAvailable l = of_nat (length ys)"

lemma dl_holds_ctor: "dl_holds st BofDoubleListOf_ctor []"
  by (simp add: dl_holds_def BofDoubleListOf_ctor_def)

lemma dl_holds_IsEmpty: "dl_holds st l ys \<Longrightarrow> BofDoubleListOf_IsEmpty l \<longleftrightarrow> ys = []"
  by (cases ys) (auto simp: dl_holds_def BofDoubleListOf_IsEmpty_def)

lemma dl_count_up_simps [simp]:
  "dl_pNextItem_X (dl_count_up l) = dl_pNextItem_X l" "dl_pPrevItem_X (dl_count_up l) = dl_pPrevItem_X l"
  "dl_mNbItemAvailable (dl_count_up l) = dl_mNbItemAvailable l + 1"
  by (simp_all add: dl_count_up_def Let_def)

lemma of_chain_put_last:
  assumes "of_chain e nx p (xs @ [j])" "distinct (xs @ [j])" "i \<notin> set (xs @ [j])"
  shows "of_chain e (nx(j := Item i, i := e)) p (xs @ [j, i])"
proof -
  have "of_chain (Item i) ((nx(j := Item i))(i := e)) p (xs @ [j])"
    using of_chain_redirect [OF assms(1,2), of "Item i"] assms(3) by simp
  from of_chain_extend [OF this] show ?thesis by simp
qed

text \<open>The four operations; they touch the links of the items of the list and of the new item only.\<close>

lemma dl_InsertHead_ok:
  assumes "dl_holds st l ys" "i \<notin> set ys"
  shows "\<exists>st' l'. BofDoubleListOf_InsertHead st l (Some i) = Ret (st', l', True) \<and> dl_holds st' l' (i # ys)
    \<and> it_State_E st' = it_State_E st \<and> (\<forall>j. j \<notin> insert i (set ys) \<longrightarrow> it_pNextItem_X st' j = it_pNextItem_X st j)"
proof (cases ys)
  case Nil
  with assms show ?thesis by (auto simp: BofDoubleListOf_InsertHead_def dl_set_next_def dl_set_prev_def dl_holds_def)
next
  case (Cons y zs)
  have "of_chain DoubleHead (it_pPrevItem_X st) (dl_pPrevItem_X l) (rev zs @ [y])" "distinct (rev zs @ [y])"
    "dl_pNextItem_X l = Item y" "i \<notin> set (rev zs @ [y])" using assms Cons by (simp_all add: dl_holds_def)
  with of_chain_put_last [of DoubleHead "it_pPrevItem_X st" "dl_pPrevItem_X l" "rev zs" y i] assms Cons show ?thesis
    by (auto simp: BofDoubleListOf_InsertHead_def dl_set_next_def dl_set_prev_def dl_holds_def)
qed

lemma dl_InsertTail_ok:
  assumes "dl_holds st l ys" "i \<notin> set ys"
  shows "\<exists>st' l'. BofDoubleListOf_InsertTail st l (Some i) = Ret (st', l', True) \<and> dl_holds st' l' (ys @ [i])
    \<and> it_State_E st' = it_State_E st \<and> (\<forall>j. j \<notin> insert i (set ys) \<longrightarrow> it_pNextItem_X st' j = it_pNextItem_X st j)"
proof (cases ys rule: rev_cases)
  case Nil
  with assms show ?thesis by (auto simp: BofDoubleListOf_InsertTail_def dl_set_next_def dl_set_prev_def dl_holds_def)
next
  case (snoc zs y)
  have "of_chain DoubleHead (it_pNextItem_X st) (dl_pNextItem_X l) (zs @ [y])" "distinct (zs @ [y])"
    "dl_pPrevItem_X l = Item y" "i \<notin> set (zs @ [y])" using assms snoc by (simp_all add: dl_holds_def)
  with of_chain_put_last [of DoubleHead "it_pNextItem_X st" "dl_pNextItem_X l" zs y i] assms snoc show ?thesis
    by (auto simp: BofDoubleListOf_InsertTail_def dl_set_next_def dl_set_prev_def dl_holds_def)
qed

lemma of_chain_cut_last:
  assumes "of_chain e nx p (xs @ [j, i])" "distinct (xs @ [j, i])"
  shows "of_chain e (nx(j := e)) p (xs @ [j])"
proof -
  have "of_chain (Item i) nx p (xs @ [j])" using of_chain_snoc [of e nx p "xs @ [j]" i] assms by simp
  from of_chain_redirect [OF this] show ?thesis using assms(2) by simp
qed

lemma dl_RemoveHead_ok:
  assumes "dl_holds st l (i # ys)"
  shows "\<exists>st' l'. BofDoubleListOf_RemoveHead st l = Ret (st', l', Some i) \<and> dl_holds st' l' ys
    \<and> it_State_E st' = it_State_E st \<and> it_pNextItem_X st' = it_pNextItem_X st"
proof (cases ys)
  case Nil
  with assms dl_holds_IsEmpty [OF assms] show ?thesis
    by (auto simp: BofDoubleListOf_RemoveHead_def dl_set_prev_def dl_holds_def)
next
  case (Cons y zs)
  have "of_chain DoubleHead (it_pPrevItem_X st) (dl_pPrevItem_X l) (rev zs @ [y, i])" "distinct (rev zs @ [y, i])"
    using assms Cons by (auto simp: dl_holds_def)
  with of_chain_cut_last [of DoubleHead "it_pPrevItem_X st" "dl_pPrevItem_X l" "rev zs" y i] assms Cons dl_holds_IsEmpty [OF assms]
  show ?thesis by (auto simp: BofDoubleListOf_RemoveHead_def dl_set_prev_def dl_holds_def)
qed

lemma dl_RemoveTail_ok:
  assumes "dl_holds st l (ys @ [i])"
  shows "\<exists>st' l'. BofDoubleListOf_RemoveTail st l = Ret (st', l', Some i) \<and> dl_holds st' l' ys
    \<and> it_State_E st' = it_State_E st \<and> (\<forall>j. j \<notin> set ys \<longrightarrow> it_pNextItem_X st' j = it_pNextItem_X st j)"
proof (cases ys rule: rev_cases)
  case Nil
  with assms dl_holds_IsEmpty [OF assms] show ?thesis
    by (auto simp: BofDoubleListOf_RemoveTail_def dl_set_next_def dl_holds_def)
next
  case (snoc zs y)
  have "of_chain DoubleHead (it_pNextItem_X st) (dl_pNextItem_X l) (zs @ [y, i])" "distinct (zs @ [y, i])"
    using assms snoc by (auto simp: dl_holds_def)
  with of_chain_cut_last [of DoubleHead "it_pNextItem_X st" "dl_pNextItem_X l" zs y i] assms snoc dl_holds_IsEmpty [OF assms]
  show ?thesis by (auto simp: BofDoubleListOf_RemoveTail_def dl_set_next_def dl_holds_def)
qed

text \<open>Links of items that are not on the list do not matter.\<close>

lemma dl_holds_other:
  assumes "dl_holds st l ys" "\<And>i. i \<in> set ys \<Longrightarrow> it_pNextItem_X st' i = it_pNextItem_X st i" "it_pPrevItem_X st' = it_pPrevItem_X st"
  shows "dl_holds st' l ys"
  using assms of_chain_other [of DoubleHead "it_pNextItem_X st" "dl_pNextItem_X l" ys "it_pNextItem_X st'"] by (simp add: dl_holds_def)

end
