(* ===== verification/Bof_ListOf_Props.thy ===== *)
theory Bof_ListOf_Props
  imports Bof_ListOf_Threads Bof_ListOf_Proofs
begin

text \<open>
  The properties of the intrusive lists: the list without locks is a stack for threads that interleave their steps
  in any way, but its counter is not; the pool hands out no item twice; the queue with its own storage is a bounded
  queue of what the clients write into the items.
\<close>

section \<open>The queue with its own storage\<close>

text \<open>
  The use that the comment of the constructor prescribes: an item is taken from the storage, filled, and inserted; an item that was
  waited for is read and given back. \<open>data\<close> is what the clients have written into the items.
\<close>

type_synonym 'a ff_state = "item_store \<times> BofFifoOf \<times> (nat \<Rightarrow> 'a)"

definition ff_put :: "bool \<Rightarrow> 'a \<Rightarrow> 'a ff_state \<Rightarrow> ('a ff_state \<times> BOFERR) outcome" where
  "ff_put ndebug x = (\<lambda>(st, f, data).
     bindO (BofFifoOf_GetFreeInternalFifoItem ndebug st f) (\<lambda>(st, f, r).
     case r of None \<Rightarrow> Ret ((st, f, data), BOF_ERR_FULL)
     | Some i \<Rightarrow> bindO (BofFifoOf_Insert st f (Some i)) (\<lambda>(st, f, b).
         Ret ((st, f, data(i := x)), if b then BOF_ERR_NO_ERROR else BOF_ERR_OPERATION_FAILED))))"

definition ff_take :: "bool \<Rightarrow> 'a ff_state \<Rightarrow> ('a ff_state \<times> BOFERR \<times> 'a option) outcome" where
  "ff_take ndebug = (\<lambda>(st, f, data).
     bindO (BofFifoOf_WaitForItem [] st f 0 False True) (\<lambda>(st, f, b, r).
     case r of None \<Rightarrow> Ret ((st, f, data), BOF_ERR_EMPTY, None)
     | Some i \<Rightarrow> bindO (BofFifoOf_ReleaseInternalFifoItem ndebug st f (Some i)) (\<lambda>(st, f, b).
         Ret ((st, f, data), if b then BOF_ERR_NO_ERROR else BOF_ERR_OPERATION_FAILED, Some (data i)))))"

primrec of_follow :: "nat \<Rightarrow> (nat \<Rightarrow> of_addr) \<Rightarrow> of_addr \<Rightarrow> nat list" where
  "of_follow 0 nx p = []"
| "of_follow (Suc n) nx p = (case p of Item i \<Rightarrow> i # of_follow n nx (nx i) | _ \<Rightarrow> [])"

definition ff_contents :: "'a ff_state \<Rightarrow> 'a list" where
  "ff_contents = (\<lambda>(st, f, data).
     map data (of_follow (unat (dl_mNbItemAvailable (ff_mFifoItemList f))) (it_pPrevItem_X st) (dl_pPrevItem_X (ff_mFifoItemList f))))"

definition ff_cap :: "'a ff_state \<Rightarrow> nat" where
  "ff_cap = (\<lambda>(st, f, data). case ff_mpInternalFifoStorage f of None \<Rightarrow> 0 | Some p \<Rightarrow> unat (po_mMaxNumberOfItemInPool_U32 p))"

text \<open>Every item of the pool is on its free list or in the queue.\<close>

definition ff_ok :: "item_store \<Rightarrow> BofFifoOf \<Rightarrow> BofPoolOf \<Rightarrow> nat list \<Rightarrow> nat list \<Rightarrow> bool" where
  "ff_ok st f p xs ys \<longleftrightarrow>
     \<not> ff_mFifoMtx f \<and> ff_mpInternalFifoStorage f = Some p \<and> po_ok st p xs \<and> dl_holds st (ff_mFifoItemList f) ys
     \<and> set ys = {..<unat (po_mMaxNumberOfItemInPool_U32 p)} - set xs"

definition ff_inv :: "'a ff_state \<Rightarrow> bool" where
  "ff_inv = (\<lambda>(st, f, data). \<exists>p xs ys. ff_ok st f p xs ys)"

lemma of_follow_chain: "of_chain e nx p xs \<Longrightarrow> (\<And>i. e \<noteq> Item i) \<Longrightarrow> of_follow (length xs) nx p = xs"
  by (induction xs arbitrary: p) auto

lemma ff_ok_lengths:
  assumes "ff_ok st f p xs ys"
  shows "length xs + length ys = unat (po_mMaxNumberOfItemInPool_U32 p)"
proof -
  have "set xs \<subseteq> {..<unat (po_mMaxNumberOfItemInPool_U32 p)}" "distinct xs" "distinct ys"
    "set ys = {..<unat (po_mMaxNumberOfItemInPool_U32 p)} - set xs"
    using assms by (auto simp: ff_ok_def po_ok_def sl_holds_def dl_holds_def)
  then show ?thesis
    using card_Diff_subset [of "set xs" "{..<unat (po_mMaxNumberOfItemInPool_U32 p)}"]
      card_mono [of "{..<unat (po_mMaxNumberOfItemInPool_U32 p)}" "set xs"]
    by (simp add: distinct_card [symmetric])
qed

lemma ff_ok_view:
  assumes "ff_ok st f p xs ys"
  shows "ff_contents (st, f, data) = map data (rev ys)" "ff_cap (st, f, data) = unat (po_mMaxNumberOfItemInPool_U32 p)"
proof -
  have "length ys \<le> unat (po_mMaxNumberOfItemInPool_U32 p)" using ff_ok_lengths [OF assms] by simp
  then have n: "unat (of_nat (length ys) :: u32) = length ys" by (rule unat_of_nat_le)
  have "of_chain DoubleHead (it_pPrevItem_X st) (dl_pPrevItem_X (ff_mFifoItemList f)) (rev ys)"
    "dl_mNbItemAvailable (ff_mFifoItemList f) = of_nat (length ys)" using assms by (simp_all add: ff_ok_def dl_holds_def)
  with n of_follow_chain [of DoubleHead _ _ "rev ys"] show "ff_contents (st, f, data) = map data (rev ys)"
    by (simp add: ff_contents_def)
  show "ff_cap (st, f, data) = unat (po_mMaxNumberOfItemInPool_U32 p)" using assms by (simp add: ff_cap_def ff_ok_def)
qed

lemma ff_put_room:
  assumes "ff_ok st f p (i # xs) ys"
  shows "\<exists>st' f' p'. ff_put ndebug x (st, f, data) = Ret ((st', f', data(i := x)), BOF_ERR_NO_ERROR) \<and> ff_ok st' f' p' xs (i # ys)
    \<and> po_mMaxNumberOfItemInPool_U32 p' = po_mMaxNumberOfItemInPool_U32 p"
proof -
  let ?st = "item_set_state st i ITEM_STATE_TAKEN" and ?n = "unat (po_mMaxNumberOfItemInPool_U32 p)"
  have po: "po_ok st p (i # xs)" and ys: "set ys = {..<?n} - set (i # xs)" and m: "\<not> ff_mFifoMtx f"
    and pool: "ff_mpInternalFifoStorage f = Some p" using assms by (simp_all add: ff_ok_def)
  from po_ok_get [OF po] obtain p' where
    p': "BofPoolOf_GetItem ndebug st p = Ret (?st, p', Some i)" "po_ok ?st p' xs"
      "po_mMaxNumberOfItemInPool_U32 p' = po_mMaxNumberOfItemInPool_U32 p" by blast
  have i: "i \<notin> set ys" "i < ?n" "i \<notin> set xs" "set xs \<inter> insert i (set ys) = {}"
    using ys po by (auto simp: po_ok_def sl_holds_def)
  have "dl_holds ?st (ff_mFifoItemList f) ys" using assms by (auto simp: ff_ok_def dl_holds_def item_set_state_def)
  from dl_InsertHead_ok [OF this i(1)] obtain st' l' where
    l': "BofDoubleListOf_InsertHead ?st (ff_mFifoItemList f) (Some i) = Ret (st', l', True)" "dl_holds st' l' (i # ys)"
      "it_State_E st' = it_State_E ?st" "\<forall>j. j \<notin> insert i (set ys) \<longrightarrow> it_pNextItem_X st' j = it_pNextItem_X ?st j" by blast
  have "sl_holds st' (po_mItemList p') xs"
    by (rule sl_holds_other [of ?st]) (use p'(2) l'(4) i(4) in \<open>auto simp: po_ok_def\<close>)
  then have "po_ok st' p' xs" using p'(2) l'(3) by (simp add: po_ok_def)
  moreover have "set (i # ys) = {..<?n} - set xs" using ys i by auto
  ultimately show ?thesis using p' l' m pool
    by (simp add: ff_put_def BofFifoOf_GetFreeInternalFifoItem_def BofFifoOf_Insert_def ff_lock_def ff_unlock_def ff_ok_def)
qed

lemma ff_put_full:
  assumes "ff_ok st f p [] ys"
  shows "\<exists>f' p'. ff_put ndebug x (st, f, data) = Ret ((st, f', data), BOF_ERR_FULL) \<and> ff_ok st f' p' [] ys
    \<and> po_mMaxNumberOfItemInPool_U32 p' = po_mMaxNumberOfItemInPool_U32 p"
proof -
  from po_ok_get_none [of st p ndebug] assms obtain p' where "BofPoolOf_GetItem ndebug st p = Ret (st, p', None)" "po_ok st p' []"
    "po_mMaxNumberOfItemInPool_U32 p' = po_mMaxNumberOfItemInPool_U32 p" by (auto simp: ff_ok_def)
  with assms show ?thesis by (auto simp: ff_put_def BofFifoOf_GetFreeInternalFifoItem_def ff_ok_def)
qed

lemma ff_take_some:
  assumes "ff_ok st f p xs (ys @ [i])"
  shows "\<exists>st' f' p'. ff_take ndebug (st, f, data) = Ret ((st', f', data), BOF_ERR_NO_ERROR, Some (data i)) \<and> ff_ok st' f' p' (i # xs) ys
    \<and> po_mMaxNumberOfItemInPool_U32 p' = po_mMaxNumberOfItemInPool_U32 p"
proof -
  let ?n = "unat (po_mMaxNumberOfItemInPool_U32 p)"
  have po: "po_ok st p xs" and dl: "dl_holds st (ff_mFifoItemList f) (ys @ [i])" and m: "\<not> ff_mFifoMtx f"
    and set: "set (ys @ [i]) = {..<?n} - set xs" and pool: "ff_mpInternalFifoStorage f = Some p"
    using assms by (simp_all add: ff_ok_def)
  have ne: "\<not> BofDoubleListOf_IsEmpty (ff_mFifoItemList f)" using dl_holds_IsEmpty [OF dl] by simp
  from dl_RemoveTail_ok [OF dl] obtain st1 l1 where
    l1: "BofDoubleListOf_RemoveTail st (ff_mFifoItemList f) = Ret (st1, l1, Some i)" "dl_holds st1 l1 ys"
      "it_State_E st1 = it_State_E st" "\<forall>j. j \<notin> set ys \<longrightarrow> it_pNextItem_X st1 j = it_pNextItem_X st j" by blast
  have i: "i < ?n" "i \<notin> set xs" "i \<notin> set ys" "set ys \<inter> set xs = {}" using set dl by (auto simp: dl_holds_def)
  have "sl_holds st1 (po_mItemList p) xs"
    by (rule sl_holds_other [of st]) (use po l1(4) i(4) in \<open>auto simp: po_ok_def\<close>)
  then have "po_ok st1 p xs" using po l1(3) by (simp add: po_ok_def)
  from po_ok_release [OF this i(1,2)] obtain st2 p2 where
    p2: "BofPoolOf_ReleaseItem ndebug st1 p (Some i) = Ret (st2, p2, True)" "po_ok st2 p2 (i # xs)"
      "po_mMaxNumberOfItemInPool_U32 p2 = po_mMaxNumberOfItemInPool_U32 p"
      "\<forall>j. j \<noteq> i \<longrightarrow> it_pNextItem_X st2 j = it_pNextItem_X st1 j" "it_pPrevItem_X st2 = it_pPrevItem_X st1" by blast
  have "dl_holds st2 l1 ys" by (rule dl_holds_other [OF l1(2)]) (use p2(4,5) i(3) in auto)
  moreover have "set ys = {..<?n} - set (i # xs)" using set i by auto
  ultimately show ?thesis using p2 l1 m pool ne
    by (simp add: ff_take_def BofFifoOf_WaitForItem_def ff_lock_def ff_unlock_def BofFifoOf_ReleaseInternalFifoItem_def ff_ok_def)
qed

lemma ff_take_none:
  assumes "ff_ok st f p xs []"
  shows "ff_take ndebug (st, f, data) = Ret ((st, f, data), BOF_ERR_EMPTY, None)"
proof -
  have "BofDoubleListOf_IsEmpty (ff_mFifoItemList f)" "\<not> ff_mFifoMtx f"
    using assms dl_holds_IsEmpty by (auto simp: ff_ok_def)
  then show ?thesis by (cases f) (simp add: ff_take_def BofFifoOf_WaitForItem_def ff_lock_def ff_unlock_def)
qed


lemma map_other [simp]: "i \<notin> set ys \<Longrightarrow> map (data(i := x)) ys = map data ys"
  by (induction ys) auto

lemma ff_fifo_put:
  assumes "ff_inv s"
  shows "length (ff_contents s) < ff_cap s \<Longrightarrow> \<exists>s'. ff_put ndebug x s = Ret (s', BOF_ERR_NO_ERROR) \<and> ff_inv s' \<and> ff_cap s' = ff_cap s
      \<and> ff_contents s' = ff_contents s @ [x]"
    and "length (ff_contents s) = ff_cap s \<Longrightarrow> \<exists>s'. ff_put ndebug x s = Ret (s', BOF_ERR_FULL) \<and> ff_inv s' \<and> ff_cap s' = ff_cap s
      \<and> ff_contents s' = ff_contents s"
proof -
  obtain st f data p xs ys where s: "s = (st, f, data)" and ok: "ff_ok st f p xs ys"
    using assms by (cases s) (auto simp: ff_inv_def)
  note v = ff_ok_view [OF ok, of data] and n = ff_ok_lengths [OF ok]
  show "\<exists>s'. ff_put ndebug x s = Ret (s', BOF_ERR_NO_ERROR) \<and> ff_inv s' \<and> ff_cap s' = ff_cap s
      \<and> ff_contents s' = ff_contents s @ [x]" if room: "length (ff_contents s) < ff_cap s"
  proof -
    obtain i zs where xs: "xs = i # zs" using room n by (cases xs) (auto simp: s v)
    with ok have i: "i \<notin> set ys" by (auto simp: ff_ok_def)
    from ff_put_room [OF ok [unfolded xs], of ndebug x data] obtain st' f' p' where
      put: "ff_put ndebug x (st, f, data) = Ret ((st', f', data(i := x)), BOF_ERR_NO_ERROR)" "ff_ok st' f' p' zs (i # ys)"
        "po_mMaxNumberOfItemInPool_U32 p' = po_mMaxNumberOfItemInPool_U32 p" by blast
    with ff_ok_view [OF put(2), of "data(i := x)"] i show ?thesis by (auto simp: s v ff_inv_def)
  qed
  show "\<exists>s'. ff_put ndebug x s = Ret (s', BOF_ERR_FULL) \<and> ff_inv s' \<and> ff_cap s' = ff_cap s
      \<and> ff_contents s' = ff_contents s" if "length (ff_contents s) = ff_cap s"
  proof -
    have xs: "xs = []" using that n by (simp add: s v)
    from ff_put_full [OF ok [unfolded xs], of ndebug x data] obtain f' p' where
      put: "ff_put ndebug x (st, f, data) = Ret ((st, f', data), BOF_ERR_FULL)" "ff_ok st f' p' [] ys"
        "po_mMaxNumberOfItemInPool_U32 p' = po_mMaxNumberOfItemInPool_U32 p" by blast
    with ff_ok_view [OF put(2), of data] show ?thesis by (auto simp: s v ff_inv_def)
  qed
qed

lemma ff_fifo_take:
  assumes "ff_inv s"
  shows "ff_contents s = x # vs \<Longrightarrow> \<exists>s'. ff_take ndebug s = Ret (s', BOF_ERR_NO_ERROR, Some x) \<and> ff_inv s' \<and> ff_cap s' = ff_cap s
      \<and> ff_contents s' = vs"
    and "ff_contents s = [] \<Longrightarrow> ff_take ndebug s = Ret (s, BOF_ERR_EMPTY, None)"
proof -
  obtain st f data p xs ys where s: "s = (st, f, data)" and ok: "ff_ok st f p xs ys"
    using assms by (cases s) (auto simp: ff_inv_def)
  note v = ff_ok_view [OF ok, of data]
  show "\<exists>s'. ff_take ndebug s = Ret (s', BOF_ERR_NO_ERROR, Some x) \<and> ff_inv s' \<and> ff_cap s' = ff_cap s
      \<and> ff_contents s' = vs" if some: "ff_contents s = x # vs"
  proof -
    obtain i zs where ys: "ys = zs @ [i]" "x = data i" "vs = map data (rev zs)"
      using some by (cases ys rule: rev_cases) (auto simp: s v)
    from ff_take_some [OF ok [unfolded ys(1)], of ndebug data] obtain st' f' p' where
      t: "ff_take ndebug (st, f, data) = Ret ((st', f', data), BOF_ERR_NO_ERROR, Some (data i))" "ff_ok st' f' p' (i # xs) zs"
        "po_mMaxNumberOfItemInPool_U32 p' = po_mMaxNumberOfItemInPool_U32 p" by blast
    with ff_ok_view [OF t(2), of data] ys show ?thesis by (auto simp: s v ff_inv_def)
  qed
  show "ff_take ndebug s = Ret (s, BOF_ERR_EMPTY, None)" if "ff_contents s = []"
    using that ok ff_take_none by (simp add: s v)
qed

interpretation fifoof: bounded_fifo ff_inv ff_contents ff_cap "\<lambda>_. True" "ff_put ndebug" "ff_take ndebug" BOF_ERR_FULL BOF_ERR_EMPTY
  for ndebug
proof unfold_locales
  fix s :: "'a ff_state"
  assume "ff_inv s"
  then obtain st f data p xs ys where s: "s = (st, f, data)" "ff_ok st f p xs ys" by (cases s) (auto simp: ff_inv_def)
  show "length (ff_contents s) \<le> ff_cap s" using ff_ok_view [OF s(2), of data] ff_ok_lengths [OF s(2)] by (simp add: s(1))
qed (use ff_fifo_put ff_fifo_take(1) in \<open>simp_all add: ff_fifo_take(2)\<close>)

lemma ff_ctor_ok:
  assumes "nb \<noteq> 0" "nb \<le> 0x80000000" "\<forall>i \<ge> unat nb. it_State_E st i = ITEM_STATE_FREE"
  shows "\<exists>st' f. BofFifoOf_ctor st nb = Ret (st', f) \<and> (\<exists>p. ff_ok st' f p (rev [0..<unat nb]) [] \<and> po_mMaxNumberOfItemInPool_U32 p = nb)"
proof -
  from po_ctor_ok [OF assms(2,3)] obtain st' p where
    "BofPoolOf_ctor st nb = Ret (st', p)" "po_ok st' p (rev [0..<unat nb])" "po_mMaxNumberOfItemInPool_U32 p = nb" by blast
  then show ?thesis using assms(1) dl_holds_ctor by (auto simp: BofFifoOf_ctor_def ff_ok_def)
qed


section \<open>Schedules\<close>

text \<open>A concrete run of the threads that share a list.\<close>

primrec sl_acts :: "sl_action list \<Rightarrow> sl_world \<Rightarrow> sl_world option" where
  "sl_acts [] w = Some w"
| "sl_acts (a # as) w = (case sl_act a w of None \<Rightarrow> None | Some w \<Rightarrow> sl_acts as w)"

lemma sl_acts_reaches: "sl_reaches w0 n w \<Longrightarrow> sl_acts as w = Some w' \<Longrightarrow> sl_reaches w0 (n + length as) w'"
proof (induction as arbitrary: n w)
  case (Cons a as)
  from Cons.prems(2) obtain w1 where w1: "sl_act a w = Some w1" "sl_acts as w1 = Some w'" by (auto split: option.splits)
  from Cons.IH [OF sl_reaches.act [OF Cons.prems(1) w1(1)] w1(2)] show ?case by simp
qed simp

text \<open>Thread 0 inserts an item; before it looks at the head again, thread 1 removes the item and returns.\<close>

definition sl_race :: "nat \<Rightarrow> sl_action list" where
  "sl_race i = SlInsert 0 (Some i) # replicate 3 (SlRun 0 False) @ SlRemove 1 # replicate 6 (SlRun 1 False) @ [SlReturn 1, SlRun 0 False]"

definition sl_race_world :: "item_store \<Rightarrow> nat \<Rightarrow> sl_world" where
  "sl_race_world st i =
     \<lparr>wl_mem = (st\<lparr>it_pNextItem_X := (it_pNextItem_X st)(i := SingleHead)\<rparr>,
        \<lparr>sl_pNextItem_X = SingleHead, sl_Tag = 1, sl_mNbItemAvailable = - 1, sl_mNbMaxItemAvailable = 0\<rparr>),
      wl_pc = (\<lambda>_. SlIdle)(0 := InsRet False, 1 := SlIdle), wl_out = {i}, wl_events = [SlPopped 1 i, SlPushed 0 i]\<rparr>"

lemma sl_race_run: "sl_acts (sl_race i) (sl_start st {i}) = Some (sl_race_world st i)"
  by (simp add: sl_race_def sl_race_world_def sl_start_def sl_act_def sl_InsertHead_start_def sl_RemoveHead_start_def
      BofSingleListOf_ctor_def sl_event_of_def sl_next_def numeral_eq_Suc fun_upd_twist)

text \<open>How often a run gives up an item it has inserted.\<close>

primrec sl_given_up :: "sl_action list \<Rightarrow> sl_world \<Rightarrow> nat" where
  "sl_given_up [] w = 0"
| "sl_given_up (a # as) w = of_bool (sl_misjudging a w) + (case sl_act a w of None \<Rightarrow> 0 | Some w \<Rightarrow> sl_given_up as w)"

lemma sl_acts_counts:
  "sl_counts w0 n m w \<Longrightarrow> sl_acts as w = Some w' \<Longrightarrow> sl_counts w0 (n + length as) (m + sl_given_up as w) w'"
proof (induction as arbitrary: n m w)
  case (Cons a as)
  from Cons.prems(2) obtain w1 where w1: "sl_act a w = Some w1" "sl_acts as w1 = Some w'" by (auto split: option.splits)
  from Cons.IH [OF sl_counts.act [OF Cons.prems(1) w1(1)] w1(2)] w1(1) show ?case by (simp add: add.assoc)
qed simp

lemma sl_race_gives_up: "sl_given_up (sl_race i) (sl_start st {i}) = 1"
  by (simp add: sl_race_def sl_start_def sl_act_def sl_InsertHead_start_def sl_RemoveHead_start_def sl_misjudging_def sl_misjudges_def
      BofSingleListOf_ctor_def sl_event_of_def sl_next_def numeral_eq_Suc fun_upd_twist)

section \<open>Waiting\<close>

text \<open>A wake-up that changes nothing for the caller: the queue is empty and nobody asks it to quit.\<close>

definition ff_idle :: "(item_store \<times> BofDoubleListOf \<times> BofPoolOf option) \<times> bool \<Rightarrow> bool" where
  "ff_idle = (\<lambda>((st, l, pool), quit). BofDoubleListOf_IsEmpty l \<and> \<not> quit)"

declare ff_wait.simps [simp del]

lemma ff_wait_ready: "\<not> BofDoubleListOf_IsEmpty (ff_mFifoItemList f) \<or> quit \<Longrightarrow> ff_wait timed sched st f quit = Ret (st, f, quit, True)"
  by (subst ff_wait.simps) auto

lemma ff_wait_woken:
  "BofDoubleListOf_IsEmpty (ff_mFifoItemList f) \<Longrightarrow>
     ff_wait timed (((st', l, pool), q) # sched) st f False
       = ff_wait timed sched st' (f\<lparr>ff_mFifoItemList := l, ff_mpInternalFifoStorage := pool\<rparr>) q"
  by (subst ff_wait.simps) simp

lemma ff_wait_end:
  "BofDoubleListOf_IsEmpty (ff_mFifoItemList f) \<Longrightarrow> ff_wait timed [] st f False = (if timed then Ret (st, f, False, False) else Retrying)"
  by (subst ff_wait.simps) simp

text \<open>Only the last wake-up counts.\<close>

lemma ff_wait_skip:
  "list_all ff_idle pre \<Longrightarrow> BofDoubleListOf_IsEmpty (ff_mFifoItemList f) \<Longrightarrow>
     ff_wait timed (pre @ e # sched) st f False = ff_wait timed (e # sched) st f False"
proof (induction pre arbitrary: st f)
  case (Cons a pre)
  obtain st1 l1 pool1 where a: "a = ((st1, l1, pool1), False)" "BofDoubleListOf_IsEmpty l1"
    using Cons.prems(1) by (cases a) (auto simp: ff_idle_def)
  obtain st' l pool q where e: "e = ((st', l, pool), q)" by (metis surj_pair)
  show ?case using Cons a by (simp add: ff_wait_woken e)
qed simp

lemma ff_wait_idle:
  assumes "list_all ff_idle pre" "BofDoubleListOf_IsEmpty (ff_mFifoItemList f)"
  shows "\<exists>st' f'. BofDoubleListOf_IsEmpty (ff_mFifoItemList f')
    \<and> ff_wait timed pre st f False = (if timed then Ret (st', f', False, False) else Retrying)"
proof (cases pre rule: rev_cases)
  case Nil
  with assms show ?thesis by (auto simp: ff_wait_end)
next
  case (snoc es e)
  then obtain st1 l1 pool1 where e: "e = ((st1, l1, pool1), False)" "BofDoubleListOf_IsEmpty l1" "list_all ff_idle es"
    using assms(1) by (cases e) (auto simp: ff_idle_def)
  let ?f = "f\<lparr>ff_mFifoItemList := l1, ff_mpInternalFifoStorage := pool1\<rparr>"
  have "BofDoubleListOf_IsEmpty (ff_mFifoItemList ?f)" using e(2) by simp
  moreover have "ff_wait timed pre st f False = (if timed then Ret (st1, ?f, False, False) else Retrying)"
    using ff_wait_skip [OF e(3) assms(2), of timed e "[]" st] assms(2) e by (simp add: snoc ff_wait_woken ff_wait_end)
  ultimately show ?thesis by blast
qed

text \<open>A caller that finds an item in the queue, at once or when it is woken, gets the oldest one.\<close>

lemma ff_WaitForItem_item:
  assumes "\<not> ff_mFifoMtx f" "ff_wait (TimeOut \<noteq> 0xFFFFFFFF) sched st (f\<lparr>ff_mFifoMtx := True\<rparr>) quit
      = Ret (st', f\<lparr>ff_mFifoMtx := True, ff_mFifoItemList := l, ff_mpInternalFifoStorage := pool\<rparr>, q, True)" "dl_holds st' l (ys @ [i])"
  shows "\<exists>st'' l'. BofFifoOf_WaitForItem sched st f TimeOut quit True
      = Ret (st'', f\<lparr>ff_mFifoItemList := l', ff_mpInternalFifoStorage := pool\<rparr>, True, Some i) \<and> dl_holds st'' l' ys"
proof -
  from dl_RemoveTail_ok [OF assms(3)] obtain st'' l' where
    r: "BofDoubleListOf_RemoveTail st' l = Ret (st'', l', Some i)" "dl_holds st'' l' ys" by blast
  have "\<not> BofDoubleListOf_IsEmpty l" using dl_holds_IsEmpty [OF assms(3)] by simp
  with r assms show ?thesis by (cases f) (auto simp: BofFifoOf_WaitForItem_def ff_lock_def ff_unlock_def)
qed


section \<open>Properties\<close>

text \<open>
  C4. Any number of threads call \<^verbatim>\<open>InsertHead\<close> and \<^verbatim>\<open>RemoveHead\<close> of one \<^verbatim>\<open>BofSingleListOf\<close>, their accesses to memory
  interleaved in any way and their exchanges failing spuriously. As long as there are at most 2 to the 64 actions, so
  that the tag does not wrap around, the exchanges that succeed are, in their order, the pushes and pops of a stack: a pop takes
  what is on top, and an exchange that finds nothing finds the stack empty. The links of the list are those of the
  stack; every item is in exactly one place, on the stack, with a client or with a thread; and a call that is about to return
  answers with what its thread did last.
\<close>

theorem BofSingleListOf_is_a_stack:
  assumes "sl_reaches (sl_start st items) n w" "n \<le> 2 ^ LENGTH(64)"
  shows "\<exists>xs. sl_replay (wl_events w) = Some xs
    \<and> sl_chain (it_pNextItem_X (fst (wl_mem w))) (sl_pNextItem_X (snd (wl_mem w))) xs
    \<and> distinct xs \<and> set xs \<inter> wl_out w = {}
    \<and> items = set xs \<union> wl_out w \<union> (\<Union>t. sl_own (wl_pc w t))
    \<and> (\<forall>t. sl_own (wl_pc w t) \<inter> (set xs \<union> wl_out w) = {})
    \<and> (\<forall>t u. t = u \<or> sl_own (wl_pc w t) \<inter> sl_own (wl_pc w u) = {})
    \<and> (\<forall>t i. wl_pc w t = RemRet (Some i) \<longrightarrow> sl_last t (wl_events w) = Some (SlPopped t i))
    \<and> (\<forall>t. wl_pc w t = RemRet None \<longrightarrow> sl_last t (wl_events w) = Some (SlFoundEmpty t))
    \<and> (\<forall>t. wl_pc w t = InsRet True \<longrightarrow> (\<exists>i. sl_last t (wl_events w) = Some (SlPushed t i)))"
proof -
  from sl_reaches_ok [OF assms] obtain k xs where
    ok: "sl_ok items k xs (it_pNextItem_X (fst (wl_mem w))) (sl_pNextItem_X (snd (wl_mem w))) (sl_Tag (snd (wl_mem w)))
       (wl_pc w) (wl_out w) (wl_events w)" unfolding sl_wok_def by blast
  have ans: "sl_answers t (wl_events w) (wl_pc w t)" for t using ok unfolding sl_ok_def by blast
  have "sl_last t (wl_events w) = Some (SlPopped t i)" if "wl_pc w t = RemRet (Some i)" for t i using ans [of t] that by simp
  moreover have "sl_last t (wl_events w) = Some (SlFoundEmpty t)" if "wl_pc w t = RemRet None" for t using ans [of t] that by simp
  moreover have "\<exists>i. sl_last t (wl_events w) = Some (SlPushed t i)" if "wl_pc w t = InsRet True" for t using ans [of t] that by simp
  ultimately show ?thesis using ok unfolding sl_ok_def by blast
qed

definition of_example_store :: item_store where
  "of_example_store = \<lparr>it_pNextItem_X = (\<lambda>_. SingleHead), it_pPrevItem_X = (\<lambda>_. SingleHead), it_State_E = (\<lambda>_. ITEM_STATE_FREE)\<rparr>"

theorem BofSingleListOf_is_a_stack_witness:
  "\<exists>xs. sl_replay (wl_events (sl_race_world of_example_store 5)) = Some xs
    \<and> sl_last 1 (wl_events (sl_race_world of_example_store 5)) = Some (SlPopped 1 5)
    \<and> {5} = set xs \<union> wl_out (sl_race_world of_example_store 5) \<union> (\<Union>t. sl_own (wl_pc (sl_race_world of_example_store 5) t))"
proof -
  have "sl_reaches (sl_start of_example_store {5}) (0 + length (sl_race 5)) (sl_race_world of_example_store 5)"
    by (rule sl_acts_reaches [OF sl_reaches.start sl_race_run])
  moreover have "(13::nat) \<le> 2 ^ LENGTH(64)" by (rule order.trans [of _ "2 ^ 4"]) (simp, rule power_increasing, simp_all)
  then have "0 + length (sl_race 5) \<le> 2 ^ LENGTH(64)" by (simp only: sl_race_def) simp
  ultimately show ?thesis using BofSingleListOf_is_a_stack [of of_example_store "{5}" "0 + length (sl_race 5)" "sl_race_world of_example_store 5"]
    by (auto simp: sl_race_world_def)
qed

text \<open>
  C27. The counter of a list that threads share, after up to 2 to the 64 actions in any interleaving from a new list. \<^verbatim>\<open>InsertHead\<close> decides
  after its exchange, from another look at the head, whether it has succeeded: it returns false exactly when the
  head is again what it replaced, for an item it has put on the list all the same (its last exchange succeeded), and changes nothing
  more. The number of items is, modulo 2 to the 32, the length of the list, less one for every insertion that was given up in this way, less the threads that
  have still to count their item, plus those that have still to discount theirs. So when no call is under way the counter is short by
  the number of insertions given up: with none it is exact, and after one on an empty list it is 2 to the 32 minus 1.
\<close>

theorem BofSingleListOf_InsertHead_misjudged:
  assumes "sl_counts (sl_start st items) n m w" "n \<le> 2 ^ LENGTH(64)"
  shows "(\<exists>xs. sl_chain (it_pNextItem_X (fst (wl_mem w))) (sl_pNextItem_X (snd (wl_mem w))) xs
      \<and> finite {t. sl_uncounted (wl_pc w t)} \<and> finite {t. sl_undiscounted (wl_pc w t)}
      \<and> BofSingleListOf_GetNbItemAvailable (snd (wl_mem w)) = of_nat (length xs) - of_nat m
          - of_nat (card {t. sl_uncounted (wl_pc w t)}) + of_nat (card {t. sl_undiscounted (wl_pc w t)})
      \<and> ((\<forall>t. wl_pc w t = SlIdle) \<longrightarrow> BofSingleListOf_GetNbItemAvailable (snd (wl_mem w)) = of_nat (length xs) - of_nat m))
    \<and> (\<forall>t i tmp spurious w'. wl_pc w t = InsCheck i tmp \<and> sl_act (SlRun t spurious) w = Some w' \<longrightarrow>
        sl_last t (wl_events w') = Some (SlPushed t i) \<and> wl_mem w' = wl_mem w
        \<and> (if sl_pNextItem_X (snd (wl_mem w)) = tmp
            then wl_pc w' t = InsRet False \<and> sl_counts (sl_start st items) (Suc n) (Suc m) w'
            else wl_pc w' t = InsCount \<and> sl_counts (sl_start st items) (Suc n) m w'))"
proof -
  from sl_counts_ok [OF assms] obtain k xs where xs: "sl_wok items k xs w" "sl_count_ok m xs w" by blast
  have chain: "sl_chain (it_pNextItem_X (fst (wl_mem w))) (sl_pNextItem_X (snd (wl_mem w))) xs"
    using xs(1) unfolding sl_wok_def sl_ok_def by blast
  note count = xs(2) [unfolded sl_count_ok_def, folded BofSingleListOf_GetNbItemAvailable_def]
  have idle: "BofSingleListOf_GetNbItemAvailable (snd (wl_mem w)) = of_nat (length xs) - of_nat m" if "\<forall>t. wl_pc w t = SlIdle"
    using count that by simp
  have "sl_last t (wl_events w') = Some (SlPushed t i) \<and> wl_mem w' = wl_mem w
      \<and> (if sl_pNextItem_X (snd (wl_mem w)) = tmp
          then wl_pc w' t = InsRet False \<and> sl_counts (sl_start st items) (Suc n) (Suc m) w'
          else wl_pc w' t = InsCount \<and> sl_counts (sl_start st items) (Suc n) m w')"
    if pc: "wl_pc w t = InsCheck i tmp" and act: "sl_act (SlRun t spurious) w = Some w'" for t i tmp spurious w'
  proof -
    have "sl_answers t (wl_events w) (wl_pc w t)" using xs(1) unfolding sl_wok_def sl_ok_def by blast
    then have last: "sl_last t (wl_events w) = Some (SlPushed t i)" using pc by simp
    obtain st' l where m: "wl_mem w = (st', l)" by fastforce
    have w': "w' = w\<lparr>wl_pc := (wl_pc w)(t := if sl_pNextItem_X l = tmp then InsRet False else InsCount)\<rparr>"
      using act pc m by (cases w) (auto simp: sl_act_def sl_event_of_def)
    have "sl_misjudging (SlRun t spurious) w \<longleftrightarrow> sl_pNextItem_X l = tmp" using pc m by (simp add: sl_misjudging_def sl_misjudges_def)
    then have "sl_counts (sl_start st items) (Suc n) (m + of_bool (sl_pNextItem_X l = tmp)) w'" using sl_counts.act [OF assms(1) act] by simp
    then show ?thesis using last w' m by (auto split: if_splits)
  qed
  then show ?thesis using chain count idle by blast
qed

theorem BofSingleListOf_InsertHead_misjudged_witness:
  "\<exists>xs. sl_chain (it_pNextItem_X (fst (wl_mem (sl_race_world of_example_store 5)))) (sl_pNextItem_X (snd (wl_mem (sl_race_world of_example_store 5)))) xs
    \<and> xs = [] \<and> BofSingleListOf_GetNbItemAvailable (snd (wl_mem (sl_race_world of_example_store 5))) = of_nat (length xs) - of_nat 1
    \<and> wl_pc (sl_race_world of_example_store 5) 0 = InsRet False"
proof -
  have "sl_counts (sl_start of_example_store {5}) (0 + length (sl_race 5)) (0 + sl_given_up (sl_race 5) (sl_start of_example_store {5}))
    (sl_race_world of_example_store 5)" by (rule sl_acts_counts [OF sl_counts.start sl_race_run])
  then have "sl_counts (sl_start of_example_store {5}) (length (sl_race 5)) 1 (sl_race_world of_example_store 5)" by (simp add: sl_race_gives_up)
  moreover have "(13::nat) \<le> 2 ^ LENGTH(64)" by (rule order.trans [of _ "2 ^ 4"]) (simp, rule power_increasing, simp_all)
  then have "length (sl_race 5) \<le> 2 ^ LENGTH(64)" by (simp only: sl_race_def) simp
  moreover have "{t. sl_uncounted (wl_pc (sl_race_world of_example_store 5) t)} = {}" "{t. sl_undiscounted (wl_pc (sl_race_world of_example_store 5) t)} = {}"
    by (simp_all add: sl_race_world_def)
  ultimately show ?thesis
    using BofSingleListOf_InsertHead_misjudged [of of_example_store "{5}" "length (sl_race 5)" 1 "sl_race_world of_example_store 5"]
    by (auto simp: sl_race_world_def)
qed

text \<open>
  C22. A new pool of up to 2 to the 31 items: any sequence of \<^verbatim>\<open>GetItem\<close> and \<^verbatim>\<open>ReleaseItem\<close> by one thread returns, no item is given
  to two owners, a get fails only when every item is out, and an item that is not out is refused and nothing changes. With
  assertions a refused release stops the program. The states of items that do not belong to the pool are free.
\<close>

theorem BofPoolOf_refines_pool:
  assumes "nb \<le> 0x80000000" "\<forall>i \<ge> unat nb. it_State_E st i = ITEM_STATE_FREE"
  shows "\<exists>st0 p st' p' os. BofPoolOf_ctor st nb = Ret (st0, p) \<and> pool_run po_get po_release ops (st0, p) = Ret ((st', p'), os)
    \<and> po_inv (st', p') \<and> pool_allows (unat nb) {} ops os
    \<and> (\<forall>i. i \<in> po_out (st', p') \<or> BofPoolOf_ReleaseItem False st' p' (Some i) = AssertFailed)"
proof -
  from po_ctor_ok [OF assms] obtain st0 p where
    p: "BofPoolOf_ctor st nb = Ret (st0, p)" "po_ok st0 p (rev [0..<unat nb])" "po_mMaxNumberOfItemInPool_U32 p = nb" by blast
  have "po_inv (st0, p)" "po_cap (st0, p) = unat nb" using p(2,3) by (auto simp: po_inv_def po_cap_def)
  moreover from this(2) have "po_out (st0, p) = {}" unfolding po_out_eq [OF p(2)] by (simp add: lessThan_atLeast0)
  ultimately obtain s' os where
    run: "pool_run po_get po_release ops (st0, p) = Ret (s', os)" "po_inv s'" "pool_allows (unat nb) {} ops os"
    using poolof.run_allowed [of "(st0, p)" ops] by metis
  obtain st' p' xs where s': "s' = (st', p')" "po_ok st' p' xs" using run(2) by (cases s') (auto simp: po_inv_def)
  have "i \<in> po_out (st', p') \<or> BofPoolOf_ReleaseItem False st' p' (Some i) = AssertFailed" for i
    using po_ok_refuse [OF s'(2), of i False] po_out_eq [OF s'(2)] by (auto simp: po_cap_def)
  with p(1) run s'(1) show ?thesis by blast
qed

theorem BofPoolOf_refines_pool_witness:
  "\<exists>st0 p st' p' os. BofPoolOf_ctor of_example_store 2 = Ret (st0, p)
    \<and> pool_run po_get po_release [PoolGet, PoolGet, PoolGet, PoolRelease 1, PoolRelease 1] (st0, p) = Ret ((st', p'), os)
    \<and> pool_allows 2 {} [PoolGet, PoolGet, PoolGet, PoolRelease 1, PoolRelease 1] os"
  using BofPoolOf_refines_pool [of 2 of_example_store "[PoolGet, PoolGet, PoolGet, PoolRelease 1, PoolRelease 1]"]
  by (auto simp: of_example_store_def)

text \<open>
  C6. A new \<^verbatim>\<open>BofFifoOf\<close> with storage for up to 2 to the 31 items, used as its comment prescribes (a free item is taken, filled and
  inserted; an item that was waited for is read and given back), is a bounded queue: every sequence of such calls
  that do not wait returns and gives the codes and the values of the abstract queue.
\<close>

theorem BofFifoOf_is_a_bounded_queue:
  assumes "nb \<noteq> 0" "nb \<le> 0x80000000" "\<forall>i \<ge> unat nb. it_State_E st i = ITEM_STATE_FREE"
  shows "\<exists>st0 f s' os. BofFifoOf_ctor st nb = Ret (st0, f)
    \<and> fifo_run (ff_put ndebug) (ff_take ndebug) ops (st0, f, data) = Ret (s', os) \<and> ff_inv s'
    \<and> queue_run (unat nb) BOF_ERR_FULL BOF_ERR_EMPTY ops [] = (ff_contents s', os)"
proof -
  from ff_ctor_ok [OF assms] obtain st0 f p where
    f: "BofFifoOf_ctor st nb = Ret (st0, f)" "ff_ok st0 f p (rev [0..<unat nb]) []" "po_mMaxNumberOfItemInPool_U32 p = nb" by blast
  have "ff_inv (st0, f, data)" "ff_contents (st0, f, data) = []" "ff_cap (st0, f, data) = unat nb"
    using f(2,3) ff_ok_view [OF f(2), of data] by (auto simp: ff_inv_def)
  moreover have "list_all (fifo_fits (\<lambda>_. True)) ops" by (simp add: list_all_iff)
  ultimately show ?thesis using fifoof.run_refines [of "(st0, f, data)" ops ndebug] f(1) by auto
qed

theorem BofFifoOf_is_a_bounded_queue_witness:
  "\<exists>st0 f s' os. BofFifoOf_ctor of_example_store 2 = Ret (st0, f)
    \<and> fifo_run (ff_put False) (ff_take False) [FifoPush CHR ''a'', FifoPush CHR ''b'', FifoPush CHR ''c'', FifoPop] (st0, f, \<lambda>_. CHR ''x'') = Ret (s', os)
    \<and> os = [(BOF_ERR_NO_ERROR, None), (BOF_ERR_NO_ERROR, None), (BOF_ERR_FULL, None), (BOF_ERR_NO_ERROR, Some CHR ''a'')]"
  using BofFifoOf_is_a_bounded_queue [of 2 of_example_store False "[FifoPush CHR ''a'', FifoPush CHR ''b'', FifoPush CHR ''c'', FifoPop]"
      "\<lambda>_. CHR ''x''"]
  by (auto simp: of_example_store_def)

text \<open>
  C29. A caller of \<^verbatim>\<open>WaitForItem\<close> that finds the queue empty and is woken any number of times in vain: when it then finds an item it
  gets the oldest one; when it is asked to quit it gets true and no item; when nothing more happens it gets false with a
  time limit and never returns without one. On a queue that is not empty it gets the oldest item at once, also when it is asked to
  quit. The mutex is free afterwards.
\<close>

theorem BofFifoOf_WaitForItem_outcomes:
  assumes "\<not> ff_mFifoMtx f" "BofDoubleListOf_IsEmpty (ff_mFifoItemList f)" "list_all ff_idle pre" "dl_holds st1 l1 (ys @ [i])"
    "BofDoubleListOf_IsEmpty l0"
  shows "(\<exists>st' l'. BofFifoOf_WaitForItem (pre @ ((st1, l1, pool), q) # sched) st f TimeOut False True
        = Ret (st', f\<lparr>ff_mFifoItemList := l', ff_mpInternalFifoStorage := pool\<rparr>, True, Some i) \<and> dl_holds st' l' ys)
    \<and> BofFifoOf_WaitForItem (pre @ ((st0, l0, pool), True) # sched) st f TimeOut False True
        = Ret (st0, f\<lparr>ff_mFifoItemList := l0, ff_mpInternalFifoStorage := pool\<rparr>, True, None)
    \<and> (TimeOut = 0xFFFFFFFF \<or> (\<exists>st' f'. BofFifoOf_WaitForItem pre st f TimeOut False True = Ret (st', f', False, None)
        \<and> \<not> ff_mFifoMtx f' \<and> BofDoubleListOf_IsEmpty (ff_mFifoItemList f')))
    \<and> BofFifoOf_WaitForItem pre st f 0xFFFFFFFF False True = Retrying
    \<and> (\<exists>st' l'. BofFifoOf_WaitForItem sched st1 (f\<lparr>ff_mFifoItemList := l1, ff_mpInternalFifoStorage := pool\<rparr>) TimeOut q True
        = Ret (st', f\<lparr>ff_mFifoItemList := l', ff_mpInternalFifoStorage := pool\<rparr>, True, Some i) \<and> dl_holds st' l' ys)"
    (is "?woken \<and> ?quit \<and> ?late \<and> ?never \<and> ?now")
proof (intro conjI)
  let ?f = "f\<lparr>ff_mFifoMtx := True\<rparr>" and ?t = "TimeOut \<noteq> 0xFFFFFFFF"
  have e: "BofDoubleListOf_IsEmpty (ff_mFifoItemList ?f)" and ne: "\<not> BofDoubleListOf_IsEmpty l1"
    using assms(2) dl_holds_IsEmpty [OF assms(4)] by simp_all
  note skip = ff_wait_skip [OF assms(3) e] and woken = ff_wait_woken [OF e]
  show ?woken using skip [of ?t _ sched st] woken ne by (intro ff_WaitForItem_item [OF assms(1) _ assms(4)]) (simp add: ff_wait_ready)
  show ?quit using assms(1,5) skip [of ?t _ sched st] woken
    by (cases f) (simp add: BofFifoOf_WaitForItem_def ff_lock_def ff_unlock_def ff_wait_ready)
  show ?late using assms(1) ff_wait_idle [OF assms(3) e, of ?t st]
    by (auto simp: BofFifoOf_WaitForItem_def ff_lock_def ff_unlock_def)
  show ?never using assms(1) ff_wait_idle [OF assms(3) e, of False st] by (auto simp: BofFifoOf_WaitForItem_def ff_lock_def)
  show ?now using ff_WaitForItem_item [of "f\<lparr>ff_mFifoItemList := l1, ff_mpInternalFifoStorage := pool\<rparr>" TimeOut sched st1 q st1 pool l1 q ys i]
      assms(1,4) ne by (simp add: ff_wait_ready)
qed


definition ff_example :: BofFifoOf where
  "ff_example = \<lparr>ff_mFifoMtx = False, ff_mFifoItemList = BofDoubleListOf_ctor, ff_mpInternalFifoStorage = None\<rparr>"

definition ff_example_list :: BofDoubleListOf where
  "ff_example_list = \<lparr>dl_pNextItem_X = Item 7, dl_pPrevItem_X = Item 7, dl_mNbItemAvailable = 1, dl_mNbMaxItemAvailable = 1\<rparr>"

theorem BofFifoOf_WaitForItem_outcomes_witness:
  "(\<exists>st' f'. BofFifoOf_WaitForItem [((of_example_store, BofDoubleListOf_ctor, None), False),
        ((of_example_store\<lparr>it_pNextItem_X := \<lambda>_. DoubleHead, it_pPrevItem_X := \<lambda>_. DoubleHead\<rparr>, ff_example_list, None), False)]
        of_example_store ff_example 100 False True = Ret (st', f', True, Some 7))
   \<and> BofFifoOf_WaitForItem [((of_example_store, BofDoubleListOf_ctor, None), False)] of_example_store ff_example 0xFFFFFFFF False True = Retrying"
  using BofFifoOf_WaitForItem_outcomes [of ff_example "[((of_example_store, BofDoubleListOf_ctor, None), False)]"
      "of_example_store\<lparr>it_pNextItem_X := \<lambda>_. DoubleHead, it_pPrevItem_X := \<lambda>_. DoubleHead\<rparr>" ff_example_list "[]" 7
      BofDoubleListOf_ctor None False "[]" of_example_store 100 of_example_store]
  by (auto simp: ff_example_def ff_example_list_def ff_idle_def dl_holds_def BofDoubleListOf_IsEmpty_def BofDoubleListOf_ctor_def)

end
