(* ===== verification/Bof_Rational.thy ===== *)
theory Bof_Rational
  imports Complex_Main Bof_Prelude
begin

text \<open>
  The rational numbers of \<^verbatim>\<open>bofrational.h\<close> and \<^verbatim>\<open>bofrational.cpp\<close>, at the width of the source, against the rational
  numbers. A signed 64-bit integer is the word of its bits. Where C++ mixes a signed and an unsigned operand
  the operation is the unsigned one; a signed product or negation that leaves the range is undefined.
\<close>

unbundle bit_operations_syntax

section \<open>The class\<close>

type_synonym s64 = "64 word"

record BofRational =
  rat_mNumerator_S64 :: s64
  rat_mDenominator_U64 :: u64

definition s64_mult :: "s64 \<Rightarrow> s64 \<Rightarrow> (s64 \<Rightarrow> 'b outcome) \<Rightarrow> 'b outcome" where
  "s64_mult a b k = (if - (2 ^ 63) \<le> sint a * sint b \<and> sint a * sint b < 2 ^ 63 then k (a * b) else Undefined)"

definition s64_neg :: "s64 \<Rightarrow> (s64 \<Rightarrow> 'b outcome) \<Rightarrow> 'b outcome" where
  "s64_neg a k = (if sint a = - (2 ^ 63) then Undefined else k (- a))"

text \<open>The loop of the Euclidean algorithm.\<close>

function rat_gcd :: "u64 \<Rightarrow> u64 \<Rightarrow> u64" where
  "rat_gcd u v = (if u > 0 then rat_gcd (v mod u) u else v)"
  by auto

termination
proof (relation "measure (\<lambda>(u, v). unat u)")
  fix u v :: u64
  assume "u > 0"
  then have "v mod u < u" by (simp add: word_mod_less_divisor)
  then show "((v mod u, u), u, v) \<in> measure (\<lambda>(u, v). unat u)" by (simp add: word_less_nat_alt)
qed simp

declare rat_gcd.simps [simp del]

definition BofRational_Normalize :: "BofRational \<Rightarrow> BofRational outcome" where
  "BofRational_Normalize r =
     (let num = rat_mNumerator_S64 r; den = rat_mDenominator_U64 r;
          go = (\<lambda>u. let v = rat_gcd u den
                    in if v > 1 then Ret \<lparr>rat_mNumerator_S64 = num div v, rat_mDenominator_U64 = den div v\<rparr> else Ret r)
      in if 0 \<le> sint num then go num else s64_neg num go)"

definition BofRational_Set :: "s64 \<Rightarrow> u64 \<Rightarrow> bool \<Rightarrow> BofRational outcome" where
  "BofRational_Set num den Normalize_B =
     (let r = \<lparr>rat_mNumerator_S64 = num, rat_mDenominator_U64 = (if den \<noteq> 0 then den else 1)\<rparr>
      in if Normalize_B then BofRational_Normalize r else Ret r)"

definition BofRational_ctor :: BofRational where
  "BofRational_ctor = \<lparr>rat_mNumerator_S64 = 0, rat_mDenominator_U64 = 1\<rparr>"

definition BofRational_ctor_int :: "s64 \<Rightarrow> BofRational" where
  "BofRational_ctor_int num = \<lparr>rat_mNumerator_S64 = num, rat_mDenominator_U64 = 1\<rparr>"

definition BofRational_ctor_set :: "s64 \<Rightarrow> u64 \<Rightarrow> bool \<Rightarrow> BofRational outcome" where
  "BofRational_ctor_set num den Normalize_B = BofRational_Set num den Normalize_B"

section \<open>Comparison\<close>

definition BofRational_eq :: "BofRational \<Rightarrow> BofRational \<Rightarrow> bool" where
  "BofRational_eq a r \<longleftrightarrow> rat_mNumerator_S64 a = rat_mNumerator_S64 r \<and> rat_mDenominator_U64 a = rat_mDenominator_U64 r"

definition BofRational_eq_int :: "BofRational \<Rightarrow> s64 \<Rightarrow> bool" where
  "BofRational_eq_int a val \<longleftrightarrow> rat_mNumerator_S64 a = val \<and> rat_mDenominator_U64 a = 1"

definition BofRational_ne :: "BofRational \<Rightarrow> BofRational \<Rightarrow> bool" where
  "BofRational_ne a r \<longleftrightarrow> rat_mNumerator_S64 a \<noteq> rat_mNumerator_S64 r \<or> rat_mDenominator_U64 a \<noteq> rat_mDenominator_U64 r"

definition BofRational_ne_int :: "BofRational \<Rightarrow> s64 \<Rightarrow> bool" where
  "BofRational_ne_int a val \<longleftrightarrow> rat_mNumerator_S64 a \<noteq> val \<or> rat_mDenominator_U64 a \<noteq> 1"

text \<open>The two products that the order operators compare, as signed integers.\<close>

definition rat_cross :: "BofRational \<Rightarrow> BofRational \<Rightarrow> int \<times> int" where
  "rat_cross a r = (sint (rat_mNumerator_S64 a * rat_mDenominator_U64 r), sint (rat_mDenominator_U64 a * rat_mNumerator_S64 r))"

definition BofRational_lt :: "BofRational \<Rightarrow> BofRational \<Rightarrow> bool" where
  "BofRational_lt a r = (case rat_cross a r of (x, y) \<Rightarrow> x < y)"

definition BofRational_le :: "BofRational \<Rightarrow> BofRational \<Rightarrow> bool" where
  "BofRational_le a r = (case rat_cross a r of (x, y) \<Rightarrow> x \<le> y)"

definition BofRational_gt :: "BofRational \<Rightarrow> BofRational \<Rightarrow> bool" where
  "BofRational_gt a r = (case rat_cross a r of (x, y) \<Rightarrow> x > y)"

definition BofRational_ge :: "BofRational \<Rightarrow> BofRational \<Rightarrow> bool" where
  "BofRational_ge a r = (case rat_cross a r of (x, y) \<Rightarrow> x \<ge> y)"

definition BofRational_lt_int :: "BofRational \<Rightarrow> s64 \<Rightarrow> bool" where
  "BofRational_lt_int a val \<longleftrightarrow> sint (rat_mNumerator_S64 a) < sint (rat_mDenominator_U64 a * val)"

definition BofRational_le_int :: "BofRational \<Rightarrow> s64 \<Rightarrow> bool" where
  "BofRational_le_int a val \<longleftrightarrow> sint (rat_mNumerator_S64 a) \<le> sint (rat_mDenominator_U64 a * val)"

definition BofRational_gt_int :: "BofRational \<Rightarrow> s64 \<Rightarrow> bool" where
  "BofRational_gt_int a val \<longleftrightarrow> sint (rat_mNumerator_S64 a) > sint (rat_mDenominator_U64 a * val)"

definition BofRational_ge_int :: "BofRational \<Rightarrow> s64 \<Rightarrow> bool" where
  "BofRational_ge_int a val \<longleftrightarrow> sint (rat_mNumerator_S64 a) \<ge> sint (rat_mDenominator_U64 a * val)"

section \<open>Arithmetic\<close>

text \<open>The prefix operators return the new value, the postfix ones the old one.\<close>

definition BofRational_pre_inc :: "BofRational \<Rightarrow> BofRational \<times> BofRational" where
  "BofRational_pre_inc a = (let a = a\<lparr>rat_mNumerator_S64 := rat_mNumerator_S64 a + rat_mDenominator_U64 a\<rparr> in (a, a))"

definition BofRational_post_inc :: "BofRational \<Rightarrow> BofRational \<times> BofRational" where
  "BofRational_post_inc a = (a\<lparr>rat_mNumerator_S64 := rat_mNumerator_S64 a + rat_mDenominator_U64 a\<rparr>, a)"

definition BofRational_pre_dec :: "BofRational \<Rightarrow> BofRational \<times> BofRational" where
  "BofRational_pre_dec a = (let a = a\<lparr>rat_mNumerator_S64 := rat_mNumerator_S64 a - rat_mDenominator_U64 a\<rparr> in (a, a))"

definition BofRational_post_dec :: "BofRational \<Rightarrow> BofRational \<times> BofRational" where
  "BofRational_post_dec a = (a\<lparr>rat_mNumerator_S64 := rat_mNumerator_S64 a - rat_mDenominator_U64 a\<rparr>, a)"

text \<open>An operator and its assignment form give the same value to \<^verbatim>\<open>Set\<close>.\<close>

definition BofRational_plus :: "BofRational \<Rightarrow> BofRational \<Rightarrow> BofRational outcome" where
  "BofRational_plus a r =
     BofRational_Set (rat_mNumerator_S64 a * rat_mDenominator_U64 r + rat_mNumerator_S64 r * rat_mDenominator_U64 a)
       (rat_mDenominator_U64 a * rat_mDenominator_U64 r) True"

definition BofRational_plus_int :: "BofRational \<Rightarrow> s64 \<Rightarrow> BofRational outcome" where
  "BofRational_plus_int a val =
     BofRational_Set (rat_mNumerator_S64 a + val * rat_mDenominator_U64 a) (rat_mDenominator_U64 a) True"

definition BofRational_minus :: "BofRational \<Rightarrow> BofRational \<Rightarrow> BofRational outcome" where
  "BofRational_minus a r =
     BofRational_Set (rat_mNumerator_S64 a * rat_mDenominator_U64 r - rat_mNumerator_S64 r * rat_mDenominator_U64 a)
       (rat_mDenominator_U64 a * rat_mDenominator_U64 r) True"

definition BofRational_minus_int :: "BofRational \<Rightarrow> s64 \<Rightarrow> BofRational outcome" where
  "BofRational_minus_int a val =
     BofRational_Set (rat_mNumerator_S64 a - val * rat_mDenominator_U64 a) (rat_mDenominator_U64 a) True"

definition BofRational_times :: "BofRational \<Rightarrow> BofRational \<Rightarrow> BofRational outcome" where
  "BofRational_times a r =
     s64_mult (rat_mNumerator_S64 a) (rat_mNumerator_S64 r) (\<lambda>num.
       BofRational_Set num (rat_mDenominator_U64 a * rat_mDenominator_U64 r) True)"

definition BofRational_times_int :: "BofRational \<Rightarrow> s64 \<Rightarrow> BofRational outcome" where
  "BofRational_times_int a val =
     s64_mult (rat_mNumerator_S64 a) val (\<lambda>num. BofRational_Set num (rat_mDenominator_U64 a) True)"

definition BofRational_divide :: "BofRational \<Rightarrow> BofRational \<Rightarrow> BofRational outcome" where
  "BofRational_divide a r =
     BofRational_Set (rat_mNumerator_S64 a * rat_mDenominator_U64 r) (rat_mDenominator_U64 a * rat_mNumerator_S64 r) True"

definition BofRational_divide_int :: "BofRational \<Rightarrow> s64 \<Rightarrow> BofRational outcome" where
  "BofRational_divide_int a val = BofRational_Set (rat_mNumerator_S64 a) (rat_mDenominator_U64 a * val) True"

definition BofRational_Inv :: "BofRational \<Rightarrow> BofRational outcome" where
  "BofRational_Inv a = BofRational_Set (rat_mDenominator_U64 a) (rat_mNumerator_S64 a) True"

text \<open>The integer parts; a denominator of 0 is a division by zero.\<close>

definition rat_udiv :: "u64 \<Rightarrow> u64 \<Rightarrow> u64 outcome" where
  "rat_udiv a b = (if b = 0 then Undefined else Ret (a div b))"

definition BofRational_Ceil :: "BofRational \<Rightarrow> s64 outcome" where
  "BofRational_Ceil a = rat_udiv (rat_mNumerator_S64 a + rat_mDenominator_U64 a - 1) (rat_mDenominator_U64 a)"

definition BofRational_Floor :: "BofRational \<Rightarrow> s64 outcome" where
  "BofRational_Floor a = rat_udiv (rat_mNumerator_S64 a) (rat_mDenominator_U64 a)"

definition BofRational_Round :: "BofRational \<Rightarrow> s64 outcome" where
  "BofRational_Round a =
     (if rat_mDenominator_U64 a > 1
      then rat_udiv (rat_mNumerator_S64 a + drop_bit 1 (rat_mDenominator_U64 a + 1)) (rat_mDenominator_U64 a)
      else Ret (rat_mNumerator_S64 a))"

definition BofRational_IsInteger :: "BofRational \<Rightarrow> bool" where
  "BofRational_IsInteger a \<longleftrightarrow> rat_mDenominator_U64 a = 1"

definition BofRational_Num :: "BofRational \<Rightarrow> s64" where
  "BofRational_Num a = rat_mNumerator_S64 a"

definition BofRational_Den :: "BofRational \<Rightarrow> u64" where
  "BofRational_Den a = rat_mDenominator_U64 a"


text \<open>The assignment forms: the new value of the object, which they also return.\<close>

definition BofRational_plus_assign :: "BofRational \<Rightarrow> BofRational \<Rightarrow> BofRational outcome" where
  "BofRational_plus_assign a r = BofRational_plus a r"

definition BofRational_plus_assign_int :: "BofRational \<Rightarrow> s64 \<Rightarrow> BofRational outcome" where
  "BofRational_plus_assign_int a val = BofRational_plus_int a val"

definition BofRational_minus_assign :: "BofRational \<Rightarrow> BofRational \<Rightarrow> BofRational outcome" where
  "BofRational_minus_assign a r = BofRational_minus a r"

definition BofRational_minus_assign_int :: "BofRational \<Rightarrow> s64 \<Rightarrow> BofRational outcome" where
  "BofRational_minus_assign_int a val = BofRational_minus_int a val"

definition BofRational_times_assign :: "BofRational \<Rightarrow> BofRational \<Rightarrow> BofRational outcome" where
  "BofRational_times_assign a r = BofRational_times a r"

definition BofRational_times_assign_int :: "BofRational \<Rightarrow> s64 \<Rightarrow> BofRational outcome" where
  "BofRational_times_assign_int a val = BofRational_times_int a val"

definition BofRational_divide_assign :: "BofRational \<Rightarrow> BofRational \<Rightarrow> BofRational outcome" where
  "BofRational_divide_assign a r = BofRational_divide a r"

definition BofRational_divide_assign_int :: "BofRational \<Rightarrow> s64 \<Rightarrow> BofRational outcome" where
  "BofRational_divide_assign_int a val = BofRational_divide_int a val"

text \<open>The operators with an integer on the left.\<close>

definition int_BofRational_lt :: "s64 \<Rightarrow> BofRational \<Rightarrow> bool" where
  "int_BofRational_lt i r = BofRational_lt (BofRational_ctor_int i) r"

definition int_BofRational_le :: "s64 \<Rightarrow> BofRational \<Rightarrow> bool" where
  "int_BofRational_le i r = BofRational_le (BofRational_ctor_int i) r"

definition int_BofRational_plus :: "s64 \<Rightarrow> BofRational \<Rightarrow> BofRational outcome" where
  "int_BofRational_plus i r = BofRational_plus (BofRational_ctor_int i) r"

definition int_BofRational_minus :: "s64 \<Rightarrow> BofRational \<Rightarrow> BofRational outcome" where
  "int_BofRational_minus i r = BofRational_minus (BofRational_ctor_int i) r"

definition int_BofRational_times :: "s64 \<Rightarrow> BofRational \<Rightarrow> BofRational outcome" where
  "int_BofRational_times i r = BofRational_times (BofRational_ctor_int i) r"

definition int_BofRational_divide :: "s64 \<Rightarrow> BofRational \<Rightarrow> BofRational outcome" where
  "int_BofRational_divide i r = BofRational_divide (BofRational_ctor_int i) r"

end
