(* ===== verification/Bof_Rational_Props.thy ===== *)
theory Bof_Rational_Props
  imports Bof_Rational
begin

text \<open>
  The class \<^verbatim>\<open>BofRational\<close> against the rational numbers: exact and in lowest terms as long as numerators are not
  negative and the products fit their words; wrong as soon as a negative fraction is reduced.
\<close>

unbundle bit_operations_syntax

section \<open>Words\<close>

lemma sint_range: "- (2 ^ 63) \<le> sint (x::s64)" "sint (x::s64) < 2 ^ 63"
  using sint_range_size [of x] by (simp_all add: word_size)

text \<open>The bits of a signed number: what its operations are as unsigned ones.\<close>

lemma uint_of_s64: "uint (x::s64) = sint x mod 2 ^ 64"
proof -
  have "uint x = uint (word_of_int (sint x) :: s64)" by simp
  also have "\<dots> = take_bit 64 (sint x)" by (simp only: uint_word_of_int_eq) simp
  finally show ?thesis by (simp only: take_bit_eq_mod)
qed

lemma sint_nonneg: "0 \<le> sint (x::s64) \<Longrightarrow> sint x = uint x"
  using sint_range(2) [of x] unfolding uint_of_s64 by simp

lemma sint_neg:
  assumes "sint (x::s64) < 0"
  shows "uint x = sint x + 2 ^ 64"
proof -
  have "(sint x + 2 ^ 64) mod 2 ^ 64 = sint x + 2 ^ 64" by (rule mod_pos_pos_trivial) (use assms sint_range(1) [of x] in auto)
  then show ?thesis unfolding uint_of_s64 by simp
qed

lemma uint_small_sint: "uint (x::s64) < 2 ^ 63 \<Longrightarrow> sint x = uint x"
  using sint_nonneg [of x] sint_neg [of x] sint_range(1) [of x] by (cases "sint x < 0") auto

text \<open>An operation that does not leave the range is exact, signed and unsigned.\<close>

lemma sint_exact: "- (2 ^ 63) \<le> n \<Longrightarrow> n < 2 ^ 63 \<Longrightarrow> sint (word_of_int n :: s64) = n"
  by (simp add: signed_of_int signed_take_bit_int_eq_self)

lemma uint_exact: "0 \<le> n \<Longrightarrow> n < 2 ^ 64 \<Longrightarrow> uint (word_of_int n :: u64) = n"
  by (simp add: uint_word_of_int_eq take_bit_int_eq_self)

lemma mixed_mult: "(a::s64) * b = word_of_int (sint a * uint b)" "b * (a::s64) = word_of_int (sint a * uint b)"
  by (simp_all add: mult.commute)

lemma rat_gcd_is_gcd: "uint (rat_gcd u v) = gcd (uint u) (uint v)"
proof (induction u v rule: rat_gcd.induct)
  case (1 u v)
  show ?case
  proof (cases "u > 0")
    case True
    with 1 have "uint (rat_gcd u v) = gcd (uint (v mod u)) (uint u)" by (subst rat_gcd.simps) simp
    also have "\<dots> = gcd (uint u) (uint v)" by (simp add: uint_mod_distrib gcd.commute gcd_red_int [symmetric])
    finally show ?thesis .
  next
    case False
    then have "u = 0" by (simp add: word_gt_0)
    then show ?thesis by (subst rat_gcd.simps) simp
  qed
qed

section \<open>The value of a fraction\<close>

definition rat_value :: "BofRational \<Rightarrow> rat" where
  "rat_value r = Fract (sint (rat_mNumerator_S64 r)) (uint (rat_mDenominator_U64 r))"

text \<open>A fraction in lowest terms that is not negative.\<close>

definition rat_normal :: "BofRational \<Rightarrow> bool" where
  "rat_normal r \<longleftrightarrow> 0 \<le> sint (rat_mNumerator_S64 r) \<and> rat_mDenominator_U64 r \<noteq> 0
     \<and> coprime (sint (rat_mNumerator_S64 r)) (uint (rat_mDenominator_U64 r))"

lemma Fract_div_gcd:
  assumes "0 < d"
  shows "Fract (n div gcd n d) (d div gcd n d) = Fract n d"
proof -
  have "n = gcd n d * (n div gcd n d)" "d = gcd n d * (d div gcd n d)" by simp_all
  moreover have "gcd n d \<noteq> 0" using assms by simp
  ultimately show ?thesis by (metis mult_rat_cancel)
qed

lemma uint_pos: "(x::u64) \<noteq> 0 \<Longrightarrow> 0 < uint x"
  by (simp add: order_less_le uint_0_iff)

lemma Normalize_nonneg:
  assumes "0 \<le> sint (rat_mNumerator_S64 r)" "rat_mDenominator_U64 r \<noteq> 0"
  shows "\<exists>r'. BofRational_Normalize r = Ret r' \<and> rat_normal r' \<and> rat_value r' = rat_value r"
proof -
  let ?n = "uint (rat_mNumerator_S64 r)" and ?d = "uint (rat_mDenominator_U64 r)"
  let ?v = "rat_gcd (rat_mNumerator_S64 r) (rat_mDenominator_U64 r)"
  let ?r = "\<lparr>rat_mNumerator_S64 = rat_mNumerator_S64 r div ?v, rat_mDenominator_U64 = rat_mDenominator_U64 r div ?v\<rparr>"
  have v: "uint ?v = gcd ?n ?d" by (rule rat_gcd_is_gcd)
  have d: "0 < ?d" using assms(2) by (rule uint_pos)
  have n: "?n < 2 ^ 63" "sint (rat_mNumerator_S64 r) = ?n"
    using sint_nonneg [OF assms(1)] sint_range(2) [of "rat_mNumerator_S64 r"] by auto
  have g: "0 < gcd ?n ?d" using d by simp
  show ?thesis
  proof (cases "1 < ?v")
    case True
    have u: "uint (rat_mNumerator_S64 ?r) = ?n div gcd ?n ?d" "uint (rat_mDenominator_U64 ?r) = ?d div gcd ?n ?d"
      by (simp_all add: uint_div_distrib v)
    have "?n div gcd ?n ?d \<le> ?n" using zdiv_mono2 [of ?n 1 "gcd ?n ?d"] g by simp
    then have s: "sint (rat_mNumerator_S64 ?r) = ?n div gcd ?n ?d" using uint_small_sint [of "rat_mNumerator_S64 ?r"] u(1) n(1) by linarith
    have "0 < ?d div gcd ?n ?d" using d g by (simp add: pos_imp_zdiv_pos_iff)
    then have "rat_mDenominator_U64 ?r \<noteq> 0" using u(2) by (metis uint_0_eq less_irrefl)
    moreover have "coprime (?n div gcd ?n ?d) (?d div gcd ?n ?d)" using d by (intro div_gcd_coprime) simp
    moreover have "0 \<le> ?n div gcd ?n ?d" using g by (simp add: pos_imp_zdiv_nonneg_iff)
    ultimately have "rat_normal ?r" unfolding rat_normal_def s u(2) by simp
    moreover have "rat_value ?r = rat_value r" unfolding rat_value_def s u(2) n(2) by (rule Fract_div_gcd [OF d])
    ultimately show ?thesis using True assms(1) by (simp add: BofRational_Normalize_def Let_def)
  next
    case False
    then have "gcd ?n ?d \<le> 1" using v by (simp add: word_less_def)
    with g have "gcd ?n ?d = 1" by linarith
    then have "coprime ?n ?d" by (simp only: coprime_iff_gcd_eq_1)
    then show ?thesis using False assms n(2) by (simp add: BofRational_Normalize_def Let_def rat_normal_def)
  qed
qed

text \<open>A negative fraction that can be reduced becomes a positive one.\<close>

lemma Normalize_neg:
  assumes "sint (rat_mNumerator_S64 r) < 0" "sint (rat_mNumerator_S64 r) \<noteq> - (2 ^ 63)" "rat_mDenominator_U64 r \<noteq> 0"
  shows "\<exists>r'. BofRational_Normalize r = Ret r' \<and>
    (if coprime (sint (rat_mNumerator_S64 r)) (uint (rat_mDenominator_U64 r)) then r' = r else 0 < rat_value r')"
proof -
  let ?n = "rat_mNumerator_S64 r" and ?d = "rat_mDenominator_U64 r"
  let ?v = "rat_gcd (- ?n) ?d" and ?g = "gcd (sint (rat_mNumerator_S64 r)) (uint (rat_mDenominator_U64 r))"
  let ?r = "\<lparr>rat_mNumerator_S64 = ?n div ?v, rat_mDenominator_U64 = ?d div ?v\<rparr>"
  have "- ?n = word_of_int (- sint ?n)" by simp
  moreover have "uint (word_of_int (- sint ?n) :: u64) = - sint ?n"
    by (rule uint_exact) (use assms(1) sint_range(1) [of ?n] in simp_all)
  ultimately have "uint (- ?n) = - sint ?n" by (simp only:)
  then have v: "uint ?v = ?g" by (simp add: rat_gcd_is_gcd)
  have g: "0 < ?g" using assms(1) by simp
  have d: "0 < uint ?d" using assms(3) by (rule uint_pos)
  have n: "uint ?n = sint ?n + 2 ^ 64" by (rule sint_neg [OF assms(1)])
  have go: "BofRational_Normalize r = (if 1 < ?v then Ret ?r else Ret r)"
    using assms by (simp add: BofRational_Normalize_def Let_def s64_neg_def)
  show ?thesis
  proof (cases "1 < ?v")
    case True
    then have g2: "2 \<le> ?g" using v by (simp add: word_less_def)
    have le: "?g \<le> uint ?d" using d by (rule gcd_le2_int)
    have "uint (?n div ?v) \<le> uint ?n div 2"
      using zdiv_mono2 [of "uint ?n" 2 ?g] g2 by (simp add: uint_div_distrib v)
    moreover have "uint ?n < 18446744073709551616" using n assms(1) by simp
    then have "uint ?n div 2 < 9223372036854775808" by presburger
    ultimately have "uint (?n div ?v) < 2 ^ 63" by simp
    then have "sint (?n div ?v) = uint ?n div ?g" by (simp only: uint_small_sint uint_div_distrib v)
    moreover have "?g \<le> - sint ?n" using assms(1) gcd_le1_int [of "- sint ?n" "uint ?d"] by simp
    then have "0 < uint ?n div ?g" using n sint_range(1) [of ?n] g by (simp add: pos_imp_zdiv_pos_iff)
    moreover have "0 < uint ?d div ?g" using le g by (simp add: pos_imp_zdiv_pos_iff)
    ultimately have "0 < rat_value ?r" by (simp add: rat_value_def uint_div_distrib v zero_less_Fract_iff)
    moreover have "\<not> coprime (sint ?n) (uint ?d)" using g2 by (simp add: coprime_iff_gcd_eq_1)
    ultimately show ?thesis using go True by simp
  next
    case False
    then have "?g \<le> 1" using v by (simp add: word_less_def)
    with g have "?g = 1" by linarith
    then have "coprime (sint ?n) (uint ?d)" by (simp only: coprime_iff_gcd_eq_1)
    then show ?thesis using go False by simp
  qed
qed

text \<open>What \<^verbatim>\<open>Set\<close> makes of the exact numerator and denominator of a result.\<close>

lemma Set_exact:
  assumes "0 \<le> n" "n < 2 ^ 63" "0 < d" "d < 2 ^ 64"
  shows "\<exists>r. BofRational_Set (word_of_int n) (word_of_int d) True = Ret r \<and> rat_normal r \<and> rat_value r = Fract n d"
proof -
  let ?r = "\<lparr>rat_mNumerator_S64 = word_of_int n, rat_mDenominator_U64 = word_of_int d\<rparr>"
  have n: "sint (word_of_int n :: s64) = n" by (rule sint_exact) (use assms(1,2) in simp_all)
  have d: "uint (word_of_int d :: u64) = d" by (rule uint_exact) (use assms(3,4) in simp_all)
  then have "(word_of_int d :: u64) \<noteq> 0" using assms(3) by (metis uint_0_eq less_irrefl)
  with n d assms(1) Normalize_nonneg [of ?r] show ?thesis by (simp add: BofRational_Set_def Let_def rat_value_def)
qed

lemma Set_negative:
  assumes "- (2 ^ 63) < n" "n < 0" "0 < d" "d < 2 ^ 64" "\<not> coprime n d"
  shows "\<exists>r. BofRational_Set (word_of_int n) (word_of_int d) True = Ret r \<and> 0 < rat_value r"
proof -
  let ?r = "\<lparr>rat_mNumerator_S64 = word_of_int n, rat_mDenominator_U64 = word_of_int d\<rparr>"
  have n: "sint (word_of_int n :: s64) = n" by (rule sint_exact) (use assms(1,2) in simp_all)
  have d: "uint (word_of_int d :: u64) = d" by (rule uint_exact) (use assms(3,4) in simp_all)
  then have "(word_of_int d :: u64) \<noteq> 0" using assms(3) by (metis uint_0_eq less_irrefl)
  with n d assms Normalize_neg [of ?r] show ?thesis by (simp add: BofRational_Set_def Let_def)
qed

text \<open>The denominator of what \<^verbatim>\<open>Set\<close> returns, whatever its arguments.\<close>

lemma Normalize_denominator:
  assumes "rat_mDenominator_U64 r \<noteq> 0" "BofRational_Normalize r = Ret r'"
  shows "rat_mDenominator_U64 r' \<noteq> 0"
proof -
  have d: "0 < uint (rat_mDenominator_U64 r)" by (rule uint_pos [OF assms(1)])
  have "rat_mDenominator_U64 r div rat_gcd u (rat_mDenominator_U64 r) \<noteq> 0" for u
  proof -
    have g: "0 < gcd (uint u) (uint (rat_mDenominator_U64 r))" "gcd (uint u) (uint (rat_mDenominator_U64 r)) \<le> uint (rat_mDenominator_U64 r)"
      using d by (simp_all add: gcd_le2_int)
    then have "0 < uint (rat_mDenominator_U64 r div rat_gcd u (rat_mDenominator_U64 r))"
      by (simp add: uint_div_distrib rat_gcd_is_gcd pos_imp_zdiv_pos_iff)
    then show ?thesis by auto
  qed
  with assms show ?thesis by (auto simp: BofRational_Normalize_def s64_neg_def Let_def split: if_splits)
qed

lemma Set_denominator: "BofRational_Set n d b = Ret r \<Longrightarrow> rat_mDenominator_U64 r \<noteq> 0"
  using Normalize_denominator [of "\<lparr>rat_mNumerator_S64 = n, rat_mDenominator_U64 = (if d \<noteq> 0 then d else 1)\<rparr>" r]
  by (auto simp: BofRational_Set_def Let_def split: if_splits)

section \<open>The operators\<close>

text \<open>The numerator and the denominator as integers.\<close>

abbreviation rat_num :: "BofRational \<Rightarrow> int" where "rat_num r \<equiv> sint (rat_mNumerator_S64 r)"
abbreviation rat_den :: "BofRational \<Rightarrow> int" where "rat_den r \<equiv> uint (rat_mDenominator_U64 r)"

lemma operands:
  "BofRational_plus a b = BofRational_Set (word_of_int (rat_num a * rat_den b + rat_num b * rat_den a)) (word_of_int (rat_den a * rat_den b)) True"
  "BofRational_minus a b = BofRational_Set (word_of_int (rat_num a * rat_den b - rat_num b * rat_den a)) (word_of_int (rat_den a * rat_den b)) True"
  "BofRational_divide a b = BofRational_Set (word_of_int (rat_num a * rat_den b)) (word_of_int (rat_den a * rat_num b)) True"
  "- (2 ^ 63) \<le> rat_num a * rat_num b \<Longrightarrow> rat_num a * rat_num b < 2 ^ 63 \<Longrightarrow>
     BofRational_times a b = BofRational_Set (word_of_int (rat_num a * rat_num b)) (word_of_int (rat_den a * rat_den b)) True"
  by (simp_all add: BofRational_plus_def BofRational_minus_def BofRational_divide_def BofRational_times_def s64_mult_def)

lemma rat_value_ops:
  assumes "0 < rat_den a" "0 < rat_den b"
  shows "rat_value a + rat_value b = Fract (rat_num a * rat_den b + rat_num b * rat_den a) (rat_den a * rat_den b)"
    "rat_value a - rat_value b = Fract (rat_num a * rat_den b - rat_num b * rat_den a) (rat_den a * rat_den b)"
    "rat_value a * rat_value b = Fract (rat_num a * rat_num b) (rat_den a * rat_den b)"
    "rat_value a / rat_value b = Fract (rat_num a * rat_den b) (rat_den a * rat_num b)"
  using assms by (simp_all add: rat_value_def)

lemma rat_cross_exact:
  assumes "- (2 ^ 63) \<le> rat_num a * rat_den b" "rat_num a * rat_den b < 2 ^ 63" "- (2 ^ 63) \<le> rat_den a * rat_num b" "rat_den a * rat_num b < 2 ^ 63"
  shows "rat_cross a b = (rat_num a * rat_den b, rat_den a * rat_num b)"
  using sint_exact [OF assms(1,2)] sint_exact [OF assms(3,4)] by (simp add: rat_cross_def)

section \<open>The integer parts\<close>

lemma ceil_div: "0 < (d::int) \<Longrightarrow> (n + d - 1) div d = - ((- n) div d)"
proof -
  assume d: "0 < d"
  define q r where "q = n div d" and "r = n mod d"
  have n: "n = d * q + r" "0 \<le> r" "r < d" using d by (simp_all add: q_def r_def)
  have "(n + d - 1) div d = q + (r + d - 1) div d" using d by (simp add: n(1) algebra_simps flip: div_mult_self2)
  moreover have "(r + d - 1) div d = (if r = 0 then 0 else 1)"
    using n d by (auto intro!: div_pos_pos_trivial int_div_pos_eq [of _ _ _ "r - 1"])
  ultimately show ?thesis using d by (simp add: zdiv_zminus1_eq_if q_def [symmetric] r_def [symmetric])
qed

lemma round_Fract: "0 < d \<Longrightarrow> round (Fract n d) = (2 * n + d) div (2 * d)"
  by (simp add: round_def floor_Fract [symmetric] Fract_of_int_quotient field_simps)

text \<open>The rounding of the code: one too many for an odd denominator and a remainder just below one half.\<close>

lemma half_up_div:
  assumes "0 < (d::int)"
  shows "(n + (d + 1) div 2) div d = (2 * n + d) div (2 * d) + (if odd d \<and> n mod d = (d - 1) div 2 then 1 else 0)"
proof -
  define q r where "q = n div d" and "r = n mod d"
  have n: "n = d * q + r" "0 \<le> r" "r < d" using assms by (simp_all add: q_def r_def)
  have a: "(n + (d + 1) div 2) div d = q + (if d \<le> r + (d + 1) div 2 then 1 else 0)"
  proof -
    have "(n + (d + 1) div 2) div d = q + (r + (d + 1) div 2) div d" using assms by (simp add: n(1) algebra_simps flip: div_mult_self2)
    moreover have "(r + (d + 1) div 2) div d = (if d \<le> r + (d + 1) div 2 then 1 else 0)"
      using n assms by (auto intro!: div_pos_pos_trivial int_div_pos_eq [of _ _ _ "r + (d + 1) div 2 - d"])
    ultimately show ?thesis by simp
  qed
  have b: "(2 * n + d) div (2 * d) = q + (if d \<le> 2 * r then 1 else 0)"
  proof -
    have "2 * n + d = (2 * r + d) + 2 * d * q" using n(1) by (simp add: algebra_simps)
    then have "(2 * n + d) div (2 * d) = q + (2 * r + d) div (2 * d)"
      using assms div_mult_self2 [of "2 * d" "2 * r + d" q] by (simp only: mult_eq_0_iff) simp
    moreover have "(2 * r + d) div (2 * d) = (if d \<le> 2 * r then 1 else 0)"
      using n assms by (auto intro!: div_pos_pos_trivial int_div_pos_eq [of _ _ _ "2 * r - d"])
    ultimately show ?thesis by simp
  qed
  show ?thesis unfolding a b r_def [symmetric] by (cases "even d") (auto elim!: evenE oddE)
qed

lemma udiv_small:
  assumes "uint (x::u64) = n" "uint (y::u64) = d" "1 \<le> d" "n div d < 2 ^ 63"
  shows "\<exists>f. rat_udiv x y = Ret f \<and> sint f = n div d"
proof -
  have "uint (x div y) = n div d" using assms(1,2) by (simp add: uint_div_distrib)
  moreover from this have "sint (x div y) = uint (x div y)" using assms(4) by (intro uint_small_sint) simp
  moreover have "y \<noteq> 0" using assms(2,3) by auto
  ultimately show ?thesis by (simp add: rat_udiv_def)
qed

lemma Floor_ok:
  assumes "0 \<le> rat_num a" "rat_mDenominator_U64 a \<noteq> 0"
  shows "\<exists>f. BofRational_Floor a = Ret f \<and> sint f = \<lfloor>rat_value a\<rfloor>"
proof -
  have d: "0 < rat_den a" by (rule uint_pos [OF assms(2)])
  have n: "uint (rat_mNumerator_S64 a) = rat_num a" using sint_nonneg [OF assms(1)] by simp
  have "rat_num a div rat_den a \<le> rat_num a" using zdiv_mono2 [of "rat_num a" 1 "rat_den a"] assms(1) d by simp
  then have "rat_num a div rat_den a < 2 ^ 63" using sint_range(2) by (rule le_less_trans)
  with udiv_small [OF n refl] d show ?thesis by (simp add: BofRational_Floor_def rat_value_def)
qed

lemma Ceil_ok:
  assumes "0 \<le> rat_num a" "rat_mDenominator_U64 a \<noteq> 0" "rat_num a + rat_den a - 1 < 2 ^ 64"
  shows "\<exists>f. BofRational_Ceil a = Ret f \<and> sint f = \<lceil>rat_value a\<rceil>"
proof -
  have d: "0 < rat_den a" by (rule uint_pos [OF assms(2)])
  let ?x = "rat_mNumerator_S64 a + rat_mDenominator_U64 a - 1"
  have "?x = word_of_int (rat_num a + rat_den a - 1)" by simp
  then have n: "uint ?x = rat_num a + rat_den a - 1" using uint_exact [of "rat_num a + rat_den a - 1"] assms(1,3) d by simp
  have "(rat_num a + rat_den a - 1) div rat_den a \<le> rat_num a \<or> rat_num a = 0"
  proof (cases "rat_num a = 0")
    case False
    have "0 \<le> (rat_num a - 1) * (rat_den a - 1)" using False assms(1) d by simp
    then have "rat_num a + rat_den a - 1 \<le> rat_num a * rat_den a" by (simp add: algebra_simps)
    then have "(rat_num a + rat_den a - 1) div rat_den a \<le> rat_num a * rat_den a div rat_den a" using d by (intro zdiv_mono1)
    with d show ?thesis by simp
  qed simp
  then have "(rat_num a + rat_den a - 1) div rat_den a < 2 ^ 63" using sint_range(2) [of "rat_mNumerator_S64 a"] d by auto
  with udiv_small [OF n refl, of "rat_mDenominator_U64 a"] d obtain f where
    "BofRational_Ceil a = Ret f" "sint f = (rat_num a + rat_den a - 1) div rat_den a" by (auto simp: BofRational_Ceil_def)
  then show ?thesis using d by (simp add: rat_value_def ceiling_def ceil_div)
qed

lemma Round_ok:
  assumes "0 \<le> rat_num a" "rat_mDenominator_U64 a \<noteq> 0" "rat_den a < 2 ^ 64 - 1"
  shows "\<exists>f. BofRational_Round a = Ret f
    \<and> sint f = round (rat_value a) + (if 1 < rat_den a \<and> odd (rat_den a) \<and> rat_num a mod rat_den a = (rat_den a - 1) div 2 then 1 else 0)"
proof (cases "1 < rat_den a")
  case False
  then have "rat_den a = 1" using uint_pos [OF assms(2)] by simp
  then show ?thesis using round_Fract [of 1 "rat_num a"] by (simp add: BofRational_Round_def word_less_def rat_value_def)
next
  case True
  let ?h = "drop_bit 1 (rat_mDenominator_U64 a + 1)" and ?x = "rat_mNumerator_S64 a + drop_bit 1 (rat_mDenominator_U64 a + 1)"
  have "uint (rat_mDenominator_U64 a + 1) = rat_den a + 1" using assms(3) uint_exact [of "rat_den a + 1"] True by simp
  then have h: "uint ?h = (rat_den a + 1) div 2" by (simp add: drop_bit_eq_div uint_div_distrib)
  have "?x = word_of_int (rat_num a + uint ?h)" by simp
  moreover have "rat_num a + uint ?h < 2 ^ 64" using h assms(3) sint_range(2) [of "rat_mNumerator_S64 a"] by simp
  ultimately have n: "uint ?x = rat_num a + (rat_den a + 1) div 2" using uint_exact [of "rat_num a + uint ?h"] assms(1) h by simp
  have "(rat_num a + (rat_den a + 1) div 2) div rat_den a \<le> (rat_num a + rat_den a) div rat_den a" using True by (intro zdiv_mono1) auto
  also have "\<dots> = rat_num a div rat_den a + 1" using True by simp
  also have "\<dots> \<le> rat_num a div 2 + 1" using True assms(1) by (simp add: zdiv_mono2)
  also have "\<dots> < 2 ^ 63" using sint_range(2) [of "rat_mNumerator_S64 a"] assms(1) by simp
  finally have "(rat_num a + (rat_den a + 1) div 2) div rat_den a < 2 ^ 63" .
  with udiv_small [OF n refl] True have "\<exists>f. BofRational_Round a = Ret f \<and> sint f = (rat_num a + (rat_den a + 1) div 2) div rat_den a"
    by (simp add: BofRational_Round_def word_less_def)
  then show ?thesis using half_up_div [of "rat_den a" "rat_num a"] round_Fract [of "rat_den a" "rat_num a"] True by (simp add: rat_value_def)
qed

text \<open>Beyond 64 bits: the sum that \<^verbatim>\<open>Ceil\<close> divides wraps around to less than the denominator, and so does the half of \<^verbatim>\<open>Round\<close>.\<close>

lemma Ceil_wraps:
  assumes "0 \<le> rat_num a" "2 ^ 64 \<le> rat_num a + rat_den a - 1"
  shows "BofRational_Ceil a = Ret 0" "\<lceil>rat_value a\<rceil> = 1"
proof -
  let ?x = "rat_mNumerator_S64 a + rat_mDenominator_U64 a - 1"
  have n: "rat_num a < 2 ^ 63" "rat_den a < 2 ^ 64" using sint_range(2) uint_bounded [of "rat_mDenominator_U64 a"] by simp_all
  have d: "0 < rat_den a" "0 < rat_num a" "rat_num a \<le> rat_den a" using assms n by simp_all
  have "?x = word_of_int (rat_num a + rat_den a - 1)" by simp
  also have "\<dots> = word_of_int (rat_num a + rat_den a - 1 - 2 ^ 64)"
    unfolding word_of_int_eq_iff take_bit_eq_mod by (subst minus_mod_self2 [symmetric]) simp
  finally have x: "?x = word_of_int (rat_num a + rat_den a - 1 - 2 ^ 64)" .
  have "uint ?x = rat_num a + rat_den a - 1 - 2 ^ 64" unfolding x by (rule uint_exact) (use assms(2) n in simp_all)
  then have "?x < rat_mDenominator_U64 a" using n by (simp add: word_less_def)
  then have "?x div rat_mDenominator_U64 a = 0" by (simp add: div_word_less)
  then show "BofRational_Ceil a = Ret 0" using d(1) by (auto simp: BofRational_Ceil_def rat_udiv_def)
  have "(rat_num a + rat_den a - 1) div rat_den a = (rat_num a - 1) div rat_den a + 1" using d(1) div_add_self2 [of "rat_den a" "rat_num a - 1"] by (simp add: algebra_simps)
  also have "(rat_num a - 1) div rat_den a = 0" using d by (intro div_pos_pos_trivial) simp_all
  finally show "\<lceil>rat_value a\<rceil> = 1" using d(1) by (simp add: rat_value_def ceiling_def ceil_div)
qed

lemma Round_wraps:
  assumes "0 \<le> rat_num a" "rat_den a = 2 ^ 64 - 1"
  shows "BofRational_Round a = Ret 0" "round (rat_value a) = 0"
proof -
  have d: "rat_mDenominator_U64 a = - 1" using assms(2) by (simp add: word_uint_eq_iff unsigned_minus_1_eq_mask mask_eq_exp_minus_1)
  have n: "rat_num a < 2 ^ 63" by (rule sint_range(2))
  have "uint (rat_mNumerator_S64 a) = rat_num a" using sint_nonneg [OF assms(1)] by simp
  then have "rat_mNumerator_S64 a < rat_mDenominator_U64 a" using n assms(2) by (simp add: word_less_def)
  then have "rat_mNumerator_S64 a div rat_mDenominator_U64 a = 0" by (simp add: div_word_less)
  moreover have "1 < rat_mDenominator_U64 a" using assms(2) by (simp add: word_less_def)
  ultimately show "BofRational_Round a = Ret 0" by (simp add: BofRational_Round_def rat_udiv_def d)
  have "round (rat_value a) = (2 * rat_num a + rat_den a) div (2 * rat_den a)" using assms(2) by (simp only: rat_value_def) (rule round_Fract, simp)
  also have "\<dots> = 0" using n assms by (intro div_pos_pos_trivial) simp_all
  finally show "round (rat_value a) = 0" .
qed

section \<open>Properties\<close>

text \<open>
  C19. Whatever its operands, every constructor and operator that returns a fraction returns one whose denominator is not zero,
  also after a division by zero, whose denominator becomes 1; so its integer parts never divide by zero, and neither do those of the
  fractions one above and one below it.
\<close>

theorem BofRational_denominator_not_zero:
  assumes "Ret r \<in> {BofRational_ctor_set n d b, BofRational_plus x y, BofRational_minus x y, BofRational_times x y, BofRational_divide x y,
      BofRational_plus_int x n, BofRational_minus_int x n, BofRational_times_int x n, BofRational_divide_int x n, BofRational_Inv x}"
  shows "rat_mDenominator_U64 r \<noteq> 0 \<and> BofRational_Floor r \<noteq> Undefined \<and> BofRational_Ceil r \<noteq> Undefined \<and> BofRational_Round r \<noteq> Undefined
    \<and> rat_mDenominator_U64 (fst (BofRational_pre_inc r)) \<noteq> 0 \<and> rat_mDenominator_U64 (fst (BofRational_pre_dec r)) \<noteq> 0"
proof -
  have "\<exists>n d b. BofRational_Set n d b = Ret r" using assms
    by (auto simp: BofRational_ctor_set_def BofRational_plus_def BofRational_minus_def BofRational_times_def BofRational_divide_def
        BofRational_plus_int_def BofRational_minus_int_def BofRational_times_int_def BofRational_divide_int_def BofRational_Inv_def
        s64_mult_def split: if_splits intro: sym)
  then have "rat_mDenominator_U64 r \<noteq> 0" using Set_denominator by blast
  then show ?thesis by (simp add: BofRational_Floor_def BofRational_Ceil_def BofRational_Round_def rat_udiv_def
        BofRational_pre_inc_def BofRational_pre_dec_def Let_def)
qed

theorem BofRational_denominator_not_zero_witness:
  "\<exists>r. BofRational_divide \<lparr>rat_mNumerator_S64 = 6, rat_mDenominator_U64 = 4\<rparr> \<lparr>rat_mNumerator_S64 = 0, rat_mDenominator_U64 = 1\<rparr> = Ret r
     \<and> rat_mDenominator_U64 r \<noteq> 0 \<and> BofRational_Floor r \<noteq> Undefined"
proof -
  let ?x = "\<lparr>rat_mNumerator_S64 = 6, rat_mDenominator_U64 = 4\<rparr>" and ?y = "\<lparr>rat_mNumerator_S64 = 0, rat_mDenominator_U64 = 1\<rparr>"
  have "BofRational_divide ?x ?y = Ret \<lparr>rat_mNumerator_S64 = 6, rat_mDenominator_U64 = 1\<rparr>"
    by (simp add: BofRational_divide_def BofRational_Set_def BofRational_Normalize_def Let_def rat_gcd.simps)
  then show ?thesis
    using BofRational_denominator_not_zero [of "\<lparr>rat_mNumerator_S64 = 6, rat_mDenominator_U64 = 1\<rparr>" 0 0 False ?x ?y] by auto
qed

text \<open>
  C18. The sum, the difference, the product and the quotient of two fractions are those of the rational numbers, in
  lowest terms, whenever the numerator of the result is not negative and the products the code forms fit
  64 bits (63 for a numerator); the order is that of the rational numbers, whatever the signs, when its two products fit.
\<close>

theorem BofRational_exact:
  assumes "rat_mDenominator_U64 a \<noteq> 0" "rat_mDenominator_U64 b \<noteq> 0" "rat_den a * rat_den b < 2 ^ 64"
  shows "(0 \<le> rat_num a * rat_den b + rat_num b * rat_den a \<and> rat_num a * rat_den b + rat_num b * rat_den a < 2 ^ 63 \<longrightarrow>
      (\<exists>r. BofRational_plus a b = Ret r \<and> rat_normal r \<and> rat_value r = rat_value a + rat_value b))
    \<and> (0 \<le> rat_num a * rat_den b - rat_num b * rat_den a \<and> rat_num a * rat_den b - rat_num b * rat_den a < 2 ^ 63 \<longrightarrow>
      (\<exists>r. BofRational_minus a b = Ret r \<and> rat_normal r \<and> rat_value r = rat_value a - rat_value b))
    \<and> (0 \<le> rat_num a * rat_num b \<and> rat_num a * rat_num b < 2 ^ 63 \<longrightarrow>
      (\<exists>r. BofRational_times a b = Ret r \<and> rat_normal r \<and> rat_value r = rat_value a * rat_value b))
    \<and> (0 \<le> rat_num a \<and> 0 < rat_num b \<and> rat_num a * rat_den b < 2 ^ 63 \<and> rat_den a * rat_num b < 2 ^ 64 \<longrightarrow>
      (\<exists>r. BofRational_divide a b = Ret r \<and> rat_normal r \<and> rat_value r = rat_value a / rat_value b))
    \<and> (\<bar>rat_num a * rat_den b\<bar> < 2 ^ 63 \<and> \<bar>rat_den a * rat_num b\<bar> < 2 ^ 63 \<longrightarrow>
      BofRational_lt a b = (rat_value a < rat_value b) \<and> BofRational_le a b = (rat_value a \<le> rat_value b)
      \<and> BofRational_gt a b = (rat_value a > rat_value b) \<and> BofRational_ge a b = (rat_value a \<ge> rat_value b))"
    (is "(?p \<longrightarrow> ?P) \<and> (?m \<longrightarrow> ?M) \<and> (?t \<longrightarrow> ?T) \<and> (?q \<longrightarrow> ?Q) \<and> (?o \<longrightarrow> ?O)")
proof (intro conjI impI)
  have d: "0 < rat_den a" "0 < rat_den b" using uint_pos assms(1,2) by auto
  then have dd: "0 < rat_den a * rat_den b" by simp
  show ?P if ?p unfolding operands(1) rat_value_ops(1) [OF d] by (rule Set_exact) (use that dd assms(3) in auto)
  show ?M if ?m unfolding operands(2) rat_value_ops(2) [OF d] by (rule Set_exact) (use that dd assms(3) in auto)
  show ?T if ?t
  proof -
    from that have "- (2 ^ 63) \<le> rat_num a * rat_num b" "rat_num a * rat_num b < 2 ^ 63" by auto
    note times = operands(4) [OF this]
    show ?thesis unfolding times rat_value_ops(3) [OF d] by (rule Set_exact) (use that dd assms(3) in auto)
  qed
  show ?Q if ?q unfolding operands(3) rat_value_ops(4) [OF d] by (rule Set_exact) (use that d in auto)
  assume ?o
  then have c: "rat_cross a b = (rat_num a * rat_den b, rat_den a * rat_num b)" by (intro rat_cross_exact) auto
  show "BofRational_lt a b = (rat_value a < rat_value b)" "BofRational_le a b = (rat_value a \<le> rat_value b)"
    "BofRational_gt a b = (rat_value a > rat_value b)" "BofRational_ge a b = (rat_value a \<ge> rat_value b)"
    using d by (simp_all add: BofRational_lt_def BofRational_le_def BofRational_gt_def BofRational_ge_def c rat_value_def mult.commute
        less_rat le_rat)
qed

definition rat_example :: "s64 \<Rightarrow> u64 \<Rightarrow> BofRational" where
  "rat_example n d = \<lparr>rat_mNumerator_S64 = n, rat_mDenominator_U64 = d\<rparr>"

theorem BofRational_exact_witness:
  "(\<exists>r. BofRational_plus (rat_example 1 6) (rat_example 3 10) = Ret r \<and> rat_normal r \<and> rat_value r = Fract 1 6 + Fract 3 10)
   \<and> BofRational_lt (rat_example 1 6) (rat_example 3 10)"
  using BofRational_exact [of "rat_example 1 6" "rat_example 3 10"] by (simp add: rat_example_def rat_value_def)

text \<open>
  C26. A negative fraction that is not in lowest terms is reduced wrongly, because its numerator is divided as an unsigned
  number: the result is positive. So is every difference and every sum that comes out negative and can be reduced. The
  smallest numerator cannot be reduced at all.
\<close>

theorem BofRational_negative_reduced_wrongly:
  assumes "0 < rat_den a" "0 < rat_den b" "rat_den a * rat_den b < 2 ^ 64"
  shows "(- (2 ^ 63) < rat_num a * rat_den b - rat_num b * rat_den a \<and> rat_num a * rat_den b - rat_num b * rat_den a < 0
        \<and> \<not> coprime (rat_num a * rat_den b - rat_num b * rat_den a) (rat_den a * rat_den b) \<longrightarrow>
      rat_value a - rat_value b < 0 \<and> (\<exists>r. BofRational_minus a b = Ret r \<and> 0 < rat_value r))
    \<and> (- (2 ^ 63) < rat_num a * rat_den b + rat_num b * rat_den a \<and> rat_num a * rat_den b + rat_num b * rat_den a < 0
        \<and> \<not> coprime (rat_num a * rat_den b + rat_num b * rat_den a) (rat_den a * rat_den b) \<longrightarrow>
      rat_value a + rat_value b < 0 \<and> (\<exists>r. BofRational_plus a b = Ret r \<and> 0 < rat_value r))
    \<and> BofRational_Set (word_of_int (- (2 ^ 63))) (rat_mDenominator_U64 a) True = Undefined"
    (is "(?m \<longrightarrow> ?M) \<and> (?p \<longrightarrow> ?P) \<and> ?U")
proof (intro conjI impI)
  have dd: "0 < rat_den a * rat_den b" using assms by simp
  show "\<exists>r. BofRational_minus a b = Ret r \<and> 0 < rat_value r" if ?m
    unfolding operands(2) by (rule Set_negative) (use that dd assms(3) in auto)
  show "\<exists>r. BofRational_plus a b = Ret r \<and> 0 < rat_value r" if ?p
    unfolding operands(1) by (rule Set_negative) (use that dd assms(3) in auto)
  show "rat_value a - rat_value b < 0" if ?m
    unfolding rat_value_ops(2) [OF assms(1,2)] using that dd by (simp add: Fract_less_zero_iff)
  show "rat_value a + rat_value b < 0" if ?p
    unfolding rat_value_ops(1) [OF assms(1,2)] using that dd by (simp add: Fract_less_zero_iff)
  have "sint (word_of_int (- (2 ^ 63)) :: s64) = - (2 ^ 63)" by (rule sint_exact) simp_all
  moreover have "rat_mDenominator_U64 a \<noteq> 0" using assms(1) by auto
  ultimately show ?U by (simp only: BofRational_Set_def BofRational_Normalize_def s64_neg_def Let_def) simp
qed

theorem BofRational_negative_reduced_wrongly_witness:
  "\<exists>r. BofRational_minus (rat_example 1 4) (rat_example 3 4) = Ret r \<and> 0 < rat_value r"
  using BofRational_negative_reduced_wrongly [of "rat_example 1 4" "rat_example 3 4"]
  by (simp add: rat_example_def coprime_iff_gcd_eq_1)

text \<open>
  C21. For every fraction that is not negative and has a denominator, \<^verbatim>\<open>Floor\<close> is the greatest integer not above its value. \<^verbatim>\<open>Ceil\<close> is
  the least integer not below it as long as numerator plus denominator minus one fits 64 bits; beyond, the sum wraps around and
  \<^verbatim>\<open>Ceil\<close> is 0 where it should be 1, as for 2/(2 to the 64 minus 1). \<^verbatim>\<open>Round\<close> is the nearest integer, halves up, except that it is
  one too many when the denominator is odd and the remainder is just below one half: 1/3 is rounded to 1. With the
  denominator 2 to the 64 minus 1 the half wraps around as well, and \<^verbatim>\<open>Round\<close> is right.
\<close>

theorem BofRational_integer_parts:
  assumes "0 \<le> rat_num a" "rat_mDenominator_U64 a \<noteq> 0"
  shows "(\<exists>f. BofRational_Floor a = Ret f \<and> sint f = \<lfloor>rat_value a\<rfloor>)
    \<and> (\<exists>f. BofRational_Ceil a = Ret f \<and> sint f = \<lceil>rat_value a\<rceil> - (if rat_num a + rat_den a - 1 < 2 ^ 64 then 0 else 1))
    \<and> (\<exists>f. BofRational_Round a = Ret f
      \<and> sint f = round (rat_value a) + (if 1 < rat_den a \<and> odd (rat_den a) \<and> rat_num a mod rat_den a = (rat_den a - 1) div 2
          \<and> rat_den a \<noteq> 2 ^ 64 - 1 then 1 else 0))"
proof (intro conjI)
  show "\<exists>f. BofRational_Floor a = Ret f \<and> sint f = \<lfloor>rat_value a\<rfloor>" by (rule Floor_ok [OF assms])
  show "\<exists>f. BofRational_Ceil a = Ret f \<and> sint f = \<lceil>rat_value a\<rceil> - (if rat_num a + rat_den a - 1 < 2 ^ 64 then 0 else 1)"
    using Ceil_ok [OF assms] Ceil_wraps [OF assms(1)] by (cases "rat_num a + rat_den a - 1 < 2 ^ 64") simp_all
  have "rat_den a < 2 ^ 64 - 1 \<or> rat_den a = 2 ^ 64 - 1" using uint_bounded [of "rat_mDenominator_U64 a"] by auto
  then show "\<exists>f. BofRational_Round a = Ret f
      \<and> sint f = round (rat_value a) + (if 1 < rat_den a \<and> odd (rat_den a) \<and> rat_num a mod rat_den a = (rat_den a - 1) div 2
          \<and> rat_den a \<noteq> 2 ^ 64 - 1 then 1 else 0)"
    using Round_ok [OF assms] Round_wraps [OF assms(1)] by (elim disjE) simp_all
qed

theorem BofRational_integer_parts_witness:
  "(\<exists>f. BofRational_Round (rat_example 1 3) = Ret f \<and> sint f = round (Fract 1 3) + 1) \<and>
    (\<exists>f. BofRational_Ceil (rat_example 2 0xFFFFFFFFFFFFFFFF) = Ret f \<and> sint f = \<lceil>Fract 2 (2 ^ 64 - 1)\<rceil> - 1)"
  using BofRational_integer_parts [of "rat_example 1 3"] BofRational_integer_parts [of "rat_example 2 0xFFFFFFFFFFFFFFFF"]
  by (simp add: rat_example_def rat_value_def)

end
