(* ===== verification/Bof_Timecode.thy ===== *)
theory Bof_Timecode
  imports Bof_Rational
begin

text \<open>
  The time codes of \<^verbatim>\<open>boftimecode.h\<close> and \<^verbatim>\<open>boftimecode.cpp\<close>: validation, the binary form of the linear time code, the conversion
  to and from milliseconds and the steps by fields.

  \<^bold>\<open>Floating point.\<close> The frame time is \<^verbatim>\<open>1000.0f / 25.0f\<close>, which is 40, or \<^verbatim>\<open>1000.0f / 30.0f\<close>, whose nearest \<^verbatim>\<open>float\<close> is
  8738133 / 2^18; both are given here as multiples of 2^-18. Every \<^verbatim>\<open>double\<close> product and difference of the conversions is of
  numbers with so few bits that it is exact, and a quotient is far enough from an integer that its integer part
  is exact, for all results that fit; where a conversion to an integer type does not fit, C++ leaves it undefined.
\<close>

unbundle bit_operations_syntax

section \<open>Time codes\<close>

definition BOF_TIMECODE_FLAG_PARITY_ODD :: u8 where "BOF_TIMECODE_FLAG_PARITY_ODD = 0x01"
definition BOF_TIMECODE_FLAG_COLOR_FRAME :: u8 where "BOF_TIMECODE_FLAG_COLOR_FRAME = 0x02"
definition BOF_TIMECODE_FLAG_DROP :: u8 where "BOF_TIMECODE_FLAG_DROP = 0x40"
definition BOF_TIMECODE_FLAG_NTSC :: u8 where "BOF_TIMECODE_FLAG_NTSC = 0x80"

lemmas tc_flag_defs =
  BOF_TIMECODE_FLAG_PARITY_ODD_def BOF_TIMECODE_FLAG_COLOR_FRAME_def BOF_TIMECODE_FLAG_DROP_def BOF_TIMECODE_FLAG_NTSC_def

text \<open>The four user bytes are an array that the code accesses with constant indexes only.\<close>

record BOF_TIMECODE =
  tc_NbDay_U16 :: u16
  tc_Hour_U8 :: u8
  tc_Minute_U8 :: u8
  tc_Second_U8 :: u8
  tc_Frame_U8 :: u8
  tc_TcFlag_U8 :: u8
  tc_Spare_U8 :: u8
  tc_pUserBit0_U8 :: u8
  tc_pUserBit1_U8 :: u8
  tc_pUserBit2_U8 :: u8
  tc_pUserBit3_U8 :: u8

definition BOF_TIMECODE_Reset :: BOF_TIMECODE where
  "BOF_TIMECODE_Reset = \<lparr>tc_NbDay_U16 = 0, tc_Hour_U8 = 0, tc_Minute_U8 = 0, tc_Second_U8 = 0, tc_Frame_U8 = 0, tc_TcFlag_U8 = 0,
     tc_Spare_U8 = 0, tc_pUserBit0_U8 = 0, tc_pUserBit1_U8 = 0, tc_pUserBit2_U8 = 0, tc_pUserBit3_U8 = 0\<rparr>"

definition tc_flag :: "BOF_TIMECODE \<Rightarrow> u8 \<Rightarrow> bool" where
  "tc_flag tc f \<longleftrightarrow> tc_TcFlag_U8 tc AND f \<noteq> 0"

definition tc_set_flag :: "BOF_TIMECODE \<Rightarrow> u8 \<Rightarrow> BOF_TIMECODE" where
  "tc_set_flag tc f = tc\<lparr>tc_TcFlag_U8 := tc_TcFlag_U8 tc OR f\<rparr>"

text \<open>
  What the constructor of a \<^verbatim>\<open>BofDateTime\<close> decides: the date has to exist, the microseconds have to be less than a second. Hours, minutes
  and seconds are not looked at. The year becomes a \<^verbatim>\<open>short\<close>.
\<close>

definition date_is_leap :: "int \<Rightarrow> bool" where
  "date_is_leap y \<longleftrightarrow> y mod 4 = 0 \<and> (y mod 100 \<noteq> 0 \<or> y mod 400 = 0)"

definition date_last_day :: "int \<Rightarrow> nat \<Rightarrow> nat" where
  "date_last_day y m =
     (if m \<noteq> 2 \<or> \<not> date_is_leap y then [31, 28, 31, 30, 31, 30, 31, 31, 30, 31, 30, 31] ! (m - 1) else 29)"

definition BofDateTime_IsValid :: "u8 \<Rightarrow> u8 \<Rightarrow> u16 \<Rightarrow> u8 \<Rightarrow> u8 \<Rightarrow> u8 \<Rightarrow> u32 \<Rightarrow> bool" where
  "BofDateTime_IsValid Day Month Year Hour Minute Second MicroSecond \<longleftrightarrow>
     sint Year \<noteq> - 32768 \<and> 1 \<le> unat Month \<and> unat Month \<le> 12
     \<and> 1 \<le> unat Day \<and> unat Day \<le> date_last_day (sint Year) (unat Month) \<and> MicroSecond < 1000000"

definition S_ValidateTimecode :: "BOF_TIMECODE \<Rightarrow> BOFERR" where
  "S_ValidateTimecode tc =
     (if BofDateTime_IsValid 1 1 1970 (tc_Hour_U8 tc) (tc_Minute_U8 tc) (tc_Second_U8 tc) 0
      then if tc_flag tc BOF_TIMECODE_FLAG_NTSC
           then if tc_Frame_U8 tc < 30 then BOF_ERR_NO_ERROR else BOF_ERR_TOO_BIG
           else if tc_Frame_U8 tc < 25 \<and> \<not> tc_flag tc BOF_TIMECODE_FLAG_DROP then BOF_ERR_NO_ERROR else BOF_ERR_TOO_BIG
      else BOF_ERR_EINVAL)"

section \<open>The binary form\<close>

text \<open>Two decimal digits; a digit is cut out of its half of the binary form with a mask and a shift.\<close>

definition tc_cut :: "u32 \<Rightarrow> u32 \<Rightarrow> nat \<Rightarrow> u8" where
  "tc_cut v m n = ucast (drop_bit n (v AND m))"

definition S_BinToTimeCode :: "u64 \<Rightarrow> BOF_TIMECODE \<Rightarrow> BOF_TIMECODE \<times> BOFERR" where
  "S_BinToTimeCode Tc_U64 tc =
     (let HighValue = ucast (drop_bit 32 Tc_U64) :: u32;
          LowValue = ucast Tc_U64 :: u32;
          tc = tc\<lparr>tc_Frame_U8 := 10 * tc_cut LowValue 0x00000300 8 + tc_cut LowValue 0x0000000F 0\<rparr>;
          tc = tc\<lparr>tc_Second_U8 := 10 * tc_cut LowValue 0x07000000 24 + tc_cut LowValue 0x000F0000 16\<rparr>;
          tc = tc\<lparr>tc_Minute_U8 := 10 * tc_cut HighValue 0x00000700 8 + tc_cut HighValue 0x0000000F 0\<rparr>;
          tc = tc\<lparr>tc_Hour_U8 := 10 * tc_cut HighValue 0x03000000 24 + tc_cut HighValue 0x000F0000 16\<rparr>;
          tc = tc\<lparr>tc_pUserBit0_U8 := tc_cut LowValue 0x0000F000 8 OR tc_cut LowValue 0x000000F0 4\<rparr>;
          tc = tc\<lparr>tc_pUserBit1_U8 := tc_cut LowValue 0xF0000000 24 OR tc_cut LowValue 0x00F00000 20\<rparr>;
          tc = tc\<lparr>tc_pUserBit2_U8 := tc_cut HighValue 0x0000F000 8 OR tc_cut HighValue 0x000000F0 4\<rparr>;
          tc = tc\<lparr>tc_pUserBit3_U8 := tc_cut HighValue 0xF0000000 24 OR tc_cut HighValue 0x00F00000 20\<rparr>;
          tc = tc\<lparr>tc_TcFlag_U8 := 0\<rparr>;
          tc = (if LowValue AND 0x00000400 \<noteq> 0 then tc_set_flag tc BOF_TIMECODE_FLAG_DROP else tc);
          tc = (if LowValue AND 0x00000800 \<noteq> 0 then tc_set_flag tc BOF_TIMECODE_FLAG_COLOR_FRAME else tc);
          tc = (if LowValue AND 0x08000000 \<noteq> 0 then tc_set_flag tc BOF_TIMECODE_FLAG_PARITY_ODD else tc)
      in (tc, S_ValidateTimecode tc))"

definition tc_low_digit :: "u8 \<Rightarrow> u8" where
  "tc_low_digit x = x - x div 10 * 10"

text \<open>\<^verbatim>\<open>static_cast<uint32_t>(d) << n\<close> and \<^verbatim>\<open>static_cast<uint64_t>(d) << n\<close>, added to the binary form.\<close>

definition tc_put32 :: "u64 \<Rightarrow> u8 \<Rightarrow> nat \<Rightarrow> u64" where
  "tc_put32 b d n = b OR ucast (push_bit n (ucast d :: u32))"

definition tc_put64 :: "u64 \<Rightarrow> u8 \<Rightarrow> nat \<Rightarrow> u64" where
  "tc_put64 b d n = b OR push_bit n (ucast d)"

definition S_TimeCodeToBin :: "BOF_TIMECODE \<Rightarrow> u64 \<Rightarrow> u64 \<times> BOFERR" where
  "S_TimeCodeToBin tc Tc_U64 =
     (case S_ValidateTimecode tc of
        BOF_ERR_NO_ERROR \<Rightarrow>
         (let b = ucast (ucast (tc_low_digit (tc_Frame_U8 tc)) :: u32);
              b = tc_put32 b (tc_Frame_U8 tc div 10) 8;
              b = tc_put32 b (tc_low_digit (tc_Second_U8 tc)) 16;
              b = tc_put32 b (tc_Second_U8 tc div 10) 24;
              b = tc_put64 b (tc_low_digit (tc_Minute_U8 tc)) 32;
              b = tc_put64 b (tc_Minute_U8 tc div 10) 40;
              b = tc_put64 b (tc_low_digit (tc_Hour_U8 tc)) 48;
              b = tc_put64 b (tc_Hour_U8 tc div 10) 56;
              b = tc_put32 b (tc_pUserBit0_U8 tc AND 0x0F) 4;
              b = tc_put32 b (tc_pUserBit0_U8 tc AND 0xF0) 8;
              b = tc_put32 b (tc_pUserBit1_U8 tc AND 0x0F) 20;
              b = tc_put32 b (tc_pUserBit1_U8 tc AND 0xF0) 24;
              b = tc_put64 b (tc_pUserBit2_U8 tc AND 0x0F) 36;
              b = tc_put64 b (tc_pUserBit2_U8 tc AND 0xF0) 40;
              b = tc_put64 b (tc_pUserBit3_U8 tc AND 0x0F) 52;
              b = tc_put64 b (tc_pUserBit3_U8 tc AND 0xF0) 56;
              b = (if tc_flag tc BOF_TIMECODE_FLAG_DROP then b OR 0x00000400 else b);
              b = (if tc_flag tc BOF_TIMECODE_FLAG_COLOR_FRAME then b OR 0x00000800 else b);
              b = (if tc_flag tc BOF_TIMECODE_FLAG_PARITY_ODD then b OR 0x08000000 else b)
          in (b, BOF_ERR_NO_ERROR))
      | e \<Rightarrow> (Tc_U64, e))"

section \<open>The class\<close>

record BofTimecode =
  btc_mTc_X :: BOF_TIMECODE
  btc_mTcValid_B :: bool
  btc_mRate :: BofRational

text \<open>\<^verbatim>\<open>BofRational(1000, n, false)\<close>: a rate is not reduced.\<close>

definition tc_rate :: "bool \<Rightarrow> BofRational" where
  "tc_rate ntsc = \<lparr>rat_mNumerator_S64 = 1000, rat_mDenominator_U64 = (if ntsc then 30 else 25)\<rparr>"

definition BofTimecode_IsTimecodeValid :: "BofTimecode \<Rightarrow> bool" where
  "BofTimecode_IsTimecodeValid t = btc_mTcValid_B t"

definition BofTimecode_IsNtsc :: "BofTimecode \<Rightarrow> bool" where
  "BofTimecode_IsNtsc t = tc_flag (btc_mTc_X t) BOF_TIMECODE_FLAG_NTSC"

definition BofTimecode_IsOddField :: "BofTimecode \<Rightarrow> bool" where
  "BofTimecode_IsOddField t = tc_flag (btc_mTc_X t) BOF_TIMECODE_FLAG_PARITY_ODD"

definition BofTimecode_IsNextTimecodeDrop :: "BofTimecode \<Rightarrow> bool" where
  "BofTimecode_IsNextTimecodeDrop t =
     (let tc = btc_mTc_X t
      in if tc_flag tc BOF_TIMECODE_FLAG_NTSC \<and> tc_flag tc BOF_TIMECODE_FLAG_DROP
         then if tc_Second_U8 tc = 59 \<and> tc_Frame_U8 tc = 29 then (tc_Minute_U8 tc + 1) mod 10 \<noteq> 0 else False
         else False)"

text \<open>The frame time in multiples of 2^-18, which is the field time in multiples of 2^-19.\<close>

definition BofTimecode_FrameTime :: "BofTimecode \<Rightarrow> int" where
  "BofTimecode_FrameTime t = (if BofTimecode_IsNtsc t then 8738133 else 40 * 262144)"

definition BofTimecode_ToMs :: "BofTimecode \<Rightarrow> u64" where
  "BofTimecode_ToMs t =
     (let tc = btc_mTc_X t;
          r = ucast (tc_NbDay_U16 tc) * 86400000;
          r = r + ucast (tc_Hour_U8 tc) * 3600000;
          r = r + ucast (tc_Minute_U8 tc) * 60000;
          r = r + ucast (tc_Second_U8 tc) * 1000;
          r = r + word_of_int (uint (tc_Frame_U8 tc) * BofTimecode_FrameTime t div 262144)
      in r + (if BofTimecode_IsOddField t then word_of_int (BofTimecode_FrameTime t div 524288) else 0))"

text \<open>The constant \<^verbatim>\<open>0.9f\<close> is 15099494 / 2^24.\<close>

definition BofTimecode_FromMs :: "BofTimecode \<Rightarrow> bool \<Rightarrow> u64 \<Rightarrow> BofTimecode outcome" where
  "BofTimecode_FromMs t Ntsc_B Ms =
     (let tc = (btc_mTc_X t)\<lparr>tc_TcFlag_U8 := (if Ntsc_B then BOF_TIMECODE_FLAG_NTSC else 0)\<rparr>;
          day = ucast (Ms div 86400000); Ms = Ms - ucast day * 86400000; tc = tc\<lparr>tc_NbDay_U16 := day\<rparr>;
          hour = ucast (Ms div 3600000); Ms = Ms - ucast hour * 3600000; tc = tc\<lparr>tc_Hour_U8 := hour\<rparr>;
          minute = ucast (Ms div 60000); Ms = Ms - ucast minute * 60000; tc = tc\<lparr>tc_Minute_U8 := minute\<rparr>;
          second = ucast (Ms div 1000); Ms = Ms - ucast second * 1000; tc = tc\<lparr>tc_Second_U8 := second\<rparr>;
          t = t\<lparr>btc_mTc_X := tc, btc_mRate := tc_rate Ntsc_B\<rparr>;
          ft = BofTimecode_FrameTime t;
          frame = uint Ms * 262144 div ft
      in if 256 \<le> frame then Undefined
         else let tc = tc\<lparr>tc_Frame_U8 := word_of_int frame\<rparr>;
                  remain = uint Ms * 262144 - frame * ft;
                  tc = (if 15099494 * ft < remain * 33554432 then tc_set_flag tc BOF_TIMECODE_FLAG_PARITY_ODD else tc)
              in Ret (t\<lparr>btc_mTc_X := tc\<rparr>))"

definition BofTimecode_ctor :: BofTimecode where
  "BofTimecode_ctor = \<lparr>btc_mTc_X = BOF_TIMECODE_Reset, btc_mTcValid_B = True, btc_mRate = tc_rate False\<rparr>"

text \<open>What the members are before the body of a constructor.\<close>

definition btc_fresh :: BofTimecode where
  "btc_fresh = \<lparr>btc_mTc_X = BOF_TIMECODE_Reset, btc_mTcValid_B = False, btc_mRate = BofRational_ctor\<rparr>"

definition BofTimecode_ctor_ms :: "bool \<Rightarrow> u64 \<Rightarrow> BofTimecode outcome" where
  "BofTimecode_ctor_ms Ntsc_B Ms = bindO (BofTimecode_FromMs btc_fresh Ntsc_B Ms) (\<lambda>t. Ret (t\<lparr>btc_mTcValid_B := True\<rparr>))"

definition BofTimecode_FromByteStruct :: "BofTimecode \<Rightarrow> BOF_TIMECODE \<Rightarrow> BofTimecode \<times> BOFERR" where
  "BofTimecode_FromByteStruct t tc =
     (if S_ValidateTimecode tc = BOF_ERR_NO_ERROR
      then (t\<lparr>btc_mTc_X := tc, btc_mRate := tc_rate (tc_flag tc BOF_TIMECODE_FLAG_NTSC)\<rparr>, BOF_ERR_NO_ERROR)
      else (t, S_ValidateTimecode tc))"

definition BofTimecode_ToByteStruct :: "BofTimecode \<Rightarrow> BOF_TIMECODE" where
  "BofTimecode_ToByteStruct t = btc_mTc_X t"

definition BofTimecode_ctor_struct :: "BOF_TIMECODE \<Rightarrow> BofTimecode" where
  "BofTimecode_ctor_struct tc =
     (case BofTimecode_FromByteStruct btc_fresh tc of (t, e) \<Rightarrow> t\<lparr>btc_mTcValid_B := (e = BOF_ERR_NO_ERROR)\<rparr>)"

definition BofTimecode_ctor_fields ::
  "bool \<Rightarrow> bool \<Rightarrow> u16 \<Rightarrow> u8 \<Rightarrow> u8 \<Rightarrow> u8 \<Rightarrow> u8 \<Rightarrow> u8 \<Rightarrow> u8 \<Rightarrow> u8 \<Rightarrow> u8 \<Rightarrow> BofTimecode" where
  "BofTimecode_ctor_fields Is50Hz Drop_B NbDay Hour Minute Second Frame u0 u1 u2 u3 =
     (let tc = BOF_TIMECODE_Reset\<lparr>tc_TcFlag_U8 := 0\<rparr>;
          tc = (if \<not> Is50Hz then tc_set_flag tc BOF_TIMECODE_FLAG_NTSC else tc);
          tc = (if Drop_B then tc_set_flag tc BOF_TIMECODE_FLAG_DROP else tc);
          tc = tc\<lparr>tc_NbDay_U16 := NbDay, tc_Hour_U8 := Hour, tc_Minute_U8 := Minute, tc_Second_U8 := Second, tc_Frame_U8 := Frame,
                  tc_pUserBit0_U8 := u0, tc_pUserBit1_U8 := u1, tc_pUserBit2_U8 := u2, tc_pUserBit3_U8 := u3\<rparr>
      in case BofTimecode_FromByteStruct btc_fresh tc of (t, e) \<Rightarrow> t\<lparr>btc_mTcValid_B := (e = BOF_ERR_NO_ERROR)\<rparr>)"

definition BofTimecode_GetUserBit :: "BofTimecode \<Rightarrow> u8 \<times> u8 \<times> u8 \<times> u8" where
  "BofTimecode_GetUserBit t =
     (let tc = btc_mTc_X t in (tc_pUserBit0_U8 tc, tc_pUserBit1_U8 tc, tc_pUserBit2_U8 tc, tc_pUserBit3_U8 tc))"

definition BofTimecode_SetUserBit :: "BofTimecode \<Rightarrow> u8 \<Rightarrow> u8 \<Rightarrow> u8 \<Rightarrow> u8 \<Rightarrow> BofTimecode" where
  "BofTimecode_SetUserBit t u0 u1 u2 u3 =
     t\<lparr>btc_mTc_X := (btc_mTc_X t)\<lparr>tc_pUserBit0_U8 := u0, tc_pUserBit1_U8 := u1, tc_pUserBit2_U8 := u2, tc_pUserBit3_U8 := u3\<rparr>\<rparr>"

section \<open>Comparison and steps\<close>

definition BofTimecode_eq :: "BofTimecode \<Rightarrow> BofTimecode \<Rightarrow> bool" where
  "BofTimecode_eq t Rhs =
     (let a = btc_mTc_X t; b = BofTimecode_ToByteStruct Rhs
      in tc_NbDay_U16 a = tc_NbDay_U16 b \<and> tc_Hour_U8 a = tc_Hour_U8 b \<and> tc_Minute_U8 a = tc_Minute_U8 b
         \<and> tc_Second_U8 a = tc_Second_U8 b \<and> tc_Frame_U8 a = tc_Frame_U8 b \<and> tc_TcFlag_U8 a = tc_TcFlag_U8 b)"

definition BofTimecode_ne :: "BofTimecode \<Rightarrow> BofTimecode \<Rightarrow> bool" where
  "BofTimecode_ne t Rhs \<longleftrightarrow> \<not> BofTimecode_eq t Rhs"

definition BofTimecode_lt :: "BofTimecode \<Rightarrow> BofTimecode \<Rightarrow> bool outcome" where
  "BofTimecode_lt t Rhs =
     BOF_ASSERT (BofTimecode_IsNtsc t = BofTimecode_IsNtsc Rhs) (Ret (BofTimecode_ToMs t < BofTimecode_ToMs Rhs))"

definition BofTimecode_gt :: "BofTimecode \<Rightarrow> BofTimecode \<Rightarrow> bool outcome" where
  "BofTimecode_gt t Rhs = BofTimecode_lt Rhs t"

definition BofTimecode_le :: "BofTimecode \<Rightarrow> BofTimecode \<Rightarrow> bool outcome" where
  "BofTimecode_le t Rhs = bindO (BofTimecode_gt t Rhs) (\<lambda>b. Ret (\<not> b))"

definition BofTimecode_ge :: "BofTimecode \<Rightarrow> BofTimecode \<Rightarrow> bool outcome" where
  "BofTimecode_ge t Rhs = bindO (BofTimecode_lt t Rhs) (\<lambda>b. Ret (\<not> b))"

text \<open>The product of the field time and a number of fields has up to 55 bits: a \<^verbatim>\<open>double\<close> keeps 53 of them, the nearest, even for a tie.\<close>

definition double_round :: "int \<Rightarrow> int" where
  "double_round n =
     (let k = (if n < 2 ^ 53 then 1 else if n < 2 ^ 54 then 2 else 4 :: int);
          q = n div k; r = 2 * (n mod k)
      in (if k < r \<or> (r = k \<and> k \<noteq> 1 \<and> odd q) then q + 1 else q) * k)"

text \<open>The operator changes the object and returns a copy of it.\<close>

definition BofTimecode_plus :: "BofTimecode \<Rightarrow> 32 word \<Rightarrow> BofTimecode outcome" where
  "BofTimecode_plus t NbField =
     (if sint NbField < 0 then Undefined
      else let Ms = BofTimecode_ToMs t + word_of_int (double_round (BofTimecode_FrameTime t * uint NbField) div 524288)
           in BofTimecode_FromMs t (BofTimecode_IsNtsc t) Ms)"

definition S_IncTimeCode :: "BOF_TIMECODE \<Rightarrow> 32 word \<Rightarrow> (BOF_TIMECODE \<times> BOFERR) outcome" where
  "S_IncTimeCode tc NbField =
     (let t = BofTimecode_ctor_struct tc
      in if BofTimecode_IsTimecodeValid t
         then bindO (BofTimecode_plus t NbField) (\<lambda>t. Ret (BofTimecode_ToByteStruct t, BOF_ERR_NO_ERROR))
         else Ret (tc, BOF_ERR_EINVAL))"

definition S_IncBinTimeCode :: "u64 \<Rightarrow> 32 word \<Rightarrow> (u64 \<times> BOFERR) outcome" where
  "S_IncBinTimeCode Tc_U64 NbField =
     (case S_BinToTimeCode Tc_U64 BOF_TIMECODE_Reset of (tc, e) \<Rightarrow>
        if e = BOF_ERR_NO_ERROR
        then let t = BofTimecode_ctor_struct tc
             in if BofTimecode_IsTimecodeValid t
                then bindO (BofTimecode_plus t NbField) (\<lambda>t. Ret (S_TimeCodeToBin (BofTimecode_ToByteStruct t) Tc_U64))
                else Ret (Tc_U64, BOF_ERR_EINVAL)
        else Ret (Tc_U64, e))"

end
