(* ===== verification/Bof_Timecode_Props.thy ===== *)
theory Bof_Timecode_Props
  imports Bof_Timecode Bof_Rational_Props
begin

text \<open>
  Time codes: what survives the binary form and the way through milliseconds, and what does not.
\<close>

unbundle bit_operations_syntax

section \<open>Bits\<close>

lemma u8_eqI:
  fixes x y :: u8
  assumes "bit x 0 = bit y 0" "bit x 1 = bit y 1" "bit x 2 = bit y 2" "bit x 3 = bit y 3"
    "bit x 4 = bit y 4" "bit x 5 = bit y 5" "bit x 6 = bit y 6" "bit x 7 = bit y 7"
  shows "x = y"
proof (rule bit_word_eqI)
  fix n assume "n < LENGTH(8)"
  then have "n \<in> {0, 1, 2, 3, 4, 5, 6, 7}" by auto
  with assms show "bit x n = bit y n" by blast
qed

lemma small_bits: "uint (d::u8) < 2 ^ k \<Longrightarrow> k \<le> n \<Longrightarrow> \<not> bit d n"
proof -
  assume "uint d < 2 ^ k" "k \<le> n"
  from this(2) have "(2::int) ^ k \<le> 2 ^ n" by (rule power_increasing) simp
  with \<open>uint d < 2 ^ k\<close> have "uint d < 2 ^ n" by (rule order_less_le_trans)
  then have "uint d div 2 ^ n = 0" by (intro div_pos_pos_trivial) simp_all
  then have "\<not> bit (uint d) n" by (simp add: bit_iff_odd)
  then show ?thesis using bit_imp_le_length [of d n] by (auto simp: bit_uint_iff)
qed

text \<open>A number of fewer than \<open>k\<close> bits.\<close>

definition tc_bits :: "nat \<Rightarrow> u8 \<Rightarrow> bool" where
  "tc_bits k d \<longleftrightarrow> (\<forall>n. k \<le> n \<longrightarrow> \<not> bit d n)"

lemma tc_bitsD: "tc_bits k d \<Longrightarrow> k \<le> n \<Longrightarrow> \<not> bit d n"
  by (simp add: tc_bits_def)

lemma or_if: "(if D then (b::u64) OR k else b) = b OR (if D then k else 0)"
  by simp

lemma bit_if: "bit (if D then k else 0) n \<longleftrightarrow> D \<and> bit k n"
  by simp

lemma u8_bits: "8 \<le> n \<Longrightarrow> \<not> bit (d::u8) n"
  using bit_imp_le_length [of d n] by auto

text \<open>The binary form of the eight digits, the four user bytes and the three flags.\<close>

definition tc_word :: "u8 \<Rightarrow> u8 \<Rightarrow> u8 \<Rightarrow> u8 \<Rightarrow> u8 \<Rightarrow> u8 \<Rightarrow> u8 \<Rightarrow> u8 \<Rightarrow> u8 \<Rightarrow> u8 \<Rightarrow> u8 \<Rightarrow> u8 \<Rightarrow> bool \<Rightarrow> bool \<Rightarrow> bool \<Rightarrow> u64" where
  "tc_word f0 f1 s0 s1 m0 m1 h0 h1 u0 u1 u2 u3 D C P =
     (let b = ucast (ucast f0 :: u32);
          b = tc_put32 (tc_put32 (tc_put32 b f1 8) s0 16) s1 24;
          b = tc_put64 (tc_put64 (tc_put64 (tc_put64 b m0 32) m1 40) h0 48) h1 56;
          b = tc_put32 (tc_put32 b (u0 AND 0x0F) 4) (u0 AND 0xF0) 8;
          b = tc_put32 (tc_put32 b (u1 AND 0x0F) 20) (u1 AND 0xF0) 24;
          b = tc_put64 (tc_put64 b (u2 AND 0x0F) 36) (u2 AND 0xF0) 40;
          b = tc_put64 (tc_put64 b (u3 AND 0x0F) 52) (u3 AND 0xF0) 56;
          b = (if D then b OR 0x00000400 else b);
          b = (if C then b OR 0x00000800 else b)
      in if P then b OR 0x08000000 else b)"

lemma tc_word_cuts:
  fixes f0 f1 s0 s1 m0 m1 h0 h1 u0 u1 u2 u3 :: u8 and D C P :: bool
  assumes d: "tc_bits 4 f0" "tc_bits 2 f1" "tc_bits 4 s0" "tc_bits 3 s1" "tc_bits 4 m0" "tc_bits 3 m1" "tc_bits 4 h0" "tc_bits 2 h1"
  defines "b \<equiv> tc_word f0 f1 s0 s1 m0 m1 h0 h1 u0 u1 u2 u3 D C P"
  shows "tc_cut (ucast b) 0x0000000F 0 = f0" "tc_cut (ucast b) 0x00000300 8 = f1"
    "tc_cut (ucast b) 0x000F0000 16 = s0" "tc_cut (ucast b) 0x07000000 24 = s1"
    "tc_cut (ucast (drop_bit 32 b)) 0x0000000F 0 = m0" "tc_cut (ucast (drop_bit 32 b)) 0x00000700 8 = m1"
    "tc_cut (ucast (drop_bit 32 b)) 0x000F0000 16 = h0" "tc_cut (ucast (drop_bit 32 b)) 0x03000000 24 = h1"
    "tc_cut (ucast b) 0x0000F000 8 OR tc_cut (ucast b) 0x000000F0 4 = u0"
    "tc_cut (ucast b) 0xF0000000 24 OR tc_cut (ucast b) 0x00F00000 20 = u1"
    "tc_cut (ucast (drop_bit 32 b)) 0x0000F000 8 OR tc_cut (ucast (drop_bit 32 b)) 0x000000F0 4 = u2"
    "tc_cut (ucast (drop_bit 32 b)) 0xF0000000 24 OR tc_cut (ucast (drop_bit 32 b)) 0x00F00000 20 = u3"
  unfolding b_def tc_word_def tc_cut_def tc_put32_def tc_put64_def Let_def or_if
  by (rule u8_eqI; simp add: bit_simps bit_if u8_bits d [THEN tc_bitsD])+

lemma bit_test: "((x::u32) AND 2 ^ k \<noteq> 0) = bit x k"
  using and_exp_eq_0_iff_not_bit [of x k] by simp

lemma tc_word_flags:
  fixes f0 f1 s0 s1 m0 m1 h0 h1 u0 u1 u2 u3 :: u8 and D C P :: bool
  assumes d: "tc_bits 4 f0" "tc_bits 2 f1" "tc_bits 4 s0" "tc_bits 3 s1"
  defines "b \<equiv> ucast (tc_word f0 f1 s0 s1 m0 m1 h0 h1 u0 u1 u2 u3 D C P) :: u32"
  shows "(b AND 0x00000400 \<noteq> 0) = D" "(b AND 0x00000800 \<noteq> 0) = C" "(b AND 0x08000000 \<noteq> 0) = P"
proof -
  have "bit b 10 = D" "bit b 11 = C" "bit b 27 = P"
    unfolding b_def tc_word_def tc_cut_def tc_put32_def tc_put64_def Let_def or_if by (simp_all add: bit_simps bit_if u8_bits d [THEN tc_bitsD])
  with bit_test [of b 10] bit_test [of b 11] bit_test [of b 27]
  show "(b AND 0x00000400 \<noteq> 0) = D" "(b AND 0x00000800 \<noteq> 0) = C" "(b AND 0x08000000 \<noteq> 0) = P" by simp_all
qed

section \<open>The binary form\<close>

lemma uint_div10: "uint ((x::u8) div 10) = uint x div 10"
  by (simp add: uint_div_distrib)

lemma uint_low_digit: "uint (tc_low_digit x) = uint x mod 10"
proof -
  have "x - x div 10 * 10 = x mod 10" by (simp add: minus_div_mult_eq_mod)
  then show ?thesis by (simp add: tc_low_digit_def uint_mod_distrib)
qed

lemma low_digit_bits: "tc_bits 4 (tc_low_digit x)"
  using small_bits [of "tc_low_digit x" 4] by (simp add: tc_bits_def uint_low_digit)

lemma high_digit_bits: "uint x < 10 * 2 ^ k \<Longrightarrow> tc_bits k ((x::u8) div 10)"
  using small_bits [of "x div 10" k] by (simp add: tc_bits_def uint_div10)

lemma digits [simp]: "10 * (x div 10) + tc_low_digit x = x"
  by (simp add: tc_low_digit_def)

lemma Validate_frame:
  assumes "S_ValidateTimecode tc = BOF_ERR_NO_ERROR"
  shows "uint (tc_Frame_U8 tc) < 30"
  using assms by (auto simp: S_ValidateTimecode_def word_less_def split: if_splits)

lemma TimeCodeToBin_word:
  assumes "S_ValidateTimecode tc = BOF_ERR_NO_ERROR"
  shows "S_TimeCodeToBin tc b =
    (tc_word (tc_low_digit (tc_Frame_U8 tc)) (tc_Frame_U8 tc div 10) (tc_low_digit (tc_Second_U8 tc)) (tc_Second_U8 tc div 10)
       (tc_low_digit (tc_Minute_U8 tc)) (tc_Minute_U8 tc div 10) (tc_low_digit (tc_Hour_U8 tc)) (tc_Hour_U8 tc div 10)
       (tc_pUserBit0_U8 tc) (tc_pUserBit1_U8 tc) (tc_pUserBit2_U8 tc) (tc_pUserBit3_U8 tc)
       (tc_flag tc BOF_TIMECODE_FLAG_DROP) (tc_flag tc BOF_TIMECODE_FLAG_COLOR_FRAME) (tc_flag tc BOF_TIMECODE_FLAG_PARITY_ODD),
     BOF_ERR_NO_ERROR)"
  unfolding S_TimeCodeToBin_def assms tc_word_def Let_def by simp

text \<open>What remains of the flags.\<close>

definition tc_kept_flags :: "BOF_TIMECODE \<Rightarrow> u8" where
  "tc_kept_flags tc = tc_TcFlag_U8 tc AND (BOF_TIMECODE_FLAG_DROP OR BOF_TIMECODE_FLAG_COLOR_FRAME OR BOF_TIMECODE_FLAG_PARITY_ODD)"

definition tc_flags_of :: "bool \<Rightarrow> bool \<Rightarrow> bool \<Rightarrow> u8" where
  "tc_flags_of D C P = (if D then BOF_TIMECODE_FLAG_DROP else 0) OR (if C then BOF_TIMECODE_FLAG_COLOR_FRAME else 0)
     OR (if P then BOF_TIMECODE_FLAG_PARITY_ODD else 0)"

lemma kept_flags:
  "tc_flags_of (tc_flag tc BOF_TIMECODE_FLAG_DROP) (tc_flag tc BOF_TIMECODE_FLAG_COLOR_FRAME) (tc_flag tc BOF_TIMECODE_FLAG_PARITY_ODD)
     = tc_kept_flags tc"
proof -
  have t: "(x AND 2 ^ k \<noteq> 0) = bit x k" for x :: u8 and k using and_exp_eq_0_iff_not_bit [of x k] by simp
  show ?thesis using t [of _ 0] t [of _ 1] t [of _ 6]
    by (intro u8_eqI) (simp_all add: tc_kept_flags_def tc_flags_of_def tc_flag_def tc_flag_defs bit_simps bit_if)
qed

lemma BinToTimeCode_word:
  assumes d: "tc_bits 4 f0" "tc_bits 2 f1" "tc_bits 4 s0" "tc_bits 3 s1" "tc_bits 4 m0" "tc_bits 3 m1" "tc_bits 4 h0" "tc_bits 2 h1"
  shows "S_BinToTimeCode (tc_word f0 f1 s0 s1 m0 m1 h0 h1 u0 u1 u2 u3 D C P) tc0 =
    (let tc = tc0\<lparr>tc_Frame_U8 := 10 * f1 + f0, tc_Second_U8 := 10 * s1 + s0, tc_Minute_U8 := 10 * m1 + m0, tc_Hour_U8 := 10 * h1 + h0,
       tc_pUserBit0_U8 := u0, tc_pUserBit1_U8 := u1, tc_pUserBit2_U8 := u2, tc_pUserBit3_U8 := u3,
       tc_TcFlag_U8 := tc_flags_of D C P\<rparr>
     in (tc, S_ValidateTimecode tc))"
proof -
  note cuts = tc_word_cuts [of f0 f1 s0 s1 m0 m1 h0 h1, OF d]
  note flags = tc_word_flags [of f0 f1 s0 s1, OF d(1-4)]
  show ?thesis unfolding S_BinToTimeCode_def Let_def cuts flags tc_set_flag_def tc_flags_of_def
    by (cases D; cases C; cases P; cases tc0; simp add: or.assoc)
qed

definition tc_read_back :: "BOF_TIMECODE \<Rightarrow> BOF_TIMECODE \<Rightarrow> BOF_TIMECODE" where
  "tc_read_back tc tc0 = tc\<lparr>tc_TcFlag_U8 := tc_kept_flags tc, tc_NbDay_U16 := tc_NbDay_U16 tc0, tc_Spare_U8 := tc_Spare_U8 tc0\<rparr>"

section \<open>Milliseconds\<close>




lemma NTSC_flag [simp]:
  "tc_flag (tc\<lparr>tc_TcFlag_U8 := (if b then BOF_TIMECODE_FLAG_NTSC else 0)\<rparr>) BOF_TIMECODE_FLAG_NTSC = b"
  by (simp add: tc_flag_def tc_flag_defs)














text \<open>
  Whatever the digits, the units and the frame are read back; of the tens of the seconds and minutes three bits
  remain, of the tens of the hours two.
\<close>

lemma tc_word_cuts_any:
  fixes f0 f1 s0 s1 m0 m1 h0 h1 u0 u1 u2 u3 :: u8 and D C P :: bool
  assumes d: "tc_bits 4 f0" "tc_bits 2 f1" "tc_bits 4 s0" "tc_bits 4 m0" "tc_bits 4 h0"
  defines "b \<equiv> tc_word f0 f1 s0 s1 m0 m1 h0 h1 u0 u1 u2 u3 D C P"
  shows "tc_cut (ucast b) 0x0000000F 0 = f0" "tc_cut (ucast b) 0x00000300 8 = f1"
    "tc_cut (ucast b) 0x000F0000 16 = s0" "tc_cut (ucast b) 0x07000000 24 = take_bit 3 s1"
    "tc_cut (ucast (drop_bit 32 b)) 0x0000000F 0 = m0" "tc_cut (ucast (drop_bit 32 b)) 0x00000700 8 = take_bit 3 m1"
    "tc_cut (ucast (drop_bit 32 b)) 0x000F0000 16 = h0" "tc_cut (ucast (drop_bit 32 b)) 0x03000000 24 = take_bit 2 h1"
  unfolding b_def tc_word_def tc_cut_def tc_put32_def tc_put64_def Let_def or_if
  by (rule u8_eqI; simp add: bit_simps bit_if u8_bits d [THEN tc_bitsD])+

lemma uint_two_digits:
  assumes "k \<le> 3"
  shows "uint (10 * take_bit k (x div 10) + tc_low_digit x) = 10 * (uint x div 10 mod 2 ^ k) + uint x mod 10"
proof -
  have t: "uint (take_bit k (x div 10)) = uint x div 10 mod 2 ^ k"
    by (simp only: unsigned_take_bit_eq uint_div10) (simp add: take_bit_eq_mod)
  have "uint x div 10 mod 2 ^ k < 2 ^ k" by simp
  also have "(2::int) ^ k \<le> 2 ^ 3" using assms by (rule power_increasing) simp
  finally have "10 * (uint x div 10 mod 2 ^ k) + uint x mod 10 < 2 ^ 8"
    using pos_mod_bound [of 10 "uint x"] by simp
  moreover have "0 \<le> 10 * (uint x div 10 mod 2 ^ k) + uint x mod 10" by simp
  ultimately show ?thesis by (simp add: uint_word_ariths t uint_low_digit)
qed

lemma Timecode_read_back_digits:
  fixes tc tc0 :: BOF_TIMECODE and b :: u64
  assumes "S_ValidateTimecode tc = BOF_ERR_NO_ERROR"
  defines "tc' \<equiv> fst (S_BinToTimeCode (fst (S_TimeCodeToBin tc b)) tc0)"
  shows "tc_Frame_U8 tc' = tc_Frame_U8 tc"
    "uint (tc_Hour_U8 tc') = 10 * (uint (tc_Hour_U8 tc) div 10 mod 4) + uint (tc_Hour_U8 tc) mod 10"
    "uint (tc_Minute_U8 tc') = 10 * (uint (tc_Minute_U8 tc) div 10 mod 8) + uint (tc_Minute_U8 tc) mod 10"
    "uint (tc_Second_U8 tc') = 10 * (uint (tc_Second_U8 tc) div 10 mod 8) + uint (tc_Second_U8 tc) mod 10"
proof -
  have F: "uint (tc_Frame_U8 tc) < 10 * 2 ^ 2" using Validate_frame [OF assms(1)] by simp
  note cuts = tc_word_cuts_any [OF low_digit_bits high_digit_bits [OF F] low_digit_bits low_digit_bits low_digit_bits]
  show "tc_Frame_U8 tc' = tc_Frame_U8 tc"
    "uint (tc_Hour_U8 tc') = 10 * (uint (tc_Hour_U8 tc) div 10 mod 4) + uint (tc_Hour_U8 tc) mod 10"
    "uint (tc_Minute_U8 tc') = 10 * (uint (tc_Minute_U8 tc) div 10 mod 8) + uint (tc_Minute_U8 tc) mod 10"
    "uint (tc_Second_U8 tc') = 10 * (uint (tc_Second_U8 tc) div 10 mod 8) + uint (tc_Second_U8 tc) mod 10"
    unfolding tc'_def TimeCodeToBin_word [OF assms(1)] S_BinToTimeCode_def Let_def fst_conv cuts
    using uint_two_digits [of 2] uint_two_digits [of 3] by (simp_all add: tc_set_flag_def)
qed

lemma Timecode_in_range_round_trip:
  assumes "S_ValidateTimecode tc = BOF_ERR_NO_ERROR" "tc_Hour_U8 tc < 40" "tc_Minute_U8 tc < 80" "tc_Second_U8 tc < 80"
  shows "snd (S_TimeCodeToBin tc b) = BOF_ERR_NO_ERROR
    \<and> S_BinToTimeCode (fst (S_TimeCodeToBin tc b)) tc0
      = (tc_read_back tc tc0, if tc_flag tc BOF_TIMECODE_FLAG_NTSC \<and> (25 \<le> tc_Frame_U8 tc \<or> tc_flag tc BOF_TIMECODE_FLAG_DROP)
              then BOF_ERR_TOO_BIG else BOF_ERR_NO_ERROR)"
proof -
  define tc' where "tc' = tc_read_back tc tc0"
  note tc'_def = tc'_def [unfolded tc_read_back_def]
  let ?F = "tc_Frame_U8 tc" and ?S = "tc_Second_U8 tc" and ?M = "tc_Minute_U8 tc" and ?H = "tc_Hour_U8 tc"
  have F: "uint ?F < 10 * 2 ^ 2" using Validate_frame [OF assms(1)] by simp
  have S: "uint ?S < 10 * 2 ^ 3" and M: "uint ?M < 10 * 2 ^ 3" and H: "uint ?H < 10 * 2 ^ 2" using assms(2-4) by (simp_all add: word_less_def)
  note read = BinToTimeCode_word [of "tc_low_digit ?F" "?F div 10" "tc_low_digit ?S" "?S div 10" "tc_low_digit ?M" "?M div 10"
      "tc_low_digit ?H" "?H div 10", OF low_digit_bits high_digit_bits [OF F] low_digit_bits high_digit_bits [OF S]
      low_digit_bits high_digit_bits [OF M] low_digit_bits high_digit_bits [OF H]]
    kept_flags [of tc]
  have tc': "S_BinToTimeCode (fst (S_TimeCodeToBin tc b)) tc0 = (tc', S_ValidateTimecode tc')"
    unfolding TimeCodeToBin_word [OF assms(1)] fst_conv read Let_def digits tc'_def by (cases tc; cases tc0) simp
  have "tc_flag tc' BOF_TIMECODE_FLAG_NTSC = False" "tc_flag tc' BOF_TIMECODE_FLAG_DROP = tc_flag tc BOF_TIMECODE_FLAG_DROP"
    by (simp_all add: tc'_def tc_flag_def tc_kept_flags_def tc_flag_defs and.assoc)
  then have "S_ValidateTimecode tc' = (if tc_flag tc BOF_TIMECODE_FLAG_NTSC \<and> (25 \<le> ?F \<or> tc_flag tc BOF_TIMECODE_FLAG_DROP)
              then BOF_ERR_TOO_BIG else BOF_ERR_NO_ERROR)"
    using assms(1) by (auto simp: S_ValidateTimecode_def tc'_def not_less split: if_splits)
  with tc' TimeCodeToBin_word [OF assms(1), of b] show ?thesis by (simp add: tc'_def tc_read_back_def)
qed

section \<open>Properties\<close>

text \<open>
  C9. The binary form of a time code that \<^verbatim>\<open>S_ValidateTimecode\<close> accepts. With fewer than 40 hours, 80 minutes and 80 seconds
  it is read back as the same time, the same user bytes and the same flags except one: the video standard is not in the binary
  form. So a PAL time code is read back without error; an NTSC one loses its standard, and is rejected when it has 25
  frames or more or is a drop-frame time code. The day and the spare byte are those of the record that is filled. The
  validation also accepts larger times, as 99:99:99, and these are not read back: in every case the frame and the units are kept, but
  the tens of the hours come back modulo 4, those of the minutes and seconds modulo 8.
\<close>

theorem BofTimecode_binary_round_trip:
  assumes "S_ValidateTimecode tc = BOF_ERR_NO_ERROR"
  shows "snd (S_TimeCodeToBin tc b) = BOF_ERR_NO_ERROR
    \<and> (let tc' = fst (S_BinToTimeCode (fst (S_TimeCodeToBin tc b)) tc0)
       in tc_Frame_U8 tc' = tc_Frame_U8 tc
        \<and> uint (tc_Hour_U8 tc') = 10 * (uint (tc_Hour_U8 tc) div 10 mod 4) + uint (tc_Hour_U8 tc) mod 10
        \<and> uint (tc_Minute_U8 tc') = 10 * (uint (tc_Minute_U8 tc) div 10 mod 8) + uint (tc_Minute_U8 tc) mod 10
        \<and> uint (tc_Second_U8 tc') = 10 * (uint (tc_Second_U8 tc) div 10 mod 8) + uint (tc_Second_U8 tc) mod 10)
    \<and> (tc_Hour_U8 tc < 40 \<and> tc_Minute_U8 tc < 80 \<and> tc_Second_U8 tc < 80 \<longrightarrow>
         S_BinToTimeCode (fst (S_TimeCodeToBin tc b)) tc0
           = (tc_read_back tc tc0, if tc_flag tc BOF_TIMECODE_FLAG_NTSC \<and> (25 \<le> tc_Frame_U8 tc \<or> tc_flag tc BOF_TIMECODE_FLAG_DROP)
              then BOF_ERR_TOO_BIG else BOF_ERR_NO_ERROR))"
  unfolding Let_def using TimeCodeToBin_word [OF assms, of b]
  by (intro conjI impI Timecode_read_back_digits [OF assms])
     (simp, use Timecode_in_range_round_trip [OF assms] in blast)

theorem BofTimecode_binary_round_trip_witness:
  "S_BinToTimeCode (fst (S_TimeCodeToBin (BOF_TIMECODE_Reset\<lparr>tc_Hour_U8 := 23, tc_Minute_U8 := 59, tc_Frame_U8 := 28, tc_TcFlag_U8 := 0x81,
       tc_pUserBit1_U8 := 0xA5\<rparr>) 0)) BOF_TIMECODE_Reset
     = (BOF_TIMECODE_Reset\<lparr>tc_Hour_U8 := 23, tc_Minute_U8 := 59, tc_Frame_U8 := 28, tc_TcFlag_U8 := 0x01, tc_pUserBit1_U8 := 0xA5\<rparr>,
        BOF_ERR_TOO_BIG)"
  using BofTimecode_binary_round_trip [of "BOF_TIMECODE_Reset\<lparr>tc_Hour_U8 := 23, tc_Minute_U8 := 59, tc_Frame_U8 := 28, tc_TcFlag_U8 := 0x81,
       tc_pUserBit1_U8 := 0xA5\<rparr>" 0 BOF_TIMECODE_Reset]
  by (simp add: BOF_TIMECODE_Reset_def S_ValidateTimecode_def BofDateTime_IsValid_def date_last_day_def tc_flag_def tc_flag_defs
      tc_read_back_def tc_kept_flags_def)



end
