(* ===== verification/Spec2Isabelle.thy ===== *)
theory Spec2Isabelle
  imports Bof_CircularBuffer_Props Bof_RawCircularBuffer_Props Bof_Avl_Props Bof_Pot_Props Bof_Buffer_Props Bof_Bit_Props
    Bof_BinSerializer_Props Bof_List_Props Bof_RamDb_Props Bof_Crypto_Props Bof_ListOf_Props
    Bof_Rational_Props Bof_Timecode_Props
begin

text \<open>
  A verification development for bofstd, the onbings C++ foundation library
  (\<^verbatim>\<open>src/lib\<close>): the containers, buffers and helpers a program built on it shares
  between its threads.

  \<^bold>\<open>The parts and how they fit.\<close> The containers (\<^verbatim>\<open>bofcircularbuffer.h\<close>, \<^verbatim>\<open>bofpot.h\<close>,
  \<^verbatim>\<open>bofavltree.h\<close> on \<^verbatim>\<open>bofavlnode.h\<close>, \<^verbatim>\<open>boflist.h\<close>, \<^verbatim>\<open>bofbuffer.h\<close>) protect their state with the mutexes and
  wait on the events of \<^verbatim>\<open>bofsystem.h\<close>; the byte buffer also allocates aligned memory
  (\<^verbatim>\<open>bofbuffer.cpp\<close>), which asks \<^verbatim>\<open>bofbit.cpp\<close> whether an alignment is a power of two. The raw
  circular buffer (\<^verbatim>\<open>bofrawcircularbuffer.cpp\<close>) keeps the descriptors of its byte strings in a
  circular buffer; the lists of \<^verbatim>\<open>boflist.h\<close> take their nodes from one another; the
  in-memory database (\<^verbatim>\<open>boframdb.h\<close>) keeps one AVL tree per key over one table of records.
  The queue of \<^verbatim>\<open>boffifoof.h\<close> takes its items from the pool of \<^verbatim>\<open>bofpoolof.h\<close>, and both keep them in the intrusive
  lists of \<^verbatim>\<open>boflistof.h\<close>, one of which works without locks.
  The time codes (\<^verbatim>\<open>boftimecode.cpp\<close>) keep their rate as a rational number (\<^verbatim>\<open>bofrational.h\<close>).
  The hash functions (\<^verbatim>\<open>bofcrypto.cpp\<close>) stand alone.
  A C++ class is a \<open>record\<close>, its arrays are lists with checked accesses, its
  unsigned integers are words of their width, and a method is a function from
  the state to an \<open>outcome\<close> (\<^verbatim>\<open>Bof_Prelude\<close>): it returns, waits for ever for a mutex,
  fails an assertion, does something C++ gives no meaning to, or is still in a
  retry loop when its schedule ends. Every error code and early return of the
  source is a branch of the model.

  \<^bold>\<open>The theories.\<close>
  \<^item> \<^verbatim>\<open>Bof_Prelude\<close>: error codes, outcomes, array accesses, lemmas on words as counters.
  \<^item> \<^verbatim>\<open>Bof_Sync\<close>: \<^verbatim>\<open>BOF_MUTEX\<close>, \<^verbatim>\<open>BOF_EVENT\<close>, \<^verbatim>\<open>BOF_SEMAPHORE\<close> and their operations, from the point of
    view of the calling thread. The semaphore never has more holders than places;
    which bits of an event a wait consumes and a creation sets.
  \<^item> \<^verbatim>\<open>Bof_Ring\<close>, \<^verbatim>\<open>Bof_Fifo_Spec\<close>, \<^verbatim>\<open>Bof_CircularBuffer\<close> and its \<^verbatim>\<open>_Proofs\<close> and \<^verbatim>\<open>_Props\<close>: the circular
    buffer, every public method. \<^verbatim>\<open>Bof_Ring\<close> has the arithmetic of the indices; the locale
    \<open>bounded_fifo\<close> is the contract of a bounded queue of the elements that fit, interpreted
    on push and pop.
    A blocking call is run against a schedule, the list of what the other threads
    do while it waits or between its retries.
  \<^item> \<^verbatim>\<open>Bof_RawCircularBuffer\<close>, \<^verbatim>\<open>Bof_RawCircularBuffer_Props\<close>: the circular buffer of byte strings,
    composed with the model of the circular buffer it holds. In slot mode it is a
    second interpretation of \<open>bounded_fifo\<close>, whose proof uses the first; where the head
    goes when a push wraps around, and what a peek takes away.
  \<^item> \<^verbatim>\<open>Bof_Index_Spec\<close>, \<^verbatim>\<open>Bof_Avl\<close>, \<^verbatim>\<open>Bof_Avl_Proofs\<close>, \<^verbatim>\<open>Bof_Avl_Search\<close>, \<^verbatim>\<open>Bof_Avl_Props\<close>: the AVL tree. The locale
    \<open>sorted_index\<close> is the contract of a sorted list without duplicates; the tree is
    proved to implement it, to stay balanced and of logarithmic height whatever is inserted
    and deleted, and to be searched and walked in order.
  \<^item> \<^verbatim>\<open>Bof_Pool_Spec\<close>, \<^verbatim>\<open>Bof_Pot\<close>, \<^verbatim>\<open>Bof_Pot_Proofs\<close>, \<^verbatim>\<open>Bof_Pot_Props\<close>: the pot, a pool of preallocated
    elements, with the contract \<open>resource_pool\<close>: no element is handed out twice.
  \<^item> \<^verbatim>\<open>Bof_Stream_Spec\<close>, \<^verbatim>\<open>Bof_Buffer\<close>, \<^verbatim>\<open>Bof_Buffer_Props\<close>: the byte buffer over an explicit heap of
    blocks, with the contract \<open>byte_stream\<close>: the counts and bytes of every call are those of the
    abstract stream \<open>stream_ref\<close>; allocation and release, and which operations deadlock on an
    aligned buffer.
  \<^item> \<^verbatim>\<open>Bof_Bit\<close>, \<^verbatim>\<open>Bof_Bit_Props\<close>: the bit functions against their arithmetic meaning.
  \<^item> \<^verbatim>\<open>Bof_BinSerializer\<close>, \<^verbatim>\<open>Bof_BinSerializer_Props\<close>: the binary serializer; what is written is
    read back, in both byte orders of processor and stream.
  \<^item> \<^verbatim>\<open>Bof_Deque_Spec\<close>, \<^verbatim>\<open>Bof_List\<close>, \<^verbatim>\<open>Bof_Chain\<close>, \<^verbatim>\<open>Bof_List_Proofs\<close>, \<^verbatim>\<open>Bof_List_Inv\<close>, \<^verbatim>\<open>Bof_List_Sort\<close>,
    \<^verbatim>\<open>Bof_List_Props\<close>: the doubly linked lists with shared pools of nodes, over an
    explicit store. \<^verbatim>\<open>Bof_Chain\<close> has the segments of links; the methods are proved equal to
    effects on the store, the effects to keep the invariant that every node is in one
    list or in one free chain; the locale \<open>list_family\<close> is the contract of lists that share
    pools. The sort is followed pass by pass to a stable merge sort on lists.
  \<^item> \<^verbatim>\<open>Bof_Table_Spec\<close>, \<^verbatim>\<open>Bof_RamDb\<close>, \<^verbatim>\<open>Bof_RamDb_Proofs\<close>, \<^verbatim>\<open>Bof_RamDb_Inv\<close>, \<^verbatim>\<open>Bof_RamDb_Ops\<close>,
    \<^verbatim>\<open>Bof_RamDb_Walk\<close>, \<^verbatim>\<open>Bof_RamDb_Check\<close>, \<^verbatim>\<open>Bof_RamDb_Props\<close>: the in-memory database, composed with the
    model of the AVL tree. The locale \<open>record_table\<close> is the contract of a bounded table of
    records with several unique keys and cursors. \<^verbatim>\<open>_Proofs\<close> follows the loops over the
    indexes, \<^verbatim>\<open>_Inv\<close> the invariant (every index holds the same records, every other entry is
    on the free list) through insertion, deletion and update, \<^verbatim>\<open>_Ops\<close> the searches and the
    cursors, \<^verbatim>\<open>_Walk\<close> the walks through an index, \<^verbatim>\<open>_Check\<close> the integrity check.
  \<^item> \<^verbatim>\<open>Bof_Hash_Spec\<close>, \<^verbatim>\<open>Bof_Crypto\<close>, \<^verbatim>\<open>Bof_Crypto_Md5\<close>, \<^verbatim>\<open>Bof_Crypto_Sha1\<close>, \<^verbatim>\<open>Bof_Crypto_Props\<close>: MD5 and SHA-1. The
    standards are stated on whole messages; the locales \<open>stream_hash\<close> and \<open>reusable_hash\<close> are the
    contracts of objects that are given a message in pieces. The unrolled operations are
    proved equal to those of the standards, and the contexts to hold the message so far.
  \<^item> \<^verbatim>\<open>Bof_ListOf\<close>, \<^verbatim>\<open>Bof_ListOf_Threads\<close>, \<^verbatim>\<open>Bof_ListOf_Proofs\<close>, \<^verbatim>\<open>Bof_ListOf_Props\<close>: the intrusive lists, the pool and the
    queue over them. The list without locks is given as the atomic steps of a thread
    (\<open>sl_step\<close>), the threads that share it as a step relation on worlds (\<open>sl_act\<close>, \<open>sl_reaches\<close>);
    \<^verbatim>\<open>_Threads\<close> proves by rule induction that it is a stack under any interleaving, and by how much its counter
    is off (\<open>sl_counts\<close> counts the insertions that are given up), \<^verbatim>\<open>_Proofs\<close> what the calls of one thread do. The pool is a second interpretation of \<open>resource_pool\<close>, the
    queue with its own storage a third of \<open>bounded_fifo\<close>.
  \<^item> \<^verbatim>\<open>Bof_Rational\<close>, \<^verbatim>\<open>Bof_Rational_Props\<close>: the rational numbers of 64-bit words against the type \<open>rat\<close>: exact
    and in lowest terms while nothing negative is reduced, wrong afterwards; no denominator is ever zero; what
    \<^verbatim>\<open>Floor\<close>, \<^verbatim>\<open>Ceil\<close> and \<^verbatim>\<open>Round\<close> are for every fraction that is not negative, wrapped sums included.
  \<^item> \<^verbatim>\<open>Bof_Timecode\<close>, \<^verbatim>\<open>Bof_Timecode_Props\<close>: time codes, their binary form and their milliseconds. The digits and flags are
    followed bit by bit through the packed word; the conversions are shown exact for PAL, and what they lose for NTSC
    and for times the validation should not accept.

  \<^bold>\<open>Bounds and fuel.\<close> \<open>avl_count\<close>-bounded recursion of the AVL tree is given the number of
  nodes, more than its height; that the climb of a search ends is proved.
  \<open>BOF_BUFFER_ReleaseStorage_depth\<close> is run at depth 2: the inner call finds the
  deleter cleared. The loops of \<^verbatim>\<open>bofbit.cpp\<close> are functions with a termination proof.
  A request to a pool climbs at most as many lists as the address of the first one,
  the loops of a list take one turn per element, and its sort at most 31 passes: a
  list of \<open>2 ^ 30\<close> elements needs 30. The overwrite loop of the raw circular buffer takes one
  turn per element it drops and one more. A walk through an index of the database and the
  loops of its check are given the capacity: a check of \<open>2 ^ 32 - 1\<close> entries would not end,
  since its counter cannot pass the limit, and the properties keep below it.
  The loops of the MD5 encoder and
  block loop are given the number of bytes. A call on a list without locks that nobody
  interferes with ends within ten steps; the interleavings are of at most \<open>2 ^ 64\<close> actions, so that
  the tag of the list does not wrap around.
  A call whose schedule is too short is \<open>Retrying\<close>; the properties say for which
  schedules it returns.

  \<^bold>\<open>Parameters.\<close> What lies outside the sources is an argument of the model: the
  allocators and the page calls of the operating system (\<open>buf_os\<close>), the content
  of fresh memory, the ordering of the keys of the AVL tree, the comparison of
  the elements of a list and of the records of the database, its default record, the
  byte order of the processor.
  The handle of a cursor is null or the place of a cursor; using one that stands on a
  record that has left the database is undefined, as in C++.

  \<^bold>\<open>Not modelled.\<close> The parts that only call the operating system or a third-party
  library (sockets, files, threads, console, logging); the copy constructor of
  \<^verbatim>\<open>BOF_BUFFER\<close>, which reads a field nothing has set; pointers into the pot that do not
  point to an element; the profiling of the lists, which is not compiled; the textual dump
  of the database; \<^verbatim>\<open>RemoveItem\<close> of the double list, which does not compile; the weak memory orders of
  the list without locks, whose steps are sequentially consistent here; the alignment of the multi-byte
  accesses of the serializer, which are accesses to bytes here; of the rational numbers and the
  time codes the conversions from floating point and from and to text, and the difference of two time codes, whose \<^verbatim>\<open>double\<close>
  arithmetic is not exact. The string circular buffer, the key-value tree, the graph, the queues of \<^verbatim>\<open>bofqueue.h\<close>, paths, strings,
  parameters and dates are outside this development.
\<close>

end
